(* ===== verification/Rtfs_Prelude.thy ===== *)
theory Rtfs_Prelude
  imports Main "HOL-Library.Word" "HOL-Library.Monad_Syntax"
begin

text \<open>
  Shared vocabulary of the development: the fixed-width integers of
  \<^verbatim>\<open>src/src/utils/types.h\<close>, the C return codes, the reading of \<open>option\<close> as "the call
  returns", and the generic facts on lists, options and words that the component theories use.

  Conventions used everywhere:
  \<^item> a C function that can hit an \<^verbatim>\<open>assert\<close>, a \<^verbatim>\<open>THROW_FATAL\<close> (which aborts) or an endless
    loop has a result in \<open>'a option\<close>: \<open>None\<close> is "the call never returns to its caller";
  \<^item> an errno-style return is a value of \<open>rc\<close>, never \<open>None\<close>;
  \<^item> pointers handed in by callers are values, so the \<^verbatim>\<open>NULL\<close> tests on them have no counterpart,
    except where NULL is an ordinary value of the protocol (an empty handle, an empty list).
\<close>

type_synonym u8 = "8 word"
type_synonym u16 = "16 word"
type_synonym u32 = "32 word"
type_synonym u64 = "64 word"

text \<open>The errno values the modelled code returns; \<open>RC0\<close> is the C value 0.\<close>

datatype rc = RC0 | EINVAL | ENOMEM | ENOSPC | EIO | ENOENT | ENOSYS | ENODEV | EFBIG | EOVERFLOW
  | ETIMEDOUT | EEXIST | ENAMETOOLONG | ENOTDIR | EOTHER int

text \<open>A C \<^verbatim>\<open>assert\<close>.\<close>

definition c_assert :: "bool \<Rightarrow> unit option" where
  "c_assert b = (if b then Some () else None)"

named_theorems lru_simps "behaviour of the LRU replacer's operations"
named_theorems mgr_simps "behaviour of the generic cache manager's operations"
named_theorems byte_simps "reads of bytes, words and entries after writes"

subsection \<open>The option reading of C calls\<close>

lemma c_assert_Some [simp]: "c_assert b = Some u \<longleftrightarrow> b"
  by (simp add: c_assert_def)

lemma c_assert_None [simp]: "c_assert b = None \<longleftrightarrow> \<not> b"
  by (simp add: c_assert_def)

lemma c_assert_True [simp]: "c_assert True = Some ()"
  by (simp add: c_assert_def)

lemma c_assert_bind [simp]:
  "(c_assert b \<bind> f) = (if b then f () else None)"
  by (simp add: c_assert_def)

subsection \<open>Lists without repetitions\<close>

lemma set_remove1_distinct [simp]:
  "distinct xs \<Longrightarrow> set (remove1 x xs) = set xs - {x}"
  by (simp add: set_remove1_eq)

lemma distinct_move_to_end:
  "distinct xs \<Longrightarrow> distinct (remove1 x xs @ [x])"
  by auto

lemma length_remove1_mem:
  "x \<in> set xs \<Longrightarrow> Suc (length (remove1 x xs)) = length xs"
  by (simp add: length_remove1) (metis Suc_pred length_pos_if_in_set)

lemma remove1_last_append:
  "distinct xs \<Longrightarrow> xs \<noteq> [] \<Longrightarrow> last xs = x \<Longrightarrow> remove1 x xs @ [x] = xs"
  by (cases xs rule: rev_cases) (auto simp: remove1_append)

lemma sorted_wrt_remove1: "sorted_wrt P xs \<Longrightarrow> sorted_wrt P (remove1 x xs)"
  by (induction xs) (auto dest: notin_set_remove1 set_remove1_subset [THEN subsetD])

lemma find_key_None: "k \<notin> f ` set xs \<Longrightarrow> find (\<lambda>x. f x = k) xs = None"
  unfolding find_None_iff by (metis imageI)

subsection \<open>Words as numbers\<close>

lemma unat_word_eqI: "unat v = unat w \<Longrightarrow> v = w"
  by (rule unsigned_word_eqI)

lemma unat_less_u64: "unat (x :: u64) < 18446744073709551616"
  by (rule order_less_le_trans [OF unsigned_less]) simp

lemma unat_less_u32: "unat (x :: u32) < 4294967296"
  by (rule order_less_le_trans [OF unsigned_less]) simp

lemma unat_neg1_u32 [simp]: "unat (-1 :: u32) = 4294967295"
  by (simp add: unsigned_minus_1_eq_mask mask_eq_exp_minus_1)

lemma unat_add1_u32: "x \<noteq> (-1 :: u32) \<Longrightarrow> unat (x + 1) = unat x + 1"
  using unatSuc [of x] by (metis Suc_eq_plus1 add.commute eq_neg_iff_add_eq_0)

lemma unat_ucast_u32_u64 [simp]: "unat (ucast (x :: u32) :: u64) = unat x"
  using unat_less_u32 [of x] by (simp add: unsigned_ucast_eq take_bit_nat_eq_self)

lemma word_div_mod_cong:
  fixes a b :: u32
  assumes "a div d = b div d" and "a mod d = b mod d"
  shows "a = b"
  using assms by (metis div_mult_mod_eq)

lemma unat_of_nat_u32: "n < 4294967296 \<Longrightarrow> unat (of_nat n :: u32) = n"
  by (simp add: unat_of_nat)

end
