(* ===== verification/Cache_Interfaces.thy ===== *)
theory Cache_Interfaces
  imports Rtfs_Prelude
begin

text \<open>
  The contracts between the layers of \<^verbatim>\<open>src/src/cache\<close>. \<open>kv_index\<close> is what the cache manager needs
  of the index (\<^verbatim>\<open>cache_index_manager.c\<close>), \<open>replacer\<close> what it needs of the replacement policy
  (\<^verbatim>\<open>cache_lru_replacer.c\<close>), \<open>pin_manager\<close> what the block caches need of the cache manager
  (\<^verbatim>\<open>generic_cache_manager.c\<close>). Each is interpreted on the model of the file that provides it; the
  lemmas proved inside are the ones the clients rest on.
\<close>

subsection \<open>A key/value index\<close>

locale kv_index =
  fixes xadd :: "'i \<Rightarrow> u32 \<Rightarrow> 'v \<Rightarrow> 'i option"
    and xget :: "'i \<Rightarrow> u32 \<Rightarrow> 'v option"
    and xremove :: "'i \<Rightarrow> u32 \<Rightarrow> 'v option \<times> 'i"
    and xmap :: "'i \<Rightarrow> u32 \<Rightarrow> 'v option"
  assumes xget_map: "xget i k = xmap i k"
    and xadd_fresh: "xmap i k = None \<Longrightarrow> \<exists>i'. xadd i k v = Some i' \<and> xmap i' = (xmap i)(k \<mapsto> v)"
    and xadd_dup: "xmap i k = Some w \<Longrightarrow> xadd i k v = None"
    and xremove_value: "fst (xremove i k) = xmap i k"
    and xremove_map: "xmap (snd (xremove i k)) = (xmap i)(k := None)"
begin

lemma add_then_get: "xadd i k v = Some i' \<Longrightarrow> xget i' k = Some v"
  using xadd_fresh [of i k v] xadd_dup [of i k _ v] by (cases "xmap i k") (auto simp: xget_map)

lemma add_keeps_others: "xadd i k v = Some i' \<Longrightarrow> j \<noteq> k \<Longrightarrow> xget i' j = xget i j"
  using xadd_fresh [of i k v] xadd_dup [of i k _ v] by (cases "xmap i k") (auto simp: xget_map)

lemma add_then_remove:
  assumes "xadd i k v = Some i'"
  shows "fst (xremove i' k) = Some v" and "xmap (snd (xremove i' k)) = xmap i"
proof -
  have none: "xmap i k = None"
    using assms xadd_dup [of i k] by (cases "xmap i k") auto
  then have m: "xmap i' = (xmap i)(k \<mapsto> v)"
    using assms xadd_fresh [OF none, of v] by auto
  show "fst (xremove i' k) = Some v"
    by (simp add: xremove_value m)
  show "xmap (snd (xremove i' k)) = xmap i"
    using none by (auto simp: xremove_map m fun_eq_iff)
qed

end

subsection \<open>A replacement policy with pinning\<close>

text \<open>
  \<open>rfree r\<close> lists the evictable keys in eviction order, \<open>rpinned r\<close> the protected ones.
\<close>

locale replacer =
  fixes radd :: "'r \<Rightarrow> u32 \<Rightarrow> 'r option"
    and raccess :: "'r \<Rightarrow> u32 \<Rightarrow> 'r option"
    and rcan :: "'r \<Rightarrow> bool"
    and rpop :: "'r \<Rightarrow> (u32 \<times> 'r) option"
    and rremove :: "'r \<Rightarrow> u32 \<Rightarrow> 'r option"
    and rpin :: "'r \<Rightarrow> u32 \<Rightarrow> 'r"
    and runpin :: "'r \<Rightarrow> u32 \<Rightarrow> 'r"
    and rfree :: "'r \<Rightarrow> u32 list"
    and rpinned :: "'r \<Rightarrow> u32 set"
    and rinv :: "'r \<Rightarrow> bool"
  assumes r_disjoint: "rinv r \<Longrightarrow> distinct (rfree r) \<and> set (rfree r) \<inter> rpinned r = {}"
    and r_add: "rinv r \<Longrightarrow> k \<notin> set (rfree r) \<Longrightarrow> k \<notin> rpinned r \<Longrightarrow>
      \<exists>r'. radd r k = Some r' \<and> rinv r' \<and> rfree r' = rfree r @ [k] \<and> rpinned r' = rpinned r"
    and r_add_dup: "rinv r \<Longrightarrow> k \<in> set (rfree r) \<union> rpinned r \<Longrightarrow> radd r k = None"
    and r_access_free: "rinv r \<Longrightarrow> k \<in> set (rfree r) \<Longrightarrow>
      \<exists>r'. raccess r k = Some r' \<and> rinv r' \<and> rfree r' = remove1 k (rfree r) @ [k] \<and> rpinned r' = rpinned r"
    and r_access_pinned: "rinv r \<Longrightarrow> k \<in> rpinned r \<Longrightarrow>
      \<exists>r'. raccess r k = Some r' \<and> rinv r' \<and> rfree r' = rfree r \<and> rpinned r' = rpinned r"
    and r_access_absent: "rinv r \<Longrightarrow> k \<notin> set (rfree r) \<union> rpinned r \<Longrightarrow> raccess r k = None"
    and r_can: "rinv r \<Longrightarrow> rcan r \<longleftrightarrow> rfree r \<noteq> []"
    and r_pop: "rinv r \<Longrightarrow> rfree r = k # ks \<Longrightarrow>
      \<exists>r'. rpop r = Some (k, r') \<and> rinv r' \<and> rfree r' = ks \<and> rpinned r' = rpinned r"
    and r_pop_empty: "rinv r \<Longrightarrow> rfree r = [] \<Longrightarrow> rpop r = None"
    and r_remove: "rinv r \<Longrightarrow> k \<in> set (rfree r) \<union> rpinned r \<Longrightarrow>
      \<exists>r'. rremove r k = Some r' \<and> rinv r' \<and> rfree r' = remove1 k (rfree r) \<and> rpinned r' = rpinned r - {k}"
    and r_remove_absent: "rinv r \<Longrightarrow> k \<notin> set (rfree r) \<union> rpinned r \<Longrightarrow> rremove r k = None"
    and r_pin: "rinv r \<Longrightarrow> k \<in> set (rfree r) \<Longrightarrow>
      rinv (rpin r k) \<and> rfree (rpin r k) = remove1 k (rfree r) \<and> rpinned (rpin r k) = insert k (rpinned r)"
    and r_pin_noop: "rinv r \<Longrightarrow> k \<notin> set (rfree r) \<Longrightarrow> rpin r k = r"
    and r_unpin: "rinv r \<Longrightarrow> k \<in> rpinned r \<Longrightarrow>
      rinv (runpin r k) \<and> rfree (runpin r k) = rfree r @ [k] \<and> rpinned (runpin r k) = rpinned r - {k}"
    and r_unpin_noop: "rinv r \<Longrightarrow> k \<notin> rpinned r \<Longrightarrow> runpin r k = r"
begin

text \<open>A pinned key is never the victim, and a key unpinned last is evicted last.\<close>

lemma pop_not_pinned:
  assumes "rinv r" and "rpop r = Some (k, r')"
  shows "k \<in> set (rfree r)" and "k \<notin> rpinned r"
proof -
  obtain ks where ks: "rfree r = k # ks"
    using assms r_pop [of r] r_pop_empty [of r] by (cases "rfree r") fastforce+
  then show "k \<in> set (rfree r)" by simp
  then show "k \<notin> rpinned r"
    using r_disjoint [OF assms(1)] by blast
qed

lemma pin_then_unpin_moves_to_end:
  assumes "rinv r" and "k \<in> set (rfree r)"
  shows "rfree (runpin (rpin r k) k) = remove1 k (rfree r) @ [k]"
    and "rpinned (runpin (rpin r k) k) = rpinned r"
proof -
  have p: "rinv (rpin r k)" "rfree (rpin r k) = remove1 k (rfree r)"
      "rpinned (rpin r k) = insert k (rpinned r)"
    using r_pin [OF assms] by auto
  have "k \<notin> rpinned r"
    using r_disjoint [OF assms(1)] assms(2) by blast
  with p r_unpin [OF p(1), of k] show "rfree (runpin (rpin r k) k) = remove1 k (rfree r) @ [k]"
    and "rpinned (runpin (rpin r k) k) = rpinned r"
    by auto
qed

text \<open>
  Recency: when the eviction list is ordered by a time stamp and a key is touched \<open>now\<close> (later than
  every stamp), the operation that puts it at the end keeps the list ordered.
\<close>

lemma touch_keeps_recency:
  assumes "sorted_wrt (\<lambda>a b. t a < t b) xs" and "\<forall>a. t a < (now :: nat)" and "distinct xs"
  shows "sorted_wrt (\<lambda>a b. (t(k := now)) a < (t(k := now)) b) (remove1 k xs @ [k])"
proof -
  have nk: "k \<notin> set (remove1 k xs)"
    using assms(3) by simp
  have "sorted_wrt (\<lambda>a b. t a < t b) (remove1 k xs)"
    using assms(1) by (rule sorted_wrt_remove1)
  then have "sorted_wrt (\<lambda>a b. (t(k := now)) a < (t(k := now)) b) (remove1 k xs)"
    using nk by (elim sorted_wrt_mono_rel [rotated]) auto
  then show ?thesis
    using nk assms(2) by (auto simp: sorted_wrt_append)
qed

end

subsection \<open>The cache manager seen by the block caches\<close>

text \<open>
  \<open>ments m\<close> maps the cached keys to their entries, \<open>mfree m\<close> lists the evictable keys in eviction
  order; the other cached keys are pinned.
\<close>

locale pin_manager =
  fixes madd :: "'m \<Rightarrow> u32 \<Rightarrow> 'v \<Rightarrow> 'm option"
    and mget :: "'m \<Rightarrow> u32 \<Rightarrow> bool \<Rightarrow> ('v option \<times> 'm) option"
    and mreplace :: "'m \<Rightarrow> ('v option \<times> 'm) option"
    and mremove :: "'m \<Rightarrow> u32 \<Rightarrow> ('v option \<times> 'm) option"
    and mpin :: "'m \<Rightarrow> u32 \<Rightarrow> 'm"
    and munpin :: "'m \<Rightarrow> u32 \<Rightarrow> 'm"
    and ments :: "'m \<Rightarrow> u32 \<Rightarrow> 'v option"
    and mfree :: "'m \<Rightarrow> u32 list"
    and minv :: "'m \<Rightarrow> bool"
  assumes m_free_cached: "minv m \<Longrightarrow> distinct (mfree m) \<and> set (mfree m) \<subseteq> dom (ments m)"
    and m_add: "minv m \<Longrightarrow> ments m k = None \<Longrightarrow>
      \<exists>m'. madd m k v = Some m' \<and> minv m' \<and> ments m' = (ments m)(k \<mapsto> v) \<and> mfree m' = mfree m @ [k]"
    and m_add_dup: "minv m \<Longrightarrow> ments m k = Some w \<Longrightarrow> madd m k v = None"
    and m_get: "minv m \<Longrightarrow>
      \<exists>m'. mget m k acc = Some (ments m k, m') \<and> minv m' \<and> ments m' = ments m \<and>
        mfree m' = (if acc \<and> k \<in> set (mfree m) then remove1 k (mfree m) @ [k] else mfree m)"
    and m_replace_none: "minv m \<Longrightarrow> mfree m = [] \<Longrightarrow> mreplace m = Some (None, m)"
    and m_replace: "minv m \<Longrightarrow> mfree m = k # ks \<Longrightarrow>
      \<exists>m'. mreplace m = Some (ments m k, m') \<and> minv m' \<and> ments m' = (ments m)(k := None) \<and> mfree m' = ks"
    and m_remove: "minv m \<Longrightarrow> ments m k = Some v \<Longrightarrow>
      \<exists>m'. mremove m k = Some (Some v, m') \<and> minv m' \<and> ments m' = (ments m)(k := None) \<and>
        mfree m' = remove1 k (mfree m)"
    and m_pin: "minv m \<Longrightarrow>
      minv (mpin m k) \<and> ments (mpin m k) = ments m \<and> mfree (mpin m k) = remove1 k (mfree m)"
    and m_unpin: "minv m \<Longrightarrow> ments m k \<noteq> None \<Longrightarrow> k \<notin> set (mfree m) \<Longrightarrow>
      minv (munpin m k) \<and> ments (munpin m k) = ments m \<and> mfree (munpin m k) = mfree m @ [k]"
begin

text \<open>What a replacement evicts was cached and evictable; every pinned entry stays.\<close>

lemma replace_evicts_free:
  assumes "minv m" and "mreplace m = Some (Some v, m')"
  obtains k ks where "mfree m = k # ks" "ments m k = Some v" "minv m'"
    "ments m' = (ments m)(k := None)" "mfree m' = ks"
proof (cases "mfree m")
  case Nil
  then show ?thesis using assms m_replace_none by fastforce
next
  case (Cons k ks)
  then show ?thesis using assms m_replace [OF assms(1) Cons] that by auto
qed

lemma replace_keeps_pinned:
  assumes "minv m" and "mreplace m = Some (Some v, m')" and "ments m j \<noteq> None" and "j \<notin> set (mfree m)"
  shows "ments m' j = ments m j" and "j \<notin> set (mfree m')"
proof -
  obtain k ks where "mfree m = k # ks" "ments m' = (ments m)(k := None)" "mfree m' = ks"
    using replace_evicts_free [OF assms(1,2)] by metis
  with assms(4) show "ments m' j = ments m j" and "j \<notin> set (mfree m')"
    by auto
qed

end

end
