(* ===== verification/Cache_Index.thy ===== *)
theory Cache_Index
  imports Cache_Interfaces
begin

text \<open>
  The cache index of \<^verbatim>\<open>src/src/cache/cache_index_manager.c\<close>: a khash map from \<open>u32\<close> keys to entry
  pointers. The hash table is the map it implements; \<open>kh_put\<close>'s result code (0 when the key was
  present) decides the assertion of \<open>cacheIndexManagerAdd\<close>. Freed values are not tracked: who frees
  an entry is visible in the callers.
\<close>

record 'v CacheIndexManager =
  index :: "u32 \<Rightarrow> 'v option"

definition cacheIndexManagerInit :: "'v CacheIndexManager" where
  "cacheIndexManagerInit = \<lparr>index = Map.empty\<rparr>"

definition cacheIndexManagerDestroy :: "'v CacheIndexManager \<Rightarrow> 'v CacheIndexManager" where
  "cacheIndexManagerDestroy c = c\<lparr>index := Map.empty\<rparr>"

definition cacheIndexManagerAdd :: "'v CacheIndexManager \<Rightarrow> u32 \<Rightarrow> 'v \<Rightarrow> 'v CacheIndexManager option" where
  "cacheIndexManagerAdd c key v = do {
     c_assert (index c key = None);
     Some (c\<lparr>index := (index c)(key \<mapsto> v)\<rparr>)
   }"

definition cacheIndexManagerGet :: "'v CacheIndexManager \<Rightarrow> u32 \<Rightarrow> 'v option" where
  "cacheIndexManagerGet c key = index c key"

definition cacheIndexManagerRemove ::
  "'v CacheIndexManager \<Rightarrow> u32 \<Rightarrow> 'v option \<times> 'v CacheIndexManager" where
  "cacheIndexManagerRemove c key =
     (case index c key of
        None \<Rightarrow> (None, c)
      | Some v \<Rightarrow> (Some v, c\<lparr>index := (index c)(key := None)\<rparr>))"

definition cacheIndexManagerErase :: "'v CacheIndexManager \<Rightarrow> u32 \<Rightarrow> 'v CacheIndexManager" where
  "cacheIndexManagerErase c key =
     (if index c key = None then c else c\<lparr>index := (index c)(key := None)\<rparr>)"

interpretation ci: kv_index
  cacheIndexManagerAdd cacheIndexManagerGet cacheIndexManagerRemove index
  by unfold_locales
    (auto simp: cacheIndexManagerAdd_def cacheIndexManagerGet_def cacheIndexManagerRemove_def
      split: option.splits)

lemma cacheIndexManagerErase_eq_remove:
  "cacheIndexManagerErase c k = snd (cacheIndexManagerRemove c k)"
  by (simp add: cacheIndexManagerErase_def cacheIndexManagerRemove_def split: option.splits)

end
