(* ===== verification/Cache_Lru.thy ===== *)
theory Cache_Lru
  imports Cache_Interfaces
begin

text \<open>
  The LRU replacer of \<^verbatim>\<open>src/src/cache/cache_lru_replacer.c\<close>. The code keeps two utlist lists of
  nodes and a khash table from keys to nodes. A node is created for a key that is not in the table
  and lives until the key is removed, so a node is named by its key here: the lists are lists of
  keys (head first), the table maps a key to its node's \<open>isPinned\<close> flag, \<open>DL_APPEND\<close> is appending
  and \<open>DL_DELETE\<close> removes the node. \<open>lru_size\<close> is the \<^verbatim>\<open>size_t\<close> counter of evictable keys.
\<close>

record CacheLruReplacer =
  lruHead :: "u32 list"
  pinHead :: "u32 list"
  lru_table :: "u32 \<Rightarrow> bool option"
  lru_size :: nat

definition cacheLruReplacerInit :: CacheLruReplacer where
  "cacheLruReplacerInit = \<lparr>lruHead = [], pinHead = [], lru_table = Map.empty, lru_size = 0\<rparr>"

definition cacheLruReplacerDestroy :: "CacheLruReplacer \<Rightarrow> CacheLruReplacer" where
  "cacheLruReplacerDestroy r = r\<lparr>lruHead := [], pinHead := [], lru_table := Map.empty, lru_size := 0\<rparr>"

definition cacheLruReplacerAdd :: "CacheLruReplacer \<Rightarrow> u32 \<Rightarrow> CacheLruReplacer option" where
  "cacheLruReplacerAdd r key = do {
     c_assert (lru_table r key = None);
     Some (r\<lparr>lruHead := lruHead r @ [key], lru_table := (lru_table r)(key \<mapsto> False),
             lru_size := lru_size r + 1\<rparr>)
   }"

text \<open>The tail of a utlist is \<open>head->prev\<close>: the code returns early when the node is the tail.\<close>

definition is_tail :: "u32 list \<Rightarrow> u32 \<Rightarrow> bool" where
  "is_tail xs k = (xs \<noteq> [] \<and> last xs = k)"

definition cacheLruReplacerAccess :: "CacheLruReplacer \<Rightarrow> u32 \<Rightarrow> CacheLruReplacer option" where
  "cacheLruReplacerAccess r key =
     (case lru_table r key of
        None \<Rightarrow> None
      | Some isPinned \<Rightarrow>
          (if isPinned then
             (if is_tail (pinHead r) key then Some r
              else Some (r\<lparr>pinHead := remove1 key (pinHead r) @ [key]\<rparr>))
           else
             (if is_tail (lruHead r) key then Some r
              else Some (r\<lparr>lruHead := remove1 key (lruHead r) @ [key]\<rparr>))))"

definition cacheLruReplacerCanReplace :: "CacheLruReplacer \<Rightarrow> bool" where
  "cacheLruReplacerCanReplace r = (lru_size r > 0)"

definition cacheLruReplacerPop :: "CacheLruReplacer \<Rightarrow> (u32 \<times> CacheLruReplacer) option" where
  "cacheLruReplacerPop r = do {
     c_assert (lru_size r > 0);
     (case lruHead r of
        [] \<Rightarrow> None
      | key # rest \<Rightarrow>
          Some (key, r\<lparr>lruHead := rest, lru_table := (lru_table r)(key := None), lru_size := lru_size r - 1\<rparr>))
   }"

definition cacheLruReplacerRemove :: "CacheLruReplacer \<Rightarrow> u32 \<Rightarrow> CacheLruReplacer option" where
  "cacheLruReplacerRemove r key =
     (case lru_table r key of
        None \<Rightarrow> None
      | Some isPinned \<Rightarrow>
          (let r1 = (if isPinned then r\<lparr>pinHead := remove1 key (pinHead r)\<rparr>
                     else r\<lparr>lruHead := remove1 key (lruHead r), lru_size := lru_size r - 1\<rparr>)
           in Some (r1\<lparr>lru_table := (lru_table r1)(key := None)\<rparr>)))"

definition cacheLruReplacerPin :: "CacheLruReplacer \<Rightarrow> u32 \<Rightarrow> CacheLruReplacer" where
  "cacheLruReplacerPin r key =
     (case lru_table r key of
        None \<Rightarrow> r
      | Some isPinned \<Rightarrow>
          (if isPinned then r
           else r\<lparr>lruHead := remove1 key (lruHead r), lru_table := (lru_table r)(key \<mapsto> True),
                  pinHead := pinHead r @ [key], lru_size := lru_size r - 1\<rparr>))"

definition cacheLruReplacerUnpin :: "CacheLruReplacer \<Rightarrow> u32 \<Rightarrow> CacheLruReplacer" where
  "cacheLruReplacerUnpin r key =
     (case lru_table r key of
        None \<Rightarrow> r
      | Some isPinned \<Rightarrow>
          (if \<not> isPinned then r
           else r\<lparr>pinHead := remove1 key (pinHead r), lru_table := (lru_table r)(key \<mapsto> False),
                  lruHead := lruHead r @ [key], lru_size := lru_size r + 1\<rparr>))"

subsection \<open>The representation invariant\<close>

text \<open>
  Each key of the table is on exactly one of the two lists, its flag says which, no list repeats a
  key, and the counter is the number of evictable keys.
\<close>

definition lru_inv :: "CacheLruReplacer \<Rightarrow> bool" where
  "lru_inv r \<longleftrightarrow> distinct (lruHead r) \<and> distinct (pinHead r) \<and>
     (\<forall>k. lru_table r k = Some False \<longleftrightarrow> k \<in> set (lruHead r)) \<and>
     (\<forall>k. lru_table r k = Some True \<longleftrightarrow> k \<in> set (pinHead r)) \<and>
     lru_size r = length (lruHead r)"

definition lru_pinned :: "CacheLruReplacer \<Rightarrow> u32 set" where
  "lru_pinned r = set (pinHead r)"

lemmas lru_op_defs =
  cacheLruReplacerAdd_def cacheLruReplacerAccess_def cacheLruReplacerCanReplace_def
  cacheLruReplacerPop_def cacheLruReplacerRemove_def cacheLruReplacerPin_def cacheLruReplacerUnpin_def

lemma lru_inv_init: "lru_inv cacheLruReplacerInit"
  by (simp add: lru_inv_def cacheLruReplacerInit_def)

lemma lru_table_cases:
  assumes "lru_inv r"
  shows "lru_table r k = (if k \<in> set (lruHead r) then Some False
                          else if k \<in> set (pinHead r) then Some True else None)"
  using assms unfolding lru_inv_def by (metis (full_types) not_None_eq)

lemma lru_inv_disjoint: "lru_inv r \<Longrightarrow> k \<in> set (lruHead r) \<Longrightarrow> k \<in> set (pinHead r) \<Longrightarrow> False"
  unfolding lru_inv_def by (metis option.inject)

lemma lru_invI:
  assumes "distinct (lruHead r)" "distinct (pinHead r)" "set (lruHead r) \<inter> set (pinHead r) = {}"
    and "\<And>k. lru_table r k = (if k \<in> set (lruHead r) then Some False
                          else if k \<in> set (pinHead r) then Some True else None)"
    and "lru_size r = length (lruHead r)"
  shows "lru_inv r"
  using assms by (auto simp: lru_inv_def split: if_splits)

lemma lru_invD:
  assumes "lru_inv r"
  shows "distinct (lruHead r)" "distinct (pinHead r)" "set (lruHead r) \<inter> set (pinHead r) = {}"
    "lru_size r = length (lruHead r)"
  using assms lru_inv_disjoint [OF assms] by (auto simp: lru_inv_def)

subsection \<open>Each operation under the invariant\<close>

lemma lru_add_fresh:
  assumes "lru_inv r" and "k \<notin> set (lruHead r)" and "k \<notin> lru_pinned r"
  shows "\<exists>r'. cacheLruReplacerAdd r k = Some r' \<and> lru_inv r' \<and> lruHead r' = lruHead r @ [k] \<and>
    lru_pinned r' = lru_pinned r"
proof -
  have "lru_inv (r\<lparr>lruHead := lruHead r @ [k], lru_table := (lru_table r)(k \<mapsto> False),
                   lru_size := lru_size r + 1\<rparr>)"
    using assms lru_invD [OF assms(1)] by (intro lru_invI) (auto simp: lru_table_cases lru_pinned_def)
  then show ?thesis
    using assms by (auto simp: cacheLruReplacerAdd_def lru_table_cases lru_pinned_def)
qed

lemma lru_access_free:
  assumes "lru_inv r" and "k \<in> set (lruHead r)"
  shows "\<exists>r'. cacheLruReplacerAccess r k = Some r' \<and> lru_inv r' \<and>
    lruHead r' = remove1 k (lruHead r) @ [k] \<and> lru_pinned r' = lru_pinned r"
proof -
  note i = lru_invD [OF assms(1)]
  have inv: "lru_inv (r\<lparr>lruHead := remove1 k (lruHead r) @ [k]\<rparr>)"
    using assms i by (intro lru_invI) (auto simp: lru_table_cases length_remove1_mem)
  show ?thesis
  proof (cases "is_tail (lruHead r) k")
    case True
    then have "remove1 k (lruHead r) @ [k] = lruHead r"
      using i(1) by (intro remove1_last_append) (auto simp: is_tail_def)
    then show ?thesis
      using assms True by (simp add: cacheLruReplacerAccess_def lru_table_cases)
  next
    case False
    then show ?thesis
      using assms inv by (simp add: cacheLruReplacerAccess_def lru_table_cases lru_pinned_def)
  qed
qed

lemma lru_access_pinned:
  assumes "lru_inv r" and "k \<in> lru_pinned r"
  shows "\<exists>r'. cacheLruReplacerAccess r k = Some r' \<and> lru_inv r' \<and> lruHead r' = lruHead r \<and>
    lru_pinned r' = lru_pinned r"
proof -
  note i = lru_invD [OF assms(1)]
  have "lru_inv (r\<lparr>pinHead := remove1 k (pinHead r) @ [k]\<rparr>)"
    using assms i by (intro lru_invI) (auto simp: lru_table_cases lru_pinned_def)
  moreover have "k \<notin> set (lruHead r)"
    using assms i(3) by (auto simp: lru_pinned_def)
  ultimately show ?thesis
    using assms i(2) by (auto simp: cacheLruReplacerAccess_def lru_table_cases lru_pinned_def)
qed

lemma lru_pop_head:
  assumes "lru_inv r" and "lruHead r = k # ks"
  shows "\<exists>r'. cacheLruReplacerPop r = Some (k, r') \<and> lru_inv r' \<and> lruHead r' = ks \<and>
    lru_pinned r' = lru_pinned r"
proof -
  note i = lru_invD [OF assms(1)]
  have "lru_inv (r\<lparr>lruHead := ks, lru_table := (lru_table r)(k := None), lru_size := lru_size r - 1\<rparr>)"
    using assms i by (intro lru_invI) (auto simp: lru_table_cases)
  then show ?thesis
    using assms i(4) by (auto simp: cacheLruReplacerPop_def lru_pinned_def)
qed

lemma lru_remove_known:
  assumes "lru_inv r" and "k \<in> set (lruHead r) \<union> lru_pinned r"
  shows "\<exists>r'. cacheLruReplacerRemove r k = Some r' \<and> lru_inv r' \<and> lruHead r' = remove1 k (lruHead r) \<and>
    lru_pinned r' = lru_pinned r - {k}"
proof (cases "k \<in> set (lruHead r)")
  case True
  note i = lru_invD [OF assms(1)]
  have "lru_inv (r\<lparr>lruHead := remove1 k (lruHead r), lru_size := lru_size r - 1,
                   lru_table := (lru_table r)(k := None)\<rparr>)"
    using True i length_remove1_mem [OF True] assms(1) by (intro lru_invI) (auto simp: lru_table_cases)
  then show ?thesis
    using assms True i(3) by (auto simp: cacheLruReplacerRemove_def lru_table_cases lru_pinned_def)
next
  case False
  note i = lru_invD [OF assms(1)]
  have "lru_inv (r\<lparr>pinHead := remove1 k (pinHead r), lru_table := (lru_table r)(k := None)\<rparr>)"
    using False i assms(1) by (intro lru_invI) (auto simp: lru_table_cases)
  then show ?thesis
    using assms False i(2) by (auto simp: cacheLruReplacerRemove_def lru_table_cases lru_pinned_def
        remove1_idem)
qed

lemma lru_pin_free:
  assumes "lru_inv r" and "k \<in> set (lruHead r)"
  shows "lru_inv (cacheLruReplacerPin r k) \<and> lruHead (cacheLruReplacerPin r k) = remove1 k (lruHead r) \<and>
    lru_pinned (cacheLruReplacerPin r k) = insert k (lru_pinned r)"
proof -
  have "lru_inv (r\<lparr>lruHead := remove1 k (lruHead r), lru_table := (lru_table r)(k \<mapsto> True),
                   pinHead := pinHead r @ [k], lru_size := lru_size r - 1\<rparr>)"
    using assms lru_invD [OF assms(1)] length_remove1_mem [OF assms(2)]
    by (intro lru_invI) (auto simp: lru_table_cases)
  then show ?thesis
    using assms by (simp add: cacheLruReplacerPin_def lru_table_cases lru_pinned_def)
qed

lemma lru_unpin_pinned:
  assumes "lru_inv r" and "k \<in> lru_pinned r"
  shows "lru_inv (cacheLruReplacerUnpin r k) \<and> lruHead (cacheLruReplacerUnpin r k) = lruHead r @ [k] \<and>
    lru_pinned (cacheLruReplacerUnpin r k) = lru_pinned r - {k}"
proof -
  note i = lru_invD [OF assms(1)]
  have k: "k \<notin> set (lruHead r)"
    using assms(2) i(3) by (auto simp: lru_pinned_def)
  have "lru_inv (r\<lparr>pinHead := remove1 k (pinHead r), lru_table := (lru_table r)(k \<mapsto> False),
                   lruHead := lruHead r @ [k], lru_size := lru_size r + 1\<rparr>)"
    using assms(1) i k by (intro lru_invI) (auto simp: lru_table_cases)
  then show ?thesis
    using assms k i(2) by (simp add: cacheLruReplacerUnpin_def lru_table_cases lru_pinned_def)
qed

lemma lru_absent:
  assumes "lru_inv r" and "k \<notin> set (lruHead r) \<union> lru_pinned r"
  shows "cacheLruReplacerAccess r k = None" "cacheLruReplacerRemove r k = None"
  using assms by (simp_all add: lru_op_defs lru_table_cases lru_pinned_def)

lemma lru_refused:
  assumes "lru_inv r"
  shows "k \<in> set (lruHead r) \<union> lru_pinned r \<Longrightarrow> cacheLruReplacerAdd r k = None"
    "lruHead r = [] \<Longrightarrow> cacheLruReplacerPop r = None"
    "k \<notin> set (lruHead r) \<Longrightarrow> cacheLruReplacerPin r k = r"
    "k \<notin> lru_pinned r \<Longrightarrow> cacheLruReplacerUnpin r k = r"
  using assms by (auto simp: lru_op_defs lru_table_cases lru_pinned_def)

interpretation lr: replacer
  cacheLruReplacerAdd cacheLruReplacerAccess cacheLruReplacerCanReplace cacheLruReplacerPop
  cacheLruReplacerRemove cacheLruReplacerPin cacheLruReplacerUnpin lruHead lru_pinned lru_inv
proof unfold_locales
  show "distinct (lruHead r) \<and> set (lruHead r) \<inter> lru_pinned r = {}" if "lru_inv r" for r
    using lru_invD [OF that] by (simp add: lru_pinned_def)
  show "cacheLruReplacerCanReplace r \<longleftrightarrow> lruHead r \<noteq> []" if "lru_inv r" for r
    using that by (auto simp: cacheLruReplacerCanReplace_def lru_inv_def)
qed (rule lru_add_fresh lru_access_free lru_access_pinned lru_pop_head lru_remove_known lru_pin_free
       lru_unpin_pinned lru_absent lru_refused; assumption)+

subsection \<open>Runs of the replacer with a clock\<close>

text \<open>
  A call of the replacer's interface, its step, and a run that also records when each key was last
  touched: by being added, accessed, or taken off the pinned list.
\<close>

datatype lru_call = LAdd u32 | LAccess u32 | LPop | LRemove u32 | LPin u32 | LUnpin u32

fun lru_step :: "lru_call \<Rightarrow> CacheLruReplacer \<Rightarrow> CacheLruReplacer option" where
  "lru_step (LAdd k) r = cacheLruReplacerAdd r k"
| "lru_step (LAccess k) r = cacheLruReplacerAccess r k"
| "lru_step LPop r = map_option snd (cacheLruReplacerPop r)"
| "lru_step (LRemove k) r = cacheLruReplacerRemove r k"
| "lru_step (LPin k) r = Some (cacheLruReplacerPin r k)"
| "lru_step (LUnpin k) r = Some (cacheLruReplacerUnpin r k)"

fun lru_touch :: "lru_call \<Rightarrow> CacheLruReplacer \<Rightarrow> nat \<Rightarrow> (u32 \<Rightarrow> nat) \<Rightarrow> u32 \<Rightarrow> nat" where
  "lru_touch (LAdd k) r now t = t(k := now)"
| "lru_touch (LAccess k) r now t = t(k := now)"
| "lru_touch (LUnpin k) r now t = (if lru_table r k = Some True then t(k := now) else t)"
| "lru_touch _ r now t = t"

fun lru_run :: "lru_call list \<Rightarrow> nat \<Rightarrow> (u32 \<Rightarrow> nat) \<Rightarrow> CacheLruReplacer \<Rightarrow>
    ((u32 \<Rightarrow> nat) \<times> CacheLruReplacer) option" where
  "lru_run [] now t r = Some (t, r)"
| "lru_run (c # cs) now t r =
     (case lru_step c r of
        None \<Rightarrow> None
      | Some r' \<Rightarrow> lru_run cs (Suc now) (lru_touch c r now t) r')"

definition recency_sorted :: "(u32 \<Rightarrow> nat) \<Rightarrow> u32 list \<Rightarrow> bool" where
  "recency_sorted t xs = sorted_wrt (\<lambda>a b. t a < t b) xs"

lemma recency_sorted_remove1: "recency_sorted t xs \<Longrightarrow> recency_sorted t (remove1 k xs)"
  unfolding recency_sorted_def by (rule sorted_wrt_remove1)

lemma recency_sorted_touch:
  assumes "recency_sorted t xs" "\<forall>a. t a < now" "distinct xs"
  shows "recency_sorted (t(k := now)) (remove1 k xs @ [k])"
  using lr.touch_keeps_recency [OF assms(1) [unfolded recency_sorted_def] assms(2,3)]
  by (simp add: recency_sorted_def)

lemma recency_sorted_touch_fresh:
  assumes "recency_sorted t xs" "\<forall>a. t a < now" "distinct xs" "k \<notin> set xs"
  shows "recency_sorted (t(k := now)) (xs @ [k])"
  using recency_sorted_touch [OF assms(1-3), of k] assms(4) by (simp add: remove1_idem)

lemma recency_sorted_touch_other:
  assumes "recency_sorted t xs" "k \<notin> set xs"
  shows "recency_sorted (t(k := now)) xs"
  using assms unfolding recency_sorted_def by (elim sorted_wrt_mono_rel [rotated]) auto

lemma lru_table_pinned: "lru_inv r \<Longrightarrow> lru_table r k = Some True \<longleftrightarrow> k \<in> lru_pinned r"
  by (simp add: lru_inv_def lru_pinned_def)

lemma lru_access_recency:
  assumes inv: "lru_inv r" and srt: "recency_sorted t (lruHead r)" and t: "\<forall>a. t a < now"
    and step: "cacheLruReplacerAccess r k = Some r'"
  shows "lru_inv r' \<and> recency_sorted (t(k := now)) (lruHead r')"
proof -
  note d = lr.r_disjoint [OF inv]
  consider "k \<in> set (lruHead r)" | "k \<in> lru_pinned r"
    using step lr.r_access_absent [OF inv, of k] by auto
  then show ?thesis
  proof cases
    case 1
    with step d srt t show ?thesis
      using lr.r_access_free [OF inv 1] by (auto intro: recency_sorted_touch)
  next
    case 2
    with d have "k \<notin> set (lruHead r)" by auto
    with step srt show ?thesis
      using lr.r_access_pinned [OF inv 2] by (auto intro: recency_sorted_touch_other)
  qed
qed

lemma lru_unpin_recency:
  assumes inv: "lru_inv r" and srt: "recency_sorted t (lruHead r)" and t: "\<forall>a. t a < now"
  shows "lru_inv (cacheLruReplacerUnpin r k) \<and>
    recency_sorted (lru_touch (LUnpin k) r now t) (lruHead (cacheLruReplacerUnpin r k))"
proof (cases "k \<in> lru_pinned r")
  case True
  then have "k \<notin> set (lruHead r)"
    using lr.r_disjoint [OF inv] by auto
  with True srt t lr.r_unpin [OF inv True] lr.r_disjoint [OF inv] show ?thesis
    by (auto simp: lru_table_pinned [OF inv] intro: recency_sorted_touch_fresh)
next
  case False
  with srt inv show ?thesis
    by (auto simp: lru_table_pinned lr.r_unpin_noop)
qed

lemma lru_step_recency:
  assumes inv: "lru_inv r" and srt: "recency_sorted t (lruHead r)" and t: "\<forall>a. t a < now"
    and step: "lru_step c r = Some r'"
  shows "lru_inv r' \<and> recency_sorted (lru_touch c r now t) (lruHead r')"
proof (cases c)
  case (LAdd k)
  then have "k \<notin> set (lruHead r)" "k \<notin> lru_pinned r"
    using step lr.r_add_dup [OF inv, of k] by auto
  with LAdd step srt t lr.r_disjoint [OF inv] show ?thesis
    using lr.r_add [OF inv, of k] by (auto intro: recency_sorted_touch_fresh)
next
  case (LAccess k)
  with step lru_access_recency [OF inv srt t] show ?thesis by simp
next
  case LPop
  then obtain k ks where ks: "lruHead r = k # ks"
    using step lr.r_pop_empty [OF inv] by (cases "lruHead r") auto
  with LPop step srt lr.r_pop [OF inv ks] show ?thesis
    by (auto simp: recency_sorted_def)
next
  case (LRemove k)
  then have "k \<in> set (lruHead r) \<union> lru_pinned r"
    using step lr.r_remove_absent [OF inv, of k] by auto
  with LRemove step srt show ?thesis
    using lr.r_remove [OF inv, of k] by (auto intro: recency_sorted_remove1)
next
  case (LPin k)
  with step srt inv show ?thesis
    using lr.r_pin [OF inv, of k] lr.r_pin_noop [OF inv, of k]
    by (cases "k \<in> set (lruHead r)") (auto intro: recency_sorted_remove1)
next
  case (LUnpin k)
  with step lru_unpin_recency [OF inv srt t, of k] show ?thesis by simp
qed

lemma lru_touch_bound: "\<forall>a. t a < now \<Longrightarrow> \<forall>a. lru_touch c r now t a < Suc now"
  by (cases c) (auto simp: less_SucI)

lemma lru_run_recency:
  assumes "lru_inv r" "recency_sorted t (lruHead r)" "\<forall>a. t a < now" "lru_run cs now t r = Some (t', r')"
  shows "lru_inv r' \<and> recency_sorted t' (lruHead r')"
  using assms
proof (induction cs arbitrary: now t r)
  case Nil
  then show ?case by simp
next
  case (Cons c cs)
  then obtain r1 where r1: "lru_step c r = Some r1"
    and rest: "lru_run cs (Suc now) (lru_touch c r now t) r1 = Some (t', r')"
    by (auto split: option.splits)
  from lru_step_recency [OF Cons.prems(1-3) r1] show ?case
    using Cons.IH [OF _ _ lru_touch_bound [OF Cons.prems(3)] rest] by blast
qed

text \<open>
  Claim C19. Least-recently-used eviction: after any run of the replacer from its initial state, the
  key that \<open>cacheLruReplacerPop\<close> evicts is evictable (in the table and not pinned) and was touched
  (added, accessed or unpinned) strictly longer ago than every other evictable key.
\<close>

theorem lru_pop_evicts_oldest:
  assumes run: "lru_run cs 1 (\<lambda>_. 0) cacheLruReplacerInit = Some (t, r)"
    and pop: "cacheLruReplacerPop r = Some (k, r')"
  shows "lru_table r k = Some False \<and> (\<forall>j. lru_table r j = Some False \<longrightarrow> j \<noteq> k \<longrightarrow> t k < t j)"
proof -
  have inv: "lru_inv r" and srt: "recency_sorted t (lruHead r)"
    using lru_run_recency [OF lru_inv_init _ _ run]
    by (auto simp: recency_sorted_def cacheLruReplacerInit_def)
  have tab: "lru_table r i = Some False \<longleftrightarrow> i \<in> set (lruHead r)" for i
    using inv by (simp add: lru_inv_def)
  obtain ks where ks: "lruHead r = k # ks"
    using lr.r_pop [OF inv] lr.r_pop_empty [OF inv] pop by (cases "lruHead r") fastforce+
  show ?thesis
    using ks srt tab by (auto simp: recency_sorted_def)
qed

text \<open>Three keys, the first re-accessed and the second pinned: the third is evicted.\<close>

lemma lru_pop_evicts_oldest_witness:
  "\<exists>t r r'. lru_run [LAdd 7, LAdd 8, LAdd 9, LAccess 7, LPin 8] 1 (\<lambda>_. 0) cacheLruReplacerInit = Some (t, r) \<and>
     cacheLruReplacerPop r = Some (9, r') \<and> lru_table r 9 = Some False \<and> t 9 < t 7"
proof -
  let ?cs = "[LAdd 7, LAdd 8, LAdd 9, LAccess 7, LPin 8]"
  let ?t = "((\<lambda>_. 0)(7 := 1, 8 := 2, 9 := 3))(7 := 4) :: u32 \<Rightarrow> nat"
  let ?r = "\<lparr>lruHead = [9, 7], pinHead = [8], lru_table = [7 \<mapsto> False, 8 \<mapsto> False, 9 \<mapsto> False, 8 \<mapsto> True],
             lru_size = 2\<rparr>"
  let ?r' = "\<lparr>lruHead = [7], pinHead = [8],
      lru_table = ([7 \<mapsto> False, 8 \<mapsto> False, 9 \<mapsto> False, 8 \<mapsto> True])(9 := None), lru_size = 1\<rparr>"
  have run: "lru_run ?cs 1 (\<lambda>_. 0) cacheLruReplacerInit = Some (?t, ?r)"
    by (simp add: cacheLruReplacerInit_def lru_op_defs is_tail_def eval_nat_numeral)
  have pop: "cacheLruReplacerPop ?r = Some (9, ?r')"
    by (simp add: cacheLruReplacerPop_def)
  have "lru_table ?r 7 = Some False" by simp
  then show ?thesis
    using run pop lru_pop_evicts_oldest [OF run pop] by fastforce
qed

end
