(* ===== verification/Cache_Generic.thy ===== *)
theory Cache_Generic
  imports Cache_Index Cache_Lru
begin

text \<open>
  The cache manager of \<^verbatim>\<open>src/src/cache/generic_cache_manager.c\<close>: an index and an LRU replacer kept
  in step. \<open>void *\<close> entries are of a type \<open>'v\<close> of non-null pointers, NULL is \<open>None\<close>.
\<close>

record 'v GenericCacheManager =
  gcm_index :: "'v CacheIndexManager"
  gcm_replacer :: CacheLruReplacer

definition genericCacheManagerInit :: "'v GenericCacheManager" where
  "genericCacheManagerInit = \<lparr>gcm_index = cacheIndexManagerInit, gcm_replacer = cacheLruReplacerInit\<rparr>"

definition genericCacheManagerDestroy :: "'v GenericCacheManager \<Rightarrow> 'v GenericCacheManager" where
  "genericCacheManagerDestroy m =
     m\<lparr>gcm_index := cacheIndexManagerDestroy (gcm_index m), gcm_replacer := cacheLruReplacerDestroy (gcm_replacer m)\<rparr>"

definition genericCacheManagerAdd :: "'v GenericCacheManager \<Rightarrow> u32 \<Rightarrow> 'v \<Rightarrow> 'v GenericCacheManager option" where
  "genericCacheManagerAdd m key entry = do {
     i \<leftarrow> cacheIndexManagerAdd (gcm_index m) key entry;
     r \<leftarrow> cacheLruReplacerAdd (gcm_replacer m) key;
     Some (m\<lparr>gcm_index := i, gcm_replacer := r\<rparr>)
   }"

definition genericCacheManagerGet ::
  "'v GenericCacheManager \<Rightarrow> u32 \<Rightarrow> bool \<Rightarrow> ('v option \<times> 'v GenericCacheManager) option" where
  "genericCacheManagerGet m key is_access =
     (let entry = cacheIndexManagerGet (gcm_index m) key in
      if entry \<noteq> None \<and> is_access then do {
        r \<leftarrow> cacheLruReplacerAccess (gcm_replacer m) key;
        Some (entry, m\<lparr>gcm_replacer := r\<rparr>)
      } else Some (entry, m))"

definition genericCacheManagerReplaceOne ::
  "'v GenericCacheManager \<Rightarrow> ('v option \<times> 'v GenericCacheManager) option" where
  "genericCacheManagerReplaceOne m =
     (if \<not> cacheLruReplacerCanReplace (gcm_replacer m) then Some (None, m)
      else do {
        (key, r) \<leftarrow> cacheLruReplacerPop (gcm_replacer m);
        let (entry, i) = cacheIndexManagerRemove (gcm_index m) key;
        Some (entry, m\<lparr>gcm_index := i, gcm_replacer := r\<rparr>)
      })"

definition genericCacheManagerRemove ::
  "'v GenericCacheManager \<Rightarrow> u32 \<Rightarrow> ('v option \<times> 'v GenericCacheManager) option" where
  "genericCacheManagerRemove m key = do {
     r \<leftarrow> cacheLruReplacerRemove (gcm_replacer m) key;
     let (entry, i) = cacheIndexManagerRemove (gcm_index m) key;
     Some (entry, m\<lparr>gcm_index := i, gcm_replacer := r\<rparr>)
   }"

definition genericCacheManagerPin :: "'v GenericCacheManager \<Rightarrow> u32 \<Rightarrow> 'v GenericCacheManager" where
  "genericCacheManagerPin m key = m\<lparr>gcm_replacer := cacheLruReplacerPin (gcm_replacer m) key\<rparr>"

definition genericCacheManagerUnpin :: "'v GenericCacheManager \<Rightarrow> u32 \<Rightarrow> 'v GenericCacheManager" where
  "genericCacheManagerUnpin m key = m\<lparr>gcm_replacer := cacheLruReplacerUnpin (gcm_replacer m) key\<rparr>"

subsection \<open>Index and replacer agree\<close>

definition gcm_inv :: "'v GenericCacheManager \<Rightarrow> bool" where
  "gcm_inv m \<longleftrightarrow> lru_inv (gcm_replacer m) \<and>
     dom (index (gcm_index m)) = set (lruHead (gcm_replacer m)) \<union> lru_pinned (gcm_replacer m)"

definition gcm_entries :: "'v GenericCacheManager \<Rightarrow> u32 \<Rightarrow> 'v option" where
  "gcm_entries m = index (gcm_index m)"

definition gcm_free :: "'v GenericCacheManager \<Rightarrow> u32 list" where
  "gcm_free m = lruHead (gcm_replacer m)"

lemmas gcm_views = gcm_inv_def gcm_entries_def gcm_free_def

lemma gcm_init:
  "gcm_inv genericCacheManagerInit" "gcm_entries genericCacheManagerInit = Map.empty"
  "gcm_free genericCacheManagerInit = []"
  using lru_inv_init
  by (simp_all add: gcm_views genericCacheManagerInit_def cacheIndexManagerInit_def
      cacheLruReplacerInit_def lru_pinned_def)

lemma gcm_add_fresh:
  assumes "gcm_inv m" and "gcm_entries m k = None"
  shows "\<exists>m'. genericCacheManagerAdd m k v = Some m' \<and> gcm_inv m' \<and>
    gcm_entries m' = (gcm_entries m)(k \<mapsto> v) \<and> gcm_free m' = gcm_free m @ [k]"
proof -
  let ?r = "gcm_replacer m"
  have lru: "lru_inv ?r" and k: "k \<notin> set (lruHead ?r)" "k \<notin> lru_pinned ?r"
    using assms by (auto simp: gcm_views domIff)
  from assms ci.xadd_fresh [of "gcm_index m" k v] lr.r_add [OF lru k]
  show ?thesis
    by (auto simp: gcm_views genericCacheManagerAdd_def)
qed

lemma gcm_get_any:
  assumes "gcm_inv m"
  shows "\<exists>m'. genericCacheManagerGet m k acc = Some (gcm_entries m k, m') \<and> gcm_inv m' \<and>
    gcm_entries m' = gcm_entries m \<and>
    gcm_free m' = (if acc \<and> k \<in> set (gcm_free m) then remove1 k (gcm_free m) @ [k] else gcm_free m)"
proof -
  let ?r = "gcm_replacer m"
  have lru: "lru_inv ?r" and dm: "gcm_entries m k \<noteq> None \<longleftrightarrow> k \<in> set (lruHead ?r) \<or> k \<in> lru_pinned ?r"
    using assms by (auto simp: gcm_views domIff)
  have d: "k \<in> lru_pinned ?r \<Longrightarrow> k \<notin> set (lruHead ?r)"
    using lr.r_disjoint [OF lru] by auto
  consider "k \<in> set (lruHead ?r)" | "k \<in> lru_pinned ?r" | "k \<notin> set (lruHead ?r)" "k \<notin> lru_pinned ?r"
    by blast
  then show ?thesis
  proof cases
    case 1
    with assms dm lr.r_access_free [OF lru 1] lr.r_disjoint [OF lru] show ?thesis
      by (auto simp: gcm_views genericCacheManagerGet_def ci.xget_map Let_def)
  next
    case 2
    with assms dm d lr.r_access_pinned [OF lru 2] show ?thesis
      by (auto simp: gcm_views genericCacheManagerGet_def ci.xget_map Let_def)
  next
    case 3
    with assms dm show ?thesis
      by (auto simp: gcm_views genericCacheManagerGet_def ci.xget_map Let_def)
  qed
qed

lemma gcm_replace_none:
  assumes "gcm_inv m" and "gcm_free m = []"
  shows "genericCacheManagerReplaceOne m = Some (None, m)"
  using assms by (simp add: gcm_views genericCacheManagerReplaceOne_def lr.r_can)

lemma gcm_replace_head:
  assumes "gcm_inv m" and "gcm_free m = k # ks"
  shows "\<exists>m'. genericCacheManagerReplaceOne m = Some (gcm_entries m k, m') \<and> gcm_inv m' \<and>
    gcm_entries m' = (gcm_entries m)(k := None) \<and> gcm_free m' = ks"
proof -
  let ?r = "gcm_replacer m"
  have lru: "lru_inv ?r" and hd: "lruHead ?r = k # ks"
    using assms by (auto simp: gcm_views)
  have "k \<notin> set ks" "k \<notin> lru_pinned ?r"
    using lr.r_disjoint [OF lru] hd by auto
  with assms hd lr.r_pop [OF lru hd] show ?thesis
    using ci.xremove_value [of "gcm_index m" k] ci.xremove_map [of "gcm_index m" k]
    by (cases "cacheIndexManagerRemove (gcm_index m) k")
      (auto simp: gcm_views genericCacheManagerReplaceOne_def lr.r_can)
qed

lemma gcm_remove_cached:
  assumes "gcm_inv m" and "gcm_entries m k = Some v"
  shows "\<exists>m'. genericCacheManagerRemove m k = Some (Some v, m') \<and> gcm_inv m' \<and>
    gcm_entries m' = (gcm_entries m)(k := None) \<and> gcm_free m' = remove1 k (gcm_free m)"
proof -
  let ?r = "gcm_replacer m"
  have lru: "lru_inv ?r" and k: "k \<in> set (lruHead ?r) \<union> lru_pinned ?r"
    using assms by (auto simp: gcm_views)
  with assms lr.r_remove [OF lru k] lr.r_disjoint [OF lru] show ?thesis
    using ci.xremove_value [of "gcm_index m" k] ci.xremove_map [of "gcm_index m" k]
    by (cases "cacheIndexManagerRemove (gcm_index m) k")
      (auto simp: gcm_views genericCacheManagerRemove_def)
qed

lemma gcm_pin_any:
  assumes "gcm_inv m"
  shows "gcm_inv (genericCacheManagerPin m k) \<and> gcm_entries (genericCacheManagerPin m k) = gcm_entries m \<and>
    gcm_free (genericCacheManagerPin m k) = remove1 k (gcm_free m)"
proof (cases "k \<in> set (lruHead (gcm_replacer m))")
  case True
  with assms lr.r_pin [of "gcm_replacer m" k] lr.r_disjoint [of "gcm_replacer m"] show ?thesis
    by (auto simp: gcm_views genericCacheManagerPin_def)
next
  case False
  with assms show ?thesis
    by (simp add: gcm_views genericCacheManagerPin_def lr.r_pin_noop remove1_idem)
qed

lemma gcm_unpin_pinned:
  assumes "gcm_inv m" and "gcm_entries m k \<noteq> None" and "k \<notin> set (gcm_free m)"
  shows "gcm_inv (genericCacheManagerUnpin m k) \<and>
    gcm_entries (genericCacheManagerUnpin m k) = gcm_entries m \<and>
    gcm_free (genericCacheManagerUnpin m k) = gcm_free m @ [k]"
proof -
  have lru: "lru_inv (gcm_replacer m)" and k: "k \<in> lru_pinned (gcm_replacer m)"
    using assms by (auto simp: gcm_views domIff)
  with assms lr.r_unpin [OF lru k] show ?thesis
    by (auto simp: gcm_views genericCacheManagerUnpin_def)
qed

interpretation gm: pin_manager
  genericCacheManagerAdd genericCacheManagerGet genericCacheManagerReplaceOne genericCacheManagerRemove
  genericCacheManagerPin genericCacheManagerUnpin gcm_entries gcm_free gcm_inv
proof unfold_locales
  show "distinct (gcm_free m) \<and> set (gcm_free m) \<subseteq> dom (gcm_entries m)"
    if "gcm_inv m" for m :: "'a GenericCacheManager"
    using that lr.r_disjoint [of "gcm_replacer m"] by (auto simp: gcm_views)
  show "genericCacheManagerAdd m k v = None"
    if "gcm_inv m" "gcm_entries m k = Some w" for m :: "'a GenericCacheManager" and k v w
    using that by (simp add: gcm_views genericCacheManagerAdd_def ci.xadd_dup)
qed (rule gcm_add_fresh gcm_get_any gcm_replace_none gcm_replace_head gcm_remove_cached gcm_pin_any
       gcm_unpin_pinned; assumption)+

end
