(* ===== verification/Cache_Refcount.thy ===== *)
theory Cache_Refcount
  imports Cache_Generic
begin

text \<open>
  What the three block caches (\<^verbatim>\<open>sit_nat_cache.c\<close>, \<^verbatim>\<open>node_block_cache.c\<close>, \<^verbatim>\<open>page_cache.c\<close>) have
  in common: entries are heap objects, the manager holds their addresses, and an entry is pinned in
  the manager exactly while its reference count is not zero. \<open>rc_ok m key ref n\<close> is that agreement,
  for the heap fields \<open>key\<close> and \<open>ref\<close> of the entries and an allocator that has handed out the
  addresses below \<open>n\<close>. The lemmas say how pinning, unpinning, insertion, lookup and eviction keep it;
  the locale \<open>refcounted_cache\<close> is the contract that the clients of a cache get from it.
\<close>

definition rc_ok :: "nat GenericCacheManager \<Rightarrow> (nat \<Rightarrow> u32) \<Rightarrow> (nat \<Rightarrow> u32) \<Rightarrow> nat \<Rightarrow> bool" where
  "rc_ok m key ref n \<longleftrightarrow> gcm_inv m \<and>
     (\<forall>k a. gcm_entries m k = Some a \<longrightarrow> a < n \<and> key a = k \<and> (k \<in> set (gcm_free m) \<longleftrightarrow> ref a = 0))"

lemma rc_okD:
  assumes "rc_ok m key ref n" and "gcm_entries m k = Some a"
  shows "a < n" "key a = k" "k \<in> set (gcm_free m) \<longleftrightarrow> ref a = 0"
  using assms by (auto simp: rc_ok_def)

lemma rc_okI:
  assumes "gcm_inv m"
    and "\<And>k a. gcm_entries m k = Some a \<Longrightarrow> a < n \<and> key a = k \<and> (k \<in> set (gcm_free m) \<longleftrightarrow> ref a = 0)"
  shows "rc_ok m key ref n"
  using assms by (simp add: rc_ok_def)

lemma rc_ok_gcm: "rc_ok m key ref n \<Longrightarrow> gcm_inv m"
  by (simp add: rc_ok_def)

lemma rc_ok_init: "rc_ok genericCacheManagerInit key ref n"
  by (simp add: rc_ok_def gcm_init)

lemma finite_gcm_dom: "gcm_inv m \<Longrightarrow> finite (dom (gcm_entries m))"
  by (auto simp: gcm_views lru_pinned_def)

lemma rc_ok_inj:
  "rc_ok m key ref n \<Longrightarrow> gcm_entries m k = Some a \<Longrightarrow> gcm_entries m j = Some a \<Longrightarrow> j = k"
  by (metis rc_okD(2))

text \<open>The reference count of an entry moves between two non-zero values: the manager is not told.\<close>

lemma rc_ok_count:
  assumes "rc_ok m key ref n" and "ref a \<noteq> 0" and "r \<noteq> 0"
  shows "rc_ok m key (ref(a := r)) n"
  using assms by (auto simp: rc_ok_def)

lemma rc_ok_pin:
  assumes "rc_ok m key ref n" and "gcm_entries m k = Some a" and "r \<noteq> 0"
  shows "rc_ok (genericCacheManagerPin m k) key (ref(a := r)) n"
    and "gcm_entries (genericCacheManagerPin m k) = gcm_entries m"
    and "gcm_free (genericCacheManagerPin m k) = remove1 k (gcm_free m)"
proof -
  note pin = gm.m_pin [OF rc_ok_gcm [OF assms(1)], of k]
  then show "gcm_entries (genericCacheManagerPin m k) = gcm_entries m"
    and "gcm_free (genericCacheManagerPin m k) = remove1 k (gcm_free m)"
    by simp_all
  have d: "distinct (gcm_free m)"
    using gm.m_free_cached [OF rc_ok_gcm [OF assms(1)]] by simp
  show "rc_ok (genericCacheManagerPin m k) key (ref(a := r)) n"
  proof (rule rc_okI)
    show "gcm_inv (genericCacheManagerPin m k)"
      using pin by simp
    fix j b
    assume "gcm_entries (genericCacheManagerPin m k) j = Some b"
    then have j: "gcm_entries m j = Some b"
      using pin by simp
    have fr: "gcm_free (genericCacheManagerPin m k) = remove1 k (gcm_free m)"
      using pin by simp
    show "b < n \<and> key b = j \<and> (j \<in> set (gcm_free (genericCacheManagerPin m k)) \<longleftrightarrow> (ref(a := r)) b = 0)"
    proof (cases "j = k")
      case True
      then show ?thesis using j assms rc_okD(1,2) [OF assms(1) j] d by (simp add: fr)
    next
      case False
      then have "b \<noteq> a" using j rc_ok_inj [OF assms(1,2)] by blast
      then show ?thesis using False rc_okD [OF assms(1) j] by (simp add: fr d)
    qed
  qed
qed

lemma rc_ok_unpin:
  assumes "rc_ok m key ref n" and "gcm_entries m k = Some a" and "ref a \<noteq> 0"
  shows "rc_ok (genericCacheManagerUnpin m k) key (ref(a := 0)) n"
    and "gcm_entries (genericCacheManagerUnpin m k) = gcm_entries m"
    and "gcm_free (genericCacheManagerUnpin m k) = gcm_free m @ [k]"
proof -
  have nf: "k \<notin> set (gcm_free m)"
    using rc_okD(3) [OF assms(1,2)] assms(3) by simp
  note unpin = gm.m_unpin [OF rc_ok_gcm [OF assms(1)] _ nf]
  from unpin show "gcm_entries (genericCacheManagerUnpin m k) = gcm_entries m"
    and "gcm_free (genericCacheManagerUnpin m k) = gcm_free m @ [k]"
    using assms(2) by simp_all
  show "rc_ok (genericCacheManagerUnpin m k) key (ref(a := 0)) n"
  proof (rule rc_okI)
    show "gcm_inv (genericCacheManagerUnpin m k)"
      using unpin assms(2) by simp
    fix j b
    assume "gcm_entries (genericCacheManagerUnpin m k) j = Some b"
    then have j: "gcm_entries m j = Some b"
      using unpin assms(2) by simp
    have fr: "gcm_free (genericCacheManagerUnpin m k) = gcm_free m @ [k]"
      using unpin assms(2) by simp
    show "b < n \<and> key b = j \<and> (j \<in> set (gcm_free (genericCacheManagerUnpin m k)) \<longleftrightarrow> (ref(a := 0)) b = 0)"
    proof (cases "j = k")
      case True
      then show ?thesis using j assms rc_okD(1,2) [OF assms(1) j] by (simp add: fr)
    next
      case False
      then have "b \<noteq> a" using j rc_ok_inj [OF assms(1,2)] by blast
      then show ?thesis using False rc_okD [OF assms(1) j] by (simp add: fr)
    qed
  qed
qed

lemma rc_ok_add:
  assumes "rc_ok m key ref n" and "gcm_entries m k = None"
  shows "\<exists>m'. genericCacheManagerAdd m k n = Some m' \<and> rc_ok m' (key(n := k)) (ref(n := 0)) (Suc n) \<and>
    gcm_entries m' = (gcm_entries m)(k \<mapsto> n) \<and> gcm_free m' = gcm_free m @ [k]"
proof -
  obtain m' where m': "genericCacheManagerAdd m k n = Some m'" "gcm_inv m'"
      "gcm_entries m' = (gcm_entries m)(k \<mapsto> n)" "gcm_free m' = gcm_free m @ [k]"
    using gm.m_add [OF rc_ok_gcm [OF assms(1)] assms(2), of n] by blast
  moreover have "rc_ok m' (key(n := k)) (ref(n := 0)) (Suc n)"
    using assms m' unfolding rc_ok_def by (auto simp: less_Suc_eq)
  ultimately show ?thesis by blast
qed

text \<open>The same for an entry whose heap object exists already.\<close>

lemma rc_ok_add_at:
  assumes "rc_ok m key ref n" and "gcm_entries m k = None" and "a < n" and "key a = k" and "ref a = 0"
  shows "\<exists>m'. genericCacheManagerAdd m k a = Some m' \<and> rc_ok m' key ref n \<and>
    gcm_entries m' = (gcm_entries m)(k \<mapsto> a) \<and> gcm_free m' = gcm_free m @ [k]"
proof -
  obtain m' where m': "genericCacheManagerAdd m k a = Some m'" "gcm_inv m'"
      "gcm_entries m' = (gcm_entries m)(k \<mapsto> a)" "gcm_free m' = gcm_free m @ [k]"
    using gm.m_add [OF rc_ok_gcm [OF assms(1)] assms(2), of a] by blast
  moreover have "rc_ok m' key ref n"
    using assms m' unfolding rc_ok_def by auto
  ultimately show ?thesis by blast
qed

lemma rc_ok_get:
  assumes "rc_ok m key ref n"
  shows "\<exists>m'. genericCacheManagerGet m k acc = Some (gcm_entries m k, m') \<and> rc_ok m' key ref n \<and>
    gcm_entries m' = gcm_entries m \<and>
    gcm_free m' = (if acc \<and> k \<in> set (gcm_free m) then remove1 k (gcm_free m) @ [k] else gcm_free m)"
proof -
  have d: "distinct (gcm_free m)"
    using gm.m_free_cached [OF rc_ok_gcm [OF assms]] by simp
  obtain m' where m': "genericCacheManagerGet m k acc = Some (gcm_entries m k, m')" "gcm_inv m'"
      "gcm_entries m' = gcm_entries m"
      "gcm_free m' = (if acc \<and> k \<in> set (gcm_free m) then remove1 k (gcm_free m) @ [k] else gcm_free m)"
    using gm.m_get [OF rc_ok_gcm [OF assms], of k acc] by blast
  moreover have "set (gcm_free m') = set (gcm_free m)"
    using m'(4) d by auto
  ultimately show ?thesis
    using assms by (auto simp: rc_ok_def)
qed

lemma rc_ok_replace:
  assumes "rc_ok m key ref n" and "gcm_free m = k # ks"
  shows "\<exists>m' a. genericCacheManagerReplaceOne m = Some (Some a, m') \<and> rc_ok m' key ref n \<and>
    gcm_entries m k = Some a \<and> ref a = 0 \<and> key a = k \<and>
    gcm_entries m' = (gcm_entries m)(k := None) \<and> gcm_free m' = ks"
proof -
  note inv = rc_ok_gcm [OF assms(1)]
  have fc: "distinct (k # ks)" "set (k # ks) \<subseteq> dom (gcm_entries m)"
    using gm.m_free_cached [OF inv] assms(2) by auto
  then obtain a where a: "gcm_entries m k = Some a"
    by auto
  obtain m' where m': "genericCacheManagerReplaceOne m = Some (gcm_entries m k, m')" "gcm_inv m'"
      "gcm_entries m' = (gcm_entries m)(k := None)" "gcm_free m' = ks"
    using gm.m_replace [OF inv assms(2)] by blast
  moreover have "rc_ok m' key ref n"
    using assms(1) m' assms(2) unfolding rc_ok_def by auto
  moreover have "ref a = 0" "key a = k"
    using rc_okD [OF assms(1) a] assms(2) by auto
  ultimately show ?thesis
    using a by auto
qed

lemma rc_ok_remove:
  assumes "rc_ok m key ref n" and "gcm_entries m k = Some a"
  shows "\<exists>m'. genericCacheManagerRemove m k = Some (Some a, m') \<and> rc_ok m' key ref n \<and>
    gcm_entries m' = (gcm_entries m)(k := None) \<and> gcm_free m' = remove1 k (gcm_free m)"
proof -
  have d: "distinct (gcm_free m)"
    using gm.m_free_cached [OF rc_ok_gcm [OF assms(1)]] by simp
  obtain m' where m': "genericCacheManagerRemove m k = Some (Some a, m')" "gcm_inv m'"
      "gcm_entries m' = (gcm_entries m)(k := None)" "gcm_free m' = remove1 k (gcm_free m)"
    using gm.m_remove [OF rc_ok_gcm [OF assms(1)] assms(2)] by blast
  moreover have "rc_ok m' key ref n"
    using assms(1) m' d unfolding rc_ok_def by auto
  ultimately show ?thesis by blast
qed

lemma card_dom_add:
  "finite (dom f) \<Longrightarrow> f k = None \<Longrightarrow> card (dom (f(k \<mapsto> v))) = Suc (card (dom f))"
  by (simp add: domIff)

lemma card_dom_del:
  "finite (dom f) \<Longrightarrow> f k = Some v \<Longrightarrow> Suc (card (dom (f(k := None)))) = card (dom f)"
  using card_Suc_Diff1 [of "dom f" k] by (simp add: domI)

subsection \<open>The contract of a reference-counted cache\<close>

text \<open>
  \<open>cents c\<close> maps cached keys to the addresses of their entries, \<open>crefs c a\<close> is the reference count of
  the entry at \<open>a\<close>, \<open>cevict c\<close> makes one replacement and tells the victim's address.
\<close>

locale refcounted_cache =
  fixes cinv :: "'c \<Rightarrow> bool"
    and cents :: "'c \<Rightarrow> u32 \<Rightarrow> nat option"
    and crefs :: "'c \<Rightarrow> nat \<Rightarrow> u32"
    and cevict :: "'c \<Rightarrow> (nat option \<times> 'c) option"
  assumes c_inj: "cinv c \<Longrightarrow> cents c k = Some a \<Longrightarrow> cents c j = Some a \<Longrightarrow> j = k"
    and c_evict: "cinv c \<Longrightarrow> \<exists>v c'. cevict c = Some (v, c') \<and> cinv c' \<and> crefs c' = crefs c \<and>
      (case v of None \<Rightarrow> (\<forall>k a. cents c k = Some a \<longrightarrow> crefs c a \<noteq> 0) \<and> cents c' = cents c
       | Some a \<Rightarrow> \<exists>k. cents c k = Some a \<and> crefs c a = 0 \<and> cents c' = (cents c)(k := None))"
begin

text \<open>A replacement never takes an entry somebody holds a reference to.\<close>

lemma evict_keeps_referenced:
  assumes "cinv c" and "cents c k = Some a" and "crefs c a \<noteq> 0" and "cevict c = Some (v, c')"
  shows "cents c' k = Some a" and "crefs c' a = crefs c a"
proof -
  have "crefs c' = crefs c \<and> (case v of None \<Rightarrow> cents c' = cents c
      | Some b \<Rightarrow> \<exists>j. cents c j = Some b \<and> crefs c b = 0 \<and> cents c' = (cents c)(j := None))"
    using c_evict [OF assms(1)] assms(4) by (auto split: option.splits)
  with assms(2,3) show "cents c' k = Some a" and "crefs c' a = crefs c a"
    by (auto split: option.splits)
qed

text \<open>A replacement fails only when every cached entry is referenced.\<close>

lemma evict_fails_iff:
  assumes "cinv c" and "cevict c = Some (v, c')"
  shows "v = None \<longleftrightarrow> (\<forall>k a. cents c k = Some a \<longrightarrow> crefs c a \<noteq> 0)"
  using c_evict [OF assms(1)] assms(2) by (auto split: option.splits)

end

text \<open>One replacement of any cache whose state carries an \<open>rc_ok\<close> manager meets the contract.\<close>

lemma rc_ok_evict:
  assumes "rc_ok m key ref n"
  shows "\<exists>v m'. genericCacheManagerReplaceOne m = Some (v, m') \<and> rc_ok m' key ref n \<and>
    (case v of None \<Rightarrow> (\<forall>k a. gcm_entries m k = Some a \<longrightarrow> ref a \<noteq> 0) \<and> gcm_entries m' = gcm_entries m
     | Some a \<Rightarrow> \<exists>k. gcm_entries m k = Some a \<and> ref a = 0 \<and> gcm_entries m' = (gcm_entries m)(k := None))"
proof (cases "gcm_free m")
  case Nil
  then have "genericCacheManagerReplaceOne m = Some (None, m)"
    using gm.m_replace_none rc_ok_gcm [OF assms] by blast
  moreover have "ref a \<noteq> 0" if "gcm_entries m k = Some a" for k a
    using rc_okD(3) [OF assms that] Nil by simp
  ultimately show ?thesis
    using assms by (intro exI [of _ None] exI [of _ m]) simp
next
  case (Cons k ks)
  then obtain m' a where "genericCacheManagerReplaceOne m = Some (Some a, m')" "rc_ok m' key ref n"
      "gcm_entries m k = Some a" "ref a = 0" "gcm_entries m' = (gcm_entries m)(k := None)"
    using rc_ok_replace [OF assms] by metis
  then show ?thesis
    by (intro exI [of _ "Some a"] exI [of _ m']) auto
qed

end
