(* ===== verification/Rtfs_Bytes.thy ===== *)
theory Rtfs_Bytes
  imports Rtfs_Prelude
begin

unbundle bit_operations_syntax

text \<open>
  Blocks as bytes. A 4096-byte block buffer is a function from byte offsets to bytes; offsets of 4096
  and above are never read or written by the code modelled here. The C code accesses blocks through
  struct pointers, so a field is read and written at its byte offset, little-endian (the target is
  little-endian ARM; the \<^verbatim>\<open>__le\<close> types of \<^verbatim>\<open>types.h\<close> are plain integers and no swapping is done).

  \<open>byte_codec\<close> is the contract of a fixed-size struct laid out in a block: what is written is read
  back, a write changes only its own bytes, a read depends only on its own bytes. It is interpreted
  here for the integers and, in the later theories, for every on-disk and journal entry type; arrays
  of entries are handled once, inside the locale.
\<close>

type_synonym block = "nat \<Rightarrow> u8"

definition zero_block :: block where
  "zero_block = (\<lambda>_. 0)"

definition get16 :: "block \<Rightarrow> nat \<Rightarrow> u16" where
  "get16 b off = ucast (b off) OR push_bit 8 (ucast (b (off + 1)))"

definition put16 :: "block \<Rightarrow> nat \<Rightarrow> u16 \<Rightarrow> block" where
  "put16 b off v = b(off := ucast v, off + 1 := ucast (drop_bit 8 v))"

definition get32 :: "block \<Rightarrow> nat \<Rightarrow> u32" where
  "get32 b off = ucast (b off) OR push_bit 8 (ucast (b (off + 1))) OR
     push_bit 16 (ucast (b (off + 2))) OR push_bit 24 (ucast (b (off + 3)))"

definition put32 :: "block \<Rightarrow> nat \<Rightarrow> u32 \<Rightarrow> block" where
  "put32 b off v = b(off := ucast v, off + 1 := ucast (drop_bit 8 v),
     off + 2 := ucast (drop_bit 16 v), off + 3 := ucast (drop_bit 24 v))"

definition get64 :: "block \<Rightarrow> nat \<Rightarrow> u64" where
  "get64 b off = ucast (get32 b off) OR push_bit 32 (ucast (get32 b (off + 4)))"

definition put64 :: "block \<Rightarrow> nat \<Rightarrow> u64 \<Rightarrow> block" where
  "put64 b off v = put32 (put32 b off (ucast v)) (off + 4) (ucast (drop_bit 32 v))"

text \<open>Arrays of fixed-size entries: consecutive writes and reads.\<close>

fun put_list :: "(block \<Rightarrow> nat \<Rightarrow> 'a \<Rightarrow> block) \<Rightarrow> nat \<Rightarrow> block \<Rightarrow> nat \<Rightarrow> 'a list \<Rightarrow> block" where
  "put_list put sz b off [] = b"
| "put_list put sz b off (x # xs) = put_list put sz (put b off x) (off + sz) xs"

fun get_list :: "(block \<Rightarrow> nat \<Rightarrow> 'a) \<Rightarrow> nat \<Rightarrow> block \<Rightarrow> nat \<Rightarrow> nat \<Rightarrow> 'a list" where
  "get_list get sz b off 0 = []"
| "get_list get sz b off (Suc n) = get b off # get_list get sz b (off + sz) n"

locale byte_codec =
  fixes csize :: nat
    and cget :: "block \<Rightarrow> nat \<Rightarrow> 'a"
    and cput :: "block \<Rightarrow> nat \<Rightarrow> 'a \<Rightarrow> block"
    and cok :: "'a \<Rightarrow> bool"
  assumes csize_pos: "0 < csize"
    and cget_cput: "cok v \<Longrightarrow> cget (cput b off v) off = v"
    and cok_cget: "cok (cget b off)"
    and cput_frame: "i < off \<or> off + csize \<le> i \<Longrightarrow> cput b off v i = b i"
    and cget_local: "(\<And>i. off \<le> i \<Longrightarrow> i < off + csize \<Longrightarrow> b i = b' i) \<Longrightarrow> cget b off = cget b' off"
begin

lemma get_put_other:
  "off' + csize \<le> off \<or> off + csize \<le> off' \<Longrightarrow> cget (cput b off v) off' = cget b off'"
  by (rule cget_local) (auto intro: cput_frame)

lemma put_list_frame:
  "i < off \<or> off + csize * length xs \<le> i \<Longrightarrow> put_list cput csize b off xs i = b i"
  by (induction xs arbitrary: b off) (auto simp: cput_frame algebra_simps)

lemma get_list_put_list:
  "list_all cok xs \<Longrightarrow> get_list cget csize (put_list cput csize b off xs) off (length xs) = xs"
proof (induction xs arbitrary: b off)
  case Nil
  then show ?case by simp
next
  case (Cons x xs)
  have "cget (put_list cput csize (cput b off x) (off + csize) xs) off = cget (cput b off x) off"
    by (rule cget_local) (auto intro: put_list_frame)
  with Cons show ?case by (simp add: cget_cput)
qed

lemma get_list_local:
  "(\<And>i. off \<le> i \<Longrightarrow> i < off + csize * n \<Longrightarrow> b i = b' i) \<Longrightarrow>
     get_list cget csize b off n = get_list cget csize b' off n"
proof (induction n arbitrary: off)
  case 0
  then show ?case by simp
next
  case (Suc n)
  have "cget b off = cget b' off"
    by (rule cget_local) (auto intro: Suc.prems)
  moreover have "get_list cget csize b (off + csize) n = get_list cget csize b' (off + csize) n"
    by (rule Suc.IH) (auto intro: Suc.prems)
  ultimately show ?case by simp
qed

lemma get_put_slot:
  assumes "cok v"
  shows "cget (cput b (base + i * csize) v) (base + j * csize) = (if i = j then v else cget b (base + j * csize))"
proof (cases "i = j")
  case False
  then have "i * csize + csize \<le> j * csize \<or> j * csize + csize \<le> i * csize"
    by (metis Suc_leI add.commute linorder_neqE_nat mult_Suc mult_le_mono1)
  with False show ?thesis by (auto intro: get_put_other)
qed (simp add: assms cget_cput)

end

subsection \<open>Little-endian integers\<close>

lemma get16_put16: "get16 (put16 b off v) off = v"
  by (simp add: get16_def put16_def, rule bit_word_eqI) (auto simp: bit_simps)

lemma get32_put32: "get32 (put32 b off v) off = v"
proof -
  have "get32 (put32 b off v) off = ucast (ucast v :: u8) OR push_bit 8 (ucast (ucast (drop_bit 8 v) :: u8)) OR
     push_bit 16 (ucast (ucast (drop_bit 16 v) :: u8)) OR push_bit 24 (ucast (ucast (drop_bit 24 v) :: u8))"
    by (simp add: get32_def put32_def)
  also have "\<dots> = v"
  proof (rule bit_word_eqI)
    fix n :: nat
    assume "n < LENGTH(32)"
    then consider "n < 8" | "8 \<le> n" "n < 16" | "16 \<le> n" "n < 24" | "24 \<le> n" "n < 32"
      by fastforce
    then show "bit (ucast (ucast v :: u8) OR push_bit 8 (ucast (ucast (drop_bit 8 v) :: u8)) OR
        push_bit 16 (ucast (ucast (drop_bit 16 v) :: u8)) OR
        push_bit 24 (ucast (ucast (drop_bit 24 v) :: u8)) :: u32) n = bit v n"
      by cases (auto simp: bit_simps)
  qed
  finally show ?thesis .
qed

lemma put16_frame: "i < off \<or> off + 2 \<le> i \<Longrightarrow> put16 b off v i = b i"
  by (auto simp: put16_def)

lemma put32_frame: "i < off \<or> off + 4 \<le> i \<Longrightarrow> put32 b off v i = b i"
  by (auto simp: put32_def)

interpretation c16: byte_codec 2 get16 put16 "\<lambda>_. True"
  by unfold_locales (simp_all add: get16_put16 put16_frame, simp add: get16_def)

interpretation c32: byte_codec 4 get32 put32 "\<lambda>_. True"
  by unfold_locales (simp_all add: get32_put32 put32_frame, simp add: get32_def)

lemma get64_put64: "get64 (put64 b off v) off = v"
proof -
  have "get64 (put64 b off v) off = ucast (ucast v :: u32) OR push_bit 32 (ucast (ucast (drop_bit 32 v) :: u32))"
    by (simp add: get64_def put64_def c32.get_put_other get32_put32)
  also have "\<dots> = v"
    by (rule bit_word_eqI) (auto simp: bit_simps)
  finally show ?thesis .
qed

interpretation c64: byte_codec 8 get64 put64 "\<lambda>_. True"
proof unfold_locales
  show "put64 b off v i = b i" if "i < off \<or> off + 8 \<le> i" for b off v i
    using that by (auto simp: put64_def put32_frame)
  show "get64 b off = get64 b' off" if "\<And>i. off \<le> i \<Longrightarrow> i < off + 8 \<Longrightarrow> b i = b' i" for b b' off
    using that by (simp add: get64_def get32_def)
qed (simp_all add: get64_put64)

lemmas le_get_put [simp, byte_simps] = get16_put16 get32_put32 get64_put64

lemma get32_put32_other [byte_simps]:
  "off' + 4 \<le> off \<or> off + 4 \<le> off' \<Longrightarrow> get32 (put32 b off v) off' = get32 b off'"
  by (rule c32.get_put_other)

lemma get32_zero_block [simp]: "get32 zero_block off = 0"
  by (simp add: get32_def zero_block_def)

lemma get16_zero_block [simp]: "get16 zero_block off = 0"
  by (simp add: get16_def zero_block_def)

end
