(* ===== verification/Fs_Layout.thy ===== *)
theory Fs_Layout
  imports Rtfs_Bytes
begin

text \<open>
  The on-disk format of \<^verbatim>\<open>src/src/fs/fs.h\<close>: the constants, the byte offsets of the super block's
  fields, and the entries of the NAT, SIT and SRMAP tables with their place in a block.
\<close>

abbreviation (input) BLOCK_PER_SEGMENT :: u32 where "BLOCK_PER_SEGMENT \<equiv> 512"
abbreviation (input) INVALID_LPA :: u32 where "INVALID_LPA \<equiv> 0"
abbreviation (input) INVALID_SEGID :: u32 where "INVALID_SEGID \<equiv> 0"
abbreviation (input) INVALID_NID :: u32 where "INVALID_NID \<equiv> 0"
abbreviation (input) NAT_ENTRY_PER_BLOCK :: u32 where "NAT_ENTRY_PER_BLOCK \<equiv> 512"
abbreviation (input) SIT_ENTRY_PER_BLOCK :: u32 where "SIT_ENTRY_PER_BLOCK \<equiv> 60"
abbreviation (input) ENTRIES_IN_SUM :: u32 where "ENTRIES_IN_SUM \<equiv> 512"
abbreviation (input) RTFS_MAGIC_NUMBER :: u32 where "RTFS_MAGIC_NUMBER \<equiv> 0x336699cc"

subsection \<open>Super block fields\<close>

text \<open>
  A super block is its 4096 bytes; a field is read with \<open>get32\<close> (\<open>get16\<close>, \<open>get64\<close>) at the offset
  the C struct layout gives it. \<open>SB_*\<close> are the \<^verbatim>\<open>offsetof\<close> values.
\<close>

abbreviation (input) SB_magic :: nat where "SB_magic \<equiv> 0"
abbreviation (input) SB_major_ver :: nat where "SB_major_ver \<equiv> 4"
abbreviation (input) SB_minor_ver :: nat where "SB_minor_ver \<equiv> 6"
abbreviation (input) SB_log_sectorsize :: nat where "SB_log_sectorsize \<equiv> 8"
abbreviation (input) SB_log_sectors_per_block :: nat where "SB_log_sectors_per_block \<equiv> 12"
abbreviation (input) SB_log_blocksize :: nat where "SB_log_blocksize \<equiv> 16"
abbreviation (input) SB_log_blocks_per_seg :: nat where "SB_log_blocks_per_seg \<equiv> 20"
abbreviation (input) SB_block_count :: nat where "SB_block_count \<equiv> 24"
abbreviation (input) SB_segment_count :: nat where "SB_segment_count \<equiv> 32"
abbreviation (input) SB_segment_count_sit :: nat where "SB_segment_count_sit \<equiv> 36"
abbreviation (input) SB_segment_count_nat :: nat where "SB_segment_count_nat \<equiv> 40"
abbreviation (input) SB_segment_count_srmap :: nat where "SB_segment_count_srmap \<equiv> 44"
abbreviation (input) SB_segment_count_meta_journal :: nat where "SB_segment_count_meta_journal \<equiv> 48"
abbreviation (input) SB_segment_count_main :: nat where "SB_segment_count_main \<equiv> 52"
abbreviation (input) SB_segment0_blkaddr :: nat where "SB_segment0_blkaddr \<equiv> 56"
abbreviation (input) SB_sit_blkaddr :: nat where "SB_sit_blkaddr \<equiv> 60"
abbreviation (input) SB_nat_blkaddr :: nat where "SB_nat_blkaddr \<equiv> 64"
abbreviation (input) SB_srmap_blkaddr :: nat where "SB_srmap_blkaddr \<equiv> 68"
abbreviation (input) SB_meta_journal_blkaddr :: nat where "SB_meta_journal_blkaddr \<equiv> 72"
abbreviation (input) SB_main_blkaddr :: nat where "SB_main_blkaddr \<equiv> 76"
abbreviation (input) SB_root_ino :: nat where "SB_root_ino \<equiv> 80"
abbreviation (input) SB_node_ino :: nat where "SB_node_ino \<equiv> 84"
abbreviation (input) SB_meta_ino :: nat where "SB_meta_ino \<equiv> 88"
abbreviation (input) SB_first_free_segment_id :: nat where "SB_first_free_segment_id \<equiv> 92"
abbreviation (input) SB_first_data_segment_id :: nat where "SB_first_data_segment_id \<equiv> 96"
abbreviation (input) SB_first_node_segment_id :: nat where "SB_first_node_segment_id \<equiv> 100"
abbreviation (input) SB_current_data_segment_id :: nat where "SB_current_data_segment_id \<equiv> 104"
abbreviation (input) SB_current_data_segment_blkoff :: nat where "SB_current_data_segment_blkoff \<equiv> 108"
abbreviation (input) SB_current_node_segment_id :: nat where "SB_current_node_segment_id \<equiv> 112"
abbreviation (input) SB_current_node_segment_blkoff :: nat where "SB_current_node_segment_blkoff \<equiv> 116"
abbreviation (input) SB_meta_journal_start_blkoff :: nat where "SB_meta_journal_start_blkoff \<equiv> 120"
abbreviation (input) SB_meta_journal_end_blkoff :: nat where "SB_meta_journal_end_blkoff \<equiv> 122"
abbreviation (input) SB_free_segment_count :: nat where "SB_free_segment_count \<equiv> 124"
abbreviation (input) SB_next_free_nid :: nat where "SB_next_free_nid \<equiv> 128"

subsection \<open>NAT, SIT and SRMAP entries\<close>

record RtfsNatEntry =
  nat_ino :: u32
  nat_block_addr :: u32

definition getNatEntry :: "block \<Rightarrow> nat \<Rightarrow> RtfsNatEntry" where
  "getNatEntry b off = \<lparr>nat_ino = get32 b off, nat_block_addr = get32 b (off + 4)\<rparr>"

definition putNatEntry :: "block \<Rightarrow> nat \<Rightarrow> RtfsNatEntry \<Rightarrow> block" where
  "putNatEntry b off e = put32 (put32 b off (nat_ino e)) (off + 4) (nat_block_addr e)"

text \<open>\<open>valid_map\<close> has \<^verbatim>\<open>SIT_VBLOCK_MAP_SIZE\<close> = 64 bytes: one bit per block of the segment.\<close>

record RtfsSitEntry =
  vblocks :: u32
  valid_map :: "u8 list"

definition sit_ok :: "RtfsSitEntry \<Rightarrow> bool" where
  "sit_ok e = (length (valid_map e) = 64)"

definition getSitEntry :: "block \<Rightarrow> nat \<Rightarrow> RtfsSitEntry" where
  "getSitEntry b off = \<lparr>vblocks = get32 b off, valid_map = map (\<lambda>i. b (off + 4 + i)) [0..<64]\<rparr>"

definition putSitEntry :: "block \<Rightarrow> nat \<Rightarrow> RtfsSitEntry \<Rightarrow> block" where
  "putSitEntry b off e =
     (\<lambda>i. if off + 4 \<le> i \<and> i < off + 68 then valid_map e ! (i - (off + 4)) else put32 b off (vblocks e) i)"

definition GET_SIT_VBLOCKS :: "RtfsSitEntry \<Rightarrow> u32" where
  "GET_SIT_VBLOCKS e = vblocks e AND 511"

definition GET_NEXT_SEG :: "RtfsSitEntry \<Rightarrow> u32" where
  "GET_NEXT_SEG e = drop_bit 9 (vblocks e AND NOT 511)"

definition SET_NEXT_SEG :: "RtfsSitEntry \<Rightarrow> u32 \<Rightarrow> RtfsSitEntry" where
  "SET_NEXT_SEG e next_seg = e\<lparr>vblocks := vblocks e OR push_bit 9 next_seg\<rparr>"

record RtfsSummary =
  sum_nid :: u32
  sum_ofs_in_node :: u32

definition getSummary :: "block \<Rightarrow> nat \<Rightarrow> RtfsSummary" where
  "getSummary b off = \<lparr>sum_nid = get32 b off, sum_ofs_in_node = get32 b (off + 4)\<rparr>"

definition putSummary :: "block \<Rightarrow> nat \<Rightarrow> RtfsSummary \<Rightarrow> block" where
  "putSummary b off e = put32 (put32 b off (sum_nid e)) (off + 4) (sum_ofs_in_node e)"

interpretation cnat: byte_codec 8 getNatEntry putNatEntry "\<lambda>_. True"
proof unfold_locales
  show "getNatEntry b off = getNatEntry b' off" if "\<And>i. off \<le> i \<Longrightarrow> i < off + 8 \<Longrightarrow> b i = b' i" for b b' off
    using that by (simp add: getNatEntry_def get32_def)
qed (auto simp: getNatEntry_def putNatEntry_def put32_frame byte_simps)

interpretation csum: byte_codec 8 getSummary putSummary "\<lambda>_. True"
proof unfold_locales
  show "getSummary b off = getSummary b' off" if "\<And>i. off \<le> i \<Longrightarrow> i < off + 8 \<Longrightarrow> b i = b' i" for b b' off
    using that by (simp add: getSummary_def get32_def)
qed (auto simp: getSummary_def putSummary_def put32_frame byte_simps)

lemma get32_putSitEntry: "get32 (putSitEntry b off e) off = vblocks e"
proof -
  have "get32 (putSitEntry b off e) off = get32 (put32 b off (vblocks e)) off"
    by (rule c32.cget_local) (simp add: putSitEntry_def)
  then show ?thesis by simp
qed

interpretation csit: byte_codec 68 getSitEntry putSitEntry sit_ok
proof unfold_locales
  show "getSitEntry (putSitEntry b off v) off = v" if "sit_ok v" for b off v
  proof -
    have "map (\<lambda>i. putSitEntry b off v (off + 4 + i)) [0..<64] = valid_map v"
      using that by (intro nth_equalityI) (auto simp: sit_ok_def putSitEntry_def)
    then show ?thesis by (simp add: getSitEntry_def get32_putSitEntry)
  qed
  show "putSitEntry b off v i = b i" if "i < off \<or> off + 68 \<le> i" for b off v i
    using that by (auto simp: putSitEntry_def put32_frame)
  show "getSitEntry b off = getSitEntry b' off" if "\<And>i. off \<le> i \<Longrightarrow> i < off + 68 \<Longrightarrow> b i = b' i" for b b' off
    using that by (simp add: getSitEntry_def get32_def)
qed (simp_all add: getSitEntry_def sit_ok_def)

end
