(* ===== verification/Comm_Dev.thy ===== *)
theory Comm_Dev
  imports Fs_Layout
begin

text \<open>
  The communication layer: \<^verbatim>\<open>src/src/communication/dev.c\<close> and the request functions of
  \<^verbatim>\<open>comm_api.c\<close>. The RTEMS block device below it is not part of the repository: its content is the
  field \<open>media\<close> (one 4096-byte block per 8-sector request, keyed by the request's first LBA, for
  512-byte sectors) and the outcome of a request (driver error, time-out) is the field \<open>drv_rc\<close>.
  The test hooks are not set. Locks are held for the whole of each function, so they leave no trace.
\<close>

record comm_dev =
  blockSize :: u32
  blockCount :: u64
  diskStart :: u64
  metaJournalStartLpa :: u64
  metaJournalEndLpa :: u64
  metaJournalHeadLpa :: u64
  metaJournalTailLpa :: u64
  recoveredReclaim :: "(u32 list \<times> u32 list) list"
  media :: "u64 \<Rightarrow> block"
  drv_rc :: "u64 \<Rightarrow> rc"

text \<open>
  \<^verbatim>\<open>LPA_TO_LBA(lpa)\<close> multiplies in the type of its argument: with a \<open>uint32_t\<close> LPA the product wraps at
  32 bits before it is widened, with a \<open>uint64_t\<close> LPA (the journal writer) it does not.
\<close>

definition LPA_TO_LBA32 :: "u32 \<Rightarrow> u64" where
  "LPA_TO_LBA32 lpa = ucast (lpa * 8)"

definition LPA_TO_LBA64 :: "u64 \<Rightarrow> u64" where
  "LPA_TO_LBA64 lpa = lpa * 8"

definition commDevInit ::
  "u32 \<Rightarrow> u64 \<Rightarrow> u64 \<Rightarrow> u64 \<Rightarrow> u64 \<Rightarrow> (u64 \<Rightarrow> block) \<Rightarrow> (u64 \<Rightarrow> rc) \<Rightarrow> rc + comm_dev" where
  "commDevInit bs bc start js je m drv =
     (if bs = 0 then Inl EINVAL else if bc = 0 then Inl EINVAL
      else if js \<ge> je then Inl EINVAL else if je > bc then Inl EINVAL
      else Inr \<lparr>blockSize = bs, blockCount = bc, diskStart = start, metaJournalStartLpa = js,
                metaJournalEndLpa = je, metaJournalHeadLpa = js, metaJournalTailLpa = js,
                recoveredReclaim = [], media = m, drv_rc = drv\<rparr>)"

definition commDevClearRecoveredReclaimRecords :: "comm_dev \<Rightarrow> comm_dev" where
  "commDevClearRecoveredReclaimRecords dev = dev\<lparr>recoveredReclaim := []\<rparr>"

text \<open>The checks of \<^verbatim>\<open>comm_submit_rw_request_common\<close> for an 8-sector request.\<close>

definition comm_submit_rw_request_common :: "comm_dev \<Rightarrow> u64 \<Rightarrow> rc" where
  "comm_submit_rw_request_common dev lba =
     (if blockSize dev = 0 \<or> blockCount dev = 0 then EINVAL
      else let endLba = lba + 8 in
        if endLba < lba then EOVERFLOW
        else if lba \<ge> blockCount dev \<or> endLba > blockCount dev then EINVAL
        else let totalBytes64 = 8 * (ucast (blockSize dev) :: u64) in
          if totalBytes64 div ucast (blockSize dev) \<noteq> 8 then EOVERFLOW
          else if totalBytes64 > 0xFFFFFFFF then EOVERFLOW
          else if diskStart dev > 0xFFFFFFFFFFFFFFFF - lba then EOVERFLOW
          else drv_rc dev lba)"

definition comm_read :: "comm_dev \<Rightarrow> u64 \<Rightarrow> rc \<times> block" where
  "comm_read dev lba = (comm_submit_rw_request_common dev lba, media dev lba)"

definition comm_write :: "comm_dev \<Rightarrow> u64 \<Rightarrow> block \<Rightarrow> rc \<times> comm_dev" where
  "comm_write dev lba b =
     (let r = comm_submit_rw_request_common dev lba in
      if r = RC0 then (RC0, dev\<lparr>media := (media dev)(lba := b)\<rparr>) else (r, dev))"

subsection \<open>The journal head and tail the device keeps\<close>

definition comm_submit_sync_update_metajournal_tail_request ::
  "comm_dev \<Rightarrow> u64 \<Rightarrow> u32 \<Rightarrow> rc \<times> comm_dev" where
  "comm_submit_sync_update_metajournal_tail_request dev originLpa writeBlockNum =
     (if writeBlockNum = 0 then (RC0, dev)
      else if metaJournalEndLpa dev \<le> metaJournalStartLpa dev then (EINVAL, dev)
      else if originLpa < metaJournalStartLpa dev \<or> originLpa \<ge> metaJournalEndLpa dev then (EINVAL, dev)
      else if originLpa \<noteq> metaJournalTailLpa dev then (EINVAL, dev)
      else let journalSize = metaJournalEndLpa dev - metaJournalStartLpa dev in
        if journalSize = 0 then (EINVAL, dev)
        else let offset = originLpa - metaJournalStartLpa dev;
                 step = ucast writeBlockNum mod journalSize;
                 newOffset = offset + step;
                 newOffset' = (if newOffset \<ge> journalSize then newOffset - journalSize else newOffset);
                 tail = metaJournalStartLpa dev + newOffset'
             in (RC0, dev\<lparr>metaJournalTailLpa := tail, metaJournalHeadLpa := tail\<rparr>))"

definition comm_submit_sync_get_metajournal_head_request :: "comm_dev \<Rightarrow> rc \<times> u64" where
  "comm_submit_sync_get_metajournal_head_request dev = (RC0, metaJournalHeadLpa dev)"

definition comm_submit_fs_db_init_request :: "comm_dev \<Rightarrow> comm_dev" where
  "comm_submit_fs_db_init_request dev =
     dev\<lparr>metaJournalHeadLpa := metaJournalStartLpa dev, metaJournalTailLpa := metaJournalStartLpa dev\<rparr>"

definition comm_submit_clear_metajournal_request :: "comm_dev \<Rightarrow> comm_dev" where
  "comm_submit_clear_metajournal_request dev =
     dev\<lparr>metaJournalHeadLpa := metaJournalStartLpa dev, metaJournalTailLpa := metaJournalStartLpa dev\<rparr>"

definition comm_submit_fs_module_init_request :: "comm_dev \<Rightarrow> rc" where
  "comm_submit_fs_module_init_request dev =
     (if blockSize dev = 0 then EINVAL else if blockCount dev = 0 then EINVAL
      else if metaJournalStartLpa dev \<ge> metaJournalEndLpa dev then EINVAL
      else if metaJournalEndLpa dev > blockCount dev then EINVAL else RC0)"

subsection \<open>Facts on requests\<close>

lemma comm_write_media:
  "comm_write dev lba b = (r, dev') \<Longrightarrow> r = RC0 \<Longrightarrow> media dev' = (media dev)(lba := b)"
  by (auto simp: comm_write_def Let_def split: if_splits)

lemma comm_write_then_read:
  assumes "comm_write dev lba b = (RC0, dev')"
  shows "comm_read dev' lba = (RC0, b)"
  using assms by (auto simp: comm_write_def comm_read_def comm_submit_rw_request_common_def Let_def split: if_splits)

lemma comm_write_check [simp]:
  "comm_submit_rw_request_common (snd (comm_write dev lba b)) = comm_submit_rw_request_common dev"
  by (auto simp: comm_write_def comm_submit_rw_request_common_def Let_def fun_eq_iff)

lemma comm_submit_media [simp]:
  "comm_submit_rw_request_common (dev\<lparr>media := m\<rparr>) = comm_submit_rw_request_common dev"
  by (simp add: comm_submit_rw_request_common_def Let_def fun_eq_iff)

lemma LPA_TO_LBA32_inj:
  assumes "a < 0x20000000" and "b < 0x20000000" and "LPA_TO_LBA32 a = LPA_TO_LBA32 b"
  shows "a = b"
proof -
  have u: "unat (LPA_TO_LBA32 x) = unat x * 8" if "x < 0x20000000" for x
  proof -
    have "unat x < 536870912"
      using that by (simp add: word_less_nat_alt)
    then show ?thesis
      by (simp add: LPA_TO_LBA32_def unat_mult_lem [THEN iffD1])
  qed
  have "unat a = unat b"
    using u [OF assms(1)] u [OF assms(2)] assms(3) by simp
  then show ?thesis by (rule unsigned_word_eqI)
qed

end
