(* ===== verification/Sit_Nat_Cache.thy ===== *)
theory Sit_Nat_Cache
  imports Cache_Refcount Comm_Dev
begin

text \<open>
  The SIT/NAT block cache, \<^verbatim>\<open>src/src/cache/sit_nat_cache.c\<close>. Entries are heap objects
  (\<open>snc_heap\<close>, addresses handed out by \<open>snc_next\<close>; the code never frees one), the manager maps an LPA
  to the address of its entry, a handle is an entry pointer (\<open>None\<close> for NULL). The device the C
  struct points to is an argument. A failed read aborts (\<open>None\<close>).
\<close>

record SitNatCacheEntry =
  sne_lpa :: u32
  sne_refCount :: u32
  sne_cache :: block

record SitNatCache =
  snc_mgr :: "nat GenericCacheManager"
  snc_heap :: "nat \<Rightarrow> SitNatCacheEntry"
  snc_next :: nat
  snc_expect :: nat
  snc_cur :: nat

definition sitNatCacheEntryInit :: "u32 \<Rightarrow> SitNatCacheEntry" where
  "sitNatCacheEntryInit lpa = \<lparr>sne_lpa = lpa, sne_refCount = 0, sne_cache = zero_block\<rparr>"

definition sitNatCacheInit :: "nat \<Rightarrow> SitNatCache" where
  "sitNatCacheInit expectCacheSize =
     \<lparr>snc_mgr = genericCacheManagerInit, snc_heap = (\<lambda>_. sitNatCacheEntryInit 0), snc_next = 0,
      snc_expect = expectCacheSize, snc_cur = 0\<rparr>"

definition sitNatCacheDestroy :: "SitNatCache \<Rightarrow> SitNatCache" where
  "sitNatCacheDestroy c = c\<lparr>snc_mgr := genericCacheManagerDestroy (snc_mgr c), snc_expect := 0, snc_cur := 0\<rparr>"

text \<open>
  One round of the loop of \<^verbatim>\<open>sitNatCacheDoReplace\<close>: a replacement with the check on the victim. The
  loop leaves after a round that found a victim, or when the size is within the expectation.
\<close>

definition sitNatCacheReplaceRound :: "SitNatCache \<Rightarrow> (nat option \<times> SitNatCache) option" where
  "sitNatCacheReplaceRound c = do {
     (entry, m) \<leftarrow> genericCacheManagerReplaceOne (snc_mgr c);
     case entry of
       None \<Rightarrow> Some (None, c\<lparr>snc_mgr := m\<rparr>)
     | Some a \<Rightarrow> do {
         c_assert (sne_refCount (snc_heap c a) = 0);
         Some (Some a, c\<lparr>snc_mgr := m, snc_cur := snc_cur c - 1\<rparr>)
       }
   }"

partial_function (option) sitNatCacheReplaceLoop :: "SitNatCache \<Rightarrow> SitNatCache option" where
  "sitNatCacheReplaceLoop c = do {
     (entry, c1) \<leftarrow> sitNatCacheReplaceRound c;
     if entry \<noteq> None \<or> snc_cur c1 \<le> snc_expect c1 then Some c1 else sitNatCacheReplaceLoop c1
   }"

definition sitNatCacheDoReplace :: "SitNatCache \<Rightarrow> SitNatCache option" where
  "sitNatCacheDoReplace c = (if snc_cur c > snc_expect c then sitNatCacheReplaceLoop c else Some c)"

definition sitNatCacheAddRefcount :: "SitNatCache \<Rightarrow> nat \<Rightarrow> SitNatCache" where
  "sitNatCacheAddRefcount c entry =
     (let e = snc_heap c entry; r = sne_refCount e + 1;
          c1 = c\<lparr>snc_heap := (snc_heap c)(entry := e\<lparr>sne_refCount := r\<rparr>)\<rparr>
      in if r = 1 then c1\<lparr>snc_mgr := genericCacheManagerPin (snc_mgr c1) (sne_lpa e)\<rparr> else c1)"

definition sitNatCacheSubRefcount :: "SitNatCache \<Rightarrow> nat \<Rightarrow> SitNatCache option" where
  "sitNatCacheSubRefcount c entry =
     (let e = snc_heap c entry; r = sne_refCount e - 1;
          c1 = c\<lparr>snc_heap := (snc_heap c)(entry := e\<lparr>sne_refCount := r\<rparr>)\<rparr>
      in if r = 0 then sitNatCacheDoReplace (c1\<lparr>snc_mgr := genericCacheManagerUnpin (snc_mgr c1) (sne_lpa e)\<rparr>)
         else Some c1)"

definition sitNatCacheReadLpa :: "comm_dev \<Rightarrow> SitNatCacheEntry \<Rightarrow> SitNatCacheEntry option" where
  "sitNatCacheReadLpa dev e =
     (case comm_read dev (LPA_TO_LBA32 (sne_lpa e)) of
        (r, b) \<Rightarrow> if r \<noteq> RC0 then None else Some (e\<lparr>sne_cache := b\<rparr>))"

definition sitNatCacheGetCacheEntryInner ::
  "comm_dev \<Rightarrow> SitNatCache \<Rightarrow> u32 \<Rightarrow> bool \<Rightarrow> (nat \<times> SitNatCache) option" where
  "sitNatCacheGetCacheEntryInner dev c lpa isAccess = do {
     (entry, m) \<leftarrow> genericCacheManagerGet (snc_mgr c) lpa isAccess;
     case entry of
       Some a \<Rightarrow> Some (a, c\<lparr>snc_mgr := m\<rparr>)
     | None \<Rightarrow> do {
         e \<leftarrow> sitNatCacheReadLpa dev (sitNatCacheEntryInit lpa);
         m' \<leftarrow> genericCacheManagerAdd m lpa (snc_next c);
         Some (snc_next c, c\<lparr>snc_mgr := m', snc_heap := (snc_heap c)(snc_next c := e),
                           snc_next := snc_next c + 1, snc_cur := snc_cur c + 1\<rparr>)
       }
   }"

definition sitNatCacheGet :: "comm_dev \<Rightarrow> SitNatCache \<Rightarrow> u32 \<Rightarrow> (nat \<times> SitNatCache) option" where
  "sitNatCacheGet dev c lpa = do {
     (entry, c1) \<leftarrow> sitNatCacheGetCacheEntryInner dev c lpa True;
     c2 \<leftarrow> sitNatCacheDoReplace (sitNatCacheAddRefcount c1 entry);
     Some (entry, c2)
   }"

definition sitNatCacheAddSsdVersion :: "comm_dev \<Rightarrow> SitNatCache \<Rightarrow> u32 \<Rightarrow> SitNatCache option" where
  "sitNatCacheAddSsdVersion dev c lpa = do {
     (entry, c1) \<leftarrow> sitNatCacheGetCacheEntryInner dev c lpa False;
     sitNatCacheSubRefcount c1 entry
   }"

definition sitNatCacheEntryHandleDestroy :: "SitNatCache \<Rightarrow> nat option \<Rightarrow> (nat option \<times> SitNatCache) option" where
  "sitNatCacheEntryHandleDestroy c h =
     (case h of None \<Rightarrow> Some (None, c)
      | Some a \<Rightarrow> do { c1 \<leftarrow> sitNatCacheSubRefcount c a; Some (None, c1) })"

definition sitNatCacheEntryHandleCopy :: "SitNatCache \<Rightarrow> nat option \<Rightarrow> nat option \<times> SitNatCache" where
  "sitNatCacheEntryHandleCopy c h =
     (h, case h of None \<Rightarrow> c | Some a \<Rightarrow> sitNatCacheAddRefcount c a)"

definition sitNatCacheEntryHandleAddHostVersion :: "SitNatCache \<Rightarrow> nat option \<Rightarrow> SitNatCache" where
  "sitNatCacheEntryHandleAddHostVersion c h =
     (case h of None \<Rightarrow> c | Some a \<Rightarrow> sitNatCacheAddRefcount c a)"

definition sitNatCacheEntryHandleAddSsdVersion :: "SitNatCache \<Rightarrow> nat option \<Rightarrow> SitNatCache option" where
  "sitNatCacheEntryHandleAddSsdVersion c h =
     (case h of None \<Rightarrow> Some c | Some a \<Rightarrow> sitNatCacheSubRefcount c a)"

text \<open>A write through the pointer of \<^verbatim>\<open>sitNatCacheEntryHandleGetNatBlockPtr\<close> / \<^verbatim>\<open>...GetSitBlockPtr\<close>.\<close>

definition snc_block :: "SitNatCache \<Rightarrow> nat \<Rightarrow> block" where
  "snc_block c a = sne_cache (snc_heap c a)"

definition snc_put_block :: "SitNatCache \<Rightarrow> nat \<Rightarrow> block \<Rightarrow> SitNatCache" where
  "snc_put_block c a b = c\<lparr>snc_heap := (snc_heap c)(a := (snc_heap c a)\<lparr>sne_cache := b\<rparr>)\<rparr>"

text \<open>
  \<^verbatim>\<open>sitNatCacheWriteAllSync\<close> walks the hash table in an order that the table's history fixes: the
  order \<open>ks\<close> is an argument. The return code of each write is dropped.
\<close>

fun sitNatCacheWriteAllSync :: "comm_dev \<Rightarrow> SitNatCache \<Rightarrow> u32 list \<Rightarrow> comm_dev" where
  "sitNatCacheWriteAllSync dev c [] = dev"
| "sitNatCacheWriteAllSync dev c (k # ks) =
     (case gcm_entries (snc_mgr c) k of
        None \<Rightarrow> sitNatCacheWriteAllSync dev c ks
      | Some a \<Rightarrow> sitNatCacheWriteAllSync
          (snd (comm_write dev (LPA_TO_LBA32 (sne_lpa (snc_heap c a))) (snc_block c a))) c ks)"

subsection \<open>Invariant and views\<close>

abbreviation snc_refs :: "SitNatCache \<Rightarrow> nat \<Rightarrow> u32" where
  "snc_refs c \<equiv> (\<lambda>a. sne_refCount (snc_heap c a))"

abbreviation snc_keys :: "SitNatCache \<Rightarrow> nat \<Rightarrow> u32" where
  "snc_keys c \<equiv> (\<lambda>a. sne_lpa (snc_heap c a))"

abbreviation snc_ents :: "SitNatCache \<Rightarrow> u32 \<Rightarrow> nat option" where
  "snc_ents c \<equiv> gcm_entries (snc_mgr c)"

definition snc_inv :: "SitNatCache \<Rightarrow> bool" where
  "snc_inv c \<longleftrightarrow> rc_ok (snc_mgr c) (snc_keys c) (snc_refs c) (snc_next c) \<and>
     snc_cur c = card (dom (snc_ents c))"

text \<open>
  What the file system sees at an LPA: the cached block, or the medium's. \<open>snc_clean\<close>: unreferenced
  cached blocks equal the medium's, so that dropping one loses nothing.
\<close>

definition snc_view :: "comm_dev \<Rightarrow> SitNatCache \<Rightarrow> u32 \<Rightarrow> block" where
  "snc_view dev c k = (case snc_ents c k of Some a \<Rightarrow> snc_block c a | None \<Rightarrow> media dev (LPA_TO_LBA32 k))"

definition snc_clean :: "comm_dev \<Rightarrow> SitNatCache \<Rightarrow> bool" where
  "snc_clean dev c \<longleftrightarrow> (\<forall>k a. snc_ents c k = Some a \<longrightarrow> snc_refs c a = 0 \<longrightarrow>
     snc_block c a = media dev (LPA_TO_LBA32 k))"

lemma snc_init: "snc_inv (sitNatCacheInit n)" "snc_ents (sitNatCacheInit n) = Map.empty"
  "snc_clean dev (sitNatCacheInit n)"
  by (simp_all add: snc_inv_def sitNatCacheInit_def rc_ok_init gcm_init snc_clean_def)

lemma snc_finite: "snc_inv c \<Longrightarrow> finite (dom (snc_ents c))"
  by (auto simp: snc_inv_def intro: finite_gcm_dom rc_ok_gcm)

lemma heap_upd_proj: "(\<lambda>x. f ((h(a := e)) x)) = (\<lambda>x. f (h x))(a := f e)"
  by auto

lemma snc_view_cong:
  "snc_ents c' = snc_ents c \<Longrightarrow> snc_block c' = snc_block c \<Longrightarrow> snc_view dev c' = snc_view dev c"
  by (rule ext) (simp add: snc_view_def split: option.split)

subsection \<open>Replacement\<close>

lemma snc_round:
  assumes "snc_inv c"
  shows "\<exists>v c'. sitNatCacheReplaceRound c = Some (v, c') \<and> snc_inv c' \<and> snc_heap c' = snc_heap c \<and>
    snc_next c' = snc_next c \<and> snc_expect c' = snc_expect c \<and>
    (case v of None \<Rightarrow> gcm_free (snc_mgr c) = [] \<and> c' = c
     | Some a \<Rightarrow> \<exists>k ks. gcm_free (snc_mgr c) = k # ks \<and> snc_ents c k = Some a \<and> snc_refs c a = 0 \<and>
         snc_ents c' = (snc_ents c)(k := None) \<and> gcm_free (snc_mgr c') = ks)"
proof (cases "gcm_free (snc_mgr c)")
  case Nil
  with assms have "genericCacheManagerReplaceOne (snc_mgr c) = Some (None, snc_mgr c)"
    by (intro gm.m_replace_none) (auto simp: snc_inv_def rc_ok_gcm)
  with assms Nil show ?thesis
    by (intro exI [of _ None] exI [of _ c]) (simp add: sitNatCacheReplaceRound_def)
next
  case (Cons k ks)
  have rc: "rc_ok (snc_mgr c) (snc_keys c) (snc_refs c) (snc_next c)"
    and cur: "snc_cur c = card (dom (snc_ents c))"
    using assms by (auto simp: snc_inv_def)
  obtain m' a where m': "genericCacheManagerReplaceOne (snc_mgr c) = Some (Some a, m')"
      "rc_ok m' (snc_keys c) (snc_refs c) (snc_next c)" "snc_ents c k = Some a" "snc_refs c a = 0"
      "gcm_entries m' = (snc_ents c)(k := None)" "gcm_free m' = ks"
    using rc_ok_replace [OF rc Cons] by metis
  let ?c' = "c\<lparr>snc_mgr := m', snc_cur := snc_cur c - 1\<rparr>"
  have "snc_inv ?c'"
    using m' cur card_dom_del [OF snc_finite [OF assms] m'(3)] by (auto simp: snc_inv_def)
  with m' Cons show ?thesis
    by (intro exI [of _ "Some a"] exI [of _ ?c']) (auto simp: sitNatCacheReplaceRound_def)
qed

interpretation sn: refcounted_cache snc_inv snc_ents snc_refs sitNatCacheReplaceRound
proof unfold_locales
  show "j = k" if "snc_inv c" "snc_ents c k = Some a" "snc_ents c j = Some a" for c k j a
    using that rc_ok_inj by (auto simp: snc_inv_def)
  show "\<exists>v c'. sitNatCacheReplaceRound c = Some (v, c') \<and> snc_inv c' \<and> snc_refs c' = snc_refs c \<and>
      (case v of None \<Rightarrow> (\<forall>k a. snc_ents c k = Some a \<longrightarrow> snc_refs c a \<noteq> 0) \<and> snc_ents c' = snc_ents c
       | Some a \<Rightarrow> \<exists>k. snc_ents c k = Some a \<and> snc_refs c a = 0 \<and> snc_ents c' = (snc_ents c)(k := None))"
    if inv: "snc_inv c" for c
  proof -
    obtain v c' where r: "sitNatCacheReplaceRound c = Some (v, c')" "snc_inv c'" "snc_heap c' = snc_heap c"
        "case v of None \<Rightarrow> gcm_free (snc_mgr c) = [] \<and> c' = c
         | Some a \<Rightarrow> \<exists>k ks. gcm_free (snc_mgr c) = k # ks \<and> snc_ents c k = Some a \<and> snc_refs c a = 0 \<and>
             snc_ents c' = (snc_ents c)(k := None) \<and> gcm_free (snc_mgr c') = ks"
      using snc_round [OF inv] by blast
    have "snc_refs c a \<noteq> 0" if "gcm_free (snc_mgr c) = []" "snc_ents c k = Some a" for k a
      using inv that rc_okD(3) unfolding snc_inv_def by fastforce
    with r show ?thesis
      by (intro exI [of _ v] exI [of _ c']) (auto split: option.splits)
  qed
qed

text \<open>
  The loop in closed form: nothing to do within the expected size; otherwise exactly one eviction,
  of the least recently used unreferenced entry; and no return when every entry is referenced.
\<close>

lemma sitNatCacheReplaceLoop_stuck:
  assumes "sitNatCacheReplaceRound c = Some (None, c)" and "snc_cur c > snc_expect c"
  shows "sitNatCacheReplaceLoop c = None"
proof -
  have "x \<noteq> c" if "sitNatCacheReplaceLoop x = Some y" for x y
  proof (rule sitNatCacheReplaceLoop.raw_induct [of "\<lambda>x _. x \<noteq> c", OF _ that])
    fix rec x y
    assume ih: "\<And>x y. rec x = Some y \<Longrightarrow> x \<noteq> c"
      and "(sitNatCacheReplaceRound x \<bind> (\<lambda>(entry, c1).
        if entry \<noteq> None \<or> snc_cur c1 \<le> snc_expect c1 then Some c1 else rec c1)) = Some y"
    with assms show "x \<noteq> c" by (auto dest: ih)
  qed
  then show ?thesis by (cases "sitNatCacheReplaceLoop c") auto
qed

lemma snc_do_replace_cases:
  assumes "snc_inv c"
  shows "snc_cur c \<le> snc_expect c \<Longrightarrow> sitNatCacheDoReplace c = Some c"
    and "snc_cur c > snc_expect c \<Longrightarrow> gcm_free (snc_mgr c) = [] \<Longrightarrow> sitNatCacheDoReplace c = None"
    and "snc_cur c > snc_expect c \<Longrightarrow> gcm_free (snc_mgr c) = k # ks \<Longrightarrow>
      \<exists>c'. sitNatCacheDoReplace c = Some c' \<and> snc_inv c' \<and> snc_heap c' = snc_heap c \<and>
        snc_next c' = snc_next c \<and> snc_expect c' = snc_expect c \<and>
        snc_ents c' = (snc_ents c)(k := None) \<and> gcm_free (snc_mgr c') = ks"
proof -
  show "sitNatCacheDoReplace c = Some c" if "snc_cur c \<le> snc_expect c"
    using that by (simp add: sitNatCacheDoReplace_def)
  show "sitNatCacheDoReplace c = None" if "snc_cur c > snc_expect c" "gcm_free (snc_mgr c) = []"
    using that snc_round [OF assms]
    by (auto simp: sitNatCacheDoReplace_def split: option.splits intro!: sitNatCacheReplaceLoop_stuck)
  show "\<exists>c'. sitNatCacheDoReplace c = Some c' \<and> snc_inv c' \<and> snc_heap c' = snc_heap c \<and>
        snc_next c' = snc_next c \<and> snc_expect c' = snc_expect c \<and>
        snc_ents c' = (snc_ents c)(k := None) \<and> gcm_free (snc_mgr c') = ks"
    if "snc_cur c > snc_expect c" "gcm_free (snc_mgr c) = k # ks"
  proof -
    obtain v c' where r: "sitNatCacheReplaceRound c = Some (v, c')" "snc_inv c'" "snc_heap c' = snc_heap c"
        "snc_next c' = snc_next c" "snc_expect c' = snc_expect c"
        "case v of None \<Rightarrow> gcm_free (snc_mgr c) = [] \<and> c' = c
         | Some a \<Rightarrow> \<exists>k ks. gcm_free (snc_mgr c) = k # ks \<and> snc_ents c k = Some a \<and> snc_refs c a = 0 \<and>
             snc_ents c' = (snc_ents c)(k := None) \<and> gcm_free (snc_mgr c') = ks"
      using snc_round [OF assms] by blast
    then have v: "v \<noteq> None" using that(2) by (cases v) auto
    with r(1) have "sitNatCacheReplaceLoop c = Some c'"
      by (subst sitNatCacheReplaceLoop.simps) auto
    with r v that show ?thesis
      by (auto simp: sitNatCacheDoReplace_def)
  qed
qed

subsection \<open>References\<close>

lemma snc_add_ref:
  assumes "snc_inv c" and "snc_ents c k = Some a" and "snc_refs c a + 1 \<noteq> 0"
  shows "snc_inv (sitNatCacheAddRefcount c a)"
    and "snc_ents (sitNatCacheAddRefcount c a) = snc_ents c"
    and "gcm_free (snc_mgr (sitNatCacheAddRefcount c a)) = remove1 k (gcm_free (snc_mgr c))"
proof -
  let ?r = "snc_refs c a + 1" and ?c' = "sitNatCacheAddRefcount c a"
  have rc: "rc_ok (snc_mgr c) (snc_keys c) (snc_refs c) (snc_next c)"
    and cur: "snc_cur c = card (dom (snc_ents c))" and key: "sne_lpa (snc_heap c a) = k"
    using assms(1) rc_okD(2) [OF _ assms(2)] by (auto simp: snc_inv_def)
  have keys: "snc_keys ?c' = snc_keys c" and refs: "snc_refs ?c' = (snc_refs c)(a := ?r)"
    and next': "snc_next ?c' = snc_next c" and cur': "snc_cur ?c' = snc_cur c"
    by (auto simp: sitNatCacheAddRefcount_def Let_def)
  have "rc_ok (snc_mgr ?c') (snc_keys c) ((snc_refs c)(a := ?r)) (snc_next c) \<and> snc_ents ?c' = snc_ents c \<and>
     gcm_free (snc_mgr ?c') = remove1 k (gcm_free (snc_mgr c))"
  proof (cases "?r = 1")
    case True
    then have "snc_mgr ?c' = genericCacheManagerPin (snc_mgr c) k"
      by (simp add: sitNatCacheAddRefcount_def Let_def key)
    then show ?thesis
      using rc_ok_pin [OF rc assms(2), of ?r] True by simp
  next
    case False
    then have m: "snc_mgr ?c' = snc_mgr c" and nz: "snc_refs c a \<noteq> 0"
      by (auto simp: sitNatCacheAddRefcount_def Let_def)
    then have "k \<notin> set (gcm_free (snc_mgr c))"
      using rc_okD(3) [OF rc assms(2)] by simp
    then show ?thesis
      using m rc_ok_count [OF rc nz assms(3)] by (simp add: remove1_idem)
  qed
  then show "snc_inv ?c'" "snc_ents ?c' = snc_ents c"
    "gcm_free (snc_mgr ?c') = remove1 k (gcm_free (snc_mgr c))"
    using cur keys refs next' cur' by (simp_all add: snc_inv_def)
qed

lemma snc_add_ref_fields [simp]:
  "snc_expect (sitNatCacheAddRefcount c a) = snc_expect c" "snc_cur (sitNatCacheAddRefcount c a) = snc_cur c"
  "snc_next (sitNatCacheAddRefcount c a) = snc_next c"
  "snc_heap (sitNatCacheAddRefcount c a) =
     (snc_heap c)(a := (snc_heap c a)\<lparr>sne_refCount := sne_refCount (snc_heap c a) + 1\<rparr>)"
  "snc_block (sitNatCacheAddRefcount c a) = snc_block c"
  by (auto simp: sitNatCacheAddRefcount_def snc_block_def Let_def)

lemma snc_get_inner:
  assumes "snc_inv c" and "snc_ents c lpa = None \<Longrightarrow> comm_submit_rw_request_common dev (LPA_TO_LBA32 lpa) = RC0"
  shows "\<exists>a c'. sitNatCacheGetCacheEntryInner dev c lpa acc = Some (a, c') \<and> snc_inv c' \<and>
    snc_ents c' = (snc_ents c)(lpa \<mapsto> a) \<and> snc_expect c' = snc_expect c \<and> snc_block c' a = snc_view dev c lpa \<and>
    (\<forall>b. b \<noteq> a \<longrightarrow> snc_heap c' b = snc_heap c b) \<and>
    (case snc_ents c lpa of
       Some a0 \<Rightarrow> a = a0 \<and> snc_cur c' = snc_cur c \<and> snc_heap c' = snc_heap c \<and>
         set (gcm_free (snc_mgr c')) = set (gcm_free (snc_mgr c)) \<and>
         remove1 lpa (gcm_free (snc_mgr c')) = remove1 lpa (gcm_free (snc_mgr c))
     | None \<Rightarrow> a = snc_next c \<and> snc_cur c' = snc_cur c + 1 \<and> snc_refs c' a = 0 \<and>
         gcm_free (snc_mgr c') = gcm_free (snc_mgr c) @ [lpa])"
proof -
  have rc: "rc_ok (snc_mgr c) (snc_keys c) (snc_refs c) (snc_next c)"
    and cur: "snc_cur c = card (dom (snc_ents c))"
    using assms(1) by (auto simp: snc_inv_def)
  have d: "distinct (gcm_free (snc_mgr c))"
    using gm.m_free_cached [OF rc_ok_gcm [OF rc]] by simp
  obtain m where m: "genericCacheManagerGet (snc_mgr c) lpa acc = Some (snc_ents c lpa, m)"
      "rc_ok m (snc_keys c) (snc_refs c) (snc_next c)" "gcm_entries m = snc_ents c"
      "gcm_free m = (if acc \<and> lpa \<in> set (gcm_free (snc_mgr c))
         then remove1 lpa (gcm_free (snc_mgr c)) @ [lpa] else gcm_free (snc_mgr c))"
    using rc_ok_get [OF rc, of lpa acc] by blast
  show ?thesis
  proof (cases "snc_ents c lpa")
    case (Some a)
    let ?c' = "c\<lparr>snc_mgr := m\<rparr>"
    have "remove1 lpa (gcm_free m) = remove1 lpa (gcm_free (snc_mgr c))" "set (gcm_free m) = set (gcm_free (snc_mgr c))"
      using m(4) d by (auto simp: remove1_append remove1_idem)
    with Some m cur show ?thesis
      by (intro exI [of _ a] exI [of _ ?c'])
        (auto simp: sitNatCacheGetCacheEntryInner_def snc_inv_def snc_view_def snc_block_def)
  next
    case None
    have read: "sitNatCacheReadLpa dev (sitNatCacheEntryInit lpa) =
        Some \<lparr>sne_lpa = lpa, sne_refCount = 0, sne_cache = media dev (LPA_TO_LBA32 lpa)\<rparr>" (is "_ = Some ?e")
      using assms(2) None by (simp add: sitNatCacheReadLpa_def sitNatCacheEntryInit_def comm_read_def)
    obtain m' where m': "genericCacheManagerAdd m lpa (snc_next c) = Some m'"
        "rc_ok m' ((snc_keys c)(snc_next c := lpa)) ((snc_refs c)(snc_next c := 0)) (Suc (snc_next c))"
        "gcm_entries m' = (snc_ents c)(lpa \<mapsto> snc_next c)" "gcm_free m' = gcm_free m @ [lpa]"
      using rc_ok_add [OF m(2), of lpa] None m(3) by auto
    let ?c' = "c\<lparr>snc_mgr := m', snc_heap := (snc_heap c)(snc_next c := ?e),
                snc_next := snc_next c + 1, snc_cur := snc_cur c + 1\<rparr>"
    have keys: "snc_keys ?c' = (snc_keys c)(snc_next c := lpa)"
      and refs: "snc_refs ?c' = (snc_refs c)(snc_next c := 0)"
      by auto
    have fr: "gcm_free m = gcm_free (snc_mgr c)"
      using m(4) None gm.m_free_cached [OF rc_ok_gcm [OF rc]] by auto
    have inv: "snc_inv ?c'"
      unfolding snc_inv_def keys refs
      using m' cur card_dom_add [OF snc_finite [OF assms(1)] None, of "snc_next c"] by simp
    show ?thesis
      by (rule exI [of _ "snc_next c"], rule exI [of _ ?c'])
        (use None m read m' fr inv in \<open>simp add: sitNatCacheGetCacheEntryInner_def snc_view_def snc_block_def\<close>)
  qed
qed

text \<open>Dropping an unreferenced clean entry changes no view and keeps every referenced entry.\<close>

lemma snc_do_replace_view:
  assumes "snc_inv c" and "snc_clean dev c" and "snc_cur c \<le> snc_expect c \<or> gcm_free (snc_mgr c) \<noteq> []"
  shows "\<exists>c'. sitNatCacheDoReplace c = Some c' \<and> snc_inv c' \<and> snc_clean dev c' \<and> snc_heap c' = snc_heap c \<and>
    snc_next c' = snc_next c \<and> snc_expect c' = snc_expect c \<and> snc_view dev c' = snc_view dev c \<and>
    (\<forall>k b. snc_ents c k = Some b \<longrightarrow> snc_refs c b \<noteq> 0 \<longrightarrow> snc_ents c' k = Some b) \<and>
    snc_ents c' \<subseteq>\<^sub>m snc_ents c"
proof (cases "snc_cur c \<le> snc_expect c")
  case True
  with assms snc_do_replace_cases(1) [OF assms(1)] show ?thesis by auto
next
  case False
  with assms(3) obtain k ks where f: "gcm_free (snc_mgr c) = k # ks"
    by (cases "gcm_free (snc_mgr c)") auto
  then obtain c' where c': "sitNatCacheDoReplace c = Some c'" "snc_inv c'" "snc_heap c' = snc_heap c"
      "snc_next c' = snc_next c" "snc_expect c' = snc_expect c" "snc_ents c' = (snc_ents c)(k := None)"
    using snc_do_replace_cases(3) [OF assms(1) _ f] False by auto
  have rc: "rc_ok (snc_mgr c) (snc_keys c) (snc_refs c) (snc_next c)"
    using assms(1) by (auto simp: snc_inv_def)
  have "k \<in> dom (snc_ents c)"
    using gm.m_free_cached [OF rc_ok_gcm [OF rc]] f by auto
  then obtain a where a: "snc_ents c k = Some a"
    by auto
  have z: "snc_refs c a = 0"
    using rc_okD(3) [OF rc a] f by simp
  have bl: "snc_block c' = snc_block c"
    using c'(3) by (simp add: snc_block_def fun_eq_iff)
  have "snc_block c a = media dev (LPA_TO_LBA32 k)"
    using assms(2) a z by (auto simp: snc_clean_def)
  then have "snc_view dev c' = snc_view dev c"
    using c'(6) a bl by (auto simp: snc_view_def fun_eq_iff split: option.split)
  moreover have "snc_clean dev c'"
    using assms(2) c' by (auto simp: snc_clean_def snc_block_def)
  moreover have "\<forall>j b. snc_ents c j = Some b \<longrightarrow> snc_refs c b \<noteq> 0 \<longrightarrow> snc_ents c' j = Some b"
    using c'(6) a z by auto
  ultimately show ?thesis
    using c' by (intro exI [of _ c']) (auto simp: map_le_def)
qed

abbreviation snc_miss :: "SitNatCache \<Rightarrow> u32 \<Rightarrow> nat" where
  "snc_miss c lpa \<equiv> (if snc_ents c lpa = None then 1 else 0)"

text \<open>The state of \<^verbatim>\<open>sitNatCacheGet\<close> just before the replacement.\<close>

lemma snc_get_pinned:
  assumes "snc_inv c"
    and "snc_ents c lpa = None \<longrightarrow> comm_submit_rw_request_common dev (LPA_TO_LBA32 lpa) = RC0"
    and "\<forall>a. snc_ents c lpa = Some a \<longrightarrow> snc_refs c a \<noteq> -1"
  obtains a c1 where "sitNatCacheGet dev c lpa = (sitNatCacheDoReplace c1 \<bind> (\<lambda>c2. Some (a, c2)))"
    "snc_inv c1" "snc_ents c1 = (snc_ents c)(lpa \<mapsto> a)" "snc_expect c1 = snc_expect c"
    "snc_cur c1 = snc_cur c + snc_miss c lpa" "snc_block c1 a = snc_view dev c lpa"
    "\<forall>b. b \<noteq> a \<longrightarrow> snc_heap c1 b = snc_heap c b"
    "snc_refs c1 a = (case snc_ents c lpa of Some b \<Rightarrow> snc_refs c b + 1 | None \<Rightarrow> 1)" "snc_refs c1 a \<noteq> 0"
    "gcm_free (snc_mgr c1) = remove1 lpa (gcm_free (snc_mgr c))"
    "\<forall>b. snc_ents c lpa = Some b \<longrightarrow> a = b"
proof -
  obtain a c' where g: "sitNatCacheGetCacheEntryInner dev c lpa True = Some (a, c')" and inv: "snc_inv c'"
    and ents: "snc_ents c' = (snc_ents c)(lpa \<mapsto> a)" and ex: "snc_expect c' = snc_expect c"
    and blk: "snc_block c' a = snc_view dev c lpa" and oth: "\<forall>b. b \<noteq> a \<longrightarrow> snc_heap c' b = snc_heap c b"
    and cs: "case snc_ents c lpa of
       Some a0 \<Rightarrow> a = a0 \<and> snc_cur c' = snc_cur c \<and> snc_heap c' = snc_heap c \<and>
         set (gcm_free (snc_mgr c')) = set (gcm_free (snc_mgr c)) \<and>
         remove1 lpa (gcm_free (snc_mgr c')) = remove1 lpa (gcm_free (snc_mgr c))
     | None \<Rightarrow> a = snc_next c \<and> snc_cur c' = snc_cur c + 1 \<and> snc_refs c' a = 0 \<and>
         gcm_free (snc_mgr c') = gcm_free (snc_mgr c) @ [lpa]"
    using snc_get_inner [OF assms(1), of lpa dev True] assms(2) by blast
  have rc: "snc_refs c' a = (case snc_ents c lpa of Some b \<Rightarrow> snc_refs c b | None \<Rightarrow> 0)"
    using cs by (auto split: option.splits)
  have nz: "snc_refs c' a + 1 \<noteq> 0"
    using rc assms(3) by (auto split: option.splits simp: add_eq_0_iff2)
  note ar = snc_add_ref [OF inv, of lpa a, unfolded ents, simplified, OF nz]
  have nfree: "snc_ents c lpa = None \<Longrightarrow> lpa \<notin> set (gcm_free (snc_mgr c))"
    using gm.m_free_cached rc_ok_gcm assms(1) unfolding snc_inv_def by blast
  show ?thesis
  proof (rule that [of "sitNatCacheAddRefcount c' a" a])
    show "gcm_free (snc_mgr (sitNatCacheAddRefcount c' a)) = remove1 lpa (gcm_free (snc_mgr c))"
      using ar(3) cs nfree by (auto split: option.splits simp: remove1_append remove1_idem)
  qed (use ar ents ex blk oth cs rc nz g in \<open>auto simp: sitNatCacheGet_def split: option.splits\<close>)
qed

lemma snc_get_ok:
  assumes "snc_inv c" and "snc_clean dev c"
    and "snc_ents c lpa = None \<longrightarrow> comm_submit_rw_request_common dev (LPA_TO_LBA32 lpa) = RC0"
    and "\<forall>a. snc_ents c lpa = Some a \<longrightarrow> snc_refs c a \<noteq> -1"
    and "snc_cur c + snc_miss c lpa \<le> snc_expect c \<or> remove1 lpa (gcm_free (snc_mgr c)) \<noteq> []"
  shows "\<exists>a c'. sitNatCacheGet dev c lpa = Some (a, c') \<and> snc_inv c' \<and> snc_clean dev c' \<and>
    snc_ents c' lpa = Some a \<and> snc_block c' a = snc_view dev c lpa \<and> snc_view dev c' = snc_view dev c \<and>
    snc_refs c' a = (case snc_ents c lpa of Some b \<Rightarrow> snc_refs c b + 1 | None \<Rightarrow> 1) \<and>
    (\<forall>k b. snc_ents c k = Some b \<longrightarrow> snc_refs c b \<noteq> 0 \<longrightarrow> snc_ents c' k = Some b) \<and>
    snc_expect c' = snc_expect c \<and> snc_ents c' \<subseteq>\<^sub>m (snc_ents c)(lpa \<mapsto> a) \<and>
    (\<forall>b. b \<noteq> a \<longrightarrow> snc_heap c' b = snc_heap c b)"
proof -
  obtain a c1 where g: "sitNatCacheGet dev c lpa = (sitNatCacheDoReplace c1 \<bind> (\<lambda>c2. Some (a, c2)))"
    and inv: "snc_inv c1" and e: "snc_ents c1 = (snc_ents c)(lpa \<mapsto> a)" and ex: "snc_expect c1 = snc_expect c"
    and cur: "snc_cur c1 = snc_cur c + snc_miss c lpa" and blk: "snc_block c1 a = snc_view dev c lpa"
    and oth: "\<forall>b. b \<noteq> a \<longrightarrow> snc_heap c1 b = snc_heap c b"
    and refs: "snc_refs c1 a = (case snc_ents c lpa of Some b \<Rightarrow> snc_refs c b + 1 | None \<Rightarrow> 1)"
    and nz: "snc_refs c1 a \<noteq> 0" and fr: "gcm_free (snc_mgr c1) = remove1 lpa (gcm_free (snc_mgr c))"
    and same: "\<forall>b. snc_ents c lpa = Some b \<longrightarrow> a = b"
    by (rule snc_get_pinned [OF assms(1,3,4)])
  have na: "b \<noteq> a" if "snc_ents c k = Some b" "k \<noteq> lpa" for k b
    using sn.c_inj [OF inv, of k b lpa] that e by auto
  have view: "snc_view dev c1 = snc_view dev c"
  proof
    fix k
    show "snc_view dev c1 k = snc_view dev c k"
    proof (cases "k = lpa")
      case True
      with e blk show ?thesis by (simp add: snc_view_def [of dev c1])
    next
      case False
      with e na oth show ?thesis by (auto simp: snc_view_def snc_block_def split: option.splits)
    qed
  qed
  have clean: "snc_clean dev c1"
    using assms(2) e na oth nz by (auto simp: snc_clean_def snc_block_def)
  obtain c2 where c2: "sitNatCacheDoReplace c1 = Some c2" "snc_inv c2" "snc_clean dev c2" "snc_heap c2 = snc_heap c1"
      "snc_view dev c2 = snc_view dev c1" "snc_expect c2 = snc_expect c1" "snc_ents c2 \<subseteq>\<^sub>m snc_ents c1"
    and keep: "\<forall>k b. snc_ents c1 k = Some b \<longrightarrow> snc_refs c1 b \<noteq> 0 \<longrightarrow> snc_ents c2 k = Some b"
    using snc_do_replace_view [OF inv clean] assms(5) ex cur fr by auto
  have "snc_ents c2 lpa = Some a"
    using keep e nz by simp
  moreover have "snc_ents c2 k = Some b" if "snc_ents c k = Some b" "snc_refs c b \<noteq> 0" for k b
    using that keep e nz na [of k b] oth refs same by (cases "k = lpa") auto
  ultimately show ?thesis
    using g c2 view refs blk ex e oth by (intro exI [of _ a] exI [of _ c2]) (auto simp: snc_block_def)
qed

text \<open>
  Claim C14. \<^verbatim>\<open>sitNatCacheGet\<close> is transparent and protects references. When the cache invariant holds,
  unreferenced cached blocks are equal to the medium, a miss can be read, and there is either room
  or an entry to evict other than the one asked for, the call returns; the returned entry holds
  exactly what the file system sees at that LPA (cached or on the medium), its reference count has
  grown by one, the invariant and cleanness are kept, no LPA's visible block changes, and no entry
  that anybody references is evicted.
\<close>

theorem sitNatCacheGet_transparent:
  assumes "snc_inv c" and "snc_clean dev c"
    and "snc_ents c lpa = None \<Longrightarrow> comm_submit_rw_request_common dev (LPA_TO_LBA32 lpa) = RC0"
    and "\<And>a. snc_ents c lpa = Some a \<Longrightarrow> snc_refs c a \<noteq> -1"
    and "snc_cur c + snc_miss c lpa \<le> snc_expect c \<or> remove1 lpa (gcm_free (snc_mgr c)) \<noteq> []"
  shows "\<exists>a c'. sitNatCacheGet dev c lpa = Some (a, c') \<and> snc_inv c' \<and> snc_clean dev c' \<and>
    snc_ents c' lpa = Some a \<and> snc_block c' a = snc_view dev c lpa \<and> snc_view dev c' = snc_view dev c \<and>
    snc_refs c' a = (case snc_ents c lpa of Some b \<Rightarrow> snc_refs c b + 1 | None \<Rightarrow> 1) \<and>
    (\<forall>k b. snc_ents c k = Some b \<longrightarrow> snc_refs c b \<noteq> 0 \<longrightarrow> snc_ents c' k = Some b)"
proof -
  have h: "snc_ents c lpa = None \<longrightarrow> comm_submit_rw_request_common dev (LPA_TO_LBA32 lpa) = RC0"
    "\<forall>a. snc_ents c lpa = Some a \<longrightarrow> snc_refs c a \<noteq> -1"
    using assms(3,4) by blast+
  show ?thesis
    using snc_get_ok [OF assms(1,2) h assms(5)] by blast
qed

lemma sitNatCacheGet_transparent_witness:
  "\<exists>a c'. sitNatCacheGet
      \<lparr>blockSize = 512, blockCount = 4096, diskStart = 0, metaJournalStartLpa = 1, metaJournalEndLpa = 2,
       metaJournalHeadLpa = 1, metaJournalTailLpa = 1, recoveredReclaim = [], media = \<lambda>_ _. 7, drv_rc = \<lambda>_. RC0\<rparr>
      (sitNatCacheInit 2) 5 = Some (a, c') \<and> snc_block c' a = (\<lambda>_. 7) \<and> snc_refs c' a = 1"
proof -
  let ?dev = "\<lparr>blockSize = 512, blockCount = 4096, diskStart = 0, metaJournalStartLpa = 1, metaJournalEndLpa = 2,
       metaJournalHeadLpa = 1, metaJournalTailLpa = 1, recoveredReclaim = [], media = \<lambda>_ _. 7, drv_rc = \<lambda>_. RC0\<rparr>"
  have "comm_submit_rw_request_common ?dev (LPA_TO_LBA32 5) = RC0"
    by (simp add: comm_submit_rw_request_common_def LPA_TO_LBA32_def)
  then show ?thesis
    using sitNatCacheGet_transparent [OF snc_init(1) snc_init(3), of 2 5 ?dev]
    by (auto simp: snc_init(2) snc_view_def sitNatCacheInit_def gcm_init)
qed

text \<open>
  Releasing a reference: the call always returns, keeps the invariant, and keeps every view as long
  as the block whose last reference goes is equal to the medium's.
\<close>

lemma snc_sub_ref:
  assumes "snc_inv c" and "snc_ents c k = Some a" and "snc_refs c a \<noteq> 0" and "snc_clean dev c"
    and "snc_refs c a = 1 \<Longrightarrow> snc_block c a = media dev (LPA_TO_LBA32 k)"
  shows "\<exists>c'. sitNatCacheSubRefcount c a = Some c' \<and> snc_inv c' \<and> snc_clean dev c' \<and>
    snc_view dev c' = snc_view dev c \<and> snc_refs c' = (snc_refs c)(a := snc_refs c a - 1) \<and>
    snc_block c' = snc_block c \<and> snc_expect c' = snc_expect c \<and>
    (\<forall>j b. snc_ents c j = Some b \<longrightarrow> snc_refs c' b \<noteq> 0 \<longrightarrow> snc_ents c' j = Some b) \<and>
    snc_ents c' \<subseteq>\<^sub>m snc_ents c"
proof -
  let ?r = "snc_refs c a - 1"
  let ?c1 = "c\<lparr>snc_heap := (snc_heap c)(a := (snc_heap c a)\<lparr>sne_refCount := ?r\<rparr>)\<rparr>"
  have rc: "rc_ok (snc_mgr c) (snc_keys c) (snc_refs c) (snc_next c)"
    and cur: "snc_cur c = card (dom (snc_ents c))"
    using assms(1) by (auto simp: snc_inv_def)
  note key = rc_okD(2) [OF rc assms(2)]
  have keys: "snc_keys ?c1 = snc_keys c" and refs: "snc_refs ?c1 = (snc_refs c)(a := ?r)"
    and blk: "snc_block ?c1 = snc_block c"
    by (auto simp: snc_block_def)
  show ?thesis
  proof (cases "?r = 0")
    case False
    then have "snc_inv ?c1"
      unfolding snc_inv_def keys refs using rc_ok_count [OF rc assms(3), of ?r] cur by simp
    moreover have "snc_view dev ?c1 = snc_view dev c"
      using blk by (intro snc_view_cong) simp_all
    moreover have "snc_clean dev ?c1"
      using assms(4) False blk by (auto simp: snc_clean_def)
    ultimately show ?thesis
      using False refs blk by (intro exI [of _ ?c1]) (auto simp: sitNatCacheSubRefcount_def Let_def)
  next
    case True
    let ?c2 = "?c1\<lparr>snc_mgr := genericCacheManagerUnpin (snc_mgr c) k\<rparr>"
    note un = rc_ok_unpin [OF rc assms(2,3)]
    have refs2: "snc_refs ?c2 = (snc_refs c)(a := 0)" and blk2: "snc_block ?c2 = snc_block c"
      and keys2: "snc_keys ?c2 = snc_keys c" and mgr2: "snc_ents ?c2 = snc_ents c"
      using refs keys blk True un(2) by (simp_all add: snc_block_def fun_eq_iff)
    have inv2: "snc_inv ?c2"
      unfolding snc_inv_def keys2 refs2 mgr2 using un(1) cur by simp
    have clean2: "snc_clean dev ?c2"
      unfolding snc_clean_def blk2 mgr2
    proof (intro allI impI)
      fix j b
      assume j: "snc_ents c j = Some b" and "snc_refs ?c2 b = 0"
      then have z: "((snc_refs c)(a := 0)) b = 0"
        using fun_cong [OF refs2, of b] by simp
      show "snc_block c b = media dev (LPA_TO_LBA32 j)"
      proof (cases "b = a")
        case True
        with j have "j = k" using sn.c_inj [OF assms(1,2)] by simp
        with True \<open>?r = 0\<close> show ?thesis using assms(5) by simp
      next
        case False
        with j z assms(4) show ?thesis by (simp add: snc_clean_def)
      qed
    qed
    have view2: "snc_view dev ?c2 = snc_view dev c"
      using blk2 mgr2 by (rule snc_view_cong [rotated])
    obtain c' where d: "sitNatCacheDoReplace ?c2 = Some c'" "snc_inv c'" "snc_clean dev c'"
        "snc_heap c' = snc_heap ?c2" "snc_view dev c' = snc_view dev ?c2" "snc_expect c' = snc_expect ?c2"
      and keep: "\<forall>j b. snc_ents ?c2 j = Some b \<longrightarrow> snc_refs ?c2 b \<noteq> 0 \<longrightarrow> snc_ents c' j = Some b"
        and le: "snc_ents c' \<subseteq>\<^sub>m snc_ents ?c2"
      using snc_do_replace_view [OF inv2 clean2] un(3) by auto
    have "sitNatCacheSubRefcount c a = Some c'"
      using d(1) True key by (simp add: sitNatCacheSubRefcount_def Let_def)
    moreover have b': "snc_refs c' = snc_refs ?c2" "snc_block c' = snc_block ?c2"
      using d(4) by (simp_all add: snc_block_def fun_eq_iff)
    moreover have "\<forall>j b. snc_ents c j = Some b \<longrightarrow> snc_refs c' b \<noteq> 0 \<longrightarrow> snc_ents c' j = Some b"
      using keep mgr2 fun_cong [OF b'(1)] by simp
    ultimately show ?thesis
      using True refs2 blk2 view2 mgr2 d(2,3,5,6) le by (intro exI [of _ c']) simp
  qed
qed

subsection \<open>Working with a budget\<close>

text \<open>
  \<open>snc_ready dev c n\<close>: \<open>n\<close> more blocks can be taken and held. The replacement loop gets stuck when
  every entry is referenced and the expected size is exceeded, so the budget counts references, not
  entries: evictions are allowed. It also keeps the 32-bit reference counts away from wrap-around.
\<close>

definition snc_pinned :: "SitNatCache \<Rightarrow> u32 set" where
  "snc_pinned c = {k. \<exists>a. snc_ents c k = Some a \<and> snc_refs c a \<noteq> 0}"

definition snc_ready :: "comm_dev \<Rightarrow> SitNatCache \<Rightarrow> nat \<Rightarrow> bool" where
  "snc_ready dev c n \<longleftrightarrow> snc_inv c \<and> snc_clean dev c \<and> card (snc_pinned c) + n \<le> snc_expect c \<and>
     2 * n < 4294967296 \<and> (\<forall>k a. snc_ents c k = Some a \<longrightarrow> unat (snc_refs c a) + 2 * n < 4294967296)"

abbreviation dev_ok :: "comm_dev \<Rightarrow> u32 \<Rightarrow> bool" where
  "dev_ok dev lpa \<equiv> comm_submit_rw_request_common dev (LPA_TO_LBA32 lpa) = RC0"

lemma snc_pinned_dom: "snc_pinned c \<subseteq> dom (snc_ents c)"
  by (auto simp: snc_pinned_def)

lemma snc_ready_mono: "snc_ready dev c n \<Longrightarrow> m \<le> n \<Longrightarrow> snc_ready dev c m"
  by (fastforce simp: snc_ready_def)

lemma snc_ready_init: "n \<le> m \<Longrightarrow> 2 * n < 4294967296 \<Longrightarrow> snc_ready dev (sitNatCacheInit m) n"
  by (simp add: snc_ready_def snc_init snc_pinned_def) (simp add: sitNatCacheInit_def)

lemma snc_ready_room:
  assumes "snc_ready dev c (Suc n)"
  shows "snc_cur c + snc_miss c lpa \<le> snc_expect c \<or> remove1 lpa (gcm_free (snc_mgr c)) \<noteq> []"
proof (rule ccontr)
  assume neg: "\<not> ?thesis"
  have inv: "snc_inv c" and b: "card (snc_pinned c) + Suc n \<le> snc_expect c"
    using assms by (auto simp: snc_ready_def)
  then have rc: "rc_ok (snc_mgr c) (snc_keys c) (snc_refs c) (snc_next c)"
    and cur: "snc_cur c = card (dom (snc_ents c))"
    by (auto simp: snc_inv_def)
  have "distinct (gcm_free (snc_mgr c))"
    using gm.m_free_cached [OF rc_ok_gcm [OF rc]] by simp
  then have fr: "set (gcm_free (snc_mgr c)) \<subseteq> {lpa}"
    using neg set_remove1_distinct [of "gcm_free (snc_mgr c)" lpa] by auto
  have "insert lpa (dom (snc_ents c)) \<subseteq> insert lpa (snc_pinned c)"
    using rc_okD(3) [OF rc] fr by (auto simp: snc_pinned_def)
  moreover have fin: "finite (snc_pinned c)"
    using snc_pinned_dom snc_finite [OF inv] by (rule finite_subset)
  ultimately have "card (insert lpa (dom (snc_ents c))) \<le> card (insert lpa (snc_pinned c))"
    by (simp add: card_mono)
  also have "\<dots> \<le> Suc (card (snc_pinned c))"
    using fin by (simp add: card_insert_if)
  finally have "snc_cur c + snc_miss c lpa \<le> Suc (card (snc_pinned c))"
    using snc_finite [OF inv] cur by (auto simp: card_insert_if split: if_splits)
  with neg b show False by simp
qed

lemma snc_get_ready:
  assumes "snc_ready dev c (Suc n)" and "dev_ok dev lpa"
  obtains a c1 where "sitNatCacheGet dev c lpa = Some (a, c1)" "snc_inv c1" "snc_clean dev c1"
    "snc_ents c1 lpa = Some a" "snc_block c1 a = snc_view dev c lpa" "snc_view dev c1 = snc_view dev c"
    "snc_pinned c1 \<subseteq> insert lpa (snc_pinned c)" "snc_expect c1 = snc_expect c"
    "snc_refs c1 a \<noteq> 0" "unat (snc_refs c1 a) + 2 * n + 1 < 4294967296"
    "\<forall>k b. snc_ents c1 k = Some b \<longrightarrow> b \<noteq> a \<longrightarrow> snc_ents c k = Some b \<and> snc_refs c1 b = snc_refs c b"
    "snc_refs c1 a = 1 \<longrightarrow> snc_block c1 a = media dev (LPA_TO_LBA32 lpa) \<and> lpa \<notin> snc_pinned c"
    "snc_refs c1 a \<noteq> 1 \<longrightarrow> snc_ents c lpa = Some a \<and> snc_refs c a = snc_refs c1 a - 1"
proof -
  have r: "snc_inv c" "snc_clean dev c"
    and bd: "\<And>k a. snc_ents c k = Some a \<Longrightarrow> unat (snc_refs c a) + 2 * Suc n < 4294967296"
    using assms(1) by (auto simp: snc_ready_def)
  have nm: "\<forall>a. snc_ents c lpa = Some a \<longrightarrow> snc_refs c a \<noteq> -1"
    using bd [of lpa] by auto
  obtain a c1 where g: "sitNatCacheGet dev c lpa = Some (a, c1)" "snc_inv c1" "snc_clean dev c1"
    and e: "snc_ents c1 lpa = Some a" "snc_block c1 a = snc_view dev c lpa" "snc_view dev c1 = snc_view dev c"
    and refs: "snc_refs c1 a = (case snc_ents c lpa of Some b \<Rightarrow> snc_refs c b + 1 | None \<Rightarrow> 1)"
    and keep: "\<forall>k b. snc_ents c k = Some b \<longrightarrow> snc_refs c b \<noteq> 0 \<longrightarrow> snc_ents c1 k = Some b"
    and ex: "snc_expect c1 = snc_expect c" and sub: "snc_ents c1 \<subseteq>\<^sub>m (snc_ents c)(lpa \<mapsto> a)"
    and oth: "\<forall>b. b \<noteq> a \<longrightarrow> snc_heap c1 b = snc_heap c b"
    using snc_get_ok [OF r _ nm snc_ready_room [OF assms(1)]] assms(2) by blast
  have old: "snc_ents c k = Some b" if "snc_ents c1 k = Some b" "b \<noteq> a" for k b
  proof -
    have "snc_ents c1 k = ((snc_ents c)(lpa \<mapsto> a)) k"
      using sub that(1) unfolding map_le_def by blast
    with that show ?thesis by (auto split: if_splits)
  qed
  have rest: "\<forall>k b. snc_ents c1 k = Some b \<longrightarrow> b \<noteq> a \<longrightarrow> snc_ents c k = Some b \<and> snc_refs c1 b = snc_refs c b"
    using old oth by simp
  have pin: "snc_pinned c1 \<subseteq> insert lpa (snc_pinned c)"
  proof
    fix k
    assume "k \<in> snc_pinned c1"
    then obtain b where "snc_ents c1 k = Some b" "snc_refs c1 b \<noteq> 0"
      by (auto simp: snc_pinned_def)
    then show "k \<in> insert lpa (snc_pinned c)"
      using rest sn.c_inj [OF g(2) e(1), of k] by (cases "b = a") (auto simp: snc_pinned_def)
  qed
  have un: "unat (snc_refs c1 a) + 2 * n + 1 < 4294967296 \<and> snc_refs c1 a \<noteq> 0"
  proof (cases "snc_ents c lpa")
    case (Some b)
    then have "unat (snc_refs c b + 1) = unat (snc_refs c b) + 1"
      using nm by (simp add: unat_add1_u32)
    with Some bd [OF Some] refs show ?thesis
      by (auto simp: unat_eq_0 [symmetric])
  qed (use refs assms(1) in \<open>auto simp: snc_ready_def\<close>)
  have one: "snc_refs c1 a = 1 \<longrightarrow> snc_block c1 a = media dev (LPA_TO_LBA32 lpa) \<and> lpa \<notin> snc_pinned c"
  proof
    assume 1: "snc_refs c1 a = 1"
    then have "snc_view dev c lpa = media dev (LPA_TO_LBA32 lpa)"
      using refs r(2) by (auto simp: snc_view_def snc_clean_def split: option.splits)
    with 1 e(2) refs show "snc_block c1 a = media dev (LPA_TO_LBA32 lpa) \<and> lpa \<notin> snc_pinned c"
      by (auto simp: snc_pinned_def split: option.splits)
  qed
  have more: "snc_refs c1 a \<noteq> 1 \<longrightarrow> snc_ents c lpa = Some a \<and> snc_refs c a = snc_refs c1 a - 1"
    using refs keep e(1) by (auto split: option.splits)
  show ?thesis
    by (rule that [OF g e pin ex _ _ rest one more]) (use un in simp_all)
qed

text \<open>Taking a handle and keeping it uses one unit of the budget.\<close>

lemma snc_get_budget:
  assumes "snc_ready dev c (Suc n)" and "dev_ok dev lpa"
  obtains a c1 where "sitNatCacheGet dev c lpa = Some (a, c1)" "snc_block c1 a = snc_view dev c lpa"
    "snc_view dev c1 = snc_view dev c" "snc_ready dev c1 n" "lpa \<in> snc_pinned c1"
proof -
  obtain a c1 where g: "sitNatCacheGet dev c lpa = Some (a, c1)" "snc_inv c1" "snc_clean dev c1"
    and e: "snc_ents c1 lpa = Some a" "snc_block c1 a = snc_view dev c lpa" "snc_view dev c1 = snc_view dev c"
    and pin: "snc_pinned c1 \<subseteq> insert lpa (snc_pinned c)" and ex: "snc_expect c1 = snc_expect c"
    and nz: "snc_refs c1 a \<noteq> 0" and un: "unat (snc_refs c1 a) + 2 * n + 1 < 4294967296"
    and rest: "\<forall>k b. snc_ents c1 k = Some b \<longrightarrow> b \<noteq> a \<longrightarrow> snc_ents c k = Some b \<and> snc_refs c1 b = snc_refs c b"
    and "snc_refs c1 a = 1 \<longrightarrow> snc_block c1 a = media dev (LPA_TO_LBA32 lpa) \<and> lpa \<notin> snc_pinned c"
    and "snc_refs c1 a \<noteq> 1 \<longrightarrow> snc_ents c lpa = Some a \<and> snc_refs c a = snc_refs c1 a - 1"
    by (rule snc_get_ready [OF assms])
  have fin: "finite (snc_pinned c)"
    using assms(1) snc_finite finite_subset [OF snc_pinned_dom] by (auto simp: snc_ready_def)
  have "card (snc_pinned c1) \<le> card (insert lpa (snc_pinned c))"
    using pin fin by (simp add: card_mono)
  then have "card (snc_pinned c1) \<le> Suc (card (snc_pinned c))"
    using fin by (simp add: card_insert_if split: if_splits)
  moreover have "unat (snc_refs c1 b) + 2 * n < 4294967296" if "snc_ents c1 k = Some b" for k b
  proof (cases "b = a")
    case False
    with rest that have "snc_ents c k = Some b" "snc_refs c1 b = snc_refs c b" by blast+
    with assms(1) show ?thesis by (fastforce simp: snc_ready_def)
  qed (use un in simp)
  ultimately have "snc_ready dev c1 n"
    using assms(1) g(2,3) ex unfolding snc_ready_def by simp
  then show ?thesis
    by (intro that [OF g(1) e(2,3)]) (use e nz in \<open>auto simp: snc_pinned_def\<close>)
qed

lemma snc_put_block_fields [simp]:
  "snc_mgr (snc_put_block c a b) = snc_mgr c" "snc_next (snc_put_block c a b) = snc_next c"
  "snc_expect (snc_put_block c a b) = snc_expect c" "snc_cur (snc_put_block c a b) = snc_cur c"
  "sne_refCount (snc_heap (snc_put_block c a b) x) = sne_refCount (snc_heap c x)"
  "sne_lpa (snc_heap (snc_put_block c a b) x) = sne_lpa (snc_heap c x)"
  "snc_block (snc_put_block c a b) = (snc_block c)(a := b)"
  by (auto simp: snc_put_block_def snc_block_def)

lemma snc_put_block_ok:
  assumes "snc_inv c" and "snc_clean dev c" and "snc_ents c k = Some a" and "snc_refs c a \<noteq> 0"
  shows "snc_inv (snc_put_block c a b)" "snc_clean dev (snc_put_block c a b)"
    "snc_view dev (snc_put_block c a b) = (snc_view dev c)(k := b)"
proof -
  show "snc_inv (snc_put_block c a b)"
    using assms(1) by (simp add: snc_inv_def)
  show "snc_clean dev (snc_put_block c a b)"
    using assms(2,4) by (simp add: snc_clean_def)
  show "snc_view dev (snc_put_block c a b) = (snc_view dev c)(k := b)"
  proof (rule ext)
    fix x
    show "snc_view dev (snc_put_block c a b) x = ((snc_view dev c)(k := b)) x"
      using assms(3) sn.c_inj [OF assms(1,3), of x]
      by (cases "x = k") (auto simp: snc_view_def split: option.splits)
  qed
qed

text \<open>Releasing the reference that \<open>sitNatCacheGet\<close> took, the block possibly rewritten in between.\<close>

lemma snc_release:
  assumes "snc_ready dev c (Suc n)" and "dev_ok dev lpa"
  obtains a c1 where "sitNatCacheGet dev c lpa = Some (a, c1)" "snc_block c1 a = snc_view dev c lpa"
    "\<forall>b. (lpa \<notin> snc_pinned c \<longrightarrow> b = media dev (LPA_TO_LBA32 lpa)) \<longrightarrow>
       (\<exists>c'. sitNatCacheEntryHandleDestroy (snc_put_block c1 a b) (Some a) = Some (None, c') \<and>
         snc_ready dev c' (Suc n) \<and> snc_view dev c' = (snc_view dev c)(lpa := b))"
    "lpa \<notin> snc_pinned c \<longrightarrow> snc_view dev c lpa = media dev (LPA_TO_LBA32 lpa)"
proof -
  obtain a c1 where g: "sitNatCacheGet dev c lpa = Some (a, c1)" "snc_inv c1" "snc_clean dev c1"
    and e: "snc_ents c1 lpa = Some a" "snc_block c1 a = snc_view dev c lpa" "snc_view dev c1 = snc_view dev c"
    and pin: "snc_pinned c1 \<subseteq> insert lpa (snc_pinned c)" and ex: "snc_expect c1 = snc_expect c"
    and nz: "snc_refs c1 a \<noteq> 0" and un: "unat (snc_refs c1 a) + 2 * n + 1 < 4294967296"
    and rest: "\<forall>k b. snc_ents c1 k = Some b \<longrightarrow> b \<noteq> a \<longrightarrow> snc_ents c k = Some b \<and> snc_refs c1 b = snc_refs c b"
    and one: "snc_refs c1 a = 1 \<longrightarrow> snc_block c1 a = media dev (LPA_TO_LBA32 lpa) \<and> lpa \<notin> snc_pinned c"
    and more: "snc_refs c1 a \<noteq> 1 \<longrightarrow> snc_ents c lpa = Some a \<and> snc_refs c a = snc_refs c1 a - 1"
    by (rule snc_get_ready [OF assms])
  have "\<exists>c'. sitNatCacheEntryHandleDestroy (snc_put_block c1 a b) (Some a) = Some (None, c') \<and>
         snc_ready dev c' (Suc n) \<and> snc_view dev c' = (snc_view dev c)(lpa := b)"
    if b: "lpa \<notin> snc_pinned c \<longrightarrow> b = media dev (LPA_TO_LBA32 lpa)" for b
  proof -
    let ?c1 = "snc_put_block c1 a b"
    note p = snc_put_block_ok [OF g(2,3) e(1) nz, of b]
    have "snc_refs ?c1 a = 1 \<Longrightarrow> snc_block ?c1 a = media dev (LPA_TO_LBA32 lpa)"
      using one b by simp
    then obtain c2 where s: "sitNatCacheSubRefcount ?c1 a = Some c2" "snc_inv c2" "snc_clean dev c2"
        "snc_view dev c2 = snc_view dev ?c1" "snc_refs c2 = (snc_refs ?c1)(a := snc_refs ?c1 a - 1)"
        "snc_expect c2 = snc_expect ?c1" and sub: "snc_ents c2 \<subseteq>\<^sub>m snc_ents ?c1"
      using snc_sub_ref [OF p(1) _ _ p(2), of lpa a] e(1) nz by (metis snc_put_block_fields(1,5))
    have in1: "snc_ents c1 k = Some d" if "snc_ents c2 k = Some d" for k d
      using that sub unfolding map_le_def snc_put_block_fields by (metis domI)
    have old: "snc_refs c2 d = 0 \<or> snc_ents c k = Some d \<and> snc_refs c2 d = snc_refs c d"
      if "snc_ents c2 k = Some d" for k d
    proof (cases "d = a")
      case True
      then have "k = lpa"
        using in1 [OF that] e(1) sn.c_inj [OF g(2)] by blast
      then show ?thesis
        using True more fun_cong [OF s(5), of a] by (cases "snc_refs c1 a = 1") simp_all
    next
      case False
      then show ?thesis
        using in1 [OF that] rest fun_cong [OF s(5), of d] by simp
    qed
    have "snc_pinned c2 \<subseteq> snc_pinned c"
      using old by (fastforce simp: snc_pinned_def)
    then have "card (snc_pinned c2) \<le> card (snc_pinned c)"
      using assms(1) snc_finite finite_subset [OF snc_pinned_dom] by (intro card_mono) (auto simp: snc_ready_def)
    then have "snc_ready dev c2 (Suc n)"
      using assms(1) s ex old unfolding snc_ready_def by force
    with s(1,4) p(3) e(3) show ?thesis
      by (simp add: sitNatCacheEntryHandleDestroy_def)
  qed
  moreover have "lpa \<notin> snc_pinned c \<longrightarrow> snc_view dev c lpa = media dev (LPA_TO_LBA32 lpa)"
    using assms(1) by (auto simp: snc_ready_def snc_clean_def snc_pinned_def snc_view_def split: option.splits)
  ultimately show ?thesis
    by (intro that [OF g(1) e(2)]) blast+
qed

text \<open>Reading through a handle: get, look, destroy. Nothing visible changes and the budget is kept.\<close>

lemma snc_put_same: "snc_put_block c a (snc_block c a) = c"
  by (simp add: snc_put_block_def snc_block_def)

lemma snc_peek:
  assumes "snc_ready dev c (Suc n)" and "dev_ok dev lpa"
  obtains a c1 c2 where "sitNatCacheGet dev c lpa = Some (a, c1)" "snc_block c1 a = snc_view dev c lpa"
    "sitNatCacheEntryHandleDestroy c1 (Some a) = Some (None, c2)"
    "snc_ready dev c2 (Suc n)" "snc_view dev c2 = snc_view dev c"
proof -
  obtain a c1 where g: "sitNatCacheGet dev c lpa = Some (a, c1)" "snc_block c1 a = snc_view dev c lpa"
    and d: "\<forall>b. (lpa \<notin> snc_pinned c \<longrightarrow> b = media dev (LPA_TO_LBA32 lpa)) \<longrightarrow>
       (\<exists>c'. sitNatCacheEntryHandleDestroy (snc_put_block c1 a b) (Some a) = Some (None, c') \<and>
         snc_ready dev c' (Suc n) \<and> snc_view dev c' = (snc_view dev c)(lpa := b))"
    and m: "lpa \<notin> snc_pinned c \<longrightarrow> snc_view dev c lpa = media dev (LPA_TO_LBA32 lpa)"
    by (rule snc_release [OF assms])
  obtain c' where "sitNatCacheEntryHandleDestroy (snc_put_block c1 a (snc_view dev c lpa)) (Some a) = Some (None, c')"
      "snc_ready dev c' (Suc n)" "snc_view dev c' = (snc_view dev c)(lpa := snc_view dev c lpa)"
    using d m by blast
  then show ?thesis
    using g snc_put_same [of c1 a] by (intro that [of a c1 c']) simp_all
qed

text \<open>
  Rewriting an unreferenced block and releasing it at once, with room in the cache: the new content is
  visible, but nobody references it any more.
\<close>

lemma snc_poke_unheld:
  assumes "snc_ready dev c (Suc n)" and "dev_ok dev lpa" and "lpa \<notin> snc_pinned c"
    and "snc_cur c + snc_miss c lpa \<le> snc_expect c"
  obtains a c1 where "sitNatCacheGet dev c lpa = Some (a, c1)" "snc_block c1 a = snc_view dev c lpa"
    "\<forall>b. \<exists>c'. sitNatCacheEntryHandleDestroy (snc_put_block c1 a b) (Some a) = Some (None, c') \<and>
       snc_inv c' \<and> snc_view dev c' = (snc_view dev c)(lpa := b) \<and>
       snc_ents c' lpa = Some a \<and> snc_refs c' a = 0 \<and> snc_block c' a = b"
proof -
  have r: "snc_inv c" "snc_clean dev c"
    using assms(1) by (auto simp: snc_ready_def)
  have zero: "snc_refs c b = 0" if "snc_ents c lpa = Some b" for b
    using that assms(3) by (auto simp: snc_pinned_def)
  then have nm: "\<forall>a. snc_ents c lpa = Some a \<longrightarrow> snc_refs c a \<noteq> -1"
    by auto
  obtain a c1 where g: "sitNatCacheGet dev c lpa = (sitNatCacheDoReplace c1 \<bind> (\<lambda>c2. Some (a, c2)))"
    and inv: "snc_inv c1" and e: "snc_ents c1 = (snc_ents c)(lpa \<mapsto> a)" and ex: "snc_expect c1 = snc_expect c"
    and cur: "snc_cur c1 = snc_cur c + snc_miss c lpa" and blk: "snc_block c1 a = snc_view dev c lpa"
    and oth: "\<forall>b. b \<noteq> a \<longrightarrow> snc_heap c1 b = snc_heap c b"
    and refs: "snc_refs c1 a = (case snc_ents c lpa of Some b \<Rightarrow> snc_refs c b + 1 | None \<Rightarrow> 1)"
    and nz: "snc_refs c1 a \<noteq> 0" and "gcm_free (snc_mgr c1) = remove1 lpa (gcm_free (snc_mgr c))"
    and "\<forall>b. snc_ents c lpa = Some b \<longrightarrow> a = b"
    by (rule snc_get_pinned [OF r(1) _ nm, of dev]) (use assms(2) in auto)
  have g1: "sitNatCacheGet dev c lpa = Some (a, c1)"
    using g snc_do_replace_cases(1) [OF inv] assms(4) cur ex by simp
  have r1: "snc_refs c1 a = 1"
    using refs zero by (auto split: option.splits)
  have view1: "snc_view dev c1 = snc_view dev c"
    using snc_get_ok [OF r _ nm] assms(2,4) g1 by auto
  have ea: "snc_ents c1 lpa = Some a"
    by (simp add: e)
  have "\<exists>c'. sitNatCacheEntryHandleDestroy (snc_put_block c1 a b) (Some a) = Some (None, c') \<and>
       snc_inv c' \<and> snc_view dev c' = (snc_view dev c)(lpa := b) \<and>
       snc_ents c' lpa = Some a \<and> snc_refs c' a = 0 \<and> snc_block c' a = b" for b
  proof -
    let ?c2 = "snc_put_block c1 a b"
    have rc: "rc_ok (snc_mgr c1) (snc_keys c1) (snc_refs c1) (snc_next c1)"
      and cc: "snc_cur c1 = card (dom (snc_ents c1))"
      using inv by (auto simp: snc_inv_def)
    have key: "snc_keys c1 a = lpa"
      using rc_okD(2) [OF rc ea] .
    note un = rc_ok_unpin [OF rc ea nz]
    let ?c3 = "?c2\<lparr>snc_heap := (snc_heap ?c2)(a := (snc_heap ?c2 a)\<lparr>sne_refCount := 0\<rparr>),
                  snc_mgr := genericCacheManagerUnpin (snc_mgr c1) lpa\<rparr>"
    have k3: "snc_keys ?c3 = snc_keys c1" and r3: "snc_refs ?c3 = (snc_refs c1)(a := 0)"
      and b3: "snc_block ?c3 = (snc_block c1)(a := b)" and e3: "snc_ents ?c3 = snc_ents c1"
      using un(2) by (auto simp: snc_block_def snc_put_block_def fun_eq_iff)
    have inv3: "snc_inv ?c3"
      unfolding snc_inv_def k3 r3 e3 using un(1) cc by simp
    have d: "sitNatCacheEntryHandleDestroy ?c2 (Some a) = Some (None, ?c3)"
      using r1 key snc_do_replace_cases(1) [OF inv3] assms(4) cur ex
      by (simp add: sitNatCacheEntryHandleDestroy_def sitNatCacheSubRefcount_def Let_def)
    have "snc_view dev ?c3 = (snc_view dev c1)(lpa := b)"
    proof (rule ext)
      fix x
      show "snc_view dev ?c3 x = ((snc_view dev c1)(lpa := b)) x"
        using ea sn.c_inj [OF inv ea, of x] e3 b3
        by (cases "x = lpa") (auto simp: snc_view_def split: option.splits)
    qed
    then show ?thesis
      using d inv3 view1 e3 ea fun_cong [OF r3, of a] fun_cong [OF b3, of a]
      by (intro exI [of _ ?c3]) simp
  qed
  then show ?thesis
    by (intro that [OF g1 blk]) blast
qed

text \<open>
  Changing a block through a handle: get, write, add a host version, destroy. The block stays
  referenced, so the change cannot be lost by an eviction; one unit of the budget is used.
\<close>

lemma snc_modify:
  assumes "snc_ready dev c (Suc n)" and "dev_ok dev lpa"
  obtains a c1 where "sitNatCacheGet dev c lpa = Some (a, c1)" "snc_block c1 a = snc_view dev c lpa"
    "\<forall>b. \<exists>c'. sitNatCacheEntryHandleDestroy
       (sitNatCacheEntryHandleAddHostVersion (snc_put_block c1 a b) (Some a)) (Some a) = Some (None, c') \<and>
       snc_ready dev c' n \<and> snc_view dev c' = (snc_view dev c)(lpa := b)"
proof -
  obtain a c1 where g: "sitNatCacheGet dev c lpa = Some (a, c1)" "snc_inv c1" "snc_clean dev c1"
    and e: "snc_ents c1 lpa = Some a" "snc_block c1 a = snc_view dev c lpa" "snc_view dev c1 = snc_view dev c"
    and pin: "snc_pinned c1 \<subseteq> insert lpa (snc_pinned c)" and ex: "snc_expect c1 = snc_expect c"
    and nz: "snc_refs c1 a \<noteq> 0" and un: "unat (snc_refs c1 a) + 2 * n + 1 < 4294967296"
    and rest: "\<forall>k b. snc_ents c1 k = Some b \<longrightarrow> b \<noteq> a \<longrightarrow> snc_ents c k = Some b \<and> snc_refs c1 b = snc_refs c b"
    and "snc_refs c1 a = 1 \<longrightarrow> snc_block c1 a = media dev (LPA_TO_LBA32 lpa) \<and> lpa \<notin> snc_pinned c"
    and "snc_refs c1 a \<noteq> 1 \<longrightarrow> snc_ents c lpa = Some a \<and> snc_refs c a = snc_refs c1 a - 1"
    by (rule snc_get_ready [OF assms])
  have fin: "finite (snc_pinned c)"
    using assms(1) snc_finite finite_subset [OF snc_pinned_dom] by (auto simp: snc_ready_def)
  have n1: "snc_refs c1 a \<noteq> -1"
    using un by auto
  then have n2: "snc_refs c1 a + 1 \<noteq> 0"
    by (simp add: eq_neg_iff_add_eq_0)
  have step: "\<exists>c'. sitNatCacheEntryHandleDestroy
       (sitNatCacheEntryHandleAddHostVersion (snc_put_block c1 a b) (Some a)) (Some a) = Some (None, c') \<and>
       snc_ready dev c' n \<and> snc_view dev c' = (snc_view dev c)(lpa := b)" for b
  proof -
    let ?c2 = "snc_put_block c1 a b"
    note p = snc_put_block_ok [OF g(2,3) e(1) nz, of b]
    let ?c3 = "sitNatCacheAddRefcount ?c2 a"
    have a3: "snc_inv ?c3" "snc_ents ?c3 = snc_ents c1"
      using snc_add_ref [OF p(1), of lpa a] e(1) n2 by simp_all
    have r3: "snc_refs ?c3 = (snc_refs c1)(a := snc_refs c1 a + 1)"
      by (auto simp: fun_eq_iff)
    have c3: "snc_clean dev ?c3"
      using g(3) a3(2) n2 by (auto simp: snc_clean_def)
    have v3: "snc_view dev ?c3 = (snc_view dev c)(lpa := b)"
      using snc_view_cong [of ?c3 ?c2 dev] a3(2) p(3) e(3) by simp
    obtain c' where s: "sitNatCacheSubRefcount ?c3 a = Some c'" "snc_inv c'" "snc_clean dev c'"
        "snc_view dev c' = snc_view dev ?c3" "snc_refs c' = (snc_refs ?c3)(a := snc_refs ?c3 a - 1)"
        "snc_expect c' = snc_expect ?c3" and sub: "snc_ents c' \<subseteq>\<^sub>m snc_ents ?c3"
      using snc_sub_ref [OF a3(1) _ _ c3, of lpa a] a3(2) e(1) n2 nz fun_cong [OF r3, of a] by force
    have r': "snc_refs c' = snc_refs c1"
      using s(5) r3 by (auto simp: fun_eq_iff)
    have in1: "snc_ents c1 k = Some d" if "snc_ents c' k = Some d" for k d
      using that sub a3(2) unfolding map_le_def by (metis domI)
    have "snc_pinned c' \<subseteq> insert lpa (snc_pinned c)"
      using in1 pin fun_cong [OF r'] by (fastforce simp: snc_pinned_def)
    then have "card (snc_pinned c') \<le> card (insert lpa (snc_pinned c))"
      using fin by (simp add: card_mono)
    then have "card (snc_pinned c') \<le> Suc (card (snc_pinned c))"
      using fin by (simp add: card_insert_if split: if_splits)
    moreover have "unat (snc_refs c' d) + 2 * n < 4294967296" if "snc_ents c' k = Some d" for k d
      using in1 [OF that] rest un assms(1) fun_cong [OF r', of d]
      by (cases "d = a") (fastforce simp: snc_ready_def)+
    ultimately have "snc_ready dev c' n"
      using assms(1) s(2,3,6) ex unfolding snc_ready_def by simp
    with s v3 show ?thesis
      by (simp add: sitNatCacheEntryHandleDestroy_def sitNatCacheEntryHandleAddHostVersion_def)
  qed
  show ?thesis
    by (rule that [OF g(1) e(2)]) (blast intro: step)
qed

text \<open>
  Claim C22. \<^verbatim>\<open>sitNatCacheGet\<close> does not return when the cache is over its expected size and every entry
  other than the one asked for is referenced: the replacement loop tests \<^verbatim>\<open>entry || curSize <= expectSize\<close>
  to leave, and neither can become true.
\<close>

theorem sitNatCacheGet_stuck:
  assumes "snc_inv c"
    and "snc_ents c lpa = None \<Longrightarrow> comm_submit_rw_request_common dev (LPA_TO_LBA32 lpa) = RC0"
    and "\<And>a. snc_ents c lpa = Some a \<Longrightarrow> snc_refs c a \<noteq> -1"
    and "snc_cur c + snc_miss c lpa > snc_expect c" and "remove1 lpa (gcm_free (snc_mgr c)) = []"
  shows "sitNatCacheGet dev c lpa = None"
proof -
  have h: "snc_ents c lpa = None \<longrightarrow> comm_submit_rw_request_common dev (LPA_TO_LBA32 lpa) = RC0"
    "\<forall>a. snc_ents c lpa = Some a \<longrightarrow> snc_refs c a \<noteq> -1"
    using assms(2,3) by blast+
  obtain a c1 where g: "sitNatCacheGet dev c lpa = (sitNatCacheDoReplace c1 \<bind> (\<lambda>c2. Some (a, c2)))"
    and "snc_inv c1" "snc_ents c1 = (snc_ents c)(lpa \<mapsto> a)" "snc_expect c1 = snc_expect c"
      "snc_cur c1 = snc_cur c + snc_miss c lpa" "snc_block c1 a = snc_view dev c lpa"
      "\<forall>b. b \<noteq> a \<longrightarrow> snc_heap c1 b = snc_heap c b"
      "snc_refs c1 a = (case snc_ents c lpa of Some b \<Rightarrow> snc_refs c b + 1 | None \<Rightarrow> 1)"
      "snc_refs c1 a \<noteq> 0" "gcm_free (snc_mgr c1) = remove1 lpa (gcm_free (snc_mgr c))"
      "\<forall>b. snc_ents c lpa = Some b \<longrightarrow> a = b"
    by (rule snc_get_pinned [OF assms(1) h])
  then have "sitNatCacheDoReplace c1 = None"
    using assms(4,5) by (intro snc_do_replace_cases(2)) simp_all
  with g show ?thesis by simp
qed

lemma sitNatCacheGet_stuck_witness:
  "sitNatCacheGet
      \<lparr>blockSize = 512, blockCount = 4096, diskStart = 0, metaJournalStartLpa = 1, metaJournalEndLpa = 2,
       metaJournalHeadLpa = 1, metaJournalTailLpa = 1, recoveredReclaim = [], media = \<lambda>_ _. 7, drv_rc = \<lambda>_. RC0\<rparr>
      (sitNatCacheInit 0) 5 = None"
  by (rule sitNatCacheGet_stuck [OF snc_init(1)])
    (simp_all add: comm_submit_rw_request_common_def LPA_TO_LBA32_def snc_init(2) sitNatCacheInit_def gcm_init)

end
