(* ===== verification/Fs_State.thy ===== *)
theory Fs_State
  imports Sit_Nat_Cache
begin

text \<open>
  The journal container of \<^verbatim>\<open>src/src/journal/journal_container.c\<close> (the journal entries of the running
  transaction) and the state that \<^verbatim>\<open>src/src/fs/fs_manager.c\<close> ties together in
  \<^verbatim>\<open>struct file_system_manager\<close>: the super block image, the SIT and NAT caches, the node block cache,
  the SRMAP helper, the device and the current journal. The C components reach each other through the
  manager's pointers; here they are fields of one record that every operation takes and returns. The
  super manager's own fields (the lists of uncommitted segments) are fields of it too.
\<close>

subsection \<open>Journal entries and the container\<close>

record SuperBlockJournalEntry =
  sbj_Off :: u32
  sbj_newVal :: u32

record NatJournalEntry =
  nj_nid :: u32
  nj_newValue :: RtfsNatEntry

record SitJournalEntry =
  sj_segID :: u32
  sj_newValue :: RtfsSitEntry

record JournalContainer =
  superBlockJournal :: "SuperBlockJournalEntry list"
  natJournal :: "NatJournalEntry list"
  sitJournal :: "SitJournalEntry list"
  txId :: u64

definition journalContainerInit :: JournalContainer where
  "journalContainerInit = \<lparr>superBlockJournal = [], natJournal = [], sitJournal = [], txId = 0\<rparr>"

definition journalContainerDestroy :: "JournalContainer \<Rightarrow> JournalContainer" where
  "journalContainerDestroy j = \<lparr>superBlockJournal = [], natJournal = [], sitJournal = [], txId = 0\<rparr>"

definition journalContainerAppendSuperBlockJournalEntry ::
  "JournalContainer \<Rightarrow> SuperBlockJournalEntry \<Rightarrow> JournalContainer" where
  "journalContainerAppendSuperBlockJournalEntry j e = j\<lparr>superBlockJournal := superBlockJournal j @ [e]\<rparr>"

definition journalContainerAppendNatJournalEntry ::
  "JournalContainer \<Rightarrow> NatJournalEntry \<Rightarrow> JournalContainer" where
  "journalContainerAppendNatJournalEntry j e = j\<lparr>natJournal := natJournal j @ [e]\<rparr>"

definition journalContainerAppendSitJournalEntry ::
  "JournalContainer \<Rightarrow> SitJournalEntry \<Rightarrow> JournalContainer" where
  "journalContainerAppendSitJournalEntry j e = j\<lparr>sitJournal := sitJournal j @ [e]\<rparr>"

definition journalContainerSetTxId :: "JournalContainer \<Rightarrow> u64 \<Rightarrow> JournalContainer" where
  "journalContainerSetTxId j i = j\<lparr>txId := i\<rparr>"

definition journalContainerIsEmpty :: "JournalContainer \<Rightarrow> bool" where
  "journalContainerIsEmpty j \<longleftrightarrow>
     length (superBlockJournal j) = 0 \<and> length (natJournal j) = 0 \<and> length (sitJournal j) = 0"

lemmas journal_append_defs = journalContainerAppendSuperBlockJournalEntry_def
  journalContainerAppendNatJournalEntry_def journalContainerAppendSitJournalEntry_def

text \<open>
  What a list of journal entries means: the table it leaves when its entries are applied in order.
\<close>

definition nat_apply :: "NatJournalEntry list \<Rightarrow> (u32 \<Rightarrow> RtfsNatEntry) \<Rightarrow> u32 \<Rightarrow> RtfsNatEntry" where
  "nat_apply js t = fold (\<lambda>j t. t(nj_nid j := nj_newValue j)) js t"

definition sit_apply :: "SitJournalEntry list \<Rightarrow> (u32 \<Rightarrow> RtfsSitEntry) \<Rightarrow> u32 \<Rightarrow> RtfsSitEntry" where
  "sit_apply js t = fold (\<lambda>j t. t(sj_segID j := sj_newValue j)) js t"

definition super_apply :: "SuperBlockJournalEntry list \<Rightarrow> block \<Rightarrow> block" where
  "super_apply js b = fold (\<lambda>j b. put32 b (unat (sbj_Off j)) (sbj_newVal j)) js b"

lemma apply_simps [simp]:
  "nat_apply [] t = t" "nat_apply (j # js) t = nat_apply js (t(nj_nid j := nj_newValue j))"
  "sit_apply [] t' = t'" "sit_apply (s # ss) t' = sit_apply ss (t'(sj_segID s := sj_newValue s))"
  "super_apply [] b = b" "super_apply (x # xs) b = super_apply xs (put32 b (unat (sbj_Off x)) (sbj_newVal x))"
  by (simp_all add: nat_apply_def sit_apply_def super_apply_def)

lemma apply_append:
  "nat_apply (js @ js') t = nat_apply js' (nat_apply js t)"
  "sit_apply (ss @ ss') t' = sit_apply ss' (sit_apply ss t')"
  "super_apply (xs @ xs') b = super_apply xs' (super_apply xs b)"
  by (simp_all add: nat_apply_def sit_apply_def super_apply_def)

subsection \<open>The file system manager's state\<close>

datatype NodeBlockCacheEntryState = NODE_BLOCK_CACHE_ENTRY_UPTODATE | NODE_BLOCK_CACHE_ENTRY_DIRTY
  | NODE_BLOCK_CACHE_ENTRY_DELETED

record NodeBlockCacheEntry =
  nbe_nid :: u32
  nbe_parentNid :: u32
  nbe_lpa :: u32
  nbe_cowNewLpa :: u32
  nbe_hasPendingCowRelocation :: bool
  nbe_refCount :: u32
  nbe_state :: NodeBlockCacheEntryState
  nbe_node :: block

text \<open>
  The dirty list holds entry addresses in list order; \<open>nbc_dirtyPos\<close> is the hash set of the entries
  that have a list node recorded.
\<close>

record NodeBlockCache =
  nbc_mgr :: "nat GenericCacheManager"
  nbc_heap :: "nat \<Rightarrow> NodeBlockCacheEntry"
  nbc_next :: nat
  nbc_expect :: nat
  nbc_cur :: nat
  nbc_dirtyList :: "nat list"
  nbc_dirtyPos :: "nat set"

record SrmapUtils =
  srmapCache :: "u32 \<Rightarrow> block option"
  dirtyBlks :: "u32 set"
  srmapStartLpa :: u32

record file_system_manager =
  super_blk_mem :: block
  sit_cache :: SitNatCache
  nat_cache :: SitNatCache
  node_cache :: NodeBlockCache
  srmap_utils :: SrmapUtils
  fs_dev :: comm_dev
  cur_journal :: JournalContainer
  uncommit_node_segs :: "u32 list"
  uncommit_data_segs :: "u32 list"

abbreviation sb32 :: "file_system_manager \<Rightarrow> nat \<Rightarrow> u32" where
  "sb32 fs off \<equiv> get32 (super_blk_mem fs) off"

subsection \<open>A small file system\<close>

text \<open>
  A freshly mounted state used to show that the hypotheses of the theorems can hold: a zeroed medium
  of 2048 file system blocks, SIT at block 10, NAT at block 20, segment 0 at block 100.
\<close>

definition demo_dev :: comm_dev where
  "demo_dev = \<lparr>blockSize = 512, blockCount = 16384, diskStart = 0, metaJournalStartLpa = 40,
     metaJournalEndLpa = 60, metaJournalHeadLpa = 40, metaJournalTailLpa = 40, recoveredReclaim = [],
     media = \<lambda>_. zero_block, drv_rc = \<lambda>_. RC0\<rparr>"

definition demo_super :: block where
  "demo_super = put32 (put32 (put32 (put32 (put32 (put32 (put32 (put32 zero_block
     SB_nat_blkaddr 20) SB_segment_count_nat 1) SB_sit_blkaddr 10) SB_segment_count_sit 1)
     SB_segment0_blkaddr 100) SB_free_segment_count 5) SB_first_free_segment_id 7) SB_next_free_nid 9"

definition demo_fs :: file_system_manager where
  "demo_fs = \<lparr>super_blk_mem = demo_super, sit_cache = sitNatCacheInit 100, nat_cache = sitNatCacheInit 100,
     node_cache = \<lparr>nbc_mgr = genericCacheManagerInit,
       nbc_heap = \<lambda>_. \<lparr>nbe_nid = 0, nbe_parentNid = 0, nbe_lpa = 0, nbe_cowNewLpa = 0,
         nbe_hasPendingCowRelocation = False, nbe_refCount = 0, nbe_state = NODE_BLOCK_CACHE_ENTRY_UPTODATE,
         nbe_node = zero_block\<rparr>,
       nbc_next = 0, nbc_expect = 100, nbc_cur = 0, nbc_dirtyList = [], nbc_dirtyPos = {}\<rparr>,
     srmap_utils = \<lparr>srmapCache = Map.empty, dirtyBlks = {}, srmapStartLpa = 30\<rparr>, fs_dev = demo_dev,
     cur_journal = journalContainerInit, uncommit_node_segs = [], uncommit_data_segs = []\<rparr>"

lemma demo_sb:
  "sb32 demo_fs SB_nat_blkaddr = 20" "sb32 demo_fs SB_segment_count_nat = 1" "sb32 demo_fs SB_sit_blkaddr = 10"
  "sb32 demo_fs SB_segment_count_sit = 1" "sb32 demo_fs SB_segment0_blkaddr = 100"
  "sb32 demo_fs SB_free_segment_count = 5" "sb32 demo_fs SB_first_free_segment_id = 7"
  "sb32 demo_fs SB_next_free_nid = 9"
  by (simp_all add: demo_fs_def demo_super_def c32.get_put_other)

lemma demo_fields [simp]:
  "sit_cache demo_fs = sitNatCacheInit 100" "nat_cache demo_fs = sitNatCacheInit 100"
  "fs_dev demo_fs = demo_dev" "cur_journal demo_fs = journalContainerInit"
  by (simp_all add: demo_fs_def)

lemma demo_dev_ok: "lpa < 2048 \<Longrightarrow> dev_ok demo_dev lpa"
proof -
  assume "lpa < 2048"
  then have u: "unat lpa < 2048"
    by (simp add: word_less_nat_alt)
  then have "unat (lpa * 8) = unat lpa * 8"
    by (simp add: unat_mult_lem [THEN iffD1])
  then have "unat (LPA_TO_LBA32 lpa) = unat lpa * 8"
    by (simp add: LPA_TO_LBA32_def)
  with u have "LPA_TO_LBA32 lpa < 16384 - 7" "unat (LPA_TO_LBA32 lpa) < 16384 - 7"
    by (simp_all add: word_less_nat_alt)
  then show "dev_ok demo_dev lpa"
    by (simp add: comm_submit_rw_request_common_def demo_dev_def Let_def word_less_nat_alt word_le_nat_alt
        unat_word_ariths)
qed

lemma demo_ready: "n \<le> 100 \<Longrightarrow> snc_ready demo_dev (sitNatCacheInit 100) n"
  by (rule snc_ready_init) simp_all

end
