(* ===== verification/Journal_Format.thy ===== *)
theory Journal_Format
  imports Fs_State
begin

text \<open>
  The on-disk form of the journal, \<^verbatim>\<open>src/src/journal/journal_type.h\<close>: a block is a sequence of records, each a
  4-byte header (\<^verbatim>\<open>len\<close>, \<^verbatim>\<open>type\<close>, \<^verbatim>\<open>rsv\<close>) followed by an array of entries of one type; a NOP record fills
  the rest of a block, an END record ends a transaction. \<open>jseg b o o' its\<close> says that the bytes of \<open>b\<close>
  from \<open>o\<close> up to \<open>o'\<close> are exactly the records \<open>its\<close>; it is the meeting point of the writer and of the
  recovery.
\<close>

subsection \<open>Headers and entries\<close>

abbreviation (input) JOURNAL_TYPE_NATS :: u8 where "JOURNAL_TYPE_NATS \<equiv> 0"
abbreviation (input) JOURNAL_TYPE_SITS :: u8 where "JOURNAL_TYPE_SITS \<equiv> 1"
abbreviation (input) JOURNAL_TYPE_SUPER_BLOCK :: u8 where "JOURNAL_TYPE_SUPER_BLOCK \<equiv> 2"
abbreviation (input) JOURNAL_TYPE_NOP :: u8 where "JOURNAL_TYPE_NOP \<equiv> 0x7e"
abbreviation (input) JOURNAL_TYPE_END :: u8 where "JOURNAL_TYPE_END \<equiv> 0x7f"

record MetaJournalEntry =
  mj_len :: u16
  mj_type :: u8
  mj_rsv :: u8

definition getHeader :: "block \<Rightarrow> nat \<Rightarrow> MetaJournalEntry" where
  "getHeader b off = \<lparr>mj_len = get16 b off, mj_type = b (off + 2), mj_rsv = b (off + 3)\<rparr>"

definition putHeader :: "block \<Rightarrow> nat \<Rightarrow> MetaJournalEntry \<Rightarrow> block" where
  "putHeader b off h = (put16 b off (mj_len h))(off + 2 := mj_type h, off + 3 := mj_rsv h)"

definition getSuperJ :: "block \<Rightarrow> nat \<Rightarrow> SuperBlockJournalEntry" where
  "getSuperJ b off = \<lparr>sbj_Off = get32 b off, sbj_newVal = get32 b (off + 4)\<rparr>"

definition putSuperJ :: "block \<Rightarrow> nat \<Rightarrow> SuperBlockJournalEntry \<Rightarrow> block" where
  "putSuperJ b off e = put32 (put32 b off (sbj_Off e)) (off + 4) (sbj_newVal e)"

definition getNatJ :: "block \<Rightarrow> nat \<Rightarrow> NatJournalEntry" where
  "getNatJ b off = \<lparr>nj_nid = get32 b off, nj_newValue = getNatEntry b (off + 4)\<rparr>"

definition putNatJ :: "block \<Rightarrow> nat \<Rightarrow> NatJournalEntry \<Rightarrow> block" where
  "putNatJ b off e = putNatEntry (put32 b off (nj_nid e)) (off + 4) (nj_newValue e)"

definition getSitJ :: "block \<Rightarrow> nat \<Rightarrow> SitJournalEntry" where
  "getSitJ b off = \<lparr>sj_segID = get32 b off, sj_newValue = getSitEntry b (off + 4)\<rparr>"

definition putSitJ :: "block \<Rightarrow> nat \<Rightarrow> SitJournalEntry \<Rightarrow> block" where
  "putSitJ b off e = putSitEntry (put32 b off (sj_segID e)) (off + 4) (sj_newValue e)"

definition sitj_ok :: "SitJournalEntry \<Rightarrow> bool" where
  "sitj_ok e = sit_ok (sj_newValue e)"

lemma get32_local: "(\<And>i. off \<le> i \<Longrightarrow> i < off + 4 \<Longrightarrow> b i = b' i) \<Longrightarrow> get32 b off = get32 b' off"
  by (rule c32.cget_local)

interpretation chdr: byte_codec 4 getHeader putHeader "\<lambda>_. True"
proof unfold_locales
  show "getHeader (putHeader b off v) off = v" for b off v
  proof -
    have "get16 (putHeader b off v) off = get16 (put16 b off (mj_len v)) off"
      by (rule c16.cget_local) (auto simp: putHeader_def)
    then show ?thesis by (simp add: getHeader_def putHeader_def)
  qed
  show "putHeader b off v i = b i" if "i < off \<or> off + 4 \<le> i" for b off v i
    using that by (auto simp: putHeader_def c16.cput_frame)
  show "getHeader b off = getHeader b' off" if "\<And>i. off \<le> i \<Longrightarrow> i < off + 4 \<Longrightarrow> b i = b' i" for b b' off
    using that c16.cget_local [of off b b'] by (simp add: getHeader_def)
qed simp_all

interpretation csj: byte_codec 8 getSuperJ putSuperJ "\<lambda>_. True"
proof unfold_locales
  show "getSuperJ b off = getSuperJ b' off" if "\<And>i. off \<le> i \<Longrightarrow> i < off + 8 \<Longrightarrow> b i = b' i" for b b' off
    using that get32_local [of off b b'] get32_local [of "off + 4" b b'] by (simp add: getSuperJ_def)
qed (auto simp: getSuperJ_def putSuperJ_def put32_frame byte_simps)

interpretation cnj: byte_codec 12 getNatJ putNatJ "\<lambda>_. True"
proof unfold_locales
  show "getNatJ (putNatJ b off v) off = v" for b off v
  proof -
    have "get32 (putNatJ b off v) off = get32 (put32 b off (nj_nid v)) off"
      by (rule c32.cget_local) (simp add: putNatJ_def cnat.cput_frame)
    then show ?thesis by (simp add: getNatJ_def) (simp add: putNatJ_def cnat.cget_cput)
  qed
  show "putNatJ b off v i = b i" if "i < off \<or> off + 12 \<le> i" for b off v i
    using that by (auto simp: putNatJ_def cnat.cput_frame put32_frame)
  show "getNatJ b off = getNatJ b' off" if "\<And>i. off \<le> i \<Longrightarrow> i < off + 12 \<Longrightarrow> b i = b' i" for b b' off
    using that get32_local [of off b b'] cnat.cget_local [of "off + 4" b b'] by (simp add: getNatJ_def)
qed simp_all

interpretation ctj: byte_codec 72 getSitJ putSitJ sitj_ok
proof unfold_locales
  show "getSitJ (putSitJ b off v) off = v" if "sitj_ok v" for b off v
  proof -
    have "get32 (putSitJ b off v) off = get32 (put32 b off (sj_segID v)) off"
      by (rule c32.cget_local) (simp add: putSitJ_def csit.cput_frame)
    then show ?thesis
      using that by (simp add: getSitJ_def) (simp add: putSitJ_def csit.cget_cput sitj_ok_def)
  qed
  show "sitj_ok (getSitJ b off)" for b off
    by (simp add: sitj_ok_def getSitJ_def csit.cok_cget)
  show "putSitJ b off v i = b i" if "i < off \<or> off + 72 \<le> i" for b off v i
    using that by (auto simp: putSitJ_def csit.cput_frame put32_frame)
  show "getSitJ b off = getSitJ b' off" if "\<And>i. off \<le> i \<Longrightarrow> i < off + 72 \<Longrightarrow> b i = b' i" for b b' off
    using that get32_local [of off b b'] csit.cget_local [of "off + 4" b b'] by (simp add: getSitJ_def)
qed simp_all

subsection \<open>Records of a block\<close>

datatype jitem = JSuper "SuperBlockJournalEntry list" | JNat "NatJournalEntry list" | JSit "SitJournalEntry list"

definition record_at :: "block \<Rightarrow> nat \<Rightarrow> u8 \<Rightarrow> nat \<Rightarrow> bool" where
  "record_at b off ty len \<longleftrightarrow> mj_len (getHeader b off) = of_nat len \<and> mj_type (getHeader b off) = ty \<and>
     4 \<le> len \<and> off + len \<le> 4096"

fun item_at :: "block \<Rightarrow> nat \<Rightarrow> jitem \<Rightarrow> nat \<Rightarrow> bool" where
  "item_at b off (JSuper es) len \<longleftrightarrow> record_at b off JOURNAL_TYPE_SUPER_BLOCK len \<and> len = 4 + 8 * length es \<and>
     get_list getSuperJ 8 b (off + 4) (length es) = es"
| "item_at b off (JNat es) len \<longleftrightarrow> record_at b off JOURNAL_TYPE_NATS len \<and> len = 4 + 12 * length es \<and>
     get_list getNatJ 12 b (off + 4) (length es) = es"
| "item_at b off (JSit es) len \<longleftrightarrow> record_at b off JOURNAL_TYPE_SITS len \<and> len = 4 + 72 * length es \<and>
     get_list getSitJ 72 b (off + 4) (length es) = es"

inductive jseg :: "block \<Rightarrow> nat \<Rightarrow> nat \<Rightarrow> jitem list \<Rightarrow> bool" where
  jseg_nil: "jseg b off off []"
| jseg_cons: "item_at b off it len \<Longrightarrow> jseg b (off + len) off' its \<Longrightarrow> jseg b off off' (it # its)"

inductive_cases jseg_nilE: "jseg b off off' []"
inductive_cases jseg_consE: "jseg b off off' (it # its)"

lemma record_at_local:
  assumes "record_at b off ty len" and "\<And>i. off \<le> i \<Longrightarrow> i < off + len \<Longrightarrow> b i = b' i"
  shows "record_at b' off ty len"
proof -
  have "getHeader b off = getHeader b' off"
    by (rule chdr.cget_local) (use assms in \<open>auto simp: record_at_def\<close>)
  with assms(1) show ?thesis by (simp add: record_at_def)
qed

lemma item_at_local:
  assumes "item_at b off it len" and "\<And>i. off \<le> i \<Longrightarrow> i < off + len \<Longrightarrow> b i = b' i"
  shows "item_at b' off it len"
proof (cases it)
  case (JSuper es)
  then have r: "record_at b off JOURNAL_TYPE_SUPER_BLOCK len" "len = 4 + 8 * length es"
    "get_list getSuperJ 8 b (off + 4) (length es) = es"
    using assms(1) by auto
  have "get_list getSuperJ 8 b (off + 4) (length es) = get_list getSuperJ 8 b' (off + 4) (length es)"
    by (rule csj.get_list_local) (use assms(2) r(2) in auto)
  with JSuper r record_at_local [OF r(1) assms(2)] show ?thesis by simp
next
  case (JNat es)
  then have r: "record_at b off JOURNAL_TYPE_NATS len" "len = 4 + 12 * length es"
    "get_list getNatJ 12 b (off + 4) (length es) = es"
    using assms(1) by auto
  have "get_list getNatJ 12 b (off + 4) (length es) = get_list getNatJ 12 b' (off + 4) (length es)"
    by (rule cnj.get_list_local) (use assms(2) r(2) in auto)
  with JNat r record_at_local [OF r(1) assms(2)] show ?thesis by simp
next
  case (JSit es)
  then have r: "record_at b off JOURNAL_TYPE_SITS len" "len = 4 + 72 * length es"
    "get_list getSitJ 72 b (off + 4) (length es) = es"
    using assms(1) by auto
  have "get_list getSitJ 72 b (off + 4) (length es) = get_list getSitJ 72 b' (off + 4) (length es)"
    by (rule ctj.get_list_local) (use assms(2) r(2) in auto)
  with JSit r record_at_local [OF r(1) assms(2)] show ?thesis by simp
qed

lemma item_at_len: "item_at b off it len \<Longrightarrow> 4 \<le> len \<and> off + len \<le> 4096"
  by (cases it) (auto simp: record_at_def)

lemma jseg_le: "jseg b off off' its \<Longrightarrow> off \<le> off'"
  by (induction rule: jseg.induct) auto

lemma jseg_local:
  "jseg b off off' its \<Longrightarrow> (\<And>i. off \<le> i \<Longrightarrow> i < off' \<Longrightarrow> b i = b' i) \<Longrightarrow> jseg b' off off' its"
proof (induction rule: jseg.induct)
  case (jseg_cons b off it len off' its)
  have le: "off + len \<le> off'"
    using jseg_cons.hyps(2) by (rule jseg_le)
  have "item_at b' off it len"
    using jseg_cons.hyps(1) by (rule item_at_local) (use jseg_cons.prems le in auto)
  moreover have "jseg b' (off + len) off' its"
    by (rule jseg_cons.IH) (use jseg_cons.prems in auto)
  ultimately show ?case by (rule jseg.jseg_cons)
qed (rule jseg.jseg_nil)

lemma jseg_append: "jseg b off off' xs \<Longrightarrow> jseg b off' off'' ys \<Longrightarrow> jseg b off off'' (xs @ ys)"
  by (induction rule: jseg.induct) (auto intro: jseg.jseg_cons)

lemma jseg_snoc: "jseg b off off' xs \<Longrightarrow> item_at b off' it len \<Longrightarrow> jseg b off (off' + len) (xs @ [it])"
  by (rule jseg_append) (auto intro: jseg.intros)

text \<open>The entries of a list of records, in order.\<close>

definition supers_of :: "jitem list \<Rightarrow> SuperBlockJournalEntry list" where
  "supers_of its = concat (map (\<lambda>it. case it of JSuper es \<Rightarrow> es | _ \<Rightarrow> []) its)"

definition nats_of :: "jitem list \<Rightarrow> NatJournalEntry list" where
  "nats_of its = concat (map (\<lambda>it. case it of JNat es \<Rightarrow> es | _ \<Rightarrow> []) its)"

definition sits_of :: "jitem list \<Rightarrow> SitJournalEntry list" where
  "sits_of its = concat (map (\<lambda>it. case it of JSit es \<Rightarrow> es | _ \<Rightarrow> []) its)"

lemma entries_of_simps [simp]:
  "supers_of [] = []" "nats_of [] = []" "sits_of [] = []"
  "supers_of (xs @ ys) = supers_of xs @ supers_of ys" "nats_of (xs @ ys) = nats_of xs @ nats_of ys"
  "sits_of (xs @ ys) = sits_of xs @ sits_of ys"
  "supers_of (JSuper a # xs) = a @ supers_of xs" "supers_of (JNat b # xs) = supers_of xs" "supers_of (JSit c # xs) = supers_of xs"
  "nats_of (JSuper a # xs) = nats_of xs" "nats_of (JNat b # xs) = b @ nats_of xs" "nats_of (JSit c # xs) = nats_of xs"
  "sits_of (JSuper a # xs) = sits_of xs" "sits_of (JNat b # xs) = sits_of xs" "sits_of (JSit c # xs) = c @ sits_of xs"
  by (simp_all add: supers_of_def nats_of_def sits_of_def)

subsection \<open>The contract of a journal entry type\<close>

text \<open>A record: the header, then the entries.\<close>

definition put_record :: "(block \<Rightarrow> nat \<Rightarrow> 'a \<Rightarrow> block) \<Rightarrow> nat \<Rightarrow> u8 \<Rightarrow> block \<Rightarrow> nat \<Rightarrow> 'a list \<Rightarrow> block" where
  "put_record put sz ty b off es = put_list put sz
     (putHeader b off \<lparr>mj_len = of_nat (4 + length es * sz), mj_type = ty, mj_rsv = 0\<rparr>) (off + 4) es"

text \<open>
  What the writer needs of an entry type: a byte codec, its record type, and that a record of it fits
  into an empty block together with a NOP header.
\<close>

locale journal_codec = byte_codec csize cget cput cok
  for csize :: nat and cget :: "block \<Rightarrow> nat \<Rightarrow> 'a" and cput :: "block \<Rightarrow> nat \<Rightarrow> 'a \<Rightarrow> block" and cok :: "'a \<Rightarrow> bool" +
  fixes jtype :: u8
    and jitem_of :: "'a list \<Rightarrow> jitem"
  assumes csize_small: "csize \<le> 4088"
    and item_at_iff: "item_at b off (jitem_of es) len \<longleftrightarrow> record_at b off jtype len \<and>
      len = 4 + csize * length es \<and> get_list cget csize b (off + 4) (length es) = es"
begin

lemma put_record_frame:
  "i < off \<or> off + (4 + csize * length es) \<le> i \<Longrightarrow> put_record cput csize jtype b off es i = b i"
  unfolding put_record_def by (subst put_list_frame) (auto simp: chdr.cput_frame)

lemma put_record_item:
  assumes "list_all cok es" and "off + (4 + csize * length es) \<le> 4096"
  shows "item_at (put_record cput csize jtype b off es) off (jitem_of es) (4 + csize * length es)"
proof -
  let ?h = "\<lparr>mj_len = of_nat (4 + length es * csize), mj_type = jtype, mj_rsv = 0\<rparr>"
  have "getHeader (put_record cput csize jtype b off es) off = getHeader (putHeader b off ?h) off"
    by (rule chdr.cget_local) (simp add: put_record_def put_list_frame)
  then have "getHeader (put_record cput csize jtype b off es) off = ?h"
    by (simp add: chdr.cget_cput)
  moreover have "get_list cget csize (put_record cput csize jtype b off es) (off + 4) (length es) = es"
    unfolding put_record_def by (rule get_list_put_list [OF assms(1)])
  ultimately show ?thesis
    using assms(2) by (simp add: item_at_iff record_at_def mult.commute)
qed

end

interpretation jsuper: journal_codec 8 getSuperJ putSuperJ "\<lambda>_. True" JOURNAL_TYPE_SUPER_BLOCK JSuper
  by unfold_locales simp_all

interpretation jnat: journal_codec 12 getNatJ putNatJ "\<lambda>_. True" JOURNAL_TYPE_NATS JNat
  by unfold_locales simp_all

interpretation jsit: journal_codec 72 getSitJ putSitJ sitj_ok JOURNAL_TYPE_SITS JSit
  by unfold_locales simp_all

end
