(* ===== verification/Kbtree.thy ===== *)
theory Kbtree
  imports Rtfs_Prelude "HOL-Library.Multiset"
begin

text \<open>
  The B-tree of \<^verbatim>\<open>src/third_party/klib/kbtree.h\<close> as the journal writer uses it: \<^verbatim>\<open>kb_put\<close> and the in-order
  iterator, for the keys (id, index) of its two deduplication maps, compared by id. \<open>t\<close> is the minimal
  degree that \<^verbatim>\<open>kb_init\<close> computes from \<^verbatim>\<open>KB_DEFAULT_SIZE\<close> (10 with 8-byte pointers, 21 with 4-byte pointers); a
  node has room for \<open>2 * t - 1\<close> keys. The main facts: an insertion never overflows a node, and it adds its
  key to the stored multiset whether or not an equal key is there.
\<close>

type_synonym kbkey = "u32 \<times> nat"

datatype kbnode = KLeaf "kbkey list" | KNode "kbkey list" "kbnode list"

fun kb_keys :: "kbnode \<Rightarrow> kbkey list" where
  "kb_keys (KLeaf ks) = ks"
| "kb_keys (KNode ks cs) = ks"

text \<open>The binary search of \<^verbatim>\<open>__kb_getp_aux\<close>; \<open>kb_slot\<close> is its result plus one, as both callers use it.\<close>

function kb_lower :: "kbkey list \<Rightarrow> kbkey \<Rightarrow> nat \<Rightarrow> nat \<Rightarrow> nat" where
  "kb_lower ks k bg en =
     (if bg < en
      then let mid = (bg + en) div 2 in
        if fst (ks ! mid) < fst k then kb_lower ks k (mid + 1) en else kb_lower ks k bg mid
      else bg)"
  by pat_completeness auto
termination
  by (relation "measure (\<lambda>(_, _, b, e). e - b)") auto

declare kb_lower.simps [simp del]

definition kb_slot :: "kbkey list \<Rightarrow> kbkey \<Rightarrow> nat" where
  "kb_slot ks k = (if length ks = 0 then 0
     else let bg = kb_lower ks k 0 (length ks) in
       if bg = length ks then length ks
       else if fst k < fst (ks ! bg) then bg else bg + 1)"

text \<open>A full node becomes two nodes of \<open>t - 1\<close> keys and the key between them.\<close>

fun kb_split :: "nat \<Rightarrow> kbnode \<Rightarrow> kbnode \<times> kbkey \<times> kbnode" where
  "kb_split t (KLeaf ks) = (KLeaf (take (t - 1) ks), ks ! (t - 1), KLeaf (take (t - 1) (drop t ks)))"
| "kb_split t (KNode ks cs) = (KNode (take (t - 1) ks) (take t cs), ks ! (t - 1),
     KNode (take (t - 1) (drop t ks)) (take t (drop t cs)))"

fun kb_height :: "kbnode \<Rightarrow> nat" where
  "kb_height (KLeaf ks) = 0"
| "kb_height (KNode ks cs) = Suc (Max (insert 0 (kb_height ` set cs)))"

lemma kb_height_child: "c \<in> set cs \<Longrightarrow> kb_height c < kb_height (KNode ks cs)"
  by (simp add: le_imp_less_Suc)

lemma kb_height_sub: "set cs' \<subseteq> set cs \<Longrightarrow> kb_height (KNode ks' cs') \<le> kb_height (KNode ks cs)"
  by (auto intro!: Max_mono)

lemma kb_split_height:
  "kb_height (fst (kb_split t y)) \<le> kb_height y" "kb_height (snd (snd (kb_split t y))) \<le> kb_height y"
proof -
  have "kb_height (KNode ks' (take t cs)) \<le> kb_height (KNode ks cs)"
    "kb_height (KNode ks' (take t (drop t cs))) \<le> kb_height (KNode ks cs)" for ks' ks cs
    by (rule kb_height_sub; auto dest: in_set_takeD in_set_dropD)+
  then show "kb_height (fst (kb_split t y)) \<le> kb_height y" "kb_height (snd (snd (kb_split t y))) \<le> kb_height y"
    by (cases y; simp del: kb_height.simps; simp)+
qed

function kb_putp_aux :: "nat \<Rightarrow> kbnode \<Rightarrow> kbkey \<Rightarrow> kbnode" where
  "kb_putp_aux t (KLeaf ks) k = (let i = kb_slot ks k in KLeaf (take i ks @ k # drop i ks))"
| "kb_putp_aux t (KNode ks cs) k = (let i = kb_slot ks k in
     if i \<ge> length cs then KNode ks cs
     else if length (kb_keys (cs ! i)) = 2 * t - 1 then
       (let y = fst (kb_split t (cs ! i)); m = fst (snd (kb_split t (cs ! i)));
            z = snd (snd (kb_split t (cs ! i)));
            ks' = take i ks @ m # drop i ks in
        if fst m < fst k then KNode ks' (take i cs @ y # kb_putp_aux t z k # drop (i + 1) cs)
        else KNode ks' (take i cs @ kb_putp_aux t y k # z # drop (i + 1) cs))
     else KNode ks (take i cs @ kb_putp_aux t (cs ! i) k # drop (i + 1) cs))"
  by pat_completeness auto
termination
proof (relation "measure (\<lambda>(_, x, _). kb_height x)")
  fix t :: nat and ks k and cs :: "kbnode list" and i
  assume "\<not> length cs \<le> (i :: nat)"
  then have c: "kb_height (cs ! i) < kb_height (KNode ks cs)"
    by (intro kb_height_child) simp
  then show "((t, cs ! i, k), t, KNode ks cs, k) \<in> measure (\<lambda>(_, x, _). kb_height x)"
    by simp
  show "((t, y, k), t, KNode ks cs, k) \<in> measure (\<lambda>(_, x, _). kb_height x)" if "y = fst (kb_split t (cs ! i))" for y
    using le_less_trans [OF kb_split_height(1) c] that by simp
  show "((t, y, k), t, KNode ks cs, k) \<in> measure (\<lambda>(_, x, _). kb_height x)" if "y = snd (snd (kb_split t (cs ! i)))" for y
    using le_less_trans [OF kb_split_height(2) c] that by simp
qed simp

definition kb_put :: "nat \<Rightarrow> kbnode \<Rightarrow> kbkey \<Rightarrow> kbnode" where
  "kb_put t r k =
     (if length (kb_keys r) = 2 * t - 1
      then let s = kb_split t r in kb_putp_aux t (KNode [fst (snd s)] [fst s, snd (snd s)]) k
      else kb_putp_aux t r k)"

definition kb_init :: kbnode where
  "kb_init = KLeaf []"

text \<open>The order in which \<^verbatim>\<open>kb_itr_first\<close> and \<^verbatim>\<open>kb_itr_next\<close> deliver the keys.\<close>

fun kb_weave :: "'a list list \<Rightarrow> 'a list \<Rightarrow> 'a list" where
  "kb_weave [] ks = ks"
| "kb_weave (c # cs) [] = c @ kb_weave cs []"
| "kb_weave (c # cs) (k # ks) = c @ k # kb_weave cs ks"

fun kb_inorder :: "kbnode \<Rightarrow> kbkey list" where
  "kb_inorder (KLeaf ks) = ks"
| "kb_inorder (KNode ks cs) = kb_weave (map kb_inorder cs) ks"

subsection \<open>Insertion\<close>

text \<open>The shape: one more child than keys, and no node over its capacity.\<close>

fun kb_wf :: "nat \<Rightarrow> kbnode \<Rightarrow> bool" where
  "kb_wf t (KLeaf ks) \<longleftrightarrow> length ks \<le> 2 * t - 1"
| "kb_wf t (KNode ks cs) \<longleftrightarrow> length ks \<le> 2 * t - 1 \<and> length cs = Suc (length ks) \<and> (\<forall>c \<in> set cs. kb_wf t c)"

lemma kb_lower_le: "b \<le> e \<Longrightarrow> kb_lower ks k b e \<le> e"
proof (induction ks k b e rule: kb_lower.induct)
  case (1 ks k b e)
  show ?case
  proof (cases "b < e")
    case True
    have "(b + e) div 2 + 1 \<le> e" "b \<le> (b + e) div 2" "(b + e) div 2 \<le> e"
      using True by auto
    then show ?thesis
      using 1 True by (subst kb_lower.simps) (auto simp: Let_def intro: order_trans)
  next
    case False
    then show ?thesis using 1 by (subst kb_lower.simps) simp
  qed
qed

lemma kb_slot_le: "kb_slot ks k \<le> length ks"
  using kb_lower_le [of 0 "length ks" ks k] by (auto simp: kb_slot_def Let_def)

lemma mset_weave: "mset (kb_weave cs ks) = mset ks + sum_list (map mset cs)"
  by (induction cs ks rule: kb_weave.induct) auto

lemma mset_inorder: "mset (kb_inorder (KNode ks cs)) = mset ks + sum_list (map (mset \<circ> kb_inorder) cs)"
  by (simp add: mset_weave)

lemma mset_take_drop: "mset (take n xs) + mset (drop n xs) = mset xs"
  by (metis append_take_drop_id mset_append)

lemma sum_list_nth_split:
  fixes f :: "'a \<Rightarrow> 'b multiset"
  assumes "i < length cs"
  shows "sum_list (map f cs) = sum_list (map f (take i cs)) + f (cs ! i) + sum_list (map f (drop (i + 1) cs))"
  by (subst id_take_nth_drop [OF assms]) (simp add: add.assoc)

lemma mset_mid: "length ks = 2 * t - 1 \<Longrightarrow> 0 < t \<Longrightarrow>
    mset ks = mset (take (t - 1) ks) + {#ks ! (t - 1)#} + mset (take (t - 1) (drop t ks))"
  by (subst id_take_nth_drop [of "t - 1" ks]) auto

lemma kb_split_mset:
  assumes "kb_wf t y" and "length (kb_keys y) = 2 * t - 1" and "0 < t" and "kb_split t y = (a, m, b)"
  shows "mset (kb_inorder y) = mset (kb_inorder a) + {#m#} + mset (kb_inorder b)"
proof (cases y)
  case (KLeaf ks)
  then show ?thesis using assms mset_mid [of ks t] by auto
next
  case (KNode ks cs)
  have "length cs = 2 * t"
    using assms KNode by auto
  then have "sum_list (map (mset \<circ> kb_inorder) cs) = sum_list (map (mset \<circ> kb_inorder) (take t cs)) +
      sum_list (map (mset \<circ> kb_inorder) (take t (drop t cs)))"
    by (subst append_take_drop_id [of t cs, symmetric], subst map_append, subst sum_list_append) simp
  with KNode assms mset_mid [of ks t] show ?thesis
    by (auto simp: mset_weave)
qed

lemma kb_split_wf:
  assumes "kb_wf t y" and "length (kb_keys y) = 2 * t - 1" and "2 \<le> t" and "kb_split t y = (a, m, b)"
  shows "kb_wf t a \<and> kb_wf t b \<and> length (kb_keys a) < 2 * t - 1 \<and> length (kb_keys b) < 2 * t - 1"
proof (cases y)
  case (KLeaf ks)
  then show ?thesis using assms by auto
next
  case (KNode ks cs)
  have l: "length cs = 2 * t" "length ks = 2 * t - 1" and c: "\<forall>c \<in> set cs. kb_wf t c"
    using assms KNode by auto
  have ab: "a = KNode (take (t - 1) ks) (take t cs)" "b = KNode (take (t - 1) (drop t ks)) (take t (drop t cs))"
    using assms(4) KNode by auto
  have "\<forall>c \<in> set (take t cs). kb_wf t c" "\<forall>c \<in> set (take t (drop t cs)). kb_wf t c"
    using c by (blast dest: in_set_takeD in_set_dropD)+
  moreover have "length (take (t - 1) ks) = t - 1" "length (take t cs) = t"
    "length (take (t - 1) (drop t ks)) = t - 1" "length (take t (drop t cs)) = t"
    using l assms(3) by auto
  ultimately show ?thesis
    unfolding ab using assms(3) by (simp del: length_take length_drop) linarith
qed

lemma kb_putp_aux_spec:
  assumes "kb_wf t x" and "length (kb_keys x) < 2 * t - 1" and "2 \<le> t"
  shows "kb_wf t (kb_putp_aux t x k) \<and> mset (kb_inorder (kb_putp_aux t x k)) = add_mset k (mset (kb_inorder x))"
  using assms
proof (induction t x k rule: kb_putp_aux.induct)
  case (1 t ks k)
  then show ?case
    using kb_slot_le [of ks k] mset_take_drop [of "kb_slot ks k" ks] by (simp add: Let_def)
next
  case (2 t ks cs k)
  define i where "i = kb_slot ks k"
  obtain y m z where s: "kb_split t (cs ! i) = (y, m, z)"
    by (metis prod_cases3)
  have il: "i < length cs" "i \<le> length ks"
    using 2(4) kb_slot_le [of ks k] by (auto simp: i_def)
  have wi: "kb_wf t (cs ! i)" and len: "length cs = Suc (length ks)" and all: "\<forall>c \<in> set cs. kb_wf t c"
    using 2(4) il by auto
  note sum = sum_list_nth_split [OF il(1), of "mset \<circ> kb_inorder"]
  have sub: "\<forall>c \<in> set (take i cs) \<union> set (drop (Suc i) cs). kb_wf t c"
    using all by (auto dest: in_set_takeD in_set_dropD)
  show ?case
  proof (cases "length (kb_keys (cs ! i)) = 2 * t - 1")
    case full: True
    note m = kb_split_mset [OF wi full _ s] and w = kb_split_wf [OF wi full 2(6) s]
    show ?thesis
    proof (cases "fst m < fst k")
      case True
      have p: "kb_wf t (kb_putp_aux t z k) \<and> mset (kb_inorder (kb_putp_aux t z k)) = add_mset k (mset (kb_inorder z))"
        by (rule 2(1) [of i y m z "take i ks @ m # drop i ks"]; use il full s True w 2(6) in \<open>simp add: i_def [symmetric]\<close>)
      have e: "kb_putp_aux t (KNode ks cs) k =
          KNode (take i ks @ m # drop i ks) (take i cs @ y # kb_putp_aux t z k # drop (i + 1) cs)"
        using True full il by (simp add: Let_def i_def [symmetric] s)
      show ?thesis
        unfolding e mset_inorder sum using p w m sub 2(5,6) len il by (auto simp: mset_take_drop [of i ks, symmetric])
    next
      case False
      have p: "kb_wf t (kb_putp_aux t y k) \<and> mset (kb_inorder (kb_putp_aux t y k)) = add_mset k (mset (kb_inorder y))"
        by (rule 2(2) [of i y m z "take i ks @ m # drop i ks"]; use il full s False w 2(6) in \<open>simp add: i_def [symmetric]\<close>)
      have e: "kb_putp_aux t (KNode ks cs) k =
          KNode (take i ks @ m # drop i ks) (take i cs @ kb_putp_aux t y k # z # drop (i + 1) cs)"
        using False full il by (simp add: Let_def i_def [symmetric] s)
      show ?thesis
        unfolding e mset_inorder sum using p w m sub 2(5,6) len il by (auto simp: mset_take_drop [of i ks, symmetric])
    qed
  next
    case False
    have "length (kb_keys (cs ! i)) \<le> 2 * t - 1"
      using wi by (cases "cs ! i") auto
    then have p: "kb_wf t (kb_putp_aux t (cs ! i) k) \<and>
        mset (kb_inorder (kb_putp_aux t (cs ! i) k)) = add_mset k (mset (kb_inorder (cs ! i)))"
      by (intro 2(3) [of i]; use il False wi 2(6) in \<open>simp add: i_def [symmetric]\<close>)
    have e: "kb_putp_aux t (KNode ks cs) k = KNode ks (take i cs @ kb_putp_aux t (cs ! i) k # drop (i + 1) cs)"
      using False il by (simp add: Let_def i_def [symmetric])
    show ?thesis
      unfolding e mset_inorder sum using p sub 2(5,6) len il by auto
  qed
qed

lemma kb_put_spec:
  assumes "kb_wf t r" and "2 \<le> t"
  shows "kb_wf t (kb_put t r k) \<and> mset (kb_inorder (kb_put t r k)) = add_mset k (mset (kb_inorder r))"
proof (cases "length (kb_keys r) = 2 * t - 1")
  case True
  obtain y m z where s: "kb_split t r = (y, m, z)"
    by (metis prod_cases3)
  have w: "kb_wf t (KNode [m] [y, z])" "length (kb_keys (KNode [m] [y, z])) < 2 * t - 1"
    using kb_split_wf [OF assms(1) True assms(2) s] assms(2) by auto
  show ?thesis
    using kb_putp_aux_spec [OF w assms(2), of k] kb_split_mset [OF assms(1) True _ s] assms(2) True
    by (simp add: kb_put_def s mset_weave del: kb_putp_aux.simps)
next
  case False
  moreover have "length (kb_keys r) \<le> 2 * t - 1"
    using assms(1) by (cases r) auto
  ultimately show ?thesis
    using kb_putp_aux_spec [OF assms(1) _ assms(2), of k] by (simp add: kb_put_def del: kb_putp_aux.simps)
qed

lemma kb_puts_spec:
  assumes "kb_wf t r" and "2 \<le> t"
  shows "kb_wf t (fold (\<lambda>k r. kb_put t r k) ks r) \<and>
    mset (kb_inorder (fold (\<lambda>k r. kb_put t r k) ks r)) = mset (kb_inorder r) + mset ks"
  using assms(1) by (induction ks arbitrary: r) (use kb_put_spec [OF _ assms(2)] in auto)

end
