(* ===== verification/Journal_Writer.thy ===== *)
theory Journal_Writer
  imports Journal_Format Kbtree
begin

text \<open>
  The journal writer, \<^verbatim>\<open>src/src/journal/journal_writer.c\<close>. The three output vectors of the source are copies
  of one algorithm for three entry types; the algorithm is defined once, with the entry's writer,
  size and record type as arguments, and instantiated under the three source names. What the source
  gets from its containers: the order in which the hash table of the super block vector enumerates its
  keys is an argument (\<open>korder\<close>, any reordering of the keys in insertion order); the two ordered maps are
  the B-tree of \<open>Kbtree\<close>. A new buffer block has arbitrary content, given by \<open>fresh\<close>. The buffer is
  always large enough because the vector grows; allocation is assumed to succeed.
\<close>

subsection \<open>How many entries fit\<close>

text \<open>The arguments are far below \<open>2^64\<close>: a buffer has 4096 bytes and the entries are in memory.\<close>

function genericCalculateWritableEntryNum :: "nat \<Rightarrow> nat \<Rightarrow> nat \<Rightarrow> nat" where
  "genericCalculateWritableEntryNum bufferSize entrySize expectedWriteNum =
     (let expectedWriteLen = 4 + expectedWriteNum * entrySize in
      if expectedWriteLen < bufferSize then
        (if bufferSize - expectedWriteLen \<ge> 4 then expectedWriteNum
         else if bufferSize > 2 * 4 then (bufferSize - 2 * 4) div entrySize
         else 0)
      else if expectedWriteLen = bufferSize then expectedWriteNum
      else if bufferSize < 4 then 0
      else genericCalculateWritableEntryNum bufferSize entrySize ((bufferSize - 4) div entrySize))"
  by pat_completeness auto
termination
proof (relation "measure (\<lambda>(_, _, n). n)")
  fix bs es n :: nat and x
  assume a: "x = 4 + n * es" "\<not> x < bs" "x \<noteq> bs" "\<not> bs < 4"
  then have "bs - 4 < n * es" and "0 < es"
    by (auto intro: gr0I)
  then have "(bs - 4) div es < n"
    by (simp add: div_less_iff_less_mult)
  then show "((bs, es, (bs - 4) div es), bs, es, n) \<in> measure (\<lambda>(_, _, n). n)"
    by simp
qed simp

declare genericCalculateWritableEntryNum.simps [simp del]

text \<open>A number of entries is feasible when it leaves no space at all or space for a NOP header.\<close>

definition feasible :: "nat \<Rightarrow> nat \<Rightarrow> nat \<Rightarrow> bool" where
  "feasible bs es k \<longleftrightarrow> 4 + k * es = bs \<or> 4 + k * es + 4 \<le> bs"

lemma calc_fits:
  assumes "0 < es" and "4 + n * es \<le> bs"
  shows "genericCalculateWritableEntryNum bs es n \<le> n"
    and "feasible bs es (genericCalculateWritableEntryNum bs es n) \<or> genericCalculateWritableEntryNum bs es n = 0"
    and "k \<le> n \<Longrightarrow> feasible bs es k \<Longrightarrow> k \<le> genericCalculateWritableEntryNum bs es n"
proof -
  let ?r = "genericCalculateWritableEntryNum bs es n"
  consider "4 + n * es = bs" | "4 + n * es + 4 \<le> bs" | "4 + n * es < bs" "bs < 4 + n * es + 4" "8 < bs"
    | "4 + n * es < bs" "bs < 4 + n * es + 4" "bs \<le> 8"
    using assms(2) by linarith
  then have "?r \<le> n \<and> (feasible bs es ?r \<or> ?r = 0) \<and> (\<forall>k \<le> n. feasible bs es k \<longrightarrow> k \<le> ?r)"
  proof cases
    case 3
    then have "4 + n * es < bs" "\<not> 4 \<le> bs - (4 + n * es)" "2 * 4 < bs"
      by linarith+
    then have r: "?r = (bs - 8) div es"
      by (subst genericCalculateWritableEntryNum.simps) (simp only: Let_def if_True if_False, simp)
    have "(bs - 8) div es * es \<le> bs - 8"
      by simp
    then have "feasible bs es ((bs - 8) div es)"
      unfolding feasible_def using 3 by linarith
    moreover have "bs - 8 < n * es"
      using 3 by linarith
    then have "(bs - 8) div es < n"
      using assms(1) by (simp add: div_less_iff_less_mult)
    moreover have "k \<le> (bs - 8) div es" if "k \<le> n" "feasible bs es k" for k
    proof -
      have "4 + k * es \<noteq> bs"
      proof
        assume k: "4 + k * es = bs"
        then have "n * es < k * es" using 3 by linarith
        then show False using that(1) by simp
      qed
      then have "k * es \<le> bs - 8"
        using that(2) 3 by (simp add: feasible_def)
      then show ?thesis
        using assms(1) by (simp add: less_eq_div_iff_mult_less_eq)
    qed
    ultimately show ?thesis
      by (simp add: r)
  next
    case 4
    then have "4 + n * es < bs" "\<not> 4 \<le> bs - (4 + n * es)" "\<not> 2 * 4 < bs"
      by linarith+
    then have "?r = 0"
      by (subst genericCalculateWritableEntryNum.simps) (simp only: Let_def if_True if_False)
    moreover have "k = 0" if "k \<le> n" "feasible bs es k" for k
    proof (rule ccontr)
      assume "k \<noteq> 0"
      then have "es \<le> k * es" by simp
      moreover have "k * es \<le> n * es" using that(1) by simp
      ultimately show False
        using that(2) 4 assms(1) unfolding feasible_def by linarith
    qed
    ultimately show ?thesis by auto
  next
    case 1
    then have "?r = n"
      by (subst genericCalculateWritableEntryNum.simps) simp
    with 1 show ?thesis by (simp add: feasible_def)
  next
    case 2
    then have "4 + n * es < bs" "4 \<le> bs - (4 + n * es)"
      by linarith+
    then have "?r = n"
      by (subst genericCalculateWritableEntryNum.simps) (simp only: Let_def if_True)
    with 2 show ?thesis by (simp add: feasible_def)
  qed
  then show "?r \<le> n" and "feasible bs es ?r \<or> ?r = 0" and "k \<le> n \<Longrightarrow> feasible bs es k \<Longrightarrow> k \<le> ?r"
    by simp_all
qed

lemma calc_max:
  assumes "0 < es"
  shows "genericCalculateWritableEntryNum bs es n \<le> n"
    and "feasible bs es (genericCalculateWritableEntryNum bs es n) \<or> genericCalculateWritableEntryNum bs es n = 0"
    and "k \<le> n \<Longrightarrow> feasible bs es k \<Longrightarrow> k \<le> genericCalculateWritableEntryNum bs es n"
proof -
  let ?r = "genericCalculateWritableEntryNum bs es n"
  have "?r \<le> n \<and> (feasible bs es ?r \<or> ?r = 0) \<and> (\<forall>k \<le> n. feasible bs es k \<longrightarrow> k \<le> ?r)"
  proof (cases "4 + n * es \<le> bs")
    case True
    show ?thesis
      by (intro conjI allI impI) (rule calc_fits [OF assms True], (assumption+)?)+
  next
    case over: False
    show ?thesis
    proof (cases "bs < 4")
      case True
      with over have "?r = 0"
        by (subst genericCalculateWritableEntryNum.simps) (simp add: Let_def)
      with True show ?thesis by (simp add: feasible_def)
    next
      case False
      let ?m = "(bs - 4) div es"
      have r: "?r = genericCalculateWritableEntryNum bs es ?m"
        using over False by (subst genericCalculateWritableEntryNum.simps) (simp add: Let_def)
      have "?m * es \<le> bs - 4"
        by simp
      then have le: "4 + ?m * es \<le> bs"
        using False by linarith
      have mn: "?m \<le> n"
      proof -
        have "bs - 4 < n * es"
          using over False by linarith
        then show ?thesis
          using assms by (simp add: div_less_iff_less_mult less_imp_le)
      qed
      have "k \<le> ?m" if "feasible bs es k" for k
        using that assms by (auto simp: feasible_def less_eq_div_iff_mult_less_eq)
      note c = calc_fits [OF assms le]
      show ?thesis
        unfolding r using c(1,2) mn \<open>\<And>k. feasible bs es k \<Longrightarrow> k \<le> ?m\<close> by (simp add: c(3))
    qed
  qed
  then show "?r \<le> n" and "feasible bs es ?r \<or> ?r = 0" and "k \<le> n \<Longrightarrow> feasible bs es k \<Longrightarrow> k \<le> ?r"
    by simp_all
qed


subsection \<open>Output vectors\<close>

datatype JournalOutputState = JOURNAL_OUTPUT_OK | JOURNAL_OUTPUT_NO_ENOUGH_BUFFER | JOURNAL_OUTPUT_REACH_END

text \<open>
  \<open>ov_outputIt\<close> stands for the map and its iterator: the journal indices the iterator has yet to deliver.
\<close>

record 'e OutputVector =
  ov_journal :: "'e list"
  ov_outputIt :: "nat list"
  ov_restOutputNum :: nat

definition outputVectorOutputToBuffer ::
  "(block \<Rightarrow> nat \<Rightarrow> 'e \<Rightarrow> block) \<Rightarrow> nat \<Rightarrow> u8 \<Rightarrow> 'e OutputVector \<Rightarrow> block \<Rightarrow> nat \<Rightarrow> nat \<Rightarrow>
    JournalOutputState \<times> 'e OutputVector \<times> block \<times> nat" where
  "outputVectorOutputToBuffer put journalEntrySize journalType v b start end' =
     (if ov_restOutputNum v = 0 then (JOURNAL_OUTPUT_REACH_END, v, b, start)
      else let outputNum = genericCalculateWritableEntryNum (end' - start) journalEntrySize (ov_restOutputNum v) in
        if outputNum = 0 then (JOURNAL_OUTPUT_NO_ENOUGH_BUFFER, v, b, start)
        else let header = \<lparr>mj_len = of_nat (4 + outputNum * journalEntrySize), mj_type = journalType, mj_rsv = 0\<rparr>;
                 es = map (\<lambda>i. ov_journal v ! i) (take outputNum (ov_outputIt v)) in
          (JOURNAL_OUTPUT_OK,
           v\<lparr>ov_outputIt := drop outputNum (ov_outputIt v), ov_restOutputNum := ov_restOutputNum v - outputNum\<rparr>,
           put_list put journalEntrySize (putHeader b start header) (start + 4) es,
           start + 4 + outputNum * journalEntrySize))"

definition superJournalOutputVectorOutputToBuffer ::
  "SuperBlockJournalEntry OutputVector \<Rightarrow> block \<Rightarrow> nat \<Rightarrow> nat \<Rightarrow>
    JournalOutputState \<times> SuperBlockJournalEntry OutputVector \<times> block \<times> nat" where
  "superJournalOutputVectorOutputToBuffer = outputVectorOutputToBuffer putSuperJ 8 JOURNAL_TYPE_SUPER_BLOCK"

definition natJournalOutputVectorOutputToBuffer ::
  "NatJournalEntry OutputVector \<Rightarrow> block \<Rightarrow> nat \<Rightarrow> nat \<Rightarrow>
    JournalOutputState \<times> NatJournalEntry OutputVector \<times> block \<times> nat" where
  "natJournalOutputVectorOutputToBuffer = outputVectorOutputToBuffer putNatJ 12 JOURNAL_TYPE_NATS"

definition sitJournalOutputVectorOutputToBuffer ::
  "SitJournalEntry OutputVector \<Rightarrow> block \<Rightarrow> nat \<Rightarrow> nat \<Rightarrow>
    JournalOutputState \<times> SitJournalEntry OutputVector \<times> block \<times> nat" where
  "sitJournalOutputVectorOutputToBuffer = outputVectorOutputToBuffer putSitJ 72 JOURNAL_TYPE_SITS"

text \<open>
  Generating the vectors. \<open>kh_keys\<close> are the keys of a hash table in the order of their first insertion.
\<close>

definition kh_keys :: "'k list \<Rightarrow> 'k list" where
  "kh_keys ks = fold (\<lambda>k acc. if k \<in> set acc then acc else acc @ [k]) ks []"

definition superJournalOutputVectorGenerateOutputVector ::
  "SuperBlockJournalEntry list \<Rightarrow> u32 \<rightharpoonup> nat" where
  "superJournalOutputVectorGenerateOutputVector js = fold (\<lambda>i m. m(sbj_Off (js ! i) \<mapsto> i)) [0..<length js] Map.empty"

definition superJournalOutputVectorPrepareOutput ::
  "(u32 list \<Rightarrow> u32 list) \<Rightarrow> SuperBlockJournalEntry list \<Rightarrow> (u32 \<rightharpoonup> nat) \<Rightarrow> SuperBlockJournalEntry OutputVector" where
  "superJournalOutputVectorPrepareOutput korder js m =
     (let ks = kh_keys (map sbj_Off js) in
      \<lparr>ov_journal = js, ov_outputIt = map (\<lambda>k. the (m k)) (korder ks), ov_restOutputNum = length ks\<rparr>)"

definition natJournalOutputVectorGenerateOutputVector :: "nat \<Rightarrow> NatJournalEntry list \<Rightarrow> kbnode" where
  "natJournalOutputVectorGenerateOutputVector t js =
     fold (\<lambda>k r. kb_put t r k) (map (\<lambda>i. (nj_nid (js ! i), i)) [0..<length js]) kb_init"

definition natJournalOutputVectorPrepareOutput :: "NatJournalEntry list \<Rightarrow> kbnode \<Rightarrow> NatJournalEntry OutputVector" where
  "natJournalOutputVectorPrepareOutput js m =
     \<lparr>ov_journal = js, ov_outputIt = map snd (kb_inorder m), ov_restOutputNum = length (kb_inorder m)\<rparr>"

definition sitJournalOutputVectorGenerateOutputVector :: "nat \<Rightarrow> SitJournalEntry list \<Rightarrow> kbnode" where
  "sitJournalOutputVectorGenerateOutputVector t js =
     fold (\<lambda>k r. kb_put t r k) (map (\<lambda>i. (sj_segID (js ! i), i)) [0..<length js]) kb_init"

definition sitJournalOutputVectorPrepareOutput :: "SitJournalEntry list \<Rightarrow> kbnode \<Rightarrow> SitJournalEntry OutputVector" where
  "sitJournalOutputVectorPrepareOutput js m =
     \<lparr>ov_journal = js, ov_outputIt = map snd (kb_inorder m), ov_restOutputNum = length (kb_inorder m)\<rparr>"

subsection \<open>The writer\<close>

record JournalWriter =
  jw_startLpa :: u64
  jw_endLpa :: u64
  jw_curJournal :: "JournalContainer option"
  jw_bufferTailIdx :: nat
  jw_bufferTailOff :: nat
  jw_journalBuffer :: "block list"

definition journalWriterInit :: "u64 \<Rightarrow> u64 \<Rightarrow> JournalWriter" where
  "journalWriterInit s e = \<lparr>jw_startLpa = s, jw_endLpa = e, jw_curJournal = None, jw_bufferTailIdx = 0,
     jw_bufferTailOff = 0, jw_journalBuffer = []\<rparr>"

definition journalWriterDestroy :: "JournalWriter \<Rightarrow> JournalWriter" where
  "journalWriterDestroy w = \<lparr>jw_startLpa = 0, jw_endLpa = 0, jw_curJournal = None, jw_bufferTailIdx = 0,
     jw_bufferTailOff = 0, jw_journalBuffer = []\<rparr>"

definition journalWriterSetPendingJournal :: "JournalWriter \<Rightarrow> JournalContainer \<Rightarrow> JournalWriter" where
  "journalWriterSetPendingJournal w j = w\<lparr>jw_curJournal := Some j\<rparr>"

definition journalWriterEnsureBufferCapacity :: "(nat \<Rightarrow> block) \<Rightarrow> JournalWriter \<Rightarrow> nat \<Rightarrow> JournalWriter" where
  "journalWriterEnsureBufferCapacity fresh w n =
     (if n \<le> length (jw_journalBuffer w) then w
      else w\<lparr>jw_journalBuffer := jw_journalBuffer w @ map fresh [length (jw_journalBuffer w)..<n]\<rparr>)"

definition journalWriterGetIthBufferBlock :: "(nat \<Rightarrow> block) \<Rightarrow> JournalWriter \<Rightarrow> nat \<Rightarrow> JournalWriter \<times> block" where
  "journalWriterGetIthBufferBlock fresh w i =
     (let w' = journalWriterEnsureBufferCapacity fresh w (1 + i) in (w', jw_journalBuffer w' ! i))"

definition fillBufferWithNop :: "block \<Rightarrow> nat \<Rightarrow> nat \<Rightarrow> block option" where
  "fillBufferWithNop b start end' =
     (let length' = of_nat (end' - start) :: u16 in
      if length' < 4 then None
      else Some (putHeader b start \<lparr>mj_len = length', mj_type = JOURNAL_TYPE_NOP, mj_rsv = 0\<rparr>))"

text \<open>The store through a pointer into block \<open>i\<close> of the buffer.\<close>

definition jw_store :: "JournalWriter \<Rightarrow> nat \<Rightarrow> block \<Rightarrow> JournalWriter" where
  "jw_store w i b = w\<lparr>jw_journalBuffer := (jw_journalBuffer w)[i := b]\<rparr>"

definition journalWriterNextBlock :: "JournalWriter \<Rightarrow> JournalWriter" where
  "journalWriterNextBlock w =
     (if jw_bufferTailOff w = 4096 then w\<lparr>jw_bufferTailIdx := jw_bufferTailIdx w + 1, jw_bufferTailOff := 0\<rparr> else w)"

text \<open>The \<^verbatim>\<open>while\<close> loop for one output vector.\<close>

partial_function (option) journalWriterOutputLoop ::
  "(nat \<Rightarrow> block) \<Rightarrow> ('e OutputVector \<Rightarrow> block \<Rightarrow> nat \<Rightarrow> nat \<Rightarrow> JournalOutputState \<times> 'e OutputVector \<times> block \<times> nat) \<Rightarrow>
    JournalWriter \<Rightarrow> 'e OutputVector \<Rightarrow> JournalWriter option" where
  "journalWriterOutputLoop fresh out w v =
     (let (w1, b) = journalWriterGetIthBufferBlock fresh w (jw_bufferTailIdx w);
          (st, v', b', off') = out v b (jw_bufferTailOff w1) 4096 in
      case st of
        JOURNAL_OUTPUT_OK \<Rightarrow>
          journalWriterOutputLoop fresh out
            (journalWriterNextBlock ((jw_store w1 (jw_bufferTailIdx w1) b')\<lparr>jw_bufferTailOff := off'\<rparr>)) v'
      | JOURNAL_OUTPUT_NO_ENOUGH_BUFFER \<Rightarrow>
          (case fillBufferWithNop b' off' 4096 of
             None \<Rightarrow> None
           | Some b'' \<Rightarrow> journalWriterOutputLoop fresh out
               (journalWriterNextBlock ((jw_store w1 (jw_bufferTailIdx w1) b'')\<lparr>jw_bufferTailOff := 4096\<rparr>)) v')
      | JOURNAL_OUTPUT_REACH_END \<Rightarrow> Some (journalWriterNextBlock w1))"

definition journalWriterAppendEndEntry :: "(nat \<Rightarrow> block) \<Rightarrow> JournalWriter \<Rightarrow> JournalWriter" where
  "journalWriterAppendEndEntry fresh w =
     (let (w1, b) = journalWriterGetIthBufferBlock fresh w (jw_bufferTailIdx w) in
      jw_store w1 (jw_bufferTailIdx w1)
        (putHeader b (jw_bufferTailOff w1) \<lparr>mj_len = 4, mj_type = JOURNAL_TYPE_END, mj_rsv = 0\<rparr>))"

definition journalWriterCollectPendingJournalToWriteBuffer ::
  "(nat \<Rightarrow> block) \<Rightarrow> (u32 list \<Rightarrow> u32 list) \<Rightarrow> nat \<Rightarrow> JournalWriter \<Rightarrow> (nat \<times> JournalWriter) option" where
  "journalWriterCollectPendingJournalToWriteBuffer fresh korder t w =
     (case jw_curJournal w of None \<Rightarrow> None
      | Some j \<Rightarrow> do {
          let w0 = w\<lparr>jw_bufferTailIdx := 0, jw_bufferTailOff := 0\<rparr>;
          let sv = superJournalOutputVectorPrepareOutput korder (superBlockJournal j)
                     (superJournalOutputVectorGenerateOutputVector (superBlockJournal j));
          w1 \<leftarrow> journalWriterOutputLoop fresh superJournalOutputVectorOutputToBuffer w0 sv;
          let nv = natJournalOutputVectorPrepareOutput (natJournal j)
                     (natJournalOutputVectorGenerateOutputVector t (natJournal j));
          w2 \<leftarrow> journalWriterOutputLoop fresh natJournalOutputVectorOutputToBuffer w1 nv;
          let tv = sitJournalOutputVectorPrepareOutput (sitJournal j)
                     (sitJournalOutputVectorGenerateOutputVector t (sitJournal j));
          w3 \<leftarrow> journalWriterOutputLoop fresh sitJournalOutputVectorOutputToBuffer w2 tv;
          let w4 = journalWriterAppendEndEntry fresh w3;
          Some (1 + jw_bufferTailIdx w4, w4)
        })"

text \<open>
  Writing the buffer: block \<open>i\<close> goes to the journal position \<open>curTail\<close>, which wraps at the end of the
  area. A failing write, at submission or reported by the completion, aborts.
\<close>

fun journalWriterWriteBlocks :: "u64 \<Rightarrow> u64 \<Rightarrow> comm_dev \<Rightarrow> block list \<Rightarrow> u64 \<Rightarrow> comm_dev option" where
  "journalWriterWriteBlocks s e dev [] cur = Some dev"
| "journalWriterWriteBlocks s e dev (b # bs) cur =
     (let cur' = if cur = e then s else cur; (r, dev') = comm_write dev (LPA_TO_LBA64 cur') b in
      if r \<noteq> RC0 then None else journalWriterWriteBlocks s e dev' bs (cur' + 1))"

definition journalWriterWriteToSsd :: "comm_dev \<Rightarrow> JournalWriter \<Rightarrow> u64 \<Rightarrow> comm_dev option" where
  "journalWriterWriteToSsd dev w curTail =
     journalWriterWriteBlocks (jw_startLpa w) (jw_endLpa w) dev
       (take (1 + jw_bufferTailIdx w) (jw_journalBuffer w)) curTail"


subsection \<open>What the buffer holds\<close>

text \<open>
  \<open>jfull b its\<close>: the block is filled by the records \<open>its\<close> and possibly a NOP record. \<open>jtx bs its\<close>: the
  blocks are full, except the last, which ends with an END record after its records.
\<close>

definition jfull :: "block \<Rightarrow> jitem list \<Rightarrow> bool" where
  "jfull b its \<longleftrightarrow> (\<exists>off. jseg b 0 off its \<and> (off = 4096 \<or> record_at b off JOURNAL_TYPE_NOP (4096 - off)))"

inductive jtx :: "block list \<Rightarrow> jitem list \<Rightarrow> bool" where
  jtx_last: "jseg b 0 off its \<Longrightarrow> record_at b off JOURNAL_TYPE_END 4 \<Longrightarrow> jtx [b] its"
| jtx_more: "jfull b its \<Longrightarrow> jtx bs its' \<Longrightarrow> jtx (b # bs) (its @ its')"

definition jw_inv :: "JournalWriter \<Rightarrow> jitem list \<Rightarrow> bool" where
  "jw_inv w its \<longleftrightarrow> (\<exists>full cur. its = concat full @ cur \<and>
     list_all2 jfull (take (jw_bufferTailIdx w) (jw_journalBuffer w)) full \<and>
     jw_bufferTailIdx w \<le> length (jw_journalBuffer w) \<and> jw_bufferTailOff w + 4 \<le> 4096 \<and>
     (if jw_bufferTailIdx w < length (jw_journalBuffer w)
      then jseg (jw_journalBuffer w ! jw_bufferTailIdx w) 0 (jw_bufferTailOff w) cur
      else jw_bufferTailOff w = 0 \<and> cur = []))"

lemma jw_inv_start: "jw_inv (w\<lparr>jw_bufferTailIdx := 0, jw_bufferTailOff := 0\<rparr>) []"
  by (auto simp: jw_inv_def intro: jseg.jseg_nil)

lemma jw_get_block:
  assumes "jw_inv w its"
  obtains w' b full cur where "journalWriterGetIthBufferBlock fresh w (jw_bufferTailIdx w) = (w', b)"
    and "its = concat full @ cur" and "list_all2 jfull (take (jw_bufferTailIdx w) (jw_journalBuffer w')) full"
    and "jw_bufferTailIdx w < length (jw_journalBuffer w')" and "jw_journalBuffer w' ! jw_bufferTailIdx w = b"
    and "jseg b 0 (jw_bufferTailOff w) cur" and "w' = w\<lparr>jw_journalBuffer := jw_journalBuffer w'\<rparr>"
proof -
  obtain full cur where f: "its = concat full @ cur"
    "list_all2 jfull (take (jw_bufferTailIdx w) (jw_journalBuffer w)) full"
    "jw_bufferTailIdx w \<le> length (jw_journalBuffer w)"
    "if jw_bufferTailIdx w < length (jw_journalBuffer w)
      then jseg (jw_journalBuffer w ! jw_bufferTailIdx w) 0 (jw_bufferTailOff w) cur
      else jw_bufferTailOff w = 0 \<and> cur = []"
    using assms unfolding jw_inv_def by blast
  show thesis
  proof (cases "jw_bufferTailIdx w < length (jw_journalBuffer w)")
    case True
    with f that [of w _ full cur] show ?thesis
      by (simp add: journalWriterGetIthBufferBlock_def journalWriterEnsureBufferCapacity_def Let_def)
  next
    case False
    with f(3) have l: "length (jw_journalBuffer w) = jw_bufferTailIdx w"
      by simp
    with False f that [of "w\<lparr>jw_journalBuffer := jw_journalBuffer w @ [fresh (jw_bufferTailIdx w)]\<rparr>" _ full cur] show ?thesis
      by (simp add: journalWriterGetIthBufferBlock_def journalWriterEnsureBufferCapacity_def Let_def nth_append
          jseg.jseg_nil)
  qed
qed

lemma jw_inv_advance:
  assumes "list_all2 jfull (take i buf) full" and "i < length buf"
    and "jseg b 0 off cur" and "off + 4 \<le> 4096" and "jw_bufferTailIdx w = i"
  shows "jw_inv (w\<lparr>jw_journalBuffer := buf[i := b], jw_bufferTailOff := off\<rparr>) (concat full @ cur)"
  unfolding jw_inv_def
  by (rule exI [of _ full], rule exI [of _ cur]) (use assms in simp)

lemma jw_inv_next:
  assumes "list_all2 jfull (take i buf) full" and "i < length buf" and "jfull b cur"
  shows "jw_inv (w\<lparr>jw_journalBuffer := buf[i := b], jw_bufferTailIdx := Suc i, jw_bufferTailOff := 0\<rparr>) (concat full @ cur)"
proof -
  have "take (Suc i) (buf[i := b]) = take i buf @ [b]"
    using assms(2) by (simp add: take_Suc_conv_app_nth)
  then show ?thesis
    unfolding jw_inv_def
    by (intro exI [of _ "full @ [cur]"] exI [of _ "[]"])
      (use assms in \<open>simp add: jseg.jseg_nil list_all2_appendI\<close>)
qed

text \<open>A vector whose iterator and rest count agree and whose indices lie in its journal.\<close>

definition ov_ok :: "('e \<Rightarrow> bool) \<Rightarrow> 'e OutputVector \<Rightarrow> bool" where
  "ov_ok ok v \<longleftrightarrow> ov_restOutputNum v = length (ov_outputIt v) \<and>
     list_all (\<lambda>i. ok (ov_journal v ! i)) (ov_outputIt v)"

definition ov_entries :: "'e OutputVector \<Rightarrow> 'e list" where
  "ov_entries v = map (\<lambda>i. ov_journal v ! i) (ov_outputIt v)"

definition jw_frame :: "JournalWriter \<Rightarrow> u64 \<times> u64 \<times> JournalContainer option" where
  "jw_frame w = (jw_startLpa w, jw_endLpa w, jw_curJournal w)"

context journal_codec
begin

lemma output_ok:
  assumes "ov_ok cok v" and "n = genericCalculateWritableEntryNum (4096 - off) csize (ov_restOutputNum v)" and "0 < n"
    and "off \<le> 4096"
  shows "outputVectorOutputToBuffer cput csize jtype v b off 4096 =
      (JOURNAL_OUTPUT_OK, v\<lparr>ov_outputIt := drop n (ov_outputIt v), ov_restOutputNum := ov_restOutputNum v - n\<rparr>,
       put_record cput csize jtype b off (take n (ov_entries v)), off + (4 + csize * n))"
    and "item_at (put_record cput csize jtype b off (take n (ov_entries v))) off (jitem_of (take n (ov_entries v))) (4 + csize * n)"
    and "off + (4 + csize * n) = 4096 \<or> off + (4 + csize * n) + 4 \<le> 4096"
    and "length (take n (ov_entries v)) = n" and "n \<le> ov_restOutputNum v"
proof -
  note c = calc_max [OF csize_pos, of "4096 - off" "ov_restOutputNum v", folded assms(2)]
  show n: "n \<le> ov_restOutputNum v" by (rule c(1))
  show l: "length (take n (ov_entries v)) = n"
    using n assms(1) by (simp add: ov_ok_def ov_entries_def)
  show f: "off + (4 + csize * n) = 4096 \<or> off + (4 + csize * n) + 4 \<le> 4096"
    using c(2) assms(3,4) by (auto simp: feasible_def mult.commute)
  have "list_all cok (take n (ov_entries v))"
    using assms(1) by (auto simp: ov_ok_def ov_entries_def list_all_iff take_map dest: in_set_takeD)
  then show "item_at (put_record cput csize jtype b off (take n (ov_entries v))) off (jitem_of (take n (ov_entries v))) (4 + csize * n)"
    using put_record_item [of "take n (ov_entries v)" off b] l f by auto
  have "ov_restOutputNum v \<noteq> 0"
    using n assms(3) by simp
  then show "outputVectorOutputToBuffer cput csize jtype v b off 4096 =
      (JOURNAL_OUTPUT_OK, v\<lparr>ov_outputIt := drop n (ov_outputIt v), ov_restOutputNum := ov_restOutputNum v - n\<rparr>,
       put_record cput csize jtype b off (take n (ov_entries v)), off + (4 + csize * n))"
    unfolding put_record_def l
    using assms(2,3) by (simp add: outputVectorOutputToBuffer_def Let_def ov_entries_def take_map mult.commute)
qed

lemma output_fresh_block:
  "0 < ov_restOutputNum v \<Longrightarrow> 0 < genericCalculateWritableEntryNum 4096 csize (ov_restOutputNum v)"
  using calc_max(3) [OF csize_pos, of 1 "ov_restOutputNum v" 4096] csize_small
  by (simp add: feasible_def)

lemma jseg_put_record:
  assumes "jseg b 0 off its" and "item_at (put_record cput csize jtype b off es) off it len"
  shows "jseg (put_record cput csize jtype b off es) 0 (off + len) (its @ [it])"
proof (rule jseg_snoc [OF _ assms(2)])
  show "jseg (put_record cput csize jtype b off es) 0 off its"
    using assms(1) by (rule jseg_local) (simp add: put_record_frame)
qed

end

lemma jfull_nop:
  assumes "jseg b 0 off its" and "off + 4 \<le> 4096"
  obtains b' where "fillBufferWithNop b off 4096 = Some b'" and "jfull b' its"
proof -
  let ?b = "putHeader b off \<lparr>mj_len = of_nat (4096 - off), mj_type = JOURNAL_TYPE_NOP, mj_rsv = 0\<rparr>"
  have "(4 :: u16) \<le> of_nat k" if "4 \<le> k" "k \<le> 4096" for k
    using that by (simp add: word_le_nat_alt unat_of_nat)
  from this [of "4096 - off"] have "(4 :: u16) \<le> of_nat (4096 - off)"
    using assms(2) by linarith
  then have "fillBufferWithNop b off 4096 = Some ?b"
    by (simp add: fillBufferWithNop_def Let_def not_less)
  moreover have "jseg ?b 0 off its"
    using assms(1) by (rule jseg_local) (simp add: chdr.cput_frame)
  then have "jfull ?b its"
    unfolding jfull_def using assms(2) by (intro exI [of _ off]) (simp add: record_at_def chdr.cget_cput)
  ultimately show thesis by (rule that)
qed

context journal_codec
begin

lemma output_loop:
  assumes "jw_inv w its" and "ov_ok cok v"
  shows "\<exists>w' ess. journalWriterOutputLoop fresh (outputVectorOutputToBuffer cput csize jtype) w v = Some w' \<and>
    jw_inv w' (its @ map jitem_of ess) \<and> concat ess = ov_entries v \<and>
    jw_frame w' = jw_frame w"
  using assms
proof (induction "2 * ov_restOutputNum v + (if jw_bufferTailOff w = 0 then 0 else 1)" arbitrary: w v its rule: less_induct)
  case less
  obtain w1 b full cur where g: "journalWriterGetIthBufferBlock fresh w (jw_bufferTailIdx w) = (w1, b)"
    and its: "its = concat full @ cur" and fl: "list_all2 jfull (take (jw_bufferTailIdx w) (jw_journalBuffer w1)) full"
    and il: "jw_bufferTailIdx w < length (jw_journalBuffer w1)" and b: "jw_journalBuffer w1 ! jw_bufferTailIdx w = b"
    and seg: "jseg b 0 (jw_bufferTailOff w) cur" and w1: "w1 = w\<lparr>jw_journalBuffer := jw_journalBuffer w1\<rparr>"
    by (rule jw_get_block [OF less.prems(1)])
  let ?out = "outputVectorOutputToBuffer cput csize jtype"
  let ?i = "jw_bufferTailIdx w" and ?off = "jw_bufferTailOff w" and ?buf = "jw_journalBuffer w1"
  have idx: "jw_bufferTailIdx w1 = ?i" "jw_bufferTailOff w1 = ?off"
    by (subst w1, simp)+
  have frame: "jw_frame w1 = jw_frame w"
    by (subst w1) (simp add: jw_frame_def)
  have off: "?off + 4 \<le> 4096"
    using less.prems(1) by (auto simp: jw_inv_def)
  define n where "n = genericCalculateWritableEntryNum (4096 - ?off) csize (ov_restOutputNum v)"
  consider "ov_restOutputNum v = 0" | "0 < ov_restOutputNum v" "n = 0" | "0 < n"
    by blast
  then show ?case
  proof cases
    case 1
    have "jw_inv w1 its"
    proof -
      have "w1\<lparr>jw_journalBuffer := ?buf[?i := b], jw_bufferTailOff := ?off\<rparr> = w1"
        using b idx by (cases w1) auto
      with jw_inv_advance [OF fl il seg off idx(1)] its show ?thesis by simp
    qed
    moreover have "journalWriterOutputLoop fresh ?out w v = Some w1"
      using 1 off idx by (subst journalWriterOutputLoop.simps)
        (simp add: g outputVectorOutputToBuffer_def journalWriterNextBlock_def)
    moreover have "ov_entries v = []"
      using 1 less.prems(2) by (simp add: ov_ok_def ov_entries_def)
    ultimately show ?thesis
      by (intro exI [of _ w1] exI [of _ "[]"]) (simp add: frame)
  next
    case 2
    have "?off \<noteq> 0"
      using output_fresh_block [OF 2(1)] 2(2) by (metis n_def diff_zero less_irrefl)
    obtain b' where b': "fillBufferWithNop b ?off 4096 = Some b'" "jfull b' cur"
      using jfull_nop [OF seg off] .
    let ?w = "w1\<lparr>jw_journalBuffer := ?buf[?i := b'], jw_bufferTailIdx := Suc ?i, jw_bufferTailOff := 0\<rparr>"
    have "?out v b ?off 4096 = (JOURNAL_OUTPUT_NO_ENOUGH_BUFFER, v, b, ?off)"
      using 2 by (simp add: outputVectorOutputToBuffer_def n_def)
    then have step: "journalWriterOutputLoop fresh ?out w v = journalWriterOutputLoop fresh ?out ?w v"
      using idx by (subst journalWriterOutputLoop.simps)
        (simp add: g b' journalWriterNextBlock_def jw_store_def)
    have "jw_inv ?w its"
      using jw_inv_next [OF fl il b'(2)] its by simp
    from less.hyps [OF _ this less.prems(2)] \<open>?off \<noteq> 0\<close> show ?thesis
      unfolding step using frame by (auto simp: jw_frame_def)
  next
    case 3
    let ?es = "take n (ov_entries v)"
    let ?v = "v\<lparr>ov_outputIt := drop n (ov_outputIt v), ov_restOutputNum := ov_restOutputNum v - n\<rparr>"
    let ?b = "put_record cput csize jtype b ?off ?es" and ?o = "?off + (4 + csize * n)"
    have le: "?off \<le> 4096"
      using off by simp
    note o = output_ok(1,2) [OF less.prems(2) n_def 3 le, of b] output_ok(3-5) [OF less.prems(2) n_def 3 le]
    have seg': "jseg ?b 0 ?o (cur @ [jitem_of ?es])"
      by (rule jseg_put_record [OF seg o(2)])
    have vok: "ov_ok cok ?v"
      using less.prems(2) o(5) by (auto simp: ov_ok_def list_all_iff dest: in_set_dropD)
    have ents: "ov_entries v = ?es @ ov_entries ?v"
      by (simp add: ov_entries_def drop_map [symmetric])
    let ?w = "journalWriterNextBlock ((jw_store w1 ?i ?b)\<lparr>jw_bufferTailOff := ?o\<rparr>)"
    have step: "journalWriterOutputLoop fresh ?out w v = journalWriterOutputLoop fresh ?out ?w ?v"
      using idx by (subst journalWriterOutputLoop.simps) (simp add: g o(1))
    have inv: "jw_inv ?w (its @ [jitem_of ?es])"
    proof (cases "?o = 4096")
      case True
      with seg' have "jfull ?b (cur @ [jitem_of ?es])"
        unfolding jfull_def by blast
      from jw_inv_next [OF fl il this, of w1] True its idx show ?thesis
        by (simp add: journalWriterNextBlock_def jw_store_def)
    next
      case False
      with o(3) have "?o + 4 \<le> 4096" by simp
      from jw_inv_advance [OF fl il seg' this idx(1)] False its idx show ?thesis
        by (simp add: journalWriterNextBlock_def jw_store_def)
    qed
    have "2 * ov_restOutputNum ?v + (if jw_bufferTailOff ?w = 0 then 0 else 1)
        < 2 * ov_restOutputNum v + (if ?off = 0 then 0 else 1)"
      using 3 o(5) by auto
    from less.hyps [OF this inv vok] obtain w' ess where
      "journalWriterOutputLoop fresh ?out ?w ?v = Some w'" "jw_inv w' (its @ [jitem_of ?es] @ map jitem_of ess)"
      "concat ess = ov_entries ?v" "jw_frame w' = jw_frame ?w"
      by auto
    then show ?thesis
      unfolding step using ents frame
      by (intro exI [of _ w'] exI [of _ "?es # ess"])
        (simp add: journalWriterNextBlock_def jw_store_def jw_frame_def split: if_splits)
  qed
qed

end

subsection \<open>What the vectors deliver\<close>

text \<open>The value a list of super block entries leaves at an offset.\<close>

definition latest :: "SuperBlockJournalEntry list \<Rightarrow> u32 \<rightharpoonup> u32" where
  "latest js = map_of (rev (map (\<lambda>e. (sbj_Off e, sbj_newVal e)) js))"

definition aligned_entries :: "SuperBlockJournalEntry list \<Rightarrow> bool" where
  "aligned_entries js \<longleftrightarrow> list_all (\<lambda>e. unat (sbj_Off e) mod 4 = 0) js"

lemma latest_snoc: "latest (js @ [e]) = (latest js)(sbj_Off e \<mapsto> sbj_newVal e)"
  by (simp add: latest_def)

lemma aligned_slot:
  assumes "k mod 4 = 0" and "k \<le> i" and "i < k + 4"
  shows "i div 4 * 4 = (k :: nat)"
  using assms by presburger

lemma super_apply_latest:
  assumes "aligned_entries js"
  shows "super_apply js b i = (if i < 2 ^ 32 then case latest js (of_nat (i div 4 * 4)) of None \<Rightarrow> b i
    | Some v \<Rightarrow> put32 b (i div 4 * 4) v i else b i)"
  using assms
proof (induction js rule: rev_induct)
  case Nil
  show ?case by (simp add: latest_def)
next
  case (snoc e js)
  let ?k = "unat (sbj_Off e)"
  have al: "?k mod 4 = 0" and IH: "super_apply js b i = (if i < 2 ^ 32 then case latest js (of_nat (i div 4 * 4)) of
      None \<Rightarrow> b i | Some v \<Rightarrow> put32 b (i div 4 * 4) v i else b i)"
    using snoc by (auto simp: aligned_entries_def)
  have ap: "super_apply (js @ [e]) b i = put32 (super_apply js b) ?k (sbj_newVal e) i"
    by (simp add: apply_append)
  show ?case
  proof (cases "?k \<le> i \<and> i < ?k + 4")
    case True
    then have s: "i div 4 * 4 = ?k"
      using aligned_slot [OF al] by simp
    have "i < 2 ^ 32"
      using True al unat_less_u32 [of "sbj_Off e"] by simp presburger
    moreover have "put32 (super_apply js b) ?k (sbj_newVal e) i = put32 b ?k (sbj_newVal e) i"
      using True by (auto simp: put32_def)
    ultimately show ?thesis
      by (simp add: ap s latest_snoc)
  next
    case False
    then have "put32 (super_apply js b) ?k (sbj_newVal e) i = super_apply js b i"
      by (intro put32_frame) auto
    moreover have "of_nat (i div 4 * 4) \<noteq> sbj_Off e" if "i < 2 ^ 32"
    proof
      assume "of_nat (i div 4 * 4) = sbj_Off e"
      moreover have "i div 4 * 4 < 4294967296"
        using that by simp
      ultimately have "i div 4 * 4 = ?k"
        by (metis unat_of_nat_u32)
      with False show False by presburger
    qed
    ultimately show ?thesis
      using IH by (simp add: ap latest_snoc)
  qed
qed

lemma kh_keys_fold:
  "distinct acc \<Longrightarrow> distinct (fold (\<lambda>k acc. if k \<in> set acc then acc else acc @ [k]) ks acc) \<and>
     set (fold (\<lambda>k acc. if k \<in> set acc then acc else acc @ [k]) ks acc) = set acc \<union> set ks"
  by (induction ks arbitrary: acc) auto

lemma kh_keys: "distinct (kh_keys ks)" "set (kh_keys ks) = set ks"
  using kh_keys_fold [of "[]" ks] by (simp_all add: kh_keys_def)

text \<open>What is assumed of the hash table: it enumerates each of its keys once.\<close>

definition korder_ok :: "(u32 list \<Rightarrow> u32 list) \<Rightarrow> bool" where
  "korder_ok korder \<longleftrightarrow> (\<forall>ks. mset (korder ks) = mset ks)"

lemma super_map:
  "superJournalOutputVectorGenerateOutputVector js = map_of (rev (map (\<lambda>i. (sbj_Off (js ! i), i)) [0..<length js]))"
proof -
  have "fold (\<lambda>i m. m(f i \<mapsto> i)) ix m = m ++ map_of (rev (map (\<lambda>i. (f i, i)) ix))"
    for f :: "nat \<Rightarrow> u32" and ix m
    by (induction ix arbitrary: m) (auto simp: map_add_def fun_eq_iff split: option.splits)
  from this [of "\<lambda>i. sbj_Off (js ! i)"] show ?thesis
    by (simp add: superJournalOutputVectorGenerateOutputVector_def)
qed

lemma super_map_latest:
  "latest js k = map_option (\<lambda>i. sbj_newVal (js ! i)) (superJournalOutputVectorGenerateOutputVector js k)"
proof -
  have "map (\<lambda>e. (sbj_Off e, sbj_newVal e)) js = map (\<lambda>(k, i). (k, sbj_newVal (js ! i))) (map (\<lambda>i. (sbj_Off (js ! i), i)) [0..<length js])"
    by (rule nth_equalityI) auto
  then have "rev (map (\<lambda>e. (sbj_Off e, sbj_newVal e)) js) =
      map (\<lambda>(k, i). (k, sbj_newVal (js ! i))) (rev (map (\<lambda>i. (sbj_Off (js ! i), i)) [0..<length js]))"
    by (simp add: rev_map)
  then show ?thesis
    by (simp add: latest_def super_map map_of_map)
qed

lemma super_map_dom:
  assumes "k \<in> sbj_Off ` set js"
  obtains i where "superJournalOutputVectorGenerateOutputVector js k = Some i" and "i < length js" and "sbj_Off (js ! i) = k"
proof -
  obtain i where "i < length js" "k = sbj_Off (js ! i)"
    using assms by (auto simp: in_set_conv_nth)
  then have "map_of (rev (map (\<lambda>i. (sbj_Off (js ! i), i)) [0..<length js])) k \<noteq> None"
    unfolding map_of_eq_None_iff by (simp add: image_image image_iff) (rule bexI [of _ i], simp_all)
  then obtain i where i: "superJournalOutputVectorGenerateOutputVector js k = Some i"
    unfolding super_map by blast
  then have "(k, i) \<in> set (rev (map (\<lambda>i. (sbj_Off (js ! i), i)) [0..<length js]))"
    unfolding super_map by (rule map_of_SomeD)
  with i that show thesis by auto
qed

lemma super_vector:
  fixes js defines "v \<equiv> \<lambda>korder. superJournalOutputVectorPrepareOutput korder js (superJournalOutputVectorGenerateOutputVector js)"
  assumes "korder_ok korder"
  shows "ov_ok (\<lambda>_. True) (v korder)" and "latest (ov_entries (v korder)) = latest js"
    and "distinct (map sbj_Off (ov_entries (v korder)))" and "set (ov_entries (v korder)) \<subseteq> set js"
proof -
  let ?ks = "korder (kh_keys (map sbj_Off js))" and ?m = "superJournalOutputVectorGenerateOutputVector js"
  have ks: "mset ?ks = mset (kh_keys (map sbj_Off js))"
    using assms(2) by (simp add: korder_ok_def)
  have set: "set ?ks = sbj_Off ` set js"
    using mset_eq_setD [OF ks] by (simp add: kh_keys)
  have dist: "distinct ?ks"
    using mset_eq_imp_distinct_iff [OF ks] by (simp add: kh_keys)
  show "ov_ok (\<lambda>_. True) (v korder)"
    using mset_eq_length [OF ks] by (simp add: v_def ov_ok_def superJournalOutputVectorPrepareOutput_def Let_def list_all_iff)
  have ents: "ov_entries (v korder) = map (\<lambda>k. js ! the (?m k)) ?ks"
    by (simp add: v_def ov_entries_def superJournalOutputVectorPrepareOutput_def Let_def)
  have at: "\<exists>i. ?m k = Some i" "the (?m k) < length js" "sbj_Off (js ! the (?m k)) = k" if "k \<in> set ?ks" for k
    using that unfolding set by (rule super_map_dom, simp)+
  have offs: "map sbj_Off (ov_entries (v korder)) = ?ks"
    unfolding ents by (simp add: at(3) map_idI)
  with dist show "distinct (map sbj_Off (ov_entries (v korder)))" by simp
  show "set (ov_entries (v korder)) \<subseteq> set js"
    unfolding ents using at(2) by auto
  show "latest (ov_entries (v korder)) = latest js"
  proof
    fix k
    show "latest (ov_entries (v korder)) k = latest js k"
    proof (cases "k \<in> set ?ks")
      case True
      have "(k, sbj_newVal (js ! the (?m k))) \<in> set (rev (map (\<lambda>e. (sbj_Off e, sbj_newVal e)) (ov_entries (v korder))))"
        unfolding ents using True at(3) [OF True] by (auto intro!: image_eqI [of _ _ k])
      moreover have "distinct (map fst (rev (map (\<lambda>e. (sbj_Off e, sbj_newVal e)) (ov_entries (v korder)))))"
        using offs dist by (simp add: rev_map [symmetric] comp_def)
      ultimately have "latest (ov_entries (v korder)) k = Some (sbj_newVal (js ! the (?m k)))"
        unfolding latest_def by simp
      then show ?thesis
        using at(1) [OF True] by (auto simp: super_map_latest [of js])
    next
      case False
      then have "latest (ov_entries (v korder)) k = None"
        unfolding latest_def using False arg_cong [OF offs, of set] by (auto simp: map_of_eq_None_iff image_image)
      moreover have "latest js k = None"
        unfolding latest_def using False set by (auto simp: map_of_eq_None_iff image_image)
      ultimately show ?thesis by simp
    qed
  qed
qed

lemma kb_vector:
  assumes "2 \<le> t"
  shows "mset (map snd (kb_inorder (fold (\<lambda>k r. kb_put t r k) (map (\<lambda>i. (f i, i)) [0..<n]) kb_init))) = mset [0..<n]"
proof -
  have "kb_wf t kb_init"
    by (simp add: kb_init_def)
  from kb_puts_spec [OF this assms, of "map (\<lambda>i. (f i, i)) [0..<n]"]
  have "mset (kb_inorder (fold (\<lambda>k r. kb_put t r k) (map (\<lambda>i. (f i, i)) [0..<n]) kb_init)) = mset (map (\<lambda>i. (f i, i)) [0..<n])"
    by (simp add: kb_init_def)
  then have "image_mset snd (mset (kb_inorder (fold (\<lambda>k r. kb_put t r k) (map (\<lambda>i. (f i, i)) [0..<n]) kb_init))) =
      image_mset snd (mset (map (\<lambda>i. (f i, i)) [0..<n]))"
    by simp
  then show ?thesis by (simp add: image_mset.compositionality comp_def)
qed

lemma index_vector:
  assumes "mset ix = mset [0..<length js]" and "list_all ok js"
  shows "list_all (\<lambda>i. ok (js ! i)) ix" and "mset (map (\<lambda>i. js ! i) ix) = mset js"
proof -
  have "set ix = {0..<length js}"
    using mset_eq_setD [OF assms(1)] by simp
  then show "list_all (\<lambda>i. ok (js ! i)) ix"
    using assms(2) by (auto simp: list_all_iff)
  have "mset (map (\<lambda>i. js ! i) ix) = mset (map (\<lambda>i. js ! i) [0..<length js])"
    using assms(1) by simp
  then show "mset (map (\<lambda>i. js ! i) ix) = mset js"
    by (simp only: map_nth)
qed

lemma nat_vector:
  fixes js t
  assumes "2 \<le> t"
  defines "v \<equiv> natJournalOutputVectorPrepareOutput js (natJournalOutputVectorGenerateOutputVector t js)"
  shows "ov_ok (\<lambda>_. True) v" and "mset (ov_entries v) = mset js"
  using index_vector [OF kb_vector [OF assms(1), of "\<lambda>i. nj_nid (js ! i)" "length js"], of "\<lambda>_. True"]
  by (simp_all add: v_def ov_ok_def ov_entries_def natJournalOutputVectorPrepareOutput_def
      natJournalOutputVectorGenerateOutputVector_def list_all_iff)

lemma sit_vector:
  fixes js t
  assumes "2 \<le> t" and "list_all sitj_ok js"
  defines "v \<equiv> sitJournalOutputVectorPrepareOutput js (sitJournalOutputVectorGenerateOutputVector t js)"
  shows "ov_ok sitj_ok v" and "mset (ov_entries v) = mset js"
  using index_vector [OF kb_vector [OF assms(1), of "\<lambda>i. sj_segID (js ! i)" "length js"] assms(2)]
  by (simp_all add: v_def ov_ok_def ov_entries_def sitJournalOutputVectorPrepareOutput_def
      sitJournalOutputVectorGenerateOutputVector_def)

subsection \<open>The whole transaction\<close>

lemma jtx_append: "list_all2 jfull bs its \<Longrightarrow> jtx bs' its' \<Longrightarrow> jtx (bs @ bs') (concat its @ its')"
  by (induction rule: list_all2_induct) (auto intro: jtx_more)

lemma append_end:
  assumes "jw_inv w its"
  shows "jtx (take (1 + jw_bufferTailIdx (journalWriterAppendEndEntry fresh w)) (jw_journalBuffer (journalWriterAppendEndEntry fresh w))) its
    \<and> 1 + jw_bufferTailIdx (journalWriterAppendEndEntry fresh w) \<le> length (jw_journalBuffer (journalWriterAppendEndEntry fresh w))
    \<and> jw_frame (journalWriterAppendEndEntry fresh w) = jw_frame w"
proof -
  obtain w1 b full cur where g: "journalWriterGetIthBufferBlock fresh w (jw_bufferTailIdx w) = (w1, b)"
    and its: "its = concat full @ cur" and fl: "list_all2 jfull (take (jw_bufferTailIdx w) (jw_journalBuffer w1)) full"
    and il: "jw_bufferTailIdx w < length (jw_journalBuffer w1)" and b: "jw_journalBuffer w1 ! jw_bufferTailIdx w = b"
    and seg: "jseg b 0 (jw_bufferTailOff w) cur" and w1: "w1 = w\<lparr>jw_journalBuffer := jw_journalBuffer w1\<rparr>"
    by (rule jw_get_block [OF assms])
  have idx: "jw_bufferTailIdx w1 = jw_bufferTailIdx w" "jw_bufferTailOff w1 = jw_bufferTailOff w" "jw_frame w1 = jw_frame w"
    by (subst w1, simp add: jw_frame_def)+
  let ?b = "putHeader b (jw_bufferTailOff w) \<lparr>mj_len = 4, mj_type = JOURNAL_TYPE_END, mj_rsv = 0\<rparr>"
  have e: "journalWriterAppendEndEntry fresh w = jw_store w1 (jw_bufferTailIdx w) ?b"
    by (simp add: journalWriterAppendEndEntry_def g idx)
  have "jw_bufferTailOff w + 4 \<le> 4096"
    using assms by (auto simp: jw_inv_def)
  then have "record_at ?b (jw_bufferTailOff w) JOURNAL_TYPE_END 4"
    by (simp add: record_at_def chdr.cget_cput)
  moreover have "jseg ?b 0 (jw_bufferTailOff w) cur"
    using seg by (rule jseg_local) (simp add: chdr.cput_frame)
  ultimately have "jtx [?b] cur"
    by (intro jtx_last)
  from jtx_append [OF fl this] have
    "jtx (take (jw_bufferTailIdx w) (jw_journalBuffer w1) @ [?b]) its"
    by (simp add: its)
  moreover have "take (Suc (jw_bufferTailIdx w)) ((jw_journalBuffer w1)[jw_bufferTailIdx w := ?b]) =
      take (jw_bufferTailIdx w) (jw_journalBuffer w1) @ [?b]"
    using il by (simp add: take_Suc_conv_app_nth)
  ultimately show ?thesis
    using il idx unfolding e by (simp add: jw_store_def jw_frame_def)
qed

lemma entries_of_map [simp]:
  "supers_of (map JSuper ess) = concat ess" "nats_of (map JSuper ess) = []" "sits_of (map JSuper ess) = []"
  "supers_of (map JNat ess') = []" "nats_of (map JNat ess') = concat ess'" "sits_of (map JNat ess') = []"
  "supers_of (map JSit ess'') = []" "nats_of (map JSit ess'') = []" "sits_of (map JSit ess'') = concat ess''"
  by (simp_all add: supers_of_def nats_of_def sits_of_def comp_def)

lemma collect_correct:
  assumes "jw_curJournal w = Some j" and "korder_ok korder" and "2 \<le> t" and "list_all sitj_ok (sitJournal j)"
  obtains w' its where "journalWriterCollectPendingJournalToWriteBuffer fresh korder t w = Some (1 + jw_bufferTailIdx w', w')"
    and "jtx (take (1 + jw_bufferTailIdx w') (jw_journalBuffer w')) its"
    and "1 + jw_bufferTailIdx w' \<le> length (jw_journalBuffer w')" and "jw_frame w' = jw_frame w"
    and "supers_of its = ov_entries (superJournalOutputVectorPrepareOutput korder (superBlockJournal j)
      (superJournalOutputVectorGenerateOutputVector (superBlockJournal j)))"
    and "nats_of its = ov_entries (natJournalOutputVectorPrepareOutput (natJournal j)
      (natJournalOutputVectorGenerateOutputVector t (natJournal j)))"
    and "sits_of its = ov_entries (sitJournalOutputVectorPrepareOutput (sitJournal j)
      (sitJournalOutputVectorGenerateOutputVector t (sitJournal j)))"
proof -
  let ?w0 = "w\<lparr>jw_bufferTailIdx := 0, jw_bufferTailOff := 0\<rparr>"
  obtain w1 ess1 where 1: "journalWriterOutputLoop fresh superJournalOutputVectorOutputToBuffer ?w0
      (superJournalOutputVectorPrepareOutput korder (superBlockJournal j)
        (superJournalOutputVectorGenerateOutputVector (superBlockJournal j))) = Some w1"
    "jw_inv w1 ([] @ map JSuper ess1)" "concat ess1 = ov_entries (superJournalOutputVectorPrepareOutput korder (superBlockJournal j)
      (superJournalOutputVectorGenerateOutputVector (superBlockJournal j)))" "jw_frame w1 = jw_frame ?w0"
    using jsuper.output_loop [OF jw_inv_start super_vector(1) [OF assms(2)]]
    unfolding superJournalOutputVectorOutputToBuffer_def by blast
  obtain w2 ess2 where 2: "journalWriterOutputLoop fresh natJournalOutputVectorOutputToBuffer w1
      (natJournalOutputVectorPrepareOutput (natJournal j)
        (natJournalOutputVectorGenerateOutputVector t (natJournal j))) = Some w2"
    "jw_inv w2 (([] @ map JSuper ess1) @ map JNat ess2)" "concat ess2 = ov_entries (natJournalOutputVectorPrepareOutput (natJournal j)
      (natJournalOutputVectorGenerateOutputVector t (natJournal j)))" "jw_frame w2 = jw_frame w1"
    using jnat.output_loop [OF 1(2) nat_vector(1) [OF assms(3)]]
    unfolding natJournalOutputVectorOutputToBuffer_def by blast
  obtain w3 ess3 where 3: "journalWriterOutputLoop fresh sitJournalOutputVectorOutputToBuffer w2
      (sitJournalOutputVectorPrepareOutput (sitJournal j)
        (sitJournalOutputVectorGenerateOutputVector t (sitJournal j))) = Some w3"
    "jw_inv w3 ((([] @ map JSuper ess1) @ map JNat ess2) @ map JSit ess3)" "concat ess3 = ov_entries (sitJournalOutputVectorPrepareOutput (sitJournal j)
      (sitJournalOutputVectorGenerateOutputVector t (sitJournal j)))" "jw_frame w3 = jw_frame w2"
    using jsit.output_loop [OF 2(2) sit_vector(1) [OF assms(3,4)]]
    unfolding sitJournalOutputVectorOutputToBuffer_def by blast
  show thesis
  proof (rule that [of "journalWriterAppendEndEntry fresh w3" "(([] @ map JSuper ess1) @ map JNat ess2) @ map JSit ess3"])
    show "journalWriterCollectPendingJournalToWriteBuffer fresh korder t w =
        Some (1 + jw_bufferTailIdx (journalWriterAppendEndEntry fresh w3), journalWriterAppendEndEntry fresh w3)"
      using assms(1) by (simp add: journalWriterCollectPendingJournalToWriteBuffer_def 1(1) 2(1) 3(1) Let_def)
  qed (use append_end [OF 3(2), of fresh] 1(3,4) 2(3,4) 3(3,4) in \<open>auto simp: jw_frame_def\<close>)
qed

subsection \<open>Properties\<close>

text \<open>
  Claim C3. Collecting a pending journal always returns, and the blocks it reports are one well-formed
  transaction: full blocks of records (filled up with a NOP record where needed) and a last block ended
  by an END record. The super block entries in it are one per changed offset with the latest value, the
  NAT and SIT entries are those of the container, in some order, none lost and none added.
\<close>

theorem journalWriterCollect_writes:
  assumes "jw_curJournal w = Some j" and "korder_ok korder" and "2 \<le> t" and "list_all sitj_ok (sitJournal j)"
  shows "\<exists>n w' its. journalWriterCollectPendingJournalToWriteBuffer fresh korder t w = Some (n, w') \<and>
    n = 1 + jw_bufferTailIdx w' \<and> jtx (take n (jw_journalBuffer w')) its \<and>
    distinct (map sbj_Off (supers_of its)) \<and> latest (supers_of its) = latest (superBlockJournal j) \<and>
    mset (nats_of its) = mset (natJournal j) \<and> mset (sits_of its) = mset (sitJournal j)"
proof -
  obtain w' its where c: "journalWriterCollectPendingJournalToWriteBuffer fresh korder t w = Some (1 + jw_bufferTailIdx w', w')"
    "jtx (take (1 + jw_bufferTailIdx w') (jw_journalBuffer w')) its"
    and e: "supers_of its = ov_entries (superJournalOutputVectorPrepareOutput korder (superBlockJournal j)
      (superJournalOutputVectorGenerateOutputVector (superBlockJournal j)))"
    "nats_of its = ov_entries (natJournalOutputVectorPrepareOutput (natJournal j)
      (natJournalOutputVectorGenerateOutputVector t (natJournal j)))"
    "sits_of its = ov_entries (sitJournalOutputVectorPrepareOutput (sitJournal j)
      (sitJournalOutputVectorGenerateOutputVector t (sitJournal j)))"
    by (rule collect_correct [OF assms])
  show ?thesis
    by (rule exI [of _ "1 + jw_bufferTailIdx w'"], rule exI [of _ w'], rule exI [of _ its])
      (use c super_vector(2,3) [OF assms(2)] nat_vector(2) [OF assms(3)] sit_vector(2) [OF assms(3,4)] in \<open>simp add: e\<close>)
qed

lemma journalWriterCollect_writes_witness:
  "\<exists>n w'. journalWriterCollectPendingJournalToWriteBuffer (\<lambda>_. zero_block) rev 10
     (journalWriterSetPendingJournal (journalWriterInit 40 60) journalContainerInit) = Some (n, w')"
  using journalWriterCollect_writes [of "journalWriterSetPendingJournal (journalWriterInit 40 60) journalContainerInit"
      journalContainerInit rev 10 "\<lambda>_. zero_block"]
  by (auto simp: journalWriterSetPendingJournal_def korder_ok_def journalContainerInit_def)

text \<open>
  The number of entries put into the rest of a block is the largest one not above the wish
  that either fills the rest exactly or leaves room for a NOP header, and 0 if there is none.
\<close>

theorem genericCalculateWritableEntryNum_maximal:
  assumes "0 < entrySize"
  shows "genericCalculateWritableEntryNum bufferSize entrySize expected =
    (if \<exists>k \<le> expected. feasible bufferSize entrySize k
     then Max {k. k \<le> expected \<and> feasible bufferSize entrySize k} else 0)"
proof (cases "\<exists>k \<le> expected. feasible bufferSize entrySize k")
  case True
  let ?r = "genericCalculateWritableEntryNum bufferSize entrySize expected"
  note c = calc_max [OF assms, where bs = bufferSize and n = expected]
  obtain k where k: "k \<le> expected" "feasible bufferSize entrySize k"
    using True by blast
  have "feasible bufferSize entrySize ?r"
    using c(2) c(3) [OF k] k(2) by auto
  then have "Max {k. k \<le> expected \<and> feasible bufferSize entrySize k} = ?r"
    using c(1,3) by (intro Max_eqI) auto
  with True show ?thesis by simp
next
  case False
  then show ?thesis
    using calc_max(1,2) [OF assms, of bufferSize expected] by auto
qed

lemma genericCalculateWritableEntryNum_maximal_witness:
  "genericCalculateWritableEntryNum 4096 72 1000 = (if \<exists>k \<le> 1000. feasible 4096 72 k
     then Max {k. k \<le> 1000 \<and> feasible 4096 72 k} else 0)"
  by (rule genericCalculateWritableEntryNum_maximal) simp

text \<open>
  Claim C37. The B-tree keeps every NAT entry put under one nid, and an equal key is inserted behind the
  first one: of three journalled updates of a nid the second is the last one written to the journal, so
  replaying the journal leaves the value of the second update, not of the third.
\<close>

theorem natJournal_replays_stale_value:
  assumes "2 \<le> t" and "js = [\<lparr>nj_nid = n, nj_newValue = v1\<rparr>, \<lparr>nj_nid = n, nj_newValue = v2\<rparr>, \<lparr>nj_nid = n, nj_newValue = v3\<rparr>]"
  shows "nat_apply js T n = v3 \<and>
    nat_apply (ov_entries (natJournalOutputVectorPrepareOutput js (natJournalOutputVectorGenerateOutputVector t js))) T n = v2"
proof -
  have "t \<noteq> 1" "2 * t - 1 \<noteq> 0" "2 * t - 1 \<noteq> 1" "2 * t - 1 \<noteq> 2"
    using assms(1) by auto
  then have "kb_inorder (natJournalOutputVectorGenerateOutputVector t js) = [(n, 0), (n, 2), (n, 1)]"
    by (simp add: natJournalOutputVectorGenerateOutputVector_def assms(2) kb_init_def kb_put_def kb_slot_def
        kb_lower.simps upt_rec numeral_2_eq_2)
  then show ?thesis
    by (simp add: natJournalOutputVectorPrepareOutput_def ov_entries_def assms(2))
qed

lemma natJournal_replays_stale_value_witness:
  "let js = [\<lparr>nj_nid = 7, nj_newValue = \<lparr>nat_ino = 7, nat_block_addr = 11\<rparr>\<rparr>,
       \<lparr>nj_nid = 7, nj_newValue = \<lparr>nat_ino = 7, nat_block_addr = 12\<rparr>\<rparr>, \<lparr>nj_nid = 7, nj_newValue = \<lparr>nat_ino = 7, nat_block_addr = 13\<rparr>\<rparr>] in
   nat_apply js (\<lambda>_. \<lparr>nat_ino = 0, nat_block_addr = 0\<rparr>) 7 = \<lparr>nat_ino = 7, nat_block_addr = 13\<rparr> \<and>
   nat_apply (ov_entries (natJournalOutputVectorPrepareOutput js (natJournalOutputVectorGenerateOutputVector 10 js)))
     (\<lambda>_. \<lparr>nat_ino = 0, nat_block_addr = 0\<rparr>) 7 = \<lparr>nat_ino = 7, nat_block_addr = 12\<rparr>"
  unfolding Let_def by (rule natJournal_replays_stale_value) simp_all

end
