(* ===== verification/Journal_Recovery.thy ===== *)
theory Journal_Recovery
  imports Journal_Writer
begin

unbundle bit_operations_syntax

text \<open>
  Crash recovery, \<^verbatim>\<open>src/src/communication/comm_api.c\<close>: the journal is scanned from the recorded end, each
  complete transaction is applied to the super block and to copies of the NAT and SIT blocks it
  touches, committed by writing the dirty copies, and the file blocks it made obsolete are recorded
  for reclaim. Errors are \<open>Inl\<close> of the errno; the transaction state is dropped on an error, as in the
  source. \<^verbatim>\<open>malloc\<close> does not fail.
\<close>

subsection \<open>Blocks of the device\<close>

definition comm_recovery_read_lpa :: "comm_dev \<Rightarrow> u32 \<Rightarrow> rc \<times> block" where
  "comm_recovery_read_lpa dev lpa = comm_read dev (LPA_TO_LBA32 lpa)"

definition comm_recovery_write_lpa :: "comm_dev \<Rightarrow> u32 \<Rightarrow> block \<Rightarrow> rc \<times> comm_dev" where
  "comm_recovery_write_lpa dev lpa b = comm_write dev (LPA_TO_LBA32 lpa) b"

definition comm_recovery_next_journal_lpa :: "u64 \<Rightarrow> u64 \<Rightarrow> u64 \<Rightarrow> u64" where
  "comm_recovery_next_journal_lpa cur s e = (if cur + 1 \<ge> e then s else cur + 1)"

subsection \<open>The state of a transaction\<close>

record comm_recovery_block =
  rb_lpa :: u32
  rb_dirty :: bool
  rb_data :: block

record comm_recovery_tx_state =
  tx_super_block :: block
  tx_blocks :: "comm_recovery_block list"
  tx_reclaim_data_lpas :: "u32 list"
  tx_reclaim_node_lpas :: "u32 list"

definition comm_recovery_tx_state_init :: "block \<Rightarrow> comm_recovery_tx_state" where
  "comm_recovery_tx_state_init sb =
     \<lparr>tx_super_block = sb, tx_blocks = [], tx_reclaim_data_lpas = [], tx_reclaim_node_lpas = []\<rparr>"

definition comm_recovery_lpa_vector_append_unique :: "u32 list \<Rightarrow> u32 \<Rightarrow> u32 list" where
  "comm_recovery_lpa_vector_append_unique vec lpa =
     (if lpa = INVALID_LPA then vec else if lpa \<in> set vec then vec else vec @ [lpa])"

text \<open>
  A block of the state is found by its LPA; a block that is not there is read and put in front. The
  store through the returned pointer is \<open>tx_store\<close>.
\<close>

definition tx_find :: "comm_recovery_tx_state \<Rightarrow> u32 \<Rightarrow> comm_recovery_block option" where
  "tx_find st lpa = find (\<lambda>b. rb_lpa b = lpa) (tx_blocks st)"

definition comm_recovery_tx_get_block ::
  "comm_dev \<Rightarrow> comm_recovery_tx_state \<Rightarrow> u32 \<Rightarrow> rc + comm_recovery_tx_state \<times> block" where
  "comm_recovery_tx_get_block dev st lpa =
     (case tx_find st lpa of
        Some b \<Rightarrow> Inr (st, rb_data b)
      | None \<Rightarrow> (case comm_recovery_read_lpa dev lpa of (r, b) \<Rightarrow>
          if r \<noteq> RC0 then Inl r
          else Inr (st\<lparr>tx_blocks := \<lparr>rb_lpa = lpa, rb_dirty = False, rb_data = b\<rparr> # tx_blocks st\<rparr>, b)))"

definition tx_store :: "comm_recovery_tx_state \<Rightarrow> u32 \<Rightarrow> block \<Rightarrow> comm_recovery_tx_state" where
  "tx_store st lpa b = st\<lparr>tx_blocks :=
     map (\<lambda>x. if rb_lpa x = lpa then x\<lparr>rb_data := b, rb_dirty := True\<rparr> else x) (tx_blocks st)\<rparr>"

subsection \<open>Applying entries\<close>

fun comm_recovery_apply_super_entries ::
  "comm_recovery_tx_state \<Rightarrow> SuperBlockJournalEntry list \<Rightarrow> rc + comm_recovery_tx_state" where
  "comm_recovery_apply_super_entries st [] = Inr st"
| "comm_recovery_apply_super_entries st (e # es) =
     (let off = unat (sbj_Off e) in
      if off + 4 > 4096 then Inl EIO
      else comm_recovery_apply_super_entries (st\<lparr>tx_super_block := put32 (tx_super_block st) off (sbj_newVal e)\<rparr>) es)"

text \<open>\<^verbatim>\<open>i_inline\<close> is byte 2 of an inode block, \<^verbatim>\<open>i_addr\<close> starts at byte 332.\<close>

definition node_inline :: "block \<Rightarrow> bool" where
  "node_inline b \<longleftrightarrow> b 2 AND (2 OR 4) \<noteq> 0"

definition node_addr :: "block \<Rightarrow> nat \<Rightarrow> u32" where
  "node_addr b i = get32 b (332 + 4 * i)"

definition comm_recovery_collect_inode_data_reclaim ::
  "comm_dev \<Rightarrow> comm_recovery_tx_state \<Rightarrow> u32 \<Rightarrow> u32 \<Rightarrow> rc + comm_recovery_tx_state" where
  "comm_recovery_collect_inode_data_reclaim dev st old_inode_lpa new_inode_lpa =
     (if old_inode_lpa = INVALID_LPA then Inl EINVAL
      else case comm_recovery_read_lpa dev old_inode_lpa of (r, old_node) \<Rightarrow>
        if r \<noteq> RC0 then Inl r
        else if node_inline old_node then Inr st
        else let main_start_lpa = get32 (tx_super_block st) SB_main_blkaddr;
                 block_count = get64 (tx_super_block st) SB_block_count;
                 (r', new_node) = (if new_inode_lpa \<noteq> INVALID_LPA then comm_recovery_read_lpa dev new_inode_lpa
                                   else (RC0, zero_block)) in
          if r' \<noteq> RC0 then Inl r'
          else let new_inline = (new_inode_lpa \<noteq> INVALID_LPA \<and> node_inline new_node) in
            Inr (st\<lparr>tx_reclaim_data_lpas := fold (\<lambda>i vec.
                 let old_data_lpa = node_addr old_node i;
                     new_data_lpa = (if new_inode_lpa \<noteq> INVALID_LPA \<and> \<not> new_inline then node_addr new_node i
                                     else INVALID_LPA) in
                 if old_data_lpa \<noteq> INVALID_LPA \<and> old_data_lpa \<noteq> new_data_lpa \<and> old_data_lpa \<ge> main_start_lpa \<and>
                    (ucast old_data_lpa :: u64) < block_count
                 then comm_recovery_lpa_vector_append_unique vec old_data_lpa else vec)
               [0..<932] (tx_reclaim_data_lpas st)\<rparr>))"

definition comm_recovery_record_nat_reclaim ::
  "comm_dev \<Rightarrow> comm_recovery_tx_state \<Rightarrow> u32 \<Rightarrow> RtfsNatEntry \<Rightarrow> RtfsNatEntry \<Rightarrow> rc + comm_recovery_tx_state" where
  "comm_recovery_record_nat_reclaim dev st nid old_entry new_entry =
     (if nat_ino old_entry = INVALID_NID \<or> nat_block_addr old_entry = INVALID_LPA \<or>
         nat_block_addr old_entry < get32 (tx_super_block st) SB_main_blkaddr \<or>
         (ucast (nat_block_addr old_entry) :: u64) \<ge> get64 (tx_super_block st) SB_block_count \<or>
         nat_block_addr old_entry = nat_block_addr new_entry
      then Inr st
      else let st' = st\<lparr>tx_reclaim_node_lpas :=
                 comm_recovery_lpa_vector_append_unique (tx_reclaim_node_lpas st) (nat_block_addr old_entry)\<rparr> in
        if nat_ino old_entry \<noteq> nid then Inr st'
        else comm_recovery_collect_inode_data_reclaim dev st' (nat_block_addr old_entry) (nat_block_addr new_entry))"

text \<open>The number of NAT (SIT) blocks is computed once per record, before its entries.\<close>

fun apply_nat_loop ::
  "comm_dev \<Rightarrow> u64 \<Rightarrow> comm_recovery_tx_state \<Rightarrow> NatJournalEntry list \<Rightarrow> rc + comm_recovery_tx_state" where
  "apply_nat_loop dev nat_block_count st [] = Inr st"
| "apply_nat_loop dev nat_block_count st (e # es) =
     (let nat_lpa_idx = (ucast (nj_nid e) :: u64) div ucast NAT_ENTRY_PER_BLOCK in
      if nat_lpa_idx \<ge> nat_block_count then Inl EIO
      else let lpa = get32 (tx_super_block st) SB_nat_blkaddr + ucast nat_lpa_idx;
               entry_idx = nj_nid e mod NAT_ENTRY_PER_BLOCK in
        case comm_recovery_tx_get_block dev st lpa of
          Inl r \<Rightarrow> Inl r
        | Inr (st1, b) \<Rightarrow>
            (case comm_recovery_record_nat_reclaim dev st1 (nj_nid e) (getNatEntry b (unat entry_idx * 8)) (nj_newValue e) of
               Inl r \<Rightarrow> Inl r
             | Inr st2 \<Rightarrow> apply_nat_loop dev nat_block_count
                 (tx_store st2 lpa (putNatEntry b (unat entry_idx * 8) (nj_newValue e))) es))"

definition comm_recovery_apply_nat_entries ::
  "comm_dev \<Rightarrow> comm_recovery_tx_state \<Rightarrow> NatJournalEntry list \<Rightarrow> rc + comm_recovery_tx_state" where
  "comm_recovery_apply_nat_entries dev st es =
     apply_nat_loop dev (ucast (get32 (tx_super_block st) SB_segment_count_nat) * 512) st es"

fun apply_sit_loop ::
  "comm_dev \<Rightarrow> u64 \<Rightarrow> comm_recovery_tx_state \<Rightarrow> SitJournalEntry list \<Rightarrow> rc + comm_recovery_tx_state" where
  "apply_sit_loop dev sit_block_count st [] = Inr st"
| "apply_sit_loop dev sit_block_count st (e # es) =
     (let sit_lpa_idx = (ucast (sj_segID e) :: u64) div ucast SIT_ENTRY_PER_BLOCK in
      if sit_lpa_idx \<ge> sit_block_count then Inl EIO
      else let lpa = get32 (tx_super_block st) SB_sit_blkaddr + ucast sit_lpa_idx;
               entry_idx = sj_segID e mod SIT_ENTRY_PER_BLOCK in
        case comm_recovery_tx_get_block dev st lpa of
          Inl r \<Rightarrow> Inl r
        | Inr (st1, b) \<Rightarrow> apply_sit_loop dev sit_block_count
            (tx_store st1 lpa (putSitEntry b (unat entry_idx * 68) (sj_newValue e))) es)"

definition comm_recovery_apply_sit_entries ::
  "comm_dev \<Rightarrow> comm_recovery_tx_state \<Rightarrow> SitJournalEntry list \<Rightarrow> rc + comm_recovery_tx_state" where
  "comm_recovery_apply_sit_entries dev st es =
     apply_sit_loop dev (ucast (get32 (tx_super_block st) SB_segment_count_sit) * 512) st es"

subsection \<open>Commit\<close>

fun commit_blocks :: "comm_dev \<Rightarrow> comm_recovery_block list \<Rightarrow> rc \<times> comm_dev" where
  "commit_blocks dev [] = (RC0, dev)"
| "commit_blocks dev (b # bs) =
     (if \<not> rb_dirty b then commit_blocks dev bs
      else case comm_recovery_write_lpa dev (rb_lpa b) (rb_data b) of (r, dev') \<Rightarrow>
        if r \<noteq> RC0 then (r, dev') else commit_blocks dev' bs)"

text \<open>The super block the transaction leaves is \<open>tx_super_block\<close>; it is returned, not written.\<close>

definition comm_recovery_commit_tx :: "comm_dev \<Rightarrow> comm_recovery_tx_state \<Rightarrow> rc \<times> comm_dev" where
  "comm_recovery_commit_tx dev st = commit_blocks dev (tx_blocks st)"

definition comm_recovery_append_reclaim_record :: "comm_dev \<Rightarrow> comm_recovery_tx_state \<Rightarrow> comm_dev" where
  "comm_recovery_append_reclaim_record dev st =
     (if tx_reclaim_data_lpas st = [] \<and> tx_reclaim_node_lpas st = [] then dev
      else dev\<lparr>recoveredReclaim := recoveredReclaim dev @ [(tx_reclaim_data_lpas st, tx_reclaim_node_lpas st)]\<rparr>)"

subsection \<open>Scanning\<close>

text \<open>
  The inner loop over the records of one block: it runs off the block (\<open>BlockDone\<close>), meets an END
  record (\<open>TxEnd\<close>), or leaves the function with a return value (\<open>TxStop\<close>; 0 for a malformed record).
\<close>

datatype scan_result = BlockDone comm_recovery_tx_state | TxEnd comm_recovery_tx_state | TxStop rc

function scan_block :: "comm_dev \<Rightarrow> comm_recovery_tx_state \<Rightarrow> block \<Rightarrow> nat \<Rightarrow> scan_result" where
  "scan_block dev st b off =
     (if off + 4 > 4096 then BlockDone st
      else let len = unat (mj_len (getHeader b off)); type = mj_type (getHeader b off); payload_len = len - 4 in
        if len = 0 then TxStop RC0
        else if len < 4 \<or> off + len > 4096 then TxStop RC0
        else if type = JOURNAL_TYPE_SUPER_BLOCK then
          (if payload_len mod 8 \<noteq> 0 then TxStop RC0
           else case comm_recovery_apply_super_entries st (get_list getSuperJ 8 b (off + 4) (payload_len div 8)) of
             Inl r \<Rightarrow> TxStop r | Inr st' \<Rightarrow> scan_block dev st' b (off + len))
        else if type = JOURNAL_TYPE_NATS then
          (if payload_len mod 12 \<noteq> 0 then TxStop RC0
           else case comm_recovery_apply_nat_entries dev st (get_list getNatJ 12 b (off + 4) (payload_len div 12)) of
             Inl r \<Rightarrow> TxStop r | Inr st' \<Rightarrow> scan_block dev st' b (off + len))
        else if type = JOURNAL_TYPE_SITS then
          (if payload_len mod 72 \<noteq> 0 then TxStop RC0
           else case comm_recovery_apply_sit_entries dev st (get_list getSitJ 72 b (off + 4) (payload_len div 72)) of
             Inl r \<Rightarrow> TxStop r | Inr st' \<Rightarrow> scan_block dev st' b (off + len))
        else if type = JOURNAL_TYPE_NOP then BlockDone st
        else if type = JOURNAL_TYPE_END then (if len \<noteq> 4 then TxStop RC0 else TxEnd st)
        else TxStop RC0)"
  by pat_completeness auto
termination
  by (relation "measure (\<lambda>(_, _, _, off). 4096 - off)") auto

declare scan_block.simps [simp del]

text \<open>
  The outer loop over the blocks; \<open>n\<close> is \<^verbatim>\<open>journal_size - scanned_blocks\<close>. The result is the return
  value, the device, and for a committed transaction the end LPA and the super block.
\<close>

fun replay_blocks ::
  "comm_dev \<Rightarrow> comm_recovery_tx_state \<Rightarrow> nat \<Rightarrow> u64 \<Rightarrow> u64 \<Rightarrow> u64 \<Rightarrow> rc \<times> comm_dev \<times> (u64 \<times> block) option" where
  "replay_blocks dev st 0 cur s e = (RC0, dev, None)"
| "replay_blocks dev st (Suc n) cur s e =
     (case comm_recovery_read_lpa dev (ucast cur) of (r, b) \<Rightarrow>
        if r \<noteq> RC0 then (r, dev, None)
        else case scan_block dev st b 0 of
          BlockDone st' \<Rightarrow> replay_blocks dev st' n (comm_recovery_next_journal_lpa cur s e) s e
        | TxStop r' \<Rightarrow> (r', dev, None)
        | TxEnd st' \<Rightarrow> (case comm_recovery_commit_tx dev st' of (r', dev') \<Rightarrow>
            if r' \<noteq> RC0 then (r', dev', None)
            else (RC0, comm_recovery_append_reclaim_record dev' st',
                  Some (comm_recovery_next_journal_lpa cur s e, tx_super_block st'))))"

definition comm_recovery_replay_one_transaction ::
  "comm_dev \<Rightarrow> block \<Rightarrow> u64 \<Rightarrow> u64 \<Rightarrow> u64 \<Rightarrow> rc \<times> comm_dev \<times> (u64 \<times> block) option" where
  "comm_recovery_replay_one_transaction dev sb start s e =
     (if e - s = 0 then (EINVAL, dev, None)
      else replay_blocks dev (comm_recovery_tx_state_init sb) (unat (e - s)) start s e)"

text \<open>
  The \<^verbatim>\<open>while (true)\<close> loop over the transactions; not returning is \<open>None\<close>. The result is the return
  value, the device, the super block and the end of the committed transactions.
\<close>

partial_function (option) recover_loop ::
  "u64 \<Rightarrow> u64 \<Rightarrow> u64 \<Rightarrow> comm_dev \<Rightarrow> block \<Rightarrow> u64 \<Rightarrow> (rc \<times> comm_dev \<times> block \<times> u64) option" where
  "recover_loop s e scan_start dev sb scan =
     (case comm_recovery_replay_one_transaction dev sb scan s e of (r, dev', res) \<Rightarrow>
        if r \<noteq> RC0 then Some (r, dev', sb, scan)
        else case res of
          None \<Rightarrow> Some (RC0, dev', sb, scan)
        | Some (next, sb') \<Rightarrow>
            if next = scan_start then Some (RC0, dev', sb', next)
            else recover_loop s e scan_start dev' sb' next)"

definition comm_submit_fs_recover_from_db_request :: "comm_dev \<Rightarrow> (rc \<times> comm_dev) option" where
  "comm_submit_fs_recover_from_db_request dev0 =
     (let dev = commDevClearRecoveredReclaimRecords dev0 in
      case comm_recovery_read_lpa dev 0 of (r, sb) \<Rightarrow>
        if r \<noteq> RC0 then Some (r, commDevClearRecoveredReclaimRecords dev)
        else if get32 sb SB_magic \<noteq> RTFS_MAGIC_NUMBER then Some (EIO, commDevClearRecoveredReclaimRecords dev)
        else let s = ucast (get32 sb SB_meta_journal_blkaddr) :: u64;
                 e = s + ucast (get32 sb SB_segment_count_meta_journal) * 512;
                 journal_size = e - s in
          if journal_size = 0 then Some (EIO, commDevClearRecoveredReclaimRecords dev)
          else let scan_start = s + ucast (get16 sb SB_meta_journal_end_blkoff) mod journal_size in
            case recover_loop s e scan_start dev sb scan_start of
              None \<Rightarrow> None
            | Some (r', dev1, sb1, committed_end) \<Rightarrow>
                if r' \<noteq> RC0 then Some (r', commDevClearRecoveredReclaimRecords dev1)
                else let off = ucast ((committed_end - s) mod journal_size) :: u16;
                         sb2 = put16 (put16 sb1 SB_meta_journal_start_blkoff off) SB_meta_journal_end_blkoff off in
                  case comm_recovery_write_lpa dev1 0 sb2 of (r'', dev2) \<Rightarrow>
                    if r'' \<noteq> RC0 then Some (r'', commDevClearRecoveredReclaimRecords dev2)
                    else Some (RC0, dev2\<lparr>metaJournalStartLpa := s, metaJournalEndLpa := e,
                         metaJournalHeadLpa := committed_end, metaJournalTailLpa := committed_end\<rparr>))"

subsection \<open>What a transaction means\<close>

text \<open>
  The NAT and SIT entries of a journal as updates of the blocks of the device, for a fixed geometry:
  \<open>sb\<close> is the super block the recovery starts from, and only its first 92 bytes (the geometry) are used.
\<close>

definition nat_lpa :: "block \<Rightarrow> u32 \<Rightarrow> u32" where
  "nat_lpa sb nid = get32 sb SB_nat_blkaddr + nid div NAT_ENTRY_PER_BLOCK"

definition sit_lpa :: "block \<Rightarrow> u32 \<Rightarrow> u32" where
  "sit_lpa sb seg = get32 sb SB_sit_blkaddr + seg div SIT_ENTRY_PER_BLOCK"

definition nat_spec :: "block \<Rightarrow> NatJournalEntry list \<Rightarrow> (u32 \<Rightarrow> block) \<Rightarrow> u32 \<Rightarrow> block" where
  "nat_spec sb es view = fold (\<lambda>e v. v(nat_lpa sb (nj_nid e) :=
     putNatEntry (v (nat_lpa sb (nj_nid e))) (unat (nj_nid e mod NAT_ENTRY_PER_BLOCK) * 8) (nj_newValue e))) es view"

definition sit_spec :: "block \<Rightarrow> SitJournalEntry list \<Rightarrow> (u32 \<Rightarrow> block) \<Rightarrow> u32 \<Rightarrow> block" where
  "sit_spec sb es view = fold (\<lambda>e v. v(sit_lpa sb (sj_segID e) :=
     putSitEntry (v (sit_lpa sb (sj_segID e))) (unat (sj_segID e mod SIT_ENTRY_PER_BLOCK) * 68) (sj_newValue e))) es view"

fun item_spec :: "block \<Rightarrow> jitem \<Rightarrow> (u32 \<Rightarrow> block) \<Rightarrow> u32 \<Rightarrow> block" where
  "item_spec sb (JSuper es) view = view"
| "item_spec sb (JNat es) view = nat_spec sb es view"
| "item_spec sb (JSit es) view = sit_spec sb es view"

definition items_spec :: "block \<Rightarrow> jitem list \<Rightarrow> (u32 \<Rightarrow> block) \<Rightarrow> u32 \<Rightarrow> block" where
  "items_spec sb its view = fold (item_spec sb) its view"

text \<open>
  The blocks the recovery may touch: reads and writes of them succeed, and their LBA does not wrap.
\<close>

definition lpa_fine :: "comm_dev \<Rightarrow> u32 \<Rightarrow> bool" where
  "lpa_fine dev lpa \<longleftrightarrow> lpa < 0x20000000 \<and> dev_ok dev lpa"

definition in_main :: "block \<Rightarrow> u32 \<Rightarrow> bool" where
  "in_main sb lpa \<longleftrightarrow> get32 sb SB_main_blkaddr \<le> lpa \<and> (ucast lpa :: u64) < get64 sb SB_block_count"

definition super_entry_ok :: "SuperBlockJournalEntry \<Rightarrow> bool" where
  "super_entry_ok e \<longleftrightarrow> 92 \<le> unat (sbj_Off e) \<and> unat (sbj_Off e) + 4 \<le> 4096"

definition nat_entry_ok :: "comm_dev \<Rightarrow> block \<Rightarrow> NatJournalEntry \<Rightarrow> bool" where
  "nat_entry_ok dev sb e \<longleftrightarrow> unat (nj_nid e) div 512 < unat (get32 sb SB_segment_count_nat) * 512 \<and>
     lpa_fine dev (nat_lpa sb (nj_nid e)) \<and>
     (nat_block_addr (nj_newValue e) = INVALID_LPA \<or> dev_ok dev (nat_block_addr (nj_newValue e)))"

definition sit_entry_ok :: "comm_dev \<Rightarrow> block \<Rightarrow> SitJournalEntry \<Rightarrow> bool" where
  "sit_entry_ok dev sb e \<longleftrightarrow> unat (sj_segID e) div 60 < unat (get32 sb SB_segment_count_sit) * 512 \<and>
     lpa_fine dev (sit_lpa sb (sj_segID e))"

fun item_ok :: "comm_dev \<Rightarrow> block \<Rightarrow> jitem \<Rightarrow> bool" where
  "item_ok dev sb (JSuper es) \<longleftrightarrow> list_all super_entry_ok es"
| "item_ok dev sb (JNat es) \<longleftrightarrow> list_all (nat_entry_ok dev sb) es"
| "item_ok dev sb (JSit es) \<longleftrightarrow> list_all (sit_entry_ok dev sb) es"

subsection \<open>The invariant of the transaction state\<close>

definition tx_view :: "comm_dev \<Rightarrow> comm_recovery_tx_state \<Rightarrow> u32 \<Rightarrow> block" where
  "tx_view dev st lpa = (case tx_find st lpa of Some b \<Rightarrow> rb_data b | None \<Rightarrow> media dev (LPA_TO_LBA32 lpa))"

definition same_geometry :: "block \<Rightarrow> block \<Rightarrow> bool" where
  "same_geometry sb sb' \<longleftrightarrow> (\<forall>i < 92. sb i = sb' i)"

definition tx_inv :: "comm_dev \<Rightarrow> block \<Rightarrow> comm_recovery_tx_state \<Rightarrow> bool" where
  "tx_inv dev sb st \<longleftrightarrow> same_geometry sb (tx_super_block st) \<and> distinct (map rb_lpa (tx_blocks st)) \<and>
     (\<forall>b \<in> set (tx_blocks st). lpa_fine dev (rb_lpa b) \<and> (\<not> rb_dirty b \<longrightarrow> rb_data b = media dev (LPA_TO_LBA32 (rb_lpa b)))) \<and>
     distinct (tx_reclaim_data_lpas st) \<and> distinct (tx_reclaim_node_lpas st) \<and>
     (\<forall>l \<in> set (tx_reclaim_data_lpas st) \<union> set (tx_reclaim_node_lpas st). l \<noteq> INVALID_LPA \<and> in_main sb l)"

lemma same_geometry_fields:
  assumes "same_geometry sb sb'"
  shows "i + 4 \<le> 92 \<Longrightarrow> get32 sb' i = get32 sb i" and "i + 8 \<le> 92 \<Longrightarrow> get64 sb' i = get64 sb i"
  using assms by (auto simp: same_geometry_def intro!: c32.cget_local c64.cget_local)

lemma append_unique_spec:
  assumes "distinct vec" and "\<forall>l \<in> set vec. l \<noteq> INVALID_LPA \<and> in_main sb l" and "lpa \<noteq> INVALID_LPA \<Longrightarrow> in_main sb lpa"
  shows "distinct (comm_recovery_lpa_vector_append_unique vec lpa) \<and>
    (\<forall>l \<in> set (comm_recovery_lpa_vector_append_unique vec lpa). l \<noteq> INVALID_LPA \<and> in_main sb l)"
  using assms by (auto simp: comm_recovery_lpa_vector_append_unique_def)

lemma append_unique_fold:
  assumes "distinct vec" and "\<forall>l \<in> set vec. l \<noteq> INVALID_LPA \<and> in_main sb l"
    and "\<forall>i. P i \<longrightarrow> in_main sb (f i)"
  shows "distinct (fold (\<lambda>i vec. if P i then comm_recovery_lpa_vector_append_unique vec (f i) else vec) is vec) \<and>
    (\<forall>l \<in> set (fold (\<lambda>i vec. if P i then comm_recovery_lpa_vector_append_unique vec (f i) else vec) is vec).
       l \<noteq> INVALID_LPA \<and> in_main sb l)"
  using assms(1,2)
proof (induction "is" arbitrary: vec)
  case (Cons i "is")
  show ?case
  proof (cases "P i")
    case True
    then have "in_main sb (f i)" using assms(3) by simp
    from append_unique_spec [OF Cons.prems this] Cons.IH [of "comm_recovery_lpa_vector_append_unique vec (f i)"] True
    show ?thesis by simp
  next
    case False
    with Cons.IH [OF Cons.prems] show ?thesis by simp
  qed
qed simp

subsection \<open>Applying entries keeps the invariant\<close>

lemma spec_Cons:
  "nat_spec sb (e # es) view = nat_spec sb es (view(nat_lpa sb (nj_nid e) :=
     putNatEntry (view (nat_lpa sb (nj_nid e))) (unat (nj_nid e mod NAT_ENTRY_PER_BLOCK) * 8) (nj_newValue e)))"
  "sit_spec sb (s # ss) view = sit_spec sb ss (view(sit_lpa sb (sj_segID s) :=
     putSitEntry (view (sit_lpa sb (sj_segID s))) (unat (sj_segID s mod SIT_ENTRY_PER_BLOCK) * 68) (sj_newValue s)))"
  by (simp_all add: nat_spec_def sit_spec_def)

lemma tx_find_Some: "tx_find st lpa = Some b \<Longrightarrow> b \<in> set (tx_blocks st) \<and> rb_lpa b = lpa"
  by (auto simp: tx_find_def find_Some_iff)

lemma tx_find_cong: "tx_blocks st = tx_blocks st' \<Longrightarrow> tx_find st = tx_find st'"
  by (simp add: tx_find_def fun_eq_iff)

lemma get_block_spec:
  assumes "tx_inv dev sb st" and "lpa_fine dev lpa"
  obtains st' where "comm_recovery_tx_get_block dev st lpa = Inr (st', tx_view dev st lpa)" and "tx_inv dev sb st'"
    and "tx_view dev st' = tx_view dev st" and "tx_super_block st' = tx_super_block st"
    and "\<exists>b. tx_find st' lpa = Some b"
proof (cases "tx_find st lpa")
  case (Some b)
  then have "comm_recovery_tx_get_block dev st lpa = Inr (st, tx_view dev st lpa)"
    by (simp add: comm_recovery_tx_get_block_def tx_view_def)
  with assms(1) Some show thesis by (intro that [of st]) auto
next
  case None
  let ?b = "\<lparr>rb_lpa = lpa, rb_dirty = False, rb_data = media dev (LPA_TO_LBA32 lpa)\<rparr>"
  let ?st = "st\<lparr>tx_blocks := ?b # tx_blocks st\<rparr>"
  have f: "tx_find ?st l = (if l = lpa then Some ?b else tx_find st l)" for l
    by (simp add: tx_find_def)
  have "comm_recovery_tx_get_block dev st lpa = Inr (?st, tx_view dev st lpa)"
    using None assms(2) by (simp add: comm_recovery_tx_get_block_def tx_view_def comm_recovery_read_lpa_def comm_read_def lpa_fine_def)
  moreover have "lpa \<notin> rb_lpa ` set (tx_blocks st)"
    using None by (auto simp: tx_find_def find_None_iff)
  then have "tx_inv dev sb ?st"
    using assms by (simp add: tx_inv_def)
  moreover have "tx_view dev ?st = tx_view dev st"
    using None by (auto simp: tx_view_def f fun_eq_iff)
  ultimately show thesis
    by (intro that [of ?st]) (auto simp: f)
qed

lemma find_map_lpa:
  "find (\<lambda>b. rb_lpa b = l) (map (\<lambda>x. if rb_lpa x = lpa then x\<lparr>rb_data := d, rb_dirty := True\<rparr> else x) bs) =
     map_option (\<lambda>x. if rb_lpa x = lpa then x\<lparr>rb_data := d, rb_dirty := True\<rparr> else x) (find (\<lambda>b. rb_lpa b = l) bs)"
  by (induction bs) auto

lemma store_spec:
  assumes "tx_inv dev sb st" and "tx_find st lpa = Some b"
  shows "tx_inv dev sb (tx_store st lpa d)" and "tx_view dev (tx_store st lpa d) = (tx_view dev st)(lpa := d)"
    and "tx_super_block (tx_store st lpa d) = tx_super_block st"
proof -
  have comp: "rb_lpa \<circ> (\<lambda>x. if rb_lpa x = lpa then x\<lparr>rb_data := d, rb_dirty := True\<rparr> else x) = rb_lpa"
    by (simp add: fun_eq_iff)
  show "tx_inv dev sb (tx_store st lpa d)"
    using assms(1) by (auto simp: tx_inv_def tx_store_def comp)
  show "tx_view dev (tx_store st lpa d) = (tx_view dev st)(lpa := d)"
  proof
    fix l
    have f: "tx_find (tx_store st lpa d) l =
        map_option (\<lambda>x. if rb_lpa x = lpa then x\<lparr>rb_data := d, rb_dirty := True\<rparr> else x) (tx_find st l)"
      by (simp add: tx_find_def tx_store_def find_map_lpa)
    show "tx_view dev (tx_store st lpa d) l = ((tx_view dev st)(lpa := d)) l"
      using assms(2) by (auto simp: tx_view_def f dest: tx_find_Some split: option.splits)
  qed
qed (simp add: tx_store_def)

lemma collect_reclaim_spec:
  assumes "tx_inv dev sb st" and "old \<noteq> INVALID_LPA" and "dev_ok dev old" and "new = INVALID_LPA \<or> dev_ok dev new"
  obtains st' where "comm_recovery_collect_inode_data_reclaim dev st old new = Inr st'" and "tx_inv dev sb st'"
    and "tx_blocks st' = tx_blocks st" and "tx_super_block st' = tx_super_block st"
proof -
  let ?old = "media dev (LPA_TO_LBA32 old)"
  let ?new = "if new \<noteq> INVALID_LPA then media dev (LPA_TO_LBA32 new) else zero_block"
  define P where "P i \<longleftrightarrow> node_addr ?old i \<noteq> INVALID_LPA \<and> node_addr ?old i \<noteq> (if new \<noteq> INVALID_LPA \<and>
      \<not> (new \<noteq> INVALID_LPA \<and> node_inline ?new) then node_addr ?new i else INVALID_LPA) \<and>
      get32 (tx_super_block st) SB_main_blkaddr \<le> node_addr ?old i \<and>
      (ucast (node_addr ?old i) :: u64) < get64 (tx_super_block st) SB_block_count" for i
  have geo: "same_geometry sb (tx_super_block st)"
    using assms(1) by (simp add: tx_inv_def)
  have main: "\<forall>i. P i \<longrightarrow> in_main sb (node_addr ?old i)"
    using same_geometry_fields [OF geo] by (simp add: P_def in_main_def)
  define vec where "vec = fold (\<lambda>i vec. if P i then comm_recovery_lpa_vector_append_unique vec (node_addr ?old i) else vec)
    [0..<932] (tx_reclaim_data_lpas st)"
  have v: "distinct vec \<and> (\<forall>l \<in> set vec. l \<noteq> INVALID_LPA \<and> in_main sb l)"
    unfolding vec_def by (rule append_unique_fold [OF _ _ main]) (use assms(1) in \<open>simp_all add: tx_inv_def\<close>)
  show thesis
  proof (cases "node_inline ?old")
    case True
    then show ?thesis
      using assms that [of st]
      by (simp add: comm_recovery_collect_inode_data_reclaim_def comm_recovery_read_lpa_def comm_read_def)
  next
    case False
    have "comm_recovery_collect_inode_data_reclaim dev st old new = Inr (st\<lparr>tx_reclaim_data_lpas := vec\<rparr>)"
      using False assms(2-4) unfolding vec_def P_def
      by (auto simp: comm_recovery_collect_inode_data_reclaim_def comm_recovery_read_lpa_def comm_read_def Let_def)
    moreover have "tx_inv dev sb (st\<lparr>tx_reclaim_data_lpas := vec\<rparr>)"
      using assms(1) v by (auto simp: tx_inv_def)
    ultimately show ?thesis
      by (rule that) simp_all
  qed
qed

lemma nat_reclaim_spec:
  assumes "tx_inv dev sb st" and "\<forall>lpa. in_main sb lpa \<longrightarrow> dev_ok dev lpa"
    and "nat_block_addr new = INVALID_LPA \<or> dev_ok dev (nat_block_addr new)"
  obtains st' where "comm_recovery_record_nat_reclaim dev st nid old new = Inr st'" and "tx_inv dev sb st'"
    and "tx_blocks st' = tx_blocks st" and "tx_super_block st' = tx_super_block st"
proof -
  have geo: "same_geometry sb (tx_super_block st)"
    using assms(1) by (simp add: tx_inv_def)
  let ?skip = "nat_ino old = INVALID_NID \<or> nat_block_addr old = INVALID_LPA \<or>
         nat_block_addr old < get32 (tx_super_block st) SB_main_blkaddr \<or>
         (ucast (nat_block_addr old) :: u64) \<ge> get64 (tx_super_block st) SB_block_count \<or>
         nat_block_addr old = nat_block_addr new"
  let ?st = "st\<lparr>tx_reclaim_node_lpas :=
      comm_recovery_lpa_vector_append_unique (tx_reclaim_node_lpas st) (nat_block_addr old)\<rparr>"
  show thesis
  proof (cases ?skip)
    case True
    then have "comm_recovery_record_nat_reclaim dev st nid old new = Inr st"
      by (simp only: comm_recovery_record_nat_reclaim_def if_True)
    with assms(1) that show ?thesis by blast
  next
    case False
    then have main: "in_main sb (nat_block_addr old)" and n0: "nat_block_addr old \<noteq> INVALID_LPA"
      using same_geometry_fields [OF geo] by (auto simp: in_main_def)
    have inv: "tx_inv dev sb ?st"
      using assms(1) append_unique_spec [of "tx_reclaim_node_lpas st" sb "nat_block_addr old"] main
      by (auto simp: tx_inv_def)
    have e: "comm_recovery_record_nat_reclaim dev st nid old new =
        (if nat_ino old \<noteq> nid then Inr ?st
         else comm_recovery_collect_inode_data_reclaim dev ?st (nat_block_addr old) (nat_block_addr new))"
      using False by (simp only: comm_recovery_record_nat_reclaim_def if_False Let_def)
    obtain st' where "comm_recovery_collect_inode_data_reclaim dev ?st (nat_block_addr old) (nat_block_addr new) = Inr st'"
      "tx_inv dev sb st'" "tx_blocks st' = tx_blocks st" "tx_super_block st' = tx_super_block st"
      using collect_reclaim_spec [OF inv n0 _ assms(3)] assms(2) main by auto
    then show ?thesis
      using that [of st'] that [of ?st] inv e by (cases "nat_ino old = nid") simp_all
  qed
qed

lemma unat_ucast_div: "unat ((ucast x :: u64) div ucast d) = unat x div unat (d :: u32)"
  for x :: u32
  by (simp add: unat_div)

lemma ucast_div_u32: "(ucast ((ucast x :: u64) div ucast d) :: u32) = x div (d :: u32)" for x :: u32
proof (rule unsigned_word_eqI)
  have "unat x div unat d < 2 ^ 32"
    using order_le_less_trans [OF div_le_dividend unat_less_u32 [of x], of "unat d"] by simp
  then show "unat (ucast ((ucast x :: u64) div ucast d) :: u32) = unat (x div d)"
    by (simp add: unsigned_ucast_eq unat_ucast_div unat_div take_bit_nat_eq_self)
qed

text \<open>The bound of the source, in 64-bit arithmetic, is the bound on numbers.\<close>

lemma count_bound:
  fixes x d n :: u32
  shows "(ucast n * 512 :: u64) \<le> ucast x div ucast d \<longleftrightarrow> unat n * 512 \<le> unat x div unat d"
proof -
  have "unat (ucast n * 512 :: u64) = unat n * 512"
    using unat_less_u32 [of n] by (simp add: unat_mult_lem [THEN iffD1])
  then show ?thesis
    by (simp add: word_le_nat_alt unat_ucast_div)
qed

lemma apply_nat_spec:
  assumes "tx_inv dev sb st" and "\<forall>lpa. in_main sb lpa \<longrightarrow> dev_ok dev lpa" and "list_all (nat_entry_ok dev sb) es"
  obtains st' where "apply_nat_loop dev (ucast (get32 sb SB_segment_count_nat) * 512) st es = Inr st'" and "tx_inv dev sb st'"
    and "tx_view dev st' = nat_spec sb es (tx_view dev st)" and "tx_super_block st' = tx_super_block st"
proof -
  have "\<exists>st'. apply_nat_loop dev (ucast (get32 sb SB_segment_count_nat) * 512) st es = Inr st' \<and> tx_inv dev sb st' \<and>
    tx_view dev st' = nat_spec sb es (tx_view dev st) \<and> tx_super_block st' = tx_super_block st"
    using assms(1,3)
  proof (induction es arbitrary: st)
    case Nil
    then show ?case by (simp add: nat_spec_def)
  next
    case (Cons e es)
    let ?lpa = "nat_lpa sb (nj_nid e)" and ?off = "unat (nj_nid e mod 512) * 8"
    have e: "nat_entry_ok dev sb e" using Cons.prems(2) by simp
    have geo: "same_geometry sb (tx_super_block st)"
      using Cons.prems(1) by (simp add: tx_inv_def)
    have lpa: "get32 (tx_super_block st) SB_nat_blkaddr + ucast ((ucast (nj_nid e) :: u64) div ucast (512 :: u32)) = ?lpa"
      unfolding ucast_div_u32 nat_lpa_def using same_geometry_fields(1) [OF geo, of SB_nat_blkaddr] by simp
    have bd: "\<not> (ucast (get32 sb SB_segment_count_nat) * 512 :: u64) \<le> ucast (nj_nid e) div ucast (512 :: u32)"
      unfolding count_bound using e by (simp add: nat_entry_ok_def)
    obtain st1 where 1: "comm_recovery_tx_get_block dev st ?lpa = Inr (st1, tx_view dev st ?lpa)" "tx_inv dev sb st1"
      "tx_view dev st1 = tx_view dev st" "tx_super_block st1 = tx_super_block st" "\<exists>b. tx_find st1 ?lpa = Some b"
      using get_block_spec [OF Cons.prems(1), of ?lpa] e by (auto simp: nat_entry_ok_def)
    obtain st2 where 2: "comm_recovery_record_nat_reclaim dev st1 (nj_nid e) (getNatEntry (tx_view dev st ?lpa) ?off) (nj_newValue e) = Inr st2"
      "tx_inv dev sb st2" "tx_blocks st2 = tx_blocks st1" "tx_super_block st2 = tx_super_block st1"
      using nat_reclaim_spec [OF 1(2) assms(2), of "nj_newValue e"] e by (auto simp: nat_entry_ok_def)
    obtain b where b: "tx_find st2 ?lpa = Some b"
      using 1(5) tx_find_cong [OF 2(3)] by auto
    have v2: "tx_view dev st2 = tx_view dev st"
      using 1(3) tx_find_cong [OF 2(3)] by (simp add: tx_view_def fun_eq_iff)
    let ?st = "tx_store st2 ?lpa (putNatEntry (tx_view dev st ?lpa) ?off (nj_newValue e))"
    note s = store_spec [OF 2(2) b, of "putNatEntry (tx_view dev st ?lpa) ?off (nj_newValue e)"]
    have step: "apply_nat_loop dev (ucast (get32 sb SB_segment_count_nat) * 512) st (e # es) =
        apply_nat_loop dev (ucast (get32 sb SB_segment_count_nat) * 512) ?st es"
      by (simp only: apply_nat_loop.simps Let_def lpa bd if_False 1(1) 2(1) sum.case prod.case)
    have es: "list_all (nat_entry_ok dev sb) es" using Cons.prems(2) by simp
    show ?case
      unfolding step spec_Cons using Cons.IH [OF s(1) es] unfolding s(2,3) v2 1(4) 2(4) .
  qed
  then show thesis using that by blast
qed

lemma apply_sit_spec:
  assumes "tx_inv dev sb st" and "list_all (sit_entry_ok dev sb) es"
  obtains st' where "apply_sit_loop dev (ucast (get32 sb SB_segment_count_sit) * 512) st es = Inr st'" and "tx_inv dev sb st'"
    and "tx_view dev st' = sit_spec sb es (tx_view dev st)" and "tx_super_block st' = tx_super_block st"
proof -
  have "\<exists>st'. apply_sit_loop dev (ucast (get32 sb SB_segment_count_sit) * 512) st es = Inr st' \<and> tx_inv dev sb st' \<and>
    tx_view dev st' = sit_spec sb es (tx_view dev st) \<and> tx_super_block st' = tx_super_block st"
    using assms
  proof (induction es arbitrary: st)
    case Nil
    then show ?case by (simp add: sit_spec_def)
  next
    case (Cons e es)
    let ?lpa = "sit_lpa sb (sj_segID e)" and ?off = "unat (sj_segID e mod 60) * 68"
    have e: "sit_entry_ok dev sb e" using Cons.prems(2) by simp
    have geo: "same_geometry sb (tx_super_block st)"
      using Cons.prems(1) by (simp add: tx_inv_def)
    have lpa: "get32 (tx_super_block st) SB_sit_blkaddr + ucast ((ucast (sj_segID e) :: u64) div ucast (60 :: u32)) = ?lpa"
      unfolding ucast_div_u32 sit_lpa_def using same_geometry_fields(1) [OF geo, of SB_sit_blkaddr] by simp
    have bd: "\<not> (ucast (get32 sb SB_segment_count_sit) * 512 :: u64) \<le> ucast (sj_segID e) div ucast (60 :: u32)"
      unfolding count_bound using e by (simp add: sit_entry_ok_def)
    obtain st1 where 1: "comm_recovery_tx_get_block dev st ?lpa = Inr (st1, tx_view dev st ?lpa)" "tx_inv dev sb st1"
      "tx_view dev st1 = tx_view dev st" "tx_super_block st1 = tx_super_block st" "\<exists>b. tx_find st1 ?lpa = Some b"
      using get_block_spec [OF Cons.prems(1), of ?lpa] e by (auto simp: sit_entry_ok_def)
    obtain b where b: "tx_find st1 ?lpa = Some b"
      using 1(5) by auto
    let ?st = "tx_store st1 ?lpa (putSitEntry (tx_view dev st ?lpa) ?off (sj_newValue e))"
    note s = store_spec [OF 1(2) b, of "putSitEntry (tx_view dev st ?lpa) ?off (sj_newValue e)"]
    have step: "apply_sit_loop dev (ucast (get32 sb SB_segment_count_sit) * 512) st (e # es) =
        apply_sit_loop dev (ucast (get32 sb SB_segment_count_sit) * 512) ?st es"
      by (simp only: apply_sit_loop.simps Let_def lpa bd if_False 1(1) sum.case prod.case)
    have es: "list_all (sit_entry_ok dev sb) es" using Cons.prems(2) by simp
    show ?case
      unfolding step spec_Cons using Cons.IH [OF s(1) es] unfolding s(2,3) 1(3,4) .
  qed
  then show thesis using that by blast
qed

lemma apply_super_spec:
  assumes "tx_inv dev sb st" and "list_all super_entry_ok es"
  shows "comm_recovery_apply_super_entries st es = Inr (st\<lparr>tx_super_block := super_apply es (tx_super_block st)\<rparr>) \<and>
    tx_inv dev sb (st\<lparr>tx_super_block := super_apply es (tx_super_block st)\<rparr>)"
  using assms
proof (induction es arbitrary: st)
  case (Cons e es)
  let ?st = "st\<lparr>tx_super_block := put32 (tx_super_block st) (unat (sbj_Off e)) (sbj_newVal e)\<rparr>"
  have e: "super_entry_ok e" and es: "list_all super_entry_ok es"
    using Cons.prems by simp_all
  have "same_geometry sb (tx_super_block ?st)"
    using Cons.prems e by (simp add: tx_inv_def same_geometry_def super_entry_ok_def put32_frame)
  then have inv: "tx_inv dev sb ?st"
    using Cons.prems by (simp add: tx_inv_def)
  show ?case
    using Cons.IH [OF inv es] e by (simp add: super_entry_ok_def Let_def)
qed simp

lemma tx_view_super [simp]: "tx_view dev (st\<lparr>tx_super_block := sb\<rparr>) = tx_view dev st"
  by (simp add: tx_view_def tx_find_def fun_eq_iff)

subsection \<open>Scanning records\<close>

lemma unat_mj_len: "record_at b off ty len \<Longrightarrow> unat (mj_len (getHeader b off)) = len"
  by (simp add: record_at_def unat_of_nat)

lemma scan_item:
  assumes "item_at b off it len" and "item_ok dev sb it" and "tx_inv dev sb st"
    and "\<forall>lpa. in_main sb lpa \<longrightarrow> dev_ok dev lpa"
  obtains st' where "scan_block dev st b off = scan_block dev st' b (off + len)" and "tx_inv dev sb st'"
    and "tx_view dev st' = item_spec sb it (tx_view dev st)"
    and "tx_super_block st' = super_apply (supers_of [it]) (tx_super_block st)"
proof (cases it)
  case (JSuper es)
  then have r: "record_at b off JOURNAL_TYPE_SUPER_BLOCK len" and len: "len = 4 + 8 * length es"
    and es: "get_list getSuperJ 8 b (off + 4) (length es) = es" and ok: "list_all super_entry_ok es"
    using assms(1,2) by auto
  let ?st = "st\<lparr>tx_super_block := super_apply es (tx_super_block st)\<rparr>"
  note a = apply_super_spec [OF assms(3) ok]
  have "scan_block dev st b off = scan_block dev ?st b (off + len)"
    using r len es a unat_mj_len [OF r] by (subst scan_block.simps) (simp add: record_at_def Let_def)
  then show thesis
    using that [of ?st] JSuper a by simp
next
  case (JNat es)
  then have r: "record_at b off JOURNAL_TYPE_NATS len" and len: "len = 4 + 12 * length es"
    and es: "get_list getNatJ 12 b (off + 4) (length es) = es" and ok: "list_all (nat_entry_ok dev sb) es"
    using assms(1,2) by auto
  obtain st' where a: "apply_nat_loop dev (ucast (get32 sb SB_segment_count_nat) * 512) st es = Inr st'" "tx_inv dev sb st'"
    "tx_view dev st' = nat_spec sb es (tx_view dev st)" "tx_super_block st' = tx_super_block st"
    by (rule apply_nat_spec [OF assms(3,4) ok])
  have "get32 (tx_super_block st) SB_segment_count_nat = get32 sb SB_segment_count_nat"
    using assms(3) by (intro same_geometry_fields(1)) (simp_all add: tx_inv_def)
  then have "scan_block dev st b off = scan_block dev st' b (off + len)"
    using r len es a(1) unat_mj_len [OF r] by (subst scan_block.simps)
      (simp add: record_at_def Let_def comm_recovery_apply_nat_entries_def)
  then show thesis
    using that [of st'] JNat a by simp
next
  case (JSit es)
  then have r: "record_at b off JOURNAL_TYPE_SITS len" and len: "len = 4 + 72 * length es"
    and es: "get_list getSitJ 72 b (off + 4) (length es) = es" and ok: "list_all (sit_entry_ok dev sb) es"
    using assms(1,2) by auto
  obtain st' where a: "apply_sit_loop dev (ucast (get32 sb SB_segment_count_sit) * 512) st es = Inr st'" "tx_inv dev sb st'"
    "tx_view dev st' = sit_spec sb es (tx_view dev st)" "tx_super_block st' = tx_super_block st"
    by (rule apply_sit_spec [OF assms(3) ok])
  have "get32 (tx_super_block st) SB_segment_count_sit = get32 sb SB_segment_count_sit"
    using assms(3) by (intro same_geometry_fields(1)) (simp_all add: tx_inv_def)
  then have "scan_block dev st b off = scan_block dev st' b (off + len)"
    using r len es a(1) unat_mj_len [OF r] by (subst scan_block.simps)
      (simp add: record_at_def Let_def comm_recovery_apply_sit_entries_def)
  then show thesis
    using that [of st'] JSit a by simp
qed

lemma scan_seg:
  assumes "jseg b off off' its" and "list_all (item_ok dev sb) its" and "tx_inv dev sb st"
    and "\<forall>lpa. in_main sb lpa \<longrightarrow> dev_ok dev lpa"
  shows "\<exists>st'. scan_block dev st b off = scan_block dev st' b off' \<and> tx_inv dev sb st' \<and>
    tx_view dev st' = items_spec sb its (tx_view dev st) \<and>
    tx_super_block st' = super_apply (supers_of its) (tx_super_block st)"
  using assms
proof (induction arbitrary: st rule: jseg.induct)
  case (jseg_nil b off)
  then show ?case by (auto simp: items_spec_def)
next
  case (jseg_cons b off it len off' its)
  have ok: "item_ok dev sb it" "list_all (item_ok dev sb) its"
    using jseg_cons.prems(1) by simp_all
  obtain st1 where 1: "scan_block dev st b off = scan_block dev st1 b (off + len)" "tx_inv dev sb st1"
    "tx_view dev st1 = item_spec sb it (tx_view dev st)" "tx_super_block st1 = super_apply (supers_of [it]) (tx_super_block st)"
    by (rule scan_item [OF jseg_cons.hyps(1) ok(1) jseg_cons.prems(2,3)])
  have "supers_of (it # its) = supers_of [it] @ supers_of its"
    using entries_of_simps(4) [of "[it]" its] by simp
  with jseg_cons.IH [OF ok(2) 1(2) jseg_cons.prems(3)] show ?case
    by (simp add: 1 items_spec_def apply_append)
qed

lemma scan_end: "record_at b off JOURNAL_TYPE_END 4 \<Longrightarrow> scan_block dev st b off = TxEnd st"
  by (subst scan_block.simps) (simp add: unat_mj_len Let_def, simp add: record_at_def)

lemma scan_nop: "record_at b off JOURNAL_TYPE_NOP len \<Longrightarrow> scan_block dev st b off = BlockDone st"
  by (subst scan_block.simps) (simp add: unat_mj_len Let_def, simp add: record_at_def)

lemma scan_done: "scan_block dev st b 4096 = BlockDone st"
  by (subst scan_block.simps) simp

subsection \<open>Committing\<close>

lemma commit_blocks_spec:
  assumes "\<forall>b \<in> set bs. lpa_fine dev (rb_lpa b)" and "distinct (map rb_lpa bs)"
  obtains m where "commit_blocks dev bs = (RC0, dev\<lparr>media := m\<rparr>)"
    and "\<forall>lpa < 0x20000000. m (LPA_TO_LBA32 lpa) = (case find (\<lambda>b. rb_lpa b = lpa) bs of
      Some b \<Rightarrow> if rb_dirty b then rb_data b else media dev (LPA_TO_LBA32 lpa) | None \<Rightarrow> media dev (LPA_TO_LBA32 lpa))"
proof -
  have "\<exists>m. commit_blocks dev bs = (RC0, dev\<lparr>media := m\<rparr>) \<and>
    (\<forall>lpa < 0x20000000. m (LPA_TO_LBA32 lpa) = (case find (\<lambda>b. rb_lpa b = lpa) bs of
      Some b \<Rightarrow> if rb_dirty b then rb_data b else media dev (LPA_TO_LBA32 lpa) | None \<Rightarrow> media dev (LPA_TO_LBA32 lpa)))"
    using assms
  proof (induction bs arbitrary: dev)
    case Nil
    show ?case by (intro exI [of _ "media dev"]) simp
  next
    case (Cons b bs)
    let ?m = "if rb_dirty b then (media dev)(LPA_TO_LBA32 (rb_lpa b) := rb_data b) else media dev"
    let ?dev = "dev\<lparr>media := ?m\<rparr>"
    have step: "commit_blocks dev (b # bs) = commit_blocks ?dev bs"
      using Cons.prems(1) by (simp add: comm_recovery_write_lpa_def comm_write_def lpa_fine_def)
    have "\<forall>b \<in> set bs. lpa_fine ?dev (rb_lpa b)"
      using Cons.prems(1) by (simp add: lpa_fine_def)
    then have ih: "\<exists>m. commit_blocks ?dev bs = (RC0, ?dev\<lparr>media := m\<rparr>) \<and>
      (\<forall>lpa < 0x20000000. m (LPA_TO_LBA32 lpa) = (case find (\<lambda>b. rb_lpa b = lpa) bs of
        Some b \<Rightarrow> if rb_dirty b then rb_data b else media ?dev (LPA_TO_LBA32 lpa) | None \<Rightarrow> media ?dev (LPA_TO_LBA32 lpa)))"
      by (rule Cons.IH) (use Cons.prems(2) in simp)
    have md: "media ?dev = ?m"
      by simp
    obtain m where m: "commit_blocks ?dev bs = (RC0, ?dev\<lparr>media := m\<rparr>)"
      "\<forall>lpa < 0x20000000. m (LPA_TO_LBA32 lpa) = (case find (\<lambda>b. rb_lpa b = lpa) bs of
        Some b \<Rightarrow> if rb_dirty b then rb_data b else ?m (LPA_TO_LBA32 lpa) | None \<Rightarrow> ?m (LPA_TO_LBA32 lpa))"
      using ih unfolding md by blast
    have other: "?m (LPA_TO_LBA32 lpa) = (if lpa = rb_lpa b \<and> rb_dirty b then rb_data b else media dev (LPA_TO_LBA32 lpa))"
      if "lpa < 0x20000000" for lpa
      using that Cons.prems(1) LPA_TO_LBA32_inj [of lpa "rb_lpa b"] by (auto simp: lpa_fine_def)
    have no: "find (\<lambda>x. rb_lpa x = rb_lpa b) bs = None"
      using Cons.prems(2) by (simp add: find_key_None)
    have "m (LPA_TO_LBA32 lpa) = (case find (\<lambda>b. rb_lpa b = lpa) (b # bs) of
        Some b \<Rightarrow> if rb_dirty b then rb_data b else media dev (LPA_TO_LBA32 lpa) | None \<Rightarrow> media dev (LPA_TO_LBA32 lpa))"
      if "lpa < 0x20000000" for lpa
    proof -
      note ml = m(2) [rule_format, OF that, unfolded other [OF that]]
      show ?thesis
        using no unfolding ml by (cases "rb_lpa b = lpa") (auto split: option.splits)
    qed
    with step m(1) show ?case by auto
  qed
  with that show thesis by blast
qed

lemma commit_spec:
  assumes "tx_inv dev sb st"
  obtains m where "comm_recovery_commit_tx dev st = (RC0, dev\<lparr>media := m\<rparr>)"
    and "\<forall>lpa < 0x20000000. m (LPA_TO_LBA32 lpa) = tx_view dev st lpa"
proof -
  obtain m where m: "commit_blocks dev (tx_blocks st) = (RC0, dev\<lparr>media := m\<rparr>)"
    "\<forall>lpa < 0x20000000. m (LPA_TO_LBA32 lpa) = (case find (\<lambda>b. rb_lpa b = lpa) (tx_blocks st) of
      Some b \<Rightarrow> if rb_dirty b then rb_data b else media dev (LPA_TO_LBA32 lpa) | None \<Rightarrow> media dev (LPA_TO_LBA32 lpa))"
    using assms by (elim commit_blocks_spec [rotated 2]) (auto simp: tx_inv_def)
  have "m (LPA_TO_LBA32 lpa) = tx_view dev st lpa" if "lpa < 0x20000000" for lpa
  proof (cases "tx_find st lpa")
    case None
    with m(2) that show ?thesis by (simp add: tx_view_def tx_find_def)
  next
    case (Some b)
    then have "\<not> rb_dirty b \<longrightarrow> rb_data b = media dev (LPA_TO_LBA32 lpa)"
      using assms tx_find_Some [OF Some] by (auto simp: tx_inv_def)
    with m(2) that Some show ?thesis by (simp add: tx_view_def tx_find_def)
  qed
  with m(1) that show thesis
    by (simp add: comm_recovery_commit_tx_def)
qed

subsection \<open>One transaction\<close>

text \<open>The journal position \<open>i\<close> blocks after \<open>cur\<close>.\<close>

definition jpos :: "u64 \<Rightarrow> u64 \<Rightarrow> u64 \<Rightarrow> nat \<Rightarrow> u64" where
  "jpos s e cur i = ((\<lambda>c. comm_recovery_next_journal_lpa c s e) ^^ i) cur"

lemma jpos_simps: "jpos s e cur 0 = cur" "jpos s e cur (Suc i) = jpos s e (comm_recovery_next_journal_lpa cur s e) i"
  by (simp_all add: jpos_def funpow_Suc_right del: funpow.simps)

lemma replay_blocks_jtx:
  assumes "jtx bs its" and "length bs \<le> n" and "\<forall>i < length bs. comm_recovery_read_lpa dev (ucast (jpos s e cur i)) = (RC0, bs ! i)"
    and "list_all (item_ok dev sb) its" and "tx_inv dev sb st" and "\<forall>lpa. in_main sb lpa \<longrightarrow> dev_ok dev lpa"
  shows "\<exists>m st'. replay_blocks dev st n cur s e = (RC0, comm_recovery_append_reclaim_record (dev\<lparr>media := m\<rparr>) st',
      Some (jpos s e cur (length bs), tx_super_block st')) \<and> tx_inv dev sb st' \<and>
    (\<forall>lpa < 0x20000000. m (LPA_TO_LBA32 lpa) = items_spec sb its (tx_view dev st) lpa) \<and>
    tx_super_block st' = super_apply (supers_of its) (tx_super_block st)"
  using assms
proof (induction arbitrary: n cur st rule: jtx.induct)
  case (jtx_last b off its)
  obtain k where k: "n = Suc k" using jtx_last.prems(1) by (cases n) auto
  have read: "comm_recovery_read_lpa dev (ucast cur) = (RC0, b)"
    using jtx_last.prems(2) by (simp add: jpos_simps)
  obtain st' where st': "scan_block dev st b 0 = scan_block dev st' b off" "tx_inv dev sb st'"
    "tx_view dev st' = items_spec sb its (tx_view dev st)" "tx_super_block st' = super_apply (supers_of its) (tx_super_block st)"
    using scan_seg [OF jtx_last.hyps(1) jtx_last.prems(3-5)] by blast
  obtain m where m: "comm_recovery_commit_tx dev st' = (RC0, dev\<lparr>media := m\<rparr>)"
    "\<forall>lpa < 0x20000000. m (LPA_TO_LBA32 lpa) = tx_view dev st' lpa"
    by (rule commit_spec [OF st'(2)])
  show ?case
    by (intro exI [of _ m] exI [of _ st'])
      (simp add: k read st'(1) scan_end [OF jtx_last.hyps(2)] m(1) jpos_simps st'(2,4), simp add: m(2) st'(3))
next
  case (jtx_more b its bs its')
  obtain k where k: "n = Suc k" "length bs \<le> k" using jtx_more.prems(1) by (cases n) auto
  have read: "comm_recovery_read_lpa dev (ucast cur) = (RC0, b)"
    using jtx_more.prems(2) [rule_format, of 0] by (simp add: jpos_simps)
  have reads: "\<forall>i < length bs. comm_recovery_read_lpa dev (ucast (jpos s e (comm_recovery_next_journal_lpa cur s e) i)) = (RC0, bs ! i)"
    using jtx_more.prems(2) [rule_format, of "Suc _"] by (simp add: jpos_simps)
  have ok: "list_all (item_ok dev sb) its" "list_all (item_ok dev sb) its'"
    using jtx_more.prems(3) by simp_all
  obtain off where off: "jseg b 0 off its" "off = 4096 \<or> record_at b off JOURNAL_TYPE_NOP (4096 - off)"
    using jtx_more.hyps(1) by (auto simp: jfull_def)
  obtain st' where st': "scan_block dev st b 0 = scan_block dev st' b off" "tx_inv dev sb st'"
    "tx_view dev st' = items_spec sb its (tx_view dev st)" "tx_super_block st' = super_apply (supers_of its) (tx_super_block st)"
    using scan_seg [OF off(1) ok(1) jtx_more.prems(4,5)] by blast
  have "scan_block dev st b 0 = BlockDone st'"
    using off(2) st'(1) scan_done scan_nop by auto
  then have step: "replay_blocks dev st n cur s e = replay_blocks dev st' k (comm_recovery_next_journal_lpa cur s e) s e"
    by (simp add: k(1) read)
  show ?case
    using jtx_more.IH [OF k(2) reads ok(2) st'(2) jtx_more.prems(5)]
    by (simp add: step jpos_simps st'(3,4) items_spec_def apply_append)
qed

end
