(* ===== verification/Journal_Roundtrip.thy ===== *)
theory Journal_Roundtrip
  imports Journal_Recovery
begin

text \<open>
  The journal from end to end: what the writer puts on the ring is what a recovery applies. The ring
  positions of both sides agree, the blocks written are read back, and the tables the recovery leaves
  are the tables the journal container describes.
\<close>

subsection \<open>Positions on the ring\<close>

lemma jpos_Suc: "jpos s e cur (Suc i) = comm_recovery_next_journal_lpa (jpos s e cur i) s e"
  by (simp add: jpos_def)

lemma jpos_add: "jpos s e (jpos s e c i) j = jpos s e c (i + j)"
  by (induction j) (simp_all add: jpos_simps(1) jpos_Suc)

lemma next_lpa_unat:
  assumes "s \<le> c" and "c < e"
  shows "unat (comm_recovery_next_journal_lpa c s e) = (if Suc (unat c) = unat e then unat s else Suc (unat c))"
proof -
  have "Suc (unat c) \<le> unat e"
    using assms(2) by (simp add: word_less_nat_alt Suc_leI)
  then have "unat (c + 1) = Suc (unat c)"
    using unat_less_u64 [of e] by (simp add: unat_word_ariths)
  then show ?thesis
    using \<open>Suc (unat c) \<le> unat e\<close> by (simp add: comm_recovery_next_journal_lpa_def word_le_nat_alt)
qed

lemma jpos_unat:
  assumes "s \<le> cur" and "cur < e"
  shows "unat (jpos s e cur i) = unat s + (unat cur - unat s + i) mod (unat e - unat s)"
proof (induction i)
  case 0
  have "unat cur - unat s < unat e - unat s" "unat s \<le> unat cur"
    using assms by (auto simp: word_less_nat_alt word_le_nat_alt)
  then show ?case by (simp add: jpos_def)
next
  case (Suc i)
  let ?n = "unat e - unat s" and ?x = "unat cur - unat s + i"
  have "0 < ?n"
    using assms by (auto simp: word_less_nat_alt word_le_nat_alt)
  then have "?x mod ?n < ?n"
    by simp
  then have c: "s \<le> jpos s e cur i" "jpos s e cur i < e"
    using Suc by (auto simp: word_less_nat_alt word_le_nat_alt)
  have "Suc (?x mod ?n) = ?n \<longleftrightarrow> Suc (unat s + ?x mod ?n) = unat e"
    using \<open>0 < ?n\<close> by linarith
  then show ?case
    using next_lpa_unat [OF c] Suc by (simp add: jpos_Suc mod_Suc)
qed

lemma jpos_in:
  assumes "s \<le> cur" and "cur < e"
  shows "s \<le> jpos s e cur i" and "jpos s e cur i < e"
proof -
  have "0 < unat e - unat s"
    using assms by (auto simp: word_less_nat_alt word_le_nat_alt)
  then have "(unat cur - unat s + i) mod (unat e - unat s) < unat e - unat s"
    by simp
  then show "s \<le> jpos s e cur i" and "jpos s e cur i < e"
    using jpos_unat [OF assms, of i] by (auto simp: word_less_nat_alt word_le_nat_alt)
qed

lemma jpos_inj:
  assumes "s \<le> cur" and "cur < e" and "i < j" and "j < unat (e - s)"
  shows "jpos s e cur i \<noteq> jpos s e cur j"
proof
  assume "jpos s e cur i = jpos s e cur j"
  then have m: "(unat cur - unat s + i) mod (unat e - unat s) = (unat cur - unat s + j) mod (unat e - unat s)"
    using jpos_unat [OF assms(1,2)] by (metis add_left_cancel)
  have "unat (e - s) = unat e - unat s"
    using assms(1,2) by (intro unat_sub) simp
  with assms(4) have "j - i < unat e - unat s" "0 < j - i"
    using assms(3) by auto
  moreover have "(unat e - unat s) dvd (unat cur - unat s + j) - (unat cur - unat s + i)"
    using m by (metis mod_eq_dvd_iff_nat assms(3) add_left_mono less_imp_le)
  then have "(unat e - unat s) dvd (j - i)"
    by (simp only: diff_add_inverse add_diff_cancel_left)
  ultimately show False
    by (meson dvd_imp_le not_le)
qed

lemma LBA_agree: "c < 0x20000000 \<Longrightarrow> LPA_TO_LBA32 (ucast c) = LPA_TO_LBA64 c"
proof -
  assume "c < 0x20000000"
  then have u: "unat c < 536870912"
    by (simp add: word_less_nat_alt)
  then have "unat (ucast c :: u32) = unat c"
    by (simp add: unsigned_ucast_eq take_bit_nat_eq_self)
  then have "unat ((ucast c :: u32) * 8) = unat c * 8"
    using u by (simp add: unat_mult_lem [THEN iffD1])
  moreover have "unat (c * 8) = unat c * 8"
    using u by (simp add: unat_mult_lem [THEN iffD1])
  ultimately show ?thesis
    by (intro unat_word_eqI) (simp add: LPA_TO_LBA32_def LPA_TO_LBA64_def)
qed

lemma LBA64_inj: "c < 0x20000000 \<Longrightarrow> d < 0x20000000 \<Longrightarrow> LPA_TO_LBA64 c = LPA_TO_LBA64 d \<Longrightarrow> c = d"
proof -
  assume a: "c < 0x20000000" "d < 0x20000000" "LPA_TO_LBA64 c = LPA_TO_LBA64 d"
  have "unat (x * 8) = unat x * 8" if "x < 0x20000000" for x :: u64
    using that by (simp add: word_less_nat_alt unat_mult_lem [THEN iffD1])
  from this [OF a(1)] this [OF a(2)] a(3) have "unat c = unat d"
    by (simp add: LPA_TO_LBA64_def)
  then show "c = d" by (rule unat_word_eqI)
qed

subsection \<open>Writing the buffer\<close>

text \<open>The whole journal area can be written and its LBAs do not wrap.\<close>

definition ring_ok :: "comm_dev \<Rightarrow> u64 \<Rightarrow> u64 \<Rightarrow> bool" where
  "ring_ok dev s e \<longleftrightarrow> s < e \<and> e \<le> 0x20000000 \<and>
     (\<forall>c. s \<le> c \<longrightarrow> c < e \<longrightarrow> comm_submit_rw_request_common dev (LPA_TO_LBA64 c) = RC0)"

definition ring_start :: "u64 \<Rightarrow> u64 \<Rightarrow> u64 \<Rightarrow> u64" where
  "ring_start s e cur = (if cur = e then s else cur)"

lemma write_blocks_spec:
  assumes "ring_ok dev s e" and "s \<le> cur" and "cur < e" and "length bs \<le> unat (e - s)"
  shows "\<exists>m. journalWriterWriteBlocks s e dev bs cur = Some (dev\<lparr>media := m\<rparr>) \<and>
    (\<forall>i < length bs. m (LPA_TO_LBA64 (jpos s e cur i)) = bs ! i) \<and>
    (\<forall>lba. (\<forall>c. s \<le> c \<longrightarrow> c < e \<longrightarrow> lba \<noteq> LPA_TO_LBA64 c) \<longrightarrow> m lba = media dev lba)"
proof -
  have gen: "\<exists>m. journalWriterWriteBlocks s e dev bs cur' = Some (dev\<lparr>media := m\<rparr>) \<and>
      (\<forall>i < length bs. m (LPA_TO_LBA64 (jpos s e cur (k + i))) = bs ! i) \<and>
      (\<forall>lba. (\<forall>i < length bs. lba \<noteq> LPA_TO_LBA64 (jpos s e cur (k + i))) \<longrightarrow> m lba = media dev lba)"
    if "ring_ok dev s e" "ring_start s e cur' = jpos s e cur k" "k + length bs \<le> unat (e - s)" for dev cur' k
    using that
  proof (induction bs arbitrary: dev cur' k)
    case Nil
    show ?case by (intro exI [of _ "media dev"]) simp
  next
    case (Cons b bs)
    let ?c = "jpos s e cur k"
    let ?dev = "dev\<lparr>media := (media dev)(LPA_TO_LBA64 ?c := b)\<rparr>"
    have c: "s \<le> ?c" "?c < e"
      by (rule jpos_in [OF assms(2,3)])+
    have step: "journalWriterWriteBlocks s e dev (b # bs) cur' = journalWriterWriteBlocks s e ?dev bs (?c + 1)"
      using Cons.prems(1) c by (simp add: Cons.prems(2) [unfolded ring_start_def] comm_write_def ring_ok_def Let_def)
    have "ring_start s e (?c + 1) = jpos s e cur (Suc k)"
    proof -
      have "?c + 1 \<ge> e \<longleftrightarrow> ?c + 1 = e"
        using c(2) by (metis inc_le order_antisym order_refl)
      then show ?thesis by (simp add: ring_start_def jpos_Suc comm_recovery_next_journal_lpa_def)
    qed
    moreover have "ring_ok ?dev s e"
      using Cons.prems(1) by (simp add: ring_ok_def)
    ultimately have ih: "\<exists>m. journalWriterWriteBlocks s e ?dev bs (?c + 1) = Some (?dev\<lparr>media := m\<rparr>) \<and>
      (\<forall>i < length bs. m (LPA_TO_LBA64 (jpos s e cur (Suc k + i))) = bs ! i) \<and>
      (\<forall>lba. (\<forall>i < length bs. lba \<noteq> LPA_TO_LBA64 (jpos s e cur (Suc k + i))) \<longrightarrow> m lba = media ?dev lba)"
      by (intro Cons.IH) (use Cons.prems(3) in simp_all)
    then obtain m where m: "journalWriterWriteBlocks s e ?dev bs (?c + 1) = Some (?dev\<lparr>media := m\<rparr>)"
      "\<forall>i < length bs. m (LPA_TO_LBA64 (jpos s e cur (Suc k + i))) = bs ! i"
      "\<forall>lba. (\<forall>i < length bs. lba \<noteq> LPA_TO_LBA64 (jpos s e cur (Suc k + i))) \<longrightarrow> m lba = media ?dev lba"
      by blast
    have ne: "LPA_TO_LBA64 ?c \<noteq> LPA_TO_LBA64 (jpos s e cur (Suc k + i))" if "i < length bs" for i
    proof
      assume same: "LPA_TO_LBA64 ?c = LPA_TO_LBA64 (jpos s e cur (Suc k + i))"
      have small: "jpos s e cur j < 0x20000000" for j
        by (rule order_less_le_trans [OF jpos_in(2) [OF assms(2,3)]]) (use assms(1) in \<open>simp add: ring_ok_def\<close>)
      have "?c = jpos s e cur (Suc k + i)"
        by (rule LBA64_inj [OF small small same])
      moreover have "?c \<noteq> jpos s e cur (Suc k + i)"
        by (rule jpos_inj [OF assms(2,3)]) (use that Cons.prems(3) in auto)
      ultimately show False by simp
    qed
    have "m (LPA_TO_LBA64 ?c) = b"
      using m(3) ne by simp
    then have "\<forall>i < length (b # bs). m (LPA_TO_LBA64 (jpos s e cur (k + i))) = (b # bs) ! i"
      using m(2) by (auto simp: nth_Cons split: nat.split)
    moreover have "m lba = media dev lba" if "\<forall>i < length (b # bs). lba \<noteq> LPA_TO_LBA64 (jpos s e cur (k + i))" for lba
      using m(3) that [rule_format, of "Suc _"] that [rule_format, of 0] by simp
    ultimately show ?case
      using step m(1) by auto
  qed
  have "ring_start s e cur = jpos s e cur 0"
    using assms(3) by (auto simp: ring_start_def jpos_def)
  from gen [OF assms(1) this] assms(4) obtain m where
    "journalWriterWriteBlocks s e dev bs cur = Some (dev\<lparr>media := m\<rparr>)"
    "\<forall>i < length bs. m (LPA_TO_LBA64 (jpos s e cur i)) = bs ! i"
    "\<forall>lba. (\<forall>i < length bs. lba \<noteq> LPA_TO_LBA64 (jpos s e cur i)) \<longrightarrow> m lba = media dev lba"
    by auto
  then show ?thesis
    using jpos_in [OF assms(2,3)] by blast
qed

subsection \<open>The tables\<close>

definition dev_view :: "comm_dev \<Rightarrow> u32 \<Rightarrow> block" where
  "dev_view dev lpa = media dev (LPA_TO_LBA32 lpa)"

definition nat_table :: "block \<Rightarrow> (u32 \<Rightarrow> block) \<Rightarrow> u32 \<Rightarrow> RtfsNatEntry" where
  "nat_table sb view nid = getNatEntry (view (nat_lpa sb nid)) (unat (nid mod NAT_ENTRY_PER_BLOCK) * 8)"

definition sit_table :: "block \<Rightarrow> (u32 \<Rightarrow> block) \<Rightarrow> u32 \<Rightarrow> RtfsSitEntry" where
  "sit_table sb view seg = getSitEntry (view (sit_lpa sb seg)) (unat (seg mod SIT_ENTRY_PER_BLOCK) * 68)"

definition nid_in :: "block \<Rightarrow> u32 \<Rightarrow> bool" where
  "nid_in sb nid \<longleftrightarrow> unat nid div 512 < unat (get32 sb SB_segment_count_nat) * 512"

definition seg_in :: "block \<Rightarrow> u32 \<Rightarrow> bool" where
  "seg_in sb seg \<longleftrightarrow> unat seg div 60 < unat (get32 sb SB_segment_count_sit) * 512"

text \<open>
  The NAT area and the SIT area have no block in common, and none with the journal ring; their LBAs do
  not wrap.
\<close>

definition areas_ok :: "block \<Rightarrow> u64 \<Rightarrow> u64 \<Rightarrow> bool" where
  "areas_ok sb s e \<longleftrightarrow>
     (\<forall>nid. nid_in sb nid \<longrightarrow> nat_lpa sb nid < 0x20000000) \<and> (\<forall>seg. seg_in sb seg \<longrightarrow> sit_lpa sb seg < 0x20000000) \<and>
     (\<forall>nid seg. nid_in sb nid \<longrightarrow> seg_in sb seg \<longrightarrow> nat_lpa sb nid \<noteq> sit_lpa sb seg) \<and>
     (\<forall>nid c. nid_in sb nid \<longrightarrow> s \<le> c \<longrightarrow> c < e \<longrightarrow> LPA_TO_LBA32 (nat_lpa sb nid) \<noteq> LPA_TO_LBA64 c) \<and>
     (\<forall>seg c. seg_in sb seg \<longrightarrow> s \<le> c \<longrightarrow> c < e \<longrightarrow> LPA_TO_LBA32 (sit_lpa sb seg) \<noteq> LPA_TO_LBA64 c)"

lemma unat_mod_inj: "unat (a mod d) = unat (b mod d) \<Longrightarrow> a div d = b div d \<Longrightarrow> a = (b :: u32)"
  by (metis unat_word_eqI word_div_mod_cong)

lemma nat_table_put:
  "nat_table sb (v(nat_lpa sb nid := putNatEntry (v (nat_lpa sb nid)) (unat (nid mod 512) * 8) x)) = (nat_table sb v)(nid := x)"
proof
  fix n
  show "nat_table sb (v(nat_lpa sb nid := putNatEntry (v (nat_lpa sb nid)) (unat (nid mod 512) * 8) x)) n = ((nat_table sb v)(nid := x)) n"
  proof (cases "nat_lpa sb n = nat_lpa sb nid")
    case True
    then have "n div 512 = nid div 512"
      by (simp add: nat_lpa_def)
    then show ?thesis
      using True cnat.get_put_slot [of "v (nat_lpa sb nid)" 0 "unat (nid mod 512)" x "unat (n mod 512)"]
        unat_mod_inj [of nid 512 n] by (auto simp: nat_table_def)
  next
    case False
    then show ?thesis by (auto simp: nat_table_def)
  qed
qed

lemma sit_table_put:
  assumes "sit_ok x"
  shows "sit_table sb (v(sit_lpa sb seg := putSitEntry (v (sit_lpa sb seg)) (unat (seg mod 60) * 68) x)) = (sit_table sb v)(seg := x)"
proof
  fix n
  show "sit_table sb (v(sit_lpa sb seg := putSitEntry (v (sit_lpa sb seg)) (unat (seg mod 60) * 68) x)) n = ((sit_table sb v)(seg := x)) n"
  proof (cases "sit_lpa sb n = sit_lpa sb seg")
    case True
    then have "n div 60 = seg div 60"
      by (simp add: sit_lpa_def)
    then show ?thesis
      using True csit.get_put_slot [OF assms, of "v (sit_lpa sb seg)" 0 "unat (seg mod 60)" "unat (n mod 60)"]
        unat_mod_inj [of seg 60 n] by (auto simp: sit_table_def)
  next
    case False
    then show ?thesis by (auto simp: sit_table_def)
  qed
qed

lemma nat_spec_table: "nat_table sb (nat_spec sb es v) = nat_apply es (nat_table sb v)"
  by (induction es arbitrary: v) (simp add: nat_spec_def, simp add: spec_Cons nat_table_put)

lemma sit_spec_table: "list_all sitj_ok es \<Longrightarrow> sit_table sb (sit_spec sb es v) = sit_apply es (sit_table sb v)"
  by (induction es arbitrary: v) (simp add: sit_spec_def, simp add: spec_Cons sit_table_put sitj_ok_def)

lemma nat_spec_frame: "\<forall>e \<in> set es. nat_lpa sb (nj_nid e) \<noteq> lpa \<Longrightarrow> nat_spec sb es v lpa = v lpa"
  by (induction es arbitrary: v) (simp add: nat_spec_def, auto simp: spec_Cons)

lemma sit_spec_frame: "\<forall>e \<in> set es. sit_lpa sb (sj_segID e) \<noteq> lpa \<Longrightarrow> sit_spec sb es v lpa = v lpa"
  by (induction es arbitrary: v) (simp add: sit_spec_def, auto simp: spec_Cons)

lemma apply_cong:
  "t n = t' n \<Longrightarrow> nat_apply es t n = nat_apply es t' n" "u n = u' n \<Longrightarrow> sit_apply ss u n = sit_apply ss u' n"
proof -
  show "nat_apply es t n = nat_apply es t' n" if "t n = t' n"
    using that
  proof (induction es arbitrary: t t')
    case (Cons e es)
    show ?case unfolding apply_simps by (rule Cons.IH) (simp add: Cons.prems)
  qed simp
  show "sit_apply ss u n = sit_apply ss u' n" if "u n = u' n"
    using that
  proof (induction ss arbitrary: u u')
    case (Cons s ss)
    show ?case unfolding apply_simps by (rule Cons.IH) (simp add: Cons.prems)
  qed simp
qed

lemma items_tables:
  assumes "list_all (item_ok dev sb) its" and "list_all sitj_ok (sits_of its)" and "areas_ok sb s e"
  shows "nid_in sb nid \<Longrightarrow> nat_table sb (items_spec sb its v) nid = nat_apply (nats_of its) (nat_table sb v) nid"
    and "seg_in sb seg \<Longrightarrow> sit_table sb (items_spec sb its v) seg = sit_apply (sits_of its) (sit_table sb v) seg"
  using assms
proof (induction its arbitrary: v)
  case Nil
  { case 1 then show ?case by (simp add: items_spec_def) }
  { case 2 then show ?case by (simp add: items_spec_def) }
next
  case (Cons it its)
  have step: "items_spec sb (it # its) v = items_spec sb its (item_spec sb it v)" for v
    by (simp add: items_spec_def)
  {
    case 1
    have ih: "nat_table sb (items_spec sb its (item_spec sb it v)) nid = nat_apply (nats_of its) (nat_table sb (item_spec sb it v)) nid"
      using 1 by (intro Cons.IH(1)) (cases it; simp)+
    have "nat_table sb (item_spec sb it v) nid = nat_apply (nats_of [it]) (nat_table sb v) nid"
    proof (cases it)
      case (JSit es)
      have "sit_spec sb es v (nat_lpa sb nid) = v (nat_lpa sb nid)"
      proof (rule sit_spec_frame, rule ballI)
        fix x assume "x \<in> set es"
        then have "seg_in sb (sj_segID x)"
          using 1(2) JSit by (simp add: list_all_iff sit_entry_ok_def seg_in_def)
        then show "sit_lpa sb (sj_segID x) \<noteq> nat_lpa sb nid"
          using 1(1,4) unfolding areas_ok_def by metis
      qed
      with JSit show ?thesis by (simp add: nat_table_def)
    qed (simp_all add: nat_spec_table)
    from apply_cong(1) [where t = "nat_table sb (item_spec sb it v)" and t' = "nat_apply (nats_of [it]) (nat_table sb v)" and n = nid, OF this]
    show ?case
      using entries_of_simps(5) [of "[it]" its] ih by (simp add: step apply_append)
  }
  {
    case 2
    have ih: "sit_table sb (items_spec sb its (item_spec sb it v)) seg = sit_apply (sits_of its) (sit_table sb (item_spec sb it v)) seg"
      using 2 by (intro Cons.IH(2)) (cases it; simp)+
    have "sit_table sb (item_spec sb it v) seg = sit_apply (sits_of [it]) (sit_table sb v) seg"
    proof (cases it)
      case (JNat es)
      have "nat_spec sb es v (sit_lpa sb seg) = v (sit_lpa sb seg)"
      proof (rule nat_spec_frame, rule ballI)
        fix x assume "x \<in> set es"
        then have "nid_in sb (nj_nid x)"
          using 2(2) JNat by (simp add: list_all_iff nat_entry_ok_def nid_in_def)
        then show "nat_lpa sb (nj_nid x) \<noteq> sit_lpa sb seg"
          using 2(1,4) unfolding areas_ok_def by metis
      qed
      with JNat show ?thesis by (simp add: sit_table_def)
    next
      case (JSit es)
      then show ?thesis using 2 by (simp add: sit_spec_table)
    qed simp
    from apply_cong(2) [where u = "sit_table sb (item_spec sb it v)" and u' = "sit_apply (sits_of [it]) (sit_table sb v)" and n = seg, OF this]
    show ?case
      using entries_of_simps(6) [of "[it]" its] ih by (simp add: step apply_append)
  }
qed

text \<open>
  The values a key can have after the entries of a journal have been applied in some order: one of those journalled for
  it, or the old one when there is none.
\<close>

definition journalled :: "('e \<Rightarrow> u32) \<Rightarrow> ('e \<Rightarrow> 'v) \<Rightarrow> 'e list \<Rightarrow> u32 \<Rightarrow> 'v list" where
  "journalled key val es k = map val (filter (\<lambda>e. key e = k) es)"

definition journal_choices :: "('e \<Rightarrow> u32) \<Rightarrow> ('e \<Rightarrow> 'v) \<Rightarrow> 'e list \<Rightarrow> (u32 \<Rightarrow> 'v) \<Rightarrow> u32 \<Rightarrow> 'v set" where
  "journal_choices key val es old k =
     (if journalled key val es k = [] then {old k} else set (journalled key val es k))"

lemma nat_apply_last:
  "nat_apply es t n = last (t n # journalled nj_nid nj_newValue es n)"
  by (induction es arbitrary: t) (auto simp: journalled_def apply_simps)

lemma sit_apply_last:
  "sit_apply es t n = last (t n # journalled sj_segID sj_newValue es n)"
  by (induction es arbitrary: t) (auto simp: journalled_def apply_simps)

lemma last_choice: "last (old k # journalled key val es k) \<in> journal_choices key val es old k"
  by (auto simp: journal_choices_def)

text \<open>The order of the entries does not matter for a key that has at most one.\<close>

lemma choices_perm:
  assumes "mset es = mset es'"
  shows "journal_choices key val es old k = journal_choices key val es' old k"
    and "length (journalled key val es' k) \<le> 1 \<Longrightarrow> journalled key val es k = journalled key val es' k"
proof -
  have m: "mset (journalled key val es k) = mset (journalled key val es' k)"
    using assms by (simp add: journalled_def)
  show "journal_choices key val es old k = journal_choices key val es' old k"
    unfolding journal_choices_def mset_eq_setD [OF m] mset_zero_iff [symmetric] m ..
  show "journalled key val es k = journalled key val es' k" if "length (journalled key val es' k) \<le> 1"
    using m that by (cases "journalled key val es' k") (simp_all add: mset_single_iff)
qed

lemma apply_perm:
  assumes "mset es = mset es'"
  shows "nat_apply es t n \<in> journal_choices nj_nid nj_newValue es' t n"
    and "length (journalled nj_nid nj_newValue es' n) \<le> 1 \<Longrightarrow> nat_apply es t n = nat_apply es' t n"
  using last_choice [of t n nj_nid nj_newValue es] choices_perm(1) [OF assms, of nj_nid nj_newValue t n]
    choices_perm(2) [OF assms, of nj_nid nj_newValue n]
  unfolding nat_apply_last by (simp_all del: last.simps)

lemma sit_apply_perm:
  assumes "mset es = mset es'"
  shows "sit_apply es t n \<in> journal_choices sj_segID sj_newValue es' t n"
    and "length (journalled sj_segID sj_newValue es' n) \<le> 1 \<Longrightarrow> sit_apply es t n = sit_apply es' t n"
  using last_choice [of t n sj_segID sj_newValue es] choices_perm(1) [OF assms, of sj_segID sj_newValue t n]
    choices_perm(2) [OF assms, of sj_segID sj_newValue n]
  unfolding sit_apply_last by (simp_all del: last.simps)

subsection \<open>From the container to the recovered tables\<close>

definition journal_ok :: "comm_dev \<Rightarrow> block \<Rightarrow> JournalContainer \<Rightarrow> bool" where
  "journal_ok dev sb j \<longleftrightarrow> list_all super_entry_ok (superBlockJournal j) \<and> aligned_entries (superBlockJournal j) \<and>
     list_all (nat_entry_ok dev sb) (natJournal j) \<and>
     list_all (sit_entry_ok dev sb) (sitJournal j) \<and> list_all sitj_ok (sitJournal j)"

lemma items_ok:
  "list_all (item_ok dev sb) its \<longleftrightarrow> list_all super_entry_ok (supers_of its) \<and>
     list_all (nat_entry_ok dev sb) (nats_of its) \<and> list_all (sit_entry_ok dev sb) (sits_of its)"
proof (induction its)
  case (Cons it its)
  then show ?case by (cases it) auto
qed simp

lemma list_all_mset: "mset xs = mset ys \<Longrightarrow> list_all P ys \<Longrightarrow> list_all P xs"
  by (metis list_all_iff mset_eq_setD)

lemma entry_ok_media [simp]:
  "nat_entry_ok (dev\<lparr>media := m\<rparr>) sb = nat_entry_ok dev sb" "sit_entry_ok (dev\<lparr>media := m\<rparr>) sb = sit_entry_ok dev sb"
  by (simp_all add: nat_entry_ok_def sit_entry_ok_def lpa_fine_def fun_eq_iff)

lemma tx_inv_init: "tx_inv dev sb (comm_recovery_tx_state_init sb)"
  and tx_view_init: "tx_view dev (comm_recovery_tx_state_init sb) = dev_view dev"
  and tx_super_init: "tx_super_block (comm_recovery_tx_state_init sb) = sb"
  by (simp_all add: tx_inv_def comm_recovery_tx_state_init_def same_geometry_def tx_view_def tx_find_def
      dev_view_def fun_eq_iff)

lemma super_apply_dedup:
  assumes "korder_ok korder" and "aligned_entries js"
  shows "super_apply (ov_entries (superJournalOutputVectorPrepareOutput korder js
      (superJournalOutputVectorGenerateOutputVector js))) sb = super_apply js sb"
proof
  fix i
  note v = super_vector [OF assms(1), of js]
  have "aligned_entries (ov_entries (superJournalOutputVectorPrepareOutput korder js
      (superJournalOutputVectorGenerateOutputVector js)))"
    using v(4) assms(2) by (auto simp: aligned_entries_def list_all_iff)
  then show "super_apply (ov_entries (superJournalOutputVectorPrepareOutput korder js
      (superJournalOutputVectorGenerateOutputVector js))) sb i = super_apply js sb i"
    using super_apply_latest assms(2) v(2) by simp
qed

lemma replay_jtx:
  assumes "jtx bs its" and "length bs \<le> unat (e - s)"
    and "\<forall>i < length bs. comm_recovery_read_lpa dev (ucast (jpos s e start i)) = (RC0, bs ! i)"
    and "list_all (item_ok dev sb) its" and "\<forall>lpa. in_main sb lpa \<longrightarrow> dev_ok dev lpa"
  shows "\<exists>m rec. comm_recovery_replay_one_transaction dev sb start s e =
      (RC0, dev\<lparr>media := m, recoveredReclaim := recoveredReclaim dev @ rec\<rparr>,
       Some (jpos s e start (length bs), super_apply (supers_of its) sb)) \<and>
    (\<forall>lpa < 0x20000000. m (LPA_TO_LBA32 lpa) = items_spec sb its (dev_view dev) lpa) \<and>
    (\<forall>(ds, ns) \<in> set rec. \<forall>lpa \<in> set ds \<union> set ns. in_main sb lpa)"
proof -
  obtain m st' where r: "replay_blocks dev (comm_recovery_tx_state_init sb) (unat (e - s)) start s e =
      (RC0, comm_recovery_append_reclaim_record (dev\<lparr>media := m\<rparr>) st', Some (jpos s e start (length bs), tx_super_block st'))"
    and inv: "tx_inv dev sb st'" and m: "\<forall>lpa < 0x20000000. m (LPA_TO_LBA32 lpa) = items_spec sb its (dev_view dev) lpa"
    and sb': "tx_super_block st' = super_apply (supers_of its) sb"
    using replay_blocks_jtx [OF assms(1-4) tx_inv_init assms(5)] unfolding tx_view_init tx_super_init by blast
  let ?rec = "if tx_reclaim_data_lpas st' = [] \<and> tx_reclaim_node_lpas st' = [] then []
    else [(tx_reclaim_data_lpas st', tx_reclaim_node_lpas st')]"
  have "bs \<noteq> []"
    using assms(1) by cases auto
  with assms(2) have "e - s \<noteq> 0"
    by auto
  then have "comm_recovery_replay_one_transaction dev sb start s e =
      (RC0, dev\<lparr>media := m, recoveredReclaim := recoveredReclaim dev @ ?rec\<rparr>,
       Some (jpos s e start (length bs), super_apply (supers_of its) sb))"
    unfolding comm_recovery_replay_one_transaction_def r sb' by (simp add: comm_recovery_append_reclaim_record_def)
  moreover have "\<forall>(ds, ns) \<in> set ?rec. \<forall>lpa \<in> set ds \<union> set ns. in_main sb lpa"
    using inv by (auto simp: tx_inv_def)
  ultimately show ?thesis using m by blast
qed

lemma collected:
  assumes "jw_curJournal w = Some j" and "korder_ok korder" and "2 \<le> t" and "list_all sitj_ok (sitJournal j)"
    and "journalWriterCollectPendingJournalToWriteBuffer fresh korder t w = Some (n, w')"
  obtains its where "n = 1 + jw_bufferTailIdx w'" and "jtx (take n (jw_journalBuffer w')) its"
    and "n \<le> length (jw_journalBuffer w')" and "jw_frame w' = jw_frame w"
    and "supers_of its = ov_entries (superJournalOutputVectorPrepareOutput korder (superBlockJournal j)
      (superJournalOutputVectorGenerateOutputVector (superBlockJournal j)))"
    and "mset (nats_of its) = mset (natJournal j)" and "mset (sits_of its) = mset (sitJournal j)"
proof -
  obtain w'' its where c: "journalWriterCollectPendingJournalToWriteBuffer fresh korder t w = Some (1 + jw_bufferTailIdx w'', w'')"
    "jtx (take (1 + jw_bufferTailIdx w'') (jw_journalBuffer w'')) its"
    "1 + jw_bufferTailIdx w'' \<le> length (jw_journalBuffer w'')" "jw_frame w'' = jw_frame w"
    "supers_of its = ov_entries (superJournalOutputVectorPrepareOutput korder (superBlockJournal j)
      (superJournalOutputVectorGenerateOutputVector (superBlockJournal j)))"
    "nats_of its = ov_entries (natJournalOutputVectorPrepareOutput (natJournal j)
      (natJournalOutputVectorGenerateOutputVector t (natJournal j)))"
    "sits_of its = ov_entries (sitJournalOutputVectorPrepareOutput (sitJournal j)
      (sitJournalOutputVectorGenerateOutputVector t (sitJournal j)))"
    by (rule collect_correct [OF assms(1-4)])
  have e: "n = 1 + jw_bufferTailIdx w''" "w' = w''"
    using c(1) assms(5) by simp_all
  show thesis
    by (rule that [of its]) (use c e nat_vector(2) [OF assms(3)] sit_vector(2) [OF assms(3,4)] in simp_all)
qed

text \<open>
  Claim C4. Replaying a transaction: when the blocks from the scan position on are a well-formed
  transaction (full blocks of records, the last ended by an END record), the recovery commits it. The
  super block it returns is the old one with the super block entries applied in order, every block of
  the device below the 32-bit LBA limit holds what the NAT and SIT entries make of it, the scan goes on
  after the transaction, and every LPA queued for reclaim lies in the main area.
\<close>

theorem replay_applies_transaction:
  assumes "jtx bs its" and "length bs \<le> unat (e - s)"
    and "\<forall>i < length bs. comm_recovery_read_lpa dev (ucast (jpos s e start i)) = (RC0, bs ! i)"
    and "list_all (item_ok dev sb) its" and "\<forall>lpa. in_main sb lpa \<longrightarrow> dev_ok dev lpa"
  shows "\<exists>m rec. comm_recovery_replay_one_transaction dev sb start s e =
      (RC0, dev\<lparr>media := m, recoveredReclaim := recoveredReclaim dev @ rec\<rparr>,
       Some (jpos s e start (length bs), super_apply (supers_of its) sb)) \<and>
    (\<forall>lpa < 0x20000000. m (LPA_TO_LBA32 lpa) = items_spec sb its (dev_view dev) lpa) \<and>
    (\<forall>(ds, ns) \<in> set rec. \<forall>lpa \<in> set ds \<union> set ns. in_main sb lpa)"
  using assms by (rule replay_jtx)

text \<open>
  Claim C1. The journal from end to end: a pending journal whose entries are well-formed and which fits the ring, collected by
  the writer and written to a healthy device, is replayed by the recovery completely. The super block the replay returns
  is the old one with the entries of the container applied in order. Every NAT and SIT entry that the journal does not
  name is as it was; one that it names once has the value journalled for it; one that it names several times has one
  of the values journalled for it, not always the last, because the writer's tree does not keep the order of entries with
  equal keys. The replay stops right behind the transaction.
\<close>

theorem journal_roundtrip:
  fixes w cur
  defines "s \<equiv> jw_startLpa w" and "e \<equiv> jw_endLpa w"
  assumes "jw_curJournal w = Some j" and "korder_ok korder" and "2 \<le> t" and "journal_ok dev sb j"
    and "ring_ok dev s e" and "s \<le> cur" and "cur < e" and "areas_ok sb s e"
    and "\<forall>lpa. in_main sb lpa \<longrightarrow> dev_ok dev lpa"
    and "journalWriterCollectPendingJournalToWriteBuffer fresh korder t w = Some (n, w')" and "n \<le> unat (e - s)"
  shows "\<exists>dev1 dev2. journalWriterWriteToSsd dev w' cur = Some dev1 \<and>
    comm_recovery_replay_one_transaction dev1 sb cur s e =
      (RC0, dev2, Some (jpos s e cur n, super_apply (superBlockJournal j) sb)) \<and>
    (\<forall>nid. nid_in sb nid \<longrightarrow>
      nat_table sb (dev_view dev2) nid \<in> journal_choices nj_nid nj_newValue (natJournal j) (nat_table sb (dev_view dev)) nid \<and>
      (length (journalled nj_nid nj_newValue (natJournal j) nid) \<le> 1 \<longrightarrow>
        nat_table sb (dev_view dev2) nid = nat_apply (natJournal j) (nat_table sb (dev_view dev)) nid)) \<and>
    (\<forall>seg. seg_in sb seg \<longrightarrow>
      sit_table sb (dev_view dev2) seg \<in> journal_choices sj_segID sj_newValue (sitJournal j) (sit_table sb (dev_view dev)) seg \<and>
      (length (journalled sj_segID sj_newValue (sitJournal j) seg) \<le> 1 \<longrightarrow>
        sit_table sb (dev_view dev2) seg = sit_apply (sitJournal j) (sit_table sb (dev_view dev)) seg))"
proof -
  note jok = assms(6) [unfolded journal_ok_def]
  obtain its where n: "n = 1 + jw_bufferTailIdx w'" and tx: "jtx (take n (jw_journalBuffer w')) its"
    and nb: "n \<le> length (jw_journalBuffer w')" and fr: "jw_frame w' = jw_frame w"
    and sup: "supers_of its = ov_entries (superJournalOutputVectorPrepareOutput korder (superBlockJournal j)
      (superJournalOutputVectorGenerateOutputVector (superBlockJournal j)))"
    and nat: "mset (nats_of its) = mset (natJournal j)" and sit: "mset (sits_of its) = mset (sitJournal j)"
    by (rule collected [OF assms(3-5) _ assms(12)]) (use jok in simp)
  have se: "jw_startLpa w' = s" "jw_endLpa w' = e"
    using fr by (simp_all add: jw_frame_def s_def e_def)
  let ?bs = "take n (jw_journalBuffer w')"
  have len: "length ?bs = n" using nb by simp
  obtain m where wr: "journalWriterWriteBlocks s e dev ?bs cur = Some (dev\<lparr>media := m\<rparr>)"
    and at: "\<forall>i < n. m (LPA_TO_LBA64 (jpos s e cur i)) = ?bs ! i"
    and rest: "\<forall>lba. (\<forall>c. s \<le> c \<longrightarrow> c < e \<longrightarrow> lba \<noteq> LPA_TO_LBA64 c) \<longrightarrow> m lba = media dev lba"
    using write_blocks_spec [OF assms(7-9), of ?bs] len assms(13) by auto
  let ?dev1 = "dev\<lparr>media := m\<rparr>"
  have w1: "journalWriterWriteToSsd dev w' cur = Some ?dev1"
    using wr n by (simp add: journalWriterWriteToSsd_def se)
  have reads: "\<forall>i < length ?bs. comm_recovery_read_lpa ?dev1 (ucast (jpos s e cur i)) = (RC0, ?bs ! i)"
  proof (intro allI impI)
    fix i assume "i < length ?bs"
    have c: "s \<le> jpos s e cur i" "jpos s e cur i < e"
      by (rule jpos_in [OF assms(8,9)])+
    have "jpos s e cur i < 0x20000000"
      by (rule order_less_le_trans [OF c(2)]) (use assms(7) in \<open>simp add: ring_ok_def\<close>)
    with c at \<open>i < length ?bs\<close> len assms(7) show "comm_recovery_read_lpa ?dev1 (ucast (jpos s e cur i)) = (RC0, ?bs ! i)"
      by (simp add: comm_recovery_read_lpa_def comm_read_def LBA_agree ring_ok_def)
  qed
  have "set (supers_of its) \<subseteq> set (superBlockJournal j)"
    using super_vector(4) [OF assms(4)] by (simp add: sup)
  then have "list_all super_entry_ok (supers_of its)"
    using jok by (auto simp: list_all_iff)
  then have ok: "list_all (item_ok ?dev1 sb) its"
    unfolding items_ok entry_ok_media using jok list_all_mset [OF nat] list_all_mset [OF sit] by simp
  have main: "\<forall>lpa. in_main sb lpa \<longrightarrow> dev_ok ?dev1 lpa"
    using assms(11) by simp
  obtain m2 rec where r: "comm_recovery_replay_one_transaction ?dev1 sb cur s e =
      (RC0, ?dev1\<lparr>media := m2, recoveredReclaim := recoveredReclaim ?dev1 @ rec\<rparr>,
       Some (jpos s e cur (length ?bs), super_apply (supers_of its) sb))"
    and v2: "\<forall>lpa < 0x20000000. m2 (LPA_TO_LBA32 lpa) = items_spec sb its (dev_view ?dev1) lpa"
    using replay_jtx [OF tx _ reads ok main] len assms(13) by auto
  let ?dev2 = "?dev1\<lparr>media := m2, recoveredReclaim := recoveredReclaim ?dev1 @ rec\<rparr>"
  note ar = assms(10) [unfolded areas_ok_def]
  have sits: "list_all sitj_ok (sits_of its)"
    by (rule list_all_mset [OF sit]) (use jok in simp)
  have nt: "nat_table sb (dev_view ?dev2) nid = nat_apply (nats_of its) (nat_table sb (dev_view dev)) nid" if "nid_in sb nid" for nid
  proof -
    have "dev_view ?dev2 (nat_lpa sb nid) = items_spec sb its (dev_view ?dev1) (nat_lpa sb nid)"
      using v2 ar that by (simp add: dev_view_def)
    then have "nat_table sb (dev_view ?dev2) nid = nat_table sb (items_spec sb its (dev_view ?dev1)) nid"
      by (simp add: nat_table_def)
    also have "\<dots> = nat_apply (nats_of its) (nat_table sb (dev_view ?dev1)) nid"
      by (rule items_tables(1) [OF ok sits assms(10) that])
    also have "\<dots> = nat_apply (nats_of its) (nat_table sb (dev_view dev)) nid"
      using rest ar that by (intro apply_cong(1)) (simp add: nat_table_def dev_view_def)
    finally show ?thesis .
  qed
  have st: "sit_table sb (dev_view ?dev2) seg = sit_apply (sits_of its) (sit_table sb (dev_view dev)) seg" if "seg_in sb seg" for seg
  proof -
    have "dev_view ?dev2 (sit_lpa sb seg) = items_spec sb its (dev_view ?dev1) (sit_lpa sb seg)"
      using v2 ar that by (simp add: dev_view_def)
    then have "sit_table sb (dev_view ?dev2) seg = sit_table sb (items_spec sb its (dev_view ?dev1)) seg"
      by (simp add: sit_table_def)
    also have "\<dots> = sit_apply (sits_of its) (sit_table sb (dev_view ?dev1)) seg"
      by (rule items_tables(2) [OF ok sits assms(10) that])
    also have "\<dots> = sit_apply (sits_of its) (sit_table sb (dev_view dev)) seg"
      using rest ar that by (intro apply_cong(2)) (simp add: sit_table_def dev_view_def)
    finally show ?thesis .
  qed
  have "super_apply (supers_of its) sb = super_apply (superBlockJournal j) sb"
    using super_apply_dedup [OF assms(4)] jok by (simp add: sup)
  then show ?thesis
    using w1 r len nt st apply_perm [OF nat] sit_apply_perm [OF sit]
    by (intro exI [of _ ?dev1] exI [of _ ?dev2]) simp
qed

subsection \<open>A file system whose journal can be replayed\<close>

definition rt_super :: block where
  "rt_super = put32 (put32 (put32 (put32 (put32 (put32 (put32 (put32 (put64 zero_block SB_block_count 2000)
     SB_magic RTFS_MAGIC_NUMBER) SB_nat_blkaddr 100) SB_segment_count_nat 1) SB_sit_blkaddr 700)
     SB_segment_count_sit 1) SB_main_blkaddr 1900) SB_meta_journal_blkaddr 1300) SB_segment_count_meta_journal 1"

definition rt_journal :: JournalContainer where
  "rt_journal = foldl journalContainerAppendNatJournalEntry journalContainerInit
     [\<lparr>nj_nid = 5, nj_newValue = \<lparr>nat_ino = 5, nat_block_addr = 1950\<rparr>\<rparr>,
      \<lparr>nj_nid = 6, nj_newValue = \<lparr>nat_ino = 6, nat_block_addr = 1960\<rparr>\<rparr>,
      \<lparr>nj_nid = 6, nj_newValue = \<lparr>nat_ino = 6, nat_block_addr = 1961\<rparr>\<rparr>]"

definition rt_writer :: JournalWriter where
  "rt_writer = journalWriterSetPendingJournal (journalWriterInit 1300 1812) rt_journal"

definition rt_end_block :: block where
  "rt_end_block = putHeader zero_block 0 \<lparr>mj_len = 4, mj_type = JOURNAL_TYPE_END, mj_rsv = 0\<rparr>"

lemma get64_put32_other: "off' + 8 \<le> off \<or> off + 4 \<le> off' \<Longrightarrow> get64 (put32 b off v) off' = get64 b off'"
  by (rule c64.cget_local) (auto simp: put32_frame)

lemma get16_put32_other: "off' + 2 \<le> off \<or> off + 4 \<le> off' \<Longrightarrow> get16 (put32 b off v) off' = get16 b off'"
  by (rule c16.cget_local) (auto simp: put32_frame)

lemma get16_put64_other: "off' + 2 \<le> off \<or> off + 8 \<le> off' \<Longrightarrow> get16 (put64 b off v) off' = get16 b off'"
  by (rule c16.cget_local) (auto simp: c64.cput_frame)

lemma rt_super_fields:
  "get32 rt_super SB_nat_blkaddr = 100" "get32 rt_super SB_segment_count_nat = 1" "get32 rt_super SB_sit_blkaddr = 700"
  "get32 rt_super SB_segment_count_sit = 1" "get32 rt_super SB_main_blkaddr = 1900" "get64 rt_super SB_block_count = 2000"
  "get32 rt_super SB_magic = RTFS_MAGIC_NUMBER" "get32 rt_super SB_meta_journal_blkaddr = 1300"
  "get32 rt_super SB_segment_count_meta_journal = 1" "get16 rt_super SB_meta_journal_end_blkoff = 0"
  by (simp_all add: rt_super_def c32.get_put_other get64_put32_other get16_put32_other get16_put64_other)

lemma rt_nat_lpa: "nid_in rt_super nid \<Longrightarrow> 100 \<le> unat (nat_lpa rt_super nid) \<and> unat (nat_lpa rt_super nid) < 612"
proof -
  assume "nid_in rt_super nid"
  then have u: "unat nid div 512 < 512" by (simp add: nid_in_def rt_super_fields)
  then have "unat (nat_lpa rt_super nid) = 100 + unat nid div 512"
    by (simp add: nat_lpa_def rt_super_fields unat_word_ariths unat_div)
  with u show ?thesis by simp
qed

lemma rt_sit_lpa: "seg_in rt_super seg \<Longrightarrow> 700 \<le> unat (sit_lpa rt_super seg) \<and> unat (sit_lpa rt_super seg) < 1212"
proof -
  assume "seg_in rt_super seg"
  then have u: "unat seg div 60 < 512" by (simp add: seg_in_def rt_super_fields)
  then have "unat (sit_lpa rt_super seg) = 700 + unat seg div 60"
    by (simp add: sit_lpa_def rt_super_fields unat_word_ariths unat_div)
  with u show ?thesis by simp
qed

lemma rt_lba:
  assumes "unat a < 1212" and "1300 \<le> c" and "c < 1812"
  shows "LPA_TO_LBA32 a \<noteq> LPA_TO_LBA64 c"
proof
  assume "LPA_TO_LBA32 a = LPA_TO_LBA64 c"
  moreover have "unat (LPA_TO_LBA32 a) = unat a * 8"
    using assms(1) by (simp add: LPA_TO_LBA32_def unat_mult_lem [THEN iffD1])
  moreover have "unat (LPA_TO_LBA64 c) = unat c * 8" and "1300 \<le> unat c"
    using assms(2,3) by (simp_all add: LPA_TO_LBA64_def word_le_nat_alt word_less_nat_alt unat_mult_lem [THEN iffD1])
  ultimately show False using assms(1) by simp
qed

lemma rt_areas: "areas_ok rt_super 1300 1812"
proof -
  have small: "nid_in rt_super nid \<Longrightarrow> unat (nat_lpa rt_super nid) < 1212"
    "seg_in rt_super seg \<Longrightarrow> unat (sit_lpa rt_super seg) < 1212" for nid seg
    using rt_nat_lpa [of nid] rt_sit_lpa [of seg] by auto
  have "nat_lpa rt_super nid < 0x20000000" if "nid_in rt_super nid" for nid
    using rt_nat_lpa [OF that] by (simp add: word_less_nat_alt)
  moreover have "sit_lpa rt_super seg < 0x20000000" if "seg_in rt_super seg" for seg
    using rt_sit_lpa [OF that] by (simp add: word_less_nat_alt)
  moreover have "nat_lpa rt_super nid \<noteq> sit_lpa rt_super seg" if "nid_in rt_super nid" "seg_in rt_super seg" for nid seg
    using rt_nat_lpa [OF that(1)] rt_sit_lpa [OF that(2)] by auto
  ultimately show ?thesis
    unfolding areas_ok_def using rt_lba small by auto
qed

lemma rt_journal_fields:
  "superBlockJournal rt_journal = []" "sitJournal rt_journal = []"
  "natJournal rt_journal = [\<lparr>nj_nid = 5, nj_newValue = \<lparr>nat_ino = 5, nat_block_addr = 1950\<rparr>\<rparr>,
    \<lparr>nj_nid = 6, nj_newValue = \<lparr>nat_ino = 6, nat_block_addr = 1960\<rparr>\<rparr>, \<lparr>nj_nid = 6, nj_newValue = \<lparr>nat_ino = 6, nat_block_addr = 1961\<rparr>\<rparr>]"
  by (simp_all add: rt_journal_def journal_append_defs journalContainerInit_def)

lemma rt_main: "\<forall>lpa. in_main rt_super lpa \<longrightarrow> dev_ok demo_dev lpa"
proof (intro allI impI demo_dev_ok)
  fix lpa assume "in_main rt_super lpa"
  then show "lpa < 2048"
    by (simp add: in_main_def rt_super_fields word_less_nat_alt)
qed

lemma rt_ring: "ring_ok demo_dev 1300 1812"
proof -
  have "comm_submit_rw_request_common demo_dev (LPA_TO_LBA64 c) = RC0" if "1300 \<le> c" "c < 1812" for c
  proof -
    have u: "unat c < 1812" using that(2) by (simp add: word_less_nat_alt)
    then have "unat (ucast c :: u32) = unat c"
      by (simp add: unsigned_ucast_eq take_bit_nat_eq_self)
    then have "dev_ok demo_dev (ucast c)"
      using u by (intro demo_dev_ok) (simp add: word_less_nat_alt)
    moreover have "c < 0x20000000" using u by (simp add: word_less_nat_alt)
    ultimately show ?thesis by (simp add: LBA_agree)
  qed
  then show ?thesis by (simp add: ring_ok_def)
qed

lemma rt_entry_ok: "journal_ok demo_dev rt_super rt_journal"
proof -
  have "dev_ok demo_dev 1950" "dev_ok demo_dev 1960" "dev_ok demo_dev 1961" "dev_ok demo_dev 100"
    by (rule demo_dev_ok, simp)+
  moreover have "nat_lpa rt_super 5 = 100" "nat_lpa rt_super 6 = 100"
    by (simp_all add: nat_lpa_def rt_super_fields)
  ultimately show ?thesis
    by (simp add: journal_ok_def rt_journal_fields aligned_entries_def nat_entry_ok_def lpa_fine_def rt_super_fields)
qed

lemmas writer_eval = journalWriterGetIthBufferBlock_def journalWriterEnsureBufferCapacity_def
  superJournalOutputVectorOutputToBuffer_def natJournalOutputVectorOutputToBuffer_def
  sitJournalOutputVectorOutputToBuffer_def outputVectorOutputToBuffer_def journalWriterNextBlock_def
  jw_store_def Let_def journalWriterAppendEndEntry_def

lemma rt_collect:
  "\<exists>w'. journalWriterCollectPendingJournalToWriteBuffer (\<lambda>_. zero_block) id 10 rt_writer = Some (1, w')"
proof -
  have calc: "genericCalculateWritableEntryNum 4096 12 3 = 3" "genericCalculateWritableEntryNum 4096 12 (Suc (Suc (Suc 0))) = 3"
    by (simp_all add: genericCalculateWritableEntryNum.simps)
  have sup: "superJournalOutputVectorPrepareOutput id [] (superJournalOutputVectorGenerateOutputVector []) =
      \<lparr>ov_journal = [], ov_outputIt = [], ov_restOutputNum = 0\<rparr>"
    by (simp add: superJournalOutputVectorPrepareOutput_def kh_keys_def)
  have sit: "sitJournalOutputVectorPrepareOutput [] (sitJournalOutputVectorGenerateOutputVector 10 []) =
      \<lparr>ov_journal = [], ov_outputIt = [], ov_restOutputNum = 0\<rparr>"
    by (simp add: sitJournalOutputVectorPrepareOutput_def sitJournalOutputVectorGenerateOutputVector_def kb_init_def)
  let ?js = "natJournal rt_journal"
  have "kb_inorder (natJournalOutputVectorGenerateOutputVector 10
      [\<lparr>nj_nid = a, nj_newValue = u\<rparr>, \<lparr>nj_nid = b, nj_newValue = v\<rparr>, \<lparr>nj_nid = b, nj_newValue = w\<rparr>]) = [(a, 0), (b, 1), (b, 2)]"
    if "a < b" "\<not> b < a" "a \<noteq> b" for a b u v w
    using that by (simp add: natJournalOutputVectorGenerateOutputVector_def kb_init_def kb_put_def kb_slot_def
        kb_lower.simps upt_rec numeral_2_eq_2)
  then have nat: "natJournalOutputVectorPrepareOutput ?js (natJournalOutputVectorGenerateOutputVector 10 ?js) =
      \<lparr>ov_journal = ?js, ov_outputIt = [0, 1, 2], ov_restOutputNum = 3\<rparr>"
    by (simp add: natJournalOutputVectorPrepareOutput_def rt_journal_fields)
  show ?thesis
    by (simp add: journalWriterCollectPendingJournalToWriteBuffer_def rt_writer_def journalWriterSetPendingJournal_def
        journalWriterInit_def rt_journal_fields(1,2) sup sit nat,
        (subst journalWriterOutputLoop.simps, simp add: writer_eval calc)+)
qed

theorem journal_roundtrip_witness:
  "\<exists>n w' dev1 dev2. journalWriterCollectPendingJournalToWriteBuffer (\<lambda>_. zero_block) id 10 rt_writer = Some (n, w') \<and>
    journalWriterWriteToSsd demo_dev w' 1310 = Some dev1 \<and>
    comm_recovery_replay_one_transaction dev1 rt_super 1310 1300 1812 =
      (RC0, dev2, Some (jpos 1300 1812 1310 n, super_apply (superBlockJournal rt_journal) rt_super)) \<and>
    nat_table rt_super (dev_view dev2) 5 = \<lparr>nat_ino = 5, nat_block_addr = 1950\<rparr> \<and>
    nat_table rt_super (dev_view dev2) 6 \<in> {\<lparr>nat_ino = 6, nat_block_addr = 1960\<rparr>, \<lparr>nat_ino = 6, nat_block_addr = 1961\<rparr>}"
proof -
  obtain w' where c: "journalWriterCollectPendingJournalToWriteBuffer (\<lambda>_. zero_block) id 10 rt_writer = Some (1, w')"
    using rt_collect by blast
  have w: "jw_startLpa rt_writer = 1300" "jw_endLpa rt_writer = 1812" "jw_curJournal rt_writer = Some rt_journal"
    by (simp_all add: rt_writer_def journalWriterInit_def journalWriterSetPendingJournal_def)
  have k: "korder_ok id"
    by (simp add: korder_ok_def)
  have n: "nid_in rt_super 5" "nid_in rt_super 6"
    by (simp_all add: nid_in_def rt_super_fields)
  have v: "length (journalled nj_nid nj_newValue (natJournal rt_journal) 5) \<le> 1"
    "journal_choices nj_nid nj_newValue (natJournal rt_journal) old 6 =
      {\<lparr>nat_ino = 6, nat_block_addr = 1960\<rparr>, \<lparr>nat_ino = 6, nat_block_addr = 1961\<rparr>}"
    "nat_apply (natJournal rt_journal) old 5 = \<lparr>nat_ino = 5, nat_block_addr = 1950\<rparr>" for old
    by (simp_all add: rt_journal_fields journalled_def journal_choices_def apply_simps)
  obtain dev1 dev2 where r: "journalWriterWriteToSsd demo_dev w' 1310 = Some dev1"
    "comm_recovery_replay_one_transaction dev1 rt_super 1310 1300 1812 =
      (RC0, dev2, Some (jpos 1300 1812 1310 1, super_apply (superBlockJournal rt_journal) rt_super))"
    and t: "\<And>nid. nid_in rt_super nid \<Longrightarrow>
      nat_table rt_super (dev_view dev2) nid \<in>
        journal_choices nj_nid nj_newValue (natJournal rt_journal) (nat_table rt_super (dev_view demo_dev)) nid \<and>
      (length (journalled nj_nid nj_newValue (natJournal rt_journal) nid) \<le> 1 \<longrightarrow>
        nat_table rt_super (dev_view dev2) nid = nat_apply (natJournal rt_journal) (nat_table rt_super (dev_view demo_dev)) nid)"
    using journal_roundtrip [OF w(3) k _ rt_entry_ok _ _ _ _ rt_main c, of 1310, unfolded w] rt_ring rt_areas by auto
  show ?thesis
    using c r t [OF n(1)] t [OF n(2)] v by (intro exI [of _ 1] exI [of _ w'] exI [of _ dev1] exI [of _ dev2]) simp
qed

theorem replay_applies_transaction_witness:
  "\<exists>dev2. comm_recovery_replay_one_transaction (demo_dev\<lparr>media := \<lambda>_. rt_end_block\<rparr>) rt_super 1300 1300 1812 =
     (RC0, dev2, Some (jpos 1300 1812 1300 1, rt_super))"
proof -
  let ?dev = "demo_dev\<lparr>media := \<lambda>_. rt_end_block\<rparr>"
  have tx: "jtx [rt_end_block] []"
    by (rule jtx_last [OF jseg.jseg_nil]) (simp add: rt_end_block_def record_at_def chdr.cget_cput)
  have "dev_ok demo_dev 1300"
    by (rule demo_dev_ok) simp
  then have reads: "\<forall>i < length [rt_end_block].
      comm_recovery_read_lpa ?dev (ucast (jpos 1300 1812 1300 i)) = (RC0, [rt_end_block] ! i)"
    by (simp add: comm_recovery_read_lpa_def comm_read_def jpos_simps)
  have main: "\<forall>lpa. in_main rt_super lpa \<longrightarrow> dev_ok ?dev lpa"
    using rt_main by simp
  show ?thesis
    using replay_applies_transaction [OF tx _ reads _ main] by auto
qed

end
