(* ===== verification/Recovery_Scan.thy ===== *)
theory Recovery_Scan
  imports Journal_Roundtrip
begin

text \<open>
  The whole recovery, \<^verbatim>\<open>comm_submit_fs_recover_from_db_request\<close>: the loop over the transactions of the
  ring. It replays every transaction up to the first block that does not start one; and, since
  transactions carry no identification, there are rings on which it does not end.
\<close>

subsection \<open>The geometry is all that matters of the super block\<close>

lemma geometry_super_apply:
  "list_all super_entry_ok es \<Longrightarrow> same_geometry sb (super_apply es sb)"
proof (induction es arbitrary: sb)
  case (Cons e es)
  have "same_geometry (put32 sb (unat (sbj_Off e)) (sbj_newVal e)) (super_apply es (put32 sb (unat (sbj_Off e)) (sbj_newVal e)))"
    using Cons by simp
  moreover have "same_geometry sb (put32 sb (unat (sbj_Off e)) (sbj_newVal e))"
    using Cons.prems by (simp add: same_geometry_def super_entry_ok_def put32_frame)
  ultimately show ?case by (simp add: same_geometry_def)
qed (simp add: same_geometry_def)

lemma geometry_lpa:
  assumes "same_geometry sb sb'"
  shows "nat_lpa sb' = nat_lpa sb" and "sit_lpa sb' = sit_lpa sb" and "in_main sb' = in_main sb"
    and "nat_entry_ok dev sb' = nat_entry_ok dev sb" and "sit_entry_ok dev sb' = sit_entry_ok dev sb"
    and "nid_in sb' = nid_in sb" and "seg_in sb' = seg_in sb"
  using same_geometry_fields [OF assms]
  by (simp_all add: fun_eq_iff nat_lpa_def sit_lpa_def in_main_def nat_entry_ok_def sit_entry_ok_def nid_in_def seg_in_def)

lemma geometry_items:
  assumes "same_geometry sb sb'"
  shows "item_ok dev sb' = item_ok dev sb" and "items_spec sb' = items_spec sb"
    and "nat_table sb' = nat_table sb" and "sit_table sb' = sit_table sb"
proof -
  note g = geometry_lpa [OF assms]
  show "item_ok dev sb' = item_ok dev sb"
  proof
    show "item_ok dev sb' it = item_ok dev sb it" for it by (cases it) (simp_all add: g)
  qed
  have "item_spec sb' it = item_spec sb it" for it
    by (cases it) (simp_all add: g nat_spec_def sit_spec_def fun_eq_iff)
  then show "items_spec sb' = items_spec sb"
    by (simp add: items_spec_def fun_eq_iff) (metis ext)
qed (simp_all add: nat_table_def sit_table_def geometry_lpa [OF assms] fun_eq_iff)

lemma item_ok_cong:
  "comm_submit_rw_request_common dev' = comm_submit_rw_request_common dev \<Longrightarrow> item_ok dev' sb = item_ok dev sb"
proof
  assume c: "comm_submit_rw_request_common dev' = comm_submit_rw_request_common dev"
  show "item_ok dev' sb it = item_ok dev sb it" for it
    by (cases it) (simp_all add: nat_entry_ok_def [abs_def] sit_entry_ok_def [abs_def] lpa_fine_def c)
qed

lemma items_spec_pointwise:
  assumes "v lpa = v' lpa"
  shows "items_spec sb its v lpa = items_spec sb its v' lpa"
  using assms
proof (induction its arbitrary: v v')
  case (Cons it its)
  have nat: "nat_spec sb es v lpa = nat_spec sb es v' lpa" if "v lpa = v' lpa" for es v v'
    using that
  proof (induction es arbitrary: v v')
    case (Cons x es)
    show ?case unfolding spec_Cons by (rule Cons.IH) (cases "lpa = nat_lpa sb (nj_nid x)", use Cons.prems in simp_all)
  qed (simp add: nat_spec_def)
  have sit: "sit_spec sb es v lpa = sit_spec sb es v' lpa" if "v lpa = v' lpa" for es v v'
    using that
  proof (induction es arbitrary: v v')
    case (Cons x es)
    show ?case unfolding spec_Cons by (rule Cons.IH) (cases "lpa = sit_lpa sb (sj_segID x)", use Cons.prems in simp_all)
  qed (simp add: sit_spec_def)
  have "item_spec sb it v lpa = item_spec sb it v' lpa"
    using nat [where v = v and v' = v', OF Cons.prems] sit [where v = v and v' = v', OF Cons.prems] Cons.prems by (cases it) simp_all
  from Cons.IH [where v = "item_spec sb it v" and v' = "item_spec sb it v'", OF this] show ?case
    by (simp add: items_spec_def)
qed (simp add: items_spec_def)

lemma items_spec_frame:
  assumes "list_all (item_ok dev sb) its" and "\<forall>nid. nid_in sb nid \<longrightarrow> nat_lpa sb nid \<noteq> lpa"
    and "\<forall>seg. seg_in sb seg \<longrightarrow> sit_lpa sb seg \<noteq> lpa"
  shows "items_spec sb its v lpa = v lpa"
  using assms(1)
proof (induction its arbitrary: v)
  case (Cons it its)
  have "item_spec sb it v lpa = v lpa"
  proof (cases it)
    case (JNat es)
    then show ?thesis using Cons.prems assms(2)
      by (auto simp: list_all_iff nat_entry_ok_def nid_in_def intro!: nat_spec_frame)
  next
    case (JSit es)
    then show ?thesis using Cons.prems assms(3)
      by (auto simp: list_all_iff sit_entry_ok_def seg_in_def intro!: sit_spec_frame)
  qed simp
  then show ?case using Cons by (simp add: items_spec_def)
qed (simp add: items_spec_def)

lemma ring_block_frame:
  assumes "areas_ok sb s e" and "list_all (item_ok dev sb) its" and "s \<le> c" and "c < e" and "e \<le> 0x20000000"
  shows "items_spec sb its v (ucast c) = v (ucast c)"
proof (rule items_spec_frame [OF assms(2)])
  have "LPA_TO_LBA32 (ucast c) = LPA_TO_LBA64 c"
    using assms(4,5) by (intro LBA_agree) (rule order_less_le_trans)
  then show "\<forall>nid. nid_in sb nid \<longrightarrow> nat_lpa sb nid \<noteq> ucast c" "\<forall>seg. seg_in sb seg \<longrightarrow> sit_lpa sb seg \<noteq> ucast c"
    using assms(1,3,4) unfolding areas_ok_def by metis+
qed

subsection \<open>The transactions of a ring\<close>

text \<open>
  From position \<open>pos\<close> on the ring holds the transactions \<open>txs\<close>, each with its blocks and records, and then
  a block whose first header has length 0.
\<close>

fun ring_txs :: "comm_dev \<Rightarrow> u64 \<Rightarrow> u64 \<Rightarrow> u64 \<Rightarrow> (block list \<times> jitem list) list \<Rightarrow> bool" where
  "ring_txs dev s e pos [] \<longleftrightarrow> (\<exists>b. comm_recovery_read_lpa dev (ucast pos) = (RC0, b) \<and> mj_len (getHeader b 0) = 0)"
| "ring_txs dev s e pos ((bs, its) # txs) \<longleftrightarrow> jtx bs its \<and>
     (\<forall>i < length bs. comm_recovery_read_lpa dev (ucast (jpos s e pos i)) = (RC0, bs ! i)) \<and>
     ring_txs dev s e (jpos s e pos (length bs)) txs"

abbreviation tx_items :: "(block list \<times> jitem list) list \<Rightarrow> jitem list" where
  "tx_items txs \<equiv> concat (map snd txs)"

abbreviation tx_blocks_num :: "(block list \<times> jitem list) list \<Rightarrow> nat" where
  "tx_blocks_num txs \<equiv> sum_list (map (\<lambda>tx. length (fst tx)) txs)"

lemma ring_txs_cong:
  assumes "\<forall>c. s \<le> c \<longrightarrow> c < e \<longrightarrow> comm_recovery_read_lpa dev' (ucast c) = comm_recovery_read_lpa dev (ucast c)"
    and "s \<le> pos" and "pos < e"
  shows "ring_txs dev' s e pos txs = ring_txs dev s e pos txs"
  using assms(2,3)
proof (induction txs arbitrary: pos)
  case Nil
  then show ?case using assms(1) by simp
next
  case (Cons tx txs)
  obtain bs its where tx: "tx = (bs, its)" by fastforce
  note j = jpos_in [OF Cons.prems]
  show ?case
    using Cons.IH [OF j] assms(1) j by (simp add: tx)
qed

lemma scan_empty:
  assumes "comm_recovery_read_lpa dev (ucast pos) = (RC0, b)" and "mj_len (getHeader b 0) = 0" and "e - s \<noteq> 0"
  shows "comm_recovery_replay_one_transaction dev sb pos s e = (RC0, dev, None)"
proof -
  obtain n where n: "unat (e - s) = Suc n"
    using assms(3) by (metis not0_implies_Suc unat_eq_zero)
  have "scan_block dev st b 0 = TxStop RC0" for st
    using assms(2) by (subst scan_block.simps) simp
  with assms n show ?thesis
    by (simp add: comm_recovery_replay_one_transaction_def)
qed

lemma recover_loop_spec:
  assumes "s \<le> start" and "start < e" and "e \<le> 0x20000000" and "areas_ok sb s e"
    and "ring_txs dev s e (jpos s e start k) txs" and "k + tx_blocks_num txs < unat (e - s)"
    and "list_all (item_ok dev sb) (tx_items txs)" and "list_all sitj_ok (sits_of (tx_items txs))"
    and "\<forall>lpa. in_main sb lpa \<longrightarrow> dev_ok dev lpa"
  shows "\<exists>m rec. recover_loop s e start dev sb (jpos s e start k) =
      Some (RC0, dev\<lparr>media := m, recoveredReclaim := recoveredReclaim dev @ rec\<rparr>,
        super_apply (supers_of (tx_items txs)) sb, jpos s e start (k + tx_blocks_num txs)) \<and>
    (\<forall>lpa < 0x20000000. m (LPA_TO_LBA32 lpa) = items_spec sb (tx_items txs) (dev_view dev) lpa)"
  using assms(4-)
proof (induction txs arbitrary: k dev sb)
  case Nil
  have ne: "e - s \<noteq> 0"
    using assms(1,2) by auto
  obtain b where b: "comm_recovery_read_lpa dev (ucast (jpos s e start k)) = (RC0, b)" "mj_len (getHeader b 0) = 0"
    using Nil.prems(2) by auto
  have "recover_loop s e start dev sb (jpos s e start k) = Some (RC0, dev, sb, jpos s e start k)"
    by (subst recover_loop.simps) (simp add: scan_empty [OF b ne])
  then show ?case
    by (intro exI [of _ "media dev"] exI [of _ "[]"]) (simp add: items_spec_def dev_view_def)
next
  case (Cons tx txs)
  obtain bs its where tx: "tx = (bs, its)" by fastforce
  let ?pos = "jpos s e start k" and ?next = "jpos s e start (k + length bs)" and ?sb = "super_apply (supers_of its) sb"
  have pos: "s \<le> ?pos" "?pos < e" and nxt: "s \<le> ?next" "?next < e"
    by (rule jpos_in [OF assms(1,2)])+
  have jt: "jtx bs its" and reads: "\<forall>i < length bs. comm_recovery_read_lpa dev (ucast (jpos s e ?pos i)) = (RC0, bs ! i)"
    and later: "ring_txs dev s e ?next txs"
    using Cons.prems(2) by (auto simp: tx jpos_add)
  have ok: "list_all (item_ok dev sb) its" "list_all (item_ok dev sb) (tx_items txs)"
    and sits: "list_all sitj_ok (sits_of (tx_items txs))"
    using Cons.prems(4,5) by (simp_all add: tx)
  have len: "length bs \<le> unat (e - s)" "0 < length bs"
    using Cons.prems(3) jt by (auto simp: tx elim: jtx.cases)
  obtain m rec where r: "comm_recovery_replay_one_transaction dev sb ?pos s e =
      (RC0, dev\<lparr>media := m, recoveredReclaim := recoveredReclaim dev @ rec\<rparr>, Some (?next, ?sb))"
    and m: "\<forall>lpa < 0x20000000. m (LPA_TO_LBA32 lpa) = items_spec sb its (dev_view dev) lpa"
    using replay_jtx [OF jt len(1) reads ok(1) Cons.prems(6)] by (auto simp: jpos_add)
  let ?dev = "dev\<lparr>media := m, recoveredReclaim := recoveredReclaim dev @ rec\<rparr>"
  have "list_all super_entry_ok (supers_of its)"
    using ok(1) by (simp add: items_ok)
  then have geo: "same_geometry sb ?sb"
    by (rule geometry_super_apply)
  have chk: "comm_submit_rw_request_common ?dev = comm_submit_rw_request_common dev"
    by (simp add: comm_submit_rw_request_common_def fun_eq_iff Let_def)
  have "comm_recovery_read_lpa ?dev (ucast c) = comm_recovery_read_lpa dev (ucast c)" if "s \<le> c" "c < e" for c
  proof -
    have "unat c < 536870912"
      using that(2) assms(3) by (simp add: word_less_nat_alt word_le_nat_alt)
    then have "(ucast c :: u32) < 0x20000000"
      by (simp add: word_less_nat_alt unsigned_ucast_eq take_bit_nat_eq_self)
    then have "m (LPA_TO_LBA32 (ucast c)) = media dev (LPA_TO_LBA32 (ucast c))"
      using m ring_block_frame [OF Cons.prems(1) ok(1) that assms(3)] by (simp add: dev_view_def)
    then show ?thesis by (simp add: comm_recovery_read_lpa_def comm_read_def chk)
  qed
  then have later': "ring_txs ?dev s e ?next txs"
    using ring_txs_cong [OF _ nxt, where dev' = ?dev and dev = dev] later by blast
  have areas: "areas_ok ?sb s e"
    using Cons.prems(1) by (simp add: areas_ok_def geometry_lpa [OF geo])
  have ok': "list_all (item_ok ?dev ?sb) (tx_items txs)"
    using ok(2) unfolding geometry_items [OF geo] item_ok_cong [OF chk] .
  have main: "\<forall>lpa. in_main ?sb lpa \<longrightarrow> dev_ok ?dev lpa"
    using Cons.prems(6) by (simp add: geometry_lpa [OF geo] chk)
  have num: "k + length bs + tx_blocks_num txs < unat (e - s)"
    using Cons.prems(3) by (simp add: tx)
  obtain m' rec' where l: "recover_loop s e start ?dev ?sb ?next =
      Some (RC0, ?dev\<lparr>media := m', recoveredReclaim := recoveredReclaim ?dev @ rec'\<rparr>,
        super_apply (supers_of (tx_items txs)) ?sb, jpos s e start (k + length bs + tx_blocks_num txs))"
    and m': "\<forall>lpa < 0x20000000. m' (LPA_TO_LBA32 lpa) = items_spec ?sb (tx_items txs) (dev_view ?dev) lpa"
    using Cons.IH [OF areas later' num ok' sits main] by blast
  have "?next \<noteq> start"
    using jpos_inj [OF assms(1,2), of 0 "k + length bs"] len(2) num by (simp add: jpos_simps)
  then have step: "recover_loop s e start dev sb ?pos = recover_loop s e start ?dev ?sb ?next"
    by (subst recover_loop.simps) (simp add: r)
  have view: "items_spec sb (tx_items txs) (dev_view ?dev) lpa = items_spec sb (tx_items (tx # txs)) (dev_view dev) lpa"
    if "lpa < 0x20000000" for lpa
  proof -
    have "dev_view ?dev lpa = items_spec sb its (dev_view dev) lpa"
      using m that by (simp add: dev_view_def)
    from items_spec_pointwise [where lpa = lpa and v = "dev_view ?dev" and v' = "items_spec sb its (dev_view dev)", OF this]
    show ?thesis
      by (simp add: tx) (simp add: items_spec_def)
  qed
  show ?case
    using l m' view unfolding step geometry_items(2) [OF geo] by (auto simp: tx apply_append add.assoc)
qed

subsection \<open>The whole recovery\<close>

text \<open>
  Claim C2. Recovery replays everything: with the transactions \<open>txs\<close> on the ring from the recorded end on,
  shorter together than the ring and followed by an empty block, recovery returns success. The super
  block on the device is the old one with all super block entries applied and the two journal offsets
  moved behind the last transaction, the NAT and the SIT are the old ones with all entries applied in
  order, and the journal head and tail are behind the last transaction.
\<close>

theorem recovery_replays_ring:
  fixes dev sb
  defines "s \<equiv> ucast (get32 sb SB_meta_journal_blkaddr) :: u64"
    and "jsize \<equiv> ucast (get32 sb SB_segment_count_meta_journal) * 512 :: u64"
  defines "start \<equiv> s + ucast (get16 sb SB_meta_journal_end_blkoff) mod jsize"
  assumes "comm_recovery_read_lpa dev 0 = (RC0, sb)" and "get32 sb SB_magic = RTFS_MAGIC_NUMBER"
    and "0 < jsize" and "unat s + unat jsize \<le> 0x20000000" and "areas_ok sb s (s + jsize)"
    and "\<forall>nid. nid_in sb nid \<longrightarrow> nat_lpa sb nid \<noteq> 0" and "\<forall>seg. seg_in sb seg \<longrightarrow> sit_lpa sb seg \<noteq> 0"
    and "ring_txs dev s (s + jsize) start txs" and "tx_blocks_num txs < unat jsize"
    and "list_all (item_ok dev sb) (tx_items txs)" and "list_all sitj_ok (sits_of (tx_items txs))"
    and "\<forall>lpa. in_main sb lpa \<longrightarrow> dev_ok dev lpa"
  shows "\<exists>dev'. comm_submit_fs_recover_from_db_request dev = Some (RC0, dev') \<and>
    dev_view dev' 0 = (let off = ucast ((jpos s (s + jsize) start (tx_blocks_num txs) - s) mod jsize) in
      put16 (put16 (super_apply (supers_of (tx_items txs)) sb) SB_meta_journal_start_blkoff off) SB_meta_journal_end_blkoff off) \<and>
    (\<forall>nid. nid_in sb nid \<longrightarrow> nat_table sb (dev_view dev') nid = nat_apply (nats_of (tx_items txs)) (nat_table sb (dev_view dev)) nid) \<and>
    (\<forall>seg. seg_in sb seg \<longrightarrow> sit_table sb (dev_view dev') seg = sit_apply (sits_of (tx_items txs)) (sit_table sb (dev_view dev)) seg) \<and>
    metaJournalTailLpa dev' = jpos s (s + jsize) start (tx_blocks_num txs) \<and> metaJournalHeadLpa dev' = metaJournalTailLpa dev'"
proof -
  let ?e = "s + jsize" and ?dev = "commDevClearRecoveredReclaimRecords dev"
  let ?fin = "jpos s ?e start (tx_blocks_num txs)" and ?sb1 = "super_apply (supers_of (tx_items txs)) sb"
  have ue: "unat ?e = unat s + unat jsize"
    using assms(7) by (simp add: unat_word_ariths)
  have sz: "?e - s = jsize" by simp
  have "unat (ucast (get16 sb SB_meta_journal_end_blkoff) mod jsize) < unat jsize"
    using assms(6) by (simp add: unat_mod word_less_nat_alt)
  then have us: "unat start = unat s + unat (ucast (get16 sb SB_meta_journal_end_blkoff) mod jsize)"
    using assms(7) by (simp add: start_def unat_word_ariths)
  have st: "s \<le> start" "start < ?e" "?e \<le> 0x20000000"
    using us ue \<open>unat (ucast (get16 sb SB_meta_journal_end_blkoff) mod jsize) < unat jsize\<close> assms(7)
    by (simp_all add: word_le_nat_alt word_less_nat_alt)
  have chk: "comm_submit_rw_request_common ?dev = comm_submit_rw_request_common dev" and media: "media ?dev = media dev"
    by (simp_all add: commDevClearRecoveredReclaimRecords_def comm_submit_rw_request_common_def fun_eq_iff Let_def)
  have read: "comm_recovery_read_lpa ?dev = comm_recovery_read_lpa dev" and view: "dev_view ?dev = dev_view dev"
    by (simp_all add: comm_recovery_read_lpa_def comm_read_def dev_view_def chk media fun_eq_iff)
  have ring: "ring_txs ?dev s ?e (jpos s ?e start 0) txs"
    using assms(11) ring_txs_cong [OF _ st(1,2), of ?dev dev] by (simp add: jpos_simps read)
  have num: "0 + tx_blocks_num txs < unat (?e - s)"
    using assms(12) by simp
  have ok: "list_all (item_ok ?dev sb) (tx_items txs)"
    using assms(13) unfolding item_ok_cong [OF chk] .
  have main: "\<forall>lpa. in_main sb lpa \<longrightarrow> dev_ok ?dev lpa"
    using assms(15) by (simp add: chk)
  obtain m rec where l: "recover_loop s ?e start ?dev sb start =
      Some (RC0, ?dev\<lparr>media := m, recoveredReclaim := recoveredReclaim ?dev @ rec\<rparr>, ?sb1, ?fin)"
    and m: "\<forall>lpa < 0x20000000. m (LPA_TO_LBA32 lpa) = items_spec sb (tx_items txs) (dev_view dev) lpa"
    using recover_loop_spec [OF st assms(8) ring num ok assms(14) main] by (auto simp: jpos_simps view)
  let ?off = "ucast ((?fin - s) mod jsize) :: u16"
  let ?sb2 = "put16 (put16 ?sb1 SB_meta_journal_start_blkoff ?off) SB_meta_journal_end_blkoff ?off"
  define dev1 where "dev1 = ?dev\<lparr>media := m(LPA_TO_LBA32 0 := ?sb2), recoveredReclaim := recoveredReclaim ?dev @ rec\<rparr>"
  define dev2 where "dev2 = dev1\<lparr>metaJournalStartLpa := s, metaJournalEndLpa := ?e, metaJournalHeadLpa := ?fin,
      metaJournalTailLpa := ?fin\<rparr>"
  have "dev_ok dev 0"
    using assms(4) by (simp add: comm_recovery_read_lpa_def comm_read_def)
  moreover have "comm_submit_rw_request_common (?dev\<lparr>media := m, recoveredReclaim := recoveredReclaim ?dev @ rec\<rparr>) =
      comm_submit_rw_request_common dev"
    unfolding chk [symmetric] by (simp add: comm_submit_rw_request_common_def fun_eq_iff Let_def)
  ultimately have w: "comm_recovery_write_lpa (?dev\<lparr>media := m, recoveredReclaim := recoveredReclaim ?dev @ rec\<rparr>) 0 ?sb2 = (RC0, dev1)"
    by (simp add: comm_recovery_write_lpa_def comm_write_def dev1_def)
  have ne: "jsize \<noteq> 0"
    using assms(6) by auto
  have r: "comm_submit_fs_recover_from_db_request dev = Some (RC0, dev2)"
    using assms(4,5) ne l w
    by (simp add: comm_submit_fs_recover_from_db_request_def read Let_def s_def [symmetric] jsize_def [symmetric]
        start_def [symmetric] dev2_def)
  have v: "dev_view dev2 lpa = items_spec sb (tx_items txs) (dev_view dev) lpa" if "lpa < 0x20000000" "lpa \<noteq> 0" for lpa
    using m that LPA_TO_LBA32_inj [of lpa 0] by (auto simp: dev_view_def dev2_def dev1_def)
  note ar = assms(8) [unfolded areas_ok_def]
  have "nat_table sb (dev_view dev2) nid = nat_apply (nats_of (tx_items txs)) (nat_table sb (dev_view dev)) nid" if "nid_in sb nid" for nid
    using items_tables(1) [OF assms(13,14,8) that, of "dev_view dev"] v [of "nat_lpa sb nid"] ar assms(9) that by (simp add: nat_table_def)
  moreover have "sit_table sb (dev_view dev2) seg = sit_apply (sits_of (tx_items txs)) (sit_table sb (dev_view dev)) seg" if "seg_in sb seg" for seg
    using items_tables(2) [OF assms(13,14,8) that, of "dev_view dev"] v [of "sit_lpa sb seg"] ar assms(10) that by (simp add: sit_table_def)
  ultimately show ?thesis
    using r by (intro exI [of _ dev2]) (simp add: dev2_def dev1_def dev_view_def Let_def)
qed

subsection \<open>Rings on which the recovery does not end\<close>

text \<open>The hypotheses under which a step of the loop is understood, and that every step keeps.\<close>

lemma replay_keeps_ring:
  assumes "jtx bs its" and "length bs \<le> unat (e - s)" and "e \<le> 0x20000000" and "areas_ok sb s e"
    and "\<forall>i < length bs. comm_recovery_read_lpa dev (ucast (jpos s e p i)) = (RC0, bs ! i)"
    and "list_all (item_ok dev sb) its" and "\<forall>lpa. in_main sb lpa \<longrightarrow> dev_ok dev lpa"
  obtains dev' where "comm_recovery_replay_one_transaction dev sb p s e =
      (RC0, dev', Some (jpos s e p (length bs), super_apply (supers_of its) sb))"
    and "same_geometry sb (super_apply (supers_of its) sb)"
    and "comm_submit_rw_request_common dev' = comm_submit_rw_request_common dev"
    and "\<forall>c. s \<le> c \<longrightarrow> c < e \<longrightarrow> comm_recovery_read_lpa dev' (ucast c) = comm_recovery_read_lpa dev (ucast c)"
proof -
  obtain m rec where r: "comm_recovery_replay_one_transaction dev sb p s e =
      (RC0, dev\<lparr>media := m, recoveredReclaim := recoveredReclaim dev @ rec\<rparr>,
       Some (jpos s e p (length bs), super_apply (supers_of its) sb))"
    and m: "\<forall>lpa < 0x20000000. m (LPA_TO_LBA32 lpa) = items_spec sb its (dev_view dev) lpa"
    using replay_jtx [OF assms(1,2,5,6,7)] by blast
  let ?dev = "dev\<lparr>media := m, recoveredReclaim := recoveredReclaim dev @ rec\<rparr>"
  have chk: "comm_submit_rw_request_common ?dev = comm_submit_rw_request_common dev"
    by (simp add: comm_submit_rw_request_common_def fun_eq_iff Let_def)
  have "comm_recovery_read_lpa ?dev (ucast c) = comm_recovery_read_lpa dev (ucast c)" if "s \<le> c" "c < e" for c
  proof -
    have "unat c < 536870912"
      using that(2) assms(3) by (simp add: word_less_nat_alt word_le_nat_alt)
    then have "(ucast c :: u32) < 0x20000000"
      by (simp add: word_less_nat_alt unsigned_ucast_eq take_bit_nat_eq_self)
    then have "m (LPA_TO_LBA32 (ucast c)) = media dev (LPA_TO_LBA32 (ucast c))"
      using m ring_block_frame [OF assms(4,6) that assms(3)] by (simp add: dev_view_def)
    then show ?thesis by (simp add: comm_recovery_read_lpa_def comm_read_def chk)
  qed
  moreover have "same_geometry sb (super_apply (supers_of its) sb)"
    using assms(6) by (intro geometry_super_apply) (simp add: items_ok)
  ultimately show thesis
    using that [OF r _ chk] by blast
qed

lemma recover_loop_stuck:
  assumes "s \<le> p" and "p < e" and "p \<noteq> start" and "e \<le> 0x20000000" and "jtx bs its" and "length bs = unat (e - s)"
    and "areas_ok sb s e" and "\<forall>i < length bs. comm_recovery_read_lpa dev (ucast (jpos s e p i)) = (RC0, bs ! i)"
    and "list_all (item_ok dev sb) its" and "\<forall>lpa. in_main sb lpa \<longrightarrow> dev_ok dev lpa"
  shows "recover_loop s e start dev sb p = None"
proof -
  define Q where "Q dev sb \<longleftrightarrow> areas_ok sb s e \<and>
      (\<forall>i < length bs. comm_recovery_read_lpa dev (ucast (jpos s e p i)) = (RC0, bs ! i)) \<and>
      list_all (item_ok dev sb) its \<and> (\<forall>lpa. in_main sb lpa \<longrightarrow> dev_ok dev lpa)"
    for dev :: comm_dev and sb
  have un: "unat (e - s) = unat e - unat s"
    using assms(1,2) by (intro unat_sub) simp
  have same_pos: "jpos s e p (length bs) = p"
    using jpos_unat [OF assms(1,2), of "length bs"] assms(1,2,6)
    by (intro unat_word_eqI) (simp add: un word_le_nat_alt word_less_nat_alt)
  have again: "\<exists>dev' sb'. comm_recovery_replay_one_transaction dev sb p s e = (RC0, dev', Some (p, sb')) \<and> Q dev' sb'"
    if "Q dev sb" for dev :: comm_dev and sb
  proof -
    note q = that [unfolded Q_def]
    have le: "length bs \<le> unat (e - s)" using assms(6) by simp
    obtain dev' where d: "comm_recovery_replay_one_transaction dev sb p s e =
        (RC0, dev', Some (jpos s e p (length bs), super_apply (supers_of its) sb))"
      and geo: "same_geometry sb (super_apply (supers_of its) sb)"
      and chk: "comm_submit_rw_request_common dev' = comm_submit_rw_request_common dev"
      and rd: "\<forall>c. s \<le> c \<longrightarrow> c < e \<longrightarrow> comm_recovery_read_lpa dev' (ucast c) = comm_recovery_read_lpa dev (ucast c)"
      by (rule replay_keeps_ring [OF assms(5) le assms(4)]) (use q in blast)+
    have "areas_ok (super_apply (supers_of its) sb) s e"
      using q by (simp add: areas_ok_def geometry_lpa [OF geo])
    then have "Q dev' (super_apply (supers_of its) sb)"
      using q rd jpos_in [OF assms(1,2)]
      by (simp add: Q_def geometry_items [OF geo] geometry_lpa [OF geo] item_ok_cong [OF chk] chk)
    with d same_pos show ?thesis by auto
  qed
  have "\<not> (s' = s \<and> e' = e \<and> start' = start \<and> p' = p \<and> Q dev' sb')"
    if "recover_loop s' e' start' dev' sb' p' = Some y" for s' e' start' dev' sb' p' y
  proof (rule recover_loop.raw_induct [of "\<lambda>s' e' start' dev' sb' p' _.
      \<not> (s' = s \<and> e' = e \<and> start' = start \<and> p' = p \<and> Q dev' sb')", OF _ that])
    fix rec s' e' start' dev' sb' p' y
    assume ih: "\<And>s' e' start' dev' sb' p' y. rec s' e' start' dev' sb' p' = Some y \<Longrightarrow>
        \<not> (s' = s \<and> e' = e \<and> start' = start \<and> p' = p \<and> Q dev' sb')"
      and eq: "(case comm_recovery_replay_one_transaction dev' sb' p' s' e' of (r, dev1, res) \<Rightarrow>
        if r \<noteq> RC0 then Some (r, dev1, sb', p')
        else case res of None \<Rightarrow> Some (RC0, dev1, sb', p')
          | Some (next, sb1) \<Rightarrow> if next = start' then Some (RC0, dev1, sb1, next)
              else rec s' e' start' dev1 sb1 next) = Some y"
    show "\<not> (s' = s \<and> e' = e \<and> start' = start \<and> p' = p \<and> Q dev' sb')"
    proof
      assume a: "s' = s \<and> e' = e \<and> start' = start \<and> p' = p \<and> Q dev' sb'"
      with again obtain dev1 sb1 where "comm_recovery_replay_one_transaction dev' sb' p s e = (RC0, dev1, Some (p, sb1))" "Q dev1 sb1"
        by blast
      with a eq assms(3) have "rec s e start dev1 sb1 p = Some y" by simp
      from ih [OF this] \<open>Q dev1 sb1\<close> show False by simp
    qed
  qed
  moreover have "Q dev sb"
    using assms(7-10) by (simp add: Q_def)
  ultimately show ?thesis
    by (cases "recover_loop s e start dev sb p") auto
qed

subsection \<open>Concrete rings\<close>

definition rs_nop_block :: block where
  "rs_nop_block = putHeader zero_block 0 \<lparr>mj_len = 4096, mj_type = JOURNAL_TYPE_NOP, mj_rsv = 0\<rparr>"

text \<open>The super block, one empty transaction in journal block 0, and \<open>b\<close> in all other blocks.\<close>

definition rs_dev :: "block \<Rightarrow> comm_dev" where
  "rs_dev b = demo_dev\<lparr>media := (\<lambda>_. b)(LPA_TO_LBA32 0 := rt_super, LPA_TO_LBA32 1300 := rt_end_block)\<rparr>"

lemma rs_dev_check: "comm_submit_rw_request_common (rs_dev b) = comm_submit_rw_request_common demo_dev"
  by (simp add: rs_dev_def)

lemma rs_main: "\<forall>lpa. in_main rt_super lpa \<longrightarrow> dev_ok (rs_dev b) lpa"
  using rt_main by (simp add: rs_dev_check)

lemma rs_read:
  assumes "lpa < 2048"
  shows "comm_recovery_read_lpa (rs_dev b) lpa = (RC0, if lpa = 0 then rt_super else if lpa = 1300 then rt_end_block else b)"
proof -
  have "lpa < 0x20000000"
    by (rule order_less_le_trans [OF assms]) simp
  then have "LPA_TO_LBA32 lpa = LPA_TO_LBA32 0 \<longleftrightarrow> lpa = 0" "LPA_TO_LBA32 lpa = LPA_TO_LBA32 1300 \<longleftrightarrow> lpa = 1300"
    using LPA_TO_LBA32_inj [of lpa 0] LPA_TO_LBA32_inj [of lpa 1300] by auto
  moreover have "LPA_TO_LBA32 1300 \<noteq> LPA_TO_LBA32 0"
    by (simp add: LPA_TO_LBA32_def)
  ultimately show ?thesis
    using demo_dev_ok [OF assms] by (simp add: comm_recovery_read_lpa_def comm_read_def rs_dev_check) (simp add: rs_dev_def)
qed

lemma rs_end_tx: "jtx [rt_end_block] []"
  by (rule jtx_last [OF jseg.jseg_nil]) (simp add: rt_end_block_def record_at_def chdr.cget_cput)

theorem recovery_replays_ring_witness:
  "\<exists>dev'. comm_submit_fs_recover_from_db_request (rs_dev zero_block) = Some (RC0, dev') \<and> metaJournalTailLpa dev' = 1301"
proof -
  have r0: "comm_recovery_read_lpa (rs_dev zero_block) 0 = (RC0, rt_super)"
    and r1: "comm_recovery_read_lpa (rs_dev zero_block) 1300 = (RC0, rt_end_block)"
    and r2: "comm_recovery_read_lpa (rs_dev zero_block) 1301 = (RC0, zero_block)"
    by (simp_all add: rs_read)
  have j: "jpos 1300 1812 1300 (Suc 0) = 1301" "jpos 1300 1812 1300 0 = 1300"
    by (simp_all add: jpos_simps comm_recovery_next_journal_lpa_def)
  have ring: "ring_txs (rs_dev zero_block) 1300 1812 1300 [([rt_end_block], [])]"
    using r1 r2 rs_end_tx by (simp add: j getHeader_def)
  have "nat_lpa rt_super nid \<noteq> 0" if "nid_in rt_super nid" for nid
    using rt_nat_lpa [OF that] by auto
  moreover have "sit_lpa rt_super seg \<noteq> 0" if "seg_in rt_super seg" for seg
    using rt_sit_lpa [OF that] by auto
  ultimately show ?thesis
    using recovery_replays_ring [OF r0, of "[([rt_end_block], [])]"] rt_areas ring rs_main
    by (auto simp: rt_super_fields j)
qed

text \<open>
  Claim C38. Recovery may not end: on a ring whose first block is an empty transaction and whose other
  blocks are filled by NOP records, every block of the ring is read again and again. The second
  transaction runs around the ring to the END record of block 0, so its end is block 1, where it
  started, and the scan never meets its start again.
\<close>

theorem recovery_may_not_end: "comm_submit_fs_recover_from_db_request (rs_dev rs_nop_block) = None"
proof -
  let ?dev = "commDevClearRecoveredReclaimRecords (rs_dev rs_nop_block)"
  have chk: "comm_submit_rw_request_common ?dev = comm_submit_rw_request_common demo_dev" and
    read: "comm_recovery_read_lpa ?dev = comm_recovery_read_lpa (rs_dev rs_nop_block)"
    by (simp_all add: commDevClearRecoveredReclaimRecords_def comm_recovery_read_lpa_def comm_read_def
        comm_submit_rw_request_common_def fun_eq_iff Let_def rs_dev_def)
  have small: "(ucast c :: u32) < 2048 \<and> ucast c \<noteq> (0 :: u32) \<and> ((ucast c :: u32) = 1300 \<longleftrightarrow> c = 1300)"
    if "1300 \<le> c" "c < 1812" for c :: u64
  proof -
    have u: "unat (ucast c :: u32) = unat c" "1300 \<le> unat c" "unat c < 1812"
      using that by (simp_all add: word_le_nat_alt word_less_nat_alt unsigned_ucast_eq take_bit_nat_eq_self)
    then have "(ucast c :: u32) \<noteq> 0" by auto
    moreover have "(ucast c :: u32) = 1300 \<Longrightarrow> c = 1300"
      using u(1) by (intro unat_word_eqI) simp
    moreover have "(ucast c :: u32) < 2048"
      using u by (simp add: word_less_nat_alt)
    ultimately show ?thesis by auto
  qed
  have rd: "comm_recovery_read_lpa ?dev (ucast c) = (RC0, if c = 1300 then rt_end_block else rs_nop_block)"
    if "1300 \<le> c" "c < 1812" for c :: u64
    using small [OF that] rs_read [of "ucast c" rs_nop_block] by (auto simp: read)
  have main: "\<forall>lpa. in_main rt_super lpa \<longrightarrow> dev_ok ?dev lpa"
    using rt_main by (simp add: chk)
  let ?bs = "replicate 511 rs_nop_block @ [rt_end_block]"
  have pos: "jpos 1300 1812 1301 i = 1300 \<longleftrightarrow> i = 511" if "i < 512" for i
  proof -
    have u: "unat (jpos 1300 1812 1301 i) = 1300 + (1 + i) mod 512"
      using jpos_unat [of 1300 1301 1812 i] by simp
    have "unat (jpos 1300 1812 1301 i) = unat (1300 :: u64) \<longleftrightarrow> i = 511"
      unfolding u using that by (cases "i = 511") auto
    then show ?thesis by (metis unat_word_eqI)
  qed
  have "jfull rs_nop_block []"
    unfolding jfull_def
    by (rule exI [of _ 0]) (simp add: jseg.jseg_nil rs_nop_block_def record_at_def chdr.cget_cput)
  then have "list_all2 jfull (replicate 511 rs_nop_block) (replicate 511 [])"
    by (simp add: list_all2_conv_all_nth)
  from jtx_append [OF this rs_end_tx] have tx: "jtx ?bs []"
    by (simp add: concat_replicate_trivial)
  have reads: "\<forall>i < length ?bs. comm_recovery_read_lpa ?dev (ucast (jpos 1300 1812 1301 i)) = (RC0, ?bs ! i)"
  proof (intro allI impI)
    fix i assume i: "i < length ?bs"
    have "(1300 :: u64) \<le> jpos 1300 1812 1301 i" "jpos 1300 1812 1301 i < 1812"
      by (rule jpos_in; simp)+
    from rd [OF this] pos [of i] i show "comm_recovery_read_lpa ?dev (ucast (jpos 1300 1812 1301 i)) = (RC0, ?bs ! i)"
      by (auto simp: nth_append)
  qed
  have stuck: "recover_loop 1300 1812 1300 dev rt_super 1301 = None"
    if "comm_submit_rw_request_common dev = comm_submit_rw_request_common ?dev"
      "\<forall>c :: u64. 1300 \<le> c \<longrightarrow> c < 1812 \<longrightarrow> comm_recovery_read_lpa dev (ucast c) = comm_recovery_read_lpa ?dev (ucast c)" for dev
  proof -
    have "\<forall>i < length ?bs. comm_recovery_read_lpa dev (ucast (jpos 1300 1812 1301 i)) = (RC0, ?bs ! i)"
    proof (intro allI impI)
      fix i assume i: "i < length ?bs"
      have "(1300 :: u64) \<le> jpos 1300 1812 1301 i" "jpos 1300 1812 1301 i < 1812"
        by (rule jpos_in; simp)+
      with that(2) reads i show "comm_recovery_read_lpa dev (ucast (jpos 1300 1812 1301 i)) = (RC0, ?bs ! i)"
        by metis
    qed
    then show ?thesis
      by (intro recover_loop_stuck [OF _ _ _ _ tx _ rt_areas]) (use that(1) main in \<open>simp_all add: chk\<close>)
  qed
  have rd1: "\<forall>i < length [rt_end_block]. comm_recovery_read_lpa ?dev (ucast (jpos 1300 1812 1300 i)) = (RC0, [rt_end_block] ! i)"
    using rd [of 1300] by (simp add: jpos_simps)
  obtain dev' where "comm_recovery_replay_one_transaction ?dev rt_super 1300 1300 1812 =
      (RC0, dev', Some (jpos 1300 1812 1300 (length [rt_end_block]), super_apply (supers_of []) rt_super))"
    "comm_submit_rw_request_common dev' = comm_submit_rw_request_common ?dev"
    "\<forall>c :: u64. 1300 \<le> c \<longrightarrow> c < 1812 \<longrightarrow> comm_recovery_read_lpa dev' (ucast c) = comm_recovery_read_lpa ?dev (ucast c)"
    by (rule replay_keeps_ring [OF rs_end_tx _ _ rt_areas rd1 _ main]) simp_all
  then have "recover_loop 1300 1812 1300 ?dev rt_super 1300 = None"
    using stuck [of dev'] by (subst recover_loop.simps) (simp add: jpos_simps comm_recovery_next_journal_lpa_def)
  moreover have "comm_recovery_read_lpa ?dev 0 = (RC0, rt_super)"
    by (simp add: read rs_read)
  ultimately show ?thesis
    by (simp add: comm_submit_fs_recover_from_db_request_def rt_super_fields Let_def)
qed

end
