(* ===== verification/Nat_Utils.thy ===== *)
theory Nat_Utils
  imports Fs_State
begin

text \<open>
  The NAT (nid to LPA) accessors of \<^verbatim>\<open>src/src/fs/nat_utils.c\<close>. A NAT entry is seen through the NAT
  cache: \<open>nat_entry_of fs nid\<close>.
\<close>

definition natGetNidPos :: "file_system_manager \<Rightarrow> u32 \<Rightarrow> (u32 \<times> u32) option" where
  "natGetNidPos fs nid =
     (let natLpaIdx = nid div NAT_ENTRY_PER_BLOCK; natLpaOff = nid mod NAT_ENTRY_PER_BLOCK in do {
        c_assert (natLpaIdx < sb32 fs SB_segment_count_nat * BLOCK_PER_SEGMENT);
        Some (sb32 fs SB_nat_blkaddr + natLpaIdx, natLpaOff)
      })"

abbreviation nat_slot :: "u32 \<Rightarrow> nat" where
  "nat_slot idx \<equiv> 8 * unat idx"

definition natGetLpaOfNid :: "file_system_manager \<Rightarrow> u32 \<Rightarrow> (u32 \<times> file_system_manager) option" where
  "natGetLpaOfNid fs nid = do {
     (natBlockLpa, natEntryIdx) \<leftarrow> natGetNidPos fs nid;
     (h, c) \<leftarrow> sitNatCacheGet (fs_dev fs) (nat_cache fs) natBlockLpa;
     Some (nat_block_addr (getNatEntry (snc_block c h) (nat_slot natEntryIdx)), fs\<lparr>nat_cache := c\<rparr>)
   }"

definition natSetLpaOfNid :: "file_system_manager \<Rightarrow> u32 \<Rightarrow> u32 \<Rightarrow> file_system_manager option" where
  "natSetLpaOfNid fs nid newLpa = do {
     (natBlockLpa, natEntryIdx) \<leftarrow> natGetNidPos fs nid;
     (h, c) \<leftarrow> sitNatCacheGet (fs_dev fs) (nat_cache fs) natBlockLpa;
     let new_value = (getNatEntry (snc_block c h) (nat_slot natEntryIdx))\<lparr>nat_block_addr := newLpa\<rparr>;
     let c = snc_put_block c h (putNatEntry (snc_block c h) (nat_slot natEntryIdx) new_value);
     let j = journalContainerAppendNatJournalEntry (cur_journal fs) \<lparr>nj_nid = nid, nj_newValue = new_value\<rparr>;
     let c = sitNatCacheEntryHandleAddHostVersion c (Some h);
     (_, c) \<leftarrow> sitNatCacheEntryHandleDestroy c (Some h);
     Some (fs\<lparr>nat_cache := c, cur_journal := j\<rparr>)
   }"

subsection \<open>The NAT as a table\<close>

definition nat_entry_of :: "file_system_manager \<Rightarrow> u32 \<Rightarrow> RtfsNatEntry" where
  "nat_entry_of fs nid =
     getNatEntry (snc_view (fs_dev fs) (nat_cache fs) (sb32 fs SB_nat_blkaddr + nid div NAT_ENTRY_PER_BLOCK))
       (nat_slot (nid mod NAT_ENTRY_PER_BLOCK))"

text \<open>The NAT blocks of a nid can be read, and the nid is inside the NAT area.\<close>

definition nid_ok :: "file_system_manager \<Rightarrow> u32 \<Rightarrow> bool" where
  "nid_ok fs nid \<longleftrightarrow> nid div NAT_ENTRY_PER_BLOCK < sb32 fs SB_segment_count_nat * BLOCK_PER_SEGMENT \<and>
     dev_ok (fs_dev fs) (sb32 fs SB_nat_blkaddr + nid div NAT_ENTRY_PER_BLOCK)"

abbreviation nat_ready :: "file_system_manager \<Rightarrow> nat \<Rightarrow> bool" where
  "nat_ready fs n \<equiv> snc_ready (fs_dev fs) (nat_cache fs) n"

text \<open>Writing one slot of one NAT block is one update of the table.\<close>

lemma nat_table_update:
  assumes "snc_view (fs_dev fs) c' = (snc_view (fs_dev fs) (nat_cache fs))
      (sb32 fs SB_nat_blkaddr + nid div NAT_ENTRY_PER_BLOCK :=
        putNatEntry (snc_view (fs_dev fs) (nat_cache fs) (sb32 fs SB_nat_blkaddr + nid div NAT_ENTRY_PER_BLOCK))
          (nat_slot (nid mod NAT_ENTRY_PER_BLOCK)) e)"
  shows "nat_entry_of (fs\<lparr>nat_cache := c', cur_journal := j\<rparr>) = (nat_entry_of fs)(nid := e)"
proof
  fix m
  show "nat_entry_of (fs\<lparr>nat_cache := c', cur_journal := j\<rparr>) m = ((nat_entry_of fs)(nid := e)) m"
  proof (cases "m div NAT_ENTRY_PER_BLOCK = nid div NAT_ENTRY_PER_BLOCK")
    case False
    then show ?thesis
      using assms by (auto simp: nat_entry_of_def)
  next
    case same: True
    show ?thesis
    proof (cases "m = nid")
      case True
      then show ?thesis
        using assms by (simp add: nat_entry_of_def cnat.cget_cput)
    next
      case False
      then have "m mod NAT_ENTRY_PER_BLOCK \<noteq> nid mod NAT_ENTRY_PER_BLOCK"
        using same word_div_mod_cong by blast
      then have "unat (m mod NAT_ENTRY_PER_BLOCK) \<noteq> unat (nid mod NAT_ENTRY_PER_BLOCK)"
        by (metis unsigned_word_eqI)
      then have "nat_slot (m mod NAT_ENTRY_PER_BLOCK) + 8 \<le> nat_slot (nid mod NAT_ENTRY_PER_BLOCK) \<or>
          nat_slot (nid mod NAT_ENTRY_PER_BLOCK) + 8 \<le> nat_slot (m mod NAT_ENTRY_PER_BLOCK)"
        by linarith
      then show ?thesis
        using assms same False by (simp add: nat_entry_of_def cnat.get_put_other)
    qed
  qed
qed

lemma natSetLpaOfNid_spec:
  assumes "nat_ready fs (Suc n)" and "nid_ok fs nid"
  shows "\<exists>fs'. natSetLpaOfNid fs nid newLpa = Some fs' \<and> nat_ready fs' n \<and>
    nat_entry_of fs' = (nat_entry_of fs)(nid := (nat_entry_of fs nid)\<lparr>nat_block_addr := newLpa\<rparr>) \<and>
    (\<exists>e. natJournal (cur_journal fs') = natJournal (cur_journal fs) @ [e] \<and>
      nat_apply [e] (nat_entry_of fs) = nat_entry_of fs') \<and>
    fs' = fs\<lparr>nat_cache := nat_cache fs', cur_journal := (cur_journal fs)\<lparr>natJournal := natJournal (cur_journal fs')\<rparr>\<rparr>"
proof -
  let ?lpa = "sb32 fs SB_nat_blkaddr + nid div NAT_ENTRY_PER_BLOCK"
  let ?old = "snc_view (fs_dev fs) (nat_cache fs) ?lpa" and ?slot = "nat_slot (nid mod NAT_ENTRY_PER_BLOCK)"
  let ?new = "(nat_entry_of fs nid)\<lparr>nat_block_addr := newLpa\<rparr>"
  have pos: "natGetNidPos fs nid = Some (?lpa, nid mod NAT_ENTRY_PER_BLOCK)" and ok: "dev_ok (fs_dev fs) ?lpa"
    using assms(2) by (simp_all add: natGetNidPos_def nid_ok_def Let_def)
  obtain h c1 where g: "sitNatCacheGet (fs_dev fs) (nat_cache fs) ?lpa = Some (h, c1)" "snc_block c1 h = ?old"
    and m: "\<forall>b. \<exists>c'. sitNatCacheEntryHandleDestroy
       (sitNatCacheEntryHandleAddHostVersion (snc_put_block c1 h b) (Some h)) (Some h) = Some (None, c') \<and>
       snc_ready (fs_dev fs) c' n \<and>
       snc_view (fs_dev fs) c' = (snc_view (fs_dev fs) (nat_cache fs))(?lpa := b)"
    by (rule snc_modify [OF assms(1) ok])
  have ent: "getNatEntry ?old ?slot = nat_entry_of fs nid"
    by (simp add: nat_entry_of_def)
  obtain c' where c': "sitNatCacheEntryHandleDestroy (sitNatCacheEntryHandleAddHostVersion
       (snc_put_block c1 h (putNatEntry ?old ?slot ?new)) (Some h)) (Some h) = Some (None, c')"
      "snc_ready (fs_dev fs) c' n"
      "snc_view (fs_dev fs) c' = (snc_view (fs_dev fs) (nat_cache fs))(?lpa := putNatEntry ?old ?slot ?new)"
    using m by blast
  let ?j = "(cur_journal fs)\<lparr>natJournal := natJournal (cur_journal fs) @ [\<lparr>nj_nid = nid, nj_newValue = ?new\<rparr>]\<rparr>"
  have r: "natSetLpaOfNid fs nid newLpa = Some (fs\<lparr>nat_cache := c', cur_journal := ?j\<rparr>)"
    using c'(1) by (simp add: natSetLpaOfNid_def pos g ent journal_append_defs)
  show ?thesis
    using c'(2) nat_table_update [OF c'(3)] by (simp add: r)
qed

text \<open>
  Claim C16. \<^verbatim>\<open>natSetLpaOfNid\<close> is exactly one table update, and it is journalled: for a nid inside the NAT
  and a NAT cache with one unit of budget the call returns; afterwards the NAT seen through the cache
  is the old one with the LPA of that nid replaced (its inode number kept, every other nid
  untouched); one NAT journal entry was appended and replaying it on the old table gives the new
  one; nothing else of the file system state changes.
\<close>

theorem natSetLpaOfNid_updates:
  assumes "nat_ready fs (Suc n)" and "nid_ok fs nid"
  shows "\<exists>fs'. natSetLpaOfNid fs nid newLpa = Some fs' \<and> nat_ready fs' n \<and>
    nat_entry_of fs' = (nat_entry_of fs)(nid := (nat_entry_of fs nid)\<lparr>nat_block_addr := newLpa\<rparr>) \<and>
    (\<exists>e. natJournal (cur_journal fs') = natJournal (cur_journal fs) @ [e] \<and>
      nat_apply [e] (nat_entry_of fs) = nat_entry_of fs') \<and>
    fs' = fs\<lparr>nat_cache := nat_cache fs', cur_journal := (cur_journal fs)\<lparr>natJournal := natJournal (cur_journal fs')\<rparr>\<rparr>"
  by (rule natSetLpaOfNid_spec [OF assms])

lemma demo_nid_ok: "nid < 262144 \<Longrightarrow> nid_ok demo_fs nid"
proof -
  assume "nid < 262144"
  then have "unat (nid div 512) < 512"
    by (simp add: unat_div word_less_nat_alt)
  then have "nid div 512 < 512" "20 + nid div 512 < 2048"
    by (simp_all add: word_less_nat_alt unat_word_ariths)
  then show "nid_ok demo_fs nid"
    by (simp add: nid_ok_def demo_sb demo_dev_ok)
qed

lemma natSetLpaOfNid_updates_witness:
  "\<exists>fs'. natSetLpaOfNid demo_fs 700 4711 = Some fs' \<and> nat_block_addr (nat_entry_of fs' 700) = 4711 \<and>
     nat_entry_of fs' 701 = nat_entry_of demo_fs 701 \<and> length (natJournal (cur_journal fs')) = 1"
  using natSetLpaOfNid_updates [of demo_fs 0 700 4711] demo_nid_ok [of 700] demo_ready [of 1]
  by (auto simp: journalContainerInit_def)

lemma natGetLpaOfNid_spec:
  assumes "nat_ready fs (Suc n)" and "nid_ok fs nid"
  shows "\<exists>fs'. natGetLpaOfNid fs nid = Some (nat_block_addr (nat_entry_of fs nid), fs') \<and>
    nat_ready fs' n \<and> nat_entry_of fs' = nat_entry_of fs \<and> fs' = fs\<lparr>nat_cache := nat_cache fs'\<rparr> \<and>
    sb32 fs SB_nat_blkaddr + nid div NAT_ENTRY_PER_BLOCK \<in> snc_pinned (nat_cache fs')"
proof -
  let ?lpa = "sb32 fs SB_nat_blkaddr + nid div NAT_ENTRY_PER_BLOCK"
  have pos: "natGetNidPos fs nid = Some (?lpa, nid mod NAT_ENTRY_PER_BLOCK)" and ok: "dev_ok (fs_dev fs) ?lpa"
    using assms(2) by (simp_all add: natGetNidPos_def nid_ok_def Let_def)
  obtain h c1 where g: "sitNatCacheGet (fs_dev fs) (nat_cache fs) ?lpa = Some (h, c1)"
      "snc_block c1 h = snc_view (fs_dev fs) (nat_cache fs) ?lpa"
      "snc_view (fs_dev fs) c1 = snc_view (fs_dev fs) (nat_cache fs)"
      "snc_ready (fs_dev fs) c1 n" "?lpa \<in> snc_pinned c1"
    by (rule snc_get_budget [OF assms(1) ok])
  have "natGetLpaOfNid fs nid = Some (nat_block_addr (nat_entry_of fs nid), fs\<lparr>nat_cache := c1\<rparr>)"
    by (simp add: natGetLpaOfNid_def pos g nat_entry_of_def)
  moreover have "nat_entry_of (fs\<lparr>nat_cache := c1\<rparr>) = nat_entry_of fs"
    using g(3) by (intro ext) (simp add: nat_entry_of_def)
  ultimately show ?thesis
    using g(4,5) by simp
qed

text \<open>
  \<^verbatim>\<open>natGetLpaOfNid\<close> returns the LPA the NAT holds for the nid and changes no table entry, but the
  handle it takes is never destroyed: the NAT block of the nid is referenced in the resulting state,
  whether or not it was before.
\<close>

theorem natGetLpaOfNid_reads:
  assumes "nat_ready fs (Suc n)" and "nid_ok fs nid"
  shows "\<exists>fs'. natGetLpaOfNid fs nid = Some (nat_block_addr (nat_entry_of fs nid), fs') \<and>
    nat_ready fs' n \<and> nat_entry_of fs' = nat_entry_of fs \<and> fs' = fs\<lparr>nat_cache := nat_cache fs'\<rparr> \<and>
    sb32 fs SB_nat_blkaddr + nid div NAT_ENTRY_PER_BLOCK \<in> snc_pinned (nat_cache fs')"
  by (rule natGetLpaOfNid_spec [OF assms])

lemma natGetLpaOfNid_reads_witness:
  "\<exists>fs'. natGetLpaOfNid demo_fs 700 = Some (0, fs') \<and> 21 \<in> snc_pinned (nat_cache fs')"
proof -
  have "nat_block_addr (nat_entry_of demo_fs 700) = 0"
    by (simp add: nat_entry_of_def snc_view_def snc_init(2) demo_dev_def getNatEntry_def get32_def zero_block_def)
  then show ?thesis
    using natGetLpaOfNid_reads [of demo_fs 0 700] demo_nid_ok [of 700] demo_ready [of 1]
    by (auto simp: demo_sb)
qed

end
