(* ===== verification/Sit_Utils.thy ===== *)
theory Sit_Utils
  imports Fs_State
begin

unbundle bit_operations_syntax

text \<open>
  The SIT (segment information table) operations of \<^verbatim>\<open>src/src/fs/sit_utils.c\<close>: the position of a segment's
  entry, and the change of the validity bits of a range of LPAs. \<open>sit_entry_of fs seg\<close> is the entry
  seen through the SIT cache, \<open>lpa_live fs lpa\<close> the validity bit of one LPA.
\<close>

record SitOperator =
  seg0StartLpa :: u32
  segCount :: u32
  sitStartLpa :: u32
  sitSegmentCnt :: u32

definition sitOperatorInit :: "file_system_manager \<Rightarrow> SitOperator" where
  "sitOperatorInit fs = \<lparr>seg0StartLpa = sb32 fs SB_segment0_blkaddr, segCount = sb32 fs SB_segment_count,
     sitStartLpa = sb32 fs SB_sit_blkaddr, sitSegmentCnt = sb32 fs SB_segment_count_sit\<rparr>"

definition sitGetSegPosOfLpa :: "SitOperator \<Rightarrow> u32 \<Rightarrow> u32 \<times> u32" where
  "sitGetSegPosOfLpa op lpa =
     (let lpa = lpa - seg0StartLpa op in (lpa div BLOCK_PER_SEGMENT, lpa mod BLOCK_PER_SEGMENT))"

definition sitGetSegIdPosInSit :: "SitOperator \<Rightarrow> u32 \<Rightarrow> (u32 \<times> u32) option" where
  "sitGetSegIdPosInSit op segId =
     (let sitLpaIdx = segId div SIT_ENTRY_PER_BLOCK; sitLpaOff = segId mod SIT_ENTRY_PER_BLOCK in do {
        c_assert (sitLpaIdx < sitSegmentCnt op * BLOCK_PER_SEGMENT);
        Some (sitStartLpa op + sitLpaIdx, sitLpaOff)
      })"

definition sitGetFirstLpaOfSegId :: "SitOperator \<Rightarrow> u32 \<Rightarrow> u32" where
  "sitGetFirstLpaOfSegId op segId = seg0StartLpa op + segId * BLOCK_PER_SEGMENT"

abbreviation sit_slot :: "u32 \<Rightarrow> nat" where
  "sit_slot idx \<equiv> 68 * unat idx"

text \<open>
  The inner loop of \<^verbatim>\<open>sitChangeLpaStateRange\<close> on one SIT entry: bits \<open>seg_off + i\<close> onwards, \<open>n\<close> of them.
\<close>

fun sitChangeBits :: "bool \<Rightarrow> RtfsSitEntry \<Rightarrow> u32 \<Rightarrow> u32 \<Rightarrow> nat \<Rightarrow> RtfsSitEntry option" where
  "sitChangeBits valid e seg_off i 0 = Some e"
| "sitChangeBits valid e seg_off i (Suc n) =
     (let bitmap_idx = unat ((seg_off + i) div 8); bitmap_off = unat ((seg_off + i) mod 8);
          old = valid_map e ! bitmap_idx; mask = push_bit bitmap_off (1 :: u32)
      in if valid then do {
           c_assert ((ucast old AND mask) = 0);
           let e = e\<lparr>valid_map := (valid_map e)[bitmap_idx := old OR ucast mask]\<rparr>;
           let e = (if GET_SIT_VBLOCKS e < 511 then e\<lparr>vblocks := vblocks e + 1\<rparr> else e);
           sitChangeBits valid e seg_off (i + 1) n
         } else do {
           c_assert ((ucast old AND mask) \<noteq> 0);
           let e = e\<lparr>valid_map := (valid_map e)[bitmap_idx := old AND ucast (NOT mask)]\<rparr>;
           let e = (if GET_SIT_VBLOCKS e > 0 then e\<lparr>vblocks := vblocks e - 1\<rparr> else e);
           sitChangeBits valid e seg_off (i + 1) n
         })"

text \<open>One round of the outer loop: the part of the range that lies in one segment.\<close>

definition sitChangeSegment ::
  "file_system_manager \<Rightarrow> SitOperator \<Rightarrow> u32 \<Rightarrow> u32 \<Rightarrow> bool \<Rightarrow> file_system_manager option" where
  "sitChangeSegment fs op cur_lpa seg_count valid =
     (let lpa_seg0_off = cur_lpa - seg0StartLpa op;
          seg_id = lpa_seg0_off div BLOCK_PER_SEGMENT;
          seg_off = lpa_seg0_off mod BLOCK_PER_SEGMENT;
          sit_lpa = sitStartLpa op + seg_id div SIT_ENTRY_PER_BLOCK;
          slot = sit_slot (seg_id mod SIT_ENTRY_PER_BLOCK)
      in do {
        (h, c) \<leftarrow> sitNatCacheGet (fs_dev fs) (sit_cache fs) sit_lpa;
        sit_entry \<leftarrow> sitChangeBits valid (getSitEntry (snc_block c h) slot) seg_off 0 (unat seg_count);
        let c = snc_put_block c h (putSitEntry (snc_block c h) slot sit_entry);
        let j = journalContainerAppendSitJournalEntry (cur_journal fs)
                  \<lparr>sj_segID = seg_id, sj_newValue = sit_entry\<rparr>;
        let c = sitNatCacheEntryHandleAddHostVersion c (Some h);
        (_, c) \<leftarrow> sitNatCacheEntryHandleDestroy c (Some h);
        Some (fs\<lparr>sit_cache := c, cur_journal := j\<rparr>)
      })"

definition sit_chunk :: "SitOperator \<Rightarrow> u32 \<Rightarrow> u32 \<Rightarrow> u32" where
  "sit_chunk op cur_lpa count =
     (let seg_count = BLOCK_PER_SEGMENT - (cur_lpa - seg0StartLpa op) mod BLOCK_PER_SEGMENT
      in if seg_count > count then count else seg_count)"

lemma sit_chunk_bounds:
  assumes "count > 0"
  shows "0 < unat (sit_chunk op l count)" "sit_chunk op l count \<le> count"
    "unat ((l - seg0StartLpa op) mod 512) + unat (sit_chunk op l count) \<le> 512"
    "unat (count - sit_chunk op l count) < unat count"
proof -
  let ?m = "(l - seg0StartLpa op) mod 512"
  have "unat ?m < 512"
    by (simp add: unat_mod)
  then have u: "unat (512 - ?m) = 512 - unat ?m"
    by (subst unat_sub) (simp_all add: word_le_nat_alt)
  show pos: "0 < unat (sit_chunk op l count)" and le: "sit_chunk op l count \<le> count"
    and "unat ?m + unat (sit_chunk op l count) \<le> 512"
    using assms u \<open>unat ?m < 512\<close>
    by (auto simp: sit_chunk_def Let_def word_less_nat_alt word_le_nat_alt)
  have "unat (count - sit_chunk op l count) = unat count - unat (sit_chunk op l count)"
    using le by (rule unat_sub)
  with pos le show "unat (count - sit_chunk op l count) < unat count"
    by (simp add: word_le_nat_alt)
qed

function sitChangeLpaStateLoop ::
  "file_system_manager \<Rightarrow> SitOperator \<Rightarrow> u32 \<Rightarrow> u32 \<Rightarrow> bool \<Rightarrow> file_system_manager option" where
  "sitChangeLpaStateLoop fs op cur_lpa count valid =
     (if count > 0 then do {
        let seg_count = sit_chunk op cur_lpa count;
        fs \<leftarrow> sitChangeSegment fs op cur_lpa seg_count valid;
        sitChangeLpaStateLoop fs op (cur_lpa + seg_count) (count - seg_count) valid
      } else Some fs)"
  by pat_completeness auto
termination
  by (relation "measure (\<lambda>(_, _, _, count, _). unat count)") (simp_all add: sit_chunk_bounds)

declare sitChangeLpaStateLoop.simps [simp del]

definition sitChangeLpaStateRange ::
  "file_system_manager \<Rightarrow> SitOperator \<Rightarrow> u32 \<Rightarrow> u32 \<Rightarrow> bool \<Rightarrow> file_system_manager option" where
  "sitChangeLpaStateRange fs op start_lpa count valid =
     (if INVALID_LPA = start_lpa \<or> count = 0 then Some fs
      else sitChangeLpaStateLoop fs op start_lpa count valid)"

definition sitChangeLpaState ::
  "file_system_manager \<Rightarrow> SitOperator \<Rightarrow> u32 \<Rightarrow> bool \<Rightarrow> file_system_manager option" where
  "sitChangeLpaState fs op lpa valid = sitChangeLpaStateRange fs op lpa 1 valid"

definition sitInvalidateLpa :: "file_system_manager \<Rightarrow> SitOperator \<Rightarrow> u32 \<Rightarrow> file_system_manager option" where
  "sitInvalidateLpa fs op lpa = sitChangeLpaStateRange fs op lpa 1 False"

definition sitValidateLpa :: "file_system_manager \<Rightarrow> SitOperator \<Rightarrow> u32 \<Rightarrow> file_system_manager option" where
  "sitValidateLpa fs op lpa = sitChangeLpaStateRange fs op lpa 1 True"

definition sitValidateLpaRange ::
  "file_system_manager \<Rightarrow> SitOperator \<Rightarrow> u32 \<Rightarrow> u32 \<Rightarrow> file_system_manager option" where
  "sitValidateLpaRange fs op start_lpa count = sitChangeLpaStateRange fs op start_lpa count True"

subsection \<open>One SIT entry\<close>

definition sit_bit :: "RtfsSitEntry \<Rightarrow> nat \<Rightarrow> bool" where
  "sit_bit e j = bit (valid_map e ! (j div 8)) (j mod 8)"

definition sit_pop :: "RtfsSitEntry \<Rightarrow> nat" where
  "sit_pop e = card {j. j < 512 \<and> sit_bit e j}"

lemma mask_test:
  "k < 8 \<Longrightarrow> ((ucast (x :: u8) :: u32) AND push_bit k 1) = 0 \<longleftrightarrow> \<not> bit x k"
proof
  assume k: "k < 8" and z: "((ucast x :: u32) AND push_bit k 1) = 0"
  have "bit ((ucast x :: u32) AND push_bit k 1) k \<longleftrightarrow> bit x k"
    using k by (simp add: bit_and_iff bit_exp_iff bit_unsigned_iff)
  then show "\<not> bit x k" by (simp only: z) simp
next
  assume "k < 8" and "\<not> bit x k"
  then show "((ucast x :: u32) AND push_bit k 1) = 0"
    by (intro bit_word_eqI) (auto simp: bit_and_iff bit_exp_iff bit_unsigned_iff)
qed

lemma mask_set:
  "k < 8 \<Longrightarrow> bit ((x :: u8) OR ucast (push_bit k (1 :: u32))) m \<longleftrightarrow> bit x m \<or> m = k"
  by (auto simp: bit_or_iff bit_exp_iff bit_unsigned_iff dest: bit_imp_le_length)

lemma mask_clear:
  "k < 8 \<Longrightarrow> bit ((x :: u8) AND ucast (NOT (push_bit k (1 :: u32)))) m \<longleftrightarrow> bit x m \<and> m \<noteq> k"
  by (auto simp: bit_and_iff bit_not_iff bit_exp_iff bit_unsigned_iff dest: bit_imp_le_length)

lemma sit_bit_update:
  assumes "length (valid_map e) = 64" and "j < 512" and "\<And>m. bit v m \<longleftrightarrow> (if m = j mod 8 then b else bit (valid_map e ! (j div 8)) m)"
  shows "k < 512 \<Longrightarrow> sit_bit (e\<lparr>valid_map := (valid_map e)[j div 8 := v]\<rparr>) k \<longleftrightarrow> (if k = j then b else sit_bit e k)"
proof -
  assume k: "k < 512"
  have lt: "j div 8 < 64" using assms(2) by simp
  show ?thesis
  proof (cases "k div 8 = j div 8")
    case True
    then have "k mod 8 = j mod 8 \<longleftrightarrow> k = j"
      by (metis div_mult_mod_eq)
    with True lt assms(1,3) show ?thesis
      by (simp add: sit_bit_def)
  next
    case False
    with assms(1) show ?thesis
      by (auto simp: sit_bit_def)
  qed
qed

text \<open>The 9-bit counter and the 23-bit link share \<open>vblocks\<close>: a guarded step moves only the counter.\<close>

lemma mask9: "(511 :: u32) = mask 9"
  by (simp add: mask_eq_exp_minus_1)

lemma sit_cnt_mod: "unat (GET_SIT_VBLOCKS e) = unat (vblocks e) mod 512"
proof -
  have "GET_SIT_VBLOCKS e = take_bit 9 (vblocks e)"
    by (simp only: GET_SIT_VBLOCKS_def mask9 take_bit_eq_mask)
  then show ?thesis by (simp only: unsigned_take_bit_eq) (simp add: take_bit_eq_mod)
qed

lemma next_seg_div: "unat (GET_NEXT_SEG e) = unat (vblocks e) div 512"
proof -
  have "GET_NEXT_SEG e = drop_bit 9 (vblocks e)"
    unfolding GET_NEXT_SEG_def mask9
    by (rule bit_eqI) (simp only: bit_drop_bit_eq o_def bit_and_iff bit_not_iff bit_mask_iff, auto dest: bit_imp_le_length)
  then show ?thesis by (simp only: unsigned_drop_bit_eq) (simp add: drop_bit_eq_div take_bit_nat_eq_self unat_less_u32)
qed

lemma vblocks_split: "unat (vblocks e) = 512 * unat (GET_NEXT_SEG e) + unat (GET_SIT_VBLOCKS e)"
  by (simp add: sit_cnt_mod next_seg_div)

lemma sit_cnt_lt: "unat (GET_SIT_VBLOCKS e) < 512"
  by (simp add: sit_cnt_mod)

lemma vblocks_step:
  assumes "unat v = 512 * unat (GET_NEXT_SEG e) + c" and "c < 512"
  shows "unat (GET_SIT_VBLOCKS (e\<lparr>vblocks := v\<rparr>)) = c" "GET_NEXT_SEG (e\<lparr>vblocks := v\<rparr>) = GET_NEXT_SEG e"
proof -
  show "unat (GET_SIT_VBLOCKS (e\<lparr>vblocks := v\<rparr>)) = c"
    using assms by (simp add: sit_cnt_mod)
  have "unat (GET_NEXT_SEG (e\<lparr>vblocks := v\<rparr>)) = unat (GET_NEXT_SEG e)"
    using assms by (simp add: next_seg_div [of "e\<lparr>vblocks := v\<rparr>"])
  then show "GET_NEXT_SEG (e\<lparr>vblocks := v\<rparr>) = GET_NEXT_SEG e"
    by (rule unsigned_word_eqI)
qed

lemma bit_position:
  assumes "unat seg_off + unat i < 512"
  shows "unat (((seg_off :: u32) + i) div 8) = (unat seg_off + unat i) div 8"
    "unat ((seg_off + i) mod 8) = (unat seg_off + unat i) mod 8"
proof -
  have "unat (seg_off + i) = unat seg_off + unat i"
    using assms by (subst unat_add_lem [THEN iffD1]) simp_all
  then show "unat ((seg_off + i) div 8) = (unat seg_off + unat i) div 8"
    "unat ((seg_off + i) mod 8) = (unat seg_off + unat i) mod 8"
    by (simp_all add: unat_div unat_mod)
qed

text \<open>One turn of the inner loop.\<close>

lemma sitChangeBits_turn:
  assumes "sit_ok e" and "j = unat seg_off + unat i" and "j < 512"
  shows "sit_bit e j = valid \<Longrightarrow> sitChangeBits valid e seg_off i (Suc n) = None"
    and "sit_bit e j \<noteq> valid \<Longrightarrow> \<exists>e'. sitChangeBits valid e seg_off i (Suc n) = sitChangeBits valid e' seg_off (i + 1) n \<and>
      sit_ok e' \<and> (\<forall>k<512. sit_bit e' k = (if k = j then valid else sit_bit e k)) \<and>
      GET_NEXT_SEG e' = GET_NEXT_SEG e \<and>
      unat (GET_SIT_VBLOCKS e') = (if valid then min 511 (unat (GET_SIT_VBLOCKS e) + 1)
                                    else unat (GET_SIT_VBLOCKS e) - 1)"
proof -
  note pos = bit_position [of seg_off i, folded assms(2), OF assms(3)]
  have test: "((ucast (valid_map e ! (j div 8)) :: u32) AND push_bit (j mod 8) 1) = 0 \<longleftrightarrow> \<not> sit_bit e j"
    using mask_test [of "j mod 8"] by (simp add: sit_bit_def)
  show "sitChangeBits valid e seg_off i (Suc n) = None" if "sit_bit e j = valid"
    using that test by (simp add: pos Let_def)
  assume b: "sit_bit e j \<noteq> valid"
  let ?v = "if valid then valid_map e ! (j div 8) OR ucast (push_bit (j mod 8) (1 :: u32))
            else valid_map e ! (j div 8) AND ucast (NOT (push_bit (j mod 8) (1 :: u32)))"
  let ?e1 = "e\<lparr>valid_map := (valid_map e)[j div 8 := ?v]\<rparr>"
  let ?w = "if valid then (if GET_SIT_VBLOCKS e < 511 then vblocks e + 1 else vblocks e)
            else (if GET_SIT_VBLOCKS e > 0 then vblocks e - 1 else vblocks e)"
  let ?e' = "?e1\<lparr>vblocks := ?w\<rparr>"
  have same: "GET_SIT_VBLOCKS ?e1 = GET_SIT_VBLOCKS e" "GET_NEXT_SEG ?e1 = GET_NEXT_SEG e"
    by (simp_all add: GET_SIT_VBLOCKS_def GET_NEXT_SEG_def)
  have eq: "sitChangeBits valid e seg_off i (Suc n) = sitChangeBits valid ?e' seg_off (i + 1) n"
    using b test by (cases valid) (simp_all add: pos Let_def GET_SIT_VBLOCKS_def)
  have bits: "\<forall>k<512. sit_bit ?e' k = (if k = j then valid else sit_bit e k)"
  proof -
    have "bit ?v m = (if m = j mod 8 then valid else bit (valid_map e ! (j div 8)) m)" for m
      using mask_set [of "j mod 8" "valid_map e ! (j div 8)" m] mask_clear [of "j mod 8" "valid_map e ! (j div 8)" m]
      by (cases valid) auto
    then have "sit_bit ?e1 k = (if k = j then valid else sit_bit e k)" if "k < 512" for k
      using sit_bit_update [OF _ assms(3), of e ?v valid, OF _ _ that] assms(1) by (simp only: sit_ok_def)
    then show ?thesis by (simp add: sit_bit_def)
  qed
  have wv: "unat ?w = 512 * unat (GET_NEXT_SEG e) + (if valid then min 511 (unat (GET_SIT_VBLOCKS e) + 1)
                                    else unat (GET_SIT_VBLOCKS e) - 1)"
  proof (cases valid)
    case True
    have "unat (vblocks e + 1) = unat (vblocks e) + 1" if "GET_SIT_VBLOCKS e < 511"
      using that by (intro unat_add1_u32) (auto simp: word_less_nat_alt sit_cnt_mod)
    with True show ?thesis
      using vblocks_split [of e] sit_cnt_lt [of e] by (auto simp: word_less_nat_alt)
  next
    case False
    have "unat (vblocks e - 1) = unat (vblocks e) - 1" if "GET_SIT_VBLOCKS e > 0"
      using that by (intro unat_minus_one) (auto simp: GET_SIT_VBLOCKS_def)
    with False show ?thesis
      using vblocks_split [of e] by (auto simp: word_less_nat_alt)
  qed
  then have wv1: "unat ?w = 512 * unat (GET_NEXT_SEG ?e1) + (if valid then min 511 (unat (GET_SIT_VBLOCKS e) + 1)
                                    else unat (GET_SIT_VBLOCKS e) - 1)"
    by (simp add: same)
  have lt: "(if valid then min 511 (unat (GET_SIT_VBLOCKS e) + 1) else unat (GET_SIT_VBLOCKS e) - 1) < 512"
    using sit_cnt_lt [of e] by auto
  note cnt = vblocks_step [OF wv1 lt]
  show "\<exists>e'. sitChangeBits valid e seg_off i (Suc n) = sitChangeBits valid e' seg_off (i + 1) n \<and>
      sit_ok e' \<and> (\<forall>k<512. sit_bit e' k = (if k = j then valid else sit_bit e k)) \<and>
      GET_NEXT_SEG e' = GET_NEXT_SEG e \<and>
      unat (GET_SIT_VBLOCKS e') = (if valid then min 511 (unat (GET_SIT_VBLOCKS e) + 1)
                                    else unat (GET_SIT_VBLOCKS e) - 1)"
    by (rule exI [of _ ?e'])
      (use eq bits cnt same assms(1) in \<open>simp add: sit_ok_def\<close>)
qed

lemma sitChangeBits_spec:
  assumes "sit_ok e" and "unat seg_off + unat i + n \<le> 512"
    and "\<forall>k. unat seg_off + unat i \<le> k \<longrightarrow> k < unat seg_off + unat i + n \<longrightarrow> sit_bit e k \<noteq> valid"
  shows "\<exists>e'. sitChangeBits valid e seg_off i n = Some e' \<and> sit_ok e' \<and>
    (\<forall>k<512. sit_bit e' k = (if unat seg_off + unat i \<le> k \<and> k < unat seg_off + unat i + n then valid else sit_bit e k)) \<and>
    GET_NEXT_SEG e' = GET_NEXT_SEG e \<and>
    unat (GET_SIT_VBLOCKS e') = (if valid then min 511 (unat (GET_SIT_VBLOCKS e) + n)
                                  else unat (GET_SIT_VBLOCKS e) - n)"
  using assms
proof (induction n arbitrary: e i)
  case 0
  have "min 511 (unat (GET_SIT_VBLOCKS e)) = unat (GET_SIT_VBLOCKS e)"
    using sit_cnt_lt [of e] by simp
  with 0 show ?case by auto
next
  case (Suc n)
  let ?j = "unat seg_off + unat i"
  have j: "?j < 512" and ne: "sit_bit e ?j \<noteq> valid"
    using Suc.prems by auto
  have i1: "unat (i + 1) = unat i + 1"
    using j by (intro unat_add1_u32) auto
  obtain e1 where e1: "sitChangeBits valid e seg_off i (Suc n) = sitChangeBits valid e1 seg_off (i + 1) n" "sit_ok e1"
      "\<forall>k<512. sit_bit e1 k = (if k = ?j then valid else sit_bit e k)" "GET_NEXT_SEG e1 = GET_NEXT_SEG e"
      "unat (GET_SIT_VBLOCKS e1) = (if valid then min 511 (unat (GET_SIT_VBLOCKS e) + 1)
                                    else unat (GET_SIT_VBLOCKS e) - 1)"
    using sitChangeBits_turn(2) [OF Suc.prems(1) refl j ne] by blast
  have "\<exists>e'. sitChangeBits valid e1 seg_off (i + 1) n = Some e' \<and> sit_ok e' \<and>
    (\<forall>k<512. sit_bit e' k = (if unat seg_off + unat (i + 1) \<le> k \<and> k < unat seg_off + unat (i + 1) + n then valid else sit_bit e1 k)) \<and>
    GET_NEXT_SEG e' = GET_NEXT_SEG e1 \<and>
    unat (GET_SIT_VBLOCKS e') = (if valid then min 511 (unat (GET_SIT_VBLOCKS e1) + n)
                                  else unat (GET_SIT_VBLOCKS e1) - n)"
  proof (rule Suc.IH)
    show "\<forall>k. unat seg_off + unat (i + 1) \<le> k \<longrightarrow> k < unat seg_off + unat (i + 1) + n \<longrightarrow> sit_bit e1 k \<noteq> valid"
      using Suc.prems(2,3) e1(3) i1 by auto
  qed (use e1(2) Suc.prems(2) i1 in auto)
  with e1 i1 show ?case
    by (auto simp: le_Suc_eq)
qed

subsection \<open>The SIT as a table\<close>

definition sit_entry_of :: "file_system_manager \<Rightarrow> u32 \<Rightarrow> RtfsSitEntry" where
  "sit_entry_of fs seg =
     getSitEntry (snc_view (fs_dev fs) (sit_cache fs) (sb32 fs SB_sit_blkaddr + seg div SIT_ENTRY_PER_BLOCK))
       (sit_slot (seg mod SIT_ENTRY_PER_BLOCK))"

definition lpa_live :: "file_system_manager \<Rightarrow> u32 \<Rightarrow> bool" where
  "lpa_live fs lpa = (let off = lpa - sb32 fs SB_segment0_blkaddr in
     sit_bit (sit_entry_of fs (off div BLOCK_PER_SEGMENT)) (unat (off mod BLOCK_PER_SEGMENT)))"

text \<open>
  The counter against the bitmap. It saturates at 511 although a segment has 512 blocks, so it may be
  one below the number of valid bits, never more and never above.
\<close>

definition sit_count_ok :: "RtfsSitEntry \<Rightarrow> bool" where
  "sit_count_ok e \<longleftrightarrow> unat (GET_SIT_VBLOCKS e) \<le> sit_pop e \<and> sit_pop e \<le> unat (GET_SIT_VBLOCKS e) + 1"

abbreviation sit_ready :: "file_system_manager \<Rightarrow> nat \<Rightarrow> bool" where
  "sit_ready fs n \<equiv> snc_ready (fs_dev fs) (sit_cache fs) n"

definition sit_dev_ok :: "file_system_manager \<Rightarrow> u32 \<Rightarrow> bool" where
  "sit_dev_ok fs lpa = dev_ok (fs_dev fs) (sb32 fs SB_sit_blkaddr +
     (lpa - sb32 fs SB_segment0_blkaddr) div BLOCK_PER_SEGMENT div SIT_ENTRY_PER_BLOCK)"

text \<open>What a change of the LPAs \<open>l\<close> with \<open>l - start < count\<close> (modulo \<open>2^32\<close>) does.\<close>

definition sit_changed ::
  "file_system_manager \<Rightarrow> u32 \<Rightarrow> u32 \<Rightarrow> bool \<Rightarrow> file_system_manager \<Rightarrow> bool" where
  "sit_changed fs start count valid fs' \<longleftrightarrow>
     (\<forall>l. lpa_live fs' l = (if l - start < count then valid else lpa_live fs l)) \<and>
     (\<exists>js. sitJournal (cur_journal fs') = sitJournal (cur_journal fs) @ js \<and>
       sit_entry_of fs' = sit_apply js (sit_entry_of fs)) \<and>
     (\<forall>seg. GET_NEXT_SEG (sit_entry_of fs' seg) = GET_NEXT_SEG (sit_entry_of fs seg)) \<and>
     (\<forall>seg. sit_count_ok (sit_entry_of fs seg) \<longrightarrow> sit_count_ok (sit_entry_of fs' seg)) \<and>
     fs' = fs\<lparr>sit_cache := sit_cache fs', cur_journal := (cur_journal fs)\<lparr>sitJournal := sitJournal (cur_journal fs')\<rparr>\<rparr>"

lemma sit_pop_range:
  assumes "\<forall>k<512. sit_bit e' k = (if a \<le> k \<and> k < a + n then valid else sit_bit e k)"
    and "\<forall>k. a \<le> k \<longrightarrow> k < a + n \<longrightarrow> sit_bit e k \<noteq> valid" and "a + n \<le> 512"
  shows "if valid then sit_pop e' = sit_pop e + n else sit_pop e = sit_pop e' + n"
proof -
  let ?S = "\<lambda>e. {j. j < 512 \<and> sit_bit e j}"
  have fin: "finite (?S e)" "finite (?S e')" by simp_all
  show ?thesis
  proof (cases valid)
    case True
    then have "?S e' = ?S e \<union> {a..<a + n}" "?S e \<inter> {a..<a + n} = {}"
      using assms by auto
    with True fin show ?thesis by (simp add: sit_pop_def card_Un_disjoint)
  next
    case False
    then have "?S e = ?S e' \<union> {a..<a + n}" "?S e' \<inter> {a..<a + n} = {}"
      using assms by (auto split: if_splits)
    with False fin show ?thesis by (simp add: sit_pop_def card_Un_disjoint)
  qed
qed

lemma sit_pop_le: "sit_pop e \<le> 512"
  unfolding sit_pop_def using card_mono [of "{..<512}" "{j. j < 512 \<and> sit_bit e j}"] by auto

lemma sit_count_keeps:
  assumes "sit_count_ok e"
    and "if valid then sit_pop e' = sit_pop e + n else sit_pop e = sit_pop e' + n"
    and "unat (GET_SIT_VBLOCKS e') = (if valid then min 511 (unat (GET_SIT_VBLOCKS e) + n)
                                  else unat (GET_SIT_VBLOCKS e) - n)"
  shows "sit_count_ok e'"
  using assms sit_pop_le [of e'] by (auto simp: sit_count_ok_def split: if_splits)

lemma sit_table_update:
  assumes "sit_ok e" and "snc_view (fs_dev fs) c' = (snc_view (fs_dev fs) (sit_cache fs))
      (sb32 fs SB_sit_blkaddr + seg div SIT_ENTRY_PER_BLOCK :=
        putSitEntry (snc_view (fs_dev fs) (sit_cache fs) (sb32 fs SB_sit_blkaddr + seg div SIT_ENTRY_PER_BLOCK))
          (sit_slot (seg mod SIT_ENTRY_PER_BLOCK)) e)"
  shows "sit_entry_of (fs\<lparr>sit_cache := c', cur_journal := j\<rparr>) = (sit_entry_of fs)(seg := e)"
proof
  fix m
  show "sit_entry_of (fs\<lparr>sit_cache := c', cur_journal := j\<rparr>) m = ((sit_entry_of fs)(seg := e)) m"
  proof (cases "m div SIT_ENTRY_PER_BLOCK = seg div SIT_ENTRY_PER_BLOCK")
    case False
    then show ?thesis
      using assms by (auto simp: sit_entry_of_def)
  next
    case same: True
    show ?thesis
    proof (cases "m = seg")
      case True
      then show ?thesis
        using assms by (simp add: sit_entry_of_def csit.cget_cput)
    next
      case False
      then have "m mod SIT_ENTRY_PER_BLOCK \<noteq> seg mod SIT_ENTRY_PER_BLOCK"
        using same word_div_mod_cong by blast
      then have "unat (m mod SIT_ENTRY_PER_BLOCK) \<noteq> unat (seg mod SIT_ENTRY_PER_BLOCK)"
        by (metis unsigned_word_eqI)
      then have "sit_slot (m mod SIT_ENTRY_PER_BLOCK) + 68 \<le> sit_slot (seg mod SIT_ENTRY_PER_BLOCK) \<or>
          sit_slot (seg mod SIT_ENTRY_PER_BLOCK) + 68 \<le> sit_slot (m mod SIT_ENTRY_PER_BLOCK)"
        by linarith
      then show ?thesis
        using assms same False by (simp add: sit_entry_of_def csit.get_put_other)
    qed
  qed
qed

text \<open>The LPAs of a chunk inside one segment, by segment and bit number.\<close>

lemma chunk_nat:
  fixes o' x c :: nat
  assumes "o' mod 512 + c \<le> 512"
  shows "o' \<le> x \<and> x < o' + c \<longleftrightarrow> x div 512 = o' div 512 \<and> o' mod 512 \<le> x mod 512 \<and> x mod 512 < o' mod 512 + c"
proof -
  define qx rx qo ro where "qx = x div 512" and "rx = x mod 512" and "qo = o' div 512" and "ro = o' mod 512"
  then have e: "x = 512 * qx + rx" "o' = 512 * qo + ro" "rx < 512" "ro < 512" and b: "ro + c \<le> 512"
    using assms by simp_all
  consider "qx < qo" | "qx = qo" | "qo < qx"
    by linarith
  then have "o' \<le> x \<and> x < o' + c \<longleftrightarrow> qx = qo \<and> ro \<le> rx \<and> rx < ro + c"
    by cases (use e b in auto)
  then show ?thesis
    by (simp add: qx_def rx_def qo_def ro_def)
qed

lemma chunk_lpas:
  fixes off cnt x :: u32
  assumes "unat (off mod 512) + unat cnt \<le> 512"
  shows "x - off < cnt \<longleftrightarrow> x div 512 = off div 512 \<and> unat (off mod 512) \<le> unat (x mod 512) \<and>
    unat (x mod 512) < unat (off mod 512) + unat cnt"
proof -
  let ?x = "unat x" and ?o = "unat off" and ?c = "unat cnt"
  have seg: "x div 512 = off div 512 \<longleftrightarrow> ?x div 512 = ?o div 512"
    by (simp add: word_unat_eq_iff unat_div)
  have nowrap: "?o + ?c \<le> 4294967296"
  proof -
    have "?o div 512 < 8388608"
      using unat_less_u32 [of off] by (simp add: less_mult_imp_div_less)
    moreover have "?o = 512 * (?o div 512) + ?o mod 512"
      by simp
    moreover have "?o mod 512 + ?c \<le> 512"
      using assms by (simp add: unat_mod)
    ultimately show ?thesis by linarith
  qed
  have "x - off < cnt \<longleftrightarrow> ?o \<le> ?x \<and> ?x < ?o + ?c"
  proof (cases "off \<le> x")
    case True
    then show ?thesis
      by (auto simp: word_less_nat_alt word_le_nat_alt unat_sub)
  next
    case False
    then have "unat (x - off) = ?x + 4294967296 - ?o"
      using unat_less_u32 [of off] by (simp add: unat_sub_if' word_le_nat_alt)
    with False nowrap show ?thesis
      by (auto simp: word_less_nat_alt word_le_nat_alt)
  qed
  also have "\<dots> \<longleftrightarrow> ?x div 512 = ?o div 512 \<and> ?o mod 512 \<le> ?x mod 512 \<and> ?x mod 512 < ?o mod 512 + ?c"
    using assms by (intro chunk_nat) (simp add: unat_mod)
  finally show ?thesis
    by (simp add: seg unat_mod)
qed

lemma sit_entry_of_ok: "sit_ok (sit_entry_of fs seg)"
  by (simp add: sit_entry_of_def csit.cok_cget)

lemma sitChangeSegment_spec:
  assumes "sit_ready fs (Suc n)" and "sit_dev_ok fs cur"
    and "unat ((cur - sb32 fs SB_segment0_blkaddr) mod 512) + unat cnt \<le> 512"
    and "\<forall>l. l - cur < cnt \<longrightarrow> lpa_live fs l \<noteq> valid"
  shows "\<exists>fs'. sitChangeSegment fs (sitOperatorInit fs) cur cnt valid = Some fs' \<and> sit_ready fs' n \<and>
    sit_changed fs cur cnt valid fs'"
proof -
  let ?off = "cur - sb32 fs SB_segment0_blkaddr"
  let ?seg = "?off div BLOCK_PER_SEGMENT" and ?so = "?off mod BLOCK_PER_SEGMENT"
  let ?lpa = "sb32 fs SB_sit_blkaddr + ?seg div SIT_ENTRY_PER_BLOCK"
  let ?slot = "sit_slot (?seg mod SIT_ENTRY_PER_BLOCK)"
  let ?old = "snc_view (fs_dev fs) (sit_cache fs) ?lpa"
  have ok: "dev_ok (fs_dev fs) ?lpa"
    using assms(2) by (simp add: sit_dev_ok_def)
  obtain h c1 where g: "sitNatCacheGet (fs_dev fs) (sit_cache fs) ?lpa = Some (h, c1)" "snc_block c1 h = ?old"
    and m: "\<forall>b. \<exists>c'. sitNatCacheEntryHandleDestroy
       (sitNatCacheEntryHandleAddHostVersion (snc_put_block c1 h b) (Some h)) (Some h) = Some (None, c') \<and>
       snc_ready (fs_dev fs) c' n \<and>
       snc_view (fs_dev fs) c' = (snc_view (fs_dev fs) (sit_cache fs))(?lpa := b)"
    by (rule snc_modify [OF assms(1) ok])
  have ent: "getSitEntry ?old ?slot = sit_entry_of fs ?seg"
    by (simp add: sit_entry_of_def)
  have range: "l - cur < cnt \<longleftrightarrow> (l - sb32 fs SB_segment0_blkaddr) div 512 = ?seg \<and>
      unat ?so \<le> unat ((l - sb32 fs SB_segment0_blkaddr) mod 512) \<and>
      unat ((l - sb32 fs SB_segment0_blkaddr) mod 512) < unat ?so + unat cnt" for l
    using chunk_lpas [OF assms(3), of "l - sb32 fs SB_segment0_blkaddr"] by simp
  have opp: "sit_bit (sit_entry_of fs ?seg) k \<noteq> valid" if "unat ?so \<le> k" "k < unat ?so + unat cnt" for k
  proof -
    let ?l = "cur + of_nat (k - unat ?so)"
    have lt: "k - unat ?so < unat cnt"
      using that by linarith
    then have "?l - cur < cnt"
      using unat_less_u32 [of cnt] by (simp add: word_less_nat_alt unat_of_nat_u32)
    then have live: "lpa_live fs ?l \<noteq> valid" and seg: "(?l - sb32 fs SB_segment0_blkaddr) div 512 = ?seg"
      using assms(4) range by blast+
    have "?l - sb32 fs SB_segment0_blkaddr = ?off + of_nat (k - unat ?so)"
      by simp
    moreover have "unat (?off + of_nat (k - unat ?so)) mod 512 = k"
    proof -
      have "unat (?off + of_nat (k - unat ?so)) mod 512 = (unat ?off + (k - unat ?so)) mod 512"
        by (simp add: unat_word_ariths unat_of_nat mod_mod_cancel mod_add_right_eq)
      also have "\<dots> = (unat ?off mod 512 + (k - unat ?so)) mod 512"
        by (simp add: mod_add_left_eq)
      also have "unat ?off mod 512 = unat ?so"
        by (simp add: unat_mod)
      finally show ?thesis
        using that assms(3) by simp
    qed
    ultimately have "unat ((?l - sb32 fs SB_segment0_blkaddr) mod 512) = k"
      by (simp only: unat_mod) simp
    with live seg show ?thesis
      by (simp add: lpa_live_def Let_def)
  qed
  obtain e' where e': "sitChangeBits valid (sit_entry_of fs ?seg) ?so 0 (unat cnt) = Some e'" "sit_ok e'"
      "\<forall>k<512. sit_bit e' k = (if unat ?so \<le> k \<and> k < unat ?so + unat cnt then valid else sit_bit (sit_entry_of fs ?seg) k)"
      "GET_NEXT_SEG e' = GET_NEXT_SEG (sit_entry_of fs ?seg)"
      "unat (GET_SIT_VBLOCKS e') = (if valid then min 511 (unat (GET_SIT_VBLOCKS (sit_entry_of fs ?seg)) + unat cnt)
                                  else unat (GET_SIT_VBLOCKS (sit_entry_of fs ?seg)) - unat cnt)"
    using sitChangeBits_spec [OF sit_entry_of_ok, of ?so 0 "unat cnt" fs ?seg valid] assms(3) opp by auto
  obtain c' where c': "sitNatCacheEntryHandleDestroy (sitNatCacheEntryHandleAddHostVersion
       (snc_put_block c1 h (putSitEntry ?old ?slot e')) (Some h)) (Some h) = Some (None, c')"
      "snc_ready (fs_dev fs) c' n"
      "snc_view (fs_dev fs) c' = (snc_view (fs_dev fs) (sit_cache fs))(?lpa := putSitEntry ?old ?slot e')"
    using m by blast
  let ?j = "(cur_journal fs)\<lparr>sitJournal := sitJournal (cur_journal fs) @ [\<lparr>sj_segID = ?seg, sj_newValue = e'\<rparr>]\<rparr>"
  let ?fs' = "fs\<lparr>sit_cache := c', cur_journal := ?j\<rparr>"
  have r: "sitChangeSegment fs (sitOperatorInit fs) cur cnt valid = Some ?fs'"
    using c'(1) e'(1) by (simp add: sitChangeSegment_def sitOperatorInit_def Let_def g ent journal_append_defs)
  have tab: "sit_entry_of ?fs' = (sit_entry_of fs)(?seg := e')"
    by (rule sit_table_update [OF e'(2) c'(3)])
  have live: "lpa_live ?fs' l = (if l - cur < cnt then valid else lpa_live fs l)" for l
  proof -
    have "unat ((l - sb32 fs SB_segment0_blkaddr) mod 512) < 512"
      by (simp add: unat_mod)
    then show ?thesis
      using e'(3) range [of l] by (auto simp: lpa_live_def Let_def tab)
  qed
  have pop: "if valid then sit_pop e' = sit_pop (sit_entry_of fs ?seg) + unat cnt
      else sit_pop (sit_entry_of fs ?seg) = sit_pop e' + unat cnt"
    using sit_pop_range [OF e'(3)] opp assms(3) by blast
  have "sit_changed fs cur cnt valid ?fs'"
    unfolding sit_changed_def using live e'(4) sit_count_keeps [OF _ pop e'(5)]
    by (auto simp: tab)
  with r c'(2) show ?thesis by simp
qed

lemma sit_frame_trans:
  "fs1 = fs\<lparr>sit_cache := x, cur_journal := (cur_journal fs)\<lparr>sitJournal := y\<rparr>\<rparr> \<Longrightarrow>
   fs2 = fs1\<lparr>sit_cache := x', cur_journal := (cur_journal fs1)\<lparr>sitJournal := y'\<rparr>\<rparr> \<Longrightarrow>
   fs2 = fs\<lparr>sit_cache := sit_cache fs2, cur_journal := (cur_journal fs)\<lparr>sitJournal := sitJournal (cur_journal fs2)\<rparr>\<rparr>"
  by simp

lemma sit_changed_trans:
  assumes "sit_changed fs a c v fs1" and "sit_changed fs1 a' c' v fs2"
    and "\<And>l. l - b < d \<longleftrightarrow> l - a < c \<or> l - a' < c'"
  shows "sit_changed fs b d v fs2"
proof -
  obtain js where js: "sitJournal (cur_journal fs1) = sitJournal (cur_journal fs) @ js"
      "sit_entry_of fs1 = sit_apply js (sit_entry_of fs)"
    using assms(1) by (auto simp: sit_changed_def)
  obtain js' where js': "sitJournal (cur_journal fs2) = sitJournal (cur_journal fs1) @ js'"
      "sit_entry_of fs2 = sit_apply js' (sit_entry_of fs1)"
    using assms(2) by (auto simp: sit_changed_def)
  have "\<exists>ks. sitJournal (cur_journal fs2) = sitJournal (cur_journal fs) @ ks \<and>
      sit_entry_of fs2 = sit_apply ks (sit_entry_of fs)"
    by (rule exI [of _ "js @ js'"]) (simp only: js js' apply_append append_assoc simp_thms)
  moreover have "fs2 = fs\<lparr>sit_cache := sit_cache fs2,
      cur_journal := (cur_journal fs)\<lparr>sitJournal := sitJournal (cur_journal fs2)\<rparr>\<rparr>"
    using assms(1,2) unfolding sit_changed_def by (blast intro: sit_frame_trans)
  moreover have "\<forall>l. lpa_live fs2 l = (if l - b < d then v else lpa_live fs l)"
    "\<forall>seg. GET_NEXT_SEG (sit_entry_of fs2 seg) = GET_NEXT_SEG (sit_entry_of fs seg)"
    "\<forall>seg. sit_count_ok (sit_entry_of fs seg) \<longrightarrow> sit_count_ok (sit_entry_of fs2 seg)"
    using assms unfolding sit_changed_def by simp_all
  ultimately show ?thesis
    unfolding sit_changed_def by blast
qed

subsection \<open>Ranges of LPAs\<close>

text \<open>The number of segments that the range touches.\<close>

definition sit_rounds :: "SitOperator \<Rightarrow> u32 \<Rightarrow> u32 \<Rightarrow> nat" where
  "sit_rounds op start count =
     (if count = 0 then 0 else (unat (start - seg0StartLpa op) mod 512 + unat count + 511) div 512)"

lemma sit_rounds_step:
  assumes "count > 0"
  shows "sit_rounds op l count =
    Suc (sit_rounds op (l + sit_chunk op l count) (count - sit_chunk op l count))"
proof -
  let ?o = "l - seg0StartLpa op" and ?k = "sit_chunk op l count"
  define r where "r = unat ?o mod 512"
  have r: "r < 512" "unat (?o mod 512) = r"
    by (simp_all add: r_def unat_mod)
  note b = sit_chunk_bounds [OF assms, where op = op and l = l]
  have pos: "0 < unat count"
    using assms by (simp add: word_less_nat_alt)
  have sub: "unat (count - ?k) = unat count - unat ?k"
    using b(2) by (rule unat_sub)
  show ?thesis
  proof (cases "?k = count")
    case True
    then have le: "r + unat count \<le> 512"
      using b(3) r by simp
    have "(r + unat count + 511) div 512 = 1"
      by (rule div_nat_eqI) (use le pos in auto)
    with True assms show ?thesis
      by (simp add: sit_rounds_def r_def)
  next
    case False
    have u: "unat (512 - ?o mod 512) = 512 - r"
      using r by (subst unat_sub) (simp_all add: word_le_nat_alt)
    have k: "?k = 512 - ?o mod 512" and "\<not> 512 - ?o mod 512 > count"
      using False by (simp_all add: sit_chunk_def Let_def split: if_splits)
    then have "512 - r \<le> unat count" "512 - r \<noteq> unat count"
      using u False by (simp_all only: word_less_nat_alt not_less) (metis unsigned_word_eqI)
    then have lt: "512 - r < unat count"
      by simp
    have "unat (l + ?k - seg0StartLpa op) mod 512 = (unat ?o + unat ?k) mod 512"
    proof -
      have "l + ?k - seg0StartLpa op = ?o + ?k"
        by simp
      then show ?thesis
        by (simp only: unat_word_ariths) (simp add: mod_mod_cancel)
    qed
    also have "\<dots> = (r + (512 - r)) mod 512"
      by (simp only: k u r_def mod_add_left_eq)
    also have "\<dots> = 0"
      using r by simp
    finally have z: "unat (l + ?k - seg0StartLpa op) mod 512 = 0" .
    have "unat count - (512 - r) \<noteq> 0" "count - ?k \<noteq> 0"
      using lt k u sub by (auto simp: unat_eq_0 [symmetric])
    moreover have "(r + unat count + 511) div 512 = Suc ((unat count - (512 - r) + 511) div 512)"
    proof -
      have "r + unat count + 511 = (unat count - (512 - r) + 511) + 512"
        using lt r by simp
      then show ?thesis by simp
    qed
    ultimately show ?thesis
      using z assms sub k u by (simp add: sit_rounds_def r_def)
  qed
qed

lemma range_split:
  fixes l a c k :: u32
  assumes "k \<le> c"
  shows "l - a < c \<longleftrightarrow> l - a < k \<or> l - (a + k) < c - k"
    and "l - (a + k) < c - k \<Longrightarrow> \<not> l - a < k"
proof -
  define y where "y = l - a"
  have y: "l - (a + k) = y - k"
    by (simp add: y_def)
  have ck: "unat (c - k) = unat c - unat k"
    using assms by (rule unat_sub)
  have cl: "unat c < 4294967296" by (rule unat_less_u32)
  have "unat (y - k) = (if k \<le> y then unat y - unat k else unat y + 4294967296 - unat k)"
    using unat_less_u32 [of k] by (simp add: unat_sub_if' word_le_nat_alt)
  with ck cl assms show "l - a < c \<longleftrightarrow> l - a < k \<or> l - (a + k) < c - k"
    and "l - (a + k) < c - k \<Longrightarrow> \<not> l - a < k"
    unfolding y y_def [symmetric] by (auto simp: word_less_nat_alt word_le_nat_alt split: if_splits)
qed

lemma sit_changed_frame:
  assumes "sit_changed fs a c v fs'"
  shows "super_blk_mem fs' = super_blk_mem fs" "fs_dev fs' = fs_dev fs"
    "sitOperatorInit fs' = sitOperatorInit fs" "sit_dev_ok fs' = sit_dev_ok fs"
proof -
  obtain x y where f: "fs' = fs\<lparr>sit_cache := x, cur_journal := (cur_journal fs)\<lparr>sitJournal := y\<rparr>\<rparr>"
    using assms unfolding sit_changed_def by blast
  then show "super_blk_mem fs' = super_blk_mem fs" "fs_dev fs' = fs_dev fs"
    "sitOperatorInit fs' = sitOperatorInit fs" "sit_dev_ok fs' = sit_dev_ok fs"
    by (simp_all add: sitOperatorInit_def sit_dev_ok_def fun_eq_iff)
qed

lemma sit_changed_refl: "sit_changed fs a 0 v fs"
  by (simp add: sit_changed_def)

lemma sitChangeLpaStateLoop_spec:
  assumes "sit_ready fs (n + sit_rounds (sitOperatorInit fs) start count)"
    and "\<forall>l. l - start < count \<longrightarrow> sit_dev_ok fs l \<and> lpa_live fs l \<noteq> valid"
  shows "\<exists>fs'. sitChangeLpaStateLoop fs (sitOperatorInit fs) start count valid = Some fs' \<and>
    sit_ready fs' n \<and> sit_changed fs start count valid fs'"
  using assms
proof (induction "unat count" arbitrary: fs start count rule: less_induct)
  case less
  let ?op = "sitOperatorInit fs"
  show ?case
  proof (cases "count > 0")
    case False
    then have "count = 0"
      by (simp add: word_gt_0)
    then show ?thesis
      using less.prems sit_changed_refl [of fs start valid]
      by (subst sitChangeLpaStateLoop.simps) (simp add: sit_rounds_def)
  next
    case True
    let ?k = "sit_chunk ?op start count"
    note b = sit_chunk_bounds [OF True, where op = ?op and l = start]
    have first: "start - start < count"
      using True by simp
    have "\<exists>fs'. sitChangeSegment fs ?op start ?k valid = Some fs' \<and>
        sit_ready fs' (n + sit_rounds ?op (start + ?k) (count - ?k)) \<and> sit_changed fs start ?k valid fs'"
    proof (rule sitChangeSegment_spec)
      show "sit_ready fs (Suc (n + sit_rounds ?op (start + ?k) (count - ?k)))"
        using less.prems(1) sit_rounds_step [OF True, of ?op start] by simp
      show "sit_dev_ok fs start"
        using less.prems(2) first by blast
      show "unat ((start - sb32 fs SB_segment0_blkaddr) mod 512) + unat ?k \<le> 512"
        using b(3) by (simp add: sitOperatorInit_def)
      show "\<forall>l. l - start < ?k \<longrightarrow> lpa_live fs l \<noteq> valid"
        using less.prems(2) range_split(1) [OF b(2), of _ start] by blast
    qed
    then obtain fs1 where f1: "sitChangeSegment fs ?op start ?k valid = Some fs1"
        "sit_ready fs1 (n + sit_rounds ?op (start + ?k) (count - ?k))" "sit_changed fs start ?k valid fs1"
      by blast
    note fr = sit_changed_frame [OF f1(3)]
    have "\<exists>fs'. sitChangeLpaStateLoop fs1 (sitOperatorInit fs1) (start + ?k) (count - ?k) valid = Some fs' \<and>
        sit_ready fs' n \<and> sit_changed fs1 (start + ?k) (count - ?k) valid fs'"
    proof (rule less.hyps [OF b(4)])
      show "sit_ready fs1 (n + sit_rounds (sitOperatorInit fs1) (start + ?k) (count - ?k))"
        using f1(2) by (simp add: fr)
      show "\<forall>l. l - (start + ?k) < count - ?k \<longrightarrow> sit_dev_ok fs1 l \<and> lpa_live fs1 l \<noteq> valid"
        using less.prems(2) range_split [OF b(2), of _ start] f1(3)
        by (simp add: fr sit_changed_def)
    qed
    then obtain fs2 where f2: "sitChangeLpaStateLoop fs1 ?op (start + ?k) (count - ?k) valid = Some fs2"
        "sit_ready fs2 n" "sit_changed fs1 (start + ?k) (count - ?k) valid fs2"
      by (auto simp: fr)
    have "sit_changed fs start count valid fs2"
      by (rule sit_changed_trans [OF f1(3) f2(3) range_split(1) [OF b(2)]])
    moreover have "sitChangeLpaStateLoop fs ?op start count valid = Some fs2"
      using True f1(1) f2(1) by (subst sitChangeLpaStateLoop.simps) simp
    ultimately show ?thesis
      using f2(2) by blast
  qed
qed

lemma sitChangeLpaStateRange_spec:
  assumes "start \<noteq> INVALID_LPA"
    and "sit_ready fs (n + sit_rounds (sitOperatorInit fs) start count)"
    and "\<forall>l. l - start < count \<longrightarrow> sit_dev_ok fs l \<and> lpa_live fs l \<noteq> valid"
  shows "\<exists>fs'. sitChangeLpaStateRange fs (sitOperatorInit fs) start count valid = Some fs' \<and> sit_ready fs' n \<and>
    (\<forall>l. lpa_live fs' l = (if l - start < count then valid else lpa_live fs l)) \<and>
    (\<exists>js. sitJournal (cur_journal fs') = sitJournal (cur_journal fs) @ js \<and>
       sit_entry_of fs' = sit_apply js (sit_entry_of fs)) \<and>
    (\<forall>seg. GET_NEXT_SEG (sit_entry_of fs' seg) = GET_NEXT_SEG (sit_entry_of fs seg)) \<and>
    (\<forall>seg. sit_count_ok (sit_entry_of fs seg) \<longrightarrow> sit_count_ok (sit_entry_of fs' seg)) \<and>
    fs' = fs\<lparr>sit_cache := sit_cache fs', cur_journal := (cur_journal fs)\<lparr>sitJournal := sitJournal (cur_journal fs')\<rparr>\<rparr>"
proof (cases "count = 0")
  case True
  then show ?thesis
    using assms sit_changed_refl [of fs start valid]
    by (intro exI [of _ fs]) (auto simp: sitChangeLpaStateRange_def sit_changed_def sit_rounds_def)
next
  case False
  then show ?thesis
    using sitChangeLpaStateLoop_spec [OF assms(2,3)] assms(1)
    unfolding sitChangeLpaStateRange_def sit_changed_def by simp
qed

text \<open>
  Claim C15. \<^verbatim>\<open>sitChangeLpaStateRange\<close> (behind \<^verbatim>\<open>sitValidateLpa\<close>, \<^verbatim>\<open>sitValidateLpaRange\<close> and
  \<^verbatim>\<open>sitInvalidateLpa\<close>) flips exactly the LPAs of the range. For a start LPA other than
  \<^verbatim>\<open>INVALID_LPA\<close>, a SIT cache with one unit of budget per touched segment, readable SIT blocks, and all
  LPAs of the range in the opposite state, the call returns; then exactly these LPAs have the new
  state; replaying the appended SIT journal entries on the old table gives the new table; the
  free-segment links are untouched; a valid-block counter that was right or one too low is so again;
  no other part of the state changes. The range is \<open>l - start < count\<close> modulo \<open>2^32\<close>, so it may cross
  segments and SIT blocks.
\<close>

theorem sitChangeLpaStateRange_exact:
  assumes "start \<noteq> INVALID_LPA"
    and "sit_ready fs (n + sit_rounds (sitOperatorInit fs) start count)"
    and "\<forall>l. l - start < count \<longrightarrow> sit_dev_ok fs l \<and> lpa_live fs l \<noteq> valid"
  shows "\<exists>fs'. sitChangeLpaStateRange fs (sitOperatorInit fs) start count valid = Some fs' \<and> sit_ready fs' n \<and>
    (\<forall>l. lpa_live fs' l = (if l - start < count then valid else lpa_live fs l)) \<and>
    (\<exists>js. sitJournal (cur_journal fs') = sitJournal (cur_journal fs) @ js \<and>
       sit_entry_of fs' = sit_apply js (sit_entry_of fs)) \<and>
    (\<forall>seg. GET_NEXT_SEG (sit_entry_of fs' seg) = GET_NEXT_SEG (sit_entry_of fs seg)) \<and>
    (\<forall>seg. sit_count_ok (sit_entry_of fs seg) \<longrightarrow> sit_count_ok (sit_entry_of fs' seg)) \<and>
    fs' = fs\<lparr>sit_cache := sit_cache fs', cur_journal := (cur_journal fs)\<lparr>sitJournal := sitJournal (cur_journal fs')\<rparr>\<rparr>"
  by (rule sitChangeLpaStateRange_spec [OF assms])

lemma demo_sit_dev_ok: "unat (lpa - 100) < 30720 \<Longrightarrow> sit_dev_ok demo_fs lpa"
proof -
  assume "unat (lpa - 100) < 30720"
  then have "unat ((lpa - 100) div 512 div 60) < 1"
    by (simp add: unat_div)
  then have "(lpa - 100) div 512 div 60 = 0"
    by (simp add: unat_eq_0)
  then show "sit_dev_ok demo_fs lpa"
    by (simp add: sit_dev_ok_def demo_sb demo_dev_ok)
qed

lemma demo_lpa_dead: "\<not> lpa_live demo_fs lpa"
proof -
  have "valid_map (getSitEntry zero_block off) = map (\<lambda>_. 0) [0..<64]" for off
    by (simp add: getSitEntry_def zero_block_def)
  then have "\<not> sit_bit (getSitEntry zero_block off) j" if "j < 512" for off j
    using that by (simp add: sit_bit_def)
  moreover have "unat ((lpa - 100) mod 512) < 512"
    by (simp add: unat_mod)
  ultimately show ?thesis
    by (simp add: lpa_live_def Let_def sit_entry_of_def demo_sb snc_view_def snc_init(2))
      (simp add: demo_dev_def)
qed

lemma sitChangeLpaStateRange_exact_witness:
  "\<exists>fs'. sitChangeLpaStateRange demo_fs (sitOperatorInit demo_fs) 610 5 True = Some fs' \<and>
     lpa_live fs' 610 \<and> lpa_live fs' 614 \<and> \<not> lpa_live fs' 609 \<and> \<not> lpa_live fs' 615"
proof -
  have rounds: "sit_rounds (sitOperatorInit demo_fs) 610 5 = 2"
    by (simp add: sit_rounds_def sitOperatorInit_def demo_sb)
  have rng: "sit_dev_ok demo_fs l" if "l - 610 < 5" for l
  proof (rule demo_sit_dev_ok)
    have "unat (l - 610) < 5"
      using that by (simp add: word_less_nat_alt)
    moreover have "l - 100 = (l - 610) + 510"
      by simp
    ultimately show "unat (l - 100) < 30720"
      by (simp only: unat_word_ariths) simp
  qed
  show ?thesis
    using sitChangeLpaStateRange_exact [of 610 demo_fs 0 5 True] rounds demo_ready [of "Suc (Suc 0)"] rng demo_lpa_dead
    by auto
qed

lemma sit_change_same:
  assumes "lpa \<noteq> INVALID_LPA" and "sit_ready fs (Suc 0)" and "sit_dev_ok fs lpa"
  shows "sitChangeLpaStateRange fs (sitOperatorInit fs) lpa 1 (lpa_live fs lpa) = None"
proof -
  let ?off = "lpa - sb32 fs SB_segment0_blkaddr"
  let ?seg = "?off div 512" and ?so = "?off mod 512"
  let ?l = "sb32 fs SB_sit_blkaddr + ?seg div 60"
  have one: "sit_chunk (sitOperatorInit fs) lpa 1 = 1"
  proof -
    have "unat (sit_chunk (sitOperatorInit fs) lpa 1) = unat (1 :: u32)"
      using sit_chunk_bounds(1,2) [of 1 "sitOperatorInit fs" lpa] by (simp add: word_le_nat_alt)
    then show ?thesis by (rule unsigned_word_eqI)
  qed
  obtain h c1 where g: "sitNatCacheGet (fs_dev fs) (sit_cache fs) ?l = Some (h, c1)"
      "snc_block c1 h = snc_view (fs_dev fs) (sit_cache fs) ?l"
      "snc_view (fs_dev fs) c1 = snc_view (fs_dev fs) (sit_cache fs)"
      "snc_ready (fs_dev fs) c1 0" "?l \<in> snc_pinned c1"
    by (rule snc_get_budget [OF assms(2)]) (use assms(3) in \<open>simp add: sit_dev_ok_def\<close>)
  have bit: "sitChangeBits v (sit_entry_of fs ?seg) ?so 0 (Suc 0) = None" if "lpa_live fs lpa = v" for v
    by (rule sitChangeBits_turn(1) [OF sit_entry_of_ok refl])
      (use that in \<open>simp_all add: lpa_live_def Let_def unat_mod\<close>)
  have seg: "sitChangeSegment fs (sitOperatorInit fs) lpa 1 v = None" if "lpa_live fs lpa = v" for v
    using bit [OF that]
    by (simp add: sitChangeSegment_def sitOperatorInit_def Let_def g sit_entry_of_def del: sitChangeBits.simps)
  have "sitChangeLpaStateRange fs (sitOperatorInit fs) lpa 1 v = None" if "lpa_live fs lpa = v" for v
    using seg [OF that] assms(1) one
    by (simp add: sitChangeLpaStateRange_def) (subst sitChangeLpaStateLoop.simps, simp)
  then show ?thesis by simp
qed

text \<open>
  Claim C21. The assertions of \<^verbatim>\<open>sit_utils.c\<close> catch a double invalidation and a double validation: a call for
  an LPA that already has the requested state never returns.
\<close>

theorem sitChange_twice_asserts:
  assumes "lpa \<noteq> INVALID_LPA" and "sit_ready fs (Suc 0)" and "sit_dev_ok fs lpa"
  shows "(if lpa_live fs lpa then sitValidateLpa fs (sitOperatorInit fs) lpa
      else sitInvalidateLpa fs (sitOperatorInit fs) lpa) = None"
  using sit_change_same [OF assms] by (auto simp: sitInvalidateLpa_def sitValidateLpa_def)

lemma sitChange_twice_asserts_witness:
  "sitInvalidateLpa demo_fs (sitOperatorInit demo_fs) 200 = None"
  using sitChange_twice_asserts [of 200 demo_fs] by (simp add: demo_ready demo_sit_dev_ok demo_lpa_dead)

text \<open>
  Claim C23. The valid-block counter can say 0 for a segment that still has a valid block: it saturates at
  511 when all 512 blocks of a segment are validated, and 511 invalidations bring it down to 0 while
  one bit of the map is still set.
\<close>

theorem sit_counter_undercounts:
  "\<exists>e1 e2. sitChangeBits True \<lparr>vblocks = 0, valid_map = replicate 64 0\<rparr> 0 0 512 = Some e1 \<and>
     sitChangeBits False e1 0 0 511 = Some e2 \<and> sit_pop e1 = 512 \<and> GET_SIT_VBLOCKS e1 = 511 \<and>
     sit_pop e2 = 1 \<and> GET_SIT_VBLOCKS e2 = 0"
proof -
  let ?e = "\<lparr>vblocks = 0, valid_map = replicate 64 0\<rparr>"
  have ok: "sit_ok ?e" and z: "\<forall>k. k < 512 \<longrightarrow> \<not> sit_bit ?e k" and p: "sit_pop ?e = 0"
    and c: "GET_SIT_VBLOCKS ?e = 0"
    by (auto simp: sit_ok_def sit_bit_def sit_pop_def GET_SIT_VBLOCKS_def)
  obtain e1 where e1: "sitChangeBits True ?e 0 0 512 = Some e1" "sit_ok e1"
      "\<forall>k<512. sit_bit e1 k = (if 0 \<le> k \<and> k < 0 + 512 then True else sit_bit ?e k)" "unat (GET_SIT_VBLOCKS e1) = 511"
    using sitChangeBits_spec [OF ok, of 0 0 512 True] z c by auto
  obtain e2 where e2: "sitChangeBits False e1 0 0 511 = Some e2"
      "\<forall>k<512. sit_bit e2 k = (if 0 \<le> k \<and> k < 0 + 511 then False else sit_bit e1 k)" "unat (GET_SIT_VBLOCKS e2) = 0"
    using sitChangeBits_spec [OF e1(2), of 0 0 511 False] e1(3,4) by auto
  have "sit_pop e1 = 512"
    using sit_pop_range [OF e1(3)] z p by simp
  moreover have "sit_pop e2 = 1"
    using sit_pop_range [OF e2(2)] e1(3) calculation by simp
  ultimately show ?thesis
    using e1 e2 by (intro exI [of _ e1] exI [of _ e2]) (auto intro: unsigned_word_eqI)
qed

end
