(* ===== verification/Super_Manager.thy ===== *)
theory Super_Manager
  imports Nat_Utils Sit_Utils
begin

text \<open>
  The allocators of \<^verbatim>\<open>src/src/fs/super_manager.c\<close>: node ids from the free list threaded through the NAT,
  segments from the free list threaded through the SIT, and LPAs from the current node or data
  segment. Fields of the in-memory super block are read and written at their byte offsets.
\<close>

definition sb_put :: "file_system_manager \<Rightarrow> nat \<Rightarrow> u32 \<Rightarrow> file_system_manager" where
  "sb_put fs off v = fs\<lparr>super_blk_mem := put32 (super_blk_mem fs) off v\<rparr>"

definition superManagerAppendSuperBlockJournalEntry ::
  "file_system_manager \<Rightarrow> u32 \<Rightarrow> u32 \<Rightarrow> file_system_manager" where
  "superManagerAppendSuperBlockJournalEntry fs off new_val =
     fs\<lparr>cur_journal := journalContainerAppendSuperBlockJournalEntry (cur_journal fs)
          \<lparr>sbj_Off = off, sbj_newVal = new_val\<rparr>\<rparr>"

definition superManagerAppendSuperBlockJournalEntryForField ::
  "file_system_manager \<Rightarrow> nat \<Rightarrow> file_system_manager" where
  "superManagerAppendSuperBlockJournalEntryForField fs field =
     superManagerAppendSuperBlockJournalEntry fs (of_nat field) (sb32 fs field)"

subsection \<open>Node ids\<close>

definition superManagerAllocNid ::
  "file_system_manager \<Rightarrow> u32 \<Rightarrow> bool \<Rightarrow> (u32 \<times> file_system_manager) option" where
  "superManagerAllocNid fs ino is_inode =
     (let nid = sb32 fs SB_next_free_nid in
      if nid = INVALID_NID then Some (INVALID_NID, fs)
      else do {
        (lpa, idx) \<leftarrow> natGetNidPos fs nid;
        (h, c) \<leftarrow> sitNatCacheGet (fs_dev fs) (nat_cache fs) lpa;
        let nat_entry = getNatEntry (snc_block c h) (nat_slot idx);
        if nat_block_addr nat_entry = INVALID_LPA then do {
          (_, c) \<leftarrow> sitNatCacheEntryHandleDestroy c (Some h);
          Some (INVALID_NID, fs\<lparr>nat_cache := c\<rparr>)
        } else do {
          let fs = sb_put fs SB_next_free_nid (nat_block_addr nat_entry);
          let nat_entry = \<lparr>nat_ino = (if is_inode then nid else ino), nat_block_addr = INVALID_LPA\<rparr>;
          let c = snc_put_block c h (putNatEntry (snc_block c h) (nat_slot idx) nat_entry);
          (_, c) \<leftarrow> sitNatCacheEntryHandleDestroy c (Some h);
          let fs = fs\<lparr>nat_cache := c\<rparr>;
          Some (nid, superManagerAppendSuperBlockJournalEntry fs (of_nat SB_next_free_nid) (sb32 fs SB_next_free_nid))
        }
      })"

definition superManagerFreeNid :: "file_system_manager \<Rightarrow> u32 \<Rightarrow> file_system_manager option" where
  "superManagerFreeNid fs nid = do {
     (lpa, idx) \<leftarrow> natGetNidPos fs nid;
     (h, c) \<leftarrow> sitNatCacheGet (fs_dev fs) (nat_cache fs) lpa;
     let nat_entry = \<lparr>nat_ino = INVALID_NID, nat_block_addr = sb32 fs SB_next_free_nid\<rparr>;
     let c = snc_put_block c h (putNatEntry (snc_block c h) (nat_slot idx) nat_entry);
     let fs = sb_put fs SB_next_free_nid nid;
     (_, c) \<leftarrow> sitNatCacheEntryHandleDestroy c (Some h);
     let fs = fs\<lparr>nat_cache := c\<rparr>;
     Some (superManagerAppendSuperBlockJournalEntry fs (of_nat SB_next_free_nid) (sb32 fs SB_next_free_nid))
   }"

subsection \<open>Segments and LPAs\<close>

definition superManagerAllocSegment :: "file_system_manager \<Rightarrow> (u32 \<times> file_system_manager) option" where
  "superManagerAllocSegment fs =
     (if sb32 fs SB_free_segment_count \<le> 0 then Some (INVALID_SEGID, fs)
      else do {
        let seg_id = sb32 fs SB_first_free_segment_id;
        (lpa, idx) \<leftarrow> sitGetSegIdPosInSit (sitOperatorInit fs) seg_id;
        (h, c) \<leftarrow> sitNatCacheGet (fs_dev fs) (sit_cache fs) lpa;
        let next_segid = GET_NEXT_SEG (getSitEntry (snc_block c h) (sit_slot idx));
        let fs = sb_put fs SB_first_free_segment_id next_segid;
        let fs = sb_put fs SB_free_segment_count (sb32 fs SB_free_segment_count - 1);
        (_, c) \<leftarrow> sitNatCacheEntryHandleDestroy c (Some h);
        let fs = fs\<lparr>sit_cache := c\<rparr>;
        let fs = superManagerAppendSuperBlockJournalEntry fs (of_nat SB_first_free_segment_id)
                   (sb32 fs SB_first_free_segment_id);
        let fs = superManagerAppendSuperBlockJournalEntry fs (of_nat SB_free_segment_count)
                   (sb32 fs SB_free_segment_count);
        Some (seg_id, fs)
      })"

text \<open>\<^verbatim>\<open>LpaAllocContext\<close>: the current segment's fields and the list of full segments not yet committed.\<close>

definition ctx_seg_id :: "bool \<Rightarrow> nat" where
  "ctx_seg_id is_node = (if is_node then SB_current_node_segment_id else SB_current_data_segment_id)"

definition ctx_seg_off :: "bool \<Rightarrow> nat" where
  "ctx_seg_off is_node = (if is_node then SB_current_node_segment_blkoff else SB_current_data_segment_blkoff)"

definition ctx_push_uncommit :: "bool \<Rightarrow> file_system_manager \<Rightarrow> u32 \<Rightarrow> file_system_manager" where
  "ctx_push_uncommit is_node fs seg =
     (if is_node then fs\<lparr>uncommit_node_segs := uncommit_node_segs fs @ [seg]\<rparr>
      else fs\<lparr>uncommit_data_segs := uncommit_data_segs fs @ [seg]\<rparr>)"

text \<open>The change to a new segment when the current one is full; \<open>False\<close> when there is none.\<close>

definition superManagerSwitchSegment ::
  "file_system_manager \<Rightarrow> bool \<Rightarrow> (bool \<times> file_system_manager) option" where
  "superManagerSwitchSegment fs is_node =
     (if sb32 fs (ctx_seg_off is_node) \<ge> BLOCK_PER_SEGMENT then do {
        let old_seg_id = sb32 fs (ctx_seg_id is_node);
        (new_seg_id, fs) \<leftarrow> superManagerAllocSegment fs;
        if new_seg_id = INVALID_SEGID then Some (False, fs)
        else do {
          let fs = ctx_push_uncommit is_node fs old_seg_id;
          let fs = sb_put fs (ctx_seg_id is_node) new_seg_id;
          let fs = sb_put fs (ctx_seg_off is_node) 0;
          let fs = superManagerAppendSuperBlockJournalEntryForField fs (ctx_seg_id is_node);
          Some (True, superManagerAppendSuperBlockJournalEntryForField fs (ctx_seg_off is_node))
        }
      } else Some (True, fs))"

definition superManagerAllocLpaRangeInner ::
  "file_system_manager \<Rightarrow> bool \<Rightarrow> u32 \<Rightarrow> (u32 \<times> u32 \<times> file_system_manager) option" where
  "superManagerAllocLpaRangeInner fs is_node requested_count =
     (if requested_count = 0 then Some (INVALID_LPA, 0, fs)
      else do {
        (ok, fs) \<leftarrow> superManagerSwitchSegment fs is_node;
        if \<not> ok then Some (INVALID_LPA, 0, fs)
        else do {
          let op = sitOperatorInit fs;
          let cur_seg_off = sb32 fs (ctx_seg_off is_node);
          let alloc_count = BLOCK_PER_SEGMENT - cur_seg_off;
          let alloc_count = (if alloc_count > requested_count then requested_count else alloc_count);
          let lpa = sitGetFirstLpaOfSegId op (sb32 fs (ctx_seg_id is_node)) + cur_seg_off;
          let fs = sb_put fs (ctx_seg_off is_node) (cur_seg_off + alloc_count);
          let fs = superManagerAppendSuperBlockJournalEntryForField fs (ctx_seg_off is_node);
          fs \<leftarrow> sitValidateLpaRange fs op lpa alloc_count;
          Some (lpa, alloc_count, fs)
        }
      })"

definition superManagerAllocNodeLpa :: "file_system_manager \<Rightarrow> (u32 \<times> file_system_manager) option" where
  "superManagerAllocNodeLpa fs = do {
     (lpa, _, fs) \<leftarrow> superManagerAllocLpaRangeInner fs True 1;
     Some (lpa, fs)
   }"

definition superManagerAllocDataLpa :: "file_system_manager \<Rightarrow> (u32 \<times> file_system_manager) option" where
  "superManagerAllocDataLpa fs = do {
     (lpa, _, fs) \<leftarrow> superManagerAllocLpaRangeInner fs False 1;
     Some (lpa, fs)
   }"

definition superManagerAllocDataLpaRange ::
  "file_system_manager \<Rightarrow> u32 \<Rightarrow> (u32 \<times> u32 \<times> file_system_manager) option" where
  "superManagerAllocDataLpaRange fs requested_count = superManagerAllocLpaRangeInner fs False requested_count"

subsection \<open>The free nids are a stack\<close>

text \<open>
  \<open>linked nxt h xs\<close>: following \<open>nxt\<close> from \<open>h\<close> meets the elements of \<open>xs\<close> in order and arrives at \<open>z\<close>.
\<close>

fun linked :: "(u32 \<Rightarrow> u32) \<Rightarrow> u32 \<Rightarrow> u32 list \<Rightarrow> u32 \<Rightarrow> bool" where
  "linked nxt h [] z \<longleftrightarrow> h = z"
| "linked nxt h (x # xs) z \<longleftrightarrow> h = x \<and> linked nxt (nxt x) xs z"

lemma linked_upd: "k \<notin> set xs \<Longrightarrow> linked (nxt(k := v)) h xs z = linked nxt h xs z"
  by (induction xs arbitrary: h) auto

lemma linked_cong: "(\<And>x. x \<in> set xs \<Longrightarrow> nxt x = nxt' x) \<Longrightarrow> linked nxt h xs z = linked nxt' h xs z"
  by (induction xs arbitrary: h) auto

definition nid_chain :: "file_system_manager \<Rightarrow> u32 list \<Rightarrow> bool" where
  "nid_chain fs xs \<longleftrightarrow> distinct xs \<and> INVALID_NID \<notin> set xs \<and>
     linked (\<lambda>n. nat_block_addr (nat_entry_of fs n)) (sb32 fs SB_next_free_nid) xs INVALID_NID"

text \<open>
  \<open>nat_held fs nid\<close>: the NAT block of \<open>nid\<close> is referenced, or the cache can take it without an eviction.
  In both cases a change made through a handle is still visible after the handle's release.
\<close>

definition nat_blk :: "file_system_manager \<Rightarrow> u32 \<Rightarrow> u32" where
  "nat_blk fs nid = sb32 fs SB_nat_blkaddr + nid div NAT_ENTRY_PER_BLOCK"

definition nat_held :: "file_system_manager \<Rightarrow> u32 \<Rightarrow> bool" where
  "nat_held fs nid \<longleftrightarrow> nat_blk fs nid \<in> snc_pinned (nat_cache fs) \<or>
     snc_cur (nat_cache fs) + snc_miss (nat_cache fs) (nat_blk fs nid) \<le> snc_expect (nat_cache fs)"

lemma sb_put_other [simp]:
  "off' + 4 \<le> off \<or> off + 4 \<le> off' \<Longrightarrow> sb32 (sb_put fs off v) off' = sb32 fs off'"
  by (simp add: sb_put_def get32_put32_other)

lemma sb_put_same [simp]: "sb32 (sb_put fs off v) off = v"
  by (simp add: sb_put_def)

lemma sb_put_fields [simp]:
  "nat_cache (sb_put fs off v) = nat_cache fs" "sit_cache (sb_put fs off v) = sit_cache fs"
  "fs_dev (sb_put fs off v) = fs_dev fs" "cur_journal (sb_put fs off v) = cur_journal fs"
  "super_blk_mem (sb_put fs off v) = put32 (super_blk_mem fs) off v"
  by (simp_all add: sb_put_def)

lemma nat_poke:
  assumes "nat_ready fs (Suc n)" and "nid_ok fs nid" and "nat_held fs nid"
  obtains h c1 where
    "natGetNidPos fs nid = Some (nat_blk fs nid, nid mod NAT_ENTRY_PER_BLOCK)"
    "sitNatCacheGet (fs_dev fs) (nat_cache fs) (nat_blk fs nid) = Some (h, c1)"
    "getNatEntry (snc_block c1 h) (nat_slot (nid mod NAT_ENTRY_PER_BLOCK)) = nat_entry_of fs nid"
    "\<forall>e. \<exists>c'. sitNatCacheEntryHandleDestroy (snc_put_block c1 h
         (putNatEntry (snc_block c1 h) (nat_slot (nid mod NAT_ENTRY_PER_BLOCK)) e)) (Some h) = Some (None, c') \<and>
       snc_inv c' \<and> nat_entry_of (fs\<lparr>nat_cache := c'\<rparr>) = (nat_entry_of fs)(nid := e) \<and>
       (nat_blk fs nid \<in> snc_pinned (nat_cache fs) \<longrightarrow> snc_ready (fs_dev fs) c' (Suc n))"
proof -
  have pos: "natGetNidPos fs nid = Some (nat_blk fs nid, nid mod NAT_ENTRY_PER_BLOCK)"
    and ok: "dev_ok (fs_dev fs) (nat_blk fs nid)"
    using assms(2) by (simp_all add: natGetNidPos_def nid_ok_def Let_def nat_blk_def)
  let ?v = "snc_view (fs_dev fs) (nat_cache fs)"
  have "\<exists>h c1. sitNatCacheGet (fs_dev fs) (nat_cache fs) (nat_blk fs nid) = Some (h, c1) \<and>
      snc_block c1 h = ?v (nat_blk fs nid) \<and>
      (\<forall>b. \<exists>c'. sitNatCacheEntryHandleDestroy (snc_put_block c1 h b) (Some h) = Some (None, c') \<and>
        snc_inv c' \<and> snc_view (fs_dev fs) c' = ?v(nat_blk fs nid := b) \<and>
        (nat_blk fs nid \<in> snc_pinned (nat_cache fs) \<longrightarrow> snc_ready (fs_dev fs) c' (Suc n)))"
  proof (cases "nat_blk fs nid \<in> snc_pinned (nat_cache fs)")
    case True
    show ?thesis
      by (rule snc_release [OF assms(1) ok]) (use True in \<open>force simp: snc_ready_def\<close>)
  next
    case False
    then have room: "snc_cur (nat_cache fs) + snc_miss (nat_cache fs) (nat_blk fs nid) \<le> snc_expect (nat_cache fs)"
      using assms(3) by (simp add: nat_held_def)
    show ?thesis
      by (rule snc_poke_unheld [OF assms(1) ok False room]) (use False in blast)
  qed
  then obtain h c1 where g: "sitNatCacheGet (fs_dev fs) (nat_cache fs) (nat_blk fs nid) = Some (h, c1)"
      "snc_block c1 h = ?v (nat_blk fs nid)"
    and d: "\<forall>b. \<exists>c'. sitNatCacheEntryHandleDestroy (snc_put_block c1 h b) (Some h) = Some (None, c') \<and>
        snc_inv c' \<and> snc_view (fs_dev fs) c' = ?v(nat_blk fs nid := b) \<and>
        (nat_blk fs nid \<in> snc_pinned (nat_cache fs) \<longrightarrow> snc_ready (fs_dev fs) c' (Suc n))"
    by blast
  have upd: "nat_entry_of (fs\<lparr>nat_cache := c'\<rparr>) = (nat_entry_of fs)(nid := e)"
    if "snc_view (fs_dev fs) c' = ?v(nat_blk fs nid :=
        putNatEntry (?v (nat_blk fs nid)) (nat_slot (nid mod NAT_ENTRY_PER_BLOCK)) e)" for c' e
    using nat_table_update [of fs c' nid e "cur_journal fs"] that by (simp add: nat_blk_def)
  show ?thesis
  proof (rule that [OF pos g(1)])
    show "getNatEntry (snc_block c1 h) (nat_slot (nid mod NAT_ENTRY_PER_BLOCK)) = nat_entry_of fs nid"
      by (simp add: g(2) nat_entry_of_def nat_blk_def)
    show "\<forall>e. \<exists>c'. sitNatCacheEntryHandleDestroy (snc_put_block c1 h
         (putNatEntry (snc_block c1 h) (nat_slot (nid mod NAT_ENTRY_PER_BLOCK)) e)) (Some h) = Some (None, c') \<and>
       snc_inv c' \<and> nat_entry_of (fs\<lparr>nat_cache := c'\<rparr>) = (nat_entry_of fs)(nid := e) \<and>
       (nat_blk fs nid \<in> snc_pinned (nat_cache fs) \<longrightarrow> snc_ready (fs_dev fs) c' (Suc n))"
      using d upd unfolding g(2) by blast
  qed
qed

lemma nat_entry_of_cong:
  "sb32 fs' SB_nat_blkaddr = sb32 fs SB_nat_blkaddr \<Longrightarrow> fs_dev fs' = fs_dev fs \<Longrightarrow> nat_cache fs' = nat_cache fs \<Longrightarrow>
   nat_entry_of fs' = nat_entry_of fs"
  by (rule ext) (simp add: nat_entry_of_def)

lemma superManagerAllocNid_spec:
  assumes "nat_ready fs (Suc n)" and "nid_ok fs x" and "nat_held fs x" and "nid_chain fs (x # y # xs)"
  shows "\<exists>fs'. superManagerAllocNid fs ino is_inode = Some (x, fs') \<and> nid_chain fs' (y # xs) \<and>
    nat_entry_of fs' = (nat_entry_of fs)(x := \<lparr>nat_ino = (if is_inode then x else ino), nat_block_addr = INVALID_LPA\<rparr>) \<and>
    (\<exists>j. superBlockJournal (cur_journal fs') = superBlockJournal (cur_journal fs) @ [j] \<and>
       super_blk_mem fs' = super_apply [j] (super_blk_mem fs)) \<and>
    natJournal (cur_journal fs') = natJournal (cur_journal fs)"
proof -
  let ?e = "\<lparr>nat_ino = (if is_inode then x else ino), nat_block_addr = INVALID_LPA\<rparr>"
  obtain h c1 where pos: "natGetNidPos fs x = Some (nat_blk fs x, x mod NAT_ENTRY_PER_BLOCK)"
    and g: "sitNatCacheGet (fs_dev fs) (nat_cache fs) (nat_blk fs x) = Some (h, c1)"
    and ent: "getNatEntry (snc_block c1 h) (nat_slot (x mod NAT_ENTRY_PER_BLOCK)) = nat_entry_of fs x"
    and upd: "\<forall>e. \<exists>c'. sitNatCacheEntryHandleDestroy (snc_put_block c1 h
         (putNatEntry (snc_block c1 h) (nat_slot (x mod NAT_ENTRY_PER_BLOCK)) e)) (Some h) = Some (None, c') \<and>
       snc_inv c' \<and> nat_entry_of (fs\<lparr>nat_cache := c'\<rparr>) = (nat_entry_of fs)(x := e) \<and>
       (nat_blk fs x \<in> snc_pinned (nat_cache fs) \<longrightarrow> snc_ready (fs_dev fs) c' (Suc n))"
    by (rule nat_poke [OF assms(1-3)])
  obtain c' where c': "sitNatCacheEntryHandleDestroy (snc_put_block c1 h
         (putNatEntry (snc_block c1 h) (nat_slot (x mod NAT_ENTRY_PER_BLOCK)) ?e)) (Some h) = Some (None, c')"
      "nat_entry_of (fs\<lparr>nat_cache := c'\<rparr>) = (nat_entry_of fs)(x := ?e)"
    using upd by blast
  have hd: "sb32 fs SB_next_free_nid = x" "nat_block_addr (nat_entry_of fs x) = y" "x \<noteq> 0" "y \<noteq> 0"
    using assms(4) by (auto simp: nid_chain_def)
  let ?j = "\<lparr>sbj_Off = 128, sbj_newVal = y\<rparr>"
  let ?fs' = "fs\<lparr>super_blk_mem := put32 (super_blk_mem fs) SB_next_free_nid y, nat_cache := c',
      cur_journal := (cur_journal fs)\<lparr>superBlockJournal := superBlockJournal (cur_journal fs) @ [?j]\<rparr>\<rparr>"
  have r: "superManagerAllocNid fs ino is_inode = Some (x, ?fs')"
    using c'(1) by (simp add: superManagerAllocNid_def Let_def hd pos g ent sb_put_def
        superManagerAppendSuperBlockJournalEntry_def journal_append_defs)
  have tab: "nat_entry_of ?fs' = (nat_entry_of fs)(x := ?e)"
    using c'(2) nat_entry_of_cong [of ?fs' "fs\<lparr>nat_cache := c'\<rparr>"] by (simp add: get32_put32_other)
  have nx: "(\<lambda>n. nat_block_addr (nat_entry_of ?fs' n)) = (\<lambda>n. nat_block_addr (nat_entry_of fs n))(x := 0)"
    unfolding tab by auto
  have "nid_chain ?fs' (y # xs)"
    unfolding nid_chain_def nx using assms(4) by (auto simp: nid_chain_def linked_upd)
  with r tab show ?thesis
    by (intro exI [of _ ?fs']) simp
qed

text \<open>
  Claim C17. \<^verbatim>\<open>superManagerAllocNid\<close> pops the free-nid stack. With at least two free nids, the head's NAT block
  readable and held by the cache, the call returns the head; the rest is the new stack; the NAT entry
  of the head gets the owner's inode number and no LPA, and no other NAT entry changes; the new head
  is written to the super block and journalled, so that replaying the super block journal entry gives
  the new super block. The NAT change itself is not journalled.
\<close>

theorem superManagerAllocNid_pops:
  assumes "nat_ready fs (Suc n)" and "nid_ok fs x" and "nat_held fs x" and "nid_chain fs (x # y # xs)"
  shows "\<exists>fs'. superManagerAllocNid fs ino is_inode = Some (x, fs') \<and> nid_chain fs' (y # xs) \<and>
    nat_entry_of fs' = (nat_entry_of fs)(x := \<lparr>nat_ino = (if is_inode then x else ino), nat_block_addr = INVALID_LPA\<rparr>) \<and>
    (\<exists>j. superBlockJournal (cur_journal fs') = superBlockJournal (cur_journal fs) @ [j] \<and>
       super_blk_mem fs' = super_apply [j] (super_blk_mem fs)) \<and>
    natJournal (cur_journal fs') = natJournal (cur_journal fs)"
  by (rule superManagerAllocNid_spec [OF assms])

text \<open>A medium whose NAT links nid 9 to nid 700.\<close>

definition demo_nat_fs :: file_system_manager where
  "demo_nat_fs = demo_fs\<lparr>fs_dev := demo_dev\<lparr>media := (media demo_dev)
     (160 := putNatEntry zero_block 72 \<lparr>nat_ino = 0, nat_block_addr = 700\<rparr>)\<rparr>\<rparr>"

lemma demo_nat_entries:
  "nat_entry_of demo_nat_fs 9 = \<lparr>nat_ino = 0, nat_block_addr = 700\<rparr>"
  "nat_entry_of demo_nat_fs 700 = \<lparr>nat_ino = 0, nat_block_addr = 0\<rparr>"
  using demo_sb by (simp_all add: demo_nat_fs_def nat_entry_of_def snc_view_def snc_init(2) LPA_TO_LBA32_def
      cnat.cget_cput) (simp add: demo_dev_def getNatEntry_def)

lemma demo_nat_chain: "nid_chain demo_nat_fs [9, 700]"
  using demo_sb by (simp add: nid_chain_def demo_nat_entries) (simp add: demo_nat_fs_def)

lemma demo_nat_held: "nat_held demo_nat_fs nid" "nat_held demo_fs nid"
  by (simp_all add: nat_held_def demo_nat_fs_def) (simp_all add: sitNatCacheInit_def)

lemma demo_nat_nid_ok: "nid < 262144 \<Longrightarrow> nid_ok demo_nat_fs nid"
  using demo_nid_ok [of nid] by (simp add: nid_ok_def demo_nat_fs_def)

lemma superManagerAllocNid_pops_witness:
  "\<exists>fs'. superManagerAllocNid demo_nat_fs 0 True = Some (9, fs') \<and> nid_chain fs' [700]"
  using superManagerAllocNid_pops [of demo_nat_fs 0 9 700 "[]" 0 True] demo_nat_chain demo_nat_held(1) [of 9]
    demo_nat_nid_ok [of 9] snc_ready_init [of "Suc 0" 100 "fs_dev demo_nat_fs"]
  by (auto simp: demo_nat_fs_def)

lemma superManagerFreeNid_spec:
  assumes "nat_ready fs (Suc n)" and "nid_ok fs x" and "nat_held fs x" and "nid_chain fs xs"
    and "x \<noteq> INVALID_NID" and "x \<notin> set xs"
  shows "\<exists>fs'. superManagerFreeNid fs x = Some fs' \<and> nid_chain fs' (x # xs) \<and>
    nat_entry_of fs' = (nat_entry_of fs)(x := \<lparr>nat_ino = INVALID_NID, nat_block_addr = sb32 fs SB_next_free_nid\<rparr>) \<and>
    (\<exists>j. superBlockJournal (cur_journal fs') = superBlockJournal (cur_journal fs) @ [j] \<and>
       super_blk_mem fs' = super_apply [j] (super_blk_mem fs)) \<and>
    natJournal (cur_journal fs') = natJournal (cur_journal fs) \<and>
    (\<exists>sb c j. fs' = fs\<lparr>super_blk_mem := sb, nat_cache := c, cur_journal := j\<rparr> \<and>
       sitJournal j = sitJournal (cur_journal fs) \<and> (\<forall>off. off + 4 \<le> SB_next_free_nid \<longrightarrow> get32 sb off = sb32 fs off))"
proof -
  let ?e = "\<lparr>nat_ino = INVALID_NID, nat_block_addr = sb32 fs SB_next_free_nid\<rparr>"
  obtain h c1 where pos: "natGetNidPos fs x = Some (nat_blk fs x, x mod NAT_ENTRY_PER_BLOCK)"
    and g: "sitNatCacheGet (fs_dev fs) (nat_cache fs) (nat_blk fs x) = Some (h, c1)"
    and "getNatEntry (snc_block c1 h) (nat_slot (x mod NAT_ENTRY_PER_BLOCK)) = nat_entry_of fs x"
    and upd: "\<forall>e. \<exists>c'. sitNatCacheEntryHandleDestroy (snc_put_block c1 h
         (putNatEntry (snc_block c1 h) (nat_slot (x mod NAT_ENTRY_PER_BLOCK)) e)) (Some h) = Some (None, c') \<and>
       snc_inv c' \<and> nat_entry_of (fs\<lparr>nat_cache := c'\<rparr>) = (nat_entry_of fs)(x := e) \<and>
       (nat_blk fs x \<in> snc_pinned (nat_cache fs) \<longrightarrow> snc_ready (fs_dev fs) c' (Suc n))"
    by (rule nat_poke [OF assms(1-3)])
  obtain c' where c': "sitNatCacheEntryHandleDestroy (snc_put_block c1 h
         (putNatEntry (snc_block c1 h) (nat_slot (x mod NAT_ENTRY_PER_BLOCK)) ?e)) (Some h) = Some (None, c')"
      "nat_entry_of (fs\<lparr>nat_cache := c'\<rparr>) = (nat_entry_of fs)(x := ?e)"
    using upd by blast
  let ?j = "\<lparr>sbj_Off = 128, sbj_newVal = x\<rparr>"
  let ?fs' = "fs\<lparr>super_blk_mem := put32 (super_blk_mem fs) SB_next_free_nid x, nat_cache := c',
      cur_journal := (cur_journal fs)\<lparr>superBlockJournal := superBlockJournal (cur_journal fs) @ [?j]\<rparr>\<rparr>"
  have r: "superManagerFreeNid fs x = Some ?fs'"
    using c'(1) by (simp add: superManagerFreeNid_def Let_def pos g sb_put_def
        superManagerAppendSuperBlockJournalEntry_def journal_append_defs)
  have tab: "nat_entry_of ?fs' = (nat_entry_of fs)(x := ?e)"
    using c'(2) nat_entry_of_cong [of ?fs' "fs\<lparr>nat_cache := c'\<rparr>"] by (simp add: get32_put32_other)
  have nx: "(\<lambda>n. nat_block_addr (nat_entry_of ?fs' n)) =
      (\<lambda>n. nat_block_addr (nat_entry_of fs n))(x := sb32 fs SB_next_free_nid)"
    unfolding tab by auto
  have "nid_chain ?fs' (x # xs)"
    unfolding nid_chain_def nx using assms(4-6) linked_upd [of x xs] by (simp add: nid_chain_def)
  with r tab show ?thesis
    by (intro exI [of _ ?fs'] conjI exI [of _ "super_blk_mem ?fs'"] exI [of _ c'] exI [of _ "cur_journal ?fs'"])
      (simp_all add: get32_put32_other)
qed

text \<open>
  Claim C18. \<^verbatim>\<open>superManagerFreeNid\<close> pushes the nid on the free-nid stack: afterwards the stack is the old one
  with the freed nid on top, only that nid's NAT entry changed, and the super block change is
  journalled.
\<close>

theorem superManagerFreeNid_pushes:
  assumes "nat_ready fs (Suc n)" and "nid_ok fs x" and "nat_held fs x" and "nid_chain fs xs"
    and "x \<noteq> INVALID_NID" and "x \<notin> set xs"
  shows "\<exists>fs'. superManagerFreeNid fs x = Some fs' \<and> nid_chain fs' (x # xs) \<and>
    nat_entry_of fs' = (nat_entry_of fs)(x := \<lparr>nat_ino = INVALID_NID, nat_block_addr = sb32 fs SB_next_free_nid\<rparr>) \<and>
    (\<exists>j. superBlockJournal (cur_journal fs') = superBlockJournal (cur_journal fs) @ [j] \<and>
       super_blk_mem fs' = super_apply [j] (super_blk_mem fs)) \<and>
    natJournal (cur_journal fs') = natJournal (cur_journal fs)"
  using superManagerFreeNid_spec [OF assms] by blast

lemma demo_chain: "nid_chain demo_fs [9]"
  using demo_sb by (simp add: nid_chain_def nat_entry_of_def snc_view_def snc_init(2) getNatEntry_def)
    (simp add: demo_dev_def)

lemma superManagerFreeNid_pushes_witness:
  "\<exists>fs'. superManagerFreeNid demo_fs 700 = Some fs' \<and> nid_chain fs' [700, 9]"
  using superManagerFreeNid_pushes [of demo_fs 0 700 "[9]"] demo_chain demo_nat_held(2) [of 700]
    demo_nid_ok [of 700] demo_ready [of "Suc 0"] by auto

text \<open>
  Claim C20. The last free nid is never handed out: with one free nid left \<^verbatim>\<open>superManagerAllocNid\<close>
  returns \<^verbatim>\<open>INVALID_NID\<close> and changes no NAT entry, no super block field and no journal, because the end
  of the list (\<^verbatim>\<open>block_addr == INVALID_LPA\<close>) is read as a failure.
\<close>

theorem superManagerAllocNid_keeps_last:
  assumes "nat_ready fs (Suc n)" and "nid_ok fs x" and "nid_chain fs [x]"
  shows "\<exists>fs'. superManagerAllocNid fs ino is_inode = Some (INVALID_NID, fs') \<and> nid_chain fs' [x] \<and>
    nat_entry_of fs' = nat_entry_of fs \<and> nat_ready fs' (Suc n) \<and> fs' = fs\<lparr>nat_cache := nat_cache fs'\<rparr>"
proof -
  have pos: "natGetNidPos fs x = Some (nat_blk fs x, x mod NAT_ENTRY_PER_BLOCK)"
    and ok: "dev_ok (fs_dev fs) (nat_blk fs x)"
    using assms(2) by (simp_all add: natGetNidPos_def nid_ok_def Let_def nat_blk_def)
  obtain h c1 c2 where g: "sitNatCacheGet (fs_dev fs) (nat_cache fs) (nat_blk fs x) = Some (h, c1)"
      "snc_block c1 h = snc_view (fs_dev fs) (nat_cache fs) (nat_blk fs x)"
      "sitNatCacheEntryHandleDestroy c1 (Some h) = Some (None, c2)" "snc_ready (fs_dev fs) c2 (Suc n)"
      "snc_view (fs_dev fs) c2 = snc_view (fs_dev fs) (nat_cache fs)"
    by (rule snc_peek [OF assms(1) ok])
  have hd: "sb32 fs SB_next_free_nid = x" "x \<noteq> 0" "nat_block_addr (nat_entry_of fs x) = 0"
    using assms(3) by (auto simp: nid_chain_def)
  have "getNatEntry (snc_block c1 h) (nat_slot (x mod NAT_ENTRY_PER_BLOCK)) = nat_entry_of fs x"
    by (simp add: g(2) nat_entry_of_def nat_blk_def)
  then have r: "superManagerAllocNid fs ino is_inode = Some (INVALID_NID, fs\<lparr>nat_cache := c2\<rparr>)"
    by (simp add: superManagerAllocNid_def Let_def hd pos g)
  have tab: "nat_entry_of (fs\<lparr>nat_cache := c2\<rparr>) = nat_entry_of fs"
    by (rule ext) (simp add: nat_entry_of_def g(5))
  with r assms(3) g(4) show ?thesis
    by (intro exI [of _ "fs\<lparr>nat_cache := c2\<rparr>"]) (simp add: nid_chain_def)
qed

lemma superManagerAllocNid_keeps_last_witness:
  "\<exists>fs'. superManagerAllocNid demo_fs 5 False = Some (INVALID_NID, fs') \<and> nid_chain fs' [9]"
  using superManagerAllocNid_keeps_last [of demo_fs 0 9 5 False] demo_chain demo_nid_ok [of 9]
    demo_ready [of "Suc 0"] by auto

end
