(* ===== verification/Lpa_Alloc.thy ===== *)
theory Lpa_Alloc
  imports Super_Manager
begin

text \<open>
  Correctness of the segment and LPA allocation of \<^verbatim>\<open>src/src/fs/super_manager.c\<close>: the free segments form a
  list threaded through the SIT entries, and the two logs (node and data) take LPAs from their
  current segment. \<open>alloc_inv\<close> says that nothing that can still be handed out is live; it is kept by
  every allocation, which therefore never hands out a live LPA.
\<close>

abbreviation seg0 :: "file_system_manager \<Rightarrow> u32" where
  "seg0 fs \<equiv> sb32 fs SB_segment0_blkaddr"

abbreviation cur_seg :: "file_system_manager \<Rightarrow> bool \<Rightarrow> u32" where
  "cur_seg fs is_node \<equiv> sb32 fs (ctx_seg_id is_node)"

abbreviation cur_off :: "file_system_manager \<Rightarrow> bool \<Rightarrow> u32" where
  "cur_off fs is_node \<equiv> sb32 fs (ctx_seg_off is_node)"

text \<open>A segment number whose SIT entry can be reached and whose LPAs are ordinary 32-bit LPAs.\<close>

definition seg_ok :: "file_system_manager \<Rightarrow> u32 \<Rightarrow> bool" where
  "seg_ok fs s \<longleftrightarrow> s div SIT_ENTRY_PER_BLOCK < sb32 fs SB_segment_count_sit * BLOCK_PER_SEGMENT \<and>
     dev_ok (fs_dev fs) (sb32 fs SB_sit_blkaddr + s div SIT_ENTRY_PER_BLOCK) \<and>
     0 < unat (seg0 fs) + 512 * unat s \<and> unat (seg0 fs) + 512 * unat s + 512 \<le> 4294967296"

definition dead_from :: "file_system_manager \<Rightarrow> u32 \<Rightarrow> nat \<Rightarrow> bool" where
  "dead_from fs s k \<longleftrightarrow> (\<forall>j. k \<le> j \<longrightarrow> j < 512 \<longrightarrow> \<not> sit_bit (sit_entry_of fs s) j)"

definition seg_free :: "file_system_manager \<Rightarrow> u32 list \<Rightarrow> bool" where
  "seg_free fs xs \<longleftrightarrow> unat (sb32 fs SB_free_segment_count) = length xs \<and> distinct xs \<and> INVALID_SEGID \<notin> set xs \<and>
     (\<exists>z. linked (\<lambda>s. GET_NEXT_SEG (sit_entry_of fs s)) (sb32 fs SB_first_free_segment_id) xs z) \<and>
     (\<forall>s \<in> set xs. seg_ok fs s \<and> dead_from fs s 0)"

definition alloc_inv :: "file_system_manager \<Rightarrow> u32 list \<Rightarrow> bool" where
  "alloc_inv fs xs \<longleftrightarrow> seg_free fs xs \<and> cur_seg fs True \<noteq> cur_seg fs False \<and>
     (\<forall>b. seg_ok fs (cur_seg fs b) \<and> cur_seg fs b \<notin> set xs \<and> unat (cur_off fs b) \<le> 512 \<and>
       dead_from fs (cur_seg fs b) (unat (cur_off fs b)))"

text \<open>The super block changes are all in the journal.\<close>

definition super_logged :: "file_system_manager \<Rightarrow> file_system_manager \<Rightarrow> bool" where
  "super_logged fs fs' \<longleftrightarrow> (\<exists>js. superBlockJournal (cur_journal fs') = superBlockJournal (cur_journal fs) @ js \<and>
     super_blk_mem fs' = super_apply js (super_blk_mem fs))"

lemma super_logged_trans: "super_logged a b \<Longrightarrow> super_logged b c \<Longrightarrow> super_logged a c"
  unfolding super_logged_def by (metis append_assoc apply_append(3))

lemma super_logged_refl: "super_logged a a"
  unfolding super_logged_def by (rule exI [of _ "[]"]) simp

text \<open>Equal as far as the SIT and the on-disk layout go.\<close>

definition same_sit :: "file_system_manager \<Rightarrow> file_system_manager \<Rightarrow> bool" where
  "same_sit fs fs' \<longleftrightarrow> sit_entry_of fs' = sit_entry_of fs \<and> seg0 fs' = seg0 fs \<and> fs_dev fs' = fs_dev fs \<and>
     sb32 fs' SB_sit_blkaddr = sb32 fs SB_sit_blkaddr \<and>
     sb32 fs' SB_segment_count_sit = sb32 fs SB_segment_count_sit \<and>
     sitJournal (cur_journal fs') = sitJournal (cur_journal fs)"

lemma same_sit_facts:
  assumes "same_sit fs fs'"
  shows "lpa_live fs' = lpa_live fs" "seg_ok fs' = seg_ok fs" "dead_from fs' = dead_from fs"
    "sit_dev_ok fs' = sit_dev_ok fs"
  using assms by (auto simp: same_sit_def lpa_live_def seg_ok_def dead_from_def sit_dev_ok_def fun_eq_iff Let_def)

lemma sit_entry_of_cong:
  "sb32 fs' SB_sit_blkaddr = sb32 fs SB_sit_blkaddr \<Longrightarrow> fs_dev fs' = fs_dev fs \<Longrightarrow>
   snc_view (fs_dev fs) (sit_cache fs') = snc_view (fs_dev fs) (sit_cache fs) \<Longrightarrow>
   sit_entry_of fs' = sit_entry_of fs"
  by (rule ext) (simp add: sit_entry_of_def)

lemma put_chain_other:
  "off + 4 \<le> SB_first_free_segment_id \<Longrightarrow> get32 (put32 (put32 b SB_first_free_segment_id v) SB_free_segment_count w) off = get32 b off"
  by (simp add: get32_put32_other)

lemma superManagerAllocSegment_spec:
  assumes "sit_ready fs (Suc n)" and "seg_ok fs x" and "sb32 fs SB_free_segment_count \<noteq> 0"
    and "sb32 fs SB_first_free_segment_id = x"
  shows "\<exists>fs'. superManagerAllocSegment fs = Some (x, fs') \<and> same_sit fs fs' \<and> super_logged fs fs' \<and>
    sit_ready fs' (Suc n) \<and> super_blk_mem fs' = put32 (put32 (super_blk_mem fs) SB_first_free_segment_id
      (GET_NEXT_SEG (sit_entry_of fs x))) SB_free_segment_count (sb32 fs SB_free_segment_count - 1)"
proof -
  let ?lpa = "sb32 fs SB_sit_blkaddr + x div SIT_ENTRY_PER_BLOCK" and ?idx = "x mod SIT_ENTRY_PER_BLOCK"
  have pos: "sitGetSegIdPosInSit (sitOperatorInit fs) x = Some (?lpa, ?idx)" and ok: "dev_ok (fs_dev fs) ?lpa"
    using assms(2) by (simp_all add: sitGetSegIdPosInSit_def sitOperatorInit_def seg_ok_def Let_def)
  obtain h c1 c2 where g: "sitNatCacheGet (fs_dev fs) (sit_cache fs) ?lpa = Some (h, c1)"
      "snc_block c1 h = snc_view (fs_dev fs) (sit_cache fs) ?lpa"
      "sitNatCacheEntryHandleDestroy c1 (Some h) = Some (None, c2)" "snc_ready (fs_dev fs) c2 (Suc n)"
      "snc_view (fs_dev fs) c2 = snc_view (fs_dev fs) (sit_cache fs)"
    by (rule snc_peek [OF assms(1) ok])
  have ent: "getSitEntry (snc_block c1 h) (sit_slot ?idx) = sit_entry_of fs x"
    by (simp add: g(2) sit_entry_of_def)
  let ?nx = "GET_NEXT_SEG (sit_entry_of fs x)" and ?c = "sb32 fs SB_free_segment_count - 1"
  let ?sb = "put32 (put32 (super_blk_mem fs) SB_first_free_segment_id ?nx) SB_free_segment_count ?c"
  let ?js = "[\<lparr>sbj_Off = 92, sbj_newVal = ?nx\<rparr>, \<lparr>sbj_Off = 124, sbj_newVal = ?c\<rparr>]"
  let ?fs' = "fs\<lparr>super_blk_mem := ?sb, sit_cache := c2,
      cur_journal := (cur_journal fs)\<lparr>superBlockJournal := superBlockJournal (cur_journal fs) @ ?js\<rparr>\<rparr>"
  have r: "superManagerAllocSegment fs = Some (x, ?fs')"
    using assms(3,4) by (simp add: superManagerAllocSegment_def Let_def pos g(1,3) ent sb_put_def
        superManagerAppendSuperBlockJournalEntry_def journal_append_defs get32_put32_other)
  have "super_logged fs ?fs'"
    unfolding super_logged_def by (rule exI [of _ ?js]) simp
  moreover have "same_sit fs ?fs'"
    using g(5) sit_entry_of_cong [of ?fs' fs] by (simp add: same_sit_def put_chain_other)
  ultimately show ?thesis
    using r g(4) by (intro exI [of _ ?fs']) simp
qed

lemma ctx_fields [simp]:
  "ctx_seg_id True = 112" "ctx_seg_off True = 116" "ctx_seg_id False = 104" "ctx_seg_off False = 108"
  by (simp_all add: ctx_seg_id_def ctx_seg_off_def)

lemma ctx_apart:
  "ctx_seg_id b + 4 \<le> ctx_seg_off b \<or> ctx_seg_off b + 4 \<le> ctx_seg_id b"
  "ctx_seg_id b + 4 \<le> SB_free_segment_count" "SB_first_free_segment_id + 4 \<le> ctx_seg_id b"
  "ctx_seg_off b + 4 \<le> SB_free_segment_count" "SB_first_free_segment_id + 4 \<le> ctx_seg_off b"
  "ctx_seg_id b + 4 \<le> ctx_seg_id (\<not> b) \<or> ctx_seg_id (\<not> b) + 4 \<le> ctx_seg_id b"
  "ctx_seg_id b + 4 \<le> ctx_seg_off (\<not> b) \<or> ctx_seg_off (\<not> b) + 4 \<le> ctx_seg_id b"
  "ctx_seg_off b + 4 \<le> ctx_seg_off (\<not> b) \<or> ctx_seg_off (\<not> b) + 4 \<le> ctx_seg_off b"
  by (cases b; simp)+

lemma off_width: "unat (of_nat (ctx_seg_id b) :: u32) = ctx_seg_id b" "unat (of_nat (ctx_seg_off b) :: u32) = ctx_seg_off b"
  by (cases b; simp)+

text \<open>Two consecutive field writes, each with its journal entry.\<close>

lemma same_sit_trans: "same_sit a b \<Longrightarrow> same_sit b c \<Longrightarrow> same_sit a c"
  by (simp add: same_sit_def)

lemma superManagerSwitchSegment_spec:
  assumes "alloc_inv fs xs" and "sit_ready fs (Suc n)" and "unat (cur_off fs b) < 512 \<or> xs \<noteq> []"
  shows "\<exists>fs' xs'. superManagerSwitchSegment fs b = Some (True, fs') \<and> alloc_inv fs' xs' \<and> same_sit fs fs' \<and>
    super_logged fs fs' \<and> sit_ready fs' (Suc n) \<and> unat (cur_off fs' b) < 512 \<and>
    (if unat (cur_off fs b) < 512 then fs' = fs \<and> xs' = xs else xs = cur_seg fs' b # xs' \<and> cur_off fs' b = 0)"
proof (cases "unat (cur_off fs b) < 512")
  case True
  then have "superManagerSwitchSegment fs b = Some (True, fs)"
    by (simp add: superManagerSwitchSegment_def word_le_nat_alt)
  with True assms show ?thesis
    by (intro exI [of _ fs] exI [of _ xs]) (simp add: super_logged_refl same_sit_def)
next
  case False
  then obtain x xs' where xs: "xs = x # xs'"
    using assms(3) by (cases xs) auto
  have sf: "seg_free fs (x # xs')" and ai: "cur_seg fs True \<noteq> cur_seg fs False"
    "\<And>b. seg_ok fs (cur_seg fs b) \<and> cur_seg fs b \<notin> set (x # xs') \<and> unat (cur_off fs b) \<le> 512 \<and>
       dead_from fs (cur_seg fs b) (unat (cur_off fs b))"
    using assms(1) by (auto simp: alloc_inv_def xs)
  have cnt: "unat (sb32 fs SB_free_segment_count) = Suc (length xs')" and x: "seg_ok fs x" "x \<noteq> 0" "dead_from fs x 0"
    and hd: "sb32 fs SB_first_free_segment_id = x"
    using sf by (auto simp: seg_free_def)
  have nz: "sb32 fs SB_free_segment_count \<noteq> 0"
    using cnt by auto
  obtain fs1 where f1: "superManagerAllocSegment fs = Some (x, fs1)" "same_sit fs fs1" "super_logged fs fs1"
      "sit_ready fs1 (Suc n)" "super_blk_mem fs1 = put32 (put32 (super_blk_mem fs) SB_first_free_segment_id
        (GET_NEXT_SEG (sit_entry_of fs x))) SB_free_segment_count (sb32 fs SB_free_segment_count - 1)"
    using superManagerAllocSegment_spec [OF assms(2) x(1) nz hd] by blast
  let ?sb = "put32 (put32 (super_blk_mem fs1) (ctx_seg_id b) x) (ctx_seg_off b) 0"
  let ?js = "[\<lparr>sbj_Off = of_nat (ctx_seg_id b), sbj_newVal = x\<rparr>, \<lparr>sbj_Off = of_nat (ctx_seg_off b), sbj_newVal = 0\<rparr>]"
  let ?fs2 = "ctx_push_uncommit b fs1 (cur_seg fs b)"
  let ?fs' = "?fs2\<lparr>super_blk_mem := ?sb,
      cur_journal := (cur_journal fs1)\<lparr>superBlockJournal := superBlockJournal (cur_journal fs1) @ ?js\<rparr>\<rparr>"
  have p2 [simp]: "super_blk_mem ?fs2 = super_blk_mem fs1" "cur_journal ?fs2 = cur_journal fs1"
    "sit_cache ?fs2 = sit_cache fs1" "fs_dev ?fs2 = fs_dev fs1"
    by (simp_all add: ctx_push_uncommit_def)
  have r: "superManagerSwitchSegment fs b = Some (True, ?fs')"
    using False f1(1) x(2) by (simp add: superManagerSwitchSegment_def word_le_nat_alt Let_def sb_put_def
        superManagerAppendSuperBlockJournalEntryForField_def superManagerAppendSuperBlockJournalEntry_def
        journal_append_defs get32_put32_other ctx_apart)
  have low: "get32 ?sb off = get32 (super_blk_mem fs1) off" if "off + 4 \<le> SB_first_free_segment_id" for off
    using that ctx_apart [of b] by (simp add: get32_put32_other)
  have "sit_entry_of ?fs' = sit_entry_of fs1"
    by (rule sit_entry_of_cong) (simp_all add: low)
  then have same: "same_sit fs ?fs'"
    using f1(2) by (simp add: same_sit_def low)
  note sm = same_sit_facts [OF same]
  have ent: "sit_entry_of ?fs' = sit_entry_of fs"
    using same by (simp add: same_sit_def)
  have log: "super_logged fs ?fs'"
  proof (rule super_logged_trans [OF f1(3)])
    show "super_logged fs1 ?fs'"
      unfolding super_logged_def by (rule exI [of _ ?js]) (simp add: off_width)
  qed
  have fields: "cur_seg ?fs' b = x" "cur_off ?fs' b = 0" "cur_seg ?fs' (\<not> b) = cur_seg fs (\<not> b)"
    "cur_off ?fs' (\<not> b) = cur_off fs (\<not> b)"
    "sb32 ?fs' SB_first_free_segment_id = GET_NEXT_SEG (sit_entry_of fs x)"
    "sb32 ?fs' SB_free_segment_count = sb32 fs SB_free_segment_count - 1"
    by (cases b; simp add: f1(5) get32_put32_other)+
  have sf': "seg_free ?fs' xs'"
    unfolding seg_free_def fields sm ent using sf cnt nz by (auto simp: seg_free_def unat_minus_one)
  have "alloc_inv ?fs' xs'"
    unfolding alloc_inv_def
  proof (intro conjI allI)
    show "cur_seg ?fs' True \<noteq> cur_seg ?fs' False"
      using fields ai(2) [of "\<not> b"] by (cases b) auto
    fix d
    show "seg_ok ?fs' (cur_seg ?fs' d)" "cur_seg ?fs' d \<notin> set xs'" "unat (cur_off ?fs' d) \<le> 512"
      "dead_from ?fs' (cur_seg ?fs' d) (unat (cur_off ?fs' d))"
      using fields sm x ai(2) [of d] sf by (cases "d = b"; auto simp: seg_free_def)+
  qed (rule sf')
  with r same log f1(4) fields False xs show ?thesis
    by (intro exI [of _ ?fs'] exI [of _ xs']) (use f1(2) in \<open>auto simp: same_sit_def\<close>)
qed

text \<open>The LPAs of segment \<open>s\<close> from block \<open>k\<close> on.\<close>

lemma seg_lpa:
  assumes "seg_ok fs s" and "k < 512"
  shows "(seg0 fs + s * 512 + of_nat k - seg0 fs) div 512 = s"
    "unat ((seg0 fs + s * 512 + of_nat k - seg0 fs) mod 512) = k"
    "seg0 fs + s * 512 + of_nat k \<noteq> 0"
proof -
  have b: "unat (seg0 fs) + 512 * unat s + 512 \<le> 4294967296" "0 < unat (seg0 fs) + 512 * unat s"
    using assms(1) by (auto simp: seg_ok_def)
  then have s512: "unat (s * 512) = unat s * 512"
    by (subst unat_mult_lem [THEN iffD1]) simp_all
  have kk: "unat (of_nat k :: u32) = k"
    using assms(2) by (simp add: unat_of_nat_u32)
  have u: "unat (s * 512 + of_nat k) = unat s * 512 + k"
    using b assms(2) s512 kk by (subst unat_add_lem [THEN iffD1]) simp_all
  have e: "seg0 fs + s * 512 + of_nat k - seg0 fs = s * 512 + of_nat k"
    by simp
  have "unat ((s * 512 + of_nat k) div 512) = unat s"
    using u assms(2) by (simp add: unat_div)
  then show "(seg0 fs + s * 512 + of_nat k - seg0 fs) div 512 = s"
    unfolding e by (rule unsigned_word_eqI)
  show "unat ((seg0 fs + s * 512 + of_nat k - seg0 fs) mod 512) = k"
    unfolding e using u assms(2) by (simp add: unat_mod)
  have "unat (seg0 fs + (s * 512 + of_nat k)) = unat (seg0 fs) + (unat s * 512 + k)"
    using b assms(2) u by (subst unat_add_lem [THEN iffD1]) simp_all
  then have "unat (seg0 fs + s * 512 + of_nat k) \<noteq> 0"
    using b by (auto simp: add.assoc)
  then show "seg0 fs + s * 512 + of_nat k \<noteq> 0"
    by auto
qed

text \<open>The chunk that starts at block \<open>k\<close> of segment \<open>s\<close>: its LPAs are the blocks \<open>k..<k + cnt\<close> of \<open>s\<close>.\<close>

lemma seg_chunk:
  assumes "seg_ok fs s" and "unat k < 512" and "unat k + unat cnt \<le> 512"
  shows "l - (seg0 fs + s * 512 + k) < cnt \<longleftrightarrow> (l - seg0 fs) div 512 = s \<and>
    unat k \<le> unat ((l - seg0 fs) mod 512) \<and> unat ((l - seg0 fs) mod 512) < unat k + unat cnt"
proof -
  note sl = seg_lpa [OF assms(1,2)]
  have kk: "of_nat (unat k) = k"
    by simp
  have "l - (seg0 fs + s * 512 + k) = (l - seg0 fs) - (seg0 fs + s * 512 + k - seg0 fs)"
    by simp
  moreover have "unat ((seg0 fs + s * 512 + k - seg0 fs) mod 512) + unat cnt \<le> 512"
    using sl(2) assms(3) unfolding kk by linarith
  ultimately show ?thesis
    using chunk_lpas [of "seg0 fs + s * 512 + k - seg0 fs" cnt "l - seg0 fs"] sl(1,2) unfolding kk by metis
qed

lemma dead_from_live:
  assumes "seg_ok fs s"
  shows "dead_from fs s k \<longleftrightarrow> (\<forall>j. k \<le> j \<longrightarrow> j < 512 \<longrightarrow> \<not> lpa_live fs (seg0 fs + s * 512 + of_nat j))"
  using seg_lpa(1,2) [OF assms] by (auto simp: dead_from_def lpa_live_def Let_def)

text \<open>Validating the next blocks of a log's current segment keeps everything else dead.\<close>

lemma alloc_inv_advance:
  assumes inv: "alloc_inv fs xs" and off: "unat (cur_off fs b) < 512" and cnt: "unat (cur_off fs b) + unat cnt \<le> 512"
    and live: "\<forall>l. lpa_live fs' l = (if l - (seg0 fs + cur_seg fs b * 512 + cur_off fs b) < cnt then True else lpa_live fs l)"
    and nxt: "\<forall>seg. GET_NEXT_SEG (sit_entry_of fs' seg) = GET_NEXT_SEG (sit_entry_of fs seg)"
    and sb: "super_blk_mem fs' = put32 (super_blk_mem fs) (ctx_seg_off b) (cur_off fs b + cnt)"
    and dev: "fs_dev fs' = fs_dev fs"
  shows "alloc_inv fs' xs"
proof -
  have low: "sb32 fs' off = sb32 fs off" if "off + 4 \<le> SB_first_free_segment_id \<or> off = SB_first_free_segment_id \<or>
      off = SB_free_segment_count \<or> off = ctx_seg_id d \<or> (d \<noteq> b \<and> off = ctx_seg_off d)" for off d
    unfolding sb using that by (cases b; cases d; auto simp: get32_put32_other)
  have addk: "unat (cur_off fs' b) = unat (cur_off fs b) + unat cnt"
    using cnt by (simp add: sb) (subst unat_add_lem [THEN iffD1], simp_all)
  have ok: "seg_ok fs' = seg_ok fs"
    by (simp add: seg_ok_def fun_eq_iff low dev)
  have sok: "seg_ok fs (cur_seg fs d)" for d
    using inv by (simp add: alloc_inv_def)
  have in_chunk: "seg0 fs + t * 512 + of_nat j - (seg0 fs + cur_seg fs b * 512 + cur_off fs b) < cnt \<longleftrightarrow>
      t = cur_seg fs b \<and> unat (cur_off fs b) \<le> j \<and> j < unat (cur_off fs b) + unat cnt" if "seg_ok fs t" "j < 512" for t j
    using seg_chunk [OF sok [of b] off cnt, of "seg0 fs + t * 512 + of_nat j"] seg_lpa(1,2) [OF that] by simp
  have dead: "dead_from fs' t k" if "seg_ok fs t" "dead_from fs t k"
      "t \<noteq> cur_seg fs b \<or> unat (cur_off fs b) + unat cnt \<le> k" for t k
    using that in_chunk [OF that(1)] live dead_from_live [of fs t k] dead_from_live [of fs' t k]
    by (auto simp: ok low)
  have sf: "seg_free fs' xs"
  proof -
    have "dead_from fs' t 0" if "t \<in> set xs" for t
      using that inv by (intro dead) (auto simp: alloc_inv_def seg_free_def)
    then show ?thesis
      using inv nxt unfolding alloc_inv_def seg_free_def by (auto simp: low ok)
  qed
  show ?thesis
    unfolding alloc_inv_def
  proof (intro conjI allI)
    show "cur_seg fs' True \<noteq> cur_seg fs' False"
      using inv low [of "ctx_seg_id True" True] low [of "ctx_seg_id False" False] by (simp add: alloc_inv_def)
    fix d
    have seg: "cur_seg fs' d = cur_seg fs d"
      by (rule low [where d = d]) simp
    show "seg_ok fs' (cur_seg fs' d)" "cur_seg fs' d \<notin> set xs"
      using inv by (simp_all add: seg ok alloc_inv_def)
    have o: "d \<noteq> b \<Longrightarrow> cur_off fs' d = cur_off fs d \<and> cur_seg fs d \<noteq> cur_seg fs b"
      using low [of "ctx_seg_off d" d] inv by (cases b; cases d; auto simp: alloc_inv_def)
    show "unat (cur_off fs' d) \<le> 512"
      using o inv addk cnt by (cases "d = b") (auto simp: alloc_inv_def)
    have old: "dead_from fs (cur_seg fs d) (unat (cur_off fs d))"
      using inv by (simp add: alloc_inv_def)
    show "dead_from fs' (cur_seg fs' d) (unat (cur_off fs' d))"
    proof (cases "d = b")
      case True
      have "dead_from fs (cur_seg fs b) (unat (cur_off fs b) + unat cnt)"
        using old True by (auto simp: dead_from_def)
      with True show ?thesis
        using dead [OF sok [of b]] addk seg by simp
    next
      case False
      with o old show ?thesis
        using dead [OF sok [of d] old] seg by simp
    qed
  qed (rule sf)
qed

lemma superManagerAllocLpaRangeInner_spec:
  assumes "alloc_inv fs xs" and "sit_ready fs (Suc n)" and "requested \<noteq> 0"
    and "unat (cur_off fs b) < 512 \<or> xs \<noteq> []"
  shows "\<exists>lpa cnt fs' xs'. superManagerAllocLpaRangeInner fs b requested = Some (lpa, cnt, fs') \<and>
    lpa \<noteq> INVALID_LPA \<and> 0 < cnt \<and> cnt \<le> requested \<and>
    (\<forall>l. l - lpa < cnt \<longrightarrow> \<not> lpa_live fs l \<and> (l - seg0 fs) div BLOCK_PER_SEGMENT = cur_seg fs' b) \<and>
    (\<forall>l. lpa_live fs' l \<longleftrightarrow> l - lpa < cnt \<or> lpa_live fs l) \<and>
    alloc_inv fs' xs' \<and> sit_ready fs' n \<and> super_logged fs fs' \<and>
    (\<exists>js. sitJournal (cur_journal fs') = sitJournal (cur_journal fs) @ js \<and>
       sit_entry_of fs' = sit_apply js (sit_entry_of fs))"
proof -
  obtain fs1 xs' where s1: "superManagerSwitchSegment fs b = Some (True, fs1)" and inv1: "alloc_inv fs1 xs'"
    and same1: "same_sit fs fs1" and log1: "super_logged fs fs1" and rdy1: "sit_ready fs1 (Suc n)"
    and off1: "unat (cur_off fs1 b) < 512"
    using superManagerSwitchSegment_spec [OF assms(1,2,4)] by blast
  let ?s = "cur_seg fs1 b" and ?k = "cur_off fs1 b"
  define cnt where "cnt = (if BLOCK_PER_SEGMENT - ?k > requested then requested else BLOCK_PER_SEGMENT - ?k)"
  let ?lpa = "seg0 fs1 + ?s * 512 + ?k"
  have u: "unat (512 - ?k) = 512 - unat ?k"
    using off1 by (subst unat_sub) (simp_all add: word_le_nat_alt)
  have cnt: "0 < cnt" "cnt \<le> requested" "unat ?k + unat cnt \<le> 512" "0 < unat cnt"
    using u off1 assms(3) by (auto simp: cnt_def word_less_nat_alt word_le_nat_alt unat_gt_0)
  have addk: "unat (?k + cnt) = unat ?k + unat cnt"
    using cnt(3) by (subst unat_add_lem [THEN iffD1]) simp_all
  have sok: "seg_ok fs1 ?s" and dead: "dead_from fs1 ?s (unat ?k)"
    using inv1 by (auto simp: alloc_inv_def)
  note sl = seg_lpa [OF sok off1, simplified]
  note ch = seg_chunk [OF sok off1 cnt(3)]
  let ?j = "\<lparr>sbj_Off = of_nat (ctx_seg_off b), sbj_newVal = ?k + cnt\<rparr>"
  let ?fs2 = "fs1\<lparr>super_blk_mem := put32 (super_blk_mem fs1) (ctx_seg_off b) (?k + cnt),
      cur_journal := (cur_journal fs1)\<lparr>superBlockJournal := superBlockJournal (cur_journal fs1) @ [?j]\<rparr>\<rparr>"
  have low: "get32 (put32 bl (ctx_seg_off b) v) off = get32 bl off" if "off + 4 \<le> SB_first_free_segment_id" for off bl v
    using that ctx_apart(5) [of b] by (simp add: get32_put32_other)
  have "sit_entry_of ?fs2 = sit_entry_of fs1"
    by (rule sit_entry_of_cong) (simp_all add: low)
  then have same2: "same_sit fs1 ?fs2"
    by (simp add: same_sit_def low)
  have log2: "super_logged fs1 ?fs2"
    unfolding super_logged_def by (rule exI [of _ "[?j]"]) (simp add: off_width)
  have op: "sitOperatorInit fs1 = sitOperatorInit ?fs2"
    using ctx_apart [of b] by (simp add: sitOperatorInit_def low)
  have lpa: "sitGetFirstLpaOfSegId (sitOperatorInit fs1) ?s + ?k = ?lpa"
    by (simp add: sitGetFirstLpaOfSegId_def sitOperatorInit_def)
  have seg: "(l - seg0 fs1) div 512 = ?s" "\<not> lpa_live ?fs2 l" "sit_dev_ok ?fs2 l" if "l - ?lpa < cnt" for l
  proof -
    show d: "(l - seg0 fs1) div 512 = ?s"
      using ch that by blast
    have "unat ?k \<le> unat ((l - seg0 fs1) mod 512)" "unat ((l - seg0 fs1) mod 512) < 512"
      using ch that by (auto simp: unat_mod)
    then show "\<not> lpa_live ?fs2 l"
      using dead d by (simp add: same_sit_facts(1) [OF same2] lpa_live_def dead_from_def Let_def)
    show "sit_dev_ok ?fs2 l"
      using sok d by (simp add: same_sit_facts(4) [OF same2] sit_dev_ok_def seg_ok_def)
  qed
  have rounds: "sit_rounds (sitOperatorInit ?fs2) ?lpa cnt = 1"
  proof -
    have "unat (?lpa - seg0StartLpa (sitOperatorInit ?fs2)) mod 512 = unat ?k"
      using sl(2) op by (simp add: sitOperatorInit_def unat_mod)
    moreover have "(unat ?k + unat cnt + 511) div 512 = 1"
      by (rule div_nat_eqI) (use cnt in auto)
    ultimately show ?thesis
      using cnt(1) by (simp add: sit_rounds_def)
  qed
  have "\<exists>fs'. sitChangeLpaStateLoop ?fs2 (sitOperatorInit ?fs2) ?lpa cnt True = Some fs' \<and>
      sit_ready fs' n \<and> sit_changed ?fs2 ?lpa cnt True fs'"
    by (rule sitChangeLpaStateLoop_spec) (use rdy1 rounds seg in auto)
  then obtain fs3 where f3: "sitChangeLpaStateLoop ?fs2 (sitOperatorInit ?fs2) ?lpa cnt True = Some fs3"
      "sit_ready fs3 n" "sit_changed ?fs2 ?lpa cnt True fs3"
    by blast
  have r: "superManagerAllocLpaRangeInner fs b requested = Some (?lpa, cnt, fs3)"
    using f3(1) assms(3) sl(3) cnt(1)
    by (simp add: superManagerAllocLpaRangeInner_def s1 Let_def sb_put_def
        superManagerAppendSuperBlockJournalEntryForField_def superManagerAppendSuperBlockJournalEntry_def
        journal_append_defs lpa sitValidateLpaRange_def sitChangeLpaStateRange_def op [symmetric] cnt_def [symmetric])
  obtain js where js: "sitJournal (cur_journal fs3) = sitJournal (cur_journal ?fs2) @ js"
      "sit_entry_of fs3 = sit_apply js (sit_entry_of ?fs2)"
    and live3: "\<forall>l. lpa_live fs3 l = (if l - ?lpa < cnt then True else lpa_live ?fs2 l)"
    and nxt3: "\<forall>seg. GET_NEXT_SEG (sit_entry_of fs3 seg) = GET_NEXT_SEG (sit_entry_of ?fs2 seg)"
    using f3(3) unfolding sit_changed_def by auto
  obtain x y where fr: "fs3 = ?fs2\<lparr>sit_cache := x, cur_journal := (cur_journal ?fs2)\<lparr>sitJournal := y\<rparr>\<rparr>"
    using f3(3) unfolding sit_changed_def by blast
  have same12: "sit_entry_of ?fs2 = sit_entry_of fs1" "lpa_live ?fs2 = lpa_live fs1"
    using same2 same_sit_facts(1) [OF same2] by (simp_all add: same_sit_def)
  have same01: "sit_entry_of fs1 = sit_entry_of fs" "lpa_live fs1 = lpa_live fs" "seg0 fs1 = seg0 fs"
    "sitJournal (cur_journal fs1) = sitJournal (cur_journal fs)"
    using same1 same_sit_facts(1) [OF same1] by (simp_all add: same_sit_def)
  have "alloc_inv fs3 xs'"
    by (rule alloc_inv_advance [OF inv1 off1 cnt(3)]) (use live3 nxt3 same12 in \<open>simp_all add: fr\<close>)
  moreover have "super_logged fs fs3"
  proof (rule super_logged_trans [OF log1 super_logged_trans [OF log2]])
    show "super_logged ?fs2 fs3"
      unfolding super_logged_def by (rule exI [of _ "[]"]) (simp add: fr)
  qed
  moreover have "cur_seg fs3 b = ?s"
    using ctx_apart(1) [of b] by (auto simp: fr get32_put32_other)
  moreover have "\<forall>l. l - ?lpa < cnt \<longrightarrow> \<not> lpa_live fs l \<and> (l - seg0 fs) div BLOCK_PER_SEGMENT = ?s"
    using seg(1,2) same12 same01 by simp
  moreover have "\<forall>l. lpa_live fs3 l \<longleftrightarrow> l - ?lpa < cnt \<or> lpa_live fs l"
    using live3 same12 same01 by simp
  moreover have "sitJournal (cur_journal fs3) = sitJournal (cur_journal fs) @ js \<and>
      sit_entry_of fs3 = sit_apply js (sit_entry_of fs)"
    using js same12 same01 by simp
  ultimately show ?thesis
    using r cnt(1,2) sl(3) f3(2)
    by (intro exI [of _ ?lpa] exI [of _ cnt] exI [of _ fs3] exI [of _ xs']) auto
qed

text \<open>
  Claim C7. LPA allocation. When \<open>alloc_inv\<close> holds, the request is not empty, and the current segment
  has room or a free segment is left, \<^verbatim>\<open>superManagerAllocLpaRangeInner\<close> (behind
  \<^verbatim>\<open>superManagerAllocNodeLpa\<close>, \<^verbatim>\<open>superManagerAllocDataLpa\<close> and \<^verbatim>\<open>superManagerAllocDataLpaRange\<close>) returns a
  range of at least one and at most the requested number of LPAs; none of them was live before, all
  are live afterwards, no other LPA changes state; the range lies in one segment and does not contain
  \<^verbatim>\<open>INVALID_LPA\<close> as its start; \<open>alloc_inv\<close> holds again; and replaying the appended super block and SIT
  journal entries on the old super block and SIT gives the new ones.
\<close>

theorem superManagerAllocLpaRangeInner_fresh:
  assumes "alloc_inv fs xs" and "sit_ready fs (Suc n)" and "requested \<noteq> 0"
    and "unat (cur_off fs b) < 512 \<or> xs \<noteq> []"
  shows "\<exists>lpa cnt fs' xs'. superManagerAllocLpaRangeInner fs b requested = Some (lpa, cnt, fs') \<and>
    lpa \<noteq> INVALID_LPA \<and> 0 < cnt \<and> cnt \<le> requested \<and>
    (\<forall>l. l - lpa < cnt \<longrightarrow> \<not> lpa_live fs l \<and> (l - seg0 fs) div BLOCK_PER_SEGMENT = cur_seg fs' b) \<and>
    (\<forall>l. lpa_live fs' l \<longleftrightarrow> l - lpa < cnt \<or> lpa_live fs l) \<and>
    alloc_inv fs' xs' \<and> sit_ready fs' n \<and> super_logged fs fs' \<and>
    (\<exists>js. sitJournal (cur_journal fs') = sitJournal (cur_journal fs) @ js \<and>
       sit_entry_of fs' = sit_apply js (sit_entry_of fs))"
  by (rule superManagerAllocLpaRangeInner_spec [OF assms])

text \<open>A state with one free segment (7), the node log in segment 2 and the data log in segment 3.\<close>

definition demo_alloc_fs :: "u32 \<Rightarrow> u32 \<Rightarrow> file_system_manager" where
  "demo_alloc_fs free off = demo_fs\<lparr>super_blk_mem := put32 (put32 (put32 (put32 (super_blk_mem demo_fs)
     SB_free_segment_count free) SB_current_node_segment_id 2) SB_current_data_segment_id 3)
     SB_current_node_segment_blkoff off\<rparr>"

lemma demo_alloc_sb:
  "sb32 (demo_alloc_fs f k) SB_free_segment_count = f" "sb32 (demo_alloc_fs f k) SB_first_free_segment_id = 7"
  "cur_seg (demo_alloc_fs f k) True = 2" "cur_seg (demo_alloc_fs f k) False = 3"
  "cur_off (demo_alloc_fs f k) True = k" "cur_off (demo_alloc_fs f k) False = 0"
  "seg0 (demo_alloc_fs f k) = 100" "sb32 (demo_alloc_fs f k) SB_sit_blkaddr = 10"
  "sb32 (demo_alloc_fs f k) SB_segment_count_sit = 1"
  using demo_sb by (simp_all add: demo_alloc_fs_def get32_put32_other)
    (simp add: demo_fs_def demo_super_def get32_put32_other)

lemma demo_alloc_fields [simp]:
  "sit_cache (demo_alloc_fs f k) = sitNatCacheInit 100" "fs_dev (demo_alloc_fs f k) = demo_dev"
  by (simp_all add: demo_alloc_fs_def)

lemma demo_alloc_dead: "dead_from (demo_alloc_fs f k) s j"
proof -
  have "\<not> sit_bit (getSitEntry zero_block off) i" if "i < 512" for off i
    using that by (simp add: sit_bit_def getSitEntry_def zero_block_def)
  then show ?thesis
    by (simp add: dead_from_def sit_entry_of_def snc_view_def snc_init(2)) (simp add: demo_dev_def)
qed

lemma demo_alloc_inv: "unat k \<le> 512 \<Longrightarrow> alloc_inv (demo_alloc_fs 1 k) [7]" "unat k \<le> 512 \<Longrightarrow> alloc_inv (demo_alloc_fs 0 k) []"
proof -
  have ok: "seg_ok (demo_alloc_fs f k) s" if "s < 60" for f s
  proof -
    have "unat s < 60" using that by (simp add: word_less_nat_alt)
    moreover from this have "unat (s div 60) = 0" by (simp add: unat_div)
    ultimately show ?thesis by (simp add: seg_ok_def demo_alloc_sb demo_dev_ok unat_eq_0)
  qed
  have all: "(\<forall>b. P b) \<longleftrightarrow> P True \<and> P False" for P :: "bool \<Rightarrow> bool"
    by (metis (full_types))
  show "alloc_inv (demo_alloc_fs 1 k) [7]" if "unat k \<le> 512"
    using that unfolding alloc_inv_def all
    by (simp add: seg_free_def demo_alloc_sb [unfolded ctx_fields] ok demo_alloc_dead)
  show "alloc_inv (demo_alloc_fs 0 k) []" if "unat k \<le> 512"
    using that unfolding alloc_inv_def all
    by (simp add: seg_free_def demo_alloc_sb [unfolded ctx_fields] ok demo_alloc_dead)
qed

lemma superManagerAllocLpaRangeInner_fresh_witness:
  "\<exists>lpa cnt fs'. superManagerAllocLpaRangeInner (demo_alloc_fs 1 512) True 3 = Some (lpa, cnt, fs') \<and>
     lpa \<noteq> 0 \<and> 0 < cnt \<and> cnt \<le> 3 \<and> lpa_live fs' lpa"
proof -
  obtain lpa cnt fs' where "superManagerAllocLpaRangeInner (demo_alloc_fs 1 512) True 3 = Some (lpa, cnt, fs')"
      "lpa \<noteq> INVALID_LPA" "0 < cnt" "cnt \<le> 3" "\<forall>l. lpa_live fs' l \<longleftrightarrow> l - lpa < cnt \<or> lpa_live (demo_alloc_fs 1 512) l"
    using superManagerAllocLpaRangeInner_fresh [of "demo_alloc_fs 1 512" "[7]" 0 3 True] demo_alloc_inv(1) [of 512]
      demo_ready [of "Suc 0"] by auto
  then show ?thesis by auto
qed

text \<open>
  Out of space: when the current segment is full and no free segment is left, the allocation
  returns \<^verbatim>\<open>INVALID_LPA\<close> with a count of 0 and changes nothing.
\<close>

theorem superManagerAllocLpaRangeInner_full:
  assumes "alloc_inv fs []" and "\<not> unat (cur_off fs b) < 512"
  shows "superManagerAllocLpaRangeInner fs b requested = Some (INVALID_LPA, 0, fs)"
proof -
  have "sb32 fs SB_free_segment_count = 0"
    using assms(1) by (simp add: alloc_inv_def seg_free_def unat_eq_0)
  then have "superManagerSwitchSegment fs b = Some (False, fs)"
    using assms(2) by (simp add: superManagerSwitchSegment_def superManagerAllocSegment_def word_le_nat_alt)
  then show ?thesis
    by (simp add: superManagerAllocLpaRangeInner_def)
qed

lemma superManagerAllocLpaRangeInner_full_witness:
  "superManagerAllocLpaRangeInner (demo_alloc_fs 0 512) True 3 = Some (INVALID_LPA, 0, demo_alloc_fs 0 512)"
  by (rule superManagerAllocLpaRangeInner_full) (simp_all add: demo_alloc_inv demo_alloc_sb [unfolded ctx_fields])

end
