(* ===== verification/Block_Io.thy ===== *)
theory Block_Io
  imports Comm_Dev "HOL-Library.Multiset"
begin

text \<open>
  Block buffers (\<^verbatim>\<open>src/src/cache/block_buffer.c\<close>), asynchronous requests
  (\<^verbatim>\<open>comm_submit_async_rw_request\<close> of \<^verbatim>\<open>comm_api.c\<close>) and the synchronizer that waits for a batch of
  them (\<^verbatim>\<open>src/src/utils/io_utils.c\<close>). A buffer is its content; the memory that \<^verbatim>\<open>malloc\<close> hands out is
  an argument, because its content is not determined.

  An asynchronous request that passes the checks goes to the driver. \<open>accepts lba\<close> says whether the
  driver's \<^verbatim>\<open>ioctl\<close> takes it: only then is the completion callback ever called, with success exactly
  when the request's outcome \<open>drv_rc\<close> is 0.
\<close>

datatype comm_cmd_result = COMM_CMD_SUCCESS | COMM_CMD_CQE_ERROR | COMM_CMD_TID_QUERY_ERROR

subsection \<open>Block buffers\<close>

definition blockBufferInit :: "block \<Rightarrow> block" where
  "blockBufferInit junk = junk"

definition blockBufferCopy :: "block \<Rightarrow> block \<Rightarrow> block" where
  "blockBufferCopy this other = (\<lambda>i. if i < 4096 then other i else this i)"

definition blockBufferCopyContentFromBuf :: "block \<Rightarrow> block \<Rightarrow> block" where
  "blockBufferCopyContentFromBuf this buf = (\<lambda>i. if i < 4096 then buf i else this i)"

text \<open>A refused read leaves the buffer as it was.\<close>

definition blockBufferReadFromLpa :: "comm_dev \<Rightarrow> block \<Rightarrow> u32 \<Rightarrow> rc \<times> block" where
  "blockBufferReadFromLpa dev this lpa =
     (case comm_read dev (LPA_TO_LBA32 lpa) of (r, b) \<Rightarrow> (r, if r = RC0 then b else this))"

definition blockBufferWriteToLpaSync :: "block \<Rightarrow> comm_dev \<Rightarrow> u32 \<Rightarrow> rc \<times> comm_dev" where
  "blockBufferWriteToLpaSync this dev lpa = comm_write dev (LPA_TO_LBA32 lpa) this"

subsection \<open>Asynchronous requests\<close>

text \<open>The result is the return code, what the callback will be called with (if ever), and the device.\<close>

definition comm_submit_async_rw_request ::
  "(u64 \<Rightarrow> bool) \<Rightarrow> comm_dev \<Rightarrow> block \<Rightarrow> u64 \<Rightarrow> rc \<times> comm_cmd_result option \<times> comm_dev" where
  "comm_submit_async_rw_request accepts dev buffer lba =
     (let r = comm_submit_rw_request_common (dev\<lparr>drv_rc := \<lambda>_. RC0\<rparr>) lba in
      if r \<noteq> RC0 then (r, None, dev)
      else if \<not> accepts lba then (if drv_rc dev lba = RC0 then EIO else drv_rc dev lba, None, dev)
      else if drv_rc dev lba = RC0 then (RC0, Some COMM_CMD_SUCCESS, dev\<lparr>media := (media dev)(lba := buffer)\<rparr>)
      else (RC0, Some COMM_CMD_CQE_ERROR, dev))"

definition blockBufferWriteToLpaAsync ::
  "(u64 \<Rightarrow> bool) \<Rightarrow> block \<Rightarrow> comm_dev \<Rightarrow> u32 \<Rightarrow> rc \<times> comm_cmd_result option \<times> comm_dev" where
  "blockBufferWriteToLpaAsync accepts this dev lpa = comm_submit_async_rw_request accepts dev this (LPA_TO_LBA32 lpa)"

subsection \<open>The synchronizer\<close>

record AsyncVecioSynchronizer =
  ioRes :: comm_cmd_result
  ioNum :: u64
  isCompleted :: bool

definition asyncVecioSynchronizerInit :: "u64 \<Rightarrow> AsyncVecioSynchronizer" where
  "asyncVecioSynchronizerInit n = \<lparr>ioRes = COMM_CMD_SUCCESS, ioNum = n, isCompleted = (n = 0)\<rparr>"

definition asyncVecioSynchronizerCpltOnce ::
  "AsyncVecioSynchronizer \<Rightarrow> comm_cmd_result \<Rightarrow> AsyncVecioSynchronizer" where
  "asyncVecioSynchronizerCpltOnce s ioResult =
     (let num = ioNum s;
          s1 = s\<lparr>ioNum := ioNum s - 1\<rparr>;
          s2 = (if ioRes s1 = COMM_CMD_SUCCESS then s1\<lparr>ioRes := ioResult\<rparr> else s1)
      in if num = 1 then s2\<lparr>isCompleted := True\<rparr> else s2)"

definition asyncVecioSynchronizerGenericCallback ::
  "comm_cmd_result \<Rightarrow> AsyncVecioSynchronizer \<Rightarrow> AsyncVecioSynchronizer" where
  "asyncVecioSynchronizerGenericCallback res arg = asyncVecioSynchronizerCpltOnce arg res"

text \<open>The wait, once every callback that will come has come: it returns only if the batch is complete.\<close>

definition asyncVecioSynchronizerWaitCplt :: "AsyncVecioSynchronizer \<Rightarrow> comm_cmd_result option" where
  "asyncVecioSynchronizerWaitCplt s = (if isCompleted s then Some (ioRes s) else None)"

text \<open>
  A batch of completions: whatever the order in which they arrive, the wait returns exactly when there
  were as many as the synchronizer was told, and reports the first error, or success when all succeeded.
\<close>

lemma cplt_once:
  "ioNum (asyncVecioSynchronizerGenericCallback r s) = ioNum s - 1"
  "isCompleted (asyncVecioSynchronizerGenericCallback r s) \<longleftrightarrow> ioNum s = 1 \<or> isCompleted s"
  "ioRes (asyncVecioSynchronizerGenericCallback r s) = (if ioRes s = COMM_CMD_SUCCESS then r else ioRes s)"
  by (simp_all add: asyncVecioSynchronizerGenericCallback_def asyncVecioSynchronizerCpltOnce_def Let_def)

definition first_error :: "comm_cmd_result list \<Rightarrow> comm_cmd_result" where
  "first_error rs = (case find (\<lambda>r. r \<noteq> COMM_CMD_SUCCESS) rs of None \<Rightarrow> COMM_CMD_SUCCESS | Some r \<Rightarrow> r)"

lemma first_error_success: "first_error rs = COMM_CMD_SUCCESS \<longleftrightarrow> (\<forall>r \<in> set rs. r = COMM_CMD_SUCCESS)"
  by (induction rs) (auto simp: first_error_def)

lemma first_error_append: "first_error (rs @ [r]) = (if first_error rs = COMM_CMD_SUCCESS then r else first_error rs)"
  by (induction rs) (auto simp: first_error_def)

lemma cplt_batch:
  assumes "length rs \<le> unat (ioNum s)" and "isCompleted s \<longleftrightarrow> ioNum s = 0"
    and "ioRes s = COMM_CMD_SUCCESS"
  shows "let s' = fold asyncVecioSynchronizerGenericCallback rs s in
    (isCompleted s' \<longleftrightarrow> length rs = unat (ioNum s)) \<and> unat (ioNum s') = unat (ioNum s) - length rs \<and>
    ioRes s' = first_error rs"
  using assms(1)
proof (induction rs rule: rev_induct)
  case Nil
  then show ?case using assms(2,3) by (auto simp: Let_def unat_eq_0 first_error_def)
next
  case (snoc r rs)
  let ?s = "fold asyncVecioSynchronizerGenericCallback rs s"
  have ih: "isCompleted ?s \<longleftrightarrow> length rs = unat (ioNum s)" "unat (ioNum ?s) = unat (ioNum s) - length rs"
    "ioRes ?s = first_error rs"
    using snoc by (simp_all add: Let_def)
  have lt: "length rs < unat (ioNum s)"
    using snoc.prems by simp
  have "ioNum ?s = 1 \<longleftrightarrow> unat (ioNum ?s) = 1"
    using unat_word_eqI [of "ioNum ?s" 1] by auto
  with lt have nz: "ioNum ?s \<noteq> 0" and one: "ioNum ?s = 1 \<longleftrightarrow> Suc (length rs) = unat (ioNum s)"
    using ih(2) by auto
  have "unat (ioNum ?s - 1) = unat (ioNum ?s) - 1"
    using nz by (rule unat_minus_one)
  then show ?case
    using ih lt one by (auto simp: cplt_once Let_def first_error_append)
qed

lemma wait_batch:
  assumes "length rs \<le> n" and "n < 18446744073709551616"
  shows "asyncVecioSynchronizerWaitCplt (fold asyncVecioSynchronizerGenericCallback rs (asyncVecioSynchronizerInit (of_nat n))) =
    (if length rs < n then None else Some (first_error rs))"
proof -
  have "unat (of_nat n :: u64) = n"
    using assms(2) by (simp add: unat_of_nat)
  then have h: "length rs \<le> unat (ioNum (asyncVecioSynchronizerInit (of_nat n)))"
    "unat (ioNum (asyncVecioSynchronizerInit (of_nat n))) = n"
    using assms(1) by (simp_all add: asyncVecioSynchronizerInit_def)
  from cplt_batch [OF h(1)] show ?thesis
    using assms(1) h(2) by (auto simp: asyncVecioSynchronizerWaitCplt_def asyncVecioSynchronizerInit_def Let_def)
qed

text \<open>
  Claim C35. Waiting for a batch of \<open>n\<close> asynchronous requests blocks for ever exactly when fewer than \<open>n\<close> of them are
  completed; otherwise it returns the first error in the order of the completions \<open>rs\<close>, and success when there is none. So whether it
  returns, and whether it reports success, is the same for every other order \<open>rs'\<close> of the completions; which error it
  reports is not: it is the one that comes first.
\<close>

theorem asyncVecioSynchronizer_batch:
  assumes "n < 18446744073709551616" and "length rs \<le> n" and "mset rs' = mset rs"
  shows "let wait = \<lambda>rs. asyncVecioSynchronizerWaitCplt
      (fold asyncVecioSynchronizerGenericCallback rs (asyncVecioSynchronizerInit (of_nat n))) in
    wait rs = (if length rs < n then None else Some (first_error rs)) \<and>
    (wait rs = Some COMM_CMD_SUCCESS \<longleftrightarrow> length rs = n \<and> (\<forall>r \<in> set rs. r = COMM_CMD_SUCCESS)) \<and>
    (wait rs' = None \<longleftrightarrow> wait rs = None) \<and> (wait rs' = Some COMM_CMD_SUCCESS \<longleftrightarrow> wait rs = Some COMM_CMD_SUCCESS)"
proof -
  have p: "length rs' = length rs" "set rs' = set rs"
    using assms(3) by (auto dest: mset_eq_length mset_eq_setD)
  show ?thesis
    using wait_batch [OF assms(2,1)] wait_batch [of rs' n] assms(1,2) p first_error_success [of rs] first_error_success [of rs']
    by (auto simp: Let_def)
qed

text \<open>Two completions with different results, in both orders, and a batch of which one never completes.\<close>

lemma asyncVecioSynchronizer_batch_witness:
  "let wait = \<lambda>rs. asyncVecioSynchronizerWaitCplt
      (fold asyncVecioSynchronizerGenericCallback rs (asyncVecioSynchronizerInit (of_nat 2))) in
   wait [COMM_CMD_CQE_ERROR, COMM_CMD_TID_QUERY_ERROR] = Some COMM_CMD_CQE_ERROR \<and>
   wait [COMM_CMD_TID_QUERY_ERROR, COMM_CMD_CQE_ERROR] = Some COMM_CMD_TID_QUERY_ERROR \<and> wait [COMM_CMD_SUCCESS] = None"
  using asyncVecioSynchronizer_batch [of 2 "[COMM_CMD_CQE_ERROR, COMM_CMD_TID_QUERY_ERROR]" "[COMM_CMD_TID_QUERY_ERROR, COMM_CMD_CQE_ERROR]"]
    asyncVecioSynchronizer_batch [of 2 "[COMM_CMD_TID_QUERY_ERROR, COMM_CMD_CQE_ERROR]" "[COMM_CMD_CQE_ERROR, COMM_CMD_TID_QUERY_ERROR]"]
    asyncVecioSynchronizer_batch [of 2 "[COMM_CMD_SUCCESS]" "[COMM_CMD_SUCCESS]"]
  by (simp add: Let_def first_error_def)

end
