(* ===== verification/Srmap_Utils.thy ===== *)
theory Srmap_Utils
  imports Fs_State Block_Io
begin

text \<open>
  The reverse map of \<^verbatim>\<open>src/src/fs/srmap_utils.c\<close>: for every LPA, the node or the file block that lives
  there. Blocks of the map are cached without bound in \<open>srmapCache\<close> and written back in place from
  the set \<open>dirtyBlks\<close>. The content of a freshly allocated buffer is the argument \<open>junk\<close>; the order
  in which the hash set is walked is an argument too.
\<close>

definition srmapUtilsInit :: "file_system_manager \<Rightarrow> file_system_manager" where
  "srmapUtilsInit fs =
     fs\<lparr>srmap_utils := \<lparr>srmapCache = Map.empty, dirtyBlks = {}, srmapStartLpa = sb32 fs SB_srmap_blkaddr\<rparr>\<rparr>"

definition srmapUtilsGetSrmapPosOfLpa :: "SrmapUtils \<Rightarrow> u32 \<Rightarrow> u32 \<times> u32" where
  "srmapUtilsGetSrmapPosOfLpa this lpa = (srmapStartLpa this + lpa div ENTRIES_IN_SUM, lpa mod ENTRIES_IN_SUM)"

definition srmapUtilsGetSrmapBlk :: "block \<Rightarrow> comm_dev \<Rightarrow> SrmapUtils \<Rightarrow> u32 \<Rightarrow> block \<times> SrmapUtils" where
  "srmapUtilsGetSrmapBlk junk dev this lpa =
     (case srmapCache this lpa of
        Some blk \<Rightarrow> (blk, this)
      | None \<Rightarrow> let (_, blk) = blockBufferReadFromLpa dev (blockBufferInit junk) lpa
                in (blk, this\<lparr>srmapCache := (srmapCache this)(lpa \<mapsto> blk)\<rparr>))"

abbreviation sum_slot :: "u32 \<Rightarrow> nat" where
  "sum_slot idx \<equiv> 8 * unat idx"

definition srmapUtilsWriteSrmapOfData ::
  "block \<Rightarrow> file_system_manager \<Rightarrow> u32 \<Rightarrow> u32 \<Rightarrow> u32 \<Rightarrow> file_system_manager" where
  "srmapUtilsWriteSrmapOfData junk fs dataLpa ino blkoff =
     (let (srmapBlkLpa, idx) = srmapUtilsGetSrmapPosOfLpa (srmap_utils fs) dataLpa;
          (blk, u) = srmapUtilsGetSrmapBlk junk (fs_dev fs) (srmap_utils fs) srmapBlkLpa;
          blk = putSummary blk (sum_slot idx) \<lparr>sum_nid = ino, sum_ofs_in_node = blkoff\<rparr>
      in fs\<lparr>srmap_utils := u\<lparr>srmapCache := (srmapCache u)(srmapBlkLpa \<mapsto> blk),
                             dirtyBlks := insert srmapBlkLpa (dirtyBlks u)\<rparr>\<rparr>)"

definition srmapUtilsWriteSrmapOfNode ::
  "block \<Rightarrow> file_system_manager \<Rightarrow> u32 \<Rightarrow> u32 \<Rightarrow> file_system_manager" where
  "srmapUtilsWriteSrmapOfNode junk fs nodeLpa nid =
     (let (srmapBlkLpa, idx) = srmapUtilsGetSrmapPosOfLpa (srmap_utils fs) nodeLpa;
          (blk, u) = srmapUtilsGetSrmapBlk junk (fs_dev fs) (srmap_utils fs) srmapBlkLpa;
          blk = putSummary blk (sum_slot idx) ((getSummary blk (sum_slot idx))\<lparr>sum_nid := nid\<rparr>)
      in fs\<lparr>srmap_utils := u\<lparr>srmapCache := (srmapCache u)(srmapBlkLpa \<mapsto> blk),
                             dirtyBlks := insert srmapBlkLpa (dirtyBlks u)\<rparr>\<rparr>)"

text \<open>
  The write-back submits one asynchronous request per dirty block, drops each return code, and waits
  for as many completions as there are dirty blocks. The dirty set is not emptied.
\<close>

fun srmapUtilsSubmitDirty ::
  "(u64 \<Rightarrow> bool) \<Rightarrow> SrmapUtils \<Rightarrow> comm_dev \<Rightarrow> AsyncVecioSynchronizer \<Rightarrow> u32 list \<Rightarrow> (comm_dev \<times> AsyncVecioSynchronizer) option" where
  "srmapUtilsSubmitDirty accepts this dev syn [] = Some (dev, syn)"
| "srmapUtilsSubmitDirty accepts this dev syn (lpa # ks) = do {
     c_assert (srmapCache this lpa \<noteq> None);
     let (_, cb, dev) = blockBufferWriteToLpaAsync accepts (the (srmapCache this lpa)) dev lpa;
     let syn = (case cb of None \<Rightarrow> syn | Some res \<Rightarrow> asyncVecioSynchronizerGenericCallback res syn);
     srmapUtilsSubmitDirty accepts this dev syn ks
   }"

definition srmapUtilsWriteDirtySrmapSync ::
  "(u64 \<Rightarrow> bool) \<Rightarrow> file_system_manager \<Rightarrow> u32 list \<Rightarrow> file_system_manager option" where
  "srmapUtilsWriteDirtySrmapSync accepts fs ks = do {
     (dev, syn) \<leftarrow> srmapUtilsSubmitDirty accepts (srmap_utils fs) (fs_dev fs)
        (asyncVecioSynchronizerInit (of_nat (card (dirtyBlks (srmap_utils fs))))) ks;
     _ \<leftarrow> asyncVecioSynchronizerWaitCplt syn;
     Some (fs\<lparr>fs_dev := dev\<rparr>)
   }"

definition srmapUtilsClearCache :: "file_system_manager \<Rightarrow> file_system_manager" where
  "srmapUtilsClearCache fs = fs\<lparr>srmap_utils := (srmap_utils fs)\<lparr>srmapCache := Map.empty, dirtyBlks := {}\<rparr>\<rparr>"

definition srmapUtilsDestroy :: "file_system_manager \<Rightarrow> file_system_manager" where
  "srmapUtilsDestroy fs = srmapUtilsClearCache fs"

subsection \<open>The reverse map as a table\<close>

definition srmap_view :: "file_system_manager \<Rightarrow> u32 \<Rightarrow> block" where
  "srmap_view fs k = (case srmapCache (srmap_utils fs) k of Some b \<Rightarrow> b | None \<Rightarrow> media (fs_dev fs) (LPA_TO_LBA32 k))"

definition srmap_entry_of :: "file_system_manager \<Rightarrow> u32 \<Rightarrow> RtfsSummary" where
  "srmap_entry_of fs lpa =
     getSummary (srmap_view fs (srmapStartLpa (srmap_utils fs) + lpa div ENTRIES_IN_SUM)) (sum_slot (lpa mod ENTRIES_IN_SUM))"

text \<open>Dirty blocks are cached; cached blocks that are not dirty are the medium's.\<close>

definition srmap_inv :: "file_system_manager \<Rightarrow> bool" where
  "srmap_inv fs \<longleftrightarrow> finite (dirtyBlks (srmap_utils fs)) \<and> dirtyBlks (srmap_utils fs) \<subseteq> dom (srmapCache (srmap_utils fs)) \<and>
     (\<forall>k b. srmapCache (srmap_utils fs) k = Some b \<longrightarrow> k \<notin> dirtyBlks (srmap_utils fs) \<longrightarrow>
        b = media (fs_dev fs) (LPA_TO_LBA32 k))"

lemma srmap_get_view:
  assumes "srmapCache (srmap_utils fs) k = None \<longrightarrow> comm_submit_rw_request_common (fs_dev fs) (LPA_TO_LBA32 k) = RC0"
  obtains u where "srmapUtilsGetSrmapBlk junk (fs_dev fs) (srmap_utils fs) k = (srmap_view fs k, u)"
    "srmapCache u = (srmapCache (srmap_utils fs))(k \<mapsto> srmap_view fs k)"
    "dirtyBlks u = dirtyBlks (srmap_utils fs)" "srmapStartLpa u = srmapStartLpa (srmap_utils fs)"
proof (cases "srmapCache (srmap_utils fs) k")
  case None
  then show ?thesis
    using assms by (intro that [of "(srmap_utils fs)\<lparr>srmapCache := (srmapCache (srmap_utils fs))(k \<mapsto> srmap_view fs k)\<rparr>"])
      (auto simp: srmapUtilsGetSrmapBlk_def srmap_view_def blockBufferReadFromLpa_def comm_read_def)
next
  case (Some b)
  then show ?thesis
    by (intro that [of "srmap_utils fs"]) (auto simp: srmapUtilsGetSrmapBlk_def srmap_view_def)
qed

text \<open>One entry of one block, as an update of the table.\<close>

lemma srmap_table_update:
  assumes "srmapStartLpa (srmap_utils fs') = srmapStartLpa (srmap_utils fs)"
    and "srmap_view fs' = (srmap_view fs)(srmapStartLpa (srmap_utils fs) + lpa div ENTRIES_IN_SUM :=
      putSummary (srmap_view fs (srmapStartLpa (srmap_utils fs) + lpa div ENTRIES_IN_SUM)) (sum_slot (lpa mod ENTRIES_IN_SUM)) e)"
  shows "srmap_entry_of fs' = (srmap_entry_of fs)(lpa := e)"
proof
  fix m
  show "srmap_entry_of fs' m = ((srmap_entry_of fs)(lpa := e)) m"
  proof (cases "m div ENTRIES_IN_SUM = lpa div ENTRIES_IN_SUM")
    case False
    then show ?thesis
      using assms by (auto simp: srmap_entry_of_def)
  next
    case same: True
    have "m mod ENTRIES_IN_SUM = lpa mod ENTRIES_IN_SUM \<longleftrightarrow> m = lpa"
      using same word_div_mod_cong by blast
    then have "unat (lpa mod ENTRIES_IN_SUM) = unat (m mod ENTRIES_IN_SUM) \<longleftrightarrow> m = lpa"
      by (metis unat_word_eqI)
    then show ?thesis
      using assms same csum.get_put_slot [where v = e and base = 0 and i = "unat (lpa mod ENTRIES_IN_SUM)"
        and j = "unat (m mod ENTRIES_IN_SUM)"]
      by (simp add: srmap_entry_of_def mult.commute)
  qed
qed

lemma srmap_put_block:
  assumes "srmapCache u = (srmapCache (srmap_utils fs))(k \<mapsto> srmap_view fs k)"
    and "dirtyBlks u = dirtyBlks (srmap_utils fs)" and "srmap_inv fs"
  shows "srmap_inv (fs\<lparr>srmap_utils := u\<lparr>srmapCache := (srmapCache u)(k \<mapsto> b), dirtyBlks := insert k (dirtyBlks u)\<rparr>\<rparr>)"
    and "srmap_view (fs\<lparr>srmap_utils := u\<lparr>srmapCache := (srmapCache u)(k \<mapsto> b), dirtyBlks := insert k (dirtyBlks u)\<rparr>\<rparr>) =
      (srmap_view fs)(k := b)"
proof -
  let ?fs = "fs\<lparr>srmap_utils := u\<lparr>srmapCache := (srmapCache u)(k \<mapsto> b), dirtyBlks := insert k (dirtyBlks u)\<rparr>\<rparr>"
  show "srmap_inv ?fs"
    using assms by (auto simp: srmap_inv_def)
  show "srmap_view ?fs = (srmap_view fs)(k := b)"
    using assms(1) by (intro ext) (simp add: srmap_view_def split: option.split)
qed

text \<open>What both write operations do to the table.\<close>

lemma srmap_write:
  assumes "srmap_inv fs" and "k = srmapStartLpa (srmap_utils fs) + lpa div ENTRIES_IN_SUM"
    and "srmapCache (srmap_utils fs) k = None \<longrightarrow> comm_submit_rw_request_common (fs_dev fs) (LPA_TO_LBA32 k) = RC0"
  shows "srmap_entry_of (srmapUtilsWriteSrmapOfData junk fs lpa ino blkoff) =
      (srmap_entry_of fs)(lpa := \<lparr>sum_nid = ino, sum_ofs_in_node = blkoff\<rparr>) \<and>
      srmap_inv (srmapUtilsWriteSrmapOfData junk fs lpa ino blkoff) \<and>
      k \<in> dirtyBlks (srmap_utils (srmapUtilsWriteSrmapOfData junk fs lpa ino blkoff)) \<and>
      srmapUtilsWriteSrmapOfData junk fs lpa ino blkoff =
        fs\<lparr>srmap_utils := srmap_utils (srmapUtilsWriteSrmapOfData junk fs lpa ino blkoff)\<rparr>"
    and "srmap_entry_of (srmapUtilsWriteSrmapOfNode junk fs lpa nid) =
      (srmap_entry_of fs)(lpa := (srmap_entry_of fs lpa)\<lparr>sum_nid := nid\<rparr>) \<and>
      srmap_inv (srmapUtilsWriteSrmapOfNode junk fs lpa nid) \<and>
      k \<in> dirtyBlks (srmap_utils (srmapUtilsWriteSrmapOfNode junk fs lpa nid)) \<and>
      srmapUtilsWriteSrmapOfNode junk fs lpa nid =
        fs\<lparr>srmap_utils := srmap_utils (srmapUtilsWriteSrmapOfNode junk fs lpa nid)\<rparr>"
proof -
  obtain u where u: "srmapUtilsGetSrmapBlk junk (fs_dev fs) (srmap_utils fs) k = (srmap_view fs k, u)"
    "srmapCache u = (srmapCache (srmap_utils fs))(k \<mapsto> srmap_view fs k)"
    "dirtyBlks u = dirtyBlks (srmap_utils fs)" "srmapStartLpa u = srmapStartLpa (srmap_utils fs)"
    by (rule srmap_get_view [OF assms(3)])
  define put where "put e = fs\<lparr>srmap_utils := u\<lparr>srmapCache := (srmapCache u)(k \<mapsto>
      putSummary (srmap_view fs k) (sum_slot (lpa mod ENTRIES_IN_SUM)) e), dirtyBlks := insert k (dirtyBlks u)\<rparr>\<rparr>" for e
  have p: "srmap_inv (put e)" "srmap_entry_of (put e) = (srmap_entry_of fs)(lpa := e)" "k \<in> dirtyBlks (srmap_utils (put e))"
    "put e = fs\<lparr>srmap_utils := srmap_utils (put e)\<rparr>" for e
  proof -
    show "srmap_inv (put e)"
      unfolding put_def by (rule srmap_put_block(1) [OF u(2,3) assms(1)])
    show "srmap_entry_of (put e) = (srmap_entry_of fs)(lpa := e)"
      by (rule srmap_table_update)
        (use u(4) srmap_put_block(2) [OF u(2,3) assms(1)] in \<open>simp_all add: put_def assms(2) [symmetric]\<close>)
  qed (simp_all add: put_def)
  have d: "srmapUtilsWriteSrmapOfData junk fs lpa ino blkoff = put \<lparr>sum_nid = ino, sum_ofs_in_node = blkoff\<rparr>"
    by (simp add: srmapUtilsWriteSrmapOfData_def srmapUtilsGetSrmapPosOfLpa_def assms(2) [symmetric] u(1) put_def)
  have n: "srmapUtilsWriteSrmapOfNode junk fs lpa nid = put ((srmap_entry_of fs lpa)\<lparr>sum_nid := nid\<rparr>)"
    by (simp add: srmapUtilsWriteSrmapOfNode_def srmapUtilsGetSrmapPosOfLpa_def assms(2) [symmetric] u(1) put_def
        srmap_entry_of_def)
  show "srmap_entry_of (srmapUtilsWriteSrmapOfData junk fs lpa ino blkoff) =
      (srmap_entry_of fs)(lpa := \<lparr>sum_nid = ino, sum_ofs_in_node = blkoff\<rparr>) \<and>
      srmap_inv (srmapUtilsWriteSrmapOfData junk fs lpa ino blkoff) \<and>
      k \<in> dirtyBlks (srmap_utils (srmapUtilsWriteSrmapOfData junk fs lpa ino blkoff)) \<and>
      srmapUtilsWriteSrmapOfData junk fs lpa ino blkoff =
        fs\<lparr>srmap_utils := srmap_utils (srmapUtilsWriteSrmapOfData junk fs lpa ino blkoff)\<rparr>"
    unfolding d using p by blast
  show "srmap_entry_of (srmapUtilsWriteSrmapOfNode junk fs lpa nid) =
      (srmap_entry_of fs)(lpa := (srmap_entry_of fs lpa)\<lparr>sum_nid := nid\<rparr>) \<and>
      srmap_inv (srmapUtilsWriteSrmapOfNode junk fs lpa nid) \<and>
      k \<in> dirtyBlks (srmap_utils (srmapUtilsWriteSrmapOfNode junk fs lpa nid)) \<and>
      srmapUtilsWriteSrmapOfNode junk fs lpa nid =
        fs\<lparr>srmap_utils := srmap_utils (srmapUtilsWriteSrmapOfNode junk fs lpa nid)\<rparr>"
    unfolding n using p by blast
qed

text \<open>
  Claim C33. Recording the owner of an LPA changes that LPA's entry of the reverse map and no other.
  When the map block of the LPA is cached or can be read, \<^verbatim>\<open>srmapUtilsWriteSrmapOfData\<close> sets inode
  number and block offset, \<^verbatim>\<open>srmapUtilsWriteSrmapOfNode\<close> sets the nid and keeps the offset; both keep
  the invariant of the map cache and leave the rest of the file system state alone.
\<close>

theorem srmapUtils_write_one_entry:
  assumes "srmap_inv fs" and "k = srmapStartLpa (srmap_utils fs) + lpa div ENTRIES_IN_SUM"
    and "srmapCache (srmap_utils fs) k = None \<longrightarrow> comm_submit_rw_request_common (fs_dev fs) (LPA_TO_LBA32 k) = RC0"
  shows "(let fs' = srmapUtilsWriteSrmapOfData junk fs lpa ino blkoff in
      srmap_entry_of fs' = (srmap_entry_of fs)(lpa := \<lparr>sum_nid = ino, sum_ofs_in_node = blkoff\<rparr>) \<and>
      srmap_inv fs' \<and> k \<in> dirtyBlks (srmap_utils fs') \<and> fs' = fs\<lparr>srmap_utils := srmap_utils fs'\<rparr>) \<and>
    (let fs' = srmapUtilsWriteSrmapOfNode junk fs lpa nid in
      srmap_entry_of fs' = (srmap_entry_of fs)(lpa := (srmap_entry_of fs lpa)\<lparr>sum_nid := nid\<rparr>) \<and>
      srmap_inv fs' \<and> k \<in> dirtyBlks (srmap_utils fs') \<and> fs' = fs\<lparr>srmap_utils := srmap_utils fs'\<rparr>)"
  by (rule conjI; simp only: Let_def; rule srmap_write [OF assms])

lemma srmapUtils_write_one_entry_witness:
  "sum_nid (srmap_entry_of (srmapUtilsWriteSrmapOfNode zero_block demo_fs 700 9) 700) = 9 \<and>
   srmap_inv (srmapUtilsWriteSrmapOfData zero_block demo_fs 701 9 4)"
proof -
  have "srmap_inv demo_fs" "srmapStartLpa (srmap_utils demo_fs) = 30" "srmapCache (srmap_utils demo_fs) = Map.empty"
    by (simp_all add: srmap_inv_def demo_fs_def)
  then show ?thesis
    using srmapUtils_write_one_entry [of demo_fs 31 700] srmapUtils_write_one_entry [of demo_fs 31 701]
      demo_dev_ok [of 31] by (simp add: Let_def)
qed

subsection \<open>Write-back\<close>

text \<open>A request is taken: it passes the checks and the driver accepts it.\<close>

definition async_taken :: "(u64 \<Rightarrow> bool) \<Rightarrow> comm_dev \<Rightarrow> u64 \<Rightarrow> bool" where
  "async_taken accepts dev lba \<longleftrightarrow> comm_submit_rw_request_common (dev\<lparr>drv_rc := \<lambda>_. RC0\<rparr>) lba = RC0 \<and> accepts lba"

definition async_written :: "(u64 \<Rightarrow> bool) \<Rightarrow> comm_dev \<Rightarrow> u64 \<Rightarrow> bool" where
  "async_written accepts dev lba \<longleftrightarrow> async_taken accepts dev lba \<and> drv_rc dev lba = RC0"

lemma async_write:
  "snd (comm_submit_async_rw_request accepts dev b lba) =
     (if async_taken accepts dev lba then Some (if drv_rc dev lba = RC0 then COMM_CMD_SUCCESS else COMM_CMD_CQE_ERROR) else None,
      if async_written accepts dev lba then dev\<lparr>media := (media dev)(lba := b)\<rparr> else dev)"
  by (auto simp: comm_submit_async_rw_request_def async_taken_def async_written_def Let_def)

lemma async_media [simp]:
  "async_taken accepts (dev\<lparr>media := m\<rparr>) = async_taken accepts dev"
  "async_written accepts (dev\<lparr>media := m\<rparr>) = async_written accepts dev"
  by (simp_all add: async_taken_def async_written_def fun_eq_iff comm_submit_rw_request_common_def Let_def)

definition srmap_store :: "(u64 \<Rightarrow> bool) \<Rightarrow> SrmapUtils \<Rightarrow> comm_dev \<Rightarrow> u32 list \<Rightarrow> u64 \<Rightarrow> block" where
  "srmap_store accepts u dev ks = fold (\<lambda>k m. if async_written accepts dev (LPA_TO_LBA32 k)
     then m(LPA_TO_LBA32 k := the (srmapCache u k)) else m) ks (media dev)"

lemma srmap_submit:
  assumes "set ks \<subseteq> dom (srmapCache u)"
  shows "srmapUtilsSubmitDirty accepts u dev syn ks = Some (dev\<lparr>media := srmap_store accepts u dev ks\<rparr>,
    fold asyncVecioSynchronizerGenericCallback
      (map (\<lambda>k. if drv_rc dev (LPA_TO_LBA32 k) = RC0 then COMM_CMD_SUCCESS else COMM_CMD_CQE_ERROR)
        (filter (\<lambda>k. async_taken accepts dev (LPA_TO_LBA32 k)) ks)) syn)"
  using assms
proof (induction ks arbitrary: dev syn)
  case Nil
  then show ?case by (simp add: srmap_store_def)
next
  case (Cons k ks)
  obtain b where b: "srmapCache u k = Some b"
    using Cons.prems by auto
  obtain r where w: "blockBufferWriteToLpaAsync accepts b dev k = (r,
     if async_taken accepts dev (LPA_TO_LBA32 k) then Some (if drv_rc dev (LPA_TO_LBA32 k) = RC0 then COMM_CMD_SUCCESS else COMM_CMD_CQE_ERROR) else None,
      if async_written accepts dev (LPA_TO_LBA32 k) then dev\<lparr>media := (media dev)(LPA_TO_LBA32 k := b)\<rparr> else dev)"
    unfolding blockBufferWriteToLpaAsync_def using async_write by (metis prod.collapse)
  show ?case
    using Cons.IH Cons.prems b w by (auto simp: srmap_store_def async_written_def)
qed

lemma srmap_store_at:
  assumes "distinct ks" and "\<forall>k \<in> set ks. k < 0x20000000"
  shows "k \<in> set ks \<Longrightarrow> srmap_store accepts u dev ks (LPA_TO_LBA32 k) =
      (if async_written accepts dev (LPA_TO_LBA32 k) then the (srmapCache u k) else media dev (LPA_TO_LBA32 k))"
    and "lba \<notin> LPA_TO_LBA32 ` set ks \<Longrightarrow> srmap_store accepts u dev ks lba = media dev lba"
  using assms
proof (induction ks arbitrary: k lba rule: rev_induct)
  case (snoc j ks)
  { case 1
    have "LPA_TO_LBA32 k = LPA_TO_LBA32 j \<longleftrightarrow> k = j"
      using LPA_TO_LBA32_inj [of k j] 1 by auto
    moreover have "LPA_TO_LBA32 k \<notin> LPA_TO_LBA32 ` set ks" if "k = j"
      using that 1 LPA_TO_LBA32_inj [of j] by auto
    ultimately show ?case
      using 1 snoc.IH(1) [of k] snoc.IH(2) [of "LPA_TO_LBA32 k"] by (cases "k = j") (auto simp: srmap_store_def) }
  { case 2
    with snoc.IH(2) [of lba] show ?case by (auto simp: srmap_store_def) }
qed (simp_all add: srmap_store_def)

text \<open>The write-back, for the dirty blocks in any order.\<close>

lemma srmap_sync:
  assumes "srmap_inv fs" and "distinct ks" and "set ks = dirtyBlks (srmap_utils fs)"
    and "length ks < 18446744073709551616" and "\<forall>k \<in> set ks. k < 0x20000000"
  shows "(srmapUtilsWriteDirtySrmapSync accepts fs ks \<noteq> None \<longleftrightarrow> (\<forall>k \<in> set ks. async_taken accepts (fs_dev fs) (LPA_TO_LBA32 k))) \<and>
    ((\<forall>k \<in> set ks. async_taken accepts (fs_dev fs) (LPA_TO_LBA32 k)) \<longrightarrow>
      (\<exists>m. srmapUtilsWriteDirtySrmapSync accepts fs ks = Some (fs\<lparr>fs_dev := (fs_dev fs)\<lparr>media := m\<rparr>\<rparr>) \<and>
        (\<forall>k \<in> set ks. m (LPA_TO_LBA32 k) = (if drv_rc (fs_dev fs) (LPA_TO_LBA32 k) = RC0 then srmap_view fs k
           else media (fs_dev fs) (LPA_TO_LBA32 k))) \<and>
        (\<forall>lba. lba \<notin> LPA_TO_LBA32 ` set ks \<longrightarrow> m lba = media (fs_dev fs) lba) \<and>
        (\<forall>k < 0x20000000. srmap_view (fs\<lparr>fs_dev := (fs_dev fs)\<lparr>media := m\<rparr>\<rparr>) k = srmap_view fs k)))"
proof -
  let ?u = "srmap_utils fs" and ?dev = "fs_dev fs"
  let ?ok = "\<lambda>k. async_taken accepts ?dev (LPA_TO_LBA32 k)"
  let ?rs = "map (\<lambda>k. if drv_rc ?dev (LPA_TO_LBA32 k) = RC0 then COMM_CMD_SUCCESS else COMM_CMD_CQE_ERROR) (filter ?ok ks)"
  let ?m = "srmap_store accepts ?u ?dev ks" and ?n = "length ks"
  have sub: "set ks \<subseteq> dom (srmapCache ?u)" and card: "card (dirtyBlks ?u) = ?n"
    using assms(1,2,3) distinct_card [of ks] by (auto simp: srmap_inv_def)
  have sync: "srmapUtilsWriteDirtySrmapSync accepts fs ks =
      (asyncVecioSynchronizerWaitCplt (fold asyncVecioSynchronizerGenericCallback ?rs (asyncVecioSynchronizerInit (of_nat ?n)))
        \<bind> (\<lambda>_. Some (fs\<lparr>fs_dev := ?dev\<lparr>media := ?m\<rparr>\<rparr>)))"
    by (simp add: srmapUtilsWriteDirtySrmapSync_def srmap_submit [OF sub] card)
  have le: "length ?rs \<le> ?n" and eq: "length ?rs < ?n \<longleftrightarrow> \<not> (\<forall>k \<in> set ks. ?ok k)"
    using length_filter_less [of _ ks ?ok] filter_True [of ks ?ok] by (auto simp del: filter_True) (metis filter_True less_irrefl)
  have ret: "srmapUtilsWriteDirtySrmapSync accepts fs ks \<noteq> None \<longleftrightarrow> (\<forall>k \<in> set ks. ?ok k)"
    using wait_batch [OF le assms(4)] eq unfolding sync by (auto simp: bind_eq_Some_conv)
  note at = srmap_store_at [OF assms(2,5), where accepts = accepts and dev = ?dev and u = ?u]
  have "srmap_view (fs\<lparr>fs_dev := ?dev\<lparr>media := ?m\<rparr>\<rparr>) k = srmap_view fs k" if "k < 0x20000000" for k
  proof (cases "srmapCache ?u k")
    case None
    then have "k \<notin> set ks"
      using sub by auto
    then have "LPA_TO_LBA32 k \<notin> LPA_TO_LBA32 ` set ks"
      using LPA_TO_LBA32_inj [OF that] assms(5) by auto
    with None show ?thesis
      using at(2) by (simp add: srmap_view_def)
  qed (simp add: srmap_view_def)
  moreover have "?m (LPA_TO_LBA32 k) = (if drv_rc ?dev (LPA_TO_LBA32 k) = RC0 then srmap_view fs k else media ?dev (LPA_TO_LBA32 k))"
    if "k \<in> set ks" "\<forall>k \<in> set ks. ?ok k" for k
    using at(1) [OF that(1)] that sub by (auto simp: srmap_view_def async_written_def)
  moreover have "srmapUtilsWriteDirtySrmapSync accepts fs ks = Some (fs\<lparr>fs_dev := ?dev\<lparr>media := ?m\<rparr>\<rparr>)" if "\<forall>k \<in> set ks. ?ok k"
    using that ret unfolding sync by (auto simp: bind_eq_Some_conv)
  ultimately show ?thesis
    using ret at(2) by (intro conjI impI exI [of _ ?m]) auto
qed

text \<open>
  Claim C34. The write-back of the reverse map returns exactly when every request is taken. With the
  dirty blocks \<open>ks\<close>, all below LPA \<open>2^29\<close>, in any order, \<^verbatim>\<open>srmapUtilsWriteDirtySrmapSync\<close> waits for ever as soon as one
  request is refused, because the return code of the submission is dropped and its completion is
  still waited for. When all are taken it returns, also when some of them fail, because the result of the wait is dropped
  too: a dirty block whose request succeeds is on the medium, one whose request fails is not, no other block of the medium
  changed, the visible map is the same and the dirty set is kept.
\<close>

theorem srmapUtilsWriteDirtySrmapSync_returns_iff:
  assumes "srmap_inv fs" and "distinct ks" and "set ks = dirtyBlks (srmap_utils fs)"
    and "length ks < 18446744073709551616" and "\<forall>k \<in> set ks. k < 0x20000000"
  shows "(srmapUtilsWriteDirtySrmapSync accepts fs ks \<noteq> None \<longleftrightarrow> (\<forall>k \<in> set ks. async_taken accepts (fs_dev fs) (LPA_TO_LBA32 k))) \<and>
    ((\<forall>k \<in> set ks. async_taken accepts (fs_dev fs) (LPA_TO_LBA32 k)) \<longrightarrow>
      (\<exists>m. srmapUtilsWriteDirtySrmapSync accepts fs ks = Some (fs\<lparr>fs_dev := (fs_dev fs)\<lparr>media := m\<rparr>\<rparr>) \<and>
        (\<forall>k \<in> set ks. m (LPA_TO_LBA32 k) = (if drv_rc (fs_dev fs) (LPA_TO_LBA32 k) = RC0 then srmap_view fs k
           else media (fs_dev fs) (LPA_TO_LBA32 k))) \<and>
        (\<forall>lba. lba \<notin> LPA_TO_LBA32 ` set ks \<longrightarrow> m lba = media (fs_dev fs) lba) \<and>
        (\<forall>k < 0x20000000. srmap_view (fs\<lparr>fs_dev := (fs_dev fs)\<lparr>media := m\<rparr>\<rparr>) k = srmap_view fs k)))"
  using assms by (rule srmap_sync)

text \<open>A reverse map with one dirty block: the driver takes the request, or not, or takes it and fails.\<close>

lemma srmapUtilsWriteDirtySrmapSync_returns_iff_witness:
  "let fs = srmapUtilsWriteSrmapOfNode zero_block demo_fs 700 9; bad = fs\<lparr>fs_dev := demo_dev\<lparr>drv_rc := \<lambda>_. EIO\<rparr>\<rparr> in
   srmapUtilsWriteDirtySrmapSync (\<lambda>_. False) fs [31] = None \<and>
   (\<exists>fs'. srmapUtilsWriteDirtySrmapSync (\<lambda>_. True) fs [31] = Some fs' \<and> media (fs_dev fs') 248 = srmap_view fs 31) \<and>
   (\<exists>fs'. srmapUtilsWriteDirtySrmapSync (\<lambda>_. True) bad [31] = Some fs' \<and> media (fs_dev fs') 248 = media demo_dev 248)"
proof -
  let ?fs = "srmapUtilsWriteSrmapOfNode zero_block demo_fs 700 9"
  let ?bad = "?fs\<lparr>fs_dev := demo_dev\<lparr>drv_rc := \<lambda>_. EIO\<rparr>\<rparr>"
  have "srmap_inv demo_fs" "srmapStartLpa (srmap_utils demo_fs) = 30" "srmapCache (srmap_utils demo_fs) = Map.empty"
    "dirtyBlks (srmap_utils demo_fs) = {}"
    by (simp_all add: srmap_inv_def demo_fs_def)
  then have inv: "srmap_inv ?fs" "dirtyBlks (srmap_utils ?fs) = {31}" "fs_dev ?fs = demo_dev"
    using srmap_write(2) [of demo_fs 31 700 zero_block 9] demo_dev_ok [of 31]
    by (simp_all add: srmapUtilsWriteSrmapOfNode_def srmapUtilsGetSrmapPosOfLpa_def srmapUtilsGetSrmapBlk_def Let_def
        split: prod.splits)
  have inv': "srmap_inv ?bad" using inv(1,3) by (simp add: srmap_inv_def)
  have "drv_rc demo_dev = (\<lambda>_. RC0)"
    by (simp add: demo_dev_def)
  then have d: "demo_dev\<lparr>drv_rc := \<lambda>_. RC0\<rparr> = demo_dev" "drv_rc demo_dev 248 = RC0"
    by simp_all
  have lba: "LPA_TO_LBA32 31 = 248" by (simp add: LPA_TO_LBA32_def)
  have taken: "async_taken accepts (demo_dev\<lparr>drv_rc := f\<rparr>) 248 = accepts 248" "async_taken accepts demo_dev 248 = accepts 248" for accepts f
    using demo_dev_ok [of 31] d(1) by (simp_all add: async_taken_def lba)
  note r = srmapUtilsWriteDirtySrmapSync_returns_iff [of ?fs "[31]"] srmapUtilsWriteDirtySrmapSync_returns_iff [of ?bad "[31]"]
  show ?thesis
    unfolding Let_def using r(1) [of "\<lambda>_. False"] r(1) [of "\<lambda>_. True"] r(2) [of "\<lambda>_. True"] inv inv' d(2)
    by (auto simp: lba taken)
qed

text \<open>
  Claim C36. A map block that cannot be read is replaced by whatever the allocator handed out: when
  the read of the map block is refused, \<^verbatim>\<open>srmapUtilsWriteSrmapOfNode\<close> still records the owner, and the
  visible entries of all other LPAs of that block are those of the uninitialised buffer, marked dirty
  for the next write-back.
\<close>

theorem srmap_read_error_is_lost:
  assumes "k = srmapStartLpa (srmap_utils fs) + lpa div ENTRIES_IN_SUM" and "srmapCache (srmap_utils fs) k = None"
    and "comm_submit_rw_request_common (fs_dev fs) (LPA_TO_LBA32 k) \<noteq> RC0"
  shows "let fs' = srmapUtilsWriteSrmapOfNode junk fs lpa nid in k \<in> dirtyBlks (srmap_utils fs') \<and>
    (\<forall>m. m div ENTRIES_IN_SUM = lpa div ENTRIES_IN_SUM \<longrightarrow> m \<noteq> lpa \<longrightarrow>
       srmap_entry_of fs' m = getSummary junk (sum_slot (m mod ENTRIES_IN_SUM)))"
proof -
  let ?fs = "srmapUtilsWriteSrmapOfNode junk fs lpa nid" and ?i = "unat (lpa mod ENTRIES_IN_SUM)"
  let ?blk = "putSummary junk (8 * ?i) ((getSummary junk (8 * ?i))\<lparr>sum_nid := nid\<rparr>)"
  have get: "srmapUtilsGetSrmapBlk junk (fs_dev fs) (srmap_utils fs) k =
      (junk, (srmap_utils fs)\<lparr>srmapCache := (srmapCache (srmap_utils fs))(k \<mapsto> junk)\<rparr>)"
    using assms(2,3) by (simp add: srmapUtilsGetSrmapBlk_def blockBufferReadFromLpa_def comm_read_def blockBufferInit_def)
  have fs: "?fs = fs\<lparr>srmap_utils := (srmap_utils fs)\<lparr>srmapCache := (srmapCache (srmap_utils fs))(k \<mapsto> ?blk),
      dirtyBlks := insert k (dirtyBlks (srmap_utils fs))\<rparr>\<rparr>"
    by (simp add: srmapUtilsWriteSrmapOfNode_def srmapUtilsGetSrmapPosOfLpa_def assms(1) [symmetric] get)
  have "srmap_entry_of ?fs m = getSummary junk (sum_slot (m mod ENTRIES_IN_SUM))"
    if "m div ENTRIES_IN_SUM = lpa div ENTRIES_IN_SUM" "m \<noteq> lpa" for m
  proof -
    have "?i \<noteq> unat (m mod ENTRIES_IN_SUM)"
      using that word_div_mod_cong unat_word_eqI by metis
    then show ?thesis
      using csum.get_put_slot [where base = 0 and i = ?i and j = "unat (m mod ENTRIES_IN_SUM)" and b = junk] that(1)
      by (simp add: srmap_entry_of_def srmap_view_def fs assms(1) [symmetric] mult.commute)
  qed
  then show ?thesis
    by (simp add: Let_def fs)
qed

lemma srmap_read_error_is_lost_witness:
  "let fs = demo_fs\<lparr>fs_dev := demo_dev\<lparr>drv_rc := \<lambda>_. EIO\<rparr>\<rparr> in
   srmap_entry_of (srmapUtilsWriteSrmapOfNode (\<lambda>_. 255) fs 700 9) 701 = \<lparr>sum_nid = -1, sum_ofs_in_node = -1\<rparr>"
proof -
  let ?fs = "demo_fs\<lparr>fs_dev := demo_dev\<lparr>drv_rc := \<lambda>_. EIO\<rparr>\<rparr>"
  have "comm_submit_rw_request_common (fs_dev ?fs) (LPA_TO_LBA32 31) = EIO"
    by (simp add: comm_submit_rw_request_common_def demo_dev_def LPA_TO_LBA32_def)
  moreover have "get32 (\<lambda>_. 255) n = -1" for n
    by (simp add: get32_def)
  ultimately show ?thesis
    using srmap_read_error_is_lost [of 31 ?fs 700 "\<lambda>_. 255" 9]
    by (simp add: Let_def getSummary_def) (simp add: demo_fs_def)
qed

end
