(* ===== verification/Node_Block_Cache.thy ===== *)
theory Node_Block_Cache
  imports Lpa_Alloc Srmap_Utils
begin

text \<open>
  The node block cache, \<^verbatim>\<open>src/src/cache/node_block_cache.c\<close>: the node blocks (inodes, direct and
  indirect blocks) in memory, with their references, their dirty list, the copy-on-write relocation of
  dirty blocks and the helper that loads and creates nodes. Entries are heap objects, a handle is the
  address of its entry (\<open>None\<close> for an empty handle), and the manager of the file system is threaded
  through because dropping a deleted node frees its nid and its LPA. A cached child holds one
  reference on its parent. The test hooks are not set; \<^verbatim>\<open>Try\<close>/\<^verbatim>\<open>Catch\<close> leaves no trace, since the
  only exceptions thrown below it are the fatal ones that abort.
\<close>

subsection \<open>Entries\<close>

definition nodeBlockCacheEntryInit :: "block \<Rightarrow> block \<Rightarrow> u32 \<Rightarrow> u32 \<Rightarrow> u32 \<Rightarrow> NodeBlockCacheEntry" where
  "nodeBlockCacheEntryInit junk buffer nid parentNid lpa =
     \<lparr>nbe_nid = nid, nbe_parentNid = parentNid, nbe_lpa = lpa, nbe_cowNewLpa = INVALID_LPA,
      nbe_hasPendingCowRelocation = False, nbe_refCount = 0, nbe_state = NODE_BLOCK_CACHE_ENTRY_UPTODATE,
      nbe_node = blockBufferCopy (blockBufferInit junk) buffer\<rparr>"

definition nodeBlockCacheEntryDestroy :: "NodeBlockCacheEntry \<Rightarrow> NodeBlockCacheEntry" where
  "nodeBlockCacheEntryDestroy e =
     e\<lparr>nbe_state := NODE_BLOCK_CACHE_ENTRY_DELETED, nbe_refCount := 0, nbe_lpa := 0, nbe_cowNewLpa := 0,
       nbe_hasPendingCowRelocation := False, nbe_parentNid := 0, nbe_nid := 0\<rparr>"

abbreviation nb_entry :: "file_system_manager \<Rightarrow> nat \<Rightarrow> NodeBlockCacheEntry" where
  "nb_entry fs \<equiv> nbc_heap (node_cache fs)"

definition nb_set :: "file_system_manager \<Rightarrow> nat \<Rightarrow> NodeBlockCacheEntry \<Rightarrow> file_system_manager" where
  "nb_set fs a e = fs\<lparr>node_cache := (node_cache fs)\<lparr>nbc_heap := (nbc_heap (node_cache fs))(a := e)\<rparr>\<rparr>"

definition nb_set_mgr :: "file_system_manager \<Rightarrow> nat GenericCacheManager \<Rightarrow> file_system_manager" where
  "nb_set_mgr fs m = fs\<lparr>node_cache := (node_cache fs)\<lparr>nbc_mgr := m\<rparr>\<rparr>"

definition nodeBlockCacheEntryGetLpa :: "file_system_manager \<Rightarrow> nat \<Rightarrow> u32" where
  "nodeBlockCacheEntryGetLpa fs a = nbe_lpa (nb_entry fs a)"

definition nodeBlockCacheEntrySetLpa :: "file_system_manager \<Rightarrow> nat \<Rightarrow> u32 \<Rightarrow> file_system_manager" where
  "nodeBlockCacheEntrySetLpa fs a lpa = nb_set fs a ((nb_entry fs a)\<lparr>nbe_lpa := lpa\<rparr>)"

definition nodeBlockCacheEntryGetState :: "file_system_manager \<Rightarrow> nat \<Rightarrow> NodeBlockCacheEntryState" where
  "nodeBlockCacheEntryGetState fs a = nbe_state (nb_entry fs a)"

definition nodeBlockCacheEntrySetState ::
  "file_system_manager \<Rightarrow> nat \<Rightarrow> NodeBlockCacheEntryState \<Rightarrow> file_system_manager" where
  "nodeBlockCacheEntrySetState fs a s = nb_set fs a ((nb_entry fs a)\<lparr>nbe_state := s\<rparr>)"

definition nodeBlockCacheEntryGetNid :: "file_system_manager \<Rightarrow> nat \<Rightarrow> u32" where
  "nodeBlockCacheEntryGetNid fs a = nbe_nid (nb_entry fs a)"

subsection \<open>References\<close>

definition nodeBlockCacheAddRefCount :: "file_system_manager \<Rightarrow> nat \<Rightarrow> file_system_manager" where
  "nodeBlockCacheAddRefCount fs a =
     (let e = nb_entry fs a; r = nbe_refCount e + 1; fs = nb_set fs a (e\<lparr>nbe_refCount := r\<rparr>)
      in if r = 1 then nb_set_mgr fs (genericCacheManagerPin (nbc_mgr (node_cache fs)) (nbe_nid e)) else fs)"

text \<open>
  Dropping the last reference of a deleted node frees its nid, invalidates its LPA, removes it from the
  cache and drops the reference it held on its parent.
\<close>

definition nodeBlockCacheRelease :: "file_system_manager \<Rightarrow> nat \<Rightarrow> file_system_manager option" where
  "nodeBlockCacheRelease fs a =
     (let e = nb_entry fs a in do {
        fs \<leftarrow> superManagerFreeNid fs (nbe_nid e);
        fs \<leftarrow> (if nbe_lpa e \<noteq> INVALID_LPA then sitInvalidateLpa fs (sitOperatorInit fs) (nbe_lpa e) else Some fs);
        (_, m) \<leftarrow> genericCacheManagerRemove (nbc_mgr (node_cache fs)) (nbe_nid e);
        Some (fs\<lparr>node_cache := (node_cache fs)\<lparr>nbc_mgr := m, nbc_cur := nbc_cur (node_cache fs) - 1\<rparr>\<rparr>)
      })"

partial_function (option) nodeBlockCacheSubRefCount :: "file_system_manager \<Rightarrow> nat \<Rightarrow> file_system_manager option" where
  "nodeBlockCacheSubRefCount fs a =
     (let e = nb_entry fs a; r = nbe_refCount e - 1; fs = nb_set fs a (e\<lparr>nbe_refCount := r\<rparr>) in
      if r = 0 then
        let fs = nb_set_mgr fs (genericCacheManagerUnpin (nbc_mgr (node_cache fs)) (nbe_nid e)) in
        if nbe_state e = NODE_BLOCK_CACHE_ENTRY_DELETED then do {
          fs \<leftarrow> nodeBlockCacheRelease fs a;
          if nbe_parentNid e \<noteq> INVALID_NID then do {
            (parentEntry, m) \<leftarrow> genericCacheManagerGet (nbc_mgr (node_cache fs)) (nbe_parentNid e) False;
            case parentEntry of None \<Rightarrow> None | Some p \<Rightarrow> nodeBlockCacheSubRefCount (nb_set_mgr fs m) p
          } else Some fs
        } else Some fs
      else Some fs)"

subsection \<open>Replacement\<close>

definition nodeBlockCacheReplaceRound :: "file_system_manager \<Rightarrow> (nat option \<times> file_system_manager) option" where
  "nodeBlockCacheReplaceRound fs = do {
     (entry, m) \<leftarrow> genericCacheManagerReplaceOne (nbc_mgr (node_cache fs));
     case entry of
       None \<Rightarrow> Some (None, nb_set_mgr fs m)
     | Some a \<Rightarrow> do {
         c_assert (nbe_refCount (nb_entry fs a) = 0);
         let fs = fs\<lparr>node_cache := (node_cache fs)\<lparr>nbc_mgr := m, nbc_cur := nbc_cur (node_cache fs) - 1\<rparr>\<rparr>;
         let parentNid = nbe_parentNid (nb_entry fs a);
         if parentNid \<noteq> INVALID_NID then do {
           (parentEntry, m) \<leftarrow> genericCacheManagerGet (nbc_mgr (node_cache fs)) parentNid False;
           case parentEntry of
             None \<Rightarrow> None
           | Some p \<Rightarrow> do { fs \<leftarrow> nodeBlockCacheSubRefCount (nb_set_mgr fs m) p; Some (Some a, fs) }
         } else Some (Some a, fs)
       }
   }"

partial_function (option) nodeBlockCacheReplaceLoop :: "file_system_manager \<Rightarrow> file_system_manager option" where
  "nodeBlockCacheReplaceLoop fs = do {
     (entry, fs) \<leftarrow> nodeBlockCacheReplaceRound fs;
     if entry = None \<or> nbc_cur (node_cache fs) \<le> nbc_expect (node_cache fs) then Some fs
     else nodeBlockCacheReplaceLoop fs
   }"

definition nodeBlockCacheDoReplace :: "file_system_manager \<Rightarrow> file_system_manager option" where
  "nodeBlockCacheDoReplace fs =
     (if nbc_cur (node_cache fs) > nbc_expect (node_cache fs) then nodeBlockCacheReplaceLoop fs else Some fs)"

definition nodeBlockCacheForceReplace :: "file_system_manager \<Rightarrow> file_system_manager option" where
  "nodeBlockCacheForceReplace fs = nodeBlockCacheDoReplace fs"

subsection \<open>The cache\<close>

definition nodeBlockCacheInit :: "nat \<Rightarrow> (nat \<Rightarrow> NodeBlockCacheEntry) \<Rightarrow> NodeBlockCache" where
  "nodeBlockCacheInit expectSize heap =
     \<lparr>nbc_mgr = genericCacheManagerInit, nbc_heap = heap, nbc_next = 0, nbc_expect = expectSize, nbc_cur = 0,
      nbc_dirtyList = [], nbc_dirtyPos = {}\<rparr>"

definition nodeBlockCacheDestroy :: "NodeBlockCache \<Rightarrow> NodeBlockCache" where
  "nodeBlockCacheDestroy c =
     c\<lparr>nbc_dirtyPos := {}, nbc_mgr := genericCacheManagerDestroy (nbc_mgr c), nbc_dirtyList := [],
       nbc_cur := 0, nbc_expect := 0\<rparr>"

definition nodeBlockCacheAdd ::
  "block \<Rightarrow> file_system_manager \<Rightarrow> block \<Rightarrow> u32 \<Rightarrow> u32 \<Rightarrow> u32 \<Rightarrow> (nat \<times> file_system_manager) option" where
  "nodeBlockCacheAdd junk fs buffer nid parentNid lpa = do {
     (old, m) \<leftarrow> genericCacheManagerGet (nbc_mgr (node_cache fs)) nid False;
     c_assert (old = None);
     let a = nbc_next (node_cache fs);
     let fs = nb_set (nb_set_mgr fs m) a (nodeBlockCacheEntryInit junk buffer nid parentNid lpa);
     let fs = fs\<lparr>node_cache := (node_cache fs)\<lparr>nbc_next := a + 1\<rparr>\<rparr>;
     fs \<leftarrow> (if parentNid \<noteq> INVALID_NID then do {
         (parentEntry, m) \<leftarrow> genericCacheManagerGet (nbc_mgr (node_cache fs)) parentNid False;
         case parentEntry of None \<Rightarrow> None | Some p \<Rightarrow> Some (nodeBlockCacheAddRefCount (nb_set_mgr fs m) p)
       } else Some fs);
     m \<leftarrow> genericCacheManagerAdd (nbc_mgr (node_cache fs)) nid a;
     let fs = nodeBlockCacheAddRefCount (nb_set_mgr fs m) a;
     let fs = fs\<lparr>node_cache := (node_cache fs)\<lparr>nbc_cur := nbc_cur (node_cache fs) + 1\<rparr>\<rparr>;
     fs \<leftarrow> nodeBlockCacheDoReplace fs;
     Some (a, fs)
   }"

definition nodeBlockCacheGet :: "file_system_manager \<Rightarrow> u32 \<Rightarrow> (nat option \<times> file_system_manager) option" where
  "nodeBlockCacheGet fs nid = do {
     (entry, m) \<leftarrow> genericCacheManagerGet (nbc_mgr (node_cache fs)) nid True;
     let fs = nb_set_mgr fs m;
     Some (entry, case entry of None \<Rightarrow> fs | Some a \<Rightarrow> nodeBlockCacheAddRefCount fs a)
   }"

definition nodeBlockCacheMarkDirty :: "file_system_manager \<Rightarrow> nat \<Rightarrow> file_system_manager option" where
  "nodeBlockCacheMarkDirty fs a =
     (if nbe_state (nb_entry fs a) \<noteq> NODE_BLOCK_CACHE_ENTRY_DIRTY then do {
        c_assert (nbe_state (nb_entry fs a) = NODE_BLOCK_CACHE_ENTRY_UPTODATE);
        let fs = nb_set fs a ((nb_entry fs a)\<lparr>nbe_state := NODE_BLOCK_CACHE_ENTRY_DIRTY\<rparr>);
        Some (fs\<lparr>node_cache := (node_cache fs)\<lparr>nbc_dirtyList := nbc_dirtyList (node_cache fs) @ [a],
                                              nbc_dirtyPos := insert a (nbc_dirtyPos (node_cache fs))\<rparr>\<rparr>)
      } else Some fs)"

text \<open>\<^verbatim>\<open>DL_DELETE\<close> of the list node of an entry together with its position.\<close>

definition nb_undirty :: "file_system_manager \<Rightarrow> nat \<Rightarrow> file_system_manager" where
  "nb_undirty fs a =
     fs\<lparr>node_cache := (node_cache fs)\<lparr>nbc_dirtyList := remove1 a (nbc_dirtyList (node_cache fs)),
                                     nbc_dirtyPos := nbc_dirtyPos (node_cache fs) - {a}\<rparr>\<rparr>"

definition nodeBlockCacheRemoveEntry :: "file_system_manager \<Rightarrow> nat \<Rightarrow> file_system_manager option" where
  "nodeBlockCacheRemoveEntry fs a = do {
     fs \<leftarrow> (if nbe_state (nb_entry fs a) = NODE_BLOCK_CACHE_ENTRY_DIRTY then do {
         c_assert (a \<in> nbc_dirtyPos (node_cache fs));
         Some (nb_undirty fs a)
       } else Some fs);
     Some (nb_set fs a ((nb_entry fs a)\<lparr>nbe_state := NODE_BLOCK_CACHE_ENTRY_DELETED\<rparr>))
   }"

fun nodeBlockCacheClearDirty :: "file_system_manager \<Rightarrow> nat list \<Rightarrow> file_system_manager option" where
  "nodeBlockCacheClearDirty fs [] = Some fs"
| "nodeBlockCacheClearDirty fs (a # as) = do {
     c_assert (nbe_state (nb_entry fs a) = NODE_BLOCK_CACHE_ENTRY_DIRTY \<and> nbe_refCount (nb_entry fs a) \<ge> 1);
     nodeBlockCacheClearDirty (nb_set fs a ((nb_entry fs a)\<lparr>nbe_state := NODE_BLOCK_CACHE_ENTRY_UPTODATE\<rparr>)) as
   }"

definition nodeBlockCacheGetAndClearDirtyList :: "file_system_manager \<Rightarrow> (nat list \<times> file_system_manager) option" where
  "nodeBlockCacheGetAndClearDirtyList fs = do {
     fs \<leftarrow> nodeBlockCacheClearDirty fs (nbc_dirtyList (node_cache fs));
     Some (nbc_dirtyList (node_cache fs), fs\<lparr>node_cache := (node_cache fs)\<lparr>nbc_dirtyList := []\<rparr>\<rparr>)
   }"

subsection \<open>Handles\<close>

definition nodeBlockCacheEntryHandleIsEmpty :: "nat option \<Rightarrow> bool" where
  "nodeBlockCacheEntryHandleIsEmpty h \<longleftrightarrow> h = None"

definition nodeBlockCacheEntryHandleDoAddRef :: "file_system_manager \<Rightarrow> nat option \<Rightarrow> file_system_manager" where
  "nodeBlockCacheEntryHandleDoAddRef fs h = (case h of None \<Rightarrow> fs | Some a \<Rightarrow> nodeBlockCacheAddRefCount fs a)"

definition nodeBlockCacheEntryHandleDoSubRef :: "file_system_manager \<Rightarrow> nat option \<Rightarrow> file_system_manager option" where
  "nodeBlockCacheEntryHandleDoSubRef fs h = (case h of None \<Rightarrow> Some fs | Some a \<Rightarrow> nodeBlockCacheSubRefCount fs a)"

definition nodeBlockCacheEntryHandleDestroy :: "file_system_manager \<Rightarrow> nat option \<Rightarrow> file_system_manager option" where
  "nodeBlockCacheEntryHandleDestroy fs h = (case h of None \<Rightarrow> Some fs | Some a \<Rightarrow> nodeBlockCacheSubRefCount fs a)"

definition nodeBlockCacheEntryHandleCopy :: "file_system_manager \<Rightarrow> nat option \<Rightarrow> nat option \<times> file_system_manager" where
  "nodeBlockCacheEntryHandleCopy fs h = (h, nodeBlockCacheEntryHandleDoAddRef fs h)"

definition nodeBlockCacheEntryHandleAddHostVersion :: "file_system_manager \<Rightarrow> nat \<Rightarrow> file_system_manager" where
  "nodeBlockCacheEntryHandleAddHostVersion fs a = nodeBlockCacheAddRefCount fs a"

definition nodeBlockCacheEntryHandleAddSsdVersion :: "file_system_manager \<Rightarrow> nat \<Rightarrow> file_system_manager option" where
  "nodeBlockCacheEntryHandleAddSsdVersion fs a = nodeBlockCacheSubRefCount fs a"

definition nodeBlockCacheEntryHandleMarkDirty :: "file_system_manager \<Rightarrow> nat \<Rightarrow> file_system_manager option" where
  "nodeBlockCacheEntryHandleMarkDirty fs a = nodeBlockCacheMarkDirty fs a"

definition nodeBlockCacheEntryHandleDeleteNode :: "file_system_manager \<Rightarrow> nat \<Rightarrow> file_system_manager option" where
  "nodeBlockCacheEntryHandleDeleteNode fs a = nodeBlockCacheRemoveEntry fs a"

subsection \<open>Copy-on-write relocation\<close>

record NodeBlockCacheCowRelocation =
  rel_nid :: u32
  rel_oldLpa :: u32
  rel_newLpa :: u32

text \<open>The dirty list is walked; the return code of the block write is dropped.\<close>

fun nodeBlockCacheWritebackLoop :: "file_system_manager \<Rightarrow> nat list \<Rightarrow> (rc \<times> file_system_manager) option" where
  "nodeBlockCacheWritebackLoop fs [] = Some (RC0, fs)"
| "nodeBlockCacheWritebackLoop fs (a # as) =
     (if nbe_state (nb_entry fs a) \<noteq> NODE_BLOCK_CACHE_ENTRY_DIRTY then nodeBlockCacheWritebackLoop fs as
      else do {
        (new_lpa, fs) \<leftarrow> superManagerAllocNodeLpa fs;
        if new_lpa = INVALID_LPA then Some (ENOSPC, fs)
        else
          let fs = fs\<lparr>fs_dev := snd (blockBufferWriteToLpaSync (nbe_node (nb_entry fs a)) (fs_dev fs) new_lpa)\<rparr>;
              fs = nb_set fs a ((nb_entry fs a)\<lparr>nbe_cowNewLpa := new_lpa, nbe_hasPendingCowRelocation := True\<rparr>)
          in nodeBlockCacheWritebackLoop fs as
      })"

definition nodeBlockCacheWritebackDirtyContentCow :: "file_system_manager \<Rightarrow> (rc \<times> file_system_manager) option" where
  "nodeBlockCacheWritebackDirtyContentCow fs = nodeBlockCacheWritebackLoop fs (nbc_dirtyList (node_cache fs))"

definition nb_pending :: "NodeBlockCacheEntry \<Rightarrow> bool" where
  "nb_pending e \<longleftrightarrow> nbe_hasPendingCowRelocation e \<and> nbe_cowNewLpa e \<noteq> INVALID_LPA"

text \<open>The two walks over the hash index: its order \<open>ks\<close> is an argument.\<close>

fun nodeBlockCacheCollectLoop ::
  "file_system_manager \<Rightarrow> u32 list \<Rightarrow> nat \<Rightarrow> NodeBlockCacheCowRelocation list \<Rightarrow> rc + NodeBlockCacheCowRelocation list" where
  "nodeBlockCacheCollectLoop fs [] max_count out = Inr out"
| "nodeBlockCacheCollectLoop fs (k # ks) max_count out =
     (case gcm_entries (nbc_mgr (node_cache fs)) k of
        None \<Rightarrow> nodeBlockCacheCollectLoop fs ks max_count out
      | Some a \<Rightarrow>
          if \<not> nb_pending (nb_entry fs a) then nodeBlockCacheCollectLoop fs ks max_count out
          else if length out \<ge> max_count then Inl ENOSPC
          else nodeBlockCacheCollectLoop fs ks max_count
             (out @ [\<lparr>rel_nid = nbe_nid (nb_entry fs a), rel_oldLpa = nbe_lpa (nb_entry fs a),
                      rel_newLpa = nbe_cowNewLpa (nb_entry fs a)\<rparr>]))"

definition nodeBlockCacheCollectPendingCowRelocations ::
  "file_system_manager \<Rightarrow> u32 list \<Rightarrow> nat \<Rightarrow> rc + NodeBlockCacheCowRelocation list" where
  "nodeBlockCacheCollectPendingCowRelocations fs ks max_count = nodeBlockCacheCollectLoop fs ks max_count []"

definition nodeBlockCacheApplyOne :: "block \<Rightarrow> file_system_manager \<Rightarrow> nat \<Rightarrow> file_system_manager option" where
  "nodeBlockCacheApplyOne junk fs a =
     (let e = nb_entry fs a in
      if \<not> nb_pending e then Some fs
      else do {
        fs \<leftarrow> natSetLpaOfNid fs (nbe_nid e) (nbe_cowNewLpa e);
        let fs = srmapUtilsWriteSrmapOfNode junk fs (nbe_cowNewLpa e) (nbe_nid e);
        let fs = nb_set fs a (e\<lparr>nbe_lpa := nbe_cowNewLpa e, nbe_cowNewLpa := INVALID_LPA, nbe_hasPendingCowRelocation := False\<rparr>);
        Some (if nbe_state e = NODE_BLOCK_CACHE_ENTRY_DIRTY then
            let fs = (if a \<in> nbc_dirtyPos (node_cache fs) then nb_undirty fs a else fs)
            in nb_set fs a ((nb_entry fs a)\<lparr>nbe_state := NODE_BLOCK_CACHE_ENTRY_UPTODATE\<rparr>)
          else fs)
      })"

fun nodeBlockCacheApplyLoop :: "block \<Rightarrow> file_system_manager \<Rightarrow> u32 list \<Rightarrow> file_system_manager option" where
  "nodeBlockCacheApplyLoop junk fs [] = Some fs"
| "nodeBlockCacheApplyLoop junk fs (k # ks) =
     (case gcm_entries (nbc_mgr (node_cache fs)) k of
        None \<Rightarrow> nodeBlockCacheApplyLoop junk fs ks
      | Some a \<Rightarrow> do { fs \<leftarrow> nodeBlockCacheApplyOne junk fs a; nodeBlockCacheApplyLoop junk fs ks })"

definition nodeBlockCacheApplyPendingCowRelocations ::
  "block \<Rightarrow> (u64 \<Rightarrow> bool) \<Rightarrow> file_system_manager \<Rightarrow> u32 list \<Rightarrow> u32 list \<Rightarrow> file_system_manager option" where
  "nodeBlockCacheApplyPendingCowRelocations junk accepts fs ks ds = do {
     fs \<leftarrow> nodeBlockCacheApplyLoop junk fs ks;
     srmapUtilsWriteDirtySrmapSync accepts fs ds
   }"

subsection \<open>Loading and creating nodes\<close>

abbreviation (input) NF_nid :: nat where "NF_nid \<equiv> 4080"
abbreviation (input) NF_ino :: nat where "NF_ino \<equiv> 4084"
abbreviation (input) NF_offset :: nat where "NF_offset \<equiv> 4088"

definition nodeBlockCacheHelperGetNodeEntry ::
  "block \<Rightarrow> block \<Rightarrow> file_system_manager \<Rightarrow> u32 \<Rightarrow> u32 \<Rightarrow> (rc \<times> nat option \<times> file_system_manager) option" where
  "nodeBlockCacheHelperGetNodeEntry junk junk' fs nid parentNid = do {
     (handle, fs) \<leftarrow> nodeBlockCacheGet fs nid;
     (r, handle, fs) \<leftarrow> (if nodeBlockCacheEntryHandleIsEmpty handle then do {
         (nidLpa, fs) \<leftarrow> natGetLpaOfNid fs nid;
         let (ret, buffer) = blockBufferReadFromLpa (fs_dev fs) (blockBufferInit junk) nidLpa;
         if ret \<noteq> RC0 then Some (ret, None, fs)
         else do { (a, fs) \<leftarrow> nodeBlockCacheAdd junk' fs buffer nid parentNid nidLpa; Some (RC0, Some a, fs) }
       } else Some (RC0, handle, fs));
     case handle of
       None \<Rightarrow> Some (r, None, fs)
     | Some a \<Rightarrow> do {
         let node = nbe_node (nb_entry fs a);
         c_assert (get32 node NF_nid = nid);
         c_assert (parentNid = INVALID_NID \<longrightarrow> get32 node NF_ino = nid);
         Some (RC0, Some a, fs)
       }
   }"

definition nb_set_footer :: "file_system_manager \<Rightarrow> nat \<Rightarrow> u32 \<Rightarrow> u32 \<Rightarrow> u32 \<Rightarrow> file_system_manager" where
  "nb_set_footer fs a ino nid noffset =
     nb_set fs a ((nb_entry fs a)\<lparr>nbe_node :=
       put32 (put32 (put32 (nbe_node (nb_entry fs a)) NF_ino ino) NF_nid nid) NF_offset noffset\<rparr>)"

definition nodeBlockCacheHelperCreateNodeEntry ::
  "block \<Rightarrow> block \<Rightarrow> file_system_manager \<Rightarrow> u32 \<Rightarrow> u32 \<Rightarrow> u32 \<Rightarrow> (nat option \<times> file_system_manager) option" where
  "nodeBlockCacheHelperCreateNodeEntry junk junk' fs ino noffset parentNid = do {
     (newNid, fs) \<leftarrow> superManagerAllocNid fs ino False;
     if newNid = INVALID_NID then Some (None, fs)
     else do {
       (a, fs) \<leftarrow> nodeBlockCacheAdd junk' fs (blockBufferInit junk) newNid parentNid INVALID_LPA;
       fs \<leftarrow> nodeBlockCacheEntryHandleMarkDirty (nb_set_footer fs a ino newNid noffset) a;
       Some (Some a, fs)
     }
   }"

definition nodeBlockCacheHelperCreateInodeEntry ::
  "block \<Rightarrow> block \<Rightarrow> file_system_manager \<Rightarrow> (nat option \<times> file_system_manager) option" where
  "nodeBlockCacheHelperCreateInodeEntry junk junk' fs = do {
     (newNid, fs) \<leftarrow> superManagerAllocNid fs INVALID_NID True;
     if newNid = INVALID_NID then Some (None, fs)
     else do {
       (a, fs) \<leftarrow> nodeBlockCacheAdd junk' fs (blockBufferInit junk) newNid INVALID_NID INVALID_LPA;
       fs \<leftarrow> nodeBlockCacheEntryHandleMarkDirty (nb_set_footer fs a newNid newNid 0) a;
       Some (Some a, fs)
     }
   }"

subsection \<open>The invariant\<close>

text \<open>
  Every cached child holds a reference on its cached parent. \<open>nb_kids c k\<close> are the cached children of
  the node \<open>k\<close>, \<open>nb_ext c k a\<close> the references on its entry \<open>a\<close> that are not its children's: those of
  handles. The index refers to live heap objects, keyed by their nid, and an entry is pinned exactly
  while its reference count is not zero (\<open>rc_ok\<close>).
\<close>

abbreviation nb_ents :: "NodeBlockCache \<Rightarrow> u32 \<Rightarrow> nat option" where
  "nb_ents c \<equiv> gcm_entries (nbc_mgr c)"

abbreviation nb_refs :: "NodeBlockCache \<Rightarrow> nat \<Rightarrow> u32" where
  "nb_refs c \<equiv> (\<lambda>a. nbe_refCount (nbc_heap c a))"

abbreviation nb_keys :: "NodeBlockCache \<Rightarrow> nat \<Rightarrow> u32" where
  "nb_keys c \<equiv> (\<lambda>a. nbe_nid (nbc_heap c a))"

abbreviation nb_par :: "NodeBlockCache \<Rightarrow> nat \<Rightarrow> u32" where
  "nb_par c \<equiv> (\<lambda>a. nbe_parentNid (nbc_heap c a))"

definition nb_kids :: "NodeBlockCache \<Rightarrow> u32 \<Rightarrow> u32 set" where
  "nb_kids c p = {k. \<exists>a. nb_ents c k = Some a \<and> nb_par c a = p}"

definition nb_ext :: "NodeBlockCache \<Rightarrow> u32 \<Rightarrow> nat \<Rightarrow> nat" where
  "nb_ext c k a = unat (nb_refs c a) - card (nb_kids c k)"

definition nbc_inv :: "NodeBlockCache \<Rightarrow> bool" where
  "nbc_inv c \<longleftrightarrow> rc_ok (nbc_mgr c) (nb_keys c) (nb_refs c) (nbc_next c) \<and>
     nbc_cur c = card (dom (nb_ents c)) \<and> nb_ents c INVALID_NID = None \<and>
     (\<forall>k a. nb_ents c k = Some a \<longrightarrow> card (nb_kids c k) \<le> unat (nb_refs c a) \<and>
        (nb_par c a \<noteq> INVALID_NID \<longrightarrow> nb_ents c (nb_par c a) \<noteq> None))"

definition nb_live :: "NodeBlockCache \<Rightarrow> bool" where
  "nb_live c \<longleftrightarrow> (\<forall>k a. nb_ents c k = Some a \<longrightarrow> nbe_state (nbc_heap c a) \<noteq> NODE_BLOCK_CACHE_ENTRY_DELETED)"

lemma nbc_invD:
  assumes "nbc_inv c"
  shows "rc_ok (nbc_mgr c) (nb_keys c) (nb_refs c) (nbc_next c)" "nbc_cur c = card (dom (nb_ents c))"
    "nb_ents c 0 = None" "nb_ents c k = Some a \<Longrightarrow> card (nb_kids c k) \<le> unat (nb_refs c a)"
    "nb_ents c k = Some a \<Longrightarrow> nb_par c a \<noteq> 0 \<Longrightarrow> nb_ents c (nb_par c a) \<noteq> None"
  using assms by (auto simp: nbc_inv_def)

lemma nb_finite: "nbc_inv c \<Longrightarrow> finite (dom (nb_ents c))"
  by (auto simp: nbc_inv_def intro: finite_gcm_dom rc_ok_gcm)

lemma nb_kids_finite: "nbc_inv c \<Longrightarrow> finite (nb_kids c k)"
  by (rule finite_subset [OF _ nb_finite]) (auto simp: nb_kids_def)

lemma nb_kids_cong:
  "nb_ents c' = nb_ents c \<Longrightarrow> (\<And>k a. nb_ents c k = Some a \<Longrightarrow> nb_par c' a = nb_par c a) \<Longrightarrow> nb_kids c' p = nb_kids c p"
  by (auto simp: nb_kids_def)

lemma nb_inj: "nbc_inv c \<Longrightarrow> nb_ents c k = Some a \<Longrightarrow> nb_ents c j = Some a \<Longrightarrow> j = k"
  using rc_ok_inj nbc_invD(1) by blast

text \<open>Only reference counts and the manager change: what is left to check of the invariant.\<close>

lemma nbc_inv_refs:
  assumes "nbc_inv c" and "nbc_heap c' = (nbc_heap c)(a := (nbc_heap c a)\<lparr>nbe_refCount := r\<rparr>)"
    and "nb_ents c' = nb_ents c" and "nbc_next c' = nbc_next c" and "nbc_cur c' = nbc_cur c"
    and "rc_ok (nbc_mgr c') (nb_keys c) ((nb_refs c)(a := r)) (nbc_next c)"
    and "\<forall>k. nb_ents c k = Some a \<longrightarrow> card (nb_kids c k) \<le> unat r"
  shows "nbc_inv c'" and "nb_kids c' = nb_kids c"
proof -
  have f: "nb_keys c' = nb_keys c" "nb_refs c' = (nb_refs c)(a := r)" "nb_par c' = nb_par c"
    by (auto simp: assms(2))
  show kids: "nb_kids c' = nb_kids c"
    using fun_cong [OF f(3)] assms(3) by (simp add: nb_kids_def fun_eq_iff)
  have "rc_ok (nbc_mgr c') (nb_keys c') (nb_refs c') (nbc_next c')"
    unfolding f assms(4) by (rule assms(6))
  moreover have "card (nb_kids c k) \<le> unat (nb_refs c' b)" if "nb_ents c k = Some b" for k b
    using that assms(7) nbc_invD(4) [OF assms(1) that] by (simp add: assms(2))
  moreover have "nb_ents c (nb_par c' b) \<noteq> None" if "nb_ents c k = Some b" "nb_par c' b \<noteq> INVALID_NID" for k b
    using that nbc_invD(5) [OF assms(1) that(1)] fun_cong [OF f(3), of b] by simp
  ultimately show "nbc_inv c'"
    using nbc_invD(2,3) [OF assms(1)] unfolding nbc_inv_def kids assms(3,5) by blast
qed

subsection \<open>Taking and dropping references\<close>

lemma nb_set_simps [simp]:
  "node_cache (nb_set fs a e) = (node_cache fs)\<lparr>nbc_heap := (nb_entry fs)(a := e)\<rparr>"
  "node_cache (nb_set_mgr fs m) = (node_cache fs)\<lparr>nbc_mgr := m\<rparr>"
  by (simp_all add: nb_set_def nb_set_mgr_def)

lemma nb_add_ref:
  assumes "nbc_inv c" and "c = node_cache fs" and "nb_ents c k = Some a" and "nb_refs c a \<noteq> -1"
  obtains c' where "nodeBlockCacheAddRefCount fs a = fs\<lparr>node_cache := c'\<rparr>" "nbc_inv c'" "nb_kids c' = nb_kids c"
    "c' = c\<lparr>nbc_mgr := nbc_mgr c', nbc_heap := (nbc_heap c)(a := (nbc_heap c a)\<lparr>nbe_refCount := nb_refs c a + 1\<rparr>)\<rparr>"
    "nb_ents c' = nb_ents c"
proof -
  let ?r = "nb_refs c a + 1" and ?c' = "node_cache (nodeBlockCacheAddRefCount fs a)"
  note rc = nbc_invD(1) [OF assms(1)]
  have key: "nbe_nid (nbc_heap c a) = k"
    using rc_okD(2) [OF rc assms(3)] .
  have nz: "?r \<noteq> 0"
    using assms(4) by (simp add: add_eq_0_iff2)
  have fs: "nodeBlockCacheAddRefCount fs a = fs\<lparr>node_cache := ?c'\<rparr>"
    and c': "?c' = c\<lparr>nbc_mgr := nbc_mgr ?c', nbc_heap := (nbc_heap c)(a := (nbc_heap c a)\<lparr>nbe_refCount := ?r\<rparr>)\<rparr>"
    by (simp_all add: nodeBlockCacheAddRefCount_def Let_def assms(2) nb_set_def nb_set_mgr_def)
  have m: "nbc_mgr ?c' = (if ?r = 1 then genericCacheManagerPin (nbc_mgr c) k else nbc_mgr c)"
    using key by (simp add: nodeBlockCacheAddRefCount_def Let_def assms(2))
  have ok: "rc_ok (nbc_mgr ?c') (nb_keys c) ((nb_refs c)(a := ?r)) (nbc_next c)" and ents: "nb_ents ?c' = nb_ents c"
  proof -
    show "rc_ok (nbc_mgr ?c') (nb_keys c) ((nb_refs c)(a := ?r)) (nbc_next c)"
      using rc_ok_pin(1) [OF rc assms(3) nz] rc_ok_count [OF rc _ nz, of a] unfolding m by (cases "nb_refs c a = 0") auto
    show "nb_ents ?c' = nb_ents c"
      using rc_ok_pin(2) [OF rc assms(3) nz] unfolding m by simp
  qed
  have le: "unat (nb_refs c a) \<le> unat ?r"
    using unat_add1_u32 [OF assms(4)] by simp
  have kids: "\<forall>k. nb_ents c k = Some a \<longrightarrow> card (nb_kids c k) \<le> unat ?r"
    using nbc_invD(4) [OF assms(1)] le by (auto intro: order_trans)
  have flds: "nbc_heap ?c' = (nbc_heap c)(a := (nbc_heap c a)\<lparr>nbe_refCount := ?r\<rparr>)" "nbc_next ?c' = nbc_next c"
    "nbc_cur ?c' = nbc_cur c"
    by (subst c', simp)+
  show ?thesis
    using that [OF fs _ _ c' ents] nbc_inv_refs [OF assms(1) flds(1) ents flds(2,3) ok kids] by blast
qed

lemma nb_sub_ref:
  assumes "nbc_inv c" and "c = node_cache fs" and "nb_ents c k = Some a" and "0 < nb_ext c k a"
    and "nb_refs c a = 1 \<longrightarrow> nbe_state (nbc_heap c a) \<noteq> NODE_BLOCK_CACHE_ENTRY_DELETED"
  obtains c' where "nodeBlockCacheSubRefCount fs a = Some (fs\<lparr>node_cache := c'\<rparr>)" "nbc_inv c'" "nb_kids c' = nb_kids c"
    "c' = c\<lparr>nbc_mgr := nbc_mgr c', nbc_heap := (nbc_heap c)(a := (nbc_heap c a)\<lparr>nbe_refCount := nb_refs c a - 1\<rparr>)\<rparr>"
    "nb_ents c' = nb_ents c"
    "gcm_free (nbc_mgr c') = (if nb_refs c a = 1 then gcm_free (nbc_mgr c) @ [k] else gcm_free (nbc_mgr c))"
proof -
  let ?r = "nb_refs c a - 1"
  note rc = nbc_invD(1) [OF assms(1)]
  have key: "nbe_nid (nbc_heap c a) = k"
    using rc_okD(2) [OF rc assms(3)] .
  have nz: "nb_refs c a \<noteq> 0"
    using assms(4) by (auto simp: nb_ext_def)
  let ?m = "if ?r = 0 then genericCacheManagerUnpin (nbc_mgr c) k else nbc_mgr c"
  define c' where "c' = c\<lparr>nbc_mgr := ?m, nbc_heap := (nbc_heap c)(a := (nbc_heap c a)\<lparr>nbe_refCount := ?r\<rparr>)\<rparr>"
  have fs: "nodeBlockCacheSubRefCount fs a = Some (fs\<lparr>node_cache := c'\<rparr>)"
    using assms(5) key
    by (subst nodeBlockCacheSubRefCount.simps) (simp add: Let_def assms(2) c'_def nb_set_def nb_set_mgr_def)
  have m: "nbc_mgr c' = ?m" and flds: "nbc_heap c' = (nbc_heap c)(a := (nbc_heap c a)\<lparr>nbe_refCount := ?r\<rparr>)"
    "nbc_next c' = nbc_next c" "nbc_cur c' = nbc_cur c"
    by (simp_all add: c'_def)
  have c': "c' = c\<lparr>nbc_mgr := nbc_mgr c', nbc_heap := (nbc_heap c)(a := (nbc_heap c a)\<lparr>nbe_refCount := ?r\<rparr>)\<rparr>"
    by (simp add: c'_def)
  note un = rc_ok_unpin [OF rc assms(3) nz]
  have ok: "rc_ok (nbc_mgr c') (nb_keys c) ((nb_refs c)(a := ?r)) (nbc_next c)" and ents: "nb_ents c' = nb_ents c"
    using un(1,2) rc_ok_count [OF rc nz, of ?r] unfolding m by auto
  have free: "gcm_free (nbc_mgr c') = (if nb_refs c a = 1 then gcm_free (nbc_mgr c) @ [k] else gcm_free (nbc_mgr c))"
    using un(3) unfolding m by auto
  have "unat ?r = unat (nb_refs c a) - 1"
    using nz by (rule unat_minus_one)
  then have kids: "\<forall>j. nb_ents c j = Some a \<longrightarrow> card (nb_kids c j) \<le> unat ?r"
    using assms(4) nb_inj [OF assms(1,3)] by (auto simp: nb_ext_def)
  show ?thesis
    using that [OF fs _ _ c' ents free] nbc_inv_refs [OF assms(1) flds(1) ents flds(2,3) ok kids] by blast
qed

subsection \<open>Replacement\<close>

text \<open>
  \<open>nb_shrunk c c'\<close>: some entries without handles were dropped. What is left is unchanged but for the
  references of evicted children, so the references held by handles are the same; an entry some handle
  refers to is never dropped.
\<close>

definition nb_shrunk :: "NodeBlockCache \<Rightarrow> NodeBlockCache \<Rightarrow> bool" where
  "nb_shrunk c c' \<longleftrightarrow> nbc_inv c' \<and> nb_ents c' \<subseteq>\<^sub>m nb_ents c \<and> nbc_next c' = nbc_next c \<and> nbc_expect c' = nbc_expect c \<and>
     nbc_dirtyList c' = nbc_dirtyList c \<and> nbc_dirtyPos c' = nbc_dirtyPos c \<and>
     (\<forall>a. nbc_heap c' a = (nbc_heap c a)\<lparr>nbe_refCount := nb_refs c' a\<rparr>) \<and>
     (\<forall>k a. nb_ents c k = Some a \<longrightarrow> 0 < nb_ext c k a \<longrightarrow> nb_ents c' k = Some a) \<and>
     (\<forall>k a. nb_ents c' k = Some a \<longrightarrow> nb_ext c' k a = nb_ext c k a)"

lemma nb_shrunk_refl: "nbc_inv c \<Longrightarrow> nb_shrunk c c"
  by (simp add: nb_shrunk_def)

lemma map_le_Some: "f \<subseteq>\<^sub>m g \<Longrightarrow> f k = Some a \<Longrightarrow> g k = Some a"
  unfolding map_le_def by (metis domI)

lemma nb_shrunkD:
  assumes "nb_shrunk c c'"
  shows "nbc_inv c'" "nb_ents c' k = Some a \<Longrightarrow> nb_ents c k = Some a"
    "nb_ents c k = Some a \<Longrightarrow> 0 < nb_ext c k a \<Longrightarrow> nb_ents c' k = Some a"
    "nb_ents c' k = Some a \<Longrightarrow> nb_ext c' k a = nb_ext c k a"
    "nbc_heap c' a = (nbc_heap c a)\<lparr>nbe_refCount := nb_refs c' a\<rparr>"
    "nbc_next c' = nbc_next c" "nbc_expect c' = nbc_expect c" "nbc_dirtyList c' = nbc_dirtyList c"
    "nbc_dirtyPos c' = nbc_dirtyPos c"
proof -
  note d = assms [unfolded nb_shrunk_def]
  show "nbc_inv c'" using d by (elim conjE)
  show "nb_ents c' k = Some a \<Longrightarrow> nb_ents c k = Some a" using d by (elim conjE) (rule map_le_Some)
  have "\<forall>k a. nb_ents c k = Some a \<longrightarrow> 0 < nb_ext c k a \<longrightarrow> nb_ents c' k = Some a" using d by (elim conjE)
  then show "nb_ents c k = Some a \<Longrightarrow> 0 < nb_ext c k a \<Longrightarrow> nb_ents c' k = Some a" by blast
  have "\<forall>k a. nb_ents c' k = Some a \<longrightarrow> nb_ext c' k a = nb_ext c k a" using d by (elim conjE)
  then show "nb_ents c' k = Some a \<Longrightarrow> nb_ext c' k a = nb_ext c k a" by blast
  show "nbc_heap c' a = (nbc_heap c a)\<lparr>nbe_refCount := nb_refs c' a\<rparr>" using d by (elim conjE) (rule spec)
  show "nbc_next c' = nbc_next c" using d by (elim conjE)
  show "nbc_expect c' = nbc_expect c" using d by (elim conjE)
  show "nbc_dirtyList c' = nbc_dirtyList c" using d by (elim conjE)
  show "nbc_dirtyPos c' = nbc_dirtyPos c" using d by (elim conjE)
qed

lemma nb_shrunk_entry:
  assumes "nb_shrunk c c'"
  shows "nbe_state (nbc_heap c' a) = nbe_state (nbc_heap c a)" "nbe_node (nbc_heap c' a) = nbe_node (nbc_heap c a)"
    "nbe_lpa (nbc_heap c' a) = nbe_lpa (nbc_heap c a)" "nbe_nid (nbc_heap c' a) = nbe_nid (nbc_heap c a)"
    "nbe_parentNid (nbc_heap c' a) = nbe_parentNid (nbc_heap c a)"
  by (subst nb_shrunkD(5) [OF assms], simp)+

lemma nb_shrunk_trans:
  assumes "nb_shrunk a b" and "nb_shrunk b c"
  shows "nb_shrunk a c"
proof -
  note ab = nb_shrunkD [OF assms(1)] and bc = nb_shrunkD [OF assms(2)]
  have "nbc_heap c x = (nbc_heap a x)\<lparr>nbe_refCount := nb_refs c x\<rparr>" for x
    using ab(5) [of x] bc(5) [of x] by (metis NodeBlockCacheEntry.update_convs(6) NodeBlockCacheEntry.surjective)
  moreover have "nb_ents c k = Some x" if "nb_ents a k = Some x" "0 < nb_ext a k x" for k x
    using ab(3,4) bc(3) that by metis
  moreover have "nb_ents c \<subseteq>\<^sub>m nb_ents a"
    using assms map_le_trans unfolding nb_shrunk_def by blast
  moreover have "nb_ext c k x = nb_ext a k x" if "nb_ents c k = Some x" for k x
    using bc(4) [OF that] ab(4) [OF bc(2) [OF that]] by (rule trans)
  ultimately show ?thesis
    unfolding nb_shrunk_def using ab(6-9) bc(1,6-9) by (intro conjI allI impI) (assumption | rule trans)+
qed

lemma nb_shrunk_live: "nb_shrunk c c' \<Longrightarrow> nb_live c \<Longrightarrow> nb_live c'"
  unfolding nb_live_def using nb_shrunkD(2) nb_shrunk_entry(1) by metis

text \<open>Dropping an unreferenced entry: its parent is left with one reference too many.\<close>

lemma nb_drop:
  assumes "nbc_inv c" and "nb_ents c k = Some a" and "nb_refs c a = 0"
    and "rc_ok m (nb_keys c) (nb_refs c) (nbc_next c)" and "gcm_entries m = (nb_ents c)(k := None)"
  defines "c1 \<equiv> c\<lparr>nbc_mgr := m, nbc_cur := nbc_cur c - 1\<rparr>"
  shows "nbc_inv c1" and "nb_kids c1 p = nb_kids c p - {k}"
    and "nb_ents c p = Some b \<Longrightarrow> p \<noteq> k \<Longrightarrow> nb_ext c1 p b = nb_ext c p b + (if nb_par c a = p then 1 else 0)"
proof -
  have kids: "nb_kids c1 p = nb_kids c p - {k}" for p
    using assms(5) by (auto simp: nb_kids_def c1_def)
  then show "nb_kids c1 p = nb_kids c p - {k}" .
  have none: "nb_kids c k = {}"
    using nbc_invD(4) [OF assms(1,2)] assms(3) nb_kids_finite [OF assms(1)] by simp
  have cur: "nbc_cur c - 1 = card (dom ((nb_ents c)(k := None)))"
    using card_dom_del [OF nb_finite [OF assms(1)] assms(2)] nbc_invD(2) [OF assms(1)] by simp
  have le: "card (nb_kids c1 j) \<le> card (nb_kids c j)" for j
    unfolding kids by (rule card_mono [OF nb_kids_finite [OF assms(1)]]) auto
  have "nb_ents c1 = (nb_ents c)(k := None)" "nbc_heap c1 = nbc_heap c" "nbc_next c1 = nbc_next c"
    "nbc_mgr c1 = m" "nbc_cur c1 = nbc_cur c - 1"
    by (simp_all add: c1_def assms(5))
  note f = this
  have "card (nb_kids c1 j) \<le> unat (nb_refs c b) \<and> (nb_par c b \<noteq> INVALID_NID \<longrightarrow> nb_ents c1 (nb_par c b) \<noteq> None)"
    if "nb_ents c1 j = Some b" for j b
  proof
    have j: "nb_ents c j = Some b" "j \<noteq> k"
      using that f(1) by (auto split: if_splits)
    show "card (nb_kids c1 j) \<le> unat (nb_refs c b)"
      using le [of j] nbc_invD(4) [OF assms(1) j(1)] by simp
    have "nb_par c b \<noteq> k"
      using none j(1) by (auto simp: nb_kids_def)
    then show "nb_par c b \<noteq> INVALID_NID \<longrightarrow> nb_ents c1 (nb_par c b) \<noteq> None"
      using nbc_invD(5) [OF assms(1) j(1)] f(1) by simp
  qed
  then show "nbc_inv c1"
    using assms(4,5) cur nbc_invD(3) [OF assms(1)] unfolding nbc_inv_def f(2-5) by simp
  show "nb_ext c1 p b = nb_ext c p b + (if nb_par c a = p then 1 else 0)" if "nb_ents c p = Some b" "p \<noteq> k"
  proof (cases "nb_par c a = p")
    case True
    then have "k \<in> nb_kids c p"
      using assms(2) by (auto simp: nb_kids_def)
    then have "card (nb_kids c1 p) + 1 = card (nb_kids c p)"
      unfolding kids using nb_kids_finite [OF assms(1)] by (metis card_Suc_Diff1 Suc_eq_plus1)
    with True show ?thesis
      using nbc_invD(4) [OF assms(1) that(1)] f(2) by (simp add: nb_ext_def)
  next
    case False
    then have "nb_kids c1 p = nb_kids c p"
      unfolding kids using assms(2) by (auto simp: nb_kids_def)
    with False show ?thesis
      using f(2) by (simp add: nb_ext_def)
  qed
qed

lemma nbc_upd_swap: "c\<lparr>nbc_cur := x, nbc_mgr := m\<rparr> = c\<lparr>nbc_mgr := m, nbc_cur := x\<rparr>"
  by (cases c) simp

lemma nb_round:
  assumes "nbc_inv c" and "nb_live c" and "c = node_cache fs"
  obtains v c' where "nodeBlockCacheReplaceRound fs = Some (v, fs\<lparr>node_cache := c'\<rparr>)" "nb_shrunk c c'"
    "v = None \<longrightarrow> gcm_free (nbc_mgr c') = []" "v \<noteq> None \<longrightarrow> Suc (nbc_cur c') = nbc_cur c"
proof (cases "gcm_free (nbc_mgr c)")
  case Nil
  then have "genericCacheManagerReplaceOne (nbc_mgr c) = Some (None, nbc_mgr c)"
    using gm.m_replace_none rc_ok_gcm nbc_invD(1) [OF assms(1)] by blast
  then have "nodeBlockCacheReplaceRound fs = Some (None, fs\<lparr>node_cache := c\<rparr>)"
    by (simp add: nodeBlockCacheReplaceRound_def assms(3) nb_set_mgr_def)
  with that Nil nb_shrunk_refl [OF assms(1)] show ?thesis by blast
next
  case (Cons k ks)
  note rc = nbc_invD(1) [OF assms(1)]
  obtain m a where m: "genericCacheManagerReplaceOne (nbc_mgr c) = Some (Some a, m)"
      "rc_ok m (nb_keys c) (nb_refs c) (nbc_next c)" "nb_ents c k = Some a" "nb_refs c a = 0"
      "gcm_entries m = (nb_ents c)(k := None)"
    using rc_ok_replace [OF rc Cons] by metis
  define c1 where "c1 = c\<lparr>nbc_mgr := m, nbc_cur := nbc_cur c - 1\<rparr>"
  note drop = nb_drop [OF assms(1) m(3,4,2,5), folded c1_def]
  have f: "nbc_heap c1 = nbc_heap c" "nb_ents c1 = (nb_ents c)(k := None)" "nbc_mgr c1 = m" "nbc_next c1 = nbc_next c"
    "nbc_expect c1 = nbc_expect c" "nbc_dirtyList c1 = nbc_dirtyList c" "nbc_dirtyPos c1 = nbc_dirtyPos c"
    by (simp_all add: c1_def m(5))
  have "0 < nbc_cur c"
    using nbc_invD(2) [OF assms(1)] card_gt_0_iff nb_finite [OF assms(1)] m(3) by (metis domI empty_iff)
  then have cur: "Suc (nbc_cur c1) = nbc_cur c"
    by (simp add: c1_def)
  have ek: "nb_ext c k a = 0"
    using m(4) by (simp add: nb_ext_def)
  have le: "nb_ents c1 \<subseteq>\<^sub>m nb_ents c"
    by (simp add: f(2) map_le_def)
  show ?thesis
  proof (cases "nb_par c a = 0")
    case True
    have "nb_ext c1 j b = nb_ext c j b" if "nb_ents c1 j = Some b" for j b
      using drop(3) [of j b] that True nbc_invD(3) [OF assms(1)] by (auto simp: f(2) split: if_splits)
    moreover have "nb_ents c1 j = Some b" if "nb_ents c j = Some b" "0 < nb_ext c j b" for j b
      using that ek m(3) by (auto simp: f(2))
    ultimately have "nb_shrunk c c1"
      using drop(1) le unfolding nb_shrunk_def f by simp
    moreover have "nodeBlockCacheReplaceRound fs = Some (Some a, fs\<lparr>node_cache := c1\<rparr>)"
      using m(1,4) True by (simp add: nodeBlockCacheReplaceRound_def assms(3) [symmetric] c1_def)
    ultimately show ?thesis
      using that cur by blast
  next
    case False
    let ?p = "nb_par c a"
    have pk: "?p \<noteq> k"
    proof
      assume "?p = k"
      then have "k \<in> nb_kids c k" using m(3) by (auto simp: nb_kids_def)
      then show False using nbc_invD(4) [OF assms(1) m(3)] m(4) nb_kids_finite [OF assms(1)] by simp
    qed
    obtain b where b: "nb_ents c ?p = Some b"
      using nbc_invD(5) [OF assms(1) m(3) False] by auto
    then have b1: "nb_ents c1 ?p = Some b"
      using pk by (simp add: f(2))
    obtain m2 where m2: "genericCacheManagerGet m ?p False = Some (Some b, m2)" "m2 = m"
      using b1 f(2,3) by (simp add: genericCacheManagerGet_def gcm_entries_def cacheIndexManagerGet_def Let_def)
    let ?fs1 = "fs\<lparr>node_cache := c1\<rparr>"
    have c1': "c1 = node_cache ?fs1"
      by simp
    have pos: "0 < nb_ext c1 ?p b"
      using drop(3) [OF b pk] by simp
    have st: "nb_refs c1 b = 1 \<longrightarrow> nbe_state (nbc_heap c1 b) \<noteq> NODE_BLOCK_CACHE_ENTRY_DELETED"
      using assms(2) b by (simp add: nb_live_def f(1))
    obtain c' where c': "nodeBlockCacheSubRefCount ?fs1 b = Some (?fs1\<lparr>node_cache := c'\<rparr>)" "nbc_inv c'"
      "nb_kids c' = nb_kids c1" "nb_ents c' = nb_ents c1"
      "c' = c1\<lparr>nbc_mgr := nbc_mgr c', nbc_heap := (nbc_heap c1)(b := (nbc_heap c1 b)\<lparr>nbe_refCount := nb_refs c1 b - 1\<rparr>)\<rparr>"
      by (rule nb_sub_ref [OF drop(1) c1' b1 pos st])
    have h: "nbc_heap c' = (nbc_heap c)(b := (nbc_heap c b)\<lparr>nbe_refCount := nb_refs c b - 1\<rparr>)"
      "nbc_next c' = nbc_next c" "nbc_expect c' = nbc_expect c" "nbc_dirtyList c' = nbc_dirtyList c"
      "nbc_dirtyPos c' = nbc_dirtyPos c" "nbc_cur c' = nbc_cur c1"
      by (subst c'(5), simp add: f)+
    have nz: "nb_refs c b \<noteq> 0"
      using pos by (auto simp: nb_ext_def f(1))
    have "nb_ext c' j x = nb_ext c j x" if "nb_ents c' j = Some x" for j x
    proof -
      have j: "nb_ents c j = Some x" "j \<noteq> k"
        using that by (auto simp: c'(4) f(2) split: if_splits)
      have "nb_ext c' j x = (if j = ?p then nb_ext c1 j x - 1 else nb_ext c1 j x)"
      proof (cases "j = ?p")
        case True
        then have "x = b" using j(1) b by simp
        with True show ?thesis
          using unat_minus_one [OF nz] by (simp add: nb_ext_def c'(3) h(1) f(1))
      next
        case False
        then have "x \<noteq> b" using nb_inj [OF assms(1) b] j(1) by blast
        with False show ?thesis by (simp add: nb_ext_def c'(3) h(1) f(1))
      qed
      then show ?thesis
        using drop(3) [OF j] by auto
    qed
    moreover have "nb_ents c' j = Some x" if "nb_ents c j = Some x" "0 < nb_ext c j x" for j x
      using that ek m(3) by (auto simp: c'(4) f(2))
    moreover have "\<forall>x. nbc_heap c' x = (nbc_heap c x)\<lparr>nbe_refCount := nb_refs c' x\<rparr>"
      by (simp add: h(1))
    ultimately have "nb_shrunk c c'"
      using c'(2) le unfolding nb_shrunk_def h(2-5) c'(4) by blast
    moreover have "nodeBlockCacheReplaceRound fs = Some (Some a, fs\<lparr>node_cache := c'\<rparr>)"
      using m(1,4) False m2 c'(1)
      by (simp add: nodeBlockCacheReplaceRound_def assms(3) [symmetric] nb_set_mgr_def c1_def nbc_upd_swap)
    ultimately show ?thesis
      using that cur h(6) by auto
  qed
qed

text \<open>The loop always ends, because every round but the last one drops an entry.\<close>

lemma nb_replace_loop:
  assumes "nbc_inv c" and "nb_live c" and "c = node_cache fs"
  shows "\<exists>c'. nodeBlockCacheReplaceLoop fs = Some (fs\<lparr>node_cache := c'\<rparr>) \<and> nb_shrunk c c' \<and>
    (nbc_cur c' \<le> nbc_expect c' \<or> gcm_free (nbc_mgr c') = [])"
  using assms
proof (induction "nbc_cur c" arbitrary: c fs rule: less_induct)
  case less
  obtain v c1 where r: "nodeBlockCacheReplaceRound fs = Some (v, fs\<lparr>node_cache := c1\<rparr>)" "nb_shrunk c c1"
    "v = None \<longrightarrow> gcm_free (nbc_mgr c1) = []" "v \<noteq> None \<longrightarrow> Suc (nbc_cur c1) = nbc_cur c"
    by (rule nb_round [OF less.prems])
  show ?case
  proof (cases "v = None \<or> nbc_cur c1 \<le> nbc_expect c1")
    case True
    then have "nodeBlockCacheReplaceLoop fs = Some (fs\<lparr>node_cache := c1\<rparr>)"
      by (subst nodeBlockCacheReplaceLoop.simps) (simp add: r(1))
    with True r show ?thesis by blast
  next
    case False
    let ?fs1 = "fs\<lparr>node_cache := c1\<rparr>"
    have "nodeBlockCacheReplaceLoop fs = nodeBlockCacheReplaceLoop ?fs1"
      using False by (subst nodeBlockCacheReplaceLoop.simps) (auto simp: r(1))
    moreover have "nbc_inv c1" "nb_live c1" "nbc_cur c1 < nbc_cur c"
      using r False nb_shrunk_live less.prems(2) by (auto simp: nb_shrunk_def)
    then have "\<exists>c'. nodeBlockCacheReplaceLoop ?fs1 = Some (?fs1\<lparr>node_cache := c'\<rparr>) \<and> nb_shrunk c1 c' \<and>
      (nbc_cur c' \<le> nbc_expect c' \<or> gcm_free (nbc_mgr c') = [])"
      by (intro less.hyps) simp_all
    ultimately show ?thesis
      using nb_shrunk_trans [OF r(2)] by auto
  qed
qed

lemma nb_do_replace:
  assumes "nbc_inv c" and "nb_live c" and "c = node_cache fs"
  shows "\<exists>c'. nodeBlockCacheDoReplace fs = Some (fs\<lparr>node_cache := c'\<rparr>) \<and> nb_shrunk c c' \<and>
    (nbc_cur c' \<le> nbc_expect c' \<or> gcm_free (nbc_mgr c') = [])"
proof (cases "nbc_cur c > nbc_expect c")
  case True
  then show ?thesis
    using nb_replace_loop [OF assms] assms(3) by (simp add: nodeBlockCacheDoReplace_def)
next
  case False
  then show ?thesis
    using nb_shrunk_refl [OF assms(1)] assms(3) by (auto simp: nodeBlockCacheDoReplace_def intro!: exI [of _ c])
qed

subsection \<open>Insertion and lookup\<close>

lemma nb_mgr_get: "genericCacheManagerGet m k False = Some (gcm_entries m k, m)"
  by (simp add: genericCacheManagerGet_def gcm_entries_def cacheIndexManagerGet_def Let_def)

text \<open>A new heap object nobody refers to yet.\<close>

lemma nb_alloc:
  fixes c :: NodeBlockCache and e :: NodeBlockCacheEntry
  assumes "nbc_inv c"
  defines "c1 \<equiv> c\<lparr>nbc_heap := (nbc_heap c)(nbc_next c := e), nbc_next := nbc_next c + 1\<rparr>"
  shows "nbc_inv c1" and "nb_kids c1 = nb_kids c" and "nb_ents c k = Some b \<Longrightarrow> b < nbc_next c \<and> nb_ext c1 k b = nb_ext c k b"
proof -
  note rc = nbc_invD(1) [OF assms(1)]
  have lt: "b < nbc_next c" if "nb_ents c k = Some b" for k b
    using rc_okD(1) [OF rc that] .
  have f: "nb_ents c1 = nb_ents c" "nbc_cur c1 = nbc_cur c" "nbc_mgr c1 = nbc_mgr c"
    "\<And>b. b < nbc_next c \<Longrightarrow> nbc_heap c1 b = nbc_heap c b"
    by (simp_all add: c1_def)
  show kids: "nb_kids c1 = nb_kids c"
    using f lt by (auto simp: nb_kids_def fun_eq_iff)
  have "rc_ok (nbc_mgr c1) (nb_keys c1) (nb_refs c1) (nbc_next c1)"
  proof (rule rc_okI)
    show "gcm_inv (nbc_mgr c1)"
      using rc_ok_gcm [OF rc] f(3) by simp
    show "b < nbc_next c1 \<and> nb_keys c1 b = k \<and> (k \<in> set (gcm_free (nbc_mgr c1)) \<longleftrightarrow> nb_refs c1 b = 0)"
      if "nb_ents c1 k = Some b" for k b
      using rc_okD [OF rc, of k b] that f by (simp add: c1_def)
  qed
  moreover have "card (nb_kids c k) \<le> unat (nb_refs c1 b) \<and> (nb_par c1 b \<noteq> INVALID_NID \<longrightarrow> nb_ents c (nb_par c1 b) \<noteq> None)"
    if "nb_ents c k = Some b" for k b
    using nbc_invD(4,5) [OF assms(1) that] f(4) [OF lt [OF that]] by simp
  ultimately show "nbc_inv c1"
    using nbc_invD(2,3) [OF assms(1)] unfolding nbc_inv_def kids f(1,2) by blast
  show "b < nbc_next c \<and> nb_ext c1 k b = nb_ext c k b" if "nb_ents c k = Some b"
    using lt [OF that] f(4) by (simp add: nb_ext_def kids)
qed

text \<open>Putting the object into the index, once the parent's reference has been taken.\<close>

lemma nb_index:
  assumes "nbc_inv c" and "nb_ents c nid = None" and "nid \<noteq> INVALID_NID" and "a < nbc_next c" and "nb_keys c a = nid"
    and "nb_refs c a = 0" and "\<forall>k. nb_ents c k \<noteq> Some a" and "nb_par c a \<noteq> nid"
    and "nb_par c a \<noteq> INVALID_NID \<longrightarrow> (\<exists>p. nb_ents c (nb_par c a) = Some p \<and> 0 < nb_ext c (nb_par c a) p)"
  obtains m where "genericCacheManagerAdd (nbc_mgr c) nid a = Some m" "gcm_entries m = (nb_ents c)(nid \<mapsto> a)"
    "nbc_inv (c\<lparr>nbc_mgr := m, nbc_cur := nbc_cur c + 1\<rparr>)"
    "\<forall>k b. nb_ents c k = Some b \<longrightarrow> nb_ext (c\<lparr>nbc_mgr := m, nbc_cur := nbc_cur c + 1\<rparr>) k b =
       nb_ext c k b - (if k = nb_par c a then 1 else 0)"
    "nb_kids (c\<lparr>nbc_mgr := m, nbc_cur := nbc_cur c + 1\<rparr>) nid = {}"
proof -
  note rc = nbc_invD(1) [OF assms(1)]
  obtain m where m: "genericCacheManagerAdd (nbc_mgr c) nid a = Some m" "rc_ok m (nb_keys c) (nb_refs c) (nbc_next c)"
    "gcm_entries m = (nb_ents c)(nid \<mapsto> a)"
    using rc_ok_add_at [OF rc assms(2,4,5,6)] by blast
  define c1 where "c1 = c\<lparr>nbc_mgr := m, nbc_cur := nbc_cur c + 1\<rparr>"
  have f: "nb_ents c1 = (nb_ents c)(nid \<mapsto> a)" "nbc_heap c1 = nbc_heap c" "nbc_next c1 = nbc_next c" "nbc_mgr c1 = m"
    "nbc_cur c1 = nbc_cur c + 1"
    by (simp_all add: c1_def m(3))
  have kids: "nb_kids c1 k = (if k = nb_par c a then insert nid (nb_kids c k) else nb_kids c k)" for k
    using assms(2) by (auto simp: nb_kids_def f(1,2) split: if_splits)
  have new: "nid \<notin> nb_kids c k" for k
    using assms(2) by (simp add: nb_kids_def)
  have card: "card (nb_kids c1 k) = card (nb_kids c k) + (if k = nb_par c a then 1 else 0)" for k
    using nb_kids_finite [OF assms(1)] new by (simp add: kids)
  have none: "nb_kids c nid = {}"
    using nbc_invD(5) [OF assms(1)] assms(2,3) unfolding nb_kids_def by fastforce
  have cur: "nbc_cur c + 1 = card (dom ((nb_ents c)(nid \<mapsto> a)))"
    using card_dom_add [OF nb_finite [OF assms(1)] assms(2)] nbc_invD(2) [OF assms(1)] by simp
  have "card (nb_kids c1 k) \<le> unat (nb_refs c b) \<and> (nb_par c b \<noteq> INVALID_NID \<longrightarrow> nb_ents c1 (nb_par c b) \<noteq> None)"
    if "nb_ents c1 k = Some b" for k b
  proof (cases "k = nid")
    case True
    then have "b = a" using that f(1) by simp
    then show ?thesis
      using True none assms(6,8,9) by (auto simp: card f(1))
  next
    case False
    then have k: "nb_ents c k = Some b" using that f(1) by simp
    have "k = nb_par c a \<Longrightarrow> card (nb_kids c k) < unat (nb_refs c b)"
      using assms(9) k nbc_invD(3) [OF assms(1)] by (auto simp: nb_ext_def)
    then show ?thesis
      using nbc_invD(4,5) [OF assms(1) k] by (auto simp: card f(1))
  qed
  then have "nbc_inv c1"
    using m(2,3) cur nbc_invD(3) [OF assms(1)] assms(3) unfolding nbc_inv_def f by simp
  moreover have "\<forall>k b. nb_ents c k = Some b \<longrightarrow> nb_ext c1 k b = nb_ext c k b - (if k = nb_par c a then 1 else 0)"
    by (simp add: nb_ext_def card f(2))
  moreover have "nb_kids c1 nid = {}"
    using kids [of nid] none assms(8) by simp
  ultimately show ?thesis
    using that [OF m(1,3)] unfolding c1_def by blast
qed

lemma add_ref_cur:
  "nodeBlockCacheAddRefCount (fs\<lparr>node_cache := (node_cache fs)\<lparr>nbc_cur := x\<rparr>\<rparr>) a =
     (nodeBlockCacheAddRefCount fs a)\<lparr>node_cache := (node_cache (nodeBlockCacheAddRefCount fs a))\<lparr>nbc_cur := x\<rparr>\<rparr>"
  by (simp add: nodeBlockCacheAddRefCount_def Let_def nb_set_def nb_set_mgr_def)

text \<open>The state of \<^verbatim>\<open>nodeBlockCacheAdd\<close> just before the replacement.\<close>

lemma nb_add_indexed:
  fixes fs :: file_system_manager and junk buffer :: block and nid parentNid lpa :: u32 and c :: NodeBlockCache
  assumes "nbc_inv c" and "c = node_cache fs" and "nb_ents c nid = None" and "nid \<noteq> INVALID_NID"
    and "parentNid \<noteq> INVALID_NID \<longrightarrow> (\<exists>p. nb_ents c parentNid = Some p \<and> nb_refs c p \<noteq> -1)"
  defines "a \<equiv> nbc_next c" and "e \<equiv> nodeBlockCacheEntryInit junk buffer nid parentNid lpa"
  obtains c' where "nodeBlockCacheAdd junk fs buffer nid parentNid lpa =
      (nodeBlockCacheDoReplace (fs\<lparr>node_cache := c'\<rparr>) \<bind> (\<lambda>fs. Some (a, fs)))"
    "nbc_inv c'" "nb_ents c' = (nb_ents c)(nid \<mapsto> a)" "nb_ext c' nid a = 1" "nbc_heap c' a = e\<lparr>nbe_refCount := 1\<rparr>"
    "\<forall>k b. nb_ents c k = Some b \<longrightarrow> nb_ext c' k b = nb_ext c k b"
    "\<forall>b. b \<noteq> a \<longrightarrow> nbc_heap c' b = (nbc_heap c b)\<lparr>nbe_refCount := nb_refs c' b\<rparr>"
    "nbc_expect c' = nbc_expect c" "nbc_dirtyList c' = nbc_dirtyList c" "nbc_dirtyPos c' = nbc_dirtyPos c"
    "nbc_next c' = Suc (nbc_next c)"
proof -
  define c1 where "c1 = c\<lparr>nbc_heap := (nbc_heap c)(a := e), nbc_next := a + 1\<rparr>"
  note al = nb_alloc [OF assms(1), where e = e, folded a_def, folded c1_def]
  have f1: "nb_ents c1 = nb_ents c" "nbc_heap c1 = (nbc_heap c)(a := e)" "nbc_next c1 = Suc a" "nbc_mgr c1 = nbc_mgr c"
    "nbc_expect c1 = nbc_expect c" "nbc_dirtyList c1 = nbc_dirtyList c" "nbc_dirtyPos c1 = nbc_dirtyPos c"
    by (simp_all add: c1_def)
  have na: "b \<noteq> a" if "nb_ents c k = Some b" for k b
    using al(3) [OF that] by simp
  have e: "nbe_nid e = nid" "nbe_parentNid e = parentNid" "nbe_refCount e = 0"
    by (simp_all add: e_def nodeBlockCacheEntryInit_def)
  have "\<exists>c2. (if parentNid \<noteq> INVALID_NID then do {
         (parentEntry, m) \<leftarrow> genericCacheManagerGet (nbc_mgr c1) parentNid False;
         case parentEntry of None \<Rightarrow> None | Some p \<Rightarrow> Some (nodeBlockCacheAddRefCount (nb_set_mgr (fs\<lparr>node_cache := c1\<rparr>) m) p)
       } else Some (fs\<lparr>node_cache := c1\<rparr>)) = Some (fs\<lparr>node_cache := c2\<rparr>) \<and>
      nbc_inv c2 \<and> nb_ents c2 = nb_ents c \<and> nb_kids c2 = nb_kids c \<and> nbc_heap c2 a = e \<and>
      (\<forall>b. b \<noteq> a \<longrightarrow> nbc_heap c2 b = (nbc_heap c b)\<lparr>nbe_refCount := nb_refs c2 b\<rparr>) \<and>
      (\<forall>k b. nb_ents c k = Some b \<longrightarrow> nb_ext c2 k b = nb_ext c k b + (if k = parentNid then 1 else 0)) \<and>
      nbc_next c2 = Suc a \<and> nbc_cur c2 = nbc_cur c \<and> nbc_expect c2 = nbc_expect c \<and>
      nbc_dirtyList c2 = nbc_dirtyList c \<and> nbc_dirtyPos c2 = nbc_dirtyPos c"
  proof (cases "parentNid = INVALID_NID")
    case True
    then show ?thesis
      using al f1 nbc_invD(3) [OF assms(1)] by (intro exI [of _ c1]) (auto simp: c1_def)
  next
    case False
    then obtain p where p: "nb_ents c parentNid = Some p" "nb_refs c p \<noteq> -1"
      using assms(5) by blast
    have p1: "c1 = node_cache (fs\<lparr>node_cache := c1\<rparr>)" "nb_ents c1 parentNid = Some p" "nb_refs c1 p \<noteq> -1"
      using p na [OF p(1)] by (simp_all add: f1)
    obtain c2 where c2: "nodeBlockCacheAddRefCount (fs\<lparr>node_cache := c1\<rparr>) p = (fs\<lparr>node_cache := c1\<rparr>)\<lparr>node_cache := c2\<rparr>"
      "nbc_inv c2" "nb_kids c2 = nb_kids c1" "nb_ents c2 = nb_ents c1"
      "c2 = c1\<lparr>nbc_mgr := nbc_mgr c2, nbc_heap := (nbc_heap c1)(p := (nbc_heap c1 p)\<lparr>nbe_refCount := nb_refs c1 p + 1\<rparr>)\<rparr>"
      by (rule nb_add_ref [OF al(1) p1])
    have f2: "nbc_heap c2 = (nbc_heap c1)(p := (nbc_heap c1 p)\<lparr>nbe_refCount := nb_refs c1 p + 1\<rparr>)"
      "nbc_next c2 = nbc_next c1" "nbc_cur c2 = nbc_cur c1" "nbc_expect c2 = nbc_expect c1"
      "nbc_dirtyList c2 = nbc_dirtyList c1" "nbc_dirtyPos c2 = nbc_dirtyPos c1"
      by (subst c2(5), simp)+
    have "nb_ext c2 k b = nb_ext c k b + (if k = parentNid then 1 else 0)" if "nb_ents c k = Some b" for k b
    proof (cases "k = parentNid")
      case True
      with that p na [OF that] show ?thesis
        using unat_add1_u32 [OF p(2)] nbc_invD(4) [OF assms(1) that] by (simp add: nb_ext_def c2(3) al(2) f2(1) f1(2))
    next
      case False
      then have "b \<noteq> p" using nb_inj [OF assms(1) p(1)] that by blast
      with False na [OF that] show ?thesis by (simp add: nb_ext_def c2(3) al(2) f2(1) f1(2))
    qed
    moreover have "nbc_heap c2 b = (nbc_heap c b)\<lparr>nbe_refCount := nb_refs c2 b\<rparr>" if "b \<noteq> a" for b
      using that by (simp add: f2(1) f1(2))
    moreover have "nb_set_mgr (fs\<lparr>node_cache := c1\<rparr>) (nbc_mgr c1) = fs\<lparr>node_cache := c1\<rparr>"
      by (simp add: nb_set_mgr_def)
    ultimately show ?thesis
      using c2(1-4) f2 False p(1) na [OF p(1)] al(2)
      by (intro exI [of _ c2] conjI) (auto simp: nb_mgr_get f1 c1_def)
  qed
  then obtain c2 where step: "(if parentNid \<noteq> INVALID_NID then do {
         (parentEntry, m) \<leftarrow> genericCacheManagerGet (nbc_mgr c1) parentNid False;
         case parentEntry of None \<Rightarrow> None | Some p \<Rightarrow> Some (nodeBlockCacheAddRefCount (nb_set_mgr (fs\<lparr>node_cache := c1\<rparr>) m) p)
       } else Some (fs\<lparr>node_cache := c1\<rparr>)) = Some (fs\<lparr>node_cache := c2\<rparr>)"
    and c2: "nbc_inv c2" "nb_ents c2 = nb_ents c" "nb_kids c2 = nb_kids c" "nbc_heap c2 a = e"
      "\<forall>b. b \<noteq> a \<longrightarrow> nbc_heap c2 b = (nbc_heap c b)\<lparr>nbe_refCount := nb_refs c2 b\<rparr>"
      "\<forall>k b. nb_ents c k = Some b \<longrightarrow> nb_ext c2 k b = nb_ext c k b + (if k = parentNid then 1 else 0)"
      "nbc_next c2 = Suc a" "nbc_cur c2 = nbc_cur c" "nbc_expect c2 = nbc_expect c"
      "nbc_dirtyList c2 = nbc_dirtyList c" "nbc_dirtyPos c2 = nbc_dirtyPos c"
    by blast
  have pre: "nb_ents c2 nid = None" "a < nbc_next c2" "nb_keys c2 a = nid" "nb_refs c2 a = 0" "\<forall>k. nb_ents c2 k \<noteq> Some a"
    "nb_par c2 a \<noteq> nid"
    "nb_par c2 a \<noteq> INVALID_NID \<longrightarrow> (\<exists>p. nb_ents c2 (nb_par c2 a) = Some p \<and> 0 < nb_ext c2 (nb_par c2 a) p)"
    using assms(3,4,5) na c2(6) by (auto simp: c2(2,4,7) e)
  obtain m where m: "genericCacheManagerAdd (nbc_mgr c2) nid a = Some m" "gcm_entries m = (nb_ents c2)(nid \<mapsto> a)"
    "nbc_inv (c2\<lparr>nbc_mgr := m, nbc_cur := nbc_cur c2 + 1\<rparr>)"
    "\<forall>k b. nb_ents c2 k = Some b \<longrightarrow> nb_ext (c2\<lparr>nbc_mgr := m, nbc_cur := nbc_cur c2 + 1\<rparr>) k b =
       nb_ext c2 k b - (if k = nb_par c2 a then 1 else 0)"
    "nb_kids (c2\<lparr>nbc_mgr := m, nbc_cur := nbc_cur c2 + 1\<rparr>) nid = {}"
    by (rule nb_index [OF c2(1) pre(1) assms(4) pre(2-7)])
  define c3 where "c3 = c2\<lparr>nbc_mgr := m, nbc_cur := nbc_cur c2 + 1\<rparr>"
  have f3: "nb_ents c3 = (nb_ents c)(nid \<mapsto> a)" "nbc_heap c3 = nbc_heap c2" "nbc_next c3 = Suc a"
    "nbc_expect c3 = nbc_expect c" "nbc_dirtyList c3 = nbc_dirtyList c" "nbc_dirtyPos c3 = nbc_dirtyPos c"
    by (simp_all add: c3_def m(2) c2)
  have p3: "c3 = node_cache (fs\<lparr>node_cache := c3\<rparr>)" "nb_ents c3 nid = Some a" "nb_refs c3 a \<noteq> -1"
    by (simp_all add: f3 c2(4) e)
  obtain c4 where c4: "nodeBlockCacheAddRefCount (fs\<lparr>node_cache := c3\<rparr>) a = (fs\<lparr>node_cache := c3\<rparr>)\<lparr>node_cache := c4\<rparr>"
      "nbc_inv c4" "nb_kids c4 = nb_kids c3" "nb_ents c4 = nb_ents c3"
      "c4 = c3\<lparr>nbc_mgr := nbc_mgr c4, nbc_heap := (nbc_heap c3)(a := (nbc_heap c3 a)\<lparr>nbe_refCount := nb_refs c3 a + 1\<rparr>)\<rparr>"
    by (rule nb_add_ref [OF m(3) [folded c3_def] p3])
  have f4: "nbc_heap c4 = (nbc_heap c2)(a := e\<lparr>nbe_refCount := 1\<rparr>)" "nbc_next c4 = Suc a"
    "nbc_expect c4 = nbc_expect c" "nbc_dirtyList c4 = nbc_dirtyList c" "nbc_dirtyPos c4 = nbc_dirtyPos c"
    by (subst c4(5), simp add: f3 c2(4) e)+
  have ext: "nb_ext c4 k b = nb_ext c k b" if "nb_ents c k = Some b" for k b
  proof -
    have "nb_ext c4 k b = nb_ext c3 k b"
      using na [OF that] by (simp add: nb_ext_def c4(3) f4(1) f3(2))
    also have "\<dots> = nb_ext c k b"
      using m(4) c2(6) that by (simp add: c3_def c2(2,4) e)
    finally show ?thesis .
  qed
  have get: "genericCacheManagerGet (nbc_mgr c) nid False = Some (None, nbc_mgr c)"
    using assms(3) by (simp add: nb_mgr_get)
  have c1': "(nb_set (nb_set_mgr fs (nbc_mgr c)) a e)\<lparr>node_cache := (node_cache (nb_set (nb_set_mgr fs (nbc_mgr c)) a e))\<lparr>nbc_next := a + 1\<rparr>\<rparr> =
      fs\<lparr>node_cache := c1\<rparr>"
    by (simp add: c1_def nb_set_def nb_set_mgr_def assms(2) [symmetric])
  have tail: "(nodeBlockCacheAddRefCount (nb_set_mgr (fs\<lparr>node_cache := c2\<rparr>) m) a)\<lparr>node_cache :=
      (node_cache (nodeBlockCacheAddRefCount (nb_set_mgr (fs\<lparr>node_cache := c2\<rparr>) m) a))\<lparr>nbc_cur :=
        nbc_cur (node_cache (nodeBlockCacheAddRefCount (nb_set_mgr (fs\<lparr>node_cache := c2\<rparr>) m) a)) + 1\<rparr>\<rparr> = fs\<lparr>node_cache := c4\<rparr>"
  proof -
    have "nbc_cur (node_cache (nodeBlockCacheAddRefCount x a)) = nbc_cur (node_cache x)" for x
      by (simp add: nodeBlockCacheAddRefCount_def Let_def)
    then show ?thesis
      using add_ref_cur [where fs = "nb_set_mgr (fs\<lparr>node_cache := c2\<rparr>) m" and x = "nbc_cur c2 + 1" and a = a] c4(1)
      by (simp add: nb_set_mgr_def c3_def)
  qed
  have sel: "node_cache (fs\<lparr>node_cache := x\<rparr>) = x" for x
    by simp
  have run: "nodeBlockCacheAdd junk fs buffer nid parentNid lpa =
      (nodeBlockCacheDoReplace (fs\<lparr>node_cache := c4\<rparr>) \<bind> (\<lambda>fs. Some (a, fs)))"
    unfolding nodeBlockCacheAdd_def Let_def assms(2) [symmetric] a_def [symmetric] e_def [symmetric] get
      Option.bind_lunit split_conv simp_thms c_assert_True c1'
    unfolding sel step Option.bind_lunit m(1) tail ..
  show ?thesis
  proof (rule that [OF run c4(2)])
    show "nb_ext c4 nid a = 1"
      using m(5) by (simp add: nb_ext_def c4(3) c3_def f4(1))
  qed (use c4(4) f3 f4 ext c2(5,7) in \<open>auto simp: a_def\<close>)
qed

lemma nb_add:
  assumes "nbc_inv (node_cache fs)" and "nb_live (node_cache fs)" and "nb_ents (node_cache fs) nid = None"
    and "nid \<noteq> INVALID_NID"
    and "parentNid \<noteq> INVALID_NID \<longrightarrow> (\<exists>p. nb_ents (node_cache fs) parentNid = Some p \<and> nb_refs (node_cache fs) p \<noteq> -1)"
  shows "\<exists>a c'. nodeBlockCacheAdd junk fs buffer nid parentNid lpa = Some (a, fs\<lparr>node_cache := c'\<rparr>) \<and>
    nbc_inv c' \<and> nb_live c' \<and> nb_ents c' nid = Some a \<and> nb_ext c' nid a = 1 \<and>
    nbc_heap c' a = (nodeBlockCacheEntryInit junk buffer nid parentNid lpa)\<lparr>nbe_refCount := nb_refs c' a\<rparr> \<and>
    (\<forall>k b. nb_ents (node_cache fs) k = Some b \<longrightarrow> 0 < nb_ext (node_cache fs) k b \<longrightarrow>
       nb_ents c' k = Some b \<and> nb_ext c' k b = nb_ext (node_cache fs) k b) \<and>
    (\<forall>k b. nb_ents c' k = Some b \<longrightarrow> k = nid \<or> nb_ents (node_cache fs) k = Some b \<and>
       nb_ext c' k b = nb_ext (node_cache fs) k b \<and> nbc_heap c' b = (nb_entry fs b)\<lparr>nbe_refCount := nb_refs c' b\<rparr>) \<and>
    (nbc_cur c' \<le> nbc_expect c' \<or> (\<forall>k b. nb_ents c' k = Some b \<longrightarrow> nb_refs c' b \<noteq> 0)) \<and>
    nbc_dirtyList c' = nbc_dirtyList (node_cache fs) \<and> nbc_dirtyPos c' = nbc_dirtyPos (node_cache fs)"
proof -
  let ?c = "node_cache fs" and ?e = "nodeBlockCacheEntryInit junk buffer nid parentNid lpa"
  obtain c1 where c1: "nodeBlockCacheAdd junk fs buffer nid parentNid lpa =
      (nodeBlockCacheDoReplace (fs\<lparr>node_cache := c1\<rparr>) \<bind> (\<lambda>fs. Some (nbc_next ?c, fs)))"
    "nbc_inv c1" "nb_ents c1 = (nb_ents ?c)(nid \<mapsto> nbc_next ?c)" "nb_ext c1 nid (nbc_next ?c) = 1"
    "nbc_heap c1 (nbc_next ?c) = ?e\<lparr>nbe_refCount := 1\<rparr>"
    "\<forall>k b. nb_ents ?c k = Some b \<longrightarrow> nb_ext c1 k b = nb_ext ?c k b"
    "\<forall>b. b \<noteq> nbc_next ?c \<longrightarrow> nbc_heap c1 b = (nbc_heap ?c b)\<lparr>nbe_refCount := nb_refs c1 b\<rparr>"
    "nbc_dirtyList c1 = nbc_dirtyList ?c" "nbc_dirtyPos c1 = nbc_dirtyPos ?c"
    by (rule nb_add_indexed [OF assms(1) refl assms(3,4,5)])
  let ?a = "nbc_next ?c"
  have lt: "b \<noteq> ?a" if "nb_ents ?c k = Some b" for k b
    using rc_okD(1) [OF nbc_invD(1) [OF assms(1)] that] by simp
  have "nb_live c1"
    unfolding nb_live_def
  proof (intro allI impI)
    fix k b
    assume b: "nb_ents c1 k = Some b"
    show "nbe_state (nbc_heap c1 b) \<noteq> NODE_BLOCK_CACHE_ENTRY_DELETED"
    proof (cases "b = ?a")
      case True
      then show ?thesis by (simp add: c1(5) nodeBlockCacheEntryInit_def)
    next
      case False
      then have "nb_ents ?c k = Some b" using b c1(3) by (auto split: if_splits)
      then have "nbe_state (nbc_heap ?c b) \<noteq> NODE_BLOCK_CACHE_ENTRY_DELETED"
        using assms(2) by (simp add: nb_live_def)
      moreover have "nbe_state (nbc_heap c1 b) = nbe_state (nbc_heap ?c b)"
        using c1(7) False by (metis NodeBlockCacheEntry.simps(7) NodeBlockCacheEntry.surjective NodeBlockCacheEntry.update_convs(6))
      ultimately show ?thesis by simp
    qed
  qed
  then obtain c' where c': "nodeBlockCacheDoReplace (fs\<lparr>node_cache := c1\<rparr>) = Some (fs\<lparr>node_cache := c'\<rparr>)" "nb_shrunk c1 c'"
    "nbc_cur c' \<le> nbc_expect c' \<or> gcm_free (nbc_mgr c') = []"
    using nb_do_replace [OF c1(2), of "fs\<lparr>node_cache := c1\<rparr>"] by auto
  note s = nb_shrunkD [OF c'(2)]
  have "nb_ents c' nid = Some ?a"
    using s(3) c1(3,4) by simp
  moreover have "nb_ext c' nid ?a = 1"
    using s(4) calculation c1(4) by simp
  moreover have "nbc_heap c' ?a = ?e\<lparr>nbe_refCount := nb_refs c' ?a\<rparr>"
    using s(5) [of ?a] c1(5) by (metis NodeBlockCacheEntry.update_convs(6) NodeBlockCacheEntry.surjective)
  moreover have "nb_ents c' k = Some b \<and> nb_ext c' k b = nb_ext ?c k b"
    if "nb_ents ?c k = Some b" "0 < nb_ext ?c k b" for k b
  proof -
    have "nb_ents c1 k = Some b" "nb_ext c1 k b = nb_ext ?c k b"
      using that assms(3) c1(3,6) by auto
    then show ?thesis using s(3,4) that(2) by simp
  qed
  moreover have "k = nid \<or> nb_ents ?c k = Some b \<and> nb_ext c' k b = nb_ext ?c k b \<and> nbc_heap c' b = (nbc_heap ?c b)\<lparr>nbe_refCount := nb_refs c' b\<rparr>"
    if "nb_ents c' k = Some b" for k b
  proof (cases "k = nid")
    case False
    then have k: "nb_ents ?c k = Some b" using s(2) [OF that] c1(3) by simp
    then have "nbc_heap c1 b = (nbc_heap ?c b)\<lparr>nbe_refCount := nb_refs c1 b\<rparr>" using c1(7) lt by blast
    then have "nbc_heap c' b = (nbc_heap ?c b)\<lparr>nbe_refCount := nb_refs c' b\<rparr>"
      using s(5) [of b] by (metis NodeBlockCacheEntry.update_convs(6) NodeBlockCacheEntry.surjective)
    then show ?thesis
      using s(4) [OF that] c1(6) k by simp
  qed simp
  moreover have "nbc_cur c' \<le> nbc_expect c' \<or> (\<forall>k b. nb_ents c' k = Some b \<longrightarrow> nb_refs c' b \<noteq> 0)"
    using c'(3) rc_okD(3) [OF nbc_invD(1) [OF s(1)]] by auto
  ultimately show ?thesis
    using c1(1,8,9) c'(1) s(1,8,9) nb_shrunk_live [OF c'(2) \<open>nb_live c1\<close>] by (intro exI [of _ ?a] exI [of _ c']) simp
qed

end
