(* ===== verification/Node_Cache_Spec.thy ===== *)
theory Node_Cache_Spec
  imports Node_Block_Cache
begin

text \<open>
  What the node block cache promises to the file code above it: insertion protects every entry a
  handle refers to and always returns, loading a node gives the block the file system sees for its
  nid, and dropping the last reference of a deleted node gives its nid and its LPA back. The last
  section shows what the missing reference of dirty entries costs.
\<close>

subsection \<open>Insertion\<close>

lemma demo_node_cache:
  "nbc_inv (node_cache demo_fs)" "nb_live (node_cache demo_fs)" "nb_ents (node_cache demo_fs) = Map.empty"
  by (simp_all add: demo_fs_def nbc_inv_def nb_live_def rc_ok_init gcm_init)

text \<open>
  Claim C30. \<^verbatim>\<open>nodeBlockCacheAdd\<close> always returns and protects what handles refer to. When the cache
  invariant holds, no cached node is deleted, the nid is not cached yet and its parent, if any, is
  cached, the call returns a handle on a new entry with the given content; the entry is cached with
  one reference of a handle; every entry a handle referred to before is still cached with the same
  references of handles; what else is cached was cached before and is unchanged; the cache is within
  its expected size or everything left in it is referenced; and the invariant holds again.
\<close>

theorem nodeBlockCacheAdd_protects_handles:
  assumes "nbc_inv (node_cache fs)" and "nb_live (node_cache fs)" and "nb_ents (node_cache fs) nid = None"
    and "nid \<noteq> INVALID_NID"
    and "parentNid \<noteq> INVALID_NID \<longrightarrow> (\<exists>p. nb_ents (node_cache fs) parentNid = Some p \<and> nb_refs (node_cache fs) p \<noteq> -1)"
  shows "\<exists>a c'. nodeBlockCacheAdd junk fs buffer nid parentNid lpa = Some (a, fs\<lparr>node_cache := c'\<rparr>) \<and>
    nbc_inv c' \<and> nb_live c' \<and> nb_ents c' nid = Some a \<and> nb_ext c' nid a = 1 \<and>
    nbc_heap c' a = (nodeBlockCacheEntryInit junk buffer nid parentNid lpa)\<lparr>nbe_refCount := nb_refs c' a\<rparr> \<and>
    (\<forall>k b. nb_ents (node_cache fs) k = Some b \<longrightarrow> 0 < nb_ext (node_cache fs) k b \<longrightarrow>
       nb_ents c' k = Some b \<and> nb_ext c' k b = nb_ext (node_cache fs) k b) \<and>
    (\<forall>k b. nb_ents c' k = Some b \<longrightarrow> k = nid \<or> nb_ents (node_cache fs) k = Some b \<and>
       nbc_heap c' b = (nb_entry fs b)\<lparr>nbe_refCount := nb_refs c' b\<rparr>) \<and>
    (nbc_cur c' \<le> nbc_expect c' \<or> (\<forall>k b. nb_ents c' k = Some b \<longrightarrow> nb_refs c' b \<noteq> 0))"
  using nb_add [OF assms, where junk = junk and buffer = buffer and lpa = lpa] by blast

lemma nodeBlockCacheAdd_protects_handles_witness:
  "\<exists>a c'. nodeBlockCacheAdd zero_block demo_fs (\<lambda>_. 7) 700 0 4711 = Some (a, demo_fs\<lparr>node_cache := c'\<rparr>) \<and>
     nb_ents c' 700 = Some a \<and> nbe_lpa (nbc_heap c' a) = 4711 \<and> nb_ext c' 700 a = 1"
proof -
  obtain a c' where r: "nodeBlockCacheAdd zero_block demo_fs (\<lambda>_. 7) 700 0 4711 = Some (a, demo_fs\<lparr>node_cache := c'\<rparr>)"
    "nb_ents c' 700 = Some a" "nb_ext c' 700 a = 1"
    "nbc_heap c' a = (nodeBlockCacheEntryInit zero_block (\<lambda>_. 7) 700 0 4711)\<lparr>nbe_refCount := nb_refs c' a\<rparr>"
    using nodeBlockCacheAdd_protects_handles [of demo_fs 700 0 zero_block "\<lambda>_. 7" 4711] demo_node_cache by auto
  have "nbe_lpa (nbc_heap c' a) = 4711"
    by (subst r(4)) (simp add: nodeBlockCacheEntryInit_def)
  with r show ?thesis by blast
qed

subsection \<open>Lookup\<close>

lemma nbc_inv_mgr:
  assumes "nbc_inv c" and "rc_ok m (nb_keys c) (nb_refs c) (nbc_next c)" and "gcm_entries m = nb_ents c"
  shows "nbc_inv (c\<lparr>nbc_mgr := m\<rparr>)" "nb_kids (c\<lparr>nbc_mgr := m\<rparr>) = nb_kids c"
proof -
  show k: "nb_kids (c\<lparr>nbc_mgr := m\<rparr>) = nb_kids c"
    using assms(3) by (simp add: nb_kids_def fun_eq_iff)
  show "nbc_inv (c\<lparr>nbc_mgr := m\<rparr>)"
    using assms unfolding nbc_inv_def k by simp
qed

lemma nb_get_miss:
  assumes "nbc_inv (node_cache fs)" and "nb_ents (node_cache fs) nid = None"
  shows "nodeBlockCacheGet fs nid = Some (None, fs)"
  using assms(2) by (simp add: nodeBlockCacheGet_def genericCacheManagerGet_def gcm_entries_def cacheIndexManagerGet_def
      Let_def nb_set_mgr_def)

lemma nb_get_hit:
  assumes "nbc_inv c" and "c = node_cache fs" and "nb_ents c nid = Some a" and "nb_refs c a \<noteq> -1"
  obtains c' where "nodeBlockCacheGet fs nid = Some (Some a, fs\<lparr>node_cache := c'\<rparr>)" "nbc_inv c'" "nb_ents c' = nb_ents c"
    "nb_kids c' = nb_kids c" "nbc_heap c' = (nbc_heap c)(a := (nbc_heap c a)\<lparr>nbe_refCount := nb_refs c a + 1\<rparr>)"
    "nb_ext c' nid a = nb_ext c nid a + 1"
proof -
  note rc = nbc_invD(1) [OF assms(1)]
  obtain m where m: "genericCacheManagerGet (nbc_mgr c) nid True = Some (Some a, m)"
      "rc_ok m (nb_keys c) (nb_refs c) (nbc_next c)" "gcm_entries m = nb_ents c"
    using rc_ok_get [OF rc, of nid True] assms(3) by auto
  let ?c1 = "c\<lparr>nbc_mgr := m\<rparr>"
  have c1: "?c1 = node_cache (nb_set_mgr fs m)" "nb_ents ?c1 nid = Some a" "nb_refs ?c1 a \<noteq> -1"
    using assms m(3) by simp_all
  note inv1 = nbc_inv_mgr [OF assms(1) m(2,3)]
  obtain c' where c': "nodeBlockCacheAddRefCount (nb_set_mgr fs m) a = (nb_set_mgr fs m)\<lparr>node_cache := c'\<rparr>" "nbc_inv c'"
    "nb_kids c' = nb_kids ?c1" "nb_ents c' = nb_ents ?c1"
    "c' = ?c1\<lparr>nbc_mgr := nbc_mgr c', nbc_heap := (nbc_heap ?c1)(a := (nbc_heap ?c1 a)\<lparr>nbe_refCount := nb_refs ?c1 a + 1\<rparr>)\<rparr>"
    by (rule nb_add_ref [OF inv1(1) c1])
  have h: "nbc_heap c' = (nbc_heap c)(a := (nbc_heap c a)\<lparr>nbe_refCount := nb_refs c a + 1\<rparr>)"
    by (subst c'(5)) simp
  have "nb_ext c' nid a = nb_ext c nid a + 1"
    using unat_add1_u32 [OF assms(4)] nbc_invD(4) [OF assms(1,3)] c'(3) inv1(2) h by (simp add: nb_ext_def)
  moreover have "nodeBlockCacheGet fs nid = Some (Some a, fs\<lparr>node_cache := c'\<rparr>)"
    using m(1) c'(1) assms(2) by (simp add: nodeBlockCacheGet_def nb_set_mgr_def)
  ultimately show ?thesis
    using that c'(2,3,4) inv1(2) m(3) h by simp
qed

subsection \<open>Loading a node\<close>

text \<open>
  The block the file system sees for a nid: the cached one, or the medium's at the LPA the NAT holds.
  \<open>nb_clean\<close>: the cached blocks no handle refers to are those of the medium, so that they can be
  dropped. \<open>node_ok\<close> is the check on the footer.
\<close>

definition nb_view :: "file_system_manager \<Rightarrow> u32 \<Rightarrow> nat \<Rightarrow> u8" where
  "nb_view fs nid i = (case nb_ents (node_cache fs) nid of Some a \<Rightarrow> nbe_node (nb_entry fs a) i
     | None \<Rightarrow> media (fs_dev fs) (LPA_TO_LBA32 (nat_block_addr (nat_entry_of fs nid))) i)"

definition nb_clean :: "file_system_manager \<Rightarrow> bool" where
  "nb_clean fs \<longleftrightarrow> (\<forall>k a. nb_ents (node_cache fs) k = Some a \<longrightarrow> nb_ext (node_cache fs) k a = 0 \<longrightarrow>
     (\<forall>i < 4096. nbe_node (nb_entry fs a) i = media (fs_dev fs) (LPA_TO_LBA32 (nat_block_addr (nat_entry_of fs k))) i))"

definition node_ok :: "block \<Rightarrow> u32 \<Rightarrow> u32 \<Rightarrow> bool" where
  "node_ok b nid parentNid \<longleftrightarrow> get32 b NF_nid = nid \<and> (parentNid = INVALID_NID \<longrightarrow> get32 b NF_ino = nid)"

lemma node_ok_cong: "(\<And>i. i < 4096 \<Longrightarrow> b i = b' i) \<Longrightarrow> node_ok b nid p = node_ok b' nid p"
  by (simp add: node_ok_def get32_def)

lemma nb_view_hit:
  assumes "nbc_inv (node_cache fs)" and "nb_live (node_cache fs)" and "nb_clean fs"
    and "nb_ents (node_cache fs) nid = Some a" and "nb_refs (node_cache fs) a \<noteq> -1" and "node_ok (nb_view fs nid) nid parentNid"
  shows "\<exists>c'. nodeBlockCacheHelperGetNodeEntry junk junk' fs nid parentNid = Some (RC0, Some a, fs\<lparr>node_cache := c'\<rparr>) \<and>
    nbc_inv c' \<and> nb_live c' \<and> nb_clean (fs\<lparr>node_cache := c'\<rparr>) \<and> nb_ents c' = nb_ents (node_cache fs) \<and>
    nb_view (fs\<lparr>node_cache := c'\<rparr>) = nb_view fs \<and> 0 < nb_ext c' nid a"
proof -
  let ?c = "node_cache fs"
  obtain c' where g: "nodeBlockCacheGet fs nid = Some (Some a, fs\<lparr>node_cache := c'\<rparr>)" "nbc_inv c'" "nb_ents c' = nb_ents ?c"
    "nb_kids c' = nb_kids ?c" "nbc_heap c' = (nbc_heap ?c)(a := (nbc_heap ?c a)\<lparr>nbe_refCount := nb_refs ?c a + 1\<rparr>)"
    "nb_ext c' nid a = nb_ext ?c nid a + 1"
    by (rule nb_get_hit [OF assms(1) refl assms(4,5)])
  let ?fs = "fs\<lparr>node_cache := c'\<rparr>"
  have nat: "nat_entry_of ?fs = nat_entry_of fs"
    by (rule ext) (simp add: nat_entry_of_def)
  have node: "nbe_node (nbc_heap c' b) = nbe_node (nbc_heap ?c b)" "nbe_state (nbc_heap c' b) = nbe_state (nbc_heap ?c b)" for b
    by (simp_all add: g(5))
  have "nb_ext c' k b = nb_ext ?c k b" if "b \<noteq> a" for k b
    using that by (simp add: nb_ext_def g(4,5))
  note ext' = this
  have clean: "nb_clean ?fs"
    unfolding nb_clean_def nat
  proof (intro allI impI)
    fix k b i
    assume h: "nb_ents (node_cache ?fs) k = Some b" "nb_ext (node_cache ?fs) k b = 0" "i < (4096 :: nat)"
    then have "b \<noteq> a"
      using nb_inj [OF assms(1,4)] g(3,6) by auto
    then have "nb_ents ?c k = Some b" "nb_ext ?c k b = 0"
      using h ext' g(3) by simp_all
    then show "nbe_node (nb_entry ?fs b) i = media (fs_dev ?fs) (LPA_TO_LBA32 (nat_block_addr (nat_entry_of fs k))) i"
      using assms(3) h(3) by (simp add: nb_clean_def node)
  qed
  have "nb_view ?fs = nb_view fs"
    by (intro ext) (simp add: nb_view_def g(3) node nat split: option.split)
  moreover have "nodeBlockCacheHelperGetNodeEntry junk junk' fs nid parentNid = Some (RC0, Some a, ?fs)"
    using assms(4,6) by (simp add: nodeBlockCacheHelperGetNodeEntry_def g(1) nodeBlockCacheEntryHandleIsEmpty_def Let_def node
        node_ok_def nb_view_def [abs_def])
  moreover have "nb_live c'"
    using assms(2) by (simp add: nb_live_def g(3) node)
  ultimately show ?thesis
    using g(2,3,6) clean by auto
qed

text \<open>Dropping clean entries and adding a block read from the medium changes nothing that is seen.\<close>

lemma nb_view_add:
  assumes "nbc_inv (node_cache fs)" and "nb_live (node_cache fs)" and "nb_clean fs" and "nb_ents (node_cache fs) nid = None"
    and "nid \<noteq> INVALID_NID"
    and "parentNid \<noteq> INVALID_NID \<longrightarrow> (\<exists>p. nb_ents (node_cache fs) parentNid = Some p \<and> nb_refs (node_cache fs) p \<noteq> -1)"
  shows "\<exists>a c'. nodeBlockCacheAdd junk fs (media (fs_dev fs) (LPA_TO_LBA32 (nat_block_addr (nat_entry_of fs nid)))) nid parentNid lpa =
      Some (a, fs\<lparr>node_cache := c'\<rparr>) \<and>
    nbc_inv c' \<and> nb_live c' \<and> nb_clean (fs\<lparr>node_cache := c'\<rparr>) \<and> nb_ents c' nid = Some a \<and> nb_ext c' nid a = 1 \<and>
    (\<forall>k. \<forall>i < 4096. nb_view (fs\<lparr>node_cache := c'\<rparr>) k i = nb_view fs k i) \<and>
    (\<forall>k b. nb_ents (node_cache fs) k = Some b \<longrightarrow> 0 < nb_ext (node_cache fs) k b \<longrightarrow>
       nb_ents c' k = Some b \<and> nb_ext c' k b = nb_ext (node_cache fs) k b)"
proof -
  let ?c = "node_cache fs" and ?b = "\<lambda>k. media (fs_dev fs) (LPA_TO_LBA32 (nat_block_addr (nat_entry_of fs k)))"
  obtain a c' where r: "nodeBlockCacheAdd junk fs (?b nid) nid parentNid lpa = Some (a, fs\<lparr>node_cache := c'\<rparr>)"
    "nbc_inv c'" "nb_live c'" "nb_ents c' nid = Some a" "nb_ext c' nid a = 1"
    and new: "nbc_heap c' a = (nodeBlockCacheEntryInit junk (?b nid) nid parentNid lpa)\<lparr>nbe_refCount := nb_refs c' a\<rparr>"
    and kept: "\<forall>k b. nb_ents ?c k = Some b \<longrightarrow> 0 < nb_ext ?c k b \<longrightarrow> nb_ents c' k = Some b \<and> nb_ext c' k b = nb_ext ?c k b"
    and old: "\<forall>k b. nb_ents c' k = Some b \<longrightarrow> k = nid \<or> nb_ents ?c k = Some b \<and>
       nb_ext c' k b = nb_ext ?c k b \<and> nbc_heap c' b = (nb_entry fs b)\<lparr>nbe_refCount := nb_refs c' b\<rparr>"
    using nb_add [OF assms(1,2,4,5,6), where junk = junk and buffer = "?b nid" and lpa = lpa] by blast
  let ?fs = "fs\<lparr>node_cache := c'\<rparr>"
  have nat: "nat_entry_of ?fs = nat_entry_of fs"
    by (rule ext) (simp add: nat_entry_of_def)
  have blk: "\<forall>i < 4096. nbe_node (nbc_heap c' a) i = ?b nid i"
    by (subst new) (simp add: nodeBlockCacheEntryInit_def blockBufferCopy_def)
  have same: "nbe_node (nbc_heap c' b) = nbe_node (nbc_heap ?c b)" "nb_ext c' k b = nb_ext ?c k b" "nb_ents ?c k = Some b"
    if "nb_ents c' k = Some b" "k \<noteq> nid" for k b
  proof -
    have o: "nb_ents ?c k = Some b \<and> nb_ext c' k b = nb_ext ?c k b \<and> nbc_heap c' b = (nb_entry fs b)\<lparr>nbe_refCount := nb_refs c' b\<rparr>"
      using old that by blast
    then show "nb_ext c' k b = nb_ext ?c k b" "nb_ents ?c k = Some b" by blast+
    from o have "nbc_heap c' b = (nb_entry fs b)\<lparr>nbe_refCount := nb_refs c' b\<rparr>" by blast
    then show "nbe_node (nbc_heap c' b) = nbe_node (nbc_heap ?c b)" by (rule ssubst) simp
  qed
  have view: "nb_view ?fs k i = nb_view fs k i" if "i < 4096" for k i
  proof (cases "k = nid")
    case True
    then show ?thesis
      using blk that by (simp add: nb_view_def r(4) assms(4))
  next
    case False
    show ?thesis
    proof (cases "nb_ents c' k")
      case (Some b)
      with same [OF Some False] show ?thesis by (simp add: nb_view_def)
    next
      case None
      have "nbe_node (nbc_heap ?c b) i = ?b k i" if "nb_ents ?c k = Some b" for b
        using assms(3) kept that None \<open>i < 4096\<close> unfolding nb_clean_def by (metis not_gr_zero option.distinct(1))
      with None show ?thesis by (simp add: nb_view_def nat split: option.split)
    qed
  qed
  have "nb_clean ?fs"
    unfolding nb_clean_def nat
  proof (intro allI impI)
    fix k b i
    assume h: "nb_ents (node_cache ?fs) k = Some b" "nb_ext (node_cache ?fs) k b = 0" "i < (4096 :: nat)"
    then have k: "k \<noteq> nid" using r(4,5) by auto
    then have "nb_ext ?c k b = 0" "nb_ents ?c k = Some b"
      using same [of k b] h by simp_all
    then show "nbe_node (nb_entry ?fs b) i = media (fs_dev ?fs) (LPA_TO_LBA32 (nat_block_addr (nat_entry_of fs k))) i"
      using assms(3) h(3) same(1) [of k b] h(1) k by (simp add: nb_clean_def)
  qed
  with r kept view show ?thesis by blast
qed

text \<open>
  Claim C29. Loading a node is transparent. When the cache invariant holds, what no handle refers to
  is clean, the NAT can be read for the nid, its block carries the right footer, and on a miss the
  block can be read and the parent is cached, \<^verbatim>\<open>nodeBlockCacheHelperGetNodeEntry\<close> succeeds with a handle
  on an entry that holds the block the file system sees for the nid; no visible node block changes,
  whatever had to be evicted; entries with handles stay, and all hypotheses on the cache hold again.
\<close>

theorem nodeBlockCacheHelperGetNodeEntry_loads:
  assumes "nbc_inv (node_cache fs)" and "nb_live (node_cache fs)" and "nb_clean fs" and "nid \<noteq> INVALID_NID"
    and "nat_ready fs (Suc n)" and "nid_ok fs nid" and "node_ok (nb_view fs nid) nid parentNid"
    and "\<forall>a. nb_ents (node_cache fs) nid = Some a \<longrightarrow> nb_refs (node_cache fs) a \<noteq> -1"
    and "nb_ents (node_cache fs) nid = None \<longrightarrow> dev_ok (fs_dev fs) (nat_block_addr (nat_entry_of fs nid)) \<and>
      (parentNid \<noteq> INVALID_NID \<longrightarrow> (\<exists>p. nb_ents (node_cache fs) parentNid = Some p \<and> nb_refs (node_cache fs) p \<noteq> -1))"
  shows "\<exists>a fs'. nodeBlockCacheHelperGetNodeEntry junk junk' fs nid parentNid = Some (RC0, Some a, fs') \<and>
    nbc_inv (node_cache fs') \<and> nb_live (node_cache fs') \<and> nb_clean fs' \<and> nat_ready fs' n \<and>
    nb_ents (node_cache fs') nid = Some a \<and> 0 < nb_ext (node_cache fs') nid a \<and>
    (\<forall>i < 4096. nbe_node (nb_entry fs' a) i = nb_view fs nid i) \<and>
    (\<forall>k. \<forall>i < 4096. nb_view fs' k i = nb_view fs k i) \<and>
    (\<forall>k b. nb_ents (node_cache fs) k = Some b \<longrightarrow> 0 < nb_ext (node_cache fs) k b \<longrightarrow> nb_ents (node_cache fs') k = Some b)"
proof (cases "nb_ents (node_cache fs) nid")
  case (Some a)
  let ?c = "node_cache fs"
  obtain c' where g: "nodeBlockCacheHelperGetNodeEntry junk junk' fs nid parentNid = Some (RC0, Some a, fs\<lparr>node_cache := c'\<rparr>)"
    "nbc_inv c'" "nb_live c'" "nb_clean (fs\<lparr>node_cache := c'\<rparr>)" "nb_ents c' = nb_ents ?c"
    "nb_view (fs\<lparr>node_cache := c'\<rparr>) = nb_view fs" "0 < nb_ext c' nid a"
    using nb_view_hit [OF assms(1,2,3) Some _ assms(7)] assms(8) Some by blast
  have "nbe_node (nbc_heap c' a) i = nb_view fs nid i" for i
    using fun_cong [OF fun_cong [OF g(6), of nid], of i] Some by (simp add: nb_view_def [of "fs\<lparr>node_cache := c'\<rparr>"] g(5))
  moreover have "nat_ready (fs\<lparr>node_cache := c'\<rparr>) n"
    using assms(5) snc_ready_mono [of _ _ "Suc n" n] by simp
  ultimately show ?thesis
    using g Some by (intro exI [of _ a] exI [of _ "fs\<lparr>node_cache := c'\<rparr>"]) simp
next
  case None
  obtain fs1 where g: "natGetLpaOfNid fs nid = Some (nat_block_addr (nat_entry_of fs nid), fs1)" "nat_ready fs1 n"
      "nat_entry_of fs1 = nat_entry_of fs" "fs1 = fs\<lparr>nat_cache := nat_cache fs1\<rparr>"
    using natGetLpaOfNid_spec [OF assms(5,6)] by blast
  let ?lpa = "nat_block_addr (nat_entry_of fs nid)"
  have eq: "node_cache fs1 = node_cache fs" "fs_dev fs1 = fs_dev fs"
    by (subst g(4), simp)+
  have view1: "nb_view fs1 = nb_view fs"
    by (intro ext) (simp add: nb_view_def eq g(3) split: option.split)
  have clean1: "nb_clean fs1"
    using assms(3) by (simp add: nb_clean_def eq g(3))
  have ok: "dev_ok (fs_dev fs1) ?lpa"
    and par: "parentNid \<noteq> INVALID_NID \<longrightarrow> (\<exists>p. nb_ents (node_cache fs1) parentNid = Some p \<and> nb_refs (node_cache fs1) p \<noteq> -1)"
    using assms(9) None by (simp_all add: eq)
  have pre: "nbc_inv (node_cache fs1)" "nb_live (node_cache fs1)" "nb_ents (node_cache fs1) nid = None"
    using assms(1,2) None by (simp_all add: eq)
  obtain a c' where r: "nodeBlockCacheAdd junk' fs1 (media (fs_dev fs1) (LPA_TO_LBA32 ?lpa)) nid parentNid ?lpa =
      Some (a, fs1\<lparr>node_cache := c'\<rparr>)"
    "nbc_inv c'" "nb_live c'" "nb_clean (fs1\<lparr>node_cache := c'\<rparr>)" "nb_ents c' nid = Some a" "nb_ext c' nid a = 1"
    "\<forall>k. \<forall>i < 4096. nb_view (fs1\<lparr>node_cache := c'\<rparr>) k i = nb_view fs1 k i"
    "\<forall>k b. nb_ents (node_cache fs1) k = Some b \<longrightarrow> 0 < nb_ext (node_cache fs1) k b \<longrightarrow>
       nb_ents c' k = Some b \<and> nb_ext c' k b = nb_ext (node_cache fs1) k b"
    using nb_view_add [OF pre(1,2) clean1 pre(3) assms(4) par, where junk = junk' and lpa = ?lpa, unfolded g(3)] by blast
  let ?fs = "fs1\<lparr>node_cache := c'\<rparr>"
  have blk: "nbe_node (nbc_heap c' a) i = nb_view fs nid i" if "i < 4096" for i
    using r(7) [rule_format, OF that, of nid] r(5) view1 by (simp add: nb_view_def [of ?fs])
  then have ft: "node_ok (nbe_node (nbc_heap c' a)) nid parentNid"
    using assms(7) node_ok_cong [of "nbe_node (nbc_heap c' a)" "nb_view fs nid"] by blast
  have rd: "blockBufferReadFromLpa (fs_dev fs1) (blockBufferInit junk) ?lpa = (RC0, media (fs_dev fs1) (LPA_TO_LBA32 ?lpa))"
    using ok by (simp add: blockBufferReadFromLpa_def comm_read_def)
  have "nodeBlockCacheHelperGetNodeEntry junk junk' fs nid parentNid = Some (RC0, Some a, ?fs)"
    using ft by (simp add: nodeBlockCacheHelperGetNodeEntry_def nb_get_miss [OF assms(1) None] nodeBlockCacheEntryHandleIsEmpty_def
        g(1) rd r(1) node_ok_def Let_def)
  moreover have "nat_ready ?fs n"
    using g(2) by simp
  ultimately show ?thesis
    using r(2-8) blk view1 eq by (intro exI [of _ a] exI [of _ ?fs]) auto
qed

text \<open>An inode of nid 700 at LPA 150 of a small file system.\<close>

definition demo_node :: block where
  "demo_node = put32 (put32 zero_block NF_nid 700) NF_ino 700"

definition demo_node_fs :: file_system_manager where
  "demo_node_fs = demo_fs\<lparr>fs_dev := demo_dev\<lparr>media := (media demo_dev)
     (168 := putNatEntry zero_block 1504 \<lparr>nat_ino = 700, nat_block_addr = 150\<rparr>, 1200 := demo_node)\<rparr>\<rparr>"

lemma demo_node_fields:
  "node_cache demo_node_fs = node_cache demo_fs" "nat_cache demo_node_fs = sitNatCacheInit 100"
  "sb32 demo_node_fs = sb32 demo_fs"
  by (simp_all add: demo_node_fs_def fun_eq_iff)

lemma demo_node_nat: "nat_entry_of demo_node_fs 700 = \<lparr>nat_ino = 700, nat_block_addr = 150\<rparr>"
  using demo_sb by (simp add: demo_node_fs_def nat_entry_of_def snc_view_def snc_init(2) LPA_TO_LBA32_def cnat.cget_cput)

lemma demo_node_view: "nb_view demo_node_fs 700 = demo_node"
  using demo_node_cache(3)
  by (intro ext, simp add: nb_view_def demo_node_nat demo_node_fields) (simp add: demo_node_fs_def LPA_TO_LBA32_def)

lemma demo_node_ready: "nat_ready demo_node_fs 1" "nid_ok demo_node_fs 700" "dev_ok (fs_dev demo_node_fs) 150"
  "nb_clean demo_node_fs" "node_ok demo_node 700 0"
proof -
  show "nat_ready demo_node_fs 1"
    by (simp add: demo_node_fields snc_ready_init)
  show "nid_ok demo_node_fs 700"
    using demo_nid_ok [of 700] by (simp add: nid_ok_def demo_node_fs_def)
  show "dev_ok (fs_dev demo_node_fs) 150"
    using demo_dev_ok [of 150] by (simp add: demo_node_fs_def)
  show "nb_clean demo_node_fs"
    using demo_node_cache(3) by (simp add: nb_clean_def demo_node_fields)
  show "node_ok demo_node 700 0"
    by (simp add: node_ok_def demo_node_def get32_put32_other)
qed

lemma nodeBlockCacheHelperGetNodeEntry_loads_witness:
  "\<exists>a fs'. nodeBlockCacheHelperGetNodeEntry zero_block zero_block demo_node_fs 700 0 = Some (RC0, Some a, fs') \<and>
     nb_ents (node_cache fs') 700 = Some a \<and> (\<forall>i < 4096. nbe_node (nb_entry fs' a) i = demo_node i)"
  using nodeBlockCacheHelperGetNodeEntry_loads [of demo_node_fs 700 0 0 zero_block zero_block]
    demo_node_cache demo_node_ready demo_node_view by (fastforce simp: demo_node_fields demo_node_nat)

subsection \<open>Dropping a deleted node\<close>

text \<open>Equal but for the node cache, as far as the NAT, the SIT and the free-nid stack go.\<close>

lemma node_cache_frame:
  "nat_entry_of (fs\<lparr>node_cache := c\<rparr>) = nat_entry_of fs" "sit_entry_of (fs\<lparr>node_cache := c\<rparr>) = sit_entry_of fs"
  "lpa_live (fs\<lparr>node_cache := c\<rparr>) = lpa_live fs" "nid_ok (fs\<lparr>node_cache := c\<rparr>) = nid_ok fs"
  "nat_held (fs\<lparr>node_cache := c\<rparr>) = nat_held fs" "nid_chain (fs\<lparr>node_cache := c\<rparr>) = nid_chain fs"
  "sit_dev_ok (fs\<lparr>node_cache := c\<rparr>) = sit_dev_ok fs" "sitOperatorInit (fs\<lparr>node_cache := c\<rparr>) = sitOperatorInit fs"
proof -
  show n: "nat_entry_of (fs\<lparr>node_cache := c\<rparr>) = nat_entry_of fs" and s: "sit_entry_of (fs\<lparr>node_cache := c\<rparr>) = sit_entry_of fs"
    by (simp_all add: nat_entry_of_def sit_entry_of_def fun_eq_iff)
  show "lpa_live (fs\<lparr>node_cache := c\<rparr>) = lpa_live fs" "nid_ok (fs\<lparr>node_cache := c\<rparr>) = nid_ok fs"
    "nat_held (fs\<lparr>node_cache := c\<rparr>) = nat_held fs" "nid_chain (fs\<lparr>node_cache := c\<rparr>) = nid_chain fs"
    "sit_dev_ok (fs\<lparr>node_cache := c\<rparr>) = sit_dev_ok fs" "sitOperatorInit (fs\<lparr>node_cache := c\<rparr>) = sitOperatorInit fs"
    by (simp_all add: fun_eq_iff lpa_live_def s nid_ok_def nat_held_def nat_blk_def nid_chain_def n sit_dev_ok_def sitOperatorInit_def)
qed

text \<open>The resources of a deleted node are given back.\<close>

lemma nb_free_resources:
  assumes "nat_ready fs (Suc n)" and "nid_ok fs k" and "nat_held fs k" and "nid_chain fs xs" and "k \<noteq> INVALID_NID"
    and "k \<notin> set xs" and "sit_ready fs (Suc m)" and "sit_dev_ok fs lpa" and "lpa_live fs lpa" and "lpa \<noteq> INVALID_LPA"
  shows "\<exists>fs1 fs2. superManagerFreeNid fs k = Some fs1 \<and> sitInvalidateLpa fs1 (sitOperatorInit fs1) lpa = Some fs2 \<and>
    nid_chain fs2 (k # xs) \<and> (\<forall>l. lpa_live fs2 l \<longleftrightarrow> lpa_live fs l \<and> l \<noteq> lpa) \<and> node_cache fs2 = node_cache fs"
proof -
  obtain fs1 sb c j where f1: "superManagerFreeNid fs k = Some fs1" "nid_chain fs1 (k # xs)"
    "fs1 = fs\<lparr>super_blk_mem := sb, nat_cache := c, cur_journal := j\<rparr>" "\<forall>off. off + 4 \<le> SB_next_free_nid \<longrightarrow> get32 sb off = sb32 fs off"
    using superManagerFreeNid_spec [OF assms(1-6)] by blast
  have sb: "sb32 fs1 SB_sit_blkaddr = sb32 fs SB_sit_blkaddr" "sb32 fs1 SB_segment0_blkaddr = sb32 fs SB_segment0_blkaddr"
    using f1(3,4) by simp_all
  have sit: "sit_entry_of fs1 = sit_entry_of fs"
    using sb f1(3) by (intro sit_entry_of_cong) simp_all
  have live: "lpa_live fs1 = lpa_live fs" and dev: "sit_dev_ok fs1 = sit_dev_ok fs"
    using sb sit f1(3) by (simp_all add: lpa_live_def sit_dev_ok_def fun_eq_iff)
  have one: "(unat (lpa - seg0StartLpa op) mod 512 + unat (1 :: u32) + 511) div 512 = 1" for op
    using mod_less_divisor [of 512 "unat (lpa - seg0StartLpa op)"] by simp
  have rdy: "sit_ready fs1 (m + sit_rounds (sitOperatorInit fs1) lpa 1)"
    using assms(7) f1(3) one [of "sitOperatorInit fs1"] by (simp add: sit_rounds_def)
  have lt1: "l - lpa < 1 \<longleftrightarrow> l = lpa" for l
    by (simp add: word_less_1)
  have pre: "\<forall>l. l - lpa < 1 \<longrightarrow> sit_dev_ok fs1 l \<and> lpa_live fs1 l \<noteq> False"
    using assms(8,9) by (simp add: lt1 live dev)
  obtain fs2 where f2: "sitChangeLpaStateRange fs1 (sitOperatorInit fs1) lpa 1 False = Some fs2"
    "\<forall>l. lpa_live fs2 l = (if l - lpa < 1 then False else lpa_live fs1 l)"
    "fs2 = fs1\<lparr>sit_cache := sit_cache fs2, cur_journal := (cur_journal fs1)\<lparr>sitJournal := sitJournal (cur_journal fs2)\<rparr>\<rparr>"
    using sitChangeLpaStateRange_spec [OF assms(10) rdy pre] by blast
  have nat2: "nat_entry_of fs2 = nat_entry_of fs1" and sb2: "super_blk_mem fs2 = super_blk_mem fs1"
    and nc: "node_cache fs2 = node_cache fs1"
    by (subst f2(3), simp add: nat_entry_of_def fun_eq_iff)+
  have "nid_chain fs2 (k # xs)"
    using f1(2) by (simp add: nid_chain_def nat2 sb2)
  moreover have "node_cache fs2 = node_cache fs"
    using nc f1(3) by simp
  moreover have "\<forall>l. lpa_live fs2 l \<longleftrightarrow> lpa_live fs l \<and> l \<noteq> lpa"
    using f2(2) by (simp add: lt1 live)
  ultimately show ?thesis
    using f1(1) f2(1) unfolding sitInvalidateLpa_def by blast
qed

lemma nbc_heap_mgr_swap: "c\<lparr>nbc_heap := h, nbc_mgr := m\<rparr> = c\<lparr>nbc_mgr := m, nbc_heap := h\<rparr>"
  by (cases c) simp

lemma nb_drop_deleted:
  assumes "nbc_inv c" and "nb_ents c k = Some a" and "nb_refs c a = 1" and "nb_ext c k a = 1"
  defines "c1 \<equiv> c\<lparr>nbc_mgr := genericCacheManagerUnpin (nbc_mgr c) k, nbc_heap := (nbc_heap c)(a := (nbc_heap c a)\<lparr>nbe_refCount := 0\<rparr>)\<rparr>"
  obtains m c2 where "genericCacheManagerRemove (nbc_mgr c1) k = Some (Some a, m)"
    "c2 = c1\<lparr>nbc_mgr := m, nbc_cur := nbc_cur c1 - 1\<rparr>" "nbc_inv c2" "nb_ents c2 = (nb_ents c)(k := None)"
    "\<forall>p b. nb_ents c p = Some b \<longrightarrow> p \<noteq> k \<longrightarrow> nbc_heap c2 b = nbc_heap c b \<and>
       nb_ext c2 p b = nb_ext c p b + (if nb_par c a = p then 1 else 0)" "nb_par c a \<noteq> k"
proof -
  note rc = nbc_invD(1) [OF assms(1)]
  have nz: "nb_refs c a \<noteq> 0" and "unat (nb_refs c a) = 1"
    by (simp_all add: assms(3))
  then have "card (nb_kids c k) = 0"
    using assms(4) unfolding nb_ext_def by linarith
  then have kids: "nb_kids c k = {}"
    using nb_kids_finite [OF assms(1)] by simp
  note un = rc_ok_unpin [OF rc assms(2) nz]
  have f1: "nbc_heap c1 = (nbc_heap c)(a := (nbc_heap c a)\<lparr>nbe_refCount := 0\<rparr>)" "nb_ents c1 = nb_ents c"
    "nbc_next c1 = nbc_next c" "nbc_cur c1 = nbc_cur c" "nbc_mgr c1 = genericCacheManagerUnpin (nbc_mgr c) k"
    by (simp_all add: c1_def un(2))
  have "\<forall>j. nb_ents c j = Some a \<longrightarrow> card (nb_kids c j) \<le> unat (0 :: u32)"
    using nb_inj [OF assms(1,2)] kids by auto
  then have inv1: "nbc_inv c1" "nb_kids c1 = nb_kids c"
    using nbc_inv_refs [OF assms(1) f1(1,2,3,4) _] un(1) f1(5) by simp_all
  have e1: "nb_ents c1 k = Some a" "nb_refs c1 a = 0"
    using assms(2) f1(2) by (simp_all add: f1(1))
  obtain m where m: "genericCacheManagerRemove (nbc_mgr c1) k = Some (Some a, m)"
      "rc_ok m (nb_keys c1) (nb_refs c1) (nbc_next c1)" "gcm_entries m = (nb_ents c1)(k := None)"
    using rc_ok_remove [OF nbc_invD(1) [OF inv1(1)] e1(1)] by blast
  define c2 where "c2 = c1\<lparr>nbc_mgr := m, nbc_cur := nbc_cur c1 - 1\<rparr>"
  note drop = nb_drop [OF inv1(1) e1 m(2,3), folded c2_def]
  have par: "nb_par c1 a = nb_par c a" "nb_par c a \<noteq> k"
    using kids assms(2) by (auto simp: f1(1) nb_kids_def)
  have old: "nbc_heap c2 b = nbc_heap c b \<and> nb_ext c2 p b = nb_ext c p b + (if nb_par c a = p then 1 else 0)"
    if "nb_ents c p = Some b" "p \<noteq> k" for p b
  proof -
    have "b \<noteq> a" using nb_inj [OF assms(1,2)] that by blast
    then have "nbc_heap c2 b = nbc_heap c b" "nb_ext c1 p b = nb_ext c p b"
      by (simp_all add: c2_def f1(1) nb_ext_def inv1(2))
    then show ?thesis using drop(3) [of p b] that par(1) by (simp add: f1(2))
  qed
  show ?thesis
    by (rule that [OF m(1) c2_def drop(1)]) (use m(3) f1(2) old par(2) in \<open>auto simp: c2_def\<close>)
qed

text \<open>
  Claim C31. Dropping the last reference of a deleted node gives everything back. For a cached node in
  state deleted with one last handle and no cached child, whose LPA is live, whose nid is not free and
  whose parent, if any, is cached and not deleted, \<^verbatim>\<open>nodeBlockCacheEntryHandleDestroy\<close> returns; afterwards
  the node is not cached, its nid is on top of the free-nid stack, exactly its LPA became dead, the
  parent lost the reference of this child and no handle's, and the cache invariant holds.
\<close>

theorem deleted_node_is_freed:
  assumes "nbc_inv (node_cache fs)" and "nb_ents (node_cache fs) k = Some a" and "nb_refs (node_cache fs) a = 1"
    and "nb_ext (node_cache fs) k a = 1" and "nbe_state (nb_entry fs a) = NODE_BLOCK_CACHE_ENTRY_DELETED"
    and "nbe_lpa (nb_entry fs a) \<noteq> INVALID_LPA" and "lpa_live fs (nbe_lpa (nb_entry fs a))" and "sit_dev_ok fs (nbe_lpa (nb_entry fs a))"
    and "nat_ready fs (Suc n)" and "sit_ready fs (Suc m)" and "nid_ok fs k" and "nat_held fs k"
    and "nid_chain fs xs" and "k \<notin> set xs"
    and "\<forall>p. nb_ents (node_cache fs) (nb_par (node_cache fs) a) = Some p \<longrightarrow> nbe_state (nb_entry fs p) \<noteq> NODE_BLOCK_CACHE_ENTRY_DELETED"
  shows "\<exists>fs'. nodeBlockCacheEntryHandleDestroy fs (Some a) = Some fs' \<and> nbc_inv (node_cache fs') \<and>
    nb_ents (node_cache fs') = (nb_ents (node_cache fs))(k := None) \<and> nid_chain fs' (k # xs) \<and>
    (\<forall>l. lpa_live fs' l \<longleftrightarrow> lpa_live fs l \<and> l \<noteq> nbe_lpa (nb_entry fs a)) \<and>
    (\<forall>j b. nb_ents (node_cache fs') j = Some b \<longrightarrow> nb_ext (node_cache fs') j b = nb_ext (node_cache fs) j b)"
proof -
  let ?c = "node_cache fs" and ?e = "nb_entry fs a"
  define c1 where "c1 = ?c\<lparr>nbc_mgr := genericCacheManagerUnpin (nbc_mgr ?c) k, nbc_heap := (nbc_heap ?c)(a := ?e\<lparr>nbe_refCount := 0\<rparr>)\<rparr>"
  let ?fs1 = "fs\<lparr>node_cache := c1\<rparr>"
  obtain mg c2 where d: "genericCacheManagerRemove (nbc_mgr c1) k = Some (Some a, mg)"
    "c2 = c1\<lparr>nbc_mgr := mg, nbc_cur := nbc_cur c1 - 1\<rparr>" "nbc_inv c2" "nb_ents c2 = (nb_ents ?c)(k := None)"
    "\<forall>p b. nb_ents ?c p = Some b \<longrightarrow> p \<noteq> k \<longrightarrow> nbc_heap c2 b = nbc_heap ?c b \<and>
       nb_ext c2 p b = nb_ext ?c p b + (if nb_par ?c a = p then 1 else 0)" "nb_par ?c a \<noteq> k"
    unfolding c1_def by (rule nb_drop_deleted [OF assms(1-4)])
  have key: "nbe_nid ?e = k" and k0: "k \<noteq> INVALID_NID"
    using rc_okD(2) [OF nbc_invD(1) [OF assms(1)] assms(2)] nbc_invD(3) [OF assms(1)] assms(2) by auto
  obtain fs1 fs2 where r: "superManagerFreeNid ?fs1 k = Some fs1"
    "sitInvalidateLpa fs1 (sitOperatorInit fs1) (nbe_lpa ?e) = Some fs2" "nid_chain fs2 (k # xs)"
    "\<forall>l. lpa_live fs2 l \<longleftrightarrow> lpa_live fs l \<and> l \<noteq> nbe_lpa ?e" "node_cache fs2 = c1"
    using nb_free_resources [of ?fs1 n k xs m "nbe_lpa ?e"] assms(6-14) k0 by (auto simp: node_cache_frame)
  let ?fs3 = "fs2\<lparr>node_cache := c2\<rparr>"
  have e1: "nbc_heap c1 a = ?e\<lparr>nbe_refCount := 0\<rparr>"
    by (simp add: c1_def)
  have rel: "nodeBlockCacheRelease ?fs1 a = Some ?fs3"
    using assms(6) e1 by (simp add: nodeBlockCacheRelease_def Let_def key r d(1,2))
  have sub: "nodeBlockCacheSubRefCount fs a = (if nb_par ?c a \<noteq> INVALID_NID then do {
      (parentEntry, m) \<leftarrow> genericCacheManagerGet (nbc_mgr c2) (nb_par ?c a) False;
      case parentEntry of None \<Rightarrow> None | Some p \<Rightarrow> nodeBlockCacheSubRefCount (nb_set_mgr ?fs3 m) p } else Some ?fs3)"
    using rel assms(3,5) key
    by (subst nodeBlockCacheSubRefCount.simps) (simp add: Let_def nb_set_def nb_set_mgr_def c1_def nbc_heap_mgr_swap)
  show ?thesis
  proof (cases "nb_par ?c a = INVALID_NID")
    case True
    have "nb_ext c2 j b = nb_ext ?c j b" if "nb_ents c2 j = Some b" for j b
    proof -
      have j: "nb_ents ?c j = Some b" "j \<noteq> k" "j \<noteq> 0"
        using d(4) that nbc_invD(3) [OF assms(1)] by (auto split: if_splits)
      then show ?thesis using d(5) [rule_format, OF j(1,2)] True by simp
    qed
    with True show ?thesis
      using sub d(3,4) r(3,4) by (intro exI [of _ ?fs3]) (auto simp: nodeBlockCacheEntryHandleDestroy_def node_cache_frame)
  next
    case False
    let ?p = "nb_par ?c a"
    obtain p where p: "nb_ents ?c ?p = Some p"
      using nbc_invD(5) [OF assms(1,2) False] by auto
    then have p2: "nb_ents c2 ?p = Some p" "c2 = node_cache ?fs3" "0 < nb_ext c2 ?p p"
      "nb_refs c2 p = 1 \<longrightarrow> nbe_state (nbc_heap c2 p) \<noteq> NODE_BLOCK_CACHE_ENTRY_DELETED"
      using d(4,5,6) assms(15) by auto
    obtain c3 where c3: "nodeBlockCacheSubRefCount ?fs3 p = Some (?fs3\<lparr>node_cache := c3\<rparr>)" "nbc_inv c3" "nb_kids c3 = nb_kids c2"
      "c3 = c2\<lparr>nbc_mgr := nbc_mgr c3, nbc_heap := (nbc_heap c2)(p := (nbc_heap c2 p)\<lparr>nbe_refCount := nb_refs c2 p - 1\<rparr>)\<rparr>"
      "nb_ents c3 = nb_ents c2"
      by (rule nb_sub_ref [OF d(3) p2(2,1,3,4)])
    have h3: "nbc_heap c3 = (nbc_heap c2)(p := (nbc_heap c2 p)\<lparr>nbe_refCount := nb_refs c2 p - 1\<rparr>)"
      by (subst c3(4)) simp
    have nz: "nb_refs c2 p \<noteq> 0"
      using p2(3) by (auto simp: nb_ext_def)
    have "nb_ext c3 j b = nb_ext ?c j b" if "nb_ents c3 j = Some b" for j b
    proof -
      have j: "nb_ents ?c j = Some b" "j \<noteq> k"
        using that c3(5) d(4) by (auto split: if_splits)
      have "nb_ext c3 j b = nb_ext c2 j b - (if j = ?p then 1 else 0)"
      proof (cases "j = ?p")
        case True
        then have "b = p" using p j(1) by simp
        with True show ?thesis using unat_minus_one [OF nz] by (simp add: nb_ext_def c3(3) h3)
      next
        case False
        then have "b \<noteq> p" using nb_inj [OF assms(1) p] j(1) by blast
        with False show ?thesis by (simp add: nb_ext_def c3(3) h3)
      qed
      then show ?thesis using d(5) [rule_format, OF j] by simp
    qed
    moreover have "nodeBlockCacheSubRefCount fs a = Some (?fs3\<lparr>node_cache := c3\<rparr>)"
      using sub False p2(1) c3(1) by (simp add: nb_mgr_get nb_set_mgr_def)
    ultimately show ?thesis
      using c3(2,5) d(4) r(3,4) by (intro exI [of _ "?fs3\<lparr>node_cache := c3\<rparr>"])
        (simp add: nodeBlockCacheEntryHandleDestroy_def node_cache_frame)
  qed
qed

subsection \<open>Dirty entries are not protected\<close>

text \<open>
  Claim C32. A dirty node without a handle is evicted and its change is lost. Take an inode that only
  one handle refers to, in a cache that is over its expected size and has nothing else to evict. After
  \<^verbatim>\<open>nodeBlockCacheEntryHandleMarkDirty\<close>, the release of the handle and a replacement, the node is no
  longer cached although its entry is on the dirty list: what the file system sees for the nid is the
  block of the medium again, and a write-back that still writes the listed entry records its
  relocation in an object that neither \<^verbatim>\<open>nodeBlockCacheCollectPendingCowRelocations\<close> nor
  \<^verbatim>\<open>nodeBlockCacheApplyPendingCowRelocations\<close> reaches, because both walk the index.
\<close>

theorem dirty_node_is_evicted:
  assumes "nbc_inv (node_cache fs)" and "nb_ents (node_cache fs) nid = Some a" and "nb_refs (node_cache fs) a = 1"
    and "nb_ext (node_cache fs) nid a = 1" and "nbe_state (nb_entry fs a) = NODE_BLOCK_CACHE_ENTRY_UPTODATE"
    and "nb_par (node_cache fs) a = INVALID_NID" and "gcm_free (nbc_mgr (node_cache fs)) = []"
    and "nbc_expect (node_cache fs) < nbc_cur (node_cache fs)"
  shows "\<exists>fs1 fs2 fs'. nodeBlockCacheEntryHandleMarkDirty fs a = Some fs1 \<and>
    nodeBlockCacheEntryHandleDestroy fs1 (Some a) = Some fs2 \<and> nodeBlockCacheForceReplace fs2 = Some fs' \<and>
    a \<in> set (nbc_dirtyList (node_cache fs')) \<and> nbe_state (nb_entry fs' a) = NODE_BLOCK_CACHE_ENTRY_DIRTY \<and>
    (\<forall>k. nb_ents (node_cache fs') k \<noteq> Some a) \<and>
    nb_view fs' nid = media (fs_dev fs) (LPA_TO_LBA32 (nat_block_addr (nat_entry_of fs nid)))"
proof -
  let ?c = "node_cache fs"
  let ?c1 = "?c\<lparr>nbc_heap := (nbc_heap ?c)(a := (nbc_heap ?c a)\<lparr>nbe_state := NODE_BLOCK_CACHE_ENTRY_DIRTY\<rparr>),
      nbc_dirtyList := nbc_dirtyList ?c @ [a], nbc_dirtyPos := insert a (nbc_dirtyPos ?c)\<rparr>"
  let ?fs1 = "fs\<lparr>node_cache := ?c1\<rparr>"
  have d: "nodeBlockCacheEntryHandleMarkDirty fs a = Some ?fs1"
    using assms(5) by (simp add: nodeBlockCacheEntryHandleMarkDirty_def nodeBlockCacheMarkDirty_def nb_set_def)
  have h1: "nb_keys ?c1 = nb_keys ?c" "nb_refs ?c1 = nb_refs ?c" "nb_par ?c1 = nb_par ?c"
    by auto
  have k1: "nb_kids ?c1 = nb_kids ?c"
    using fun_cong [OF h1(3)] by (simp add: nb_kids_def fun_eq_iff)
  have inv1: "nbc_inv ?c1"
    using assms(1) fun_cong [OF h1(2)] fun_cong [OF h1(3)] unfolding nbc_inv_def k1 h1(1,2) by simp
  have e1: "0 < nb_ext ?c1 nid a"
    using assms(4) fun_cong [OF h1(2), of a] by (simp add: nb_ext_def k1)
  obtain c2 where c2: "nodeBlockCacheSubRefCount ?fs1 a = Some (?fs1\<lparr>node_cache := c2\<rparr>)" "nbc_inv c2" "nb_kids c2 = nb_kids ?c1"
    "c2 = ?c1\<lparr>nbc_mgr := nbc_mgr c2, nbc_heap := (nbc_heap ?c1)(a := (nbc_heap ?c1 a)\<lparr>nbe_refCount := nb_refs ?c1 a - 1\<rparr>)\<rparr>"
    "nb_ents c2 = nb_ents ?c1"
    "gcm_free (nbc_mgr c2) = (if nb_refs ?c1 a = 1 then gcm_free (nbc_mgr ?c1) @ [nid] else gcm_free (nbc_mgr ?c1))"
    by (rule nb_sub_ref [OF inv1 _ _ e1, of ?fs1]) (use assms(2) in simp_all)
  have h2: "nbc_heap c2 = (nbc_heap ?c)(a := (nbc_heap ?c a)\<lparr>nbe_state := NODE_BLOCK_CACHE_ENTRY_DIRTY, nbe_refCount := 0\<rparr>)"
    "nbc_next c2 = nbc_next ?c" "nbc_expect c2 = nbc_expect ?c" "nbc_cur c2 = nbc_cur ?c"
    "nbc_dirtyList c2 = nbc_dirtyList ?c @ [a]"
    by (subst c2(4), simp add: assms(3))+
  have free: "gcm_free (nbc_mgr c2) = [nid]" and ents2: "nb_ents c2 = nb_ents ?c"
    using c2(5,6) assms(3,7) by simp_all
  obtain m b where m: "genericCacheManagerReplaceOne (nbc_mgr c2) = Some (Some b, m)" "gcm_entries m = (nb_ents c2)(nid := None)"
      "nb_ents c2 nid = Some b" "rc_ok m (nb_keys c2) (nb_refs c2) (nbc_next c2)" "gcm_free m = []"
    using rc_ok_replace [OF nbc_invD(1) [OF c2(2)] free] by blast
  then have b: "b = a"
    using ents2 assms(2) by simp
  let ?fs2 = "fs\<lparr>node_cache := c2\<rparr>"
  define c3 where "c3 = c2\<lparr>nbc_mgr := m, nbc_cur := nbc_cur c2 - 1\<rparr>"
  have h3: "nbc_mgr c3 = m" "nbc_heap c3 = nbc_heap c2" "nbc_dirtyList c3 = nbc_dirtyList c2"
    by (simp_all add: c3_def)
  have round1: "nodeBlockCacheReplaceRound ?fs2 = Some (Some a, fs\<lparr>node_cache := c3\<rparr>)"
    using m(1) assms(6) by (simp add: nodeBlockCacheReplaceRound_def b h2(1) c3_def)
  have round2: "nodeBlockCacheReplaceRound (fs\<lparr>node_cache := c3\<rparr>) = Some (None, fs\<lparr>node_cache := c3\<rparr>)"
    using gm.m_replace_none [OF rc_ok_gcm [OF m(4)] m(5)] by (simp add: nodeBlockCacheReplaceRound_def nb_set_mgr_def c3_def)
  have "nodeBlockCacheReplaceLoop (fs\<lparr>node_cache := c3\<rparr>) = Some (fs\<lparr>node_cache := c3\<rparr>)"
    by (subst nodeBlockCacheReplaceLoop.simps) (simp add: round2)
  then have "nodeBlockCacheReplaceLoop ?fs2 = Some (fs\<lparr>node_cache := c3\<rparr>)"
    by (subst nodeBlockCacheReplaceLoop.simps) (simp add: round1)
  then have r: "nodeBlockCacheForceReplace ?fs2 = Some (fs\<lparr>node_cache := c3\<rparr>)"
    using assms(8) h2(3,4) by (simp add: nodeBlockCacheForceReplace_def nodeBlockCacheDoReplace_def)
  have nat: "nat_entry_of (fs\<lparr>node_cache := c3\<rparr>) = nat_entry_of fs"
    by (rule ext) (simp add: nat_entry_of_def)
  have "nb_view (fs\<lparr>node_cache := c3\<rparr>) nid = media (fs_dev fs) (LPA_TO_LBA32 (nat_block_addr (nat_entry_of fs nid)))"
    by (rule ext) (simp add: nb_view_def m(2) nat h3)
  moreover have "\<forall>k. nb_ents c3 k \<noteq> Some a"
    using nb_inj [OF assms(1,2)] ents2 by (auto simp: m(2) h3)
  moreover have "nodeBlockCacheEntryHandleDestroy ?fs1 (Some a) = Some ?fs2"
    using c2(1) by (simp add: nodeBlockCacheEntryHandleDestroy_def)
  ultimately show ?thesis
    using d r h2(1,5) h3 by (intro exI [of _ ?fs1] exI [of _ ?fs2] exI [of _ "fs\<lparr>node_cache := c3\<rparr>"]) simp
qed

text \<open>A cache of expected size 0 that holds one referenced inode, changed in memory.\<close>

definition demo_dirty_fs :: file_system_manager where
  "demo_dirty_fs = demo_node_fs\<lparr>node_cache := \<lparr>
     nbc_mgr = genericCacheManagerPin (the (genericCacheManagerAdd genericCacheManagerInit 700 0)) 700,
     nbc_heap = \<lambda>_. (nodeBlockCacheEntryInit zero_block (put32 demo_node 100 1) 700 0 150)\<lparr>nbe_refCount := 1\<rparr>,
     nbc_next = 1, nbc_expect = 0, nbc_cur = 1, nbc_dirtyList = [], nbc_dirtyPos = {}\<rparr>\<rparr>"

lemma demo_dirty:
  "nbc_inv (node_cache demo_dirty_fs)" "nb_ents (node_cache demo_dirty_fs) = [700 \<mapsto> 0]"
  "gcm_free (nbc_mgr (node_cache demo_dirty_fs)) = []" "nb_kids (node_cache demo_dirty_fs) 700 = {}"
proof -
  let ?c = "node_cache demo_dirty_fs"
  obtain m :: "nat GenericCacheManager" where
    m: "genericCacheManagerAdd genericCacheManagerInit 700 0 = Some m" "rc_ok m (\<lambda>_. 700) (\<lambda>_. 0) (Suc 0)"
      "gcm_entries m = [700 \<mapsto> 0]" "gcm_free m = [700]"
    using rc_ok_add [OF rc_ok_init, where k = 700 and key = "\<lambda>_. 700" and ref = "\<lambda>_. 0" and n = 0] by (auto simp: gcm_init fun_upd_idem)
  have c: "nbc_mgr ?c = genericCacheManagerPin m 700" "nb_keys ?c = (\<lambda>_. 700)" "nb_refs ?c = (\<lambda>_. 1)" "nbc_next ?c = 1"
    "nb_par ?c = (\<lambda>_. 0)" "nbc_cur ?c = 1"
    by (simp_all add: demo_dirty_fs_def m(1) nodeBlockCacheEntryInit_def)
  have "rc_ok (genericCacheManagerPin m 700) (\<lambda>_. 700) ((\<lambda>_. 0)(0 := 1)) (Suc 0)"
    using rc_ok_pin(1) [OF m(2), where k = 700 and a = 0 and r = 1] m(3) by simp
  note pin = this
  show e: "nb_ents ?c = [700 \<mapsto> 0]"
    using rc_ok_pin(2) [OF m(2), where k = 700 and a = 0 and r = 1] m(3) unfolding c by simp
  show free: "gcm_free (nbc_mgr ?c) = []"
    using rc_ok_pin(3) [OF m(2), where k = 700 and a = 0 and r = 1] m(3,4) unfolding c by simp
  have rc: "rc_ok (nbc_mgr ?c) (nb_keys ?c) (nb_refs ?c) (nbc_next ?c)"
  proof (rule rc_okI)
    show "gcm_inv (nbc_mgr ?c)"
      using rc_ok_gcm [OF pin] c(1) by simp
    show "a < nbc_next ?c \<and> nb_keys ?c a = k \<and> (k \<in> set (gcm_free (nbc_mgr ?c)) \<longleftrightarrow> nb_refs ?c a = 0)"
      if "nb_ents ?c k = Some a" for k a
      using that e free fun_cong [OF c(2), of a] fun_cong [OF c(3), of a] c(4) by (simp split: if_splits)
  qed
  have kids: "nb_kids ?c k = {}" if "k \<noteq> 0" for k
    using that fun_cong [OF c(5)] by (simp add: nb_kids_def)
  then show "nb_kids ?c 700 = {}" by simp
  show "nbc_inv ?c"
    using rc fun_cong [OF c(5)] kids c(6) unfolding nbc_inv_def e by (auto split: if_splits)
qed

lemma dirty_node_is_evicted_witness:
  "\<exists>fs1 fs2 fs'. nodeBlockCacheEntryHandleMarkDirty demo_dirty_fs 0 = Some fs1 \<and>
    nodeBlockCacheEntryHandleDestroy fs1 (Some 0) = Some fs2 \<and> nodeBlockCacheForceReplace fs2 = Some fs' \<and>
    nb_view demo_dirty_fs 700 100 = 1 \<and> nb_view fs' 700 100 = 0"
proof -
  have f: "nb_entry demo_dirty_fs 0 = (nodeBlockCacheEntryInit zero_block (put32 demo_node 100 1) 700 0 150)\<lparr>nbe_refCount := 1\<rparr>"
    "nbc_expect (node_cache demo_dirty_fs) = 0" "nbc_cur (node_cache demo_dirty_fs) = 1" "fs_dev demo_dirty_fs = fs_dev demo_node_fs"
    by (simp_all add: demo_dirty_fs_def)
  have nat: "nat_entry_of demo_dirty_fs = nat_entry_of demo_node_fs"
    by (rule ext) (simp add: nat_entry_of_def demo_dirty_fs_def)
  have "nb_ext (node_cache demo_dirty_fs) 700 0 = 1"
    by (simp add: nb_ext_def demo_dirty(4) f(1))
  moreover have "nb_view demo_dirty_fs 700 100 = 1"
    by (simp add: nb_view_def demo_dirty(2) f(1) nodeBlockCacheEntryInit_def blockBufferCopy_def put32_def)
  moreover have "media (fs_dev demo_dirty_fs) (LPA_TO_LBA32 (nat_block_addr (nat_entry_of demo_dirty_fs 700))) 100 = 0"
    by (simp add: nat demo_node_nat f(4)) (simp add: demo_node_fs_def LPA_TO_LBA32_def demo_node_def put32_def zero_block_def)
  ultimately show ?thesis
    using dirty_node_is_evicted [OF demo_dirty(1), of 700 0] demo_dirty(2,3) f(1,2,3)
    by (fastforce simp: nodeBlockCacheEntryInit_def)
qed

text \<open>The same inode, deleted; block 150 is live in the SIT.\<close>

definition demo_deleted_fs :: file_system_manager where
  "demo_deleted_fs = demo_dirty_fs\<lparr>
     fs_dev := (fs_dev demo_node_fs)\<lparr>media := (media (fs_dev demo_node_fs))(80 := zero_block(10 := 4))\<rparr>,
     node_cache := (node_cache demo_dirty_fs)\<lparr>nbc_heap := \<lambda>_. (nbc_heap (node_cache demo_dirty_fs) 0)
       \<lparr>nbe_state := NODE_BLOCK_CACHE_ENTRY_DELETED\<rparr>\<rparr>\<rparr>"

lemma demo_deleted_sb: "sb32 demo_deleted_fs = sb32 demo_fs" "sit_cache demo_deleted_fs = sitNatCacheInit 100"
  "nat_cache demo_deleted_fs = sitNatCacheInit 100"
  by (simp_all add: demo_deleted_fs_def demo_dirty_fs_def demo_node_fs_def fun_eq_iff)

lemma demo_deleted_cache: "nbc_inv (node_cache demo_deleted_fs)" "nb_ents (node_cache demo_deleted_fs) = [700 \<mapsto> 0]"
  "nb_kids (node_cache demo_deleted_fs) 700 = {}"
proof -
  let ?c = "node_cache demo_deleted_fs" and ?d = "node_cache demo_dirty_fs"
  have f: "nb_keys ?c = nb_keys ?d" "nb_refs ?c = nb_refs ?d" "nb_par ?c = nb_par ?d" "nbc_mgr ?c = nbc_mgr ?d"
    "nbc_next ?c = nbc_next ?d" "nbc_cur ?c = nbc_cur ?d"
    by (simp_all add: demo_deleted_fs_def demo_dirty_fs_def)
  then have k: "nb_kids ?c = nb_kids ?d"
    by (simp add: nb_kids_def fun_eq_iff)
  show "nbc_inv ?c" "nb_ents ?c = [700 \<mapsto> 0]" "nb_kids ?c 700 = {}"
    using demo_dirty fun_cong [OF f(2)] fun_cong [OF f(3)] unfolding nbc_inv_def k f by simp_all
qed

lemma deleted_node_is_freed_witness:
  "\<exists>fs'. nodeBlockCacheEntryHandleDestroy demo_deleted_fs (Some 0) = Some fs' \<and> nb_ents (node_cache fs') 700 = None \<and>
     nid_chain fs' [700, 9] \<and> lpa_live demo_deleted_fs 150 \<and> \<not> lpa_live fs' 150"
proof -
  let ?fs = "demo_deleted_fs"
  have e: "nb_entry ?fs 0 = (nodeBlockCacheEntryInit zero_block (put32 demo_node 100 1) 700 0 150)
      \<lparr>nbe_refCount := 1, nbe_state := NODE_BLOCK_CACHE_ENTRY_DELETED\<rparr>"
    by (simp add: demo_deleted_fs_def demo_dirty_fs_def)
  have dev: "dev_ok (fs_dev ?fs) l" if "l < 2048" for l
    using demo_dev_ok [OF that] by (simp add: demo_deleted_fs_def demo_node_fs_def)
  have "sit_entry_of ?fs 0 = getSitEntry (zero_block(10 := 4)) 0"
    by (simp add: sit_entry_of_def snc_view_def demo_deleted_sb snc_init(2) demo_sb LPA_TO_LBA32_def) (simp add: demo_deleted_fs_def)
  then have live: "lpa_live ?fs 150"
    by (simp add: lpa_live_def Let_def demo_deleted_sb demo_sb sit_bit_def getSitEntry_def)
  have sit: "sit_dev_ok ?fs 150"
    using dev [of 10] by (simp add: sit_dev_ok_def demo_deleted_sb demo_sb)
  have nid: "nid_ok ?fs 700"
    using dev [of 21] by (simp add: nid_ok_def demo_deleted_sb demo_sb)
  have held: "nat_held ?fs 700"
    by (simp add: nat_held_def demo_deleted_sb) (simp add: sitNatCacheInit_def)
  have "nat_block_addr (nat_entry_of ?fs 9) = 0"
    by (simp add: nat_entry_of_def snc_view_def demo_deleted_sb snc_init(2) demo_sb LPA_TO_LBA32_def getNatEntry_def)
      (simp add: demo_deleted_fs_def demo_node_fs_def demo_dev_def)
  then have chain: "nid_chain ?fs [9]"
    by (simp add: nid_chain_def demo_deleted_sb demo_sb)
  have ext: "nb_refs (node_cache ?fs) 0 = 1" "nb_ext (node_cache ?fs) 700 0 = 1"
    by (simp_all add: nb_ext_def demo_deleted_cache(3) e)
  have rdy: "nat_ready ?fs (Suc 0)" "sit_ready ?fs (Suc 0)"
    by (simp_all add: demo_deleted_sb snc_ready_init)
  show ?thesis
    using deleted_node_is_freed [OF demo_deleted_cache(1) _ ext _ _ _ _ rdy nid held chain] demo_deleted_cache(2) live sit
    by (fastforce simp: e nodeBlockCacheEntryInit_def)
qed

end
