(* ===== verification/Page_Cache.thy ===== *)
theory Page_Cache
  imports Cache_Refcount Block_Io
begin

text \<open>
  The page cache of a file, \<^verbatim>\<open>src/src/cache/page_cache.c\<close>: data pages keyed by their block offset in
  the file, with reference counts, replacement that reuses the victim's memory, and the ordered set of
  dirty pages, which holds one reference on each of its pages. Entries are heap objects and a handle is
  the address of its entry (\<open>None\<close> for an empty one). The tree \<^verbatim>\<open>ktdpn\<close> is represented by its nodes
  (offset, entry) in order; \<open>dp_put\<close>, \<open>dp_upper\<close> and \<open>dp_del\<close> are what \<^verbatim>\<open>kb_put\<close>, \<^verbatim>\<open>kb_interval\<close> and
  \<^verbatim>\<open>kb_del\<close> do to that sequence. The atomic counters and flags are plain fields, because calls run one after
  the other.
\<close>

subsection \<open>Entries and state\<close>

datatype PageState = PAGE_INVALID | PAGE_READY

record PageEntry =
  pe_blkoff :: u32
  pe_lpa :: u32
  pe_contentState :: PageState
  pe_page :: block
  pe_refCount :: u32
  pe_isDirty :: bool

record PageCache =
  pc_mgr :: "nat GenericCacheManager"
  pc_heap :: "nat \<Rightarrow> PageEntry"
  pc_next :: nat
  pc_dirtyPages :: "(u32 \<times> nat) list"
  pc_expectSize :: nat
  pc_curSize :: nat

definition pageEntryInit :: "block \<Rightarrow> u32 \<Rightarrow> PageEntry" where
  "pageEntryInit junk blkoff =
     \<lparr>pe_blkoff = blkoff, pe_lpa = INVALID_LPA, pe_contentState = PAGE_INVALID, pe_page = blockBufferInit junk,
      pe_refCount = 0, pe_isDirty = False\<rparr>"

abbreviation pc_set :: "PageCache \<Rightarrow> nat \<Rightarrow> PageEntry \<Rightarrow> PageCache" where
  "pc_set c a e \<equiv> c\<lparr>pc_heap := (pc_heap c)(a := e)\<rparr>"

definition pageEntryGetBuffer :: "PageCache \<Rightarrow> nat \<Rightarrow> block" where
  "pageEntryGetBuffer c a = pe_page (pc_heap c a)"

definition pageEntryGetState :: "PageCache \<Rightarrow> nat \<Rightarrow> PageState" where
  "pageEntryGetState c a = pe_contentState (pc_heap c a)"

definition pageEntrySetState :: "PageCache \<Rightarrow> nat \<Rightarrow> PageState \<Rightarrow> PageCache" where
  "pageEntrySetState c a s = pc_set c a ((pc_heap c a)\<lparr>pe_contentState := s\<rparr>)"

definition pageEntryGetBlkoff :: "PageCache \<Rightarrow> nat \<Rightarrow> u32" where
  "pageEntryGetBlkoff c a = pe_blkoff (pc_heap c a)"

definition pageEntryGetLpa :: "PageCache \<Rightarrow> nat \<Rightarrow> u32" where
  "pageEntryGetLpa c a = pe_lpa (pc_heap c a)"

definition pageEntrySetLpa :: "PageCache \<Rightarrow> nat \<Rightarrow> u32 \<Rightarrow> PageCache" where
  "pageEntrySetLpa c a lpa = pc_set c a ((pc_heap c a)\<lparr>pe_lpa := lpa\<rparr>)"

subsection \<open>References\<close>

definition pageCacheAddRefCount :: "PageCache \<Rightarrow> nat \<Rightarrow> PageCache option" where
  "pageCacheAddRefCount c a =
     (let e = pc_heap c a; c = pc_set c a (e\<lparr>pe_refCount := pe_refCount e + 1\<rparr>) in
      if pe_refCount e = 0 then do {
        c_assert (\<not> pe_isDirty e);
        Some (c\<lparr>pc_mgr := genericCacheManagerPin (pc_mgr c) (pe_blkoff e)\<rparr>)
      } else Some c)"

definition pageCacheSubRefCount :: "PageCache \<Rightarrow> nat \<Rightarrow> PageCache option" where
  "pageCacheSubRefCount c a =
     (let e = pc_heap c a; c = pc_set c a (e\<lparr>pe_refCount := pe_refCount e - 1\<rparr>) in
      if pe_refCount e = 1 then do {
        c_assert (\<not> pe_isDirty e);
        Some (c\<lparr>pc_mgr := genericCacheManagerUnpin (pc_mgr c) (pe_blkoff e)\<rparr>)
      } else Some c)"

definition pageEntryHandleDoAddRef :: "PageCache \<Rightarrow> nat option \<Rightarrow> PageCache option" where
  "pageEntryHandleDoAddRef c h = (case h of None \<Rightarrow> Some c | Some a \<Rightarrow> pageCacheAddRefCount c a)"

definition pageEntryHandleDoSubRef :: "PageCache \<Rightarrow> nat option \<Rightarrow> PageCache option" where
  "pageEntryHandleDoSubRef c h = (case h of None \<Rightarrow> Some c | Some a \<Rightarrow> pageCacheSubRefCount c a)"

definition pageEntryHandleDestroy :: "PageCache \<Rightarrow> nat option \<Rightarrow> PageCache option" where
  "pageEntryHandleDestroy c h = (case h of None \<Rightarrow> Some c | Some a \<Rightarrow> pageCacheSubRefCount c a)"

definition pageEntryHandleCopy :: "PageCache \<Rightarrow> nat option \<Rightarrow> (nat option \<times> PageCache) option" where
  "pageEntryHandleCopy c other = do { c \<leftarrow> pageEntryHandleDoAddRef c other; Some (other, c) }"

subsection \<open>The tree of dirty pages\<close>

fun dp_put :: "(u32 \<times> nat) list \<Rightarrow> u32 \<times> nat \<Rightarrow> (u32 \<times> nat) list" where
  "dp_put [] n = [n]"
| "dp_put (m # ms) n = (if fst n < fst m then n # m # ms else m # dp_put ms n)"

definition dp_upper :: "(u32 \<times> nat) list \<Rightarrow> u32 \<Rightarrow> (u32 \<times> nat) option" where
  "dp_upper ms q = find (\<lambda>m. q \<le> fst m) ms"

definition dp_del :: "(u32 \<times> nat) list \<Rightarrow> u32 \<times> nat \<Rightarrow> (u32 \<times> nat) list" where
  "dp_del ms n = remove1 n ms"

definition pageEntryMarkDirty :: "PageCache \<Rightarrow> nat \<Rightarrow> bool \<times> PageCache" where
  "pageEntryMarkDirty c a =
     (if pe_isDirty (pc_heap c a) then (False, c)
      else (True, pc_set c a ((pc_heap c a)\<lparr>pe_isDirty := True\<rparr>)))"

definition pageCacheAddToDirtyPages :: "PageCache \<Rightarrow> nat \<Rightarrow> PageCache option" where
  "pageCacheAddToDirtyPages c a = do {
     c_assert (pe_refCount (pc_heap c a) \<ge> 1);
     (h, c) \<leftarrow> pageEntryHandleCopy c (Some a);
     Some (c\<lparr>pc_dirtyPages := dp_put (pc_dirtyPages c) (pe_blkoff (pc_heap c a), a)\<rparr>)
   }"

definition pageEntryHandleMakeDirty :: "PageCache \<Rightarrow> nat \<Rightarrow> PageCache option" where
  "pageEntryHandleMakeDirty c a =
     (let (mine, c) = pageEntryMarkDirty c a in if mine then pageCacheAddToDirtyPages c a else Some c)"

definition pageCacheGetDirtyPages :: "PageCache \<Rightarrow> (u32 \<times> nat) list" where
  "pageCacheGetDirtyPages c = pc_dirtyPages c"

text \<open>The walk over the tree that clears the dirty flags and drops the tree's references.\<close>

fun pc_release :: "PageCache \<Rightarrow> (u32 \<times> nat) list \<Rightarrow> PageCache option" where
  "pc_release c [] = Some c"
| "pc_release c (n # ns) = do {
     c \<leftarrow> pageEntryHandleDestroy (pc_set c (snd n) ((pc_heap c (snd n))\<lparr>pe_isDirty := False\<rparr>)) (Some (snd n));
     pc_release c ns
   }"

definition pageCacheClearDirtyPages :: "PageCache \<Rightarrow> PageCache option" where
  "pageCacheClearDirtyPages c = do {
     c \<leftarrow> pc_release c (pc_dirtyPages c);
     Some (c\<lparr>pc_dirtyPages := []\<rparr>)
   }"

partial_function (option) pageCacheTruncateLoop :: "PageCache \<Rightarrow> (u32 \<times> nat) option \<Rightarrow> PageCache option" where
  "pageCacheTruncateLoop c upper =
     (case upper of
        None \<Rightarrow> Some c
      | Some n \<Rightarrow> do {
          let c = pc_set c (snd n) ((pc_heap c (snd n))\<lparr>pe_isDirty := False, pe_contentState := PAGE_INVALID\<rparr>);
          let c = c\<lparr>pc_dirtyPages := dp_del (pc_dirtyPages c) n\<rparr>;
          c \<leftarrow> pageEntryHandleDestroy c (Some (snd n));
          pageCacheTruncateLoop c (dp_upper (pc_dirtyPages c) (fst n))
        })"

definition pageCacheTruncate :: "PageCache \<Rightarrow> u32 \<Rightarrow> PageCache option" where
  "pageCacheTruncate c maxBlkoff =
     (case dp_upper (pc_dirtyPages c) maxBlkoff of
        None \<Rightarrow> Some c
      | Some n \<Rightarrow>
          if fst n \<le> maxBlkoff then pageCacheTruncateLoop c (dp_upper (pc_dirtyPages c) (1 + maxBlkoff))
          else pageCacheTruncateLoop c (Some n))"

subsection \<open>The cache\<close>

definition pageCacheInit :: "nat \<Rightarrow> (nat \<Rightarrow> PageEntry) \<Rightarrow> PageCache" where
  "pageCacheInit expectSize heap =
     \<lparr>pc_mgr = genericCacheManagerInit, pc_heap = heap, pc_next = 0, pc_dirtyPages = [],
      pc_expectSize = expectSize, pc_curSize = 0\<rparr>"

definition pageCacheDestroy :: "PageCache \<Rightarrow> PageCache option" where
  "pageCacheDestroy c = do {
     let c = c\<lparr>pc_curSize := 0, pc_expectSize := 0\<rparr>;
     c \<leftarrow> pc_release c (pc_dirtyPages c);
     Some (c\<lparr>pc_dirtyPages := [], pc_mgr := genericCacheManagerDestroy (pc_mgr c)\<rparr>)
   }"

text \<open>One replacement with the assertion both callers make on the victim.\<close>

definition pageCacheReplaceOne :: "PageCache \<Rightarrow> (nat option \<times> PageCache) option" where
  "pageCacheReplaceOne c = do {
     (entry, m) \<leftarrow> genericCacheManagerReplaceOne (pc_mgr c);
     case entry of
       None \<Rightarrow> Some (None, c\<lparr>pc_mgr := m\<rparr>)
     | Some a \<Rightarrow> do {
         c_assert (pe_refCount (pc_heap c a) = 0 \<and> \<not> pe_isDirty (pc_heap c a));
         Some (Some a, c\<lparr>pc_mgr := m\<rparr>)
       }
   }"

partial_function (option) pageCacheReplaceLoop :: "PageCache \<Rightarrow> PageCache option" where
  "pageCacheReplaceLoop c = do {
     (entry, c) \<leftarrow> pageCacheReplaceOne c;
     let c = (if entry = None then c else c\<lparr>pc_curSize := pc_curSize c - 1\<rparr>);
     if entry = None \<or> pc_curSize c \<le> pc_expectSize c then Some c else pageCacheReplaceLoop c
   }"

definition pageCacheDoReplace :: "PageCache \<Rightarrow> PageCache option" where
  "pageCacheDoReplace c = (if pc_curSize c > pc_expectSize c then pageCacheReplaceLoop c else Some c)"

text \<open>The two ways to a page that is not cached: the victim's memory, or new memory.\<close>

definition pageCacheReuse :: "PageCache \<Rightarrow> u32 \<Rightarrow> (nat option \<times> PageCache) option" where
  "pageCacheReuse c blkoff =
     (if pc_curSize c \<ge> pc_expectSize c then do {
        (victim, c) \<leftarrow> pageCacheReplaceOne c;
        case victim of
          None \<Rightarrow> Some (None, c)
        | Some a \<Rightarrow> do {
            let c = pc_set c a ((pc_heap c a)\<lparr>pe_blkoff := blkoff, pe_lpa := INVALID_LPA, pe_contentState := PAGE_INVALID\<rparr>);
            m \<leftarrow> genericCacheManagerAdd (pc_mgr c) blkoff a;
            c \<leftarrow> pageCacheAddRefCount (c\<lparr>pc_mgr := m\<rparr>) a;
            c \<leftarrow> pageCacheDoReplace c;
            Some (Some a, c)
          }
      } else Some (None, c))"

definition pageCacheNew :: "block \<Rightarrow> PageCache \<Rightarrow> u32 \<Rightarrow> (nat \<times> PageCache) option" where
  "pageCacheNew junk c blkoff = do {
     let a = pc_next c;
     let c = pc_set (c\<lparr>pc_next := a + 1\<rparr>) a (pageEntryInit junk blkoff);
     m \<leftarrow> genericCacheManagerAdd (pc_mgr c) blkoff a;
     c \<leftarrow> pageCacheAddRefCount (c\<lparr>pc_mgr := m\<rparr>) a;
     Some (a, c\<lparr>pc_curSize := pc_curSize c + 1\<rparr>)
   }"

definition pageCacheGet :: "block \<Rightarrow> PageCache \<Rightarrow> u32 \<Rightarrow> (nat \<times> PageCache) option" where
  "pageCacheGet junk c blkoff = do {
     (entry, m) \<leftarrow> genericCacheManagerGet (pc_mgr c) blkoff True;
     let c = c\<lparr>pc_mgr := m\<rparr>;
     case entry of
       Some a \<Rightarrow> do { c \<leftarrow> pageCacheAddRefCount c a; Some (a, c) }
     | None \<Rightarrow> do {
         (reused, c) \<leftarrow> pageCacheReuse c blkoff;
         case reused of Some a \<Rightarrow> Some (a, c) | None \<Rightarrow> pageCacheNew junk c blkoff
       }
   }"

subsection \<open>The invariant\<close>

abbreviation pc_ents :: "PageCache \<Rightarrow> u32 \<Rightarrow> nat option" where
  "pc_ents c \<equiv> gcm_entries (pc_mgr c)"

abbreviation pc_keys :: "PageCache \<Rightarrow> nat \<Rightarrow> u32" where
  "pc_keys c \<equiv> (\<lambda>a. pe_blkoff (pc_heap c a))"

abbreviation pc_refs :: "PageCache \<Rightarrow> nat \<Rightarrow> u32" where
  "pc_refs c \<equiv> (\<lambda>a. pe_refCount (pc_heap c a))"

text \<open>
  \<open>pc_base\<close> is the agreement of heap, manager and size. \<open>pc_tree\<close> says that the tree is ordered, without
  repetitions, and has exactly the cached pages whose dirty flag is set, each of them referenced. \<open>pc_held c a\<close> are the
  references on a page that handles hold: all but the tree's.
\<close>

abbreviation pc_rc :: "PageCache \<Rightarrow> bool" where
  "pc_rc c \<equiv> rc_ok (pc_mgr c) (pc_keys c) (pc_refs c) (pc_next c)"

definition pc_base :: "PageCache \<Rightarrow> bool" where
  "pc_base c \<longleftrightarrow> pc_rc c \<and> pc_curSize c = card (dom (pc_ents c))"

definition pc_tree :: "PageCache \<Rightarrow> bool" where
  "pc_tree c \<longleftrightarrow> sorted_wrt (<) (map fst (pc_dirtyPages c)) \<and>
     (\<forall>k a. (k, a) \<in> set (pc_dirtyPages c) \<longleftrightarrow> pc_ents c k = Some a \<and> pe_isDirty (pc_heap c a)) \<and>
     (\<forall>k a. pc_ents c k = Some a \<and> pe_isDirty (pc_heap c a) \<longrightarrow> pc_refs c a \<noteq> 0)"

definition pc_inv :: "PageCache \<Rightarrow> bool" where
  "pc_inv c \<longleftrightarrow> pc_base c \<and> pc_tree c"

definition pc_held :: "PageCache \<Rightarrow> nat \<Rightarrow> nat" where
  "pc_held c a = unat (pc_refs c a) - (if pe_isDirty (pc_heap c a) then 1 else 0)"

lemma rc_ok_cong:
  assumes "rc_ok m key ref n"
    and "\<And>k a. gcm_entries m k = Some a \<Longrightarrow> key' a = key a \<and> (ref' a = 0 \<longleftrightarrow> ref a = 0)"
  shows "rc_ok m key' ref' n"
  using assms unfolding rc_ok_def by metis

lemma pc_rc_cong:
  assumes "pc_rc c" and "pc_mgr c' = pc_mgr c" and "pc_next c' = pc_next c"
    and "\<And>k a. pc_ents c k = Some a \<Longrightarrow> pc_keys c' a = pc_keys c a \<and> (pc_refs c' a = 0 \<longleftrightarrow> pc_refs c a = 0)"
  shows "pc_rc c'"
  using assms rc_ok_cong [of "pc_mgr c" "pc_keys c" "pc_refs c" "pc_next c" "pc_keys c'" "pc_refs c'"]
  by simp

lemma pc_key: "pc_rc c \<Longrightarrow> pc_ents c k = Some a \<Longrightarrow> pc_keys c a = k"
  using rc_okD(2) [of "pc_mgr c" "pc_keys c" "pc_refs c" "pc_next c" k a] by simp

lemma pc_inj: "pc_rc c \<Longrightarrow> pc_ents c k = Some a \<Longrightarrow> pc_ents c j = Some a \<Longrightarrow> j = k"
  using pc_key by blast

lemma pc_init: "pc_inv (pageCacheInit n h)"
  by (simp add: pc_inv_def pc_base_def pc_tree_def pageCacheInit_def rc_ok_init gcm_init)

subsection \<open>Counting references\<close>

text \<open>Both directions leave the index alone and change the count of one entry.\<close>

lemma pc_add_ref:
  assumes "pc_rc c" and "pc_ents c k = Some a" and "pc_refs c a + 1 \<noteq> 0"
    and "pc_refs c a = 0 \<longrightarrow> \<not> pe_isDirty (pc_heap c a)"
  shows "\<exists>m. pageCacheAddRefCount c a =
      Some (c\<lparr>pc_heap := (pc_heap c)(a := (pc_heap c a)\<lparr>pe_refCount := pc_refs c a + 1\<rparr>), pc_mgr := m\<rparr>) \<and>
    pc_rc (c\<lparr>pc_heap := (pc_heap c)(a := (pc_heap c a)\<lparr>pe_refCount := pc_refs c a + 1\<rparr>), pc_mgr := m\<rparr>) \<and>
    gcm_entries m = pc_ents c"
proof (cases "pc_refs c a = 0")
  case True
  let ?m = "genericCacheManagerPin (pc_mgr c) (pc_keys c a)"
  have k: "pc_keys c a = k" using pc_key assms by blast
  note p = rc_ok_pin [OF assms(1) assms(2,3)]
  have "rc_ok ?m (\<lambda>x. pe_blkoff (((pc_heap c)(a := (pc_heap c a)\<lparr>pe_refCount := pc_refs c a + 1\<rparr>)) x))
      (\<lambda>x. pe_refCount (((pc_heap c)(a := (pc_heap c a)\<lparr>pe_refCount := pc_refs c a + 1\<rparr>)) x)) (pc_next c)"
    unfolding k by (rule rc_ok_cong [OF p(1)]) auto
  then show ?thesis
    using True assms(4) p(2) k by (intro exI [of _ ?m]) (simp add: pageCacheAddRefCount_def)
next
  case False
  then have e: "pageCacheAddRefCount c a =
      Some (c\<lparr>pc_heap := (pc_heap c)(a := (pc_heap c a)\<lparr>pe_refCount := pc_refs c a + 1\<rparr>), pc_mgr := pc_mgr c\<rparr>)"
    by (simp add: pageCacheAddRefCount_def Let_def)
  show ?thesis
    by (intro exI [of _ "pc_mgr c"] conjI, rule e, rule pc_rc_cong [OF assms(1)]) (use False assms(3) in auto)
qed

lemma pc_sub_ref:
  assumes "pc_rc c" and "pc_ents c k = Some a" and "pc_refs c a \<noteq> 0"
    and "pc_refs c a = 1 \<longrightarrow> \<not> pe_isDirty (pc_heap c a)"
  shows "\<exists>m. pageCacheSubRefCount c a =
      Some (c\<lparr>pc_heap := (pc_heap c)(a := (pc_heap c a)\<lparr>pe_refCount := pc_refs c a - 1\<rparr>), pc_mgr := m\<rparr>) \<and>
    pc_rc (c\<lparr>pc_heap := (pc_heap c)(a := (pc_heap c a)\<lparr>pe_refCount := pc_refs c a - 1\<rparr>), pc_mgr := m\<rparr>) \<and>
    gcm_entries m = pc_ents c"
proof (cases "pc_refs c a = 1")
  case True
  let ?m = "genericCacheManagerUnpin (pc_mgr c) (pc_keys c a)"
  have k: "pc_keys c a = k" using pc_key assms by blast
  note p = rc_ok_unpin [OF assms(1) assms(2,3)]
  have "rc_ok ?m (\<lambda>x. pe_blkoff (((pc_heap c)(a := (pc_heap c a)\<lparr>pe_refCount := pc_refs c a - 1\<rparr>)) x))
      (\<lambda>x. pe_refCount (((pc_heap c)(a := (pc_heap c a)\<lparr>pe_refCount := pc_refs c a - 1\<rparr>)) x)) (pc_next c)"
    unfolding k by (rule rc_ok_cong [OF p(1)]) (use True in auto)
  then show ?thesis
    using True assms(4) p(2) k by (intro exI [of _ ?m]) (simp add: pageCacheSubRefCount_def)
next
  case False
  then have e: "pageCacheSubRefCount c a =
      Some (c\<lparr>pc_heap := (pc_heap c)(a := (pc_heap c a)\<lparr>pe_refCount := pc_refs c a - 1\<rparr>), pc_mgr := pc_mgr c\<rparr>)"
    by (simp add: pageCacheSubRefCount_def Let_def)
  show ?thesis
    by (intro exI [of _ "pc_mgr c"] conjI, rule e, rule pc_rc_cong [OF assms(1)]) (use False assms(3) in auto)
qed

subsection \<open>Replacement\<close>

text \<open>What a replacement leaves: fewer entries, but every referenced one.\<close>

definition pc_kept :: "PageCache \<Rightarrow> nat GenericCacheManager \<Rightarrow> bool" where
  "pc_kept c m \<longleftrightarrow> gcm_entries m \<subseteq>\<^sub>m pc_ents c \<and>
     (\<forall>k a. pc_ents c k = Some a \<and> pc_refs c a \<noteq> 0 \<longrightarrow> gcm_entries m k = Some a)"

definition pc_flags :: "PageCache \<Rightarrow> bool" where
  "pc_flags c \<longleftrightarrow> (\<forall>k a. pc_ents c k = Some a \<and> pe_isDirty (pc_heap c a) \<longrightarrow> pc_refs c a \<noteq> 0)"

lemma pc_kept_sub: "pc_kept c m \<Longrightarrow> gcm_entries m k = Some a \<Longrightarrow> pc_ents c k = Some a"
  unfolding pc_kept_def map_le_def by (metis domI)

lemma pc_kept_refl: "pc_kept c (pc_mgr c)"
  by (simp add: pc_kept_def)

lemma pc_kept_trans:
  assumes "pc_kept c m" and "pc_kept (c\<lparr>pc_mgr := m, pc_curSize := n\<rparr>) m'"
  shows "pc_kept c m'"
  using assms by (auto simp: pc_kept_def intro: map_le_trans)

lemma pc_flags_sub: "pc_flags c \<Longrightarrow> gcm_entries m \<subseteq>\<^sub>m pc_ents c \<Longrightarrow> pc_flags (c\<lparr>pc_mgr := m, pc_curSize := n\<rparr>)"
  unfolding pc_flags_def map_le_def dom_def by auto

lemma pc_replace_one:
  assumes "pc_rc c" and "pc_flags c"
  shows "\<exists>v m. pageCacheReplaceOne c = Some (v, c\<lparr>pc_mgr := m\<rparr>) \<and> pc_kept c m \<and>
    rc_ok m (pc_keys c) (pc_refs c) (pc_next c) \<and>
    (case v of None \<Rightarrow> gcm_entries m = pc_ents c \<and> (\<forall>k a. pc_ents c k = Some a \<longrightarrow> pc_refs c a \<noteq> 0)
     | Some a \<Rightarrow> \<not> pe_isDirty (pc_heap c a) \<and> pc_refs c a = 0 \<and>
         (\<exists>j. pc_ents c j = Some a \<and> gcm_entries m = (pc_ents c)(j := None)))"
proof -
  obtain v m where r: "genericCacheManagerReplaceOne (pc_mgr c) = Some (v, m)" "rc_ok m (pc_keys c) (pc_refs c) (pc_next c)"
    "case v of None \<Rightarrow> (\<forall>k a. pc_ents c k = Some a \<longrightarrow> pc_refs c a \<noteq> 0) \<and> gcm_entries m = pc_ents c
     | Some a \<Rightarrow> \<exists>k. pc_ents c k = Some a \<and> pc_refs c a = 0 \<and> gcm_entries m = (pc_ents c)(k := None)"
    using rc_ok_evict [OF assms(1)] by blast
  show ?thesis
  proof (cases v)
    case None
    with r show ?thesis
      by (intro exI [of _ v] exI [of _ m]) (simp add: pageCacheReplaceOne_def pc_kept_def)
  next
    case (Some a)
    then obtain j where j: "pc_ents c j = Some a" "pc_refs c a = 0" "gcm_entries m = (pc_ents c)(j := None)"
      using r(3) by auto
    then have "\<not> pe_isDirty (pc_heap c a)"
      using assms(2) by (auto simp: pc_flags_def)
    moreover have "pc_kept c m"
      using j by (auto simp: pc_kept_def map_le_def)
    ultimately show ?thesis
      using r(1,2) j Some by (intro exI [of _ v] exI [of _ m]) (auto simp: pageCacheReplaceOne_def)
  qed
qed

interpretation pgc: refcounted_cache "\<lambda>c. pc_rc c \<and> pc_flags c" pc_ents pc_refs pageCacheReplaceOne
proof unfold_locales
  fix c k a j
  assume "pc_rc c \<and> pc_flags c" "pc_ents c k = Some a" "pc_ents c j = Some a"
  then show "j = k" using pc_inj [of c k a j] by blast
next
  fix c
  assume c: "pc_rc c \<and> pc_flags c"
  then obtain v m where r: "pageCacheReplaceOne c = Some (v, c\<lparr>pc_mgr := m\<rparr>)" "pc_kept c m"
    "rc_ok m (pc_keys c) (pc_refs c) (pc_next c)"
    "case v of None \<Rightarrow> gcm_entries m = pc_ents c \<and> (\<forall>k a. pc_ents c k = Some a \<longrightarrow> pc_refs c a \<noteq> 0)
     | Some a \<Rightarrow> \<not> pe_isDirty (pc_heap c a) \<and> pc_refs c a = 0 \<and>
         (\<exists>j. pc_ents c j = Some a \<and> gcm_entries m = (pc_ents c)(j := None))"
    using pc_replace_one by blast
  have "pc_flags (c\<lparr>pc_mgr := m\<rparr>)"
    using c pc_kept_sub [OF r(2)] unfolding pc_flags_def by simp blast
  then show "\<exists>v c'. pageCacheReplaceOne c = Some (v, c') \<and> (pc_rc c' \<and> pc_flags c') \<and> pc_refs c' = pc_refs c \<and>
      (case v of None \<Rightarrow> (\<forall>k a. pc_ents c k = Some a \<longrightarrow> pc_refs c a \<noteq> 0) \<and> pc_ents c' = pc_ents c
       | Some a \<Rightarrow> \<exists>k. pc_ents c k = Some a \<and> pc_refs c a = 0 \<and> pc_ents c' = (pc_ents c)(k := None))"
    using r by (intro exI [of _ v] exI [of _ "c\<lparr>pc_mgr := m\<rparr>"]) (auto split: option.splits)
qed

lemma pc_replace_loop:
  assumes "pc_base c" and "pc_flags c"
  shows "\<exists>m n. pageCacheReplaceLoop c = Some (c\<lparr>pc_mgr := m, pc_curSize := n\<rparr>) \<and>
    pc_base (c\<lparr>pc_mgr := m, pc_curSize := n\<rparr>) \<and> pc_kept c m \<and>
    (n \<le> pc_expectSize c \<or> (\<forall>k a. gcm_entries m k = Some a \<longrightarrow> pc_refs c a \<noteq> 0))"
  using assms
proof (induction "pc_curSize c" arbitrary: c rule: less_induct)
  case less
  obtain v m where r: "pageCacheReplaceOne c = Some (v, c\<lparr>pc_mgr := m\<rparr>)" "pc_kept c m"
    "rc_ok m (pc_keys c) (pc_refs c) (pc_next c)"
    "case v of None \<Rightarrow> gcm_entries m = pc_ents c \<and> (\<forall>k a. pc_ents c k = Some a \<longrightarrow> pc_refs c a \<noteq> 0)
     | Some a \<Rightarrow> \<not> pe_isDirty (pc_heap c a) \<and> pc_refs c a = 0 \<and>
         (\<exists>j. pc_ents c j = Some a \<and> gcm_entries m = (pc_ents c)(j := None))"
    using pc_replace_one [OF _ less.prems(2)] less.prems(1) unfolding pc_base_def by blast
  have n: "pc_curSize c = card (dom (pc_ents c))" and f: "finite (dom (pc_ents c))"
    using less.prems(1) by (auto simp: pc_base_def intro: finite_gcm_dom rc_ok_gcm)
  show ?case
  proof (cases v)
    case None
    with r have "pageCacheReplaceLoop c = Some (c\<lparr>pc_mgr := m, pc_curSize := pc_curSize c\<rparr>)"
      by (subst pageCacheReplaceLoop.simps) simp
    moreover have "pc_base (c\<lparr>pc_mgr := m, pc_curSize := pc_curSize c\<rparr>)"
      using r None n by (simp add: pc_base_def)
    ultimately show ?thesis using r None by (intro exI [of _ m] exI [of _ "pc_curSize c"]) auto
  next
    case (Some a)
    let ?c1 = "c\<lparr>pc_mgr := m, pc_curSize := pc_curSize c - 1\<rparr>"
    obtain j where j: "pc_ents c j = Some a" "gcm_entries m = (pc_ents c)(j := None)"
      using r(4) Some by auto
    have card: "Suc (card (dom (gcm_entries m))) = pc_curSize c"
      using card_dom_del [OF f j(1)] j(2) n by simp
    then have b1: "pc_base ?c1"
      using r(3) by (auto simp: pc_base_def)
    have step: "pageCacheReplaceLoop c = (if pc_curSize c - 1 \<le> pc_expectSize c then Some ?c1 else pageCacheReplaceLoop ?c1)"
      using r(1) Some by (subst pageCacheReplaceLoop.simps) simp
    show ?thesis
    proof (cases "pc_curSize c - 1 \<le> pc_expectSize c")
      case True
      then show ?thesis using step b1 r(2) by (intro exI [of _ m] exI [of _ "pc_curSize c - 1"]) simp
    next
      case False
      have "pc_flags ?c1" by (rule pc_flags_sub [OF less.prems(2)]) (use r(2) in \<open>simp add: pc_kept_def\<close>)
      then obtain m' n' where h: "pageCacheReplaceLoop ?c1 = Some (?c1\<lparr>pc_mgr := m', pc_curSize := n'\<rparr>)"
        "pc_base (?c1\<lparr>pc_mgr := m', pc_curSize := n'\<rparr>)" "pc_kept ?c1 m'"
        "n' \<le> pc_expectSize ?c1 \<or> (\<forall>k a. gcm_entries m' k = Some a \<longrightarrow> pc_refs ?c1 a \<noteq> 0)"
        using less.hyps [of ?c1] b1 card by auto
      then show ?thesis
        using False step pc_kept_trans [OF r(2) h(3)] by (intro exI [of _ m'] exI [of _ n']) simp
    qed
  qed
qed

lemma pc_do_replace:
  assumes "pc_base c" and "pc_flags c"
  shows "\<exists>m n. pageCacheDoReplace c = Some (c\<lparr>pc_mgr := m, pc_curSize := n\<rparr>) \<and>
    pc_base (c\<lparr>pc_mgr := m, pc_curSize := n\<rparr>) \<and> pc_kept c m \<and>
    (n \<le> pc_expectSize c \<or> (\<forall>k a. gcm_entries m k = Some a \<longrightarrow> pc_refs c a \<noteq> 0))"
proof (cases "pc_curSize c > pc_expectSize c")
  case True
  then show ?thesis using pc_replace_loop [OF assms] by (simp add: pageCacheDoReplace_def)
next
  case False
  then show ?thesis
    using assms(1) pc_kept_refl by (intro exI [of _ "pc_mgr c"] exI [of _ "pc_curSize c"]) (simp add: pageCacheDoReplace_def)
qed

subsection \<open>Lookup\<close>

lemma pc_treeI:
  assumes "sorted_wrt (<) (map fst (pc_dirtyPages c))"
    and "\<And>k a. (k, a) \<in> set (pc_dirtyPages c) \<longleftrightarrow> pc_ents c k = Some a \<and> pe_isDirty (pc_heap c a)"
    and "\<And>k a. pc_ents c k = Some a \<Longrightarrow> pe_isDirty (pc_heap c a) \<Longrightarrow> pc_refs c a \<noteq> 0"
  shows "pc_tree c"
  using assms unfolding pc_tree_def by blast

lemma pc_tree_cong:
  assumes "pc_tree c" and "pc_dirtyPages c' = pc_dirtyPages c"
    and "\<And>k a. pc_ents c' k = Some a \<and> pe_isDirty (pc_heap c' a) \<longleftrightarrow> pc_ents c k = Some a \<and> pe_isDirty (pc_heap c a)"
    and "\<And>k a. pc_ents c k = Some a \<Longrightarrow> pe_isDirty (pc_heap c a) \<Longrightarrow> pc_refs c a \<noteq> 0 \<Longrightarrow> pc_refs c' a \<noteq> 0"
  shows "pc_tree c'"
  using assms unfolding pc_tree_def by (simp, blast)

lemma pc_tree_flags: "pc_tree c \<Longrightarrow> pc_flags c"
  unfolding pc_tree_def pc_flags_def by blast

text \<open>A heap object with its offset set is entered into the index and gets its first reference.\<close>

lemma pc_link:
  assumes "pc_rc c" and "pc_ents c k = None" and "a < pc_next c" and "pc_keys c a = k" and "pc_refs c a = 0"
    and "\<not> pe_isDirty (pc_heap c a)"
  shows "\<exists>m. (genericCacheManagerAdd (pc_mgr c) k a \<bind> (\<lambda>m. pageCacheAddRefCount (c\<lparr>pc_mgr := m\<rparr>) a)) =
      Some (c\<lparr>pc_heap := (pc_heap c)(a := (pc_heap c a)\<lparr>pe_refCount := 1\<rparr>), pc_mgr := m\<rparr>) \<and>
    pc_rc (c\<lparr>pc_heap := (pc_heap c)(a := (pc_heap c a)\<lparr>pe_refCount := 1\<rparr>), pc_mgr := m\<rparr>) \<and>
    gcm_entries m = (pc_ents c)(k \<mapsto> a)"
proof -
  obtain m1 where m1: "genericCacheManagerAdd (pc_mgr c) k a = Some m1" "rc_ok m1 (pc_keys c) (pc_refs c) (pc_next c)"
    "gcm_entries m1 = (pc_ents c)(k \<mapsto> a)"
    using rc_ok_add_at [OF assms(1-5)] by blast
  have "\<exists>m. pageCacheAddRefCount (c\<lparr>pc_mgr := m1\<rparr>) a =
      Some (c\<lparr>pc_mgr := m1, pc_heap := (pc_heap c)(a := (pc_heap c a)\<lparr>pe_refCount := 1\<rparr>), pc_mgr := m\<rparr>) \<and>
      pc_rc (c\<lparr>pc_mgr := m1, pc_heap := (pc_heap c)(a := (pc_heap c a)\<lparr>pe_refCount := 1\<rparr>), pc_mgr := m\<rparr>) \<and>
      gcm_entries m = gcm_entries m1"
    using pc_add_ref [of "c\<lparr>pc_mgr := m1\<rparr>" k a] m1(2,3) assms by simp
  then show ?thesis
    using m1 by auto
qed

text \<open>
  What a lookup of \<open>k\<close> does to the rest: no other page is added or changed, and every other page with a
  reference stays.
\<close>

definition pc_other :: "PageCache \<Rightarrow> PageCache \<Rightarrow> u32 \<Rightarrow> bool" where
  "pc_other c c' k \<longleftrightarrow> pc_dirtyPages c' = pc_dirtyPages c \<and> pc_expectSize c' = pc_expectSize c \<and>
     (\<forall>j a. j \<noteq> k \<and> pc_ents c' j = Some a \<longrightarrow> pc_ents c j = Some a \<and> pc_heap c' a = pc_heap c a) \<and>
     (\<forall>j a. j \<noteq> k \<and> pc_ents c j = Some a \<and> pc_refs c a \<noteq> 0 \<longrightarrow> pc_ents c' j = Some a)"

definition pc_fresh :: "PageEntry \<Rightarrow> u32 \<Rightarrow> bool" where
  "pc_fresh e k \<longleftrightarrow> pe_blkoff e = k \<and> pe_lpa e = INVALID_LPA \<and> pe_contentState e = PAGE_INVALID \<and>
     pe_refCount e = 1 \<and> \<not> pe_isDirty e"

lemma pc_other_tree:
  assumes "pc_tree c" and "pc_other c c' k" and "pc_ents c k = None" and "pc_ents c' k = Some a"
    and "pc_fresh (pc_heap c' a) k"
  shows "pc_tree c'"
proof (rule pc_tree_cong [OF assms(1)])
  show "pc_dirtyPages c' = pc_dirtyPages c"
    using assms(2) by (simp add: pc_other_def)
  show "pc_ents c' j = Some b \<and> pe_isDirty (pc_heap c' b) \<longleftrightarrow> pc_ents c j = Some b \<and> pe_isDirty (pc_heap c b)" for j b
  proof (cases "j = k")
    case True
    then show ?thesis using assms(3-5) by (auto simp: pc_fresh_def)
  next
    case False
    have "pc_refs c b \<noteq> 0" if "pc_ents c j = Some b" "pe_isDirty (pc_heap c b)"
      using that assms(1) by (auto simp: pc_tree_def)
    then show ?thesis using False assms(2) unfolding pc_other_def by metis
  qed
  show "pc_refs c' b \<noteq> 0" if "pc_ents c j = Some b" "pc_refs c b \<noteq> 0" for j b
  proof -
    have "j \<noteq> k" using that(1) assms(3) by auto
    then show ?thesis using that assms(2) unfolding pc_other_def by metis
  qed
qed

lemma pc_new:
  assumes "pc_base c" and "pc_ents c k = None"
  shows "\<exists>a c'. pageCacheNew junk c k = Some (a, c') \<and> pc_base c' \<and> pc_ents c' k = Some a \<and>
    pc_fresh (pc_heap c' a) k \<and> pc_other c c' k \<and> pc_curSize c' = pc_curSize c + 1 \<and>
    pc_ents c' = (pc_ents c)(k \<mapsto> a)"
proof -
  let ?a = "pc_next c"
  let ?c1 = "c\<lparr>pc_next := ?a + 1, pc_heap := (pc_heap c)(?a := pageEntryInit junk k)\<rparr>"
  have rc: "pc_rc c" and n: "pc_curSize c = card (dom (pc_ents c))" and f: "finite (dom (pc_ents c))"
    using assms(1) by (auto simp: pc_base_def intro: finite_gcm_dom rc_ok_gcm)
  have lt: "b < ?a" if "pc_ents c j = Some b" for j b
    using rc_okD(1) [OF rc that] .
  have "pc_rc ?c1"
    using rc lt by (fastforce simp: rc_ok_def)
  then obtain m where m: "genericCacheManagerAdd (pc_mgr ?c1) k ?a \<bind> (\<lambda>m. pageCacheAddRefCount (?c1\<lparr>pc_mgr := m\<rparr>) ?a) =
      Some (?c1\<lparr>pc_heap := (pc_heap ?c1)(?a := (pc_heap ?c1 ?a)\<lparr>pe_refCount := 1\<rparr>), pc_mgr := m\<rparr>)"
      "pc_rc (?c1\<lparr>pc_heap := (pc_heap ?c1)(?a := (pc_heap ?c1 ?a)\<lparr>pe_refCount := 1\<rparr>), pc_mgr := m\<rparr>)"
      "gcm_entries m = (pc_ents ?c1)(k \<mapsto> ?a)"
    using pc_link [of ?c1 k ?a] assms(2) by (auto simp: pageEntryInit_def)
  let ?c2 = "?c1\<lparr>pc_heap := (pc_heap ?c1)(?a := (pc_heap ?c1 ?a)\<lparr>pe_refCount := 1\<rparr>), pc_mgr := m, pc_curSize := pc_curSize c + 1\<rparr>"
  have "pageCacheNew junk c k = Some (?a, ?c2)"
    using m(1) by (auto simp: pageCacheNew_def Let_def bind_eq_Some_conv split: bind_splits)
  moreover have "card (dom (gcm_entries m)) = Suc (card (dom (pc_ents c)))"
    using m(3) card_dom_add [OF f assms(2)] by simp
  with m(2) n have "pc_base ?c2"
    by (simp add: pc_base_def)
  moreover have "pc_other c ?c2 k"
    using m(3) lt by (auto simp: pc_other_def)
  ultimately show ?thesis
    using m(3) by (intro exI [of _ ?a] exI [of _ ?c2]) (simp add: pc_fresh_def pageEntryInit_def)
qed

lemma pc_reuse:
  assumes "pc_base c" and "pc_tree c" and "pc_ents c k = None"
  shows "(\<exists>m. pageCacheReuse c k = Some (None, c\<lparr>pc_mgr := m\<rparr>) \<and> pc_base (c\<lparr>pc_mgr := m\<rparr>) \<and>
      gcm_entries m = pc_ents c \<and>
      (pc_curSize c < pc_expectSize c \<or> (\<forall>j a. pc_ents c j = Some a \<longrightarrow> pc_refs c a \<noteq> 0))) \<or>
    (\<exists>a c'. pageCacheReuse c k = Some (Some a, c') \<and> pc_base c' \<and> pc_ents c' k = Some a \<and>
      pc_fresh (pc_heap c' a) k \<and> pc_other c c' k \<and>
      (pc_curSize c' \<le> pc_expectSize c \<or> (\<forall>j a. pc_ents c' j = Some a \<longrightarrow> pc_refs c' a \<noteq> 0)))"
proof (cases "pc_curSize c \<ge> pc_expectSize c")
  case False
  then show ?thesis
    using assms(1) by (intro disjI1 exI [of _ "pc_mgr c"]) (simp add: pageCacheReuse_def)
next
  case True
  have f: "finite (dom (pc_ents c))" and n: "pc_curSize c = card (dom (pc_ents c))"
    using assms(1) by (auto simp: pc_base_def intro: finite_gcm_dom rc_ok_gcm)
  obtain v m where r: "pageCacheReplaceOne c = Some (v, c\<lparr>pc_mgr := m\<rparr>)" "pc_kept c m"
    "rc_ok m (pc_keys c) (pc_refs c) (pc_next c)"
    "case v of None \<Rightarrow> gcm_entries m = pc_ents c \<and> (\<forall>k a. pc_ents c k = Some a \<longrightarrow> pc_refs c a \<noteq> 0)
     | Some a \<Rightarrow> \<not> pe_isDirty (pc_heap c a) \<and> pc_refs c a = 0 \<and>
         (\<exists>j. pc_ents c j = Some a \<and> gcm_entries m = (pc_ents c)(j := None))"
    using pc_replace_one [OF _ pc_tree_flags [OF assms(2)]] assms(1) unfolding pc_base_def by blast
  show ?thesis
  proof (cases v)
    case None
    then have "pageCacheReuse c k = Some (None, c\<lparr>pc_mgr := m\<rparr>)"
      using True r(1) by (simp add: pageCacheReuse_def)
    with None r n show ?thesis
      by (intro disjI1 exI [of _ m]) (simp add: pc_base_def)
  next
    case (Some a)
    then obtain j where j: "pc_ents c j = Some a" "gcm_entries m = (pc_ents c)(j := None)"
      "\<not> pe_isDirty (pc_heap c a)" "pc_refs c a = 0"
      using r(4) by auto
    let ?e = "(pc_heap c a)\<lparr>pe_blkoff := k, pe_lpa := INVALID_LPA, pe_contentState := PAGE_INVALID\<rparr>"
    let ?c1 = "c\<lparr>pc_mgr := m, pc_heap := (pc_heap c)(a := ?e)\<rparr>"
    have rc: "pc_rc c" using assms(1) by (simp add: pc_base_def)
    have un: "gcm_entries m i \<noteq> Some a" for i
      using pc_inj [OF rc j(1), of i] j(2) by auto
    have "rc_ok m (pc_keys ?c1) (pc_refs ?c1) (pc_next c)"
      by (rule rc_ok_cong [OF r(3)]) (use un in auto)
    then have p1: "pc_rc ?c1" by simp
    have p2: "pc_ents ?c1 k = None" "a < pc_next ?c1" "pc_keys ?c1 a = k" "pc_refs ?c1 a = 0" "\<not> pe_isDirty (pc_heap ?c1 a)"
      using j assms(3) rc_okD(1) [OF rc j(1)] by simp_all
    obtain m1 where "genericCacheManagerAdd (pc_mgr ?c1) k a \<bind> (\<lambda>m. pageCacheAddRefCount (?c1\<lparr>pc_mgr := m\<rparr>) a) =
        Some (?c1\<lparr>pc_heap := (pc_heap ?c1)(a := (pc_heap ?c1 a)\<lparr>pe_refCount := 1\<rparr>), pc_mgr := m1\<rparr>)"
      and m12: "pc_rc (?c1\<lparr>pc_heap := (pc_heap ?c1)(a := (pc_heap ?c1 a)\<lparr>pe_refCount := 1\<rparr>), pc_mgr := m1\<rparr>)"
        "gcm_entries m1 = (pc_ents ?c1)(k \<mapsto> a)"
      using pc_link [OF p1 p2] by blast
    then have m1: "genericCacheManagerAdd m k a \<bind> (\<lambda>m. pageCacheAddRefCount (?c1\<lparr>pc_mgr := m\<rparr>) a) =
        Some (?c1\<lparr>pc_heap := (pc_heap ?c1)(a := (pc_heap ?c1 a)\<lparr>pe_refCount := 1\<rparr>), pc_mgr := m1\<rparr>)"
        "pc_rc (?c1\<lparr>pc_heap := (pc_heap ?c1)(a := (pc_heap ?c1 a)\<lparr>pe_refCount := 1\<rparr>), pc_mgr := m1\<rparr>)"
        "gcm_entries m1 = (gcm_entries m)(k \<mapsto> a)"
      by simp_all
    let ?c2 = "?c1\<lparr>pc_heap := (pc_heap ?c1)(a := (pc_heap ?c1 a)\<lparr>pe_refCount := 1\<rparr>), pc_mgr := m1\<rparr>"
    have mk: "gcm_entries m k = None" "finite (dom (gcm_entries m))"
      using assms(3) j(2) f by auto
    have "card (dom (gcm_entries m1)) = pc_curSize c"
      using card_dom_add [OF mk(2,1), of a] card_dom_del [OF f j(1)] n
      unfolding m1(3) [symmetric] j(2) [symmetric] by simp
    with m1(2) have b2: "pc_base ?c2" by (simp add: pc_base_def)
    have "pc_flags ?c2"
      using pc_tree_flags [OF assms(2)] m1(3) j(2,3) by (auto simp: pc_flags_def)
    then obtain m2 n2 where d: "pageCacheDoReplace ?c2 = Some (?c2\<lparr>pc_mgr := m2, pc_curSize := n2\<rparr>)"
        "pc_base (?c2\<lparr>pc_mgr := m2, pc_curSize := n2\<rparr>)" "pc_kept ?c2 m2"
        "n2 \<le> pc_expectSize ?c2 \<or> (\<forall>k a. gcm_entries m2 k = Some a \<longrightarrow> pc_refs ?c2 a \<noteq> 0)"
      using pc_do_replace [OF b2] by blast
    let ?c3 = "?c2\<lparr>pc_mgr := m2, pc_curSize := n2\<rparr>"
    have "pageCacheReuse c k = Some (Some a, ?c3)"
      using True r(1) Some m1(1) d(1) by (auto simp: pageCacheReuse_def Let_def bind_eq_Some_conv split: bind_splits)
    moreover have k3: "pc_ents ?c3 k = Some a"
      using d(3) m1(3) by (auto simp: pc_kept_def)
    moreover have "pc_other c ?c3 k"
    proof -
      have sub: "gcm_entries m2 i = Some b \<Longrightarrow> gcm_entries m1 i = Some b" for i b
        using pc_kept_sub [OF d(3)] by simp
      have "pc_ents c i = Some b \<and> b \<noteq> a" if "i \<noteq> k" "gcm_entries m2 i = Some b" for i b
        using sub [OF that(2)] that(1) m1(3) j(2) un [of i] by (auto split: if_splits)
      moreover have "gcm_entries m2 i = Some b" if "i \<noteq> k" "pc_ents c i = Some b" "pc_refs c b \<noteq> 0" for i b
      proof -
        have "b \<noteq> a" "i \<noteq> j" using that(2,3) j(1,4) by auto
        then have "pc_ents ?c2 i = Some b" "pc_refs ?c2 b \<noteq> 0" using that m1(3) j(2) by simp_all
        then show ?thesis using d(3) unfolding pc_kept_def by blast
      qed
      ultimately show ?thesis unfolding pc_other_def by simp blast
    qed
    ultimately show ?thesis
      using d(2,4) by (intro disjI2 exI [of _ a] exI [of _ ?c3]) (simp add: pc_fresh_def j)
  qed
qed

lemma pc_get_miss:
  assumes "pc_inv c" and "pc_ents c k = None"
  shows "\<exists>a c'. pageCacheGet junk c k = Some (a, c') \<and> pc_inv c' \<and> pc_ents c' k = Some a \<and>
    pc_fresh (pc_heap c' a) k \<and> pc_other c c' k \<and>
    (pc_curSize c' \<le> pc_expectSize c \<or> (\<forall>j a. pc_ents c' j = Some a \<longrightarrow> pc_refs c' a \<noteq> 0))"
proof -
  have b: "pc_base c" and t: "pc_tree c" and rc: "pc_rc c"
    using assms(1) by (simp_all add: pc_inv_def pc_base_def)
  obtain m where g: "genericCacheManagerGet (pc_mgr c) k True = Some (None, m)" "rc_ok m (pc_keys c) (pc_refs c) (pc_next c)"
    "gcm_entries m = pc_ents c"
    using rc_ok_get [OF rc, of k True] assms(2) by auto
  let ?c0 = "c\<lparr>pc_mgr := m\<rparr>"
  have b0: "pc_base ?c0" "pc_ents ?c0 k = None" using b g assms(2) by (simp_all add: pc_base_def)
  have t0: "pc_tree ?c0" by (rule pc_tree_cong [OF t]) (simp_all add: g(3))
  have "pc_other ?c0 c' k \<longleftrightarrow> pc_other c c' k" for c'
    by (simp add: pc_other_def g(3))
  then have o0: "pc_other ?c0 c' k \<Longrightarrow> pc_other c c' k" for c'
    by blast
  note tree = pc_other_tree [OF t _ assms(2)]
  from pc_reuse [OF b0(1) t0 b0(2)] show ?thesis
  proof (rule disjE, goal_cases)
    case 2
    then obtain a c' where r: "pageCacheReuse ?c0 k = Some (Some a, c')" "pc_base c'" "pc_ents c' k = Some a" "pc_fresh (pc_heap c' a) k"
      "pc_other ?c0 c' k" "pc_curSize c' \<le> pc_expectSize ?c0 \<or> (\<forall>j a. pc_ents c' j = Some a \<longrightarrow> pc_refs c' a \<noteq> 0)"
      by blast
    have "pageCacheGet junk c k = Some (a, c')"
      using r(1) g(1) by (simp add: pageCacheGet_def)
    moreover have "pc_inv c'"
      using r(2) tree [OF o0 [OF r(5)] r(3,4)] by (simp add: pc_inv_def)
    moreover have "pc_curSize c' \<le> pc_expectSize c \<or> (\<forall>j a. pc_ents c' j = Some a \<longrightarrow> pc_refs c' a \<noteq> 0)"
      using r(6) by simp
    ultimately show ?thesis
      using r(3,4) o0 [OF r(5)] by blast
  next
    case 1
    then obtain m1 where r: "pageCacheReuse ?c0 k = Some (None, ?c0\<lparr>pc_mgr := m1\<rparr>)" "pc_base (?c0\<lparr>pc_mgr := m1\<rparr>)"
      "gcm_entries m1 = pc_ents ?c0"
      "pc_curSize ?c0 < pc_expectSize ?c0 \<or> (\<forall>j a. pc_ents ?c0 j = Some a \<longrightarrow> pc_refs ?c0 a \<noteq> 0)"
      by blast
    let ?c1 = "?c0\<lparr>pc_mgr := m1\<rparr>"
    obtain a c' where n: "pageCacheNew junk ?c1 k = Some (a, c')" "pc_base c'" "pc_ents c' k = Some a"
      "pc_fresh (pc_heap c' a) k" "pc_other ?c1 c' k" "pc_curSize c' = pc_curSize ?c1 + 1"
      "pc_ents c' = (pc_ents ?c1)(k \<mapsto> a)"
      using pc_new [OF r(2), of k junk] r(3) b0(2) by auto
    have "pc_other ?c1 c' k \<longleftrightarrow> pc_other c c' k"
      by (simp add: pc_other_def g(3) r(3))
    with n(5) have o: "pc_other c c' k" by blast
    have "pc_curSize c' \<le> pc_expectSize c \<or> (\<forall>j b. pc_ents c' j = Some b \<longrightarrow> pc_refs c' b \<noteq> 0)"
    proof (cases "pc_curSize c < pc_expectSize c")
      case True
      then show ?thesis using n(6) by simp
    next
      case False
      then have all: "\<forall>j b. pc_ents c j = Some b \<longrightarrow> pc_refs c b \<noteq> 0"
        using r(4) g(3) by simp
      have "pc_refs c' b \<noteq> 0" if "pc_ents c' j = Some b" for j b
      proof (cases "j = k")
        case True
        then show ?thesis using that n(3,4) by (simp add: pc_fresh_def)
      next
        case False
        then have "pc_ents c j = Some b" "pc_heap c' b = pc_heap c b"
          using o that unfolding pc_other_def by blast+
        then show ?thesis using all by simp
      qed
      then show ?thesis by blast
    qed
    moreover have "pageCacheGet junk c k = Some (a, c')"
      using r(1) n(1) g(1) by (simp add: pageCacheGet_def)
    moreover have "pc_inv c'"
      using n(2) tree [OF o n(3,4)] by (simp add: pc_inv_def)
    ultimately show ?thesis
      using n(3,4) o by blast
  qed
qed

lemma pc_get_hit:
  assumes "pc_inv c" and "pc_ents c k = Some a" and "pc_refs c a \<noteq> - 1"
  shows "\<exists>m. pageCacheGet junk c k =
      Some (a, c\<lparr>pc_heap := (pc_heap c)(a := (pc_heap c a)\<lparr>pe_refCount := pc_refs c a + 1\<rparr>), pc_mgr := m\<rparr>) \<and>
    pc_inv (c\<lparr>pc_heap := (pc_heap c)(a := (pc_heap c a)\<lparr>pe_refCount := pc_refs c a + 1\<rparr>), pc_mgr := m\<rparr>) \<and>
    gcm_entries m = pc_ents c"
proof -
  have b: "pc_base c" and t: "pc_tree c" and rc: "pc_rc c"
    using assms(1) by (simp_all add: pc_inv_def pc_base_def)
  have r: "pc_refs c a + 1 \<noteq> 0" using assms(3) by (metis add.commute eq_neg_iff_add_eq_0)
  obtain m where g: "genericCacheManagerGet (pc_mgr c) k True = Some (Some a, m)" "rc_ok m (pc_keys c) (pc_refs c) (pc_next c)"
    "gcm_entries m = pc_ents c"
    using rc_ok_get [OF rc, of k True] assms(2) by auto
  have d: "pc_refs c a = 0 \<longrightarrow> \<not> pe_isDirty (pc_heap c a)"
    using pc_tree_flags [OF t] assms(2) by (auto simp: pc_flags_def)
  obtain m1 where m1: "pageCacheAddRefCount (c\<lparr>pc_mgr := m\<rparr>) a =
      Some (c\<lparr>pc_heap := (pc_heap c)(a := (pc_heap c a)\<lparr>pe_refCount := pc_refs c a + 1\<rparr>), pc_mgr := m1\<rparr>)"
      "pc_rc (c\<lparr>pc_heap := (pc_heap c)(a := (pc_heap c a)\<lparr>pe_refCount := pc_refs c a + 1\<rparr>), pc_mgr := m1\<rparr>)"
      "gcm_entries m1 = pc_ents c"
    using pc_add_ref [of "c\<lparr>pc_mgr := m\<rparr>" k a] g(2,3) assms(2) r d by auto
  let ?c' = "c\<lparr>pc_heap := (pc_heap c)(a := (pc_heap c a)\<lparr>pe_refCount := pc_refs c a + 1\<rparr>), pc_mgr := m1\<rparr>"
  have "pc_tree ?c'"
    by (rule pc_tree_cong [OF t]) (use m1(3) r in auto)
  then show ?thesis
    using m1 g(1) b by (intro exI [of _ m1]) (simp add: pageCacheGet_def pc_inv_def pc_base_def)
qed

subsection \<open>The dirty pages\<close>

lemma dp_put_set: "set (dp_put ms n) = insert n (set ms)"
  by (induction ms n rule: dp_put.induct) auto

lemma dp_put_sorted:
  "sorted_wrt (<) (map fst ms) \<Longrightarrow> fst n \<notin> fst ` set ms \<Longrightarrow> sorted_wrt (<) (map fst (dp_put ms n))"
  by (induction ms n rule: dp_put.induct) (auto simp: dp_put_set)

lemma dp_distinct: "sorted_wrt (<) (map fst (ms :: (u32 \<times> nat) list)) \<Longrightarrow> distinct ms"
  by (metis distinct_map strict_sorted_iff)

lemma dp_del_set: "sorted_wrt (<) (map fst ms) \<Longrightarrow> set (dp_del ms n) = set ms - {n}"
  using dp_distinct by (simp add: dp_del_def)

lemma dp_del_sorted: "sorted_wrt (<) (map fst ms) \<Longrightarrow> sorted_wrt (<) (map fst (dp_del ms n))"
  unfolding dp_del_def sorted_wrt_map by (rule sorted_wrt_remove1)

lemma pc_tree_del:
  assumes "pc_tree c" and "pc_rc c" and "(k, a) \<in> set (pc_dirtyPages c)" and "\<not> pe_isDirty e"
    and "gcm_entries m = pc_ents c"
  shows "pc_tree (c\<lparr>pc_heap := (pc_heap c)(a := e), pc_mgr := m, pc_dirtyPages := dp_del (pc_dirtyPages c) (k, a)\<rparr>)"
proof -
  have s: "sorted_wrt (<) (map fst (pc_dirtyPages c))"
    and d: "\<And>j b. (j, b) \<in> set (pc_dirtyPages c) \<longleftrightarrow> pc_ents c j = Some b \<and> pe_isDirty (pc_heap c b)"
    and r: "\<And>j b. pc_ents c j = Some b \<Longrightarrow> pe_isDirty (pc_heap c b) \<Longrightarrow> pc_refs c b \<noteq> 0"
    using assms(1) by (auto simp: pc_tree_def)
  have k: "pc_ents c k = Some a" using assms(3) d by blast
  have "(j, b) \<in> set (dp_del (pc_dirtyPages c) (k, a)) \<longleftrightarrow> pc_ents c j = Some b \<and> pe_isDirty (((pc_heap c)(a := e)) b)" for j b
    using d [of j b] pc_inj [OF assms(2) k, of j] assms(4) k by (auto simp: dp_del_set [OF s])
  then show ?thesis
    using dp_del_sorted [OF s] r assms(4) unfolding pc_tree_def by (simp add: assms(5)) blast
qed

text \<open>Clearing the flag of a dirty page and dropping the tree's reference on it.\<close>

lemma pc_drop_dirty:
  assumes "pc_rc c" and "pc_ents c k = Some a" and "pc_refs c a \<noteq> 0"
    and "pe_blkoff e = k" and "pe_refCount e = pc_refs c a" and "\<not> pe_isDirty e"
  shows "\<exists>m. pageEntryHandleDestroy (pc_set c a e) (Some a) =
      Some (c\<lparr>pc_heap := (pc_heap c)(a := e\<lparr>pe_refCount := pc_refs c a - 1\<rparr>), pc_mgr := m\<rparr>) \<and>
    pc_rc (c\<lparr>pc_heap := (pc_heap c)(a := e\<lparr>pe_refCount := pc_refs c a - 1\<rparr>), pc_mgr := m\<rparr>) \<and>
    gcm_entries m = pc_ents c"
proof -
  have "pc_rc (pc_set c a e)"
    by (rule pc_rc_cong [OF assms(1)]) (use assms pc_key [OF assms(1,2)] in auto)
  then have "\<exists>m. pageCacheSubRefCount (pc_set c a e) a =
      Some (pc_set c a e\<lparr>pc_heap := (pc_heap (pc_set c a e))(a := (pc_heap (pc_set c a e) a)\<lparr>pe_refCount := pc_refs (pc_set c a e) a - 1\<rparr>), pc_mgr := m\<rparr>) \<and>
    pc_rc (pc_set c a e\<lparr>pc_heap := (pc_heap (pc_set c a e))(a := (pc_heap (pc_set c a e) a)\<lparr>pe_refCount := pc_refs (pc_set c a e) a - 1\<rparr>), pc_mgr := m\<rparr>) \<and>
    gcm_entries m = pc_ents (pc_set c a e)"
    by (rule pc_sub_ref) (use assms in simp_all)
  then show ?thesis
    by (simp add: pageEntryHandleDestroy_def assms(5))
qed

text \<open>What clearing does to an entry, without and with the invalidation of \<^verbatim>\<open>pageCacheTruncate\<close>.\<close>

definition pc_cleared :: "PageEntry \<Rightarrow> PageEntry" where
  "pc_cleared e = e\<lparr>pe_isDirty := False, pe_refCount := pe_refCount e - 1\<rparr>"

definition pc_cut :: "PageEntry \<Rightarrow> PageEntry" where
  "pc_cut e = e\<lparr>pe_isDirty := False, pe_contentState := PAGE_INVALID, pe_refCount := pe_refCount e - 1\<rparr>"

lemma pc_dirtyD:
  assumes "pc_tree c" and "(k, a) \<in> set (pc_dirtyPages c)"
  shows "pc_ents c k = Some a" "pe_isDirty (pc_heap c a)" "pc_refs c a \<noteq> 0"
  using assms unfolding pc_tree_def by blast+

lemma pc_release_spec:
  assumes "pc_inv (c\<lparr>pc_dirtyPages := ns\<rparr>)"
  shows "\<exists>m. pc_release c ns = Some (c\<lparr>pc_heap := \<lambda>a. if a \<in> snd ` set ns then pc_cleared (pc_heap c a) else pc_heap c a, pc_mgr := m\<rparr>) \<and>
    pc_inv (c\<lparr>pc_heap := \<lambda>a. if a \<in> snd ` set ns then pc_cleared (pc_heap c a) else pc_heap c a, pc_mgr := m, pc_dirtyPages := []\<rparr>) \<and>
    gcm_entries m = pc_ents c"
  using assms
proof (induction ns arbitrary: c)
  case Nil
  then show ?case by (intro exI [of _ "pc_mgr c"]) simp
next
  case (Cons n ns)
  obtain k a where n: "n = (k, a)" by force
  let ?c = "c\<lparr>pc_dirtyPages := n # ns\<rparr>"
  let ?e = "(pc_heap c a)\<lparr>pe_isDirty := False\<rparr>"
  have t: "pc_tree ?c" and rc: "pc_rc c" and b: "pc_curSize c = card (dom (pc_ents c))"
    using Cons.prems by (simp_all add: pc_inv_def pc_base_def)
  have d: "pc_ents c k = Some a" "pe_isDirty (pc_heap c a)" "pc_refs c a \<noteq> 0"
    using pc_dirtyD [OF t, of k a] n by simp_all
  obtain m where m: "pageEntryHandleDestroy (pc_set c a ?e) (Some a) =
      Some (c\<lparr>pc_heap := (pc_heap c)(a := pc_cleared (pc_heap c a)), pc_mgr := m\<rparr>)"
    "pc_rc (c\<lparr>pc_heap := (pc_heap c)(a := pc_cleared (pc_heap c a)), pc_mgr := m\<rparr>)" "gcm_entries m = pc_ents c"
    using pc_drop_dirty [OF rc d(1,3), of ?e] pc_key [OF rc d(1)] by (auto simp: pc_cleared_def)
  let ?c1 = "c\<lparr>pc_heap := (pc_heap c)(a := pc_cleared (pc_heap c a)), pc_mgr := m\<rparr>"
  have "pc_tree (?c\<lparr>pc_heap := (pc_heap ?c)(a := pc_cleared (pc_heap c a)), pc_mgr := m, pc_dirtyPages := dp_del (pc_dirtyPages ?c) (k, a)\<rparr>)"
    by (rule pc_tree_del [OF t]) (use rc n m(3) in \<open>simp_all add: pc_cleared_def\<close>)
  then have "pc_tree (?c1\<lparr>pc_dirtyPages := ns\<rparr>)" by (simp add: dp_del_def n)
  then have "pc_inv (?c1\<lparr>pc_dirtyPages := ns\<rparr>)"
    using m(2,3) b by (simp add: pc_inv_def pc_base_def)
  note IH = Cons.IH [OF this]
  have "a \<notin> snd ` set ns"
  proof
    assume "a \<in> snd ` set ns"
    then obtain j where j: "(j, a) \<in> set ns" by force
    then have "j = k" using pc_dirtyD(1) [OF t, of j a] pc_inj [OF rc d(1), of j] by simp
    moreover have "distinct (n # ns)" by (rule dp_distinct) (use t in \<open>simp add: pc_tree_def\<close>)
    ultimately show False using j n by simp
  qed
  then have h: "(\<lambda>x. if x \<in> snd ` set ns then pc_cleared (pc_heap ?c1 x) else pc_heap ?c1 x) =
      (\<lambda>x. if x \<in> snd ` set (n # ns) then pc_cleared (pc_heap c x) else pc_heap c x)"
    using n by auto
  from IH m(1) n show ?case
    unfolding h by (auto simp: m(3))
qed

subsection \<open>Truncation\<close>

lemma find_append_mid: "\<forall>m \<in> set xs. \<not> P m \<Longrightarrow> P n \<Longrightarrow> find P (xs @ n # ys) = Some n"
  by (induction xs) auto

lemma dp_upper_None: "dp_upper ms q = None \<longleftrightarrow> (\<forall>m \<in> set ms. fst m < q)"
  by (auto simp: dp_upper_def find_None_iff)

lemma dp_upper_split:
  assumes "dp_upper ms q = Some n"
  obtains xs ys where "ms = xs @ n # ys" "\<forall>m \<in> set xs. fst m < q" "q \<le> fst n"
proof -
  obtain i where i: "i < length ms" "q \<le> fst (ms ! i)" "n = ms ! i" "\<forall>j < i. \<not> q \<le> fst (ms ! j)"
    using assms by (auto simp: dp_upper_def find_Some_iff)
  have "ms = take i ms @ n # drop (Suc i) ms"
    using id_take_nth_drop [OF i(1)] i(3) by simp
  moreover have "\<forall>m \<in> set (take i ms). fst m < q"
    using i(1,4) by (fastforce simp: in_set_conv_nth not_le)
  ultimately show thesis using i that by blast
qed

text \<open>After the removal of the first node from \<open>q\<close> on, a search from its key finds the next node from \<open>q\<close> on.\<close>

lemma dp_upper_next:
  assumes "sorted_wrt (<) (map fst ms)" and "dp_upper ms q = Some n"
  shows "dp_upper (dp_del ms n) (fst n) = dp_upper (dp_del ms n) q"
    and "filter (\<lambda>m. fst m < q) (dp_del ms n) = filter (\<lambda>m. fst m < q) ms"
    and "{m \<in> set ms. q \<le> fst m} = insert n {m \<in> set (dp_del ms n). q \<le> fst m}"
proof -
  obtain xs ys where m: "ms = xs @ n # ys" "\<forall>m \<in> set xs. fst m < q" "q \<le> fst n"
    using dp_upper_split [OF assms(2)] .
  have lt: "\<forall>m \<in> set xs. fst m < fst n" "\<forall>m \<in> set ys. fst n < fst m"
    using assms(1) m(1) by (auto simp: sorted_wrt_append)
  then have d: "dp_del ms n = xs @ ys"
    unfolding dp_del_def m(1) by (subst remove1_append) auto
  have f: "find P (xs @ ys) = find P ys" if "\<forall>m \<in> set xs. \<not> P m" for P :: "u32 \<times> nat \<Rightarrow> bool"
    using that by (induction xs) auto
  have "dp_upper (xs @ ys) (fst n) = find (\<lambda>m. fst n \<le> fst m) ys" "dp_upper (xs @ ys) q = find (\<lambda>m. q \<le> fst m) ys"
    using lt m(2) unfolding dp_upper_def by (auto intro!: f simp: not_le)
  moreover have "find (\<lambda>m. fst n \<le> fst m) ys = find (\<lambda>m. q \<le> fst m) ys"
    using lt(2) m(3) by (cases ys) (auto simp: less_imp_le intro: order_trans)
  ultimately show "dp_upper (dp_del ms n) (fst n) = dp_upper (dp_del ms n) q"
    by (simp add: d)
  show "filter (\<lambda>m. fst m < q) (dp_del ms n) = filter (\<lambda>m. fst m < q) ms"
    unfolding d using m by auto
  show "{m \<in> set ms. q \<le> fst m} = insert n {m \<in> set (dp_del ms n). q \<le> fst m}"
    unfolding d using m by auto
qed

lemma pc_swap: "c\<lparr>pc_heap := h, pc_dirtyPages := d\<rparr> = c\<lparr>pc_dirtyPages := d, pc_heap := h\<rparr>"
  by (cases c) simp

lemma pc_truncate_loop:
  assumes "pc_inv c"
  shows "\<exists>m. pageCacheTruncateLoop c (dp_upper (pc_dirtyPages c) q) =
      Some (c\<lparr>pc_heap := \<lambda>a. if \<exists>k. (k, a) \<in> set (pc_dirtyPages c) \<and> q \<le> k then pc_cut (pc_heap c a) else pc_heap c a,
        pc_mgr := m, pc_dirtyPages := filter (\<lambda>n. fst n < q) (pc_dirtyPages c)\<rparr>) \<and>
    pc_inv (c\<lparr>pc_heap := \<lambda>a. if \<exists>k. (k, a) \<in> set (pc_dirtyPages c) \<and> q \<le> k then pc_cut (pc_heap c a) else pc_heap c a,
        pc_mgr := m, pc_dirtyPages := filter (\<lambda>n. fst n < q) (pc_dirtyPages c)\<rparr>) \<and>
    gcm_entries m = pc_ents c"
  using assms
proof (induction "length (pc_dirtyPages c)" arbitrary: c rule: less_induct)
  case less
  have t: "pc_tree c" and rc: "pc_rc c" and b: "pc_curSize c = card (dom (pc_ents c))"
    using less.prems by (simp_all add: pc_inv_def pc_base_def)
  then have s: "sorted_wrt (<) (map fst (pc_dirtyPages c))"
    by (simp add: pc_tree_def)
  show ?case
  proof (cases "dp_upper (pc_dirtyPages c) q")
    case None
    then have f: "filter (\<lambda>n. fst n < q) (pc_dirtyPages c) = pc_dirtyPages c"
      and h: "(\<lambda>a. if \<exists>k. (k, a) \<in> set (pc_dirtyPages c) \<and> q \<le> k then pc_cut (pc_heap c a) else pc_heap c a) = pc_heap c"
      by (force simp: dp_upper_None)+
    show ?thesis
      unfolding f h using less.prems None by (subst pageCacheTruncateLoop.simps) (auto intro!: exI [of _ "pc_mgr c"])
  next
    case (Some n)
    obtain k a where n: "n = (k, a)" by force
    note nx = dp_upper_next [OF s Some]
    obtain xs ys where "pc_dirtyPages c = xs @ n # ys"
      by (rule dp_upper_split [OF Some])
    then have mem: "n \<in> set (pc_dirtyPages c)" by simp
    have d: "pc_ents c k = Some a" "pe_isDirty (pc_heap c a)" "pc_refs c a \<noteq> 0"
      using pc_dirtyD [OF t, of k a] n mem by simp_all
    let ?e = "(pc_heap c a)\<lparr>pe_isDirty := False, pe_contentState := PAGE_INVALID\<rparr>"
    let ?D = "dp_del (pc_dirtyPages c) n"
    let ?c0 = "c\<lparr>pc_dirtyPages := ?D\<rparr>"
    obtain m where m: "pageEntryHandleDestroy (pc_set ?c0 a ?e) (Some a) =
        Some (?c0\<lparr>pc_heap := (pc_heap c)(a := pc_cut (pc_heap c a)), pc_mgr := m\<rparr>)"
      "pc_rc (?c0\<lparr>pc_heap := (pc_heap c)(a := pc_cut (pc_heap c a)), pc_mgr := m\<rparr>)" "gcm_entries m = pc_ents c"
      using pc_drop_dirty [of ?c0 k a ?e] rc d pc_key [OF rc d(1)] by (auto simp: pc_cut_def)
    let ?c1 = "?c0\<lparr>pc_heap := (pc_heap c)(a := pc_cut (pc_heap c a)), pc_mgr := m\<rparr>"
    have "pc_tree (c\<lparr>pc_heap := (pc_heap c)(a := pc_cut (pc_heap c a)), pc_mgr := m, pc_dirtyPages := dp_del (pc_dirtyPages c) (k, a)\<rparr>)"
      by (rule pc_tree_del [OF t rc]) (use n mem m(3) in \<open>simp_all add: pc_cut_def\<close>)
    moreover have "c\<lparr>pc_heap := (pc_heap c)(a := pc_cut (pc_heap c a)), pc_mgr := m, pc_dirtyPages := dp_del (pc_dirtyPages c) (k, a)\<rparr> = ?c1"
      by (cases c) (simp add: n)
    ultimately have "pc_tree ?c1" by (simp only:)
    then have inv1: "pc_inv ?c1"
      using m(2,3) b by (simp add: pc_inv_def pc_base_def)
    have step: "pageCacheTruncateLoop c (dp_upper (pc_dirtyPages c) q) = pageCacheTruncateLoop ?c1 (dp_upper (pc_dirtyPages ?c1) q)"
      using Some m(1) n nx(1) by (subst pageCacheTruncateLoop.simps) (simp add: pc_swap)
    have "length (pc_dirtyPages ?c1) < length (pc_dirtyPages c)"
      using length_remove1_mem [OF mem(1)] by (simp add: dp_del_def)
    note IH = less.hyps [OF this inv1]
    have ck: "(\<exists>j. (j, y) \<in> set (pc_dirtyPages c) \<and> q \<le> j) \<longleftrightarrow> y = a \<or> (\<exists>j. (j, y) \<in> set ?D \<and> q \<le> j)" for y
      using nx(3) n by (auto simp: set_eq_iff)
    have "\<not> (j, a) \<in> set ?D" for j
      using pc_dirtyD(1) [OF t, of j a] pc_inj [OF rc d(1), of j] n by (auto simp: dp_del_set [OF s])
    then have h: "(\<lambda>y. if \<exists>j. (j, y) \<in> set (pc_dirtyPages ?c1) \<and> q \<le> j then pc_cut (pc_heap ?c1 y) else pc_heap ?c1 y) =
        (\<lambda>y. if \<exists>j. (j, y) \<in> set (pc_dirtyPages c) \<and> q \<le> j then pc_cut (pc_heap c y) else pc_heap c y)"
      by (intro ext) (simp add: ck, blast)
    from IH show ?thesis
      unfolding step h by (simp add: nx(2) m(3))
  qed
qed

lemma pc_truncate:
  assumes "pc_inv c" and "M \<noteq> - 1"
  shows "\<exists>m. pageCacheTruncate c M =
      Some (c\<lparr>pc_heap := \<lambda>a. if \<exists>k. (k, a) \<in> set (pc_dirtyPages c) \<and> M < k then pc_cut (pc_heap c a) else pc_heap c a,
        pc_mgr := m, pc_dirtyPages := filter (\<lambda>n. fst n \<le> M) (pc_dirtyPages c)\<rparr>) \<and>
    pc_inv (c\<lparr>pc_heap := \<lambda>a. if \<exists>k. (k, a) \<in> set (pc_dirtyPages c) \<and> M < k then pc_cut (pc_heap c a) else pc_heap c a,
        pc_mgr := m, pc_dirtyPages := filter (\<lambda>n. fst n \<le> M) (pc_dirtyPages c)\<rparr>) \<and>
    gcm_entries m = pc_ents c"
proof -
  have lt: "1 + M \<le> k \<longleftrightarrow> M < k" "k < 1 + M \<longleftrightarrow> k \<le> M" for k
    using unat_add1_u32 [OF assms(2)] by (simp_all add: word_le_nat_alt word_less_nat_alt add.commute less_Suc_eq_le Suc_le_eq)
  have "pageCacheTruncate c M = pageCacheTruncateLoop c (dp_upper (pc_dirtyPages c) (1 + M))"
  proof (cases "dp_upper (pc_dirtyPages c) M")
    case None
    then have "dp_upper (pc_dirtyPages c) (1 + M) = None"
      unfolding dp_upper_None lt by (auto simp: less_imp_le)
    then show ?thesis
      using None by (subst pageCacheTruncateLoop.simps) (simp add: pageCacheTruncate_def)
  next
    case (Some n)
    show ?thesis
    proof (cases "fst n \<le> M")
      case True
      then show ?thesis using Some by (simp add: pageCacheTruncate_def)
    next
      case False
      obtain xs ys where m: "pc_dirtyPages c = xs @ n # ys" "\<forall>m \<in> set xs. fst m < M"
        by (rule dp_upper_split [OF Some])
      have "dp_upper (xs @ n # ys) (1 + M) = Some n"
        unfolding dp_upper_def by (rule find_append_mid) (use False m(2) in \<open>auto simp: lt not_le not_less less_imp_le\<close>)
      then have "dp_upper (pc_dirtyPages c) (1 + M) = Some n" by (simp only: m(1))
      then show ?thesis using Some False by (simp add: pageCacheTruncate_def)
    qed
  qed
  with pc_truncate_loop [OF assms(1), of "1 + M"] show ?thesis
    by (simp add: lt)
qed

subsection \<open>Marking pages\<close>

lemma pc_make_dirty:
  assumes "pc_inv c" and "pc_ents c k = Some a" and "pc_refs c a \<noteq> 0" and "pc_refs c a \<noteq> - 1"
    and "\<not> pe_isDirty (pc_heap c a)"
  shows "\<exists>m. pageEntryHandleMakeDirty c a =
      Some (c\<lparr>pc_heap := (pc_heap c)(a := (pc_heap c a)\<lparr>pe_isDirty := True, pe_refCount := pc_refs c a + 1\<rparr>), pc_mgr := m,
        pc_dirtyPages := dp_put (pc_dirtyPages c) (k, a)\<rparr>) \<and>
    pc_inv (c\<lparr>pc_heap := (pc_heap c)(a := (pc_heap c a)\<lparr>pe_isDirty := True, pe_refCount := pc_refs c a + 1\<rparr>), pc_mgr := m,
        pc_dirtyPages := dp_put (pc_dirtyPages c) (k, a)\<rparr>) \<and> gcm_entries m = pc_ents c"
proof -
  have t: "pc_tree c" and rc: "pc_rc c" and b: "pc_curSize c = card (dom (pc_ents c))"
    using assms(1) by (simp_all add: pc_inv_def pc_base_def)
  have r: "pc_refs c a + 1 \<noteq> 0" using assms(4) by (metis add.commute eq_neg_iff_add_eq_0)
  have ge: "1 \<le> pc_refs c a" using assms(3) by (simp add: word_le_nat_alt unat_gt_0 Suc_le_eq)
  let ?c1 = "pc_set c a ((pc_heap c a)\<lparr>pe_isDirty := True\<rparr>)"
  have k: "pc_keys c a = k" by (rule pc_key [OF rc assms(2)])
  have "pc_rc ?c1"
    by (rule pc_rc_cong [OF rc]) auto
  then obtain m where m: "pageCacheAddRefCount ?c1 a =
      Some (c\<lparr>pc_heap := (pc_heap c)(a := (pc_heap c a)\<lparr>pe_isDirty := True, pe_refCount := pc_refs c a + 1\<rparr>), pc_mgr := m\<rparr>)"
      "pc_rc (c\<lparr>pc_heap := (pc_heap c)(a := (pc_heap c a)\<lparr>pe_isDirty := True, pe_refCount := pc_refs c a + 1\<rparr>), pc_mgr := m\<rparr>)"
      "gcm_entries m = pc_ents c"
    using pc_add_ref [of ?c1 k a] assms(2,3) r by auto
  let ?c2 = "c\<lparr>pc_heap := (pc_heap c)(a := (pc_heap c a)\<lparr>pe_isDirty := True, pe_refCount := pc_refs c a + 1\<rparr>), pc_mgr := m,
        pc_dirtyPages := dp_put (pc_dirtyPages c) (k, a)\<rparr>"
  have "pageEntryHandleMakeDirty c a = Some ?c2"
    using m(1) assms(5) ge k
    by (simp add: pageEntryHandleMakeDirty_def pageEntryMarkDirty_def pageCacheAddToDirtyPages_def
        pageEntryHandleCopy_def pageEntryHandleDoAddRef_def)
  moreover have "pc_tree ?c2"
  proof -
    have s: "sorted_wrt (<) (map fst (pc_dirtyPages c))"
      and d: "\<And>j x. (j, x) \<in> set (pc_dirtyPages c) \<longleftrightarrow> pc_ents c j = Some x \<and> pe_isDirty (pc_heap c x)"
      and rf: "\<And>j x. pc_ents c j = Some x \<Longrightarrow> pe_isDirty (pc_heap c x) \<Longrightarrow> pc_refs c x \<noteq> 0"
      using t by (auto simp: pc_tree_def)
    have k: "k \<notin> fst ` set (pc_dirtyPages c)"
      using d assms(2,5) by force
    show ?thesis
    proof (rule pc_treeI)
      show "sorted_wrt (<) (map fst (pc_dirtyPages ?c2))"
        using dp_put_sorted [OF s, of "(k, a)"] k by simp
      show "(j, x) \<in> set (pc_dirtyPages ?c2) \<longleftrightarrow> pc_ents ?c2 j = Some x \<and> pe_isDirty (pc_heap ?c2 x)" for j x
        using d [of j x] assms(2) pc_inj [OF rc assms(2), of j] by (auto simp: dp_put_set m(3))
      show "pc_refs ?c2 x \<noteq> 0" if "pc_ents ?c2 j = Some x" "pe_isDirty (pc_heap ?c2 x)" for j x
        using that rf [of j x] r m(3) by (auto split: if_splits)
    qed
  qed
  ultimately show ?thesis
    using m(2,3) b by (intro exI [of _ m]) (simp add: pc_inv_def pc_base_def)
qed

lemma unat_sub1_u32: "x \<noteq> (0 :: u32) \<Longrightarrow> unat (x - 1) = unat x - 1"
  by (metis unat_minus_one)

lemma pc_held_cleared:
  assumes "pe_isDirty (pc_heap c a)" and "pc_refs c a \<noteq> 0" and "pc_heap c' a = pc_cleared (pc_heap c a) \<or> pc_heap c' a = pc_cut (pc_heap c a)"
  shows "pc_held c' a = pc_held c a"
  using assms unat_sub1_u32 [of "pc_refs c a"] by (auto simp: pc_held_def pc_cleared_def pc_cut_def)

lemma pc_mark:
  assumes "pc_inv c" and "pc_ents c k = Some a" and "0 < pc_held c a" and "pc_refs c a \<noteq> - 1"
  shows "\<exists>c'. pageEntryHandleMakeDirty c a = Some c' \<and> pc_inv c' \<and> pageEntryHandleMakeDirty c' a = Some c' \<and>
    fst ` set (pageCacheGetDirtyPages c') = insert k (fst ` set (pageCacheGetDirtyPages c)) \<and> pc_ents c' = pc_ents c \<and>
    (\<forall>j b. pc_ents c j = Some b \<longrightarrow> pc_held c' b = pc_held c b)"
proof (cases "pe_isDirty (pc_heap c a)")
  case True
  then have "(k, a) \<in> set (pc_dirtyPages c)"
    using assms(1,2) by (simp add: pc_inv_def pc_tree_def)
  then have "fst ` set (pc_dirtyPages c) = insert k (fst ` set (pc_dirtyPages c))"
    by (metis fst_conv image_eqI insert_absorb)
  moreover have "pageEntryHandleMakeDirty c a = Some c"
    using True by (simp add: pageEntryHandleMakeDirty_def pageEntryMarkDirty_def)
  ultimately show ?thesis
    using assms(1) unfolding pageCacheGetDirtyPages_def by blast
next
  case False
  have r: "pc_refs c a \<noteq> 0" using assms(3) by (auto simp: pc_held_def)
  let ?e = "(pc_heap c a)\<lparr>pe_isDirty := True, pe_refCount := pc_refs c a + 1\<rparr>"
  obtain m where m: "pageEntryHandleMakeDirty c a =
      Some (c\<lparr>pc_heap := (pc_heap c)(a := ?e), pc_mgr := m, pc_dirtyPages := dp_put (pc_dirtyPages c) (k, a)\<rparr>)"
    "pc_inv (c\<lparr>pc_heap := (pc_heap c)(a := ?e), pc_mgr := m, pc_dirtyPages := dp_put (pc_dirtyPages c) (k, a)\<rparr>)"
    "gcm_entries m = pc_ents c"
    using pc_make_dirty [OF assms(1,2) r assms(4) False] by blast
  moreover have "unat (pc_refs c a + 1) - 1 = unat (pc_refs c a)"
    using unat_add1_u32 [OF assms(4)] by simp
  ultimately show ?thesis
    using False
    by (intro exI [of _ "c\<lparr>pc_heap := (pc_heap c)(a := ?e), pc_mgr := m, pc_dirtyPages := dp_put (pc_dirtyPages c) (k, a)\<rparr>"])
      (simp add: pageCacheGetDirtyPages_def dp_put_set pc_held_def pageEntryHandleMakeDirty_def pageEntryMarkDirty_def)
qed

lemma pc_dirty_iff:
  "pc_inv c \<Longrightarrow> pc_ents c j = Some b \<Longrightarrow> (i, b) \<in> set (pc_dirtyPages c) \<longleftrightarrow> i = j \<and> pe_isDirty (pc_heap c b)"
  using pc_inj [of c j b i] by (auto simp: pc_inv_def pc_base_def pc_tree_def)

lemma pc_clear:
  assumes "pc_inv c"
  shows "\<exists>c'. pageCacheClearDirtyPages c = Some c' \<and> pc_inv c' \<and> pageCacheGetDirtyPages c' = [] \<and>
    pc_ents c' = pc_ents c \<and> (\<forall>j b. pc_ents c j = Some b \<longrightarrow> pc_held c' b = pc_held c b)"
proof -
  let ?h = "\<lambda>a. if a \<in> snd ` set (pc_dirtyPages c) then pc_cleared (pc_heap c a) else pc_heap c a"
  have "pc_inv (c\<lparr>pc_dirtyPages := pc_dirtyPages c\<rparr>)" using assms by simp
  then obtain m where m: "pc_release c (pc_dirtyPages c) = Some (c\<lparr>pc_heap := ?h, pc_mgr := m\<rparr>)"
    "pc_inv (c\<lparr>pc_heap := ?h, pc_mgr := m, pc_dirtyPages := []\<rparr>)" "gcm_entries m = pc_ents c"
    using pc_release_spec by blast
  let ?c' = "c\<lparr>pc_heap := ?h, pc_mgr := m, pc_dirtyPages := []\<rparr>"
  have "pc_held ?c' b = pc_held c b" if "pc_ents c j = Some b" for j b
  proof (cases "b \<in> snd ` set (pc_dirtyPages c)")
    case True
    then obtain i where "(i, b) \<in> set (pc_dirtyPages c)" by force
    then have "pe_isDirty (pc_heap c b)" "pc_refs c b \<noteq> 0"
      using pc_dirtyD [of c i b] assms unfolding pc_inv_def by blast+
    with True show ?thesis by (intro pc_held_cleared) simp_all
  next
    case False
    then show ?thesis by (simp add: pc_held_def)
  qed
  then show ?thesis
    using m by (intro exI [of _ ?c']) (simp add: pageCacheClearDirtyPages_def pageCacheGetDirtyPages_def)
qed

lemma pc_truncated:
  assumes "pc_inv c" and "M \<noteq> - 1"
  shows "\<exists>c'. pageCacheTruncate c M = Some c' \<and> pc_inv c' \<and>
    fst ` set (pageCacheGetDirtyPages c') = {j \<in> fst ` set (pageCacheGetDirtyPages c). j \<le> M} \<and>
    pc_ents c' = pc_ents c \<and> (\<forall>j b. pc_ents c j = Some b \<longrightarrow> pc_held c' b = pc_held c b) \<and>
    (\<forall>j b. pc_ents c j = Some b \<longrightarrow> pageEntryGetState c' b =
       (if pe_isDirty (pc_heap c b) \<and> M < j then PAGE_INVALID else pageEntryGetState c b))"
proof -
  let ?h = "\<lambda>a. if \<exists>k. (k, a) \<in> set (pc_dirtyPages c) \<and> M < k then pc_cut (pc_heap c a) else pc_heap c a"
  let ?d = "filter (\<lambda>n. fst n \<le> M) (pc_dirtyPages c)"
  obtain m where m: "pageCacheTruncate c M = Some (c\<lparr>pc_heap := ?h, pc_mgr := m, pc_dirtyPages := ?d\<rparr>)"
    "pc_inv (c\<lparr>pc_heap := ?h, pc_mgr := m, pc_dirtyPages := ?d\<rparr>)" "gcm_entries m = pc_ents c"
    using pc_truncate [OF assms] by blast
  let ?c' = "c\<lparr>pc_heap := ?h, pc_mgr := m, pc_dirtyPages := ?d\<rparr>"
  have h: "pc_heap ?c' b = (if pe_isDirty (pc_heap c b) \<and> M < j then pc_cut (pc_heap c b) else pc_heap c b)"
    if "pc_ents c j = Some b" for j b
    using pc_dirty_iff [OF assms(1) that] by auto
  have "pc_held ?c' b = pc_held c b" if "pc_ents c j = Some b" for j b
  proof (cases "pe_isDirty (pc_heap c b) \<and> M < j")
    case True
    then have "pc_refs c b \<noteq> 0" using assms(1) that by (auto simp: pc_inv_def pc_tree_def)
    then show ?thesis using True h [OF that] by (intro pc_held_cleared) simp_all
  next
    case False
    then have "pc_heap ?c' b = pc_heap c b" using h [OF that] by presburger
    then show ?thesis unfolding pc_held_def by (simp only:)
  qed
  moreover have "pageEntryGetState ?c' b = (if pe_isDirty (pc_heap c b) \<and> M < j then PAGE_INVALID else pageEntryGetState c b)"
    if "pc_ents c j = Some b" for j b
    using h [OF that] unfolding pageEntryGetState_def by (simp add: pc_cut_def split: if_splits)
  moreover have "fst ` set ?d = {j \<in> fst ` set (pc_dirtyPages c). j \<le> M}"
    by auto
  ultimately show ?thesis
    using m by (intro exI [of _ ?c']) (simp add: pageCacheGetDirtyPages_def)
qed

subsection \<open>Properties\<close>

lemma pc_get:
  assumes "pc_inv c" and "\<forall>a. pc_ents c k = Some a \<longrightarrow> pc_refs c a \<noteq> - 1"
  shows "\<exists>a c'. pageCacheGet junk c k = Some (a, c') \<and> pc_inv c' \<and> pc_ents c' k = Some a \<and> pc_other c c' k \<and>
    (case pc_ents c k of
       Some b \<Rightarrow> a = b \<and> pc_heap c' a = (pc_heap c a)\<lparr>pe_refCount := pc_refs c a + 1\<rparr>
     | None \<Rightarrow> pc_fresh (pc_heap c' a) k \<and>
         (pc_curSize c' \<le> pc_expectSize c \<or> (\<forall>j b. pc_ents c' j = Some b \<longrightarrow> pc_refs c' b \<noteq> 0)))"
proof (cases "pc_ents c k")
  case None
  show ?thesis using pc_get_miss [OF assms(1) None, of junk] None by auto
next
  case (Some b)
  then have r: "pc_refs c b \<noteq> - 1" and rc: "pc_rc c"
    using assms by (auto simp: pc_inv_def pc_base_def)
  let ?e = "(pc_heap c b)\<lparr>pe_refCount := pc_refs c b + 1\<rparr>"
  obtain m where m: "pageCacheGet junk c k = Some (b, c\<lparr>pc_heap := (pc_heap c)(b := ?e), pc_mgr := m\<rparr>)"
    "pc_inv (c\<lparr>pc_heap := (pc_heap c)(b := ?e), pc_mgr := m\<rparr>)" "gcm_entries m = pc_ents c"
    using pc_get_hit [OF assms(1) Some r] by blast
  moreover have "pc_other c (c\<lparr>pc_heap := (pc_heap c)(b := ?e), pc_mgr := m\<rparr>) k"
    using pc_inj [OF rc Some] m(3) unfolding pc_other_def by auto
  ultimately show ?thesis
    using Some by (intro exI [of _ b]) auto
qed

text \<open>
  Claim C26. A lookup in the page cache returns and keeps the invariant. It returns the entry of the offset: the
  cached one with one more reference, or a fresh one that is invalid and clean. No other page is added or changed, and
  none that a handle or the dirty tree refers to is replaced. After a miss the cache is within its size, or
  every entry of it is referenced.
\<close>

theorem pageCacheGet_protects:
  assumes "pc_inv c" and "\<forall>a. pc_ents c k = Some a \<longrightarrow> pc_refs c a \<noteq> - 1"
  shows "\<exists>a c'. pageCacheGet junk c k = Some (a, c') \<and> pc_inv c' \<and> pc_ents c' k = Some a \<and> pc_other c c' k \<and>
    (case pc_ents c k of
       Some b \<Rightarrow> a = b \<and> pc_heap c' a = (pc_heap c a)\<lparr>pe_refCount := pc_refs c a + 1\<rparr>
     | None \<Rightarrow> pc_fresh (pc_heap c' a) k \<and>
         (pc_curSize c' \<le> pc_expectSize c \<or> (\<forall>j b. pc_ents c' j = Some b \<longrightarrow> pc_refs c' b \<noteq> 0)))"
  by (rule pc_get [OF assms])

text \<open>
  Claim C27. The dirty pages of the cache are a set of offsets: marking a page that is held adds its offset, marking it
  again changes nothing, clearing the tree empties the set, and truncating to an offset keeps the pages
  up to it. The number of handles on every page stays, and truncation marks exactly the dirty pages
  behind the offset invalid.
\<close>

theorem pageCache_dirty_set:
  assumes "pc_inv c" and "pc_ents c k = Some a" and "0 < pc_held c a" and "pc_refs c a \<noteq> - 1" and "M \<noteq> - 1"
  shows "\<exists>c1 c2 c3. pageEntryHandleMakeDirty c a = Some c1 \<and> pageCacheTruncate c M = Some c2 \<and>
    pageCacheClearDirtyPages c = Some c3 \<and> pc_inv c1 \<and> pc_inv c2 \<and> pc_inv c3 \<and>
    pageEntryHandleMakeDirty c1 a = Some c1 \<and>
    fst ` set (pageCacheGetDirtyPages c1) = insert k (fst ` set (pageCacheGetDirtyPages c)) \<and>
    fst ` set (pageCacheGetDirtyPages c2) = {j \<in> fst ` set (pageCacheGetDirtyPages c). j \<le> M} \<and>
    pageCacheGetDirtyPages c3 = [] \<and>
    (\<forall>x \<in> {c1, c2, c3}. pc_ents x = pc_ents c \<and> (\<forall>j b. pc_ents c j = Some b \<longrightarrow> pc_held x b = pc_held c b)) \<and>
    (\<forall>j b. pc_ents c j = Some b \<longrightarrow> pageEntryGetState c2 b =
       (if pe_isDirty (pc_heap c b) \<and> M < j then PAGE_INVALID else pageEntryGetState c b))"
proof -
  note mark = pc_mark [OF assms(1-4)] and cut = pc_truncated [OF assms(1,5)] and clear = pc_clear [OF assms(1)]
  from mark obtain c1 where 1: "pageEntryHandleMakeDirty c a = Some c1" "pc_inv c1" "pageEntryHandleMakeDirty c1 a = Some c1"
    "fst ` set (pageCacheGetDirtyPages c1) = insert k (fst ` set (pageCacheGetDirtyPages c))"
    "pc_ents c1 = pc_ents c \<and> (\<forall>j b. pc_ents c j = Some b \<longrightarrow> pc_held c1 b = pc_held c b)" by blast
  from cut obtain c2 where 2: "pageCacheTruncate c M = Some c2" "pc_inv c2"
    "fst ` set (pageCacheGetDirtyPages c2) = {j \<in> fst ` set (pageCacheGetDirtyPages c). j \<le> M}"
    "pc_ents c2 = pc_ents c \<and> (\<forall>j b. pc_ents c j = Some b \<longrightarrow> pc_held c2 b = pc_held c b)"
    "\<forall>j b. pc_ents c j = Some b \<longrightarrow> pageEntryGetState c2 b =
       (if pe_isDirty (pc_heap c b) \<and> M < j then PAGE_INVALID else pageEntryGetState c b)" by blast
  from clear obtain c3 where 3: "pageCacheClearDirtyPages c = Some c3" "pc_inv c3" "pageCacheGetDirtyPages c3 = []"
    "pc_ents c3 = pc_ents c \<and> (\<forall>j b. pc_ents c j = Some b \<longrightarrow> pc_held c3 b = pc_held c b)" by blast
  have "\<forall>x \<in> {c1, c2, c3}. pc_ents x = pc_ents c \<and> (\<forall>j b. pc_ents c j = Some b \<longrightarrow> pc_held x b = pc_held c b)"
    using 1(5) 2(4) 3(4) by blast
  then show ?thesis
    using 1(1-4) 2(1-3,5) 3(1-3) by blast
qed

text \<open>The witnesses start from an empty cache of size one.\<close>

definition demo_page_cache :: PageCache where
  "demo_page_cache = pageCacheInit 1 (\<lambda>_. pageEntryInit zero_block 0)"

lemma demo_page_cache_empty: "pc_inv demo_page_cache" "pc_ents demo_page_cache k = None"
  unfolding demo_page_cache_def by (rule pc_init) (simp add: pageCacheInit_def gcm_init)

theorem pageCacheGet_protects_witness:
  "pc_inv demo_page_cache \<and> pc_ents demo_page_cache 7 = None \<and>
   (\<exists>a c'. pageCacheGet zero_block demo_page_cache 7 = Some (a, c') \<and> pc_inv c' \<and> pc_ents c' 7 = Some a \<and> pc_fresh (pc_heap c' a) 7)"
  using pageCacheGet_protects [of demo_page_cache 7 zero_block] demo_page_cache_empty by auto

theorem pageCache_dirty_set_witness:
  "\<exists>a c. pageCacheGet zero_block demo_page_cache 7 = Some (a, c) \<and> pc_inv c \<and> pc_ents c 7 = Some a \<and> 0 < pc_held c a \<and>
     pc_refs c a \<noteq> - 1 \<and>
     (\<exists>c1 c2 c3. pageEntryHandleMakeDirty c a = Some c1 \<and> pageCacheTruncate c 3 = Some c2 \<and> pageCacheClearDirtyPages c = Some c3 \<and>
       fst ` set (pageCacheGetDirtyPages c1) = insert 7 (fst ` set (pageCacheGetDirtyPages c)) \<and> pageCacheGetDirtyPages c3 = [])"
proof -
  obtain a c where g: "pageCacheGet zero_block demo_page_cache 7 = Some (a, c)" "pc_inv c" "pc_ents c 7 = Some a"
    "pc_fresh (pc_heap c a) 7"
    using pc_get_miss [OF demo_page_cache_empty, of zero_block] by blast
  then have h: "0 < pc_held c a" "pc_refs c a \<noteq> - 1"
    by (simp_all add: pc_held_def pc_fresh_def)
  have "(3 :: u32) \<noteq> - 1" by simp
  from pageCache_dirty_set [OF g(2,3) h this] obtain c1 c2 c3 where
    "pageEntryHandleMakeDirty c a = Some c1" "pageCacheTruncate c 3 = Some c2" "pageCacheClearDirtyPages c = Some c3"
    "fst ` set (pageCacheGetDirtyPages c1) = insert 7 (fst ` set (pageCacheGetDirtyPages c))" "pageCacheGetDirtyPages c3 = []"
    by (elim exE conjE)
  then show ?thesis
    using g(1-3) h by blast
qed

end
