(* ===== verification/Journal_Processor.thy ===== *)
theory Journal_Processor
  imports Journal_Roundtrip
begin

text \<open>
  The journal thread, \<^verbatim>\<open>src/src/journal/journal_processor.c\<close>, and the environment through which the file
  system hands it journals, \<^verbatim>\<open>src/src/journal/journal_process_env.c\<close>. The state of the thread, the commit queue, the device
  and the state \<open>'r\<close> of the transaction-complete hook are one record; the hook itself is an argument. A wait on the
  condition variable is an outcome of its own (\<open>FETCH_WAIT\<close>), because only another thread can end it.
  The poll timer is an operating system service: \<open>tmr\<close> is the code its calls return.
\<close>

subsection \<open>The environment\<close>

record JournalProcessEnv =
  env_commitQueue :: "JournalContainer list"
  env_exitReq :: bool
  env_txIdToAlloc :: u64
  env_processThreadRunning :: bool

definition journalProcessEnvInit :: "JournalProcessEnv" where
  "journalProcessEnvInit = \<lparr>env_commitQueue = [], env_exitReq = False, env_txIdToAlloc = 1, env_processThreadRunning = True\<rparr>"

definition journalProcessEnvAllocTxId :: "JournalProcessEnv \<Rightarrow> u64 \<times> JournalProcessEnv" where
  "journalProcessEnvAllocTxId e = (env_txIdToAlloc e, e\<lparr>env_txIdToAlloc := env_txIdToAlloc e + 1\<rparr>)"

definition journalProcessEnvCommitJournal :: "JournalProcessEnv \<Rightarrow> JournalContainer \<Rightarrow> JournalProcessEnv" where
  "journalProcessEnvCommitJournal e j = e\<lparr>env_commitQueue := env_commitQueue e @ [j]\<rparr>"

definition journalProcessEnvIsCommitQueueEmpty :: "JournalProcessEnv \<Rightarrow> bool" where
  "journalProcessEnvIsCommitQueueEmpty e \<longleftrightarrow> env_commitQueue e = []"

definition journalProcessEnvIsExitRequested :: "JournalProcessEnv \<Rightarrow> bool" where
  "journalProcessEnvIsExitRequested e \<longleftrightarrow> env_exitReq e"

subsection \<open>Transaction records\<close>

record TransactionJournalRecord =
  tjr_txId :: u64
  tjr_startLpa :: u64
  tjr_endLpa :: u64

definition transactionJournalRecordInit :: "u64 \<Rightarrow> u64 \<Rightarrow> u64 \<Rightarrow> TransactionJournalRecord" where
  "transactionJournalRecordInit i s e = \<lparr>tjr_txId = i, tjr_startLpa = s, tjr_endLpa = e\<rparr>"

definition transactionJournalRecordIsApplied :: "TransactionJournalRecord \<Rightarrow> u64 \<Rightarrow> u64 \<Rightarrow> bool" where
  "transactionJournalRecordIsApplied r curHead curTail =
     (if tjr_startLpa r < tjr_endLpa r then
        (if curHead \<le> curTail then curHead \<ge> tjr_endLpa r \<or> curTail < tjr_startLpa r
         else curHead \<ge> tjr_endLpa r)
      else curHead \<le> curTail \<and> curHead \<ge> tjr_endLpa r)"

subsection \<open>The processor\<close>

datatype JournalProcessState = JOURNAL_PROCESS_NEWLY_FETCHED | JOURNAL_PROCESS_WRITTEN_IN_BUFFER

record JournalProcessor =
  jp_headLpa :: u64
  jp_tailLpa :: u64
  jp_startLpa :: u64
  jp_endLpa :: u64
  jp_curAvailLpa :: u64
  jp_totalAvailLpa :: u64
  jp_pendingJournalList :: "JournalContainer list"
  jp_txRecords :: "TransactionJournalRecord list"
  jp_journalWriter :: JournalWriter
  jp_curJournalBlockNum :: u64
  jp_curJournal :: "JournalContainer option"
  jp_curProcState :: JournalProcessState
  jp_curJournalStartLpa :: u64
  jp_curJournalEndLpa :: u64
  jp_isPollTimerEnabled :: bool

record 'r JournalThread =
  jt_proc :: JournalProcessor
  jt_env :: JournalProcessEnv
  jt_dev :: comm_dev
  jt_hooked :: 'r

text \<open>The members that \<^verbatim>\<open>journalProcessorInit\<close> leaves alone are the arguments \<open>n0\<close>, \<open>st0\<close>, \<open>s0\<close> and \<open>e0\<close>.\<close>

definition journalProcessorInit :: "u64 \<Rightarrow> JournalProcessState \<Rightarrow> u64 \<Rightarrow> u64 \<Rightarrow> u64 \<Rightarrow> u64 \<Rightarrow> u64 \<Rightarrow> JournalProcessor" where
  "journalProcessorInit n0 st0 s0 e0 journalStartLpa journalEndLpa journalFifoPos =
     (let total = journalEndLpa - journalStartLpa - 1 in
      \<lparr>jp_headLpa = journalFifoPos, jp_tailLpa = journalFifoPos, jp_startLpa = journalStartLpa, jp_endLpa = journalEndLpa,
       jp_curAvailLpa = total, jp_totalAvailLpa = total, jp_pendingJournalList = [], jp_txRecords = [],
       jp_journalWriter = journalWriterInit journalStartLpa journalEndLpa, jp_curJournalBlockNum = n0, jp_curJournal = None,
       jp_curProcState = st0, jp_curJournalStartLpa = s0, jp_curJournalEndLpa = e0, jp_isPollTimerEnabled = False\<rparr>)"

definition journalProcessorIsWorking :: "JournalProcessor \<Rightarrow> bool" where
  "journalProcessorIsWorking p \<longleftrightarrow>
     \<not> (jp_curAvailLpa p = jp_totalAvailLpa p \<and> jp_pendingJournalList p = [] \<and> jp_curJournal p = None)"

datatype jp_fetch = FETCH_OK | FETCH_WAIT | FETCH_EXIT

definition journalProcessorFetchNewJournal :: "'r JournalThread \<Rightarrow> jp_fetch \<times> 'r JournalThread" where
  "journalProcessorFetchNewJournal w =
     (let p = jt_proc w; e = jt_env w in
      if env_commitQueue e = [] then
        if journalProcessorIsWorking p then (FETCH_OK, w)
        else if env_exitReq e then (FETCH_EXIT, w\<lparr>jt_env := e\<lparr>env_exitReq := False\<rparr>\<rparr>)
        else (FETCH_WAIT, w)
      else (FETCH_OK, w\<lparr>jt_proc := p\<lparr>jp_pendingJournalList := jp_pendingJournalList p @ env_commitQueue e\<rparr>,
                        jt_env := e\<lparr>env_commitQueue := []\<rparr>\<rparr>))"

definition journalProcessorWriteJournalToBuffer ::
  "(nat \<Rightarrow> block) \<Rightarrow> (u32 list \<Rightarrow> u32 list) \<Rightarrow> nat \<Rightarrow> JournalProcessor \<Rightarrow> JournalContainer \<Rightarrow> JournalProcessor option" where
  "journalProcessorWriteJournalToBuffer fresh korder t p j = do {
     (n, wr) \<leftarrow> journalWriterCollectPendingJournalToWriteBuffer fresh korder t (journalWriterSetPendingJournal (jp_journalWriter p) j);
     Some (p\<lparr>jp_journalWriter := wr, jp_curJournalBlockNum := of_nat n, jp_curProcState := JOURNAL_PROCESS_WRITTEN_IN_BUFFER\<rparr>)
   }"

definition journalProcessorWriteJournalToSsd ::
  "comm_dev \<Rightarrow> JournalProcessor \<Rightarrow> (bool \<times> JournalProcessor \<times> comm_dev) option" where
  "journalProcessorWriteJournalToSsd dev p =
     (if jp_curJournalBlockNum p \<le> jp_curAvailLpa p then do {
        dev \<leftarrow> journalWriterWriteToSsd dev (jp_journalWriter p) (jp_tailLpa p);
        let (res, dev) = comm_submit_sync_update_metajournal_tail_request dev (jp_tailLpa p) (ucast (jp_curJournalBlockNum p));
        if res \<noteq> RC0 then None
        else
          let p = p\<lparr>jp_curJournalStartLpa := jp_tailLpa p\<rparr>;
              tail = jp_tailLpa p + jp_curJournalBlockNum p;
              tail = (if tail \<ge> jp_endLpa p then tail - jp_endLpa p + jp_startLpa p else tail);
              p = p\<lparr>jp_tailLpa := tail, jp_curJournalEndLpa := tail, jp_curAvailLpa := jp_curAvailLpa p - jp_curJournalBlockNum p\<rparr>
          in Some (True, p, dev)
      } else Some (False, p, dev))"

definition journalProcessorGenerateTxRecord :: "JournalProcessor \<Rightarrow> JournalContainer \<Rightarrow> JournalProcessor" where
  "journalProcessorGenerateTxRecord p j =
     p\<lparr>jp_txRecords := jp_txRecords p @ [transactionJournalRecordInit (txId j) (jp_curJournalStartLpa p) (jp_curJournalEndLpa p)]\<rparr>"

text \<open>The head of the pending list becomes the current journal when there is none.\<close>

definition journalProcessorTakeJournal :: "JournalProcessor \<Rightarrow> JournalProcessor" where
  "journalProcessorTakeJournal p =
     (case jp_curJournal p of
        Some j \<Rightarrow> p
      | None \<Rightarrow> (case jp_pendingJournalList p of
          [] \<Rightarrow> p
        | j # js \<Rightarrow> p\<lparr>jp_curJournal := Some j, jp_pendingJournalList := js, jp_curProcState := JOURNAL_PROCESS_NEWLY_FETCHED\<rparr>))"

definition journalProcessorProcessPendingJournal ::
  "(nat \<Rightarrow> block) \<Rightarrow> (u32 list \<Rightarrow> u32 list) \<Rightarrow> nat \<Rightarrow> 'r JournalThread \<Rightarrow> 'r JournalThread option" where
  "journalProcessorProcessPendingJournal fresh korder t w =
     (let p = journalProcessorTakeJournal (jt_proc w) in
      case jp_curJournal p of
        None \<Rightarrow> Some (w\<lparr>jt_proc := p\<rparr>)
      | Some j \<Rightarrow> do {
          p \<leftarrow> (case jp_curProcState p of
                 JOURNAL_PROCESS_NEWLY_FETCHED \<Rightarrow> journalProcessorWriteJournalToBuffer fresh korder t p j
               | JOURNAL_PROCESS_WRITTEN_IN_BUFFER \<Rightarrow> Some p);
          (written, p, dev) \<leftarrow> journalProcessorWriteJournalToSsd (jt_dev w) p;
          Some (w\<lparr>jt_proc := (if written then (journalProcessorGenerateTxRecord p j)\<lparr>jp_curJournal := None\<rparr> else p), jt_dev := dev\<rparr>)
        })"

definition journalProcessorEnablePollTimer :: "rc \<Rightarrow> JournalProcessor \<Rightarrow> JournalProcessor option" where
  "journalProcessorEnablePollTimer tmr p =
     (if jp_isPollTimerEnabled p then Some p
      else if tmr \<noteq> RC0 then None else Some (p\<lparr>jp_isPollTimerEnabled := True\<rparr>))"

definition journalProcessorDisablePollTimer :: "rc \<Rightarrow> JournalProcessor \<Rightarrow> JournalProcessor option" where
  "journalProcessorDisablePollTimer tmr p =
     (if \<not> jp_isPollTimerEnabled p then Some p
      else if tmr \<noteq> RC0 then None else Some (p\<lparr>jp_isPollTimerEnabled := False\<rparr>))"

definition journalProcessorWaitPollTimer :: "rc \<Rightarrow> JournalProcessor \<Rightarrow> JournalProcessor option" where
  "journalProcessorWaitPollTimer tmr p = (if tmr \<noteq> RC0 then None else Some p)"

definition journalProcessorSyncWithSsdJournalPos :: "comm_dev \<Rightarrow> JournalProcessor \<Rightarrow> (bool \<times> JournalProcessor) option" where
  "journalProcessorSyncWithSsdJournalPos dev p =
     (let (r, newHeadLpa) = comm_submit_sync_get_metajournal_head_request dev in
      if r \<noteq> RC0 then None
      else let newAvailLpa = (if newHeadLpa \<ge> jp_headLpa p then newHeadLpa - jp_headLpa p
                              else newHeadLpa + jp_endLpa p - jp_startLpa p - jp_headLpa p)
           in Some (newAvailLpa \<noteq> 0, p\<lparr>jp_headLpa := newHeadLpa, jp_curAvailLpa := jp_curAvailLpa p + newAvailLpa\<rparr>))"

text \<open>The records that are applied leave the list from its front, each with a call of the hook.\<close>

fun jp_drain :: "(u64 \<Rightarrow> 'r \<Rightarrow> 'r) \<Rightarrow> u64 \<Rightarrow> u64 \<Rightarrow> TransactionJournalRecord list \<Rightarrow> 'r \<Rightarrow> TransactionJournalRecord list \<times> 'r" where
  "jp_drain hook curHead curTail [] h = ([], h)"
| "jp_drain hook curHead curTail (r # rs) h =
     (if transactionJournalRecordIsApplied r curHead curTail then jp_drain hook curHead curTail rs (hook (tjr_txId r) h)
      else (r # rs, h))"

definition journalProcessorProcessTxRecord :: "(u64 \<Rightarrow> 'r \<Rightarrow> 'r) \<Rightarrow> 'r JournalThread \<Rightarrow> 'r JournalThread" where
  "journalProcessorProcessTxRecord hook w =
     (let (rs, h) = jp_drain hook (jp_headLpa (jt_proc w)) (jp_tailLpa (jt_proc w)) (jp_txRecords (jt_proc w)) (jt_hooked w)
      in w\<lparr>jt_proc := (jt_proc w)\<lparr>jp_txRecords := rs\<rparr>, jt_hooked := h\<rparr>)"

definition journalProcessorDrainCompletedTxRecords :: "(u64 \<Rightarrow> 'r \<Rightarrow> 'r) \<Rightarrow> 'r JournalThread \<Rightarrow> 'r JournalThread" where
  "journalProcessorDrainCompletedTxRecords hook w = journalProcessorProcessTxRecord hook w"

definition journalProcessorProcessCpltJournal ::
  "rc \<Rightarrow> (u64 \<Rightarrow> 'r \<Rightarrow> 'r) \<Rightarrow> 'r JournalThread \<Rightarrow> 'r JournalThread option" where
  "journalProcessorProcessCpltJournal tmr hook w =
     (if jp_curAvailLpa (jt_proc w) = jp_totalAvailLpa (jt_proc w) then do {
        p \<leftarrow> journalProcessorDisablePollTimer tmr (jt_proc w);
        Some (w\<lparr>jt_proc := p\<rparr>)
      } else do {
        p \<leftarrow> journalProcessorEnablePollTimer tmr (jt_proc w);
        p \<leftarrow> journalProcessorWaitPollTimer tmr p;
        (moved, p) \<leftarrow> journalProcessorSyncWithSsdJournalPos (jt_dev w) p;
        let w = w\<lparr>jt_proc := p\<rparr>;
        Some (if moved then journalProcessorProcessTxRecord hook w else w)
      })"

text \<open>The main loop; a wait that no other thread ends never returns.\<close>

definition jp_round ::
  "(nat \<Rightarrow> block) \<Rightarrow> (u32 list \<Rightarrow> u32 list) \<Rightarrow> nat \<Rightarrow> rc \<Rightarrow> (u64 \<Rightarrow> 'r \<Rightarrow> 'r) \<Rightarrow> 'r JournalThread \<Rightarrow> 'r JournalThread option" where
  "jp_round fresh korder t tmr hook w = do {
     w \<leftarrow> journalProcessorProcessPendingJournal fresh korder t w;
     journalProcessorProcessCpltJournal tmr hook w
   }"

partial_function (option) journalProcessorProcessJournal ::
  "(nat \<Rightarrow> block) \<Rightarrow> (u32 list \<Rightarrow> u32 list) \<Rightarrow> nat \<Rightarrow> rc \<Rightarrow> (u64 \<Rightarrow> 'r \<Rightarrow> 'r) \<Rightarrow> 'r JournalThread \<Rightarrow> 'r JournalThread option" where
  "journalProcessorProcessJournal fresh korder t tmr hook w =
     (let (f, w) = journalProcessorFetchNewJournal w in
      if f = FETCH_EXIT then Some w
      else if f = FETCH_WAIT then None
      else do {
        w \<leftarrow> jp_round fresh korder t tmr hook w;
        journalProcessorProcessJournal fresh korder t tmr hook w
      })"

text \<open>
  The thread entry initialises the processor (\<open>p0\<close> is the memory it finds), runs the loop and destroys the processor. Stopping or
  destroying the environment requests the exit and joins the thread: what the thread still does is \<open>jp_thread_run\<close>.
\<close>

definition journalProcessorDestroy :: "JournalProcessor \<Rightarrow> JournalProcessor" where
  "journalProcessorDestroy p = p\<lparr>jp_journalWriter := journalWriterDestroy (jp_journalWriter p)\<rparr>"

definition jp_thread_run ::
  "(nat \<Rightarrow> block) \<Rightarrow> (u32 list \<Rightarrow> u32 list) \<Rightarrow> nat \<Rightarrow> rc \<Rightarrow> (u64 \<Rightarrow> 'r \<Rightarrow> 'r) \<Rightarrow> 'r JournalThread \<Rightarrow> 'r JournalThread option" where
  "jp_thread_run fresh korder t tmr hook w = do {
     w \<leftarrow> journalProcessorProcessJournal fresh korder t tmr hook w;
     Some (w\<lparr>jt_proc := journalProcessorDestroy (jt_proc w)\<rparr>)
   }"

definition rtfsJournalProcessThread ::
  "(nat \<Rightarrow> block) \<Rightarrow> (u32 list \<Rightarrow> u32 list) \<Rightarrow> nat \<Rightarrow> rc \<Rightarrow> (u64 \<Rightarrow> 'r \<Rightarrow> 'r) \<Rightarrow> JournalProcessor \<Rightarrow>
    u64 \<Rightarrow> u64 \<Rightarrow> u64 \<Rightarrow> 'r JournalThread \<Rightarrow> 'r JournalThread option" where
  "rtfsJournalProcessThread fresh korder t tmr hook p0 journalStartLpa journalEndLpa journalFifoPos w =
     (let p = journalProcessorInit (jp_curJournalBlockNum p0) (jp_curProcState p0) (jp_curJournalStartLpa p0) (jp_curJournalEndLpa p0)
                journalStartLpa journalEndLpa journalFifoPos
      in jp_thread_run fresh korder t tmr hook (w\<lparr>jt_proc := p\<rparr>))"

definition journalProcessEnvStopProcessThread ::
  "(nat \<Rightarrow> block) \<Rightarrow> (u32 list \<Rightarrow> u32 list) \<Rightarrow> nat \<Rightarrow> rc \<Rightarrow> (u64 \<Rightarrow> 'r \<Rightarrow> 'r) \<Rightarrow> 'r JournalThread \<Rightarrow> 'r JournalThread option" where
  "journalProcessEnvStopProcessThread fresh korder t tmr hook w =
     (if \<not> env_processThreadRunning (jt_env w) then Some w
      else do {
        w \<leftarrow> jp_thread_run fresh korder t tmr hook (w\<lparr>jt_env := (jt_env w)\<lparr>env_exitReq := True\<rparr>\<rparr>);
        Some (w\<lparr>jt_env := (jt_env w)\<lparr>env_processThreadRunning := False\<rparr>\<rparr>)
      })"

definition journalProcessEnvDestroy ::
  "(nat \<Rightarrow> block) \<Rightarrow> (u32 list \<Rightarrow> u32 list) \<Rightarrow> nat \<Rightarrow> rc \<Rightarrow> (u64 \<Rightarrow> 'r \<Rightarrow> 'r) \<Rightarrow> 'r JournalThread \<Rightarrow> 'r JournalThread option" where
  "journalProcessEnvDestroy fresh korder t tmr hook w = do {
     let w = w\<lparr>jt_env := (jt_env w)\<lparr>env_exitReq := True\<rparr>\<rparr>;
     w \<leftarrow> (if env_processThreadRunning (jt_env w) then do {
         w \<leftarrow> jp_thread_run fresh korder t tmr hook w;
         Some (w\<lparr>jt_env := (jt_env w)\<lparr>env_processThreadRunning := False\<rparr>\<rparr>)
       } else Some w);
     Some (w\<lparr>jt_env := (jt_env w)\<lparr>env_commitQueue := []\<rparr>\<rparr>)
   }"

subsection \<open>Which records are applied\<close>

text \<open>
  Positions in the ring count upwards without end; \<open>jp_at s e x\<close> is the LPA of position \<open>x\<close>. The records of the
  list lie one behind the other from position \<open>x\<close> on with lengths \<open>ns\<close>; \<open>jp_applied k ns\<close> is the number of records that lie
  completely within the first \<open>k\<close> blocks.
\<close>

definition jp_at :: "u64 \<Rightarrow> u64 \<Rightarrow> nat \<Rightarrow> u64" where
  "jp_at s e x = s + of_nat (x mod (unat e - unat s))"

fun jp_laid :: "u64 \<Rightarrow> u64 \<Rightarrow> nat \<Rightarrow> nat list \<Rightarrow> TransactionJournalRecord list \<Rightarrow> bool" where
  "jp_laid s e x [] [] \<longleftrightarrow> True"
| "jp_laid s e x (n # ns) (r # rs) \<longleftrightarrow> 0 < n \<and> tjr_startLpa r = jp_at s e x \<and> tjr_endLpa r = jp_at s e (x + n) \<and>
     jp_laid s e (x + n) ns rs"
| "jp_laid s e x _ _ \<longleftrightarrow> False"

fun jp_applied :: "nat \<Rightarrow> nat list \<Rightarrow> nat" where
  "jp_applied k [] = 0"
| "jp_applied k (n # ns) = (if n \<le> k then Suc (jp_applied (k - n) ns) else 0)"

lemma unat_jp_at:
  assumes "s < e"
  shows "unat (jp_at s e x) = unat s + x mod (unat e - unat s)"
proof -
  let ?n = "unat e - unat s"
  have lt: "unat s < unat e" using assms by (simp add: word_less_nat_alt)
  then have "x mod ?n < ?n" by simp
  then have b: "unat s + x mod ?n < unat e" by linarith
  have "unat e < 2 ^ 64" using unat_less_u64 [of e] by simp
  then have "unat (of_nat (x mod ?n) :: u64) = x mod ?n"
    using b by (simp add: unat_of_nat)
  moreover have "unat s + unat (of_nat (x mod ?n) :: u64) < 2 ^ LENGTH(64)"
    using b \<open>unat e < 2 ^ 64\<close> calculation by simp
  ultimately show ?thesis
    unfolding jp_at_def by (simp add: unat_add_lem [THEN iffD1])
qed

lemma of_nat_unat_u64: "of_nat (unat (x :: u64)) = x"
  by (simp add: of_nat_unat)

lemma mod_shift:
  assumes "d < (n :: nat)"
  shows "(x + d) mod n = (if x mod n + d < n then x mod n + d else x mod n + d - n)"
proof -
  have n: "0 < n" "x mod n < n" using assms by auto
  have "(x + d) mod n = (x mod n + d) mod n"
    by (simp add: mod_add_left_eq)
  also have "\<dots> = (if x mod n + d < n then x mod n + d else x mod n + d - n)"
  proof (cases "x mod n + d < n")
    case False
    then have "(x mod n + d) mod n = (x mod n + d - n) mod n"
      by (intro le_mod_geq) simp
    also have "\<dots> = x mod n + d - n"
      using n assms by (intro mod_less) linarith
    finally show ?thesis using False by simp
  qed simp
  finally show ?thesis .
qed

lemma ring_order:
  fixes a n k u m S :: nat
  assumes "a < m" and "0 < n" and "n \<le> u" and "k \<le> u" and "u < m"
    and "n' = (if a + n < m then a + n else a + n - m)" and "k' = (if a + k < m then a + k else a + k - m)"
    and "u' = (if a + u < m then a + u else a + u - m)"
  shows "(if S + a < S + n' then if S + k' \<le> S + u' then S + n' \<le> S + k' \<or> S + u' < S + a else S + n' \<le> S + k'
     else S + k' \<le> S + u' \<and> S + n' \<le> S + k') \<longleftrightarrow> n \<le> k"
  using assms(1-5) unfolding assms(6-8)
  by (cases "a + n < m"; cases "a + k < m"; cases "a + u < m") auto

text \<open>The test is exact for a record whose predecessors are all applied.\<close>

lemma jp_is_applied:
  assumes "s < e" and "0 < n" and "n \<le> u" and "k \<le> u" and "u < unat e - unat s"
    and "tjr_startLpa r = jp_at s e x" and "tjr_endLpa r = jp_at s e (x + n)"
  shows "transactionJournalRecordIsApplied r (jp_at s e (x + k)) (jp_at s e (x + u)) \<longleftrightarrow> n \<le> k"
proof -
  let ?m = "unat e - unat s"
  have "x mod ?m < ?m" using assms(5) by simp
  moreover have "(x + n) mod ?m = (if x mod ?m + n < ?m then x mod ?m + n else x mod ?m + n - ?m)"
    "(x + k) mod ?m = (if x mod ?m + k < ?m then x mod ?m + k else x mod ?m + k - ?m)"
    "(x + u) mod ?m = (if x mod ?m + u < ?m then x mod ?m + u else x mod ?m + u - ?m)"
    by (rule mod_shift; use assms(3-5) in linarith)+
  ultimately show ?thesis
    unfolding transactionJournalRecordIsApplied_def assms(6,7) word_le_nat_alt word_less_nat_alt unat_jp_at [OF assms(1)]
    by (rule ring_order [OF _ assms(2-5)])
qed

lemma jp_drain_laid:
  assumes "s < e" and "jp_laid s e x ns rs" and "sum_list ns \<le> u" and "k \<le> u" and "u < unat e - unat s"
  shows "jp_drain hook (jp_at s e (x + k)) (jp_at s e (x + u)) rs h =
    (drop (jp_applied k ns) rs, fold (\<lambda>r. hook (tjr_txId r)) (take (jp_applied k ns) rs) h)"
  using assms(2-)
proof (induction ns arbitrary: x rs h k u)
  case Nil
  then show ?case by (cases rs) auto
next
  case (Cons n ns)
  obtain r rs' where rs: "rs = r # rs'" using Cons.prems(1) by (cases rs) auto
  have l: "0 < n" "tjr_startLpa r = jp_at s e x" "tjr_endLpa r = jp_at s e (x + n)" "jp_laid s e (x + n) ns rs'"
    using Cons.prems(1) rs by auto
  have nu: "n \<le> u" using Cons.prems(2) by simp
  have a: "transactionJournalRecordIsApplied r (jp_at s e (x + k)) (jp_at s e (x + u)) \<longleftrightarrow> n \<le> k"
    by (rule jp_is_applied [OF assms(1) l(1) nu Cons.prems(3,4) l(2,3)])
  show ?case
  proof (cases "n \<le> k")
    case True
    have "jp_drain hook (jp_at s e (x + n + (k - n))) (jp_at s e (x + n + (u - n))) rs' (hook (tjr_txId r) h) =
      (drop (jp_applied (k - n) ns) rs', fold (\<lambda>r. hook (tjr_txId r)) (take (jp_applied (k - n) ns) rs') (hook (tjr_txId r) h))"
      by (rule Cons.IH [OF l(4)]) (use Cons.prems(2-4) in auto)
    then show ?thesis using True a nu by (simp add: rs)
  next
    case False
    then show ?thesis using a by (simp add: rs)
  qed
qed

lemma jp_sync_laid:
  assumes "jp_startLpa p < jp_endLpa p" and "jp_laid (jp_startLpa p) (jp_endLpa p) x ns (jp_txRecords p)"
    and "jp_headLpa p = jp_at (jp_startLpa p) (jp_endLpa p) x"
    and "jp_tailLpa p = jp_at (jp_startLpa p) (jp_endLpa p) (x + sum_list ns)"
    and "sum_list ns < unat (jp_endLpa p) - unat (jp_startLpa p)" and "k \<le> sum_list ns"
    and "metaJournalHeadLpa dev = jp_at (jp_startLpa p) (jp_endLpa p) (x + k)"
  shows "let p' = p\<lparr>jp_headLpa := metaJournalHeadLpa dev, jp_curAvailLpa := jp_curAvailLpa p + of_nat k\<rparr> in
    journalProcessorSyncWithSsdJournalPos dev p = Some (k \<noteq> 0, p') \<and>
    journalProcessorProcessTxRecord hook (w\<lparr>jt_proc := p'\<rparr>) =
      w\<lparr>jt_proc := p'\<lparr>jp_txRecords := drop (jp_applied k ns) (jp_txRecords p)\<rparr>,
        jt_hooked := fold hook (map tjr_txId (take (jp_applied k ns) (jp_txRecords p))) (jt_hooked w)\<rparr>"
proof -
  let ?s = "jp_startLpa p" and ?e = "jp_endLpa p" and ?h = "metaJournalHeadLpa dev"
  let ?m = "unat ?e - unat ?s"
  let ?d = "if ?h \<ge> jp_headLpa p then ?h - jp_headLpa p else ?h + ?e - ?s - jp_headLpa p"
  have m: "k < ?m" "x mod ?m < ?m" using assms(5,6) by auto
  have u: "unat ?h = unat ?s + (x + k) mod ?m" "unat (jp_headLpa p) = unat ?s + x mod ?m"
    using unat_jp_at [OF assms(1)] assms(3,7) by simp_all
  have ms: "(x + k) mod ?m = (if x mod ?m + k < ?m then x mod ?m + k else x mod ?m + k - ?m)"
    by (rule mod_shift [OF m(1)])
  have se: "unat ?s < unat ?e" using assms(1) by (simp add: word_less_nat_alt)
  have d: "?d = of_nat k"
  proof (cases "x mod ?m + k < ?m")
    case True
    then have *: "unat ?h = unat (jp_headLpa p) + k" using u ms by simp
    then have "?h = jp_headLpa p + of_nat k"
      by (metis of_nat_add of_nat_unat_u64)
    moreover have "?h \<ge> jp_headLpa p" using * by (simp add: word_le_nat_alt)
    ultimately show ?thesis by simp
  next
    case False
    define a where "a = x mod ?m"
    define M where "M = ?m"
    have "unat ?h = unat ?s + (a + k - M)"
      using False u(1) ms unfolding a_def M_def by presburger
    moreover have "unat (jp_headLpa p) = unat ?s + a" "M \<le> a + k" "a < M" "k < M"
      using False u(2) m unfolding a_def M_def not_less by blast+
    ultimately have *: "unat ?h + ?m = unat (jp_headLpa p) + k" and lt: "unat ?h < unat (jp_headLpa p)"
      unfolding M_def [symmetric] by linarith+
    from * se have "unat ?h + unat ?e = unat (jp_headLpa p) + k + unat ?s" by simp
    then have "?h + ?e = jp_headLpa p + of_nat k + ?s"
      by (metis of_nat_add of_nat_unat_u64)
    moreover have "\<not> ?h \<ge> jp_headLpa p" using lt by (simp add: word_le_nat_alt)
    ultimately show ?thesis by simp
  qed
  have "(of_nat k :: u64) \<noteq> 0 \<longleftrightarrow> k \<noteq> 0"
  proof -
    have "k < 2 ^ 64" using m(1) unat_less_u64 [of ?e] by simp
    then have "unat (of_nat k :: u64) = k" by (simp add: unat_of_nat)
    then show ?thesis by (cases "k = 0") (auto dest: arg_cong [where f = unat])
  qed
  moreover have "journalProcessorSyncWithSsdJournalPos dev p =
      Some (?d \<noteq> 0, p\<lparr>jp_headLpa := ?h, jp_curAvailLpa := jp_curAvailLpa p + ?d\<rparr>)"
    unfolding journalProcessorSyncWithSsdJournalPos_def comm_submit_sync_get_metajournal_head_request_def Let_def prod.case
    by (simp only: simp_thms if_False)
  ultimately have sync: "journalProcessorSyncWithSsdJournalPos dev p =
      Some (k \<noteq> 0, p\<lparr>jp_headLpa := ?h, jp_curAvailLpa := jp_curAvailLpa p + of_nat k\<rparr>)"
    unfolding d by (simp only:)
  have dr: "jp_drain hook ?h (jp_tailLpa p) (jp_txRecords p) (jt_hooked w) =
      (drop (jp_applied k ns) (jp_txRecords p), fold (\<lambda>r. hook (tjr_txId r)) (take (jp_applied k ns) (jp_txRecords p)) (jt_hooked w))"
    unfolding assms(4,7) by (rule jp_drain_laid [OF assms(1,2) order_refl assms(6,5)])
  have fm: "fold (\<lambda>r. hook (tjr_txId r)) rs h = fold hook (map tjr_txId rs) h" for rs h
    by (induction rs arbitrary: h) auto
  show ?thesis
    unfolding Let_def using sync by (simp add: journalProcessorProcessTxRecord_def dr fm)
qed

text \<open>
  Claim C28. Completed transactions. When the records of the transactions lie one behind the other in the journal ring, from
  the head the processor knows to its tail, and the device has applied the first \<open>k\<close> blocks of them, then a poll credits exactly \<open>k\<close> blocks
  of journal space and reports exactly the transactions that lie completely within these \<open>k\<close> blocks, in commit order, also
  where the ring wraps around; the other records stay.
\<close>

theorem journalProcessor_reports_applied:
  assumes "jp_startLpa p < jp_endLpa p" and "jp_laid (jp_startLpa p) (jp_endLpa p) x ns (jp_txRecords p)"
    and "jp_headLpa p = jp_at (jp_startLpa p) (jp_endLpa p) x"
    and "jp_tailLpa p = jp_at (jp_startLpa p) (jp_endLpa p) (x + sum_list ns)"
    and "sum_list ns < unat (jp_endLpa p) - unat (jp_startLpa p)" and "k \<le> sum_list ns"
    and "metaJournalHeadLpa dev = jp_at (jp_startLpa p) (jp_endLpa p) (x + k)"
  shows "let p' = p\<lparr>jp_headLpa := metaJournalHeadLpa dev, jp_curAvailLpa := jp_curAvailLpa p + of_nat k\<rparr> in
    journalProcessorSyncWithSsdJournalPos dev p = Some (k \<noteq> 0, p') \<and>
    journalProcessorProcessTxRecord hook (w\<lparr>jt_proc := p'\<rparr>) =
      w\<lparr>jt_proc := p'\<lparr>jp_txRecords := drop (jp_applied k ns) (jp_txRecords p)\<rparr>,
        jt_hooked := fold hook (map tjr_txId (take (jp_applied k ns) (jp_txRecords p))) (jt_hooked w)\<rparr>"
  by (rule jp_sync_laid [OF assms])

subsection \<open>One round of the thread\<close>

text \<open>
  Between two rounds the device has applied everything (it moves its head with its tail), so the ring is free and no record waits.
\<close>

definition jp_idle :: "JournalProcessor \<Rightarrow> comm_dev \<Rightarrow> bool" where
  "jp_idle p dev \<longleftrightarrow> jp_startLpa p \<le> jp_tailLpa p \<and> jp_tailLpa p < jp_endLpa p \<and> jp_headLpa p = jp_tailLpa p \<and>
     jp_totalAvailLpa p = jp_endLpa p - jp_startLpa p - 1 \<and> jp_curAvailLpa p = jp_totalAvailLpa p \<and>
     jp_txRecords p = [] \<and> jp_curJournal p = None \<and>
     jw_startLpa (jp_journalWriter p) = jp_startLpa p \<and> jw_endLpa (jp_journalWriter p) = jp_endLpa p \<and>
     metaJournalStartLpa dev = jp_startLpa p \<and> metaJournalEndLpa dev = jp_endLpa p \<and> metaJournalTailLpa dev = jp_tailLpa p \<and>
     metaJournalHeadLpa dev = jp_tailLpa p \<and> ring_ok dev (jp_startLpa p) (jp_endLpa p)"

text \<open>The blocks of a transaction that carries a journal.\<close>

definition jp_tx :: "JournalContainer \<Rightarrow> block list \<Rightarrow> bool" where
  "jp_tx j bs \<longleftrightarrow> (\<exists>its. jtx bs its \<and> distinct (map sbj_Off (supers_of its)) \<and>
     latest (supers_of its) = latest (superBlockJournal j) \<and>
     mset (nats_of its) = mset (natJournal j) \<and> mset (sits_of its) = mset (sitJournal j))"

definition jp_fits :: "(nat \<Rightarrow> block) \<Rightarrow> (u32 list \<Rightarrow> u32 list) \<Rightarrow> nat \<Rightarrow> u64 \<Rightarrow> JournalContainer \<Rightarrow> bool" where
  "jp_fits fresh korder t avail j \<longleftrightarrow> list_all sitj_ok (sitJournal j) \<and>
     (\<forall>wr n wr'. jw_curJournal wr = Some j \<longrightarrow>
        journalWriterCollectPendingJournalToWriteBuffer fresh korder t wr = Some (n, wr') \<longrightarrow> n \<le> unat avail)"

lemma jpos_jp_at:
  assumes "s \<le> cur" and "cur < e"
  shows "jpos s e cur i = jp_at s e (unat cur - unat s + i)"
  using jpos_unat [OF assms, of i] unat_jp_at [of s e "unat cur - unat s + i"] assms
  by (intro unat_word_eqI) simp

lemma jp_size:
  assumes "s < (e :: u64)"
  shows "unat (e - s - 1) = unat e - unat s - 1"
proof -
  have "unat (e - s) = unat e - unat s"
    using assms by (simp add: unat_sub less_imp_le)
  moreover have "e - s \<noteq> 0" using assms by auto
  ultimately show ?thesis by (simp add: unat_minus_one)
qed

text \<open>The processor and the device advance the tail alike.\<close>

lemma jp_tail_advance:
  assumes "s \<le> cur" and "cur < e" and "e \<le> 0x20000000" and "n < unat e - unat s"
  shows "(if cur + of_nat n \<ge> e then cur + of_nat n - e + s else cur + of_nat n) = jpos s e cur n"
proof -
  have se: "unat s \<le> unat cur" "unat cur < unat e" "unat e \<le> 536870912"
    using assms(1-3) by (simp_all add: word_le_nat_alt word_less_nat_alt)
  define m where "m = unat e - unat s"
  define a where "a = unat cur - unat s"
  have j: "unat (jpos s e cur n) = unat s + (if a + n < m then a + n else a + n - m)"
  proof -
    have "a mod m = a" unfolding a_def m_def using se by (intro mod_less) linarith
    then show ?thesis
      using jpos_unat [OF assms(1,2), of n, folded m_def a_def] mod_shift [of n m a] assms(4) [folded m_def] by simp
  qed
  have n: "unat (of_nat n :: u64) = n"
    using assms(4) se by (simp add: unat_of_nat)
  have c: "unat (cur + of_nat n) = unat cur + n"
    using n se assms(4) by (subst unat_add_lem [THEN iffD1]) simp_all
  show ?thesis
  proof (cases "a + n < m")
    case True
    then have "unat (jpos s e cur n) = unat cur + n" "unat cur + n < unat e"
      using j [unfolded if_P [OF True]] se unfolding a_def m_def by linarith+
    then show ?thesis using c by (auto simp: word_le_nat_alt intro!: unat_word_eqI)
  next
    case False
    then have ge: "unat cur + n \<ge> unat e" and u: "unat (jpos s e cur n) + unat e = unat cur + n + unat s"
      using j [unfolded if_not_P [OF False]] se unfolding a_def m_def by linarith+
    from u have "jpos s e cur n + e = cur + of_nat n + s"
      by (metis of_nat_add of_nat_unat_u64)
    then show ?thesis using c ge by (simp add: word_le_nat_alt algebra_simps)
  qed
qed

lemma jp_dev_tail:
  assumes "s \<le> cur" and "cur < e" and "e \<le> 0x20000000" and "0 < n" and "n < unat e - unat s"
    and "metaJournalStartLpa dev = s" and "metaJournalEndLpa dev = e" and "metaJournalTailLpa dev = cur"
  shows "comm_submit_sync_update_metajournal_tail_request dev cur (ucast (of_nat n :: u64)) =
    (RC0, dev\<lparr>metaJournalTailLpa := jpos s e cur n, metaJournalHeadLpa := jpos s e cur n\<rparr>)"
proof -
  have se: "unat s \<le> unat cur" "unat cur < unat e" "unat e \<le> 536870912" and lt: "s < e"
    using assms(1-3) by (simp_all add: word_le_nat_alt word_less_nat_alt)
  have u: "unat (e - s) = unat e - unat s" "unat (cur - s) = unat cur - unat s"
    using lt assms(1) by (simp_all add: unat_sub less_imp_le)
  have n: "unat (of_nat n :: u64) = n" "unat (ucast (of_nat n :: u64) :: u32) = n"
    using assms(5) se by (simp_all add: unat_of_nat unsigned_ucast_eq take_bit_nat_eq_self)
  have wn: "(ucast (ucast (of_nat n :: u64) :: u32) :: u64) = of_nat n"
    using n by (intro unat_word_eqI) simp
  have nz: "(ucast (of_nat n :: u64) :: u32) \<noteq> 0"
    using n(2) assms(4) by auto
  have md: "(of_nat n :: u64) mod (e - s) = of_nat n"
    using n(1) u(1) assms(5) by (intro unat_word_eqI) (simp add: unat_mod)
  have so: "unat (cur - s + of_nat n) = unat cur - unat s + n"
    using n(1) u se assms(5) by (subst unat_add_lem [THEN iffD1]) simp_all
  have "s + (if cur - s + of_nat n \<ge> e - s then cur - s + of_nat n - (e - s) else cur - s + of_nat n) =
      (if cur + of_nat n \<ge> e then cur + of_nat n - e + s else cur + of_nat n)"
  proof -
    have "unat (cur + of_nat n) = unat cur + n"
      using n(1) se assms(5) by (subst unat_add_lem [THEN iffD1]) simp_all
    then have "cur - s + of_nat n \<ge> e - s \<longleftrightarrow> cur + of_nat n \<ge> e"
      using so u se by (simp add: word_le_nat_alt) linarith
    then show ?thesis by simp
  qed
  then have t: "s + (if cur - s + of_nat n \<ge> e - s then cur - s + of_nat n - (e - s) else cur - s + of_nat n) = jpos s e cur n"
    using jp_tail_advance [OF assms(1-3,5)] by simp
  have ne: "e - s \<noteq> 0" using lt by auto
  show ?thesis
    unfolding comm_submit_sync_update_metajournal_tail_request_def Let_def assms(6-8) wn md t
    using nz lt assms(1,2) ne by (simp add: not_le not_less)
qed

lemma write_blocks_dev:
  "journalWriterWriteBlocks s e dev bs cur = Some dev' \<Longrightarrow> dev' = dev\<lparr>media := media dev'\<rparr>"
  by (induction s e dev bs cur rule: journalWriterWriteBlocks.induct)
    (auto simp: comm_write_def Let_def split: if_splits)

lemma write_blocks_pos:
  "journalWriterWriteBlocks s e (dev\<lparr>metaJournalTailLpa := a, metaJournalHeadLpa := b\<rparr>) bs cur =
   map_option (\<lambda>d. d\<lparr>metaJournalTailLpa := a, metaJournalHeadLpa := b\<rparr>) (journalWriterWriteBlocks s e dev bs cur)"
proof (induction bs arbitrary: dev cur)
  case (Cons x bs)
  have "comm_submit_rw_request_common (dev\<lparr>metaJournalTailLpa := a, metaJournalHeadLpa := b\<rparr>) = comm_submit_rw_request_common dev"
    by (simp add: comm_submit_rw_request_common_def Let_def fun_eq_iff)
  moreover have sw: "dev\<lparr>metaJournalTailLpa := a, metaJournalHeadLpa := b, media := m\<rparr> =
      dev\<lparr>media := m, metaJournalTailLpa := a, metaJournalHeadLpa := b\<rparr>" for m
    by (cases dev) simp
  ultimately show ?case
    using Cons by (simp add: comm_write_def Let_def sw)
qed simp

lemma write_blocks_wrap: "s \<noteq> e \<Longrightarrow> journalWriterWriteBlocks s e dev bs e = journalWriterWriteBlocks s e dev bs s"
  by (cases bs) simp_all

lemma write_blocks_append:
  assumes "s \<le> cur" and "cur < e"
  shows "journalWriterWriteBlocks s e dev (xs @ ys) cur =
    (journalWriterWriteBlocks s e dev xs cur \<bind> (\<lambda>d. journalWriterWriteBlocks s e d ys (jpos s e cur (length xs))))"
  using assms
proof (induction xs arbitrary: dev cur)
  case Nil
  then show ?case by (simp add: jpos_simps)
next
  case (Cons x xs)
  let ?n = "comm_recovery_next_journal_lpa cur s e"
  have n: "s \<le> ?n" "?n < e"
    using jpos_in [OF Cons.prems, of "Suc 0"] by (simp_all add: jpos_simps)
  have w: "journalWriterWriteBlocks s e d zs (cur + 1) = journalWriterWriteBlocks s e d zs ?n" for d zs
  proof (cases "cur + 1 = e")
    case True
    then show ?thesis
      using write_blocks_wrap [of s e] Cons.prems by (simp add: comm_recovery_next_journal_lpa_def)
  next
    case False
    then have "\<not> cur + 1 \<ge> e"
      using Cons.prems(2) by (metis inc_le order_antisym)
    then show ?thesis by (simp add: comm_recovery_next_journal_lpa_def)
  qed
  have "cur \<noteq> e" using Cons.prems(2) by auto
  then show ?case
    using Cons.IH [OF n] by (cases "comm_write dev (LPA_TO_LBA64 cur) x") (simp add: w jpos_simps Let_def)
qed

text \<open>
  \<open>jp_wrote p dev bs p' dev'\<close>: the processor appended the blocks \<open>bs\<close> to the journal at its tail, the device has applied
  them, and the ring and its bounds are as before.
\<close>

definition jp_wrote :: "JournalProcessor \<Rightarrow> comm_dev \<Rightarrow> block list \<Rightarrow> JournalProcessor \<Rightarrow> comm_dev \<Rightarrow> bool" where
  "jp_wrote p dev bs p' dev' \<longleftrightarrow> jp_startLpa p' = jp_startLpa p \<and> jp_endLpa p' = jp_endLpa p \<and>
     jp_totalAvailLpa p' = jp_totalAvailLpa p \<and> jp_tailLpa p' = jpos (jp_startLpa p) (jp_endLpa p) (jp_tailLpa p) (length bs) \<and>
     (\<exists>d. journalWriterWriteBlocks (jp_startLpa p) (jp_endLpa p) dev bs (jp_tailLpa p) = Some d \<and>
       dev' = d\<lparr>metaJournalTailLpa := jp_tailLpa p', metaJournalHeadLpa := jp_tailLpa p'\<rparr>)"

text \<open>A round with a pending journal that fits writes it, completes it and leaves the thread idle again.\<close>

lemma jp_round_idle:
  assumes idle: "jp_idle p dev" and w: "w = \<lparr>jt_proc = p, jt_env = env, jt_dev = dev, jt_hooked = h\<rparr>"
    and pend: "jp_pendingJournalList p = j # js" and kt: "korder_ok korder" "2 \<le> t"
    and fits: "jp_fits fresh korder t (jp_totalAvailLpa p) j"
  shows "\<exists>p' dev' bs. jp_round fresh korder t RC0 hook w =
      Some \<lparr>jt_proc = p', jt_env = env, jt_dev = dev', jt_hooked = hook (txId j) h\<rparr> \<and>
    jp_idle p' dev' \<and> jp_pendingJournalList p' = js \<and> jp_tx j bs \<and>
    jp_wrote p dev bs p' dev'"
proof -
  define s e cur where "s = jp_startLpa p" and "e = jp_endLpa p" and "cur = jp_tailLpa p"
  note defs = s_def e_def cur_def
  have g: "s \<le> cur" "cur < e" "jp_headLpa p = cur" "jp_totalAvailLpa p = e - s - 1" "jp_curAvailLpa p = e - s - 1"
    "jp_txRecords p = []" "jp_curJournal p = None" "metaJournalStartLpa dev = s" "metaJournalEndLpa dev = e"
    "metaJournalTailLpa dev = cur" "ring_ok dev s e" "jw_startLpa (jp_journalWriter p) = s" "jw_endLpa (jp_journalWriter p) = e"
    using idle by (simp_all add: jp_idle_def defs)
  have se: "s < e" "e \<le> 0x20000000" using g(11) by (simp_all add: ring_ok_def)
  let ?wr = "journalWriterSetPendingJournal (jp_journalWriter p) j"
  have cj: "jw_curJournal ?wr = Some j" by (simp add: journalWriterSetPendingJournal_def)
  obtain wr its where c: "journalWriterCollectPendingJournalToWriteBuffer fresh korder t ?wr = Some (1 + jw_bufferTailIdx wr, wr)"
    "jtx (take (1 + jw_bufferTailIdx wr) (jw_journalBuffer wr)) its"
    "1 + jw_bufferTailIdx wr \<le> length (jw_journalBuffer wr)" "jw_frame wr = jw_frame ?wr"
    "supers_of its = ov_entries (superJournalOutputVectorPrepareOutput korder (superBlockJournal j)
      (superJournalOutputVectorGenerateOutputVector (superBlockJournal j)))"
    "nats_of its = ov_entries (natJournalOutputVectorPrepareOutput (natJournal j)
      (natJournalOutputVectorGenerateOutputVector t (natJournal j)))"
    "sits_of its = ov_entries (sitJournalOutputVectorPrepareOutput (sitJournal j)
      (sitJournalOutputVectorGenerateOutputVector t (sitJournal j)))"
    by (rule collect_correct [OF cj kt]) (use fits in \<open>simp add: jp_fits_def\<close>)
  define n where "n = 1 + jw_bufferTailIdx wr"
  define bs where "bs = take n (jw_journalBuffer wr)"
  have len: "length bs = n" using c(3) by (simp add: bs_def n_def)
  have tx: "jp_tx j bs"
    unfolding jp_tx_def bs_def n_def
    using c(2) super_vector(2,3) [OF kt(1)] nat_vector(2) [OF kt(2)] sit_vector(2) [OF kt(2)] fits c(5-7)
    by (intro exI [of _ its]) (simp add: jp_fits_def)
  have fr: "jw_startLpa wr = s" "jw_endLpa wr = e"
    using c(4) g(12,13) by (simp_all add: jw_frame_def journalWriterSetPendingJournal_def)
  have "n \<le> unat (e - s - 1)"
    using fits c(1) cj unfolding jp_fits_def n_def g(4) by blast
  then have n: "0 < n" "n < unat e - unat s" "n \<le> unat (e - s - 1)"
    using jp_size [OF se(1)] se(1) by (auto simp: n_def word_less_nat_alt)
  have un: "unat (of_nat n :: u64) = n"
    using n(2) unat_less_u64 [of e] by (simp add: unat_of_nat)
  obtain m where wb: "journalWriterWriteBlocks s e dev bs cur = Some (dev\<lparr>media := m\<rparr>)"
    using write_blocks_spec [OF g(11,1,2), of bs] len n(2) se(1) by (auto simp: unat_sub less_imp_le)
  let ?t = "jpos s e cur n"
  let ?dev = "dev\<lparr>media := m, metaJournalTailLpa := ?t, metaJournalHeadLpa := ?t\<rparr>"
  have up: "comm_submit_sync_update_metajournal_tail_request (dev\<lparr>media := m\<rparr>) cur (ucast (of_nat n :: u64)) = (RC0, ?dev)"
    using jp_dev_tail [OF g(1,2) se(2) n(1,2), of "dev\<lparr>media := m\<rparr>"] g(8-10) by simp
  have av: "of_nat n \<le> (e - s - 1 :: u64)" using n(3) un by (simp add: word_le_nat_alt)
  define p0 where "p0 = p\<lparr>jp_curJournal := Some j, jp_pendingJournalList := js, jp_curProcState := JOURNAL_PROCESS_NEWLY_FETCHED\<rparr>"
  define pA where "pA = p0\<lparr>jp_journalWriter := wr, jp_curJournalBlockNum := of_nat n, jp_curProcState := JOURNAL_PROCESS_WRITTEN_IN_BUFFER\<rparr>"
  define pB where "pB = pA\<lparr>jp_curJournalStartLpa := cur, jp_tailLpa := ?t, jp_curJournalEndLpa := ?t, jp_curAvailLpa := e - s - 1 - of_nat n\<rparr>"
  define pC where "pC = (journalProcessorGenerateTxRecord pB j)\<lparr>jp_curJournal := None\<rparr>"
  note ps = p0_def pA_def pB_def pC_def
  have "journalProcessorWriteJournalToBuffer fresh korder t p0 j = Some pA"
    unfolding journalProcessorWriteJournalToBuffer_def using c(1) by (simp add: ps n_def)
  moreover have "journalProcessorTakeJournal p = p0" "jp_curJournal p0 = Some j" "jp_curProcState p0 = JOURNAL_PROCESS_NEWLY_FETCHED"
    by (simp_all add: journalProcessorTakeJournal_def pend g(7) p0_def)
  moreover have "journalProcessorWriteJournalToSsd dev pA = Some (True, pB, ?dev)"
  proof -
    have fields: "jp_curJournalBlockNum pA = of_nat n" "jp_curAvailLpa pA = e - s - 1" "jp_tailLpa pA = cur" "jp_startLpa pA = s"
      "jp_endLpa pA = e" "jp_journalWriter pA = wr"
      by (simp_all add: ps g(5) defs)
    have ssd: "journalWriterWriteToSsd dev wr cur = Some (dev\<lparr>media := m\<rparr>)"
      using wb fr by (simp add: journalWriterWriteToSsd_def bs_def n_def)
    show ?thesis
      unfolding journalProcessorWriteJournalToSsd_def fields pB_def
      using av ssd up jp_tail_advance [OF g(1,2) se(2) n(2)]
      by (cases "e \<le> cur + of_nat n") (simp_all add: Let_def fields)
  qed
  ultimately have pending: "journalProcessorProcessPendingJournal fresh korder t w =
      Some \<lparr>jt_proc = pC, jt_env = env, jt_dev = ?dev, jt_hooked = h\<rparr>"
    unfolding w by (simp add: journalProcessorProcessPendingJournal_def pC_def)
  have pc: "jp_startLpa pC = s" "jp_endLpa pC = e" "jp_headLpa pC = cur" "jp_tailLpa pC = ?t" "jp_curJournal pC = None"
    "jp_txRecords pC = [transactionJournalRecordInit (txId j) cur ?t]" "jp_curAvailLpa pC = e - s - 1 - of_nat n"
    "jp_totalAvailLpa pC = e - s - 1" "jp_pendingJournalList pC = js" "jp_journalWriter pC = wr"
    by (simp_all add: ps journalProcessorGenerateTxRecord_def g(3,4,6) defs)
  define pE where "pE = (if jp_isPollTimerEnabled pC then pC else pC\<lparr>jp_isPollTimerEnabled := True\<rparr>)"
  have pe: "jp_startLpa pE = s" "jp_endLpa pE = e" "jp_headLpa pE = cur" "jp_tailLpa pE = ?t" "jp_curJournal pE = None"
    "jp_txRecords pE = [transactionJournalRecordInit (txId j) cur ?t]" "jp_curAvailLpa pE = e - s - 1 - of_nat n"
    "jp_totalAvailLpa pE = e - s - 1" "jp_pendingJournalList pE = js" "jp_journalWriter pE = wr"
    using pc by (simp_all add: pE_def)
  define x where "x = unat cur - unat s"
  have at: "jp_at s e (x + i) = jpos s e cur i" "jp_at s e x = cur" for i
    using jpos_jp_at [OF g(1,2), of i] jpos_jp_at [OF g(1,2), of 0] by (simp_all add: x_def jpos_simps)
  let ?w = "\<lparr>jt_proc = pC, jt_env = env, jt_dev = ?dev, jt_hooked = h\<rparr>"
  let ?pF = "pE\<lparr>jp_headLpa := metaJournalHeadLpa ?dev, jp_curAvailLpa := jp_curAvailLpa pE + of_nat n\<rparr>"
  have "let p' = ?pF in journalProcessorSyncWithSsdJournalPos ?dev pE = Some (n \<noteq> 0, p') \<and>
    journalProcessorProcessTxRecord hook (?w\<lparr>jt_proc := p'\<rparr>) =
      ?w\<lparr>jt_proc := p'\<lparr>jp_txRecords := drop (jp_applied n [n]) (jp_txRecords pE)\<rparr>,
        jt_hooked := fold hook (map tjr_txId (take (jp_applied n [n]) (jp_txRecords pE))) (jt_hooked ?w)\<rparr>"
    by (rule jp_sync_laid [where x = x]) (use pe n se in \<open>simp_all add: at transactionJournalRecordInit_def\<close>)
  then have sync: "journalProcessorSyncWithSsdJournalPos ?dev pE = Some (True, ?pF)"
    "journalProcessorProcessTxRecord hook (?w\<lparr>jt_proc := ?pF\<rparr>) = ?w\<lparr>jt_proc := ?pF\<lparr>jp_txRecords := []\<rparr>, jt_hooked := hook (txId j) h\<rparr>"
    using n(1) unfolding Let_def pe by (simp_all add: transactionJournalRecordInit_def)
  have "(of_nat n :: u64) \<noteq> 0" using un n(1) by (metis unat_0 less_irrefl)
  then have ne: "jp_curAvailLpa pC \<noteq> jp_totalAvailLpa pC" by (simp add: pc)
  let ?p' = "?pF\<lparr>jp_txRecords := []\<rparr>"
  have "journalProcessorEnablePollTimer RC0 pC = Some pE"
    by (simp add: journalProcessorEnablePollTimer_def pE_def)
  with pending ne sync have round: "jp_round fresh korder t RC0 hook w =
      Some \<lparr>jt_proc = ?p', jt_env = env, jt_dev = ?dev, jt_hooked = hook (txId j) h\<rparr>"
    by (simp add: jp_round_def journalProcessorProcessCpltJournal_def journalProcessorWaitPollTimer_def)
  have ti: "s \<le> ?t" "?t < e" by (rule jpos_in [OF g(1,2)])+
  have "comm_submit_rw_request_common ?dev = comm_submit_rw_request_common dev"
    by (simp add: comm_submit_rw_request_common_def Let_def fun_eq_iff)
  then have "ring_ok ?dev s e"
    using g(11) unfolding ring_ok_def by simp
  then have "jp_idle ?p' ?dev"
    using ti pe g(8,9) fr by (simp add: jp_idle_def)
  moreover have "jp_tailLpa ?p' = jpos s e cur (length bs)" using pe len by simp
  ultimately show ?thesis
    using round tx wb pe g(4)
    unfolding jp_wrote_def
    by (intro exI [of _ ?p'] exI [of _ ?dev] exI [of _ bs] conjI exI [of _ "dev\<lparr>media := m\<rparr>"]) (simp_all add: defs [symmetric] len)
qed

lemma jp_wrote_trans:
  assumes "jp_idle p dev" and "jp_wrote p dev xs p' dev'" and "jp_wrote p' dev' ys p'' dev''"
  shows "jp_wrote p dev (xs @ ys) p'' dev''"
proof -
  let ?s = "jp_startLpa p" and ?e = "jp_endLpa p" and ?c = "jp_tailLpa p"
  have se: "?s \<le> ?c" "?c < ?e" using assms(1) by (simp_all add: jp_idle_def)
  from assms(2) obtain d where d: "journalWriterWriteBlocks ?s ?e dev xs ?c = Some d"
    "dev' = d\<lparr>metaJournalTailLpa := jp_tailLpa p', metaJournalHeadLpa := jp_tailLpa p'\<rparr>"
    "jp_startLpa p' = ?s" "jp_endLpa p' = ?e" "jp_totalAvailLpa p' = jp_totalAvailLpa p" "jp_tailLpa p' = jpos ?s ?e ?c (length xs)"
    by (auto simp: jp_wrote_def)
  from assms(3) obtain d' where d': "journalWriterWriteBlocks ?s ?e dev' ys (jp_tailLpa p') = Some d'"
    "dev'' = d'\<lparr>metaJournalTailLpa := jp_tailLpa p'', metaJournalHeadLpa := jp_tailLpa p''\<rparr>"
    "jp_startLpa p'' = ?s" "jp_endLpa p'' = ?e" "jp_totalAvailLpa p'' = jp_totalAvailLpa p"
    "jp_tailLpa p'' = jpos ?s ?e (jp_tailLpa p') (length ys)"
    by (auto simp: jp_wrote_def d(3-5))
  from d'(1) obtain d2 where d2: "journalWriterWriteBlocks ?s ?e d ys (jp_tailLpa p') = Some d2"
    "d' = d2\<lparr>metaJournalTailLpa := jp_tailLpa p', metaJournalHeadLpa := jp_tailLpa p'\<rparr>"
    unfolding d(2) write_blocks_pos by auto
  have "journalWriterWriteBlocks ?s ?e dev (xs @ ys) ?c = Some d2"
    using d(1) d2(1) unfolding write_blocks_append [OF se] d(6) by simp
  moreover have "dev'' = d2\<lparr>metaJournalTailLpa := jp_tailLpa p'', metaJournalHeadLpa := jp_tailLpa p''\<rparr>"
    unfolding d'(2) d2(2) by simp
  ultimately show ?thesis
    unfolding jp_wrote_def using d'(3-6) d(6) by (simp add: jpos_add)
qed

lemma jp_process_pending:
  assumes "jp_idle p dev" and "jp_pendingJournalList p = js" and "env_commitQueue env = []" and "env_exitReq env"
    and "list_all (jp_fits fresh korder t (jp_totalAvailLpa p)) js" and kt: "korder_ok korder" "2 \<le> t"
  shows "\<exists>p' dev' txs. journalProcessorProcessJournal fresh korder t RC0 hook \<lparr>jt_proc = p, jt_env = env, jt_dev = dev, jt_hooked = h\<rparr> =
      Some \<lparr>jt_proc = p', jt_env = env\<lparr>env_exitReq := False\<rparr>, jt_dev = dev', jt_hooked = fold hook (map txId js) h\<rparr> \<and>
    jp_idle p' dev' \<and> jp_pendingJournalList p' = [] \<and> list_all2 jp_tx js txs \<and> jp_wrote p dev (concat txs) p' dev'"
  using assms(1,2,5)
proof (induction js arbitrary: p dev h)
  case Nil
  then have "jp_wrote p dev [] p dev"
    unfolding jp_wrote_def jp_idle_def by (cases dev) (simp add: jpos_simps)
  moreover have "\<not> journalProcessorIsWorking p"
    using Nil by (simp add: journalProcessorIsWorking_def jp_idle_def)
  ultimately show ?case
    using Nil assms(3,4) by (subst journalProcessorProcessJournal.simps)
      (auto simp: journalProcessorFetchNewJournal_def Let_def intro: exI [of _ "[]"])
next
  case (Cons j js)
  obtain p1 dev1 bs where r: "jp_round fresh korder t RC0 hook \<lparr>jt_proc = p, jt_env = env, jt_dev = dev, jt_hooked = h\<rparr> =
      Some \<lparr>jt_proc = p1, jt_env = env, jt_dev = dev1, jt_hooked = hook (txId j) h\<rparr>"
    "jp_idle p1 dev1" "jp_pendingJournalList p1 = js" "jp_tx j bs" "jp_wrote p dev bs p1 dev1"
    using jp_round_idle [OF Cons.prems(1) refl Cons.prems(2) kt] Cons.prems(3) by fastforce
  have "list_all (jp_fits fresh korder t (jp_totalAvailLpa p1)) js"
    using Cons.prems(3) r(5) by (simp add: jp_wrote_def)
  from Cons.IH [OF r(2,3) this] obtain p' dev' txs where
    ih: "journalProcessorProcessJournal fresh korder t RC0 hook \<lparr>jt_proc = p1, jt_env = env, jt_dev = dev1, jt_hooked = hook (txId j) h\<rparr> =
      Some \<lparr>jt_proc = p', jt_env = env\<lparr>env_exitReq := False\<rparr>, jt_dev = dev', jt_hooked = fold hook (map txId js) (hook (txId j) h)\<rparr>"
    "jp_idle p' dev'" "jp_pendingJournalList p' = []" "list_all2 jp_tx js txs" "jp_wrote p1 dev1 (concat txs) p' dev'"
    by blast
  have "journalProcessorIsWorking p"
    using Cons.prems(2) by (simp add: journalProcessorIsWorking_def)
  then have "journalProcessorProcessJournal fresh korder t RC0 hook \<lparr>jt_proc = p, jt_env = env, jt_dev = dev, jt_hooked = h\<rparr> =
      Some \<lparr>jt_proc = p', jt_env = env\<lparr>env_exitReq := False\<rparr>, jt_dev = dev', jt_hooked = fold hook (map txId (j # js)) h\<rparr>"
    using assms(3) r(1) ih(1) by (subst journalProcessorProcessJournal.simps) (simp add: journalProcessorFetchNewJournal_def)
  moreover have "jp_wrote p dev (concat (bs # txs)) p' dev'"
    using jp_wrote_trans [OF Cons.prems(1) r(5) ih(5)] by simp
  ultimately show ?case
    using ih(2-4) r(4) by (intro exI [of _ p'] exI [of _ dev'] exI [of _ "bs # txs"]) simp
qed

text \<open>An idle thread that is asked to exit writes what is queued first.\<close>

lemma jp_drains:
  assumes "jp_idle p dev" and "env_exitReq env" and js: "js = jp_pendingJournalList p @ env_commitQueue env"
    and "list_all (jp_fits fresh korder t (jp_totalAvailLpa p)) js" and "korder_ok korder" and "2 \<le> t"
  shows "\<exists>p' dev' txs. journalProcessorProcessJournal fresh korder t RC0 hook \<lparr>jt_proc = p, jt_env = env, jt_dev = dev, jt_hooked = h\<rparr> =
      Some \<lparr>jt_proc = p', jt_env = env\<lparr>env_commitQueue := [], env_exitReq := False\<rparr>, jt_dev = dev',
        jt_hooked = fold hook (map txId js) h\<rparr> \<and>
    jp_idle p' dev' \<and> jp_pendingJournalList p' = [] \<and> list_all2 jp_tx js txs \<and> jp_wrote p dev (concat txs) p' dev'"
proof -
  let ?p = "p\<lparr>jp_pendingJournalList := js\<rparr>" and ?env = "env\<lparr>env_commitQueue := []\<rparr>"
  let ?run = "\<lambda>p env. journalProcessorProcessJournal fresh korder t RC0 hook \<lparr>jt_proc = p, jt_env = env, jt_dev = dev, jt_hooked = h\<rparr>"
  have "?run p env = ?run ?p ?env"
  proof (cases "env_commitQueue env = []")
    case True
    then have "?p = p" "?env = env" using js by (cases p; cases env; simp)+
    then show ?thesis by simp
  next
    case False
    then have "journalProcessorIsWorking ?p" by (simp add: journalProcessorIsWorking_def js)
    then show ?thesis
      using False js by (subst (1 2) journalProcessorProcessJournal.simps) (simp add: journalProcessorFetchNewJournal_def)
  qed
  moreover have "jp_idle ?p dev" using assms(1) by (simp add: jp_idle_def)
  moreover have "jp_wrote ?p dev = jp_wrote p dev" by (simp add: jp_wrote_def fun_eq_iff)
  ultimately show ?thesis
    using jp_process_pending [of ?p dev js ?env fresh korder t hook h] assms(2,4-6) by simp
qed

text \<open>
  Claim C24. A stop loses no journal. Let the thread have no transaction under way, and let \<open>js\<close> be the journals it holds as pending and
  those in the commit queue, each of which fits into the ring. When it is asked to exit, its main loop returns; before, it has written one transaction
  per journal, in this order, as consecutive blocks at the tail of the ring, called the transaction-complete hook once for
  each of them in that order, and emptied the queue and the pending list. Each transaction carries the NAT and SIT entries of its journal
  and the latest super block entries. (A journal that does not fit blocks the thread, as the next section shows.)
\<close>

theorem journalProcessor_drains_before_exit:
  assumes "jp_idle p dev" and "env_exitReq env" and js: "js = jp_pendingJournalList p @ env_commitQueue env"
    and "list_all (jp_fits fresh korder t (jp_totalAvailLpa p)) js" and "korder_ok korder" and "2 \<le> t"
  shows "\<exists>p' dev' txs. journalProcessorProcessJournal fresh korder t RC0 hook \<lparr>jt_proc = p, jt_env = env, jt_dev = dev, jt_hooked = h\<rparr> =
      Some \<lparr>jt_proc = p', jt_env = env\<lparr>env_commitQueue := [], env_exitReq := False\<rparr>, jt_dev = dev',
        jt_hooked = fold hook (map txId js) h\<rparr> \<and>
    jp_idle p' dev' \<and> jp_pendingJournalList p' = [] \<and> list_all2 jp_tx js txs \<and> jp_wrote p dev (concat txs) p' dev'"
  using assms by (rule jp_drains)

subsection \<open>A journal that is too large\<close>

text \<open>The thread holds a journal whose blocks outnumber the whole ring.\<close>

definition jp_stuck :: "JournalProcessor \<Rightarrow> bool" where
  "jp_stuck p \<longleftrightarrow> jp_curJournal p \<noteq> None \<and> jp_curProcState p = JOURNAL_PROCESS_WRITTEN_IN_BUFFER \<and>
     jp_curAvailLpa p = jp_totalAvailLpa p \<and> jp_totalAvailLpa p < jp_curJournalBlockNum p"

lemma jp_stuck_round:
  assumes "jp_stuck (jt_proc w)" and "jp_round fresh korder t tmr hook w = Some w'"
  shows "jp_stuck (jt_proc w')"
proof -
  obtain j where j: "jp_curJournal (jt_proc w) = Some j" using assms(1) by (auto simp: jp_stuck_def)
  have "journalProcessorWriteJournalToSsd (jt_dev w) (jt_proc w) = Some (False, jt_proc w, jt_dev w)"
    using assms(1) by (auto simp: journalProcessorWriteJournalToSsd_def jp_stuck_def)
  then have "journalProcessorProcessPendingJournal fresh korder t w = Some w"
    using assms(1) j by (simp add: journalProcessorProcessPendingJournal_def journalProcessorTakeJournal_def jp_stuck_def)
  with assms show ?thesis
    by (auto simp: jp_round_def journalProcessorProcessCpltJournal_def journalProcessorDisablePollTimer_def jp_stuck_def
        split: if_splits Option.bind_splits)
qed

lemma jp_stuck_fetch:
  assumes "jp_stuck (jt_proc w)"
  shows "fst (journalProcessorFetchNewJournal w) = FETCH_OK" and "jp_stuck (jt_proc (snd (journalProcessorFetchNewJournal w)))"
  using assms by (auto simp: journalProcessorFetchNewJournal_def journalProcessorIsWorking_def jp_stuck_def Let_def)

lemma jp_stuck_forever:
  fixes w :: "'a JournalThread"
  assumes "jp_stuck (jt_proc w)"
  shows "journalProcessorProcessJournal fresh korder t tmr hook w = None"
proof -
  have "\<not> jp_stuck (jt_proc w)" if "journalProcessorProcessJournal fresh korder t tmr hook w = Some w'" for w w' :: "'a JournalThread"
  proof (rule journalProcessorProcessJournal.raw_induct [of "\<lambda>_ _ _ _ _ w _. \<not> jp_stuck (jt_proc w)", OF _ that])
    fix run :: "(nat \<Rightarrow> block) \<Rightarrow> (u32 list \<Rightarrow> u32 list) \<Rightarrow> nat \<Rightarrow> rc \<Rightarrow> (u64 \<Rightarrow> 'a \<Rightarrow> 'a) \<Rightarrow> 'a JournalThread \<Rightarrow> 'a JournalThread option"
    fix fresh korder t tmr hook w w'
    assume ih: "\<And>fresh korder t tmr hook w w'. run fresh korder t tmr hook w = Some w' \<Longrightarrow> \<not> jp_stuck (jt_proc w)"
      and body: "(let (f, w) = journalProcessorFetchNewJournal w in if f = FETCH_EXIT then Some w else if f = FETCH_WAIT then None
        else jp_round fresh korder t tmr hook w \<bind> run fresh korder t tmr hook) = Some w'"
    show "\<not> jp_stuck (jt_proc w)"
    proof
      assume s: "jp_stuck (jt_proc w)"
      obtain v where "journalProcessorFetchNewJournal w = (FETCH_OK, v)" "jp_stuck (jt_proc v)"
        using jp_stuck_fetch [OF s] by (cases "journalProcessorFetchNewJournal w") auto
      with body ih show False
        using jp_stuck_round by (fastforce split: Option.bind_splits)
    qed
  qed
  with assms show ?thesis by (cases "journalProcessorProcessJournal fresh korder t tmr hook w") auto
qed

text \<open>
  Claim C40. A journal that is too large blocks the journal thread. When the next journal of the queue needs more blocks than
  the ring has room for, the main loop never returns: the journal is never written, no later journal is, and a request to exit
  is not served, so the thread that stops the file system waits for ever.
\<close>

theorem journalProcessor_stuck_on_large:
  assumes "jp_curJournal p = None" and "jp_pendingJournalList p = []" and "jp_curAvailLpa p = jp_totalAvailLpa p"
    and "env_commitQueue env = j # js"
    and "journalWriterCollectPendingJournalToWriteBuffer fresh korder t (journalWriterSetPendingJournal (jp_journalWriter p) j) = Some (n, wr)"
    and "jp_totalAvailLpa p < of_nat n"
  shows "journalProcessorProcessJournal fresh korder t tmr hook \<lparr>jt_proc = p, jt_env = env, jt_dev = dev, jt_hooked = h\<rparr> = None"
proof -
  let ?w = "\<lparr>jt_proc = p\<lparr>jp_pendingJournalList := j # js\<rparr>, jt_env = env\<lparr>env_commitQueue := []\<rparr>, jt_dev = dev, jt_hooked = h\<rparr>"
  have f: "journalProcessorFetchNewJournal \<lparr>jt_proc = p, jt_env = env, jt_dev = dev, jt_hooked = h\<rparr> = (FETCH_OK, ?w)"
    using assms(2,4) by (simp add: journalProcessorFetchNewJournal_def)
  have "jp_stuck (jt_proc w')" if "jp_round fresh korder t tmr hook ?w = Some w'" for w'
    using that assms(1,3,5,6)
    by (auto simp: jp_round_def journalProcessorProcessPendingJournal_def journalProcessorTakeJournal_def
        journalProcessorWriteJournalToBuffer_def journalProcessorWriteJournalToSsd_def journalProcessorProcessCpltJournal_def
        journalProcessorDisablePollTimer_def jp_stuck_def not_le [symmetric] split: if_splits Option.bind_splits)
  then show ?thesis
    using jp_stuck_forever by (subst journalProcessorProcessJournal.simps) (cases "jp_round fresh korder t tmr hook ?w"; simp add: f)
qed

subsection \<open>Concrete runs\<close>

lemma output_loop_empty:
  shows "ov_restOutputNum v = 0 \<Longrightarrow> journalWriterOutputLoop fresh superJournalOutputVectorOutputToBuffer w v =
      Some (journalWriterNextBlock (fst (journalWriterGetIthBufferBlock fresh w (jw_bufferTailIdx w))))"
    and "ov_restOutputNum u = 0 \<Longrightarrow> journalWriterOutputLoop fresh natJournalOutputVectorOutputToBuffer w u =
      Some (journalWriterNextBlock (fst (journalWriterGetIthBufferBlock fresh w (jw_bufferTailIdx w))))"
    and "ov_restOutputNum x = 0 \<Longrightarrow> journalWriterOutputLoop fresh sitJournalOutputVectorOutputToBuffer w x =
      Some (journalWriterNextBlock (fst (journalWriterGetIthBufferBlock fresh w (jw_bufferTailIdx w))))"
  by (subst journalWriterOutputLoop.simps, simp add: superJournalOutputVectorOutputToBuffer_def
      natJournalOutputVectorOutputToBuffer_def sitJournalOutputVectorOutputToBuffer_def outputVectorOutputToBuffer_def case_prod_beta Let_def)+

lemma collect_empty:
  assumes "jw_curJournal w = Some j" and "superBlockJournal j = []" and "natJournal j = []" and "sitJournal j = []"
    and "journalWriterCollectPendingJournalToWriteBuffer fresh id t w = Some (n, w')"
  shows "n = 1"
proof -
  let ?get = "\<lambda>w. journalWriterNextBlock (fst (journalWriterGetIthBufferBlock fresh w (jw_bufferTailIdx w)))"
  have "ov_restOutputNum (superJournalOutputVectorPrepareOutput id [] (superJournalOutputVectorGenerateOutputVector [])) = 0"
    "ov_restOutputNum (sitJournalOutputVectorPrepareOutput [] (sitJournalOutputVectorGenerateOutputVector t [])) = 0"
    "ov_restOutputNum (natJournalOutputVectorPrepareOutput [] (natJournalOutputVectorGenerateOutputVector t [])) = 0"
    by (simp_all add: superJournalOutputVectorPrepareOutput_def kh_keys_def sitJournalOutputVectorPrepareOutput_def
        sitJournalOutputVectorGenerateOutputVector_def natJournalOutputVectorPrepareOutput_def
        natJournalOutputVectorGenerateOutputVector_def kb_init_def)
  then have "n = 1 + jw_bufferTailIdx (journalWriterAppendEndEntry fresh (?get (?get (?get (w\<lparr>jw_bufferTailIdx := 0, jw_bufferTailOff := 0\<rparr>)))))"
    using assms by (auto simp: journalWriterCollectPendingJournalToWriteBuffer_def output_loop_empty Let_def)
  moreover have "jw_bufferTailIdx (fst (journalWriterGetIthBufferBlock fresh w i)) = jw_bufferTailIdx w"
    "jw_bufferTailOff (fst (journalWriterGetIthBufferBlock fresh w i)) = jw_bufferTailOff w" for w i
    by (simp_all add: journalWriterGetIthBufferBlock_def journalWriterEnsureBufferCapacity_def Let_def)
  ultimately show ?thesis
    by (simp add: journalWriterNextBlock_def journalWriterAppendEndEntry_def jw_store_def Let_def case_prod_beta)
qed

definition demo_journal :: "u64 \<Rightarrow> JournalContainer" where
  "demo_journal i = journalContainerInit\<lparr>txId := i\<rparr>"

definition demo_ring_dev :: "u64 \<Rightarrow> u64 \<Rightarrow> u64 \<Rightarrow> comm_dev" where
  "demo_ring_dev s e p = demo_dev\<lparr>metaJournalStartLpa := s, metaJournalEndLpa := e, metaJournalHeadLpa := p, metaJournalTailLpa := p\<rparr>"

lemma demo_collect:
  "\<exists>wr. journalWriterCollectPendingJournalToWriteBuffer (\<lambda>_. zero_block) id 10
     (journalWriterSetPendingJournal (journalWriterInit s e) (demo_journal i)) = Some (1, wr)"
proof -
  let ?w = "journalWriterSetPendingJournal (journalWriterInit s e) (demo_journal i)"
  have j: "jw_curJournal ?w = Some (demo_journal i)" by (simp add: journalWriterSetPendingJournal_def)
  obtain n wr where c: "journalWriterCollectPendingJournalToWriteBuffer (\<lambda>_. zero_block) id 10 ?w = Some (n, wr)"
    by (rule collect_correct [OF j, of id 10]) (auto simp: korder_ok_def demo_journal_def journalContainerInit_def)
  with collect_empty [OF j] show ?thesis by (simp add: demo_journal_def journalContainerInit_def)
qed

lemma demo_fits: "1 \<le> avail \<Longrightarrow> jp_fits (\<lambda>_. zero_block) id 10 avail (demo_journal i)"
  unfolding jp_fits_def
proof (intro conjI allI impI)
  fix wr n wr'
  assume "1 \<le> avail" "jw_curJournal wr = Some (demo_journal i)"
    and "journalWriterCollectPendingJournalToWriteBuffer (\<lambda>_. zero_block) id 10 wr = Some (n, wr')"
  then have "n = 1"
    by (intro collect_empty [of wr "demo_journal i"]) (simp_all add: demo_journal_def journalContainerInit_def)
  then show "n \<le> unat avail" using \<open>1 \<le> avail\<close> by (simp add: word_le_nat_alt)
qed (simp add: demo_journal_def journalContainerInit_def)

text \<open>One pending and one queued journal, while the tail stands at the last block of the ring.\<close>

theorem journalProcessor_drains_before_exit_witness:
  "\<exists>p' env' dev'. journalProcessorProcessJournal (\<lambda>_. zero_block) id 10 RC0 (#)
      \<lparr>jt_proc = (journalProcessorInit 0 JOURNAL_PROCESS_NEWLY_FETCHED 0 0 1300 1812 1811)\<lparr>jp_pendingJournalList := [demo_journal 1]\<rparr>,
       jt_env = journalProcessEnvInit\<lparr>env_commitQueue := [demo_journal 2], env_exitReq := True\<rparr>,
       jt_dev = demo_ring_dev 1300 1812 1811, jt_hooked = []\<rparr> =
    Some \<lparr>jt_proc = p', jt_env = env', jt_dev = dev', jt_hooked = [2, 1]\<rparr> \<and> env_commitQueue env' = [] \<and> jp_pendingJournalList p' = []"
proof -
  let ?p = "(journalProcessorInit 0 JOURNAL_PROCESS_NEWLY_FETCHED 0 0 1300 1812 1811)\<lparr>jp_pendingJournalList := [demo_journal 1]\<rparr>"
  let ?env = "journalProcessEnvInit\<lparr>env_commitQueue := [demo_journal 2], env_exitReq := True\<rparr>"
  have "comm_submit_rw_request_common (demo_ring_dev 1300 1812 1811) = comm_submit_rw_request_common demo_dev"
    by (simp add: demo_ring_dev_def comm_submit_rw_request_common_def Let_def fun_eq_iff)
  then have "ring_ok (demo_ring_dev 1300 1812 1811) 1300 1812"
    using rt_ring by (simp add: ring_ok_def)
  then have idle: "jp_idle ?p (demo_ring_dev 1300 1812 1811)"
    by (simp add: jp_idle_def journalProcessorInit_def demo_ring_dev_def journalWriterInit_def)
  have fits: "list_all (jp_fits (\<lambda>_. zero_block) id 10 (jp_totalAvailLpa ?p)) (jp_pendingJournalList ?p @ env_commitQueue ?env)"
    using demo_fits by (simp add: journalProcessorInit_def)
  show ?thesis
    using journalProcessor_drains_before_exit [OF idle _ refl fits, where hook = "(#)" and h = "[]"]
    by (fastforce simp: korder_ok_def demo_journal_def)
qed

theorem journalProcessor_stuck_on_large_witness:
  "journalProcessorProcessJournal (\<lambda>_. zero_block) id 10 RC0 (#)
      \<lparr>jt_proc = journalProcessorInit 0 JOURNAL_PROCESS_NEWLY_FETCHED 0 0 1300 1301 1300,
       jt_env = journalProcessEnvInit\<lparr>env_commitQueue := [demo_journal 1], env_exitReq := True\<rparr>,
       jt_dev = demo_ring_dev 1300 1301 1300, jt_hooked = []\<rparr> = None"
proof -
  obtain wr where "journalWriterCollectPendingJournalToWriteBuffer (\<lambda>_. zero_block) id 10
      (journalWriterSetPendingJournal (journalWriterInit 1300 1301) (demo_journal 1)) = Some (1, wr)"
    using demo_collect by blast
  then show ?thesis
    by (intro journalProcessor_stuck_on_large [of _ _ "demo_journal 1" "[]" _ _ _ 1 wr]) (simp_all add: journalProcessorInit_def)
qed

text \<open>The first of two records, which lie across the end of the ring, is applied.\<close>

theorem journalProcessor_reports_applied_witness:
  "let p = (journalProcessorInit 0 JOURNAL_PROCESS_NEWLY_FETCHED 0 0 10 20 18)\<lparr>jp_tailLpa := 15, jp_curAvailLpa := 2,
         jp_txRecords := [transactionJournalRecordInit 1 18 12, transactionJournalRecordInit 2 12 15]\<rparr>;
       dev = demo_ring_dev 10 20 13;
       p' = p\<lparr>jp_headLpa := 13, jp_curAvailLpa := 2 + 5\<rparr>;
       w = \<lparr>jt_proc = p, jt_env = journalProcessEnvInit, jt_dev = dev, jt_hooked = []\<rparr>
   in journalProcessorSyncWithSsdJournalPos dev p = Some (True, p') \<and>
     jt_hooked (journalProcessorProcessTxRecord (#) (w\<lparr>jt_proc := p'\<rparr>)) = [1]"
  using journalProcessor_reports_applied [where p = "(journalProcessorInit 0 JOURNAL_PROCESS_NEWLY_FETCHED 0 0 10 20 18)\<lparr>jp_tailLpa := 15,
      jp_curAvailLpa := 2, jp_txRecords := [transactionJournalRecordInit 1 18 12, transactionJournalRecordInit 2 12 15]\<rparr>"
    and x = 8 and ns = "[4, 3]" and k = 5 and dev = "demo_ring_dev 10 20 13" and hook = "(#)"
    and w = "\<lparr>jt_proc = (journalProcessorInit 0 JOURNAL_PROCESS_NEWLY_FETCHED 0 0 10 20 18)\<lparr>jp_tailLpa := 15, jp_curAvailLpa := 2,
      jp_txRecords := [transactionJournalRecordInit 1 18 12, transactionJournalRecordInit 2 12 15]\<rparr>,
      jt_env = journalProcessEnvInit, jt_dev = demo_ring_dev 10 20 13, jt_hooked = []\<rparr>"]
  by (simp add: journalProcessorInit_def demo_ring_dev_def jp_at_def transactionJournalRecordInit_def Let_def)

end
