(* ===== verification/Cow_Reclaim.thy ===== *)
theory Cow_Reclaim
  imports Node_Block_Cache
begin

text \<open>
  The registry of blocks that a copy-on-write commit replaces, \<^verbatim>\<open>src/src/fs/cow_reclaim_registry.c\<close>. The old blocks of a
  transaction stay live until the journal of the transaction is applied; then the next drain marks them dead and
  deletes the nodes. The global registry is a record; its pointer to the manager is the flag \<open>crg_bound\<close>, since
  there is one manager, the state that is passed along.
\<close>

subsection \<open>Records and operations\<close>

record CowReclaimRecord =
  crr_txId :: u64
  crr_dataLpas :: "u32 list"
  crr_nodeLpas :: "u32 list"
  crr_deletedHandles :: "nat option list"

record CowReclaimRegistry =
  crg_bound :: bool
  crg_pending :: "CowReclaimRecord list"
  crg_completed :: "CowReclaimRecord list"

fun cowReclaimRegistryFreeHandles :: "file_system_manager \<Rightarrow> nat option list \<Rightarrow> file_system_manager option" where
  "cowReclaimRegistryFreeHandles fs [] = Some fs"
| "cowReclaimRegistryFreeHandles fs (h # hs) = do {
     fs \<leftarrow> (case h of None \<Rightarrow> Some fs
            | Some a \<Rightarrow> do {
                fs \<leftarrow> nodeBlockCacheEntryHandleDeleteNode fs a;
                nodeBlockCacheEntryHandleDestroy fs (Some a)
              });
     cowReclaimRegistryFreeHandles fs hs
   }"

definition cowReclaimRegistryFreeRecord :: "file_system_manager \<Rightarrow> CowReclaimRecord \<Rightarrow> file_system_manager option" where
  "cowReclaimRegistryFreeRecord fs r = cowReclaimRegistryFreeHandles fs (crr_deletedHandles r)"

definition cowReclaimRegistryCopyLpas :: "u32 list \<Rightarrow> u32 list" where
  "cowReclaimRegistryCopyLpas src = map (\<lambda>i. src ! i) [0..<length src]"

fun cowReclaimRegistryCopyDeletedHandles ::
  "file_system_manager \<Rightarrow> nat option list \<Rightarrow> nat option list \<times> file_system_manager" where
  "cowReclaimRegistryCopyDeletedHandles fs [] = ([], fs)"
| "cowReclaimRegistryCopyDeletedHandles fs (h # hs) =
     (let (c, fs) = nodeBlockCacheEntryHandleCopy fs h; (cs, fs) = cowReclaimRegistryCopyDeletedHandles fs hs in (c # cs, fs))"

definition cowReclaimRegistryBuildRecord ::
  "file_system_manager \<Rightarrow> u64 \<Rightarrow> u32 list \<Rightarrow> u32 list \<Rightarrow> nat option list \<Rightarrow> CowReclaimRecord \<times> file_system_manager" where
  "cowReclaimRegistryBuildRecord fs tx_id data_lpas node_lpas deleted_handles =
     (let (hs, fs) = cowReclaimRegistryCopyDeletedHandles fs deleted_handles in
      (\<lparr>crr_txId = tx_id, crr_dataLpas = cowReclaimRegistryCopyLpas data_lpas,
        crr_nodeLpas = cowReclaimRegistryCopyLpas node_lpas, crr_deletedHandles = hs\<rparr>, fs))"

definition cowReclaimRegistryInit :: CowReclaimRegistry where
  "cowReclaimRegistryInit = \<lparr>crg_bound = True, crg_pending = [], crg_completed = []\<rparr>"

fun cowReclaimRegistryFreeRecords :: "file_system_manager \<Rightarrow> CowReclaimRecord list \<Rightarrow> file_system_manager option" where
  "cowReclaimRegistryFreeRecords fs [] = Some fs"
| "cowReclaimRegistryFreeRecords fs (r # rs) = do {
     fs \<leftarrow> cowReclaimRegistryFreeRecord fs r;
     cowReclaimRegistryFreeRecords fs rs
   }"

definition cowReclaimRegistryDestroy ::
  "CowReclaimRegistry \<Rightarrow> file_system_manager \<Rightarrow> (CowReclaimRegistry \<times> file_system_manager) option" where
  "cowReclaimRegistryDestroy g fs = do {
     fs \<leftarrow> cowReclaimRegistryFreeRecords fs (crg_pending g);
     fs \<leftarrow> cowReclaimRegistryFreeRecords fs (crg_completed g);
     Some (\<lparr>crg_bound = False, crg_pending = [], crg_completed = []\<rparr>, fs)
   }"

definition cowReclaimRegistryRegister ::
  "CowReclaimRegistry \<Rightarrow> file_system_manager \<Rightarrow> u64 \<Rightarrow> u32 list \<Rightarrow> u32 list \<Rightarrow> nat option list \<Rightarrow>
    rc \<times> CowReclaimRegistry \<times> file_system_manager" where
  "cowReclaimRegistryRegister g fs tx_id data_lpas node_lpas deleted_handles =
     (if \<not> crg_bound g then (RC0, g, fs)
      else if data_lpas = [] \<and> node_lpas = [] \<and> deleted_handles = [] then (RC0, g, fs)
      else let (r, fs) = cowReclaimRegistryBuildRecord fs tx_id data_lpas node_lpas deleted_handles
           in (RC0, g\<lparr>crg_pending := crg_pending g @ [r]\<rparr>, fs))"

definition cowReclaimRegistryRegisterCompleted ::
  "CowReclaimRegistry \<Rightarrow> file_system_manager \<Rightarrow> u32 list \<Rightarrow> u32 list \<Rightarrow> nat option list \<Rightarrow>
    rc \<times> CowReclaimRegistry \<times> file_system_manager" where
  "cowReclaimRegistryRegisterCompleted g fs data_lpas node_lpas deleted_handles =
     (if \<not> crg_bound g then (RC0, g, fs)
      else if data_lpas = [] \<and> node_lpas = [] \<and> deleted_handles = [] then (RC0, g, fs)
      else let (r, fs) = cowReclaimRegistryBuildRecord fs 0 data_lpas node_lpas deleted_handles
           in (RC0, g\<lparr>crg_completed := crg_completed g @ [r]\<rparr>, fs))"

text \<open>The walk over the pending list: a matching record moves to the end of the completed list.\<close>

fun cowReclaimRegistryMove ::
  "u64 \<Rightarrow> CowReclaimRecord list \<Rightarrow> CowReclaimRecord list \<Rightarrow> CowReclaimRecord list \<Rightarrow> CowReclaimRecord list \<times> CowReclaimRecord list" where
  "cowReclaimRegistryMove tx_id [] kept completed = (kept, completed)"
| "cowReclaimRegistryMove tx_id (r # rs) kept completed =
     (if crr_txId r = tx_id then cowReclaimRegistryMove tx_id rs kept (completed @ [r])
      else cowReclaimRegistryMove tx_id rs (kept @ [r]) completed)"

definition cowReclaimRegistryOnTxComplete :: "u64 \<Rightarrow> CowReclaimRegistry \<Rightarrow> CowReclaimRegistry" where
  "cowReclaimRegistryOnTxComplete tx_id g =
     (let (kept, completed) = cowReclaimRegistryMove tx_id (crg_pending g) [] (crg_completed g)
      in g\<lparr>crg_pending := kept, crg_completed := completed\<rparr>)"

definition cowReclaimRegistryTxCompleteHook :: "u64 \<Rightarrow> CowReclaimRegistry \<Rightarrow> CowReclaimRegistry" where
  "cowReclaimRegistryTxCompleteHook tx_id g = cowReclaimRegistryOnTxComplete tx_id g"

fun cowReclaimRegistryInvalidate :: "file_system_manager \<Rightarrow> SitOperator \<Rightarrow> u32 list \<Rightarrow> file_system_manager option" where
  "cowReclaimRegistryInvalidate fs sit_op [] = Some fs"
| "cowReclaimRegistryInvalidate fs sit_op (l # ls) = do {
     fs \<leftarrow> sitInvalidateLpa fs sit_op l;
     cowReclaimRegistryInvalidate fs sit_op ls
   }"

fun cowReclaimRegistryDrainLoop ::
  "file_system_manager \<Rightarrow> SitOperator \<Rightarrow> CowReclaimRecord list \<Rightarrow> file_system_manager option" where
  "cowReclaimRegistryDrainLoop fs sit_op [] = Some fs"
| "cowReclaimRegistryDrainLoop fs sit_op (r # rs) = do {
     fs \<leftarrow> cowReclaimRegistryInvalidate fs sit_op (crr_dataLpas r);
     fs \<leftarrow> cowReclaimRegistryInvalidate fs sit_op (crr_nodeLpas r);
     fs \<leftarrow> cowReclaimRegistryFreeRecord fs r;
     cowReclaimRegistryDrainLoop fs sit_op rs
   }"

definition cowReclaimRegistryDrainCompleted ::
  "CowReclaimRegistry \<Rightarrow> file_system_manager \<Rightarrow> (rc \<times> CowReclaimRegistry \<times> file_system_manager) option" where
  "cowReclaimRegistryDrainCompleted g fs =
     (if \<not> crg_bound g then Some (RC0, g, fs)
      else do {
        fs \<leftarrow> cowReclaimRegistryDrainLoop fs (sitOperatorInit fs) (crg_completed g);
        Some (RC0, g\<lparr>crg_completed := []\<rparr>, fs)
      })"

subsection \<open>Draining\<close>

abbreviation crr_lpas :: "CowReclaimRecord \<Rightarrow> u32 list" where
  "crr_lpas r \<equiv> crr_dataLpas r @ crr_nodeLpas r"

abbreviation real_lpas :: "u32 list \<Rightarrow> u32 list" where
  "real_lpas \<equiv> filter (\<lambda>l. l \<noteq> INVALID_LPA)"

lemma copy_lpas [simp]: "cowReclaimRegistryCopyLpas ls = ls"
  by (simp add: cowReclaimRegistryCopyLpas_def map_nth)

lemma move_filter:
  "cowReclaimRegistryMove tx rs kept done' = (kept @ filter (\<lambda>r. crr_txId r \<noteq> tx) rs, done' @ filter (\<lambda>r. crr_txId r = tx) rs)"
  by (induction rs arbitrary: kept done') auto

lemma invalidate_append:
  "cowReclaimRegistryInvalidate fs op (xs @ ys) = (cowReclaimRegistryInvalidate fs op xs \<bind> (\<lambda>fs. cowReclaimRegistryInvalidate fs op ys))"
  by (induction xs arbitrary: fs) (auto split: Option.bind_splits)

lemma sit_rounds_1: "sit_rounds op l 1 = 1"
proof -
  have "unat (l - seg0StartLpa op) mod 512 < 512" by simp
  then show ?thesis by (simp add: sit_rounds_def)
qed

lemma invalidate_spec:
  assumes "distinct (real_lpas ls)" and "\<forall>l \<in> set (real_lpas ls). lpa_live fs l \<and> sit_dev_ok fs l"
    and "sit_ready fs (n + length ls)"
  shows "\<exists>fs'. cowReclaimRegistryInvalidate fs (sitOperatorInit fs) ls = Some fs' \<and> sit_ready fs' n \<and>
    (\<forall>l. lpa_live fs' l \<longleftrightarrow> lpa_live fs l \<and> l \<notin> set (real_lpas ls)) \<and>
    fs' = fs\<lparr>sit_cache := sit_cache fs', cur_journal := (cur_journal fs)\<lparr>sitJournal := sitJournal (cur_journal fs')\<rparr>\<rparr>"
  using assms
proof (induction ls arbitrary: fs)
  case (Cons l ls)
  show ?case
  proof (cases "l = INVALID_LPA")
    case True
    have "sit_ready fs (n + length ls)"
      using Cons.prems(3) snc_ready_mono by fastforce
    with Cons.IH [of fs] Cons.prems True show ?thesis
      by (simp add: sitInvalidateLpa_def sitChangeLpaStateRange_def)
  next
    case False
    have one: "x - l < 1 \<longleftrightarrow> x = l" for x :: u32 by (simp add: word_less_1)
    have "sit_ready fs ((n + length ls) + sit_rounds (sitOperatorInit fs) l 1)"
      using Cons.prems(3) by (simp add: sit_rounds_1)
    from sitChangeLpaStateRange_spec [OF False this, of False] Cons.prems(2) False obtain fs1 where
      1: "sitInvalidateLpa fs (sitOperatorInit fs) l = Some fs1" "sit_ready fs1 (n + length ls)"
      "\<And>x. lpa_live fs1 x \<longleftrightarrow> lpa_live fs x \<and> x \<noteq> l"
      "fs1 = fs\<lparr>sit_cache := sit_cache fs1, cur_journal := (cur_journal fs)\<lparr>sitJournal := sitJournal (cur_journal fs1)\<rparr>\<rparr>"
      unfolding sitInvalidateLpa_def one by (auto split: if_splits)
    have sb: "super_blk_mem fs1 = super_blk_mem fs" "fs_dev fs1 = fs_dev fs"
      using arg_cong [OF 1(4), of super_blk_mem] arg_cong [OF 1(4), of fs_dev] by simp_all
    have f: "sitOperatorInit fs1 = sitOperatorInit fs" "sit_dev_ok fs1 = sit_dev_ok fs"
      by (simp_all add: sitOperatorInit_def sit_dev_ok_def sb fun_eq_iff)
    have "\<forall>x \<in> set (real_lpas ls). lpa_live fs1 x \<and> sit_dev_ok fs1 x"
      using Cons.prems(1,2) False by (auto simp: 1(3) f(2))
    with Cons.IH [of fs1] Cons.prems(1) False 1(2) obtain fs2 where
      2: "cowReclaimRegistryInvalidate fs1 (sitOperatorInit fs) ls = Some fs2" "sit_ready fs2 n"
      "\<forall>x. lpa_live fs2 x \<longleftrightarrow> lpa_live fs1 x \<and> x \<notin> set (real_lpas ls)"
      "fs2 = fs1\<lparr>sit_cache := sit_cache fs2, cur_journal := (cur_journal fs1)\<lparr>sitJournal := sitJournal (cur_journal fs2)\<rparr>\<rparr>"
      by (auto simp: f(1))
    have "fs2 = fs\<lparr>sit_cache := sit_cache fs2, cur_journal := (cur_journal fs)\<lparr>sitJournal := sitJournal (cur_journal fs2)\<rparr>\<rparr>"
      by (rule sit_frame_trans [OF 1(4) 2(4)])
    moreover have "\<forall>x. lpa_live fs2 x \<longleftrightarrow> lpa_live fs x \<and> x \<notin> set (real_lpas (l # ls))"
      using 2(3) 1(3) False by auto
    ultimately show ?thesis
      using 1(1) 2(1,2) by (intro exI [of _ fs2]) simp
  qed
qed (auto intro: exI)

text \<open>A block that is dead, or that comes twice, stops the drain at the assertion.\<close>

lemma invalidate_stuck:
  assumes "\<not> (distinct (real_lpas ls) \<and> (\<forall>l \<in> set (real_lpas ls). lpa_live fs l))" and "\<forall>l \<in> set (real_lpas ls). sit_dev_ok fs l"
    and "sit_ready fs (length ls)"
  shows "cowReclaimRegistryInvalidate fs (sitOperatorInit fs) ls = None"
  using assms
proof (induction ls arbitrary: fs)
  case (Cons l ls)
  have rdy: "sit_ready fs 1" "sit_ready fs (length ls)"
    using Cons.prems(3) snc_ready_mono [of _ _ "Suc (length ls)"] by auto
  consider "l = INVALID_LPA" | "l \<noteq> INVALID_LPA" "\<not> lpa_live fs l" | "l \<noteq> INVALID_LPA" "lpa_live fs l" by blast
  then show ?case
  proof cases
    case 1
    with Cons.IH [of fs] Cons.prems rdy show ?thesis by (simp add: sitInvalidateLpa_def sitChangeLpaStateRange_def)
  next
    case 2
    with sit_change_same [of l fs] Cons.prems(2) rdy(1) show ?thesis by (simp add: sitInvalidateLpa_def)
  next
    case 3
    then obtain fs1 where 1: "cowReclaimRegistryInvalidate fs (sitOperatorInit fs) [l] = Some fs1" "sit_ready fs1 (length ls)"
      "\<forall>x. lpa_live fs1 x \<longleftrightarrow> lpa_live fs x \<and> x \<notin> set (real_lpas [l])"
      "fs1 = fs\<lparr>sit_cache := sit_cache fs1, cur_journal := (cur_journal fs)\<lparr>sitJournal := sitJournal (cur_journal fs1)\<rparr>\<rparr>"
      using invalidate_spec [of "[l]" fs "length ls"] Cons.prems(2,3) by auto
    have sb: "super_blk_mem fs1 = super_blk_mem fs" "fs_dev fs1 = fs_dev fs"
      using arg_cong [OF 1(4), of super_blk_mem] arg_cong [OF 1(4), of fs_dev] by simp_all
    have f: "sitOperatorInit fs1 = sitOperatorInit fs" "sit_dev_ok fs1 = sit_dev_ok fs"
      by (simp_all add: sitOperatorInit_def sit_dev_ok_def sb fun_eq_iff)
    have "cowReclaimRegistryInvalidate fs1 (sitOperatorInit fs1) ls = None"
      by (rule Cons.IH) (use Cons.prems(1,2) 1(2,3) 3 in \<open>auto simp: f\<close>)
    with 1(1) f(1) show ?thesis by (auto split: Option.bind_splits)
  qed
qed simp

lemma drain_invalidate:
  assumes "\<forall>r \<in> set rs. crr_deletedHandles r = []"
  shows "cowReclaimRegistryDrainLoop fs op rs = cowReclaimRegistryInvalidate fs op (concat (map crr_lpas rs))"
  using assms by (induction rs arbitrary: fs)
    (auto simp: invalidate_append cowReclaimRegistryFreeRecord_def intro!: Option.bind_cong)

subsection \<open>Sequences of calls\<close>

text \<open>
  What a client and the journal thread do with the registry between two drains, for registrations that hand over replaced blocks and no
  deleted nodes. The blocks that are due: those handed over as completed, and those registered with a transaction that
  completed afterwards.
\<close>

datatype crg_event = EvRegister u64 "u32 list" "u32 list" | EvRegisterCompleted "u32 list" "u32 list" | EvTxComplete u64

fun crg_step :: "crg_event \<Rightarrow> CowReclaimRegistry \<times> file_system_manager \<Rightarrow> CowReclaimRegistry \<times> file_system_manager" where
  "crg_step (EvRegister tx ds ns) (g, fs) = snd (cowReclaimRegistryRegister g fs tx ds ns [])"
| "crg_step (EvRegisterCompleted ds ns) (g, fs) = snd (cowReclaimRegistryRegisterCompleted g fs ds ns [])"
| "crg_step (EvTxComplete tx) (g, fs) = (cowReclaimRegistryTxCompleteHook tx g, fs)"

fun crg_due :: "crg_event list \<Rightarrow> u32 list" where
  "crg_due [] = []"
| "crg_due (EvRegister tx ds ns # evs) = (if EvTxComplete tx \<in> set evs then ds @ ns else []) @ crg_due evs"
| "crg_due (EvRegisterCompleted ds ns # evs) = ds @ ns @ crg_due evs"
| "crg_due (EvTxComplete tx # evs) = crg_due evs"

abbreviation crg_lpas :: "CowReclaimRecord list \<Rightarrow> u32 list" where
  "crg_lpas rs \<equiv> concat (map crr_lpas rs)"

abbreviation crg_plain :: "CowReclaimRegistry \<Rightarrow> bool" where
  "crg_plain g \<equiv> crg_bound g \<and> (\<forall>r \<in> set (crg_completed g @ crg_pending g). crr_deletedHandles r = [])"

lemma mset_filter_split:
  "mset (crg_lpas (filter P rs)) = mset (crg_lpas (filter Q rs)) + mset (crg_lpas (filter P (filter (\<lambda>r. \<not> Q r) rs)))"
  if "\<And>r. Q r \<Longrightarrow> P r"
  using that by (induction rs) auto

text \<open>The completed list holds what is due, each block as often as it is due.\<close>

lemma crg_run_spec:
  assumes "crg_plain g" and "fold crg_step evs (g, fs) = (g', fs')"
  shows "fs' = fs \<and> crg_plain g' \<and>
    mset (crg_lpas (crg_completed g')) = mset (crg_lpas (crg_completed g)) +
      mset (crg_lpas (filter (\<lambda>r. EvTxComplete (crr_txId r) \<in> set evs) (crg_pending g))) + mset (crg_due evs)"
  using assms
proof (induction evs arbitrary: g fs)
  case (Cons ev evs)
  obtain g1 fs1 where s: "crg_step ev (g, fs) = (g1, fs1)" by fastforce
  have st: "fs1 = fs" "crg_plain g1"
    using s Cons.prems(1) by (cases ev; auto simp: cowReclaimRegistryRegister_def cowReclaimRegistryRegisterCompleted_def
        cowReclaimRegistryBuildRecord_def cowReclaimRegistryTxCompleteHook_def cowReclaimRegistryOnTxComplete_def move_filter split: if_splits)+
  have run: "fold crg_step evs (g1, fs1) = (g', fs')" using Cons.prems(2) s by simp
  note ih = Cons.IH [OF st(2) run]
  have "mset (crg_lpas (crg_completed g1)) + mset (crg_lpas (filter (\<lambda>r. EvTxComplete (crr_txId r) \<in> set evs) (crg_pending g1))) + mset (crg_due evs) =
    mset (crg_lpas (crg_completed g)) + mset (crg_lpas (filter (\<lambda>r. EvTxComplete (crr_txId r) \<in> set (ev # evs)) (crg_pending g))) + mset (crg_due (ev # evs))"
  proof (cases ev)
    case (EvTxComplete tx)
    then have g1: "crg_completed g1 = crg_completed g @ filter (\<lambda>r. crr_txId r = tx) (crg_pending g)"
      "crg_pending g1 = filter (\<lambda>r. crr_txId r \<noteq> tx) (crg_pending g)"
      using s by (auto simp: cowReclaimRegistryTxCompleteHook_def cowReclaimRegistryOnTxComplete_def move_filter)
    have "filter (\<lambda>r. EvTxComplete (crr_txId r) \<in> set (ev # evs)) (filter (\<lambda>r. crr_txId r \<noteq> tx) (crg_pending g)) =
        filter (\<lambda>r. EvTxComplete (crr_txId r) \<in> set evs) (filter (\<lambda>r. crr_txId r \<noteq> tx) (crg_pending g))"
      using EvTxComplete by (intro filter_cong) auto
    with mset_filter_split [of "\<lambda>r. crr_txId r = tx" "\<lambda>r. EvTxComplete (crr_txId r) \<in> set (ev # evs)" "crg_pending g"] EvTxComplete
    show ?thesis unfolding g1 by simp
  qed (use s Cons.prems(1) in \<open>auto simp: cowReclaimRegistryRegister_def cowReclaimRegistryRegisterCompleted_def
      cowReclaimRegistryBuildRecord_def split: if_splits\<close>)
  with ih st(1) show ?case by simp
qed auto

text \<open>
  Claim C25. Old blocks are freed exactly when their transaction is applied. After any sequence of registrations of replaced
  data and node blocks, without deleted nodes, and of completions of transactions, let the due blocks be those handed over as completed
  and those whose transaction completed after they were registered; their SIT blocks can be read and the SIT cache has room for them. When the due blocks are live and pairwise distinct, a drain returns and marks dead
  exactly these; every other block keeps its state, the change is journalled by the SIT operations and nothing
  else of the file system changes. When a due block is dead, or was registered twice, the drain hits the assertion of the SIT operations and does not return.
\<close>

theorem cowReclaim_frees_completed:
  assumes "fold crg_step evs (cowReclaimRegistryInit, fs) = (g, fs1)"
    and "\<forall>l \<in> set (real_lpas (crg_due evs)). sit_dev_ok fs l" and "sit_ready fs (n + length (crg_due evs))"
  shows "if distinct (real_lpas (crg_due evs)) \<and> (\<forall>l \<in> set (real_lpas (crg_due evs)). lpa_live fs l)
    then \<exists>fs'. cowReclaimRegistryDrainCompleted g fs1 = Some (RC0, g\<lparr>crg_completed := []\<rparr>, fs') \<and>
      (\<forall>l. lpa_live fs' l \<longleftrightarrow> lpa_live fs l \<and> l \<notin> set (real_lpas (crg_due evs))) \<and> sit_ready fs' n \<and>
      fs' = fs\<lparr>sit_cache := sit_cache fs', cur_journal := (cur_journal fs)\<lparr>sitJournal := sitJournal (cur_journal fs')\<rparr>\<rparr>
    else cowReclaimRegistryDrainCompleted g fs1 = None"
proof -
  have "crg_plain cowReclaimRegistryInit" by (simp add: cowReclaimRegistryInit_def)
  from crg_run_spec [OF this assms(1)] have r: "fs1 = fs" "crg_plain g" "mset (crg_lpas (crg_completed g)) = mset (crg_due evs)"
    by (auto simp: cowReclaimRegistryInit_def)
  let ?xs = "crg_lpas (crg_completed g)" and ?ys = "crg_due evs"
  have m: "mset (real_lpas ?xs) = mset (real_lpas ?ys)"
    using arg_cong [OF r(3), of "filter_mset (\<lambda>l. l \<noteq> INVALID_LPA)"] by (simp only: mset_filter)
  have same: "set (real_lpas ?xs) = set (real_lpas ?ys)" "distinct (real_lpas ?xs) = distinct (real_lpas ?ys)" "length ?xs = length ?ys"
    using mset_eq_setD [OF m] mset_eq_imp_distinct_iff [OF m] mset_eq_length [OF r(3)] by blast+
  have drain: "cowReclaimRegistryDrainCompleted g fs1 =
      (cowReclaimRegistryInvalidate fs (sitOperatorInit fs) ?xs \<bind> (\<lambda>fs. Some (RC0, g\<lparr>crg_completed := []\<rparr>, fs)))"
    using r(1,2) by (simp add: cowReclaimRegistryDrainCompleted_def drain_invalidate)
  have rdy: "sit_ready fs (n + length ?xs)" "sit_ready fs (length ?xs)"
    using assms(3) same(3) snc_ready_mono [of _ _ "n + length ?xs"] by auto
  show ?thesis
  proof (cases "distinct (real_lpas ?ys) \<and> (\<forall>l \<in> set (real_lpas ?ys). lpa_live fs l)")
    case True
    from invalidate_spec [OF _ _ rdy(1)] True assms(2) show ?thesis
      unfolding drain same [symmetric] by auto
  next
    case False
    from invalidate_stuck [OF _ _ rdy(2)] False assms(2) show ?thesis
      unfolding drain same [symmetric] by auto
  qed
qed

text \<open>
  The witness registers three blocks for two transactions, the first of which completes, and one block twice. The demo file system has
  the blocks 100, 101 and 102 live (bits 0 to 2 of segment 0, whose SIT entry starts block 10).
\<close>

definition demo_reclaim_fs :: file_system_manager where
  "demo_reclaim_fs = demo_fs\<lparr>fs_dev := demo_dev\<lparr>media := (\<lambda>_. zero_block)(80 := zero_block(4 := 7))\<rparr>\<rparr>"

theorem cowReclaim_frees_completed_witness:
  "(\<exists>g fs'. fold crg_step [EvRegister 1 [100] [101], EvRegister 2 [] [102], EvTxComplete 1] (cowReclaimRegistryInit, demo_reclaim_fs) =
      (g, demo_reclaim_fs) \<and>
    cowReclaimRegistryDrainCompleted g demo_reclaim_fs = Some (RC0, g\<lparr>crg_completed := []\<rparr>, fs') \<and>
    \<not> lpa_live fs' 100 \<and> \<not> lpa_live fs' 101 \<and> lpa_live fs' 102) \<and>
   (\<exists>g. fold crg_step [EvRegister 1 [100] [], EvRegister 1 [100] [], EvTxComplete 1] (cowReclaimRegistryInit, demo_reclaim_fs) = (g, demo_reclaim_fs) \<and>
    cowReclaimRegistryDrainCompleted g demo_reclaim_fs = None)"
proof -
  let ?evs = "[EvRegister 1 [100] [101], EvRegister 2 [] [102], EvTxComplete 1]"
  let ?twice = "[EvRegister 1 [100] [], EvRegister 1 [100] [], EvTxComplete 1]"
  obtain g g2 where g: "fold crg_step ?evs (cowReclaimRegistryInit, demo_reclaim_fs) = (g, demo_reclaim_fs)"
    and g2: "fold crg_step ?twice (cowReclaimRegistryInit, demo_reclaim_fs) = (g2, demo_reclaim_fs)"
    by (auto simp: cowReclaimRegistryRegister_def cowReclaimRegistryBuildRecord_def cowReclaimRegistryInit_def)
  have sb: "sb32 demo_reclaim_fs = sb32 demo_fs" "sit_cache demo_reclaim_fs = sitNatCacheInit 100"
    by (simp_all add: demo_reclaim_fs_def fun_eq_iff demo_fs_def)
  have "sit_entry_of demo_reclaim_fs 0 = getSitEntry (zero_block(4 := 7)) 0"
    by (simp add: sit_entry_of_def snc_view_def sb snc_init(2) demo_sb LPA_TO_LBA32_def) (simp add: demo_reclaim_fs_def)
  then have live: "lpa_live demo_reclaim_fs l" if "l \<in> {100, 101, 102}" for l
    using that by (auto simp: lpa_live_def Let_def sb demo_sb sit_bit_def getSitEntry_def)
  have dev: "sit_dev_ok demo_reclaim_fs l" if "l \<in> {100, 101, 102}" for l
    using that demo_dev_ok [of 10] by (auto simp: sit_dev_ok_def sb demo_sb demo_reclaim_fs_def)
  have rdy: "sit_ready demo_reclaim_fs (0 + length (crg_due evs))" if "length (crg_due evs) \<le> 2" for evs
    using that by (simp add: sb snc_ready_init)
  from cowReclaim_frees_completed [OF g _ rdy] live dev have "\<exists>fs'. cowReclaimRegistryDrainCompleted g demo_reclaim_fs =
      Some (RC0, g\<lparr>crg_completed := []\<rparr>, fs') \<and> (\<forall>l. lpa_live fs' l \<longleftrightarrow> lpa_live demo_reclaim_fs l \<and> l \<notin> {100, 101})"
    by auto
  moreover from cowReclaim_frees_completed [OF g2 _ rdy] dev have "cowReclaimRegistryDrainCompleted g2 demo_reclaim_fs = None"
    by simp
  ultimately show ?thesis using g g2 live by auto
qed

end
