(* ===== verification/File_Map.thy ===== *)
theory File_Map
  imports Node_Cache_Spec Page_Cache
begin

text \<open>
  The block map of a regular file, the first part of \<^verbatim>\<open>src/src/file_inode/file_inode.c\<close>: the run-time inode, its
  metadata, and the translation of a block index of the file into an LPA through the inode (932 addresses), two
  direct nodes, two indirect nodes and one double indirect node (1020 entries each). \<^verbatim>\<open>disk_inode\<close> points into
  the node block that the handle \<open>fi_handle\<close> keeps cached. The content of the \<open>i\<close>-th fresh block buffer of a call is \<open>junk i\<close>.
\<close>

subsection \<open>The run-time inode\<close>

abbreviation (input) RTFS_FT_REG_FILE :: u32 where "RTFS_FT_REG_FILE \<equiv> 1"
abbreviation (input) RTFS_FT_DIR :: u32 where "RTFS_FT_DIR \<equiv> 2"
abbreviation (input) DEF_ADDRS_PER_INODE :: u32 where "DEF_ADDRS_PER_INODE \<equiv> 932"
abbreviation (input) DEF_ADDRS_PER_BLOCK :: u32 where "DEF_ADDRS_PER_BLOCK \<equiv> 1020"
abbreviation (input) NIDS_PER_BLOCK :: u32 where "NIDS_PER_BLOCK \<equiv> 1020"
abbreviation (input) NODE_IND1_BLOCK :: u32 where "NODE_IND1_BLOCK \<equiv> 935"
abbreviation (input) NODE_DIND_BLOCK :: u32 where "NODE_DIND_BLOCK \<equiv> 937"

text \<open>Members of \<^verbatim>\<open>struct RtfsInode\<close> in a node block, by their offsets.\<close>

abbreviation (input) I_mode :: nat where "I_mode \<equiv> 0"
abbreviation (input) I_type :: nat where "I_type \<equiv> 4"
abbreviation (input) I_nlink :: nat where "I_nlink \<equiv> 8"
abbreviation (input) I_atime_nsec :: nat where "I_atime_nsec \<equiv> 12"
abbreviation (input) I_ctime_nsec :: nat where "I_ctime_nsec \<equiv> 16"
abbreviation (input) I_mtime_nsec :: nat where "I_mtime_nsec \<equiv> 20"
abbreviation (input) I_size :: nat where "I_size \<equiv> 24"
abbreviation (input) I_atime :: nat where "I_atime \<equiv> 40"
abbreviation (input) I_mtime :: nat where "I_mtime \<equiv> 56"
abbreviation I_addr :: "u32 \<Rightarrow> nat" where "I_addr i \<equiv> 332 + 4 * unat i"
abbreviation I_nid :: "u32 \<Rightarrow> nat" where "I_nid i \<equiv> 4060 + 4 * unat i"

text \<open>An entry of a direct node (an LPA) or of an indirect node (a nid).\<close>

abbreviation N_slot :: "u32 \<Rightarrow> nat" where "N_slot i \<equiv> 4 * unat i"

record RtfsFilePendingDataCowRelocation =
  pr_block_index :: u32
  pr_old_lpa :: u32
  pr_new_lpa :: u32

record RtfsFileInode =
  fi_ino :: u64
  fi_file_type :: u8
  fi_size :: u64
  fi_mode :: u16
  fi_nlink :: u32
  fi_atime :: u64
  fi_mtime :: u64
  fi_atime_nsec :: u32
  fi_mtime_nsec :: u32
  fi_ctime_nsec :: u32
  fi_handle :: "nat option"
  fi_page_cache :: PageCache
  fi_relocations :: "RtfsFilePendingDataCowRelocation list"
  fi_truncate_old_lpas :: "u32 list"
  fi_is_dirty :: bool

abbreviation nb_node :: "file_system_manager \<Rightarrow> nat \<Rightarrow> block" where
  "nb_node fs a \<equiv> nbe_node (nb_entry fs a)"

abbreviation nb_put32 :: "file_system_manager \<Rightarrow> nat \<Rightarrow> nat \<Rightarrow> u32 \<Rightarrow> file_system_manager" where
  "nb_put32 fs a off v \<equiv> nb_set fs a ((nb_entry fs a)\<lparr>nbe_node := put32 (nb_node fs a) off v\<rparr>)"

definition rtfsCreateFileInode :: "(nat \<Rightarrow> PageEntry) \<Rightarrow> u64 \<Rightarrow> RtfsFileInode" where
  "rtfsCreateFileInode heap ino =
     \<lparr>fi_ino = ino, fi_file_type = ucast RTFS_FT_REG_FILE, fi_size = 0, fi_mode = 0, fi_nlink = 0, fi_atime = 0, fi_mtime = 0,
      fi_atime_nsec = 0, fi_mtime_nsec = 0, fi_ctime_nsec = 0, fi_handle = None, fi_page_cache = pageCacheInit 64 heap,
      fi_relocations = [], fi_truncate_old_lpas = [], fi_is_dirty = False\<rparr>"

definition rtfsFileInodeClearPendingCowState :: "RtfsFileInode \<Rightarrow> RtfsFileInode" where
  "rtfsFileInodeClearPendingCowState fi = fi\<lparr>fi_relocations := [], fi_truncate_old_lpas := []\<rparr>"

definition rtfsDestroyFileInode :: "file_system_manager \<Rightarrow> RtfsFileInode \<Rightarrow> file_system_manager option" where
  "rtfsDestroyFileInode fs fi = do {
     let fi = rtfsFileInodeClearPendingCowState fi;
     _ \<leftarrow> pageCacheDestroy (fi_page_cache fi);
     nodeBlockCacheEntryHandleDestroy fs (fi_handle fi)
   }"

definition rtfsFileInodeBuildMetadata :: "RtfsFileInode \<Rightarrow> block \<Rightarrow> RtfsFileInode" where
  "rtfsFileInodeBuildMetadata fi node =
     fi\<lparr>fi_file_type := ucast (get32 node I_type), fi_size := get64 node I_size, fi_mode := get16 node I_mode,
        fi_nlink := get32 node I_nlink, fi_atime := get64 node I_atime, fi_mtime := get64 node I_mtime,
        fi_atime_nsec := get32 node I_atime_nsec, fi_mtime_nsec := get32 node I_mtime_nsec,
        fi_ctime_nsec := get32 node I_ctime_nsec, fi_is_dirty := False\<rparr>"

text \<open>A member of the node that the cache does not hold is an error: the caller loads it first.\<close>

definition rtfsFileInodeBuildFromCache ::
  "file_system_manager \<Rightarrow> RtfsFileInode \<Rightarrow> u64 \<Rightarrow> (rc \<times> RtfsFileInode \<times> file_system_manager) option" where
  "rtfsFileInodeBuildFromCache fs fi ino = do {
     (node_handle, fs) \<leftarrow> nodeBlockCacheGet fs (ucast ino);
     case node_handle of
       None \<Rightarrow> Some (ENOENT, fi, fs)
     | Some a \<Rightarrow>
         let node = nb_node fs a in
         if ucast (get32 node NF_ino) \<noteq> ino \<or> ucast (get32 node NF_nid) \<noteq> ino \<or> get32 node I_type \<noteq> RTFS_FT_REG_FILE then do {
           fs \<leftarrow> nodeBlockCacheEntryHandleDestroy fs node_handle;
           Some (EINVAL, fi, fs)
         } else Some (RC0, rtfsFileInodeBuildMetadata (fi\<lparr>fi_handle := node_handle\<rparr>) node, fs)
   }"

definition rtfsFileInodeBuild ::
  "(nat \<Rightarrow> PageEntry) \<Rightarrow> file_system_manager \<Rightarrow> u64 \<Rightarrow> (rc \<times> RtfsFileInode option \<times> file_system_manager) option" where
  "rtfsFileInodeBuild heap fs ino = do {
     (ret, fi, fs) \<leftarrow> rtfsFileInodeBuildFromCache fs (rtfsCreateFileInode heap ino) ino;
     if ret \<noteq> RC0 then do { fs \<leftarrow> rtfsDestroyFileInode fs fi; Some (ret, None, fs) }
     else Some (RC0, Some fi, fs)
   }"

definition rtfsFileInodePut :: "file_system_manager \<Rightarrow> RtfsFileInode \<Rightarrow> file_system_manager option" where
  "rtfsFileInodePut fs fi = rtfsDestroyFileInode fs fi"

definition rtfsFileInodeGetSize :: "RtfsFileInode \<Rightarrow> u64" where
  "rtfsFileInodeGetSize fi = fi_size fi"

definition rtfsFileInodeSyncMetadataToDisk ::
  "file_system_manager \<Rightarrow> RtfsFileInode \<Rightarrow> (rc \<times> RtfsFileInode \<times> file_system_manager) option" where
  "rtfsFileInodeSyncMetadataToDisk fs fi =
     (case fi_handle fi of
        None \<Rightarrow> Some (EINVAL, fi, fs)
      | Some a \<Rightarrow>
          let b = nb_node fs a;
              b = put32 b I_type (ucast (fi_file_type fi));
              b = put64 b I_size (fi_size fi);
              b = put16 b I_mode (fi_mode fi);
              b = put32 b I_nlink (fi_nlink fi);
              b = put64 b I_atime (fi_atime fi);
              b = put64 b I_mtime (fi_mtime fi);
              b = put32 b I_atime_nsec (fi_atime_nsec fi);
              b = put32 b I_mtime_nsec (fi_mtime_nsec fi);
              b = put32 b I_ctime_nsec (fi_ctime_nsec fi)
          in do {
            fs \<leftarrow> nodeBlockCacheEntryHandleMarkDirty (nb_set fs a ((nb_entry fs a)\<lparr>nbe_node := b\<rparr>)) a;
            Some (RC0, fi\<lparr>fi_is_dirty := False\<rparr>, fs)
          })"

definition rtfsFileInodeTouchModifyTime :: "RtfsFileInode \<Rightarrow> RtfsFileInode" where
  "rtfsFileInodeTouchModifyTime fi =
     fi\<lparr>fi_mtime := fi_mtime fi + 1, fi_mtime_nsec := 0, fi_ctime_nsec := 0, fi_is_dirty := True\<rparr>"

definition rtfsFileInodeTouchAccessTime :: "RtfsFileInode \<Rightarrow> RtfsFileInode" where
  "rtfsFileInodeTouchAccessTime fi = fi\<lparr>fi_atime := fi_atime fi + 1, fi_atime_nsec := 0, fi_is_dirty := True\<rparr>"

subsection \<open>Looking up a block\<close>

definition rtfsFileGetCachedNodeByNid ::
  "block \<Rightarrow> file_system_manager \<Rightarrow> u32 \<Rightarrow> u32 \<Rightarrow> (rc \<times> nat \<times> file_system_manager) option" where
  "rtfsFileGetCachedNodeByNid junk fs nid parent_nid =
     (if nid = INVALID_NID then Some (EINVAL, 0, fs)
      else do {
        (node_handle, fs) \<leftarrow> nodeBlockCacheGet fs nid;
        case node_handle of
          Some a \<Rightarrow> Some (RC0, a, fs)
        | None \<Rightarrow> do {
            (ret, node_handle, fs) \<leftarrow> nodeBlockCacheHelperGetNodeEntry junk junk fs nid parent_nid;
            if ret \<noteq> RC0 then Some (EIO, 0, fs)
            else (case node_handle of None \<Rightarrow> Some (ENOENT, 0, fs) | Some a \<Rightarrow> Some (RC0, a, fs))
          }
      })"

text \<open>
  The last step of every lookup behind the inode: load the direct node, read the address, drop the handle.
\<close>

definition rtfsFileReadDirectNode ::
  "block \<Rightarrow> file_system_manager \<Rightarrow> u32 \<Rightarrow> u32 \<Rightarrow> u32 \<Rightarrow> (rc \<times> u32 \<times> file_system_manager) option" where
  "rtfsFileReadDirectNode junk fs nid parent_nid direct_node_offset = do {
     (ret, d, fs) \<leftarrow> rtfsFileGetCachedNodeByNid junk fs nid parent_nid;
     if ret \<noteq> RC0 then Some (ret, INVALID_LPA, fs)
     else do {
       let lpa = get32 (nb_node fs d) (N_slot direct_node_offset);
       fs \<leftarrow> nodeBlockCacheEntryHandleDestroy fs (Some d);
       Some (RC0, lpa, fs)
     }
   }"

text \<open>The direct node is loaded while the handle of its parent is held; the parent's handle is dropped before the read.\<close>

definition rtfsFileReadViaIndirectNode ::
  "block \<Rightarrow> file_system_manager \<Rightarrow> nat \<Rightarrow> u32 \<Rightarrow> u32 \<Rightarrow> (rc \<times> u32 \<times> file_system_manager) option" where
  "rtfsFileReadViaIndirectNode junk fs p direct_node_slot direct_node_offset =
     (let nid = get32 (nb_node fs p) (N_slot direct_node_slot) in
      if nid = INVALID_NID then do {
        fs \<leftarrow> nodeBlockCacheEntryHandleDestroy fs (Some p);
        Some (RC0, INVALID_LPA, fs)
      } else do {
        (ret, d, fs) \<leftarrow> rtfsFileGetCachedNodeByNid junk fs nid (get32 (nb_node fs p) NF_nid);
        fs \<leftarrow> nodeBlockCacheEntryHandleDestroy fs (Some p);
        if ret \<noteq> RC0 then Some (ret, INVALID_LPA, fs)
        else do {
          let lpa = get32 (nb_node fs d) (N_slot direct_node_offset);
          fs \<leftarrow> nodeBlockCacheEntryHandleDestroy fs (Some d);
          Some (RC0, lpa, fs)
        }
      })"

definition rtfsFileResolveDirect ::
  "block \<Rightarrow> file_system_manager \<Rightarrow> RtfsFileInode \<Rightarrow> nat \<Rightarrow> u32 \<Rightarrow> (rc \<times> u32 \<times> file_system_manager) option" where
  "rtfsFileResolveDirect junk fs fi h direct_block_index =
     (let direct_node_slot = direct_block_index div DEF_ADDRS_PER_BLOCK;
          direct_node_offset = direct_block_index mod DEF_ADDRS_PER_BLOCK;
          nid = get32 (nb_node fs h) (I_nid direct_node_slot) in
      if nid = INVALID_NID then Some (RC0, INVALID_LPA, fs)
      else rtfsFileReadDirectNode junk fs nid (ucast (fi_ino fi)) direct_node_offset)"

definition rtfsFileResolveIndirect ::
  "block \<Rightarrow> file_system_manager \<Rightarrow> RtfsFileInode \<Rightarrow> nat \<Rightarrow> u32 \<Rightarrow> (rc \<times> u32 \<times> file_system_manager) option" where
  "rtfsFileResolveIndirect junk fs fi h indirect_block_index =
     (let indirect_node_slot = indirect_block_index div (NIDS_PER_BLOCK * DEF_ADDRS_PER_BLOCK);
          indirect_node_offset = indirect_block_index mod (NIDS_PER_BLOCK * DEF_ADDRS_PER_BLOCK);
          direct_node_slot = indirect_node_offset div DEF_ADDRS_PER_BLOCK;
          direct_node_offset = indirect_node_offset mod DEF_ADDRS_PER_BLOCK;
          nid = get32 (nb_node fs h) (I_nid (2 + indirect_node_slot)) in
      if nid = INVALID_NID then Some (RC0, INVALID_LPA, fs)
      else do {
        (ret, p, fs) \<leftarrow> rtfsFileGetCachedNodeByNid junk fs nid (ucast (fi_ino fi));
        if ret \<noteq> RC0 then Some (ret, INVALID_LPA, fs)
        else rtfsFileReadViaIndirectNode junk fs p direct_node_slot direct_node_offset
      })"

definition rtfsFileResolveDoubleIndirect ::
  "block \<Rightarrow> file_system_manager \<Rightarrow> RtfsFileInode \<Rightarrow> nat \<Rightarrow> u32 \<Rightarrow> (rc \<times> u32 \<times> file_system_manager) option" where
  "rtfsFileResolveDoubleIndirect junk fs fi h double_indirect_block_index =
     (let nid = get32 (nb_node fs h) (I_nid 4);
          first_level_slot = double_indirect_block_index div (NIDS_PER_BLOCK * DEF_ADDRS_PER_BLOCK);
          double_indirect_offset = double_indirect_block_index mod (NIDS_PER_BLOCK * DEF_ADDRS_PER_BLOCK);
          second_level_slot = double_indirect_offset div DEF_ADDRS_PER_BLOCK;
          direct_node_offset = double_indirect_offset mod DEF_ADDRS_PER_BLOCK in
      if nid = INVALID_NID then Some (RC0, INVALID_LPA, fs)
      else do {
        (ret, d, fs) \<leftarrow> rtfsFileGetCachedNodeByNid junk fs nid (ucast (fi_ino fi));
        if ret \<noteq> RC0 then Some (ret, INVALID_LPA, fs)
        else
          let nid1 = get32 (nb_node fs d) (N_slot first_level_slot) in
          if nid1 = INVALID_NID then do {
            fs \<leftarrow> nodeBlockCacheEntryHandleDestroy fs (Some d);
            Some (RC0, INVALID_LPA, fs)
          } else do {
            (ret, p, fs) \<leftarrow> rtfsFileGetCachedNodeByNid junk fs nid1 (get32 (nb_node fs d) NF_nid);
            fs \<leftarrow> nodeBlockCacheEntryHandleDestroy fs (Some d);
            if ret \<noteq> RC0 then Some (ret, INVALID_LPA, fs)
            else rtfsFileReadViaIndirectNode junk fs p second_level_slot direct_node_offset
          }
      })"

definition rtfsFileResolveDataLpaByBlockIndex ::
  "block \<Rightarrow> file_system_manager \<Rightarrow> RtfsFileInode \<Rightarrow> u32 \<Rightarrow> (rc \<times> u32 \<times> file_system_manager) option" where
  "rtfsFileResolveDataLpaByBlockIndex junk fs fi block_index =
     (case fi_handle fi of
        None \<Rightarrow> Some (EINVAL, INVALID_LPA, fs)
      | Some h \<Rightarrow>
          if block_index < DEF_ADDRS_PER_INODE then Some (RC0, get32 (nb_node fs h) (I_addr block_index), fs)
          else let direct_block_index = block_index - DEF_ADDRS_PER_INODE in
            if direct_block_index < 2 * DEF_ADDRS_PER_BLOCK then rtfsFileResolveDirect junk fs fi h direct_block_index
            else let indirect_block_index = direct_block_index - 2 * DEF_ADDRS_PER_BLOCK in
              if indirect_block_index < 2 * NIDS_PER_BLOCK * DEF_ADDRS_PER_BLOCK then
                rtfsFileResolveIndirect junk fs fi h indirect_block_index
              else let double_indirect_block_index = indirect_block_index - 2 * NIDS_PER_BLOCK * DEF_ADDRS_PER_BLOCK in
                if double_indirect_block_index < NIDS_PER_BLOCK * NIDS_PER_BLOCK * DEF_ADDRS_PER_BLOCK then
                  rtfsFileResolveDoubleIndirect junk fs fi h double_indirect_block_index
                else Some (ENOSYS, INVALID_LPA, fs))"

subsection \<open>Changing a block\<close>

definition rtfsFileInodeInitCreatedDirectNode :: "block \<Rightarrow> block" where
  "rtfsFileInodeInitCreatedDirectNode node = fold (\<lambda>i b. put32 b (4 * i) INVALID_LPA) [0..<1020] node"

definition rtfsFileInodeInitCreatedIndirectNode :: "block \<Rightarrow> block" where
  "rtfsFileInodeInitCreatedIndirectNode node = fold (\<lambda>i b. put32 b (4 * i) INVALID_NID) [0..<1020] node"

text \<open>
  The child node in a slot (a byte offset \<open>slot\<close>) of the node \<open>p\<close>, loaded or, for a valid new LPA, created: the block that the
  source repeats for every level. \<open>FI_STOP\<close> is an early return; a clear of a missing node needs no node.
\<close>

datatype fi_child = FI_CHILD nat | FI_STOP rc

definition rtfsFileChildNode ::
  "block \<Rightarrow> file_system_manager \<Rightarrow> u64 \<Rightarrow> nat \<Rightarrow> nat \<Rightarrow> u32 \<Rightarrow> u32 \<Rightarrow> (block \<Rightarrow> block) \<Rightarrow> u32 \<Rightarrow> bool \<Rightarrow>
    (fi_child \<times> file_system_manager) option" where
  "rtfsFileChildNode junk fs ino p slot noffset parent_nid init new_lpa create_missing_nodes =
     (let nid = get32 (nb_node fs p) slot in
      if nid = INVALID_NID then
        if new_lpa = INVALID_LPA then Some (FI_STOP RC0, fs)
        else if \<not> create_missing_nodes then Some (FI_STOP ENOENT, fs)
        else do {
          (created_handle, fs) \<leftarrow> nodeBlockCacheHelperCreateNodeEntry junk junk fs (ucast ino) noffset parent_nid;
          case created_handle of
            None \<Rightarrow> Some (FI_STOP ENOSPC, fs)
          | Some c \<Rightarrow> do {
              let fs = nb_set fs c ((nb_entry fs c)\<lparr>nbe_node := init (nb_node fs c)\<rparr>);
              fs \<leftarrow> nodeBlockCacheEntryHandleMarkDirty (nb_put32 fs p slot (get32 (nb_node fs c) NF_nid)) p;
              Some (FI_CHILD c, fs)
            }
        }
      else do {
        (ret, c, fs) \<leftarrow> rtfsFileGetCachedNodeByNid junk fs nid parent_nid;
        Some (if ret \<noteq> RC0 then FI_STOP ret else FI_CHILD c, fs)
      })"

text \<open>Below the inode the handle of the parent is dropped on every path.\<close>

definition rtfsFileChildOfNode ::
  "block \<Rightarrow> file_system_manager \<Rightarrow> u64 \<Rightarrow> nat \<Rightarrow> u32 \<Rightarrow> (block \<Rightarrow> block) \<Rightarrow> u32 \<Rightarrow> bool \<Rightarrow> (fi_child \<times> file_system_manager) option" where
  "rtfsFileChildOfNode junk fs ino p slot init new_lpa create_missing_nodes = do {
     (child, fs) \<leftarrow> rtfsFileChildNode junk fs ino p (N_slot slot) 0 (get32 (nb_node fs p) NF_nid) init new_lpa create_missing_nodes;
     fs \<leftarrow> nodeBlockCacheEntryHandleDestroy fs (Some p);
     Some (child, fs)
   }"

definition rtfsFileStoreDirect ::
  "file_system_manager \<Rightarrow> nat \<Rightarrow> u32 \<Rightarrow> u32 \<Rightarrow> (rc \<times> u32 \<times> file_system_manager) option" where
  "rtfsFileStoreDirect fs d direct_node_offset new_lpa = do {
     let old_lpa = get32 (nb_node fs d) (N_slot direct_node_offset);
     fs \<leftarrow> (if old_lpa \<noteq> new_lpa
            then nodeBlockCacheEntryHandleMarkDirty (nb_put32 fs d (N_slot direct_node_offset) new_lpa) d
            else Some fs);
     fs \<leftarrow> nodeBlockCacheEntryHandleDestroy fs (Some d);
     Some (RC0, old_lpa, fs)
   }"

definition rtfsFileSetDirect ::
  "(nat \<Rightarrow> block) \<Rightarrow> file_system_manager \<Rightarrow> RtfsFileInode \<Rightarrow> nat \<Rightarrow> u32 \<Rightarrow> u32 \<Rightarrow> bool \<Rightarrow> (rc \<times> u32 \<times> file_system_manager) option" where
  "rtfsFileSetDirect junk fs fi h direct_block_index new_lpa create_missing_nodes =
     (let direct_node_slot = direct_block_index div DEF_ADDRS_PER_BLOCK;
          direct_node_offset = direct_block_index mod DEF_ADDRS_PER_BLOCK in do {
        (child, fs) \<leftarrow> rtfsFileChildNode (junk 0) fs (fi_ino fi) h (I_nid direct_node_slot)
           (DEF_ADDRS_PER_INODE + direct_node_slot + 1) (ucast (fi_ino fi)) rtfsFileInodeInitCreatedDirectNode new_lpa create_missing_nodes;
        case child of
          FI_STOP ret \<Rightarrow> Some (ret, INVALID_LPA, fs)
        | FI_CHILD d \<Rightarrow> rtfsFileStoreDirect fs d direct_node_offset new_lpa
      })"

definition rtfsFileSetIndirect ::
  "(nat \<Rightarrow> block) \<Rightarrow> file_system_manager \<Rightarrow> RtfsFileInode \<Rightarrow> nat \<Rightarrow> u32 \<Rightarrow> u32 \<Rightarrow> bool \<Rightarrow> (rc \<times> u32 \<times> file_system_manager) option" where
  "rtfsFileSetIndirect junk fs fi h indirect_block_index new_lpa create_missing_nodes =
     (let indirect_node_slot = indirect_block_index div (NIDS_PER_BLOCK * DEF_ADDRS_PER_BLOCK);
          indirect_node_offset = indirect_block_index mod (NIDS_PER_BLOCK * DEF_ADDRS_PER_BLOCK);
          direct_node_slot = indirect_node_offset div DEF_ADDRS_PER_BLOCK;
          direct_node_offset = indirect_node_offset mod DEF_ADDRS_PER_BLOCK in do {
        (child, fs) \<leftarrow> rtfsFileChildNode (junk 0) fs (fi_ino fi) h (I_nid (2 + indirect_node_slot))
           (NODE_IND1_BLOCK + indirect_node_slot) (ucast (fi_ino fi)) rtfsFileInodeInitCreatedIndirectNode new_lpa create_missing_nodes;
        case child of
          FI_STOP ret \<Rightarrow> Some (ret, INVALID_LPA, fs)
        | FI_CHILD p \<Rightarrow> do {
            (child, fs) \<leftarrow> rtfsFileChildOfNode (junk 1) fs (fi_ino fi) p direct_node_slot
               rtfsFileInodeInitCreatedDirectNode new_lpa create_missing_nodes;
            case child of
              FI_STOP ret \<Rightarrow> Some (ret, INVALID_LPA, fs)
            | FI_CHILD d \<Rightarrow> rtfsFileStoreDirect fs d direct_node_offset new_lpa
          }
      })"

definition rtfsFileSetDoubleIndirect ::
  "(nat \<Rightarrow> block) \<Rightarrow> file_system_manager \<Rightarrow> RtfsFileInode \<Rightarrow> nat \<Rightarrow> u32 \<Rightarrow> u32 \<Rightarrow> bool \<Rightarrow> (rc \<times> u32 \<times> file_system_manager) option" where
  "rtfsFileSetDoubleIndirect junk fs fi h double_indirect_block_index new_lpa create_missing_nodes =
     (let first_level_slot = double_indirect_block_index div (NIDS_PER_BLOCK * DEF_ADDRS_PER_BLOCK);
          double_indirect_offset = double_indirect_block_index mod (NIDS_PER_BLOCK * DEF_ADDRS_PER_BLOCK);
          second_level_slot = double_indirect_offset div DEF_ADDRS_PER_BLOCK;
          direct_node_offset = double_indirect_offset mod DEF_ADDRS_PER_BLOCK in do {
        (child, fs) \<leftarrow> rtfsFileChildNode (junk 0) fs (fi_ino fi) h (I_nid 4) NODE_DIND_BLOCK (ucast (fi_ino fi))
           rtfsFileInodeInitCreatedIndirectNode new_lpa create_missing_nodes;
        case child of
          FI_STOP ret \<Rightarrow> Some (ret, INVALID_LPA, fs)
        | FI_CHILD dind \<Rightarrow> do {
            (child, fs) \<leftarrow> rtfsFileChildOfNode (junk 1) fs (fi_ino fi) dind first_level_slot
               rtfsFileInodeInitCreatedIndirectNode new_lpa create_missing_nodes;
            case child of
              FI_STOP ret \<Rightarrow> Some (ret, INVALID_LPA, fs)
            | FI_CHILD p \<Rightarrow> do {
                (child, fs) \<leftarrow> rtfsFileChildOfNode (junk 2) fs (fi_ino fi) p second_level_slot
                   rtfsFileInodeInitCreatedDirectNode new_lpa create_missing_nodes;
                case child of
                  FI_STOP ret \<Rightarrow> Some (ret, INVALID_LPA, fs)
                | FI_CHILD d \<Rightarrow> rtfsFileStoreDirect fs d direct_node_offset new_lpa
              }
          }
      })"

definition rtfsFileSetDataLpaByBlockIndex ::
  "(nat \<Rightarrow> block) \<Rightarrow> file_system_manager \<Rightarrow> RtfsFileInode \<Rightarrow> u32 \<Rightarrow> u32 \<Rightarrow> bool \<Rightarrow> (rc \<times> u32 \<times> file_system_manager) option" where
  "rtfsFileSetDataLpaByBlockIndex junk fs fi block_index new_lpa create_missing_nodes =
     (case fi_handle fi of
        None \<Rightarrow> Some (EINVAL, INVALID_LPA, fs)
      | Some h \<Rightarrow>
          if block_index < DEF_ADDRS_PER_INODE then do {
            let old_lpa = get32 (nb_node fs h) (I_addr block_index);
            fs \<leftarrow> (if old_lpa \<noteq> new_lpa then nodeBlockCacheEntryHandleMarkDirty (nb_put32 fs h (I_addr block_index) new_lpa) h
                   else Some fs);
            Some (RC0, old_lpa, fs)
          } else let direct_block_index = block_index - DEF_ADDRS_PER_INODE in
            if direct_block_index < 2 * DEF_ADDRS_PER_BLOCK then
              rtfsFileSetDirect junk fs fi h direct_block_index new_lpa create_missing_nodes
            else let indirect_block_index = direct_block_index - 2 * DEF_ADDRS_PER_BLOCK in
              if indirect_block_index < 2 * NIDS_PER_BLOCK * DEF_ADDRS_PER_BLOCK then
                rtfsFileSetIndirect junk fs fi h indirect_block_index new_lpa create_missing_nodes
              else let double_indirect_block_index = indirect_block_index - 2 * NIDS_PER_BLOCK * DEF_ADDRS_PER_BLOCK in
                if double_indirect_block_index < NIDS_PER_BLOCK * NIDS_PER_BLOCK * DEF_ADDRS_PER_BLOCK then
                  rtfsFileSetDoubleIndirect junk fs fi h double_indirect_block_index new_lpa create_missing_nodes
                else Some (ENOSYS, INVALID_LPA, fs))"

end
