(* ===== verification/File_Map_Spec.thy ===== *)
theory File_Map_Spec
  imports File_Map
begin

text \<open>
  The block map of a file against a reference definition: the walk through the node blocks that the file system sees.
  The proofs rest on two steps, taking and dropping a temporary handle on a node, in states in which every cached node that
  no other handle refers to is clean.
\<close>

subsection \<open>States between two handles\<close>

text \<open>The block of a node on the medium.\<close>

definition node_on_medium :: "file_system_manager \<Rightarrow> u32 \<Rightarrow> block" where
  "node_on_medium fs k = media (fs_dev fs) (LPA_TO_LBA32 (nat_block_addr (nat_entry_of fs k)))"

text \<open>
  \<open>fm_inv fs n T\<close>: of the handles on the node \<open>k\<close>, \<open>T k\<close> are temporary ones of the running operation. A node that only
  temporary handles refer to is clean. \<open>n\<close> more nodes can be loaded.
\<close>

definition fm_inv :: "file_system_manager \<Rightarrow> nat \<Rightarrow> (u32 \<Rightarrow> nat) \<Rightarrow> bool" where
  "fm_inv fs n T \<longleftrightarrow> nbc_inv (node_cache fs) \<and> nb_live (node_cache fs) \<and> nat_ready fs n \<and>
     (\<forall>k a. nb_ents (node_cache fs) k = Some a \<longrightarrow> nb_ext (node_cache fs) k a \<le> T k \<longrightarrow>
        (\<forall>i < 4096. nb_node fs a i = node_on_medium fs k i)) \<and>
     (\<forall>k. 0 < T k \<longrightarrow> (\<exists>a. nb_ents (node_cache fs) k = Some a \<and> T k \<le> nb_ext (node_cache fs) k a)) \<and>
     (\<forall>k a. nb_ents (node_cache fs) k = Some a \<longrightarrow> nb_ext (node_cache fs) k a + n < 2 ^ 31) \<and>
     nbc_cur (node_cache fs) + n < 2 ^ 31"

text \<open>No visible block changed, and only the two caches did.\<close>

definition fm_same :: "file_system_manager \<Rightarrow> file_system_manager \<Rightarrow> bool" where
  "fm_same fs fs' \<longleftrightarrow> fs' = fs\<lparr>nat_cache := nat_cache fs', node_cache := node_cache fs'\<rparr> \<and>
     nat_entry_of fs' = nat_entry_of fs \<and> (\<forall>k. \<forall>i < 4096. nb_view fs' k i = nb_view fs k i)"

text \<open>The entries that other handles refer to stay, with the same number of them.\<close>

definition fm_kept :: "file_system_manager \<Rightarrow> (u32 \<Rightarrow> nat) \<Rightarrow> file_system_manager \<Rightarrow> (u32 \<Rightarrow> nat) \<Rightarrow> bool" where
  "fm_kept fs T fs' T' \<longleftrightarrow> (\<forall>k b. nb_ents (node_cache fs) k = Some b \<longrightarrow> T k < nb_ext (node_cache fs) k b \<longrightarrow>
     nb_ents (node_cache fs') k = Some b \<and> T' k + nb_ext (node_cache fs) k b = T k + nb_ext (node_cache fs') k b)"

lemma fm_same_refl: "fm_same fs fs"
  by (simp add: fm_same_def)

lemma fm_same_trans: "fm_same fs fs1 \<Longrightarrow> fm_same fs1 fs2 \<Longrightarrow> fm_same fs fs2"
proof -
  assume a: "fm_same fs fs1" "fm_same fs1 fs2"
  then have f: "fs1 = fs\<lparr>nat_cache := nat_cache fs1, node_cache := node_cache fs1\<rparr>"
    "fs2 = fs1\<lparr>nat_cache := nat_cache fs2, node_cache := node_cache fs2\<rparr>" by (simp_all add: fm_same_def)
  have "fs2 = fs\<lparr>nat_cache := nat_cache fs2, node_cache := node_cache fs2\<rparr>"
    by (subst f(2), subst f(1)) simp
  with a show ?thesis unfolding fm_same_def by presburger
qed

lemma fm_view: "fm_same fs fs' \<Longrightarrow> i < 4096 \<Longrightarrow> nb_view fs' k i = nb_view fs k i"
  by (simp add: fm_same_def)

lemma nb_view_cached: "nb_ents (node_cache fs) k = Some a \<Longrightarrow> nb_view fs k = nb_node fs a"
  by (simp add: nb_view_def fun_eq_iff)

lemma fm_kept_refl: "fm_kept fs T fs T"
  by (simp add: fm_kept_def)

lemma fm_kept_trans:
  assumes "fm_kept fs T fs1 T1" and "fm_kept fs1 T1 fs2 T2"
  shows "fm_kept fs T fs2 T2"
  unfolding fm_kept_def
proof (intro allI impI)
  fix k b
  assume b: "nb_ents (node_cache fs) k = Some b" "T k < nb_ext (node_cache fs) k b"
  then have 1: "nb_ents (node_cache fs1) k = Some b"
    "T1 k + nb_ext (node_cache fs) k b = T k + nb_ext (node_cache fs1) k b"
    using assms(1) by (simp_all add: fm_kept_def)
  then have "T1 k < nb_ext (node_cache fs1) k b" using b(2) by linarith
  with assms(2) 1(1) have "nb_ents (node_cache fs2) k = Some b"
    "T2 k + nb_ext (node_cache fs1) k b = T1 k + nb_ext (node_cache fs2) k b"
    by (simp_all add: fm_kept_def)
  with 1 show "nb_ents (node_cache fs2) k = Some b \<and> T2 k + nb_ext (node_cache fs) k b = T k + nb_ext (node_cache fs2) k b"
    by linarith
qed

lemma fm_refs:
  assumes "fm_inv fs (Suc n) T" and "nb_ents (node_cache fs) k = Some a"
  shows "nb_refs (node_cache fs) a \<noteq> - 1"
proof -
  let ?c = "node_cache fs"
  have inv: "nbc_inv ?c" using assms(1) by (simp add: fm_inv_def)
  have "nb_kids ?c k \<subseteq> dom (nb_ents ?c)" by (auto simp: nb_kids_def)
  then have "card (nb_kids ?c k) \<le> nbc_cur ?c"
    using nbc_invD(2) [OF inv] card_mono [OF nb_finite [OF inv]] by simp
  moreover have "nb_ext ?c k a + Suc n < 2 ^ 31" "nbc_cur ?c + Suc n < 2 ^ 31"
    using assms by (auto simp: fm_inv_def)
  ultimately have "unat (nb_refs ?c a) < 2 ^ 32 - 1"
    using nbc_invD(4) [OF inv assms(2)] by (simp add: nb_ext_def)
  then show ?thesis by (auto simp: unat_neg1_u32)
qed

lemma fm_invD:
  assumes "fm_inv fs n T"
  shows "nbc_inv (node_cache fs)" and "nb_live (node_cache fs)" and "nat_ready fs n"
    and "nb_ents (node_cache fs) k = Some a \<Longrightarrow> nb_ext (node_cache fs) k a \<le> T k \<Longrightarrow> i < 4096 \<Longrightarrow>
      nb_node fs a i = node_on_medium fs k i"
    and "nb_ents (node_cache fs) k = Some a \<Longrightarrow> 0 < T k \<Longrightarrow> T k \<le> nb_ext (node_cache fs) k a"
    and "0 < T k \<Longrightarrow> \<exists>a. nb_ents (node_cache fs) k = Some a \<and> T k \<le> nb_ext (node_cache fs) k a"
    and "nb_ents (node_cache fs) k = Some a \<Longrightarrow> nb_ext (node_cache fs) k a + n < 2 ^ 31"
    and "nbc_cur (node_cache fs) + n < 2 ^ 31"
proof -
  note d = assms [unfolded fm_inv_def]
  show "nbc_inv (node_cache fs)" "nb_live (node_cache fs)" "nat_ready fs n" "nbc_cur (node_cache fs) + n < 2 ^ 31"
    using d by blast+
  show "nb_node fs a i = node_on_medium fs k i"
    if "nb_ents (node_cache fs) k = Some a" "nb_ext (node_cache fs) k a \<le> T k" "i < 4096"
    using d that by blast
  show temp: "\<exists>a. nb_ents (node_cache fs) k = Some a \<and> T k \<le> nb_ext (node_cache fs) k a" if "0 < T k"
    using d that by blast
  show "T k \<le> nb_ext (node_cache fs) k a" if "nb_ents (node_cache fs) k = Some a" "0 < T k"
    using temp [OF that(2)] that(1) by auto
  show "nb_ext (node_cache fs) k a + n < 2 ^ 31" if "nb_ents (node_cache fs) k = Some a"
    using d that by blast
qed

text \<open>Dropping a temporary handle.\<close>

lemma fm_put:
  assumes "fm_inv fs n T" and "nb_ents (node_cache fs) k = Some a" and "0 < T k"
  shows "\<exists>fs'. nodeBlockCacheEntryHandleDestroy fs (Some a) = Some fs' \<and> fm_inv fs' n (T(k := T k - 1)) \<and>
    fm_same fs fs' \<and> fm_kept fs T fs' (T(k := T k - 1)) \<and> nb_ents (node_cache fs') = nb_ents (node_cache fs)"
proof -
  let ?c = "node_cache fs" and ?T = "T(k := T k - 1)"
  have i: "nbc_inv ?c" "nb_live ?c" "T k \<le> nb_ext ?c k a"
    using fm_invD(1,2,5) [OF assms(1)] assms(2,3) by simp_all
  then have e: "0 < nb_ext ?c k a" using assms(3) by linarith
  have st: "nb_refs ?c a = 1 \<longrightarrow> nbe_state (nbc_heap ?c a) \<noteq> NODE_BLOCK_CACHE_ENTRY_DELETED"
    using i(2) assms(2) by (simp add: nb_live_def)
  obtain c' where c': "nodeBlockCacheSubRefCount fs a = Some (fs\<lparr>node_cache := c'\<rparr>)" "nbc_inv c'" "nb_kids c' = nb_kids ?c"
    "c' = ?c\<lparr>nbc_mgr := nbc_mgr c', nbc_heap := (nbc_heap ?c)(a := (nbc_heap ?c a)\<lparr>nbe_refCount := nb_refs ?c a - 1\<rparr>)\<rparr>"
    "nb_ents c' = nb_ents ?c"
    by (rule nb_sub_ref [OF i(1) refl assms(2) e st])
  let ?fs = "fs\<lparr>node_cache := c'\<rparr>"
  have heap: "nbc_heap c' = (nbc_heap ?c)(a := (nbc_heap ?c a)\<lparr>nbe_refCount := nb_refs ?c a - 1\<rparr>)" and cur: "nbc_cur c' = nbc_cur ?c"
    by (subst c'(4), simp)+
  have node: "nbe_node (nbc_heap c' b) = nbe_node (nbc_heap ?c b)" "nbe_state (nbc_heap c' b) = nbe_state (nbc_heap ?c b)" for b
    by (simp_all add: heap)
  have nz: "nb_refs ?c a \<noteq> 0" using e by (auto simp: nb_ext_def)
  have ext: "nb_ext c' j b = nb_ext ?c j b - (if j = k then 1 else 0)" if "nb_ents ?c j = Some b" for j b
  proof (cases "b = a")
    case True
    then have "j = k" using nb_inj [OF i(1) assms(2)] that by blast
    then show ?thesis using True unat_minus_one [OF nz] by (simp add: nb_ext_def c'(3) heap)
  next
    case False
    then have "j \<noteq> k" using assms(2) that by auto
    then show ?thesis using False by (simp add: nb_ext_def c'(3) heap)
  qed
  have med: "node_on_medium ?fs = node_on_medium fs" "nat_entry_of ?fs = nat_entry_of fs"
    by (simp_all add: node_on_medium_def nat_entry_of_def fun_eq_iff)
  have "fm_same fs ?fs"
    by (simp add: fm_same_def med nb_view_def c'(5) node split: option.split)
  moreover have "fm_kept fs T ?fs ?T"
    unfolding fm_kept_def using ext e assms(3) i(3) by (auto simp: c'(5))
  moreover have "fm_inv ?fs n ?T"
  proof -
    have "nb_live c'" using i(2) by (simp add: nb_live_def c'(5) node)
    moreover have "nb_node ?fs b m = node_on_medium fs j m"
      if "nb_ents ?c j = Some b" "nb_ext c' j b \<le> ?T j" "m < 4096" for j b m
    proof -
      have "nb_ext ?c j b \<le> T j" using that(1,2) ext [OF that(1)] e assms(3) by (auto split: if_splits)
      then show ?thesis using assms(1) that by (simp add: fm_inv_def node)
    qed
    moreover have "\<exists>b. nb_ents ?c j = Some b \<and> ?T j \<le> nb_ext c' j b" if "0 < ?T j" for j
    proof -
      have "0 < T j" using that by (auto split: if_splits)
      then obtain b where b: "nb_ents ?c j = Some b" "T j \<le> nb_ext ?c j b" using fm_invD(6) [OF assms(1)] by blast
      then show ?thesis using ext [OF b(1)] by auto
    qed
    moreover have "nb_ext c' j b + n < 2 ^ 31" if "nb_ents ?c j = Some b" for j b
      using assms(1) that ext [OF that] unfolding fm_inv_def by (metis (no_types) diff_le_self le_less_trans add_le_mono1)
    ultimately show ?thesis
      using assms(1) c'(2) by (simp add: fm_inv_def med c'(5) cur)
  qed
  ultimately show ?thesis
    using c'(1,5) by (intro exI [of _ ?fs]) (simp add: nodeBlockCacheEntryHandleDestroy_def)
qed

text \<open>Taking a temporary handle: on a cached node, or on one that is loaded below its cached parent.\<close>

definition node_readable :: "file_system_manager \<Rightarrow> u32 \<Rightarrow> u32 \<Rightarrow> bool" where
  "node_readable fs nid parent \<longleftrightarrow> nid \<noteq> INVALID_NID \<and> nid_ok fs nid \<and> node_ok (nb_view fs nid) nid parent \<and>
     dev_ok (fs_dev fs) (nat_block_addr (nat_entry_of fs nid))"

lemma fm_get_hit:
  assumes "fm_inv fs (Suc n) T" and "nb_ents (node_cache fs) nid = Some a"
  shows "\<exists>fs'. nodeBlockCacheGet fs nid = Some (Some a, fs') \<and> fm_inv fs' n (T(nid := T nid + 1)) \<and>
    fm_same fs fs' \<and> fm_kept fs T fs' (T(nid := T nid + 1)) \<and> nb_ents (node_cache fs') = nb_ents (node_cache fs)"
proof -
  let ?c = "node_cache fs" and ?T = "T(nid := T nid + 1)"
  note i = fm_invD [OF assms(1)]
  obtain c' where g: "nodeBlockCacheGet fs nid = Some (Some a, fs\<lparr>node_cache := c'\<rparr>)" "nbc_inv c'" "nb_ents c' = nb_ents ?c"
    "nb_kids c' = nb_kids ?c" "nbc_heap c' = (nbc_heap ?c)(a := (nbc_heap ?c a)\<lparr>nbe_refCount := nb_refs ?c a + 1\<rparr>)"
    "nb_ext c' nid a = nb_ext ?c nid a + 1"
    by (rule nb_get_hit [OF i(1) refl assms(2) fm_refs [OF assms]])
  let ?fs = "fs\<lparr>node_cache := c'\<rparr>"
  have node: "nbe_node (nbc_heap c' b) = nbe_node (nbc_heap ?c b)" "nbe_state (nbc_heap c' b) = nbe_state (nbc_heap ?c b)" for b
    by (simp_all add: g(5))
  have ext: "nb_ext c' j b = nb_ext ?c j b + (if j = nid then 1 else 0)" if "nb_ents ?c j = Some b" for j b
  proof (cases "j = nid")
    case False
    then have "b \<noteq> a" using nb_inj [OF i(1) assms(2)] that by blast
    then show ?thesis using False by (simp add: nb_ext_def g(4,5))
  qed (use that assms(2) g(6) in simp)
  have cur: "nbc_cur c' = nbc_cur ?c" using nbc_invD(2) [OF g(2)] nbc_invD(2) [OF i(1)] by (simp add: g(3))
  have med: "node_on_medium ?fs = node_on_medium fs" "nat_entry_of ?fs = nat_entry_of fs"
    by (simp_all add: node_on_medium_def nat_entry_of_def fun_eq_iff)
  have "fm_same fs ?fs"
    by (simp add: fm_same_def med nb_view_def g(3) node split: option.split)
  moreover have "fm_kept fs T ?fs ?T"
    unfolding fm_kept_def using ext by (auto simp: g(3))
  moreover have "fm_inv ?fs n ?T"
    unfolding fm_inv_def
  proof (intro conjI allI impI)
    show "nb_live (node_cache ?fs)" using i(2) by (simp add: nb_live_def g(3) node)
    show "nat_ready ?fs n" using i(3) snc_ready_mono [of _ _ "Suc n" n] by simp
    fix j
    show "\<exists>b. nb_ents (node_cache ?fs) j = Some b \<and> ?T j \<le> nb_ext (node_cache ?fs) j b" if pos: "0 < ?T j"
    proof (cases "j = nid")
      case True
      then show ?thesis using assms(2) g(3,6) i(5) [OF assms(2)] by (cases "T nid = 0") simp_all
    next
      case False
      then obtain b where "nb_ents ?c j = Some b" "T j \<le> nb_ext ?c j b" using pos i(6) [of j] by auto
      then show ?thesis using False ext g(3) by auto
    qed
    fix b
    assume b: "nb_ents (node_cache ?fs) j = Some b"
    then have b': "nb_ents ?c j = Some b" using g(3) by simp
    show "nb_ext (node_cache ?fs) j b + n < 2 ^ 31" using i(7) [OF b'] ext [OF b'] by (cases "j = nid") simp_all
    fix m
    assume "nb_ext (node_cache ?fs) j b \<le> ?T j" "m < (4096 :: nat)"
    then show "nb_node ?fs b m = node_on_medium ?fs j m"
      using i(4) [OF b'] ext [OF b'] by (auto simp: node med split: if_splits)
  qed (use g(2) i(8) cur in simp_all)
  ultimately show ?thesis using g(1,3) by (intro exI [of _ ?fs]) simp
qed

lemma fm_get_miss:
  assumes "fm_inv fs (Suc n) T" and "nb_ents (node_cache fs) nid = None" and "node_readable fs nid q"
    and "nb_ents (node_cache fs) q = Some p"
  shows "\<exists>a fs'. nodeBlockCacheHelperGetNodeEntry junk junk' fs nid q = Some (RC0, Some a, fs') \<and>
    fm_inv fs' n (T(nid := T nid + 1)) \<and> fm_same fs fs' \<and> fm_kept fs T fs' (T(nid := T nid + 1)) \<and>
    nb_ents (node_cache fs') nid = Some a \<and>
    (\<forall>k b. nb_ents (node_cache fs) k = Some b \<longrightarrow> 0 < nb_ext (node_cache fs) k b \<longrightarrow> nb_ents (node_cache fs') k = Some b)"
proof -
  let ?T = "T(nid := T nid + 1)" and ?lpa = "nat_block_addr (nat_entry_of fs nid)"
  note i = fm_invD [OF assms(1)] and rd = assms(3) [unfolded node_readable_def]
  have T0: "T nid = 0" using i(6) [of nid] assms(2) by auto
  obtain fs1 where g: "natGetLpaOfNid fs nid = Some (?lpa, fs1)" "nat_ready fs1 n"
      "nat_entry_of fs1 = nat_entry_of fs" "fs1 = fs\<lparr>nat_cache := nat_cache fs1\<rparr>"
    using natGetLpaOfNid_spec [OF i(3)] rd by blast
  have eq: "node_cache fs1 = node_cache fs" "fs_dev fs1 = fs_dev fs"
    by (subst g(4), simp)+
  let ?c = "node_cache fs" and ?b = "node_on_medium fs nid"
  have par: "q \<noteq> INVALID_NID \<longrightarrow> (\<exists>p. nb_ents (node_cache fs1) q = Some p \<and> nb_refs (node_cache fs1) p \<noteq> - 1)"
    using assms(4) fm_refs [OF assms(1,4)] eq by simp
  have pre: "nbc_inv (node_cache fs1)" "nb_live (node_cache fs1)" "nb_ents (node_cache fs1) nid = None"
    using i(1,2) assms(2) eq by simp_all
  have nid: "nid \<noteq> INVALID_NID" using rd by simp
  obtain a c' where r: "nodeBlockCacheAdd junk' fs1 ?b nid q ?lpa = Some (a, fs1\<lparr>node_cache := c'\<rparr>)"
    "nbc_inv c'" "nb_live c'" "nb_ents c' nid = Some a" "nb_ext c' nid a = 1"
    and new: "nbc_heap c' a = (nodeBlockCacheEntryInit junk' ?b nid q ?lpa)\<lparr>nbe_refCount := nb_refs c' a\<rparr>"
    and kept: "\<forall>k b. nb_ents ?c k = Some b \<longrightarrow> 0 < nb_ext ?c k b \<longrightarrow> nb_ents c' k = Some b \<and> nb_ext c' k b = nb_ext ?c k b"
    and old: "\<forall>k b. nb_ents c' k = Some b \<longrightarrow> k = nid \<or> nb_ents ?c k = Some b \<and>
       nb_ext c' k b = nb_ext ?c k b \<and> nbc_heap c' b = (nbc_heap ?c b)\<lparr>nbe_refCount := nb_refs c' b\<rparr>"
    using nb_add [OF pre nid par, where junk = junk' and buffer = ?b and lpa = ?lpa] unfolding eq by blast
  let ?fs = "fs1\<lparr>node_cache := c'\<rparr>"
  have med: "node_on_medium ?fs = node_on_medium fs" "nat_entry_of ?fs = nat_entry_of fs"
    using g(3) by (simp_all add: node_on_medium_def nat_entry_of_def fun_eq_iff eq)
  have blk: "nbe_node (nbc_heap c' a) m = ?b m" if "m < 4096" for m
    using that by (subst new) (simp add: nodeBlockCacheEntryInit_def blockBufferCopy_def)
  have same: "nbe_node (nbc_heap c' b) = nbe_node (nbc_heap ?c b)" "nb_ext c' k b = nb_ext ?c k b" "nb_ents ?c k = Some b"
    if "nb_ents c' k = Some b" "k \<noteq> nid" for k b
  proof -
    have o: "nb_ents ?c k = Some b \<and> nb_ext c' k b = nb_ext ?c k b \<and> nbc_heap c' b = (nbc_heap ?c b)\<lparr>nbe_refCount := nb_refs c' b\<rparr>"
      using old that by blast
    then show "nb_ext c' k b = nb_ext ?c k b" "nb_ents ?c k = Some b" by blast+
    from o have "nbc_heap c' b = (nbc_heap ?c b)\<lparr>nbe_refCount := nb_refs c' b\<rparr>" by blast
    then show "nbe_node (nbc_heap c' b) = nbe_node (nbc_heap ?c b)" by (rule ssubst) simp
  qed
  have view: "nb_view ?fs k m = nb_view fs k m" if "m < 4096" for k m
  proof (cases "nb_ents c' k")
    case (Some b)
    show ?thesis
    proof (cases "k = nid")
      case True
      then show ?thesis using blk [OF that] r(4) assms(2) by (simp add: nb_view_def node_on_medium_def)
    next
      case False
      then show ?thesis using same [OF Some False] Some by (simp add: nb_view_def)
    qed
  next
    case None
    have "nbe_node (nbc_heap ?c b) m = node_on_medium fs k m" if "nb_ents ?c k = Some b" for b
    proof -
      have "nb_ext ?c k b = 0" using kept that None by (metis not_gr_zero option.distinct(1))
      then show ?thesis using i(4) [OF that] \<open>m < 4096\<close> by simp
    qed
    with None show ?thesis using med(2) by (simp add: nb_view_def eq node_on_medium_def split: option.split)
  qed
  have frame: "?fs = fs\<lparr>nat_cache := nat_cache ?fs, node_cache := node_cache ?fs\<rparr>"
    by (subst g(4)) simp
  have s: "fm_same fs ?fs" using view med frame by (simp add: fm_same_def)
  have "fm_kept fs T ?fs ?T" using kept assms(2) by (auto simp: fm_kept_def)
  moreover have "fm_inv ?fs n ?T"
    unfolding fm_inv_def
  proof (intro conjI allI impI)
    show "nat_ready ?fs n" using g(2) by simp
    have "dom (nb_ents c') \<subseteq> insert nid (dom (nb_ents ?c))" using same(3) by blast
    then have "card (dom (nb_ents c')) \<le> Suc (card (dom (nb_ents ?c)))"
      using nb_finite [OF i(1)] card_insert_le_m1 card_mono [of "insert nid (dom (nb_ents ?c))"] by (metis card_insert_if finite_insert le_SucI)
    then show "nbc_cur (node_cache ?fs) + n < 2 ^ 31"
      using nbc_invD(2) [OF r(2)] nbc_invD(2) [OF i(1)] i(8) by simp
    fix j
    show "\<exists>b. nb_ents (node_cache ?fs) j = Some b \<and> ?T j \<le> nb_ext (node_cache ?fs) j b" if pos: "0 < ?T j"
    proof (cases "j = nid")
      case True
      then show ?thesis using r(4,5) T0 by simp
    next
      case False
      then obtain b where b: "nb_ents ?c j = Some b" "T j \<le> nb_ext ?c j b" "0 < T j" using pos i(6) [of j] by auto
      then have "nb_ents c' j = Some b \<and> nb_ext c' j b = nb_ext ?c j b" using kept by (meson less_le_trans)
      then show ?thesis using False b by simp
    qed
    fix b
    assume b: "nb_ents (node_cache ?fs) j = Some b"
    show "nb_ext (node_cache ?fs) j b + n < 2 ^ 31"
    proof (cases "j = nid")
      case True
      then show ?thesis using b r(4,5) i(8) by simp
    next
      case False
      then show ?thesis using same [of j b] b i(7) [of j b] by simp
    qed
    fix m
    assume e: "nb_ext (node_cache ?fs) j b \<le> ?T j" and m: "m < (4096 :: nat)"
    show "nb_node ?fs b m = node_on_medium ?fs j m"
    proof (cases "j = nid")
      case True
      then show ?thesis using b r(4) blk [OF m] med(1) by simp
    next
      case False
      then show ?thesis using same [of j b] b e i(4) [of j b m] m med(1) by simp
    qed
  qed (use r(2,3) in simp_all)
  moreover have "nodeBlockCacheHelperGetNodeEntry junk junk' fs nid q = Some (RC0, Some a, ?fs)"
  proof -
    have "dev_ok (fs_dev fs1) ?lpa" using rd eq by simp
    then have read: "blockBufferReadFromLpa (fs_dev fs1) (blockBufferInit junk) ?lpa = (RC0, ?b)"
      by (simp add: blockBufferReadFromLpa_def comm_read_def node_on_medium_def eq)
    have "nb_view fs nid = ?b" using assms(2) by (simp add: nb_view_def node_on_medium_def fun_eq_iff)
    then have "node_ok (nbe_node (nbc_heap c' a)) nid q"
      using rd blk node_ok_cong [of "nbe_node (nbc_heap c' a)" ?b] by simp
    then show ?thesis
      by (simp add: nodeBlockCacheHelperGetNodeEntry_def nb_get_miss [OF i(1) assms(2)] nodeBlockCacheEntryHandleIsEmpty_def
          g(1) read r(1) node_ok_def Let_def)
  qed
  ultimately show ?thesis using s r(4) kept by (intro exI [of _ a] exI [of _ ?fs]) simp
qed

lemma fm_get:
  assumes "fm_inv fs (Suc n) T" and "node_readable fs nid q" and "nb_ents (node_cache fs) q = Some p"
  shows "\<exists>a fs'. rtfsFileGetCachedNodeByNid junk fs nid q = Some (RC0, a, fs') \<and> fm_inv fs' n (T(nid := T nid + 1)) \<and>
    fm_same fs fs' \<and> fm_kept fs T fs' (T(nid := T nid + 1)) \<and> nb_ents (node_cache fs') nid = Some a \<and>
    (\<forall>i < 4096. nb_node fs' a i = nb_view fs nid i) \<and>
    (\<forall>k b. nb_ents (node_cache fs) k = Some b \<longrightarrow> 0 < T k \<longrightarrow> nb_ents (node_cache fs') k = Some b)"
proof -
  have nid: "nid \<noteq> INVALID_NID" using assms(2) by (simp add: node_readable_def)
  have "\<exists>a fs'. rtfsFileGetCachedNodeByNid junk fs nid q = Some (RC0, a, fs') \<and> fm_inv fs' n (T(nid := T nid + 1)) \<and>
    fm_same fs fs' \<and> fm_kept fs T fs' (T(nid := T nid + 1)) \<and> nb_ents (node_cache fs') nid = Some a \<and>
    (\<forall>k b. nb_ents (node_cache fs) k = Some b \<longrightarrow> 0 < nb_ext (node_cache fs) k b \<longrightarrow> nb_ents (node_cache fs') k = Some b)"
  proof (cases "nb_ents (node_cache fs) nid")
    case None
    show ?thesis
      using fm_get_miss [OF assms(1) None assms(2,3), of junk junk] nid nb_get_miss [OF fm_invD(1) [OF assms(1)] None]
      by (auto simp: rtfsFileGetCachedNodeByNid_def)
  next
    case (Some a)
    show ?thesis
      using fm_get_hit [OF assms(1) Some] nid Some by (auto simp: rtfsFileGetCachedNodeByNid_def)
  qed
  then obtain a fs' where r: "rtfsFileGetCachedNodeByNid junk fs nid q = Some (RC0, a, fs')"
    "fm_inv fs' n (T(nid := T nid + 1))" "fm_same fs fs'" "fm_kept fs T fs' (T(nid := T nid + 1))"
    "nb_ents (node_cache fs') nid = Some a"
    "\<forall>k b. nb_ents (node_cache fs) k = Some b \<longrightarrow> 0 < nb_ext (node_cache fs) k b \<longrightarrow> nb_ents (node_cache fs') k = Some b" by blast
  have "nb_node fs' a i = nb_view fs nid i" if "i < 4096" for i
    using fm_view [OF r(3) that, of nid] nb_view_cached [OF r(5)] by simp
  moreover have "nb_ents (node_cache fs') k = Some b" if "nb_ents (node_cache fs) k = Some b" "0 < T k" for k b
    using r(6) that fm_invD(5) [OF assms(1) that] by (meson less_le_trans)
  ultimately show ?thesis using r(1-5) by blast
qed

lemma fm_inv_mono: "fm_inv fs (Suc n) T \<Longrightarrow> fm_inv fs n T"
  unfolding fm_inv_def using snc_ready_mono [of _ _ "Suc n" n] by (auto intro: Suc_lessD)

lemma get32_cong: "(\<And>i. i < 4096 \<Longrightarrow> b i = b' i) \<Longrightarrow> off + 3 < 4096 \<Longrightarrow> get32 b off = get32 b' off"
  by (simp add: get32_def)

lemma fm_get32: "fm_same fs fs' \<Longrightarrow> off + 3 < 4096 \<Longrightarrow> get32 (nb_view fs' k) off = get32 (nb_view fs k) off"
  by (rule get32_cong) (simp_all add: fm_view)

lemma node_readable_cong: "fm_same fs fs' \<Longrightarrow> node_readable fs' nid q = node_readable fs nid q"
proof -
  assume s: "fm_same fs fs'"
  then have f: "fs' = fs\<lparr>nat_cache := nat_cache fs', node_cache := node_cache fs'\<rparr>" "nat_entry_of fs' = nat_entry_of fs"
    by (simp_all add: fm_same_def)
  have "fs_dev fs' = fs_dev fs" "super_blk_mem fs' = super_blk_mem fs" by (subst f(1), simp)+
  then show ?thesis
    using node_ok_cong [of "nb_view fs' nid" "nb_view fs nid"] fm_view [OF s] by (simp add: node_readable_def nid_ok_def f(2))
qed

subsection \<open>The reference definition\<close>

text \<open>
  A path is the list of byte offsets to follow: nids in all nodes but the last, an LPA there. A missing node is a hole.
\<close>

fun node_walk :: "(u32 \<Rightarrow> block) \<Rightarrow> u32 \<Rightarrow> nat list \<Rightarrow> u32" where
  "node_walk V nid [] = INVALID_LPA"
| "node_walk V nid [off] = get32 (V nid) off"
| "node_walk V nid (off # offs) = (let c = get32 (V nid) off in if c = INVALID_NID then INVALID_LPA else node_walk V c offs)"

fun walk_ok :: "file_system_manager \<Rightarrow> u32 \<Rightarrow> nat list \<Rightarrow> bool" where
  "walk_ok fs nid (off # o' # offs) \<longleftrightarrow> (let c = get32 (nb_view fs nid) off in
     c = INVALID_NID \<or> node_readable fs c nid \<and> walk_ok fs c (o' # offs))"
| "walk_ok fs nid _ \<longleftrightarrow> True"

definition file_path :: "nat \<Rightarrow> nat list option" where
  "file_path k =
     (if k < 932 then Some [332 + 4 * k]
      else let k = k - 932 in
        if k < 2 * 1020 then Some [4060 + 4 * (k div 1020), 4 * (k mod 1020)]
        else let k = k - 2 * 1020 in
          if k < 2 * 1020 ^ 2 then Some [4060 + 4 * (2 + k div 1020 ^ 2), 4 * (k div 1020 mod 1020), 4 * (k mod 1020)]
          else let k = k - 2 * 1020 ^ 2 in
            if k < 1020 ^ 3 then Some [4060 + 4 * 4, 4 * (k div 1020 ^ 2), 4 * (k div 1020 mod 1020), 4 * (k mod 1020)]
            else None)"

lemma walk_cong:
  assumes "fm_same fs fs'" and "\<forall>off \<in> set offs. off + 3 < 4096"
  shows "node_walk (nb_view fs') nid offs = node_walk (nb_view fs) nid offs" and "walk_ok fs' nid offs = walk_ok fs nid offs"
  using assms(2)
  by (induction "nb_view fs" nid offs rule: node_walk.induct)
    (auto simp: fm_get32 [OF assms(1)] node_readable_cong [OF assms(1)] Let_def)

subsection \<open>Looking up a block\<close>

lemma read_direct:
  assumes "fm_inv fs (Suc n) T" and "node_readable fs nid q" and "nb_ents (node_cache fs) q = Some p" and "unat off < 1020"
  shows "\<exists>fs'. rtfsFileReadDirectNode junk fs nid q off = Some (RC0, get32 (nb_view fs nid) (4 * unat off), fs') \<and>
    fm_inv fs' n T \<and> fm_same fs fs' \<and> fm_kept fs T fs' T"
proof -
  let ?T = "T(nid := T nid + 1)"
  obtain a fs1 where g: "rtfsFileGetCachedNodeByNid junk fs nid q = Some (RC0, a, fs1)" "fm_inv fs1 n ?T" "fm_same fs fs1"
    "fm_kept fs T fs1 ?T" "nb_ents (node_cache fs1) nid = Some a" "\<forall>i < 4096. nb_node fs1 a i = nb_view fs nid i"
    using fm_get [OF assms(1-3), of junk] by blast
  obtain fs2 where p: "nodeBlockCacheEntryHandleDestroy fs1 (Some a) = Some fs2" "fm_inv fs2 n T" "fm_same fs1 fs2" "fm_kept fs1 ?T fs2 T"
    using fm_put [OF g(2,5)] by auto
  have "get32 (nb_node fs1 a) (4 * unat off) = get32 (nb_view fs nid) (4 * unat off)"
    by (rule get32_cong) (use g(6) assms(4) in simp_all)
  then show ?thesis
    using g(1) p(1,2) fm_same_trans [OF g(3) p(3)] fm_kept_trans [OF g(4) p(4)]
    by (simp add: rtfsFileReadDirectNode_def)
qed

lemma read_via_indirect:
  assumes "fm_inv fs (Suc n) T" and "nb_ents (node_cache fs) q = Some p" and "0 < T q" and "get32 (nb_view fs q) NF_nid = q"
    and "walk_ok fs q [4 * unat s, 4 * unat off]" and "unat s < 1020" and "unat off < 1020"
  shows "\<exists>fs'. rtfsFileReadViaIndirectNode junk fs p s off = Some (RC0, node_walk (nb_view fs) q [4 * unat s, 4 * unat off], fs') \<and>
    fm_inv fs' n (T(q := T q - 1)) \<and> fm_same fs fs' \<and> fm_kept fs T fs' (T(q := T q - 1))"
proof -
  let ?c = "get32 (nb_view fs q) (4 * unat s)"
  have node: "nb_node fs p = nb_view fs q" using nb_view_cached [OF assms(2)] by simp
  show ?thesis
  proof (cases "?c = INVALID_NID")
    case True
    then show ?thesis
      using fm_put [OF fm_inv_mono [OF assms(1)] assms(2,3)] node by (auto simp: rtfsFileReadViaIndirectNode_def)
  next
    case False
    then have rd: "node_readable fs ?c q" using assms(5) by (simp add: Let_def)
    let ?T = "T(?c := T ?c + 1)" and ?T' = "T(q := T q - 1)"
    let ?T1 = "?T(q := ?T q - 1)"
    obtain a fs1 where g: "rtfsFileGetCachedNodeByNid junk fs ?c q = Some (RC0, a, fs1)" "fm_inv fs1 n ?T" "fm_same fs fs1"
      "fm_kept fs T fs1 ?T" "nb_ents (node_cache fs1) ?c = Some a" "\<forall>i < 4096. nb_node fs1 a i = nb_view fs ?c i"
      "nb_ents (node_cache fs1) q = Some p"
      using fm_get [OF assms(1) rd assms(2), of junk] assms(2,3) by blast
    have tq: "0 < ?T q" using assms(3) by simp
    obtain fs2 where p: "nodeBlockCacheEntryHandleDestroy fs1 (Some p) = Some fs2" "fm_inv fs2 n ?T1" "fm_same fs1 fs2"
      "fm_kept fs1 ?T fs2 ?T1" "nb_ents (node_cache fs2) = nb_ents (node_cache fs1)"
      using fm_put [OF g(2) g(7) tq] by blast
    have a2: "nb_ents (node_cache fs2) ?c = Some a" "0 < ?T1 ?c" using p(5) g(5) assms(3) by auto
    have T2: "?T1(?c := ?T1 ?c - 1) = ?T'" using assms(3) by (auto simp: fun_eq_iff)
    obtain fs3 where d: "nodeBlockCacheEntryHandleDestroy fs2 (Some a) = Some fs3" "fm_inv fs3 n ?T'" "fm_same fs2 fs3"
      "fm_kept fs2 ?T1 fs3 ?T'"
      using fm_put [OF p(2) a2] unfolding T2 by blast
    have v: "get32 (nb_node fs2 a) (4 * unat off) = get32 (nb_view fs ?c) (4 * unat off)"
      using fm_get32 [OF fm_same_trans [OF g(3) p(3)], of "4 * unat off" ?c] assms(7) nb_view_cached [OF a2(1)] by simp
    have s: "fm_same fs fs3" "fm_kept fs T fs3 ?T'"
      using fm_same_trans [OF fm_same_trans [OF g(3) p(3)] d(3)] fm_kept_trans [OF fm_kept_trans [OF g(4) p(4)] d(4)] by blast+
    have "rtfsFileReadViaIndirectNode junk fs p s off = Some (RC0, get32 (nb_view fs ?c) (4 * unat off), fs3)"
      using False g(1) p(1) d(1) v by (simp add: rtfsFileReadViaIndirectNode_def node assms(4))
    with False d(2) s show ?thesis by (intro exI [of _ fs3]) (simp add: Let_def)
  qed
qed

lemma fm_inv_le: "fm_inv fs m T \<Longrightarrow> n \<le> m \<Longrightarrow> fm_inv fs n T"
  by (induction m) (auto simp: le_Suc_eq intro: fm_inv_mono)

text \<open>The arithmetic on 32-bit indices does not wrap.\<close>

lemma unat_sub_le: "(c :: u32) \<le> k \<Longrightarrow> unat (k - c) = unat k - unat c"
  by (rule unat_sub)

lemma path_direct:
  assumes "\<not> k < (932 :: u32)" and "k - 932 < 2040"
  shows "file_path (unat k) = Some [4060 + 4 * unat ((k - 932) div 1020), 4 * unat ((k - 932) mod 1020)]"
    and "unat ((k - 932) div 1020) < 2" and "unat ((k - 932) mod 1020) < 1020"
proof -
  have u: "unat (k - 932) = unat k - 932" using assms(1) by (simp add: unat_sub_le not_less)
  have b: "\<not> unat k < 932" "unat k - 932 < 2040" using assms u by (simp_all add: word_less_nat_alt)
  then show "file_path (unat k) = Some [4060 + 4 * unat ((k - 932) div 1020), 4 * unat ((k - 932) mod 1020)]"
    by (simp add: file_path_def unat_div unat_mod u Let_def)
  show "unat ((k - 932) div 1020) < 2" "unat ((k - 932) mod 1020) < 1020"
    using b by (simp_all add: unat_div unat_mod u)
qed

lemma path_indirect:
  assumes "\<not> k < (932 :: u32)" and "\<not> k - 932 < 2040" and "k - 932 - 2040 < 2080800"
  defines "x \<equiv> k - 932 - 2040"
  shows "file_path (unat k) = Some [4060 + 4 * unat (2 + x div 1040400), 4 * unat (x mod 1040400 div 1020), 4 * unat (x mod 1040400 mod 1020)]"
    and "unat (2 + x div 1040400) < 4" and "unat (x mod 1040400 div 1020) < 1020" and "unat (x mod 1040400 mod 1020) < 1020"
proof -
  have "unat (k - 932) = unat k - 932" using assms(1) by (simp add: unat_sub_le not_less)
  then have u: "unat x = unat k - 932 - 2040" and b: "\<not> unat k < 932" "\<not> unat k - 932 < 2040" "unat k - 932 - 2040 < 2080800"
    using assms(1-3) by (simp_all add: x_def unat_sub_le not_less word_less_nat_alt word_le_nat_alt)
  have d: "unat (x div 1040400) = unat x div 1040400" "unat x div 1040400 < 2" using b(3) u by (simp_all add: unat_div)
  then have a: "unat (2 + x div 1040400) = 2 + unat x div 1040400" by (subst unat_add_lem [THEN iffD1]) simp_all
  have m: "unat (x mod 1040400 div 1020) = unat x div 1020 mod 1020" "unat (x mod 1040400 mod 1020) = unat x mod 1020"
    using mod_mult2_eq [of "unat x" 1020 1020] by (simp_all add: unat_div unat_mod)
  show "file_path (unat k) = Some [4060 + 4 * unat (2 + x div 1040400), 4 * unat (x mod 1040400 div 1020), 4 * unat (x mod 1040400 mod 1020)]"
    using b unfolding a m u by (simp add: file_path_def Let_def)
  show "unat (2 + x div 1040400) < 4" "unat (x mod 1040400 div 1020) < 1020" "unat (x mod 1040400 mod 1020) < 1020"
    using d(2) unfolding a m by simp_all
qed

lemma path_double:
  assumes "\<not> k < (932 :: u32)" and "\<not> k - 932 < 2040" and "\<not> k - 932 - 2040 < 2080800"
  defines "x \<equiv> k - 932 - 2040 - 2080800"
  shows "x < 1061208000 \<Longrightarrow> file_path (unat k) =
      Some [4076, 4 * unat (x div 1040400), 4 * unat (x mod 1040400 div 1020), 4 * unat (x mod 1040400 mod 1020)]"
    and "x < 1061208000 \<Longrightarrow> unat (x div 1040400) < 1020" and "unat (x mod 1040400 div 1020) < 1020" and "unat (x mod 1040400 mod 1020) < 1020"
    and "\<not> x < 1061208000 \<Longrightarrow> file_path (unat k) = None"
proof -
  have "unat (k - 932) = unat k - 932" using assms(1) by (simp add: unat_sub_le not_less)
  moreover have "unat (k - 932 - 2040) = unat (k - 932) - 2040"
    using unat_sub_le [of 2040 "k - 932"] assms(2) by (simp only: not_less unat_numeral) simp
  moreover have "unat x = unat (k - 932 - 2040) - 2080800"
    using unat_sub_le [of 2080800 "k - 932 - 2040"] assms(3) by (simp only: x_def not_less) simp
  ultimately have u: "unat x = unat k - 932 - 2040 - 2080800"
    and b: "\<not> unat k < 932" "\<not> unat k - 932 < 2040" "\<not> unat k - 932 - 2040 < 2080800"
    using assms(1-3) by (simp_all only: word_less_nat_alt) simp_all
  have m: "unat (x mod 1040400 div 1020) = unat x div 1020 mod 1020" "unat (x mod 1040400 mod 1020) = unat x mod 1020"
    "unat (x div 1040400) = unat x div 1040400"
    using mod_mult2_eq [of "unat x" 1020 1020] by (simp_all add: unat_div unat_mod)
  have x: "x < 1061208000 \<longleftrightarrow> unat k - 932 - 2040 - 2080800 < 1061208000" using u by (simp add: word_less_nat_alt)
  show "file_path (unat k) = Some [4076, 4 * unat (x div 1040400), 4 * unat (x mod 1040400 div 1020), 4 * unat (x mod 1040400 mod 1020)]"
    if "x < 1061208000"
    using b that unfolding m x u by (simp add: file_path_def Let_def)
  show "unat (x div 1040400) < 1020" if "x < 1061208000" using that unfolding m by (simp add: word_less_nat_alt)
  show "unat (x mod 1040400 div 1020) < 1020" "unat (x mod 1040400 mod 1020) < 1020" unfolding m by simp_all
  show "file_path (unat k) = None" if "\<not> x < 1061208000"
    using b that unfolding x by (simp add: file_path_def Let_def)
qed

text \<open>The three cases of the look-up below the inode, each over the path that it follows.\<close>

lemma resolve_direct:
  assumes "fm_inv fs (Suc n) T" and "nb_ents (node_cache fs) (ucast (fi_ino fi)) = Some h"
    and "walk_ok fs (ucast (fi_ino fi)) [I_nid (j div 1020), N_slot (j mod 1020)]"
  shows "\<exists>fs'. rtfsFileResolveDirect junk fs fi h j =
      Some (RC0, node_walk (nb_view fs) (ucast (fi_ino fi)) [I_nid (j div 1020), N_slot (j mod 1020)], fs') \<and>
    fm_inv fs' n T \<and> fm_same fs fs' \<and> fm_kept fs T fs' T"
proof (cases "get32 (nb_view fs (ucast (fi_ino fi))) (I_nid (j div 1020)) = INVALID_NID")
  case True
  then show ?thesis
    using fm_inv_mono [OF assms(1)]
    by (simp add: rtfsFileResolveDirect_def nb_view_cached [OF assms(2)] Let_def fm_same_refl fm_kept_refl)
next
  case False
  have "unat (j mod 1020) < 1020" by (simp add: unat_mod)
  with False show ?thesis
    using read_direct [OF assms(1) _ assms(2), of _ "j mod 1020" junk] assms(3)
    by (simp add: rtfsFileResolveDirect_def Let_def nb_view_cached [OF assms(2)])
qed

lemma resolve_indirect:
  fixes j :: u32
  defines "s \<equiv> 2 + j div 1040400" and "d \<equiv> j mod 1040400 div 1020" and "off \<equiv> j mod 1040400 mod 1020"
  assumes "fm_inv fs (Suc (Suc n)) T" and "nb_ents (node_cache fs) (ucast (fi_ino fi)) = Some h"
    and "walk_ok fs (ucast (fi_ino fi)) [I_nid s, N_slot d, N_slot off]"
    and "unat s < 4" and "unat d < 1020" and "unat off < 1020"
  shows "\<exists>fs'. rtfsFileResolveIndirect junk fs fi h j =
      Some (RC0, node_walk (nb_view fs) (ucast (fi_ino fi)) [I_nid s, N_slot d, N_slot off], fs') \<and>
    fm_inv fs' n T \<and> fm_same fs fs' \<and> fm_kept fs T fs' T"
proof -
  let ?q = "ucast (fi_ino fi) :: u32"
  let ?c = "get32 (nb_view fs ?q) (I_nid s)"
  have eq: "rtfsFileResolveIndirect junk fs fi h j = (if ?c = INVALID_NID then Some (RC0, INVALID_LPA, fs)
      else Option.bind (rtfsFileGetCachedNodeByNid junk fs ?c ?q) (\<lambda>(ret, p, fs).
        if ret \<noteq> RC0 then Some (ret, INVALID_LPA, fs) else rtfsFileReadViaIndirectNode junk fs p d off))"
    by (auto simp: rtfsFileResolveIndirect_def Let_def nb_view_cached [OF assms(5)] s_def d_def off_def split: bind_splits)
  show ?thesis
  proof (cases "?c = INVALID_NID")
    case True
    then show ?thesis
      using fm_inv_mono [OF fm_inv_mono [OF assms(4)]] unfolding eq by (simp add: fm_same_refl fm_kept_refl)
  next
    case False
    then have w: "node_readable fs ?c ?q" "walk_ok fs ?c [N_slot d, N_slot off]" using assms(6) by (simp_all add: Let_def)
    let ?T = "T(?c := T ?c + 1)"
    obtain a fs1 where g: "rtfsFileGetCachedNodeByNid junk fs ?c ?q = Some (RC0, a, fs1)" "fm_inv fs1 (Suc n) ?T" "fm_same fs fs1"
      "fm_kept fs T fs1 ?T" "nb_ents (node_cache fs1) ?c = Some a"
      using fm_get [OF assms(4) w(1) assms(5), of junk] by blast
    have offs: "\<forall>off \<in> set [N_slot d, N_slot off]. off + 3 < 4096" using assms(8,9) by simp
    note cong = walk_cong [OF g(3) offs, of ?c]
    have nid: "get32 (nb_view fs1 ?c) NF_nid = ?c"
      using fm_get32 [OF g(3), of NF_nid ?c] w(1) by (simp add: node_readable_def node_ok_def)
    have T: "?T(?c := ?T ?c - 1) = T" by (simp add: fun_eq_iff)
    obtain fs2 where r: "rtfsFileReadViaIndirectNode junk fs1 a d off = Some (RC0, node_walk (nb_view fs) ?c [N_slot d, N_slot off], fs2)"
      "fm_inv fs2 n T" "fm_same fs1 fs2" "fm_kept fs1 ?T fs2 T"
      using read_via_indirect [OF g(2,5) _ nid _ assms(8,9), of junk] w(2) cong unfolding T by auto
    show ?thesis
      using False g(1) r(1,2) fm_same_trans [OF g(3) r(3)] fm_kept_trans [OF g(4) r(4)]
      unfolding eq by (simp add: Let_def)
  qed
qed

lemma resolve_double:
  fixes j :: u32
  defines "e \<equiv> j div 1040400" and "d \<equiv> j mod 1040400 div 1020" and "off \<equiv> j mod 1040400 mod 1020"
  assumes "fm_inv fs (Suc (Suc (Suc n))) T" and "nb_ents (node_cache fs) (ucast (fi_ino fi)) = Some h"
    and "walk_ok fs (ucast (fi_ino fi)) [4076, N_slot e, N_slot d, N_slot off]"
    and "unat e < 1020" and "unat d < 1020" and "unat off < 1020"
  shows "\<exists>fs'. rtfsFileResolveDoubleIndirect junk fs fi h j =
      Some (RC0, node_walk (nb_view fs) (ucast (fi_ino fi)) [4076, N_slot e, N_slot d, N_slot off], fs') \<and>
    fm_inv fs' n T \<and> fm_same fs fs' \<and> fm_kept fs T fs' T"
proof -
  let ?q = "ucast (fi_ino fi) :: u32"
  let ?c = "get32 (nb_view fs ?q) 4076"
  let ?below = "\<lambda>(fs, a, k). if k = INVALID_NID then
      Option.bind (nodeBlockCacheEntryHandleDestroy fs (Some a)) (\<lambda>fs. Some (RC0, INVALID_LPA, fs))
    else Option.bind (rtfsFileGetCachedNodeByNid junk fs k (get32 (nb_node fs a) NF_nid)) (\<lambda>(ret, p, fs).
      Option.bind (nodeBlockCacheEntryHandleDestroy fs (Some a)) (\<lambda>fs.
        if ret \<noteq> RC0 then Some (ret, INVALID_LPA, fs) else rtfsFileReadViaIndirectNode junk fs p d off))"
  have eq: "rtfsFileResolveDoubleIndirect junk fs fi h j = (if ?c = INVALID_NID then Some (RC0, INVALID_LPA, fs)
      else Option.bind (rtfsFileGetCachedNodeByNid junk fs ?c ?q) (\<lambda>(ret, a, fs).
        if ret \<noteq> RC0 then Some (ret, INVALID_LPA, fs) else ?below (fs, a, get32 (nb_node fs a) (N_slot e))))"
    by (simp add: rtfsFileResolveDoubleIndirect_def Let_def nb_view_cached [OF assms(5)] e_def d_def off_def cong: if_cong)
  show ?thesis
  proof (cases "?c = INVALID_NID")
    case True
    then show ?thesis
      using fm_inv_le [OF assms(4), of n] unfolding eq by (simp add: fm_same_refl fm_kept_refl)
  next
    case False
    then have w: "node_readable fs ?c ?q" "walk_ok fs ?c [N_slot e, N_slot d, N_slot off]" using assms(6) by (simp_all add: Let_def)
    let ?T = "T(?c := T ?c + 1)" and ?k = "get32 (nb_view fs ?c) (N_slot e)"
    obtain a fs1 where g: "rtfsFileGetCachedNodeByNid junk fs ?c ?q = Some (RC0, a, fs1)" "fm_inv fs1 (Suc (Suc n)) ?T" "fm_same fs fs1"
      "fm_kept fs T fs1 ?T" "nb_ents (node_cache fs1) ?c = Some a"
      using fm_get [OF assms(4) w(1) assms(5), of junk] by blast
    have T: "?T(?c := ?T ?c - 1) = T" by (simp add: fun_eq_iff)
    have k: "get32 (nb_node fs1 a) (N_slot e) = ?k" "get32 (nb_node fs1 a) NF_nid = ?c"
      using fm_get32 [OF g(3), of "N_slot e" ?c] fm_get32 [OF g(3), of NF_nid ?c] assms(7) w(1)
      by (simp_all add: node_readable_def node_ok_def nb_view_cached [OF g(5)])
    have "\<exists>fs'. ?below (fs1, a, ?k) = Some (RC0, node_walk (nb_view fs) ?c [N_slot e, N_slot d, N_slot off], fs') \<and>
      fm_inv fs' n T \<and> fm_same fs1 fs' \<and> fm_kept fs1 ?T fs' T"
    proof (cases "?k = INVALID_NID")
      case True
      then show ?thesis
        using fm_put [OF fm_inv_le [OF g(2), of n] g(5)] unfolding T by auto
    next
      case False
      with w(2) have w1: "node_readable fs1 ?k ?c" "walk_ok fs ?k [N_slot d, N_slot off]"
        using node_readable_cong [OF g(3)] by (simp_all add: Let_def)
      let ?T1 = "?T(?k := ?T ?k + 1)"
      obtain b fs2 where g1: "rtfsFileGetCachedNodeByNid junk fs1 ?k ?c = Some (RC0, b, fs2)" "fm_inv fs2 (Suc n) ?T1" "fm_same fs1 fs2"
        "fm_kept fs1 ?T fs2 ?T1" "nb_ents (node_cache fs2) ?k = Some b" "nb_ents (node_cache fs2) ?c = Some a"
        using fm_get [OF g(2) w1(1) g(5), of junk] g(5) by auto
      let ?T2 = "?T1(?c := ?T1 ?c - 1)"
      have T2: "?T2(?k := ?T2 ?k - 1) = T" "0 < ?T1 ?c" "0 < ?T2 ?k" by (auto simp: fun_eq_iff)
      obtain fs3 where p: "nodeBlockCacheEntryHandleDestroy fs2 (Some a) = Some fs3" "fm_inv fs3 (Suc n) ?T2" "fm_same fs2 fs3"
        "fm_kept fs2 ?T1 fs3 ?T2" "nb_ents (node_cache fs3) = nb_ents (node_cache fs2)"
        using fm_put [OF g1(2,6) T2(2)] by blast
      note s3 = fm_same_trans [OF fm_same_trans [OF g(3) g1(3)] p(3)]
      have offs: "\<forall>off \<in> set [N_slot d, N_slot off]. off + 3 < 4096" using assms(8,9) by simp
      note cong = walk_cong [OF s3 offs, of ?k]
      have nid: "get32 (nb_view fs3 ?k) NF_nid = ?k"
        using fm_get32 [OF fm_same_trans [OF g1(3) p(3)], of NF_nid ?k] w1(1) by (simp add: node_readable_def node_ok_def)
      have b3: "nb_ents (node_cache fs3) ?k = Some b" using p(5) g1(5) by simp
      obtain fs4 where r: "rtfsFileReadViaIndirectNode junk fs3 b d off = Some (RC0, node_walk (nb_view fs) ?k [N_slot d, N_slot off], fs4)"
        "fm_inv fs4 n T" "fm_same fs3 fs4" "fm_kept fs3 ?T2 fs4 T"
        using read_via_indirect [OF p(2) b3 T2(3) nid _ assms(8,9), of junk] w1(2) unfolding T2(1) cong by blast
      show ?thesis
        using False g1(1) p(1) r(1,2) k(2) fm_same_trans [OF fm_same_trans [OF g1(3) p(3)] r(3)]
          fm_kept_trans [OF fm_kept_trans [OF g1(4) p(4)] r(4)]
        by (simp add: Let_def)
    qed
    then obtain fs' where r: "?below (fs1, a, ?k) = Some (RC0, node_walk (nb_view fs) ?c [N_slot e, N_slot d, N_slot off], fs')"
      "fm_inv fs' n T" "fm_same fs1 fs'" "fm_kept fs1 ?T fs' T" by blast
    have "rtfsFileResolveDoubleIndirect junk fs fi h j = ?below (fs1, a, ?k)"
      using False g(1) k(1) unfolding eq by simp
    moreover have "node_walk (nb_view fs) ?q [4076, N_slot e, N_slot d, N_slot off] = node_walk (nb_view fs) ?c [N_slot e, N_slot d, N_slot off]"
      using False by (simp add: Let_def)
    ultimately show ?thesis
      using r(1,2) fm_same_trans [OF g(3) r(3)] fm_kept_trans [OF g(4) r(4)] by auto
  qed
qed

subsection \<open>Equivalence\<close>

lemma fm_resolve:
  assumes "fm_inv fs (n + 3) T" and "fi_handle fi = Some h" and "nb_ents (node_cache fs) (ucast (fi_ino fi)) = Some h"
    and "\<forall>p. file_path (unat k) = Some p \<longrightarrow> walk_ok fs (ucast (fi_ino fi)) p"
  shows "\<exists>fs'. rtfsFileResolveDataLpaByBlockIndex junk fs fi k = Some (case file_path (unat k) of
        None \<Rightarrow> (ENOSYS, INVALID_LPA, fs')
      | Some p \<Rightarrow> (RC0, node_walk (nb_view fs) (ucast (fi_ino fi)) p, fs')) \<and>
    fm_inv fs' n T \<and> fm_same fs fs' \<and> fm_kept fs T fs' T"
proof -
  let ?q = "ucast (fi_ino fi) :: u32"
  let ?d = "k - 932" and ?i = "k - 932 - 2040" and ?x = "k - 932 - 2040 - 2080800"
  have le: "fm_inv fs m T" if "m \<le> Suc (Suc (Suc n))" for m using fm_inv_le [OF assms(1)] that by simp
  have w: "walk_ok fs ?q p" if "file_path (unat k) = Some p" for p using assms(4) that by blast
  have def: "rtfsFileResolveDataLpaByBlockIndex junk fs fi k =
     (if k < 932 then Some (RC0, get32 (nb_node fs h) (I_addr k), fs)
      else if ?d < 2040 then rtfsFileResolveDirect junk fs fi h ?d
      else if ?i < 2080800 then rtfsFileResolveIndirect junk fs fi h ?i
      else if ?x < 1061208000 then rtfsFileResolveDoubleIndirect junk fs fi h ?x
      else Some (ENOSYS, INVALID_LPA, fs))"
    by (simp add: rtfsFileResolveDataLpaByBlockIndex_def assms(2) Let_def)
  consider "k < 932" | "\<not> k < 932" "?d < 2040" | "\<not> k < 932" "\<not> ?d < 2040" "?i < 2080800"
    | "\<not> k < 932" "\<not> ?d < 2040" "\<not> ?i < 2080800" "?x < 1061208000"
    | "\<not> k < 932" "\<not> ?d < 2040" "\<not> ?i < 2080800" "\<not> ?x < 1061208000" by blast
  then show ?thesis
  proof cases
    case 1
    then have "file_path (unat k) = Some [I_addr k]" by (simp add: file_path_def word_less_nat_alt)
    then show ?thesis
      using 1 le [of n] unfolding def by (simp add: nb_view_cached [OF assms(3)] fm_same_refl fm_kept_refl)
  next
    case 2
    note p = path_direct [OF 2]
    show ?thesis
      using resolve_direct [OF le assms(3) w [OF p(1)], of n junk] unfolding def
      by (simp only: 2 p(1) if_False if_True option.case le_refl le_SucI)
  next
    case 3
    note p = path_indirect [OF 3]
    show ?thesis
      using resolve_indirect [OF le assms(3) w [OF p(1)] p(2-4), of n junk] unfolding def
      by (simp only: 3 p(1) if_False if_True option.case le_refl le_SucI)
  next
    case 4
    note p = path_double [OF 4(1-3)]
    show ?thesis
      using resolve_double [OF le assms(3) w [OF p(1) [OF 4(4)]] p(2) [OF 4(4)] p(3,4), of n junk] unfolding def
      by (simp only: 4 p(1) [OF 4(4)] if_False if_True option.case le_refl le_SucI)
  next
    case 5
    note p = path_double(5) [OF 5]
    show ?thesis
      using le [of n] unfolding def
      by (simp only: 5 p if_False option.case) (simp add: fm_same_refl fm_kept_refl)
  qed
qed

text \<open>
  Claim C13. A look-up in the block map of a file returns what the walk through the visible node blocks finds: the LPA at the
  end of the path of the block (932 addresses in the inode, then two nodes of addresses, two of nids and one of nids of nids),
  INVALID_LPA when a node on it is missing, and ENOSYS past the last block that a file can have. It reads the nodes it needs,
  drops every handle that it takes and changes no visible node.
\<close>

theorem rtfsFileResolve_walks:
  assumes "fm_inv fs (n + 3) T" and "fi_handle fi = Some h" and "nb_ents (node_cache fs) (ucast (fi_ino fi)) = Some h"
    and "\<forall>p. file_path (unat k) = Some p \<longrightarrow> walk_ok fs (ucast (fi_ino fi)) p"
  shows "\<exists>fs'. rtfsFileResolveDataLpaByBlockIndex junk fs fi k = Some (case file_path (unat k) of
        None \<Rightarrow> (ENOSYS, INVALID_LPA, fs')
      | Some p \<Rightarrow> (RC0, node_walk (nb_view fs) (ucast (fi_ino fi)) p, fs')) \<and>
    fm_inv fs' n T \<and> fm_same fs fs' \<and> fm_kept fs T fs' T"
  by (rule fm_resolve [OF assms])

text \<open>An open inode 700 whose first direct node is node 701 on the medium, with the address of block 200 in its slot 3.\<close>

definition demo_file_fs :: file_system_manager where
  "demo_file_fs = demo_dirty_fs\<lparr>
     fs_dev := demo_dev\<lparr>media := (media demo_dev)(168 := putNatEntry zero_block 1512 \<lparr>nat_ino = 700, nat_block_addr = 151\<rparr>,
       1208 := put32 (put32 zero_block NF_nid 701) 12 200, 1600 := (\<lambda>_. 7))\<rparr>,
     node_cache := (node_cache demo_dirty_fs)\<lparr>nbc_heap := \<lambda>_. (nbc_heap (node_cache demo_dirty_fs) 0)
       \<lparr>nbe_node := put32 demo_node 4060 701\<rparr>\<rparr>\<rparr>"

definition demo_fi :: RtfsFileInode where
  "demo_fi = (rtfsCreateFileInode (\<lambda>_. pageEntryInit zero_block 0) 700)\<lparr>fi_handle := Some 0\<rparr>"

lemma demo_file_nat: "nat_entry_of demo_file_fs 701 = \<lparr>nat_ino = 700, nat_block_addr = 151\<rparr>"
  using demo_sb
  by (simp add: demo_file_fs_def demo_dirty_fs_def demo_node_fs_def nat_entry_of_def snc_view_def snc_init(2) LPA_TO_LBA32_def cnat.cget_cput)

lemma demo_file_cache:
  "nb_ents (node_cache demo_file_fs) = [700 \<mapsto> 0]" "nb_node demo_file_fs = (\<lambda>_. put32 demo_node 4060 701)"
  "nbc_inv (node_cache demo_file_fs)" "nb_live (node_cache demo_file_fs)" "nb_ext (node_cache demo_file_fs) 700 0 = 1"
proof -
  let ?c = "node_cache demo_file_fs" and ?d = "node_cache demo_dirty_fs"
  have c: "nbc_mgr ?c = nbc_mgr ?d" "nb_keys ?c = nb_keys ?d" "nb_refs ?c = nb_refs ?d" "nb_par ?c = nb_par ?d"
    "nbc_next ?c = nbc_next ?d" "nbc_cur ?c = nbc_cur ?d" "nb_kids ?c = nb_kids ?d"
    by (simp_all add: demo_file_fs_def demo_dirty_fs_def nb_kids_def fun_eq_iff)
  show e: "nb_ents ?c = [700 \<mapsto> 0]" using demo_dirty(2) c(1) by simp
  show "nb_node demo_file_fs = (\<lambda>_. put32 demo_node 4060 701)" by (simp add: demo_file_fs_def)
  show "nbc_inv ?c" using demo_dirty(1) c fun_cong [OF c(3)] fun_cong [OF c(4)] by (simp add: nbc_inv_def)
  show "nb_live ?c" by (simp add: nb_live_def demo_file_fs_def demo_dirty_fs_def nodeBlockCacheEntryInit_def)
  show "nb_ext ?c 700 0 = 1" using fun_cong [OF c(3), of 0] by (simp add: nb_ext_def c(7) demo_dirty(4)) (simp add: demo_dirty_fs_def)
qed

lemma demo_file_view: "nb_view demo_file_fs 700 = put32 demo_node 4060 701"
  "nb_view demo_file_fs 701 = put32 (put32 zero_block NF_nid 701) 12 200"
proof -
  show "nb_view demo_file_fs 700 = put32 demo_node 4060 701"
    using nb_view_cached [of demo_file_fs 700 0] fun_cong [OF demo_file_cache(2), of 0] demo_file_cache(1) by simp
  show "nb_view demo_file_fs 701 = put32 (put32 zero_block NF_nid 701) 12 200"
    by (intro ext, simp add: nb_view_def demo_file_cache(1) demo_file_nat) (simp add: demo_file_fs_def LPA_TO_LBA32_def)
qed

lemma demo_file_inv:
  "n < 100 \<Longrightarrow> fm_inv demo_file_fs n (\<lambda>_. 0)" "fi_handle demo_fi = Some 0" "ucast (fi_ino demo_fi) = (700 :: u32)"
  "node_readable demo_file_fs 701 700"
proof -
  show "fm_inv demo_file_fs n (\<lambda>_. 0)" if "n < 100"
  proof -
    have "nat_ready demo_file_fs n"
      using that by (simp add: demo_file_fs_def demo_dirty_fs_def demo_node_fields snc_ready_init)
    then show ?thesis
      using that demo_file_cache by (simp add: fm_inv_def) (simp add: demo_file_fs_def demo_dirty_fs_def)
  qed
  show "fi_handle demo_fi = Some 0" "ucast (fi_ino demo_fi) = (700 :: u32)"
    by (simp_all add: demo_fi_def rtfsCreateFileInode_def)
  have "nid_ok demo_file_fs 701" using demo_nid_ok [of 701] by (simp add: nid_ok_def demo_file_fs_def demo_dirty_fs_def demo_node_fs_def)
  moreover have "dev_ok (fs_dev demo_file_fs) 151" using demo_dev_ok [of 151] by (simp add: demo_file_fs_def)
  ultimately show "node_readable demo_file_fs 701 700"
    by (simp add: node_readable_def node_ok_def demo_file_view demo_file_nat get32_put32_other)
qed

lemma rtfsFileResolve_walks_witness:
  "\<exists>fs'. rtfsFileResolveDataLpaByBlockIndex zero_block demo_file_fs demo_fi 935 = Some (RC0, 200, fs') \<and> fm_same demo_file_fs fs'"
proof -
  have path: "file_path (unat (935 :: u32)) = Some [4060, 12]" by (simp add: file_path_def)
  have c: "get32 (nb_view demo_file_fs 700) 4060 = 701" by (simp add: demo_file_view)
  have inv: "fm_inv demo_file_fs (0 + 3) (\<lambda>_. 0)" by (rule demo_file_inv(1)) simp
  have "walk_ok demo_file_fs 700 [4060, 12]" using demo_file_inv(4) by (simp add: c)
  then show ?thesis
    using rtfsFileResolve_walks [OF inv demo_file_inv(2), of 935 zero_block] demo_file_inv(3) path demo_file_cache(1) c
    by (auto simp: demo_file_view)
qed

end
