(* ===== verification/File_Inode.thy ===== *)
theory File_Inode
  imports File_Map Journal_Processor Cow_Reclaim
begin

text \<open>
  Reading, writing, truncating and committing a regular file: the second part of
  \<^verbatim>\<open>src/src/file_inode/file_inode.c\<close>, with \<^verbatim>\<open>file_inode_resolver.c\<close> and \<^verbatim>\<open>inode/inode_loader.c\<close>. A call takes
  the state of the file system and the run-time inode and returns both. What the sources leave open is bundled in \<open>os_env\<close>: the
  content of fresh memory, which asynchronous requests are taken, and the iteration orders of hash tables. The test hooks are not set.
\<close>

record os_env =
  os_junk :: "nat \<Rightarrow> block"
  os_accepts :: "u64 \<Rightarrow> bool"
  os_nodeOrder :: "file_system_manager \<Rightarrow> u32 list"
  os_srmapOrder :: "file_system_manager \<Rightarrow> u32 list"
  os_pageOrder :: "PageCache \<Rightarrow> u32 list"

text \<open>\<^verbatim>\<open>memset\<close> and \<^verbatim>\<open>memcpy\<close> on blocks.\<close>

definition blk_fill :: "block \<Rightarrow> nat \<Rightarrow> nat \<Rightarrow> u8 \<Rightarrow> block" where
  "blk_fill b off len v = (\<lambda>i. if off \<le> i \<and> i < off + len then v else b i)"

definition blk_copy :: "block \<Rightarrow> nat \<Rightarrow> u8 list \<Rightarrow> block" where
  "blk_copy b off xs = (\<lambda>i. if off \<le> i \<and> i < off + length xs then xs ! (i - off) else b i)"

definition blk_bytes :: "block \<Rightarrow> nat \<Rightarrow> nat \<Rightarrow> u8 list" where
  "blk_bytes b off n = map b [off..<off + n]"

definition SIZE_TO_BLOCK :: "u64 \<Rightarrow> u64" where
  "SIZE_TO_BLOCK sz = drop_bit 12 (sz + 4095)"

subsection \<open>Loading an inode\<close>

definition rtfsInodeLoaderEnsureCachedInNodeCache :: "file_system_manager \<Rightarrow> u64 \<Rightarrow> (rc \<times> file_system_manager) option" where
  "rtfsInodeLoaderEnsureCachedInNodeCache fs ino =
     (if ino = ucast INVALID_NID then Some (EINVAL, fs)
      else do {
        (handle, fs) \<leftarrow> nodeBlockCacheGet fs (ucast ino);
        if nodeBlockCacheEntryHandleIsEmpty handle then Some (ENOENT, fs)
        else do { fs \<leftarrow> nodeBlockCacheEntryHandleDestroy fs handle; Some (RC0, fs) }
      })"

definition rtfsInodeLoaderEnsureCached :: "block \<Rightarrow> file_system_manager \<Rightarrow> u64 \<Rightarrow> (rc \<times> file_system_manager) option" where
  "rtfsInodeLoaderEnsureCached junk fs ino =
     (if ino = ucast INVALID_NID then Some (EINVAL, fs)
      else do {
        (ret, fs) \<leftarrow> rtfsInodeLoaderEnsureCachedInNodeCache fs ino;
        if ret = RC0 then Some (RC0, fs)
        else do {
          (ret, handle, fs) \<leftarrow> nodeBlockCacheHelperGetNodeEntry junk junk fs (ucast ino) INVALID_NID;
          if ret \<noteq> RC0 then Some (ret, fs)
          else do { fs \<leftarrow> nodeBlockCacheEntryHandleDestroy fs handle; Some (RC0, fs) }
        }
      })"

datatype RtfsFileInodeBuildMode = RTFS_FILE_BUILD_METADATA_ONLY | RTFS_FILE_BUILD_WITH_PAGE_CACHE | RTFS_FILE_BUILD_OTHER int

definition rtfsFileInodeBuildModeIsSupported :: "RtfsFileInodeBuildMode \<Rightarrow> bool" where
  "rtfsFileInodeBuildModeIsSupported mode =
     (case mode of RTFS_FILE_BUILD_METADATA_ONLY \<Rightarrow> True | RTFS_FILE_BUILD_WITH_PAGE_CACHE \<Rightarrow> True | _ \<Rightarrow> False)"

definition rtfsFileInodeResolve ::
  "block \<Rightarrow> (nat \<Rightarrow> PageEntry) \<Rightarrow> file_system_manager \<Rightarrow> u64 \<Rightarrow> RtfsFileInodeBuildMode \<Rightarrow>
    (rc \<times> RtfsFileInode option \<times> file_system_manager) option" where
  "rtfsFileInodeResolve junk heap fs ino mode =
     (if \<not> rtfsFileInodeBuildModeIsSupported mode then Some (ENOSYS, None, fs)
      else do {
        (ret, fs) \<leftarrow> rtfsInodeLoaderEnsureCached junk fs ino;
        if ret \<noteq> RC0 then Some (ret, None, fs)
        else rtfsFileInodeBuild heap fs ino
      })"

subsection \<open>Pages\<close>

text \<open>The page is returned with a reference; on an error the reference is dropped again.\<close>

definition rtfsFileInodePreparePageForRead ::
  "os_env \<Rightarrow> file_system_manager \<Rightarrow> RtfsFileInode \<Rightarrow> u32 \<Rightarrow> (rc \<times> nat \<times> file_system_manager \<times> RtfsFileInode) option" where
  "rtfsFileInodePreparePageForRead os fs fi block_index = do {
     (page, pc) \<leftarrow> pageCacheGet (os_junk os (unat block_index)) (fi_page_cache fi) block_index;
     if pageEntryGetState pc page = PAGE_READY then Some (RC0, page, fs, fi\<lparr>fi_page_cache := pc\<rparr>)
     else do {
       (ret, lpa, fs) \<leftarrow> rtfsFileResolveDataLpaByBlockIndex (os_junk os (unat block_index)) fs fi block_index;
       let (ret, buffer) =
         (if ret \<noteq> RC0 then (ret, pageEntryGetBuffer pc page)
          else if lpa = INVALID_LPA then (RC0, blk_fill (pageEntryGetBuffer pc page) 0 4096 0)
          else blockBufferReadFromLpa (fs_dev fs) (pageEntryGetBuffer pc page) lpa);
       if ret \<noteq> RC0 then do {
         pc \<leftarrow> pageEntryHandleDestroy pc (Some page);
         Some (ret, 0, fs, fi\<lparr>fi_page_cache := pc\<rparr>)
       } else
         let pc = pc_set pc page ((pc_heap pc page)\<lparr>pe_page := buffer\<rparr>);
             pc = pageEntrySetState (pageEntrySetLpa pc page lpa) page PAGE_READY
         in Some (RC0, page, fs, fi\<lparr>fi_page_cache := pc\<rparr>)
     }
   }"

definition rtfsFileInodePreparePageForWrite ::
  "os_env \<Rightarrow> file_system_manager \<Rightarrow> RtfsFileInode \<Rightarrow> u32 \<Rightarrow> bool \<Rightarrow> (rc \<times> nat \<times> file_system_manager \<times> RtfsFileInode) option" where
  "rtfsFileInodePreparePageForWrite os fs fi block_index preserve_existing_content =
     (if preserve_existing_content then rtfsFileInodePreparePageForRead os fs fi block_index
      else do {
        (page, pc) \<leftarrow> pageCacheGet (os_junk os (unat block_index)) (fi_page_cache fi) block_index;
        if pageEntryGetState pc page = PAGE_READY then Some (RC0, page, fs, fi\<lparr>fi_page_cache := pc\<rparr>)
        else if ucast block_index \<ge> SIZE_TO_BLOCK (fi_size fi) then
          Some (RC0, page, fs, fi\<lparr>fi_page_cache := pageEntrySetLpa pc page INVALID_LPA\<rparr>)
        else do {
          (ret, lpa, fs) \<leftarrow> rtfsFileResolveDataLpaByBlockIndex (os_junk os (unat block_index)) fs fi block_index;
          if ret \<noteq> RC0 then do {
            pc \<leftarrow> pageEntryHandleDestroy pc (Some page);
            Some (ret, 0, fs, fi\<lparr>fi_page_cache := pc\<rparr>)
          } else Some (RC0, page, fs, fi\<lparr>fi_page_cache := pageEntrySetLpa pc page lpa\<rparr>)
        }
      })"

subsection \<open>Reading and writing\<close>

text \<open>
  The loops go block by block; an error after the first byte ends them without an error. The outcome of a call is
  an error code (with \<^verbatim>\<open>-1\<close> returned) or the bytes, respectively their number.
\<close>

function rtfsFileInodeReadLoop ::
  "os_env \<Rightarrow> file_system_manager \<Rightarrow> RtfsFileInode \<Rightarrow> u64 \<Rightarrow> nat \<Rightarrow> u8 list \<Rightarrow>
    (rc \<times> u8 list \<times> u64 \<times> file_system_manager \<times> RtfsFileInode) option" where
  "rtfsFileInodeReadLoop os fs fi cur_offset readable acc =
     (if readable = 0 then Some (RC0, acc, cur_offset, fs, fi)
      else let block_index64 = cur_offset div 4096 in
        if block_index64 > 0xFFFFFFFF then Some (if acc \<noteq> [] then RC0 else EFBIG, acc, cur_offset, fs, fi)
        else let block_index = ucast block_index64;
                 block_offset = unat (cur_offset mod 4096);
                 chunk = min (4096 - block_offset) readable in do {
          (ret, page, fs, fi) \<leftarrow> rtfsFileInodePreparePageForRead os fs fi block_index;
          if ret \<noteq> RC0 then Some (if acc \<noteq> [] then RC0 else ret, acc, cur_offset, fs, fi)
          else do {
            let bytes = blk_bytes (pageEntryGetBuffer (fi_page_cache fi) page) block_offset chunk;
            pc \<leftarrow> pageEntryHandleDestroy (fi_page_cache fi) (Some page);
            rtfsFileInodeReadLoop os fs (fi\<lparr>fi_page_cache := pc\<rparr>) (cur_offset + of_nat chunk) (readable - chunk) (acc @ bytes)
          }
        })"
  by pat_completeness auto
termination
proof (relation "measure (\<lambda>(os, fs, fi, cur_offset, readable, acc). readable)", goal_cases)
  case (2 os fs fi cur_offset readable)
  have "unat (cur_offset mod 4096) < 4096"
    using unat_mod [of cur_offset 4096] by simp
  with 2 show ?case by simp
qed simp

definition rtfsFileInodeRead ::
  "os_env \<Rightarrow> file_system_manager \<Rightarrow> RtfsFileInode \<Rightarrow> u64 \<Rightarrow> nat \<Rightarrow>
    ((rc + u8 list) \<times> u64 \<times> file_system_manager \<times> RtfsFileInode) option" where
  "rtfsFileInodeRead os fs fi offset n =
     (if sint offset < 0 then Some (Inl EINVAL, offset, fs, fi)
      else if n = 0 then Some (Inr [], offset, fs, fi)
      else if offset \<ge> fi_size fi then Some (Inr [], offset, fs, fi)
      else do {
        let readable = min (unat (fi_size fi - offset)) n;
        (ret, bytes, cur_offset, fs, fi) \<leftarrow> rtfsFileInodeReadLoop os fs fi offset readable [];
        if ret \<noteq> RC0 then Some (Inl ret, offset, fs, fi)
        else Some (Inr bytes, cur_offset, fs, if bytes \<noteq> [] then rtfsFileInodeTouchAccessTime fi else fi)
      })"

function rtfsFileInodeWriteLoop ::
  "os_env \<Rightarrow> file_system_manager \<Rightarrow> RtfsFileInode \<Rightarrow> u64 \<Rightarrow> u8 list \<Rightarrow> nat \<Rightarrow>
    (rc \<times> nat \<times> u64 \<times> file_system_manager \<times> RtfsFileInode) option" where
  "rtfsFileInodeWriteLoop os fs fi cur_offset buffer bytes_written =
     (if \<not> bytes_written < length buffer then Some (RC0, bytes_written, cur_offset, fs, fi)
      else let block_index64 = cur_offset div 4096 in
        if block_index64 > 0xFFFFFFFF then Some (if bytes_written > 0 then RC0 else EFBIG, bytes_written, cur_offset, fs, fi)
        else let block_index = ucast block_index64;
                 block_offset = unat (cur_offset mod 4096);
                 chunk = min (4096 - block_offset) (length buffer - bytes_written) in do {
          (ret, page, fs, fi) \<leftarrow> rtfsFileInodePreparePageForWrite os fs fi block_index (block_offset \<noteq> 0 \<or> chunk \<noteq> 4096);
          if ret \<noteq> RC0 then Some (if bytes_written > 0 then RC0 else ret, bytes_written, cur_offset, fs, fi)
          else do {
            let pc = fi_page_cache fi;
            let data = blk_copy (pageEntryGetBuffer pc page) block_offset (take chunk (drop bytes_written buffer));
            let pc = pageEntrySetState (pc_set pc page ((pc_heap pc page)\<lparr>pe_page := data\<rparr>)) page PAGE_READY;
            pc \<leftarrow> pageEntryHandleMakeDirty pc page;
            pc \<leftarrow> pageEntryHandleDestroy pc (Some page);
            let cur_offset = cur_offset + of_nat chunk;
            let fi = fi\<lparr>fi_page_cache := pc\<rparr>;
            rtfsFileInodeWriteLoop os fs
              (if cur_offset > fi_size fi then fi\<lparr>fi_size := cur_offset, fi_is_dirty := True\<rparr> else fi)
              cur_offset buffer (bytes_written + chunk)
          }
        })"
  by pat_completeness auto
termination
proof (relation "measure (\<lambda>(os, fs, fi, cur_offset, buffer, bytes_written). length buffer - bytes_written)", goal_cases)
  case (2 os fs fi cur_offset buffer bytes_written)
  have "unat (cur_offset mod 4096) < 4096"
    using unat_mod [of cur_offset 4096] by simp
  with 2 show ?case by simp
qed simp

definition rtfsFileInodeWrite ::
  "os_env \<Rightarrow> file_system_manager \<Rightarrow> RtfsFileInode \<Rightarrow> u64 \<Rightarrow> u8 list \<Rightarrow>
    ((rc + nat) \<times> u64 \<times> file_system_manager \<times> RtfsFileInode) option" where
  "rtfsFileInodeWrite os fs fi offset buffer =
     (if sint offset < 0 then Some (Inl EINVAL, offset, fs, fi)
      else if buffer = [] then Some (Inr 0, offset, fs, fi)
      else if unat (0xFFFFFFFFFFFFFFFF - offset) < length buffer then Some (Inl EFBIG, offset, fs, fi)
      else do {
        (ret, bytes_written, cur_offset, fs, fi) \<leftarrow> rtfsFileInodeWriteLoop os fs fi offset buffer 0;
        if ret \<noteq> RC0 then Some (Inl ret, offset, fs, fi)
        else Some (Inr bytes_written, cur_offset, fs, if bytes_written > 0 then rtfsFileInodeTouchModifyTime fi else fi)
      })"

subsection \<open>Truncating\<close>

definition rtfsFileInodeAppendPendingTruncateOldLpa :: "RtfsFileInode \<Rightarrow> u32 \<Rightarrow> RtfsFileInode" where
  "rtfsFileInodeAppendPendingTruncateOldLpa fi old_lpa =
     (if old_lpa = INVALID_LPA then fi else fi\<lparr>fi_truncate_old_lpas := fi_truncate_old_lpas fi @ [old_lpa]\<rparr>)"

text \<open>The loop over the blocks that are cut off; \<open>n\<close> of them are left, from \<open>block_index\<close> on.\<close>

fun rtfsFileInodeTruncateLoop ::
  "os_env \<Rightarrow> file_system_manager \<Rightarrow> RtfsFileInode \<Rightarrow> u64 \<Rightarrow> nat \<Rightarrow> (rc \<times> file_system_manager \<times> RtfsFileInode) option" where
  "rtfsFileInodeTruncateLoop os fs fi block_index 0 = Some (RC0, fs, fi)"
| "rtfsFileInodeTruncateLoop os fs fi block_index (Suc n) =
     (if block_index > 0xFFFFFFFF then Some (EFBIG, fs, fi)
      else do {
        (ret, old_lpa, fs) \<leftarrow> rtfsFileSetDataLpaByBlockIndex (os_junk os) fs fi (ucast block_index) INVALID_LPA False;
        if ret \<noteq> RC0 then Some (ret, fs, fi)
        else rtfsFileInodeTruncateLoop os fs (rtfsFileInodeAppendPendingTruncateOldLpa fi old_lpa) (block_index + 1) n
      })"

text \<open>The walk over the hash index of the page cache, in its order.\<close>

fun rtfsFileInodeInvalidateLoop :: "PageCache \<Rightarrow> u64 \<Rightarrow> u32 list \<Rightarrow> PageCache" where
  "rtfsFileInodeInvalidateLoop pc first_invalid_block [] = pc"
| "rtfsFileInodeInvalidateLoop pc first_invalid_block (k # ks) =
     (case gcm_entries (pc_mgr pc) k of
        None \<Rightarrow> rtfsFileInodeInvalidateLoop pc first_invalid_block ks
      | Some a \<Rightarrow>
          if ucast (pageEntryGetBlkoff pc a) < first_invalid_block then rtfsFileInodeInvalidateLoop pc first_invalid_block ks
          else
            let pc = pageEntrySetState (pageEntrySetLpa pc a INVALID_LPA) a PAGE_INVALID;
                pc = pc_set pc a ((pc_heap pc a)\<lparr>pe_isDirty := False\<rparr>)
            in rtfsFileInodeInvalidateLoop pc first_invalid_block ks)"

definition rtfsFileInodeInvalidateCachedPagesFrom :: "os_env \<Rightarrow> RtfsFileInode \<Rightarrow> u64 \<Rightarrow> RtfsFileInode option" where
  "rtfsFileInodeInvalidateCachedPagesFrom os fi new_size = do {
     let pc = fi_page_cache fi;
     (first_invalid_block, pc) \<leftarrow>
       (if new_size = 0 then do { pc \<leftarrow> pageCacheClearDirtyPages pc; Some (0, pc) }
        else if new_size mod 4096 = 0 then
          let first_invalid_block = new_size div 4096 in
          if first_invalid_block = 0 then do { pc \<leftarrow> pageCacheClearDirtyPages pc; Some (first_invalid_block, pc) }
          else if first_invalid_block - 1 \<le> 0xFFFFFFFF then do {
            pc \<leftarrow> pageCacheTruncate pc (ucast (first_invalid_block - 1));
            Some (first_invalid_block, pc)
          } else Some (first_invalid_block, pc)
        else
          let first_invalid_block = new_size div 4096 + 1 in
          if new_size div 4096 \<le> 0xFFFFFFFF then do {
            pc \<leftarrow> pageCacheTruncate pc (ucast (new_size div 4096));
            Some (first_invalid_block, pc)
          } else Some (first_invalid_block, pc));
     if first_invalid_block > 0xFFFFFFFF then Some (fi\<lparr>fi_page_cache := pc\<rparr>)
     else Some (fi\<lparr>fi_page_cache := rtfsFileInodeInvalidateLoop pc first_invalid_block (os_pageOrder os pc)\<rparr>)
   }"

text \<open>The rest of the last block that stays is zeroed.\<close>

definition rtfsFileInodeZeroTail ::
  "os_env \<Rightarrow> file_system_manager \<Rightarrow> RtfsFileInode \<Rightarrow> u64 \<Rightarrow> u64 \<Rightarrow> (rc \<times> file_system_manager \<times> RtfsFileInode) option" where
  "rtfsFileInodeZeroTail os fs fi new_size new_block_count =
     (if new_block_count - 1 > 0xFFFFFFFF then Some (EFBIG, fs, fi)
      else do {
        let keep_bytes = unat (new_size mod 4096);
        (ret, page, fs, fi) \<leftarrow> rtfsFileInodePreparePageForWrite os fs fi (ucast (new_block_count - 1)) True;
        if ret \<noteq> RC0 then Some (ret, fs, fi)
        else do {
          let pc = fi_page_cache fi;
          let data = blk_fill (pageEntryGetBuffer pc page) keep_bytes (4096 - keep_bytes) 0;
          let pc = pageEntrySetState (pc_set pc page ((pc_heap pc page)\<lparr>pe_page := data\<rparr>)) page PAGE_READY;
          pc \<leftarrow> pageEntryHandleMakeDirty pc page;
          pc \<leftarrow> pageEntryHandleDestroy pc (Some page);
          Some (RC0, fs, fi\<lparr>fi_page_cache := pc\<rparr>)
        }
      })"

definition rtfsFileInodeTruncate ::
  "os_env \<Rightarrow> file_system_manager \<Rightarrow> RtfsFileInode \<Rightarrow> u64 \<Rightarrow> (rc \<times> file_system_manager \<times> RtfsFileInode) option" where
  "rtfsFileInodeTruncate os fs fi new_size =
     (let old_size = fi_size fi in
      if new_size = old_size then Some (RC0, fs, fi)
      else if new_size > old_size then
        Some (RC0, fs, rtfsFileInodeTouchModifyTime (fi\<lparr>fi_size := new_size, fi_is_dirty := True\<rparr>))
      else do {
        let old_block_count = SIZE_TO_BLOCK old_size;
        let new_block_count = SIZE_TO_BLOCK new_size;
        (ret, fs, fi) \<leftarrow>
          (if new_size mod 4096 \<noteq> 0 \<and> new_block_count > 0 \<and> new_block_count \<le> old_block_count
           then rtfsFileInodeZeroTail os fs fi new_size new_block_count else Some (RC0, fs, fi));
        if ret \<noteq> RC0 then Some (ret, fs, fi)
        else do {
          (ret, fs, fi) \<leftarrow> rtfsFileInodeTruncateLoop os fs fi new_block_count (unat old_block_count - unat new_block_count);
          if ret \<noteq> RC0 then Some (ret, fs, fi)
          else do {
            fi \<leftarrow> rtfsFileInodeInvalidateCachedPagesFrom os fi new_size;
            Some (RC0, fs, rtfsFileInodeTouchModifyTime (fi\<lparr>fi_size := new_size, fi_is_dirty := True\<rparr>))
          }
        }
      })"

subsection \<open>Writing dirty pages to new blocks\<close>

record RtfsFileDirtyPageWriteOp =
  wop_page :: nat
  wop_block_index :: u32
  wop_old_lpa :: u32
  wop_new_lpa :: u32

fun rtfsFileCollectDirtyPages ::
  "PageCache \<Rightarrow> (u32 \<times> nat) list \<Rightarrow> RtfsFileDirtyPageWriteOp list \<Rightarrow> rc \<times> RtfsFileDirtyPageWriteOp list" where
  "rtfsFileCollectDirtyPages pc [] ops = (RC0, ops)"
| "rtfsFileCollectDirtyPages pc ((k, a) # ns) ops =
     (if \<not> pe_isDirty (pc_heap pc a) then rtfsFileCollectDirtyPages pc ns ops
      else if pageEntryGetState pc a \<noteq> PAGE_READY then (EINVAL, ops)
      else rtfsFileCollectDirtyPages pc ns
        (ops @ [\<lparr>wop_page = a, wop_block_index = k, wop_old_lpa = pageEntryGetLpa pc a, wop_new_lpa = INVALID_LPA\<rparr>]))"

text \<open>The number of pages with consecutive block indices at the front.\<close>

fun rtfsFileRunLength :: "RtfsFileDirtyPageWriteOp list \<Rightarrow> nat" where
  "rtfsFileRunLength [] = 0"
| "rtfsFileRunLength [x] = 1"
| "rtfsFileRunLength (x # y # zs) =
     (if wop_block_index y = wop_block_index x + 1 then Suc (rtfsFileRunLength (y # zs)) else 1)"

text \<open>
  LPAs for one run, in as many pieces as the allocator needs. More pages than requested would be written behind the array: \<open>None\<close>.
\<close>

function rtfsFileAllocRun ::
  "file_system_manager \<Rightarrow> RtfsFileDirtyPageWriteOp list \<Rightarrow> (rc \<times> RtfsFileDirtyPageWriteOp list \<times> file_system_manager) option" where
  "rtfsFileAllocRun fs ops =
     (if ops = [] then Some (RC0, [], fs)
      else do {
        (first_lpa, allocated_pages, fs) \<leftarrow> superManagerAllocDataLpaRange fs (of_nat (length ops));
        if first_lpa = INVALID_LPA \<or> allocated_pages = 0 then Some (ENOSPC, ops, fs)
        else if unat allocated_pages > length ops then None
        else do {
          let n = unat allocated_pages;
          let assigned = map (\<lambda>j. (ops ! j)\<lparr>wop_new_lpa := first_lpa + of_nat j\<rparr>) [0..<n];
          (ret, rest, fs) \<leftarrow> rtfsFileAllocRun fs (drop n ops);
          Some (ret, assigned @ rest, fs)
        }
      })"
  by pat_completeness auto
termination
  by (relation "measure (\<lambda>(fs, ops). length ops)") (auto simp: unat_gt_0)

lemma run_length_pos: "ops \<noteq> [] \<Longrightarrow> 0 < rtfsFileRunLength ops"
  by (cases ops rule: rtfsFileRunLength.cases) auto

function rtfsFileAllocAll ::
  "file_system_manager \<Rightarrow> RtfsFileDirtyPageWriteOp list \<Rightarrow> (rc \<times> RtfsFileDirtyPageWriteOp list \<times> file_system_manager) option" where
  "rtfsFileAllocAll fs ops =
     (if ops = [] then Some (RC0, [], fs)
      else do {
        let n = rtfsFileRunLength ops;
        (ret, run, fs) \<leftarrow> rtfsFileAllocRun fs (take n ops);
        if ret \<noteq> RC0 then Some (ret, run @ drop n ops, fs)
        else do {
          (ret, rest, fs) \<leftarrow> rtfsFileAllocAll fs (drop n ops);
          Some (ret, run @ rest, fs)
        }
      })"
  by pat_completeness auto
termination
  by (relation "measure (\<lambda>(fs, ops). length ops)") (auto simp: run_length_pos)

text \<open>A request of several blocks: the checks of \<^verbatim>\<open>comm_submit_rw_request_common\<close> for \<open>n\<close> blocks of eight sectors.\<close>

definition comm_submit_rw_request_blocks :: "comm_dev \<Rightarrow> u64 \<Rightarrow> u64 \<Rightarrow> rc" where
  "comm_submit_rw_request_blocks dev lba n =
     (if blockSize dev = 0 \<or> blockCount dev = 0 then EINVAL
      else let endLba = lba + 8 * n in
        if endLba < lba then EOVERFLOW
        else if lba \<ge> blockCount dev \<or> endLba > blockCount dev then EINVAL
        else let totalBytes64 = 8 * n * (ucast (blockSize dev) :: u64) in
          if totalBytes64 div ucast (blockSize dev) \<noteq> 8 * n then EOVERFLOW
          else if totalBytes64 > 0xFFFFFFFF then EOVERFLOW
          else if diskStart dev > 0xFFFFFFFFFFFFFFFF - lba then EOVERFLOW
          else drv_rc dev lba)"

definition comm_write_blocks :: "comm_dev \<Rightarrow> u64 \<Rightarrow> block list \<Rightarrow> rc \<times> comm_dev" where
  "comm_write_blocks dev lba bs =
     (let r = comm_submit_rw_request_blocks dev lba (of_nat (length bs)) in
      if r = RC0 then (RC0, dev\<lparr>media := fold (\<lambda>j m. m(lba + 8 * of_nat j := bs ! j)) [0..<length bs] (media dev)\<rparr>)
      else (r, dev))"

text \<open>The number of pages that go into one request: at most 32, consecutive in the file and on the device.\<close>

fun rtfsFileBatchLength :: "RtfsFileDirtyPageWriteOp \<Rightarrow> RtfsFileDirtyPageWriteOp list \<Rightarrow> nat \<Rightarrow> nat" where
  "rtfsFileBatchLength x [] b = b"
| "rtfsFileBatchLength x (y # ys) b =
     (if b < 32 \<and> unat (wop_block_index y) = unat (wop_block_index x) + b \<and> unat (wop_new_lpa y) = unat (wop_new_lpa x) + b
      then rtfsFileBatchLength x ys (Suc b) else b)"

lemma batch_length_ge: "b \<le> rtfsFileBatchLength x ys b"
  by (induction x ys b rule: rtfsFileBatchLength.induct) auto

function rtfsFileWriteBatches :: "comm_dev \<Rightarrow> PageCache \<Rightarrow> RtfsFileDirtyPageWriteOp list \<Rightarrow> rc \<times> comm_dev" where
  "rtfsFileWriteBatches dev pc [] = (RC0, dev)"
| "rtfsFileWriteBatches dev pc (x # xs) =
     (let n = rtfsFileBatchLength x xs 1;
          (ret, dev) = comm_write_blocks dev (LPA_TO_LBA32 (wop_new_lpa x))
             (map (\<lambda>op. pageEntryGetBuffer pc (wop_page op)) (take n (x # xs))) in
      if ret \<noteq> RC0 then (ret, dev) else rtfsFileWriteBatches dev pc (drop n (x # xs)))"
  by pat_completeness auto
termination
  using batch_length_ge [of 1] by (relation "measure (\<lambda>(dev, pc, ops). length ops)") (auto simp: Suc_le_eq)

definition rtfsFileInodeAppendPendingDataRelocation :: "RtfsFileInode \<Rightarrow> u32 \<Rightarrow> u32 \<Rightarrow> u32 \<Rightarrow> rc \<times> RtfsFileInode" where
  "rtfsFileInodeAppendPendingDataRelocation fi block_index old_lpa new_lpa =
     (if new_lpa = INVALID_LPA then (EINVAL, fi)
      else (RC0, fi\<lparr>fi_relocations := fi_relocations fi @
        [\<lparr>pr_block_index = block_index, pr_old_lpa = old_lpa, pr_new_lpa = new_lpa\<rparr>]\<rparr>))"

fun rtfsFileAppendRelocations :: "RtfsFileInode \<Rightarrow> RtfsFileDirtyPageWriteOp list \<Rightarrow> rc \<times> RtfsFileInode" where
  "rtfsFileAppendRelocations fi [] = (RC0, fi)"
| "rtfsFileAppendRelocations fi (x # xs) =
     (let (ret, fi) = rtfsFileInodeAppendPendingDataRelocation fi (wop_block_index x) (wop_old_lpa x) (wop_new_lpa x) in
      if ret \<noteq> RC0 then (ret, fi) else rtfsFileAppendRelocations fi xs)"

fun rtfsFileUndoAlloc :: "file_system_manager \<Rightarrow> SitOperator \<Rightarrow> RtfsFileDirtyPageWriteOp list \<Rightarrow> file_system_manager option" where
  "rtfsFileUndoAlloc fs sit_op [] = Some fs"
| "rtfsFileUndoAlloc fs sit_op (x # xs) = do {
     fs \<leftarrow> sitInvalidateLpa fs sit_op (wop_new_lpa x);
     rtfsFileUndoAlloc fs sit_op xs
   }"

definition rtfsFileInodeWriteDirtyPagesCow ::
  "file_system_manager \<Rightarrow> RtfsFileInode \<Rightarrow> (rc \<times> file_system_manager \<times> RtfsFileInode) option" where
  "rtfsFileInodeWriteDirtyPagesCow fs fi =
     (let pc = fi_page_cache fi; sit_op = sitOperatorInit fs in
      if pageCacheGetDirtyPages pc = [] then Some (RC0, fs, fi)
      else do {
        let (ret, ops) = rtfsFileCollectDirtyPages pc (pageCacheGetDirtyPages pc) [];
        (ret, ops, fs) \<leftarrow> (if ret \<noteq> RC0 then Some (ret, ops, fs) else rtfsFileAllocAll fs ops);
        let (ret, dev) = (if ret \<noteq> RC0 then (ret, fs_dev fs) else rtfsFileWriteBatches (fs_dev fs) pc ops);
        let fs = fs\<lparr>fs_dev := dev\<rparr>;
        let (ret, fi) = (if ret \<noteq> RC0 then (ret, fi) else rtfsFileAppendRelocations fi ops);
        if ret \<noteq> RC0 then do { fs \<leftarrow> rtfsFileUndoAlloc fs sit_op ops; Some (ret, fs, fi) }
        else Some (RC0, fs, fi)
      })"

definition rtfsFileInodeWritebackContentCow ::
  "file_system_manager \<Rightarrow> RtfsFileInode \<Rightarrow> (rc \<times> file_system_manager \<times> RtfsFileInode) option" where
  "rtfsFileInodeWritebackContentCow fs fi = rtfsFileInodeWriteDirtyPagesCow fs fi"

subsection \<open>Switching the map to the new blocks\<close>

text \<open>
  The loop over the pending relocations: \<open>done'\<close> are those it is through with, in order. A relocation whose new LPA is invalid is
  skipped; a finished one gets an invalid new LPA.
\<close>

fun rtfsFileApplyRelocationsLoop ::
  "os_env \<Rightarrow> file_system_manager \<Rightarrow> RtfsFileInode \<Rightarrow> RtfsFilePendingDataCowRelocation list \<Rightarrow>
    RtfsFilePendingDataCowRelocation list \<Rightarrow> (rc \<times> file_system_manager \<times> RtfsFileInode) option" where
  "rtfsFileApplyRelocationsLoop os fs fi done' [] = Some (RC0, fs, fi\<lparr>fi_relocations := done'\<rparr>)"
| "rtfsFileApplyRelocationsLoop os fs fi done' (r # rs) =
     (if pr_new_lpa r = INVALID_LPA then rtfsFileApplyRelocationsLoop os fs fi (done' @ [r]) rs
      else do {
        (ret, old_lpa, fs) \<leftarrow> rtfsFileSetDataLpaByBlockIndex (os_junk os) fs fi (pr_block_index r) (pr_new_lpa r) True;
        if ret \<noteq> RC0 then Some (ret, fs, fi\<lparr>fi_relocations := done' @ r # rs\<rparr>)
        else do {
          let fs = srmapUtilsWriteSrmapOfData (os_junk os 0) fs (pr_new_lpa r) (ucast (fi_ino fi)) (pr_block_index r);
          (page_entry, m) \<leftarrow> genericCacheManagerGet (pc_mgr (fi_page_cache fi)) (pr_block_index r) False;
          let pc = (fi_page_cache fi)\<lparr>pc_mgr := m\<rparr>;
          let pc = (case page_entry of None \<Rightarrow> pc
                    | Some a \<Rightarrow> pageEntrySetState (pageEntrySetLpa pc a (pr_new_lpa r)) a PAGE_READY);
          let r' = r\<lparr>pr_old_lpa := (if pr_old_lpa r = INVALID_LPA then old_lpa else pr_old_lpa r), pr_new_lpa := INVALID_LPA\<rparr>;
          rtfsFileApplyRelocationsLoop os fs (fi\<lparr>fi_page_cache := pc\<rparr>) (done' @ [r']) rs
        }
      })"

definition rtfsFileInodeApplyPendingDataRelocations ::
  "os_env \<Rightarrow> file_system_manager \<Rightarrow> RtfsFileInode \<Rightarrow> (rc \<times> file_system_manager \<times> RtfsFileInode) option" where
  "rtfsFileInodeApplyPendingDataRelocations os fs fi =
     (if fi_relocations fi = [] then Some (RC0, fs, fi)
      else do {
        (ret, fs, fi) \<leftarrow> rtfsFileApplyRelocationsLoop os fs fi [] (fi_relocations fi);
        if ret \<noteq> RC0 then Some (ret, fs, fi)
        else do {
          fs \<leftarrow> srmapUtilsWriteDirtySrmapSync (os_accepts os) fs (os_srmapOrder os fs);
          pc \<leftarrow> pageCacheClearDirtyPages (fi_page_cache fi);
          Some (RC0, fs, fi\<lparr>fi_page_cache := pc, fi_relocations := []\<rparr>)
        }
      })"

definition rtfsFileInodeApplyPendingCowRelocations ::
  "os_env \<Rightarrow> file_system_manager \<Rightarrow> RtfsFileInode \<Rightarrow> (rc \<times> file_system_manager \<times> RtfsFileInode) option" where
  "rtfsFileInodeApplyPendingCowRelocations os fs fi = rtfsFileInodeApplyPendingDataRelocations os fs fi"

text \<open>The old LPAs of the relocations and of truncations, valid ones only, into an array of \<open>max_count\<close> entries.\<close>

fun rtfsFileCollectOldLpas :: "u32 list \<Rightarrow> nat \<Rightarrow> u32 list \<Rightarrow> rc \<times> u32 list" where
  "rtfsFileCollectOldLpas [] max_count out = (RC0, out)"
| "rtfsFileCollectOldLpas (l # ls) max_count out =
     (if l = INVALID_LPA then rtfsFileCollectOldLpas ls max_count out
      else if length out \<ge> max_count then (ENOSPC, out)
      else rtfsFileCollectOldLpas ls max_count (out @ [l]))"

definition rtfsFileInodeCollectPendingDataCowOldLpas :: "RtfsFileInode \<Rightarrow> nat \<Rightarrow> rc \<times> u32 list" where
  "rtfsFileInodeCollectPendingDataCowOldLpas fi max_count =
     (let (ret, out) = rtfsFileCollectOldLpas (map pr_old_lpa (fi_relocations fi)) max_count [] in
      if ret \<noteq> RC0 then (ret, out) else rtfsFileCollectOldLpas (fi_truncate_old_lpas fi) max_count out)"

subsection \<open>Committing\<close>

datatype RtfsFileCommitMode = RTFS_FILE_COMMIT_MODE_FULL | RTFS_FILE_COMMIT_MODE_FDATASYNC

text \<open>\<open>rtfsFileInodeMoveJournalContainer\<close> returns the destination and the source, which is empty again.\<close>

definition rtfsFileInodeMoveJournalContainer :: "JournalContainer \<Rightarrow> JournalContainer \<times> JournalContainer" where
  "rtfsFileInodeMoveJournalContainer src = (src, journalContainerInit)"

definition rtfsFileInodeSubmitJournal :: "JournalProcessEnv \<Rightarrow> JournalContainer \<Rightarrow> rc \<times> u64 \<times> JournalProcessEnv" where
  "rtfsFileInodeSubmitJournal env journal =
     (let (tx_id, env) = journalProcessEnvAllocTxId env;
          env = journalProcessEnvCommitJournal env (journalContainerSetTxId journal tx_id)
      in (RC0, tx_id, env))"

record fs_world =
  w_fs :: file_system_manager
  w_registry :: CowReclaimRegistry
  w_env :: JournalProcessEnv

text \<open>The relocation of the nodes and the old LPAs it leaves, as far as the call that switches them.\<close>

definition rtfsFileCommitNodes :: "os_env \<Rightarrow> file_system_manager \<Rightarrow> (rc \<times> u32 list \<times> file_system_manager) option" where
  "rtfsFileCommitNodes os fs = do {
     (ret, fs) \<leftarrow> nodeBlockCacheWritebackDirtyContentCow fs;
     if ret \<noteq> RC0 then Some (ret, [], fs)
     else
       let (ret, old_node_lpas) =
         (if nbc_cur (node_cache fs) > 0 then
            (case nodeBlockCacheCollectPendingCowRelocations fs (os_nodeOrder os fs) (nbc_cur (node_cache fs)) of
               Inl e \<Rightarrow> (e, [])
             | Inr rels \<Rightarrow> (RC0, filter (\<lambda>l. l \<noteq> INVALID_LPA) (map rel_oldLpa rels)))
          else (RC0, []))
       in if ret \<noteq> RC0 then Some (ret, [], fs)
          else do {
            fs \<leftarrow> nodeBlockCacheApplyPendingCowRelocations (os_junk os 0) (os_accepts os) fs (os_nodeOrder os fs) (os_srmapOrder os fs);
            Some (RC0, old_node_lpas, fs)
          }
   }"

definition rtfsFileInodeCommitCowWritebackInternal ::
  "os_env \<Rightarrow> fs_world \<Rightarrow> RtfsFileInode \<Rightarrow> RtfsFileCommitMode \<Rightarrow> (rc \<times> u64 \<times> fs_world \<times> RtfsFileInode) option" where
  "rtfsFileInodeCommitCowWritebackInternal os w fi mode = do {
     (ret, g, fs) \<leftarrow> (if mode = RTFS_FILE_COMMIT_MODE_FULL then cowReclaimRegistryDrainCompleted (w_registry w) (w_fs w)
                       else Some (RC0, w_registry w, w_fs w));
     let w = w\<lparr>w_fs := fs, w_registry := g\<rparr>;
     if ret \<noteq> RC0 then Some (ret, 0, w, fi)
     else do {
       (ret, fs, fi) \<leftarrow> rtfsFileInodeWritebackContentCow (w_fs w) fi;
       let w = w\<lparr>w_fs := fs\<rparr>;
       if ret \<noteq> RC0 then Some (ret, 0, w, fi)
       else
         let old_data_capacity = length (fi_relocations fi) + length (fi_truncate_old_lpas fi);
             (ret, old_data_lpas) = (if old_data_capacity > 0 then rtfsFileInodeCollectPendingDataCowOldLpas fi old_data_capacity
                                     else (RC0, []))
         in if ret \<noteq> RC0 then Some (ret, 0, w, fi)
         else do {
           (ret, fs, fi) \<leftarrow> rtfsFileInodeApplyPendingCowRelocations os (w_fs w) fi;
           let w = w\<lparr>w_fs := fs\<rparr>;
           if ret \<noteq> RC0 then Some (ret, 0, w, fi)
           else do {
             (ret, fi, fs) \<leftarrow> (if fi_is_dirty fi then rtfsFileInodeSyncMetadataToDisk (w_fs w) fi else Some (RC0, fi, w_fs w));
             let w = w\<lparr>w_fs := fs\<rparr>;
             if ret \<noteq> RC0 then Some (ret, 0, w, fi)
             else do {
               (ret, old_node_lpas, fs) \<leftarrow> rtfsFileCommitNodes os (w_fs w);
               let w = w\<lparr>w_fs := fs\<rparr>;
               if ret \<noteq> RC0 then Some (ret, 0, w, fi)
               else if journalContainerIsEmpty (cur_journal fs) then
                 Some (RC0, 0, w, (rtfsFileInodeClearPendingCowState fi)\<lparr>fi_is_dirty := False\<rparr>)
               else do {
                 let (to_commit, cur) = rtfsFileInodeMoveJournalContainer (cur_journal fs);
                 let (ret, tx_id, env) = rtfsFileInodeSubmitJournal (w_env w) to_commit;
                 let (_, g, fs) = cowReclaimRegistryRegister (w_registry w) (fs\<lparr>cur_journal := cur\<rparr>) tx_id old_data_lpas old_node_lpas [];
                 Some (RC0, tx_id, w\<lparr>w_fs := fs, w_registry := g, w_env := env\<rparr>,
                   (rtfsFileInodeClearPendingCowState fi)\<lparr>fi_is_dirty := False\<rparr>)
               }
             }
           }
         }
     }
   }"

definition rtfsFileInodeCommitCowWritebackWithTxId ::
  "os_env \<Rightarrow> fs_world \<Rightarrow> RtfsFileInode \<Rightarrow> (rc \<times> u64 \<times> fs_world \<times> RtfsFileInode) option" where
  "rtfsFileInodeCommitCowWritebackWithTxId os w fi = rtfsFileInodeCommitCowWritebackInternal os w fi RTFS_FILE_COMMIT_MODE_FULL"

definition rtfsFileInodeCommitCowWriteback :: "os_env \<Rightarrow> fs_world \<Rightarrow> RtfsFileInode \<Rightarrow> (rc \<times> fs_world \<times> RtfsFileInode) option" where
  "rtfsFileInodeCommitCowWriteback os w fi =
     map_option (\<lambda>(ret, _, w, fi). (ret, w, fi)) (rtfsFileInodeCommitCowWritebackInternal os w fi RTFS_FILE_COMMIT_MODE_FULL)"

definition rtfsFileInodeFdatasync :: "os_env \<Rightarrow> fs_world \<Rightarrow> RtfsFileInode \<Rightarrow> (rc \<times> fs_world \<times> RtfsFileInode) option" where
  "rtfsFileInodeFdatasync os w fi =
     map_option (\<lambda>(ret, _, w, fi). (ret, w, fi)) (rtfsFileInodeCommitCowWritebackInternal os w fi RTFS_FILE_COMMIT_MODE_FDATASYNC)"

end
