(* ===== verification/File_Rw_Spec.thy ===== *)
theory File_Rw_Spec
  imports File_Map_Spec File_Inode
begin

text \<open>
  What \<^verbatim>\<open>rtfsFileInodeRead\<close> and \<^verbatim>\<open>rtfsFileInodeWrite\<close> promise: the file is an array of bytes. A byte is in the page cache or in
  the block that the block map names; the two operations refine reading and updating a range of the array.
\<close>

declare rtfsFileInodeReadLoop.simps [simp del] rtfsFileInodeWriteLoop.simps [simp del]

subsection \<open>A page cache in front of blocks\<close>

text \<open>
  \<open>pg_view D c k\<close> is the content of the block \<open>k\<close>, where \<open>D\<close> is the content below the cache. \<open>pg_inv D H c\<close>: \<open>H k\<close> handles
  refer to the page \<open>k\<close> and clean pages agree with \<open>D\<close>.
\<close>

definition pg_view :: "(u32 \<Rightarrow> block) \<Rightarrow> PageCache \<Rightarrow> u32 \<Rightarrow> block" where
  "pg_view D c k = (case pc_ents c k of
     Some a \<Rightarrow> if pe_contentState (pc_heap c a) = PAGE_READY then pe_page (pc_heap c a) else D k
   | None \<Rightarrow> D k)"

definition pg_inv :: "(u32 \<Rightarrow> block) \<Rightarrow> (u32 \<Rightarrow> nat) \<Rightarrow> PageCache \<Rightarrow> bool" where
  "pg_inv D H c \<longleftrightarrow> pc_inv c \<and> (\<forall>k a. pc_ents c k = Some a \<longrightarrow>
     unat (pc_refs c a) = H k + (if pe_isDirty (pc_heap c a) then 1 else 0) \<and>
     (\<not> pe_isDirty (pc_heap c a) \<and> pe_contentState (pc_heap c a) = PAGE_READY \<longrightarrow> (\<forall>i < 4096. pe_page (pc_heap c a) i = D k i)))"

abbreviation pg_same :: "(u32 \<Rightarrow> block) \<Rightarrow> PageCache \<Rightarrow> PageCache \<Rightarrow> bool" where
  "pg_same D c c' \<equiv> \<forall>k. \<forall>i < 4096. pg_view D c' k i = pg_view D c k i"

lemma pg_invD:
  assumes "pg_inv D H c" and "pc_ents c k = Some a"
  shows "unat (pc_refs c a) = H k + (if pe_isDirty (pc_heap c a) then 1 else 0)"
    and "\<not> pe_isDirty (pc_heap c a) \<Longrightarrow> pe_contentState (pc_heap c a) = PAGE_READY \<Longrightarrow> i < 4096 \<Longrightarrow> pe_page (pc_heap c a) i = D k i"
  using assms unfolding pg_inv_def by blast+

lemma pg_get:
  assumes "pg_inv D (\<lambda>_. 0) c"
  shows "\<exists>a c'. pageCacheGet junk c k = Some (a, c') \<and> pg_inv D ((\<lambda>_. 0)(k := 1)) c' \<and> pc_ents c' k = Some a \<and> pg_same D c c'"
proof -
  have inv: "pc_inv c" using assms by (simp add: pg_inv_def)
  have r: "\<forall>a. pc_ents c k = Some a \<longrightarrow> pc_refs c a \<noteq> - 1"
  proof (intro allI impI notI)
    fix a
    assume "pc_ents c k = Some a" and "pc_refs c a = - 1"
    then show False using pg_invD(1) [OF assms, of k a] by (simp add: unat_neg1_u32 split: if_splits)
  qed
  obtain a c' where g: "pageCacheGet junk c k = Some (a, c')" "pc_inv c'" "pc_ents c' k = Some a" "pc_other c c' k"
    and e: "case pc_ents c k of
       Some b \<Rightarrow> a = b \<and> pc_heap c' a = (pc_heap c a)\<lparr>pe_refCount := pc_refs c a + 1\<rparr>
     | None \<Rightarrow> pc_fresh (pc_heap c' a) k \<and>
         (pc_curSize c' \<le> pc_expectSize c \<or> (\<forall>j b. pc_ents c' j = Some b \<longrightarrow> pc_refs c' b \<noteq> 0))"
    using pc_get [OF inv r] by blast
  have other: "pc_ents c j = Some b" "pc_heap c' b = pc_heap c b" if "j \<noteq> k" "pc_ents c' j = Some b" for j b
    using g(4) that unfolding pc_other_def by blast+
  have gone: "pc_refs c b = 0" if "j \<noteq> k" "pc_ents c j = Some b" "pc_ents c' j = None" for j b
    using g(4) that unfolding pc_other_def by force
  have "pg_view D c' j i = pg_view D c j i" if "i < 4096" for j i
  proof (cases "j = k")
    case True
    then show ?thesis
      using g(3) e by (cases "pc_ents c k") (auto simp: pg_view_def pc_fresh_def)
  next
    case False
    show ?thesis
    proof (cases "pc_ents c' j")
      case (Some b)
      then show ?thesis using other [OF False Some] by (simp add: pg_view_def)
    next
      case None
      show ?thesis
      proof (cases "pc_ents c j")
        case (Some b)
        have "\<not> pe_isDirty (pc_heap c b)"
          using gone [OF False Some None] pg_invD(1) [OF assms Some] by (simp split: if_splits)
        then show ?thesis using Some None pg_invD(2) [OF assms Some _ _ that] by (simp add: pg_view_def)
      qed (use None in \<open>simp add: pg_view_def\<close>)
    qed
  qed
  moreover have "pg_inv D ((\<lambda>_. 0)(k := 1)) c'"
    unfolding pg_inv_def
  proof (intro conjI allI impI)
    show "pc_inv c'" by (rule g(2))
    fix j b
    assume b: "pc_ents c' j = Some b"
    show "unat (pc_refs c' b) = ((\<lambda>_. 0)(k := 1)) j + (if pe_isDirty (pc_heap c' b) then 1 else 0)"
    proof (cases "j = k")
      case True
      then have "b = a" using b g(3) by simp
      show ?thesis
      proof (cases "pc_ents c k")
        case None
        then show ?thesis using e True \<open>b = a\<close> by (simp add: pc_fresh_def)
      next
        case (Some a')
        have "a' = a" "pc_heap c' a = (pc_heap c a)\<lparr>pe_refCount := pc_refs c a + 1\<rparr>" using e unfolding Some option.case by blast+
        then show ?thesis
          using True \<open>b = a\<close> pg_invD(1) [OF assms, of k a] r Some unat_add1_u32 [of "pc_refs c a"] by simp
      qed
    next
      case False
      then show ?thesis using other [OF False b] pg_invD(1) [OF assms, of j b] by simp
    qed
    fix i :: nat
    assume d: "\<not> pe_isDirty (pc_heap c' b) \<and> pe_contentState (pc_heap c' b) = PAGE_READY" and "i < 4096"
    show "pe_page (pc_heap c' b) i = D j i"
    proof (cases "j = k")
      case True
      then show ?thesis
        using b g(3) e d \<open>i < 4096\<close> pg_invD(2) [OF assms, of k b i] by (cases "pc_ents c k") (auto simp: pc_fresh_def)
    next
      case False
      then show ?thesis using other [OF False b] pg_invD(2) [OF assms, of j b i] d \<open>i < 4096\<close> by simp
    qed
  qed
  ultimately show ?thesis using g(1,3) by blast
qed

lemma pg_view_upd:
  assumes "pc_rc c" and "pc_ents c k = Some a" and "pc_ents c' = pc_ents c" and "pc_heap c' = (pc_heap c)(a := e)"
  shows "pg_view D c' = (pg_view D c)(k := if pe_contentState e = PAGE_READY then pe_page e else D k)"
proof (rule ext)
  fix j
  show "pg_view D c' j = ((pg_view D c)(k := if pe_contentState e = PAGE_READY then pe_page e else D k)) j"
  proof (cases "j = k")
    case False
    then have "pc_ents c j \<noteq> Some a" using pc_inj [OF assms(1,2)] by blast
    then show ?thesis using False by (simp add: pg_view_def assms(3,4) split: option.split)
  qed (use assms(2-4) in \<open>simp add: pg_view_def\<close>)
qed

text \<open>Changing the page, its LPA and its state, but neither its references nor its dirty flag.\<close>

lemma pg_set:
  assumes "pg_inv D H c" and "pc_ents c k = Some a"
    and "pe_blkoff e = pc_keys c a" and "pe_refCount e = pc_refs c a" and "pe_isDirty e = pe_isDirty (pc_heap c a)"
    and "\<not> pe_isDirty e \<Longrightarrow> pe_contentState e = PAGE_READY \<Longrightarrow> \<forall>i < 4096. pe_page e i = D k i"
  shows "pg_inv D H (pc_set c a e)"
    and "pg_view D (pc_set c a e) = (pg_view D c)(k := if pe_contentState e = PAGE_READY then pe_page e else D k)"
proof -
  let ?c = "pc_set c a e"
  have i: "pc_rc c" "pc_tree c" "pc_curSize c = card (dom (pc_ents c))"
    using assms(1) by (simp_all add: pg_inv_def pc_inv_def pc_base_def)
  have only: "j = k" if "pc_ents c j = Some a" for j using pc_inj [OF i(1) assms(2) that] .
  have "pc_rc ?c" by (rule pc_rc_cong [OF i(1)]) (use assms(3,4) in auto)
  moreover have "pc_tree ?c" by (rule pc_tree_cong [OF i(2)]) (use assms(4,5) in auto)
  ultimately have inv: "pc_inv ?c" using i(3) by (simp add: pc_inv_def pc_base_def)
  have "unat (pc_refs ?c b) = H j + (if pe_isDirty (pc_heap ?c b) then 1 else 0) \<and>
     (\<not> pe_isDirty (pc_heap ?c b) \<and> pe_contentState (pc_heap ?c b) = PAGE_READY \<longrightarrow> (\<forall>i < 4096. pe_page (pc_heap ?c b) i = D j i))"
    if "pc_ents c j = Some b" for j b
  proof (cases "b = a")
    case True
    then show ?thesis using only [of j] that pg_invD(1) [OF assms(1,2)] assms(4-6) by simp
  next
    case False
    then show ?thesis using pg_invD [OF assms(1) that] by simp
  qed
  with inv show "pg_inv D H ?c" by (simp add: pg_inv_def)
  show "pg_view D ?c = (pg_view D c)(k := if pe_contentState e = PAGE_READY then pe_page e else D k)"
    by (rule pg_view_upd [OF i(1) assms(2)]) simp_all
qed

text \<open>Dropping the handle.\<close>

lemma pg_put:
  assumes "pg_inv D ((\<lambda>_. 0)(k := 1)) c" and "pc_ents c k = Some a"
  shows "\<exists>c'. pageEntryHandleDestroy c (Some a) = Some c' \<and> pg_inv D (\<lambda>_. 0) c' \<and> pg_view D c' = pg_view D c"
proof -
  let ?e = "(pc_heap c a)\<lparr>pe_refCount := pc_refs c a - 1\<rparr>"
  have i: "pc_rc c" "pc_tree c" "pc_curSize c = card (dom (pc_ents c))"
    using assms(1) by (simp_all add: pg_inv_def pc_inv_def pc_base_def)
  have n: "unat (pc_refs c a) = (if pe_isDirty (pc_heap c a) then 2 else 1)" using pg_invD(1) [OF assms] by simp
  then have nz: "pc_refs c a \<noteq> 0" "pc_refs c a = 1 \<longrightarrow> \<not> pe_isDirty (pc_heap c a)" by (auto split: if_splits)
  obtain m where m: "pageCacheSubRefCount c a = Some (c\<lparr>pc_heap := (pc_heap c)(a := ?e), pc_mgr := m\<rparr>)"
    "pc_rc (c\<lparr>pc_heap := (pc_heap c)(a := ?e), pc_mgr := m\<rparr>)" "gcm_entries m = pc_ents c"
    using pc_sub_ref [OF i(1) assms(2) nz] by blast
  let ?c = "c\<lparr>pc_heap := (pc_heap c)(a := ?e), pc_mgr := m\<rparr>"
  have only: "j = k" if "pc_ents c j = Some a" for j using pc_inj [OF i(1) assms(2) that] .
  have n': "unat (pc_refs c a - 1) = (if pe_isDirty (pc_heap c a) then 1 else 0)" using n unat_sub1_u32 [OF nz(1)] by auto
  have "pc_tree ?c" by (rule pc_tree_cong [OF i(2)]) (use m(3) n' in \<open>auto simp: unat_eq_zero split: if_splits\<close>)
  then have "pg_inv D (\<lambda>_. 0) ?c"
    unfolding pg_inv_def
  proof (intro conjI allI impI)
    show "pc_inv ?c" using m(2,3) i(3) \<open>pc_tree ?c\<close> by (simp add: pc_inv_def pc_base_def)
    fix j b
    assume "pc_ents ?c j = Some b"
    then have b: "pc_ents c j = Some b" using m(3) by simp
    show "unat (pc_refs ?c b) = 0 + (if pe_isDirty (pc_heap ?c b) then 1 else 0)"
    proof (cases "b = a")
      case False
      then have "j \<noteq> k" using b assms(2) by auto
      then show ?thesis using False pg_invD(1) [OF assms(1) b] by simp
    qed (use n' in simp)
    show "pe_page (pc_heap ?c b) i = D j i"
      if "\<not> pe_isDirty (pc_heap ?c b) \<and> pe_contentState (pc_heap ?c b) = PAGE_READY" "i < 4096" for i
      using pg_invD(2) [OF assms(1) b, of i] that by (simp split: if_splits)
  qed
  moreover have "pg_view D ?c = pg_view D c"
    using m(3) by (auto simp: pg_view_def fun_eq_iff split: option.split)
  ultimately show ?thesis
    using m(1) by (intro exI [of _ ?c]) (simp add: pageEntryHandleDestroy_def pageEntryHandleDoSubRef_def)
qed

text \<open>Replacing the content of the held page and marking it dirty.\<close>

lemma pg_write:
  assumes "pg_inv D ((\<lambda>_. 0)(k := 1)) c" and "pc_ents c k = Some a"
  shows "\<exists>c'. pageEntryHandleMakeDirty (pageEntrySetState (pc_set c a ((pc_heap c a)\<lparr>pe_page := data\<rparr>)) a PAGE_READY) a = Some c' \<and>
    pg_inv D ((\<lambda>_. 0)(k := 1)) c' \<and> pc_ents c' k = Some a \<and> pg_view D c' = (pg_view D c)(k := data)"
proof -
  let ?H = "(\<lambda>_. 0 :: nat)(k := 1)" and ?e = "(pc_heap c a)\<lparr>pe_page := data, pe_contentState := PAGE_READY\<rparr>"
  let ?c = "pageEntrySetState (pc_set c a ((pc_heap c a)\<lparr>pe_page := data\<rparr>)) a PAGE_READY"
  have eq: "?c = pc_set c a ?e" by (simp add: pageEntrySetState_def)
  have rc: "pc_rc c" using assms(1) by (simp add: pg_inv_def pc_inv_def pc_base_def)
  have only: "j = k" if "pc_ents c j = Some a" for j using pc_inj [OF rc assms(2) that] .
  show ?thesis
  proof (cases "pe_isDirty (pc_heap c a)")
    case True
    then have "pageEntryHandleMakeDirty ?c a = Some ?c"
      by (simp add: eq pageEntryHandleMakeDirty_def pageEntryMarkDirty_def)
    then show ?thesis
      using pg_set [OF assms, of ?e] True assms(2) unfolding eq by simp
  next
    case False
    have n: "unat (pc_refs c a) = 1" using pg_invD(1) [OF assms] False by simp
    then have r: "pc_refs c a = 1" by (simp add: word_unat_eq_iff)
    have "pc_rc ?c" unfolding eq by (rule pc_rc_cong [OF rc]) auto
    moreover have "pc_tree ?c"
      by (rule pc_tree_cong [of c]) (use assms(1) in \<open>auto simp: eq pg_inv_def pc_inv_def\<close>)
    ultimately have ci: "pc_inv ?c" using assms(1) by (simp add: eq pg_inv_def pc_inv_def pc_base_def)
    let ?e' = "?e\<lparr>pe_isDirty := True, pe_refCount := 2\<rparr>"
    obtain m where m: "pageEntryHandleMakeDirty ?c a =
        Some (c\<lparr>pc_heap := (pc_heap c)(a := ?e'), pc_mgr := m, pc_dirtyPages := dp_put (pc_dirtyPages c) (k, a)\<rparr>)"
      "pc_inv (c\<lparr>pc_heap := (pc_heap c)(a := ?e'), pc_mgr := m, pc_dirtyPages := dp_put (pc_dirtyPages c) (k, a)\<rparr>)"
      "gcm_entries m = pc_ents c"
      using pc_make_dirty [OF ci, of k a] assms(2) r False by (auto simp: eq)
    let ?c' = "c\<lparr>pc_heap := (pc_heap c)(a := ?e'), pc_mgr := m, pc_dirtyPages := dp_put (pc_dirtyPages c) (k, a)\<rparr>"
    have "pg_inv D ?H ?c'"
      unfolding pg_inv_def
    proof (intro conjI allI impI)
      fix j b
      assume "pc_ents ?c' j = Some b"
      then have b: "pc_ents c j = Some b" using m(3) by simp
      show "unat (pc_refs ?c' b) = ?H j + (if pe_isDirty (pc_heap ?c' b) then 1 else 0)"
        using pg_invD(1) [OF assms(1) b] only [of j] b by simp
      show "pe_page (pc_heap ?c' b) i = D j i"
        if "\<not> pe_isDirty (pc_heap ?c' b) \<and> pe_contentState (pc_heap ?c' b) = PAGE_READY" "i < 4096" for i
        using pg_invD(2) [OF assms(1) b, of i] that by (simp split: if_splits)
    qed (rule m(2))
    moreover have "pg_view D ?c' = (pg_view D c)(k := data)"
      using pg_view_upd [OF rc assms(2), of ?c' ?e' D] m(3) by simp
    ultimately show ?thesis using m(1,3) assms(2) by (intro exI [of _ ?c']) simp
  qed
qed

subsection \<open>The blocks of a file\<close>

definition file_lpa :: "file_system_manager \<Rightarrow> u64 \<Rightarrow> u32 \<Rightarrow> u32" where
  "file_lpa fs ino k = (case file_path (unat k) of None \<Rightarrow> INVALID_LPA | Some p \<Rightarrow> node_walk (nb_view fs) (ucast ino) p)"

definition file_disk :: "file_system_manager \<Rightarrow> u64 \<Rightarrow> u32 \<Rightarrow> block" where
  "file_disk fs ino k = (let lpa = file_lpa fs ino k in
     if lpa = INVALID_LPA then zero_block else media (fs_dev fs) (LPA_TO_LBA32 lpa))"

text \<open>The byte \<open>x\<close> of the file, and the number of blocks that the block map has room for.\<close>

definition file_byte :: "file_system_manager \<Rightarrow> RtfsFileInode \<Rightarrow> nat \<Rightarrow> u8" where
  "file_byte fs fi x = pg_view (file_disk fs (fi_ino fi)) (fi_page_cache fi) (of_nat (x div 4096)) (x mod 4096)"

abbreviation (input) file_max :: nat where "file_max \<equiv> 1063291772"

text \<open>The inode is open, its nodes and blocks can be read, and \<open>n\<close> nodes can be loaded.\<close>

definition file_base :: "file_system_manager \<Rightarrow> u64 \<Rightarrow> nat option \<Rightarrow> nat \<Rightarrow> bool" where
  "file_base fs ino handle n \<longleftrightarrow> fm_inv fs n (\<lambda>_. 0) \<and>
     (\<exists>h. handle = Some h \<and> nb_ents (node_cache fs) (ucast ino) = Some h \<and> 0 < nb_ext (node_cache fs) (ucast ino) h) \<and>
     (\<forall>k p. file_path k = Some p \<longrightarrow> walk_ok fs (ucast ino) p) \<and>
     (\<forall>k. file_lpa fs ino k = INVALID_LPA \<or> dev_ok (fs_dev fs) (file_lpa fs ino k))"

definition file_ok :: "file_system_manager \<Rightarrow> RtfsFileInode \<Rightarrow> nat \<Rightarrow> bool" where
  "file_ok fs fi n \<longleftrightarrow> file_base fs (fi_ino fi) (fi_handle fi) n \<and>
     pg_inv (file_disk fs (fi_ino fi)) (\<lambda>_. 0) (fi_page_cache fi)"

lemma file_path_some: "(\<exists>p. file_path k = Some p) \<longleftrightarrow> k < file_max"
  by (auto simp: file_path_def Let_def)

lemma file_path_offs: "file_path k = Some p \<Longrightarrow> \<forall>off \<in> set p. off + 3 < 4096"
proof -
  assume p: "file_path k = Some p"
  consider "k < 932" | "\<not> k < 932" "k - 932 < 2040" | "\<not> k < 932" "\<not> k - 932 < 2040" "k - 932 - 2040 < 2080800"
    | "\<not> k < 932" "\<not> k - 932 < 2040" "\<not> k - 932 - 2040 < 2080800" by blast
  then show ?thesis
  proof cases
    case 4
    then have k: "k - 932 - 2040 - 2080800 < 1061208000" using p by (simp add: file_path_def Let_def split: if_splits)
    then have "(k - 932 - 2040 - 2080800) div 1040400 < 1020" by simp
    then show ?thesis using p 4 k by (auto simp: file_path_def Let_def)
  next
    case 3
    then have "(k - 932 - 2040) div 1040400 < 2" by simp
    then show ?thesis using p 3 by (auto simp: file_path_def Let_def)
  next
    case 2
    then have "(k - 932) div 1020 < 2" by simp
    then show ?thesis using p 2 by (auto simp: file_path_def Let_def)
  qed (use p in \<open>auto simp: file_path_def\<close>)
qed

lemma file_cong:
  assumes "fm_same fs fs'"
  shows "file_lpa fs' ino = file_lpa fs ino" and "file_disk fs' ino = file_disk fs ino"
proof -
  have "fs_dev fs' = fs_dev fs"
    using assms by (auto simp: fm_same_def dest!: arg_cong [where f = fs_dev])
  moreover show l: "file_lpa fs' ino = file_lpa fs ino"
    using walk_cong(1) [OF assms file_path_offs] by (auto simp: file_lpa_def fun_eq_iff split: option.split)
  ultimately show "file_disk fs' ino = file_disk fs ino" by (simp add: file_disk_def Let_def fun_eq_iff)
qed

lemma file_base_same:
  assumes "file_base fs ino handle m" and "fm_inv fs' n (\<lambda>_. 0)" and "fm_same fs fs'" and "fm_kept fs (\<lambda>_. 0) fs' (\<lambda>_. 0)"
  shows "file_base fs' ino handle n"
proof -
  have d: "fs_dev fs' = fs_dev fs"
    using assms(3) by (auto simp: fm_same_def dest!: arg_cong [where f = fs_dev])
  obtain h where h: "handle = Some h" "nb_ents (node_cache fs) (ucast ino) = Some h" "0 < nb_ext (node_cache fs) (ucast ino) h"
    using assms(1) by (auto simp: file_base_def)
  then have "nb_ents (node_cache fs') (ucast ino) = Some h" "0 < nb_ext (node_cache fs') (ucast ino) h"
    using assms(4) unfolding fm_kept_def by auto
  then show ?thesis
    using assms(1,2) h(1) walk_cong(2) [OF assms(3) file_path_offs]
    unfolding file_base_def file_cong [OF assms(3)] d by blast
qed

lemma file_resolve:
  assumes "file_base fs (fi_ino fi) (fi_handle fi) (n + 3)" and "unat k < file_max"
  shows "\<exists>fs'. rtfsFileResolveDataLpaByBlockIndex junk fs fi k = Some (RC0, file_lpa fs (fi_ino fi) k, fs') \<and>
    file_base fs' (fi_ino fi) (fi_handle fi) n \<and> fm_same fs fs'"
proof -
  obtain p where p: "file_path (unat k) = Some p" using assms(2) file_path_some by blast
  obtain h where h: "fm_inv fs (n + 3) (\<lambda>_. 0)" "fi_handle fi = Some h" "nb_ents (node_cache fs) (ucast (fi_ino fi)) = Some h"
    and w: "\<forall>p. file_path (unat k) = Some p \<longrightarrow> walk_ok fs (ucast (fi_ino fi)) p"
    using assms(1) unfolding file_base_def by blast
  obtain fs' where "rtfsFileResolveDataLpaByBlockIndex junk fs fi k = Some (RC0, file_lpa fs (fi_ino fi) k, fs')"
    "fm_inv fs' n (\<lambda>_. 0)" "fm_same fs fs'" "fm_kept fs (\<lambda>_. 0) fs' (\<lambda>_. 0)"
    using fm_resolve [OF h w, of junk] by (auto simp: p file_lpa_def)
  then show ?thesis using file_base_same [OF assms(1)] by blast
qed

lemma file_base_mono: "file_base fs ino handle (n + m) \<Longrightarrow> file_base fs ino handle n"
  unfolding file_base_def using fm_inv_le [of fs "n + m" _ n] by auto

text \<open>A page is prepared: held, and with the content of the block when that is asked for.\<close>

lemma prepare_read:
  fixes fs :: file_system_manager and fi :: RtfsFileInode
  defines "D \<equiv> file_disk fs (fi_ino fi)"
  assumes "file_ok fs fi (n + 3)" and "unat k < file_max"
  shows "\<exists>a fs' c. rtfsFileInodePreparePageForRead os fs fi k = Some (RC0, a, fs', fi\<lparr>fi_page_cache := c\<rparr>) \<and>
    file_base fs' (fi_ino fi) (fi_handle fi) n \<and> fm_same fs fs' \<and> pg_inv D ((\<lambda>_. 0)(k := 1)) c \<and> pc_ents c k = Some a \<and>
    pg_same D (fi_page_cache fi) c \<and> (\<forall>i < 4096. pageEntryGetBuffer c a i = pg_view D (fi_page_cache fi) k i)"
proof -
  have base: "file_base fs (fi_ino fi) (fi_handle fi) (n + 3)" and pg: "pg_inv D (\<lambda>_. 0) (fi_page_cache fi)"
    using assms(2) by (simp_all add: file_ok_def D_def)
  obtain a c where g: "pageCacheGet (os_junk os (unat k)) (fi_page_cache fi) k = Some (a, c)" "pg_inv D ((\<lambda>_. 0)(k := 1)) c"
    "pc_ents c k = Some a" "pg_same D (fi_page_cache fi) c"
    using pg_get [OF pg] by blast
  show ?thesis
  proof (cases "pageEntryGetState c a = PAGE_READY")
    case True
    then have "pageEntryGetBuffer c a = pg_view D c k"
      using g(3) by (simp add: pg_view_def pageEntryGetState_def pageEntryGetBuffer_def)
    then show ?thesis
      using True g base file_base_mono [OF base]
      by (intro exI [of _ a] exI [of _ fs] exI [of _ c]) (simp add: rtfsFileInodePreparePageForRead_def fm_same_refl)
  next
    case False
    then have view: "pg_view D c k = D k" using g(3) by (simp add: pg_view_def pageEntryGetState_def)
    let ?lpa = "file_lpa fs (fi_ino fi) k"
    obtain fs' where r: "rtfsFileResolveDataLpaByBlockIndex (os_junk os (unat k)) fs fi k = Some (RC0, ?lpa, fs')"
      "file_base fs' (fi_ino fi) (fi_handle fi) n" "fm_same fs fs'"
      using file_resolve [OF base assms(3)] by blast
    have dev: "fs_dev fs' = fs_dev fs"
      using r(3) by (auto simp: fm_same_def dest!: arg_cong [where f = fs_dev])
    have ok: "?lpa = INVALID_LPA \<or> dev_ok (fs_dev fs') ?lpa" using base dev by (simp add: file_base_def)
    define b where "b = (if ?lpa = INVALID_LPA then blk_fill (pageEntryGetBuffer c a) 0 4096 0
      else snd (blockBufferReadFromLpa (fs_dev fs') (pageEntryGetBuffer c a) ?lpa))"
    have b: "b i = D k i" if "i < 4096" for i
      using ok that by (auto simp: b_def D_def file_disk_def blk_fill_def zero_block_def blockBufferReadFromLpa_def comm_read_def dev)
    let ?e = "(pc_heap c a)\<lparr>pe_page := b, pe_lpa := ?lpa, pe_contentState := PAGE_READY\<rparr>"
    let ?c = "pc_set c a ?e"
    have eq: "pageEntrySetState (pageEntrySetLpa (pc_set c a ((pc_heap c a)\<lparr>pe_page := b\<rparr>)) a ?lpa) a PAGE_READY = ?c"
      by (simp add: pageEntrySetState_def pageEntrySetLpa_def)
    have rd: "(if ?lpa = INVALID_LPA then (RC0, blk_fill (pageEntryGetBuffer c a) 0 4096 0)
        else blockBufferReadFromLpa (fs_dev fs') (pageEntryGetBuffer c a) ?lpa) = (RC0, b)"
      using ok by (auto simp: b_def blockBufferReadFromLpa_def comm_read_def)
    have "rtfsFileInodePreparePageForRead os fs fi k = Some (RC0, a, fs', fi\<lparr>fi_page_cache := ?c\<rparr>)"
      using g(1) False r(1) by (simp add: rtfsFileInodePreparePageForRead_def rd Let_def eq)
    moreover have "pg_inv D ((\<lambda>_. 0)(k := 1)) ?c"
      by (rule pg_set(1) [OF g(2,3)]) (use b in simp_all)
    moreover have "pg_view D ?c = (pg_view D c)(k := b)"
      using pg_set(2) [OF g(2,3), of ?e] b by simp
    moreover have "pg_view D (fi_page_cache fi) k i = b i" if "i < 4096" for i
      using g(4) view b [OF that] that by (metis (no_types))
    ultimately show ?thesis
      using r(2,3) g(3,4)
      by (intro exI [of _ a] exI [of _ fs'] exI [of _ ?c]) (simp add: pageEntryGetBuffer_def)
  qed
qed

lemma prepare_write:
  fixes fs :: file_system_manager and fi :: RtfsFileInode
  defines "D \<equiv> file_disk fs (fi_ino fi)"
  assumes "file_ok fs fi (n + 3)" and "unat k < file_max"
  shows "\<exists>a fs' c. rtfsFileInodePreparePageForWrite os fs fi k keep = Some (RC0, a, fs', fi\<lparr>fi_page_cache := c\<rparr>) \<and>
    file_base fs' (fi_ino fi) (fi_handle fi) n \<and> fm_same fs fs' \<and> pg_inv D ((\<lambda>_. 0)(k := 1)) c \<and> pc_ents c k = Some a \<and>
    pg_same D (fi_page_cache fi) c \<and> (keep \<longrightarrow> (\<forall>i < 4096. pageEntryGetBuffer c a i = pg_view D (fi_page_cache fi) k i))"
proof (cases keep)
  case True
  then show ?thesis
    using prepare_read [OF assms(2,3), of os] unfolding D_def by (simp add: rtfsFileInodePreparePageForWrite_def)
next
  case False
  have base: "file_base fs (fi_ino fi) (fi_handle fi) (n + 3)" and pg: "pg_inv D (\<lambda>_. 0) (fi_page_cache fi)"
    using assms(2) by (simp_all add: file_ok_def D_def)
  obtain a c where g: "pageCacheGet (os_junk os (unat k)) (fi_page_cache fi) k = Some (a, c)" "pg_inv D ((\<lambda>_. 0)(k := 1)) c"
    "pc_ents c k = Some a" "pg_same D (fi_page_cache fi) c"
    using pg_get [OF pg] by blast
  obtain fs' where r: "rtfsFileResolveDataLpaByBlockIndex (os_junk os (unat k)) fs fi k = Some (RC0, file_lpa fs (fi_ino fi) k, fs')"
    "file_base fs' (fi_ino fi) (fi_handle fi) n" "fm_same fs fs'"
    using file_resolve [OF base assms(3)] by blast
  text \<open>In every case only the LPA in the page changes.\<close>
  have lpa: "pg_inv D ((\<lambda>_. 0)(k := 1)) (pageEntrySetLpa c a l)" "pc_ents (pageEntrySetLpa c a l) k = Some a"
    "pg_view D (pageEntrySetLpa c a l) = pg_view D c" if "pageEntryGetState c a \<noteq> PAGE_READY" for l
    using pg_set [OF g(2,3), of "(pc_heap c a)\<lparr>pe_lpa := l\<rparr>"] that g(3)
    by (simp_all add: pageEntrySetLpa_def pageEntryGetState_def pg_view_def fun_eq_iff)
  show ?thesis
  proof (cases "pageEntryGetState c a = PAGE_READY")
    case True
    then show ?thesis
      using False g file_base_mono [OF base]
      by (intro exI [of _ a] exI [of _ fs] exI [of _ c]) (simp add: rtfsFileInodePreparePageForWrite_def fm_same_refl)
  next
    case invalid: False
    show ?thesis
    proof (cases "ucast k \<ge> SIZE_TO_BLOCK (fi_size fi)")
      case True
      then show ?thesis
        using False invalid g(1,4) lpa [OF invalid, of INVALID_LPA] file_base_mono [OF base]
        by (intro exI [of _ a] exI [of _ fs] exI [of _ "pageEntrySetLpa c a INVALID_LPA"])
          (simp add: rtfsFileInodePreparePageForWrite_def fm_same_refl)
    next
      case beyond: False
      then show ?thesis
        using False invalid g(1,4) lpa [OF invalid, of "file_lpa fs (fi_ino fi) k"] r
        by (intro exI [of _ a] exI [of _ fs'] exI [of _ "pageEntrySetLpa c a (file_lpa fs (fi_ino fi) k)"])
          (simp add: rtfsFileInodePreparePageForWrite_def)
    qed
  qed
qed

subsection \<open>Reading\<close>

text \<open>Positions: a position below the limit of a file has a block index of 32 bits, and the chunk does not wrap.\<close>

lemma file_pos:
  fixes cur :: u64
  assumes "unat cur < 4096 * file_max"
  shows "\<not> cur div 4096 > 0xFFFFFFFF" and "unat (ucast (cur div 4096) :: u32) = unat cur div 4096"
    and "unat (cur mod 4096) = unat cur mod 4096" and "(of_nat (unat cur div 4096) :: u32) = ucast (cur div 4096)"
proof -
  have d: "unat (cur div 4096) = unat cur div 4096" "unat (cur mod 4096) = unat cur mod 4096"
    by (simp_all add: unat_div unat_mod)
  then have lt: "unat (cur div 4096) < file_max" using assms by simp
  show "\<not> cur div 4096 > 0xFFFFFFFF" using lt by (simp add: word_less_nat_alt)
  show u: "unat (ucast (cur div 4096) :: u32) = unat cur div 4096"
    using lt d by (simp add: unsigned_ucast_eq take_bit_eq_mod)
  show "unat (cur mod 4096) = unat cur mod 4096" by (rule d(2))
  show "(of_nat (unat cur div 4096) :: u32) = ucast (cur div 4096)"
    using arg_cong [OF u, of "of_nat :: nat \<Rightarrow> u32"] by simp
qed

lemma file_step:
  fixes cur :: u64
  assumes "unat cur + r \<le> 4096 * file_max" and "c \<le> r"
  shows "unat (cur + of_nat c) = unat cur + c"
proof -
  have "unat (of_nat c :: u64) = c" using assms by (simp add: unat_of_nat)
  then show ?thesis using assms unat_add_lem [of cur "of_nat c"] by simp
qed

text \<open>A chunk of bytes of one block of the file.\<close>

lemma file_chunk:
  assumes "unat cur < 4096 * file_max" and "unat cur mod 4096 + c \<le> 4096"
    and "\<forall>i < 4096. b i = pg_view (file_disk fs (fi_ino fi)) (fi_page_cache fi) (ucast ((cur :: u64) div 4096)) i"
  shows "blk_bytes b (unat (cur mod 4096)) c = map (file_byte fs fi) [unat cur..<unat cur + c]"
proof (rule nth_equalityI)
  fix j
  assume "j < length (blk_bytes b (unat (cur mod 4096)) c)"
  then have j: "j < c" by (simp add: blk_bytes_def)
  define q r where "q = unat cur div 4096" and "r = unat cur mod 4096"
  have "unat cur + j = q * 4096 + (r + j)" "r + j < 4096" using j assms(2) by (simp_all add: q_def r_def)
  then have m: "(unat cur + j) div 4096 = q" "(unat cur + j) mod 4096 = r + j"
    by (simp_all only: div_mult_self3 mod_mult_self3 mod_less div_less add_0_right)
  show "blk_bytes b (unat (cur mod 4096)) c ! j = map (file_byte fs fi) [unat cur..<unat cur + c] ! j"
    using j assms(3) \<open>r + j < 4096\<close> m file_pos(3,4) [OF assms(1)] by (simp add: blk_bytes_def file_byte_def q_def r_def)
qed (simp add: blk_bytes_def)

lemma file_ok_mono: "file_ok fs fi (n + m) \<Longrightarrow> file_ok fs fi n"
  unfolding file_ok_def using file_base_mono by blast

text \<open>The next round of a loop starts at the next block.\<close>

lemma file_next:
  fixes p r c B :: nat
  assumes "r \<noteq> 0" and "p mod 4096 + r \<le> 4096 * B" and "c = min (4096 - p mod 4096) r"
  shows "0 < r - c \<longrightarrow> (p + c) mod 4096 + (r - c) \<le> 4096 * (B - 1)" and "0 < B" and "0 < c" and "c \<le> r" and "p mod 4096 + c \<le> 4096"
proof -
  show "0 < B" using assms(1,2) by (cases B) simp_all
  have m: "p mod 4096 < 4096" by simp
  show "0 < c" "c \<le> r" "p mod 4096 + c \<le> 4096" using assms m by auto
  show "0 < r - c \<longrightarrow> (p + c) mod 4096 + (r - c) \<le> 4096 * (B - 1)"
  proof
    assume "0 < r - c"
    then have c: "c = 4096 - p mod 4096" using assms(3) by linarith
    then have "p + c = p div 4096 * 4096 + 4096" using div_mult_mod_eq [of p 4096] m by linarith
    then have "(p + c) mod 4096 = 0" by simp
    then show "(p + c) mod 4096 + (r - c) \<le> 4096 * (B - 1)" using assms(2) c m \<open>0 < B\<close> by (cases B) simp_all
  qed
qed

lemma read_loop:
  assumes "file_ok fs fi (n + 3 * B)" and "unat cur + r \<le> 4096 * file_max" and "0 < r \<longrightarrow> unat cur mod 4096 + r \<le> 4096 * B"
  shows "\<exists>fs' c. rtfsFileInodeReadLoop os fs fi cur r acc =
      Some (RC0, acc @ map (file_byte fs fi) [unat cur..<unat cur + r], cur + of_nat r, fs', fi\<lparr>fi_page_cache := c\<rparr>) \<and>
    file_ok fs' (fi\<lparr>fi_page_cache := c\<rparr>) n \<and> fm_same fs fs' \<and>
    (\<forall>x. file_byte fs' (fi\<lparr>fi_page_cache := c\<rparr>) x = file_byte fs fi x)"
  using assms
proof (induction B arbitrary: fs fi cur r acc)
  case 0
  then show ?case by (intro exI [of _ fs] exI [of _ "fi_page_cache fi"]) (simp add: fm_same_refl rtfsFileInodeReadLoop.simps)
next
  case (Suc B)
  show ?case
  proof (cases "r = 0")
    case True
    then show ?thesis
      using file_ok_mono [OF Suc.prems(1)]
      by (intro exI [of _ fs] exI [of _ "fi_page_cache fi"]) (simp add: fm_same_refl rtfsFileInodeReadLoop.simps)
  next
    case False
    let ?D = "file_disk fs (fi_ino fi)"
    define ch where "ch = min (4096 - unat cur mod 4096) r"
    have pre: "unat cur mod 4096 + r \<le> 4096 * Suc B" using Suc.prems(3) False by simp
    note nx = file_next [OF False pre ch_def]
    have lt: "unat cur < 4096 * file_max" using Suc.prems(2) False by simp
    note pos = file_pos [OF lt]
    let ?k = "ucast (cur div 4096) :: u32"
    have k: "unat ?k < file_max" using pos(2) lt by simp
    have ok: "file_ok fs fi ((n + 3 * B) + 3)" using Suc.prems(1) by (simp add: algebra_simps)
    obtain a fs1 c where p: "rtfsFileInodePreparePageForRead os fs fi ?k = Some (RC0, a, fs1, fi\<lparr>fi_page_cache := c\<rparr>)"
      "file_base fs1 (fi_ino fi) (fi_handle fi) (n + 3 * B)" "fm_same fs fs1" "pg_inv ?D ((\<lambda>_. 0)(?k := 1)) c" "pc_ents c ?k = Some a"
      "pg_same ?D (fi_page_cache fi) c" "\<forall>i < 4096. pageEntryGetBuffer c a i = pg_view ?D (fi_page_cache fi) ?k i"
      using prepare_read [OF ok k, of os] by blast
    obtain c1 where d: "pageEntryHandleDestroy c (Some a) = Some c1" "pg_inv ?D (\<lambda>_. 0) c1" "pg_view ?D c1 = pg_view ?D c"
      using pg_put [OF p(4,5)] by blast
    let ?fi = "fi\<lparr>fi_page_cache := c1\<rparr>"
    have ok1: "file_ok fs1 ?fi (n + 3 * B)" using p(2) d(2) by (simp add: file_ok_def file_cong(2) [OF p(3)])
    have byte: "file_byte fs1 ?fi = file_byte fs fi"
      using p(6) d(3) by (simp add: file_byte_def file_cong(2) [OF p(3)] fun_eq_iff)
    have u: "unat (cur + of_nat ch) = unat cur + ch" by (rule file_step [OF Suc.prems(2) nx(4)])
    have pre1: "unat (cur + of_nat ch) + (r - ch) \<le> 4096 * file_max"
      "0 < r - ch \<longrightarrow> unat (cur + of_nat ch) mod 4096 + (r - ch) \<le> 4096 * B"
      using nx(1,4) Suc.prems(2) unfolding u by simp_all
    obtain fs' c' where ih: "rtfsFileInodeReadLoop os fs1 ?fi (cur + of_nat ch) (r - ch) (acc @ blk_bytes (pageEntryGetBuffer c a) (unat (cur mod 4096)) ch) =
        Some (RC0, (acc @ blk_bytes (pageEntryGetBuffer c a) (unat (cur mod 4096)) ch) @ map (file_byte fs1 ?fi) [unat cur + ch..<unat cur + ch + (r - ch)],
          cur + of_nat ch + of_nat (r - ch), fs', ?fi\<lparr>fi_page_cache := c'\<rparr>)"
      "file_ok fs' (?fi\<lparr>fi_page_cache := c'\<rparr>) n" "fm_same fs1 fs'" "\<forall>x. file_byte fs' (?fi\<lparr>fi_page_cache := c'\<rparr>) x = file_byte fs1 ?fi x"
      using Suc.IH [OF ok1 pre1] unfolding u by blast
    have "rtfsFileInodeReadLoop os fs fi cur r acc =
        rtfsFileInodeReadLoop os fs1 ?fi (cur + of_nat ch) (r - ch) (acc @ blk_bytes (pageEntryGetBuffer c a) (unat (cur mod 4096)) ch)"
      by (subst rtfsFileInodeReadLoop.simps) (use False pos(1,3) p(1) d(1) in \<open>simp add: Let_def ch_def\<close>)
    moreover have "blk_bytes (pageEntryGetBuffer c a) (unat (cur mod 4096)) ch @ map (file_byte fs fi) [unat cur + ch..<unat cur + ch + (r - ch)] =
        map (file_byte fs fi) [unat cur..<unat cur + r]"
      using file_chunk [OF lt nx(5) p(7)] nx(4) upt_add_eq_append [of "unat cur" "unat cur + ch" "r - ch"] by simp
    moreover have "cur + of_nat ch + of_nat (r - ch) = cur + of_nat r" using nx(4) by (simp add: add.assoc flip: of_nat_add)
    ultimately show ?thesis
      using ih fm_same_trans [OF p(3) ih(3)] byte by (intro exI [of _ fs'] exI [of _ c']) simp
  qed
qed

subsection \<open>Writing\<close>

definition bytes_at :: "(nat \<Rightarrow> u8) \<Rightarrow> nat \<Rightarrow> u8 list \<Rightarrow> nat \<Rightarrow> u8" where
  "bytes_at f off bs x = (if off \<le> x \<and> x < off + length bs then bs ! (x - off) else f x)"

lemma bytes_at_append: "bytes_at (bytes_at f off xs) (off + length xs) ys = bytes_at f off (xs @ ys)"
  by (auto simp: bytes_at_def fun_eq_iff nth_append)

text \<open>A chunk is stored into its block.\<close>

lemma file_store:
  fixes cur :: u64
  assumes "unat cur < 4096 * file_max" and "unat cur mod 4096 + length bs \<le> 4096"
    and "x < 4096 * file_max" and "\<forall>k. \<forall>i < 4096. pg_view D c k i = pg_view D c0 k i"
    and "unat cur mod 4096 \<noteq> 0 \<or> length bs \<noteq> 4096 \<longrightarrow> (\<forall>i < 4096. b i = pg_view D c0 (ucast (cur div 4096)) i)"
  shows "((pg_view D c)(ucast (cur div 4096) := blk_copy b (unat (cur mod 4096)) bs)) (of_nat (x div 4096)) (x mod 4096) =
    bytes_at (\<lambda>x. pg_view D c0 (of_nat (x div 4096)) (x mod 4096)) (unat cur) bs x"
proof -
  define q r where "q = unat cur div 4096" and "r = unat cur mod 4096"
  have cur: "unat cur = q * 4096 + r" "r < 4096" by (simp_all add: q_def r_def)
  have k: "ucast (cur div 4096) = (of_nat q :: u32)" using file_pos(4) [OF assms(1)] by (simp add: q_def)
  have xq: "x = x div 4096 * 4096 + x mod 4096" "x mod 4096 < 4096" by simp_all
  have "unat (of_nat (x div 4096) :: u32) = x div 4096" "unat (of_nat q :: u32) = q"
    using assms(1,3) by (simp_all add: unat_of_nat q_def)
  then have eq: "(of_nat (x div 4096) :: u32) = of_nat q \<longleftrightarrow> x div 4096 = q"
    by metis
  show ?thesis
  proof (cases "x div 4096 = q")
    case True
    have le: "(unat cur \<le> x \<and> x < unat cur + length bs) = (r \<le> x mod 4096 \<and> x mod 4096 < r + length bs)"
      using True xq cur by linarith
    have off: "x - unat cur = x mod 4096 - r" using True xq cur by linarith
    show ?thesis
    proof (cases "r \<le> x mod 4096 \<and> x mod 4096 < r + length bs")
      case inside: True
      then show ?thesis
        using le off True file_pos(3) [OF assms(1)] by (simp add: k blk_copy_def bytes_at_def r_def)
    next
      case outside: False
      then have "r \<noteq> 0 \<or> length bs \<noteq> 4096" using xq(2) by auto
      then have "b (x mod 4096) = pg_view D c0 (of_nat q) (x mod 4096)" using assms(5) xq(2) by (simp add: r_def k)
      then show ?thesis
        using outside le True file_pos(3) [OF assms(1)] by (auto simp: k blk_copy_def bytes_at_def r_def)
    qed
  next
    case False
    then have "\<not> (unat cur \<le> x \<and> x < unat cur + length bs)"
      using cur xq assms(2) unfolding r_def [symmetric] by (cases "x div 4096 < q") auto
    then show ?thesis using False eq assms(4) xq(2) by (auto simp: k bytes_at_def)
  qed
qed

text \<open>The size after a write that ends at \<open>e\<close>.\<close>

definition file_grown :: "RtfsFileInode \<Rightarrow> RtfsFileInode \<Rightarrow> nat \<Rightarrow> bool" where
  "file_grown fi fi' e \<longleftrightarrow> unat (fi_size fi') = max (unat (fi_size fi)) e \<and>
     fi' = fi\<lparr>fi_page_cache := fi_page_cache fi', fi_size := fi_size fi', fi_is_dirty := fi_is_dirty fi'\<rparr>"

lemma file_grown_trans:
  assumes "file_grown fi fi1 e" and "file_grown fi1 fi2 e'"
  shows "file_grown fi fi2 (max e e')"
proof -
  have f: "fi1 = fi\<lparr>fi_page_cache := fi_page_cache fi1, fi_size := fi_size fi1, fi_is_dirty := fi_is_dirty fi1\<rparr>"
    "fi2 = fi1\<lparr>fi_page_cache := fi_page_cache fi2, fi_size := fi_size fi2, fi_is_dirty := fi_is_dirty fi2\<rparr>"
    using assms by (simp_all add: file_grown_def)
  have "fi2 = fi\<lparr>fi_page_cache := fi_page_cache fi2, fi_size := fi_size fi2, fi_is_dirty := fi_is_dirty fi2\<rparr>"
    by (subst f(2), subst f(1)) simp
  moreover have "unat (fi_size fi2) = max (unat (fi_size fi)) (max e e')"
    using assms by (simp add: file_grown_def max.assoc)
  ultimately show ?thesis unfolding file_grown_def by blast
qed

lemma write_loop:
  assumes "file_ok fs fi (n + 3 * B)" and "unat cur + (length buf - w) \<le> 4096 * file_max" and "w \<le> length buf"
    and "w < length buf \<longrightarrow> unat cur mod 4096 + (length buf - w) \<le> 4096 * B" and "w < length buf \<or> unat cur \<le> unat (fi_size fi)"
  shows "\<exists>fs' fi'. rtfsFileInodeWriteLoop os fs fi cur buf w = Some (RC0, length buf, cur + of_nat (length buf - w), fs', fi') \<and>
    file_ok fs' fi' n \<and> fm_same fs fs' \<and> file_grown fi fi' (unat cur + (length buf - w)) \<and>
    (\<forall>x < 4096 * file_max. file_byte fs' fi' x = bytes_at (file_byte fs fi) (unat cur) (drop w buf) x)"
  using assms
proof (induction B arbitrary: fs fi cur w)
  case 0
  then show ?case
    by (intro exI [of _ fs] exI [of _ fi]) (auto simp: fm_same_refl rtfsFileInodeWriteLoop.simps file_grown_def bytes_at_def)
next
  case (Suc B)
  show ?case
  proof (cases "w < length buf")
    case False
    then show ?thesis
      using file_ok_mono [OF Suc.prems(1)] Suc.prems(3,5)
      by (intro exI [of _ fs] exI [of _ fi]) (auto simp: fm_same_refl rtfsFileInodeWriteLoop.simps file_grown_def bytes_at_def)
  next
    case True
    let ?D = "file_disk fs (fi_ino fi)" and ?r = "length buf - w"
    define ch where "ch = min (4096 - unat cur mod 4096) ?r"
    have pre: "?r \<noteq> 0" "unat cur mod 4096 + ?r \<le> 4096 * Suc B" using Suc.prems(4) True by simp_all
    note nx = file_next [OF pre ch_def]
    have lt: "unat cur < 4096 * file_max" using Suc.prems(2) True by simp
    note pos = file_pos [OF lt]
    let ?k = "ucast (cur div 4096) :: u32" and ?keep = "unat (cur mod 4096) \<noteq> 0 \<or> ch \<noteq> 4096" and ?bs = "take ch (drop w buf)"
    have k: "unat ?k < file_max" using pos(2) lt by simp
    have ok: "file_ok fs fi ((n + 3 * B) + 3)" using Suc.prems(1) by (simp add: algebra_simps)
    have len: "length ?bs = ch" using nx(4) by simp
    obtain a fs1 c where p: "rtfsFileInodePreparePageForWrite os fs fi ?k ?keep = Some (RC0, a, fs1, fi\<lparr>fi_page_cache := c\<rparr>)"
      "file_base fs1 (fi_ino fi) (fi_handle fi) (n + 3 * B)" "fm_same fs fs1" "pg_inv ?D ((\<lambda>_. 0)(?k := 1)) c" "pc_ents c ?k = Some a"
      "pg_same ?D (fi_page_cache fi) c" "?keep \<longrightarrow> (\<forall>i < 4096. pageEntryGetBuffer c a i = pg_view ?D (fi_page_cache fi) ?k i)"
      using prepare_write [OF ok k, of os ?keep] by blast
    let ?data = "blk_copy (pageEntryGetBuffer c a) (unat (cur mod 4096)) ?bs"
    obtain c1 where m: "pageEntryHandleMakeDirty (pageEntrySetState (pc_set c a ((pc_heap c a)\<lparr>pe_page := ?data\<rparr>)) a PAGE_READY) a = Some c1"
      "pg_inv ?D ((\<lambda>_. 0)(?k := 1)) c1" "pc_ents c1 ?k = Some a" "pg_view ?D c1 = (pg_view ?D c)(?k := ?data)"
      using pg_write [OF p(4,5)] by blast
    obtain c2 where d: "pageEntryHandleDestroy c1 (Some a) = Some c2" "pg_inv ?D (\<lambda>_. 0) c2" "pg_view ?D c2 = pg_view ?D c1"
      using pg_put [OF m(2,3)] by blast
    let ?cur = "cur + of_nat ch"
    define fi1 where "fi1 = (if ?cur > fi_size fi then fi\<lparr>fi_page_cache := c2, fi_size := ?cur, fi_is_dirty := True\<rparr>
      else fi\<lparr>fi_page_cache := c2\<rparr>)"
    have u: "unat ?cur = unat cur + ch" by (rule file_step [OF Suc.prems(2) nx(4)])
    have fi1: "fi_ino fi1 = fi_ino fi" "fi_handle fi1 = fi_handle fi" "fi_page_cache fi1 = c2" "file_grown fi fi1 (unat ?cur)"
      by (simp_all add: fi1_def file_grown_def word_less_nat_alt)
    have ok1: "file_ok fs1 fi1 (n + 3 * B)" using p(2) d(2) fi1 by (simp add: file_ok_def file_cong(2) [OF p(3)])
    have st: "unat cur mod 4096 + length ?bs \<le> 4096" "unat cur mod 4096 \<noteq> 0 \<or> length ?bs \<noteq> 4096 \<longrightarrow>
        (\<forall>i < 4096. pageEntryGetBuffer c a i = pg_view ?D (fi_page_cache fi) ?k i)"
      using nx(5) p(7) unfolding len pos(3) by blast+
    have byte: "file_byte fs1 fi1 x = bytes_at (file_byte fs fi) (unat cur) ?bs x" if "x < 4096 * file_max" for x
      using file_store [OF lt st(1) that p(6) st(2)] by (simp add: file_byte_def [abs_def] file_cong(2) [OF p(3)] fi1 d(3) m(4))
    have pre1: "unat ?cur + (length buf - (w + ch)) \<le> 4096 * file_max" "w + ch \<le> length buf"
      "w + ch < length buf \<longrightarrow> unat ?cur mod 4096 + (length buf - (w + ch)) \<le> 4096 * B"
      "w + ch < length buf \<or> unat ?cur \<le> unat (fi_size fi1)"
      using nx(1,4) Suc.prems(2,3) fi1(4) unfolding u by (auto simp: file_grown_def)
    obtain fs' fi' where ih: "rtfsFileInodeWriteLoop os fs1 fi1 ?cur buf (w + ch) =
        Some (RC0, length buf, ?cur + of_nat (length buf - (w + ch)), fs', fi')"
      "file_ok fs' fi' n" "fm_same fs1 fs'" "file_grown fi1 fi' (unat ?cur + (length buf - (w + ch)))"
      "\<forall>x < 4096 * file_max. file_byte fs' fi' x = bytes_at (file_byte fs1 fi1) (unat ?cur) (drop (w + ch) buf) x"
      using Suc.IH [OF ok1 pre1] by blast
    have "rtfsFileInodeWriteLoop os fs fi cur buf w = rtfsFileInodeWriteLoop os fs1 fi1 ?cur buf (w + ch)"
      by (subst rtfsFileInodeWriteLoop.simps)
        (use True pos(1,3) p(1) m(1) d(1) in \<open>simp add: Let_def ch_def fi1_def\<close>)
    moreover have rest: "ch + (length buf - (w + ch)) = ?r" using nx(4) by simp
    have "?cur + of_nat (length buf - (w + ch)) = cur + of_nat ?r"
      using rest by (simp add: add.assoc flip: of_nat_add)
    moreover have "max (unat ?cur) (unat ?cur + (length buf - (w + ch))) = unat cur + ?r" using rest u by simp
    then have "file_grown fi fi' (unat cur + ?r)"
      using file_grown_trans [OF fi1(4) ih(4)] by simp
    moreover have "file_byte fs' fi' x = bytes_at (file_byte fs fi) (unat cur) (drop w buf) x" if "x < 4096 * file_max" for x
    proof -
      have "bytes_at (file_byte fs1 fi1) (unat ?cur) (drop (w + ch) buf) x =
          bytes_at (bytes_at (file_byte fs fi) (unat cur) ?bs) (unat cur + length ?bs) (drop ch (drop w buf)) x"
        using byte [OF that] u len by (simp add: bytes_at_def add.commute)
      then show ?thesis using ih(5) that unfolding bytes_at_append append_take_drop_id by simp
    qed
    ultimately show ?thesis
      using ih(1,2) fm_same_trans [OF p(3) ih(3)] by (intro exI [of _ fs'] exI [of _ fi']) simp
  qed
qed

subsection \<open>Refinement\<close>

text \<open>The two operations touch at most this many blocks.\<close>

definition file_span :: "nat \<Rightarrow> nat \<Rightarrow> nat" where
  "file_span off len = (off mod 4096 + len + 4095) div 4096"

lemma file_span_le: "off mod 4096 + len \<le> 4096 * file_span off len"
  unfolding file_span_def by linarith

lemma file_ok_time:
  "file_ok fs (rtfsFileInodeTouchAccessTime fi) n = file_ok fs fi n" "file_byte fs (rtfsFileInodeTouchAccessTime fi) = file_byte fs fi"
  "fi_size (rtfsFileInodeTouchAccessTime fi) = fi_size fi"
  "file_ok fs (rtfsFileInodeTouchModifyTime fi) n = file_ok fs fi n" "file_byte fs (rtfsFileInodeTouchModifyTime fi) = file_byte fs fi"
  "fi_size (rtfsFileInodeTouchModifyTime fi) = fi_size fi"
  by (simp_all add: rtfsFileInodeTouchAccessTime_def rtfsFileInodeTouchModifyTime_def file_ok_def file_byte_def fun_eq_iff)

text \<open>
  Claim C9. Reading refines reading an array of bytes: a read at a valid offset returns the bytes of the file
  from the offset up to its end or the requested number, advances the offset by as many, and changes neither the size nor any
  byte of the file, whichever pages had to be loaded or replaced for it.
\<close>

theorem rtfsFileInodeRead_reads:
  assumes "file_ok fs fi (n + 3 * file_span (unat offset) len)" and "0 \<le> sint offset" and "unat (fi_size fi) \<le> 4096 * file_max"
  shows "\<exists>fs' fi'. rtfsFileInodeRead os fs fi offset len =
      (let bs = map (file_byte fs fi) [unat offset..<min (unat (fi_size fi)) (unat offset + len)] in
       Some (Inr bs, offset + of_nat (length bs), fs', fi')) \<and>
    file_ok fs' fi' n \<and> fi_size fi' = fi_size fi \<and> (\<forall>x. file_byte fs' fi' x = file_byte fs fi x)"
proof (cases "len = 0 \<or> offset \<ge> fi_size fi")
  case True
  then have "[unat offset..<min (unat (fi_size fi)) (unat offset + len)] = []" by (auto simp: word_le_nat_alt)
  then show ?thesis
    using True assms(2) file_ok_mono [OF assms(1)]
    by (intro exI [of _ fs] exI [of _ fi]) (auto simp: rtfsFileInodeRead_def Let_def)
next
  case False
  define r where "r = min (unat (fi_size fi - offset)) len"
  have lt: "unat offset < unat (fi_size fi)" using False by (simp add: word_less_nat_alt not_le)
  then have "unat (fi_size fi - offset) = unat (fi_size fi) - unat offset" by (simp add: unat_sub word_le_nat_alt)
  then have e: "min (unat (fi_size fi)) (unat offset + len) = unat offset + r" "0 < r" "r \<le> len"
    using lt False by (auto simp: r_def)
  have "unat offset mod 4096 + r \<le> 4096 * file_span (unat offset) len"
    using file_span_le [of "unat offset" len] e(3) by linarith
  moreover have "unat offset + r \<le> 4096 * file_max" using e(1) assms(3) by linarith
  ultimately obtain fs' c where l: "rtfsFileInodeReadLoop os fs fi offset r [] =
      Some (RC0, map (file_byte fs fi) [unat offset..<unat offset + r], offset + of_nat r, fs', fi\<lparr>fi_page_cache := c\<rparr>)"
    "file_ok fs' (fi\<lparr>fi_page_cache := c\<rparr>) n" "\<forall>x. file_byte fs' (fi\<lparr>fi_page_cache := c\<rparr>) x = file_byte fs fi x"
    using read_loop [OF assms(1), of offset r os "[]"] by auto
  have "rtfsFileInodeRead os fs fi offset len = Some (Inr (map (file_byte fs fi) [unat offset..<unat offset + r]),
      offset + of_nat r, fs', rtfsFileInodeTouchAccessTime (fi\<lparr>fi_page_cache := c\<rparr>))"
    using False assms(2) l(1) e(2) by (simp add: rtfsFileInodeRead_def Let_def r_def [symmetric])
  then show ?thesis
    unfolding e(1) using l(2,3) by (simp add: Let_def file_ok_time)
qed

text \<open>
  Claim C8. Writing refines updating a range of an array of bytes: all bytes are written, the offset advances by their number,
  exactly the bytes of the range change, and the size becomes the larger of the old one and the end of the range. No
  visible node block changes: the new bytes are in the page cache.
\<close>

theorem rtfsFileInodeWrite_writes:
  assumes "file_ok fs fi (n + 3 * file_span (unat offset) (length buf))" and "0 \<le> sint offset"
    and "buf \<noteq> []" and "unat offset + length buf \<le> 4096 * file_max"
  shows "\<exists>fs' fi'. rtfsFileInodeWrite os fs fi offset buf = Some (Inr (length buf), offset + of_nat (length buf), fs', fi') \<and>
    file_ok fs' fi' n \<and> unat (fi_size fi') = max (unat (fi_size fi)) (unat offset + length buf) \<and> fm_same fs fs' \<and>
    (\<forall>x < 4096 * file_max. file_byte fs' fi' x = bytes_at (file_byte fs fi) (unat offset) buf x)"
proof -
  have "unat (0xFFFFFFFFFFFFFFFF - offset) = 0xFFFFFFFFFFFFFFFF - unat offset"
    using assms(4) by (simp add: unat_sub word_le_nat_alt)
  then have room: "\<not> unat (0xFFFFFFFFFFFFFFFF - offset) < length buf" using assms(4) by simp
  obtain fs' fi' where w: "rtfsFileInodeWriteLoop os fs fi offset buf 0 = Some (RC0, length buf, offset + of_nat (length buf), fs', fi')"
    "file_ok fs' fi' n" "fm_same fs fs'" "file_grown fi fi' (unat offset + length buf)"
    "\<forall>x < 4096 * file_max. file_byte fs' fi' x = bytes_at (file_byte fs fi) (unat offset) buf x"
    using write_loop [OF assms(1), of offset buf 0 os] assms(3,4) file_span_le [of "unat offset" "length buf"] by auto
  have "rtfsFileInodeWrite os fs fi offset buf =
      Some (Inr (length buf), offset + of_nat (length buf), fs', rtfsFileInodeTouchModifyTime fi')"
    using assms(2,3) room w(1) by (simp add: rtfsFileInodeWrite_def)
  then show ?thesis
    using w(2-5) by (simp add: file_ok_time file_grown_def)
qed

subsection \<open>Witnesses\<close>

text \<open>The open inode 700 of the block map: all blocks but number 935 are holes, and that one holds the byte 7 everywhere.\<close>

definition demo_os :: os_env where
  "demo_os = \<lparr>os_junk = \<lambda>_. zero_block, os_accepts = \<lambda>_. True, os_nodeOrder = \<lambda>_. [], os_srmapOrder = \<lambda>_. [], os_pageOrder = \<lambda>_. []\<rparr>"

lemma demo_nodes:
  "off + 3 < 4060 \<Longrightarrow> get32 (nb_view demo_file_fs 700) off = 0"
  "s < 5 \<Longrightarrow> get32 (nb_view demo_file_fs 700) (4060 + 4 * s) = (if s = 0 then 701 else 0)"
  "s < 1020 \<Longrightarrow> get32 (nb_view demo_file_fs 701) (4 * s) = (if s = 3 then 200 else 0)"
proof -
  show "get32 (nb_view demo_file_fs 700) off = 0" if "off + 3 < 4060"
    using that by (simp add: demo_file_view demo_node_def get32_put32_other)
  show "get32 (nb_view demo_file_fs 700) (4060 + 4 * s) = (if s = 0 then 701 else 0)" if "s < 5"
    using that by (cases "s = 0") (simp_all add: demo_file_view demo_node_def get32_put32_other)
  show "get32 (nb_view demo_file_fs 701) (4 * s) = (if s = 3 then 200 else 0)" if "s < 1020"
  proof (cases "s = 3")
    case False
    then have "4 * s + 4 \<le> 12 \<or> 12 + 4 \<le> 4 * s" by linarith
    then show ?thesis using that False by (auto simp: demo_file_view get32_put32_other)
  qed (simp add: demo_file_view)
qed

text \<open>Every path of the map on these nodes.\<close>

lemma demo_paths:
  assumes "file_path k = Some p"
  shows "walk_ok demo_file_fs 700 p \<and> node_walk (nb_view demo_file_fs) 700 p = (if k = 935 then 200 else 0)"
proof -
  consider "k < 932" | "\<not> k < 932" "k - 932 < 2040" | "\<not> k < 932" "\<not> k - 932 < 2040" by blast
  then show ?thesis
  proof cases
    case 1
    then have "p = [332 + 4 * k]" using assms by (simp add: file_path_def)
    then show ?thesis using 1 demo_nodes(1) [of "332 + 4 * k"] by simp
  next
    case 2
    define s j where "s = (k - 932) div 1020" and "j = (k - 932) mod 1020"
    have kj: "k = 932 + (s * 1020 + j)" using 2(1) div_mult_mod_eq [of "k - 932" 1020] unfolding s_def j_def by linarith
    have sj: "p = [4060 + 4 * s, 4 * j]" "s < 2" "j < 1020"
      using assms 2 by (auto simp: file_path_def Let_def s_def j_def)
    then show ?thesis
      using kj demo_nodes(2) [of s] demo_nodes(3) [of j] demo_file_inv(4) by (cases "s = 0") (auto simp: Let_def)
  next
    case 3
    obtain s off offs where p: "p = (4060 + 4 * s) # off # offs" "0 < s" "s < 5"
    proof (cases "k - 932 - 2040 < 2080800")
      case True
      then have "(k - 932 - 2040) div 1040400 < 2" by simp
      then show ?thesis using assms 3 True that [of "2 + (k - 932 - 2040) div 1040400"] by (auto simp: file_path_def Let_def)
    next
      case False
      then show ?thesis using assms 3 that [of 4] by (auto simp: file_path_def Let_def split: if_splits)
    qed
    then have "get32 (nb_view demo_file_fs 700) (4060 + 4 * s) = 0" using demo_nodes(2) [of s] by simp
    then show ?thesis using p 3 by auto
  qed
qed

lemma demo_file_lpa: "file_lpa demo_file_fs 700 k = (if k = 935 then 200 else 0)"
proof (cases "file_path (unat k)")
  case None
  then have "k \<noteq> 935" using file_path_some [of 935] by auto
  then show ?thesis using None by (simp add: file_lpa_def)
next
  case (Some p)
  then show ?thesis using demo_paths [OF Some] using word_unat_eq_iff [of k 935] by (simp add: file_lpa_def)
qed

lemma demo_file_ok: "m < 100 \<Longrightarrow> file_ok demo_file_fs (demo_fi\<lparr>fi_size := s\<rparr>) m"
proof -
  assume m: "m < 100"
  have ino: "fi_ino demo_fi = 700" by (simp add: demo_fi_def rtfsCreateFileInode_def)
  have "dev_ok (fs_dev demo_file_fs) 200" using demo_dev_ok [of 200] by (simp add: demo_file_fs_def)
  then have "file_base demo_file_fs 700 (Some 0) m"
    using demo_file_inv(1) [OF m] demo_file_cache(1,5) demo_paths by (simp add: file_base_def demo_file_lpa)
  moreover have "pg_inv D (\<lambda>_. 0) (fi_page_cache demo_fi)" for D
    using pc_init by (simp add: demo_fi_def rtfsCreateFileInode_def pg_inv_def) (simp add: pageCacheInit_def gcm_init)
  ultimately show ?thesis by (simp add: file_ok_def ino demo_file_inv(2))
qed

lemma demo_file_byte: "file_byte demo_file_fs (demo_fi\<lparr>fi_size := s\<rparr>) x = (if (of_nat (x div 4096) :: u32) = 935 then 7 else 0)"
proof -
  have "pc_ents (fi_page_cache demo_fi) k = None" for k
    by (simp add: demo_fi_def rtfsCreateFileInode_def pageCacheInit_def gcm_init)
  moreover have "media (fs_dev demo_file_fs) 1600 = (\<lambda>_. 7)" by (simp add: demo_file_fs_def)
  moreover have "fi_ino demo_fi = 700" by (simp add: demo_fi_def rtfsCreateFileInode_def)
  ultimately show ?thesis
    by (simp add: file_byte_def pg_view_def file_disk_def demo_file_lpa LPA_TO_LBA32_def zero_block_def)
qed

lemma rtfsFileInodeRead_reads_witness:
  "\<exists>fs' fi'. rtfsFileInodeRead demo_os demo_file_fs (demo_fi\<lparr>fi_size := 3829762\<rparr>) 3829759 9 = Some (Inr [0, 7, 7], 3829762, fs', fi')"
proof -
  have "file_ok demo_file_fs (demo_fi\<lparr>fi_size := 3829762\<rparr>) (0 + 3 * file_span (unat (3829759 :: u64)) 9)"
    by (rule demo_file_ok) (simp add: file_span_def)
  from rtfsFileInodeRead_reads [OF this] show ?thesis
    by (force simp: demo_file_byte upt_rec_numeral Let_def)
qed

lemma rtfsFileInodeWrite_writes_witness:
  "\<exists>fs' fi'. rtfsFileInodeWrite demo_os demo_file_fs (demo_fi\<lparr>fi_size := 0\<rparr>) 4095 [1, 2] = Some (Inr 2, 4097, fs', fi') \<and>
     unat (fi_size fi') = 4097 \<and> file_byte fs' fi' 4094 = 0 \<and> file_byte fs' fi' 4095 = 1 \<and> file_byte fs' fi' 4096 = 2"
proof -
  have "file_ok demo_file_fs (demo_fi\<lparr>fi_size := 0\<rparr>) (0 + 3 * file_span (unat (4095 :: u64)) (length [1, 2 :: u8]))"
    by (rule demo_file_ok) (simp add: file_span_def)
  from rtfsFileInodeWrite_writes [OF this, of demo_os] show ?thesis
    by (force simp: demo_file_byte bytes_at_def)
qed

end
