(* ===== verification/Mkfs.thy ===== *)
theory Mkfs
  imports Lpa_Alloc Journal_Recovery
begin

text \<open>
  The formatter, \<^verbatim>\<open>src/src/fs/rtfs_mkfs.c\<close>: the layout of the areas, the initial tables and the root inode. The writer of blocks
  is an argument, as in the source; it takes a context and returns it with an error code.
\<close>

type_synonym 'c RtfsMkfsWriteBlock = "'c \<Rightarrow> u32 \<Rightarrow> block \<Rightarrow> rc \<times> 'c"

record RtfsMkfsOptions =
  mo_lpa_count :: u64
  mo_root_ino :: u32
  mo_meta_journal_segment_count :: u32

record RtfsMkfsLayout =
  ml_block_count :: u64
  ml_segment_count :: u32
  ml_meta_journal_start_lpa :: u32
  ml_meta_journal_segment_count :: u32
  ml_sit_start_lpa :: u32
  ml_sit_segment_count :: u32
  ml_nat_start_lpa :: u32
  ml_nat_segment_count :: u32
  ml_srmap_start_lpa :: u32
  ml_srmap_segment_count :: u32
  ml_main_start_lpa :: u32
  ml_main_start_segment :: u32
  ml_main_segment_count :: u32

definition rtfsMkfsDivRoundUp :: "u64 \<Rightarrow> u64 \<Rightarrow> u64" where
  "rtfsMkfsDivRoundUp v divisor = (v + divisor - 1) div divisor"

definition rtfsMkfsSegToLpa :: "u32 \<Rightarrow> u32" where
  "rtfsMkfsSegToLpa seg_id = seg_id * BLOCK_PER_SEGMENT"

definition rtfsMkfsWriteZeroBlock :: "'c RtfsMkfsWriteBlock \<Rightarrow> 'c \<Rightarrow> u32 \<Rightarrow> rc \<times> 'c" where
  "rtfsMkfsWriteZeroBlock write_block ctx lpa = write_block ctx lpa zero_block"

definition rtfsMkfsCommDevWriteBlock :: "comm_dev RtfsMkfsWriteBlock" where
  "rtfsMkfsCommDevWriteBlock dev lpa blk = comm_write dev (LPA_TO_LBA32 lpa) blk"

subsection \<open>Layout\<close>

text \<open>The sum \<^verbatim>\<open>1U + meta_journal_segment_count\<close> is computed in 32 bits before it is widened.\<close>

definition rtfsMkfsCalculateLayout :: "u64 \<Rightarrow> u32 \<Rightarrow> rc + RtfsMkfsLayout" where
  "rtfsMkfsCalculateLayout lpa_count meta_journal_segment_count =
     (if meta_journal_segment_count = 0 then Inl EINVAL
      else let segment_count = lpa_count div 512; block_count = segment_count * 512 in
        if segment_count > 0xFFFFFFFF \<or> block_count = 0 then Inl EINVAL
        else let
          sit_block_count = rtfsMkfsDivRoundUp segment_count 60;
          sit_segment_count = rtfsMkfsDivRoundUp sit_block_count 512;
          nat_block_count = rtfsMkfsDivRoundUp block_count 512;
          nat_segment_count = rtfsMkfsDivRoundUp nat_block_count 512;
          srmap_block_count = rtfsMkfsDivRoundUp block_count 512;
          srmap_segment_count = rtfsMkfsDivRoundUp srmap_block_count 512;
          main_start_segment = ucast (1 + meta_journal_segment_count) + sit_segment_count + nat_segment_count + srmap_segment_count in
          if main_start_segment + 2 > segment_count \<or> sit_segment_count > 0xFFFFFFFF \<or> nat_segment_count > 0xFFFFFFFF \<or>
             srmap_segment_count > 0xFFFFFFFF then Inl ENOSPC
          else let sit = ucast sit_segment_count; nat = ucast nat_segment_count in Inr \<lparr>
            ml_block_count = block_count, ml_segment_count = ucast segment_count,
            ml_meta_journal_start_lpa = BLOCK_PER_SEGMENT, ml_meta_journal_segment_count = meta_journal_segment_count,
            ml_sit_start_lpa = rtfsMkfsSegToLpa (1 + meta_journal_segment_count), ml_sit_segment_count = sit,
            ml_nat_start_lpa = rtfsMkfsSegToLpa (1 + meta_journal_segment_count + sit), ml_nat_segment_count = nat,
            ml_srmap_start_lpa = rtfsMkfsSegToLpa (1 + meta_journal_segment_count + sit + nat),
            ml_srmap_segment_count = ucast srmap_segment_count,
            ml_main_start_lpa = rtfsMkfsSegToLpa (ucast main_start_segment), ml_main_start_segment = ucast main_start_segment,
            ml_main_segment_count = ucast segment_count - ucast main_start_segment\<rparr>)"

subsection \<open>The initial blocks\<close>

definition rtfsMkfsSitSetValid :: "block \<Rightarrow> u32 \<Rightarrow> u32 \<Rightarrow> block" where
  "rtfsMkfsSitSetValid sit_block seg_id seg_off =
     (let off = sit_slot (seg_id mod SIT_ENTRY_PER_BLOCK);
          e = getSitEntry sit_block off;
          byte_idx = unat (seg_off div 8);
          mask = push_bit (unat (seg_off mod 8)) 1 in
      if valid_map e ! byte_idx AND mask = 0 then
        let e = e\<lparr>valid_map := (valid_map e)[byte_idx := valid_map e ! byte_idx OR mask]\<rparr> in
        putSitEntry sit_block off (if GET_SIT_VBLOCKS e < 511 then e\<lparr>vblocks := vblocks e + 1\<rparr> else e)
      else sit_block)"

definition rtfsMkfsSitSetNextSegment :: "block \<Rightarrow> u32 \<Rightarrow> u32 \<Rightarrow> block" where
  "rtfsMkfsSitSetNextSegment sit_block seg_id next_seg_id =
     (let off = sit_slot (seg_id mod SIT_ENTRY_PER_BLOCK);
          e = getSitEntry sit_block off
      in putSitEntry sit_block off (SET_NEXT_SEG (e\<lparr>vblocks := vblocks e AND 511\<rparr>) next_seg_id))"

text \<open>\<open>for_u32 a b\<close> are the values of a loop \<^verbatim>\<open>for (i = a; i < b; ++i)\<close> over 32-bit integers.\<close>

definition for_u32 :: "u32 \<Rightarrow> u32 \<Rightarrow> u32 list" where
  "for_u32 a b = map of_nat [unat a..<unat b]"

text \<open>Blocks are written one after the other; the first error ends the loop with EIO.\<close>

fun rtfsMkfsWriteBlocks :: "'c RtfsMkfsWriteBlock \<Rightarrow> 'c \<Rightarrow> (u32 \<times> block) list \<Rightarrow> rc \<times> 'c" where
  "rtfsMkfsWriteBlocks write_block ctx [] = (RC0, ctx)"
| "rtfsMkfsWriteBlocks write_block ctx ((lpa, b) # ws) =
     (case write_block ctx lpa b of (ret, ctx) \<Rightarrow>
        if ret \<noteq> RC0 then (EIO, ctx) else rtfsMkfsWriteBlocks write_block ctx ws)"

definition rtfsMkfsSuperBlock :: "RtfsMkfsOptions \<Rightarrow> RtfsMkfsLayout \<Rightarrow> block" where
  "rtfsMkfsSuperBlock options layout =
     (let sb = put32 zero_block SB_magic RTFS_MAGIC_NUMBER;
          sb = put16 sb SB_major_ver 1;
          sb = put16 sb SB_minor_ver 0;
          sb = put32 sb SB_log_sectorsize 9;
          sb = put32 sb SB_log_sectors_per_block 3;
          sb = put32 sb SB_log_blocksize 12;
          sb = put32 sb SB_log_blocks_per_seg 9;
          sb = put64 sb SB_block_count (ml_block_count layout);
          sb = put32 sb SB_segment_count (ml_segment_count layout);
          sb = put32 sb SB_segment_count_sit (ml_sit_segment_count layout);
          sb = put32 sb SB_segment_count_nat (ml_nat_segment_count layout);
          sb = put32 sb SB_segment_count_srmap (ml_srmap_segment_count layout);
          sb = put32 sb SB_segment_count_meta_journal (ml_meta_journal_segment_count layout);
          sb = put32 sb SB_segment_count_main (ml_main_segment_count layout);
          sb = put32 sb SB_segment0_blkaddr 0;
          sb = put32 sb SB_sit_blkaddr (ml_sit_start_lpa layout);
          sb = put32 sb SB_nat_blkaddr (ml_nat_start_lpa layout);
          sb = put32 sb SB_srmap_blkaddr (ml_srmap_start_lpa layout);
          sb = put32 sb SB_meta_journal_blkaddr (ml_meta_journal_start_lpa layout);
          sb = put32 sb SB_main_blkaddr (ml_main_start_lpa layout);
          sb = put32 sb SB_root_ino (mo_root_ino options);
          sb = put32 sb SB_node_ino (mo_root_ino options);
          sb = put32 sb SB_meta_ino (mo_root_ino options);
          sb = put32 sb SB_first_node_segment_id (ml_main_start_segment layout);
          sb = put32 sb SB_first_data_segment_id (ml_main_start_segment layout + 1);
          sb = put32 sb SB_current_data_segment_id (ml_main_start_segment layout + 1);
          sb = put32 sb SB_current_data_segment_blkoff 0;
          sb = put32 sb SB_current_node_segment_id (ml_main_start_segment layout);
          sb = put32 sb SB_current_node_segment_blkoff 1;
          sb = put16 sb SB_meta_journal_start_blkoff 0;
          sb = put16 sb SB_meta_journal_end_blkoff 0;
          sb = put32 sb SB_next_free_nid (mo_root_ino options + 1)
      in if ml_main_segment_count layout > 2 then
           put32 (put32 sb SB_first_free_segment_id (ml_main_start_segment layout + 2))
             SB_free_segment_count (ml_main_segment_count layout - 2)
         else put32 (put32 sb SB_first_free_segment_id INVALID_SEGID) SB_free_segment_count 0)"

definition rtfsMkfsWriteInitialSuper ::
  "RtfsMkfsOptions \<Rightarrow> RtfsMkfsLayout \<Rightarrow> 'c RtfsMkfsWriteBlock \<Rightarrow> 'c \<Rightarrow> rc \<times> 'c" where
  "rtfsMkfsWriteInitialSuper options layout write_block ctx = write_block ctx 0 (rtfsMkfsSuperBlock options layout)"

text \<open>The NAT: every nid points to the next one, the root's entry to its block.\<close>

definition rtfsMkfsNatBlock :: "RtfsMkfsOptions \<Rightarrow> RtfsMkfsLayout \<Rightarrow> u64 \<Rightarrow> block" where
  "rtfsMkfsNatBlock options layout block_idx =
     (let root_nat_block = mo_root_ino options div NAT_ENTRY_PER_BLOCK;
          root_nat_idx = mo_root_ino options mod NAT_ENTRY_PER_BLOCK;
          next_free_nid = mo_root_ino options + 1;
          b = fold (\<lambda>i b. let nid = block_idx * 512 + of_nat i in
                putNatEntry b (8 * i) \<lparr>nat_ino = INVALID_NID,
                  nat_block_addr = (if nid + 1 < ml_block_count layout then ucast (nid + 1) else INVALID_NID)\<rparr>) [0..<512] zero_block;
          b = (if block_idx = ucast root_nat_block then
                 putNatEntry b (nat_slot root_nat_idx) \<lparr>nat_ino = mo_root_ino options, nat_block_addr = ml_main_start_lpa layout\<rparr>
               else b)
      in if ucast (next_free_nid div NAT_ENTRY_PER_BLOCK) = block_idx then
           putNatEntry b (nat_slot (next_free_nid mod NAT_ENTRY_PER_BLOCK)) \<lparr>nat_ino = INVALID_NID,
             nat_block_addr = (if ucast (next_free_nid + 1) < ml_block_count layout then next_free_nid + 1 else INVALID_NID)\<rparr>
         else b)"

definition rtfsMkfsWriteInitialNat ::
  "RtfsMkfsOptions \<Rightarrow> RtfsMkfsLayout \<Rightarrow> 'c RtfsMkfsWriteBlock \<Rightarrow> 'c \<Rightarrow> rc \<times> 'c" where
  "rtfsMkfsWriteInitialNat options layout write_block ctx =
     rtfsMkfsWriteBlocks write_block ctx (map (\<lambda>i. (ml_nat_start_lpa layout + of_nat i, rtfsMkfsNatBlock options layout (of_nat i)))
       [0..<unat (ucast (ml_nat_segment_count layout) * 512 :: u64)])"

text \<open>The SIT: the metadata segments and the first blocks of segment 0 and of the main area are valid, every segment points to the next.\<close>

definition rtfsMkfsSitBlock :: "RtfsMkfsLayout \<Rightarrow> u64 \<Rightarrow> block" where
  "rtfsMkfsSitBlock layout block_idx =
     (let b = fold (\<lambda>seg_id b. if seg_id + 1 < ml_segment_count layout then rtfsMkfsSitSetNextSegment b seg_id (seg_id + 1) else b)
            (for_u32 (ucast block_idx * SIT_ENTRY_PER_BLOCK) (min (ucast (block_idx + 1) * SIT_ENTRY_PER_BLOCK) (ml_segment_count layout))) zero_block;
          b = (if block_idx = 0 then rtfsMkfsSitSetValid b 0 0 else b);
          b = fold (\<lambda>seg_id b. if ucast (seg_id div SIT_ENTRY_PER_BLOCK) = block_idx
                then fold (\<lambda>off b. rtfsMkfsSitSetValid b seg_id off) (for_u32 0 BLOCK_PER_SEGMENT) b else b)
            (for_u32 1 (ml_main_start_segment layout)) b
      in if ucast (ml_main_start_segment layout div SIT_ENTRY_PER_BLOCK) = block_idx
         then rtfsMkfsSitSetValid b (ml_main_start_segment layout) 0 else b)"

definition rtfsMkfsWriteInitialSit :: "RtfsMkfsLayout \<Rightarrow> 'c RtfsMkfsWriteBlock \<Rightarrow> 'c \<Rightarrow> rc \<times> 'c" where
  "rtfsMkfsWriteInitialSit layout write_block ctx =
     rtfsMkfsWriteBlocks write_block ctx (map (\<lambda>i. (ml_sit_start_lpa layout + of_nat i, rtfsMkfsSitBlock layout (of_nat i)))
       [0..<unat (ucast (ml_sit_segment_count layout) * 512 :: u64)])"

definition rtfsMkfsSrmapBlock :: "RtfsMkfsOptions \<Rightarrow> RtfsMkfsLayout \<Rightarrow> u64 \<Rightarrow> block" where
  "rtfsMkfsSrmapBlock options layout block_idx =
     (let root_node_lpa = ml_main_start_lpa layout in
      if block_idx = ucast (root_node_lpa div ENTRIES_IN_SUM) then
        putSummary zero_block (8 * unat (root_node_lpa mod ENTRIES_IN_SUM)) \<lparr>sum_nid = mo_root_ino options, sum_ofs_in_node = 0\<rparr>
      else zero_block)"

definition rtfsMkfsWriteInitialSrmap ::
  "RtfsMkfsOptions \<Rightarrow> RtfsMkfsLayout \<Rightarrow> 'c RtfsMkfsWriteBlock \<Rightarrow> 'c \<Rightarrow> rc \<times> 'c" where
  "rtfsMkfsWriteInitialSrmap options layout write_block ctx =
     rtfsMkfsWriteBlocks write_block ctx (map (\<lambda>i. (ml_srmap_start_lpa layout + of_nat i, rtfsMkfsSrmapBlock options layout (of_nat i)))
       [0..<unat (ucast (ml_srmap_segment_count layout) * 512 :: u64)])"

text \<open>The root inode: an empty inline directory; the members are at the offsets of \<^verbatim>\<open>struct RtfsInode\<close> and \<^verbatim>\<open>struct NodeFooter\<close>.\<close>

definition rtfsMkfsRootInode :: "RtfsMkfsOptions \<Rightarrow> block" where
  "rtfsMkfsRootInode options =
     (let n = put16 zero_block 0 493;
          n = put32 n 4 2;
          n = put32 n 8 2;
          n = put32 n 68 (mo_root_ino options);
          n = put64 n 24 0;
          n = put64 n 32 1;
          n = put64 n 48 0;
          n = put32 n 64 0;
          n = n(2 := 4);
          n = put32 n 4080 (mo_root_ino options);
          n = put32 n 4084 (mo_root_ino options);
          n = put32 n 4088 0
      in put32 n 4092 INVALID_LPA)"

definition rtfsMkfsWriteRootInode ::
  "RtfsMkfsOptions \<Rightarrow> RtfsMkfsLayout \<Rightarrow> 'c RtfsMkfsWriteBlock \<Rightarrow> 'c \<Rightarrow> rc \<times> 'c" where
  "rtfsMkfsWriteRootInode options layout write_block ctx =
     write_block ctx (ml_main_start_lpa layout) (rtfsMkfsRootInode options)"

subsection \<open>Formatting\<close>

definition rtfsMkfsEffectiveOptions :: "RtfsMkfsOptions \<Rightarrow> RtfsMkfsOptions" where
  "rtfsMkfsEffectiveOptions options =
     (let options = (if mo_root_ino options = INVALID_NID then options\<lparr>mo_root_ino := 1\<rparr> else options)
      in if mo_meta_journal_segment_count options = 0 then options\<lparr>mo_meta_journal_segment_count := 1\<rparr> else options)"

fun rtfsMkfsZeroLoop :: "'c RtfsMkfsWriteBlock \<Rightarrow> 'c \<Rightarrow> u32 list \<Rightarrow> rc \<times> 'c" where
  "rtfsMkfsZeroLoop write_block ctx [] = (RC0, ctx)"
| "rtfsMkfsZeroLoop write_block ctx (lpa # lpas) =
     (case rtfsMkfsWriteZeroBlock write_block ctx lpa of (ret, ctx) \<Rightarrow>
        if ret \<noteq> RC0 then (EIO, ctx) else rtfsMkfsZeroLoop write_block ctx lpas)"

definition rtfsMkfsFormat ::
  "RtfsMkfsOptions \<Rightarrow> 'c RtfsMkfsWriteBlock \<Rightarrow> 'c \<Rightarrow> (rc + RtfsMkfsLayout) \<times> 'c" where
  "rtfsMkfsFormat options write_block ctx =
     (let options = rtfsMkfsEffectiveOptions options in
      case rtfsMkfsCalculateLayout (mo_lpa_count options) (mo_meta_journal_segment_count options) of
        Inl ret \<Rightarrow> (Inl ret, ctx)
      | Inr layout \<Rightarrow>
          (case rtfsMkfsWriteInitialSuper options layout write_block ctx of (ret, ctx) \<Rightarrow>
           if ret \<noteq> RC0 then (Inl EIO, ctx)
           else case rtfsMkfsZeroLoop write_block ctx
               (concat (map (\<lambda>seg_id. map (\<lambda>off. rtfsMkfsSegToLpa seg_id + off) (for_u32 0 BLOCK_PER_SEGMENT))
                  (for_u32 1 (ml_main_start_segment layout)))) of (ret, ctx) \<Rightarrow>
           if ret \<noteq> RC0 then (Inl EIO, ctx)
           else case rtfsMkfsWriteInitialNat options layout write_block ctx of (ret, ctx) \<Rightarrow>
           if ret \<noteq> RC0 then (Inl ret, ctx)
           else case rtfsMkfsWriteInitialSit layout write_block ctx of (ret, ctx) \<Rightarrow>
           if ret \<noteq> RC0 then (Inl ret, ctx)
           else case rtfsMkfsWriteInitialSrmap options layout write_block ctx of (ret, ctx) \<Rightarrow>
           if ret \<noteq> RC0 then (Inl ret, ctx)
           else case rtfsMkfsWriteRootInode options layout write_block ctx of (ret, ctx) \<Rightarrow>
           if ret \<noteq> RC0 then (Inl EIO, ctx) else (Inr layout, ctx)))"

definition rtfsMkfsFormatCommDev :: "RtfsMkfsOptions \<Rightarrow> comm_dev \<Rightarrow> (rc + RtfsMkfsLayout) \<times> comm_dev" where
  "rtfsMkfsFormatCommDev options dev = rtfsMkfsFormat options rtfsMkfsCommDevWriteBlock dev"

subsection \<open>The layout is a partition\<close>

lemma div_round_up:
  assumes "unat v + d < 2 ^ 64" and "0 < d"
  shows "unat (rtfsMkfsDivRoundUp v (of_nat d)) = (unat v + d - 1) div d"
proof -
  obtain k where d: "d = Suc k" using assms(2) gr0_conv_Suc by blast
  have "unat (of_nat d :: u64) = d" using assms(1) unat_of_nat [of d, where 'a = 64] by simp
  moreover have "unat (of_nat k :: u64) = k" using assms(1) d unat_of_nat [of k, where 'a = 64] by simp
  ultimately have k: "unat (of_nat k :: u64) = k" "unat (of_nat d :: u64) = d" by simp_all
  have "unat (v + of_nat k) = unat v + k"
    using assms(1) k d unat_add_lem [of v "of_nat k"] by simp
  moreover have "v + of_nat d - 1 = v + of_nat k" by (simp add: d)
  ultimately show ?thesis using k(2) d by (simp add: rtfsMkfsDivRoundUp_def unat_div)
qed

lemma round_up_covers: "0 < d \<Longrightarrow> n \<le> d * ((n + d - 1) div d)" for n d :: nat
  using mult_div_mod_eq [of d "n + d - 1"] mod_less_divisor [of d "n + d - 1"] by linarith

text \<open>The numbers of a layout, in natural numbers.\<close>

definition mk_sizes :: "RtfsMkfsLayout \<Rightarrow> nat \<Rightarrow> nat \<Rightarrow> bool" where
  "mk_sizes lay G J \<longleftrightarrow> unat (ml_segment_count lay) = G \<and> unat (ml_block_count lay) = 512 * G \<and>
     unat (ml_meta_journal_segment_count lay) = J \<and> ml_meta_journal_start_lpa lay = 512 \<and> 
     unat (ml_sit_start_lpa lay) = 512 * (1 + J) \<and>
     unat (ml_nat_start_lpa lay) = unat (ml_sit_start_lpa lay) + 512 * unat (ml_sit_segment_count lay) \<and>
     unat (ml_srmap_start_lpa lay) = unat (ml_nat_start_lpa lay) + 512 * unat (ml_nat_segment_count lay) \<and>
     unat (ml_main_start_lpa lay) = unat (ml_srmap_start_lpa lay) + 512 * unat (ml_srmap_segment_count lay) \<and>
     unat (ml_main_start_lpa lay) = 512 * unat (ml_main_start_segment lay) \<and>
     unat (ml_main_start_segment lay) + unat (ml_main_segment_count lay) = G \<and> 2 \<le> unat (ml_main_segment_count lay) \<and>
     G \<le> 60 * 512 * unat (ml_sit_segment_count lay) \<and> 512 * G \<le> 512 * 512 * unat (ml_nat_segment_count lay) \<and>
     512 * G \<le> 512 * 512 * unat (ml_srmap_segment_count lay)"

lemma unat_ucast64: "unat (x :: u64) < 2 ^ 32 \<Longrightarrow> unat (ucast x :: u32) = unat x"
  by (simp add: unsigned_ucast_eq take_bit_eq_mod)

lemma layout_sizes:
  assumes "rtfsMkfsCalculateLayout lpa_count mj = Inr lay" and "lpa_count < 2 ^ 32" and "mj \<noteq> - 1"
  shows "mk_sizes lay (unat lpa_count div 512) (unat mj)"
proof -
  define G S N where "G = unat lpa_count div 512" and "S = ((G + 60 - 1) div 60 + 512 - 1) div 512" and "N = (G + 512 - 1) div 512"
  have "unat lpa_count < 2 ^ 32" using assms(2) by (simp add: word_less_nat_alt)
  then have G: "G < 2 ^ 23" by (simp add: G_def)
  let ?seg = "lpa_count div 512"
  let ?sb = "rtfsMkfsDivRoundUp ?seg 60" and ?nb = "rtfsMkfsDivRoundUp (?seg * 512) 512"
  let ?ss = "rtfsMkfsDivRoundUp ?sb 512" and ?ns = "rtfsMkfsDivRoundUp ?nb 512"
  have seg: "unat ?seg = G" by (simp add: G_def unat_div)
  have blk: "unat (?seg * 512) = 512 * G"
    using seg G by (subst unat_mult_lem [THEN iffD1]) simp_all
  have sb: "unat ?sb = (G + 60 - 1) div 60" using div_round_up [of ?seg 60] seg G by simp
  have nb: "unat ?nb = G" using div_round_up [of "?seg * 512" 512] blk G by simp
  have ss: "unat ?ss = S" using div_round_up [of ?sb 512] sb G by (simp add: S_def)
  have ns: "unat ?ns = N" using div_round_up [of ?nb 512] nb G by (simp add: N_def)
  have SN: "S \<le> G + 1" "N \<le> G + 1" unfolding S_def N_def by linarith+
  have mj: "unat (1 + mj) = 1 + unat mj" using unat_add1_u32 [OF assms(3)] by (simp add: add.commute)
  have mj64: "unat (ucast (1 + mj) :: u64) = 1 + unat mj" using mj by (simp add: unsigned_ucast_eq take_bit_eq_mod)
  let ?ms = "ucast (1 + mj) + ?ss + ?ns + ?ns"
  have J32: "unat mj < 2 ^ 32" using unsigned_less [of mj] by simp
  have m1: "unat (ucast (1 + mj) + ?ss :: u64) = 1 + unat mj + S"
    using mj64 ss SN G J32 by (subst unat_add_lem [THEN iffD1]) simp_all
  have m2: "unat (ucast (1 + mj) + ?ss + ?ns :: u64) = 1 + unat mj + S + N"
    using m1 ns SN G J32 by (subst unat_add_lem [THEN iffD1]) simp_all
  have m3: "unat (?ms :: u64) = 1 + unat mj + S + N + N"
    using m2 ns SN G J32 by (subst unat_add_lem [THEN iffD1]) simp_all
  have m4: "unat (?ms + 2 :: u64) = 1 + unat mj + S + N + N + 2"
    using m3 SN G J32 by (subst unat_add_lem [THEN iffD1]) simp_all
  have "\<not> ?ms + 2 > ?seg" using assms(1) by (auto simp: rtfsMkfsCalculateLayout_def Let_def split: if_splits)
  then have room: "1 + unat mj + S + N + N + 2 \<le> G" using m4 seg by (simp add: word_less_nat_alt)
  have lay: "lay = \<lparr>ml_block_count = ?seg * 512, ml_segment_count = ucast ?seg,
            ml_meta_journal_start_lpa = BLOCK_PER_SEGMENT, ml_meta_journal_segment_count = mj,
            ml_sit_start_lpa = rtfsMkfsSegToLpa (1 + mj), ml_sit_segment_count = ucast ?ss,
            ml_nat_start_lpa = rtfsMkfsSegToLpa (1 + mj + ucast ?ss), ml_nat_segment_count = ucast ?ns,
            ml_srmap_start_lpa = rtfsMkfsSegToLpa (1 + mj + ucast ?ss + ucast ?ns), ml_srmap_segment_count = ucast ?ns,
            ml_main_start_lpa = rtfsMkfsSegToLpa (ucast ?ms), ml_main_start_segment = ucast ?ms,
            ml_main_segment_count = ucast ?seg - ucast ?ms\<rparr>"
    using assms(1) by (simp add: rtfsMkfsCalculateLayout_def Let_def split: if_splits)
  have c: "unat (ucast ?seg :: u32) = G" "unat (ucast ?ss :: u32) = S" "unat (ucast ?ns :: u32) = N"
    "unat (ucast ?ms :: u32) = 1 + unat mj + S + N + N"
    using seg ss ns m3 G room unat_ucast64 [of ?seg] unat_ucast64 [of ?ss] unat_ucast64 [of ?ns] unat_ucast64 [of ?ms] by simp_all
  have a1: "unat (1 + mj + ucast ?ss :: u32) = 1 + unat mj + S"
    using mj c(2) G room by (subst unat_add_lem [THEN iffD1]) simp_all
  have a2: "unat (1 + mj + ucast ?ss + ucast ?ns :: u32) = 1 + unat mj + S + N"
    using a1 c(3) G room by (subst unat_add_lem [THEN iffD1]) simp_all
  have lpa: "unat (rtfsMkfsSegToLpa x) = 512 * unat x" if "unat x \<le> G" for x
    using that G by (simp add: rtfsMkfsSegToLpa_def unat_mult_lem [THEN iffD1] mult.commute)
  have main: "unat (ucast ?seg - ucast ?ms :: u32) = G - (1 + unat mj + S + N + N)"
    using c(1,4) room by (subst unat_sub) (simp_all add: word_le_nat_alt)
  have cover: "G \<le> 60 * 512 * S" "G \<le> 512 * N"
    using round_up_covers [of 60 G] round_up_covers [of 512 "(G + 60 - 1) div 60"] round_up_covers [of 512 G]
    unfolding S_def N_def by simp_all
  show ?thesis
    unfolding mk_sizes_def lay G_def [symmetric]
    using c blk mj a1 a2 main room cover lpa [of "1 + mj"] lpa [of "1 + mj + ucast ?ss"] lpa [of "1 + mj + ucast ?ss + ucast ?ns"]
      lpa [of "ucast ?ms"] by simp
qed

text \<open>
  Claim C39. An accepted layout of a device of less than \<open>2^32\<close> blocks, with a number of journal segments other than
  \<^verbatim>\<open>UINT32_MAX\<close>, is well formed: super block segment, journal, SIT, NAT, SRMAP and main area
  follow each other without gap or overlap up to the last whole segment, the three tables have an entry for every segment, nid
  and block of the device, and the main area has at least two segments. No 32-bit address wraps. (Beyond these limits the code accepts layouts whose 32-bit sums wrap.)
\<close>

theorem rtfsMkfsCalculateLayout_partitions:
  assumes "rtfsMkfsCalculateLayout lpa_count mj = Inr lay" and "lpa_count < 2 ^ 32" and "mj \<noteq> - 1"
  shows "mk_sizes lay (unat lpa_count div 512) (unat mj)"
  by (rule layout_sizes [OF assms])

lemma rtfsMkfsCalculateLayout_partitions_witness:
  "\<exists>lay. rtfsMkfsCalculateLayout 4096 1 = Inr lay \<and> mk_sizes lay 8 1"
proof -
  obtain lay where lay: "rtfsMkfsCalculateLayout 4096 1 = Inr lay"
    by (simp add: rtfsMkfsCalculateLayout_def rtfsMkfsDivRoundUp_def)
  then show ?thesis using rtfsMkfsCalculateLayout_partitions [OF lay] by simp
qed

subsection \<open>The content of a formatted device\<close>

text \<open>What the formatter relies on: a block that the writer accepts is stored and the others are kept.\<close>

locale block_writer =
  fixes write_block :: "'c RtfsMkfsWriteBlock"
    and content :: "'c \<Rightarrow> u32 \<Rightarrow> block"
    and ok :: "'c \<Rightarrow> u32 \<Rightarrow> bool"
  assumes write_ok: "ok c l \<Longrightarrow> \<exists>c'. write_block c l b = (RC0, c') \<and> ok c' = ok c \<and>
    (\<forall>l'. ok c l' \<longrightarrow> content c' l' = (if l' = l then b else content c l'))"
begin

lemma writer_append:
  "rtfsMkfsWriteBlocks write_block c (ws @ ws') =
     (case rtfsMkfsWriteBlocks write_block c ws of (ret, c) \<Rightarrow> if ret \<noteq> RC0 then (ret, c) else rtfsMkfsWriteBlocks write_block c ws')"
  by (induction ws arbitrary: c) (auto split: prod.splits)

text \<open>A run of blocks from \<open>base\<close> on.\<close>

lemma write_run:
  assumes "\<forall>i < n. ok c (base + of_nat i)" and "n < 2 ^ 32"
  shows "\<exists>c'. rtfsMkfsWriteBlocks write_block c (map (\<lambda>i. (base + of_nat i, f i)) [0..<n]) = (RC0, c') \<and> ok c' = ok c \<and>
    (\<forall>l. ok c l \<longrightarrow> content c' l = (if unat (l - base) < n then f (unat (l - base)) else content c l))"
  using assms
proof (induction n)
  case (Suc n)
  then obtain c1 where c1: "rtfsMkfsWriteBlocks write_block c (map (\<lambda>i. (base + of_nat i, f i)) [0..<n]) = (RC0, c1)" "ok c1 = ok c"
    "\<forall>l. ok c l \<longrightarrow> content c1 l = (if unat (l - base) < n then f (unat (l - base)) else content c l)" by auto
  obtain c2 where c2: "write_block c1 (base + of_nat n) (f n) = (RC0, c2)" "ok c2 = ok c1"
    "\<forall>l'. ok c1 l' \<longrightarrow> content c2 l' = (if l' = base + of_nat n then f n else content c1 l')"
    using write_ok [of c1 "base + of_nat n" "f n"] Suc.prems(1) c1(2) by auto
  have n: "unat (of_nat n :: u32) = n" using Suc.prems(2) by (simp add: unat_of_nat)
  have at: "l = base + of_nat n \<longleftrightarrow> unat (l - base) = n" for l
  proof
    assume "unat (l - base) = n"
    then have "l - base = of_nat n" using n by (metis unsigned_word_eqI)
    then show "l = base + of_nat n" by (simp add: diff_eq_eq)
  qed (use n in simp)
  show ?case
    using c1 c2 by (intro exI [of _ c2]) (auto simp: writer_append at less_Suc_eq)
qed simp

lemma zero_loop:
  assumes "\<forall>l \<in> set lpas. ok c l"
  shows "\<exists>c'. rtfsMkfsZeroLoop write_block c lpas = (RC0, c') \<and> ok c' = ok c \<and>
    (\<forall>l. ok c l \<longrightarrow> content c' l = (if l \<in> set lpas then zero_block else content c l))"
  using assms
proof (induction lpas arbitrary: c)
  case (Cons l lpas)
  obtain c1 where c1: "write_block c l zero_block = (RC0, c1)" "ok c1 = ok c"
    "\<forall>l'. ok c l' \<longrightarrow> content c1 l' = (if l' = l then zero_block else content c l')"
    using write_ok [of c l zero_block] Cons.prems by auto
  obtain c2 where c2: "rtfsMkfsZeroLoop write_block c1 lpas = (RC0, c2)" "ok c2 = ok c1"
    "\<forall>l. ok c1 l \<longrightarrow> content c2 l = (if l \<in> set lpas then zero_block else content c1 l)"
    using Cons.IH [of c1] Cons.prems c1(2) by auto
  show ?case
    using c1 c2 by (intro exI [of _ c2]) (auto simp: rtfsMkfsWriteZeroBlock_def)
qed auto

end

lemma lpa_run: "unat base + n \<le> 2 ^ 32 \<Longrightarrow> unat ((l :: u32) - base) < n \<longleftrightarrow> unat base \<le> unat l \<and> unat l < unat base + n"
proof -
  assume a: "unat base + n \<le> 2 ^ 32"
  have l: "unat l < 2 ^ 32" "unat base < 2 ^ 32" using unsigned_less [of l] unsigned_less [of base] by simp_all
  show ?thesis
  proof (cases "unat base \<le> unat l")
    case True
    then have "unat (l - base) = unat l - unat base" by (simp add: unat_sub word_le_nat_alt)
    then show ?thesis using True by auto
  next
    case False
    then have "unat (l - base) = 2 ^ 32 + unat l - unat base"
      using l unat_sub_if' [of l base] by (simp add: word_le_nat_alt split: if_splits)
    then show ?thesis using False a l by auto
  qed
qed

lemma for_u32_set: "x \<in> set (for_u32 a b) \<longleftrightarrow> a \<le> x \<and> x < b"
proof
  assume "x \<in> set (for_u32 a b)"
  then obtain n where n: "x = of_nat n" "unat a \<le> n" "n < unat b" by (auto simp: for_u32_def)
  moreover have "unat b < 2 ^ 32" using unsigned_less [of b] by simp
  ultimately have "unat x = n" by (simp add: unat_of_nat)
  then show "a \<le> x \<and> x < b" using n by (simp add: word_le_nat_alt word_less_nat_alt)
next
  assume "a \<le> x \<and> x < b"
  then have "unat x \<in> set [unat a..<unat b]" by (simp add: word_le_nat_alt word_less_nat_alt)
  then have "of_nat (unat x) \<in> set (for_u32 a b)" unfolding for_u32_def by (metis image_eqI set_map)
  then show "x \<in> set (for_u32 a b)" by simp
qed

lemma for_u32_distinct: "distinct (for_u32 a b)"
proof -
  have "inj_on (of_nat :: nat \<Rightarrow> u32) {unat a..<unat b}"
  proof (rule inj_onI)
    fix x y
    assume xy: "x \<in> {unat a..<unat b}" "y \<in> {unat a..<unat b}" and eq: "(of_nat x :: u32) = of_nat y"
    have "unat b < 2 ^ 32" using unsigned_less [of b] by simp
    then have "unat (of_nat x :: u32) = x" "unat (of_nat y :: u32) = y" using xy by (simp_all add: unat_of_nat)
    then show "x = y" using eq by metis
  qed
  then show ?thesis by (simp add: for_u32_def distinct_map)
qed

interpretation mkfs_dev: block_writer rtfsMkfsCommDevWriteBlock "\<lambda>dev l. media dev (LPA_TO_LBA32 l)" lpa_fine
proof unfold_locales
  fix dev l b
  assume "lpa_fine dev l"
  then show "\<exists>dev'. rtfsMkfsCommDevWriteBlock dev l b = (RC0, dev') \<and> lpa_fine dev' = lpa_fine dev \<and>
      (\<forall>l'. lpa_fine dev l' \<longrightarrow> media dev' (LPA_TO_LBA32 l') = (if l' = l then b else media dev (LPA_TO_LBA32 l')))"
    by (auto simp: rtfsMkfsCommDevWriteBlock_def comm_write_def lpa_fine_def fun_eq_iff dest: LPA_TO_LBA32_inj)
qed

text \<open>The addresses that are cleared: the segments between the super block and the main area.\<close>

lemma zero_lpas:
  assumes "512 * unat M < 2 ^ 32"
  shows "l \<in> set (concat (map (\<lambda>seg_id. map (\<lambda>off. rtfsMkfsSegToLpa seg_id + off) (for_u32 0 512)) (for_u32 1 M))) \<longleftrightarrow>
    512 \<le> unat l \<and> unat l < 512 * unat M"
proof -
  have u: "unat (s * 512 + off) = 512 * unat s + unat off" if "s < M" "off < 512" for s off :: u32
  proof -
    have s: "unat s < unat M" "unat off < 512" using that by (simp_all add: word_less_nat_alt)
    then have "unat (s * 512) = 512 * unat s" using assms by (subst unat_mult_lem [THEN iffD1]) simp_all
    then show ?thesis using s assms by (subst unat_add_lem [THEN iffD1]) simp_all
  qed
  show ?thesis
  proof
    assume "512 \<le> unat l \<and> unat l < 512 * unat M"
    then have d: "1 \<le> l div 512" "l div 512 < M" "l mod 512 < 512"
      by (simp_all add: word_le_nat_alt word_less_nat_alt unat_div unat_mod Suc_le_eq div_greater_zero_iff less_mult_imp_div_less mult.commute)
    then have "unat (l div 512 * 512 + l mod 512) = unat l" using u [OF d(2,3)] by (simp add: unat_div unat_mod)
    then have "l = rtfsMkfsSegToLpa (l div 512) + l mod 512" unfolding rtfsMkfsSegToLpa_def by (metis word_unat_eq_iff)
    then show "l \<in> set (concat (map (\<lambda>seg_id. map (\<lambda>off. rtfsMkfsSegToLpa seg_id + off) (for_u32 0 512)) (for_u32 1 M)))"
    proof -
      have B: "l div 512 \<in> set (for_u32 1 M)" and "l mod 512 \<in> set (for_u32 0 512)" using d by (simp_all add: for_u32_set)
      then have A: "l \<in> (\<lambda>off. rtfsMkfsSegToLpa (l div 512) + off) ` set (for_u32 0 512)"
        by (intro image_eqI [where x = "l mod 512"]) (rule \<open>l = _\<close>)
      show ?thesis
        by (simp only: set_concat set_map image_image) (rule UN_I [OF B], rule A)
    qed
  next
    assume "l \<in> set (concat (map (\<lambda>seg_id. map (\<lambda>off. rtfsMkfsSegToLpa seg_id + off) (for_u32 0 512)) (for_u32 1 M)))"
    then obtain s off where s: "l = s * 512 + off" "1 \<le> s" "s < M" "off < 512"
      by (auto simp: for_u32_set rtfsMkfsSegToLpa_def)
    then have "unat l = 512 * unat s + unat off" using u by simp
    then show "512 \<le> unat l \<and> unat l < 512 * unat M" using s(2-4) by (simp add: word_le_nat_alt word_less_nat_alt)
  qed
qed

context block_writer
begin

lemma format_content:
  fixes options :: RtfsMkfsOptions
  defines "eff \<equiv> rtfsMkfsEffectiveOptions options"
  assumes "rtfsMkfsCalculateLayout (mo_lpa_count eff) (mo_meta_journal_segment_count eff) = Inr lay"
    and "mk_sizes lay G J" and "512 * G < 2 ^ 32" and "\<forall>l. unat l < 512 * G \<longrightarrow> ok c l"
  shows "\<exists>c'. rtfsMkfsFormat options write_block c = (Inr lay, c') \<and> ok c' = ok c \<and>
    (\<forall>l. unat l < 512 * G \<longrightarrow> content c' l =
      (if l = 0 then rtfsMkfsSuperBlock eff lay
       else if unat l < 512 then content c l
       else if unat l < unat (ml_sit_start_lpa lay) then zero_block
       else if unat l < unat (ml_nat_start_lpa lay) then rtfsMkfsSitBlock lay (of_nat (unat l - unat (ml_sit_start_lpa lay)))
       else if unat l < unat (ml_srmap_start_lpa lay) then rtfsMkfsNatBlock eff lay (of_nat (unat l - unat (ml_nat_start_lpa lay)))
       else if unat l < unat (ml_main_start_lpa lay) then rtfsMkfsSrmapBlock eff lay (of_nat (unat l - unat (ml_srmap_start_lpa lay)))
       else if l = ml_main_start_lpa lay then rtfsMkfsRootInode eff else content c l))"
proof -
  note z = assms(3) [unfolded mk_sizes_def]
  let ?O = "ok c" and ?sit = "ml_sit_start_lpa lay" and ?nat = "ml_nat_start_lpa lay" and ?sr = "ml_srmap_start_lpa lay" and ?m = "ml_main_start_lpa lay"
  have okl: "unat l < 512 * G \<Longrightarrow> ?O l" for l using assms(5) by blast
  have n: "unat (ucast x * 512 :: u64) = 512 * unat x" for x :: u32
  proof -
    have "unat x < 2 ^ 32" using unsigned_less [of x, where 'a = nat] by simp
    then show ?thesis by (subst unat_mult_lem [THEN iffD1]) (simp_all add: unsigned_ucast_eq take_bit_eq_mod)
  qed
  have run: "\<forall>i < k. ?O (base + of_nat i)" if "unat base + k \<le> 512 * G" for base k
  proof (intro allI impI okl)
    fix i
    assume "i < k"
    then have "unat (base + of_nat i) = unat base + i"
      using that assms(4) unat_add_lem [of base "of_nat i"] by (simp add: unat_of_nat)
    then show "unat (base + of_nat i) < 512 * G" using that \<open>i < k\<close> by simp
  qed
  have "?O 0" by (rule okl) (use z in auto)
  then obtain c1 where c1: "write_block c 0 (rtfsMkfsSuperBlock eff lay) = (RC0, c1)" "ok c1 = ?O"
    "\<forall>l. ?O l \<longrightarrow> content c1 l = (if l = 0 then rtfsMkfsSuperBlock eff lay else content c l)"
    using write_ok by blast
  let ?zs = "concat (map (\<lambda>seg_id. map (\<lambda>off. rtfsMkfsSegToLpa seg_id + off) (for_u32 0 512)) (for_u32 1 (ml_main_start_segment lay)))"
  have M: "512 * unat (ml_main_start_segment lay) < 2 ^ 32" using z assms(4) by linarith
  have "\<forall>l \<in> set ?zs. ok c1 l" using zero_lpas [OF M] okl c1(2) z by auto
  then obtain c2 where c2: "rtfsMkfsZeroLoop write_block c1 ?zs = (RC0, c2)" "ok c2 = ?O"
    "\<forall>l. ?O l \<longrightarrow> content c2 l = (if l \<in> set ?zs then zero_block else content c1 l)"
    using zero_loop [of ?zs c1] c1(2) by metis
  obtain c3 where c3: "rtfsMkfsWriteInitialNat eff lay write_block c2 = (RC0, c3)" "ok c3 = ?O"
    "\<forall>l. ?O l \<longrightarrow> content c3 l = (if unat (l - ?nat) < 512 * unat (ml_nat_segment_count lay)
       then rtfsMkfsNatBlock eff lay (of_nat (unat (l - ?nat))) else content c2 l)"
    using write_run [of "512 * unat (ml_nat_segment_count lay)" c2 ?nat "\<lambda>i. rtfsMkfsNatBlock eff lay (of_nat i)"]
      run [of ?nat "512 * unat (ml_nat_segment_count lay)"] c2(2) z assms(4)
    unfolding rtfsMkfsWriteInitialNat_def n by auto
  obtain c4 where c4: "rtfsMkfsWriteInitialSit lay write_block c3 = (RC0, c4)" "ok c4 = ?O"
    "\<forall>l. ?O l \<longrightarrow> content c4 l = (if unat (l - ?sit) < 512 * unat (ml_sit_segment_count lay)
       then rtfsMkfsSitBlock lay (of_nat (unat (l - ?sit))) else content c3 l)"
    using write_run [of "512 * unat (ml_sit_segment_count lay)" c3 ?sit "\<lambda>i. rtfsMkfsSitBlock lay (of_nat i)"]
      run [of ?sit "512 * unat (ml_sit_segment_count lay)"] c3(2) z assms(4)
    unfolding rtfsMkfsWriteInitialSit_def n by auto
  obtain c5 where c5: "rtfsMkfsWriteInitialSrmap eff lay write_block c4 = (RC0, c5)" "ok c5 = ?O"
    "\<forall>l. ?O l \<longrightarrow> content c5 l = (if unat (l - ?sr) < 512 * unat (ml_srmap_segment_count lay)
       then rtfsMkfsSrmapBlock eff lay (of_nat (unat (l - ?sr))) else content c4 l)"
    using write_run [of "512 * unat (ml_srmap_segment_count lay)" c4 ?sr "\<lambda>i. rtfsMkfsSrmapBlock eff lay (of_nat i)"]
      run [of ?sr "512 * unat (ml_srmap_segment_count lay)"] c4(2) z assms(4)
    unfolding rtfsMkfsWriteInitialSrmap_def n by auto
  have "ok c5 ?m" using okl [of ?m] c5(2) z by auto
  then obtain c6 where c6: "write_block c5 ?m (rtfsMkfsRootInode eff) = (RC0, c6)" "ok c6 = ?O"
    "\<forall>l. ?O l \<longrightarrow> content c6 l = (if l = ?m then rtfsMkfsRootInode eff else content c5 l)"
    using write_ok [of c5 ?m "rtfsMkfsRootInode eff"] c5(2) by auto
  have fmt: "rtfsMkfsFormat options write_block c = (Inr lay, c6)"
    using assms(2) c1(1) c2(1) c3(1) c4(1) c5(1) c6(1)
    by (simp add: rtfsMkfsFormat_def eff_def [symmetric] Let_def rtfsMkfsWriteInitialSuper_def rtfsMkfsWriteRootInode_def)
  have sub: "unat (l - base) = unat l - unat base" if "unat base \<le> unat l" for l base :: u32
    using that by (simp add: unat_sub word_le_nat_alt)
  have lt: "unat ?nat + 512 * unat (ml_nat_segment_count lay) \<le> 2 ^ 32" "unat ?sit + 512 * unat (ml_sit_segment_count lay) \<le> 2 ^ 32"
    "unat ?sr + 512 * unat (ml_srmap_segment_count lay) \<le> 2 ^ 32"
    using z assms(4) by linarith+
  have ml: "l = ?m \<longleftrightarrow> unat l = unat ?m" for l by (simp add: word_unat_eq_iff)
  have l0: "l = 0 \<longleftrightarrow> unat l = 0" for l :: u32 by (simp add: unat_eq_0)
  have "content c6 l = (if l = 0 then rtfsMkfsSuperBlock eff lay else if unat l < 512 then content c l
       else if unat l < unat ?sit then zero_block
       else if unat l < unat ?nat then rtfsMkfsSitBlock lay (of_nat (unat l - unat ?sit))
       else if unat l < unat ?sr then rtfsMkfsNatBlock eff lay (of_nat (unat l - unat ?nat))
       else if unat l < unat ?m then rtfsMkfsSrmapBlock eff lay (of_nat (unat l - unat ?sr))
       else if l = ?m then rtfsMkfsRootInode eff else content c l)" if "unat l < 512 * G" for l
  proof -
    have e: "content c6 l = (if l = ?m then rtfsMkfsRootInode eff
      else if unat ?sr \<le> unat l \<and> unat l < unat ?m then rtfsMkfsSrmapBlock eff lay (of_nat (unat l - unat ?sr))
      else if unat ?sit \<le> unat l \<and> unat l < unat ?nat then rtfsMkfsSitBlock lay (of_nat (unat l - unat ?sit))
      else if unat ?nat \<le> unat l \<and> unat l < unat ?sr then rtfsMkfsNatBlock eff lay (of_nat (unat l - unat ?nat))
      else if 512 \<le> unat l \<and> unat l < unat ?m then zero_block
      else if l = 0 then rtfsMkfsSuperBlock eff lay else content c l)"
    proof -
      have ends: "unat ?nat + 512 * unat (ml_nat_segment_count lay) = unat ?sr" "unat ?sit + 512 * unat (ml_sit_segment_count lay) = unat ?nat"
        "unat ?sr + 512 * unat (ml_srmap_segment_count lay) = unat ?m" "512 * unat (ml_main_start_segment lay) = unat ?m"
        using z by linarith+
      note runs = lpa_run [OF lt(1), of l, unfolded ends] lpa_run [OF lt(2), of l, unfolded ends] lpa_run [OF lt(3), of l, unfolded ends]
      note at = okl [OF that]
      show ?thesis
        using c6(3) [rule_format, OF at] c5(3) [rule_format, OF at] c4(3) [rule_format, OF at] c3(3) [rule_format, OF at]
          c2(3) [rule_format, OF at] c1(3) [rule_format, OF at]
        unfolding runs zero_lpas [OF M, of l, unfolded ends] by (simp add: sub cong: if_cong)
    qed
    have "512 \<le> unat ?sit" "unat ?sit \<le> unat ?nat" "unat ?nat \<le> unat ?sr" "unat ?sr \<le> unat ?m" using z by simp_all
    note le = this
    consider "unat l = 0" | "0 < unat l" "unat l < 512" | "512 \<le> unat l" "unat l < unat ?sit" | "unat ?sit \<le> unat l" "unat l < unat ?nat"
      | "unat ?nat \<le> unat l" "unat l < unat ?sr" | "unat ?sr \<le> unat l" "unat l < unat ?m" | "unat l = unat ?m" | "unat ?m < unat l"
      using le by linarith
    then show ?thesis unfolding e ml l0 using le by cases simp_all
  qed
  then show ?thesis using fmt c6(2) by blast
qed

end

subsection \<open>The tables of a formatted device\<close>

lemma slots_apart: "i \<noteq> j \<Longrightarrow> k * i + k \<le> k * j \<or> k * j + k \<le> k * i" for i j k :: nat
  by (metis add.commute mult_Suc_right mult_le_mono2 not_less_eq_eq nat_le_linear le_antisym)

lemma sit_other:
  "i \<noteq> j \<Longrightarrow> getSitEntry (putSitEntry b (sit_slot i) e) (sit_slot j) = getSitEntry b (sit_slot j)"
  by (rule csit.get_put_other) (use slots_apart [of "unat i" "unat j" 68] in \<open>auto simp: word_unat_eq_iff\<close>)

lemma nat_other:
  "i \<noteq> j \<Longrightarrow> getNatEntry (putNatEntry b (8 * i) e) (8 * j) = getNatEntry b (8 * j)" for i j :: nat
  by (rule cnat.get_put_other) (use slots_apart [of i j 8] in auto)

lemma div_mod_eq_u32: "(x :: u32) div 60 = s div 60 \<Longrightarrow> x mod 60 = s mod 60 \<Longrightarrow> x = s"
  by (metis div_mult_mod_eq)

lemma unat_up: "unat (ucast (x :: u32) :: u64) = unat x"
proof -
  have "unat x < 2 ^ 32" using unsigned_less [of x, where 'a = nat] by simp
  then show ?thesis by (simp add: unsigned_ucast_eq take_bit_eq_mod)
qed

lemma set_next_get:
  "getSitEntry (rtfsMkfsSitSetNextSegment b seg nx) (sit_slot (s mod 60)) =
     (let e = getSitEntry b (sit_slot (s mod 60)) in if seg mod 60 = s mod 60 then SET_NEXT_SEG (e\<lparr>vblocks := vblocks e AND 511\<rparr>) nx else e)"
proof (cases "seg mod 60 = s mod 60")
  case True
  let ?e = "getSitEntry b (sit_slot (s mod 60))"
  have "sit_ok (SET_NEXT_SEG (?e\<lparr>vblocks := vblocks ?e AND 511\<rparr>) nx)"
    using csit.cok_cget [of b "sit_slot (s mod 60)"] by (simp add: sit_ok_def SET_NEXT_SEG_def)
  then show ?thesis using True by (simp add: rtfsMkfsSitSetNextSegment_def Let_def csit.cget_cput)
next
  case False
  then show ?thesis by (simp add: rtfsMkfsSitSetNextSegment_def Let_def sit_other)
qed

lemma set_valid_other:
  "seg mod 60 \<noteq> s mod 60 \<Longrightarrow> getSitEntry (rtfsMkfsSitSetValid b seg off) (sit_slot (s mod 60)) = getSitEntry b (sit_slot (s mod 60))"
  by (simp add: rtfsMkfsSitSetValid_def Let_def sit_other)

lemma set_valid_bits:
  assumes "j < 512" and "j \<noteq> 0" and "sit_bit (getSitEntry (rtfsMkfsSitSetValid b s 0) (sit_slot (s mod 60))) j"
  shows "sit_bit (getSitEntry b (sit_slot (s mod 60))) j"
proof -
  let ?e = "getSitEntry b (sit_slot (s mod 60))"
  let ?v = "valid_map ?e ! 0 OR 1"
  let ?e1 = "?e\<lparr>valid_map := (valid_map ?e)[0 := ?v]\<rparr>"
  have len: "length (valid_map ?e) = 64" using csit.cok_cget [of b "sit_slot (s mod 60)"] by (simp add: sit_ok_def)
  have "bit ?v m \<longleftrightarrow> (if m = (0 :: nat) mod 8 then True else bit (valid_map ?e ! (0 div 8)) m)" for m
    by (auto simp: bit_or_iff bit_1_iff)
  from sit_bit_update [OF len _ this, of j] have "sit_bit ?e1 j = sit_bit ?e j" using assms(1,2) by simp
  moreover have "sit_bit (?e1\<lparr>vblocks := w\<rparr>) j = sit_bit ?e1 j" for w by (simp add: sit_bit_def)
  moreover have "sit_ok ?e1" "sit_ok (?e1\<lparr>vblocks := w\<rparr>)" for w using len by (simp_all add: sit_ok_def)
  ultimately show ?thesis
    using assms(3) by (auto simp: rtfsMkfsSitSetValid_def Let_def csit.cget_cput split: if_splits)
qed

lemma fold_valid_other:
  "seg mod 60 \<noteq> s mod 60 \<Longrightarrow>
     getSitEntry (fold (\<lambda>off b. rtfsMkfsSitSetValid b seg off) offs b) (sit_slot (s mod 60)) = getSitEntry b (sit_slot (s mod 60))"
  by (induction offs arbitrary: b) (simp_all add: set_valid_other)

lemma fold_valid_segs:
  assumes "\<forall>seg \<in> set segs. seg \<noteq> s"
  shows "getSitEntry (fold (\<lambda>seg b. if ucast (seg div 60) = (ucast (s div 60) :: u64) then fold (\<lambda>off b. rtfsMkfsSitSetValid b seg off) offs b else b) segs b)
      (sit_slot (s mod 60)) = getSitEntry b (sit_slot (s mod 60))"
  using assms
proof (induction segs arbitrary: b)
  case (Cons seg segs)
  have u: "ucast (seg div 60) = (ucast (s div 60) :: u64) \<longleftrightarrow> seg div 60 = s div 60"
    using unat_up [of "seg div 60"] unat_up [of "s div 60"] by (metis word_unat_eq_iff)
  show ?case
  proof (cases "seg div 60 = s div 60")
    case True
    then have "seg mod 60 \<noteq> s mod 60" using Cons.prems div_mod_eq_u32 by auto
    then show ?thesis using Cons True by (simp add: fold_valid_other)
  next
    case False
    then show ?thesis using Cons u by simp
  qed
qed simp

lemma fold_next:
  assumes "\<forall>x \<in> set xs. x div 60 = s div 60" and "distinct xs"
  shows "getSitEntry (fold (\<lambda>seg b. if seg + 1 < g then rtfsMkfsSitSetNextSegment b seg (seg + 1) else b) xs b) (sit_slot (s mod 60)) =
    (let e = getSitEntry b (sit_slot (s mod 60)) in
     if s \<in> set xs \<and> s + 1 < g then SET_NEXT_SEG (e\<lparr>vblocks := vblocks e AND 511\<rparr>) (s + 1) else e)"
  using assms
proof (induction xs arbitrary: b)
  case (Cons x xs)
  let ?f = "\<lambda>seg b. if seg + 1 < g then rtfsMkfsSitSetNextSegment b seg (seg + 1) else b" and ?at = "sit_slot (s mod 60)"
  have IH: "getSitEntry (fold ?f xs b') ?at = (let e = getSitEntry b' ?at in
      if s \<in> set xs \<and> s + 1 < g then SET_NEXT_SEG (e\<lparr>vblocks := vblocks e AND 511\<rparr>) (s + 1) else e)" for b'
    using Cons by simp
  have step: "getSitEntry (fold ?f (x # xs) b) ?at = getSitEntry (fold ?f xs (?f x b)) ?at" by simp
  show ?case
  proof (cases "x = s")
    case True
    then have "s \<notin> set xs" using Cons.prems(2) by simp
    then show ?thesis unfolding step IH using True by (simp add: set_next_get Let_def)
  next
    case False
    then have "x mod 60 \<noteq> s mod 60" using Cons.prems(1) div_mod_eq_u32 [of x s] by (metis list.set_intros(1))
    then have "getSitEntry (?f x b) ?at = getSitEntry b ?at" by (simp add: set_next_get Let_def)
    then show ?thesis unfolding step IH using False by (simp add: Let_def)
  qed
qed simp

text \<open>The SIT entry of a segment of the main area.\<close>

lemma sit_block_main:
  assumes "ml_main_start_segment lay \<le> s" and "s < ml_segment_count lay" and "ml_segment_count lay < 2 ^ 23"
  defines "e \<equiv> getSitEntry (rtfsMkfsSitBlock lay (ucast (s div 60))) (sit_slot (s mod 60))"
  shows "j < 512 \<Longrightarrow> s \<noteq> ml_main_start_segment lay \<or> j \<noteq> 0 \<Longrightarrow> \<not> sit_bit e j"
    and "s \<noteq> ml_main_start_segment lay \<Longrightarrow> s + 1 < ml_segment_count lay \<Longrightarrow> GET_NEXT_SEG e = s + 1"
proof -
  let ?M = "ml_main_start_segment lay" and ?g = "ml_segment_count lay" and ?at = "sit_slot (s mod 60)"
  let ?q = "s div 60"
  let ?xs = "for_u32 (ucast (ucast ?q :: u64) * 60) (min (ucast ((ucast ?q :: u64) + 1) * 60) ?g)"
  have us: "unat s < unat ?g" "unat ?g < 2 ^ 23" "unat ?M \<le> unat s" using assms(1-3) by (simp_all add: word_less_nat_alt word_le_nat_alt)
  have q: "unat ?q = unat s div 60" by (simp add: unat_div)
  have lo: "(ucast (ucast ?q :: u64) :: u32) = ?q" using q unat_up [of ?q] unat_ucast64 [of "ucast ?q"] us by (simp add: word_unat_eq_iff)
  have "unat ((ucast ?q :: u64) + 1) = unat s div 60 + 1" using q unat_up [of ?q] us by (subst unat_add_lem [THEN iffD1]) simp_all
  then have "unat (ucast ((ucast ?q :: u64) + 1) :: u32) = unat s div 60 + 1" using us unat_ucast64 [of "ucast ?q + 1"] by simp
  then have hi: "unat (ucast ((ucast ?q :: u64) + 1) * 60 :: u32) = (unat s div 60 + 1) * 60" "unat (?q * 60) = unat s div 60 * 60"
    using us q by (subst unat_mult_lem [THEN iffD1]; simp)+
  have mem: "x \<in> set ?xs \<longleftrightarrow> unat s div 60 * 60 \<le> unat x \<and> unat x < (unat s div 60 + 1) * 60 \<and> unat x < unat ?g" for x
    using hi by (auto simp: for_u32_set lo word_le_nat_alt word_less_nat_alt min_def)
  have "x div 60 = ?q" if "x \<in> set ?xs" for x
  proof -
    have "unat x div 60 = unat s div 60" using that unfolding mem by (intro div_nat_eqI) simp_all
    then show ?thesis by (simp add: word_unat_eq_iff unat_div)
  qed
  then have blk: "\<forall>x \<in> set ?xs. x div 60 = s div 60" by blast
  have "unat s < (unat s div 60 + 1) * 60" using div_mult_mod_eq [of "unat s" 60] mod_less_divisor [of 60 "unat s"] by simp
  then have s: "s \<in> set ?xs" unfolding mem using us(1) by simp
  define b1 where "b1 = fold (\<lambda>seg b. if seg + 1 < ?g then rtfsMkfsSitSetNextSegment b seg (seg + 1) else b) ?xs zero_block"
  let ?z = "\<lparr>vblocks = 0, valid_map = replicate 64 0\<rparr>"
  have z: "getSitEntry zero_block ?at = ?z"
    by (simp add: getSitEntry_def) (simp add: zero_block_def map_replicate_const)
  have e1: "getSitEntry b1 ?at = (if s + 1 < ?g then SET_NEXT_SEG ?z (s + 1) else ?z)"
    unfolding b1_def fold_next [OF blk for_u32_distinct] z using s by (simp add: Let_def)
  define b2 where "b2 = (if ucast ?q = (0 :: u64) then rtfsMkfsSitSetValid b1 0 0 else b1)"
  define b3 where "b3 = fold (\<lambda>seg b. if ucast (seg div 60) = (ucast ?q :: u64)
      then fold (\<lambda>off b. rtfsMkfsSitSetValid b seg off) (for_u32 0 512) b else b) (for_u32 1 ?M) b2"
  have b: "rtfsMkfsSitBlock lay (ucast ?q) = (if ucast (?M div 60) = (ucast ?q :: u64) then rtfsMkfsSitSetValid b3 ?M 0 else b3)"
    unfolding b3_def b2_def b1_def rtfsMkfsSitBlock_def Let_def ..
  have e3: "getSitEntry b3 ?at = getSitEntry b2 ?at"
    unfolding b3_def by (rule fold_valid_segs) (use assms(1) in \<open>auto simp: for_u32_set\<close>)
  have bits1: "\<not> sit_bit (getSitEntry b1 ?at) j" if "j < 512" for j
    using that by (auto simp: e1 sit_bit_def SET_NEXT_SEG_def)
  have e2: "getSitEntry b2 ?at = getSitEntry b1 ?at" if "s \<noteq> 0"
  proof (cases "ucast ?q = (0 :: u64)")
    case True
    then have "?q = 0 div 60" using unat_up [of ?q] by (metis div_0 unat_0 word_unat_eq_iff)
    then have "0 mod 60 \<noteq> s mod 60" using that div_mod_eq_u32 [of 0 s] by metis
    then show ?thesis by (simp add: b2_def set_valid_other)
  qed (simp add: b2_def)
  have bits3: "\<not> sit_bit (getSitEntry b3 ?at) j" if "j < 512" "s \<noteq> 0 \<or> j \<noteq> 0" for j
  proof (cases "s = 0")
    case True
    then have "j \<noteq> 0" using that by simp
    then show ?thesis
      unfolding e3 using that(1) bits1 [OF that(1)] True set_valid_bits [of j b1 0] by (auto simp: b2_def)
  qed (use e2 e3 bits1 [OF that(1)] in simp)
  show "\<not> sit_bit e j" if "j < 512" "s \<noteq> ?M \<or> j \<noteq> 0"
  proof (cases "s = ?M")
    case True
    then show ?thesis
      using that bits3 [of j] set_valid_bits [of j b3 s] unfolding e_def b by auto
  next
    case False
    then have "s \<noteq> 0" using assms(1) by auto
    have "?M mod 60 \<noteq> s mod 60" if "ucast (?M div 60) = (ucast ?q :: u64)"
      using that False div_mod_eq_u32 [of ?M s] unat_up [of ?q] unat_up [of "?M div 60"] by (metis word_unat_eq_iff)
    then have "e = getSitEntry b3 ?at" unfolding e_def b by (simp add: set_valid_other)
    then show ?thesis using bits3 [OF that(1)] \<open>s \<noteq> 0\<close> by simp
  qed
  show "GET_NEXT_SEG e = s + 1" if "s \<noteq> ?M" "s + 1 < ?g"
  proof -
    have "s \<noteq> 0" using that(1) assms(1) by auto
    have "?M mod 60 \<noteq> s mod 60" if "ucast (?M div 60) = (ucast ?q :: u64)"
      using that \<open>s \<noteq> ?M\<close> div_mod_eq_u32 [of ?M s] unat_up [of ?q] unat_up [of "?M div 60"] by (metis word_unat_eq_iff)
    then have "e = getSitEntry b3 ?at" unfolding e_def b by (simp add: set_valid_other)
    then have "e = SET_NEXT_SEG ?z (s + 1)" using e3 e2 [OF \<open>s \<noteq> 0\<close>] e1 that(2) by simp
    then have v: "vblocks e = push_bit 9 (s + 1)" by (simp add: SET_NEXT_SEG_def)
    have "unat (s + 1) < 2 ^ 23" using that(2) us(2) by (simp add: word_less_nat_alt)
    then have "unat (vblocks e) = 512 * unat (s + 1)"
      unfolding v push_bit_eq_mult by (subst unat_mult_lem [THEN iffD1]) simp_all
    then show ?thesis using next_seg_div [of e] by (simp add: word_unat_eq_iff)
  qed
qed

text \<open>The NAT entry of a nid.\<close>

lemma fold_put_nat: "j < n \<Longrightarrow> getNatEntry (fold (\<lambda>i b. putNatEntry b (8 * i) (v i)) [0..<n] b) (8 * j) = v j"
proof (induction n)
  case (Suc n)
  then show ?case by (cases "j = n") (simp_all add: cnat.cget_cput nat_other)
qed simp

lemma nat_block_entry:
  assumes "unat nid < unat (ml_block_count lay)" and "unat (ml_block_count lay) < 2 ^ 32" and "mo_root_ino opts \<noteq> - 1"
  shows "getNatEntry (rtfsMkfsNatBlock opts lay (ucast (nid div 512))) (nat_slot (nid mod 512)) =
    (if nid = mo_root_ino opts then \<lparr>nat_ino = nid, nat_block_addr = ml_main_start_lpa lay\<rparr>
     else \<lparr>nat_ino = INVALID_NID, nat_block_addr = (if unat nid + 1 < unat (ml_block_count lay) then nid + 1 else INVALID_NID)\<rparr>)"
proof -
  let ?r = "mo_root_ino opts" and ?q = "ucast (nid div 512) :: u64" and ?at = "nat_slot (nid mod 512)" and ?B = "ml_block_count lay"
  define v where "v i = \<lparr>nat_ino = INVALID_NID, nat_block_addr = (if ?q * 512 + of_nat i + 1 < ?B then ucast (?q * 512 + of_nat i + 1) else INVALID_NID)\<rparr>" for i
  let ?j = "unat (nid mod 512)"
  have j: "?j < 512" "unat nid = unat (nid div 512) * 512 + ?j" using unat_mod [of nid 512] unat_div [of nid 512] by simp_all
  have q: "unat ?q = unat (nid div 512)" by (rule unat_up)
  have nlt: "unat nid < 2 ^ 32 - 1" using assms(1,2) by simp
  have q512: "unat (?q * 512) = unat (nid div 512) * 512" using q j nlt by (subst unat_mult_lem [THEN iffD1]) simp_all
  have "unat (?q * 512 + of_nat ?j) = unat nid" using q512 j nlt by (subst unat_add_lem [THEN iffD1]) (simp_all add: unat_of_nat)
  then have n1: "unat (?q * 512 + of_nat ?j + 1) = unat nid + 1" using nlt by (subst unat_add_lem [THEN iffD1]) simp_all
  have nid1: "unat (nid + 1) = unat nid + 1" using nlt by (subst unat_add_lem [THEN iffD1]) simp_all
  have vj: "v ?j = \<lparr>nat_ino = INVALID_NID, nat_block_addr = (if unat nid + 1 < unat ?B then nid + 1 else INVALID_NID)\<rparr>"
    using n1 nid1 nlt unat_ucast64 [of "?q * 512 + of_nat ?j + 1"] by (simp add: v_def word_less_nat_alt) (simp add: word_unat_eq_iff)
  define b1 where "b1 = fold (\<lambda>i b. putNatEntry b (8 * i) (v i)) [0..<512] zero_block"
  have e1: "getNatEntry b1 ?at = v ?j" unfolding b1_def by (rule fold_put_nat [OF j(1)])
  define b2 where "b2 = (if ?q = ucast (?r div 512) then putNatEntry b1 (nat_slot (?r mod 512)) \<lparr>nat_ino = ?r, nat_block_addr = ml_main_start_lpa lay\<rparr> else b1)"
  have b: "rtfsMkfsNatBlock opts lay ?q = (if ucast ((?r + 1) div 512) = ?q
      then putNatEntry b2 (nat_slot ((?r + 1) mod 512)) \<lparr>nat_ino = INVALID_NID,
        nat_block_addr = (if ucast (?r + 1 + 1) < ?B then ?r + 1 + 1 else INVALID_NID)\<rparr> else b2)"
    unfolding b2_def b1_def v_def rtfsMkfsNatBlock_def Let_def ..
  have same: "nid = x" if "ucast (x div 512) = ?q" "x mod 512 = nid mod 512" for x
  proof -
    have "x div 512 = nid div 512" using that(1) unat_up [of "x div 512"] q by (metis word_unat_eq_iff)
    then show ?thesis using that(2) by (metis div_mult_mod_eq)
  qed
  have slot: "getNatEntry (putNatEntry c (nat_slot (x mod 512)) w) ?at = (if x mod 512 = nid mod 512 then w else getNatEntry c ?at)" for c x w
  proof (cases "x mod 512 = nid mod 512")
    case True
    then show ?thesis by (simp add: cnat.cget_cput)
  next
    case False
    then have "unat (x mod 512) \<noteq> ?j" using word_unat_eq_iff [of "x mod 512" "nid mod 512"] by blast
    then show ?thesis using False nat_other [of "unat (x mod 512)" ?j c w] by simp
  qed
  have e2: "getNatEntry b2 ?at = (if nid = ?r then \<lparr>nat_ino = ?r, nat_block_addr = ml_main_start_lpa lay\<rparr> else v ?j)"
  proof (cases "ucast (?r div 512) = ?q \<and> ?r mod 512 = nid mod 512")
    case True
    then have "nid = ?r" by (intro same) simp_all
    then show ?thesis using True by (simp add: b2_def cnat.cget_cput)
  next
    case False
    then have "nid \<noteq> ?r" by auto
    then show ?thesis using False e1 slot [of b1 ?r] unfolding b2_def by (simp only: if_False split: if_split) metis
  qed
  have "getNatEntry (rtfsMkfsNatBlock opts lay ?q) ?at = getNatEntry b2 ?at"
  proof (cases "ucast ((?r + 1) div 512) = ?q \<and> (?r + 1) mod 512 = nid mod 512")
    case True
    then have eq: "nid = ?r + 1" by (intro same) simp_all
    then have "nid \<noteq> ?r" by simp
    then have old: "getNatEntry b2 ?at = v ?j" using e2 by simp
    have "(ucast (nid + 1) :: u64) < ?B \<longleftrightarrow> unat nid + 1 < unat ?B" using unat_up [of "nid + 1"] nid1 by (simp add: word_less_nat_alt)
    then show ?thesis using True unfolding old vj b eq [symmetric] by (simp add: cnat.cget_cput)
  next
    case False
    then show ?thesis using slot [of b2 "?r + 1"] unfolding b by (simp only: if_False split: if_split) metis
  qed
  then show ?thesis unfolding e2 vj by simp
qed

end
