(* ===== verification/Fs_Manager.thy ===== *)
theory Fs_Manager
  imports Mkfs Journal_Processor Cow_Reclaim Srmap_Utils
begin

text \<open>
  The file system manager, \<^verbatim>\<open>src/src/fs/fs_manager.c\<close>, and the super block cache, \<^verbatim>\<open>src/src/cache/super_cache.c\<close>: mounting
  builds the caches, the journal thread and the reclaim registry over a device; a clean unmount stops the thread and
  writes the tables back. The record \<open>fs_mount\<close> is what the globals hold while a file system is mounted. Memory that is used before
  it is written, the result of \<^verbatim>\<open>pthread_rwlock_init\<close> and the scheduling of the new thread are the record \<open>mount_mem\<close>; the
  failure step of the tests is not set. The static \<^verbatim>\<open>super_block_lpa\<close> is never assigned, so it is 0.
\<close>

subsection \<open>The super block cache\<close>

record SuperCache =
  sc_sbLpa :: u64
  sc_superBlock :: block

definition superCacheInit :: "block \<Rightarrow> u64 \<Rightarrow> SuperCache" where
  "superCacheInit junk superBlockLpa = \<lparr>sc_sbLpa = superBlockLpa, sc_superBlock = blockBufferInit junk\<rparr>"

text \<open>The return code of the read is dropped.\<close>

definition superCacheReadSuperBlock :: "comm_dev \<Rightarrow> SuperCache \<Rightarrow> SuperCache" where
  "superCacheReadSuperBlock dev c =
     (case blockBufferReadFromLpa dev (sc_superBlock c) (ucast (sc_sbLpa c)) of (_, b) \<Rightarrow> c\<lparr>sc_superBlock := b\<rparr>)"

definition superCacheGet :: "SuperCache \<Rightarrow> block" where
  "superCacheGet c = sc_superBlock c"

subsection \<open>The state of a mount\<close>

definition super_block_lpa :: u64 where
  "super_block_lpa = 0"

record mount_mem =
  mm_lock :: rc
  mm_super :: block
  mm_nodes :: "nat \<Rightarrow> NodeBlockCacheEntry"
  mm_proc :: JournalProcessor
  mm_threadFirst :: bool

record fs_mount =
  mt_fs :: file_system_manager
  mt_env :: JournalProcessEnv
  mt_proc :: JournalProcessor
  mt_registry :: CowReclaimRegistry
  mt_hook :: bool

text \<open>
  The thread copies the default transaction-complete hook when it initialises its processor. \<open>mt_hook\<close> says whether it found the
  hook of the registry there: it does not when the thread runs before \<^verbatim>\<open>cowReclaimRegistryInit\<close> (\<open>mm_threadFirst\<close>).
\<close>

definition mount_hook :: "fs_mount \<Rightarrow> u64 \<Rightarrow> CowReclaimRegistry \<Rightarrow> CowReclaimRegistry" where
  "mount_hook m tx g = (if mt_hook m then cowReclaimRegistryTxCompleteHook tx g else g)"

definition mount_thread :: "fs_mount \<Rightarrow> CowReclaimRegistry JournalThread" where
  "mount_thread m = \<lparr>jt_proc = mt_proc m, jt_env = mt_env m, jt_dev = fs_dev (mt_fs m), jt_hooked = mt_registry m\<rparr>"

definition mount_after :: "fs_mount \<Rightarrow> CowReclaimRegistry JournalThread \<Rightarrow> fs_mount" where
  "mount_after m w = m\<lparr>mt_fs := (mt_fs m)\<lparr>fs_dev := jt_dev w\<rparr>, mt_env := jt_env w, mt_proc := jt_proc w, mt_registry := jt_hooked w\<rparr>"

subsection \<open>Journal positions\<close>

definition journal_start :: "block \<Rightarrow> u64" where
  "journal_start sb = ucast (get32 sb SB_meta_journal_blkaddr)"

definition journal_end :: "block \<Rightarrow> u64" where
  "journal_end sb = journal_start sb + ucast (get32 sb SB_segment_count_meta_journal) * 512"

definition sync_dev_journal_pos_from_super :: "file_system_manager \<Rightarrow> file_system_manager" where
  "sync_dev_journal_pos_from_super fs =
     (let sb = super_blk_mem fs;
          journal_start_lpa = journal_start sb;
          journal_end_lpa = journal_end sb;
          journal_size = journal_end_lpa - journal_start_lpa in
      if journal_size = 0 then fs
      else let head_off = ucast (get16 sb SB_meta_journal_start_blkoff) mod journal_size;
               tail_off = ucast (get16 sb SB_meta_journal_end_blkoff) mod journal_size in
        fs\<lparr>fs_dev := (fs_dev fs)\<lparr>metaJournalStartLpa := journal_start_lpa, metaJournalEndLpa := journal_end_lpa,
          metaJournalHeadLpa := journal_start_lpa + head_off, metaJournalTailLpa := journal_start_lpa + tail_off\<rparr>\<rparr>)"

definition sync_super_journal_pos_from_dev :: "file_system_manager \<Rightarrow> file_system_manager" where
  "sync_super_journal_pos_from_dev fs =
     (let sb = super_blk_mem fs;
          dev = fs_dev fs;
          journal_start_lpa = journal_start sb;
          journal_end_lpa = journal_end sb;
          sb = put16 sb SB_meta_journal_start_blkoff
            (if metaJournalHeadLpa dev < journal_start_lpa \<or> metaJournalHeadLpa dev \<ge> journal_end_lpa then 0
             else ucast (metaJournalHeadLpa dev - journal_start_lpa));
          sb = put16 sb SB_meta_journal_end_blkoff
            (if metaJournalTailLpa dev < journal_start_lpa \<or> metaJournalTailLpa dev \<ge> journal_end_lpa then 0
             else ucast (metaJournalTailLpa dev - journal_start_lpa))
      in fs\<lparr>super_blk_mem := sb\<rparr>)"

subsection \<open>Creation and destruction\<close>

fun import_recovered_loop ::
  "CowReclaimRegistry \<Rightarrow> file_system_manager \<Rightarrow> (u32 list \<times> u32 list) list \<Rightarrow> rc \<times> CowReclaimRegistry \<times> file_system_manager" where
  "import_recovered_loop g fs [] = (RC0, g, fs)"
| "import_recovered_loop g fs ((data_lpas, node_lpas) # rs) =
     (case cowReclaimRegistryRegisterCompleted g fs data_lpas node_lpas [] of
        (ret, g, fs) \<Rightarrow> if ret \<noteq> RC0 then (ret, g, fs) else import_recovered_loop g fs rs)"

definition import_recovered_reclaims ::
  "CowReclaimRegistry \<Rightarrow> file_system_manager \<Rightarrow> rc \<times> CowReclaimRegistry \<times> file_system_manager" where
  "import_recovered_reclaims g fs =
     (case import_recovered_loop g fs (recoveredReclaim (fs_dev fs)) of
        (ret, g, fs) \<Rightarrow> if ret \<noteq> RC0 then (ret, g, fs)
          else (RC0, g, fs\<lparr>fs_dev := commDevClearRecoveredReclaimRecords (fs_dev fs)\<rparr>))"

definition superManagerInit :: "file_system_manager \<Rightarrow> file_system_manager" where
  "superManagerInit fs = fs\<lparr>uncommit_node_segs := [], uncommit_data_segs := []\<rparr>"

definition superManagerCreate :: "file_system_manager \<Rightarrow> file_system_manager" where
  "superManagerCreate fs = superManagerInit fs"

definition superManagerDestroy :: "file_system_manager \<Rightarrow> file_system_manager" where
  "superManagerDestroy fs = fs\<lparr>uncommit_node_segs := [], uncommit_data_segs := []\<rparr>"

definition internal_destroy ::
  "(nat \<Rightarrow> block) \<Rightarrow> (u32 list \<Rightarrow> u32 list) \<Rightarrow> nat \<Rightarrow> rc \<Rightarrow> fs_mount \<Rightarrow> fs_mount option" where
  "internal_destroy fresh korder t tmr m = do {
     w \<leftarrow> journalProcessEnvDestroy fresh korder t tmr (mount_hook m) (mount_thread m);
     let m = mount_after m w;
     (g, fs) \<leftarrow> cowReclaimRegistryDestroy (mt_registry m) (mt_fs m);
     let fs = fs\<lparr>node_cache := nodeBlockCacheDestroy (node_cache fs)\<rparr>;
     let fs = fs\<lparr>sit_cache := sitNatCacheDestroy (sit_cache fs)\<rparr>;
     let fs = fs\<lparr>nat_cache := sitNatCacheDestroy (nat_cache fs)\<rparr>;
     let fs = srmapUtilsDestroy fs;
     let fs = fs\<lparr>cur_journal := journalContainerDestroy (cur_journal fs)\<rparr>;
     Some (m\<lparr>mt_fs := superManagerDestroy fs, mt_registry := g\<rparr>)
   }"

text \<open>The result is the new manager, if any, and the device.\<close>

definition internal_create ::
  "(nat \<Rightarrow> block) \<Rightarrow> (u32 list \<Rightarrow> u32 list) \<Rightarrow> nat \<Rightarrow> rc \<Rightarrow> mount_mem \<Rightarrow> comm_dev \<Rightarrow> (fs_mount option \<times> comm_dev) option" where
  "internal_create fresh korder t tmr mem dev =
     (if mm_lock mem \<noteq> RC0 then Some (None, dev)
      else let
        super_cache = superCacheReadSuperBlock dev (superCacheInit (mm_super mem) super_block_lpa);
        fs = \<lparr>super_blk_mem = superCacheGet super_cache, sit_cache = sitNatCacheInit 100, nat_cache = sitNatCacheInit 100,
              node_cache = nodeBlockCacheInit 100 (mm_nodes mem),
              srmap_utils = \<lparr>srmapCache = Map.empty, dirtyBlks = {}, srmapStartLpa = 0\<rparr>, fs_dev = dev,
              cur_journal = journalContainerInit, uncommit_node_segs = [], uncommit_data_segs = []\<rparr>;
        fs = superManagerCreate (srmapUtilsInit fs);
        fs = fs\<lparr>cur_journal := journalContainerInit\<rparr>;
        journal_start_lpa = journal_start (super_blk_mem fs);
        journal_end_lpa = journal_end (super_blk_mem fs);
        fs = sync_dev_journal_pos_from_super fs;
        journal_fifo_pos = metaJournalTailLpa (fs_dev fs);
        journal_fifo_pos = (if journal_fifo_pos \<ge> journal_end_lpa then journal_start_lpa else journal_fifo_pos);
        p0 = mm_proc mem;
        proc = journalProcessorInit (jp_curJournalBlockNum p0) (jp_curProcState p0) (jp_curJournalStartLpa p0)
                 (jp_curJournalEndLpa p0) journal_start_lpa journal_end_lpa journal_fifo_pos;
        (ret, g, fs) = import_recovered_reclaims cowReclaimRegistryInit fs;
        m = \<lparr>mt_fs = fs, mt_env = journalProcessEnvInit, mt_proc = proc, mt_registry = g, mt_hook = (\<not> mm_threadFirst mem)\<rparr>
      in if ret \<noteq> RC0 then do { m \<leftarrow> internal_destroy fresh korder t tmr m; Some (None, fs_dev (mt_fs m)) }
         else Some (Some m, fs_dev fs))"

definition flush_for_unmount ::
  "(u64 \<Rightarrow> bool) \<Rightarrow> u32 list \<Rightarrow> u32 list \<Rightarrow> u32 list \<Rightarrow> file_system_manager \<Rightarrow> (rc \<times> file_system_manager) option" where
  "flush_for_unmount accepts nat_order sit_order srmap_order fs = do {
     let fs = sync_super_journal_pos_from_dev fs;
     let fs = fs\<lparr>fs_dev := sitNatCacheWriteAllSync (fs_dev fs) (nat_cache fs) nat_order\<rparr>;
     let fs = fs\<lparr>fs_dev := sitNatCacheWriteAllSync (fs_dev fs) (sit_cache fs) sit_order\<rparr>;
     fs \<leftarrow> srmapUtilsWriteDirtySrmapSync accepts fs srmap_order;
     let (_, dev) = blockBufferWriteToLpaSync (super_blk_mem fs) (fs_dev fs) (ucast super_block_lpa);
     Some (RC0, fs\<lparr>fs_dev := dev\<rparr>)
   }"

definition stop_journal_for_unmount ::
  "(nat \<Rightarrow> block) \<Rightarrow> (u32 list \<Rightarrow> u32 list) \<Rightarrow> nat \<Rightarrow> rc \<Rightarrow> fs_mount \<Rightarrow> fs_mount option" where
  "stop_journal_for_unmount fresh korder t tmr m = do {
     w \<leftarrow> journalProcessEnvStopProcessThread fresh korder t tmr (mount_hook m) (mount_thread m);
     Some (mount_after m w)
   }"

subsection \<open>The interface\<close>

text \<open>The arguments are the global manager and, when there is none, the device; -1 and \<^verbatim>\<open>-ENOMEM\<close> are the error codes.\<close>

definition fileSystemManagerSetup ::
  "(nat \<Rightarrow> block) \<Rightarrow> (u32 list \<Rightarrow> u32 list) \<Rightarrow> nat \<Rightarrow> rc \<Rightarrow> mount_mem \<Rightarrow> fs_mount option \<Rightarrow> comm_dev \<Rightarrow>
    (rc \<times> fs_mount option \<times> comm_dev) option" where
  "fileSystemManagerSetup fresh korder t tmr mem g_fs_manager dev =
     (if g_fs_manager \<noteq> None then Some (EOTHER (- 1), g_fs_manager, dev)
      else do {
        (m, dev) \<leftarrow> internal_create fresh korder t tmr mem dev;
        Some (if m = None then EOTHER (- 12) else RC0, m, dev)
      })"

definition fileSystemManagerFini ::
  "(nat \<Rightarrow> block) \<Rightarrow> (u32 list \<Rightarrow> u32 list) \<Rightarrow> nat \<Rightarrow> rc \<Rightarrow> fs_mount option \<Rightarrow> comm_dev \<Rightarrow> (fs_mount option \<times> comm_dev) option" where
  "fileSystemManagerFini fresh korder t tmr g_fs_manager dev =
     (case g_fs_manager of
        None \<Rightarrow> Some (None, dev)
      | Some m \<Rightarrow> do { m \<leftarrow> internal_destroy fresh korder t tmr m; Some (None, fs_dev (mt_fs m)) })"

definition fileSystemManagerFlushForUnmount ::
  "(nat \<Rightarrow> block) \<Rightarrow> (u32 list \<Rightarrow> u32 list) \<Rightarrow> nat \<Rightarrow> rc \<Rightarrow> (u64 \<Rightarrow> bool) \<Rightarrow> u32 list \<Rightarrow> u32 list \<Rightarrow> u32 list \<Rightarrow> fs_mount \<Rightarrow>
    (rc \<times> fs_mount) option" where
  "fileSystemManagerFlushForUnmount fresh korder t tmr accepts nat_order sit_order srmap_order m = do {
     m \<leftarrow> stop_journal_for_unmount fresh korder t tmr m;
     (ret, fs) \<leftarrow> flush_for_unmount accepts nat_order sit_order srmap_order (mt_fs m);
     Some (ret, m\<lparr>mt_fs := fs\<rparr>)
   }"

subsection \<open>A mounted file system\<close>

text \<open>The areas of the device in the order of the formatter, below the address where the LBA of an LPA wraps.\<close>

abbreviation area_at :: "block \<Rightarrow> nat \<Rightarrow> nat \<Rightarrow> u32 \<Rightarrow> bool" where
  "area_at sb start segs l \<equiv> unat (get32 sb start) \<le> unat l \<and> unat l < unat (get32 sb start) + 512 * unat (get32 sb segs)"

definition mount_areas :: "block \<Rightarrow> bool" where
  "mount_areas sb \<longleftrightarrow> 0 < unat (get32 sb SB_meta_journal_blkaddr) \<and> 0 < unat (get32 sb SB_segment_count_meta_journal) \<and>
     unat (get32 sb SB_meta_journal_blkaddr) + 512 * unat (get32 sb SB_segment_count_meta_journal) \<le> unat (get32 sb SB_sit_blkaddr) \<and>
     unat (get32 sb SB_sit_blkaddr) + 512 * unat (get32 sb SB_segment_count_sit) \<le> unat (get32 sb SB_nat_blkaddr) \<and>
     unat (get32 sb SB_nat_blkaddr) + 512 * unat (get32 sb SB_segment_count_nat) \<le> unat (get32 sb SB_srmap_blkaddr) \<and>
     unat (get32 sb SB_srmap_blkaddr) + 512 * unat (get32 sb SB_segment_count_srmap) \<le> 0x20000000"

text \<open>Every cache holds blocks of its own area only, and every block in front of the main area can be read and written.\<close>

definition mount_inv :: "file_system_manager \<Rightarrow> bool" where
  "mount_inv fs \<longleftrightarrow> mount_areas (super_blk_mem fs) \<and>
     (\<forall>l. unat l < unat (sb32 fs SB_srmap_blkaddr) + 512 * unat (sb32 fs SB_segment_count_srmap) \<longrightarrow> dev_ok (fs_dev fs) l) \<and>
     snc_inv (nat_cache fs) \<and> snc_inv (sit_cache fs) \<and> srmap_inv fs \<and>
     (\<forall>k \<in> dom (snc_ents (nat_cache fs)). area_at (super_blk_mem fs) SB_nat_blkaddr SB_segment_count_nat k) \<and>
     (\<forall>k \<in> dom (snc_ents (sit_cache fs)). area_at (super_blk_mem fs) SB_sit_blkaddr SB_segment_count_sit k) \<and>
     (\<forall>k \<in> dom (srmapCache (srmap_utils fs)). area_at (super_blk_mem fs) SB_srmap_blkaddr SB_segment_count_srmap k) \<and>
     srmapStartLpa (srmap_utils fs) = sb32 fs SB_srmap_blkaddr"

lemma mixed_put_other [byte_simps]:
  "off' + 4 \<le> off \<or> off + 2 \<le> off' \<Longrightarrow> get32 (put16 b off v) off' = get32 b off'"
  "off' + 4 \<le> off \<or> off + 8 \<le> off' \<Longrightarrow> get32 (put64 b off w) off' = get32 b off'"
  "off' + 2 \<le> off \<or> off + 4 \<le> off' \<Longrightarrow> get16 (put32 b off x) off' = get16 b off'"
  "off' + 2 \<le> off \<or> off + 2 \<le> off' \<Longrightarrow> get16 (put16 b off v) off' = get16 b off'"
  by (auto simp: get32_def get16_def put16_frame put32_frame put64_def)

lemma journal_end_unat:
  assumes "mount_areas sb"
  shows "unat (journal_start sb) = unat (get32 sb SB_meta_journal_blkaddr)"
    and "unat (journal_end sb) = unat (get32 sb SB_meta_journal_blkaddr) + 512 * unat (get32 sb SB_segment_count_meta_journal)"
    and "journal_start sb < journal_end sb" and "unat (journal_end sb) \<le> unat (get32 sb SB_sit_blkaddr)"
proof -
  show s: "unat (journal_start sb) = unat (get32 sb SB_meta_journal_blkaddr)" unfolding journal_start_def by (rule unat_up)
  have b: "unat (get32 sb SB_meta_journal_blkaddr) + 512 * unat (get32 sb SB_segment_count_meta_journal) \<le> 0x20000000"
    using assms by (simp add: mount_areas_def)
  then have "unat (ucast (get32 sb SB_segment_count_meta_journal) * 512 :: u64) = 512 * unat (get32 sb SB_segment_count_meta_journal)"
    using unat_up [of "get32 sb SB_segment_count_meta_journal"] by (subst unat_mult_lem [THEN iffD1]) simp_all
  then show e: "unat (journal_end sb) = unat (get32 sb SB_meta_journal_blkaddr) + 512 * unat (get32 sb SB_segment_count_meta_journal)"
    using s b unfolding journal_end_def by (subst unat_add_lem [THEN iffD1]) simp_all
  show "journal_start sb < journal_end sb" "unat (journal_end sb) \<le> unat (get32 sb SB_sit_blkaddr)"
    using s e assms by (simp_all add: word_less_nat_alt mount_areas_def)
qed

text \<open>What was queued for reclaim by the recovery is registered as completed.\<close>

lemma import_loop:
  "crg_bound g \<Longrightarrow> \<exists>rs'. import_recovered_loop g fs rs = (RC0, g\<lparr>crg_completed := crg_completed g @ rs'\<rparr>, fs) \<and>
     concat (map crr_lpas rs') = concat (map (\<lambda>(d, n). d @ n) rs) \<and> (\<forall>r \<in> set rs'. crr_deletedHandles r = [])"
proof (induction g fs rs rule: import_recovered_loop.induct)
  case (1 g fs)
  then show ?case by (intro exI [of _ "[]"]) simp
next
  case (2 g fs d n rs)
  let ?r = "\<lparr>crr_txId = 0, crr_dataLpas = d, crr_nodeLpas = n, crr_deletedHandles = []\<rparr>"
  show ?case
  proof (cases "d = [] \<and> n = []")
    case True
    then show ?thesis using 2 by (simp add: cowReclaimRegistryRegisterCompleted_def)
  next
    case False
    then have reg: "cowReclaimRegistryRegisterCompleted g fs d n [] = (RC0, g\<lparr>crg_completed := crg_completed g @ [?r]\<rparr>, fs)"
      using 2(2) by (auto simp: cowReclaimRegistryRegisterCompleted_def cowReclaimRegistryBuildRecord_def)
    obtain rs' where "import_recovered_loop (g\<lparr>crg_completed := crg_completed g @ [?r]\<rparr>) fs rs =
        (RC0, g\<lparr>crg_completed := crg_completed g @ ?r # rs'\<rparr>, fs)" "concat (map crr_lpas rs') = concat (map (\<lambda>(d, n). d @ n) rs)"
      "\<forall>r \<in> set rs'. crr_deletedHandles r = []"
      using 2(1) [OF reg [symmetric] refl] 2(2) by auto
    then show ?thesis using reg by (intro exI [of _ "?r # rs'"]) simp
  qed
qed

text \<open>A mount of a device with a sound super block.\<close>

lemma setup_fs:
  assumes "mm_lock mem = RC0" and "dev_ok dev 0" and "media dev 0 = sb" and "mount_areas sb"
  shows "\<exists>m. fileSystemManagerSetup fresh korder t tmr mem None dev = Some (RC0, Some m, fs_dev (mt_fs m)) \<and>
    super_blk_mem (mt_fs m) = sb \<and> sit_cache (mt_fs m) = sitNatCacheInit 100 \<and> nat_cache (mt_fs m) = sitNatCacheInit 100 \<and>
    srmap_utils (mt_fs m) = \<lparr>srmapCache = Map.empty, dirtyBlks = {}, srmapStartLpa = get32 sb SB_srmap_blkaddr\<rparr> \<and>
    cur_journal (mt_fs m) = journalContainerInit \<and> mt_env m = journalProcessEnvInit \<and> mt_hook m = (\<not> mm_threadFirst mem) \<and>
    fs_dev (mt_fs m) = dev\<lparr>metaJournalStartLpa := journal_start sb, metaJournalEndLpa := journal_end sb,
      metaJournalHeadLpa := journal_start sb + ucast (get16 sb SB_meta_journal_start_blkoff) mod (journal_end sb - journal_start sb),
      metaJournalTailLpa := journal_start sb + ucast (get16 sb SB_meta_journal_end_blkoff) mod (journal_end sb - journal_start sb),
      recoveredReclaim := []\<rparr> \<and>
    mt_proc m = journalProcessorInit (jp_curJournalBlockNum (mm_proc mem)) (jp_curProcState (mm_proc mem))
      (jp_curJournalStartLpa (mm_proc mem)) (jp_curJournalEndLpa (mm_proc mem)) (journal_start sb) (journal_end sb)
      (metaJournalTailLpa (fs_dev (mt_fs m))) \<and>
    concat (map crr_lpas (crg_completed (mt_registry m))) = concat (map (\<lambda>(d, n). d @ n) (recoveredReclaim dev)) \<and>
    crg_pending (mt_registry m) = [] \<and> (\<forall>r \<in> set (crg_completed (mt_registry m)). crr_deletedHandles r = [])"
proof -
  note j = journal_end_unat [OF assms(4)]
  have size: "unat (journal_end sb - journal_start sb) = unat (journal_end sb) - unat (journal_start sb)"
    using j(3) by (intro unat_sub) simp
  have nz: "journal_end sb - journal_start sb \<noteq> 0" using j(3) by simp
  let ?off = "ucast (get16 sb SB_meta_journal_end_blkoff) mod (journal_end sb - journal_start sb) :: u64"
  have "unat ?off < unat (journal_end sb) - unat (journal_start sb)"
    using size nz j(3) by (simp add: unat_mod word_less_nat_alt)
  then have o: "unat (journal_start sb + ?off) = unat (journal_start sb) + unat ?off" "unat (journal_start sb) + unat ?off < unat (journal_end sb)"
    using unsigned_less [of "journal_end sb", where 'a = nat] by (simp_all add: unat_add_lem [THEN iffD1])
  then have clamp: "\<not> journal_start sb + ?off \<ge> journal_end sb" by (simp add: word_le_nat_alt)
  have L0: "LPA_TO_LBA32 0 = 0" by (simp add: LPA_TO_LBA32_def)
  have rd: "superCacheGet (superCacheReadSuperBlock dev (superCacheInit (mm_super mem) super_block_lpa)) = sb"
    using assms(2,3) by (simp add: superCacheGet_def superCacheReadSuperBlock_def superCacheInit_def super_block_lpa_def
        blockBufferReadFromLpa_def comm_read_def L0)
  show ?thesis
  proof -
    define fs where "fs = \<lparr>super_blk_mem = sb, sit_cache = sitNatCacheInit 100, nat_cache = sitNatCacheInit 100,
      node_cache = nodeBlockCacheInit 100 (mm_nodes mem),
      srmap_utils = \<lparr>srmapCache = Map.empty, dirtyBlks = {}, srmapStartLpa = get32 sb SB_srmap_blkaddr\<rparr>,
      fs_dev = dev\<lparr>metaJournalStartLpa := journal_start sb, metaJournalEndLpa := journal_end sb,
        metaJournalHeadLpa := journal_start sb + ucast (get16 sb SB_meta_journal_start_blkoff) mod (journal_end sb - journal_start sb),
        metaJournalTailLpa := journal_start sb + ?off\<rparr>,
      cur_journal = journalContainerInit, uncommit_node_segs = [], uncommit_data_segs = []\<rparr>"
    have rr: "recoveredReclaim (fs_dev fs) = recoveredReclaim dev" by (simp add: fs_def)
    obtain rs' where imp: "import_recovered_loop cowReclaimRegistryInit fs (recoveredReclaim dev) =
        (RC0, cowReclaimRegistryInit\<lparr>crg_completed := rs'\<rparr>, fs)"
      "concat (map crr_lpas rs') = concat (map (\<lambda>(d, n). d @ n) (recoveredReclaim dev))" "\<forall>r \<in> set rs'. crr_deletedHandles r = []"
      using import_loop [of cowReclaimRegistryInit fs "recoveredReclaim dev"] by (auto simp: cowReclaimRegistryInit_def)
    let ?m = "\<lparr>mt_fs = fs\<lparr>fs_dev := commDevClearRecoveredReclaimRecords (fs_dev fs)\<rparr>, mt_env = journalProcessEnvInit,
      mt_proc = journalProcessorInit (jp_curJournalBlockNum (mm_proc mem)) (jp_curProcState (mm_proc mem))
        (jp_curJournalStartLpa (mm_proc mem)) (jp_curJournalEndLpa (mm_proc mem)) (journal_start sb) (journal_end sb) (journal_start sb + ?off),
      mt_registry = cowReclaimRegistryInit\<lparr>crg_completed := rs'\<rparr>, mt_hook = (\<not> mm_threadFirst mem)\<rparr>"
    have imp': "import_recovered_reclaims cowReclaimRegistryInit fs =
        (RC0, cowReclaimRegistryInit\<lparr>crg_completed := rs'\<rparr>, fs\<lparr>fs_dev := commDevClearRecoveredReclaimRecords (fs_dev fs)\<rparr>)"
      by (simp add: import_recovered_reclaims_def rr imp(1))
    have "internal_create fresh korder t tmr mem dev = Some (Some ?m, fs_dev (mt_fs ?m))"
      using assms(1) nz clamp imp' rd
      by (simp add: internal_create_def Let_def superManagerCreate_def superManagerInit_def srmapUtilsInit_def
          sync_dev_journal_pos_from_super_def fs_def)
    then have "fileSystemManagerSetup fresh korder t tmr mem None dev = Some (RC0, Some ?m, fs_dev (mt_fs ?m))"
      by (simp add: fileSystemManagerSetup_def)
    then show ?thesis
      by (intro exI [of _ ?m]) (simp add: imp(2,3) fs_def commDevClearRecoveredReclaimRecords_def cowReclaimRegistryInit_def)
  qed
qed


subsection \<open>Mounting a formatted device\<close>

lemma super_fields:
  "get32 (rtfsMkfsSuperBlock o' lay) SB_meta_journal_blkaddr = ml_meta_journal_start_lpa lay"
  "get32 (rtfsMkfsSuperBlock o' lay) SB_segment_count_meta_journal = ml_meta_journal_segment_count lay"
  "get32 (rtfsMkfsSuperBlock o' lay) SB_sit_blkaddr = ml_sit_start_lpa lay"
  "get32 (rtfsMkfsSuperBlock o' lay) SB_segment_count_sit = ml_sit_segment_count lay"
  "get32 (rtfsMkfsSuperBlock o' lay) SB_nat_blkaddr = ml_nat_start_lpa lay"
  "get32 (rtfsMkfsSuperBlock o' lay) SB_segment_count_nat = ml_nat_segment_count lay"
  "get32 (rtfsMkfsSuperBlock o' lay) SB_srmap_blkaddr = ml_srmap_start_lpa lay"
  "get32 (rtfsMkfsSuperBlock o' lay) SB_segment_count_srmap = ml_srmap_segment_count lay"
  "get32 (rtfsMkfsSuperBlock o' lay) SB_segment0_blkaddr = 0"
  "get32 (rtfsMkfsSuperBlock o' lay) SB_root_ino = mo_root_ino o'"
  "get32 (rtfsMkfsSuperBlock o' lay) SB_current_data_segment_id = ml_main_start_segment lay + 1"
  "get32 (rtfsMkfsSuperBlock o' lay) SB_current_data_segment_blkoff = 0"
  "get32 (rtfsMkfsSuperBlock o' lay) SB_current_node_segment_id = ml_main_start_segment lay"
  "get32 (rtfsMkfsSuperBlock o' lay) SB_current_node_segment_blkoff = 1"
  "get32 (rtfsMkfsSuperBlock o' lay) SB_next_free_nid = mo_root_ino o' + 1"
  "get16 (rtfsMkfsSuperBlock o' lay) SB_meta_journal_start_blkoff = 0"
  "get16 (rtfsMkfsSuperBlock o' lay) SB_meta_journal_end_blkoff = 0"
  "get32 (rtfsMkfsSuperBlock o' lay) SB_first_free_segment_id =
     (if ml_main_segment_count lay > 2 then ml_main_start_segment lay + 2 else INVALID_SEGID)"
  "get32 (rtfsMkfsSuperBlock o' lay) SB_free_segment_count =
     (if ml_main_segment_count lay > 2 then ml_main_segment_count lay - 2 else 0)"
  by (simp_all add: rtfsMkfsSuperBlock_def Let_def byte_simps)

lemma linked_for:
  assumes "\<And>x. a \<le> x \<Longrightarrow> x < b \<Longrightarrow> x + 1 < b \<Longrightarrow> nxt x = x + 1" and "a < b" and "nxt (b - 1) = z"
  shows "linked nxt a (for_u32 a b) z"
  using assms
proof (induction "unat b - unat a" arbitrary: a)
  case 0
  then show ?case by (simp add: word_less_nat_alt)
next
  case (Suc n)
  have lt: "unat a < unat b" using Suc.prems(2) by (simp add: word_less_nat_alt)
  have bb: "unat b < 2 ^ 32" using unsigned_less [of b, where 'a = nat] by simp
  have a1: "unat (a + 1) = unat a + 1" using lt bb by (subst unat_add_lem [THEN iffD1]) simp_all
  have split: "for_u32 a b = a # for_u32 (a + 1) b" using lt a1 by (simp add: for_u32_def upt_conv_Cons)
  show ?case
  proof (cases "a + 1 < b")
    case True
    have nx: "nxt x = x + 1" if "a + 1 \<le> x" "x < b" "x + 1 < b" for x
      using Suc.prems(1) [of x] that a1 by (simp add: word_le_nat_alt)
    have "linked nxt (a + 1) (for_u32 (a + 1) b) z"
      by (rule Suc.hyps(1)) (use Suc.hyps(2) a1 nx True Suc.prems(3) in auto)
    then show ?thesis using split Suc.prems(1,2) True by simp
  next
    case False
    then have "unat b = unat a + 1" using lt a1 by (simp add: word_less_nat_alt)
    then have "a + 1 = b" using a1 by (simp add: word_unat_eq_iff)
    then have "b - 1 = a" by (metis add_diff_cancel_right')
    then show ?thesis using split Suc.prems(3) \<open>a + 1 = b\<close> by (simp add: for_u32_def)
  qed
qed

lemma snc_view_init: "snc_view dev (sitNatCacheInit n) k = media dev (LPA_TO_LBA32 k)"
  by (simp add: snc_view_def snc_init(2))

lemma block_addr:
  assumes "unat base + k \<le> 2 ^ 32" and "unat i < k"
  shows "unat (base + i) = unat base + unat (i :: u32)"
  using assms by (subst unat_add_lem [THEN iffD1]) simp_all


text \<open>The file system on a formatted device, with empty caches.\<close>

definition formatted :: "RtfsMkfsOptions \<Rightarrow> RtfsMkfsLayout \<Rightarrow> file_system_manager \<Rightarrow> bool" where
  "formatted eff lay fs \<longleftrightarrow> super_blk_mem fs = rtfsMkfsSuperBlock eff lay \<and>
     sit_cache fs = sitNatCacheInit 100 \<and> nat_cache fs = sitNatCacheInit 100 \<and>
     srmap_utils fs = \<lparr>srmapCache = Map.empty, dirtyBlks = {}, srmapStartLpa = ml_srmap_start_lpa lay\<rparr> \<and>
     (\<forall>l. unat l < unat (ml_block_count lay) \<longrightarrow> dev_ok (fs_dev fs) l) \<and>
     (\<forall>l. unat (ml_sit_start_lpa lay) \<le> unat l \<longrightarrow> unat l < unat (ml_nat_start_lpa lay) \<longrightarrow>
       media (fs_dev fs) (LPA_TO_LBA32 l) = rtfsMkfsSitBlock lay (of_nat (unat l - unat (ml_sit_start_lpa lay)))) \<and>
     (\<forall>l. unat (ml_nat_start_lpa lay) \<le> unat l \<longrightarrow> unat l < unat (ml_srmap_start_lpa lay) \<longrightarrow>
       media (fs_dev fs) (LPA_TO_LBA32 l) = rtfsMkfsNatBlock eff lay (of_nat (unat l - unat (ml_nat_start_lpa lay))))"

lemma formatted_sit_pos:
  assumes "mk_sizes lay G J" and "G < 2 ^ 20" and "unat s < G"
  shows "unat (ml_sit_start_lpa lay + s div 60) = unat (ml_sit_start_lpa lay) + unat s div 60"
    and "unat s div 60 < 512 * unat (ml_sit_segment_count lay)"
proof -
  note z = assms(1) [unfolded mk_sizes_def]
  show k: "unat s div 60 < 512 * unat (ml_sit_segment_count lay)" using assms(3) z by (auto simp: less_mult_imp_div_less)
  show "unat (ml_sit_start_lpa lay + s div 60) = unat (ml_sit_start_lpa lay) + unat s div 60"
    using block_addr [of "ml_sit_start_lpa lay" "512 * unat (ml_sit_segment_count lay)" "s div 60"] k z assms(2) by (simp add: unat_div)
qed

lemma formatted_sit:
  assumes "formatted eff lay fs" and "mk_sizes lay G J" and "G < 2 ^ 20" and "unat s < G"
  shows "sit_entry_of fs s = getSitEntry (rtfsMkfsSitBlock lay (ucast (s div 60))) (sit_slot (s mod 60))"
proof -
  note z = assms(2) [unfolded mk_sizes_def] and f = assms(1) [unfolded formatted_def]
  note pos = formatted_sit_pos [OF assms(2-4)]
  let ?l = "ml_sit_start_lpa lay + s div 60"
  have "unat (ml_sit_start_lpa lay) \<le> unat ?l" "unat ?l < unat (ml_nat_start_lpa lay)" using pos z by linarith+
  then have "media (fs_dev fs) (LPA_TO_LBA32 ?l) = rtfsMkfsSitBlock lay (of_nat (unat ?l - unat (ml_sit_start_lpa lay)))"
    using f by blast
  moreover have "(of_nat (unat ?l - unat (ml_sit_start_lpa lay)) :: u64) = ucast (s div 60)"
    using pos(1) unat_up [of "s div 60"] unat_of_nat [of "unat s div 60", where 'a = 64] assms(3,4)
    by (simp add: word_unat_eq_iff unat_div)
  ultimately show ?thesis using f by (simp add: sit_entry_of_def super_fields snc_view_init)
qed

lemma formatted_nat:
  assumes "formatted eff lay fs" and "mk_sizes lay G J" and "G < 2 ^ 20" and "unat nid < 512 * G" and "mo_root_ino eff \<noteq> - 1"
  shows "nat_entry_of fs nid = (if nid = mo_root_ino eff then \<lparr>nat_ino = nid, nat_block_addr = ml_main_start_lpa lay\<rparr>
     else \<lparr>nat_ino = INVALID_NID, nat_block_addr = (if unat nid + 1 < 512 * G then nid + 1 else INVALID_NID)\<rparr>)"
proof -
  note z = assms(2) [unfolded mk_sizes_def] and f = assms(1) [unfolded formatted_def]
  have k: "unat nid div 512 < 512 * unat (ml_nat_segment_count lay)" using assms(4) z by auto
  have pos: "unat (ml_nat_start_lpa lay + nid div 512) = unat (ml_nat_start_lpa lay) + unat nid div 512"
    using block_addr [of "ml_nat_start_lpa lay" "512 * unat (ml_nat_segment_count lay)" "nid div 512"] k z assms(3) by (simp add: unat_div)
  let ?l = "ml_nat_start_lpa lay + nid div 512"
  have "unat (ml_nat_start_lpa lay) \<le> unat ?l" "unat ?l < unat (ml_srmap_start_lpa lay)" using pos k z by linarith+
  then have "media (fs_dev fs) (LPA_TO_LBA32 ?l) = rtfsMkfsNatBlock eff lay (of_nat (unat ?l - unat (ml_nat_start_lpa lay)))"
    using f by blast
  moreover have "(of_nat (unat ?l - unat (ml_nat_start_lpa lay)) :: u64) = ucast (nid div 512)"
    using pos unat_up [of "nid div 512"] unat_of_nat [of "unat nid div 512", where 'a = 64] assms(3,4) by (simp add: word_unat_eq_iff unat_div)
  ultimately have "nat_entry_of fs nid = getNatEntry (rtfsMkfsNatBlock eff lay (ucast (nid div 512))) (nat_slot (nid mod 512))"
    using f by (simp add: nat_entry_of_def super_fields snc_view_init)
  then show ?thesis
    using nat_block_entry [of nid lay eff] assms(3-5) z by simp
qed


lemma formatted_areas:
  assumes "formatted eff lay fs" and "mk_sizes lay G J" and "G < 2 ^ 20" and "0 < J"
  shows "mount_areas (super_blk_mem fs)" and "mount_inv fs"
proof -
  note z = assms(2) [unfolded mk_sizes_def] and f = assms(1) [unfolded formatted_def]
  have e: "unat (ml_srmap_start_lpa lay) + 512 * unat (ml_srmap_segment_count lay) \<le> unat (ml_block_count lay)" using z by linarith
  show a: "mount_areas (super_blk_mem fs)"
    using z f assms(3,4) by (auto simp: mount_areas_def super_fields)
  show "mount_inv fs"
    using a f e by (auto simp: mount_inv_def super_fields snc_init srmap_inv_def)
qed

lemma formatted_seg:
  assumes "formatted eff lay fs" and "mk_sizes lay G J" and "G < 2 ^ 20" and "ml_main_start_segment lay \<le> s" and "unat s < G"
  shows "seg_ok fs s" and "dead_from fs s (if s = ml_main_start_segment lay then 1 else 0)"
    and "s \<noteq> ml_main_start_segment lay \<Longrightarrow> s + 1 < ml_segment_count lay \<Longrightarrow> GET_NEXT_SEG (sit_entry_of fs s) = s + 1"
proof -
  note z = assms(2) [unfolded mk_sizes_def] and f = assms(1) [unfolded formatted_def]
  have g: "s < ml_segment_count lay" "ml_segment_count lay < 2 ^ 23" using assms(3,5) z by (simp_all add: word_less_nat_alt)
  note main = sit_block_main [OF assms(4) g, folded formatted_sit [OF assms(1,2,3,5)]]
  note pos = formatted_sit_pos [OF assms(2,3,5)]
  have M: "0 < unat s" using assms(4) z by (auto simp: word_le_nat_alt)
  have sc: "512 * unat (ml_sit_segment_count lay) < 2 ^ 29"
  proof -
    have "512 * G < 536870912" using assms(3) by simp
    then show ?thesis using z by simp
  qed
  then have "unat (ml_sit_segment_count lay * 512) = 512 * unat (ml_sit_segment_count lay)"
    by (subst unat_mult_lem [THEN iffD1]) simp_all
  then have "s div 60 < ml_sit_segment_count lay * 512" using pos(2) by (simp add: word_less_nat_alt unat_div)
  moreover have "dev_ok (fs_dev fs) (ml_sit_start_lpa lay + s div 60)"
  proof -
    have "unat (ml_sit_start_lpa lay + s div 60) < unat (ml_block_count lay)" using pos z by linarith
    then show ?thesis using f by blast
  qed
  ultimately show "seg_ok fs s"
    using f M assms(3,5) by (simp add: seg_ok_def super_fields)
  show "dead_from fs s (if s = ml_main_start_segment lay then 1 else 0)"
    using main(1) by (auto simp: dead_from_def)
  show "GET_NEXT_SEG (sit_entry_of fs s) = s + 1" if "s \<noteq> ml_main_start_segment lay" "s + 1 < ml_segment_count lay"
    using main(2) that by simp
qed

lemma formatted_alloc:
  assumes "formatted eff lay fs" and "mk_sizes lay G J" and "G < 2 ^ 20"
  shows "alloc_inv fs (for_u32 (ml_main_start_segment lay + 2) (ml_segment_count lay))"
proof -
  note z = assms(2) [unfolded mk_sizes_def] and f = assms(1) [unfolded formatted_def]
  let ?M = "ml_main_start_segment lay" and ?g = "ml_segment_count lay" and ?n = "ml_main_segment_count lay"
  let ?xs = "for_u32 (?M + 2) ?g"
  have Mg: "unat ?M + 2 \<le> G" "unat ?g = G" "unat ?n = G - unat ?M" using z by linarith+
  have u: "unat (?M + 1) = unat ?M + 1" "unat (?M + 2) = unat ?M + 2"
    using Mg assms(3) by (simp_all add: unat_add_lem [THEN iffD1])
  have mem: "x \<in> set ?xs \<longleftrightarrow> unat ?M + 2 \<le> unat x \<and> unat x < G" for x
    using u Mg by (simp add: for_u32_set word_le_nat_alt word_less_nat_alt)
  note seg = formatted_seg [OF assms]
  have ne: "x \<noteq> ?M" if "x \<in> set ?xs" for x using that u mem [of x] by auto
  have free: "unat (sb32 fs SB_free_segment_count) = length ?xs"
  proof -
    have "unat (?n - 2) = unat ?n - 2" if "2 < ?n" using that by (subst unat_sub) (simp_all add: word_le_nat_alt word_less_nat_alt)
    then show ?thesis using f u Mg by (auto simp: super_fields for_u32_def word_less_nat_alt)
  qed
  have chain: "\<exists>y. linked (\<lambda>s. GET_NEXT_SEG (sit_entry_of fs s)) (sb32 fs SB_first_free_segment_id) ?xs y"
  proof (cases "?M + 2 < ?g")
    case True
    then have "2 < ?n" using u Mg by (simp add: word_less_nat_alt)
    then have h: "sb32 fs SB_first_free_segment_id = ?M + 2" using f by (simp add: super_fields)
    have "GET_NEXT_SEG (sit_entry_of fs x) = x + 1" if "?M + 2 \<le> x" "x < ?g" "x + 1 < ?g" for x
    proof -
      have x: "unat ?M + 2 \<le> unat x" using that(1) u by (simp add: word_le_nat_alt)
      have "unat x < G" using that(2) Mg by (simp add: word_less_nat_alt)
      moreover have "x \<noteq> ?M" "?M \<le> x" using x by (auto simp: word_le_nat_alt)
      ultimately show ?thesis using seg(3) [of x] that(3) by simp
    qed
    then have "linked (\<lambda>s. GET_NEXT_SEG (sit_entry_of fs s)) (?M + 2) ?xs (GET_NEXT_SEG (sit_entry_of fs (?g - 1)))"
      by (intro linked_for [OF _ True refl])
    then show ?thesis using h by auto
  next
    case False
    then have "?xs = []" by (simp add: for_u32_def word_less_nat_alt)
    then show ?thesis by simp
  qed
  have "seg_ok fs x \<and> dead_from fs x 0" if "x \<in> set ?xs" for x
    using seg(1,2) [of x] ne [OF that] mem [of x] that by (auto simp: word_le_nat_alt)
  moreover have "INVALID_SEGID \<notin> set ?xs" using mem [of INVALID_SEGID] assms(3) by simp
  ultimately have "seg_free fs ?xs" using free chain for_u32_distinct [of "?M + 2" ?g] by (simp add: seg_free_def)
  moreover have "seg_ok fs ?M" "dead_from fs ?M 1" "seg_ok fs (?M + 1)" "dead_from fs (?M + 1) 0"
    using seg(1,2) [of ?M] seg(1,2) [of "?M + 1"] u Mg by (auto simp: word_le_nat_alt)
  moreover have "?M \<noteq> ?M + 1" by simp
  moreover have "?M \<notin> set ?xs" "?M + 1 \<notin> set ?xs" using mem u by simp_all
  ultimately show ?thesis
    using f by (simp add: alloc_inv_def super_fields all_bool_eq)
qed

lemma formatted_chain:
  assumes "formatted eff lay fs" and "mk_sizes lay G J" and "G < 2 ^ 20" and "unat (mo_root_ino eff) + 1 < 512 * G"
  shows "nid_chain fs (for_u32 (mo_root_ino eff + 1) (ucast (ml_block_count lay)))"
    and "nat_entry_of fs (mo_root_ino eff) = \<lparr>nat_ino = mo_root_ino eff, nat_block_addr = ml_main_start_lpa lay\<rparr>"
proof -
  note z = assms(2) [unfolded mk_sizes_def] and f = assms(1) [unfolded formatted_def]
  let ?r = "mo_root_ino eff" and ?B = "ucast (ml_block_count lay) :: u32"
  have B: "unat ?B = 512 * G" using z assms(3) by (subst unat_ucast64) simp_all
  have r: "?r \<noteq> - 1" using assms(3,4) by auto
  then have r1: "unat (?r + 1) = unat ?r + 1" by (rule unat_add1_u32)
  note ent = formatted_nat [OF assms(1-3) _ r]
  show "nat_entry_of fs ?r = \<lparr>nat_ino = ?r, nat_block_addr = ml_main_start_lpa lay\<rparr>" using ent [of ?r] assms(4) by simp
  have "nat_block_addr (nat_entry_of fs x) = (if x + 1 < ?B then x + 1 else INVALID_NID)" if "?r + 1 \<le> x" "unat x < 512 * G" for x
  proof -
    have "x \<noteq> ?r" using that(1) r1 by (auto simp: word_le_nat_alt)
    moreover have "unat (x + 1) = unat x + 1" using that(2) assms(3) by (subst unat_add_lem [THEN iffD1]) simp_all
    ultimately show ?thesis using ent [OF that(2)] B by (simp add: word_less_nat_alt)
  qed
  note nx = this
  have "linked (\<lambda>n. nat_block_addr (nat_entry_of fs n)) (?r + 1) (for_u32 (?r + 1) ?B) INVALID_NID"
  proof (rule linked_for)
    show lt: "?r + 1 < ?B" using r1 B assms(4) by (simp add: word_less_nat_alt)
    show "nat_block_addr (nat_entry_of fs x) = x + 1" if "?r + 1 \<le> x" "x < ?B" "x + 1 < ?B" for x
      using nx [of x] that B by (simp add: word_less_nat_alt)
    have "unat (?B - 1) = 512 * G - 1" using B assms(4) by (subst unat_minus_one) auto
    then show "nat_block_addr (nat_entry_of fs (?B - 1)) = INVALID_NID"
      using nx [of "?B - 1"] lt r1 B assms(4) by (simp add: word_le_nat_alt)
  qed
  moreover have "INVALID_NID \<notin> set (for_u32 (?r + 1) ?B)" using r1 by (auto simp: for_u32_set)
  ultimately show "nid_chain fs (for_u32 (?r + 1) ?B)" using f for_u32_distinct by (simp add: nid_chain_def super_fields)
qed


lemma mount_idle:
  assumes "mount_areas sb" and "s = journal_start sb" and "e = journal_end sb" and "s \<le> pos" and "pos < e"
    and "metaJournalStartLpa dev = s" and "metaJournalEndLpa dev = e" and "metaJournalHeadLpa dev = pos" and "metaJournalTailLpa dev = pos"
    and "\<forall>l. unat l < unat (get32 sb SB_sit_blkaddr) \<longrightarrow> dev_ok dev l"
  shows "jp_idle (journalProcessorInit n0 st0 s0 e0 s e pos) dev"
proof -
  note j = journal_end_unat [OF assms(1), folded assms(2,3)]
  have "unat (get32 sb SB_sit_blkaddr) \<le> 0x20000000" using assms(1) by (simp add: mount_areas_def)
  then have e: "unat e \<le> 536870912" using j(4) by linarith
  have "comm_submit_rw_request_common dev (LPA_TO_LBA64 c) = RC0" if "c < e" for c
  proof -
    have c: "unat c < unat e" using that by (simp add: word_less_nat_alt)
    then have "unat (ucast c :: u32) = unat c" using e by (subst unat_ucast64) simp_all
    moreover from this have "unat ((ucast c :: u32) * 8) = unat c * 8" using c e by (subst unat_mult_lem [THEN iffD1]) simp_all
    moreover have "unat (c * 8) = unat c * 8" using c e by (subst unat_mult_lem [THEN iffD1]) simp_all
    ultimately have "LPA_TO_LBA64 c = LPA_TO_LBA32 (ucast c)"
      using unat_up [of "ucast c * 8"] by (simp add: LPA_TO_LBA64_def LPA_TO_LBA32_def word_unat_eq_iff)
    then show ?thesis using assms(10) c j(4) \<open>unat (ucast c :: u32) = unat c\<close> by simp
  qed
  then have "ring_ok dev s e" using j(3) e by (simp add: ring_ok_def word_le_nat_alt)
  then show ?thesis
    using assms(4-9) by (simp add: jp_idle_def journalProcessorInit_def Let_def journalWriterInit_def)
qed

lemma small_layout:
  assumes "rtfsMkfsCalculateLayout n j = Inr lay" and "n < 0x20000000" and "j \<noteq> - 1"
  shows "mk_sizes lay (unat n div 512) (unat j)" and "unat n div 512 < 2 ^ 20" and "0 < unat j"
proof -
  have n: "unat n < 536870912" using assms(2) by (simp add: word_less_nat_alt)
  show "mk_sizes lay (unat n div 512) (unat j)"
    by (rule layout_sizes [OF assms(1) _ assms(3)]) (use n in \<open>simp add: word_less_nat_alt\<close>)
  show "unat n div 512 < 2 ^ 20" using n by simp
  show "0 < unat j" using assms(1) by (auto simp: rtfsMkfsCalculateLayout_def unat_gt_0)
qed

text \<open>Formatting and mounting, step by step.\<close>

lemma mount_formatted:
  fixes opts :: RtfsMkfsOptions
  defines "eff \<equiv> rtfsMkfsEffectiveOptions opts"
  assumes "rtfsMkfsCalculateLayout (mo_lpa_count eff) (mo_meta_journal_segment_count eff) = Inr lay"
    and "mo_lpa_count eff < 0x20000000" and "mo_meta_journal_segment_count eff \<noteq> - 1"
    and "\<forall>l. unat l < unat (ml_block_count lay) \<longrightarrow> dev_ok dev l" and "mm_lock mem = RC0"
  shows "\<exists>dev' m. rtfsMkfsFormatCommDev opts dev = (Inr lay, dev') \<and>
    fileSystemManagerSetup fresh korder t tmr mem None dev' = Some (RC0, Some m, fs_dev (mt_fs m)) \<and>
    formatted eff lay (mt_fs m) \<and>
    media (fs_dev (mt_fs m)) (LPA_TO_LBA32 (ml_main_start_lpa lay)) = rtfsMkfsRootInode eff \<and>
    jp_idle (mt_proc m) (fs_dev (mt_fs m)) \<and> jp_pendingJournalList (mt_proc m) = [] \<and>
    jp_startLpa (mt_proc m) = journal_start (super_blk_mem (mt_fs m)) \<and> jp_endLpa (mt_proc m) = journal_end (super_blk_mem (mt_fs m)) \<and>
    mt_env m = journalProcessEnvInit \<and>
    (\<forall>r \<in> set (crg_pending (mt_registry m)) \<union> set (crg_completed (mt_registry m)). crr_deletedHandles r = [])"
proof -
  define G J where "G = unat (mo_lpa_count eff) div 512" and "J = unat (mo_meta_journal_segment_count eff)"
  note sz = small_layout [OF assms(2-4), folded G_def J_def]
  note G = sz(2) and sz = sz(1)
  note z = sz [unfolded mk_sizes_def]
  have lt: "l < 0x20000000" if "unat l < 512 * G" for l :: u32 using that G by (simp add: word_less_nat_alt)
  have fine: "\<forall>l. unat l < 512 * G \<longrightarrow> lpa_fine dev l" using assms(5) z lt by (auto simp: lpa_fine_def)
  let ?sb = "rtfsMkfsSuperBlock eff lay"
  obtain dev' where d: "rtfsMkfsFormat opts rtfsMkfsCommDevWriteBlock dev = (Inr lay, dev')" "lpa_fine dev' = lpa_fine dev"
    and c: "\<And>l. unat l < 512 * G \<Longrightarrow> media dev' (LPA_TO_LBA32 l) =
      (if l = 0 then ?sb else if unat l < 512 then media dev (LPA_TO_LBA32 l)
       else if unat l < unat (ml_sit_start_lpa lay) then zero_block
       else if unat l < unat (ml_nat_start_lpa lay) then rtfsMkfsSitBlock lay (of_nat (unat l - unat (ml_sit_start_lpa lay)))
       else if unat l < unat (ml_srmap_start_lpa lay) then rtfsMkfsNatBlock eff lay (of_nat (unat l - unat (ml_nat_start_lpa lay)))
       else if unat l < unat (ml_main_start_lpa lay) then rtfsMkfsSrmapBlock eff lay (of_nat (unat l - unat (ml_srmap_start_lpa lay)))
       else if l = ml_main_start_lpa lay then rtfsMkfsRootInode eff else media dev (LPA_TO_LBA32 l))"
    using mkfs_dev.format_content [of opts lay G J dev] assms(2) sz fine G unfolding eff_def by auto
  have ok: "dev_ok dev' l" if "unat l < 512 * G" for l
    using fine that d(2) by (metis lpa_fine_def)
  have "0 < G" using z by linarith
  then have b0: "media dev' 0 = ?sb" "dev_ok dev' 0" using c [of 0] ok [of 0] by (simp_all add: LPA_TO_LBA32_def)
  have areas: "mount_areas ?sb" using z G small_layout(3) [OF assms(2-4), folded J_def] by (auto simp: mount_areas_def super_fields)
  obtain m where m: "fileSystemManagerSetup fresh korder t tmr mem None dev' = Some (RC0, Some m, fs_dev (mt_fs m))"
    "super_blk_mem (mt_fs m) = ?sb" "sit_cache (mt_fs m) = sitNatCacheInit 100" "nat_cache (mt_fs m) = sitNatCacheInit 100"
    "srmap_utils (mt_fs m) = \<lparr>srmapCache = Map.empty, dirtyBlks = {}, srmapStartLpa = get32 ?sb SB_srmap_blkaddr\<rparr>"
    "fs_dev (mt_fs m) = dev'\<lparr>metaJournalStartLpa := journal_start ?sb, metaJournalEndLpa := journal_end ?sb,
      metaJournalHeadLpa := journal_start ?sb, metaJournalTailLpa := journal_start ?sb, recoveredReclaim := []\<rparr>"
    "mt_proc m = journalProcessorInit (jp_curJournalBlockNum (mm_proc mem)) (jp_curProcState (mm_proc mem))
      (jp_curJournalStartLpa (mm_proc mem)) (jp_curJournalEndLpa (mm_proc mem)) (journal_start ?sb) (journal_end ?sb) (journal_start ?sb)"
    "mt_env m = journalProcessEnvInit"
    "\<forall>r \<in> set (crg_pending (mt_registry m)) \<union> set (crg_completed (mt_registry m)). crr_deletedHandles r = []"
    using setup_fs [OF assms(6) b0(2,1) areas, of fresh korder t tmr] by (auto simp: super_fields)
  have dok: "comm_submit_rw_request_common (fs_dev (mt_fs m)) = comm_submit_rw_request_common dev'" by (simp add: m(6) comm_submit_rw_request_common_def Let_def fun_eq_iff)
  have "formatted eff lay (mt_fs m)"
    unfolding formatted_def dok
  proof (intro conjI allI impI)
    fix l :: u32
    assume l: "unat (ml_sit_start_lpa lay) \<le> unat l" "unat l < unat (ml_nat_start_lpa lay)"
    then have "unat l < 512 * G" "512 \<le> unat l" "l \<noteq> 0" using z by auto
    then show "media (fs_dev (mt_fs m)) (LPA_TO_LBA32 l) = rtfsMkfsSitBlock lay (of_nat (unat l - unat (ml_sit_start_lpa lay)))"
      using c [of l] l by (simp add: m(6))
  next
    fix l :: u32
    assume l: "unat (ml_nat_start_lpa lay) \<le> unat l" "unat l < unat (ml_srmap_start_lpa lay)"
    then have "unat l < 512 * G" "512 \<le> unat l" "l \<noteq> 0" "unat (ml_sit_start_lpa lay) \<le> unat l" using z by auto
    then show "media (fs_dev (mt_fs m)) (LPA_TO_LBA32 l) = rtfsMkfsNatBlock eff lay (of_nat (unat l - unat (ml_nat_start_lpa lay)))"
      using c [of l] l by (simp add: m(6))
  qed (use m z ok in \<open>simp_all add: super_fields\<close>)
  note f = this
  have "media (fs_dev (mt_fs m)) (LPA_TO_LBA32 (ml_main_start_lpa lay)) = rtfsMkfsRootInode eff"
  proof -
    have "unat (ml_main_start_lpa lay) < 512 * G" "512 \<le> unat (ml_main_start_lpa lay)" "unat (ml_sit_start_lpa lay) \<le> unat (ml_main_start_lpa lay)"
      "unat (ml_nat_start_lpa lay) \<le> unat (ml_main_start_lpa lay)" "unat (ml_srmap_start_lpa lay) \<le> unat (ml_main_start_lpa lay)"
      using z by simp_all
    moreover from this have "ml_main_start_lpa lay \<noteq> 0" by auto
    ultimately show ?thesis using c [of "ml_main_start_lpa lay"] by (simp add: m(6))
  qed
  moreover have "jp_idle (mt_proc m) (fs_dev (mt_fs m))"
  proof -
    have "unat (get32 ?sb SB_sit_blkaddr) \<le> 512 * G" using z by (simp add: super_fields)
    then show ?thesis
      unfolding m(7) by (intro mount_idle [OF areas refl refl]) (use journal_end_unat(3) [OF areas] ok dok in \<open>auto simp: m(6)\<close>)
  qed
  ultimately show ?thesis
    using d(1) m(1,2,8,9) f by (auto simp: rtfsMkfsFormatCommDev_def m(7) journalProcessorInit_def Let_def)
qed

text \<open>
  Claim C6. A freshly formatted device can be mounted, and the mounted file system is sound. Formatting and mounting return without error; in
  the mounted state every invariant that the allocators, the caches, the journal thread and the unmount rely on holds: the free segments are
  exactly those behind the two log segments, no block of them is live, the free nids are exactly those behind the root's, the NAT entry of
  the root points to the block that holds the root inode, and the journal thread is idle on an empty ring.
\<close>

theorem format_then_mount:
  fixes opts :: RtfsMkfsOptions
  defines "eff \<equiv> rtfsMkfsEffectiveOptions opts"
  assumes "rtfsMkfsCalculateLayout (mo_lpa_count eff) (mo_meta_journal_segment_count eff) = Inr lay"
    and "mo_lpa_count eff < 0x20000000" and "mo_meta_journal_segment_count eff \<noteq> - 1"
    and "unat (mo_root_ino eff) + 1 < unat (ml_block_count lay)"
    and "\<forall>l. unat l < unat (ml_block_count lay) \<longrightarrow> dev_ok dev l" and "mm_lock mem = RC0"
  shows "\<exists>dev' m. rtfsMkfsFormatCommDev opts dev = (Inr lay, dev') \<and>
    fileSystemManagerSetup fresh korder t tmr mem None dev' = Some (RC0, Some m, fs_dev (mt_fs m)) \<and>
    mount_inv (mt_fs m) \<and>
    alloc_inv (mt_fs m) (for_u32 (ml_main_start_segment lay + 2) (ml_segment_count lay)) \<and>
    nid_chain (mt_fs m) (for_u32 (mo_root_ino eff + 1) (ucast (ml_block_count lay))) \<and>
    nat_entry_of (mt_fs m) (mo_root_ino eff) = \<lparr>nat_ino = mo_root_ino eff, nat_block_addr = ml_main_start_lpa lay\<rparr> \<and>
    media (fs_dev (mt_fs m)) (LPA_TO_LBA32 (ml_main_start_lpa lay)) = rtfsMkfsRootInode eff \<and>
    jp_idle (mt_proc m) (fs_dev (mt_fs m))"
proof -
  note sz = small_layout [OF assms(2-4)]
  obtain dev' m where m: "rtfsMkfsFormatCommDev opts dev = (Inr lay, dev')"
    "fileSystemManagerSetup fresh korder t tmr mem None dev' = Some (RC0, Some m, fs_dev (mt_fs m))" "formatted eff lay (mt_fs m)"
    "media (fs_dev (mt_fs m)) (LPA_TO_LBA32 (ml_main_start_lpa lay)) = rtfsMkfsRootInode eff" "jp_idle (mt_proc m) (fs_dev (mt_fs m))"
    using mount_formatted [of opts lay dev mem fresh korder t tmr] assms unfolding eff_def by blast
  have "unat (mo_root_ino eff) + 1 < 512 * (unat (mo_lpa_count eff) div 512)" using assms(5) sz(1) by (simp add: mk_sizes_def)
  then show ?thesis
    using m formatted_areas(2) [OF m(3) sz] formatted_alloc [OF m(3) sz(1,2)] formatted_chain [OF m(3) sz(1,2)] by auto
qed


text \<open>A device of 4096 blocks, formatted with the default options.\<close>

definition demo_format_dev :: comm_dev where
  "demo_format_dev = demo_dev\<lparr>blockCount := 32768\<rparr>"

definition demo_format_options :: RtfsMkfsOptions where
  "demo_format_options = \<lparr>mo_lpa_count = 4096, mo_root_ino = 0, mo_meta_journal_segment_count = 0\<rparr>"

definition demo_mem :: mount_mem where
  "demo_mem = \<lparr>mm_lock = RC0, mm_super = zero_block, mm_nodes = nbc_heap (node_cache demo_fs),
     mm_proc = journalProcessorInit 0 JOURNAL_PROCESS_NEWLY_FETCHED 0 0 1 2 1, mm_threadFirst = False\<rparr>"

lemma demo_format_ok: "unat lpa < 4096 \<Longrightarrow> dev_ok demo_format_dev lpa"
proof -
  assume u: "unat lpa < 4096"
  then have "unat (lpa * 8) = unat lpa * 8" by (simp add: unat_mult_lem [THEN iffD1])
  then have "unat (LPA_TO_LBA32 lpa) = unat lpa * 8" by (simp add: LPA_TO_LBA32_def)
  with u have "unat (LPA_TO_LBA32 lpa) < 32768 - 7" by simp
  then show "dev_ok demo_format_dev lpa"
    by (simp add: comm_submit_rw_request_common_def demo_format_dev_def demo_dev_def Let_def word_less_nat_alt word_le_nat_alt
        unat_word_ariths)
qed

lemma demo_effective:
  "rtfsMkfsEffectiveOptions demo_format_options = \<lparr>mo_lpa_count = 4096, mo_root_ino = 1, mo_meta_journal_segment_count = 1\<rparr>"
  by (simp add: rtfsMkfsEffectiveOptions_def demo_format_options_def)

lemma demo_layout:
  obtains lay where "rtfsMkfsCalculateLayout 4096 1 = Inr lay" "ml_block_count lay = 4096" "ml_segment_count lay = 8"
    "ml_main_start_segment lay = 5" "ml_main_start_lpa lay = 2560"
  by (simp add: rtfsMkfsCalculateLayout_def rtfsMkfsDivRoundUp_def rtfsMkfsSegToLpa_def)

theorem format_then_mount_witness:
  "\<exists>lay dev' m. rtfsMkfsFormatCommDev demo_format_options demo_format_dev = (Inr lay, dev') \<and>
    fileSystemManagerSetup (\<lambda>_. zero_block) id 10 RC0 demo_mem None dev' = Some (RC0, Some m, fs_dev (mt_fs m)) \<and>
    alloc_inv (mt_fs m) [7] \<and> nat_entry_of (mt_fs m) 1 = \<lparr>nat_ino = 1, nat_block_addr = 2560\<rparr>"
proof -
  note eff = demo_effective
  obtain lay where lay: "rtfsMkfsCalculateLayout 4096 1 = Inr lay" "ml_block_count lay = 4096" "ml_segment_count lay = 8"
    "ml_main_start_segment lay = 5" "ml_main_start_lpa lay = 2560"
    using demo_layout .
  have seg: "for_u32 7 8 = [7]" by (simp add: for_u32_def)
  show ?thesis
    using format_then_mount [of demo_format_options lay demo_format_dev demo_mem "\<lambda>_. zero_block" id 10 RC0] demo_format_ok
    by (simp add: eff lay seg demo_mem_def) blast
qed

end
