(* ===== verification/Fs_Unmount.thy ===== *)
theory Fs_Unmount
  imports Fs_Manager
begin

text \<open>
  A clean unmount and the next mount (\<^verbatim>\<open>src/src/fs/fs_manager.c\<close>): the journal thread writes what is queued and stops, the cached
  NAT, SIT and SRMAP blocks and the super block go to their places on the device, and the mount that follows finds the same tables.
\<close>

subsection \<open>Writing the caches back\<close>



subsection \<open>The write-back as a whole\<close>

text \<open>The super block that is written: the recorded journal positions are the device's.\<close>

abbreviation flushed_super :: "file_system_manager \<Rightarrow> block" where
  "flushed_super fs \<equiv> super_blk_mem (sync_super_journal_pos_from_dev fs)"

lemma flushed_super_other:
  "i < 120 \<or> 124 \<le> i \<Longrightarrow> flushed_super fs i = super_blk_mem fs i"
  by (auto simp: sync_super_journal_pos_from_dev_def Let_def put16_def)

lemma flushed_super_field:
  "off + 4 \<le> 120 \<or> 124 \<le> off \<Longrightarrow> get32 (flushed_super fs) off = sb32 fs off"
  by (auto simp: get32_def flushed_super_other)












subsection \<open>Stopping the thread and tearing down\<close>










subsection \<open>Unmount and mount\<close>









subsection \<open>Operations of a mounted file system keep the invariant\<close>











end
