(* ===== verification/Dir_Block.thy ===== *)
theory Dir_Block
  imports File_Inode
begin

unbundle bit_operations_syntax

text \<open>
  The entries of a directory: the two tables of \<^verbatim>\<open>fs/fs.h\<close> (the inline one in the inode, the one that fills a block) and the part of
  \<^verbatim>\<open>src/src/dir_inode/dir_inode.c\<close> that decodes them into the run-time directory and looks entries up, with \<^verbatim>\<open>inode/inode.c\<close>.
  Both tables have the same shape: a bitmap of slots, an array of entries of 11 bytes, an array of name slots of 8 bytes. A name takes
  as many consecutive slots as it needs; its entry is in the first. The source has the code that works on them twice; here
  it takes a \<open>dentry_layout\<close>. Names are C strings: lists of bytes without 0.
\<close>

subsection \<open>Run-time inode views\<close>

record RtfsRuntimeInodeView =
  rv_ino :: u64
  rv_parent_ino :: u64
  rv_file_type :: u8

definition rtfsRuntimeInodeViewInit :: "u64 \<Rightarrow> u64 \<Rightarrow> u8 \<Rightarrow> RtfsRuntimeInodeView" where
  "rtfsRuntimeInodeViewInit ino parent_ino file_type = \<lparr>rv_ino = ino, rv_parent_ino = parent_ino, rv_file_type = file_type\<rparr>"

definition rtfsRuntimeInodeViewCreate :: "u64 \<Rightarrow> u64 \<Rightarrow> u8 \<Rightarrow> RtfsRuntimeInodeView" where
  "rtfsRuntimeInodeViewCreate ino parent_ino file_type = rtfsRuntimeInodeViewInit ino parent_ino file_type"

definition rtfsRuntimeInodeViewClone :: "RtfsRuntimeInodeView \<Rightarrow> RtfsRuntimeInodeView" where
  "rtfsRuntimeInodeViewClone s = rtfsRuntimeInodeViewCreate (rv_ino s) (rv_parent_ino s) (rv_file_type s)"

definition rtfsInodeIsDirectoryType :: "u8 \<Rightarrow> bool" where
  "rtfsInodeIsDirectoryType file_type \<longleftrightarrow> file_type = ucast RTFS_FT_DIR"

subsection \<open>Tables of entries\<close>

record dentry_layout =
  dl_n :: nat
  dl_bitmap :: nat
  dl_dentry :: nat
  dl_name :: nat

text \<open>\<^verbatim>\<open>struct RtfsInlineDentry\<close> lies over \<^verbatim>\<open>i_addr\<close> of the inode, at byte 332 of the node block.\<close>

definition RtfsInlineDentry :: dentry_layout where
  "RtfsInlineDentry = \<lparr>dl_n = 194, dl_bitmap = 332, dl_dentry = 374, dl_name = 2508\<rparr>"

definition RtfsDentryBlock :: dentry_layout where
  "RtfsDentryBlock = \<lparr>dl_n = 214, dl_bitmap = 0, dl_dentry = 30, dl_name = 2384\<rparr>"

record RtfsDirEntry =
  de_hash_code :: u32
  de_ino :: u32
  de_name_len :: u16
  de_file_type :: u8

definition getDirEntry :: "block \<Rightarrow> nat \<Rightarrow> RtfsDirEntry" where
  "getDirEntry b off = \<lparr>de_hash_code = get32 b off, de_ino = get32 b (off + 4), de_name_len = get16 b (off + 8), de_file_type = b (off + 10)\<rparr>"

definition putDirEntry :: "block \<Rightarrow> nat \<Rightarrow> RtfsDirEntry \<Rightarrow> block" where
  "putDirEntry b off e = (put16 (put32 (put32 b off (de_hash_code e)) (off + 4) (de_ino e)) (off + 8) (de_name_len e))(off + 10 := de_file_type e)"

abbreviation dl_entry :: "dentry_layout \<Rightarrow> nat \<Rightarrow> nat" where
  "dl_entry L i \<equiv> dl_dentry L + 11 * i"

abbreviation dl_slot :: "dentry_layout \<Rightarrow> nat \<Rightarrow> nat" where
  "dl_slot L i \<equiv> dl_name L + 8 * i"

definition GET_DENTRY_SLOTS :: "nat \<Rightarrow> nat" where
  "GET_DENTRY_SLOTS x = (x + 7) div 8"

text \<open>The bitmap at byte \<open>bm\<close> of a block.\<close>

definition rtfsDirIsBitmapBitSet :: "block \<Rightarrow> nat \<Rightarrow> nat \<Rightarrow> bool" where
  "rtfsDirIsBitmapBitSet b bm bit_index \<longleftrightarrow> b (bm + bit_index div 8) AND push_bit (bit_index mod 8) 1 \<noteq> 0"

definition rtfsDirInodeClearDentryBit :: "block \<Rightarrow> nat \<Rightarrow> nat \<Rightarrow> block" where
  "rtfsDirInodeClearDentryBit b bm bit_index =
     b(bm + bit_index div 8 := b (bm + bit_index div 8) AND NOT (push_bit (bit_index mod 8) 1))"

definition rtfsDirInodeSetDentryBit :: "block \<Rightarrow> nat \<Rightarrow> nat \<Rightarrow> block" where
  "rtfsDirInodeSetDentryBit b bm bit_index =
     b(bm + bit_index div 8 := b (bm + bit_index div 8) OR push_bit (bit_index mod 8) 1)"

abbreviation dl_bit :: "dentry_layout \<Rightarrow> block \<Rightarrow> nat \<Rightarrow> bool" where
  "dl_bit L b i \<equiv> rtfsDirIsBitmapBitSet b (dl_bitmap L) i"

text \<open>The loops that copy a name out of its slots and into them; only the last slot may be filled in part.\<close>

definition dir_read_name :: "dentry_layout \<Rightarrow> block \<Rightarrow> nat \<Rightarrow> nat \<Rightarrow> u8 list" where
  "dir_read_name L b idx name_len =
     concat (map (\<lambda>slot. let offset = 8 * slot; copy_len = (if offset + 8 > name_len then name_len - offset else 8)
                         in blk_bytes b (dl_slot L (idx + slot)) copy_len) [0..<GET_DENTRY_SLOTS name_len])"

definition dir_write_name :: "dentry_layout \<Rightarrow> block \<Rightarrow> nat \<Rightarrow> u8 list \<Rightarrow> block" where
  "dir_write_name L b idx name =
     fold (\<lambda>slot b. let offset = 8 * slot; copy_len = (if offset + 8 > length name then length name - offset else 8)
                    in blk_copy (blk_fill b (dl_slot L (idx + slot)) 8 0) (dl_slot L (idx + slot)) (take copy_len (drop offset name)))
       [0..<GET_DENTRY_SLOTS (length name)] b"

definition rtfsDirInodeWriteInlineName :: "block \<Rightarrow> nat \<Rightarrow> u8 list \<Rightarrow> block" where
  "rtfsDirInodeWriteInlineName b idx name = dir_write_name RtfsInlineDentry b idx name"

definition rtfsDirInodeWriteRegularName :: "block \<Rightarrow> nat \<Rightarrow> u8 list \<Rightarrow> block" where
  "rtfsDirInodeWriteRegularName b idx name = dir_write_name RtfsDentryBlock b idx name"

text \<open>An entry is put into a table at a run of free slots, and taken out again.\<close>

definition dir_put_entry :: "dentry_layout \<Rightarrow> block \<Rightarrow> nat \<Rightarrow> u8 list \<Rightarrow> u64 \<Rightarrow> u8 \<Rightarrow> block" where
  "dir_put_entry L b start_slot name child_ino child_type =
     (let b = putDirEntry b (dl_entry L start_slot)
            \<lparr>de_hash_code = 0, de_ino = ucast child_ino, de_name_len = of_nat (length name), de_file_type = child_type\<rparr>;
          b = fold (\<lambda>i b. rtfsDirInodeSetDentryBit b (dl_bitmap L) (start_slot + i)) [0..<GET_DENTRY_SLOTS (length name)] b
      in dir_write_name L b start_slot name)"

definition dir_clear_entry :: "dentry_layout \<Rightarrow> block \<Rightarrow> nat \<Rightarrow> nat \<Rightarrow> block" where
  "dir_clear_entry L b start_slot name_len =
     (let b = fold (\<lambda>slot b. blk_fill (rtfsDirInodeClearDentryBit b (dl_bitmap L) (start_slot + slot)) (dl_slot L (start_slot + slot)) 8 0)
                [0..<GET_DENTRY_SLOTS name_len] b
      in blk_fill b (dl_entry L start_slot) 11 0)"

text \<open>
  The search for a run of \<open>slot_count\<close> free slots: after a taken slot it goes on behind that slot.
\<close>

function dir_free_run :: "dentry_layout \<Rightarrow> block \<Rightarrow> nat \<Rightarrow> nat \<Rightarrow> nat option" where
  "dir_free_run L b slot_count i =
     (if i + slot_count > dl_n L then None
      else case find (\<lambda>slot. dl_bit L b (i + slot)) [0..<slot_count] of
        None \<Rightarrow> Some i
      | Some slot \<Rightarrow> dir_free_run L b slot_count (i + slot + 1))"
  by pat_completeness auto

termination dir_free_run
  by (relation "measure (\<lambda>(L, b, k, i). dl_n L + 1 - i)") (auto simp: find_Some_iff)

declare dir_free_run.simps [simp del]

text \<open>The loop over a table: \<open>f\<close> is called at the first slot of every entry, the other slots of its name are skipped.\<close>

function dir_scan :: "dentry_layout \<Rightarrow> block \<Rightarrow> (nat \<Rightarrow> 's \<Rightarrow> rc \<times> 's) \<Rightarrow> nat \<Rightarrow> 's \<Rightarrow> rc \<times> 's" where
  "dir_scan L b f i s =
     (if i \<ge> dl_n L then (RC0, s)
      else if \<not> dl_bit L b i then dir_scan L b f (i + 1) s
      else case f i s of (ret, s) \<Rightarrow>
        if ret \<noteq> RC0 then (ret, s)
        else let slot_count = GET_DENTRY_SLOTS (unat (de_name_len (getDirEntry b (dl_entry L i))))
             in dir_scan L b f ((if slot_count > 0 then i + (slot_count - 1) else i) + 1) s)"
  by pat_completeness auto

termination dir_scan
  by (relation "measure (\<lambda>(L, b, f, i, s). dl_n L - i)") auto

declare dir_scan.simps [simp del]

subsection \<open>The run-time directory\<close>

record RtfsMemDirEntry =
  me_ino :: u64
  me_file_type :: u8
  me_name :: "u8 list"
  me_source_is_inline :: bool
  me_source_block_index :: u32
  me_source_slot_index :: u16

datatype RtfsDirBackingKind = RTFS_DIR_BACKING_EMPTY | RTFS_DIR_BACKING_INLINE | RTFS_DIR_BACKING_BLOCKS

record RtfsLoadedDirBlock =
  lb_block_index :: u32
  lb_lpa :: u32
  lb_cow_new_lpa :: u32
  lb_has_pending_cow_relocation :: bool
  lb_block :: block
  lb_is_dirty :: bool

text \<open>
  \<open>di_handle\<close> is the node that the directory keeps cached; \<^verbatim>\<open>disk_inode\<close> and \<^verbatim>\<open>inline_dentry\<close> point into its block, the latter
  while \<open>di_inline\<close> holds. The number of entries and of loaded blocks are the lengths of their lists.
\<close>

record RtfsDirInode =
  di_ino :: u64
  di_parent_ino :: u64
  di_file_type :: u8
  di_size :: u64
  di_dentry_num :: u32
  di_mtime :: u64
  di_current_depth :: u32
  di_loaded_block_count :: nat
  di_total_block_count :: nat
  di_is_fully_loaded :: bool
  di_backing_kind :: RtfsDirBackingKind
  di_inline :: bool
  di_loaded_blocks :: "RtfsLoadedDirBlock list"
  di_entries :: "RtfsMemDirEntry list"
  di_handle :: "nat option"
  di_is_dirty :: bool

abbreviation (input) I_inline :: nat where "I_inline \<equiv> 2"
abbreviation (input) I_dentry_num :: nat where "I_dentry_num \<equiv> 48"
abbreviation (input) I_current_depth :: nat where "I_current_depth \<equiv> 64"
abbreviation (input) I_pino :: nat where "I_pino \<equiv> 68"
abbreviation (input) RTFS_INLINE_DENTRY :: u8 where "RTFS_INLINE_DENTRY \<equiv> 4"

definition rtfsCreateDirInode :: "u64 \<Rightarrow> u64 \<Rightarrow> RtfsDirInode" where
  "rtfsCreateDirInode ino parent_ino =
     \<lparr>di_ino = ino, di_parent_ino = parent_ino, di_file_type = ucast RTFS_FT_DIR, di_size = 0, di_dentry_num = 0, di_mtime = 0,
      di_current_depth = 0, di_loaded_block_count = 0, di_total_block_count = 0, di_is_fully_loaded = False,
      di_backing_kind = RTFS_DIR_BACKING_EMPTY, di_inline = False, di_loaded_blocks = [], di_entries = [], di_handle = None,
      di_is_dirty = False\<rparr>"

definition rtfsDestroyDirInode :: "file_system_manager \<Rightarrow> RtfsDirInode \<Rightarrow> file_system_manager option" where
  "rtfsDestroyDirInode fs di = nodeBlockCacheEntryHandleDestroy fs (di_handle di)"

definition rtfsDirInodePut :: "file_system_manager \<Rightarrow> RtfsDirInode \<Rightarrow> file_system_manager option" where
  "rtfsDirInodePut fs di = rtfsDestroyDirInode fs di"

definition rtfsDirInodeFindEntry :: "RtfsDirInode \<Rightarrow> u8 list \<Rightarrow> RtfsMemDirEntry option" where
  "rtfsDirInodeFindEntry di name = find (\<lambda>e. me_name e = name) (di_entries di)"

definition rtfsDirInodeAddEntryInternal :: "RtfsDirInode \<Rightarrow> u8 list \<Rightarrow> u64 \<Rightarrow> u8 \<Rightarrow> rc \<times> RtfsDirInode" where
  "rtfsDirInodeAddEntryInternal di name child_ino child_type =
     (if name = [] \<or> length name > 255 then (ENAMETOOLONG, di)
      else if rtfsDirInodeFindEntry di name \<noteq> None then (EEXIST, di)
      else (RC0, di\<lparr>di_entries := di_entries di @ [\<lparr>me_ino = child_ino, me_file_type = child_type, me_name = name,
              me_source_is_inline = False, me_source_block_index = 0, me_source_slot_index = 0\<rparr>],
              di_dentry_num := di_dentry_num di + 1, di_is_dirty := True\<rparr>))"

text \<open>The source of the entry that was added last.\<close>

definition dir_set_source :: "RtfsDirInode \<Rightarrow> bool \<Rightarrow> u32 \<Rightarrow> u16 \<Rightarrow> RtfsDirInode" where
  "dir_set_source di is_inline block_index slot_index =
     di\<lparr>di_entries := butlast (di_entries di) @ [(last (di_entries di))\<lparr>me_source_is_inline := is_inline,
          me_source_block_index := block_index, me_source_slot_index := slot_index\<rparr>]\<rparr>"

text \<open>A C string ends at its first 0 byte.\<close>

definition c_string :: "u8 list \<Rightarrow> u8 list" where
  "c_string bs = takeWhile (\<lambda>c. c \<noteq> 0) bs"

definition rtfsDirInodeBuildInlineEntryAt :: "block \<Rightarrow> nat \<Rightarrow> RtfsDirInode \<Rightarrow> rc \<times> RtfsDirInode" where
  "rtfsDirInodeBuildInlineEntryAt b idx di =
     (if idx \<ge> 194 then (EINVAL, di)
      else let e = getDirEntry b (dl_entry RtfsInlineDentry idx); name_len = unat (de_name_len e) in
        if name_len = 0 \<or> name_len > 255 then (EINVAL, di)
        else if idx + GET_DENTRY_SLOTS name_len > 194 then (EINVAL, di)
        else let name = dir_read_name RtfsInlineDentry b idx name_len;
                 (ret, di) = rtfsDirInodeAddEntryInternal di (c_string name) (ucast (de_ino e)) (de_file_type e)
             in (ret, if ret = RC0 then dir_set_source di True 0 (of_nat idx) else di))"

definition rtfsDirInodeBuildRegularEntryAt :: "block \<Rightarrow> u32 \<Rightarrow> nat \<Rightarrow> RtfsDirInode \<Rightarrow> rc \<times> RtfsDirInode" where
  "rtfsDirInodeBuildRegularEntryAt b block_index idx di =
     (if idx \<ge> 214 then (EINVAL, di)
      else let e = getDirEntry b (dl_entry RtfsDentryBlock idx); name_len = unat (de_name_len e) in
        if name_len = 0 \<or> name_len > 255 then (EINVAL, di)
        else if idx + GET_DENTRY_SLOTS name_len > 214 then (EINVAL, di)
        else let name = dir_read_name RtfsDentryBlock b idx name_len in
          if name = [46] \<or> name = [46, 46] then (RC0, di)
          else let (ret, di) = rtfsDirInodeAddEntryInternal di (c_string name) (ucast (de_ino e)) (de_file_type e)
               in (ret, if ret = RC0 then dir_set_source di False block_index (of_nat idx) else di))"

definition rtfsDirInodeBuildInlineEntries :: "RtfsDirInode \<Rightarrow> block \<Rightarrow> rc \<times> RtfsDirInode" where
  "rtfsDirInodeBuildInlineEntries di node =
     (let disk_dentry_num = di_dentry_num di;
          (ret, di) = dir_scan RtfsInlineDentry node (rtfsDirInodeBuildInlineEntryAt node) 0 (di\<lparr>di_dentry_num := 0\<rparr>)
      in if ret \<noteq> RC0 then (ret, di)
         else (RC0, di\<lparr>di_dentry_num := disk_dentry_num, di_loaded_block_count := di_total_block_count di, di_is_fully_loaded := True\<rparr>))"

definition rtfsDirInodeFindLoadedBlock :: "RtfsDirInode \<Rightarrow> u32 \<Rightarrow> RtfsLoadedDirBlock option" where
  "rtfsDirInodeFindLoadedBlock di block_index = find (\<lambda>lb. lb_block_index lb = block_index) (di_loaded_blocks di)"

definition rtfsDirInodeRememberLoadedBlock :: "RtfsDirInode \<Rightarrow> block \<Rightarrow> u32 \<Rightarrow> u32 \<Rightarrow> rc \<times> RtfsDirInode" where
  "rtfsDirInodeRememberLoadedBlock di dentry_block block_index lpa =
     (if rtfsDirInodeFindLoadedBlock di block_index \<noteq> None then (RC0, di)
      else (RC0, di\<lparr>di_loaded_blocks := di_loaded_blocks di @ [\<lparr>lb_block_index = block_index, lb_lpa = lpa, lb_cow_new_lpa = INVALID_LPA,
              lb_has_pending_cow_relocation = False, lb_block = dentry_block, lb_is_dirty = False\<rparr>]\<rparr>))"

definition rtfsDirInodeAppendRegularEntries :: "RtfsDirInode \<Rightarrow> block \<Rightarrow> u32 \<Rightarrow> u32 \<Rightarrow> rc \<times> RtfsDirInode" where
  "rtfsDirInodeAppendRegularEntries di dentry_block block_index lpa =
     (let di = (if di_backing_kind di = RTFS_DIR_BACKING_EMPTY then di\<lparr>di_backing_kind := RTFS_DIR_BACKING_BLOCKS\<rparr> else di);
          (ret, di) = rtfsDirInodeRememberLoadedBlock di dentry_block block_index lpa in
      if ret \<noteq> RC0 then (ret, di)
      else let disk_dentry_num = di_dentry_num di; was_dirty = di_is_dirty di;
               (ret, di) = dir_scan RtfsDentryBlock dentry_block (rtfsDirInodeBuildRegularEntryAt dentry_block block_index) 0 (di\<lparr>di_dentry_num := 0\<rparr>)
           in (ret, di\<lparr>di_dentry_num := disk_dentry_num, di_is_dirty := was_dirty\<rparr>))"

definition rtfsDirInodeAppendDentryBlock :: "RtfsDirInode \<Rightarrow> block \<Rightarrow> rc \<times> RtfsDirInode" where
  "rtfsDirInodeAppendDentryBlock di dentry_block = rtfsDirInodeAppendRegularEntries di dentry_block 0 INVALID_LPA"

definition rtfsDirInodeAppendDentryBlockAt :: "RtfsDirInode \<Rightarrow> block \<Rightarrow> u32 \<Rightarrow> u32 \<Rightarrow> rc \<times> RtfsDirInode" where
  "rtfsDirInodeAppendDentryBlockAt di dentry_block block_index lpa = rtfsDirInodeAppendRegularEntries di dentry_block block_index lpa"

definition rtfsDirInodeBuildMetadata :: "RtfsDirInode \<Rightarrow> block \<Rightarrow> RtfsDirInode" where
  "rtfsDirInodeBuildMetadata di node =
     (let n = unat (SIZE_TO_BLOCK (get64 node I_size)) in
      di\<lparr>di_parent_ino := ucast (get32 node I_pino), di_file_type := ucast (get32 node I_type), di_size := get64 node I_size,
         di_dentry_num := ucast (get64 node I_dentry_num), di_mtime := get64 node I_mtime, di_current_depth := get32 node I_current_depth,
         di_total_block_count := n, di_loaded_block_count := 0, di_is_fully_loaded := (n = 0),
         di_backing_kind := RTFS_DIR_BACKING_EMPTY\<rparr>)"

definition rtfsDirInodeBuildFromCache ::
  "file_system_manager \<Rightarrow> RtfsDirInode \<Rightarrow> u64 \<Rightarrow> (rc \<times> RtfsDirInode \<times> file_system_manager) option" where
  "rtfsDirInodeBuildFromCache fs di ino = do {
     (node_handle, fs) \<leftarrow> nodeBlockCacheGet fs (ucast ino);
     case node_handle of
       None \<Rightarrow> Some (ENOENT, di, fs)
     | Some a \<Rightarrow> do {
         let node = nb_node fs a;
         let di = rtfsDirInodeBuildMetadata di node;
         let (ret, di) = (if node I_inline AND RTFS_INLINE_DENTRY \<noteq> 0
             then rtfsDirInodeBuildInlineEntries (di\<lparr>di_backing_kind := RTFS_DIR_BACKING_INLINE, di_inline := True\<rparr>) node
             else (RC0, di\<lparr>di_backing_kind := RTFS_DIR_BACKING_BLOCKS, di_inline := False\<rparr>));
         if ret \<noteq> RC0 then do { fs \<leftarrow> nodeBlockCacheEntryHandleDestroy fs node_handle; Some (ret, di, fs) }
         else Some (RC0, di\<lparr>di_handle := node_handle, di_is_dirty := False\<rparr>, fs)
       }
   }"

definition rtfsDirInodeBuild :: "file_system_manager \<Rightarrow> u64 \<Rightarrow> (rc \<times> RtfsDirInode option \<times> file_system_manager) option" where
  "rtfsDirInodeBuild fs ino = do {
     (ret, di, fs) \<leftarrow> rtfsDirInodeBuildFromCache fs (rtfsCreateDirInode ino ino) ino;
     if ret \<noteq> RC0 then do { fs \<leftarrow> rtfsDestroyDirInode fs di; Some (ret, None, fs) }
     else Some (RC0, Some di, fs)
   }"

definition rtfsDirInodeIsFullyLoaded :: "RtfsDirInode \<Rightarrow> bool" where
  "rtfsDirInodeIsFullyLoaded di \<longleftrightarrow> di_is_fully_loaded di"

definition rtfsDirInodeGetLoadedBlockCount :: "RtfsDirInode \<Rightarrow> nat" where
  "rtfsDirInodeGetLoadedBlockCount di = di_loaded_block_count di"

definition rtfsDirInodeGetTotalBlockCount :: "RtfsDirInode \<Rightarrow> nat" where
  "rtfsDirInodeGetTotalBlockCount di = di_total_block_count di"

definition rtfsDirInodeLoadedBlockHasPendingCowRelocation :: "RtfsDirInode \<Rightarrow> u32 \<Rightarrow> bool" where
  "rtfsDirInodeLoadedBlockHasPendingCowRelocation di block_index =
     (case rtfsDirInodeFindLoadedBlock di block_index of None \<Rightarrow> False | Some lb \<Rightarrow> lb_has_pending_cow_relocation lb)"

definition rtfsDirInodeGetLoadedBlockLpa :: "RtfsDirInode \<Rightarrow> u32 \<Rightarrow> u32" where
  "rtfsDirInodeGetLoadedBlockLpa di block_index =
     (case rtfsDirInodeFindLoadedBlock di block_index of None \<Rightarrow> INVALID_LPA | Some lb \<Rightarrow> lb_lpa lb)"

definition rtfsDirInodeGetLoadedBlockCowNewLpa :: "RtfsDirInode \<Rightarrow> u32 \<Rightarrow> u32" where
  "rtfsDirInodeGetLoadedBlockCowNewLpa di block_index =
     (case rtfsDirInodeFindLoadedBlock di block_index of None \<Rightarrow> INVALID_LPA | Some lb \<Rightarrow> lb_cow_new_lpa lb)"

definition rtfsDirInodeSetLoadedBlockCount :: "RtfsDirInode \<Rightarrow> nat \<Rightarrow> RtfsDirInode" where
  "rtfsDirInodeSetLoadedBlockCount di loaded_block_count =
     (let n = (if loaded_block_count > di_total_block_count di then di_total_block_count di else loaded_block_count)
      in di\<lparr>di_loaded_block_count := n, di_is_fully_loaded := (n \<ge> di_total_block_count di)\<rparr>)"

subsection \<open>Looking up and listing\<close>

definition rtfsDirBuildViewFromDirInode :: "RtfsDirInode \<Rightarrow> RtfsRuntimeInodeView" where
  "rtfsDirBuildViewFromDirInode di = rtfsRuntimeInodeViewInit (di_ino di) (di_parent_ino di) (di_file_type di)"

definition rtfsDirInodeLookup :: "RtfsDirInode \<Rightarrow> u8 list \<Rightarrow> rc + RtfsRuntimeInodeView" where
  "rtfsDirInodeLookup di name =
     (if name = [46] then Inr (rtfsDirBuildViewFromDirInode di)
      else if name = [46, 46] then Inr (rtfsRuntimeInodeViewInit (di_parent_ino di) (di_parent_ino di) (ucast RTFS_FT_DIR))
      else case find (\<lambda>e. me_name e = name) (di_entries di) of
        Some e \<Rightarrow> Inr (rtfsRuntimeInodeViewInit (me_ino e) (di_ino di) (me_file_type e))
      | None \<Rightarrow> Inl ENOENT)"

text \<open>\<^verbatim>\<open>struct dirent\<close> has \<open>sz\<close> bytes; \<open>d_is_dir\<close> is the type \<^verbatim>\<open>DT_DIR\<close> against \<^verbatim>\<open>DT_REG\<close>.\<close>

record dirent =
  d_ino :: u64
  d_off :: nat
  d_reclen :: nat
  d_namlen :: nat
  d_is_dir :: bool
  d_name :: "u8 list"

definition rtfsDirFillDirent :: "nat \<Rightarrow> RtfsRuntimeInodeView \<Rightarrow> u8 list \<Rightarrow> rc + dirent" where
  "rtfsDirFillDirent sz inode_view name =
     (if name = [] \<or> length name > 255 then Inl EINVAL
      else Inr \<lparr>d_ino = rv_ino inode_view, d_off = 0, d_reclen = sz, d_namlen = length name,
                d_is_dir = rtfsInodeIsDirectoryType (rv_file_type inode_view), d_name = name\<rparr>)"

definition rtfsDirGetEntryByIndex :: "nat \<Rightarrow> RtfsDirInode \<Rightarrow> nat \<Rightarrow> rc + dirent" where
  "rtfsDirGetEntryByIndex sz di idx =
     (if idx = 0 then rtfsDirFillDirent sz (rtfsDirBuildViewFromDirInode di) [46]
      else if idx = 1 then
        rtfsDirFillDirent sz (rtfsRuntimeInodeViewInit (di_parent_ino di) (di_parent_ino di) (ucast RTFS_FT_DIR)) [46, 46]
      else if idx - 2 \<ge> length (di_entries di) then Inl ENOENT
      else let e = di_entries di ! (idx - 2) in
        rtfsDirFillDirent sz \<lparr>rv_ino = me_ino e, rv_parent_ino = di_ino di, rv_file_type = me_file_type e\<rparr> (me_name e))"

text \<open>The loop: \<open>n\<close> more records fit into the buffer. The result is the error, or the idx behind the last record and the records.\<close>

fun rtfsDirReadLoop :: "nat \<Rightarrow> RtfsDirInode \<Rightarrow> nat \<Rightarrow> nat \<Rightarrow> dirent list \<Rightarrow> rc + nat \<times> dirent list" where
  "rtfsDirReadLoop sz di 0 entry_index out = Inr (entry_index, out)"
| "rtfsDirReadLoop sz di (Suc n) entry_index out =
     (case rtfsDirGetEntryByIndex sz di entry_index of
        Inl ENOENT \<Rightarrow> Inr (entry_index, out)
      | Inl ret \<Rightarrow> Inl ret
      | Inr current \<Rightarrow> rtfsDirReadLoop sz di n (entry_index + 1) (out @ [current\<lparr>d_off := (entry_index + 1) * sz\<rparr>]))"

definition rtfsDirInodeReadEntries :: "nat \<Rightarrow> RtfsDirInode \<Rightarrow> nat \<Rightarrow> nat \<Rightarrow> rc + dirent list \<times> nat" where
  "rtfsDirInodeReadEntries sz di offset count' =
     (case rtfsDirReadLoop sz di (count' div sz) (offset div sz) [] of
        Inl ret \<Rightarrow> Inl ret
      | Inr (entry_index, out) \<Rightarrow> Inr (out, entry_index * sz))"

end
