(* ===== verification/Dir_Inode.thy ===== *)
theory Dir_Inode
  imports Dir_Block
begin

unbundle bit_operations_syntax

text \<open>
  Changing a directory and committing it: the second part of \<^verbatim>\<open>src/src/dir_inode/dir_inode.c\<close>, with
  \<^verbatim>\<open>dir_inode_resolver.c\<close>. A call takes the state of the file system and the run-time directory and returns both.
  \<^verbatim>\<open>disk_inode\<close> is the node block behind \<open>di_handle\<close>. The test hooks are not set.
\<close>

subsection \<open>Metadata, and taking an entry out of its table\<close>

abbreviation nb_put_node :: "file_system_manager \<Rightarrow> nat \<Rightarrow> block \<Rightarrow> file_system_manager" where
  "nb_put_node fs a b \<equiv> nb_set fs a ((nb_entry fs a)\<lparr>nbe_node := b\<rparr>)"

definition rtfsDirInodeTouchMetadata :: "file_system_manager \<Rightarrow> RtfsDirInode \<Rightarrow> (file_system_manager \<times> RtfsDirInode) option" where
  "rtfsDirInodeTouchMetadata fs di =
     (let di = di\<lparr>di_is_dirty := True, di_mtime := di_mtime di + 1\<rparr> in
      case di_handle di of
        None \<Rightarrow> Some (fs, di)
      | Some h \<Rightarrow> do {
          let b = put64 (put64 (nb_node fs h) I_dentry_num (ucast (di_dentry_num di))) I_mtime (di_mtime di);
          fs \<leftarrow> nodeBlockCacheEntryHandleMarkDirty (nb_put_node fs h b) h;
          Some (fs, di)
        })"

text \<open>The first loaded block with the given index, changed.\<close>

fun dir_update_block :: "u32 \<Rightarrow> (RtfsLoadedDirBlock \<Rightarrow> RtfsLoadedDirBlock) \<Rightarrow> RtfsLoadedDirBlock list \<Rightarrow> RtfsLoadedDirBlock list" where
  "dir_update_block block_index f [] = []"
| "dir_update_block block_index f (lb # lbs) =
     (if lb_block_index lb = block_index then f lb # lbs else lb # dir_update_block block_index f lbs)"

definition rtfsDirInodeClearRegularEntryBacking :: "RtfsDirInode \<Rightarrow> RtfsMemDirEntry \<Rightarrow> RtfsDirInode" where
  "rtfsDirInodeClearRegularEntryBacking di e =
     di\<lparr>di_loaded_blocks := dir_update_block (me_source_block_index e)
          (\<lambda>lb. lb\<lparr>lb_block := dir_clear_entry RtfsDentryBlock (lb_block lb) (unat (me_source_slot_index e)) (length (me_name e)),
                   lb_is_dirty := True\<rparr>)
          (di_loaded_blocks di)\<rparr>"

definition rtfsDirInodeClearInlineEntryBacking :: "file_system_manager \<Rightarrow> RtfsDirInode \<Rightarrow> RtfsMemDirEntry \<Rightarrow> file_system_manager" where
  "rtfsDirInodeClearInlineEntryBacking fs di e =
     (case di_handle di of
        Some h \<Rightarrow> if di_inline di
          then nb_put_node fs h (dir_clear_entry RtfsInlineDentry (nb_node fs h) (unat (me_source_slot_index e)) (length (me_name e)))
          else fs
      | None \<Rightarrow> fs)"

text \<open>The last entry moves to the place of the removed one.\<close>

definition rtfsDirInodeRemoveEntryInternal ::
  "file_system_manager \<Rightarrow> RtfsDirInode \<Rightarrow> u8 list \<Rightarrow> (rc \<times> file_system_manager \<times> RtfsDirInode) option" where
  "rtfsDirInodeRemoveEntryInternal fs di name =
     (if name = [] \<or> length name > 255 then Some (ENAMETOOLONG, fs, di)
      else case find (\<lambda>i. me_name (di_entries di ! i) = name) [0..<length (di_entries di)] of
        None \<Rightarrow> Some (ENOENT, fs, di)
      | Some i \<Rightarrow> do {
          let removed_entry = di_entries di ! i;
          let (fs, di) = (if me_source_is_inline removed_entry then (rtfsDirInodeClearInlineEntryBacking fs di removed_entry, di)
                          else (fs, rtfsDirInodeClearRegularEntryBacking di removed_entry));
          let entries = (if i + 1 < length (di_entries di) then (di_entries di)[i := last (di_entries di)] else di_entries di);
          let di = di\<lparr>di_entries := butlast entries,
                      di_dentry_num := (if di_dentry_num di > 0 then di_dentry_num di - 1 else di_dentry_num di)\<rparr>;
          (fs, di) \<leftarrow> rtfsDirInodeTouchMetadata fs di;
          Some (RC0, fs, di)
        })"

definition rtfsDirInodeRemoveEntry ::
  "file_system_manager \<Rightarrow> RtfsDirInode \<Rightarrow> u8 list \<Rightarrow> (rc \<times> file_system_manager \<times> RtfsDirInode) option" where
  "rtfsDirInodeRemoveEntry fs di name = rtfsDirInodeRemoveEntryInternal fs di name"

subsection \<open>A new block\<close>

definition rtfsDirInodeInitCreatedDirectNode :: "block \<Rightarrow> block" where
  "rtfsDirInodeInitCreatedDirectNode node = fold (\<lambda>i b. put32 b (4 * i) INVALID_LPA) [0..<1020] node"

definition rtfsDirInodeInitCreatedIndirectNode :: "block \<Rightarrow> block" where
  "rtfsDirInodeInitCreatedIndirectNode node = fold (\<lambda>i b. put32 b (4 * i) INVALID_NID) [0..<1020] node"

text \<open>
  How the attempt to hook a new LPA into the map ends: \<open>GROW_ROLLBACK\<close> is the jump to \<^verbatim>\<open>rollback_new_lpa\<close>, \<open>GROW_RETURN\<close> the
  \<^verbatim>\<open>return ENOSPC\<close> that leaves the LPA allocated.
\<close>

datatype dir_grow = GROW_ATTACHED | GROW_ROLLBACK | GROW_RETURN

text \<open>The child of node \<open>p\<close> at byte \<open>slot\<close>, created if it is missing. The handle of a created node is kept.\<close>

definition rtfsDirGrowChild ::
  "block \<Rightarrow> file_system_manager \<Rightarrow> u64 \<Rightarrow> nat \<Rightarrow> nat \<Rightarrow> u32 \<Rightarrow> u32 \<Rightarrow> (block \<Rightarrow> block) \<Rightarrow>
    (bool \<times> nat option \<times> file_system_manager) option" where
  "rtfsDirGrowChild junk fs ino p slot noffset parent_nid init =
     (if get32 (nb_node fs p) slot = INVALID_NID then do {
        (created_handle, fs) \<leftarrow> nodeBlockCacheHelperCreateNodeEntry junk junk fs (ucast ino) noffset parent_nid;
        case created_handle of
          None \<Rightarrow> Some (False, None, fs)
        | Some c \<Rightarrow>
            let fs = nb_put_node fs c (init (nb_node fs c))
            in Some (True, created_handle, nb_put32 fs p slot (get32 (nb_node fs c) NF_nid))
      } else Some (True, None, fs))"

text \<open>The same for a child of a map node, which a creation makes dirty.\<close>

definition rtfsDirGrowInnerChild ::
  "block \<Rightarrow> file_system_manager \<Rightarrow> u64 \<Rightarrow> nat \<Rightarrow> u32 \<Rightarrow> (block \<Rightarrow> block) \<Rightarrow> (bool \<times> nat option \<times> file_system_manager) option" where
  "rtfsDirGrowInnerChild junk fs ino p slot init = do {
     (ok, created_handle, fs) \<leftarrow> rtfsDirGrowChild junk fs ino p (N_slot slot) 0 (get32 (nb_node fs p) NF_nid) init;
     fs \<leftarrow> (if created_handle \<noteq> None then nodeBlockCacheEntryHandleMarkDirty fs p else Some fs);
     Some (ok, created_handle, fs)
   }"

definition rtfsDirGrowStore ::
  "file_system_manager \<Rightarrow> nat option \<Rightarrow> nat option \<Rightarrow> u32 \<Rightarrow> u32 \<Rightarrow> (dir_grow \<times> file_system_manager) option" where
  "rtfsDirGrowStore fs created_handle direct_handle local_index new_lpa =
     (case direct_handle of
        None \<Rightarrow> do { fs \<leftarrow> nodeBlockCacheEntryHandleDestroy fs created_handle; Some (GROW_ROLLBACK, fs) }
      | Some d \<Rightarrow> do {
          fs \<leftarrow> nodeBlockCacheEntryHandleMarkDirty (nb_put32 fs d (N_slot local_index) new_lpa) d;
          fs \<leftarrow> nodeBlockCacheEntryHandleDestroy fs direct_handle;
          fs \<leftarrow> nodeBlockCacheEntryHandleDestroy fs created_handle;
          Some (GROW_ATTACHED, fs)
        })"

text \<open>The direct node in a slot of node \<open>p\<close>; the handle of \<open>p\<close> is dropped once the direct node is held.\<close>

definition rtfsDirGrowStoreVia ::
  "file_system_manager \<Rightarrow> nat option \<Rightarrow> nat option \<Rightarrow> u32 \<Rightarrow> u32 \<Rightarrow> u32 \<Rightarrow> (dir_grow \<times> file_system_manager) option" where
  "rtfsDirGrowStoreVia fs created_handle indirect_handle direct_node_slot local_index new_lpa =
     (case indirect_handle of
        None \<Rightarrow> do { fs \<leftarrow> nodeBlockCacheEntryHandleDestroy fs created_handle; Some (GROW_ROLLBACK, fs) }
      | Some p \<Rightarrow> do {
          (direct_handle, fs) \<leftarrow> nodeBlockCacheGet fs (get32 (nb_node fs p) (N_slot direct_node_slot));
          fs \<leftarrow> nodeBlockCacheEntryHandleDestroy fs indirect_handle;
          rtfsDirGrowStore fs created_handle direct_handle local_index new_lpa
        })"

definition rtfsDirGrowDirect ::
  "(nat \<Rightarrow> block) \<Rightarrow> file_system_manager \<Rightarrow> u64 \<Rightarrow> nat \<Rightarrow> u32 \<Rightarrow> u32 \<Rightarrow> (dir_grow \<times> file_system_manager) option" where
  "rtfsDirGrowDirect junk fs ino h direct_block_index new_lpa =
     (let direct_node_slot = direct_block_index div DEF_ADDRS_PER_BLOCK;
          local_index = direct_block_index mod DEF_ADDRS_PER_BLOCK in do {
        (ok, created_handle, fs) \<leftarrow> rtfsDirGrowChild (junk 0) fs ino h (I_nid direct_node_slot)
           (DEF_ADDRS_PER_INODE + direct_node_slot + 1) (ucast ino) rtfsDirInodeInitCreatedDirectNode;
        if \<not> ok then Some (GROW_ROLLBACK, fs)
        else do {
          (direct_handle, fs) \<leftarrow> nodeBlockCacheGet fs (get32 (nb_node fs h) (I_nid direct_node_slot));
          rtfsDirGrowStore fs created_handle direct_handle local_index new_lpa
        }
      })"

definition rtfsDirGrowIndirect ::
  "(nat \<Rightarrow> block) \<Rightarrow> file_system_manager \<Rightarrow> u64 \<Rightarrow> nat \<Rightarrow> u32 \<Rightarrow> u32 \<Rightarrow> (dir_grow \<times> file_system_manager) option" where
  "rtfsDirGrowIndirect junk fs ino h indirect_block_index new_lpa =
     (let indirect_node_slot = indirect_block_index div (NIDS_PER_BLOCK * DEF_ADDRS_PER_BLOCK);
          indirect_node_offset = indirect_block_index mod (NIDS_PER_BLOCK * DEF_ADDRS_PER_BLOCK);
          direct_node_slot = indirect_node_offset div DEF_ADDRS_PER_BLOCK;
          local_index = indirect_node_offset mod DEF_ADDRS_PER_BLOCK in do {
        (ok, created_handle, fs) \<leftarrow> rtfsDirGrowChild (junk 0) fs ino h (I_nid (2 + indirect_node_slot))
           (NODE_IND1_BLOCK + indirect_node_slot) (ucast ino) rtfsDirInodeInitCreatedIndirectNode;
        fs \<leftarrow> nodeBlockCacheEntryHandleDestroy fs created_handle;
        if \<not> ok then Some (GROW_ROLLBACK, fs)
        else do {
          (indirect_handle, fs) \<leftarrow> nodeBlockCacheGet fs (get32 (nb_node fs h) (I_nid (2 + indirect_node_slot)));
          case indirect_handle of
            None \<Rightarrow> Some (GROW_ROLLBACK, fs)
          | Some p \<Rightarrow> do {
              (ok, created_handle, fs) \<leftarrow> rtfsDirGrowInnerChild (junk 1) fs ino p direct_node_slot rtfsDirInodeInitCreatedDirectNode;
              fs \<leftarrow> nodeBlockCacheEntryHandleDestroy fs indirect_handle;
              if \<not> ok then Some (GROW_ROLLBACK, fs)
              else do {
                (indirect_handle, fs) \<leftarrow> nodeBlockCacheGet fs (get32 (nb_node fs h) (I_nid (2 + indirect_node_slot)));
                rtfsDirGrowStoreVia fs created_handle indirect_handle direct_node_slot local_index new_lpa
              }
            }
        }
      })"

text \<open>The double indirect node is held while its child is fetched, then dropped.\<close>

definition rtfsDirGrowLevel1 ::
  "file_system_manager \<Rightarrow> nat \<Rightarrow> u32 \<Rightarrow> (nat option \<times> file_system_manager) option" where
  "rtfsDirGrowLevel1 fs dind first_level_slot = do {
     (level1_handle, fs) \<leftarrow> nodeBlockCacheGet fs (get32 (nb_node fs dind) (N_slot first_level_slot));
     fs \<leftarrow> nodeBlockCacheEntryHandleDestroy fs (Some dind);
     Some (level1_handle, fs)
   }"

definition rtfsDirGrowDoubleIndirectStore ::
  "(nat \<Rightarrow> block) \<Rightarrow> file_system_manager \<Rightarrow> u64 \<Rightarrow> nat \<Rightarrow> u32 \<Rightarrow> u32 \<Rightarrow> u32 \<Rightarrow> u32 \<Rightarrow> (dir_grow \<times> file_system_manager) option" where
  "rtfsDirGrowDoubleIndirectStore junk fs ino h first_level_slot second_level_slot dind_local_index new_lpa = do {
     (ind_handle, fs) \<leftarrow> nodeBlockCacheGet fs (get32 (nb_node fs h) (I_nid 4));
     case ind_handle of
       None \<Rightarrow> Some (GROW_ROLLBACK, fs)
     | Some dind \<Rightarrow> do {
         (level1_handle, fs) \<leftarrow> rtfsDirGrowLevel1 fs dind first_level_slot;
         case level1_handle of
           None \<Rightarrow> Some (GROW_RETURN, fs)
         | Some p \<Rightarrow> do {
             (ok, created_handle, fs) \<leftarrow> rtfsDirGrowInnerChild (junk 2) fs ino p second_level_slot rtfsDirInodeInitCreatedDirectNode;
             fs \<leftarrow> nodeBlockCacheEntryHandleDestroy fs level1_handle;
             if \<not> ok then Some (GROW_ROLLBACK, fs)
             else do {
               (dind_handle, fs) \<leftarrow> nodeBlockCacheGet fs (get32 (nb_node fs h) (I_nid 4));
               (level1_handle, fs) \<leftarrow> (case dind_handle of None \<Rightarrow> Some (None, fs)
                                         | Some dind \<Rightarrow> rtfsDirGrowLevel1 fs dind first_level_slot);
               rtfsDirGrowStoreVia fs created_handle level1_handle second_level_slot dind_local_index new_lpa
             }
           }
       }
   }"

definition rtfsDirGrowDoubleIndirect ::
  "(nat \<Rightarrow> block) \<Rightarrow> file_system_manager \<Rightarrow> u64 \<Rightarrow> nat \<Rightarrow> u32 \<Rightarrow> u32 \<Rightarrow> (dir_grow \<times> file_system_manager) option" where
  "rtfsDirGrowDoubleIndirect junk fs ino h double_indirect_block_index new_lpa =
     (let first_level_slot = double_indirect_block_index div (NIDS_PER_BLOCK * DEF_ADDRS_PER_BLOCK);
          double_indirect_offset = double_indirect_block_index mod (NIDS_PER_BLOCK * DEF_ADDRS_PER_BLOCK);
          second_level_slot = double_indirect_offset div DEF_ADDRS_PER_BLOCK;
          dind_local_index = double_indirect_offset mod DEF_ADDRS_PER_BLOCK in do {
        (ok, created_handle, fs) \<leftarrow> rtfsDirGrowChild (junk 0) fs ino h (I_nid 4) NODE_DIND_BLOCK (ucast ino)
           rtfsDirInodeInitCreatedIndirectNode;
        fs \<leftarrow> nodeBlockCacheEntryHandleDestroy fs created_handle;
        if \<not> ok then Some (GROW_ROLLBACK, fs)
        else do {
          (dind_handle, fs) \<leftarrow> nodeBlockCacheGet fs (get32 (nb_node fs h) (I_nid 4));
          case dind_handle of
            None \<Rightarrow> Some (GROW_ROLLBACK, fs)
          | Some dind \<Rightarrow> do {
              (ok, created_handle, fs) \<leftarrow> rtfsDirGrowInnerChild (junk 1) fs ino dind first_level_slot rtfsDirInodeInitCreatedIndirectNode;
              fs \<leftarrow> nodeBlockCacheEntryHandleDestroy fs created_handle;
              fs \<leftarrow> nodeBlockCacheEntryHandleDestroy fs dind_handle;
              if \<not> ok then Some (GROW_ROLLBACK, fs)
              else rtfsDirGrowDoubleIndirectStore junk fs ino h first_level_slot second_level_slot dind_local_index new_lpa
            }
        }
      })"

definition rtfsDirGrowAttach ::
  "(nat \<Rightarrow> block) \<Rightarrow> file_system_manager \<Rightarrow> u64 \<Rightarrow> nat \<Rightarrow> u32 \<Rightarrow> u32 \<Rightarrow> (dir_grow \<times> file_system_manager) option" where
  "rtfsDirGrowAttach junk fs ino h new_block_index new_lpa =
     (if new_block_index < DEF_ADDRS_PER_INODE then Some (GROW_ATTACHED, nb_put32 fs h (I_addr new_block_index) new_lpa)
      else if new_block_index < DEF_ADDRS_PER_INODE + 2 * DEF_ADDRS_PER_BLOCK then
        rtfsDirGrowDirect junk fs ino h (new_block_index - DEF_ADDRS_PER_INODE) new_lpa
      else if new_block_index < DEF_ADDRS_PER_INODE + 2 * DEF_ADDRS_PER_BLOCK + 2 * NIDS_PER_BLOCK * DEF_ADDRS_PER_BLOCK then
        rtfsDirGrowIndirect junk fs ino h (new_block_index - DEF_ADDRS_PER_INODE - 2 * DEF_ADDRS_PER_BLOCK) new_lpa
      else if new_block_index < DEF_ADDRS_PER_INODE + 2 * DEF_ADDRS_PER_BLOCK + 2 * NIDS_PER_BLOCK * DEF_ADDRS_PER_BLOCK +
                NIDS_PER_BLOCK * NIDS_PER_BLOCK * DEF_ADDRS_PER_BLOCK then
        rtfsDirGrowDoubleIndirect junk fs ino h
          (new_block_index - DEF_ADDRS_PER_INODE - 2 * DEF_ADDRS_PER_BLOCK - 2 * NIDS_PER_BLOCK * DEF_ADDRS_PER_BLOCK) new_lpa
      else Some (GROW_ROLLBACK, fs))"

text \<open>\<^verbatim>\<open>rtfsDirInodeGrowRegularBlock\<close> as far as the new block is known to the directory. The result names its index and its LPA.\<close>

definition rtfsDirGrowBlock ::
  "(nat \<Rightarrow> block) \<Rightarrow> file_system_manager \<Rightarrow> RtfsDirInode \<Rightarrow> (rc \<times> u32 \<times> u32 \<times> file_system_manager \<times> RtfsDirInode) option" where
  "rtfsDirGrowBlock junk fs di =
     (case di_handle di of
        None \<Rightarrow> Some (ENOSPC, 0, INVALID_LPA, fs, di)
      | Some h \<Rightarrow> do {
          let new_block_index = of_nat (di_total_block_count di);
          (new_lpa, fs) \<leftarrow> superManagerAllocDataLpa fs;
          if new_lpa = INVALID_LPA then Some (ENOSPC, new_block_index, new_lpa, fs, di)
          else do {
            let sit_op = sitOperatorInit fs;
            (outcome, fs) \<leftarrow> rtfsDirGrowAttach junk fs (di_ino di) h new_block_index new_lpa;
            case outcome of
              GROW_RETURN \<Rightarrow> Some (ENOSPC, new_block_index, new_lpa, fs, di)
            | GROW_ROLLBACK \<Rightarrow> do {
                fs \<leftarrow> sitInvalidateLpa fs sit_op new_lpa;
                Some (ENOSPC, new_block_index, new_lpa, fs, di)
              }
            | GROW_ATTACHED \<Rightarrow> do {
                let i_size = get64 (nb_node fs h) I_size + 4096;
                let fs = nb_put_node fs h (put64 (nb_node fs h) I_size i_size);
                let di = di\<lparr>di_size := i_size, di_total_block_count := di_total_block_count di + 1, di_is_fully_loaded := False\<rparr>;
                let (ret, di) = rtfsDirInodeRememberLoadedBlock di (\<lambda>_. 0) new_block_index new_lpa;
                Some (ret, new_block_index, new_lpa, fs, di)
              }
          }
        })"

definition rtfsDirGrowUndo ::
  "file_system_manager \<Rightarrow> RtfsDirInode \<Rightarrow> u32 \<Rightarrow> u32 \<Rightarrow> (file_system_manager \<times> RtfsDirInode) option" where
  "rtfsDirGrowUndo fs di new_block_index new_lpa =
     (case di_handle di of
        None \<Rightarrow> Some (fs, di)
      | Some h \<Rightarrow> do {
          let b = (if new_block_index < DEF_ADDRS_PER_INODE then put32 (nb_node fs h) (I_addr new_block_index) INVALID_LPA
                   else nb_node fs h);
          let i_size = get64 b I_size - 4096;
          let di = di\<lparr>di_size := i_size, di_total_block_count := di_total_block_count di - 1\<rparr>;
          let di = di\<lparr>di_is_fully_loaded := (di_loaded_block_count di \<ge> di_total_block_count di)\<rparr>;
          let fs = nb_put_node fs h (put64 b I_size i_size);
          fs \<leftarrow> sitInvalidateLpa fs (sitOperatorInit fs) new_lpa;
          Some (fs, di)
        })"

text \<open>The first loaded block with a run of free slots: its place in the list and the first slot of the run.\<close>

fun dir_find_place :: "nat \<Rightarrow> RtfsLoadedDirBlock list \<Rightarrow> (nat \<times> nat) option" where
  "dir_find_place slot_count [] = None"
| "dir_find_place slot_count (lb # lbs) =
     (case dir_free_run RtfsDentryBlock (lb_block lb) slot_count 0 of
        Some start_slot \<Rightarrow> Some (0, start_slot)
      | None \<Rightarrow> map_option (\<lambda>(k, start_slot). (Suc k, start_slot)) (dir_find_place slot_count lbs))"

definition rtfsDirPlaceRegular ::
  "file_system_manager \<Rightarrow> RtfsDirInode \<Rightarrow> nat \<Rightarrow> nat \<Rightarrow> u8 list \<Rightarrow> u64 \<Rightarrow> u8 \<Rightarrow> (rc \<times> file_system_manager \<times> RtfsDirInode) option" where
  "rtfsDirPlaceRegular fs di k start_slot name child_ino child_type = do {
     let lb = di_loaded_blocks di ! k;
     let b = dir_put_entry RtfsDentryBlock (lb_block lb) start_slot name child_ino child_type;
     let (ret, di) = rtfsDirInodeAddEntryInternal (di\<lparr>di_loaded_blocks := (di_loaded_blocks di)[k := lb\<lparr>lb_block := b\<rparr>]\<rparr>) name child_ino child_type;
     if ret \<noteq> RC0 then
       Some (ret, fs, di\<lparr>di_loaded_blocks := (di_loaded_blocks di)[k := lb\<lparr>lb_block :=
              dir_clear_entry RtfsDentryBlock b start_slot (length name)\<rparr>]\<rparr>)
     else do {
       let di = dir_set_source di False (lb_block_index lb) (of_nat start_slot);
       let di = di\<lparr>di_loaded_blocks := (di_loaded_blocks di)[k := lb\<lparr>lb_block := b, lb_is_dirty := True\<rparr>]\<rparr>;
       (fs, di) \<leftarrow> rtfsDirInodeTouchMetadata fs di;
       Some (RC0, fs, di)
     }
   }"

text \<open>
  \<^verbatim>\<open>rtfsDirInodeAddRegularBacking\<close> and \<^verbatim>\<open>rtfsDirInodeGrowRegularBlock\<close> call each other; here the second is unfolded in the first.
\<close>

partial_function (option) rtfsDirInodeAddRegularBacking ::
  "(nat \<Rightarrow> block) \<Rightarrow> file_system_manager \<Rightarrow> RtfsDirInode \<Rightarrow> u8 list \<Rightarrow> u64 \<Rightarrow> u8 \<Rightarrow> (rc \<times> file_system_manager \<times> RtfsDirInode) option" where
  "rtfsDirInodeAddRegularBacking junk fs di name child_ino child_type =
     (if name = [] \<or> length name > 255 then Some (ENAMETOOLONG, fs, di)
      else if rtfsDirInodeFindEntry di name \<noteq> None then Some (EEXIST, fs, di)
      else case dir_find_place (GET_DENTRY_SLOTS (length name)) (di_loaded_blocks di) of
        Some (k, start_slot) \<Rightarrow> rtfsDirPlaceRegular fs di k start_slot name child_ino child_type
      | None \<Rightarrow> do {
          (ret, new_block_index, new_lpa, fs, di) \<leftarrow> rtfsDirGrowBlock junk fs di;
          if ret \<noteq> RC0 then Some (ret, fs, di)
          else do {
            (ret, fs, di) \<leftarrow> rtfsDirInodeAddRegularBacking junk fs di name child_ino child_type;
            if ret \<noteq> RC0 then do {
              (fs, di) \<leftarrow> rtfsDirGrowUndo fs di new_block_index new_lpa;
              Some (ret, fs, di)
            } else Some (RC0, fs, di)
          }
        })"

definition rtfsDirInodeGrowRegularBlock ::
  "(nat \<Rightarrow> block) \<Rightarrow> file_system_manager \<Rightarrow> RtfsDirInode \<Rightarrow> u8 list option \<Rightarrow> u64 \<Rightarrow> u8 \<Rightarrow> (rc \<times> file_system_manager \<times> RtfsDirInode) option" where
  "rtfsDirInodeGrowRegularBlock junk fs di name child_ino child_type = do {
     (ret, new_block_index, new_lpa, fs, di) \<leftarrow> rtfsDirGrowBlock junk fs di;
     if ret \<noteq> RC0 then Some (ret, fs, di)
     else case name of
       None \<Rightarrow> Some (RC0, fs, di\<lparr>di_loaded_blocks := butlast (di_loaded_blocks di) @ [(last (di_loaded_blocks di))\<lparr>lb_is_dirty := True\<rparr>]\<rparr>)
     | Some name \<Rightarrow> do {
         (ret, fs, di) \<leftarrow> rtfsDirInodeAddRegularBacking junk fs di name child_ino child_type;
         if ret \<noteq> RC0 then do {
           (fs, di) \<leftarrow> rtfsDirGrowUndo fs di new_block_index new_lpa;
           Some (ret, fs, di)
         } else Some (RC0, fs, di)
       }
   }"

subsection \<open>Inline directories\<close>

text \<open>One step of the copy of the inline table: the next free slot of the block, the block, and the new slot of every old one.\<close>

definition rtfsDirConvertStep :: "block \<Rightarrow> nat \<Rightarrow> nat \<times> block \<times> (nat \<Rightarrow> u16) \<Rightarrow> rc \<times> nat \<times> block \<times> (nat \<Rightarrow> u16)" where
  "rtfsDirConvertStep node i = (\<lambda>(regular_slot, rb, slot_map).
     let src_entry = getDirEntry node (dl_entry RtfsInlineDentry i); name_len = unat (de_name_len src_entry) in
     if name_len = 0 \<or> name_len > 255 then (EINVAL, regular_slot, rb, slot_map)
     else let slot_count = GET_DENTRY_SLOTS name_len in
       if i + slot_count > 194 \<or> regular_slot + slot_count > 214 then (ENOSPC, regular_slot, rb, slot_map)
       else let rb = putDirEntry rb (dl_entry RtfsDentryBlock regular_slot) src_entry;
                rb = fold (\<lambda>slot rb. blk_copy (rtfsDirInodeSetDentryBit rb (dl_bitmap RtfsDentryBlock) (regular_slot + slot))
                              (dl_slot RtfsDentryBlock (regular_slot + slot)) (blk_bytes node (dl_slot RtfsInlineDentry (i + slot)) 8))
                       [0..<slot_count] rb
            in (RC0, regular_slot + slot_count, rb, slot_map(i := of_nat regular_slot)))"

abbreviation (input) UINT16_MAX :: u16 where "UINT16_MAX \<equiv> 0xFFFF"

definition rtfsDirInodeConvertInlineToRegular ::
  "(nat \<Rightarrow> block) \<Rightarrow> file_system_manager \<Rightarrow> RtfsDirInode \<Rightarrow> (rc \<times> file_system_manager \<times> RtfsDirInode) option" where
  "rtfsDirInodeConvertInlineToRegular junk fs di =
     (case di_handle di of
        None \<Rightarrow> Some (EINVAL, fs, di)
      | Some h \<Rightarrow>
          if \<not> di_inline di \<or> di_backing_kind di \<noteq> RTFS_DIR_BACKING_INLINE then Some (EINVAL, fs, di)
          else let old = nb_node fs h;
                   (ret, _, regular_block, slot_map) =
                     dir_scan RtfsInlineDentry old (rtfsDirConvertStep old) 0 (0, \<lambda>_. 0, \<lambda>_. UINT16_MAX) in
            if ret \<noteq> RC0 then Some (ret, fs, di)
            else do {
              let b = old(I_inline := old I_inline AND NOT RTFS_INLINE_DENTRY);
              let b = put64 (blk_fill (blk_fill b 332 3728 0) 4060 20 0) I_size 0;
              (ret, fs, di') \<leftarrow> rtfsDirInodeGrowRegularBlock junk (nb_put_node fs h b)
                 (di\<lparr>di_size := 0, di_total_block_count := 0, di_loaded_block_count := 0, di_is_fully_loaded := True\<rparr>) None (ucast INVALID_NID) 0;
              if ret \<noteq> RC0 then
                let b = (nb_node fs h)(I_inline := old I_inline);
                    b = put64 b I_size (get64 old I_size);
                    b = blk_copy (blk_copy b 332 (blk_bytes old 332 3728)) 4060 (blk_bytes old 4060 20)
                in Some (ret, nb_put_node fs h b,
                         di'\<lparr>di_size := get64 old I_size, di_total_block_count := di_total_block_count di,
                             di_loaded_block_count := di_loaded_block_count di, di_is_fully_loaded := di_is_fully_loaded di\<rparr>)
              else do {
                let loaded_block = (last (di_loaded_blocks di'))\<lparr>lb_block := regular_block, lb_is_dirty := True\<rparr>;
                let di = di'\<lparr>di_loaded_blocks := butlast (di_loaded_blocks di') @ [loaded_block],
                    di_backing_kind := RTFS_DIR_BACKING_BLOCKS, di_inline := False,
                    di_loaded_block_count := di_total_block_count di', di_is_fully_loaded := True,
                    di_entries := map (\<lambda>e.
                      if \<not> me_source_is_inline e \<or> me_source_slot_index e \<ge> 194 \<or> slot_map (unat (me_source_slot_index e)) = UINT16_MAX then e
                      else e\<lparr>me_source_is_inline := False, me_source_block_index := lb_block_index loaded_block,
                             me_source_slot_index := slot_map (unat (me_source_slot_index e))\<rparr>) (di_entries di')\<rparr>;
                fs \<leftarrow> nodeBlockCacheEntryHandleMarkDirty fs h;
                Some (RC0, fs, di)
              }
            })"

definition rtfsDirInodeAddInlineBacking ::
  "(nat \<Rightarrow> block) \<Rightarrow> file_system_manager \<Rightarrow> RtfsDirInode \<Rightarrow> u8 list \<Rightarrow> u64 \<Rightarrow> u8 \<Rightarrow> (rc \<times> file_system_manager \<times> RtfsDirInode) option" where
  "rtfsDirInodeAddInlineBacking junk fs di name child_ino child_type =
     (case di_handle di of
        None \<Rightarrow> Some (EINVAL, fs, di)
      | Some h \<Rightarrow>
          if \<not> di_inline di then Some (EINVAL, fs, di)
          else if name = [] \<or> length name > 255 then Some (ENAMETOOLONG, fs, di)
          else if rtfsDirInodeFindEntry di name \<noteq> None then Some (EEXIST, fs, di)
          else case dir_free_run RtfsInlineDentry (nb_node fs h) (GET_DENTRY_SLOTS (length name)) 0 of
            None \<Rightarrow> do {
              (ret, fs, di) \<leftarrow> rtfsDirInodeConvertInlineToRegular junk fs di;
              if ret \<noteq> RC0 then Some (ret, fs, di)
              else rtfsDirInodeAddRegularBacking junk fs di name child_ino child_type
            }
          | Some start_slot \<Rightarrow> do {
              let b = dir_put_entry RtfsInlineDentry (nb_node fs h) start_slot name child_ino child_type;
              let (ret, di) = rtfsDirInodeAddEntryInternal di name child_ino child_type;
              if ret \<noteq> RC0 then Some (ret, nb_put_node fs h (dir_clear_entry RtfsInlineDentry b start_slot (length name)), di)
              else do {
                (fs, di) \<leftarrow> rtfsDirInodeTouchMetadata (nb_put_node fs h b) (dir_set_source di True 0 (of_nat start_slot));
                Some (RC0, fs, di)
              }
            })"

definition rtfsDirInodeAddEntry ::
  "(nat \<Rightarrow> block) \<Rightarrow> file_system_manager \<Rightarrow> RtfsDirInode \<Rightarrow> u8 list \<Rightarrow> RtfsRuntimeInodeView \<Rightarrow> (rc \<times> file_system_manager \<times> RtfsDirInode) option" where
  "rtfsDirInodeAddEntry junk fs di name child_view =
     (if di_backing_kind di = RTFS_DIR_BACKING_INLINE then
        rtfsDirInodeAddInlineBacking junk fs di name (rv_ino child_view) (rv_file_type child_view)
      else if di_backing_kind di = RTFS_DIR_BACKING_BLOCKS then
        rtfsDirInodeAddRegularBacking junk fs di name (rv_ino child_view) (rv_file_type child_view)
      else if (case di_handle di of Some h \<Rightarrow> nb_node fs h I_inline AND RTFS_INLINE_DENTRY = 0 | None \<Rightarrow> False) then
        rtfsDirInodeAddRegularBacking junk fs di name (rv_ino child_view) (rv_file_type child_view)
      else do {
        let (ret, di) = rtfsDirInodeAddEntryInternal di name (rv_ino child_view) (rv_file_type child_view);
        if ret = RC0 then do { (fs, di) \<leftarrow> rtfsDirInodeTouchMetadata fs di; Some (RC0, fs, di) }
        else Some (ret, fs, di)
      })"

subsection \<open>Writing back\<close>

text \<open>The loop over the loaded blocks: \<open>done'\<close> are those it is through with. The result of the block write is dropped.\<close>

fun rtfsDirWriteLoop ::
  "os_env \<Rightarrow> file_system_manager \<Rightarrow> RtfsDirInode \<Rightarrow> RtfsLoadedDirBlock list \<Rightarrow> RtfsLoadedDirBlock list \<Rightarrow>
    (rc \<times> file_system_manager \<times> RtfsDirInode) option" where
  "rtfsDirWriteLoop os fs di done' [] = Some (RC0, fs, di\<lparr>di_loaded_blocks := done'\<rparr>)"
| "rtfsDirWriteLoop os fs di done' (lb # lbs) =
     (if \<not> lb_is_dirty lb then rtfsDirWriteLoop os fs di (done' @ [lb]) lbs
      else do {
        (new_lpa, fs) \<leftarrow> superManagerAllocDataLpa fs;
        if new_lpa = INVALID_LPA then Some (ENOSPC, fs, di\<lparr>di_loaded_blocks := done' @ lb # lbs\<rparr>)
        else
          let buffer = blockBufferCopyContentFromBuf (blockBufferInit (os_junk os 0)) (lb_block lb);
              fs = fs\<lparr>fs_dev := snd (blockBufferWriteToLpaSync buffer (fs_dev fs) new_lpa)\<rparr>
          in rtfsDirWriteLoop os fs di (done' @ [lb\<lparr>lb_cow_new_lpa := new_lpa, lb_has_pending_cow_relocation := True\<rparr>]) lbs
      })"

definition rtfsDirInodeWriteDirtyRegularBlocksCow ::
  "os_env \<Rightarrow> file_system_manager \<Rightarrow> RtfsDirInode \<Rightarrow> (rc \<times> file_system_manager \<times> RtfsDirInode) option" where
  "rtfsDirInodeWriteDirtyRegularBlocksCow os fs di = rtfsDirWriteLoop os fs di [] (di_loaded_blocks di)"

definition rtfsDirInodeWritebackContentCow ::
  "os_env \<Rightarrow> file_system_manager \<Rightarrow> RtfsDirInode \<Rightarrow> (rc \<times> file_system_manager \<times> RtfsDirInode) option" where
  "rtfsDirInodeWritebackContentCow os fs di = rtfsDirInodeWriteDirtyRegularBlocksCow os fs di"

text \<open>The direct node behind the inode, an indirect or the double indirect node, if every node on the way is cached.\<close>

definition rtfsDirMapNode :: "file_system_manager \<Rightarrow> u32 \<Rightarrow> (nat option \<times> file_system_manager) option" where
  "rtfsDirMapNode fs nid = (if nid = INVALID_NID then Some (None, fs) else nodeBlockCacheGet fs nid)"

text \<open>The child of a held node, which is dropped when the child is held.\<close>

definition rtfsDirMapChild :: "file_system_manager \<Rightarrow> nat option \<Rightarrow> u32 \<Rightarrow> (nat option \<times> file_system_manager) option" where
  "rtfsDirMapChild fs handle slot =
     (case handle of
        None \<Rightarrow> Some (None, fs)
      | Some p \<Rightarrow> do {
          (child, fs) \<leftarrow> rtfsDirMapNode fs (get32 (nb_node fs p) (N_slot slot));
          fs \<leftarrow> nodeBlockCacheEntryHandleDestroy fs handle;
          Some (child, fs)
        })"

text \<open>
  The walk that the two functions below share: the error, or the direct node (held) and the offset in it;
  \<open>Inr None\<close> stands for an address in the inode.
\<close>

definition rtfsDirMapWalk ::
  "file_system_manager \<Rightarrow> nat \<Rightarrow> u32 \<Rightarrow> ((rc + (nat \<times> u32) option) \<times> file_system_manager) option" where
  "rtfsDirMapWalk fs h block_index =
     (let result = (\<lambda>(direct_handle, fs) off. Some (case direct_handle of None \<Rightarrow> Inl ENOENT | Some d \<Rightarrow> Inr (Some (d, off)), fs)) in
      if block_index < DEF_ADDRS_PER_INODE then Some (Inr None, fs)
      else let direct_block_index = block_index - DEF_ADDRS_PER_INODE in
        if direct_block_index < 2 * DEF_ADDRS_PER_BLOCK then do {
          direct \<leftarrow> rtfsDirMapNode fs (get32 (nb_node fs h) (I_nid (direct_block_index div DEF_ADDRS_PER_BLOCK)));
          result direct (direct_block_index mod DEF_ADDRS_PER_BLOCK)
        } else let indirect_block_index = direct_block_index - 2 * DEF_ADDRS_PER_BLOCK in
          if indirect_block_index < 2 * NIDS_PER_BLOCK * DEF_ADDRS_PER_BLOCK then do {
            let indirect_node_slot = indirect_block_index div (NIDS_PER_BLOCK * DEF_ADDRS_PER_BLOCK);
            let indirect_node_offset = indirect_block_index mod (NIDS_PER_BLOCK * DEF_ADDRS_PER_BLOCK);
            (indirect, fs) \<leftarrow> rtfsDirMapNode fs (get32 (nb_node fs h) (I_nid (2 + indirect_node_slot)));
            direct \<leftarrow> rtfsDirMapChild fs indirect (indirect_node_offset div DEF_ADDRS_PER_BLOCK);
            result direct (indirect_node_offset mod DEF_ADDRS_PER_BLOCK)
          } else let double_indirect_block_index = indirect_block_index - 2 * NIDS_PER_BLOCK * DEF_ADDRS_PER_BLOCK in
            if double_indirect_block_index < NIDS_PER_BLOCK * NIDS_PER_BLOCK * DEF_ADDRS_PER_BLOCK then do {
              let first_level_slot = double_indirect_block_index div (NIDS_PER_BLOCK * DEF_ADDRS_PER_BLOCK);
              let double_indirect_offset = double_indirect_block_index mod (NIDS_PER_BLOCK * DEF_ADDRS_PER_BLOCK);
              (dind, fs) \<leftarrow> rtfsDirMapNode fs (get32 (nb_node fs h) (I_nid 4));
              (level1, fs) \<leftarrow> rtfsDirMapChild fs dind first_level_slot;
              direct \<leftarrow> rtfsDirMapChild fs level1 (double_indirect_offset div DEF_ADDRS_PER_BLOCK);
              result direct (double_indirect_offset mod DEF_ADDRS_PER_BLOCK)
            } else Some (Inl ENOSYS, fs))"

definition rtfsDirInodeCanRelocateOneRegularBlock ::
  "file_system_manager \<Rightarrow> RtfsDirInode \<Rightarrow> u32 \<Rightarrow> (rc \<times> file_system_manager) option" where
  "rtfsDirInodeCanRelocateOneRegularBlock fs di block_index =
     (case di_handle di of
        None \<Rightarrow> Some (EINVAL, fs)
      | Some h \<Rightarrow> do {
          (r, fs) \<leftarrow> rtfsDirMapWalk fs h block_index;
          case r of
            Inl ret \<Rightarrow> Some (ret, fs)
          | Inr None \<Rightarrow> Some (RC0, fs)
          | Inr (Some (d, _)) \<Rightarrow> do { fs \<leftarrow> nodeBlockCacheEntryHandleDestroy fs (Some d); Some (RC0, fs) }
        })"

definition rtfsDirInodeRelocateOneRegularBlock ::
  "file_system_manager \<Rightarrow> RtfsDirInode \<Rightarrow> u32 \<Rightarrow> u32 \<Rightarrow> (rc \<times> file_system_manager) option" where
  "rtfsDirInodeRelocateOneRegularBlock fs di block_index new_lpa =
     (case di_handle di of
        None \<Rightarrow> Some (EINVAL, fs)
      | Some h \<Rightarrow> do {
          (r, fs) \<leftarrow> rtfsDirMapWalk fs h block_index;
          case r of
            Inl ret \<Rightarrow> Some (ret, fs)
          | Inr None \<Rightarrow> do {
              fs \<leftarrow> nodeBlockCacheEntryHandleMarkDirty (nb_put32 fs h (I_addr block_index) new_lpa) h;
              Some (RC0, fs)
            }
          | Inr (Some (d, off)) \<Rightarrow> do {
              fs \<leftarrow> nodeBlockCacheEntryHandleMarkDirty (nb_put32 fs d (N_slot off) new_lpa) d;
              fs \<leftarrow> nodeBlockCacheEntryHandleDestroy fs (Some d);
              Some (RC0, fs)
            }
        })"

definition lb_pending :: "RtfsLoadedDirBlock \<Rightarrow> bool" where
  "lb_pending lb \<longleftrightarrow> lb_has_pending_cow_relocation lb \<and> lb_cow_new_lpa lb \<noteq> INVALID_LPA"

fun rtfsDirCanRelocateLoop :: "file_system_manager \<Rightarrow> RtfsDirInode \<Rightarrow> RtfsLoadedDirBlock list \<Rightarrow> (rc \<times> file_system_manager) option" where
  "rtfsDirCanRelocateLoop fs di [] = Some (RC0, fs)"
| "rtfsDirCanRelocateLoop fs di (lb # lbs) =
     (if \<not> lb_pending lb then rtfsDirCanRelocateLoop fs di lbs
      else do {
        (ret, fs) \<leftarrow> rtfsDirInodeCanRelocateOneRegularBlock fs di (lb_block_index lb);
        if ret \<noteq> RC0 then Some (ret, fs) else rtfsDirCanRelocateLoop fs di lbs
      })"

fun rtfsDirRelocateLoop ::
  "os_env \<Rightarrow> file_system_manager \<Rightarrow> RtfsDirInode \<Rightarrow> RtfsLoadedDirBlock list \<Rightarrow> RtfsLoadedDirBlock list \<Rightarrow>
    (rc \<times> file_system_manager \<times> RtfsDirInode) option" where
  "rtfsDirRelocateLoop os fs di done' [] = Some (RC0, fs, di\<lparr>di_loaded_blocks := done'\<rparr>)"
| "rtfsDirRelocateLoop os fs di done' (lb # lbs) =
     (if \<not> lb_pending lb then rtfsDirRelocateLoop os fs di (done' @ [lb]) lbs
      else do {
        (ret, fs) \<leftarrow> rtfsDirInodeRelocateOneRegularBlock fs di (lb_block_index lb) (lb_cow_new_lpa lb);
        if ret \<noteq> RC0 then Some (ret, fs, di\<lparr>di_loaded_blocks := done' @ lb # lbs\<rparr>)
        else
          let fs = srmapUtilsWriteSrmapOfData (os_junk os 0) fs (lb_cow_new_lpa lb) (ucast (di_ino di)) (lb_block_index lb);
              lb' = lb\<lparr>lb_lpa := lb_cow_new_lpa lb, lb_cow_new_lpa := INVALID_LPA, lb_has_pending_cow_relocation := False,
                       lb_is_dirty := False\<rparr>
          in rtfsDirRelocateLoop os fs di (done' @ [lb']) lbs
      })"

definition rtfsDirInodeApplyPendingRegularBlockRelocations ::
  "os_env \<Rightarrow> file_system_manager \<Rightarrow> RtfsDirInode \<Rightarrow> (rc \<times> file_system_manager \<times> RtfsDirInode) option" where
  "rtfsDirInodeApplyPendingRegularBlockRelocations os fs di = do {
     (ret, fs) \<leftarrow> rtfsDirCanRelocateLoop fs di (di_loaded_blocks di);
     if ret \<noteq> RC0 then Some (ret, fs, di)
     else do {
       (ret, fs, di) \<leftarrow> rtfsDirRelocateLoop os fs di [] (di_loaded_blocks di);
       if ret \<noteq> RC0 then Some (ret, fs, di)
       else do {
         fs \<leftarrow> srmapUtilsWriteDirtySrmapSync (os_accepts os) fs (os_srmapOrder os fs);
         Some (RC0, fs, di)
       }
     }
   }"

definition rtfsDirInodeApplyPendingCowRelocations ::
  "os_env \<Rightarrow> file_system_manager \<Rightarrow> RtfsDirInode \<Rightarrow> (rc \<times> file_system_manager \<times> RtfsDirInode) option" where
  "rtfsDirInodeApplyPendingCowRelocations os fs di = rtfsDirInodeApplyPendingRegularBlockRelocations os fs di"

definition rtfsDirInodeCollectPendingDataCowOldLpas :: "RtfsDirInode \<Rightarrow> nat \<Rightarrow> rc \<times> u32 list" where
  "rtfsDirInodeCollectPendingDataCowOldLpas di max_count =
     rtfsFileCollectOldLpas (map lb_lpa (filter lb_pending (di_loaded_blocks di))) max_count []"

definition rtfsDirInodeCloneJournalContainer :: "JournalContainer \<Rightarrow> JournalContainer" where
  "rtfsDirInodeCloneJournalContainer src =
     (let dst = journalContainerInit;
          dst = fold (\<lambda>e j. journalContainerAppendSuperBlockJournalEntry j e) (superBlockJournal src) dst;
          dst = fold (\<lambda>e j. journalContainerAppendNatJournalEntry j e) (natJournal src) dst
      in fold (\<lambda>e j. journalContainerAppendSitJournalEntry j e) (sitJournal src) dst)"

definition rtfsDirInodeSubmitJournal :: "JournalProcessEnv \<Rightarrow> JournalContainer \<Rightarrow> rc \<times> u64 \<times> JournalProcessEnv" where
  "rtfsDirInodeSubmitJournal env journal =
     (let (tx_id, env) = journalProcessEnvAllocTxId env
      in (RC0, tx_id, journalProcessEnvCommitJournal env (journalContainerSetTxId journal tx_id)))"

text \<open>The nodes, as in the commit of a file; the old LPAs are not filtered here.\<close>

definition rtfsDirCommitNodes :: "os_env \<Rightarrow> file_system_manager \<Rightarrow> (rc \<times> u32 list \<times> file_system_manager) option" where
  "rtfsDirCommitNodes os fs = do {
     (ret, fs) \<leftarrow> nodeBlockCacheWritebackDirtyContentCow fs;
     if ret \<noteq> RC0 then Some (ret, [], fs)
     else
       let (ret, old_node_lpas) =
         (if nbc_cur (node_cache fs) > 0 then
            (case nodeBlockCacheCollectPendingCowRelocations fs (os_nodeOrder os fs) (nbc_cur (node_cache fs)) of
               Inl e \<Rightarrow> (e, [])
             | Inr rels \<Rightarrow> (RC0, map rel_oldLpa rels))
          else (RC0, []))
       in if ret \<noteq> RC0 then Some (ret, [], fs)
          else do {
            fs \<leftarrow> nodeBlockCacheApplyPendingCowRelocations (os_junk os 0) (os_accepts os) fs (os_nodeOrder os fs) (os_srmapOrder os fs);
            Some (RC0, old_node_lpas, fs)
          }
   }"

definition rtfsDirInodeCommitCowWritebackWithTxId ::
  "os_env \<Rightarrow> fs_world \<Rightarrow> RtfsDirInode \<Rightarrow> (rc \<times> u64 \<times> fs_world \<times> RtfsDirInode) option" where
  "rtfsDirInodeCommitCowWritebackWithTxId os w di = do {
     (ret, g, fs) \<leftarrow> cowReclaimRegistryDrainCompleted (w_registry w) (w_fs w);
     let w = w\<lparr>w_fs := fs, w_registry := g\<rparr>;
     if ret \<noteq> RC0 then Some (ret, 0, w, di)
     else do {
       (ret, fs, di) \<leftarrow> rtfsDirInodeWritebackContentCow os (w_fs w) di;
       let w = w\<lparr>w_fs := fs\<rparr>;
       if ret \<noteq> RC0 then Some (ret, 0, w, di)
       else
         let (ret, old_data_lpas) =
           (if length (di_loaded_blocks di) > 0 then rtfsDirInodeCollectPendingDataCowOldLpas di (length (di_loaded_blocks di))
            else (RC0, []))
         in if ret \<noteq> RC0 then Some (ret, 0, w, di)
         else do {
           (ret, fs, di) \<leftarrow> rtfsDirInodeApplyPendingCowRelocations os (w_fs w) di;
           let w = w\<lparr>w_fs := fs\<rparr>;
           if ret \<noteq> RC0 then Some (ret, 0, w, di)
           else do {
             (ret, old_node_lpas, fs) \<leftarrow> rtfsDirCommitNodes os (w_fs w);
             let w = w\<lparr>w_fs := fs\<rparr>;
             if ret \<noteq> RC0 then Some (ret, 0, w, di)
             else if journalContainerIsEmpty (cur_journal fs) then Some (RC0, 0, w, di\<lparr>di_is_dirty := False\<rparr>)
             else do {
               let to_commit = rtfsDirInodeCloneJournalContainer (cur_journal fs);
               let (ret, tx_id, env) = rtfsDirInodeSubmitJournal (w_env w) to_commit;
               let (_, g, fs) = cowReclaimRegistryRegister (w_registry w) (fs\<lparr>cur_journal := journalContainerInit\<rparr>) tx_id
                  old_data_lpas old_node_lpas [];
               Some (RC0, tx_id, w\<lparr>w_fs := fs, w_registry := g, w_env := env\<rparr>, di\<lparr>di_is_dirty := False\<rparr>)
             }
           }
         }
     }
   }"

definition rtfsDirInodeCommitCowWriteback :: "os_env \<Rightarrow> fs_world \<Rightarrow> RtfsDirInode \<Rightarrow> (rc \<times> fs_world \<times> RtfsDirInode) option" where
  "rtfsDirInodeCommitCowWriteback os w di =
     map_option (\<lambda>(ret, _, w, di). (ret, w, di)) (rtfsDirInodeCommitCowWritebackWithTxId os w di)"

subsection \<open>Loading a directory\<close>

datatype RtfsDirInodeBuildMode = RTFS_DIR_BUILD_METADATA_ONLY | RTFS_DIR_BUILD_INLINE_IF_POSSIBLE | RTFS_DIR_BUILD_ON_DEMAND
  | RTFS_DIR_BUILD_EAGER | RTFS_DIR_BUILD_OTHER int

definition rtfsDirInodeBuildModeIsSupported :: "RtfsDirInodeBuildMode \<Rightarrow> bool" where
  "rtfsDirInodeBuildModeIsSupported mode =
     (case mode of RTFS_DIR_BUILD_METADATA_ONLY \<Rightarrow> True | RTFS_DIR_BUILD_INLINE_IF_POSSIBLE \<Rightarrow> True | RTFS_DIR_BUILD_ON_DEMAND \<Rightarrow> True
      | _ \<Rightarrow> False)"

text \<open>A node that the helper reports as loaded without a handle would be dereferenced.\<close>

definition rtfsDirGetCachedNodeByNid ::
  "block \<Rightarrow> file_system_manager \<Rightarrow> u32 \<Rightarrow> u32 \<Rightarrow> (rc \<times> nat \<times> file_system_manager) option" where
  "rtfsDirGetCachedNodeByNid junk fs nid parent_nid =
     (if nid = INVALID_NID then Some (EINVAL, 0, fs)
      else do {
        (ret, handle, fs) \<leftarrow> nodeBlockCacheHelperGetNodeEntry junk junk fs nid parent_nid;
        if ret \<noteq> RC0 then Some (EIO, 0, fs)
        else do { a \<leftarrow> handle; Some (RC0, a, fs) }
      })"

text \<open>
  One level of the lookup: the node \<open>nid\<close> is fetched, the handle \<open>held\<close> of its parent (none for the inode) is dropped, and
  \<open>cont\<close> goes on. A missing node is a hole of the directory.
\<close>

definition rtfsDirResolveStep ::
  "block \<Rightarrow> file_system_manager \<Rightarrow> nat option \<Rightarrow> u32 \<Rightarrow> u32 \<Rightarrow>
    (file_system_manager \<Rightarrow> nat \<Rightarrow> (rc \<times> u32 \<times> file_system_manager) option) \<Rightarrow> (rc \<times> u32 \<times> file_system_manager) option" where
  "rtfsDirResolveStep junk fs held nid parent_nid cont =
     (if nid = INVALID_NID then do {
        fs \<leftarrow> nodeBlockCacheEntryHandleDestroy fs held;
        Some (RC0, INVALID_LPA, fs)
      } else do {
        (ret, a, fs) \<leftarrow> rtfsDirGetCachedNodeByNid junk fs nid parent_nid;
        fs \<leftarrow> nodeBlockCacheEntryHandleDestroy fs held;
        if ret \<noteq> RC0 then Some (ret, INVALID_LPA, fs) else cont fs a
      })"

definition rtfsDirResolveLeaf :: "u32 \<Rightarrow> file_system_manager \<Rightarrow> nat \<Rightarrow> (rc \<times> u32 \<times> file_system_manager) option" where
  "rtfsDirResolveLeaf direct_node_offset fs d = do {
     let lpa = get32 (nb_node fs d) (N_slot direct_node_offset);
     fs \<leftarrow> nodeBlockCacheEntryHandleDestroy fs (Some d);
     Some (RC0, lpa, fs)
   }"

definition rtfsDirResolveDataLpaByBlockIndex ::
  "block \<Rightarrow> file_system_manager \<Rightarrow> u32 \<Rightarrow> nat \<Rightarrow> u32 \<Rightarrow> (rc \<times> u32 \<times> file_system_manager) option" where
  "rtfsDirResolveDataLpaByBlockIndex junk fs inode_nid h block_index =
     (if inode_nid = INVALID_NID then Some (EINVAL, INVALID_LPA, fs)
      else if block_index < DEF_ADDRS_PER_INODE then Some (RC0, get32 (nb_node fs h) (I_addr block_index), fs)
      else let direct_block_index = block_index - DEF_ADDRS_PER_INODE in
        if direct_block_index < 2 * DEF_ADDRS_PER_BLOCK then
          rtfsDirResolveStep junk fs None (get32 (nb_node fs h) (I_nid (direct_block_index div DEF_ADDRS_PER_BLOCK))) inode_nid
            (rtfsDirResolveLeaf (direct_block_index mod DEF_ADDRS_PER_BLOCK))
        else let indirect_block_index = direct_block_index - 2 * DEF_ADDRS_PER_BLOCK in
          if indirect_block_index < 2 * NIDS_PER_BLOCK * DEF_ADDRS_PER_BLOCK then
            let indirect_node_slot = indirect_block_index div (NIDS_PER_BLOCK * DEF_ADDRS_PER_BLOCK);
                indirect_node_offset = indirect_block_index mod (NIDS_PER_BLOCK * DEF_ADDRS_PER_BLOCK);
                indirect_nid = get32 (nb_node fs h) (I_nid (2 + indirect_node_slot)) in
            rtfsDirResolveStep junk fs None indirect_nid inode_nid (\<lambda>fs p.
              rtfsDirResolveStep junk fs (Some p) (get32 (nb_node fs p) (N_slot (indirect_node_offset div DEF_ADDRS_PER_BLOCK)))
                (get32 (nb_node fs h) (I_nid (2 + indirect_node_slot)))
                (rtfsDirResolveLeaf (indirect_node_offset mod DEF_ADDRS_PER_BLOCK)))
          else let double_indirect_block_index = indirect_block_index - 2 * NIDS_PER_BLOCK * DEF_ADDRS_PER_BLOCK in
            if double_indirect_block_index < NIDS_PER_BLOCK * NIDS_PER_BLOCK * DEF_ADDRS_PER_BLOCK then
              let first_level_slot = double_indirect_block_index div (NIDS_PER_BLOCK * DEF_ADDRS_PER_BLOCK);
                  double_indirect_offset = double_indirect_block_index mod (NIDS_PER_BLOCK * DEF_ADDRS_PER_BLOCK) in
              rtfsDirResolveStep junk fs None (get32 (nb_node fs h) (I_nid 4)) inode_nid (\<lambda>fs dind.
                rtfsDirResolveStep junk fs (Some dind) (get32 (nb_node fs dind) (N_slot first_level_slot)) (get32 (nb_node fs h) (I_nid 4))
                  (\<lambda>fs p. rtfsDirResolveStep junk fs (Some p)
                    (get32 (nb_node fs p) (N_slot (double_indirect_offset div DEF_ADDRS_PER_BLOCK))) (get32 (nb_node fs p) NF_nid)
                    (rtfsDirResolveLeaf (double_indirect_offset mod DEF_ADDRS_PER_BLOCK))))
            else Some (ENOSYS, INVALID_LPA, fs))"

definition rtfsDirResolverReadBlock :: "comm_dev \<Rightarrow> u32 \<Rightarrow> rc \<times> block" where
  "rtfsDirResolverReadBlock dev lpa = comm_read dev (LPA_TO_LBA32 lpa)"

text \<open>The loop over the blocks; a hole is passed over without counting it as loaded.\<close>

fun rtfsDirLoadLoop ::
  "block \<Rightarrow> file_system_manager \<Rightarrow> u64 \<Rightarrow> nat \<Rightarrow> RtfsDirInode \<Rightarrow> nat list \<Rightarrow> (rc \<times> file_system_manager \<times> RtfsDirInode) option" where
  "rtfsDirLoadLoop junk fs ino h di [] = Some (RC0, fs, di)"
| "rtfsDirLoadLoop junk fs ino h di (i # is) = do {
     (ret, lpa, fs) \<leftarrow> rtfsDirResolveDataLpaByBlockIndex junk fs (ucast ino) h (of_nat i);
     if ret \<noteq> RC0 then Some (ret, fs, di)
     else if lpa = INVALID_LPA then rtfsDirLoadLoop junk fs ino h di is
     else
       let (io_ret, buffer) = rtfsDirResolverReadBlock (fs_dev fs) lpa in
       if io_ret \<noteq> RC0 then Some (EIO, fs, di)
       else
         let (ret, di) = rtfsDirInodeAppendDentryBlockAt di buffer (of_nat i) lpa in
         if ret \<noteq> RC0 then Some (ret, fs, di)
         else rtfsDirLoadLoop junk fs ino h (rtfsDirInodeSetLoadedBlockCount di (i + 1)) is
   }"

definition rtfsDirInodeLoadNextBlocks ::
  "block \<Rightarrow> file_system_manager \<Rightarrow> u64 \<Rightarrow> RtfsDirInode \<Rightarrow> nat \<Rightarrow> (rc \<times> file_system_manager \<times> RtfsDirInode) option" where
  "rtfsDirInodeLoadNextBlocks junk fs ino di max_blocks = do {
     (node_handle, fs) \<leftarrow> nodeBlockCacheGet fs (ucast ino);
     case node_handle of
       None \<Rightarrow> Some (ENOENT, fs, di)
     | Some h \<Rightarrow> do {
         let start_block = rtfsDirInodeGetLoadedBlockCount di;
         let end_block = min (start_block + max_blocks) (rtfsDirInodeGetTotalBlockCount di);
         (ret, fs, di) \<leftarrow>
           (if nb_node fs h I_inline AND RTFS_INLINE_DENTRY \<noteq> 0 \<or> start_block \<ge> rtfsDirInodeGetTotalBlockCount di then Some (RC0, fs, di)
            else rtfsDirLoadLoop junk fs ino h di [start_block..<end_block]);
         fs \<leftarrow> nodeBlockCacheEntryHandleDestroy fs node_handle;
         Some (ret, fs, di)
       }
   }"

definition rtfsDirInodeResolveOnDemand ::
  "block \<Rightarrow> file_system_manager \<Rightarrow> u64 \<Rightarrow> RtfsDirInode \<Rightarrow> (rc \<times> file_system_manager \<times> RtfsDirInode) option" where
  "rtfsDirInodeResolveOnDemand junk fs ino di =
     (if rtfsDirInodeIsFullyLoaded di then Some (RC0, fs, di) else rtfsDirInodeLoadNextBlocks junk fs ino di 1)"

definition rtfsDirInodeResolveNext ::
  "block \<Rightarrow> file_system_manager \<Rightarrow> u64 \<Rightarrow> RtfsDirInode \<Rightarrow> (rc \<times> file_system_manager \<times> RtfsDirInode) option" where
  "rtfsDirInodeResolveNext junk fs ino di = rtfsDirInodeResolveOnDemand junk fs ino di"

definition rtfsDirInodeResolve ::
  "block \<Rightarrow> file_system_manager \<Rightarrow> u64 \<Rightarrow> RtfsDirInodeBuildMode \<Rightarrow> (rc \<times> RtfsDirInode option \<times> file_system_manager) option" where
  "rtfsDirInodeResolve junk fs ino mode =
     (if \<not> rtfsDirInodeBuildModeIsSupported mode then Some (ENOSYS, None, fs)
      else do {
        (ret, fs) \<leftarrow> rtfsInodeLoaderEnsureCached junk fs ino;
        if ret \<noteq> RC0 then Some (ret, None, fs)
        else do {
          (ret, di, fs) \<leftarrow> rtfsDirInodeBuild fs ino;
          case di of
            None \<Rightarrow> Some (ret, None, fs)
          | Some di \<Rightarrow>
              if mode = RTFS_DIR_BUILD_ON_DEMAND then do {
                (ret, fs, di) \<leftarrow> rtfsDirInodeResolveOnDemand junk fs ino di;
                if ret \<noteq> RC0 then do { fs \<leftarrow> rtfsDirInodePut fs di; Some (ret, None, fs) }
                else Some (RC0, Some di, fs)
              } else Some (ret, Some di, fs)
        }
      })"

end
