(* ===== verification/Dir_Table.thy ===== *)
theory Dir_Table
  imports Dir_Inode
begin

text \<open>
  What a table of entries means, and that the operations of \<open>Dir_Block\<close> on the bytes are set operations on it. An item is the slot, the
  name, the inode number and the type of an entry. \<open>dir_repr L b E\<close> says that the bytes of \<open>b\<close> hold exactly the
  items \<open>E\<close>: every item has its entry and its name, items do not share slots, and the bitmap marks exactly their slots.
\<close>

unbundle bit_operations_syntax

type_synonym dir_item = "nat \<times> u8 list \<times> u32 \<times> u8"

abbreviation it_slot :: "dir_item \<Rightarrow> nat" where "it_slot \<equiv> fst"
abbreviation it_name :: "dir_item \<Rightarrow> u8 list" where "it_name e \<equiv> fst (snd e)"
abbreviation it_ino :: "dir_item \<Rightarrow> u32" where "it_ino e \<equiv> fst (snd (snd e))"
abbreviation it_type :: "dir_item \<Rightarrow> u8" where "it_type e \<equiv> snd (snd (snd e))"

definition it_slots :: "dir_item \<Rightarrow> nat set" where
  "it_slots e = {it_slot e..<it_slot e + GET_DENTRY_SLOTS (length (it_name e))}"

definition dir_name_ok :: "u8 list \<Rightarrow> bool" where
  "dir_name_ok name \<longleftrightarrow> name \<noteq> [] \<and> length name \<le> 255 \<and> 0 \<notin> set name"

definition dir_item_ok :: "dentry_layout \<Rightarrow> dir_item \<Rightarrow> bool" where
  "dir_item_ok L e \<longleftrightarrow> dir_name_ok (it_name e) \<and> it_slot e + GET_DENTRY_SLOTS (length (it_name e)) \<le> dl_n L"

definition dir_item_at :: "dentry_layout \<Rightarrow> block \<Rightarrow> dir_item \<Rightarrow> bool" where
  "dir_item_at L b e \<longleftrightarrow>
     de_ino (getDirEntry b (dl_entry L (it_slot e))) = it_ino e \<and>
     de_name_len (getDirEntry b (dl_entry L (it_slot e))) = of_nat (length (it_name e)) \<and>
     de_file_type (getDirEntry b (dl_entry L (it_slot e))) = it_type e \<and>
     blk_bytes b (dl_slot L (it_slot e)) (length (it_name e)) = it_name e"

definition dir_repr :: "dentry_layout \<Rightarrow> block \<Rightarrow> dir_item set \<Rightarrow> bool" where
  "dir_repr L b E \<longleftrightarrow>
     (\<forall>e\<in>E. dir_item_ok L e \<and> dir_item_at L b e) \<and>
     (\<forall>e\<in>E. \<forall>e'\<in>E. e \<noteq> e' \<longrightarrow> it_slots e \<inter> it_slots e' = {}) \<and>
     (\<forall>i<dl_n L. dl_bit L b i \<longleftrightarrow> (\<exists>e\<in>E. i \<in> it_slots e))"

text \<open>The three parts of a table follow each other.\<close>

definition dl_wf :: "dentry_layout \<Rightarrow> bool" where
  "dl_wf L \<longleftrightarrow> dl_bitmap L + (dl_n L + 7) div 8 \<le> dl_dentry L \<and> dl_dentry L + 11 * dl_n L \<le> dl_name L"

lemma dl_wf [simp]: "dl_wf RtfsInlineDentry" "dl_wf RtfsDentryBlock"
  by (simp_all add: dl_wf_def RtfsInlineDentry_def RtfsDentryBlock_def)

subsection \<open>Slots\<close>

lemma slots_bounds: "8 * GET_DENTRY_SLOTS n \<ge> n" "8 * GET_DENTRY_SLOTS n < n + 8" "0 < n \<Longrightarrow> 0 < GET_DENTRY_SLOTS n"
  "n \<le> 255 \<Longrightarrow> GET_DENTRY_SLOTS n \<le> 32"
  by (simp_all add: GET_DENTRY_SLOTS_def)

lemma it_slots_nonempty: "dir_item_ok L e \<Longrightarrow> it_slot e \<in> it_slots e"
  by (auto simp: it_slots_def dir_item_ok_def dir_name_ok_def slots_bounds)

lemma dir_repr_unique:
  assumes "dir_repr L b E" "e \<in> E" "e' \<in> E" "i \<in> it_slots e" "i \<in> it_slots e'"
  shows "e = e'"
  using assms unfolding dir_repr_def by blast

lemma dir_repr_inj: "dir_repr L b E \<Longrightarrow> e \<in> E \<Longrightarrow> e' \<in> E \<Longrightarrow> it_slot e = it_slot e' \<Longrightarrow> e = e'"
  by (rule dir_repr_unique [of L b E _ _ "it_slot e"]) (auto simp: dir_repr_def intro: it_slots_nonempty, metis it_slots_nonempty)

subsection \<open>Bits\<close>

lemma bitmap_bit: "rtfsDirIsBitmapBitSet b bm i \<longleftrightarrow> bit (b (bm + i div 8)) (i mod 8)"
  by (simp add: rtfsDirIsBitmapBitSet_def push_bit_eq_mult and_exp_eq_0_iff_not_bit)

lemma slot_bit: "bit (push_bit (i mod 8) 1 :: u8) k \<longleftrightarrow> k = i mod 8"
  by (auto simp: bit_exp_iff)

lemma div_mod_neq: "i \<noteq> (j :: nat) \<Longrightarrow> i div 8 \<noteq> j div 8 \<or> i mod 8 \<noteq> j mod 8"
  by (metis div_mult_mod_eq)

lemma set_bit_bit: "rtfsDirIsBitmapBitSet (rtfsDirInodeSetDentryBit b bm i) bm j \<longleftrightarrow> j = i \<or> rtfsDirIsBitmapBitSet b bm j"
  using div_mod_neq [of i j]
  by (cases "i = j") (auto simp: bitmap_bit rtfsDirInodeSetDentryBit_def bit_or_iff slot_bit simp del: push_bit_of_1)

lemma clear_bit_bit: "rtfsDirIsBitmapBitSet (rtfsDirInodeClearDentryBit b bm i) bm j \<longleftrightarrow> j \<noteq> i \<and> rtfsDirIsBitmapBitSet b bm j"
  using div_mod_neq [of i j]
  by (cases "i = j")
    (auto simp: bitmap_bit rtfsDirInodeClearDentryBit_def bit_and_iff bit_not_iff slot_bit simp del: push_bit_of_1 dest: bit_imp_le_length)

lemma bitmap_cong: "b (bm + i div 8) = b' (bm + i div 8) \<Longrightarrow> rtfsDirIsBitmapBitSet b bm i = rtfsDirIsBitmapBitSet b' bm i"
  by (simp add: rtfsDirIsBitmapBitSet_def)

lemma set_bits:
  "rtfsDirIsBitmapBitSet (fold (\<lambda>i b. rtfsDirInodeSetDentryBit b bm (s + i)) [0..<k] b) bm j \<longleftrightarrow>
     s \<le> j \<and> j < s + k \<or> rtfsDirIsBitmapBitSet b bm j"
  by (induction k) (auto simp: set_bit_bit)

lemma set_bits_frame:
  "x < bm \<or> bm + (s + k + 7) div 8 \<le> x \<Longrightarrow> fold (\<lambda>i b. rtfsDirInodeSetDentryBit b bm (s + i)) [0..<k] b x = b x"
proof (induction k)
  case (Suc k)
  have "(s + k + 7) div 8 \<le> (s + Suc k + 7) div 8" "(s + k) div 8 < (s + Suc k + 7) div 8"
    by (simp_all add: div_le_mono)
  with Suc.prems have "x < bm \<or> bm + (s + k + 7) div 8 \<le> x" "x \<noteq> bm + (s + k) div 8"
    by linarith+
  with Suc.IH show ?case by (simp add: rtfsDirInodeSetDentryBit_def)
qed simp

subsection \<open>Entries and names\<close>

lemma getDirEntry_local: "(\<And>i. off \<le> i \<Longrightarrow> i < off + 11 \<Longrightarrow> b i = b' i) \<Longrightarrow> getDirEntry b off = getDirEntry b' off"
  by (simp add: getDirEntry_def get32_def get16_def)

lemma getDirEntry_put: "getDirEntry (putDirEntry b off e) off = e"
proof -
  define b1 where "b1 = put32 (put32 b off (de_hash_code e)) (off + 4) (de_ino e)"
  define b2 where "b2 = put16 b1 (off + 8) (de_name_len e)"
  have "get32 (b2(off + 10 := x)) off = get32 b1 off" "get32 (b2(off + 10 := x)) (off + 4) = get32 b1 (off + 4)"
    "get16 (b2(off + 10 := x)) (off + 8) = get16 b2 (off + 8)" for x
    by (rule c32.cget_local c16.cget_local, simp add: b2_def put16_frame)+
  then show ?thesis
    by (simp add: getDirEntry_def putDirEntry_def flip: b1_def b2_def) (simp add: b1_def b2_def c32.get_put_other)
qed

interpretation cde: byte_codec 11 getDirEntry putDirEntry "\<lambda>_. True"
proof
  show "putDirEntry b off v i = b i" if "i < off \<or> off + 11 \<le> i" for b off v i
    using that by (auto simp: putDirEntry_def put16_frame put32_frame)
qed (simp_all add: getDirEntry_put, rule getDirEntry_local)

lemma blk_bytes_nth: "length (blk_bytes b off n) = n" "i < n \<Longrightarrow> blk_bytes b off n ! i = b (off + i)"
  by (simp_all add: blk_bytes_def)

lemma blk_bytes_cong: "(\<And>i. off \<le> i \<Longrightarrow> i < off + n \<Longrightarrow> b i = b' i) \<Longrightarrow> blk_bytes b off n = blk_bytes b' off n"
  by (simp add: blk_bytes_def)

lemma blk_bytes_append: "blk_bytes b off (m + n) = blk_bytes b off m @ blk_bytes b (off + m) n"
  using upt_add_eq_append [of off "off + m" n] by (simp add: blk_bytes_def add.assoc)

lemma read_name_prefix:
  "m \<le> GET_DENTRY_SLOTS n \<Longrightarrow>
     concat (map (\<lambda>slot. let offset = 8 * slot; copy_len = (if offset + 8 > n then n - offset else 8)
                         in blk_bytes b (dl_slot L (idx + slot)) copy_len) [0..<m]) = blk_bytes b (dl_slot L idx) (min (8 * m) n)"
proof (induction m)
  case (Suc m)
  have "8 * m < n"
    using Suc.prems slots_bounds(2) [of n] by simp
  then have *: "min (8 * m) n = 8 * m" "min (8 * Suc m) n = 8 * m + (if 8 * m + 8 > n then n - 8 * m else 8)"
    by simp_all
  have **: "dl_slot L (idx + m) = dl_slot L idx + 8 * m" by simp
  show ?case
    unfolding * blk_bytes_append ** [symmetric] using Suc by (simp add: * Let_def)
qed (simp add: blk_bytes_def)

lemma dir_read_name_bytes: "dir_read_name L b idx n = blk_bytes b (dl_slot L idx) n"
  using read_name_prefix [of "GET_DENTRY_SLOTS n" n b L idx] slots_bounds(1) [of n] by (simp add: dir_read_name_def min_def)

lemma write_name_prefix:
  "m \<le> GET_DENTRY_SLOTS (length name) \<Longrightarrow>
     fold (\<lambda>slot b. let offset = 8 * slot; copy_len = (if offset + 8 > length name then length name - offset else 8)
                    in blk_copy (blk_fill b (dl_slot L (idx + slot)) 8 0) (dl_slot L (idx + slot)) (take copy_len (drop offset name))) [0..<m] b =
     (\<lambda>x. if dl_slot L idx \<le> x \<and> x < dl_slot L idx + 8 * m
          then (if x - dl_slot L idx < length name then name ! (x - dl_slot L idx) else 0) else b x)"
proof (induction m)
  case (Suc m)
  have *: "min (length name - 8 * m) (if 8 * m + 8 > length name then length name - 8 * m else 8) = min 8 (length name - 8 * m)"
    by simp
  show ?case
    using Suc by (simp add: Let_def blk_copy_def blk_fill_def * fun_eq_iff) (auto simp: nth_append algebra_simps min_def)
qed (auto simp: fun_eq_iff)

lemma dir_write_name_bytes:
  "dir_write_name L b idx name =
     (\<lambda>x. if dl_slot L idx \<le> x \<and> x < dl_slot L idx + 8 * GET_DENTRY_SLOTS (length name)
          then (if x - dl_slot L idx < length name then name ! (x - dl_slot L idx) else 0) else b x)"
  using write_name_prefix [of "GET_DENTRY_SLOTS (length name)" name L idx b] by (simp add: dir_write_name_def)

subsection \<open>Putting an item into a table\<close>

lemma bitmap_byte: "dl_wf L \<Longrightarrow> i < dl_n L \<Longrightarrow> dl_bitmap L + i div 8 < dl_dentry L \<and> dl_bitmap L + i div 8 < dl_name L"
  using div_le_mono [of "i + 8" "dl_n L + 7" 8] div_add_self2 [of 8 i] by (simp add: dl_wf_def)

lemma entry_byte: "dl_wf L \<Longrightarrow> j < dl_n L \<Longrightarrow> dl_entry L j + 11 \<le> dl_name L"
  by (simp add: dl_wf_def)

lemma bitmap_end: "dl_wf L \<Longrightarrow> s + k \<le> dl_n L \<Longrightarrow> dl_bitmap L + (s + k + 7) div 8 \<le> dl_dentry L"
  using div_le_mono [of "s + k + 7" "dl_n L + 7" 8] by (simp add: dl_wf_def)

lemma put_entry_bit:
  assumes "dl_wf L" "i < dl_n L" "s < dl_n L"
  shows "dl_bit L (dir_put_entry L b s name ino ty) i \<longleftrightarrow> s \<le> i \<and> i < s + GET_DENTRY_SLOTS (length name) \<or> dl_bit L b i"
proof -
  have "dl_bit L (dir_put_entry L b s name ino ty) i \<longleftrightarrow> s \<le> i \<and> i < s + GET_DENTRY_SLOTS (length name) \<or>
    dl_bit L (putDirEntry b (dl_entry L s) \<lparr>de_hash_code = 0, de_ino = ucast ino, de_name_len = of_nat (length name), de_file_type = ty\<rparr>) i"
    unfolding dir_put_entry_def Let_def set_bits [symmetric]
    by (rule bitmap_cong) (use bitmap_byte [OF assms(1,2)] in \<open>simp add: dir_write_name_bytes\<close>)
  moreover have "dl_bit L (putDirEntry b (dl_entry L s) e) i = dl_bit L b i" for e
    by (rule bitmap_cong) (use bitmap_byte [OF assms(1,2)] in \<open>simp add: cde.cput_frame\<close>)
  ultimately show ?thesis by simp
qed

lemma put_entry_dentry:
  assumes "dl_wf L" "j < dl_n L" "s + GET_DENTRY_SLOTS (length name) \<le> dl_n L"
  shows "getDirEntry (dir_put_entry L b s name ino ty) (dl_entry L j) =
    (if j = s then \<lparr>de_hash_code = 0, de_ino = ucast ino, de_name_len = of_nat (length name), de_file_type = ty\<rparr>
     else getDirEntry b (dl_entry L j))"
proof -
  let ?e = "\<lparr>de_hash_code = 0, de_ino = ucast ino, de_name_len = of_nat (length name), de_file_type = ty\<rparr>"
  have "getDirEntry (dir_put_entry L b s name ino ty) (dl_entry L j) = getDirEntry (putDirEntry b (dl_entry L s) ?e) (dl_entry L j)"
    by (rule getDirEntry_local)
      (use assms entry_byte [OF assms(1,2)] bitmap_end [OF assms(1,3)] in
        \<open>auto simp: dir_put_entry_def dir_write_name_bytes intro!: set_bits_frame\<close>)
  then show ?thesis
    using cde.get_put_slot [where v = ?e and b = b and base = "dl_dentry L" and i = s and j = j] by (simp add: mult.commute)
qed

lemma put_entry_name:
  assumes "dl_wf L" "s + GET_DENTRY_SLOTS (length name) \<le> dl_n L" "dl_name L \<le> x" "s < dl_n L"
  shows "dir_put_entry L b s name ino ty x =
    (if dl_slot L s \<le> x \<and> x < dl_slot L s + 8 * GET_DENTRY_SLOTS (length name)
     then (if x - dl_slot L s < length name then name ! (x - dl_slot L s) else 0) else b x)"
proof -
  have "dl_bitmap L + (s + GET_DENTRY_SLOTS (length name) + 7) div 8 \<le> x" "dl_entry L s + 11 \<le> x"
    using bitmap_end [OF assms(1,2)] entry_byte [OF assms(1,4)] assms(3) by linarith+
  then show ?thesis
    by (simp add: dir_put_entry_def dir_write_name_bytes set_bits_frame cde.cput_frame)
qed

lemma item_at_cong:
  assumes "getDirEntry b' (dl_entry L (it_slot e)) = getDirEntry b (dl_entry L (it_slot e))"
    and "\<And>x. dl_slot L (it_slot e) \<le> x \<Longrightarrow> x < dl_slot L (it_slot e) + length (it_name e) \<Longrightarrow> b' x = b x"
  shows "dir_item_at L b' e = dir_item_at L b e"
  using assms blk_bytes_cong [of "dl_slot L (it_slot e)" "length (it_name e)" b' b] by (simp add: dir_item_at_def)

text \<open>A range of slots is disjoint from those of an item: neither the entry nor the name bytes overlap.\<close>

lemma item_apart:
  assumes "dir_item_ok L e" "it_slots e \<inter> {s..<s + k} = {}" "0 < k"
  shows "it_slot e \<noteq> s"
    and "dl_slot L (it_slot e) \<le> x \<Longrightarrow> x < dl_slot L (it_slot e) + length (it_name e) \<Longrightarrow> \<not> (dl_slot L s \<le> x \<and> x < dl_slot L s + 8 * k)"
proof -
  have p: "0 < GET_DENTRY_SLOTS (length (it_name e))"
    using assms(1) by (simp add: dir_item_ok_def dir_name_ok_def slots_bounds)
  have "it_slot e + GET_DENTRY_SLOTS (length (it_name e)) \<le> s \<or> s + k \<le> it_slot e"
    using assms(2,3) p by (auto simp: it_slots_def ivl_disj_int)
  then have "8 * it_slot e + 8 * GET_DENTRY_SLOTS (length (it_name e)) \<le> 8 * s \<or> 8 * s + 8 * k \<le> 8 * it_slot e"
    by linarith
  then show "it_slot e \<noteq> s"
    and "dl_slot L (it_slot e) \<le> x \<Longrightarrow> x < dl_slot L (it_slot e) + length (it_name e) \<Longrightarrow> \<not> (dl_slot L s \<le> x \<and> x < dl_slot L s + 8 * k)"
    using slots_bounds(1) [of "length (it_name e)"] p assms(3) by linarith+
qed

lemma dir_repr_insert:
  assumes L: "dl_wf L" and E: "dir_repr L b E" and ok: "dir_item_ok L (s, name, ino, ty)"
    and free: "\<And>i. i < GET_DENTRY_SLOTS (length name) \<Longrightarrow> \<not> dl_bit L b (s + i)"
    and bits: "\<And>i. i < dl_n L \<Longrightarrow> dl_bit L b' i \<longleftrightarrow> s \<le> i \<and> i < s + GET_DENTRY_SLOTS (length name) \<or> dl_bit L b i"
    and ents: "\<And>j. j < dl_n L \<Longrightarrow> j \<noteq> s \<Longrightarrow> getDirEntry b' (dl_entry L j) = getDirEntry b (dl_entry L j)"
    and names: "\<And>x. dl_name L \<le> x \<Longrightarrow> \<not> (dl_slot L s \<le> x \<and> x < dl_slot L s + 8 * GET_DENTRY_SLOTS (length name)) \<Longrightarrow> b' x = b x"
    and item: "dir_item_at L b' (s, name, ino, ty)"
  shows "dir_repr L b' (insert (s, name, ino, ty) E)"
proof -
  let ?k = "GET_DENTRY_SLOTS (length name)" and ?e = "(s, name, ino, ty)"
  have k: "0 < ?k" using ok slots_bounds(3) [of "length name"] by (auto simp: dir_item_ok_def dir_name_ok_def)
  have apart: "it_slots e \<inter> {s..<s + ?k} = {}" if "e \<in> E" for e
  proof -
    have "\<not> (s \<le> i \<and> i < s + ?k)" if "i \<in> it_slots e" for i
    proof -
      have "i < dl_n L"
        using that E \<open>e \<in> E\<close> by (auto simp: dir_repr_def dir_item_ok_def it_slots_def)
      with that \<open>e \<in> E\<close> E have "dl_bit L b i" by (auto simp: dir_repr_def)
      then show ?thesis using free [of "i - s"] by (cases "i - s < ?k") auto
    qed
    then show ?thesis by auto
  qed
  have "dir_item_at L b' e" if "e \<in> E" for e
  proof -
    have e: "dir_item_ok L e" "dir_item_at L b e" "it_slot e < dl_n L"
      using E that slots_bounds(3) [of "length (it_name e)"] by (auto simp: dir_repr_def dir_item_ok_def dir_name_ok_def)
    note ap = item_apart [OF e(1) apart [OF that] k]
    have "dir_item_at L b' e = dir_item_at L b e"
      by (rule item_at_cong) (use ap ents [OF e(3)] names in auto)
    with e show ?thesis by simp
  qed
  moreover have "\<forall>i<dl_n L. dl_bit L b' i \<longleftrightarrow> (\<exists>e\<in>insert ?e E. i \<in> it_slots e)"
    using E bits by (auto simp: dir_repr_def it_slots_def)
  ultimately show ?thesis
    using E ok item apart unfolding dir_repr_def it_slots_def [of ?e, simplified] ball_simps
    by (simp add: Int_commute it_slots_def [of ?e, simplified])
qed

lemma dir_repr_put:
  assumes L: "dl_wf L" and E: "dir_repr L b E" and ok: "dir_item_ok L (s, name, ucast ino, ty)"
    and free: "\<And>i. i < GET_DENTRY_SLOTS (length name) \<Longrightarrow> \<not> dl_bit L b (s + i)"
  shows "dir_repr L (dir_put_entry L b s name ino ty) (insert (s, name, ucast ino, ty) E)"
proof (rule dir_repr_insert [OF L E ok free])
  let ?k = "GET_DENTRY_SLOTS (length name)"
  have k: "s + ?k \<le> dl_n L" "s < dl_n L"
    using ok slots_bounds(3) [of "length name"] by (auto simp: dir_item_ok_def dir_name_ok_def)
  show "dl_bit L (dir_put_entry L b s name ino ty) i \<longleftrightarrow> s \<le> i \<and> i < s + ?k \<or> dl_bit L b i" if "i < dl_n L" for i
    by (rule put_entry_bit [OF L that k(2)])
  show "getDirEntry (dir_put_entry L b s name ino ty) (dl_entry L j) = getDirEntry b (dl_entry L j)" if "j < dl_n L" "j \<noteq> s" for j
    using that by (simp add: put_entry_dentry [OF L that(1) k(1)])
  show "dir_put_entry L b s name ino ty x = b x" if "dl_name L \<le> x" "\<not> (dl_slot L s \<le> x \<and> x < dl_slot L s + 8 * ?k)" for x
    using put_entry_name [OF L k(1) that(1) k(2)] that(2) by (simp only: if_False)
  show "dir_item_at L (dir_put_entry L b s name ino ty) (s, name, ucast ino, ty)"
    using slots_bounds(1) [of "length name"]
    by (auto simp: dir_item_at_def put_entry_dentry [OF L k(2,1)] blk_bytes_nth put_entry_name [OF L k(1) _ k(2)] intro!: nth_equalityI)
qed

subsection \<open>Taking an item out\<close>

lemma clear_loop:
  fixes b :: block
  assumes "dl_wf L" "s + k \<le> dl_n L"
  defines "b' \<equiv> fold (\<lambda>slot b. blk_fill (rtfsDirInodeClearDentryBit b (dl_bitmap L) (s + slot)) (dl_slot L (s + slot)) 8 0) [0..<k] b"
  shows "i < dl_n L \<Longrightarrow> dl_bit L b' i \<longleftrightarrow> \<not> (s \<le> i \<and> i < s + k) \<and> dl_bit L b i"
    and "dl_dentry L \<le> x \<Longrightarrow> b' x = (if dl_slot L s \<le> x \<and> x < dl_slot L s + 8 * k then 0 else b x)"
proof -
  have "(i < dl_n L \<longrightarrow> (dl_bit L b' i \<longleftrightarrow> \<not> (s \<le> i \<and> i < s + k) \<and> dl_bit L b i)) \<and>
    (dl_dentry L \<le> x \<longrightarrow> b' x = (if dl_slot L s \<le> x \<and> x < dl_slot L s + 8 * k then 0 else b x))" for i x
    unfolding b'_def using assms(2)
  proof (induction k)
    case (Suc k)
    let ?c = "fold (\<lambda>slot b. blk_fill (rtfsDirInodeClearDentryBit b (dl_bitmap L) (s + slot)) (dl_slot L (s + slot)) 8 0) [0..<k] b"
    have "dl_bit L (blk_fill (rtfsDirInodeClearDentryBit ?c (dl_bitmap L) (s + k)) (dl_slot L (s + k)) 8 0) i =
        dl_bit L (rtfsDirInodeClearDentryBit ?c (dl_bitmap L) (s + k)) i" if "i < dl_n L"
      by (rule bitmap_cong) (use bitmap_byte [OF assms(1) that] in \<open>simp add: blk_fill_def\<close>)
    moreover have "rtfsDirInodeClearDentryBit ?c (dl_bitmap L) (s + k) x = ?c x" if "dl_dentry L \<le> x"
      using bitmap_byte [OF assms(1), of "s + k"] Suc.prems that by (auto simp: rtfsDirInodeClearDentryBit_def)
    ultimately show ?case
      using Suc by (auto simp: clear_bit_bit blk_fill_def)
  qed auto
  then show "i < dl_n L \<Longrightarrow> dl_bit L b' i \<longleftrightarrow> \<not> (s \<le> i \<and> i < s + k) \<and> dl_bit L b i"
    and "dl_dentry L \<le> x \<Longrightarrow> b' x = (if dl_slot L s \<le> x \<and> x < dl_slot L s + 8 * k then 0 else b x)"
    by blast+
qed

lemma dir_repr_clear:
  assumes L: "dl_wf L" and E: "dir_repr L b E" and e0: "e0 \<in> E"
  shows "dir_repr L (dir_clear_entry L b (it_slot e0) (length (it_name e0))) (E - {e0})"
proof -
  let ?s = "it_slot e0" and ?k = "GET_DENTRY_SLOTS (length (it_name e0))"
  let ?b = "dir_clear_entry L b ?s (length (it_name e0))"
  have k: "0 < ?k" "?s + ?k \<le> dl_n L" "?s < dl_n L"
    using E e0 slots_bounds(3) [of "length (it_name e0)"] by (auto simp: dir_repr_def dir_item_ok_def dir_name_ok_def)
  note loop = clear_loop [OF L k(2), where b = b]
  have byte: "?b x = (if dl_entry L ?s \<le> x \<and> x < dl_entry L ?s + 11 then 0 else if dl_slot L ?s \<le> x \<and> x < dl_slot L ?s + 8 * ?k then 0 else b x)"
    if "dl_dentry L \<le> x" for x
    using loop(2) [OF that] by (simp add: dir_clear_entry_def blk_fill_def)
  have bits: "dl_bit L ?b i \<longleftrightarrow> i \<notin> it_slots e0 \<and> dl_bit L b i" if "i < dl_n L" for i
  proof -
    have "dl_bit L ?b i = dl_bit L (fold (\<lambda>slot b. blk_fill (rtfsDirInodeClearDentryBit b (dl_bitmap L) (?s + slot)) (dl_slot L (?s + slot)) 8 0) [0..<?k] b) i"
      by (rule bitmap_cong) (use bitmap_byte [OF L that] in \<open>simp add: dir_clear_entry_def blk_fill_def\<close>)
    with loop(1) [OF that] show ?thesis by (auto simp: it_slots_def)
  qed
  have "dir_item_at L ?b e" if "e \<in> E - {e0}" for e
  proof -
    have e: "dir_item_ok L e" "dir_item_at L b e" "it_slot e < dl_n L" and apart: "it_slots e \<inter> {?s..<?s + ?k} = {}"
      using E that e0 slots_bounds(3) [of "length (it_name e)"] by (auto simp: dir_repr_def dir_item_ok_def dir_name_ok_def it_slots_def)
    note ap = item_apart [OF e(1) apart k(1)]
    have "dir_item_at L ?b e = dir_item_at L b e"
    proof (rule item_at_cong)
      show "getDirEntry ?b (dl_entry L (it_slot e)) = getDirEntry b (dl_entry L (it_slot e))"
        by (rule getDirEntry_local) (use byte entry_byte [OF L e(3)] ap(1) in \<open>auto simp: algebra_simps\<close>)
      show "?b x = b x" if "dl_slot L (it_slot e) \<le> x" "x < dl_slot L (it_slot e) + length (it_name e)" for x
        using byte [of x] entry_byte [OF L k(3)] ap(2) [OF that] that L by (auto simp: dl_wf_def)
    qed
    with e show ?thesis by simp
  qed
  moreover have "\<forall>i<dl_n L. dl_bit L ?b i \<longleftrightarrow> (\<exists>e\<in>E - {e0}. i \<in> it_slots e)"
  proof (intro allI impI)
    fix i
    assume i: "i < dl_n L"
    with E have "dl_bit L b i \<longleftrightarrow> (\<exists>e\<in>E. i \<in> it_slots e)" by (simp add: dir_repr_def)
    with bits [OF i] show "dl_bit L ?b i \<longleftrightarrow> (\<exists>e\<in>E - {e0}. i \<in> it_slots e)"
      using dir_repr_unique [OF E e0] e0 by blast
  qed
  ultimately show ?thesis
    using E by (auto simp: dir_repr_def)
qed

subsection \<open>Free slots\<close>

lemma dir_free_run_sound:
  "dir_free_run L b k i = Some s \<Longrightarrow> i \<le> s \<and> s + k \<le> dl_n L \<and> (\<forall>j<k. \<not> dl_bit L b (s + j))"
proof (induction L b k i rule: dir_free_run.induct)
  case (1 L b k i)
  from 1(2) show ?case
    by (subst (asm) dir_free_run.simps) (auto split: if_splits option.splits simp: find_None_iff dest: 1(1))
qed

lemma dir_free_run_complete:
  "i \<le> s \<Longrightarrow> s + k \<le> dl_n L \<Longrightarrow> (\<forall>j<k. \<not> dl_bit L b (s + j)) \<Longrightarrow> dir_free_run L b k i \<noteq> None"
proof (induction L b k i rule: dir_free_run.induct)
  case (1 L b k i)
  show ?case
  proof (cases "find (\<lambda>slot. dl_bit L b (i + slot)) [0..<k]")
    case None
    with 1(2,3) show ?thesis by (subst dir_free_run.simps) simp
  next
    case (Some slot)
    then have "slot < k" "dl_bit L b (i + slot)"
      by (auto simp: find_Some_iff)
    with 1(2) 1(4) [rule_format, of "i + slot - s"] have "i + slot + 1 \<le> s"
      by (cases "i + slot - s < k"; cases "s \<le> i + slot") auto
    with 1 Some show ?thesis by (subst dir_free_run.simps) simp
  qed
qed

subsection \<open>Scanning a table\<close>

fun fold_rc :: "('a \<Rightarrow> 's \<Rightarrow> rc \<times> 's) \<Rightarrow> 'a list \<Rightarrow> 's \<Rightarrow> rc \<times> 's" where
  "fold_rc f [] s = (RC0, s)"
| "fold_rc f (x # xs) s = (case f x s of (ret, s) \<Rightarrow> if ret \<noteq> RC0 then (ret, s) else fold_rc f xs s)"

text \<open>The first slots of the items from slot \<open>i\<close> on, in order.\<close>

definition it_starts :: "dir_item set \<Rightarrow> nat \<Rightarrow> nat list" where
  "it_starts E i = sorted_list_of_set {s \<in> it_slot ` E. i \<le> s}"

lemma dir_repr_slots:
  assumes "dir_repr L b E" "e \<in> E"
  shows "0 < GET_DENTRY_SLOTS (length (it_name e))" "it_slot e + GET_DENTRY_SLOTS (length (it_name e)) \<le> dl_n L" "it_slot e < dl_n L"
  using assms slots_bounds(3) [of "length (it_name e)"] by (auto simp: dir_repr_def dir_item_ok_def dir_name_ok_def)

lemma dir_repr_finite: "dir_repr L b E \<Longrightarrow> finite {s \<in> it_slot ` E. i \<le> s}"
  by (rule finite_subset [of _ "{..<dl_n L}"]) (auto dest: dir_repr_slots(3))

lemma it_starts_set: "dir_repr L b E \<Longrightarrow> set (it_starts E i) = {s \<in> it_slot ` E. i \<le> s}" "distinct (it_starts E i)"
  using dir_repr_finite by (simp_all add: it_starts_def)

lemma it_starts_step:
  assumes "dir_repr L b E" "e \<in> E"
  shows "it_starts E (it_slot e) = it_slot e # it_starts E (it_slot e + GET_DENTRY_SLOTS (length (it_name e)))"
proof -
  let ?k = "GET_DENTRY_SLOTS (length (it_name e))"
  have "\<not> (it_slot e < it_slot e' \<and> it_slot e' < it_slot e + ?k)" if "e' \<in> E" for e'
    using dir_repr_unique [OF assms that, of "it_slot e'"] dir_repr_slots(1) [OF assms(1) that] by (auto simp: it_slots_def)
  then have *: "{s \<in> it_slot ` E. it_slot e \<le> s} = insert (it_slot e) {s \<in> it_slot ` E. it_slot e + ?k \<le> s}"
    using assms by (auto simp: not_less intro: le_neq_trans) (metis le_neq_implies_less not_less)
  show ?thesis
    unfolding it_starts_def * using dir_repr_slots(1) [OF assms] dir_repr_finite [OF assms(1)]
    by (subst sorted_list_of_set_insert_remove) (auto simp: insort_is_Cons)
qed

lemma it_starts_skip:
  assumes "dir_repr L b E" "\<forall>e\<in>E. i \<notin> it_slots e"
  shows "it_starts E i = it_starts E (i + 1)"
proof -
  have "it_slot e \<noteq> i" if "e \<in> E" for e
    using assms that dir_repr_slots(1) [OF assms(1) that] by (auto simp: it_slots_def)
  then have "{s \<in> it_slot ` E. i \<le> s} = {s \<in> it_slot ` E. i + 1 \<le> s}"
    by (auto simp: Suc_le_eq le_neq_implies_less) (metis le_neq_implies_less)
  then show ?thesis by (simp add: it_starts_def)
qed

lemma dir_scan_starts:
  assumes "dir_repr L b E" "\<forall>e\<in>E. i \<in> it_slots e \<longrightarrow> it_slot e = i"
  shows "dir_scan L b f i s = fold_rc f (it_starts E i) s"
  using assms
proof (induction L b f i s rule: dir_scan.induct)
  case (1 L b f i s)
  note E = \<open>dir_repr L b E\<close>
  consider "i \<ge> dl_n L" | "i < dl_n L" "\<forall>e\<in>E. i \<notin> it_slots e" | e where "i < dl_n L" "e \<in> E" "i = it_slot e" "i \<in> it_slots e"
    using 1(4) by fastforce
  then show ?case
  proof cases
    case 1
    then have "{s \<in> it_slot ` E. i \<le> s} = {}"
      using dir_repr_slots(3) [OF E] by force
    then have "it_starts E i = []" by (simp only: it_starts_def sorted_list_of_set_empty)
    with 1 show ?thesis by (simp add: dir_scan.simps [of L b f i s])
  next
    case 2
    then have nb: "\<not> dl_bit L b i"
      using E by (auto simp: dir_repr_def)
    have "\<forall>e\<in>E. i + 1 \<in> it_slots e \<longrightarrow> it_slot e = i + 1"
      using 2(2) by (auto simp: it_slots_def)
    with 1(1) 2 nb E show ?thesis
      by (subst dir_scan.simps) (simp add: it_starts_skip [OF E 2(2)])
  next
    case 3
    let ?k = "GET_DENTRY_SLOTS (length (it_name e))"
    have bit: "dl_bit L b i" and len: "length (it_name e) \<le> 255"
      using E 3 by (auto simp: dir_repr_def dir_item_ok_def dir_name_ok_def)
    have "de_name_len (getDirEntry b (dl_entry L i)) = of_nat (length (it_name e))"
      using E 3 by (auto simp: dir_repr_def dir_item_at_def)
    then have k: "GET_DENTRY_SLOTS (unat (de_name_len (getDirEntry b (dl_entry L i)))) = ?k"
      using len by (simp add: unat_of_nat)
    have pos: "0 < ?k" by (rule dir_repr_slots(1) [OF E 3(2)])
    then have next_i: "Suc (if 0 < ?k then i + (?k - 1) else i) = i + ?k" by simp
    have "it_slot e' = i + ?k" if "e' \<in> E" "i + ?k \<in> it_slots e'" for e'
    proof (rule ccontr)
      assume ne: "it_slot e' \<noteq> i + ?k"
      define j where "j = max i (it_slot e')"
      have "j \<in> it_slots e" "j \<in> it_slots e'"
        using ne that(2) 3(3) pos by (auto simp: j_def it_slots_def)
      then have "e = e'" using dir_repr_unique [OF E 3(2) that(1)] by blast
      with that(2) 3(3) show False by (simp add: it_slots_def)
    qed
    then have b': "\<forall>e'\<in>E. i + ?k \<in> it_slots e' \<longrightarrow> it_slot e' = i + ?k" by blast
    have "dir_scan L b f (i + ?k) s' = fold_rc f (it_starts E (i + ?k)) s'" if "f i s = (RC0, s')" for s'
      using 1(2) [of RC0 s'] 3(1) bit that E b' by (simp add: k next_i)
    moreover obtain r s' where f: "f i s = (r, s')" by fastforce
    moreover have "dir_scan L b f i s = (if r \<noteq> RC0 then (r, s') else dir_scan L b f (i + ?k) s')"
      using 3(1) bit f next_i by (subst dir_scan.simps) (simp only: k Let_def not_le [symmetric] prod.case if_False simp_thms Suc_eq_plus1)
    ultimately show ?thesis
      by (simp add: it_starts_step [OF E 3(2), folded 3(3)])
  qed
qed

lemma dir_scan_all: "dir_repr L b E \<Longrightarrow> dir_scan L b f 0 s = fold_rc f (it_starts E 0) s"
  by (rule dir_scan_starts) (auto simp: it_slots_def)

end
