(* ===== verification/Dir_Spec.thy ===== *)
theory Dir_Spec
  imports Dir_Table File_Map_Spec
begin

text \<open>
  A directory as a map from names to inode numbers and types. \<open>dir_ok\<close> is the invariant that ties the run-time entries to the
  tables: the entries are exactly what the inline table, or the loaded blocks, hold. The lemmas say that adding an entry where there is
  room and removing one change the map at one name and keep the invariant, and that building a directory from its node gives the map
  back.
\<close>

unbundle bit_operations_syntax

subsection \<open>The map of a directory\<close>

definition dir_map :: "RtfsDirInode \<Rightarrow> u8 list \<rightharpoonup> u64 \<times> u8" where
  "dir_map di name = map_option (\<lambda>e. (me_ino e, me_file_type e)) (rtfsDirInodeFindEntry di name)"

abbreviation me_pair :: "RtfsMemDirEntry \<Rightarrow> u8 list \<times> u64 \<times> u8" where
  "me_pair e \<equiv> (me_name e, me_ino e, me_file_type e)"

definition me_item :: "RtfsMemDirEntry \<Rightarrow> dir_item" where
  "me_item e = (unat (me_source_slot_index e), me_name e, ucast (me_ino e), me_file_type e)"

definition dir_dot :: "u8 list \<Rightarrow> bool" where
  "dir_dot name \<longleftrightarrow> name = [46] \<or> name = [46, 46]"

lemma dir_map_of: "dir_map di = map_of (map me_pair (di_entries di))"
proof
  fix name
  have "map_option (\<lambda>e. (me_ino e, me_file_type e)) (find (\<lambda>e. me_name e = name) es) = map_of (map me_pair es) name" for es
    by (induction es) auto
  then show "dir_map di name = map_of (map me_pair (di_entries di)) name"
    by (simp add: dir_map_def rtfsDirInodeFindEntry_def)
qed

lemma find_none: "rtfsDirInodeFindEntry di name = None \<longleftrightarrow> name \<notin> me_name ` set (di_entries di)"
  by (auto simp: rtfsDirInodeFindEntry_def find_None_iff)

lemma dir_map_none: "dir_map di name = None \<longleftrightarrow> rtfsDirInodeFindEntry di name = None"
  by (simp add: dir_map_def)

text \<open>\<^verbatim>\<open>rtfsDirInodeLookup\<close> reads the map, except for the two names it answers itself.\<close>

lemma lookup_reads_map:
  "\<not> dir_dot name \<Longrightarrow> rtfsDirInodeLookup di name =
     (case dir_map di name of None \<Rightarrow> Inl ENOENT | Some (ino, ty) \<Rightarrow> Inr (rtfsRuntimeInodeViewInit ino (di_ino di) ty))"
  by (auto simp: rtfsDirInodeLookup_def dir_dot_def dir_map_def rtfsDirInodeFindEntry_def split: option.splits)

subsection \<open>The invariant\<close>

definition dir_holds :: "block \<Rightarrow> dir_item set \<Rightarrow> bool" where
  "dir_holds b S \<longleftrightarrow> (\<exists>E. dir_repr RtfsDentryBlock b E \<and> S = {e \<in> E. \<not> dir_dot (it_name e)})"

abbreviation nb_usable :: "file_system_manager \<Rightarrow> nat \<Rightarrow> bool" where
  "nb_usable fs h \<equiv> nbe_state (nb_entry fs h) = NODE_BLOCK_CACHE_ENTRY_UPTODATE \<or> nbe_state (nb_entry fs h) = NODE_BLOCK_CACHE_ENTRY_DIRTY"

definition dir_base :: "file_system_manager \<Rightarrow> RtfsDirInode \<Rightarrow> bool" where
  "dir_base fs di \<longleftrightarrow> nbc_inv (node_cache fs) \<and>
     (\<exists>h. di_handle di = Some h \<and> nb_ents (node_cache fs) (ucast (di_ino di)) = Some h \<and> nb_usable fs h) \<and> distinct (map me_name (di_entries di)) \<and>
     (\<forall>e\<in>set (di_entries di). unat (me_ino e) < 2 ^ 32)"

definition dir_inline_ok :: "file_system_manager \<Rightarrow> RtfsDirInode \<Rightarrow> bool" where
  "dir_inline_ok fs di \<longleftrightarrow> dir_base fs di \<and> di_backing_kind di = RTFS_DIR_BACKING_INLINE \<and> di_inline di \<and>
     (\<forall>e\<in>set (di_entries di). me_source_is_inline e \<and> \<not> dir_dot (me_name e)) \<and> di_loaded_blocks di = [] \<and>
     nb_node fs (the (di_handle di)) I_inline AND RTFS_INLINE_DENTRY \<noteq> 0 \<and>
     dir_repr RtfsInlineDentry (nb_node fs (the (di_handle di))) (me_item ` set (di_entries di))"

definition dir_indices_ok :: "u32 list \<Rightarrow> nat \<Rightarrow> bool" where
  "dir_indices_ok is n \<longleftrightarrow> (\<forall>i\<in>set is. unat i < n)"

definition dir_blocks_ok :: "file_system_manager \<Rightarrow> RtfsDirInode \<Rightarrow> bool" where
  "dir_blocks_ok fs di \<longleftrightarrow> dir_base fs di \<and> di_backing_kind di = RTFS_DIR_BACKING_BLOCKS \<and>
     distinct (map lb_block_index (di_loaded_blocks di)) \<and>
     dir_indices_ok (map lb_block_index (di_loaded_blocks di)) (di_total_block_count di) \<and>
     (\<forall>e\<in>set (di_entries di). \<not> me_source_is_inline e \<and> \<not> dir_dot (me_name e) \<and>
        me_source_block_index e \<in> lb_block_index ` set (di_loaded_blocks di)) \<and>
     (\<forall>lb\<in>set (di_loaded_blocks di).
        dir_holds (lb_block lb) (me_item ` {e \<in> set (di_entries di). me_source_block_index e = lb_block_index lb}))"

definition dir_ok :: "file_system_manager \<Rightarrow> RtfsDirInode \<Rightarrow> bool" where
  "dir_ok fs di \<longleftrightarrow> dir_inline_ok fs di \<or> dir_blocks_ok fs di"

subsection \<open>Metadata\<close>

lemma dir_repr_cong:
  assumes "dl_wf L" and eq: "\<And>x. dl_bitmap L \<le> x \<Longrightarrow> b' x = b x"
  shows "dir_repr L b' E = dir_repr L b E"
proof -
  have "dl_bit L b' i = dl_bit L b i" for i
    by (rule bitmap_cong) (simp add: eq)
  moreover have "dl_bitmap L \<le> dl_dentry L" "dl_bitmap L \<le> dl_name L"
    using assms(1) by (auto simp: dl_wf_def)
  then have "dir_item_at L b' e = dir_item_at L b e" for e
    by (intro item_at_cong getDirEntry_local eq) simp_all
  ultimately show ?thesis by (simp add: dir_repr_def)
qed

text \<open>\<open>nb_upd fs h b fs'\<close>: the node \<open>h\<close> has content \<open>b\<close> and is dirty; nothing else changed but the list of dirty nodes.\<close>

definition nb_upd :: "file_system_manager \<Rightarrow> nat \<Rightarrow> block \<Rightarrow> file_system_manager \<Rightarrow> bool" where
  "nb_upd fs h b fs' \<longleftrightarrow> fs' = fs\<lparr>node_cache := node_cache fs'\<rparr> \<and>
     nbc_heap (node_cache fs') = (nb_entry fs)(h := (nb_entry fs h)\<lparr>nbe_node := b, nbe_state := NODE_BLOCK_CACHE_ENTRY_DIRTY\<rparr>) \<and>
     nbc_mgr (node_cache fs') = nbc_mgr (node_cache fs) \<and> nbc_next (node_cache fs') = nbc_next (node_cache fs) \<and>
     nbc_cur (node_cache fs') = nbc_cur (node_cache fs)"

lemma nb_upd_node: "nb_upd fs h b fs' \<Longrightarrow> nb_node fs' h = b \<and> nb_usable fs' h"
  by (simp add: nb_upd_def)

lemma nb_upd_put: "nb_upd (nb_put_node fs h b0) h b fs' \<Longrightarrow> nb_upd fs h b fs'"
  by (simp add: nb_upd_def nb_set_def)

lemma nb_upd_inv:
  assumes "nb_upd fs h b fs'" "nbc_inv (node_cache fs)"
  shows "nbc_inv (node_cache fs')" "nb_ents (node_cache fs') = nb_ents (node_cache fs)" "nb_refs (node_cache fs') = nb_refs (node_cache fs)"
proof -
  have f: "nb_keys (node_cache fs') = nb_keys (node_cache fs)" "nb_refs (node_cache fs') = nb_refs (node_cache fs)"
    "nb_par (node_cache fs') = nb_par (node_cache fs)" "nb_ents (node_cache fs') = nb_ents (node_cache fs)"
    using assms(1) by (simp_all add: nb_upd_def fun_eq_iff)
  then have "nb_kids (node_cache fs') = nb_kids (node_cache fs)"
    by (simp add: nb_kids_def fun_eq_iff)
  with f assms show "nbc_inv (node_cache fs')"
    unfolding nbc_inv_def nb_upd_def by (simp add: fun_eq_iff)
  show "nb_ents (node_cache fs') = nb_ents (node_cache fs)" "nb_refs (node_cache fs') = nb_refs (node_cache fs)" by (rule f)+
qed

lemma mark_dirty:
  assumes "nb_usable fs h"
  shows "\<exists>fs'. nodeBlockCacheEntryHandleMarkDirty (nb_put_node fs h b) h = Some fs' \<and> nb_upd fs h b fs'"
proof (cases "nbe_state (nb_entry fs h) = NODE_BLOCK_CACHE_ENTRY_DIRTY")
  case True
  then have eq: "(nb_entry fs h)\<lparr>nbe_node := b, nbe_state := NODE_BLOCK_CACHE_ENTRY_DIRTY\<rparr> = (nb_entry fs h)\<lparr>nbe_node := b\<rparr>"
    by (intro NodeBlockCacheEntry.equality) simp_all
  have "nb_upd fs h b (nb_put_node fs h b)"
    unfolding nb_upd_def eq by (simp add: nb_set_def)
  with True show ?thesis
    by (simp add: nodeBlockCacheEntryHandleMarkDirty_def nodeBlockCacheMarkDirty_def)
next
  case False
  with assms show ?thesis
    by (simp add: nodeBlockCacheEntryHandleMarkDirty_def nodeBlockCacheMarkDirty_def nb_upd_def nb_set_def c_assert_def)
qed

lemma touch:
  assumes "di_handle di = Some h" "nb_usable fs h"
  shows "\<exists>fs'. rtfsDirInodeTouchMetadata fs di = Some (fs', di\<lparr>di_is_dirty := True, di_mtime := di_mtime di + 1\<rparr>) \<and>
    nb_upd fs h (put64 (put64 (nb_node fs h) I_dentry_num (ucast (di_dentry_num di))) I_mtime (di_mtime di + 1)) fs'"
proof -
  obtain fs' where "nodeBlockCacheEntryHandleMarkDirty (nb_put_node fs h (put64 (put64 (nb_node fs h) I_dentry_num
      (ucast (di_dentry_num di))) I_mtime (di_mtime di + 1))) h = Some fs'"
    "nb_upd fs h (put64 (put64 (nb_node fs h) I_dentry_num (ucast (di_dentry_num di))) I_mtime (di_mtime di + 1)) fs'"
    using mark_dirty [OF assms(2)] by blast
  with assms(1) show ?thesis by (simp add: rtfsDirInodeTouchMetadata_def Let_def)
qed

lemma dir_base_upd:
  assumes "dir_base fs di" "di_handle di = Some h" "nb_upd fs h b fs'" "di_handle di' = Some h" "di_ino di' = di_ino di"
    and "distinct (map me_name (di_entries di'))" "\<forall>e\<in>set (di_entries di'). unat (me_ino e) < 2 ^ 32"
  shows "dir_base fs' di'"
  using assms nb_upd_inv [OF assms(3)] nb_upd_node [OF assms(3)] by (auto simp: dir_base_def)

lemma touch_repr: "dir_repr RtfsInlineDentry (put64 (put64 b I_dentry_num x) I_mtime y) E = dir_repr RtfsInlineDentry b E"
  by (rule dir_repr_cong [OF dl_wf(1)]) (simp add: RtfsInlineDentry_def c64.cput_frame)

lemma put_entry_frame:
  assumes "dl_wf L" "x < dl_bitmap L"
  shows "dir_put_entry L b s name ino ty x = b x"
  using assms by (simp add: dir_put_entry_def dir_write_name_bytes set_bits_frame cde.cput_frame dl_wf_def)

lemma clear_entry_frame:
  assumes "dl_wf L" "x < dl_bitmap L"
  shows "dir_clear_entry L b s n x = b x"
proof -
  have "fold (\<lambda>slot b. blk_fill (rtfsDirInodeClearDentryBit b (dl_bitmap L) (s + slot)) (dl_slot L (s + slot)) 8 0) [0..<k] b x = b x" for k
    using assms by (induction k) (simp_all add: blk_fill_def rtfsDirInodeClearDentryBit_def dl_wf_def)
  then show ?thesis using assms by (simp add: dir_clear_entry_def blk_fill_def dl_wf_def)
qed

lemma inline_frame:
  "dir_put_entry RtfsInlineDentry b s name ino ty I_inline = b I_inline"
  "dir_clear_entry RtfsInlineDentry b s n I_inline = b I_inline"
  "put64 (put64 b I_dentry_num v) I_mtime w I_inline = b I_inline"
  using put_entry_frame [of RtfsInlineDentry I_inline] clear_entry_frame [of RtfsInlineDentry I_inline]
  by (simp_all add: RtfsInlineDentry_def dl_wf_def c64.cput_frame)

subsection \<open>Adding an entry\<close>

abbreviation dir_entry :: "u8 list \<Rightarrow> u64 \<Rightarrow> u8 \<Rightarrow> bool \<Rightarrow> u32 \<Rightarrow> nat \<Rightarrow> RtfsMemDirEntry" where
  "dir_entry name ino ty inl bi s \<equiv> \<lparr>me_ino = ino, me_file_type = ty, me_name = name, me_source_is_inline = inl,
     me_source_block_index = bi, me_source_slot_index = of_nat s\<rparr>"

text \<open>The directory with one more entry, as \<^verbatim>\<open>rtfsDirInodeAddEntryInternal\<close> and the assignment of its source leave it.\<close>

abbreviation dir_with :: "RtfsDirInode \<Rightarrow> RtfsMemDirEntry \<Rightarrow> RtfsDirInode" where
  "dir_with di e \<equiv> di\<lparr>di_entries := di_entries di @ [e], di_dentry_num := di_dentry_num di + 1, di_is_dirty := True\<rparr>"

lemma add_internal:
  assumes "dir_name_ok name" "rtfsDirInodeFindEntry di name = None"
  shows "\<exists>di1. rtfsDirInodeAddEntryInternal di name ino ty = (RC0, di1) \<and>
    (\<forall>inl bi s. dir_set_source di1 inl bi (of_nat s) = dir_with di (dir_entry name ino ty inl bi s)) \<and> di_loaded_blocks di1 = di_loaded_blocks di"
  using assms by (simp add: rtfsDirInodeAddEntryInternal_def dir_name_ok_def dir_set_source_def)

lemma dir_map_with:
  assumes "dir_map di name = None"
  shows "di_entries di' = di_entries di @ [dir_entry name ino ty inl bi s] \<Longrightarrow> dir_map di' = (dir_map di)(name \<mapsto> (ino, ty))"
  using assms by (auto simp: dir_map_of fun_eq_iff map_add_def split: option.splits)

lemma me_item_entry: "s < 2 ^ 16 \<Longrightarrow> me_item (dir_entry name ino ty inl bi s) = (s, name, ucast ino, ty)"
  by (simp add: me_item_def unat_of_nat)

lemma free_run_item:
  assumes "dir_free_run L b (GET_DENTRY_SLOTS (length name)) 0 = Some s" "dir_name_ok name" "dl_n L < 2 ^ 16"
  shows "dir_item_ok L (s, name, ino, ty)" "\<And>i. i < GET_DENTRY_SLOTS (length name) \<Longrightarrow> \<not> dl_bit L b (s + i)" "s < 2 ^ 16"
  using dir_free_run_sound [OF assms(1)] assms(2,3) by (auto simp: dir_item_ok_def)

lemma dl_n: "dl_n RtfsInlineDentry = 194" "dl_n RtfsDentryBlock = 214"
  by (simp_all add: RtfsInlineDentry_def RtfsDentryBlock_def)

lemma add_inline:
  assumes ok: "dir_inline_ok fs di" and name: "dir_name_ok name" "dir_map di name = None" "\<not> dir_dot name" and ino: "unat ino < 2 ^ 32"
    and h: "di_handle di = Some h"
    and run: "dir_free_run RtfsInlineDentry (nb_node fs h) (GET_DENTRY_SLOTS (length name)) 0 = Some s"
  shows "\<exists>fs' di' b. rtfsDirInodeAddInlineBacking junk fs di name ino ty = Some (RC0, fs', di') \<and> nb_upd fs h b fs' \<and>
    dir_inline_ok fs' di' \<and> dir_map di' = (dir_map di)(name \<mapsto> (ino, ty)) \<and> di_handle di' = Some h \<and> di_ino di' = di_ino di"
proof -
  let ?b = "dir_put_entry RtfsInlineDentry (nb_node fs h) s name ino ty"
  let ?e = "dir_entry name ino ty True 0 s"
  let ?di = "dir_with di ?e"
  have nf: "rtfsDirInodeFindEntry di name = None" using name(2) by (simp add: dir_map_none)
  have base: "dir_base fs di" "di_inline di" and st: "nb_usable fs h"
    and E: "dir_repr RtfsInlineDentry (nb_node fs h) (me_item ` set (di_entries di))"
    using ok h by (auto simp: dir_inline_ok_def dir_base_def)
  note it = free_run_item [OF run name(1)]
  have s: "s < 2 ^ 16" using it(3) by (simp add: dl_n)
  have E': "dir_repr RtfsInlineDentry ?b (insert (s, name, ucast ino, ty) (me_item ` set (di_entries di)))"
    by (rule dir_repr_put [OF dl_wf(1) E]) (use it in \<open>simp_all add: dl_n\<close>)
  have st': "nb_usable (nb_put_node fs h ?b) h" using st by (simp add: nb_set_def)
  obtain fs' where t: "rtfsDirInodeTouchMetadata (nb_put_node fs h ?b) ?di = Some (fs', ?di\<lparr>di_is_dirty := True, di_mtime := di_mtime di + 1\<rparr>)"
    "nb_upd (nb_put_node fs h ?b) h (put64 (put64 (nb_node (nb_put_node fs h ?b) h) I_dentry_num (ucast (di_dentry_num ?di))) I_mtime (di_mtime di + 1)) fs'"
    using touch [of ?di h, OF _ st'] h by auto
  let ?di' = "?di\<lparr>di_is_dirty := True, di_mtime := di_mtime di + 1\<rparr>"
  have "rtfsDirInodeAddInlineBacking junk fs di name ino ty = Some (RC0, fs', ?di')"
    using h base(2) name(1) nf run t(1) add_internal [OF name(1) nf, of ino ty]
    by (auto simp: rtfsDirInodeAddInlineBacking_def dir_name_ok_def Let_def)
  moreover have u: "nb_upd fs h (nb_node fs' h) fs'"
    using nb_upd_put [OF t(2)] nb_upd_node [OF t(2)] by simp
  moreover have "dir_inline_ok fs' ?di'"
  proof -
    have "dir_base fs' ?di'"
      by (rule dir_base_upd [OF base(1) h u]) (use base(1) h ino nf find_none [of di name] in \<open>auto simp: dir_base_def\<close>)
    then show ?thesis
      using ok nb_upd_node [OF t(2)] E' h s name(3) by (simp add: dir_inline_ok_def touch_repr inline_frame me_item_entry)
  qed
  moreover have "dir_map ?di' = (dir_map di)(name \<mapsto> (ino, ty))"
    by (rule dir_map_with [OF name(2)]) simp
  ultimately show ?thesis using h by (intro exI [of _ fs'] exI [of _ ?di'] exI [of _ "nb_node fs' h"]) simp
qed

lemma find_place:
  assumes "dir_find_place n lbs = Some (k, s)"
  shows "k < length lbs" "dir_free_run RtfsDentryBlock (lb_block (lbs ! k)) n 0 = Some s"
  using assms by (induction n lbs arbitrary: k s rule: dir_find_place.induct) (auto split: option.splits)

lemma dir_holds_put:
  assumes "dir_holds b S" "dir_free_run RtfsDentryBlock b (GET_DENTRY_SLOTS (length name)) 0 = Some s" "dir_name_ok name" "\<not> dir_dot name"
  shows "dir_holds (dir_put_entry RtfsDentryBlock b s name ino ty) (insert (s, name, ucast ino, ty) S)"
proof -
  obtain E where E: "dir_repr RtfsDentryBlock b E" "S = {e \<in> E. \<not> dir_dot (it_name e)}"
    using assms(1) by (auto simp: dir_holds_def)
  note it = free_run_item [OF assms(2,3)]
  have "dir_repr RtfsDentryBlock (dir_put_entry RtfsDentryBlock b s name ino ty) (insert (s, name, ucast ino, ty) E)"
    by (rule dir_repr_put [OF dl_wf(2) E(1)]) (use it in \<open>simp_all add: dl_n\<close>)
  moreover have "insert (s, name, ucast ino, ty) S = {e \<in> insert (s, name, ucast ino, ty) E. \<not> dir_dot (it_name e)}"
    using E(2) assms(4) by auto
  ultimately show ?thesis by (auto simp: dir_holds_def)
qed

lemma add_blocks:
  assumes ok: "dir_blocks_ok fs di" and name: "dir_name_ok name" "dir_map di name = None" "\<not> dir_dot name" and ino: "unat ino < 2 ^ 32"
    and h: "di_handle di = Some h" and place: "dir_find_place (GET_DENTRY_SLOTS (length name)) (di_loaded_blocks di) = Some (k, s)"
  shows "\<exists>fs' di' b. rtfsDirInodeAddRegularBacking junk fs di name ino ty = Some (RC0, fs', di') \<and> nb_upd fs h b fs' \<and>
    dir_blocks_ok fs' di' \<and> dir_map di' = (dir_map di)(name \<mapsto> (ino, ty)) \<and> di_handle di' = Some h \<and> di_ino di' = di_ino di"
proof -
  let ?lb = "di_loaded_blocks di ! k"
  let ?b = "dir_put_entry RtfsDentryBlock (lb_block ?lb) s name ino ty"
  let ?e = "dir_entry name ino ty False (lb_block_index ?lb) s"
  let ?lbs = "(di_loaded_blocks di)[k := ?lb\<lparr>lb_block := ?b, lb_is_dirty := True\<rparr>]"
  let ?di = "(dir_with di ?e)\<lparr>di_loaded_blocks := ?lbs\<rparr>"
  have nf: "rtfsDirInodeFindEntry di name = None" "\<And>lbs. rtfsDirInodeFindEntry (di\<lparr>di_loaded_blocks := lbs\<rparr>) name = None"
    using name(2) by (simp_all add: dir_map_none rtfsDirInodeFindEntry_def)
  have st: "nb_usable fs h" using ok h by (auto simp: dir_blocks_ok_def dir_base_def)
  note pl = find_place [OF place]
  have s: "s < 2 ^ 16" using free_run_item(3) [OF pl(2) name(1)] by (simp add: dl_n)
  obtain fs' where t: "rtfsDirInodeTouchMetadata fs ?di = Some (fs', ?di\<lparr>di_is_dirty := True, di_mtime := di_mtime di + 1\<rparr>)"
    "nb_upd fs h (put64 (put64 (nb_node fs h) I_dentry_num (ucast (di_dentry_num ?di))) I_mtime (di_mtime di + 1)) fs'"
    using touch [of ?di h, OF _ st] h by auto
  let ?di' = "?di\<lparr>di_is_dirty := True, di_mtime := di_mtime di + 1\<rparr>"
  have "rtfsDirPlaceRegular fs di k s name ino ty = Some (RC0, fs', ?di')"
  proof -
    obtain di1 where di1: "rtfsDirInodeAddEntryInternal (di\<lparr>di_loaded_blocks := (di_loaded_blocks di)[k := ?lb\<lparr>lb_block := ?b\<rparr>]\<rparr>) name ino ty = (RC0, di1)"
      "\<And>inl bi s. dir_set_source di1 inl bi (of_nat s) =
         dir_with (di\<lparr>di_loaded_blocks := (di_loaded_blocks di)[k := ?lb\<lparr>lb_block := ?b\<rparr>]\<rparr>) (dir_entry name ino ty inl bi s)"
      using add_internal [OF name(1) nf(2)] by blast
    have "(dir_with (di\<lparr>di_loaded_blocks := xs\<rparr>) ?e)\<lparr>di_loaded_blocks := ?lbs\<rparr> = ?di" for xs
      by (rule RtfsDirInode.equality) simp_all
    with di1 t(1) show ?thesis by (simp add: rtfsDirPlaceRegular_def Let_def)
  qed
  then have "rtfsDirInodeAddRegularBacking junk fs di name ino ty = Some (RC0, fs', ?di')"
    using name(1) nf(1) place by (subst rtfsDirInodeAddRegularBacking.simps) (simp add: dir_name_ok_def)
  moreover have "dir_blocks_ok fs' ?di'"
  proof -
    have ind: "map lb_block_index ?lbs = map lb_block_index (di_loaded_blocks di)"
      using pl(1) by (simp add: map_update list_update_id [of "map lb_block_index (di_loaded_blocks di)" k, simplified nth_map [OF pl(1)]])
    have dist: "distinct (map lb_block_index (di_loaded_blocks di))" using ok by (simp add: dir_blocks_ok_def)
    have "dir_holds (lb_block lb) (me_item ` {e \<in> set (di_entries ?di'). me_source_block_index e = lb_block_index lb})" if lb: "lb \<in> set ?lbs" for lb
    proof -
      obtain j where j: "j < length (di_loaded_blocks di)" "lb = ?lbs ! j"
        using lb by (auto simp: in_set_conv_nth)
      have old: "dir_holds (lb_block (di_loaded_blocks di ! j))
          (me_item ` {e \<in> set (di_entries di). me_source_block_index e = lb_block_index (di_loaded_blocks di ! j)})"
        using ok j(1) by (simp add: dir_blocks_ok_def)
      show ?thesis
      proof (cases "j = k")
        case True
        have "{e \<in> set (di_entries ?di'). me_source_block_index e = lb_block_index ?lb} =
            insert ?e {e \<in> set (di_entries di). me_source_block_index e = lb_block_index ?lb}" by auto
        with True j old dir_holds_put [OF old [unfolded True] pl(2) name(1,3)] pl(1) s show ?thesis
          by (simp add: me_item_entry)
      next
        case False
        then have "lb_block_index (di_loaded_blocks di ! j) \<noteq> lb_block_index ?lb"
          using dist j(1) pl(1) by (metis distinct_conv_nth length_map nth_map)
        then have "{e \<in> set (di_entries ?di'). me_source_block_index e = lb_block_index (di_loaded_blocks di ! j)} =
            {e \<in> set (di_entries di). me_source_block_index e = lb_block_index (di_loaded_blocks di ! j)}" by auto
        with False j old show ?thesis by simp
      qed
    qed
    moreover have "lb_block_index ` set ?lbs = lb_block_index ` set (di_loaded_blocks di)"
      using ind by (metis list.set_map)
    moreover have "lb_block_index ?lb \<in> lb_block_index ` set (di_loaded_blocks di)" using pl(1) by simp
    ultimately show ?thesis
      using ok h name ino nf(1) find_none [of di name] ind dist
        dir_base_upd [OF _ h t(2), of ?di'] by (auto simp: dir_blocks_ok_def dir_base_def [of fs di])
  qed
  moreover have "dir_map ?di' = (dir_map di)(name \<mapsto> (ino, ty))"
    by (rule dir_map_with [OF name(2), where inl = False and bi = "lb_block_index ?lb" and s = s]) simp
  ultimately show ?thesis using t(2) h by (intro exI [of _ fs'] exI [of _ ?di'] exI) auto
qed

subsection \<open>Removing an entry\<close>

text \<open>The entry at place \<open>i\<close> is taken out and the last one put there: a permutation of the others.\<close>

abbreviation swap_out :: "'a list \<Rightarrow> nat \<Rightarrow> 'a list" where
  "swap_out xs i \<equiv> butlast (if i + 1 < length xs then xs[i := last xs] else xs)"

lemma swap_out:
  assumes "i < length xs"
  shows "add_mset (xs ! i) (mset (swap_out xs i)) = mset xs"
proof -
  define ys where "ys = butlast xs"
  have "xs \<noteq> []" using assms by auto
  then have xs: "xs = ys @ [last xs]" by (simp add: ys_def)
  show ?thesis
  proof (cases "i < length ys")
    case True
    have "swap_out xs i = ys[i := last xs]"
      using True by (subst (1 2 3 4) xs) (simp add: list_update_append)
    moreover have "mset ys = add_mset (ys ! i) (mset ys - {#ys ! i#})" "xs ! i = ys ! i"
      using True by (simp, subst xs) (simp add: nth_append)
    moreover have "mset xs = add_mset (last xs) (mset ys)" by (subst xs) simp
    ultimately show ?thesis using True by (simp add: mset_update)
  next
    case False
    then have "i = length xs - 1" using assms by (simp add: ys_def)
    then have "swap_out xs i = ys" "xs ! i = last xs"
      using \<open>xs \<noteq> []\<close> by (simp_all add: ys_def last_conv_nth)
    then show ?thesis by (subst xs) simp
  qed
qed

lemma swap_out_set:
  assumes "i < length xs" "distinct (map f xs)"
  shows "set (swap_out xs i) = set xs - {xs ! i}" "distinct (map f (swap_out xs i))"
proof -
  note m = swap_out [OF assms(1)]
  have "mset (map f xs) = mset (map f (xs ! i # swap_out xs i))"
    using m by (simp flip: m)
  then have d: "distinct (map f (xs ! i # swap_out xs i))"
    using assms(2) mset_eq_imp_distinct_iff by blast
  then show "distinct (map f (swap_out xs i))" by simp
  have "xs ! i \<notin> set (swap_out xs i)" using d by auto
  moreover have "set xs = insert (xs ! i) (set (swap_out xs i))"
    using arg_cong [OF m, of set_mset] by simp
  ultimately show "set (swap_out xs i) = set xs - {xs ! i}" by auto
qed

lemma map_of_without:
  assumes d: "distinct (map me_name es)" "distinct (map me_name es')" and s: "set es' = set es - {e}" "e \<in> set es"
  shows "map_of (map me_pair es') = (map_of (map me_pair es))(me_name e := None)"
proof -
  have inj: "inj_on me_name (set es)" using d(1) by (simp add: distinct_map)
  have new: "me_name e \<notin> me_name ` set es'"
  proof
    assume "me_name e \<in> me_name ` set es'"
    then obtain e' where e': "e' \<in> set es'" "me_name e = me_name e'" by blast
    then have "e' \<in> set es" "e' \<noteq> e" by (simp_all add: s(1))
    with inj_onD [OF inj e'(2)] s(2) show False by blast
  qed
  have "map_of (map me_pair es) = map_of (map me_pair (e # es'))"
  proof (subst map_of_inject_set)
    show "distinct (map fst (map me_pair es))" "distinct (map fst (map me_pair (e # es')))"
      using d new by (simp_all add: comp_def)
    have "set es = set (e # es')" using s by auto
    then show "set (map me_pair es) = set (map me_pair (e # es'))" by (simp only: set_map)
  qed
  moreover have "map_of (map me_pair es') (me_name e) = None"
    using new by (simp add: map_of_eq_None_iff image_image)
  ultimately show ?thesis by (simp add: fun_upd_idem)
qed

lemma me_item_without:
  assumes "distinct (map me_name es)" "e \<in> set es"
  shows "me_item ` (set es - {e}) = me_item ` set es - {me_item e}"
    and "P e \<Longrightarrow> me_item ` {e' \<in> set es - {e}. P e'} = me_item ` {e' \<in> set es. P e'} - {me_item e}"
proof -
  have inj: "inj_on me_item (set es)"
  proof (rule inj_onI)
    fix x y
    assume xy: "x \<in> set es" "y \<in> set es" "me_item x = me_item y"
    then have "me_name x = me_name y" by (simp add: me_item_def)
    with assms(1) xy show "x = y" by (simp add: distinct_map inj_on_def)
  qed
  show "me_item ` (set es - {e}) = me_item ` set es - {me_item e}"
    using inj_on_image_set_diff [OF inj, of "set es" "{e}"] assms(2) by simp
  assume "P e"
  then have "{e' \<in> set es - {e}. P e'} = {e' \<in> set es. P e'} - {e}" by auto
  then show "me_item ` {e' \<in> set es - {e}. P e'} = me_item ` {e' \<in> set es. P e'} - {me_item e}"
    using inj_on_image_set_diff [OF inj, of "{e' \<in> set es. P e'}" "{e}"] assms(2) by (simp add: subset_iff)
qed

text \<open>What the search for the name finds, and the list and the map that are left.\<close>

lemma remove_found:
  assumes "dir_base fs di" "dir_map di name \<noteq> None"
  obtains i where "find (\<lambda>i. me_name (di_entries di ! i) = name) [0..<length (di_entries di)] = Some i"
    "di_entries di ! i \<in> set (di_entries di)" "me_name (di_entries di ! i) = name"
    "set (swap_out (di_entries di) i) = set (di_entries di) - {di_entries di ! i}"
    "distinct (map me_name (swap_out (di_entries di) i))"
    "\<forall>di'. di_entries di' = swap_out (di_entries di) i \<longrightarrow> dir_map di' = (dir_map di)(name := None)"
proof -
  let ?es = "di_entries di"
  have d: "distinct (map me_name ?es)" using assms(1) by (simp add: dir_base_def)
  obtain e where "e \<in> set ?es" "me_name e = name"
    using assms(2) find_none [of di name] by (auto simp: dir_map_none)
  then obtain j where "j < length ?es" "me_name (?es ! j) = name"
    by (metis in_set_conv_nth)
  then have "find (\<lambda>i. me_name (?es ! i) = name) [0..<length ?es] \<noteq> None"
    by (auto simp: find_None_iff)
  then obtain i where f: "find (\<lambda>i. me_name (?es ! i) = name) [0..<length ?es] = Some i" by blast
  then have i: "i < length ?es" "me_name (?es ! i) = name"
    by (auto simp: find_Some_iff)
  have "dir_map di' = (dir_map di)(name := None)" if "di_entries di' = swap_out ?es i" for di'
    using map_of_without [OF d swap_out_set(2,1) [OF i(1) d]] i that by (simp add: dir_map_of)
  then show ?thesis
    using that [OF f nth_mem [OF i(1)] i(2) swap_out_set [OF i(1) d]] by blast
qed

lemma remove_inline:
  assumes ok: "dir_inline_ok fs di" and name: "dir_map di name \<noteq> None" and h: "di_handle di = Some h"
  shows "\<exists>fs' di' b. rtfsDirInodeRemoveEntry fs di name = Some (RC0, fs', di') \<and> nb_upd fs h b fs' \<and>
    dir_inline_ok fs' di' \<and> dir_map di' = (dir_map di)(name := None) \<and> di_handle di' = Some h \<and> di_ino di' = di_ino di"
proof -
  let ?es = "di_entries di"
  have base: "dir_base fs di" "di_inline di" and st: "nb_usable fs h"
    and E: "dir_repr RtfsInlineDentry (nb_node fs h) (me_item ` set ?es)" and inl: "\<forall>e\<in>set ?es. me_source_is_inline e"
    using ok h by (auto simp: dir_inline_ok_def dir_base_def)
  obtain i where i: "find (\<lambda>i. me_name (?es ! i) = name) [0..<length ?es] = Some i"
    "?es ! i \<in> set ?es" "me_name (?es ! i) = name" "set (swap_out ?es i) = set ?es - {?es ! i}" "distinct (map me_name (swap_out ?es i))"
    "\<forall>di'. di_entries di' = swap_out ?es i \<longrightarrow> dir_map di' = (dir_map di)(name := None)"
    by (rule remove_found [OF base(1) name])
  have nm: "dir_name_ok name"
    using E i(2,3) by (auto simp: dir_repr_def dir_item_ok_def me_item_def)
  let ?b = "dir_clear_entry RtfsInlineDentry (nb_node fs h) (unat (me_source_slot_index (?es ! i))) (length name)"
  let ?di = "di\<lparr>di_entries := swap_out ?es i, di_dentry_num := (if di_dentry_num di > 0 then di_dentry_num di - 1 else di_dentry_num di)\<rparr>"
  have E': "dir_repr RtfsInlineDentry ?b (me_item ` set (swap_out ?es i))"
  proof -
    have "distinct (map me_name ?es)" using base(1) by (simp add: dir_base_def)
    note eq = me_item_without(1) [OF this i(2)]
    show ?thesis
      unfolding i(4) eq using dir_repr_clear [OF dl_wf(1) E imageI [OF i(2)]] i(3) by (simp add: me_item_def [of "?es ! i"])
  qed
  have st': "nb_usable (nb_put_node fs h ?b) h" using st by (simp add: nb_set_def)
  obtain fs' where t: "rtfsDirInodeTouchMetadata (nb_put_node fs h ?b) ?di = Some (fs', ?di\<lparr>di_is_dirty := True, di_mtime := di_mtime di + 1\<rparr>)"
    "nb_upd (nb_put_node fs h ?b) h (put64 (put64 (nb_node (nb_put_node fs h ?b) h) I_dentry_num (ucast (di_dentry_num ?di))) I_mtime (di_mtime di + 1)) fs'"
    using touch [of ?di h, OF _ st'] h by auto
  let ?di' = "?di\<lparr>di_is_dirty := True, di_mtime := di_mtime di + 1\<rparr>"
  have "rtfsDirInodeRemoveEntry fs di name = Some (RC0, fs', ?di')"
    using h base(2) nm i(1,3) inl [rule_format, OF i(2)] t(1)
    by (simp add: rtfsDirInodeRemoveEntry_def rtfsDirInodeRemoveEntryInternal_def rtfsDirInodeClearInlineEntryBacking_def dir_name_ok_def Let_def
        del: butlast_list_update)
  moreover have u: "nb_upd fs h (nb_node fs' h) fs'"
    using nb_upd_put [OF t(2)] nb_upd_node [OF t(2)] by simp
  moreover have "dir_inline_ok fs' ?di'"
  proof -
    have "dir_base fs' ?di'"
      by (rule dir_base_upd [OF base(1) h u]) (use base(1) h i(4,5) in \<open>simp_all add: dir_base_def\<close>)
    then show ?thesis
      using ok nb_upd_node [OF t(2)] E' h i(4) by (simp add: dir_inline_ok_def touch_repr inline_frame)
  qed
  moreover have "dir_map ?di' = (dir_map di)(name := None)" using i(6) by simp
  ultimately show ?thesis using h by (intro exI [of _ fs'] exI [of _ ?di'] exI [of _ "nb_node fs' h"]) simp
qed

lemma dir_holds_ok: "dir_holds b S \<Longrightarrow> e \<in> S \<Longrightarrow> dir_item_ok RtfsDentryBlock e"
  by (auto simp: dir_holds_def dir_repr_def)

lemma dir_holds_clear:
  assumes "dir_holds b S" "e \<in> S"
  shows "dir_holds (dir_clear_entry RtfsDentryBlock b (it_slot e) (length (it_name e))) (S - {e})"
proof -
  obtain E where E: "dir_repr RtfsDentryBlock b E" "S = {e \<in> E. \<not> dir_dot (it_name e)}"
    using assms(1) by (auto simp: dir_holds_def)
  then have "dir_repr RtfsDentryBlock (dir_clear_entry RtfsDentryBlock b (it_slot e) (length (it_name e))) (E - {e})"
    using assms(2) by (auto intro: dir_repr_clear [OF dl_wf(2)])
  moreover have "S - {e} = {e' \<in> E - {e}. \<not> dir_dot (it_name e')}" using E(2) by auto
  ultimately show ?thesis by (auto simp: dir_holds_def)
qed

lemma update_block_set:
  assumes "distinct (map lb_block_index lbs)" "lb \<in> set lbs"
  shows "set (dir_update_block (lb_block_index lb) f lbs) = insert (f lb) (set lbs - {lb})"
  using assms by (induction lbs) (force simp: image_iff)+

lemma update_block_index:
  assumes "\<And>lb. lb_block_index (f lb) = lb_block_index lb"
  shows "map lb_block_index (dir_update_block k f lbs) = map lb_block_index lbs"
  by (induction lbs) (simp_all add: assms)

lemma remove_blocks:
  assumes ok: "dir_blocks_ok fs di" and name: "dir_map di name \<noteq> None" and h: "di_handle di = Some h"
  shows "\<exists>fs' di' b. rtfsDirInodeRemoveEntry fs di name = Some (RC0, fs', di') \<and> nb_upd fs h b fs' \<and>
    dir_blocks_ok fs' di' \<and> dir_map di' = (dir_map di)(name := None) \<and> di_handle di' = Some h \<and> di_ino di' = di_ino di"
proof -
  let ?es = "di_entries di" and ?lbs = "di_loaded_blocks di"
  have base: "dir_base fs di" and st: "nb_usable fs h" and d: "distinct (map me_name ?es)" and dl: "distinct (map lb_block_index ?lbs)"
    using ok h by (auto simp: dir_blocks_ok_def dir_base_def)
  obtain i where i: "find (\<lambda>i. me_name (?es ! i) = name) [0..<length ?es] = Some i"
    "?es ! i \<in> set ?es" "me_name (?es ! i) = name" "set (swap_out ?es i) = set ?es - {?es ! i}" "distinct (map me_name (swap_out ?es i))"
    "\<forall>di'. di_entries di' = swap_out ?es i \<longrightarrow> dir_map di' = (dir_map di)(name := None)"
    by (rule remove_found [OF base name])
  define e where "e = ?es ! i"
  have e: "e \<in> set ?es" "me_name e = name" "\<not> me_source_is_inline e"
    using ok i(2,3) by (auto simp: e_def dir_blocks_ok_def)
  obtain lb where lb: "lb \<in> set ?lbs" "me_source_block_index e = lb_block_index lb"
    using ok e(1) by (auto simp: dir_blocks_ok_def)
  define f :: "RtfsLoadedDirBlock \<Rightarrow> RtfsLoadedDirBlock" where "f = (\<lambda>lb. lb\<lparr>lb_block := dir_clear_entry RtfsDentryBlock (lb_block lb) (unat (me_source_slot_index e)) (length (me_name e)),
    lb_is_dirty := True\<rparr>)"
  have fi: "lb_block_index (f x) = lb_block_index x" for x by (simp add: f_def)
  let ?lbs' = "dir_update_block (lb_block_index lb) f ?lbs"
  have set': "set ?lbs' = insert (f lb) (set ?lbs - {lb})" and ind': "map lb_block_index ?lbs' = map lb_block_index ?lbs"
    using update_block_set [OF dl lb(1)] update_block_index [of f] fi by simp_all
  have holds: "dir_holds (lb_block x) (me_item ` {e' \<in> set ?es. me_source_block_index e' = lb_block_index x})" if "x \<in> set ?lbs" for x
    using ok that by (simp add: dir_blocks_ok_def)
  have nm: "dir_name_ok name"
  proof -
    have "me_item e \<in> me_item ` {e' \<in> set ?es. me_source_block_index e' = lb_block_index lb}" using e(1) lb(2) by blast
    from dir_holds_ok [OF holds [OF lb(1)] this] e(2) show ?thesis by (simp add: dir_item_ok_def me_item_def)
  qed
  let ?di = "di\<lparr>di_loaded_blocks := ?lbs', di_entries := swap_out ?es i,
    di_dentry_num := (if di_dentry_num di > 0 then di_dentry_num di - 1 else di_dentry_num di)\<rparr>"
  obtain fs' where t: "rtfsDirInodeTouchMetadata fs ?di = Some (fs', ?di\<lparr>di_is_dirty := True, di_mtime := di_mtime di + 1\<rparr>)"
    "nb_upd fs h (put64 (put64 (nb_node fs h) I_dentry_num (ucast (di_dentry_num ?di))) I_mtime (di_mtime di + 1)) fs'"
    using touch [of ?di h, OF _ st] h by auto
  let ?di' = "?di\<lparr>di_is_dirty := True, di_mtime := di_mtime di + 1\<rparr>"
  have "rtfsDirInodeRemoveEntry fs di name = Some (RC0, fs', ?di')"
    using nm i(1) e(3) t(1) lb(2)
    by (simp add: rtfsDirInodeRemoveEntry_def rtfsDirInodeRemoveEntryInternal_def rtfsDirInodeClearRegularEntryBacking_def dir_name_ok_def Let_def
        f_def split del: if_split cong: if_cong flip: e_def)
  moreover have "dir_blocks_ok fs' ?di'"
  proof -
    have "dir_holds (lb_block x) (me_item ` {e' \<in> set ?es - {e}. me_source_block_index e' = lb_block_index x})" if x: "x \<in> set ?lbs'" for x
    proof (cases "x = f lb")
      case True
      have "me_item e \<in> me_item ` {e' \<in> set ?es. me_source_block_index e' = lb_block_index lb}" using e(1) lb(2) by blast
      from dir_holds_clear [OF holds [OF lb(1)] this] show ?thesis
        using True lb(2) fi me_item_without(2) [OF d e(1), of "\<lambda>e'. me_source_block_index e' = lb_block_index lb"]
        by (simp add: f_def me_item_def [of e])
    next
      case False
      then have x': "x \<in> set ?lbs" "x \<noteq> lb" using x set' by auto
      then have "lb_block_index x \<noteq> lb_block_index lb"
        using dl lb(1) by (auto simp: distinct_map inj_on_def)
      then have "{e' \<in> set ?es - {e}. me_source_block_index e' = lb_block_index x} = {e' \<in> set ?es. me_source_block_index e' = lb_block_index x}"
        using lb(2) by auto
      with holds [OF x'(1)] show ?thesis by simp
    qed
    moreover have "lb_block_index ` set ?lbs' = lb_block_index ` set ?lbs" using ind' by (metis set_map)
    ultimately show ?thesis
      using ok h i(4,5) dl ind' dir_base_upd [OF base h t(2), of ?di'] unfolding e_def
      by (simp add: dir_blocks_ok_def dir_base_def [of fs di])
  qed
  moreover have "dir_map ?di' = (dir_map di)(name := None)" using i(6) by simp
  ultimately show ?thesis using t(2) h by (intro exI [of _ fs'] exI [of _ ?di'] exI) auto
qed

subsection \<open>Building a directory from its tables\<close>

lemma dir_items:
  assumes "dir_repr L b E"
  obtains xs where "set xs = E" "it_starts E 0 = map it_slot xs"
proof -
  let ?xs = "map (inv_into E it_slot) (it_starts E 0)"
  have inj: "inj_on it_slot E" by (rule inj_onI) (rule dir_repr_inj [OF assms])
  have s: "set (it_starts E 0) = it_slot ` E" using it_starts_set(1) [OF assms] by simp
  have "set ?xs = E"
    unfolding set_map s using inv_into_image_cancel [OF inj subset_refl] .
  moreover have "map it_slot ?xs = it_starts E 0"
    unfolding map_map by (rule map_idI) (simp add: s f_inv_into_f)
  ultimately show ?thesis using that [of ?xs] by simp
qed

text \<open>The entry that decoding makes of an item.\<close>

abbreviation it_entry :: "bool \<Rightarrow> u32 \<Rightarrow> dir_item \<Rightarrow> RtfsMemDirEntry" where
  "it_entry inl bi e \<equiv> dir_entry (it_name e) (ucast (it_ino e)) (it_type e) inl bi (it_slot e)"

lemma fold_build:
  assumes "\<And>e di. e \<in> set xs \<Longrightarrow> f (it_slot e) di =
      (if \<not> keep e then (RC0, di) else if it_name e \<in> me_name ` set (di_entries di) then (EEXIST, di) else (RC0, dir_with di (it_entry inl bi e)))"
    and "distinct (map it_name (filter keep xs))" "it_name ` set (filter keep xs) \<inter> me_name ` set (di_entries di) = {}"
  shows "\<exists>k d. fold_rc f (map it_slot xs) di =
    (RC0, di\<lparr>di_entries := di_entries di @ map (it_entry inl bi) (filter keep xs), di_dentry_num := k, di_is_dirty := d\<rparr>)"
  using assms
proof (induction xs arbitrary: di)
  case Nil
  have "di = di\<lparr>di_entries := di_entries di, di_dentry_num := di_dentry_num di, di_is_dirty := di_is_dirty di\<rparr>" by simp
  then show ?case by (metis append_Nil2 filter.simps(1) fold_rc.simps(1) list.simps(8))
next
  case (Cons x xs)
  show ?case
  proof (cases "keep x")
    case False
    with Cons.prems Cons.IH [of di] show ?thesis by simp
  next
    case True
    let ?di = "dir_with di (it_entry inl bi x)"
    have "f (it_slot x) di = (RC0, ?di)" using Cons.prems(1) [of x di] Cons.prems(3) True by simp
    moreover have "\<exists>k d. fold_rc f (map it_slot xs) ?di =
        (RC0, ?di\<lparr>di_entries := di_entries ?di @ map (it_entry inl bi) (filter keep xs), di_dentry_num := k, di_is_dirty := d\<rparr>)"
      by (rule Cons.IH) (use Cons.prems True in \<open>auto simp: image_iff\<close>)
    ultimately show ?thesis using True by auto
  qed
qed

lemma c_string_id: "0 \<notin> set name \<Longrightarrow> c_string name = name"
  by (simp add: c_string_def takeWhile_eq_all_conv) metis

lemma item_fields:
  assumes "dir_repr L b E" "e \<in> E"
  shows "unat (de_name_len (getDirEntry b (dl_entry L (it_slot e)))) = length (it_name e)"
    "de_ino (getDirEntry b (dl_entry L (it_slot e))) = it_ino e" "de_file_type (getDirEntry b (dl_entry L (it_slot e))) = it_type e"
    "dir_read_name L b (it_slot e) (length (it_name e)) = it_name e" "dir_name_ok (it_name e)"
proof -
  have e: "dir_item_ok L e" "dir_item_at L b e" using assms by (auto simp: dir_repr_def)
  then show "de_ino (getDirEntry b (dl_entry L (it_slot e))) = it_ino e" "de_file_type (getDirEntry b (dl_entry L (it_slot e))) = it_type e"
    "dir_read_name L b (it_slot e) (length (it_name e)) = it_name e" "dir_name_ok (it_name e)"
    by (simp_all add: dir_item_at_def dir_item_ok_def dir_read_name_bytes)
  show "unat (de_name_len (getDirEntry b (dl_entry L (it_slot e)))) = length (it_name e)"
    using e by (simp add: dir_item_at_def dir_item_ok_def dir_name_ok_def unat_of_nat)
qed

lemma build_inline_at:
  assumes E: "dir_repr RtfsInlineDentry b E" and e: "e \<in> E"
  shows "rtfsDirInodeBuildInlineEntryAt b (it_slot e) di =
    (if it_name e \<in> me_name ` set (di_entries di) then (EEXIST, di) else (RC0, dir_with di (it_entry True 0 e)))"
proof (cases "it_name e \<in> me_name ` set (di_entries di)")
  note f = item_fields [OF E e]
  have bounds: "it_slot e < 194" "it_slot e + GET_DENTRY_SLOTS (length (it_name e)) \<le> 194"
    using dir_repr_slots(2,3) [OF E e] by (simp_all add: dl_n)
  {
    case True
    then have "rtfsDirInodeFindEntry di (it_name e) \<noteq> None" using find_none by blast
    with True f bounds show ?thesis
      by (simp add: rtfsDirInodeBuildInlineEntryAt_def Let_def c_string_id dir_name_ok_def rtfsDirInodeAddEntryInternal_def)
  next
    case False
    then have nf: "rtfsDirInodeFindEntry di (it_name e) = None" using find_none by blast
    with False f bounds add_internal [OF f(5) nf, of "ucast (it_ino e)" "it_type e"] show ?thesis
      by (auto simp: rtfsDirInodeBuildInlineEntryAt_def Let_def c_string_id dir_name_ok_def)
  }
qed

lemma build_inline_entries:
  assumes E: "dir_repr RtfsInlineDentry b E" and names: "inj_on it_name E" and empty: "di_entries di = []"
  shows "\<exists>es d. rtfsDirInodeBuildInlineEntries di b = (RC0, di\<lparr>di_entries := es, di_is_dirty := d,
      di_loaded_block_count := di_total_block_count di, di_is_fully_loaded := True\<rparr>) \<and>
    set es = it_entry True 0 ` E \<and> distinct (map me_name es)"
proof -
  obtain xs where xs: "set xs = E" "it_starts E 0 = map it_slot xs" by (rule dir_items [OF E])
  have "distinct (map it_slot xs)" using it_starts_set(2) [of E 0] xs(2) by simp
  then have dx: "distinct (map it_name xs)"
    using names xs(1) by (simp add: distinct_map)
  obtain k d where r: "fold_rc (rtfsDirInodeBuildInlineEntryAt b) (map it_slot xs) (di\<lparr>di_dentry_num := 0\<rparr>) =
      (RC0, (di\<lparr>di_dentry_num := 0\<rparr>)\<lparr>di_entries := di_entries (di\<lparr>di_dentry_num := 0\<rparr>) @ map (it_entry True 0) (filter (\<lambda>_. True) xs),
         di_dentry_num := k, di_is_dirty := d\<rparr>)"
    using fold_build [of xs "rtfsDirInodeBuildInlineEntryAt b" "\<lambda>_. True" True 0 "di\<lparr>di_dentry_num := 0\<rparr>"]
      build_inline_at [OF E] xs(1) dx empty by auto
  have "di\<lparr>di_entries := map (it_entry True 0) xs, di_is_dirty := d, di_dentry_num := di_dentry_num di,
      di_loaded_block_count := di_total_block_count di, di_is_fully_loaded := True\<rparr> =
    di\<lparr>di_entries := map (it_entry True 0) xs, di_is_dirty := d, di_loaded_block_count := di_total_block_count di, di_is_fully_loaded := True\<rparr>"
    by (rule RtfsDirInode.equality) simp_all
  then have "rtfsDirInodeBuildInlineEntries di b = (RC0, di\<lparr>di_entries := map (it_entry True 0) xs, di_is_dirty := d,
      di_loaded_block_count := di_total_block_count di, di_is_fully_loaded := True\<rparr>)"
    using r empty by (simp add: rtfsDirInodeBuildInlineEntries_def dir_scan_all [OF E] xs(2) Let_def)
  moreover have "distinct (map me_name (map (it_entry True 0) xs))" using dx by (simp add: comp_def)
  ultimately show ?thesis using xs(1) by (intro exI [of _ "map (it_entry True 0) xs"] exI [of _ d]) simp
qed

lemma ucast_u32_u64: "ucast (ucast (x :: u32) :: u64) = x"
  by (rule bit_word_eqI) (auto simp: bit_simps)

lemma ucast_u64_u32: "unat (x :: u64) < 2 ^ 32 \<Longrightarrow> ucast (ucast x :: u32) = x"
  by (rule unat_word_eqI) (simp add: unsigned_ucast_eq unsigned_take_bit_eq take_bit_nat_eq_self)

lemma it_entry_item: "it_slot e < 2 ^ 16 \<Longrightarrow> me_item (it_entry inl bi e) = e"
  by (simp add: me_item_entry ucast_u32_u64)

text \<open>The items of a directory determine its map.\<close>

lemma dir_map_items:
  assumes "\<forall>e\<in>set es. unat (me_ino e) < 2 ^ 32" "distinct (map me_name es)" "distinct (map me_name es')"
    and "set es' = it_entry inl bi ` me_item ` set es"
  shows "map_of (map me_pair es') = map_of (map me_pair es)"
proof (subst map_of_inject_set)
  show "distinct (map fst (map me_pair es'))" "distinct (map fst (map me_pair es))"
    using assms(2,3) by (simp_all add: comp_def)
  have "ucast (ucast (me_ino e) :: u32) = me_ino e" if "e \<in> set es" for e
    using assms(1) that by (simp add: ucast_u64_u32)
  then have "me_pair (it_entry inl bi (me_item e)) = me_pair e" if "e \<in> set es" for e
    using that by (simp add: me_item_def)
  then have "me_pair ` it_entry inl bi ` me_item ` set es = me_pair ` set es"
    unfolding image_image by (rule image_cong [OF refl])
  then show "set (map me_pair es') = set (map me_pair es)" by (simp only: set_map assms(4))
qed

lemma build_reopens:
  assumes ok: "dir_inline_ok fs di" and h: "di_handle di = Some h" and refs: "nb_refs (node_cache fs) h \<noteq> -1"
  shows "\<exists>fs' di'. rtfsDirInodeBuild fs (di_ino di) = Some (RC0, Some di', fs') \<and> dir_inline_ok fs' di' \<and> dir_map di' = dir_map di \<and>
    di_is_fully_loaded di' \<and> (\<forall>a. nb_node fs' a = nb_node fs a)"
proof -
  let ?E = "me_item ` set (di_entries di)"
  have inv: "nbc_inv (node_cache fs)" and ent: "nb_ents (node_cache fs) (ucast (di_ino di)) = Some h" and st: "nb_usable fs h"
    and d: "distinct (map me_name (di_entries di))" and ino: "\<forall>e\<in>set (di_entries di). unat (me_ino e) < 2 ^ 32"
    and E: "dir_repr RtfsInlineDentry (nb_node fs h) ?E" and fl: "nb_node fs h I_inline AND RTFS_INLINE_DENTRY \<noteq> 0"
    using ok h by (auto simp: dir_inline_ok_def dir_base_def)
  obtain c' where g: "nodeBlockCacheGet fs (ucast (di_ino di)) = Some (Some h, fs\<lparr>node_cache := c'\<rparr>)" "nbc_inv c'"
    "nb_ents c' = nb_ents (node_cache fs)"
    "nbc_heap c' = (nbc_heap (node_cache fs))(h := (nb_entry fs h)\<lparr>nbe_refCount := nb_refs (node_cache fs) h + 1\<rparr>)"
    by (rule nb_get_hit [OF inv refl ent refs])
  let ?fs = "fs\<lparr>node_cache := c'\<rparr>"
  have node: "nbe_node (nbc_heap c' a) = nb_node fs a" "nbe_state (nbc_heap c' h) = nbe_state (nb_entry fs h)" for a
    by (simp_all add: g(4))
  have inj: "inj_on it_name ?E"
  proof (rule inj_on_imageI)
    show "inj_on ((\<lambda>e. it_name e) \<circ> me_item) (set (di_entries di))"
      using d by (simp add: comp_def me_item_def distinct_map)
  qed
  let ?di = "(rtfsDirInodeBuildMetadata (rtfsCreateDirInode (di_ino di) (di_ino di)) (nb_node fs h))
    \<lparr>di_backing_kind := RTFS_DIR_BACKING_INLINE, di_inline := True\<rparr>"
  obtain es dd where r: "rtfsDirInodeBuildInlineEntries ?di (nb_node fs h) = (RC0, ?di\<lparr>di_entries := es, di_is_dirty := dd,
      di_loaded_block_count := di_total_block_count ?di, di_is_fully_loaded := True\<rparr>)"
    "set es = it_entry True 0 ` ?E" "distinct (map me_name es)"
    using build_inline_entries [OF E inj, of ?di]
    by (auto simp: rtfsDirInodeBuildMetadata_def rtfsCreateDirInode_def Let_def)
  let ?di' = "?di\<lparr>di_entries := es, di_is_dirty := dd, di_loaded_block_count := di_total_block_count ?di,
    di_is_fully_loaded := True, di_handle := Some h, di_is_dirty := False\<rparr>"
  have ino': "di_ino ?di' = di_ino di" by (simp add: rtfsDirInodeBuildMetadata_def rtfsCreateDirInode_def Let_def)
  have "rtfsDirInodeBuild fs (di_ino di) = Some (RC0, Some ?di', ?fs)"
    using g(1) fl r(1) by (simp add: rtfsDirInodeBuild_def rtfsDirInodeBuildFromCache_def node Let_def)
  moreover have "dir_inline_ok ?fs ?di'"
  proof -
    have "me_item (it_entry True 0 e) = e" if "e \<in> ?E" for e
      using dir_repr_slots(3) [OF E that] by (intro it_entry_item) (simp add: dl_n)
    then have "me_item ` set es = ?E" unfolding r(2) by (simp add: image_image)
    moreover have "\<forall>e\<in>set es. me_source_is_inline e \<and> \<not> dir_dot (me_name e) \<and> unat (me_ino e) < 2 ^ 32"
      unfolding r(2) using unat_less_u32 ok by (simp add: dir_inline_ok_def me_item_def)
    moreover have "di_loaded_blocks ?di' = []" by (simp add: rtfsDirInodeBuildMetadata_def rtfsCreateDirInode_def Let_def)
    ultimately show ?thesis
      using g(2,3) ent st E fl r(3) node ino' by (simp add: dir_inline_ok_def dir_base_def)
  qed
  moreover have "dir_map ?di' = dir_map di"
    using dir_map_items [OF ino d r(3,2)] by (simp add: dir_map_of)
  ultimately show ?thesis using node by (intro exI [of _ ?fs] exI [of _ ?di']) simp
qed

end
