(* ===== verification/Dir_Map.thy ===== *)
theory Dir_Map
  imports Dir_Spec
begin

text \<open>
  The operations on directories as operations on maps: a new entry goes to a free run of slots, to a new block, or to the block
  that the inline table is converted into; in each case the map of the directory changes at one name. The map of a directory in blocks is
  that of the blocks loaded so far.
\<close>

unbundle bit_operations_syntax

subsection \<open>Growth\<close>

text \<open>An allocation neither reads nor changes the node cache.\<close>

abbreviation with_nodes :: "NodeBlockCache \<Rightarrow> file_system_manager \<Rightarrow> file_system_manager" where
  "with_nodes c fs \<equiv> fs\<lparr>node_cache := c\<rparr>"

lemma sit_change_segment_nodes: "sitChangeSegment (with_nodes c fs) op l n v = map_option (with_nodes c) (sitChangeSegment fs op l n v)"
  by (auto simp: sitChangeSegment_def Let_def split: Option.bind_split)

lemma sit_change_loop_nodes:
  "sitChangeLpaStateLoop (with_nodes c fs) op l n v = map_option (with_nodes c) (sitChangeLpaStateLoop fs op l n v)"
proof (induction fs op l n v rule: sitChangeLpaStateLoop.induct)
  case (1 fs op l n v)
  then show ?case
    by (subst (1 2) sitChangeLpaStateLoop.simps) (auto simp: Let_def sit_change_segment_nodes split: Option.bind_split)
qed

lemma sit_validate_nodes: "sitValidateLpaRange (with_nodes c fs) op l n = map_option (with_nodes c) (sitValidateLpaRange fs op l n)"
  by (simp add: sitValidateLpaRange_def sitChangeLpaStateRange_def sit_change_loop_nodes)

lemma sb_journal_nodes [simp]:
  "sb_put (with_nodes c fs) off v = with_nodes c (sb_put fs off v)"
  "superManagerAppendSuperBlockJournalEntry (with_nodes c fs) o32 v = with_nodes c (superManagerAppendSuperBlockJournalEntry fs o32 v)"
  "superManagerAppendSuperBlockJournalEntryForField (with_nodes c fs) off = with_nodes c (superManagerAppendSuperBlockJournalEntryForField fs off)"
  "ctx_push_uncommit b (with_nodes c fs) seg = with_nodes c (ctx_push_uncommit b fs seg)" "sitOperatorInit (with_nodes c fs) = sitOperatorInit fs"
  by (simp_all add: sb_put_def superManagerAppendSuperBlockJournalEntry_def superManagerAppendSuperBlockJournalEntryForField_def ctx_push_uncommit_def
      sitOperatorInit_def)

lemma alloc_segment_nodes: "superManagerAllocSegment (with_nodes c fs) = map_option (map_prod id (with_nodes c)) (superManagerAllocSegment fs)"
  by (auto simp: superManagerAllocSegment_def Let_def sb_put_def superManagerAppendSuperBlockJournalEntry_def simp del: sb_journal_nodes
      simp add: sitOperatorInit_def split: Option.bind_split)

lemma switch_segment_nodes:
  "superManagerSwitchSegment (with_nodes c fs) b = map_option (map_prod id (with_nodes c)) (superManagerSwitchSegment fs b)"
  by (auto simp: superManagerSwitchSegment_def Let_def alloc_segment_nodes split: Option.bind_split)

lemma alloc_data_nodes: "superManagerAllocDataLpa (with_nodes c fs) = map_option (map_prod id (with_nodes c)) (superManagerAllocDataLpa fs)"
  by (auto simp: superManagerAllocDataLpa_def superManagerAllocLpaRangeInner_def Let_def switch_segment_nodes sit_validate_nodes split: Option.bind_split)

lemma alloc_data_frame: "superManagerAllocDataLpa fs = Some (lpa, fs') \<Longrightarrow> node_cache fs' = node_cache fs"
  using alloc_data_nodes [of "node_cache fs" fs] by (auto dest: arg_cong [of _ _ node_cache])

text \<open>A change of the content of a node keeps the invariant of the cache.\<close>

lemma put_node_inv:
  assumes "nbc_inv (node_cache fs)"
  shows "nbc_inv (node_cache (nb_put_node fs h b))" "nb_ents (node_cache (nb_put_node fs h b)) = nb_ents (node_cache fs)"
    "nb_refs (node_cache (nb_put_node fs h b)) = nb_refs (node_cache fs)"
proof -
  let ?c = "node_cache (nb_put_node fs h b)" and ?d = "node_cache fs"
  have c: "nbc_mgr ?c = nbc_mgr ?d" "nb_keys ?c = nb_keys ?d" "nb_refs ?c = nb_refs ?d" "nb_par ?c = nb_par ?d"
    "nbc_next ?c = nbc_next ?d" "nbc_cur ?c = nbc_cur ?d"
    by (simp_all add: nb_set_def fun_eq_iff)
  have kids: "nb_kids ?c = nb_kids ?d" using fun_cong [OF c(4)] by (simp add: nb_kids_def fun_eq_iff c(1))
  show "nbc_inv ?c" using assms c kids fun_cong [OF c(3)] fun_cong [OF c(4)] by (simp add: nbc_inv_def)
  show "nb_ents ?c = nb_ents ?d" using c(1) by simp
  show "nb_refs ?c = nb_refs ?d" by (rule c(3))
qed

lemma dir_base_put:
  assumes "dir_base fs di" "node_cache fs1 = node_cache fs" "di_handle di' = di_handle di" "di_ino di' = di_ino di" "di_entries di' = di_entries di"
  shows "dir_base (nb_put_node fs1 h b) di'"
proof -
  have inv: "nbc_inv (node_cache fs1)" using assms(1,2) by (simp add: dir_base_def)
  have st: "nb_usable (nb_put_node fs1 h b) a = nb_usable fs1 a" for a by (simp add: nb_set_def)
  from assms put_node_inv [OF inv, of h b] show ?thesis unfolding dir_base_def st by simp
qed

abbreviation new_dir_block :: "block \<Rightarrow> bool \<Rightarrow> nat \<Rightarrow> u32 \<Rightarrow> RtfsLoadedDirBlock" where
  "new_dir_block b d n lpa \<equiv> \<lparr>lb_block_index = of_nat n, lb_lpa = lpa, lb_cow_new_lpa = INVALID_LPA,
     lb_has_pending_cow_relocation = False, lb_block = b, lb_is_dirty = d\<rparr>"

text \<open>The new block of a directory, as long as the inode itself has room for its address.\<close>

lemma grow_block:
  assumes a: "superManagerAllocDataLpa fs = Some (lpa, fs1)" "lpa \<noteq> INVALID_LPA" and h: "di_handle di = Some h"
    and n: "di_total_block_count di < 932" and ind: "dir_indices_ok (map lb_block_index (di_loaded_blocks di)) (di_total_block_count di)"
  defines "b \<equiv> put32 (nb_node fs h) (I_addr (of_nat (di_total_block_count di))) lpa"
  shows "rtfsDirGrowBlock junk fs di = Some (RC0, of_nat (di_total_block_count di), lpa,
    nb_put_node fs1 h (put64 b I_size (get64 b I_size + 4096)),
    di\<lparr>di_size := get64 b I_size + 4096, di_total_block_count := di_total_block_count di + 1, di_is_fully_loaded := False,
       di_loaded_blocks := di_loaded_blocks di @ [new_dir_block (\<lambda>_. 0) False (di_total_block_count di) lpa]\<rparr>)"
proof -
  let ?n = "di_total_block_count di"
  have u: "unat (of_nat ?n :: u32) = ?n" using n by (simp add: unat_of_nat)
  then have "of_nat ?n < (DEF_ADDRS_PER_INODE :: u32)" using n by (simp add: word_less_nat_alt)
  moreover have "of_nat ?n \<notin> lb_block_index ` set (di_loaded_blocks di)"
    using ind u by (auto simp: dir_indices_ok_def)
  then have "find (\<lambda>lb. lb_block_index lb = of_nat ?n) (di_loaded_blocks di) = None"
    unfolding find_None_iff by (metis image_eqI)
  moreover have "nb_entry fs1 = nb_entry fs" using alloc_data_frame [OF a(1)] by simp
  ultimately show ?thesis
    using a h by (simp add: rtfsDirGrowBlock_def rtfsDirGrowAttach_def rtfsDirInodeRememberLoadedBlock_def rtfsDirInodeFindLoadedBlock_def
        nb_set_def b_def Let_def)
qed

text \<open>Room for a name: enough free neighbouring slots in the inline table, or in one of the loaded blocks.\<close>

definition dir_room :: "dentry_layout \<Rightarrow> block \<Rightarrow> u8 list \<Rightarrow> bool" where
  "dir_room L b name \<longleftrightarrow> (\<exists>s. s + GET_DENTRY_SLOTS (length name) \<le> dl_n L \<and> (\<forall>j<GET_DENTRY_SLOTS (length name). \<not> dl_bit L b (s + j)))"

definition dir_fits :: "file_system_manager \<Rightarrow> RtfsDirInode \<Rightarrow> u8 list \<Rightarrow> bool" where
  "dir_fits fs di name \<longleftrightarrow> (if di_backing_kind di = RTFS_DIR_BACKING_INLINE then dir_room RtfsInlineDentry (nb_node fs (the (di_handle di))) name
     else \<exists>lb\<in>set (di_loaded_blocks di). dir_room RtfsDentryBlock (lb_block lb) name)"

lemma room_run: "dir_room L b name \<Longrightarrow> \<exists>s. dir_free_run L b (GET_DENTRY_SLOTS (length name)) 0 = Some s"
  using dir_free_run_complete [of 0] by (fastforce simp: dir_room_def)

lemma room_place:
  assumes "lb \<in> set lbs" "dir_room RtfsDentryBlock (lb_block lb) name"
  shows "\<exists>k s. dir_find_place (GET_DENTRY_SLOTS (length name)) lbs = Some (k, s)"
  using assms room_run [OF assms(2)] by (induction lbs) (auto split: option.splits)

lemma zero_table: "dir_repr RtfsDentryBlock (\<lambda>_. 0) {}" "dir_name_ok name \<Longrightarrow> dir_room RtfsDentryBlock (\<lambda>_. 0) name"
proof -
  have bits: "\<not> dl_bit L (\<lambda>_. 0) i" for L i by (simp add: bitmap_bit)
  show "dir_repr RtfsDentryBlock (\<lambda>_. 0) {}" by (simp add: dir_repr_def bits)
  show "dir_room RtfsDentryBlock (\<lambda>_. 0) name" if "dir_name_ok name"
    using that slots_bounds(4) [of "length name"] by (auto simp: dir_room_def bits dl_n dir_name_ok_def intro!: exI [of _ 0])
qed

lemma holds_empty: "dir_holds (\<lambda>_. 0) {}"
  using zero_table(1) by (auto simp: dir_holds_def)

text \<open>A directory with one more block, empty or with the items of entries that have no other home.\<close>

lemma add_block_ok:
  assumes ok: "dir_blocks_ok fs di" and nc: "node_cache fs1 = node_cache fs" and n: "di_total_block_count di < 932"
  shows "dir_blocks_ok (nb_put_node fs1 h b) (di\<lparr>di_size := z, di_total_block_count := di_total_block_count di + 1, di_is_fully_loaded := False,
       di_loaded_blocks := di_loaded_blocks di @ [new_dir_block (\<lambda>_. 0) False (di_total_block_count di) lpa]\<rparr>)"
proof -
  let ?n = "di_total_block_count di"
  have u: "unat (of_nat ?n :: u32) = ?n" using n by (simp add: unat_of_nat)
  have ind: "\<forall>lb\<in>set (di_loaded_blocks di). unat (lb_block_index lb) < ?n"
    using ok by (simp add: dir_blocks_ok_def dir_indices_ok_def)
  then have new: "of_nat ?n \<notin> lb_block_index ` set (di_loaded_blocks di)" using u by auto
  have "me_source_block_index e \<noteq> of_nat ?n" if "e \<in> set (di_entries di)" for e
    using ok new that unfolding dir_blocks_ok_def by metis
  then have "{e \<in> set (di_entries di). me_source_block_index e = of_nat ?n} = {}" by blast
  then have "dir_holds (\<lambda>_. 0) (me_item ` {e \<in> set (di_entries di). me_source_block_index e = of_nat ?n})"
    using holds_empty by (simp only: image_empty)
  with new show ?thesis
    using ok dir_base_put [OF _ nc] ind u
    by (auto simp: dir_blocks_ok_def dir_indices_ok_def less_Suc_eq)
qed

lemma add_grow:
  assumes ok: "dir_blocks_ok fs di" and name: "dir_name_ok name" "dir_map di name = None" "\<not> dir_dot name" and ino: "unat ino < 2 ^ 32"
    and h: "di_handle di = Some h" and full: "dir_find_place (GET_DENTRY_SLOTS (length name)) (di_loaded_blocks di) = None"
    and a: "superManagerAllocDataLpa fs = Some (lpa, fs1)" "lpa \<noteq> INVALID_LPA" and n: "di_total_block_count di < 932"
  shows "\<exists>fs' di' b. rtfsDirInodeAddRegularBacking junk fs di name ino ty = Some (RC0, fs', di') \<and> nb_upd fs1 h b fs' \<and>
    dir_blocks_ok fs' di' \<and> dir_map di' = (dir_map di)(name \<mapsto> (ino, ty)) \<and> di_handle di' = Some h \<and> di_ino di' = di_ino di"
proof -
  have nf: "rtfsDirInodeFindEntry di name = None" using name(2) by (simp add: dir_map_none)
  have ind: "dir_indices_ok (map lb_block_index (di_loaded_blocks di)) (di_total_block_count di)" using ok by (simp add: dir_blocks_ok_def)
  define b where "b = put32 (nb_node fs h) (I_addr (of_nat (di_total_block_count di))) lpa"
  define fs2 where "fs2 = nb_put_node fs1 h (put64 b I_size (get64 b I_size + 4096))"
  define di2 where "di2 = di\<lparr>di_size := get64 b I_size + 4096, di_total_block_count := di_total_block_count di + 1, di_is_fully_loaded := False,
       di_loaded_blocks := di_loaded_blocks di @ [new_dir_block (\<lambda>_. 0) False (di_total_block_count di) lpa]\<rparr>"
  have g: "rtfsDirGrowBlock junk fs di = Some (RC0, of_nat (di_total_block_count di), lpa, fs2, di2)"
    using grow_block [OF a h n ind] by (simp add: fs2_def di2_def b_def)
  have ok2: "dir_blocks_ok fs2 di2"
    unfolding fs2_def di2_def by (rule add_block_ok [OF ok alloc_data_frame [OF a(1)] n])
  have di2: "di_entries di2 = di_entries di" "di_handle di2 = Some h" "di_ino di2 = di_ino di" using h by (simp_all add: di2_def)
  then have m: "dir_map di2 = dir_map di" by (simp add: dir_map_of)
  obtain k s where pl: "dir_find_place (GET_DENTRY_SLOTS (length name)) (di_loaded_blocks di2) = Some (k, s)"
    using room_place [of "new_dir_block (\<lambda>_. 0) False (di_total_block_count di) lpa" "di_loaded_blocks di2" name] zero_table(2) [OF name(1)]
    by (auto simp: di2_def)
  obtain fs' di' b' where r: "rtfsDirInodeAddRegularBacking junk fs2 di2 name ino ty = Some (RC0, fs', di')" "nb_upd fs2 h b' fs'"
    "dir_blocks_ok fs' di'" "dir_map di' = (dir_map di)(name \<mapsto> (ino, ty))" "di_handle di' = Some h" "di_ino di' = di_ino di"
    using add_blocks [OF ok2 name(1) _ name(3) ino di2(2) pl, of junk ty] name(2) m di2(3) by auto
  have "rtfsDirInodeAddRegularBacking junk fs di name ino ty = Some (RC0, fs', di')"
    using name(1) nf full g r(1) by (subst rtfsDirInodeAddRegularBacking.simps) (simp add: dir_name_ok_def)
  with r nb_upd_put [of fs1 h _ b' fs'] show ?thesis unfolding fs2_def by blast
qed

subsection \<open>Conversion of the inline table\<close>

text \<open>The loop that copies the slots of a name from one table to another.\<close>

lemma copy_loop:
  fixes b node :: block and L M :: dentry_layout and s k i :: nat
  assumes "dl_wf L" "s + k \<le> dl_n L"
  defines "b' \<equiv> fold (\<lambda>slot b. blk_copy (rtfsDirInodeSetDentryBit b (dl_bitmap L) (s + slot)) (dl_slot L (s + slot))
      (blk_bytes node (dl_slot M (i + slot)) 8)) [0..<k] b"
  shows "j < dl_n L \<Longrightarrow> dl_bit L b' j \<longleftrightarrow> s \<le> j \<and> j < s + k \<or> dl_bit L b j"
    and "dl_dentry L \<le> x \<Longrightarrow> b' x = (if dl_slot L s \<le> x \<and> x < dl_slot L s + 8 * k then node (dl_slot M i + (x - dl_slot L s)) else b x)"
proof -
  define f where "f = (\<lambda>slot b. blk_copy (rtfsDirInodeSetDentryBit b (dl_bitmap L) (s + slot)) (dl_slot L (s + slot))
    (blk_bytes node (dl_slot M (i + slot)) 8))"
  have b': "b' = fold f [0..<k] b" unfolding b'_def f_def ..
  have "(j < dl_n L \<longrightarrow> (dl_bit L b' j \<longleftrightarrow> s \<le> j \<and> j < s + k \<or> dl_bit L b j)) \<and>
    (dl_dentry L \<le> x \<longrightarrow> b' x = (if dl_slot L s \<le> x \<and> x < dl_slot L s + 8 * k then node (dl_slot M i + (x - dl_slot L s)) else b x))" for j x
    unfolding b' using assms(2)
  proof (induction k)
    case (Suc k)
    define c where "c = fold f [0..<k] b"
    have copy: "f k c x = (if dl_slot L s + 8 * k \<le> x \<and> x < dl_slot L s + 8 * Suc k then node (dl_slot M i + (x - dl_slot L s))
        else rtfsDirInodeSetDentryBit c (dl_bitmap L) (s + k) x)" for x
      by (auto simp: f_def blk_copy_def blk_bytes_nth add_mult_distrib2 add.assoc)
    have "dl_bit L (f k c) j = dl_bit L (rtfsDirInodeSetDentryBit c (dl_bitmap L) (s + k)) j" if "j < dl_n L"
      by (rule bitmap_cong) (use bitmap_byte [OF assms(1) that] in \<open>simp add: copy\<close>)
    moreover have "rtfsDirInodeSetDentryBit c (dl_bitmap L) (s + k) x = c x" if "dl_dentry L \<le> x"
      using bitmap_byte [OF assms(1), of "s + k"] Suc.prems that by (auto simp: rtfsDirInodeSetDentryBit_def)
    moreover have "(j < dl_n L \<longrightarrow> (dl_bit L c j \<longleftrightarrow> s \<le> j \<and> j < s + k \<or> dl_bit L b j)) \<and>
      (dl_dentry L \<le> x \<longrightarrow> c x = (if dl_slot L s \<le> x \<and> x < dl_slot L s + 8 * k then node (dl_slot M i + (x - dl_slot L s)) else b x))"
      using Suc unfolding c_def by simp
    ultimately have "(j < dl_n L \<longrightarrow> (dl_bit L (f k c) j \<longleftrightarrow> s \<le> j \<and> j < s + Suc k \<or> dl_bit L b j)) \<and>
      (dl_dentry L \<le> x \<longrightarrow> f k c x = (if dl_slot L s \<le> x \<and> x < dl_slot L s + 8 * Suc k then node (dl_slot M i + (x - dl_slot L s)) else b x))"
      by (auto simp: set_bit_bit copy)
    then show ?case by (simp add: c_def)
  qed auto
  then show "j < dl_n L \<Longrightarrow> dl_bit L b' j \<longleftrightarrow> s \<le> j \<and> j < s + k \<or> dl_bit L b j"
    and "dl_dentry L \<le> x \<Longrightarrow> b' x = (if dl_slot L s \<le> x \<and> x < dl_slot L s + 8 * k then node (dl_slot M i + (x - dl_slot L s)) else b x)"
    by blast+
qed

abbreviation it_len :: "dir_item \<Rightarrow> nat" where
  "it_len e \<equiv> GET_DENTRY_SLOTS (length (it_name e))"

lemma convert_copy:
  assumes E: "dir_repr RtfsInlineDentry node E" "e \<in> E" and E': "dir_repr RtfsDentryBlock rb E'"
    and free: "\<forall>e'\<in>E'. it_slot e' + it_len e' \<le> rs" and fit: "rs + it_len e \<le> 214"
  shows "dir_repr RtfsDentryBlock (fold (\<lambda>slot rb. blk_copy (rtfsDirInodeSetDentryBit rb (dl_bitmap RtfsDentryBlock) (rs + slot))
      (dl_slot RtfsDentryBlock (rs + slot)) (blk_bytes node (dl_slot RtfsInlineDentry (it_slot e + slot)) 8)) [0..<it_len e]
      (putDirEntry rb (dl_entry RtfsDentryBlock rs) (getDirEntry node (dl_entry RtfsInlineDentry (it_slot e)))))
    (insert (rs, it_name e, it_ino e, it_type e) E')"
proof (rule dir_repr_insert [OF dl_wf(2) E'])
  let ?L = RtfsDentryBlock and ?se = "getDirEntry node (dl_entry RtfsInlineDentry (it_slot e))"
  let ?c = "putDirEntry rb (dl_entry ?L rs) ?se"
  have k: "rs + it_len e \<le> dl_n ?L" "rs < dl_n ?L" using fit dir_repr_slots(1) [OF E] by (simp_all add: dl_n)
  have at: "dir_item_ok RtfsInlineDentry e" "dir_item_at RtfsInlineDentry node e" using E by (auto simp: dir_repr_def)
  define b' where "b' = fold (\<lambda>slot rb. blk_copy (rtfsDirInodeSetDentryBit rb (dl_bitmap ?L) (rs + slot)) (dl_slot ?L (rs + slot))
    (blk_bytes node (dl_slot RtfsInlineDentry (it_slot e + slot)) 8)) [0..<it_len e] ?c"
  note loop = copy_loop [OF dl_wf(2) k(1), of _ node RtfsInlineDentry "it_slot e" ?c, folded b'_def]
  have wf: "dl_dentry ?L \<le> dl_name ?L" by (simp add: RtfsDentryBlock_def)
  show "dir_item_ok ?L (rs, it_name e, it_ino e, it_type e)" using at(1) k(1) by (simp add: dir_item_ok_def)
  show "\<not> dl_bit ?L rb (rs + i)" if "i < it_len e" for i
  proof -
    have "rs + i < dl_n ?L" using that k(1) by simp
    then have "dl_bit ?L rb (rs + i) \<longleftrightarrow> (\<exists>e'\<in>E'. rs + i \<in> it_slots e')" using E' by (simp add: dir_repr_def)
    then show ?thesis using free by (fastforce simp: it_slots_def)
  qed
  show "dl_bit ?L b' i \<longleftrightarrow> rs \<le> i \<and> i < rs + it_len e \<or> dl_bit ?L rb i" if "i < dl_n ?L" for i
  proof -
    have "dl_bit ?L ?c i = dl_bit ?L rb i"
      by (rule bitmap_cong) (use bitmap_byte [OF dl_wf(2) that] in \<open>simp add: cde.cput_frame\<close>)
    with loop(1) [OF that] show ?thesis by simp
  qed
  have ent: "getDirEntry b' (dl_entry ?L j) = getDirEntry ?c (dl_entry ?L j)" if "j < dl_n ?L" for j
    by (rule getDirEntry_local) (use loop(2) entry_byte [OF dl_wf(2) that] in auto)
  note slot = cde.get_put_slot [where v = ?se and b = rb and base = "dl_dentry ?L" and i = rs]
  show "getDirEntry b' (dl_entry ?L j) = getDirEntry rb (dl_entry ?L j)" if "j < dl_n ?L" "j \<noteq> rs" for j
    using ent [OF that(1)] slot [of j] that(2) by (simp add: mult.commute)
  show "b' x = rb x" if "dl_name ?L \<le> x" "\<not> (dl_slot ?L rs \<le> x \<and> x < dl_slot ?L rs + 8 * it_len e)" for x
  proof -
    have "?c x = rb x" using entry_byte [OF dl_wf(2) k(2)] that(1) by (simp add: cde.cput_frame)
    with loop(2) [of x] that wf show ?thesis by (simp only: if_False order_trans [OF wf that(1)])
  qed
  have "getDirEntry b' (dl_entry ?L rs) = ?se" using ent [OF k(2)] getDirEntry_put by simp
  moreover have "blk_bytes b' (dl_slot ?L rs) (length (it_name e)) = blk_bytes node (dl_slot RtfsInlineDentry (it_slot e)) (length (it_name e))"
    using loop(2) wf slots_bounds(1) [of "length (it_name e)"] by (intro nth_equalityI) (auto simp: blk_bytes_nth)
  ultimately show "dir_item_at ?L b' (rs, it_name e, it_ino e, it_type e)"
    using at(2) by (simp add: dir_item_at_def)
qed

lemma convert_step:
  assumes E: "dir_repr RtfsInlineDentry node E" "e \<in> E" and E': "dir_repr RtfsDentryBlock rb E'"
    and free: "\<forall>e'\<in>E'. it_slot e' + it_len e' \<le> rs" and fit: "rs + it_len e \<le> 214"
  shows "\<exists>rb'. rtfsDirConvertStep node (it_slot e) (rs, rb, sm) = (RC0, rs + it_len e, rb', sm(it_slot e := of_nat rs)) \<and>
    dir_repr RtfsDentryBlock rb' (insert (rs, snd e) E')"
proof -
  note f = item_fields [OF E]
  have b: "it_slot e + it_len e \<le> 194" using dir_repr_slots(2) [OF E] by (simp add: dl_n)
  have n: "0 < length (it_name e)" "length (it_name e) \<le> 255" using f(5) by (auto simp: dir_name_ok_def)
  show ?thesis
    using convert_copy [OF E E' free fit] f(1) b n fit by (simp add: rtfsDirConvertStep_def Let_def)
qed

lemma convert_fold:
  assumes "dir_repr RtfsInlineDentry node E" "set xs \<subseteq> E" "distinct (map it_slot xs)" "dir_repr RtfsDentryBlock rb E'"
    and "\<forall>e'\<in>E'. it_slot e' + it_len e' \<le> rs" "rs + sum_list (map it_len xs) \<le> 214"
  shows "\<exists>rs' rb' ns. fold_rc (rtfsDirConvertStep node) (map it_slot xs) (rs, rb, sm) =
      (RC0, rs', rb', \<lambda>i. if i \<in> it_slot ` set xs then of_nat (ns i) else sm i) \<and>
    dir_repr RtfsDentryBlock rb' (E' \<union> (\<lambda>e. (ns (it_slot e), snd e)) ` set xs)"
  using assms(2-)
proof (induction xs arbitrary: rs rb sm E')
  case Nil
  then show ?case by simp
next
  case (Cons x xs)
  have x: "x \<in> E" "rs + it_len x \<le> 214" using Cons.prems by auto
  obtain rb1 where s: "rtfsDirConvertStep node (it_slot x) (rs, rb, sm) = (RC0, rs + it_len x, rb1, sm(it_slot x := of_nat rs))"
    "dir_repr RtfsDentryBlock rb1 (insert (rs, snd x) E')"
    using convert_step [OF assms(1) x(1) Cons.prems(3,4) x(2)] by blast
  have p: "set xs \<subseteq> E" "distinct (map it_slot xs)" "\<forall>e'\<in>insert (rs, snd x) E'. it_slot e' + it_len e' \<le> rs + it_len x"
    "rs + it_len x + sum_list (map it_len xs) \<le> 214"
    using Cons.prems by (simp_all add: trans_le_add1)
  from Cons.IH [OF p(1,2) s(2) p(3,4), of "sm(it_slot x := of_nat rs)"] obtain rs' rb' ns where r: "fold_rc (rtfsDirConvertStep node) (map it_slot xs) (rs + it_len x, rb1, sm(it_slot x := of_nat rs)) =
      (RC0, rs', rb', \<lambda>i. if i \<in> it_slot ` set xs then of_nat (ns i) else (sm(it_slot x := of_nat rs)) i)"
    "dir_repr RtfsDentryBlock rb' (insert (rs, snd x) E' \<union> (\<lambda>e. (ns (it_slot e), snd e)) ` set xs)"
    by blast
  let ?ns = "ns(it_slot x := rs)"
  have nx: "it_slot x \<notin> it_slot ` set xs" using Cons.prems(2) by simp
  then have "it_slot e \<noteq> it_slot x" if "e \<in> set xs" for e using that by (metis image_eqI)
  then have "(\<lambda>e. (?ns (it_slot e), snd e)) ` set xs = (\<lambda>e. (ns (it_slot e), snd e)) ` set xs"
    by (intro image_cong refl) simp
  then have "E' \<union> (\<lambda>e. (?ns (it_slot e), snd e)) ` set (x # xs) = insert (rs, snd x) E' \<union> (\<lambda>e. (ns (it_slot e), snd e)) ` set xs" by simp
  moreover have "(\<lambda>i. if i \<in> it_slot ` set xs then of_nat (ns i) else (sm(it_slot x := of_nat rs)) i) =
      (\<lambda>i. if i \<in> it_slot ` set (x # xs) then of_nat (?ns i) else sm i)"
    using nx by (auto simp: fun_eq_iff)
  ultimately show ?case
    using s(1) r by (intro exI [of _ rs'] exI [of _ rb'] exI [of _ ?ns]) simp
qed

text \<open>The items of a table do not need more slots than the table has.\<close>

lemma slots_total:
  assumes "dir_repr L b E" "set xs \<subseteq> E" "distinct xs"
  shows "sum_list (map it_len xs) \<le> dl_n L"
proof -
  have "sum_list (map it_len xs) = (\<Sum>e\<in>set xs. card (it_slots e))"
    using assms(3) by (simp add: sum_list_distinct_conv_sum_set it_slots_def)
  also have "\<dots> = card (\<Union>e\<in>set xs. it_slots e)"
  proof (rule card_UN_disjoint [symmetric])
    show "\<forall>e\<in>set xs. \<forall>e'\<in>set xs. e \<noteq> e' \<longrightarrow> it_slots e \<inter> it_slots e' = {}"
      using assms(1,2) unfolding dir_repr_def by blast
  qed (simp_all add: it_slots_def)
  also have "\<dots> \<le> card {..<dl_n L}"
    using assms(2) dir_repr_slots(2) [OF assms(1)] by (intro card_mono) (fastforce simp: it_slots_def)+
  finally show ?thesis by simp
qed

lemma convert_table:
  assumes E: "dir_repr RtfsInlineDentry node E"
  shows "\<exists>rs rb sm ns. dir_scan RtfsInlineDentry node (rtfsDirConvertStep node) 0 (0, \<lambda>_. 0, \<lambda>_. UINT16_MAX) = (RC0, rs, rb, sm) \<and>
    dir_repr RtfsDentryBlock rb ((\<lambda>e. (ns (it_slot e), snd e)) ` E) \<and> (\<forall>e\<in>E. sm (it_slot e) = of_nat (ns (it_slot e)) \<and> ns (it_slot e) < 214)"
proof -
  obtain xs where xs: "set xs = E" "it_starts E 0 = map it_slot xs" by (rule dir_items [OF E])
  have d: "distinct (map it_slot xs)" using it_starts_set(2) [of E 0] xs(2) by simp
  have "0 + sum_list (map it_len xs) \<le> 214"
    using slots_total [OF E, of xs] xs(1) d by (simp add: distinct_map dl_n)
  from convert_fold [OF E _ d zero_table(1) _ this, of "\<lambda>_. UINT16_MAX"] xs(1) obtain rs rb ns where
    r: "fold_rc (rtfsDirConvertStep node) (map it_slot xs) (0, \<lambda>_. 0, \<lambda>_. UINT16_MAX) =
      (RC0, rs, rb, \<lambda>i. if i \<in> it_slot ` E then of_nat (ns i) else UINT16_MAX)"
    "dir_repr RtfsDentryBlock rb ((\<lambda>e. (ns (it_slot e), snd e)) ` E)" by auto
  moreover have "ns (it_slot e) < 214" if "e \<in> E" for e
    using dir_repr_slots(3) [OF r(2), of "(ns (it_slot e), snd e)"] that by (auto simp: dl_n)
  ultimately show ?thesis unfolding dir_scan_all [OF E] xs(2)
    by (intro exI [of _ rs] exI [of _ rb] exI [of _ "\<lambda>i. if i \<in> it_slot ` E then of_nat (ns i) else UINT16_MAX"] exI [of _ ns]) auto
qed

text \<open>What the conversion makes of an entry.\<close>

lemma moved_entries:
  assumes "\<forall>e\<in>set es. me_source_is_inline e \<and> me_source_slot_index e < 194 \<and> sm (unat (me_source_slot_index e)) = of_nat (ns (unat (me_source_slot_index e))) \<and>
      ns (unat (me_source_slot_index e)) < 214"
  shows "map (\<lambda>e. if \<not> me_source_is_inline e \<or> me_source_slot_index e \<ge> 194 \<or> sm (unat (me_source_slot_index e)) = UINT16_MAX then e
      else e\<lparr>me_source_is_inline := False, me_source_block_index := bi, me_source_slot_index := sm (unat (me_source_slot_index e))\<rparr>) es =
    map (\<lambda>e. e\<lparr>me_source_is_inline := False, me_source_block_index := bi, me_source_slot_index := of_nat (ns (unat (me_source_slot_index e)))\<rparr>) es"
proof (rule map_cong [OF refl])
  fix e
  assume "e \<in> set es"
  with assms have e: "me_source_is_inline e" "\<not> me_source_slot_index e \<ge> 194"
    "sm (unat (me_source_slot_index e)) = of_nat (ns (unat (me_source_slot_index e)))" "ns (unat (me_source_slot_index e)) < 214" by auto
  have "unat (of_nat (ns (unat (me_source_slot_index e))) :: u16) \<noteq> unat UINT16_MAX" using e(4) by (simp add: unat_of_nat)
  then have "of_nat (ns (unat (me_source_slot_index e))) \<noteq> UINT16_MAX" by metis
  with e show "(if \<not> me_source_is_inline e \<or> me_source_slot_index e \<ge> 194 \<or> sm (unat (me_source_slot_index e)) = UINT16_MAX then e
      else e\<lparr>me_source_is_inline := False, me_source_block_index := bi, me_source_slot_index := sm (unat (me_source_slot_index e))\<rparr>) =
    e\<lparr>me_source_is_inline := False, me_source_block_index := bi, me_source_slot_index := of_nat (ns (unat (me_source_slot_index e)))\<rparr>" by simp
qed

abbreviation me_moved :: "(nat \<Rightarrow> nat) \<Rightarrow> u32 \<Rightarrow> RtfsMemDirEntry \<Rightarrow> RtfsMemDirEntry" where
  "me_moved ns bi e \<equiv> e\<lparr>me_source_is_inline := False, me_source_block_index := bi, me_source_slot_index := of_nat (ns (unat (me_source_slot_index e)))\<rparr>"

text \<open>Entries that all lie in one block.\<close>

lemma moved_blocks_ok:
  assumes base: "dir_base fs di'" and es: "di_entries di' = map (me_moved ns 0) es" and lbs: "di_loaded_blocks di' = [new_dir_block rb True 0 lpa]"
    and k: "di_backing_kind di' = RTFS_DIR_BACKING_BLOCKS" "di_total_block_count di' = 1"
    and rb: "dir_repr RtfsDentryBlock rb ((\<lambda>e. (ns (it_slot e), snd e)) ` me_item ` set es)"
    and dots: "\<forall>e\<in>set es. \<not> dir_dot (me_name e)" and ns: "\<forall>e\<in>set es. ns (unat (me_source_slot_index e)) < 214"
  shows "dir_blocks_ok fs di'"
proof -
  have "me_item (me_moved ns 0 e) = (ns (it_slot (me_item e)), snd (me_item e))" if "e \<in> set es" for e
    using bspec [OF ns that] by (simp add: me_item_def unat_of_nat)
  then have items: "me_item ` me_moved ns 0 ` set es = (\<lambda>e. (ns (it_slot e), snd e)) ` me_item ` set es"
    unfolding image_image by (intro image_cong) simp_all
  have "\<forall>e\<in>me_item ` me_moved ns 0 ` set es. \<not> dir_dot (it_name e)" using dots by (simp add: me_item_def)
  then have "dir_holds rb (me_item ` me_moved ns 0 ` set es)"
    using rb unfolding dir_holds_def items [symmetric] by blast
  moreover have "{e \<in> set (di_entries di'). me_source_block_index e = 0} = me_moved ns 0 ` set es" using es by auto
  ultimately show ?thesis
    using base es lbs k dots by (simp add: dir_blocks_ok_def dir_indices_ok_def)
qed

lemma nb_upd_nodes:
  assumes "node_cache fs1 = node_cache fs" "nb_upd (with_nodes (node_cache (nb_put_node fs h b0)) fs1) h b fs'"
  shows "nb_upd fs1 h b fs'"
  using assms by (simp add: nb_upd_def nb_set_def)

lemma convert_keeps:
  assumes ok: "dir_inline_ok fs di" and h: "di_handle di = Some h" and a: "superManagerAllocDataLpa fs = Some (lpa, fs1)" "lpa \<noteq> INVALID_LPA"
  shows "\<exists>fs' di' b. rtfsDirInodeConvertInlineToRegular junk fs di = Some (RC0, fs', di') \<and> nb_upd fs1 h b fs' \<and>
    dir_blocks_ok fs' di' \<and> dir_map di' = dir_map di \<and> di_handle di' = Some h \<and> di_ino di' = di_ino di \<and> di_total_block_count di' = 1"
proof -
  let ?old = "nb_node fs h" and ?es = "di_entries di"
  have base: "dir_base fs di" and st: "nb_usable fs h" and E: "dir_repr RtfsInlineDentry ?old (me_item ` set ?es)"
    and inl: "\<forall>e\<in>set ?es. me_source_is_inline e \<and> \<not> dir_dot (me_name e)" "di_loaded_blocks di = []"
    using ok h by (auto simp: dir_inline_ok_def dir_base_def)
  obtain rs rb sm ns where r: "dir_scan RtfsInlineDentry ?old (rtfsDirConvertStep ?old) 0 (0, \<lambda>_. 0, \<lambda>_. UINT16_MAX) = (RC0, rs, rb, sm)"
    "dir_repr RtfsDentryBlock rb ((\<lambda>e. (ns (it_slot e), snd e)) ` me_item ` set ?es)"
    "\<forall>e\<in>me_item ` set ?es. sm (it_slot e) = of_nat (ns (it_slot e)) \<and> ns (it_slot e) < 214"
    using convert_table [OF E] by blast
  have lt: "me_source_slot_index e < 194" if "e \<in> set ?es" for e
    using dir_repr_slots(3) [OF E, of "me_item e"] that by (simp add: me_item_def dl_n word_less_nat_alt)
  have slots: "\<forall>e\<in>set ?es. me_source_is_inline e \<and> me_source_slot_index e < 194 \<and>
      sm (unat (me_source_slot_index e)) = of_nat (ns (unat (me_source_slot_index e))) \<and> ns (unat (me_source_slot_index e)) < 214"
    using r(3) inl(1) lt by (simp add: me_item_def)
  define b0 where "b0 = put64 (blk_fill (blk_fill (?old(I_inline := ?old I_inline AND NOT RTFS_INLINE_DENTRY)) 332 3728 0) 4060 20 0) I_size 0"
  let ?fs0 = "nb_put_node fs h b0"
  let ?di0 = "di\<lparr>di_size := 0, di_total_block_count := 0, di_loaded_block_count := 0, di_is_fully_loaded := True\<rparr>"
  have fs0: "?fs0 = with_nodes (node_cache ?fs0) fs" by (simp add: nb_set_def)
  have a0: "superManagerAllocDataLpa ?fs0 = Some (lpa, with_nodes (node_cache ?fs0) fs1)"
    using alloc_data_nodes [of "node_cache ?fs0" fs] a(1) fs0 by simp
  let ?fs1 = "with_nodes (node_cache ?fs0) fs1"
  obtain B z where g: "rtfsDirGrowBlock junk ?fs0 ?di0 = Some (RC0, of_nat 0, lpa, nb_put_node ?fs1 h B,
      ?di0\<lparr>di_size := z, di_total_block_count := 1, di_is_fully_loaded := False, di_loaded_blocks := [new_dir_block (\<lambda>_. 0) False 0 lpa]\<rparr>)"
    using grow_block [OF a0 a(2), of ?di0 h junk] h inl(2) by (simp add: dir_indices_ok_def)
  have "nb_usable ?fs1 h" using st by (simp add: nb_set_def)
  from mark_dirty [OF this, of B] obtain fs' where m: "nodeBlockCacheEntryHandleMarkDirty (nb_put_node ?fs1 h B) h = Some fs'" "nb_upd ?fs1 h B fs'"
    by blast
  have u: "nb_upd fs1 h B fs'" by (rule nb_upd_nodes [OF alloc_data_frame [OF a(1)] m(2)])
  have "\<exists>di'. rtfsDirInodeConvertInlineToRegular junk fs di = Some (RC0, fs', di') \<and> di_entries di' = map (me_moved ns 0) ?es \<and>
      di_loaded_blocks di' = [new_dir_block rb True 0 lpa] \<and> di_backing_kind di' = RTFS_DIR_BACKING_BLOCKS \<and> di_total_block_count di' = 1 \<and>
      di_handle di' = Some h \<and> di_ino di' = di_ino di"
    using h ok r(1) g m(1) moved_entries [OF slots, of 0]
    by (simp add: rtfsDirInodeConvertInlineToRegular_def rtfsDirInodeGrowRegularBlock_def dir_inline_ok_def Let_def b0_def
        del: map_eq_conv split del: if_split cong: if_cong)
  then obtain di' where d: "rtfsDirInodeConvertInlineToRegular junk fs di = Some (RC0, fs', di')" "di_entries di' = map (me_moved ns 0) ?es"
    "di_loaded_blocks di' = [new_dir_block rb True 0 lpa]" "di_backing_kind di' = RTFS_DIR_BACKING_BLOCKS" "di_total_block_count di' = 1"
    "di_handle di' = Some h" "di_ino di' = di_ino di" by blast
  have "dir_base fs1 di" using base alloc_data_frame [OF a(1)] by (simp add: dir_base_def)
  from dir_base_upd [OF this h u d(6,7)] base d(2) have base': "dir_base fs' di'" by (simp add: dir_base_def [of fs] comp_def)
  have "dir_blocks_ok fs' di'"
    by (rule moved_blocks_ok [OF base' d(2-5) r(2)]) (use inl(1) slots in auto)
  moreover have "dir_map di' = dir_map di" using d(2) by (simp add: dir_map_of comp_def)
  ultimately show ?thesis using d u by blast
qed

lemma nb_upd_trans:
  assumes "nb_upd f h b f1" "node_cache g = node_cache f" "nb_upd (with_nodes (node_cache f1) g) h b' f2"
  shows "nb_upd g h b' f2"
  using assms by (simp add: nb_upd_def)

lemma add_convert:
  assumes ok: "dir_inline_ok fs di" and name: "dir_name_ok name" "dir_map di name = None" "\<not> dir_dot name" and ino: "unat ino < 2 ^ 32"
    and h: "di_handle di = Some h" and full: "dir_free_run RtfsInlineDentry (nb_node fs h) (GET_DENTRY_SLOTS (length name)) 0 = None"
    and a: "superManagerAllocDataLpa fs = Some (l1, fs1)" "l1 \<noteq> INVALID_LPA" "superManagerAllocDataLpa fs1 = Some (l2, fs2)" "l2 \<noteq> INVALID_LPA"
  shows "\<exists>fs' di' b f. rtfsDirInodeAddInlineBacking junk fs di name ino ty = Some (RC0, fs', di') \<and> f \<in> {fs1, fs2} \<and> nb_upd f h b fs' \<and>
    dir_blocks_ok fs' di' \<and> dir_map di' = (dir_map di)(name \<mapsto> (ino, ty)) \<and> di_handle di' = Some h \<and> di_ino di' = di_ino di"
proof -
  obtain fsc dic b0 where c: "rtfsDirInodeConvertInlineToRegular junk fs di = Some (RC0, fsc, dic)" "nb_upd fs1 h b0 fsc"
    "dir_blocks_ok fsc dic" "dir_map dic = dir_map di" "di_handle dic = Some h" "di_ino dic = di_ino di" "di_total_block_count dic = 1"
    using convert_keeps [OF ok h a(1,2), of junk] by blast
  have fsc: "fsc = with_nodes (node_cache fsc) fs1" using c(2) by (simp add: nb_upd_def)
  have m: "dir_map dic name = None" using name(2) c(4) by simp
  have nf: "rtfsDirInodeFindEntry di name = None" using name(2) by (simp add: dir_map_none)
  have red: "rtfsDirInodeAddInlineBacking junk fs di name ino ty = rtfsDirInodeAddRegularBacking junk fsc dic name ino ty"
    using h ok name(1) nf full c(1) by (simp add: rtfsDirInodeAddInlineBacking_def dir_inline_ok_def dir_name_ok_def)
  show ?thesis
  proof (cases "dir_find_place (GET_DENTRY_SLOTS (length name)) (di_loaded_blocks dic)")
    case None
    have a2: "superManagerAllocDataLpa fsc = Some (l2, with_nodes (node_cache fsc) fs2)"
      using alloc_data_nodes [of "node_cache fsc" fs1] a(3) fsc by simp
    obtain fs' di' b where r: "rtfsDirInodeAddRegularBacking junk fsc dic name ino ty = Some (RC0, fs', di')"
      "nb_upd (with_nodes (node_cache fsc) fs2) h b fs'" "dir_blocks_ok fs' di'" "dir_map di' = (dir_map dic)(name \<mapsto> (ino, ty))"
      "di_handle di' = Some h" "di_ino di' = di_ino dic"
      using add_grow [OF c(3) name(1) m name(3) ino c(5) None a2 a(4), of junk ty] c(7) by auto
    have "nb_upd fs2 h b fs'" by (rule nb_upd_trans [OF c(2) alloc_data_frame [OF a(3)] r(2)])
    with red r c(4,6) show ?thesis by auto
  next
    case (Some p)
    then obtain k s where p: "dir_find_place (GET_DENTRY_SLOTS (length name)) (di_loaded_blocks dic) = Some (k, s)" by (cases p) simp
    obtain fs' di' b where r: "rtfsDirInodeAddRegularBacking junk fsc dic name ino ty = Some (RC0, fs', di')" "nb_upd fsc h b fs'"
      "dir_blocks_ok fs' di'" "dir_map di' = (dir_map dic)(name \<mapsto> (ino, ty))" "di_handle di' = Some h" "di_ino di' = di_ino dic"
      using add_blocks [OF c(3) name(1) m name(3) ino c(5) p, of junk ty] by blast
    have "nb_upd fs1 h b fs'" using nb_upd_trans [OF c(2) refl] r(2) fsc by simp
    with red r c(4,6) show ?thesis by auto
  qed
qed

subsection \<open>Directories as maps\<close>

lemma dir_ok_handle:
  assumes "dir_ok fs di"
  obtains h where "di_handle di = Some h"
  using assms by (auto simp: dir_ok_def dir_inline_ok_def dir_blocks_ok_def dir_base_def)

text \<open>The file system after \<open>n\<close> allocations of data blocks, if each of them finds one.\<close>

fun dir_allocs :: "nat \<Rightarrow> file_system_manager \<Rightarrow> file_system_manager option" where
  "dir_allocs 0 fs = Some fs"
| "dir_allocs (Suc n) fs = (case superManagerAllocDataLpa fs of
      Some (lpa, fs1) \<Rightarrow> if lpa = INVALID_LPA then None else dir_allocs n fs1
    | None \<Rightarrow> None)"

lemma dir_allocs_two:
  assumes "dir_allocs 2 fs \<noteq> None"
  obtains l1 fs1 l2 fs2 where "superManagerAllocDataLpa fs = Some (l1, fs1)" "l1 \<noteq> INVALID_LPA" "superManagerAllocDataLpa fs1 = Some (l2, fs2)"
    "l2 \<noteq> INVALID_LPA" "dir_allocs 1 fs = Some fs1" "dir_allocs 2 fs = Some fs2"
  using assms by (auto simp: numeral_2_eq_2 split: option.splits prod.splits if_splits)

lemma add_exists:
  assumes "dir_ok fs di" "dir_name_ok name" "dir_map di name \<noteq> None"
  shows "rtfsDirInodeAddEntry junk fs di name v = Some (EEXIST, fs, di)"
proof -
  obtain h where "di_handle di = Some h" by (rule dir_ok_handle [OF assms(1)])
  moreover have "rtfsDirInodeFindEntry di name \<noteq> None" using assms(3) by (simp add: dir_map_none)
  moreover have "rtfsDirInodeAddRegularBacking junk fs di name ino ty = Some (EEXIST, fs, di)" if "rtfsDirInodeFindEntry di name \<noteq> None" for ino ty
    using that assms(2) by (subst rtfsDirInodeAddRegularBacking.simps) (auto simp: dir_name_ok_def)
  ultimately show ?thesis
    using assms(1,2) by (auto simp: rtfsDirInodeAddEntry_def rtfsDirInodeAddInlineBacking_def dir_ok_def dir_inline_ok_def dir_blocks_ok_def dir_name_ok_def)
qed

lemma add_inline_any:
  assumes ok: "dir_inline_ok fs di" and name: "dir_name_ok name" "dir_map di name = None" "\<not> dir_dot name" and ino: "unat ino < 2 ^ 32"
    and h: "di_handle di = Some h" and room: "dir_fits fs di name \<or> dir_allocs 2 fs \<noteq> None"
  shows "\<exists>fs' di' n f b. rtfsDirInodeAddInlineBacking junk fs di name ino ty = Some (RC0, fs', di') \<and> dir_ok fs' di' \<and>
    dir_map di' = (dir_map di)(name \<mapsto> (ino, ty)) \<and> di_handle di' = Some h \<and> di_ino di' = di_ino di \<and>
    n \<le> (if dir_fits fs di name then 0 else 2) \<and> dir_allocs n fs = Some f \<and> nb_upd f h b fs'"
proof -
  have k: "dir_fits fs di name \<longleftrightarrow> dir_room RtfsInlineDentry (nb_node fs h) name"
    using ok h by (simp add: dir_fits_def dir_inline_ok_def)
  show ?thesis
  proof (cases "dir_free_run RtfsInlineDentry (nb_node fs h) (GET_DENTRY_SLOTS (length name)) 0")
    case (Some s)
    with add_inline [OF ok name ino h, of s junk ty] show ?thesis
      by (metis dir_allocs.simps(1) dir_ok_def zero_le)
  next
    case None
    then have nofit: "\<not> dir_fits fs di name" using k room_run by fastforce
    with room have "dir_allocs 2 fs \<noteq> None" by blast
    from dir_allocs_two [OF this] obtain l1 fs1 l2 fs2 where a: "superManagerAllocDataLpa fs = Some (l1, fs1)" "l1 \<noteq> INVALID_LPA"
      "superManagerAllocDataLpa fs1 = Some (l2, fs2)" "l2 \<noteq> INVALID_LPA" and n: "dir_allocs 1 fs = Some fs1" "dir_allocs 2 fs = Some fs2" .
    obtain fs' di' b f where r: "rtfsDirInodeAddInlineBacking junk fs di name ino ty = Some (RC0, fs', di')" "f \<in> {fs1, fs2}" "nb_upd f h b fs'"
      "dir_blocks_ok fs' di'" "dir_map di' = (dir_map di)(name \<mapsto> (ino, ty))" "di_handle di' = Some h" "di_ino di' = di_ino di"
      using add_convert [OF ok name ino h None a, of junk ty] by blast
    moreover obtain m where "m \<le> 2" "dir_allocs m fs = Some f" using r(2) n by (metis insertE singletonD one_le_numeral order_refl)
    ultimately show ?thesis using nofit by (auto simp: dir_ok_def)
  qed
qed

lemma add_blocks_any:
  assumes ok: "dir_blocks_ok fs di" and name: "dir_name_ok name" "dir_map di name = None" "\<not> dir_dot name" and ino: "unat ino < 2 ^ 32"
    and h: "di_handle di = Some h" and room: "dir_fits fs di name \<or> di_total_block_count di < 932 \<and> dir_allocs 2 fs \<noteq> None"
  shows "\<exists>fs' di' n f b. rtfsDirInodeAddRegularBacking junk fs di name ino ty = Some (RC0, fs', di') \<and> dir_ok fs' di' \<and>
    dir_map di' = (dir_map di)(name \<mapsto> (ino, ty)) \<and> di_handle di' = Some h \<and> di_ino di' = di_ino di \<and>
    n \<le> (if dir_fits fs di name then 0 else 2) \<and> dir_allocs n fs = Some f \<and> nb_upd f h b fs'"
proof (cases "dir_find_place (GET_DENTRY_SLOTS (length name)) (di_loaded_blocks di)")
  case (Some p)
  then obtain k s where "dir_find_place (GET_DENTRY_SLOTS (length name)) (di_loaded_blocks di) = Some (k, s)" by (cases p) simp
  with add_blocks [OF ok name ino h, of k s junk ty] show ?thesis
    by (metis dir_allocs.simps(1) dir_ok_def zero_le)
next
  case None
  then have nofit: "\<not> dir_fits fs di name"
    using room_place [of _ "di_loaded_blocks di" name] ok by (fastforce simp: dir_fits_def dir_blocks_ok_def)
  with room have n: "di_total_block_count di < 932" and "dir_allocs 2 fs \<noteq> None" by blast+
  from dir_allocs_two [OF this(2)] obtain l1 fs1 where a: "superManagerAllocDataLpa fs = Some (l1, fs1)" "l1 \<noteq> INVALID_LPA"
    and f: "dir_allocs 1 fs = Some fs1" .
  obtain fs' di' b where "rtfsDirInodeAddRegularBacking junk fs di name ino ty = Some (RC0, fs', di')" "nb_upd fs1 h b fs'"
    "dir_blocks_ok fs' di'" "dir_map di' = (dir_map di)(name \<mapsto> (ino, ty))" "di_handle di' = Some h" "di_ino di' = di_ino di"
    using add_grow [OF ok name ino h None a n, of junk ty] by blast
  with nofit f show ?thesis
    by (intro exI [of _ fs'] exI [of _ di'] exI [of _ 1] exI [of _ fs1] exI [of _ b]) (simp add: dir_ok_def)
qed

text \<open>An open directory without entries: inode 700 with an empty inline table.\<close>

definition demo_dir_fs :: file_system_manager where
  "demo_dir_fs = nb_put_node demo_file_fs 0 (zero_block(I_inline := RTFS_INLINE_DENTRY))"

definition demo_di :: RtfsDirInode where
  "demo_di = (rtfsCreateDirInode 700 700)\<lparr>di_handle := Some 0, di_inline := True, di_backing_kind := RTFS_DIR_BACKING_INLINE\<rparr>"

lemma empty_bit: "\<not> dl_bit RtfsInlineDentry (zero_block(I_inline := RTFS_INLINE_DENTRY)) i"
  by (simp add: RtfsInlineDentry_def bitmap_bit zero_block_def)

lemma demo_dir_cache:
  "nbc_inv (node_cache demo_dir_fs)" "nb_ents (node_cache demo_dir_fs) = [700 \<mapsto> 0]" "nb_refs (node_cache demo_dir_fs) 0 = 1"
  "nb_usable demo_dir_fs 0" "nb_node demo_dir_fs 0 = zero_block(I_inline := RTFS_INLINE_DENTRY)"
  using put_node_inv [OF demo_file_cache(3), of 0 "zero_block(I_inline := RTFS_INLINE_DENTRY)"] demo_file_cache(1)
  by (simp_all add: demo_dir_fs_def) (simp_all add: nb_set_def demo_file_fs_def demo_dirty_fs_def nodeBlockCacheEntryInit_def)

lemma demo_dir:
  "dir_inline_ok demo_dir_fs demo_di" "dir_map demo_di = Map.empty" "dir_fits demo_dir_fs demo_di [97]" "di_handle demo_di = Some 0" "di_ino demo_di = 700"
proof -
  show "di_handle demo_di = Some 0" "di_ino demo_di = 700" by (simp_all add: demo_di_def rtfsCreateDirInode_def)
  have "dir_repr RtfsInlineDentry (zero_block(I_inline := RTFS_INLINE_DENTRY)) {}" by (simp add: dir_repr_def empty_bit)
  then show "dir_inline_ok demo_dir_fs demo_di"
    using demo_dir_cache by (simp add: dir_inline_ok_def dir_base_def demo_di_def rtfsCreateDirInode_def)
  show "dir_map demo_di = Map.empty" by (simp add: dir_map_of demo_di_def rtfsCreateDirInode_def)
  show "dir_fits demo_dir_fs demo_di [97]"
    using demo_dir_cache(5) by (auto simp: dir_fits_def dir_room_def empty_bit demo_di_def rtfsCreateDirInode_def dl_n GET_DENTRY_SLOTS_def)
qed

text \<open>The same directory after a file was added.\<close>

lemma demo_added:
  "\<exists>fs' di'. rtfsDirInodeAddEntry (\<lambda>_. zero_block) demo_dir_fs demo_di [97] (rtfsRuntimeInodeViewInit 701 700 1) = Some (RC0, fs', di') \<and>
     dir_inline_ok fs' di' \<and> dir_map di' = [[97] \<mapsto> (701, 1)] \<and> di_handle di' = Some 0 \<and> di_ino di' = 700 \<and> nb_refs (node_cache fs') 0 = 1"
proof -
  have n: "dir_name_ok [97]" "dir_map demo_di [97] = None" "\<not> dir_dot [97]" "unat (701 :: u64) < 2 ^ 32"
    by (simp_all add: dir_name_ok_def dir_dot_def demo_dir(2))
  have k: "di_backing_kind demo_di = RTFS_DIR_BACKING_INLINE" by (simp add: demo_di_def)
  then obtain s where "dir_free_run RtfsInlineDentry (nb_node demo_dir_fs 0) (GET_DENTRY_SLOTS (length [97 :: u8])) 0 = Some s"
    using demo_dir(3,4) room_run [of RtfsInlineDentry "nb_node demo_dir_fs 0" "[97]"] by (auto simp: dir_fits_def)
  from add_inline [OF demo_dir(1) n demo_dir(4) this, of "\<lambda>_. zero_block" 1] obtain fs' di' b where
    "rtfsDirInodeAddInlineBacking (\<lambda>_. zero_block) demo_dir_fs demo_di [97] 701 1 = Some (RC0, fs', di')" "nb_upd demo_dir_fs 0 b fs'"
    "dir_inline_ok fs' di'" "dir_map di' = [[97] \<mapsto> (701, 1)]" "di_handle di' = Some 0" "di_ino di' = 700"
    using demo_dir(2,5) by auto
  moreover from this(2) have "nb_refs (node_cache fs') 0 = 1"
    using fun_cong [OF nb_upd_inv(3) [OF _ demo_dir_cache(1)], of 0 b fs' 0] demo_dir_cache(3) by simp
  ultimately show ?thesis
    using k by (simp add: rtfsDirInodeAddEntry_def rtfsRuntimeInodeViewInit_def)
qed

text \<open>Claim C10. Adding an entry for a name that is not in the directory returns 0 and updates the map of the directory at that name only,
  keeps the invariant that ties entries and tables, and changes nothing of the file system but the node of the directory, which becomes
  dirty, and what up to two allocations of blocks change: none when the tables have room for the name, one when a block is added or the inline
  table is converted into a block, two when the converted table has no room either. A name that is there is refused with EEXIST
  and nothing changes.\<close>

theorem rtfsDirInodeAddEntry_adds:
  assumes "dir_ok fs di" "dir_name_ok name" "\<not> dir_dot name" "unat (rv_ino v) < 2 ^ 32"
    and "dir_fits fs di name \<or> di_total_block_count di < 932 \<and> dir_allocs 2 fs \<noteq> None"
  shows "if dir_map di name \<noteq> None then rtfsDirInodeAddEntry junk fs di name v = Some (EEXIST, fs, di)
    else \<exists>fs' di' n f b. rtfsDirInodeAddEntry junk fs di name v = Some (RC0, fs', di') \<and> dir_ok fs' di' \<and>
      dir_map di' = (dir_map di)(name \<mapsto> (rv_ino v, rv_file_type v)) \<and> di_handle di' = di_handle di \<and> di_ino di' = di_ino di \<and>
      n \<le> (if dir_fits fs di name then 0 else 2) \<and> dir_allocs n fs = Some f \<and> nb_upd f (the (di_handle di)) b fs'"
proof (cases "dir_map di name")
  case None
  obtain h where h: "di_handle di = Some h" by (rule dir_ok_handle [OF assms(1)])
  consider (inl) "dir_inline_ok fs di" | (blk) "dir_blocks_ok fs di" using assms(1) by (auto simp: dir_ok_def)
  then show ?thesis
  proof cases
    case inl
    then have eq: "rtfsDirInodeAddEntry junk fs di name v = rtfsDirInodeAddInlineBacking junk fs di name (rv_ino v) (rv_file_type v)"
      by (simp add: rtfsDirInodeAddEntry_def dir_inline_ok_def)
    have "dir_fits fs di name \<or> dir_allocs 2 fs \<noteq> None" using assms(5) by blast
    from add_inline_any [OF inl assms(2) None assms(3,4) h this, of junk "rv_file_type v"] None h show ?thesis
      unfolding eq by (simp split del: if_split)
  next
    case blk
    then have eq: "rtfsDirInodeAddEntry junk fs di name v = rtfsDirInodeAddRegularBacking junk fs di name (rv_ino v) (rv_file_type v)"
      by (simp add: rtfsDirInodeAddEntry_def dir_blocks_ok_def)
    from add_blocks_any [OF blk assms(2) None assms(3,4) h assms(5), of junk "rv_file_type v"] None h show ?thesis
      unfolding eq by (simp split del: if_split)
  qed
qed (use add_exists [OF assms(1,2)] in simp)

lemma rtfsDirInodeAddEntry_adds_witness:
  "\<exists>fs' di' b. rtfsDirInodeAddEntry (\<lambda>_. zero_block) demo_dir_fs demo_di [97] (rtfsRuntimeInodeViewInit 701 700 1) = Some (RC0, fs', di') \<and>
     dir_ok fs' di' \<and> dir_map di' = [[97] \<mapsto> (701, 1)] \<and> nb_upd demo_dir_fs 0 b fs'"
  using rtfsDirInodeAddEntry_adds [of demo_dir_fs demo_di "[97]" "rtfsRuntimeInodeViewInit 701 700 1" "\<lambda>_. zero_block"] demo_dir
  by (auto simp: dir_ok_def dir_name_ok_def dir_dot_def rtfsRuntimeInodeViewInit_def)

text \<open>Claim C11. Removing an entry returns 0, takes exactly this name out of the map of the directory, keeps the invariant that
  ties entries and tables, and changes nothing of the file system but the node of the directory; a name that is not there is
  refused with ENOENT and nothing changes.\<close>

theorem rtfsDirInodeRemoveEntry_removes:
  assumes "dir_ok fs di" "dir_name_ok name"
  shows "if dir_map di name = None then rtfsDirInodeRemoveEntry fs di name = Some (ENOENT, fs, di)
    else \<exists>fs' di' b. rtfsDirInodeRemoveEntry fs di name = Some (RC0, fs', di') \<and> dir_ok fs' di' \<and>
      dir_map di' = (dir_map di)(name := None) \<and> di_handle di' = di_handle di \<and> di_ino di' = di_ino di \<and> nb_upd fs (the (di_handle di)) b fs'"
proof (cases "dir_map di name = None")
  case True
  then have "find (\<lambda>i. me_name (di_entries di ! i) = name) [0..<length (di_entries di)] = None"
    by (auto simp: dir_map_none find_none find_None_iff)
  with True assms(2) show ?thesis
    by (simp add: rtfsDirInodeRemoveEntry_def rtfsDirInodeRemoveEntryInternal_def dir_name_ok_def)
next
  case False
  obtain h where h: "di_handle di = Some h" by (rule dir_ok_handle [OF assms(1)])
  from assms(1) False h remove_inline [OF _ False h] remove_blocks [OF _ False h] show ?thesis
    by (auto simp: dir_ok_def) metis+
qed

lemma rtfsDirInodeRemoveEntry_removes_witness:
  "\<exists>fs di fs' di'. rtfsDirInodeAddEntry (\<lambda>_. zero_block) demo_dir_fs demo_di [97] (rtfsRuntimeInodeViewInit 701 700 1) = Some (RC0, fs, di) \<and>
     rtfsDirInodeRemoveEntry fs di [97] = Some (RC0, fs', di') \<and> dir_ok fs' di' \<and> dir_map di' = Map.empty"
proof -
  obtain fs di where a: "rtfsDirInodeAddEntry (\<lambda>_. zero_block) demo_dir_fs demo_di [97] (rtfsRuntimeInodeViewInit 701 700 1) = Some (RC0, fs, di)"
    "dir_inline_ok fs di" "dir_map di = [[97] \<mapsto> (701, 1)]"
    using demo_added by auto
  with rtfsDirInodeRemoveEntry_removes [of fs di "[97]"] show ?thesis
    by (fastforce simp: dir_ok_def dir_name_ok_def)
qed

text \<open>Claim C12. Opening a directory again from its inline table gives back the map of names to inode numbers and types that the
  operations on it have built up, fully loaded and in a state that satisfies the invariant, and changes no node.\<close>

theorem rtfsDirInodeBuild_reopens:
  assumes "dir_inline_ok fs di" "nb_refs (node_cache fs) (the (di_handle di)) \<noteq> -1"
  shows "\<exists>fs' di'. rtfsDirInodeBuild fs (di_ino di) = Some (RC0, Some di', fs') \<and> dir_ok fs' di' \<and> dir_map di' = dir_map di \<and>
    di_is_fully_loaded di' \<and> (\<forall>a. nb_node fs' a = nb_node fs a)"
proof -
  obtain h where "di_handle di = Some h" using dir_ok_handle [of fs di] assms(1) by (auto simp: dir_ok_def)
  with build_reopens [OF assms(1)] assms(2) show ?thesis by (auto simp: dir_ok_def)
qed

lemma rtfsDirInodeBuild_reopens_witness:
  "\<exists>fs di fs' di'. rtfsDirInodeAddEntry (\<lambda>_. zero_block) demo_dir_fs demo_di [97] (rtfsRuntimeInodeViewInit 701 700 1) = Some (RC0, fs, di) \<and>
     rtfsDirInodeBuild fs 700 = Some (RC0, Some di', fs') \<and> dir_map di' = [[97] \<mapsto> (701, 1)]"
proof -
  obtain fs di where a: "rtfsDirInodeAddEntry (\<lambda>_. zero_block) demo_dir_fs demo_di [97] (rtfsRuntimeInodeViewInit 701 700 1) = Some (RC0, fs, di)"
    "dir_inline_ok fs di" "dir_map di = [[97] \<mapsto> (701, 1)]" "di_handle di = Some 0" "di_ino di = 700" "nb_refs (node_cache fs) 0 = 1"
    using demo_added by auto
  with rtfsDirInodeBuild_reopens [of fs di] show ?thesis by fastforce
qed

end
