(* ===== verification/Spec2Isabelle.thy ===== *)
theory Spec2Isabelle
  imports Recovery_Scan Node_Cache_Spec Page_Cache Journal_Processor Cow_Reclaim File_Rw_Spec Fs_Unmount Dir_Map
begin

text \<open>
  A verification library for rtems-r2fs, a log-structured flash file system for RTEMS.

  \<^bold>\<open>The program.\<close> The device is an array of 4 KiB blocks addressed by LPAs: a super block, the
  SIT (one entry per segment of 512 blocks: which blocks are live), the NAT (one entry per node id: the LPA of the
  node), the SRMAP (one entry per block: who owns it), the metadata journal (a ring) and the main
  area with nodes and data. Blocks of SIT and NAT are read through a cache with reference counts and
  LRU replacement, node blocks through a second one. Every change of the super block, the NAT and the SIT is
  appended to a journal container; the journal writer packs a container into blocks and writes them to the ring;
  recovery replays the ring after a restart.

  \<^bold>\<open>Theories and sources\<close> (paths under \<^verbatim>\<open>src/src\<close>).
  \<^item> \<^verbatim>\<open>Rtfs_Prelude\<close>: collections, the outcome type, generic lemmas on lists and words.
    \<^verbatim>\<open>Rtfs_Bytes\<close>: little-endian words in byte blocks, with read-after-write lemmas.
  \<^item> \<^verbatim>\<open>Cache_Interfaces\<close>: the locales between the cache layers. \<^verbatim>\<open>Cache_Lru\<close>, \<^verbatim>\<open>Cache_Index\<close>,
    \<^verbatim>\<open>Cache_Generic\<close>: \<^verbatim>\<open>cache/cache_lru_replacer.c\<close>, \<^verbatim>\<open>cache/cache_index_manager.c\<close>,
    \<^verbatim>\<open>cache/generic_cache_manager.c\<close>; the locales are interpreted there. \<^verbatim>\<open>Cache_Refcount\<close>: the protocol of reference counts
    and pins that the block caches share, proved once.
  \<^item> \<^verbatim>\<open>Fs_Layout\<close>: \<^verbatim>\<open>fs/fs.h\<close>. \<^verbatim>\<open>Comm_Dev\<close>: \<^verbatim>\<open>communication/dev.c\<close> and the request layer of \<^verbatim>\<open>communication/comm_api.c\<close>.
    \<^verbatim>\<open>Block_Io\<close>: \<^verbatim>\<open>cache/block_buffer.c\<close>, \<^verbatim>\<open>utils/io_utils.c\<close>.
  \<^item> \<^verbatim>\<open>Sit_Nat_Cache\<close>: \<^verbatim>\<open>cache/sit_nat_cache.c\<close>; the cache is transparent. \<^verbatim>\<open>Fs_State\<close>: the state tied together by \<^verbatim>\<open>fs/fs_manager.c\<close>.
    \<^verbatim>\<open>Nat_Utils\<close>, \<^verbatim>\<open>Sit_Utils\<close>, \<^verbatim>\<open>Srmap_Utils\<close>: \<^verbatim>\<open>fs/nat_utils.c\<close>, \<^verbatim>\<open>fs/sit_utils.c\<close>, \<^verbatim>\<open>fs/srmap_utils.c\<close>, each as an update of an abstract table.
    \<^verbatim>\<open>Super_Manager\<close>, \<^verbatim>\<open>Lpa_Alloc\<close>: \<^verbatim>\<open>fs/super_manager.c\<close>; the free nids are a stack, an allocated LPA was dead.
  \<^item> \<^verbatim>\<open>Journal_Format\<close>, \<^verbatim>\<open>Kbtree\<close>, \<^verbatim>\<open>Journal_Writer\<close>: \<^verbatim>\<open>journal/journal_type.h\<close>, \<^verbatim>\<open>journal_container.c\<close>, \<^verbatim>\<open>third_party/klib/kbtree.h\<close>, \<^verbatim>\<open>journal_writer.c\<close>.
    \<^verbatim>\<open>Journal_Recovery\<close>, \<^verbatim>\<open>Recovery_Scan\<close>: the recovery part of \<^verbatim>\<open>communication/comm_api.c\<close>.
    \<^verbatim>\<open>Journal_Roundtrip\<close>: what is written is what is replayed; of several entries for one nid or segment one takes effect.
    \<^verbatim>\<open>Journal_Processor\<close>: \<^verbatim>\<open>journal_processor.c\<close>, \<^verbatim>\<open>journal_process_env.c\<close>; the journal thread, its ring accounting and its hook.
  \<^item> \<^verbatim>\<open>Node_Block_Cache\<close>, \<^verbatim>\<open>Node_Cache_Spec\<close>: \<^verbatim>\<open>cache/node_block_cache.c\<close>. \<^verbatim>\<open>Page_Cache\<close>: \<^verbatim>\<open>cache/page_cache.c\<close>.
    \<^verbatim>\<open>Cow_Reclaim\<close>: \<^verbatim>\<open>fs/cow_reclaim_registry.c\<close>; exactly the blocks of completed transactions are freed, if each is live and
    registered once; otherwise the assertion of \<^verbatim>\<open>sit_utils.c\<close> is hit.
  \<^item> \<^verbatim>\<open>Mkfs\<close>: \<^verbatim>\<open>fs/rtfs_mkfs.c\<close>; the areas of a layout divide the device, and formatting fills them.
    \<^verbatim>\<open>Fs_Manager\<close>, \<^verbatim>\<open>Fs_Unmount\<close>: \<^verbatim>\<open>fs/fs_manager.c\<close>, \<^verbatim>\<open>cache/super_cache.c\<close>; a formatted device mounts into a sound state,
    and a clean unmount on a healthy device puts every queued journal on the ring and loses no change of a table.
  \<^item> \<^verbatim>\<open>File_Map\<close>, \<^verbatim>\<open>File_Map_Spec\<close>: the inode object and the block map of \<^verbatim>\<open>file_inode/file_inode.c\<close>; a look-up is the walk
    through the visible nodes. \<^verbatim>\<open>File_Inode\<close>: read, write, truncate, writeback and commit of the same file,
    \<^verbatim>\<open>file_inode_resolver.c\<close> and \<^verbatim>\<open>inode/inode_loader.c\<close>. \<^verbatim>\<open>File_Rw_Spec\<close>: the content of a file is an array of bytes, which read and write refine.
  \<^item> \<^verbatim>\<open>Dir_Block\<close>: the tables of directory entries (\<^verbatim>\<open>fs/fs.h\<close>), decoding and look-up in \<^verbatim>\<open>dir_inode/dir_inode.c\<close>, \<^verbatim>\<open>inode/inode.c\<close>.
    \<^verbatim>\<open>Dir_Inode\<close>: adding and removing entries, growth, conversion, writeback and commit of the same file, \<^verbatim>\<open>dir_inode_resolver.c\<close>.
    \<^verbatim>\<open>Dir_Table\<close>: the byte operations on a table are set operations on its items. \<^verbatim>\<open>Dir_Spec\<close>: a directory is a map from names to inodes,
    which adding and removing an entry update at one name; reopening gives it back. \<^verbatim>\<open>Dir_Map\<close>: the same when a block is added or the inline table is
    converted, and the properties of directories. A block added to a directory is followed into the addresses of the inode, not into nodes of the map.

  \<^bold>\<open>Conventions.\<close> A call that may fail to return (a failed assertion, an abort, an endless loop) has an option type and
  \<^term>\<open>None\<close> is that outcome; loops that may not end are partial functions in the option monad, the other loops are total
  functions, so no fuel is used. Error codes are values of a datatype. The state of the file system is a record that every
  operation takes and returns. Pointers into the caches are addresses of an explicit heap. Integers of the source are words of
  their width, so wrap-around is part of the model. Two expressions that mix 32-bit operands with a \<^verbatim>\<open>size_t\<close> fix
  one of its widths, which makes no difference for well-formed input: \<^term>\<open>comm_recovery_apply_super_entries\<close> adds without wrap-around,
  \<^term>\<open>rtfsMkfsSitBlock\<close> multiplies in 32 bits (layouts of fewer than \<open>2^32\<close> blocks stay below). What the sources leave open is a parameter: the content of fresh
  memory, the iteration order of a hash table, which requests the driver accepts and which blocks it can read.
  Memory allocation succeeds, and pointers passed by callers are not null. Calls run one after the other; locks are not modelled.

  \<^bold>\<open>Not modelled.\<close> Logging, timers, threads, RTEMS tables and start-up glue, and the handlers above the inodes
  (\<^verbatim>\<open>fs/fs_handler.c\<close>, \<^verbatim>\<open>file_handler.c\<close>, \<^verbatim>\<open>dir_handler.c\<close>): they are bound to the RTEMS location and mount tables, whose code is not part of the repository.
\<close>

end
